(* ===== verification/Prelude.thy ===== *)
theory Prelude
  imports Main "HOL-Library.Word" "HOL-Library.Signed_Division"
begin

text \<open>
  Shared vocabulary of the development: the machine types of the C sources, pointers and
  out-parameters, the faults a C program can run into, bounds-checked array access, signed
  64-bit arithmetic, the step-limited interpreter loop, and the list and word facts that the
  component theories rely on.

  Conventions. A pointer that the code compares with \<^verbatim>\<open>NULL\<close> is a value of
  type \<open>'a ptr\<close>: \<open>None\<close> is \<^verbatim>\<open>NULL\<close>, \<open>Some v\<close> points to an object whose
  contents are \<open>v\<close>; an operation that writes through the pointer returns the new contents.
  Addresses stored inside integers are values of type \<open>addr\<close>, with 0 for \<^verbatim>\<open>NULL\<close>,
  and are resolved in an explicit store. Fixed-width unsigned and signed integers are words
  (read as signed by \<open>sint\<close>). Sizes and indices of type \<^verbatim>\<open>size_t\<close> are natural
  numbers; where an expression can exceed 64 bits the reduction modulo \<open>2 ^ 64\<close> is written out.
\<close>

section \<open>Collections of rules\<close>

named_theorems fault_simps \<open>evaluation of the fault monad and of array accesses\<close>
named_theorems enum_sets \<open>groups of case labels as sets of enumerators\<close>

section \<open>Machine types\<close>

type_synonym u8 = "8 word"
type_synonym u16 = "16 word"
type_synonym u32 = "32 word"
type_synonym u64 = "64 word"
type_synonym i64 = "64 word"
type_synonym addr = "64 word"
type_synonym 'a ptr = "'a option"

abbreviation SIZE_MAX :: nat where
  "SIZE_MAX \<equiv> 18446744073709551615"

abbreviation UINT32_MAX :: nat where
  "UINT32_MAX \<equiv> 4294967295"

abbreviation INT32_MIN :: int where
  "INT32_MIN \<equiv> - 2147483648"

abbreviation INT32_MAX :: int where
  "INT32_MAX \<equiv> 2147483647"

abbreviation INT64_MIN :: int where
  "INT64_MIN \<equiv> - 9223372036854775808"

abbreviation INT64_MAX :: int where
  "INT64_MAX \<equiv> 9223372036854775807"

definition in_int32 :: "int \<Rightarrow> bool" where
  "in_int32 v \<longleftrightarrow> INT32_MIN \<le> v \<and> v \<le> INT32_MAX"

definition in_int64 :: "int \<Rightarrow> bool" where
  "in_int64 v \<longleftrightarrow> INT64_MIN \<le> v \<and> v \<le> INT64_MAX"

definition of_bool64 :: "bool \<Rightarrow> i64" where
  "of_bool64 b = (if b then 1 else 0)"

section \<open>Faults\<close>

text \<open>
  What a C program must not do: access an array or dereference an address out of bounds,
  overflow a signed operation, convert a floating-point value that does not fit, shift by the
  width of the type or more, run a loop without input or output for ever.
\<close>

datatype c_fault = Fault_bounds | Fault_overflow | Fault_convert | Fault_shift | Fault_loop

type_synonym 'a c = "c_fault + 'a"

definition bindc :: "'a c \<Rightarrow> ('a \<Rightarrow> 'b c) \<Rightarrow> 'b c" where
  "bindc m k = (case m of Inl e \<Rightarrow> Inl e | Inr x \<Rightarrow> k x)"

definition rd :: "'a list \<Rightarrow> nat \<Rightarrow> 'a c" where
  "rd xs i = (if i < length xs then Inr (xs ! i) else Inl Fault_bounds)"

definition wr :: "'a list \<Rightarrow> nat \<Rightarrow> 'a \<Rightarrow> 'a list c" where
  "wr xs i v = (if i < length xs then Inr (xs[i := v]) else Inl Fault_bounds)"

definition deref :: "(addr \<Rightarrow> 'a option) \<Rightarrow> addr \<Rightarrow> 'a c" where
  "deref h a = (case h a of None \<Rightarrow> Inl Fault_bounds | Some x \<Rightarrow> Inr x)"

definition load :: "(addr \<Rightarrow> 'a option) \<Rightarrow> addr \<Rightarrow> 'a ptr c" where
  "load h a = (if a = 0 then Inr None else bindc (deref h a) (\<lambda>x. Inr (Some x)))"

fun mapc :: "('a \<Rightarrow> 'b c) \<Rightarrow> 'a list \<Rightarrow> 'b list c" where
  "mapc f [] = Inr []"
| "mapc f (x # xs) = bindc (f x) (\<lambda>y. bindc (mapc f xs) (\<lambda>ys. Inr (y # ys)))"

definition chk64 :: "int \<Rightarrow> i64 c" where
  "chk64 v = (if in_int64 v then Inr (word_of_int v) else Inl Fault_overflow)"

section \<open>The step-limited loop\<close>

text \<open>
  Both IR interpreters run \<^verbatim>\<open>while (pc < n) { if (++steps > limit) return LIMIT; ... }\<close>.
  The first argument is the loop condition, the second one iteration (which goes round again
  or returns), then the value returned when the budget is exhausted, the value returned when
  the condition fails, and the number of iterations left.
\<close>

datatype ('s, 'r) flow = Next 's | Stop 'r

fun limited_loop :: "('s \<Rightarrow> bool) \<Rightarrow> ('s \<Rightarrow> ('s, 'r) flow c) \<Rightarrow> ('s \<Rightarrow> 'r) \<Rightarrow> ('s \<Rightarrow> 'r) \<Rightarrow> nat \<Rightarrow> 's \<Rightarrow> 'r c" where
  "limited_loop guard body lim out 0 s = Inr (if guard s then lim s else out s)"
| "limited_loop guard body lim out (Suc n) s =
     (if guard s
      then bindc (body s) (\<lambda>r. case r of Next s' \<Rightarrow> limited_loop guard body lim out n s' | Stop x \<Rightarrow> Inr x)
      else Inr (out s))"

lemma limited_loop_numeral:
  "limited_loop guard body lim out (numeral k) s =
     (if guard s
      then bindc (body s) (\<lambda>r. case r of Next s' \<Rightarrow> limited_loop guard body lim out (pred_numeral k) s' | Stop x \<Rightarrow> Inr x)
      else Inr (out s))"
  by (simp add: numeral_eq_Suc)

text \<open>
  The contract every such interpreter offers to its callers: an invariant of the loop state
  that each iteration keeps, a set of faults an iteration may raise, and a property of what it
  returns. The client lemma lifts the contract from one iteration to the whole run.
\<close>

locale limited_machine =
  fixes guard :: "'s \<Rightarrow> bool"
    and body :: "'s \<Rightarrow> ('s, 'r) flow c"
    and lim :: "'s \<Rightarrow> 'r"
    and out :: "'s \<Rightarrow> 'r"
    and inv :: "'s \<Rightarrow> bool"
    and may_fault :: "c_fault \<Rightarrow> bool"
    and post :: "'r \<Rightarrow> bool"
  assumes body_fault: "inv s \<Longrightarrow> guard s \<Longrightarrow> body s = Inl e \<Longrightarrow> may_fault e"
    and body_next: "inv s \<Longrightarrow> guard s \<Longrightarrow> body s = Inr (Next s') \<Longrightarrow> inv s'"
    and body_stop: "inv s \<Longrightarrow> guard s \<Longrightarrow> body s = Inr (Stop r) \<Longrightarrow> post r"
    and lim_post: "inv s \<Longrightarrow> guard s \<Longrightarrow> post (lim s)"
    and out_post: "inv s \<Longrightarrow> \<not> guard s \<Longrightarrow> post (out s)"
begin

lemma run_contract:
  "inv s \<Longrightarrow> case limited_loop guard body lim out n s of Inl e \<Rightarrow> may_fault e | Inr r \<Rightarrow> post r"
proof (induction n arbitrary: s)
  case 0
  then show ?case by (simp add: lim_post out_post)
next
  case (Suc n)
  show ?case
  proof (cases "guard s")
    case False
    with Suc.prems show ?thesis by (simp add: out_post)
  next
    case True
    show ?thesis
    proof (cases "body s")
      case (Inl e)
      with True Suc.prems show ?thesis by (simp add: bindc_def body_fault)
    next
      case (Inr r)
      with True Suc show ?thesis
        by (cases r) (auto simp: bindc_def intro: body_next body_stop)
    qed
  qed
qed

text \<open>With a measure that every iteration decreases, the budget is never what ends the run.\<close>

lemma run_measure:
  assumes "inv s" "m s \<le> n" "limited_loop guard body lim out n s = Inr r"
    and pos: "\<And>s. inv s \<Longrightarrow> guard s \<Longrightarrow> 0 < (m s :: nat)"
    and dec: "\<And>s s'. inv s \<Longrightarrow> guard s \<Longrightarrow> body s = Inr (Next s') \<Longrightarrow> m s' < m s"
  shows "(\<exists>s'. inv s' \<and> \<not> guard s' \<and> r = out s') \<or> (\<exists>s'. inv s' \<and> guard s' \<and> body s' = Inr (Stop r))"
  using assms(1-3)
proof (induction n arbitrary: s)
  case 0
  then show ?case using pos [of s] by (auto split: if_splits)
next
  case (Suc n)
  show ?case
  proof (cases "guard s")
    case False
    with Suc.prems show ?thesis by auto
  next
    case True
    with Suc.prems obtain x where x: "body s = Inr x" by (cases "body s") (auto simp: bindc_def)
    show ?thesis
    proof (cases x)
      case (Stop y)
      with True x Suc.prems show ?thesis by (auto simp: bindc_def)
    next
      case (Next s')
      have "inv s'" "m s' \<le> n"
        using body_next dec [of s s'] True x Next Suc.prems by auto
      with Suc.IH [of s'] True x Next Suc.prems show ?thesis by (auto simp: bindc_def)
    qed
  qed
qed

lemma run_fault: "inv s \<Longrightarrow> limited_loop guard body lim out n s = Inl e \<Longrightarrow> may_fault e"
  using run_contract [of s n] by simp

lemma run_post: "inv s \<Longrightarrow> limited_loop guard body lim out n s = Inr r \<Longrightarrow> post r"
  using run_contract [of s n] by simp

end

section \<open>Facts about the fault monad and array accesses\<close>

lemma bindc_simps [fault_simps, simp]:
  "bindc (Inl e) k = Inl e" "bindc (Inr x) k = k x"
  by (simp_all add: bindc_def)

lemma bindc_Inr_iff: "bindc m k = Inr y \<longleftrightarrow> (\<exists>x. m = Inr x \<and> k x = Inr y)"
  by (cases m) auto

lemma bindc_Inl_iff: "bindc m k = Inl e \<longleftrightarrow> m = Inl e \<or> (\<exists>x. m = Inr x \<and> k x = Inl e)"
  by (cases m) auto

lemma rd_ok [fault_simps]: "i < length xs \<Longrightarrow> rd xs i = Inr (xs ! i)"
  by (simp add: rd_def)

lemma wr_ok [fault_simps]: "i < length xs \<Longrightarrow> wr xs i v = Inr (xs[i := v])"
  by (simp add: wr_def)

lemma rd_Inr_iff: "rd xs i = Inr y \<longleftrightarrow> i < length xs \<and> y = xs ! i"
  by (auto simp: rd_def)

lemma wr_Inr_iff: "wr xs i v = Inr ys \<longleftrightarrow> i < length xs \<and> ys = xs[i := v]"
  by (auto simp: wr_def)

lemma mapc_rd_ok:
  "(\<And>x. x \<in> set xs \<Longrightarrow> f x < length ys) \<Longrightarrow> mapc (\<lambda>x. rd ys (f x)) xs = Inr (map (\<lambda>x. ys ! f x) xs)"
  by (induction xs) (simp_all add: rd_ok)

lemma mapc_rd_prefix: "n \<le> length ys \<Longrightarrow> mapc (rd ys) [0..<n] = Inr (take n ys)"
  using mapc_rd_ok [of "[0..<n]" "\<lambda>i. i" ys] by (simp add: list_eq_iff_nth_eq)

lemma mapc_Inr: "mapc (\<lambda>x. Inr (f x)) xs = Inr (map f xs)"
  by (induction xs) simp_all

lemma chk64_ok: "in_int64 v \<Longrightarrow> chk64 v = Inr (word_of_int v)"
  by (simp add: chk64_def)

lemma chk64_Inl_iff: "chk64 v = Inl e \<longleftrightarrow> \<not> in_int64 v \<and> e = Fault_overflow"
  by (auto simp: chk64_def)

lemma first_bad_index:
  assumes "\<not> (\<forall>x\<in>set xs. P x)"
  obtains i where "i < length xs" "\<not> P (xs ! i)" "\<forall>j<i. P (xs ! j)"
proof -
  have ex: "\<exists>i. i < length xs \<and> \<not> P (xs ! i)"
    using assms by (metis in_set_conv_nth)
  let ?i = "LEAST i. i < length xs \<and> \<not> P (xs ! i)"
  have "?i < length xs \<and> \<not> P (xs ! ?i)" using ex by (rule LeastI_ex)
  moreover have "P (xs ! j)" if "j < ?i" for j
    using not_less_Least [OF that] that calculation by simp
  ultimately show ?thesis using that by blast
qed

lemma unat64_less: "unat (w :: u64) < 18446744073709551616"
  by (rule order_less_le_trans [OF unsigned_less]) simp

lemma unat32_less: "unat (w :: u32) < 4294967296"
  by (rule order_less_le_trans [OF unsigned_less]) simp

lemma unat16_less: "unat (w :: u16) < 65536"
  by (rule order_less_le_trans [OF unsigned_less]) simp

lemma unat8_less: "unat (w :: u8) < 256"
  by (rule order_less_le_trans [OF unsigned_less]) simp

lemma sint_in_int64 [simp]: "in_int64 (sint (w :: i64))"
  using sint_range_size [of w] by (simp add: in_int64_def word_size)

lemma sint_word_of_int64: "in_int64 v \<Longrightarrow> sint (word_of_int v :: i64) = v"
  by (simp add: in_int64_def int_word_sint)

lemma in_int32_64: "in_int32 v \<Longrightarrow> in_int64 v"
  by (simp add: in_int32_def in_int64_def)

lemma in_int32_add: "in_int32 a \<Longrightarrow> in_int32 b \<Longrightarrow> in_int64 (a + b)"
  by (simp add: in_int32_def in_int64_def)

lemma in_int32_sub: "in_int32 a \<Longrightarrow> in_int32 b \<Longrightarrow> in_int64 (a - b)"
  by (simp add: in_int32_def in_int64_def)

lemma in_int32_mult:
  assumes "in_int32 a" "in_int32 b"
  shows "in_int64 (a * b)"
proof -
  have "\<bar>a\<bar> \<le> 2147483648" "\<bar>b\<bar> \<le> 2147483648"
    using assms by (auto simp: in_int32_def)
  then have "\<bar>a\<bar> * \<bar>b\<bar> \<le> 2147483648 * 2147483648"
    by (intro mult_mono) auto
  then have "\<bar>a * b\<bar> \<le> 4611686018427387904"
    by (simp add: abs_mult)
  then show ?thesis
    by (simp add: in_int64_def abs_le_iff)
qed

end
