(* ===== verification/JIT_Types.thy ===== *)
theory JIT_Types
  imports Prelude
begin

text \<open>
  The data of the JIT library as \<^verbatim>\<open>include/turbojs/jit.h\<close> declares it: opcodes,
  instructions and functions of the backend-neutral IR, statuses and diagnostics, native entry
  handles, Clutch call sites, callable references, deoptimization frames and boxed values.
  An enumeration is a datatype with the source's enumerators; \<open>TURBOJS_IR_OPCODE_OTHER n\<close>
  stands for an opcode field that holds a number outside the enumeration (an AOT image can
  contain one). Function pointers and object pointers stored in a structure are addresses;
  padding and reserved fields are left out.
\<close>

section \<open>Limits\<close>

abbreviation TURBOJS_IR_MAX_REGISTERS :: nat where
  "TURBOJS_IR_MAX_REGISTERS \<equiv> 64"

abbreviation TURBOJS_IR_NO_REGISTER :: u16 where
  "TURBOJS_IR_NO_REGISTER \<equiv> 65535"

abbreviation TURBOJS_CLUTCH_MAX_ARGUMENTS :: nat where
  "TURBOJS_CLUTCH_MAX_ARGUMENTS \<equiv> 4"

section \<open>Opcodes, statuses, kinds\<close>

datatype TurboJSIROpcode =
    TURBOJS_IR_NOP | TURBOJS_IR_ARGUMENT | TURBOJS_IR_CONSTANT_I64 | TURBOJS_IR_CONSTANT_F64
  | TURBOJS_IR_ADD_I64 | TURBOJS_IR_SUB_I64 | TURBOJS_IR_MUL_I64
  | TURBOJS_IR_ADD_F64 | TURBOJS_IR_SUB_F64 | TURBOJS_IR_MUL_F64 | TURBOJS_IR_DIV_F64
  | TURBOJS_IR_LESS_THAN_F64 | TURBOJS_IR_LESS_EQUAL_F64 | TURBOJS_IR_EQUAL_F64
  | TURBOJS_IR_I64_TO_F64 | TURBOJS_IR_F64_TO_I64_TRUNC
  | TURBOJS_IR_ADD_I32_CHECKED | TURBOJS_IR_SUB_I32_CHECKED | TURBOJS_IR_MUL_I32_CHECKED
  | TURBOJS_IR_DIV_I32_CHECKED | TURBOJS_IR_REM_I32_CHECKED
  | TURBOJS_IR_RUNTIME_HELPER
  | TURBOJS_IR_VALUE_ARGUMENT | TURBOJS_IR_VALUE_UNDEFINED | TURBOJS_IR_VALUE_CONSTANT_I32
  | TURBOJS_IR_VALUE_MOVE | TURBOJS_IR_VALUE_LOCAL_GET | TURBOJS_IR_VALUE_LOCAL_SET
  | TURBOJS_IR_VALUE_TO_BOOLEAN | TURBOJS_IR_VALUE_CALLABLE_CONSTANT
  | TURBOJS_IR_VALUE_CALL_I64 | TURBOJS_IR_VALUE_CALL_F64 | TURBOJS_IR_VALUE_RETURN
  | TURBOJS_IR_LESS_THAN_I64 | TURBOJS_IR_LOCAL_GET | TURBOJS_IR_LOCAL_SET
  | TURBOJS_IR_JUMP | TURBOJS_IR_BRANCH_TRUE | TURBOJS_IR_BRANCH_FALSE
  | TURBOJS_IR_CALL_NATIVE_I64 | TURBOJS_IR_CALL_NATIVE_F64
  | TURBOJS_IR_RETURN_I64 | TURBOJS_IR_RETURN_F64
  | TURBOJS_IR_OPCODE_OTHER nat

datatype TurboJSIRStatus =
    TURBOJS_IR_OK | TURBOJS_IR_INVALID_ARGUMENT | TURBOJS_IR_OUT_OF_MEMORY
  | TURBOJS_IR_INVALID_OPCODE | TURBOJS_IR_INVALID_REGISTER | TURBOJS_IR_INVALID_TARGET
  | TURBOJS_IR_MISSING_RETURN | TURBOJS_IR_EXECUTION_LIMIT | TURBOJS_IR_BAILOUT
  | TURBOJS_IR_EXCEPTION | TURBOJS_IR_UNSUPPORTED

datatype TurboJSBailoutReason =
    TURBOJS_BAILOUT_NONE | TURBOJS_BAILOUT_INTEGER_OVERFLOW | TURBOJS_BAILOUT_DIVISION_BY_ZERO
  | TURBOJS_BAILOUT_DIVISION_OVERFLOW | TURBOJS_BAILOUT_SAFEPOINT_REQUESTED
  | TURBOJS_BAILOUT_RUNTIME_HELPER

datatype TurboJSValueKind =
    TURBOJS_VALUE_UNKNOWN | TURBOJS_VALUE_I64 | TURBOJS_VALUE_I32 | TURBOJS_VALUE_BOOLEAN
  | TURBOJS_VALUE_F64 | TURBOJS_VALUE_HEAP_REFERENCE | TURBOJS_VALUE_CALLABLE_REFERENCE

datatype TurboJSNativeEntryKind =
    TURBOJS_NATIVE_ENTRY_NONE | TURBOJS_NATIVE_ENTRY_INT32 | TURBOJS_NATIVE_ENTRY_FLOAT64

section \<open>Instructions and functions\<close>

record TurboJSIRInstruction =
  ins_opcode :: TurboJSIROpcode
  ins_destination :: u16
  ins_left :: u16
  ins_right :: u16
  ins_immediate :: i64
  ins_target :: u32
  ins_bytecode_offset :: u32

definition null_instruction :: TurboJSIRInstruction where
  "null_instruction = \<lparr>ins_opcode = TURBOJS_IR_NOP, ins_destination = 0, ins_left = 0, ins_right = 0,
     ins_immediate = 0, ins_target = 0, ins_bytecode_offset = 0\<rparr>"

record TurboJSIRFunction =
  irf_instructions :: "TurboJSIRInstruction list ptr"
  irf_instruction_count :: nat
  irf_instruction_capacity :: nat
  irf_register_count :: u16
  irf_argument_count :: u16
  irf_local_count :: u16
  irf_source_local_count :: u16
  irf_register_kind_hints :: "TurboJSValueKind list"
  irf_local_kind_hints :: "TurboJSValueKind list"
  irf_owned_clutch_sites :: "addr list"
  irf_owned_clutch_site_capacity :: nat
  irf_owned_callable_references :: "addr list"
  irf_owned_callable_reference_capacity :: nat
  irf_instance_id :: u64
  irf_revision :: u64

record TurboJSIRDiagnostic =
  diag_status :: TurboJSIRStatus
  diag_instruction_index :: nat
  diag_message :: string

section \<open>Rooting hooks, native entries, call sites, callable references\<close>

record TurboJSRootingHooks =
  rh_opaque :: addr
  rh_retain :: addr
  rh_release :: addr

definition null_hooks :: TurboJSRootingHooks where
  "null_hooks = \<lparr>rh_opaque = 0, rh_retain = 0, rh_release = 0\<rparr>"

record TurboJSNativeEntryHandle =
  neh_function :: addr
  neh_generation :: u64
  neh_argument_count :: u16
  neh_kind :: TurboJSNativeEntryKind
  neh_result_kind :: TurboJSValueKind

record TurboJSClutchCallFrame =
  ccf_target :: addr
  ccf_expected_generation :: u64
  ccf_closure_environment :: addr
  ccf_safepoint :: addr
  ccf_argument_count :: nat
  ccf_caller_saved_gpr_mask :: u64
  ccf_caller_saved_fpr_mask :: u64
  ccf_flags :: u32

abbreviation TURBOJS_CLUTCH_CALL_HAS_ENVIRONMENT :: u8 where
  "TURBOJS_CLUTCH_CALL_HAS_ENVIRONMENT \<equiv> 4"

abbreviation TURBOJS_CLUTCH_CALL_HAS_RECEIVER :: u8 where
  "TURBOJS_CLUTCH_CALL_HAS_RECEIVER \<equiv> 8"

abbreviation TURBOJS_CLUTCH_CALL_HAS_RECEIVER_SHAPE_GUARD :: u8 where
  "TURBOJS_CLUTCH_CALL_HAS_RECEIVER_SHAPE_GUARD \<equiv> 16"

record TurboJSClutchCallSite =
  cs_target :: addr
  cs_expected_generation :: u64
  cs_argument_count :: u16
  cs_expected_kind :: TurboJSNativeEntryKind
  cs_flags :: u8
  cs_continuation_bytecode_offset :: u32
  cs_closure_environment :: addr
  cs_environment_rooting :: TurboJSRootingHooks
  cs_owns_environment :: bool
  cs_target_identity :: u64
  cs_receiver_shape_identity :: u64
  cs_receiver_shape_offset :: u32
  cs_receiver_register :: u16
  cs_argument_registers :: "u16 list"

record TurboJSCallableReference =
  cr_target_identity :: u64
  cr_target :: addr
  cr_expected_generation :: u64
  cr_closure_environment :: addr
  cr_environment_rooting :: TurboJSRootingHooks
  cr_argument_count :: u16
  cr_expected_kind :: TurboJSNativeEntryKind
  cr_owns_environment :: bool

section \<open>Deoptimization frames and boxed values\<close>

record TurboJSBailoutInfo =
  bi_reason :: TurboJSBailoutReason
  bi_instruction_index :: nat
  bi_bytecode_offset :: u32

record TurboJSDeoptFrame =
  df_bailout :: TurboJSBailoutInfo
  df_register_count :: u16
  df_local_count :: u16
  df_stack_count :: u16
  df_materialized_register_mask :: u64
  df_materialized_local_mask :: u64
  df_live_register_mask :: u64
  df_live_local_mask :: u64
  df_register_values :: "i64 list"
  df_local_values :: "i64 list"
  df_register_kinds :: "TurboJSValueKind list"
  df_local_kinds :: "TurboJSValueKind list"

text \<open>
  \<^verbatim>\<open>TurboJSBoxedValue\<close> is a tag and a union; every member of the union is read back
  through the same 64 bits.
\<close>

datatype TurboJSBoxedValueTag =
    TURBOJS_BOXED_UNDEFINED | TURBOJS_BOXED_INT32 | TURBOJS_BOXED_INT64 | TURBOJS_BOXED_BOOLEAN
  | TURBOJS_BOXED_FLOAT64 | TURBOJS_BOXED_HEAP_REFERENCE | TURBOJS_BOXED_CALLABLE_REFERENCE

record TurboJSBoxedValue =
  bv_tag :: TurboJSBoxedValueTag
  bv_as :: u64

record TurboJSBoxedDeoptFrame =
  bdf_bailout :: TurboJSBailoutInfo
  bdf_register_count :: u16
  bdf_local_count :: u16
  bdf_stack_count :: u16
  bdf_live_register_mask :: u64
  bdf_live_local_mask :: u64
  bdf_registers :: "TurboJSBoxedValue list"
  bdf_locals :: "TurboJSBoxedValue list"
  bdf_stack :: "TurboJSBoxedValue list"
  bdf_reference_register_mask :: u64
  bdf_reference_local_mask :: u64
  bdf_rooting :: TurboJSRootingHooks

section \<open>The store and the services the model is parametrised over\<close>

text \<open>
  \<open>jit_heap\<close> resolves the addresses that instructions, handles and call sites carry.
  \<open>jit_env\<close> holds what is not C code of the JIT library: running emitted machine code
  (which takes the old contents of the result cell and gives the status and the new contents),
  the result kind recorded for an emitted function, the embedder's retain callback (function
  pointer, opaque pointer, reference), and binary64 arithmetic on the 64-bit patterns the IR
  keeps in its registers, and the contents of an automatic variable of type
  \<^verbatim>\<open>double\<close> before it is first written. The truncating conversion is \<open>None\<close> where the value does not fit
  into \<^verbatim>\<open>int64_t\<close>.
\<close>

record jit_heap =
  heap_sites :: "addr \<Rightarrow> TurboJSClutchCallSite option"
  heap_handles :: "addr \<Rightarrow> TurboJSNativeEntryHandle option"
  heap_callables :: "addr \<Rightarrow> TurboJSCallableReference option"

record jit_env =
  env_native_invoke :: "addr \<Rightarrow> i64 list ptr \<Rightarrow> nat \<Rightarrow> i64 \<Rightarrow> TurboJSIRStatus \<times> i64"
  env_native_invoke_f64 :: "addr \<Rightarrow> u64 list ptr \<Rightarrow> nat \<Rightarrow> u64 \<Rightarrow> TurboJSIRStatus \<times> u64"
  env_native_result_kind :: "addr \<Rightarrow> TurboJSValueKind"
  env_retain :: "addr \<Rightarrow> addr \<Rightarrow> addr \<Rightarrow> addr"
  env_f64_add :: "u64 \<Rightarrow> u64 \<Rightarrow> u64"
  env_f64_sub :: "u64 \<Rightarrow> u64 \<Rightarrow> u64"
  env_f64_mul :: "u64 \<Rightarrow> u64 \<Rightarrow> u64"
  env_f64_div :: "u64 \<Rightarrow> u64 \<Rightarrow> u64"
  env_f64_less :: "u64 \<Rightarrow> u64 \<Rightarrow> bool"
  env_f64_less_equal :: "u64 \<Rightarrow> u64 \<Rightarrow> bool"
  env_f64_equal :: "u64 \<Rightarrow> u64 \<Rightarrow> bool"
  env_i64_to_f64 :: "i64 \<Rightarrow> u64"
  env_f64_to_i64 :: "u64 \<Rightarrow> i64 option"
  env_uninitialised_f64 :: u64

text \<open>
  A concrete choice of the services, for evaluating examples: machine code at any address
  returns the sum of its first two arguments (or 0), retaining a reference gives it back, and
  the binary64 operations work on the patterns as integers.
\<close>

definition example_env :: jit_env where
  "example_env = \<lparr>
     env_native_invoke = (\<lambda>f args n r. (TURBOJS_IR_OK,
       case args of Some (a # b # _) \<Rightarrow> a + b | _ \<Rightarrow> 0)),
     env_native_invoke_f64 = (\<lambda>f args n r. (TURBOJS_IR_OK, 0)),
     env_native_result_kind = (\<lambda>f. TURBOJS_VALUE_I64),
     env_retain = (\<lambda>f q r. r),
     env_f64_add = (+), env_f64_sub = (-), env_f64_mul = (*), env_f64_div = (div),
     env_f64_less = (<), env_f64_less_equal = (\<le>), env_f64_equal = (=),
     env_i64_to_f64 = (\<lambda>x. x), env_f64_to_i64 = Some,
     env_uninitialised_f64 = 0\<rparr>"

definition empty_heap :: jit_heap where
  "empty_heap = \<lparr>heap_sites = (\<lambda>_. None), heap_handles = (\<lambda>_. None), heap_callables = (\<lambda>_. None)\<rparr>"

text \<open>The calls to the rooting hooks, in order, with the opaque pointer and the reference.\<close>

datatype root_event = Retained addr addr | Released addr addr

type_synonym root_log = "root_event list"

end
