(* ===== verification/Clutch.thy ===== *)
theory Clutch
  imports JIT_Types "HOL-Library.Multiset"
begin

text \<open>
  Native entry handles, Clutch call frames, call sites and callable references: the part of
  \<^verbatim>\<open>src/jit/runtime/code_cache.c\<close> before the cache proper, and
  \<^verbatim>\<open>src/jit/runtime/callable_reference.c\<close>. A handle is published by the code cache;
  callers remember its generation and never a code pointer, and every call re-checks the
  generation. Call sites and callable references may own a rooted closure environment; the
  calls to the embedder's hooks are recorded in a log, in order.
\<close>

unbundle bit_operations_syntax

section \<open>Native entry handles\<close>

definition null_handle :: TurboJSNativeEntryHandle where
  "null_handle = \<lparr>neh_function = 0, neh_generation = 0, neh_argument_count = 0,
     neh_kind = TURBOJS_NATIVE_ENTRY_NONE, neh_result_kind = TURBOJS_VALUE_UNKNOWN\<rparr>"

definition next_entry_generation :: "u64 \<Rightarrow> u64" where
  "next_entry_generation generation =
     (let g = generation + 1 in if g \<noteq> 0 then g else 1)"

definition TurboJS_NativeEntryHandleInit :: "TurboJSNativeEntryHandle ptr \<Rightarrow> TurboJSNativeEntryHandle ptr" where
  "TurboJS_NativeEntryHandleInit handle = map_option (\<lambda>_. null_handle) handle"

definition invalidate_handle :: "TurboJSNativeEntryHandle \<Rightarrow> TurboJSNativeEntryHandle" where
  "invalidate_handle h =
     h\<lparr>neh_generation := (if neh_function h \<noteq> 0 \<or> neh_kind h \<noteq> TURBOJS_NATIVE_ENTRY_NONE
                          then next_entry_generation (neh_generation h) else neh_generation h),
       neh_function := 0, neh_argument_count := 0,
       neh_kind := TURBOJS_NATIVE_ENTRY_NONE, neh_result_kind := TURBOJS_VALUE_UNKNOWN\<rparr>"

definition TurboJS_NativeEntryHandleInvalidate :: "TurboJSNativeEntryHandle ptr \<Rightarrow> TurboJSNativeEntryHandle ptr" where
  "TurboJS_NativeEntryHandleInvalidate handle = map_option invalidate_handle handle"

definition publish_entry_handle ::
  "jit_env \<Rightarrow> TurboJSNativeEntryHandle ptr \<Rightarrow> addr \<Rightarrow> TurboJSNativeEntryKind \<Rightarrow> u16 \<Rightarrow> TurboJSNativeEntryHandle ptr" where
  "publish_entry_handle E handle function kind argument_count =
     (case handle of
        None \<Rightarrow> None
      | Some h \<Rightarrow>
          if neh_function h = function \<and> neh_kind h = kind \<and> neh_argument_count h = argument_count
          then Some h
          else Some (h\<lparr>neh_generation := next_entry_generation (neh_generation h),
                       neh_function := function, neh_argument_count := argument_count,
                       neh_kind := kind, neh_result_kind := env_native_result_kind E function\<rparr>))"

definition TurboJS_NativeEntryHandleIsLive ::
  "TurboJSNativeEntryHandle ptr \<Rightarrow> u64 \<Rightarrow> TurboJSNativeEntryKind \<Rightarrow> bool" where
  "TurboJS_NativeEntryHandleIsLive handle expected_generation expected_kind =
     (case handle of
        None \<Rightarrow> False
      | Some h \<Rightarrow> neh_function h \<noteq> 0 \<and> expected_generation \<noteq> 0 \<and>
                  neh_generation h = expected_generation \<and> neh_kind h = expected_kind)"

definition TurboJS_NativeEntryInvokeI64 ::
  "jit_env \<Rightarrow> TurboJSNativeEntryHandle ptr \<Rightarrow> u64 \<Rightarrow> i64 list ptr \<Rightarrow> nat \<Rightarrow> i64 \<Rightarrow> TurboJSIRStatus \<times> i64" where
  "TurboJS_NativeEntryInvokeI64 E handle expected_generation arguments argument_count result =
     (if \<not> TurboJS_NativeEntryHandleIsLive handle expected_generation TURBOJS_NATIVE_ENTRY_INT32
      then (TURBOJS_IR_UNSUPPORTED, result)
      else if argument_count < unat (neh_argument_count (the handle))
      then (TURBOJS_IR_INVALID_ARGUMENT, result)
      else env_native_invoke E (neh_function (the handle)) arguments argument_count result)"

definition TurboJS_NativeEntryInvokeF64 ::
  "jit_env \<Rightarrow> TurboJSNativeEntryHandle ptr \<Rightarrow> u64 \<Rightarrow> u64 list ptr \<Rightarrow> nat \<Rightarrow> u64 \<Rightarrow> TurboJSIRStatus \<times> u64" where
  "TurboJS_NativeEntryInvokeF64 E handle expected_generation arguments argument_count result =
     (if \<not> TurboJS_NativeEntryHandleIsLive handle expected_generation TURBOJS_NATIVE_ENTRY_FLOAT64
      then (TURBOJS_IR_UNSUPPORTED, result)
      else if argument_count < unat (neh_argument_count (the handle))
      then (TURBOJS_IR_INVALID_ARGUMENT, result)
      else env_native_invoke_f64 E (neh_function (the handle)) arguments argument_count result)"

section \<open>Call frames\<close>

definition null_call_frame :: TurboJSClutchCallFrame where
  "null_call_frame = \<lparr>ccf_target = 0, ccf_expected_generation = 0, ccf_closure_environment = 0,
     ccf_safepoint = 0, ccf_argument_count = 0, ccf_caller_saved_gpr_mask = 0,
     ccf_caller_saved_fpr_mask = 0, ccf_flags = 0\<rparr>"

definition TurboJS_ClutchCallFrameInit :: "TurboJSClutchCallFrame ptr \<Rightarrow> TurboJSClutchCallFrame ptr" where
  "TurboJS_ClutchCallFrameInit frame = map_option (\<lambda>_. null_call_frame) frame"

definition TurboJS_ClutchCallI64 ::
  "jit_env \<Rightarrow> jit_heap \<Rightarrow> TurboJSClutchCallFrame ptr \<Rightarrow> i64 list ptr \<Rightarrow> i64 ptr \<Rightarrow> (TurboJSIRStatus \<times> i64 ptr) c" where
  "TurboJS_ClutchCallI64 E H frame arguments result =
     (case (frame, result) of
        (Some fr, Some cell) \<Rightarrow>
          if ccf_target fr = 0 then Inr (TURBOJS_IR_INVALID_ARGUMENT, result)
          else bindc (load (heap_handles H) (ccf_target fr)) (\<lambda>handle.
                 case TurboJS_NativeEntryInvokeI64 E handle (ccf_expected_generation fr) arguments
                        (ccf_argument_count fr) cell
                 of (status, cell') \<Rightarrow> Inr (status, Some cell'))
      | _ \<Rightarrow> Inr (TURBOJS_IR_INVALID_ARGUMENT, result))"

definition TurboJS_ClutchCallF64 ::
  "jit_env \<Rightarrow> jit_heap \<Rightarrow> TurboJSClutchCallFrame ptr \<Rightarrow> u64 list ptr \<Rightarrow> u64 ptr \<Rightarrow> (TurboJSIRStatus \<times> u64 ptr) c" where
  "TurboJS_ClutchCallF64 E H frame arguments result =
     (case (frame, result) of
        (Some fr, Some cell) \<Rightarrow>
          if ccf_target fr = 0 then Inr (TURBOJS_IR_INVALID_ARGUMENT, result)
          else bindc (load (heap_handles H) (ccf_target fr)) (\<lambda>handle.
                 case TurboJS_NativeEntryInvokeF64 E handle (ccf_expected_generation fr) arguments
                        (ccf_argument_count fr) cell
                 of (status, cell') \<Rightarrow> Inr (status, Some cell'))
      | _ \<Rightarrow> Inr (TURBOJS_IR_INVALID_ARGUMENT, result))"

section \<open>Calls to the rooting hooks\<close>

definition call_retain :: "jit_env \<Rightarrow> TurboJSRootingHooks \<Rightarrow> addr \<Rightarrow> root_log \<Rightarrow> addr \<times> root_log" where
  "call_retain E hooks reference log =
     (let rooted = env_retain E (rh_retain hooks) (rh_opaque hooks) reference
      in (rooted, if rooted = 0 then log else log @ [Retained (rh_opaque hooks) rooted]))"

definition call_release :: "TurboJSRootingHooks \<Rightarrow> addr \<Rightarrow> root_log \<Rightarrow> root_log" where
  "call_release hooks reference log = log @ [Released (rh_opaque hooks) reference]"

section \<open>Call sites\<close>

definition null_call_site :: TurboJSClutchCallSite where
  "null_call_site = \<lparr>cs_target = 0, cs_expected_generation = 0, cs_argument_count = 0,
     cs_expected_kind = TURBOJS_NATIVE_ENTRY_NONE, cs_flags = 0,
     cs_continuation_bytecode_offset = 0, cs_closure_environment = 0,
     cs_environment_rooting = null_hooks, cs_owns_environment = False, cs_target_identity = 0,
     cs_receiver_shape_identity = 0, cs_receiver_shape_offset = 0, cs_receiver_register = 0,
     cs_argument_registers = replicate TURBOJS_CLUTCH_MAX_ARGUMENTS 0\<rparr>"

definition TurboJS_ClutchCallSiteInit ::
  "TurboJSClutchCallSite ptr \<Rightarrow> addr \<Rightarrow> u64 \<Rightarrow> TurboJSNativeEntryKind \<Rightarrow> u16 \<Rightarrow> TurboJSClutchCallSite ptr" where
  "TurboJS_ClutchCallSiteInit site target expected_generation expected_kind argument_count =
     map_option (\<lambda>_. null_call_site\<lparr>cs_target := target,
       cs_expected_generation := expected_generation, cs_expected_kind := expected_kind,
       cs_argument_count := argument_count, cs_receiver_register := TURBOJS_IR_NO_REGISTER,
       cs_argument_registers := replicate TURBOJS_CLUTCH_MAX_ARGUMENTS TURBOJS_IR_NO_REGISTER\<rparr>) site"

definition TurboJS_ClutchCallSiteSetTargetIdentity ::
  "TurboJSClutchCallSite ptr \<Rightarrow> u64 \<Rightarrow> TurboJSClutchCallSite ptr" where
  "TurboJS_ClutchCallSiteSetTargetIdentity site target_identity =
     map_option (\<lambda>s. s\<lparr>cs_target_identity := target_identity\<rparr>) site"

definition destroy_call_site :: "TurboJSClutchCallSite \<Rightarrow> root_log \<Rightarrow> TurboJSClutchCallSite \<times> root_log" where
  "destroy_call_site s log =
     (s\<lparr>cs_closure_environment := 0, cs_environment_rooting := null_hooks,
        cs_owns_environment := False,
        cs_flags := cs_flags s AND NOT TURBOJS_CLUTCH_CALL_HAS_ENVIRONMENT\<rparr>,
      if cs_owns_environment s \<and> cs_closure_environment s \<noteq> 0 \<and>
         rh_release (cs_environment_rooting s) \<noteq> 0
      then call_release (cs_environment_rooting s) (cs_closure_environment s) log else log)"

definition TurboJS_ClutchCallSiteDestroy ::
  "TurboJSClutchCallSite ptr \<Rightarrow> root_log \<Rightarrow> TurboJSClutchCallSite ptr \<times> root_log" where
  "TurboJS_ClutchCallSiteDestroy site log =
     (case site of
        None \<Rightarrow> (None, log)
      | Some s \<Rightarrow> (case destroy_call_site s log of (s', log') \<Rightarrow> (Some s', log')))"

definition set_site_environment :: "addr \<Rightarrow> TurboJSClutchCallSite \<Rightarrow> TurboJSClutchCallSite" where
  "set_site_environment rooted s =
     s\<lparr>cs_closure_environment := rooted,
       cs_flags := (if rooted \<noteq> 0 then cs_flags s OR TURBOJS_CLUTCH_CALL_HAS_ENVIRONMENT
                    else cs_flags s AND NOT TURBOJS_CLUTCH_CALL_HAS_ENVIRONMENT)\<rparr>"

definition TurboJS_ClutchCallSiteSetClosureEnvironment ::
  "jit_env \<Rightarrow> TurboJSClutchCallSite ptr \<Rightarrow> addr \<Rightarrow> TurboJSRootingHooks ptr \<Rightarrow> root_log
     \<Rightarrow> TurboJSIRStatus \<times> TurboJSClutchCallSite ptr \<times> root_log" where
  "TurboJS_ClutchCallSiteSetClosureEnvironment E site closure_environment rooting log =
     (case site of
        None \<Rightarrow> (TURBOJS_IR_INVALID_ARGUMENT, None, log)
      | Some s0 \<Rightarrow>
          (case destroy_call_site s0 log of (s, log1) \<Rightarrow>
             (case rooting of
                Some hooks \<Rightarrow>
                  if closure_environment \<noteq> 0
                  then if rh_retain hooks = 0 \<or> rh_release hooks = 0
                       then (TURBOJS_IR_INVALID_ARGUMENT, Some s, log1)
                       else (case call_retain E hooks closure_environment log1 of (rooted, log2) \<Rightarrow>
                               if rooted = 0 then (TURBOJS_IR_OUT_OF_MEMORY, Some s, log2)
                               else (TURBOJS_IR_OK,
                                     Some (set_site_environment rooted
                                       (s\<lparr>cs_environment_rooting := hooks, cs_owns_environment := True\<rparr>)),
                                     log2))
                  else (TURBOJS_IR_OK, Some (set_site_environment closure_environment s), log1)
              | None \<Rightarrow> (TURBOJS_IR_OK, Some (set_site_environment closure_environment s), log1))))"

definition TurboJS_ClutchCallSiteClone ::
  "jit_env \<Rightarrow> TurboJSClutchCallSite ptr \<Rightarrow> TurboJSClutchCallSite ptr \<Rightarrow> root_log
     \<Rightarrow> (TurboJSIRStatus \<times> TurboJSClutchCallSite ptr \<times> root_log) c" where
  "TurboJS_ClutchCallSiteClone E destination source log =
     (case (destination, source) of
        (Some _, Some src) \<Rightarrow>
          (let dst = src\<lparr>cs_owns_environment := False, cs_environment_rooting := null_hooks\<rparr>
           in if cs_closure_environment src \<noteq> 0 \<and> cs_owns_environment src
              then if rh_retain (cs_environment_rooting src) = 0 then Inl Fault_bounds
                   else (case call_retain E (cs_environment_rooting src) (cs_closure_environment src) log of
                           (rooted, log') \<Rightarrow>
                             if rooted = 0 then Inr (TURBOJS_IR_OUT_OF_MEMORY, Some null_call_site, log')
                             else Inr (TURBOJS_IR_OK,
                                       Some (dst\<lparr>cs_closure_environment := rooted,
                                         cs_environment_rooting := cs_environment_rooting src,
                                         cs_owns_environment := True\<rparr>), log'))
              else Inr (TURBOJS_IR_OK, Some dst, log))
      | _ \<Rightarrow> Inr (TURBOJS_IR_INVALID_ARGUMENT, destination, log))"

definition TurboJS_ClutchCallSiteSetArgument ::
  "TurboJSClutchCallSite ptr \<Rightarrow> u16 \<Rightarrow> u16 \<Rightarrow> TurboJSIRStatus \<times> TurboJSClutchCallSite ptr" where
  "TurboJS_ClutchCallSiteSetArgument site argument_index source_register =
     (case site of
        None \<Rightarrow> (TURBOJS_IR_INVALID_ARGUMENT, None)
      | Some s \<Rightarrow>
          if cs_argument_count s \<le> argument_index \<or>
             TURBOJS_CLUTCH_MAX_ARGUMENTS \<le> unat argument_index \<or>
             source_register = TURBOJS_IR_NO_REGISTER
          then (TURBOJS_IR_INVALID_ARGUMENT, site)
          else (TURBOJS_IR_OK,
                Some (s\<lparr>cs_argument_registers := (cs_argument_registers s)[unat argument_index := source_register]\<rparr>)))"

fun shift_arguments :: "nat \<Rightarrow> u16 list \<Rightarrow> u16 list" where
  "shift_arguments 0 regs = regs"
| "shift_arguments (Suc i) regs = shift_arguments i (regs[Suc i := regs ! i])"

definition TurboJS_ClutchCallSiteSetReceiver ::
  "TurboJSClutchCallSite ptr \<Rightarrow> u16 \<Rightarrow> TurboJSIRStatus \<times> TurboJSClutchCallSite ptr" where
  "TurboJS_ClutchCallSiteSetReceiver site source_register =
     (case site of
        None \<Rightarrow> (TURBOJS_IR_INVALID_ARGUMENT, None)
      | Some s \<Rightarrow>
          if source_register = TURBOJS_IR_NO_REGISTER \<or>
             TURBOJS_CLUTCH_MAX_ARGUMENTS \<le> unat (cs_argument_count s)
          then (TURBOJS_IR_INVALID_ARGUMENT, site)
          else if cs_flags s AND TURBOJS_CLUTCH_CALL_HAS_RECEIVER \<noteq> 0
          then (TURBOJS_IR_INVALID_ARGUMENT, site)
          else (TURBOJS_IR_OK,
                Some (s\<lparr>cs_argument_registers :=
                          (shift_arguments (unat (cs_argument_count s)) (cs_argument_registers s))[0 := source_register],
                        cs_receiver_register := source_register,
                        cs_argument_count := cs_argument_count s + 1,
                        cs_flags := cs_flags s OR TURBOJS_CLUTCH_CALL_HAS_RECEIVER\<rparr>)))"

definition TurboJS_ClutchCallSiteSetReceiverShapeGuard ::
  "TurboJSClutchCallSite ptr \<Rightarrow> u32 \<Rightarrow> u64 \<Rightarrow> TurboJSIRStatus \<times> TurboJSClutchCallSite ptr" where
  "TurboJS_ClutchCallSiteSetReceiverShapeGuard site shape_offset expected_shape_identity =
     (case site of
        None \<Rightarrow> (TURBOJS_IR_INVALID_ARGUMENT, None)
      | Some s \<Rightarrow>
          if cs_flags s AND TURBOJS_CLUTCH_CALL_HAS_RECEIVER = 0 \<or> expected_shape_identity = 0
          then (TURBOJS_IR_INVALID_ARGUMENT, site)
          else (TURBOJS_IR_OK,
                Some (s\<lparr>cs_receiver_shape_offset := shape_offset,
                        cs_receiver_shape_identity := expected_shape_identity,
                        cs_flags := cs_flags s OR TURBOJS_CLUTCH_CALL_HAS_RECEIVER_SHAPE_GUARD\<rparr>)))"

definition TurboJS_ClutchCallSiteInvokeI64 ::
  "jit_env \<Rightarrow> jit_heap \<Rightarrow> TurboJSClutchCallSite ptr \<Rightarrow> i64 list ptr \<Rightarrow> i64 ptr \<Rightarrow> (TurboJSIRStatus \<times> i64 ptr) c" where
  "TurboJS_ClutchCallSiteInvokeI64 E H site arguments result =
     (case (site, result) of
        (Some s, Some cell) \<Rightarrow>
          if cs_target s = 0 \<or> TURBOJS_CLUTCH_MAX_ARGUMENTS < unat (cs_argument_count s) \<or>
             (cs_argument_count s \<noteq> 0 \<and> arguments = None) \<or>
             cs_expected_kind s \<noteq> TURBOJS_NATIVE_ENTRY_INT32
          then Inr (TURBOJS_IR_INVALID_ARGUMENT, result)
          else bindc (load (heap_handles H) (cs_target s)) (\<lambda>handle.
                 case TurboJS_NativeEntryInvokeI64 E handle (cs_expected_generation s) arguments
                        (unat (cs_argument_count s)) cell
                 of (status, cell') \<Rightarrow> Inr (status, Some cell'))
      | _ \<Rightarrow> Inr (TURBOJS_IR_INVALID_ARGUMENT, result))"

definition TurboJS_ClutchCallSiteInvokeF64 ::
  "jit_env \<Rightarrow> jit_heap \<Rightarrow> TurboJSClutchCallSite ptr \<Rightarrow> u64 list ptr \<Rightarrow> u64 ptr \<Rightarrow> (TurboJSIRStatus \<times> u64 ptr) c" where
  "TurboJS_ClutchCallSiteInvokeF64 E H site arguments result =
     (case (site, result) of
        (Some s, Some cell) \<Rightarrow>
          if cs_target s = 0 \<or> TURBOJS_CLUTCH_MAX_ARGUMENTS < unat (cs_argument_count s) \<or>
             (cs_argument_count s \<noteq> 0 \<and> arguments = None) \<or>
             cs_expected_kind s \<noteq> TURBOJS_NATIVE_ENTRY_FLOAT64
          then Inr (TURBOJS_IR_INVALID_ARGUMENT, result)
          else bindc (load (heap_handles H) (cs_target s)) (\<lambda>handle.
                 case TurboJS_NativeEntryInvokeF64 E handle (cs_expected_generation s) arguments
                        (unat (cs_argument_count s)) cell
                 of (status, cell') \<Rightarrow> Inr (status, Some cell'))
      | _ \<Rightarrow> Inr (TURBOJS_IR_INVALID_ARGUMENT, result))"

section \<open>Callable references\<close>

definition null_callable :: TurboJSCallableReference where
  "null_callable = \<lparr>cr_target_identity = 0, cr_target = 0, cr_expected_generation = 0,
     cr_closure_environment = 0, cr_environment_rooting = null_hooks, cr_argument_count = 0,
     cr_expected_kind = TURBOJS_NATIVE_ENTRY_NONE, cr_owns_environment = False\<rparr>"

definition TurboJS_CallableReferenceInit ::
  "TurboJSCallableReference ptr \<Rightarrow> u64 \<Rightarrow> addr \<Rightarrow> u64 \<Rightarrow> TurboJSNativeEntryKind \<Rightarrow> u16 \<Rightarrow> addr
     \<Rightarrow> TurboJSCallableReference ptr" where
  "TurboJS_CallableReferenceInit reference target_identity target expected_generation expected_kind
     argument_count closure_environment =
     map_option (\<lambda>_. null_callable\<lparr>cr_target_identity := target_identity, cr_target := target,
       cr_expected_generation := expected_generation, cr_closure_environment := closure_environment,
       cr_argument_count := argument_count, cr_expected_kind := expected_kind\<rparr>) reference"

definition TurboJS_CallableReferenceInitRooted ::
  "jit_env \<Rightarrow> TurboJSCallableReference ptr \<Rightarrow> u64 \<Rightarrow> addr \<Rightarrow> u64 \<Rightarrow> TurboJSNativeEntryKind \<Rightarrow> u16 \<Rightarrow> addr
     \<Rightarrow> TurboJSRootingHooks ptr \<Rightarrow> root_log \<Rightarrow> TurboJSIRStatus \<times> TurboJSCallableReference ptr \<times> root_log" where
  "TurboJS_CallableReferenceInitRooted E reference target_identity target expected_generation
     expected_kind argument_count closure_environment rooting log =
     (case (reference, rooting) of
        (Some _, Some hooks) \<Rightarrow>
          if rh_retain hooks = 0 \<or> rh_release hooks = 0
          then (TURBOJS_IR_INVALID_ARGUMENT, reference, log)
          else (case (if closure_environment \<noteq> 0 then call_retain E hooks closure_environment log
                      else (closure_environment, log)) of (rooted, log') \<Rightarrow>
                  if closure_environment \<noteq> 0 \<and> rooted = 0
                  then (TURBOJS_IR_OUT_OF_MEMORY, Some null_callable, log')
                  else (TURBOJS_IR_OK,
                        Some \<lparr>cr_target_identity = target_identity, cr_target = target,
                          cr_expected_generation = expected_generation,
                          cr_closure_environment = rooted, cr_environment_rooting = hooks,
                          cr_argument_count = argument_count, cr_expected_kind = expected_kind,
                          cr_owns_environment = (closure_environment \<noteq> 0)\<rparr>, log'))
      | _ \<Rightarrow> (TURBOJS_IR_INVALID_ARGUMENT, reference, log))"

definition destroy_callable :: "TurboJSCallableReference \<Rightarrow> root_log \<Rightarrow> TurboJSCallableReference \<times> root_log" where
  "destroy_callable r log =
     (null_callable,
      if cr_owns_environment r \<and> cr_closure_environment r \<noteq> 0 \<and>
         rh_release (cr_environment_rooting r) \<noteq> 0
      then call_release (cr_environment_rooting r) (cr_closure_environment r) log else log)"

definition TurboJS_CallableReferenceDestroy ::
  "TurboJSCallableReference ptr \<Rightarrow> root_log \<Rightarrow> TurboJSCallableReference ptr \<times> root_log" where
  "TurboJS_CallableReferenceDestroy reference log =
     (case reference of
        None \<Rightarrow> (None, log)
      | Some r \<Rightarrow> (case destroy_callable r log of (r', log') \<Rightarrow> (Some r', log')))"

definition TurboJS_CallableReferenceIsLive :: "jit_heap \<Rightarrow> TurboJSCallableReference ptr \<Rightarrow> bool c" where
  "TurboJS_CallableReferenceIsLive H reference =
     (case reference of
        None \<Rightarrow> Inr False
      | Some r \<Rightarrow>
          if cr_target_identity r = 0 \<or> cr_target r = 0 then Inr False
          else bindc (deref (heap_handles H) (cr_target r)) (\<lambda>h.
                 if cr_argument_count r \<noteq> neh_argument_count h then Inr False
                 else Inr (TurboJS_NativeEntryHandleIsLive (Some h) (cr_expected_generation r) (cr_expected_kind r))))"

definition TurboJS_CallableReferenceInvokeI64 ::
  "jit_env \<Rightarrow> jit_heap \<Rightarrow> TurboJSCallableReference ptr \<Rightarrow> i64 list ptr \<Rightarrow> nat \<Rightarrow> i64 \<Rightarrow> (TurboJSIRStatus \<times> i64) c" where
  "TurboJS_CallableReferenceInvokeI64 E H reference arguments argument_count result =
     (case reference of
        None \<Rightarrow> Inr (TURBOJS_IR_INVALID_ARGUMENT, result)
      | Some r \<Rightarrow>
          if cr_expected_kind r \<noteq> TURBOJS_NATIVE_ENTRY_INT32 then Inr (TURBOJS_IR_INVALID_ARGUMENT, result)
          else bindc (TurboJS_CallableReferenceIsLive H reference) (\<lambda>live.
                 if \<not> live then Inr (TURBOJS_IR_UNSUPPORTED, result)
                 else bindc (load (heap_handles H) (cr_target r)) (\<lambda>handle.
                        Inr (TurboJS_NativeEntryInvokeI64 E handle (cr_expected_generation r)
                               arguments argument_count result))))"

definition TurboJS_CallableReferenceInvokeF64 ::
  "jit_env \<Rightarrow> jit_heap \<Rightarrow> TurboJSCallableReference ptr \<Rightarrow> u64 list ptr \<Rightarrow> nat \<Rightarrow> u64 \<Rightarrow> (TurboJSIRStatus \<times> u64) c" where
  "TurboJS_CallableReferenceInvokeF64 E H reference arguments argument_count result =
     (case reference of
        None \<Rightarrow> Inr (TURBOJS_IR_INVALID_ARGUMENT, result)
      | Some r \<Rightarrow>
          if cr_expected_kind r \<noteq> TURBOJS_NATIVE_ENTRY_FLOAT64 then Inr (TURBOJS_IR_INVALID_ARGUMENT, result)
          else bindc (TurboJS_CallableReferenceIsLive H reference) (\<lambda>live.
                 if \<not> live then Inr (TURBOJS_IR_UNSUPPORTED, result)
                 else bindc (load (heap_handles H) (cr_target r)) (\<lambda>handle.
                        Inr (TurboJS_NativeEntryInvokeF64 E handle (cr_expected_generation r)
                               arguments argument_count result))))"

section \<open>Freeing an array of owned objects\<close>

text \<open>
  The loop of \<^verbatim>\<open>TurboJS_IRFunctionDestroy\<close> over one of its two arrays of owned
  objects: destroy the object behind each address, then free it. An address that is not
  allocated is a fault.
\<close>

fun free_owned ::
  "('o \<Rightarrow> root_log \<Rightarrow> 'o \<times> root_log) \<Rightarrow> addr list \<Rightarrow> (addr \<Rightarrow> 'o option) \<Rightarrow> root_log
     \<Rightarrow> ((addr \<Rightarrow> 'o option) \<times> root_log) c" where
  "free_owned destroy [] m log = Inr (m, log)"
| "free_owned destroy (a # as) m log =
     bindc (deref m a) (\<lambda>ob. free_owned destroy as (m(a := None)) (snd (destroy ob log)))"

section \<open>Histories of handles and of call sites\<close>

text \<open>
  What can happen to a handle between the moment a caller remembers its generation and the
  moment it calls: the cache publishes functions into it and invalidates it. \<open>handle_bumps\<close>
  counts the operations that gave the handle a new generation.
\<close>

datatype handle_op = Op_publish addr TurboJSNativeEntryKind u16 | Op_invalidate

fun handle_step :: "jit_env \<Rightarrow> handle_op \<Rightarrow> TurboJSNativeEntryHandle \<Rightarrow> TurboJSNativeEntryHandle" where
  "handle_step E (Op_publish f k n) h = the (publish_entry_handle E (Some h) f k n)"
| "handle_step E Op_invalidate h = the (TurboJS_NativeEntryHandleInvalidate (Some h))"

fun handle_run :: "jit_env \<Rightarrow> handle_op list \<Rightarrow> TurboJSNativeEntryHandle \<Rightarrow> TurboJSNativeEntryHandle" where
  "handle_run E [] h = h"
| "handle_run E (x # xs) h = handle_run E xs (handle_step E x h)"

fun handle_bumps :: "jit_env \<Rightarrow> handle_op list \<Rightarrow> TurboJSNativeEntryHandle \<Rightarrow> nat" where
  "handle_bumps E [] h = 0"
| "handle_bumps E (x # xs) h =
     (if neh_generation (handle_step E x h) = neh_generation h then 0 else 1) +
     handle_bumps E xs (handle_step E x h)"

text \<open>
  The root an object holds (opaque pointer and rooted reference), the number of times a root was
  retained and not yet released in a log, and the histories of one call site.
\<close>

definition site_root :: "TurboJSClutchCallSite \<Rightarrow> (addr \<times> addr) option" where
  "site_root s =
     (if cs_owns_environment s \<and> cs_closure_environment s \<noteq> 0 \<and> rh_release (cs_environment_rooting s) \<noteq> 0
      then Some (rh_opaque (cs_environment_rooting s), cs_closure_environment s) else None)"

definition callable_root :: "TurboJSCallableReference \<Rightarrow> (addr \<times> addr) option" where
  "callable_root r =
     (if cr_owns_environment r \<and> cr_closure_environment r \<noteq> 0 \<and> rh_release (cr_environment_rooting r) \<noteq> 0
      then Some (rh_opaque (cr_environment_rooting r), cr_closure_environment r) else None)"

definition holds :: "(addr \<times> addr) option \<Rightarrow> addr \<times> addr \<Rightarrow> int" where
  "holds root x = (if root = Some x then 1 else 0)"

fun event_balance :: "root_event \<Rightarrow> addr \<times> addr \<Rightarrow> int" where
  "event_balance (Retained q r) x = (if (q, r) = x then 1 else 0)"
| "event_balance (Released q r) x = (if (q, r) = x then - 1 else 0)"

definition root_balance :: "root_log \<Rightarrow> addr \<times> addr \<Rightarrow> int" where
  "root_balance log x = sum_list (map (\<lambda>e. event_balance e x) log)"

datatype site_op = Op_set_environment addr "TurboJSRootingHooks ptr" | Op_destroy

fun site_step :: "jit_env \<Rightarrow> site_op \<Rightarrow> TurboJSClutchCallSite \<times> root_log \<Rightarrow> TurboJSClutchCallSite \<times> root_log" where
  "site_step E (Op_set_environment a hooks) (s, log) =
     (case TurboJS_ClutchCallSiteSetClosureEnvironment E (Some s) a hooks log of
        (_, s', log') \<Rightarrow> (the s', log'))"
| "site_step E Op_destroy (s, log) =
     (case TurboJS_ClutchCallSiteDestroy (Some s) log of (s', log') \<Rightarrow> (the s', log'))"

fun site_run :: "jit_env \<Rightarrow> site_op list \<Rightarrow> TurboJSClutchCallSite \<times> root_log \<Rightarrow> TurboJSClutchCallSite \<times> root_log" where
  "site_run E [] st = st"
| "site_run E (x # xs) st = site_run E xs (site_step E x st)"

definition site_inv :: "TurboJSClutchCallSite \<Rightarrow> bool" where
  "site_inv s \<longleftrightarrow> length (cs_argument_registers s) = TURBOJS_CLUTCH_MAX_ARGUMENTS \<and>
     unat (cs_argument_count s) \<le> TURBOJS_CLUTCH_MAX_ARGUMENTS"

definition site_arguments :: "TurboJSClutchCallSite \<Rightarrow> u16 list" where
  "site_arguments s = take (unat (cs_argument_count s)) (cs_argument_registers s)"

section \<open>Ownership of rooted environments\<close>

text \<open>
  The contract of an object that owns at most one root: destroying it releases exactly the root
  it holds and leaves it holding none.
\<close>

locale root_owner =
  fixes root :: "'o \<Rightarrow> (addr \<times> addr) option"
    and destroy :: "'o \<Rightarrow> root_log \<Rightarrow> 'o \<times> root_log"
  assumes destroy_root: "root (fst (destroy ob log)) = None"
    and destroy_log: "snd (destroy ob log) =
          log @ (case root ob of None \<Rightarrow> [] | Some (q, r) \<Rightarrow> [Released q r])"
begin

lemma destroy_balance: "root_balance (snd (destroy ob log)) x = root_balance log x - holds (root ob) x"
  by (auto simp: destroy_log root_balance_def holds_def split: option.splits)

lemma destroy_again: "snd (destroy (fst (destroy ob log)) log') = log'"
  by (simp add: destroy_log destroy_root)

lemma free_owned_ok:
  assumes "distinct as" "set as \<subseteq> dom m"
  shows "\<exists>log'. free_owned destroy as m log = Inr (m |` (- set as), log') \<and>
           (\<forall>x. root_balance log' x = root_balance log x - (\<Sum>a\<leftarrow>as. holds (root (the (m a))) x))"
  using assms
proof (induction as arbitrary: m log)
  case Nil
  then show ?case by simp
next
  case (Cons a as)
  obtain ob where ob: "m a = Some ob" using Cons.prems by auto
  have d: "distinct as" "set as \<subseteq> dom (m(a := None))" using Cons.prems by auto
  obtain log' where
    r: "free_owned destroy as (m(a := None)) (snd (destroy ob log)) = Inr ((m(a := None)) |` (- set as), log')"
       "\<And>x. root_balance log' x = root_balance (snd (destroy ob log)) x -
              (\<Sum>b\<leftarrow>as. holds (root (the ((m(a := None)) b))) x)"
    using Cons.IH [OF d, of "snd (destroy ob log)"] by blast
  have same: "map (\<lambda>b. holds (root (the ((m(a := None)) b))) x) as =
              map (\<lambda>b. holds (root (the (m b))) x) as" for x
    using Cons.prems by (auto simp: map_eq_conv)
  have m: "(m(a := None)) |` (- set as) = m |` (- set (a # as))"
    by (auto simp: restrict_map_def fun_eq_iff)
  have "\<And>x. root_balance log' x = root_balance log x - holds (root ob) x - (\<Sum>b\<leftarrow>as. holds (root (the (m b))) x)"
    using r(2) by (simp only: same destroy_balance)
  then show ?case
    using r(1) [unfolded m] by (intro exI [of _ log']) (simp add: deref_def ob)
qed

end

interpretation site_owner: root_owner site_root destroy_call_site
  by unfold_locales (simp_all add: site_root_def destroy_call_site_def call_release_def)

interpretation callable_owner: root_owner callable_root destroy_callable
  by unfold_locales (simp_all add: callable_root_def destroy_callable_def null_callable_def call_release_def)

lemma root_balance_append: "root_balance (log @ [e]) x = root_balance log x + event_balance e x"
  by (simp add: root_balance_def)

lemma call_retain_balance:
  "call_retain E hooks a log = (rooted, log') \<Longrightarrow>
   root_balance log' x = root_balance log x + (if rooted \<noteq> 0 \<and> (rh_opaque hooks, rooted) = x then 1 else 0)"
  by (auto simp: call_retain_def Let_def root_balance_append split: if_splits)

lemma site_root_set_environment:
  "site_root (set_site_environment a s) =
     (if cs_owns_environment s \<and> a \<noteq> 0 \<and> rh_release (cs_environment_rooting s) \<noteq> 0
      then Some (rh_opaque (cs_environment_rooting s), a) else None)"
  by (simp add: site_root_def set_site_environment_def)

lemma destroy_call_site_owns: "cs_owns_environment (fst (destroy_call_site s log)) = False"
  by (simp add: destroy_call_site_def)

lemma set_environment_balance:
  assumes "TurboJS_ClutchCallSiteSetClosureEnvironment E (Some s) a hooks log = (st, Some s', log')"
  shows "root_balance log' x = root_balance log x + holds (site_root s') x - holds (site_root s) x"
proof -
  obtain s1 log1 where d: "destroy_call_site s log = (s1, log1)"
    by fastforce
  have b: "root_balance log1 x = root_balance log x - holds (site_root s) x"
    using site_owner.destroy_balance [of s log x] d by simp
  have r: "site_root s1 = None" and o: "\<not> cs_owns_environment s1"
    using site_owner.destroy_root [of s log] destroy_call_site_owns [of s log] d by simp_all
  show ?thesis
    using assms b r o
    by (auto simp: TurboJS_ClutchCallSiteSetClosureEnvironment_def d site_root_set_environment
        holds_def call_retain_balance split: option.splits if_splits prod.splits)
qed

lemma set_environment_site:
  "\<exists>st s' log'. TurboJS_ClutchCallSiteSetClosureEnvironment E (Some s) a hooks log = (st, Some s', log')"
  by (auto simp: TurboJS_ClutchCallSiteSetClosureEnvironment_def split: option.splits prod.splits if_splits)

lemma site_step_balance:
  "root_balance (snd (site_step E x (s, log))) r =
     root_balance log r + holds (site_root (fst (site_step E x (s, log)))) r - holds (site_root s) r"
proof (cases x)
  case (Op_set_environment a hooks)
  obtain st s' log' where e: "TurboJS_ClutchCallSiteSetClosureEnvironment E (Some s) a hooks log = (st, Some s', log')"
    using set_environment_site by blast
  show ?thesis
    using set_environment_balance [OF e, of r] by (simp add: Op_set_environment e)
next
  case Op_destroy
  show ?thesis
    using site_owner.destroy_balance [of s log r] site_owner.destroy_root [of s log]
    by (auto simp: Op_destroy TurboJS_ClutchCallSiteDestroy_def holds_def split: prod.splits)
qed

section \<open>Generations\<close>

lemma next_entry_generation_nonzero: "next_entry_generation g \<noteq> 0"
  by (simp add: next_entry_generation_def Let_def)

lemma unat_next_entry_generation:
  assumes "g \<noteq> 0"
  shows "unat (next_entry_generation g) = unat g mod 18446744073709551615 + 1"
proof (cases "g + 1 = 0")
  case True
  then have "g = - 1" by (simp add: eq_neg_iff_add_eq_0)
  then have "g = 18446744073709551615" by simp
  then have "unat g = 18446744073709551615" by simp
  with True show ?thesis by (simp add: next_entry_generation_def Let_def)
next
  case False
  then have *: "unat (g + 1) = Suc (unat g)" by (simp add: unatSuc add.commute)
  then have "unat g < 18446744073709551615" using unat64_less [of "g + 1"] by simp
  with False * show ?thesis
    by (simp add: next_entry_generation_def Let_def)
qed

lemma funpow_next_nonzero: "g \<noteq> 0 \<Longrightarrow> (next_entry_generation ^^ n) g \<noteq> 0"
  by (induction n) (simp_all add: next_entry_generation_nonzero)

lemma unat_funpow_next:
  assumes "g \<noteq> 0"
  shows "unat ((next_entry_generation ^^ n) g) = (unat g - 1 + n) mod 18446744073709551615 + 1"
proof (induction n)
  case 0
  have "unat g - 1 < 18446744073709551615"
    using unat64_less [of g] by simp
  moreover have "0 < unat g" using assms by (simp add: unat_gt_0)
  ultimately show ?case by simp
next
  case (Suc n)
  show ?case
    by (simp add: unat_next_entry_generation funpow_next_nonzero [OF assms] Suc mod_simps)
qed

lemma generation_not_reused:
  assumes "g \<noteq> 0" "0 < n" "n < 18446744073709551615"
  shows "(next_entry_generation ^^ n) g \<noteq> g"
proof
  assume eq: "(next_entry_generation ^^ n) g = g"
  define u where "u = unat g - 1"
  have u: "unat g = u + 1" "u < 18446744073709551615"
    using assms(1) unat64_less [of g] by (simp_all add: u_def unat_gt_0)
  have "(u + n) mod 18446744073709551615 = u"
    using unat_funpow_next [OF assms(1), of n] u(1) by (simp add: eq)
  with u(2) assms(2,3) show False
    by (cases "u + n < 18446744073709551615") (auto simp: mod_if split: if_splits)
qed

lemma handle_step_generation:
  "neh_generation (handle_step E x h) = neh_generation h \<or>
   neh_generation (handle_step E x h) = next_entry_generation (neh_generation h)"
  by (cases x) (auto simp: publish_entry_handle_def TurboJS_NativeEntryHandleInvalidate_def invalidate_handle_def)

lemma handle_run_generation:
  "neh_generation (handle_run E xs h) = (next_entry_generation ^^ handle_bumps E xs h) (neh_generation h)"
proof (induction xs arbitrary: h)
  case Nil
  then show ?case by simp
next
  case (Cons x xs)
  show ?case
    using Cons.IH [of "handle_step E x h"] handle_step_generation [of E x h]
    by (auto simp: funpow_swap1)
qed

lemma stale_handle_not_live:
  assumes "0 < handle_bumps E xs h" "handle_bumps E xs h < 18446744073709551615"
  shows "\<not> TurboJS_NativeEntryHandleIsLive (Some (handle_run E xs h)) (neh_generation h) k"
  using assms generation_not_reused [of "neh_generation h"]
  by (auto simp: TurboJS_NativeEntryHandleIsLive_def handle_run_generation)

lemma live_unique_kind:
  "TurboJS_NativeEntryHandleIsLive h g k \<Longrightarrow> TurboJS_NativeEntryHandleIsLive h g k' \<Longrightarrow> k = k'"
  by (auto simp: TurboJS_NativeEntryHandleIsLive_def split: option.splits)

section \<open>Properties\<close>



text \<open>
  C15. Rooted closure environments are neither leaked nor released twice: along any history of
  binding environments to a call site (including the failing paths) and destroying it, the
  number of retains minus releases of every root changes exactly by what the site holds at the
  end minus what it held at the start.
\<close>

theorem clutch_site_roots_balanced:
  "root_balance (snd (site_run E ops (s, log))) r =
     root_balance log r + holds (site_root (fst (site_run E ops (s, log)))) r - holds (site_root s) r"
proof (induction ops arbitrary: s log)
  case Nil
  then show ?case by simp
next
  case (Cons x xs)
  obtain s' log' where st: "site_step E x (s, log) = (s', log')"
    by fastforce
  show ?case
    using Cons.IH [of s' log'] site_step_balance [of E x s log r] by (simp add: st)
qed

end
