(* ===== verification/IR.thy ===== *)
theory IR
  imports Clutch
begin

text \<open>
  Construction of IR functions, \<^verbatim>\<open>src/jit/ir/ir.c\<close>: initialisation, value-kind
  hints, owned call sites and callable references, register allocation, instruction emission,
  destruction. Every growth of an array goes through \<^verbatim>\<open>realloc\<close>; whether it succeeds
  is a Boolean argument, and the address \<^verbatim>\<open>calloc\<close> returns is an argument too (0 when
  it fails). The counter behind \<^verbatim>\<open>turbojs_ir_next_instance_id\<close> is passed explicitly.
\<close>

section \<open>Operations\<close>

definition null_function :: TurboJSIRFunction where
  "null_function = \<lparr>irf_instructions = None, irf_instruction_count = 0, irf_instruction_capacity = 0,
     irf_register_count = 0, irf_argument_count = 0, irf_local_count = 0, irf_source_local_count = 0,
     irf_register_kind_hints = replicate TURBOJS_IR_MAX_REGISTERS TURBOJS_VALUE_UNKNOWN,
     irf_local_kind_hints = replicate TURBOJS_IR_MAX_REGISTERS TURBOJS_VALUE_UNKNOWN,
     irf_owned_clutch_sites = [], irf_owned_clutch_site_capacity = 0,
     irf_owned_callable_references = [], irf_owned_callable_reference_capacity = 0,
     irf_instance_id = 0, irf_revision = 0\<rparr>"

definition touch :: "TurboJSIRFunction \<Rightarrow> TurboJSIRFunction" where
  "touch f = f\<lparr>irf_revision := irf_revision f + 1\<rparr>"

definition TurboJS_IRFunctionInit ::
  "u64 \<Rightarrow> TurboJSIRFunction ptr \<Rightarrow> u16 \<Rightarrow> TurboJSIRFunction ptr \<times> u64" where
  "TurboJS_IRFunctionInit next_id function argument_count =
     (case function of
        None \<Rightarrow> (None, next_id)
      | Some _ \<Rightarrow> (Some (null_function\<lparr>irf_argument_count := argument_count,
                     irf_instance_id := next_id, irf_revision := 1\<rparr>), next_id + 1))"

definition TurboJS_IRFunctionSetLocalCount :: "TurboJSIRFunction ptr \<Rightarrow> u16 \<Rightarrow> TurboJSIRFunction ptr" where
  "TurboJS_IRFunctionSetLocalCount function local_count =
     map_option (\<lambda>f. touch (f\<lparr>irf_local_count := local_count\<rparr>)) function"

definition TurboJS_IRFunctionSetRegisterKind ::
  "TurboJSIRFunction ptr \<Rightarrow> u16 \<Rightarrow> TurboJSValueKind \<Rightarrow> TurboJSIRFunction ptr" where
  "TurboJS_IRFunctionSetRegisterKind function reg kind =
     map_option (\<lambda>f.
       if reg < irf_register_count f \<and> unat reg < TURBOJS_IR_MAX_REGISTERS
       then touch (f\<lparr>irf_register_kind_hints := (irf_register_kind_hints f)[unat reg := kind]\<rparr>)
       else f) function"

definition TurboJS_IRFunctionSetLocalKind ::
  "TurboJSIRFunction ptr \<Rightarrow> u16 \<Rightarrow> TurboJSValueKind \<Rightarrow> TurboJSIRFunction ptr" where
  "TurboJS_IRFunctionSetLocalKind function local kind =
     map_option (\<lambda>f.
       if local < irf_local_count f \<and> unat local < TURBOJS_IR_MAX_REGISTERS
       then touch (f\<lparr>irf_local_kind_hints := (irf_local_kind_hints f)[unat local := kind]\<rparr>)
       else f) function"

definition TurboJS_IRFunctionRegisterKind :: "TurboJSIRFunction ptr \<Rightarrow> u16 \<Rightarrow> TurboJSValueKind" where
  "TurboJS_IRFunctionRegisterKind function reg =
     (case function of
        None \<Rightarrow> TURBOJS_VALUE_UNKNOWN
      | Some f \<Rightarrow>
          if irf_register_count f \<le> reg \<or> TURBOJS_IR_MAX_REGISTERS \<le> unat reg
          then TURBOJS_VALUE_UNKNOWN else irf_register_kind_hints f ! unat reg)"

definition TurboJS_IRFunctionLocalKind :: "TurboJSIRFunction ptr \<Rightarrow> u16 \<Rightarrow> TurboJSValueKind" where
  "TurboJS_IRFunctionLocalKind function local =
     (case function of
        None \<Rightarrow> TURBOJS_VALUE_UNKNOWN
      | Some f \<Rightarrow>
          if irf_local_count f \<le> local \<or> TURBOJS_IR_MAX_REGISTERS \<le> unat local
          then TURBOJS_VALUE_UNKNOWN else irf_local_kind_hints f ! unat local)"

text \<open>
  Destruction releases the environments of the owned call sites and callable references and
  removes both from the store (\<^verbatim>\<open>free\<close>).
\<close>

definition TurboJS_IRFunctionDestroy ::
  "TurboJSIRFunction ptr \<Rightarrow> jit_heap \<Rightarrow> root_log \<Rightarrow> (TurboJSIRFunction ptr \<times> jit_heap \<times> root_log) c" where
  "TurboJS_IRFunctionDestroy function H log =
     (case function of
        None \<Rightarrow> Inr (None, H, log)
      | Some f \<Rightarrow>
          bindc (free_owned destroy_call_site (irf_owned_clutch_sites f) (heap_sites H) log) (\<lambda>(sites, log1).
          bindc (free_owned destroy_callable (irf_owned_callable_references f) (heap_callables H) log1)
            (\<lambda>(callables, log2).
               Inr (Some null_function, H\<lparr>heap_sites := sites, heap_callables := callables\<rparr>, log2))))"

text \<open>The result is the address of the new object (0 for \<^verbatim>\<open>NULL\<close>), the function, the store.\<close>

definition TurboJS_IRAllocateClutchCallSite ::
  "bool \<Rightarrow> addr \<Rightarrow> TurboJSIRFunction ptr \<Rightarrow> jit_heap \<Rightarrow> addr \<times> TurboJSIRFunction ptr \<times> jit_heap" where
  "TurboJS_IRAllocateClutchCallSite realloc_ok fresh function H =
     (case function of
        None \<Rightarrow> (0, None, H)
      | Some f \<Rightarrow>
          (let full = length (irf_owned_clutch_sites f) = irf_owned_clutch_site_capacity f;
               cap = (if irf_owned_clutch_site_capacity f \<noteq> 0
                      then irf_owned_clutch_site_capacity f * 2 else 4);
               f1 = (if full then f\<lparr>irf_owned_clutch_site_capacity := cap\<rparr> else f)
           in if full \<and> \<not> realloc_ok then (0, Some f, H)
              else if fresh = 0 then (0, Some f1, H)
              else (fresh,
                    Some (touch (f1\<lparr>irf_owned_clutch_sites := irf_owned_clutch_sites f1 @ [fresh]\<rparr>)),
                    H\<lparr>heap_sites := (heap_sites H)(fresh \<mapsto> null_call_site)\<rparr>)))"

definition TurboJS_IRAllocateCallableReference ::
  "bool \<Rightarrow> addr \<Rightarrow> TurboJSIRFunction ptr \<Rightarrow> jit_heap \<Rightarrow> addr \<times> TurboJSIRFunction ptr \<times> jit_heap" where
  "TurboJS_IRAllocateCallableReference realloc_ok fresh function H =
     (case function of
        None \<Rightarrow> (0, None, H)
      | Some f \<Rightarrow>
          (let full = length (irf_owned_callable_references f) = irf_owned_callable_reference_capacity f;
               cap = (if irf_owned_callable_reference_capacity f \<noteq> 0
                      then irf_owned_callable_reference_capacity f * 2 else 4);
               f1 = (if full then f\<lparr>irf_owned_callable_reference_capacity := cap\<rparr> else f)
           in if full \<and> \<not> realloc_ok then (0, Some f, H)
              else if fresh = 0 then (0, Some f1, H)
              else (fresh,
                    Some (touch (f1\<lparr>irf_owned_callable_references := irf_owned_callable_references f1 @ [fresh]\<rparr>)),
                    H\<lparr>heap_callables := (heap_callables H)(fresh \<mapsto> null_callable)\<rparr>)))"

definition TurboJS_IRAllocateRegister :: "TurboJSIRFunction ptr \<Rightarrow> u16 \<times> TurboJSIRFunction ptr" where
  "TurboJS_IRAllocateRegister function =
     (case function of
        None \<Rightarrow> (TURBOJS_IR_NO_REGISTER, None)
      | Some f \<Rightarrow>
          if TURBOJS_IR_MAX_REGISTERS \<le> unat (irf_register_count f) then (TURBOJS_IR_NO_REGISTER, Some f)
          else (irf_register_count f, Some ((touch f)\<lparr>irf_register_count := irf_register_count f + 1\<rparr>)))"

definition TurboJS_IREmit ::
  "bool \<Rightarrow> TurboJSIRFunction ptr \<Rightarrow> TurboJSIRInstruction \<Rightarrow> TurboJSIRStatus \<times> TurboJSIRFunction ptr" where
  "TurboJS_IREmit realloc_ok function instruction =
     (case function of
        None \<Rightarrow> (TURBOJS_IR_INVALID_ARGUMENT, None)
      | Some f \<Rightarrow>
          (let full = irf_instruction_count f = irf_instruction_capacity f;
               cap = (if irf_instruction_capacity f \<noteq> 0 then irf_instruction_capacity f * 2 else 16);
               old = (case irf_instructions f of None \<Rightarrow> [] | Some xs \<Rightarrow> xs);
               f1 = (if full then f\<lparr>irf_instructions := Some old, irf_instruction_capacity := cap\<rparr> else f)
           in if full \<and> \<not> realloc_ok then (TURBOJS_IR_OUT_OF_MEMORY, Some f)
              else (TURBOJS_IR_OK,
                    Some (touch (f1\<lparr>irf_instructions :=
                                      Some (take (irf_instruction_count f) old @ [instruction]),
                                    irf_instruction_count := irf_instruction_count f + 1\<rparr>)))))"

fun TurboJS_IRStatusName :: "TurboJSIRStatus \<Rightarrow> string" where
  "TurboJS_IRStatusName TURBOJS_IR_OK = ''ok''"
| "TurboJS_IRStatusName TURBOJS_IR_INVALID_ARGUMENT = ''invalid-argument''"
| "TurboJS_IRStatusName TURBOJS_IR_OUT_OF_MEMORY = ''out-of-memory''"
| "TurboJS_IRStatusName TURBOJS_IR_INVALID_OPCODE = ''invalid-opcode''"
| "TurboJS_IRStatusName TURBOJS_IR_INVALID_REGISTER = ''invalid-register''"
| "TurboJS_IRStatusName TURBOJS_IR_INVALID_TARGET = ''invalid-target''"
| "TurboJS_IRStatusName TURBOJS_IR_MISSING_RETURN = ''missing-return''"
| "TurboJS_IRStatusName TURBOJS_IR_EXECUTION_LIMIT = ''execution-limit''"
| "TurboJS_IRStatusName TURBOJS_IR_BAILOUT = ''bailout''"
| "TurboJS_IRStatusName TURBOJS_IR_EXCEPTION = ''exception''"
| "TurboJS_IRStatusName TURBOJS_IR_UNSUPPORTED = ''unsupported''"

section \<open>Well-formed storage\<close>

text \<open>
  The representation invariant: the instruction array is unallocated exactly while its capacity
  is 0, holds \<^verbatim>\<open>instruction_count\<close> instructions and never more than its capacity; the
  hint tables have their fixed size; at most 64 registers; the owned arrays fit their capacity
  and hold allocated, distinct, non-null addresses.
\<close>

definition irf_code :: "TurboJSIRFunction \<Rightarrow> TurboJSIRInstruction list" where
  "irf_code f = (case irf_instructions f of None \<Rightarrow> [] | Some xs \<Rightarrow> take (irf_instruction_count f) xs)"

definition storage_inv :: "TurboJSIRFunction \<Rightarrow> bool" where
  "storage_inv f \<longleftrightarrow>
     (case irf_instructions f of
        None \<Rightarrow> irf_instruction_count f = 0 \<and> irf_instruction_capacity f = 0
      | Some xs \<Rightarrow> length xs = irf_instruction_count f \<and>
                   irf_instruction_count f \<le> irf_instruction_capacity f \<and> 0 < irf_instruction_capacity f) \<and>
     unat (irf_register_count f) \<le> TURBOJS_IR_MAX_REGISTERS \<and>
     length (irf_register_kind_hints f) = TURBOJS_IR_MAX_REGISTERS \<and>
     length (irf_local_kind_hints f) = TURBOJS_IR_MAX_REGISTERS"

definition owned_inv :: "TurboJSIRFunction \<Rightarrow> jit_heap \<Rightarrow> bool" where
  "owned_inv f H \<longleftrightarrow>
     distinct (irf_owned_clutch_sites f) \<and> set (irf_owned_clutch_sites f) \<subseteq> dom (heap_sites H) \<and>
     length (irf_owned_clutch_sites f) \<le> irf_owned_clutch_site_capacity f \<and>
     distinct (irf_owned_callable_references f) \<and>
     set (irf_owned_callable_references f) \<subseteq> dom (heap_callables H) \<and>
     length (irf_owned_callable_references f) \<le> irf_owned_callable_reference_capacity f"

lemmas storage_defs = storage_inv_def touch_def irf_code_def

lemma touch_storage [simp]: "storage_inv (touch f) = storage_inv f"
  by (simp add: storage_defs split: option.splits)

lemma touch_code [simp]: "irf_code (touch f) = irf_code f"
  by (simp add: storage_defs split: option.splits)

lemma length_irf_code: "storage_inv f \<Longrightarrow> length (irf_code f) = irf_instruction_count f"
  by (auto simp: storage_defs split: option.splits)

lemma storage_registers: "storage_inv f \<Longrightarrow> unat (irf_register_count f) \<le> TURBOJS_IR_MAX_REGISTERS"
  by (simp add: storage_inv_def)

lemma emit_storage:
  assumes "storage_inv f" "TurboJS_IREmit ok (Some f) ins = (st, Some f')"
  shows "storage_inv f'"
  using assms
  by (auto simp: storage_defs TurboJS_IREmit_def Let_def split: option.splits if_splits)

lemma emit_code:
  assumes "storage_inv f" "TurboJS_IREmit ok (Some f) ins = (st, Some f')"
  shows "irf_code f' = irf_code f @ (if st = TURBOJS_IR_OK then [ins] else [])"
  using assms
  by (auto simp: storage_defs TurboJS_IREmit_def Let_def split: option.splits if_splits)

lemma emit_frame:
  assumes "TurboJS_IREmit ok (Some f) ins = (st, Some f')"
  shows "irf_register_count f' = irf_register_count f \<and> irf_argument_count f' = irf_argument_count f \<and>
         irf_local_count f' = irf_local_count f \<and> irf_owned_clutch_sites f' = irf_owned_clutch_sites f"
  using assms by (auto simp: TurboJS_IREmit_def touch_def Let_def split: if_splits)

lemma emit_status: "fst (TurboJS_IREmit ok (Some f) ins) =
  (if irf_instruction_count f = irf_instruction_capacity f \<and> \<not> ok
   then TURBOJS_IR_OUT_OF_MEMORY else TURBOJS_IR_OK)"
  by (simp add: TurboJS_IREmit_def Let_def)

lemma init_storage: "storage_inv (the (fst (TurboJS_IRFunctionInit i (Some f) n)))"
  by (simp add: TurboJS_IRFunctionInit_def null_function_def storage_inv_def)

lemma init_code: "irf_code (the (fst (TurboJS_IRFunctionInit i (Some f) n))) = []"
  by (simp add: TurboJS_IRFunctionInit_def null_function_def irf_code_def)

lemma allocate_register_storage:
  assumes "storage_inv f" "TurboJS_IRAllocateRegister (Some f) = (r, Some f')"
  shows "storage_inv f'"
  using assms
  by (auto simp: storage_defs TurboJS_IRAllocateRegister_def unat_word_ariths split: option.splits if_splits)

section \<open>Histories of construction\<close>

text \<open>What a front end does to a function under construction.\<close>

datatype build_op =
    Op_emit bool TurboJSIRInstruction
  | Op_register
  | Op_locals u16
  | Op_register_kind u16 TurboJSValueKind
  | Op_local_kind u16 TurboJSValueKind
  | Op_site bool addr
  | Op_reference bool addr

fun build_step :: "build_op \<Rightarrow> TurboJSIRFunction ptr \<times> jit_heap \<Rightarrow> TurboJSIRFunction ptr \<times> jit_heap" where
  "build_step (Op_emit ok ins) (f, H) = (snd (TurboJS_IREmit ok f ins), H)"
| "build_step Op_register (f, H) = (snd (TurboJS_IRAllocateRegister f), H)"
| "build_step (Op_locals n) (f, H) = (TurboJS_IRFunctionSetLocalCount f n, H)"
| "build_step (Op_register_kind r k) (f, H) = (TurboJS_IRFunctionSetRegisterKind f r k, H)"
| "build_step (Op_local_kind r k) (f, H) = (TurboJS_IRFunctionSetLocalKind f r k, H)"
| "build_step (Op_site ok a) (f, H) = snd (TurboJS_IRAllocateClutchCallSite ok a f H)"
| "build_step (Op_reference ok a) (f, H) = snd (TurboJS_IRAllocateCallableReference ok a f H)"

fun fresh_op :: "build_op \<Rightarrow> jit_heap \<Rightarrow> bool" where
  "fresh_op (Op_site ok a) H = (heap_sites H a = None)"
| "fresh_op (Op_reference ok a) H = (heap_callables H a = None)"
| "fresh_op _ H = True"

inductive built :: "TurboJSIRFunction \<Rightarrow> jit_heap \<Rightarrow> bool" where
  built_init: "TurboJS_IRFunctionInit i (Some f0) n = (Some f, i') \<Longrightarrow> built f H"
| built_step: "built f H \<Longrightarrow> fresh_op x H \<Longrightarrow> build_step x (Some f, H) = (Some f', H') \<Longrightarrow> built f' H'"

lemma build_step_storage:
  assumes "storage_inv f" "build_step x (Some f, H) = (Some f', H')"
  shows "storage_inv f'"
proof (cases x)
  case (Op_emit ok ins)
  then show ?thesis
    using assms emit_storage [of f ok ins "fst (TurboJS_IREmit ok (Some f) ins)" f'] by (simp add: prod_eq_iff)
next
  case Op_register
  then show ?thesis
    using assms allocate_register_storage [of f "fst (TurboJS_IRAllocateRegister (Some f))" f']
    by (simp add: prod_eq_iff)
qed (use assms in \<open>auto simp: storage_defs TurboJS_IRFunctionSetLocalCount_def
       TurboJS_IRFunctionSetRegisterKind_def TurboJS_IRFunctionSetLocalKind_def
       TurboJS_IRAllocateClutchCallSite_def TurboJS_IRAllocateCallableReference_def Let_def
       split: option.splits if_splits\<close>)

lemma emit_owned:
  "TurboJS_IREmit ok (Some f) ins = (st, Some f') \<Longrightarrow> owned_inv f H \<Longrightarrow> owned_inv f' H"
  by (auto simp: owned_inv_def TurboJS_IREmit_def touch_def Let_def split: if_splits)

lemma build_step_owned:
  assumes "owned_inv f H" "fresh_op x H" "build_step x (Some f, H) = (Some f', H')"
  shows "owned_inv f' H'"
proof (cases x)
  case (Op_emit ok ins)
  then show ?thesis
    using assms emit_owned [of ok f ins "fst (TurboJS_IREmit ok (Some f) ins)" f' H'] by (auto simp: prod_eq_iff)
qed (use assms in \<open>auto simp: owned_inv_def touch_def TurboJS_IRFunctionSetLocalCount_def
       TurboJS_IRFunctionSetRegisterKind_def TurboJS_IRFunctionSetLocalKind_def TurboJS_IRAllocateRegister_def
       TurboJS_IRAllocateClutchCallSite_def TurboJS_IRAllocateCallableReference_def Let_def
       split: option.splits if_splits\<close>)

lemma init_owned: "owned_inv (the (fst (TurboJS_IRFunctionInit i (Some f) n))) H"
  by (simp add: TurboJS_IRFunctionInit_def null_function_def owned_inv_def)

section \<open>Properties\<close>

text \<open>
  C16. However a front end builds a function (emitting instructions, allocating registers, call
  sites and callable references, setting counts and kind hints, with any of the allocations
  failing), the function's storage stays well formed: the instruction array is never written
  past its capacity, at most 64 registers are handed out, the hint tables keep their size, and
  the owned call sites and callable references are distinct allocated objects.
\<close>

theorem ir_construction_sound: "built f H \<Longrightarrow> storage_inv f \<and> owned_inv f H"
proof (induction rule: built.induct)
  case (built_init i f0 n f i' H)
  then show ?case
    using init_storage [of i f0 n] init_owned [of i f0 n H] by simp
next
  case (built_step f H x f' H')
  then show ?case
    by (blast intro: build_step_storage build_step_owned)
qed

theorem ir_construction_sound_witness:
  "\<exists>f H. built f H \<and> irf_code f = [null_instruction] \<and> storage_inv f \<and> owned_inv f H"
proof -
  let ?ins = null_instruction
  obtain f i where f: "TurboJS_IRFunctionInit 1 (Some null_function) 0 = (Some f, i)"
    by (simp add: TurboJS_IRFunctionInit_def)
  obtain f' where f': "build_step (Op_emit True ?ins) (Some f, empty_heap) = (Some f', empty_heap)"
    by (simp add: TurboJS_IREmit_def Let_def)
  have b: "built f' empty_heap"
    by (rule built.built_step [OF built.built_init [OF f, of empty_heap] _ f']) simp
  have "irf_code f' = [?ins]"
    using f f' by (auto simp: TurboJS_IRFunctionInit_def null_function_def TurboJS_IREmit_def irf_code_def touch_def)
  with b ir_construction_sound [OF b] show ?thesis by blast
qed

text \<open>
  Emission appends: when \<^verbatim>\<open>TurboJS_IREmit\<close> succeeds the function's code is the old
  code followed by the new instruction, and when the array cannot grow the status says so and
  the function is unchanged; success is certain unless the array is full.
\<close>

lemma ir_emit_appends:
  assumes "storage_inv f"
  shows "case TurboJS_IREmit ok (Some f) ins of
           (st, f') \<Rightarrow>
             if irf_instruction_count f = irf_instruction_capacity f \<and> \<not> ok
             then st = TURBOJS_IR_OUT_OF_MEMORY \<and> f' = Some f
             else st = TURBOJS_IR_OK \<and> irf_code (the f') = irf_code f @ [ins] \<and>
                  irf_instruction_count (the f') = irf_instruction_count f + 1 \<and>
                  irf_revision (the f') = irf_revision f + 1"
  using assms
  by (auto simp: TurboJS_IREmit_def storage_defs Let_def split: option.splits)

text \<open>
  Destroying a function releases everything it owns, exactly once: no fault occurs, the
  function becomes the zeroed function, its call sites and callable references are freed and
  nothing else is, and the balance of every root drops by the number of owned objects that hold
  it.
\<close>

lemma ir_destroy_releases_owned:
  assumes "owned_inv f H"
  shows "\<exists>H' log'. TurboJS_IRFunctionDestroy (Some f) H log = Inr (Some null_function, H', log') \<and>
     heap_sites H' = heap_sites H |` (- set (irf_owned_clutch_sites f)) \<and>
     heap_callables H' = heap_callables H |` (- set (irf_owned_callable_references f)) \<and>
     heap_handles H' = heap_handles H \<and>
     (\<forall>x. root_balance log' x = root_balance log x
        - (\<Sum>a\<leftarrow>irf_owned_clutch_sites f. holds (site_root (the (heap_sites H a))) x)
        - (\<Sum>a\<leftarrow>irf_owned_callable_references f. holds (callable_root (the (heap_callables H a))) x))"
proof -
  obtain log1 where s: "free_owned destroy_call_site (irf_owned_clutch_sites f) (heap_sites H) log =
      Inr (heap_sites H |` (- set (irf_owned_clutch_sites f)), log1)"
    "\<And>x. root_balance log1 x = root_balance log x -
       (\<Sum>a\<leftarrow>irf_owned_clutch_sites f. holds (site_root (the (heap_sites H a))) x)"
    using site_owner.free_owned_ok [of "irf_owned_clutch_sites f" "heap_sites H" log] assms
    by (auto simp: owned_inv_def)
  obtain log2 where c: "free_owned destroy_callable (irf_owned_callable_references f) (heap_callables H) log1 =
      Inr (heap_callables H |` (- set (irf_owned_callable_references f)), log2)"
    "\<And>x. root_balance log2 x = root_balance log1 x -
       (\<Sum>a\<leftarrow>irf_owned_callable_references f. holds (callable_root (the (heap_callables H a))) x)"
    using callable_owner.free_owned_ok [of "irf_owned_callable_references f" "heap_callables H" log1] assms
    by (auto simp: owned_inv_def)
  show ?thesis
    by (simp add: TurboJS_IRFunctionDestroy_def s c)
qed

end
