(* ===== verification/IR_Verify.thy ===== *)
theory IR_Verify
  imports IR
begin

text \<open>
  The IR verifier, \<^verbatim>\<open>src/jit/ir/ir_verify.c\<close>. The executable definitions follow the
  C function: the storage checks, then one pass over the instructions that stops at the first
  instruction it rejects, then the check that the function returns at all. A native call carries
  the address of its call site in the immediate; the verifier dereferences it, so the store is
  an argument and an address that is not allocated is a fault.

  The specification \<open>wf_function\<close> states what acceptance is supposed to mean, operand by
  operand, without any traversal order.
\<close>

section \<open>The verifier\<close>

definition fail :: "TurboJSIRDiagnostic ptr \<Rightarrow> TurboJSIRStatus \<Rightarrow> nat \<Rightarrow> string \<Rightarrow> TurboJSIRStatus \<times> TurboJSIRDiagnostic ptr" where
  "fail diagnostic status index message =
     (status, map_option (\<lambda>_. \<lparr>diag_status = status, diag_instruction_index = index, diag_message = message\<rparr>) diagnostic)"

definition valid_register :: "TurboJSIRFunction \<Rightarrow> u16 \<Rightarrow> bool" where
  "valid_register f reg \<longleftrightarrow> reg < irf_register_count f"

text \<open>
  One iteration of the loop: the instruction is accepted (with a flag: it is a return) or
  rejected with a status and a message.
\<close>

datatype verdict = Accept bool | Reject TurboJSIRStatus string

definition check_native_call :: "jit_heap \<Rightarrow> TurboJSIRFunction \<Rightarrow> TurboJSIRInstruction \<Rightarrow> verdict c" where
  "check_native_call H f ins =
     (if \<not> valid_register f (ins_destination ins) \<or> ins_immediate ins = 0
      then Inr (Reject TURBOJS_IR_INVALID_ARGUMENT ''invalid Clutch native call'')
      else bindc (deref (heap_sites H) (ins_immediate ins)) (\<lambda>site.
        if TURBOJS_CLUTCH_MAX_ARGUMENTS < unat (cs_argument_count site)
        then Inr (Reject TURBOJS_IR_INVALID_ARGUMENT ''invalid Clutch native call'')
        else bindc (mapc (rd (cs_argument_registers site)) [0..<unat (cs_argument_count site)]) (\<lambda>regs.
          if list_all (valid_register f) regs then Inr (Accept False)
          else Inr (Reject TURBOJS_IR_INVALID_REGISTER ''invalid Clutch argument register''))))"

definition check_instruction :: "jit_heap \<Rightarrow> TurboJSIRFunction \<Rightarrow> TurboJSIRInstruction \<Rightarrow> verdict c" where
  "check_instruction H f ins =
     (let opcode = ins_opcode ins;
          valid = valid_register f;
          immediate = ins_immediate ins
      in if opcode = TURBOJS_IR_NOP then Inr (Accept False)
      else if opcode \<in> {TURBOJS_IR_ARGUMENT, TURBOJS_IR_VALUE_ARGUMENT} then
        (if \<not> valid (ins_destination ins)
         then Inr (Reject TURBOJS_IR_INVALID_REGISTER ''invalid destination register'')
         else if sint immediate < 0 \<or> unat (irf_argument_count f) \<le> unat immediate
         then Inr (Reject TURBOJS_IR_INVALID_ARGUMENT ''argument index out of range'')
         else Inr (Accept False))
      else if opcode \<in> {TURBOJS_IR_CONSTANT_I64, TURBOJS_IR_CONSTANT_F64, TURBOJS_IR_VALUE_UNDEFINED,
                        TURBOJS_IR_VALUE_CONSTANT_I32, TURBOJS_IR_VALUE_CALLABLE_CONSTANT} then
        (if \<not> valid (ins_destination ins)
         then Inr (Reject TURBOJS_IR_INVALID_REGISTER ''invalid destination register'')
         else Inr (Accept False))
      else if opcode \<in> {TURBOJS_IR_ADD_I64, TURBOJS_IR_SUB_I64, TURBOJS_IR_MUL_I64,
                        TURBOJS_IR_ADD_F64, TURBOJS_IR_SUB_F64, TURBOJS_IR_MUL_F64, TURBOJS_IR_DIV_F64,
                        TURBOJS_IR_LESS_THAN_F64, TURBOJS_IR_LESS_EQUAL_F64, TURBOJS_IR_EQUAL_F64,
                        TURBOJS_IR_ADD_I32_CHECKED, TURBOJS_IR_SUB_I32_CHECKED, TURBOJS_IR_MUL_I32_CHECKED,
                        TURBOJS_IR_DIV_I32_CHECKED, TURBOJS_IR_REM_I32_CHECKED, TURBOJS_IR_LESS_THAN_I64} then
        (if \<not> valid (ins_destination ins) \<or> \<not> valid (ins_left ins) \<or> \<not> valid (ins_right ins)
         then Inr (Reject TURBOJS_IR_INVALID_REGISTER ''invalid arithmetic register'')
         else Inr (Accept False))
      else if opcode \<in> {TURBOJS_IR_I64_TO_F64, TURBOJS_IR_F64_TO_I64_TRUNC,
                        TURBOJS_IR_VALUE_MOVE, TURBOJS_IR_VALUE_TO_BOOLEAN} then
        (if \<not> valid (ins_destination ins) \<or> \<not> valid (ins_left ins)
         then Inr (Reject TURBOJS_IR_INVALID_REGISTER ''invalid conversion register'')
         else Inr (Accept False))
      else if opcode \<in> {TURBOJS_IR_VALUE_CALL_I64, TURBOJS_IR_VALUE_CALL_F64} then
        (if \<not> valid (ins_destination ins) \<or> \<not> valid (ins_left ins) \<or> sint immediate < 0 \<or>
            TURBOJS_CLUTCH_MAX_ARGUMENTS < unat immediate \<or>
            unat (irf_register_count f) < unat (ins_right ins) + unat immediate
         then Inr (Reject TURBOJS_IR_INVALID_ARGUMENT ''invalid tagged callable invocation'')
         else Inr (Accept False))
      else if opcode \<in> {TURBOJS_IR_CALL_NATIVE_I64, TURBOJS_IR_CALL_NATIVE_F64} then
        check_native_call H f ins
      else if opcode = TURBOJS_IR_RUNTIME_HELPER then
        (if \<not> valid (ins_destination ins) \<or> \<not> valid (ins_left ins) \<or> \<not> valid (ins_right ins) \<or>
            sint immediate < 0
         then Inr (Reject TURBOJS_IR_INVALID_ARGUMENT ''invalid runtime helper call'')
         else Inr (Accept False))
      else if opcode \<in> {TURBOJS_IR_LOCAL_GET, TURBOJS_IR_VALUE_LOCAL_GET} then
        (if \<not> valid (ins_destination ins) \<or> sint immediate < 0 \<or> unat (irf_local_count f) \<le> unat immediate
         then Inr (Reject TURBOJS_IR_INVALID_REGISTER ''invalid local load'')
         else Inr (Accept False))
      else if opcode \<in> {TURBOJS_IR_LOCAL_SET, TURBOJS_IR_VALUE_LOCAL_SET} then
        (if \<not> valid (ins_left ins) \<or> sint immediate < 0 \<or> unat (irf_local_count f) \<le> unat immediate
         then Inr (Reject TURBOJS_IR_INVALID_REGISTER ''invalid local store'')
         else Inr (Accept False))
      else if opcode = TURBOJS_IR_JUMP then
        (if irf_instruction_count f \<le> unat (ins_target ins)
         then Inr (Reject TURBOJS_IR_INVALID_TARGET ''jump target out of range'')
         else Inr (Accept False))
      else if opcode \<in> {TURBOJS_IR_BRANCH_TRUE, TURBOJS_IR_BRANCH_FALSE} then
        (if \<not> valid (ins_left ins)
         then Inr (Reject TURBOJS_IR_INVALID_REGISTER ''invalid condition register'')
         else if irf_instruction_count f \<le> unat (ins_target ins)
         then Inr (Reject TURBOJS_IR_INVALID_TARGET ''branch target out of range'')
         else Inr (Accept False))
      else if opcode \<in> {TURBOJS_IR_RETURN_I64, TURBOJS_IR_RETURN_F64, TURBOJS_IR_VALUE_RETURN} then
        (if \<not> valid (ins_left ins)
         then Inr (Reject TURBOJS_IR_INVALID_REGISTER ''invalid return register'')
         else Inr (Accept True))
      else Inr (Reject TURBOJS_IR_INVALID_OPCODE ''unknown IR opcode''))"

text \<open>
  The loop from \<open>index\<close> on; the first argument is the number of instructions left. The result
  is the rejection (status, index, message), or the flag \<^verbatim>\<open>has_return\<close>.
\<close>

fun verify_loop ::
  "nat \<Rightarrow> jit_heap \<Rightarrow> TurboJSIRFunction \<Rightarrow> TurboJSIRInstruction list \<Rightarrow> nat \<Rightarrow> bool
     \<Rightarrow> ((TurboJSIRStatus \<times> nat \<times> string) + bool) c" where
  "verify_loop 0 H f code index has_return = Inr (Inr has_return)"
| "verify_loop (Suc n) H f code index has_return =
     bindc (rd code index) (\<lambda>ins.
     bindc (check_instruction H f ins) (\<lambda>v.
       case v of
         Reject status message \<Rightarrow> Inr (Inl (status, index, message))
       | Accept ret \<Rightarrow> verify_loop n H f code (index + 1) (has_return \<or> ret)))"

definition TurboJS_IRVerify ::
  "jit_heap \<Rightarrow> TurboJSIRFunction ptr \<Rightarrow> TurboJSIRDiagnostic ptr \<Rightarrow> (TurboJSIRStatus \<times> TurboJSIRDiagnostic ptr) c" where
  "TurboJS_IRVerify H function diagnostic =
     (case function of
        None \<Rightarrow> Inr (fail diagnostic TURBOJS_IR_INVALID_ARGUMENT 0 ''invalid function storage'')
      | Some f \<Rightarrow>
          if irf_instructions f = None \<and> irf_instruction_count f \<noteq> 0
          then Inr (fail diagnostic TURBOJS_IR_INVALID_ARGUMENT 0 ''invalid function storage'')
          else if TURBOJS_IR_MAX_REGISTERS < unat (irf_register_count f)
          then Inr (fail diagnostic TURBOJS_IR_INVALID_REGISTER 0 ''register limit exceeded'')
          else bindc (verify_loop (irf_instruction_count f) H f
                        (case irf_instructions f of None \<Rightarrow> [] | Some xs \<Rightarrow> xs) 0 False) (\<lambda>r.
                 case r of
                   Inl (status, index, message) \<Rightarrow> Inr (fail diagnostic status index message)
                 | Inr has_return \<Rightarrow>
                     if \<not> has_return
                     then Inr (fail diagnostic TURBOJS_IR_MISSING_RETURN (irf_instruction_count f) ''function has no return'')
                     else Inr (fail diagnostic TURBOJS_IR_OK 0 ''ok'')))"

section \<open>Specification\<close>

text \<open>Which operands an opcode has.\<close>

definition arithmetic_ops :: "TurboJSIROpcode set" where
  "arithmetic_ops = {TURBOJS_IR_ADD_I64, TURBOJS_IR_SUB_I64, TURBOJS_IR_MUL_I64,
     TURBOJS_IR_ADD_F64, TURBOJS_IR_SUB_F64, TURBOJS_IR_MUL_F64, TURBOJS_IR_DIV_F64,
     TURBOJS_IR_LESS_THAN_F64, TURBOJS_IR_LESS_EQUAL_F64, TURBOJS_IR_EQUAL_F64,
     TURBOJS_IR_ADD_I32_CHECKED, TURBOJS_IR_SUB_I32_CHECKED, TURBOJS_IR_MUL_I32_CHECKED,
     TURBOJS_IR_DIV_I32_CHECKED, TURBOJS_IR_REM_I32_CHECKED, TURBOJS_IR_LESS_THAN_I64}"

definition return_ops :: "TurboJSIROpcode set" where
  "return_ops = {TURBOJS_IR_RETURN_I64, TURBOJS_IR_RETURN_F64, TURBOJS_IR_VALUE_RETURN}"

definition native_call_ops :: "TurboJSIROpcode set" where
  "native_call_ops = {TURBOJS_IR_CALL_NATIVE_I64, TURBOJS_IR_CALL_NATIVE_F64}"

definition tagged_call_ops :: "TurboJSIROpcode set" where
  "tagged_call_ops = {TURBOJS_IR_VALUE_CALL_I64, TURBOJS_IR_VALUE_CALL_F64}"

definition argument_ops :: "TurboJSIROpcode set" where
  "argument_ops = {TURBOJS_IR_ARGUMENT, TURBOJS_IR_VALUE_ARGUMENT}"

definition local_ops :: "TurboJSIROpcode set" where
  "local_ops = {TURBOJS_IR_LOCAL_GET, TURBOJS_IR_VALUE_LOCAL_GET, TURBOJS_IR_LOCAL_SET, TURBOJS_IR_VALUE_LOCAL_SET}"

definition branch_ops :: "TurboJSIROpcode set" where
  "branch_ops = {TURBOJS_IR_BRANCH_TRUE, TURBOJS_IR_BRANCH_FALSE}"

definition known_ops :: "TurboJSIROpcode set" where
  "known_ops = {op. \<forall>n. op \<noteq> TURBOJS_IR_OPCODE_OTHER n}"

definition writes_destination :: "TurboJSIROpcode \<Rightarrow> bool" where
  "writes_destination op \<longleftrightarrow> op \<in> known_ops - return_ops - branch_ops -
     {TURBOJS_IR_NOP, TURBOJS_IR_JUMP, TURBOJS_IR_LOCAL_SET, TURBOJS_IR_VALUE_LOCAL_SET}"

definition reads_left :: "TurboJSIROpcode \<Rightarrow> bool" where
  "reads_left op \<longleftrightarrow> op \<in> arithmetic_ops \<union> return_ops \<union> branch_ops \<union> tagged_call_ops \<union>
     {TURBOJS_IR_I64_TO_F64, TURBOJS_IR_F64_TO_I64_TRUNC, TURBOJS_IR_VALUE_MOVE, TURBOJS_IR_VALUE_TO_BOOLEAN,
      TURBOJS_IR_RUNTIME_HELPER, TURBOJS_IR_LOCAL_SET, TURBOJS_IR_VALUE_LOCAL_SET}"

definition reads_right :: "TurboJSIROpcode \<Rightarrow> bool" where
  "reads_right op \<longleftrightarrow> op \<in> arithmetic_ops \<union> {TURBOJS_IR_RUNTIME_HELPER}"

definition wf_native_call :: "jit_heap \<Rightarrow> TurboJSIRFunction \<Rightarrow> TurboJSIRInstruction \<Rightarrow> bool" where
  "wf_native_call H f ins \<longleftrightarrow> ins_immediate ins \<noteq> 0 \<and>
     (case heap_sites H (ins_immediate ins) of
        None \<Rightarrow> False
      | Some s \<Rightarrow> unat (cs_argument_count s) \<le> TURBOJS_CLUTCH_MAX_ARGUMENTS \<and>
                  (\<forall>r\<in>set (site_arguments s). r < irf_register_count f))"

definition wf_instruction :: "jit_heap \<Rightarrow> TurboJSIRFunction \<Rightarrow> TurboJSIRInstruction \<Rightarrow> bool" where
  "wf_instruction H f ins \<longleftrightarrow>
     ins_opcode ins \<in> known_ops \<and>
     (writes_destination (ins_opcode ins) \<longrightarrow> ins_destination ins < irf_register_count f) \<and>
     (reads_left (ins_opcode ins) \<longrightarrow> ins_left ins < irf_register_count f) \<and>
     (reads_right (ins_opcode ins) \<longrightarrow> ins_right ins < irf_register_count f) \<and>
     (ins_opcode ins \<in> argument_ops \<longrightarrow>
        0 \<le> sint (ins_immediate ins) \<and> unat (ins_immediate ins) < unat (irf_argument_count f)) \<and>
     (ins_opcode ins \<in> local_ops \<longrightarrow>
        0 \<le> sint (ins_immediate ins) \<and> unat (ins_immediate ins) < unat (irf_local_count f)) \<and>
     (ins_opcode ins \<in> insert TURBOJS_IR_JUMP branch_ops \<longrightarrow> unat (ins_target ins) < irf_instruction_count f) \<and>
     (ins_opcode ins \<in> tagged_call_ops \<longrightarrow>
        0 \<le> sint (ins_immediate ins) \<and> unat (ins_immediate ins) \<le> TURBOJS_CLUTCH_MAX_ARGUMENTS \<and>
        unat (ins_right ins) + unat (ins_immediate ins) \<le> unat (irf_register_count f)) \<and>
     (ins_opcode ins = TURBOJS_IR_RUNTIME_HELPER \<longrightarrow> 0 \<le> sint (ins_immediate ins)) \<and>
     (ins_opcode ins \<in> native_call_ops \<longrightarrow> wf_native_call H f ins)"

definition wf_function :: "jit_heap \<Rightarrow> TurboJSIRFunction \<Rightarrow> bool" where
  "wf_function H f \<longleftrightarrow>
     unat (irf_register_count f) \<le> TURBOJS_IR_MAX_REGISTERS \<and>
     (\<forall>ins\<in>set (irf_code f). wf_instruction H f ins) \<and>
     (\<exists>ins\<in>set (irf_code f). ins_opcode ins \<in> return_ops)"

text \<open>
  The precondition under which the verifier itself is safe: a non-null call-site address that
  it will dereference belongs to a call site.
\<close>

definition site_resolves :: "jit_heap \<Rightarrow> TurboJSIRInstruction \<Rightarrow> bool" where
  "site_resolves H ins \<longleftrightarrow>
     (ins_opcode ins \<in> native_call_ops \<longrightarrow> ins_immediate ins \<noteq> 0 \<longrightarrow>
        (\<exists>s. heap_sites H (ins_immediate ins) = Some s \<and>
             length (cs_argument_registers s) = TURBOJS_CLUTCH_MAX_ARGUMENTS))"

definition sites_resolve :: "jit_heap \<Rightarrow> TurboJSIRFunction \<Rightarrow> bool" where
  "sites_resolve H f \<longleftrightarrow> (\<forall>ins\<in>set (irf_code f). site_resolves H ins)"

lemmas opcode_groups [enum_sets] = arithmetic_ops_def return_ops_def native_call_ops_def tagged_call_ops_def
  argument_ops_def local_ops_def branch_ops_def known_ops_def writes_destination_def reads_left_def reads_right_def

section \<open>The verifier meets its specification\<close>

lemma check_native_call_spec:
  assumes "ins_immediate ins \<noteq> 0 \<longrightarrow> (\<exists>s. heap_sites H (ins_immediate ins) = Some s \<and>
             length (cs_argument_registers s) = TURBOJS_CLUTCH_MAX_ARGUMENTS)"
  shows "\<exists>v. check_native_call H f ins = Inr v \<and>
     (if valid_register f (ins_destination ins) \<and> wf_native_call H f ins
      then v = Accept False else \<exists>st m. v = Reject st m \<and> st \<noteq> TURBOJS_IR_OK)"
proof (cases "valid_register f (ins_destination ins) \<and> ins_immediate ins \<noteq> 0")
  case False
  then show ?thesis by (auto simp: check_native_call_def wf_native_call_def)
next
  case True
  then obtain s where s: "heap_sites H (ins_immediate ins) = Some s"
    "length (cs_argument_registers s) = TURBOJS_CLUTCH_MAX_ARGUMENTS"
    using assms by blast
  show ?thesis
  proof (cases "unat (cs_argument_count s) \<le> TURBOJS_CLUTCH_MAX_ARGUMENTS")
    case False
    with True s show ?thesis by (auto simp: check_native_call_def wf_native_call_def deref_def)
  next
    case le: True
    have "mapc (rd (cs_argument_registers s)) [0..<unat (cs_argument_count s)] = Inr (site_arguments s)"
      using le s(2) by (simp add: site_arguments_def mapc_rd_prefix)
    with True s le show ?thesis
      by (auto simp: check_native_call_def wf_native_call_def deref_def list_all_iff valid_register_def)
  qed
qed

lemma check_instruction_accepts:
  assumes "ins_opcode ins \<notin> native_call_ops" "wf_instruction H f ins"
  shows "check_instruction H f ins = Inr (Accept (ins_opcode ins \<in> return_ops))"
  using assms
  by (cases "ins_opcode ins")
     (simp_all add: check_instruction_def wf_instruction_def valid_register_def enum_sets)

lemma check_instruction_rejects:
  assumes "ins_opcode ins \<notin> native_call_ops" "\<not> wf_instruction H f ins"
  shows "check_instruction H f ins \<noteq> Inr (Accept b)"
  using assms
  by (cases "ins_opcode ins")
     (simp_all add: check_instruction_def wf_instruction_def valid_register_def enum_sets Let_def not_less not_le, auto)

lemma check_instruction_no_fault:
  assumes "ins_opcode ins \<notin> native_call_ops"
  shows "check_instruction H f ins \<noteq> Inl e"
  using assms
  by (cases "ins_opcode ins") (simp_all add: check_instruction_def native_call_ops_def Let_def)

lemma check_instruction_no_reject_ok:
  assumes "ins_opcode ins \<notin> native_call_ops"
  shows "check_instruction H f ins \<noteq> Inr (Reject TURBOJS_IR_OK m)"
  using assms
  by (cases "ins_opcode ins") (simp_all add: check_instruction_def native_call_ops_def Let_def)

lemma wf_instruction_native:
  "ins_opcode ins \<in> native_call_ops \<Longrightarrow>
   wf_instruction H f ins \<longleftrightarrow> valid_register f (ins_destination ins) \<and> wf_native_call H f ins"
  by (cases "ins_opcode ins") (simp_all add: wf_instruction_def valid_register_def enum_sets)

lemma check_instruction_native:
  "ins_opcode ins \<in> native_call_ops \<Longrightarrow> check_instruction H f ins = check_native_call H f ins"
  by (auto simp: check_instruction_def native_call_ops_def)

lemma check_instruction_spec:
  assumes "site_resolves H ins"
  shows "\<exists>v. check_instruction H f ins = Inr v \<and>
     (if wf_instruction H f ins then v = Accept (ins_opcode ins \<in> return_ops)
      else \<exists>st m. v = Reject st m \<and> st \<noteq> TURBOJS_IR_OK)"
proof (cases "ins_opcode ins \<in> native_call_ops")
  case True
  moreover have "ins_opcode ins \<notin> return_ops"
    using True by (auto simp: enum_sets)
  ultimately show ?thesis
    using assms check_native_call_spec [of ins H f]
    unfolding site_resolves_def by (simp only: check_instruction_native wf_instruction_native) simp
next
  case False
  show ?thesis
  proof (cases "wf_instruction H f ins")
    case True
    with False check_instruction_accepts show ?thesis by simp
  next
    case not_wf: False
    obtain v where v: "check_instruction H f ins = Inr v"
      using check_instruction_no_fault [OF False] by (metis sum.exhaust)
    with not_wf False check_instruction_rejects check_instruction_no_reject_ok show ?thesis
      by (cases v) auto
  qed
qed

lemma check_instruction_wf:
  "site_resolves H ins \<Longrightarrow> wf_instruction H f ins \<Longrightarrow>
   check_instruction H f ins = Inr (Accept (ins_opcode ins \<in> return_ops))"
  using check_instruction_spec [of H ins f] by simp

lemma check_instruction_not_wf:
  "site_resolves H ins \<Longrightarrow> \<not> wf_instruction H f ins \<Longrightarrow>
   \<exists>st m. check_instruction H f ins = Inr (Reject st m) \<and> st \<noteq> TURBOJS_IR_OK"
  using check_instruction_spec [of H ins f] by auto

lemma verify_loop_wf:
  assumes "length code = index + n"
    and "\<forall>ins\<in>set (drop index code). site_resolves H ins \<and> wf_instruction H f ins"
  shows "verify_loop n H f code index hr =
           Inr (Inr (hr \<or> (\<exists>ins\<in>set (drop index code). ins_opcode ins \<in> return_ops)))"
  using assms
proof (induction n arbitrary: index hr)
  case 0
  then show ?case by simp
next
  case (Suc n)
  have i: "index < length code" using Suc.prems by simp
  have d: "drop index code = code ! index # drop (Suc index) code"
    using i by (rule Cons_nth_drop_Suc [symmetric])
  have "check_instruction H f (code ! index) = Inr (Accept (ins_opcode (code ! index) \<in> return_ops))"
    using Suc.prems(2) by (intro check_instruction_wf) (simp_all add: d)
  then show ?case
    using Suc.prems by (simp add: rd_ok i d Suc.IH disj_assoc)
qed

lemma verify_loop_not_wf:
  assumes "length code = index + n" "index \<le> i" "i < length code" "\<not> wf_instruction H f (code ! i)"
    and "\<And>j. index \<le> j \<Longrightarrow> j < i \<Longrightarrow> wf_instruction H f (code ! j)"
    and "\<And>j. index \<le> j \<Longrightarrow> j \<le> i \<Longrightarrow> site_resolves H (code ! j)"
  shows "\<exists>st m. verify_loop n H f code index hr = Inr (Inl (st, i, m)) \<and> st \<noteq> TURBOJS_IR_OK"
  using assms
proof (induction n arbitrary: index hr)
  case 0
  then show ?case by simp
next
  case (Suc n)
  have i: "index < length code" using Suc.prems by simp
  show ?case
  proof (cases "index = i")
    case True
    obtain st m where "check_instruction H f (code ! i) = Inr (Reject st m)" "st \<noteq> TURBOJS_IR_OK"
      using check_instruction_not_wf [of H "code ! i" f] Suc.prems True by auto
    with i True show ?thesis by (simp add: rd_ok)
  next
    case False
    have "check_instruction H f (code ! index) = Inr (Accept (ins_opcode (code ! index) \<in> return_ops))"
      using Suc.prems False by (intro check_instruction_wf) simp_all
    moreover have "\<exists>st m. verify_loop n H f code (Suc index) hr' = Inr (Inl (st, i, m)) \<and> st \<noteq> TURBOJS_IR_OK" for hr'
      using Suc.prems False by (intro Suc.IH) simp_all
    ultimately show ?thesis using i by (simp add: rd_ok)
  qed
qed

lemma verify_eq:
  assumes "storage_inv f"
  shows "TurboJS_IRVerify H (Some f) d =
    bindc (verify_loop (irf_instruction_count f) H f (irf_code f) 0 False) (\<lambda>r.
      case r of Inl (st, i, m) \<Rightarrow> Inr (fail d st i m)
       | Inr hr \<Rightarrow> if hr then Inr (fail d TURBOJS_IR_OK 0 ''ok'')
           else Inr (fail d TURBOJS_IR_MISSING_RETURN (irf_instruction_count f) ''function has no return''))"
proof -
  have "(case irf_instructions f of None \<Rightarrow> [] | Some xs \<Rightarrow> xs) = irf_code f"
    and "\<not> (irf_instructions f = None \<and> irf_instruction_count f \<noteq> 0)"
    and "unat (irf_register_count f) \<le> TURBOJS_IR_MAX_REGISTERS"
    using assms by (auto simp: storage_defs split: option.splits)
  then show ?thesis
    by (auto simp: TurboJS_IRVerify_def bindc_def split: sum.splits)
qed

lemma verify_ok_iff:
  assumes "storage_inv f" "sites_resolve H f"
  shows "\<exists>st d'. TurboJS_IRVerify H (Some f) d = Inr (st, d') \<and> (st = TURBOJS_IR_OK \<longleftrightarrow> wf_function H f)"
proof (cases "\<forall>ins\<in>set (irf_code f). wf_instruction H f ins")
  case True
  have "verify_loop (irf_instruction_count f) H f (irf_code f) 0 False =
      Inr (Inr (\<exists>ins\<in>set (irf_code f). ins_opcode ins \<in> return_ops))"
    using verify_loop_wf [of "irf_code f" 0 "irf_instruction_count f" H f False] True assms length_irf_code
    by (simp add: sites_resolve_def)
  with True storage_registers [OF assms(1)] show ?thesis
    by (simp add: verify_eq [OF assms(1)] fail_def wf_function_def)
next
  case False
  obtain i where i: "i < length (irf_code f)" "\<not> wf_instruction H f (irf_code f ! i)" "\<forall>j<i. wf_instruction H f (irf_code f ! j)"
    using first_bad_index [OF False] by blast
  obtain st m where "verify_loop (irf_instruction_count f) H f (irf_code f) 0 False = Inr (Inl (st, i, m))" "st \<noteq> TURBOJS_IR_OK"
    using verify_loop_not_wf [of "irf_code f" 0 "irf_instruction_count f" i H f False] i assms length_irf_code
    by (auto simp: sites_resolve_def)
  moreover have "\<not> wf_function H f" using False by (simp add: wf_function_def)
  ultimately show ?thesis by (simp add: verify_eq [OF assms(1)] fail_def)
qed

section \<open>Properties\<close>

text \<open>
  C3. The verifier decides well-formedness. For every function with sound storage whose call-site
  addresses resolve, \<^verbatim>\<open>TurboJS_IRVerify\<close> returns without a fault; it returns OK exactly
  for the well-formed functions (every register, local, argument, branch target and call operand
  in range, every opcode known, at least one return). When some instruction is ill formed, the
  diagnostic carries the index of the first one, with a status that is not OK; when all are well
  formed but none returns, it is the missing-return diagnostic at the end of the code.
\<close>

theorem verifier_decides_wf:
  assumes "storage_inv f" "sites_resolve H f"
  shows "\<exists>d. TurboJS_IRVerify H (Some f) (Some d0) = Inr (diag_status d, Some d) \<and>
     (diag_status d = TURBOJS_IR_OK \<longleftrightarrow> wf_function H f) \<and>
     (if \<forall>ins\<in>set (irf_code f). wf_instruction H f ins
      then \<not> wf_function H f \<longrightarrow> diag_status d = TURBOJS_IR_MISSING_RETURN \<and>
             diag_instruction_index d = irf_instruction_count f
      else diag_instruction_index d < irf_instruction_count f \<and>
           \<not> wf_instruction H f (irf_code f ! diag_instruction_index d) \<and>
           (\<forall>j < diag_instruction_index d. wf_instruction H f (irf_code f ! j)))"
proof -
  let ?n = "irf_instruction_count f" and ?code = "irf_code f"
  have len: "length ?code = 0 + ?n"
    using length_irf_code [OF assms(1)] by simp
  have res: "j < ?n \<Longrightarrow> site_resolves H (?code ! j)" for j
    using assms(2) len by (simp add: sites_resolve_def)
  show ?thesis
  proof (cases "\<forall>ins\<in>set ?code. wf_instruction H f ins")
    case True
    then have "verify_loop ?n H f ?code 0 False = Inr (Inr (\<exists>ins\<in>set ?code. ins_opcode ins \<in> return_ops))"
      using verify_loop_wf [OF len, of H f False] assms(2) by (simp add: sites_resolve_def)
    then show ?thesis
      using True storage_registers [OF assms(1)]
      by (simp add: verify_eq [OF assms(1)] fail_def wf_function_def)
  next
    case False
    then obtain i where i: "i < ?n" "\<not> wf_instruction H f (?code ! i)" "\<forall>j<i. wf_instruction H f (?code ! j)"
      using first_bad_index [OF False] len by auto
    obtain st m where "verify_loop ?n H f ?code 0 False = Inr (Inl (st, i, m))" "st \<noteq> TURBOJS_IR_OK"
      using verify_loop_not_wf [OF len, of i H f False] i res len by auto
    moreover have "\<not> wf_function H f"
      using False by (simp add: wf_function_def)
    ultimately show ?thesis
      using False i by (simp add: verify_eq [OF assms(1)] fail_def)
  qed
qed

text \<open>The function \<^verbatim>\<open>return arguments[0]\<close>.\<close>

definition return_argument :: TurboJSIRFunction where
  "return_argument = null_function\<lparr>irf_instructions := Some
     [null_instruction\<lparr>ins_opcode := TURBOJS_IR_ARGUMENT\<rparr>, null_instruction\<lparr>ins_opcode := TURBOJS_IR_RETURN_I64\<rparr>],
     irf_instruction_count := 2, irf_instruction_capacity := 16,
     irf_register_count := 1, irf_argument_count := 1\<rparr>"

theorem verifier_decides_wf_witness:
  "storage_inv return_argument \<and> sites_resolve empty_heap return_argument \<and>
   (\<exists>d. TurboJS_IRVerify empty_heap (Some return_argument)
          (Some \<lparr>diag_status = TURBOJS_IR_BAILOUT, diag_instruction_index = 9, diag_message = []\<rparr>) =
        Inr (TURBOJS_IR_OK, Some d))"
proof -
  have s: "storage_inv return_argument"
    by (simp add: return_argument_def storage_inv_def null_function_def)
  have r: "sites_resolve empty_heap return_argument"
    by (simp add: sites_resolve_def site_resolves_def return_argument_def irf_code_def null_instruction_def enum_sets)
  have w: "wf_function empty_heap return_argument"
    by (simp add: wf_function_def wf_instruction_def return_argument_def irf_code_def null_instruction_def enum_sets)
  show ?thesis
    using verifier_decides_wf [OF s r,
        of "\<lparr>diag_status = TURBOJS_IR_BAILOUT, diag_instruction_index = 9, diag_message = []\<rparr>"] s r w by auto
qed

text \<open>
  The verifier itself is not safe on untrusted code: if the first instruction is a native call
  with a valid destination whose immediate is a non-null address at which there is no call site,
  verification dereferences that address.
\<close>

lemma verifier_dereferences_immediate:
  assumes "storage_inv f" "irf_code f = ins # code" "ins_opcode ins \<in> native_call_ops"
    and "ins_destination ins < irf_register_count f"
    and "ins_immediate ins \<noteq> 0" "heap_sites H (ins_immediate ins) = None"
  shows "TurboJS_IRVerify H (Some f) d = Inl Fault_bounds"
proof -
  obtain n where n: "irf_instruction_count f = Suc n"
    using length_irf_code [OF assms(1)] assms(2) by (metis length_Cons)
  have "check_instruction H f ins = Inl Fault_bounds"
    using assms by (simp add: check_instruction_native check_native_call_def valid_register_def deref_def)
  then show ?thesis
    by (simp add: verify_eq [OF assms(1)] assms(2) n rd_def)
qed

end
