(* ===== verification/IR_Interp.thy ===== *)
theory IR_Interp
  imports IR_Verify
begin

text \<open>
  The IR interpreter, \<^verbatim>\<open>src/jit/ir/ir_interpreter.c\<close>. One definition per group of
  case labels of \<^verbatim>\<open>execute_from\<close>, one iteration of its loop (\<open>exec_step\<close>), the loop
  with the step budget of the code, and the three entry points. Registers and locals are the
  two automatic arrays of 64 elements; every access to them is bounds-checked, signed overflow
  and an unrepresentable conversion are faults, and binary64 operations act on bit patterns.
\<close>

section \<open>State and helpers\<close>

record exec_state =
  ex_registers :: "i64 list"
  ex_locals :: "i64 list"
  ex_pc :: nat
  ex_result :: i64

type_synonym exec_outcome = "TurboJSIRStatus \<times> i64"

type_synonym exec_flow = "(exec_state, exec_outcome) flow"

definition ret :: "TurboJSIRStatus \<Rightarrow> exec_state \<Rightarrow> exec_flow c" where
  "ret status s = Inr (Stop (status, ex_result s))"

definition set_register :: "exec_state \<Rightarrow> u16 \<Rightarrow> i64 \<Rightarrow> exec_flow c" where
  "set_register s reg v =
     bindc (wr (ex_registers s) (unat reg) v) (\<lambda>regs.
       Inr (Next (s\<lparr>ex_registers := regs, ex_pc := ex_pc s + 1\<rparr>)))"

definition get_register :: "exec_state \<Rightarrow> u16 \<Rightarrow> i64 c" where
  "get_register s reg = rd (ex_registers s) (unat reg)"

section \<open>Groups of case labels\<close>

text \<open>\<^verbatim>\<open>ADD_I64\<close>, \<^verbatim>\<open>SUB_I64\<close>, \<^verbatim>\<open>MUL_I64\<close>: plain signed 64-bit arithmetic.\<close>

definition exec_i64 :: "(int \<Rightarrow> int \<Rightarrow> int) \<Rightarrow> TurboJSIRInstruction \<Rightarrow> exec_state \<Rightarrow> exec_flow c" where
  "exec_i64 op ins s =
     bindc (get_register s (ins_left ins)) (\<lambda>l.
     bindc (get_register s (ins_right ins)) (\<lambda>r.
     bindc (chk64 (op (sint l) (sint r))) (set_register s (ins_destination ins))))"

definition exec_f64 :: "(u64 \<Rightarrow> u64 \<Rightarrow> u64) \<Rightarrow> TurboJSIRInstruction \<Rightarrow> exec_state \<Rightarrow> exec_flow c" where
  "exec_f64 op ins s =
     bindc (get_register s (ins_left ins)) (\<lambda>l.
     bindc (get_register s (ins_right ins)) (\<lambda>r. set_register s (ins_destination ins) (op l r)))"

definition exec_compare :: "(u64 \<Rightarrow> u64 \<Rightarrow> bool) \<Rightarrow> TurboJSIRInstruction \<Rightarrow> exec_state \<Rightarrow> exec_flow c" where
  "exec_compare op ins s =
     bindc (get_register s (ins_left ins)) (\<lambda>l.
     bindc (get_register s (ins_right ins)) (\<lambda>r. set_register s (ins_destination ins) (of_bool64 (op l r))))"

text \<open>
  The checked 32-bit operations; \<open>sdiv\<close> and \<open>smod\<close> truncate towards zero as C does. A
  quotient that does not fit into 64 bits is a fault for \<^verbatim>\<open>/\<close> and for \<^verbatim>\<open>%\<close>.
\<close>

definition exec_checked_i32 :: "TurboJSIRInstruction \<Rightarrow> exec_state \<Rightarrow> exec_flow c" where
  "exec_checked_i32 ins s =
     bindc (get_register s (ins_left ins)) (\<lambda>l.
     bindc (get_register s (ins_right ins)) (\<lambda>r.
       let left = sint l; right = sint r; opcode = ins_opcode ins in
       if opcode \<in> {TURBOJS_IR_DIV_I32_CHECKED, TURBOJS_IR_REM_I32_CHECKED} then
         if right = 0 \<or> (opcode = TURBOJS_IR_DIV_I32_CHECKED \<and> left = INT32_MIN \<and> right = - 1)
         then ret TURBOJS_IR_BAILOUT s
         else bindc (chk64 (left sdiv right)) (\<lambda>quotient.
              bindc (if opcode = TURBOJS_IR_DIV_I32_CHECKED then Inr quotient else chk64 (left smod right))
                (set_register s (ins_destination ins)))
       else
         bindc (chk64 (if opcode = TURBOJS_IR_ADD_I32_CHECKED then left + right
                       else if opcode = TURBOJS_IR_SUB_I32_CHECKED then left - right
                       else left * right)) (\<lambda>value.
           if sint value < INT32_MIN \<or> INT32_MAX < sint value
           then ret TURBOJS_IR_BAILOUT s
           else set_register s (ins_destination ins) value)))"

text \<open>
  The argument loop of a native call: \<open>None\<close> is the early \<^verbatim>\<open>return TURBOJS_IR_BAILOUT\<close>
  on a source register that the function does not have.
\<close>

fun gather_arguments ::
  "TurboJSIRFunction \<Rightarrow> exec_state \<Rightarrow> u16 list \<Rightarrow> i64 list option c" where
  "gather_arguments f s [] = Inr (Some [])"
| "gather_arguments f s (source # sources) =
     (if irf_register_count f \<le> source then Inr None
      else bindc (get_register s source) (\<lambda>v.
           bindc (gather_arguments f s sources) (\<lambda>vs. Inr (map_option ((#) v) vs))))"

definition exec_native_call ::
  "jit_env \<Rightarrow> jit_heap \<Rightarrow> TurboJSIRFunction \<Rightarrow> TurboJSIRInstruction \<Rightarrow> exec_state \<Rightarrow> exec_flow c" where
  "exec_native_call E H f ins s =
     bindc (load (heap_sites H) (ins_immediate ins)) (\<lambda>site.
       case site of
         None \<Rightarrow> ret TURBOJS_IR_BAILOUT s
       | Some cs \<Rightarrow>
           if TURBOJS_CLUTCH_MAX_ARGUMENTS < unat (cs_argument_count cs) then ret TURBOJS_IR_BAILOUT s
           else bindc (mapc (rd (cs_argument_registers cs)) [0..<unat (cs_argument_count cs)]) (\<lambda>sources.
             bindc (gather_arguments f s sources) (\<lambda>args.
               case args of
                 None \<Rightarrow> ret TURBOJS_IR_BAILOUT s
               | Some call_arguments \<Rightarrow>
                   if ins_opcode ins = TURBOJS_IR_CALL_NATIVE_F64 then
                     bindc (TurboJS_ClutchCallSiteInvokeF64 E H (Some cs) (Some call_arguments)
                              (Some (env_uninitialised_f64 E))) (\<lambda>(status, cell).
                       if status \<noteq> TURBOJS_IR_OK then ret TURBOJS_IR_BAILOUT s
                       else set_register s (ins_destination ins) (the cell))
                   else
                     bindc (get_register s (ins_destination ins)) (\<lambda>old.
                     bindc (TurboJS_ClutchCallSiteInvokeI64 E H (Some cs) (Some call_arguments) (Some old))
                       (\<lambda>(status, cell).
                          if status \<noteq> TURBOJS_IR_OK then ret TURBOJS_IR_BAILOUT s
                          else set_register s (ins_destination ins) (the cell))))))"

definition exec_branch :: "bool \<Rightarrow> TurboJSIRInstruction \<Rightarrow> exec_state \<Rightarrow> exec_flow c" where
  "exec_branch sense ins s =
     bindc (get_register s (ins_left ins)) (\<lambda>v.
       Inr (Next (s\<lparr>ex_pc := (if (v \<noteq> 0) = sense then unat (ins_target ins) else ex_pc s + 1)\<rparr>)))"

section \<open>One iteration, the loop, the entry points\<close>

definition exec_step ::
  "jit_env \<Rightarrow> jit_heap \<Rightarrow> TurboJSIRFunction \<Rightarrow> TurboJSIRInstruction \<Rightarrow> exec_state \<Rightarrow> exec_flow c" where
  "exec_step E H f ins s =
     (case ins_opcode ins of
        TURBOJS_IR_NOP \<Rightarrow> Inr (Next (s\<lparr>ex_pc := ex_pc s + 1\<rparr>))
      | TURBOJS_IR_ARGUMENT \<Rightarrow> ret TURBOJS_IR_INVALID_ARGUMENT s
      | TURBOJS_IR_CONSTANT_I64 \<Rightarrow> set_register s (ins_destination ins) (ins_immediate ins)
      | TURBOJS_IR_CONSTANT_F64 \<Rightarrow> set_register s (ins_destination ins) (ins_immediate ins)
      | TURBOJS_IR_ADD_I64 \<Rightarrow> exec_i64 (+) ins s
      | TURBOJS_IR_SUB_I64 \<Rightarrow> exec_i64 (-) ins s
      | TURBOJS_IR_MUL_I64 \<Rightarrow> exec_i64 (*) ins s
      | TURBOJS_IR_ADD_F64 \<Rightarrow> exec_f64 (env_f64_add E) ins s
      | TURBOJS_IR_SUB_F64 \<Rightarrow> exec_f64 (env_f64_sub E) ins s
      | TURBOJS_IR_MUL_F64 \<Rightarrow> exec_f64 (env_f64_mul E) ins s
      | TURBOJS_IR_DIV_F64 \<Rightarrow> exec_f64 (env_f64_div E) ins s
      | TURBOJS_IR_LESS_THAN_F64 \<Rightarrow> exec_compare (env_f64_less E) ins s
      | TURBOJS_IR_LESS_EQUAL_F64 \<Rightarrow> exec_compare (env_f64_less_equal E) ins s
      | TURBOJS_IR_EQUAL_F64 \<Rightarrow> exec_compare (env_f64_equal E) ins s
      | TURBOJS_IR_I64_TO_F64 \<Rightarrow>
          bindc (get_register s (ins_left ins)) (\<lambda>v. set_register s (ins_destination ins) (env_i64_to_f64 E v))
      | TURBOJS_IR_F64_TO_I64_TRUNC \<Rightarrow>
          bindc (get_register s (ins_left ins)) (\<lambda>v.
            case env_f64_to_i64 E v of
              None \<Rightarrow> Inl Fault_convert
            | Some i \<Rightarrow> set_register s (ins_destination ins) i)
      | TURBOJS_IR_ADD_I32_CHECKED \<Rightarrow> exec_checked_i32 ins s
      | TURBOJS_IR_SUB_I32_CHECKED \<Rightarrow> exec_checked_i32 ins s
      | TURBOJS_IR_MUL_I32_CHECKED \<Rightarrow> exec_checked_i32 ins s
      | TURBOJS_IR_DIV_I32_CHECKED \<Rightarrow> exec_checked_i32 ins s
      | TURBOJS_IR_REM_I32_CHECKED \<Rightarrow> exec_checked_i32 ins s
      | TURBOJS_IR_CALL_NATIVE_I64 \<Rightarrow> exec_native_call E H f ins s
      | TURBOJS_IR_CALL_NATIVE_F64 \<Rightarrow> exec_native_call E H f ins s
      | TURBOJS_IR_RUNTIME_HELPER \<Rightarrow> ret TURBOJS_IR_BAILOUT s
      | TURBOJS_IR_LESS_THAN_I64 \<Rightarrow> exec_compare (\<lambda>l r. sint l < sint r) ins s
      | TURBOJS_IR_LOCAL_GET \<Rightarrow>
          bindc (rd (ex_locals s) (unat (ins_immediate ins))) (set_register s (ins_destination ins))
      | TURBOJS_IR_LOCAL_SET \<Rightarrow>
          bindc (get_register s (ins_left ins)) (\<lambda>v.
          bindc (wr (ex_locals s) (unat (ins_immediate ins)) v) (\<lambda>ls.
            Inr (Next (s\<lparr>ex_locals := ls, ex_pc := ex_pc s + 1\<rparr>))))
      | TURBOJS_IR_JUMP \<Rightarrow> Inr (Next (s\<lparr>ex_pc := unat (ins_target ins)\<rparr>))
      | TURBOJS_IR_BRANCH_TRUE \<Rightarrow> exec_branch True ins s
      | TURBOJS_IR_BRANCH_FALSE \<Rightarrow> exec_branch False ins s
      | TURBOJS_IR_RETURN_I64 \<Rightarrow>
          bindc (get_register s (ins_left ins)) (\<lambda>v. ret TURBOJS_IR_OK (s\<lparr>ex_result := v\<rparr>))
      | TURBOJS_IR_RETURN_F64 \<Rightarrow>
          bindc (get_register s (ins_left ins)) (\<lambda>v. ret TURBOJS_IR_OK (s\<lparr>ex_result := v\<rparr>))
      | _ \<Rightarrow> ret TURBOJS_IR_INVALID_OPCODE s)"

definition step_limit :: "TurboJSIRFunction \<Rightarrow> nat" where
  "step_limit f = (irf_instruction_count f * 1000 + 1024) mod 2 ^ 64"

definition in_code :: "TurboJSIRFunction \<Rightarrow> exec_state \<Rightarrow> bool" where
  "in_code f s \<longleftrightarrow> ex_pc s < irf_instruction_count f"

definition exec_body :: "jit_env \<Rightarrow> jit_heap \<Rightarrow> TurboJSIRFunction \<Rightarrow> exec_state \<Rightarrow> exec_flow c" where
  "exec_body E H f s = bindc (rd (irf_code f) (ex_pc s)) (\<lambda>ins. exec_step E H f ins s)"

definition exec_end :: "TurboJSIRStatus \<Rightarrow> exec_state \<Rightarrow> exec_outcome" where
  "exec_end status s = (status, ex_result s)"

definition execute_from ::
  "jit_env \<Rightarrow> jit_heap \<Rightarrow> TurboJSIRFunction \<Rightarrow> exec_state \<Rightarrow> exec_outcome c" where
  "execute_from E H f s =
     limited_loop (in_code f) (exec_body E H f) (exec_end TURBOJS_IR_EXECUTION_LIMIT)
       (exec_end TURBOJS_IR_MISSING_RETURN) (step_limit f) s"

text \<open>
  The argument prefix of \<^verbatim>\<open>TurboJS_IRExecute\<close>: leading \<^verbatim>\<open>ARGUMENT\<close> instructions
  are executed here, and \<^verbatim>\<open>execute_from\<close> is entered at the first other one. The first
  argument is the number of instructions left.
\<close>

fun execute_prefix ::
  "nat \<Rightarrow> jit_env \<Rightarrow> jit_heap \<Rightarrow> TurboJSIRFunction \<Rightarrow> i64 list \<Rightarrow> exec_state \<Rightarrow> exec_outcome c" where
  "execute_prefix 0 E H f args s = Inr (exec_end TURBOJS_IR_MISSING_RETURN s)"
| "execute_prefix (Suc n) E H f args s =
     bindc (rd (irf_code f) (ex_pc s)) (\<lambda>ins.
       if ins_opcode ins = TURBOJS_IR_ARGUMENT then
         bindc (rd args (unat (ins_immediate ins))) (\<lambda>v.
         bindc (wr (ex_registers s) (unat (ins_destination ins)) v) (\<lambda>regs.
           execute_prefix n E H f args (s\<lparr>ex_registers := regs, ex_pc := ex_pc s + 1\<rparr>)))
       else execute_from E H f s)"

lemma execute_prefix_numeral:
  "execute_prefix (numeral k) E H f args s = execute_prefix (Suc (pred_numeral k)) E H f args s"
  by (simp add: numeral_eq_Suc)

lemma execute_prefix_first:
  assumes "ex_pc s < length (irf_code f)" "0 < n" "ins_opcode (irf_code f ! ex_pc s) \<noteq> TURBOJS_IR_ARGUMENT"
  shows "execute_prefix n E H f args s = execute_from E H f s"
  using assms by (cases n) (simp_all add: rd_def)

definition initial_state :: "i64 \<Rightarrow> exec_state" where
  "initial_state result = \<lparr>ex_registers = replicate TURBOJS_IR_MAX_REGISTERS 0,
     ex_locals = replicate TURBOJS_IR_MAX_REGISTERS 0, ex_pc = 0, ex_result = result\<rparr>"

definition null_diagnostic :: TurboJSIRDiagnostic where
  "null_diagnostic = \<lparr>diag_status = TURBOJS_IR_OK, diag_instruction_index = 0, diag_message = []\<rparr>"

definition TurboJS_IRExecute ::
  "jit_env \<Rightarrow> jit_heap \<Rightarrow> TurboJSIRFunction ptr \<Rightarrow> i64 list ptr \<Rightarrow> nat \<Rightarrow> i64 ptr \<Rightarrow> (TurboJSIRStatus \<times> i64 ptr) c" where
  "TurboJS_IRExecute E H function arguments argument_count result =
     (case (function, result) of
        (Some f, Some cell) \<Rightarrow>
          if (argument_count \<noteq> 0 \<and> arguments = None) \<or> argument_count < unat (irf_argument_count f)
          then Inr (TURBOJS_IR_INVALID_ARGUMENT, result)
          else bindc (TurboJS_IRVerify H function (Some null_diagnostic)) (\<lambda>(status, _).
            if status \<noteq> TURBOJS_IR_OK then Inr (status, result)
            else bindc (execute_prefix (irf_instruction_count f) E H f
                   (case arguments of None \<Rightarrow> [] | Some args \<Rightarrow> args) (initial_state cell)) (\<lambda>(st, v).
                 Inr (st, Some v)))
      | _ \<Rightarrow> Inr (TURBOJS_IR_INVALID_ARGUMENT, result))"

text \<open>
  The copy loops of \<^verbatim>\<open>TurboJS_IRResumeAfterBailout\<close>: entry \<open>i\<close> is copied when bit
  \<open>i\<close> of the mask is set; the shift is a fault from 64 on.
\<close>

fun restore_masked :: "nat list \<Rightarrow> u64 \<Rightarrow> i64 list \<Rightarrow> i64 list \<Rightarrow> i64 list c" where
  "restore_masked [] bits source target = Inr target"
| "restore_masked (i # is) bits source target =
     (if 64 \<le> i then Inl Fault_shift
      else if bits AND push_bit i 1 \<noteq> 0 then
        bindc (rd source i) (\<lambda>v. bindc (wr target i v) (restore_masked is bits source))
      else restore_masked is bits source target)"

definition resumable_ops :: "TurboJSIROpcode set" where
  "resumable_ops = {TURBOJS_IR_ADD_I32_CHECKED, TURBOJS_IR_SUB_I32_CHECKED, TURBOJS_IR_MUL_I32_CHECKED,
     TURBOJS_IR_DIV_I32_CHECKED, TURBOJS_IR_REM_I32_CHECKED, TURBOJS_IR_RUNTIME_HELPER,
     TURBOJS_IR_CALL_NATIVE_I64}"

definition TurboJS_IRResumeAfterBailout ::
  "jit_env \<Rightarrow> jit_heap \<Rightarrow> TurboJSIRFunction ptr \<Rightarrow> TurboJSDeoptFrame ptr \<Rightarrow> i64 \<Rightarrow> i64 ptr
     \<Rightarrow> (TurboJSIRStatus \<times> i64 ptr) c" where
  "TurboJS_IRResumeAfterBailout E H function frame slow_path_result result =
     (case (function, frame, result) of
        (Some f, Some fr, Some cell) \<Rightarrow>
          if bi_reason (df_bailout fr) = TURBOJS_BAILOUT_NONE \<or>
             irf_instruction_count f \<le> bi_instruction_index (df_bailout fr)
          then Inr (TURBOJS_IR_INVALID_ARGUMENT, result)
          else bindc (TurboJS_IRVerify H function (Some null_diagnostic)) (\<lambda>(status, _).
            if status \<noteq> TURBOJS_IR_OK then Inr (TURBOJS_IR_INVALID_ARGUMENT, result)
            else if df_register_count fr \<noteq> irf_register_count f \<or> df_local_count fr \<noteq> irf_local_count f
            then Inr (TURBOJS_IR_INVALID_ARGUMENT, result)
            else
              bindc (restore_masked [0..<unat (irf_register_count f)] (df_materialized_register_mask fr)
                       (df_register_values fr) (replicate TURBOJS_IR_MAX_REGISTERS 0)) (\<lambda>regs.
              bindc (restore_masked [0..<unat (irf_local_count f)] (df_materialized_local_mask fr)
                       (df_local_values fr) (replicate TURBOJS_IR_MAX_REGISTERS 0)) (\<lambda>ls.
              bindc (rd (irf_code f) (bi_instruction_index (df_bailout fr))) (\<lambda>failed.
                if ins_opcode failed \<in> resumable_ops then
                  bindc (wr regs (unat (ins_destination failed)) slow_path_result) (\<lambda>regs'.
                  bindc (execute_from E H f \<lparr>ex_registers = regs', ex_locals = ls,
                           ex_pc = bi_instruction_index (df_bailout fr) + 1, ex_result = cell\<rparr>)
                    (\<lambda>(st, v). Inr (st, Some v)))
                else Inr (TURBOJS_IR_UNSUPPORTED, result)))))
      | _ \<Rightarrow> Inr (TURBOJS_IR_INVALID_ARGUMENT, result))"

definition TurboJS_IRExecuteF64 ::
  "jit_env \<Rightarrow> jit_heap \<Rightarrow> TurboJSIRFunction ptr \<Rightarrow> u64 list ptr \<Rightarrow> nat \<Rightarrow> u64 ptr \<Rightarrow> (TurboJSIRStatus \<times> u64 ptr) c" where
  "TurboJS_IRExecuteF64 E H function arguments argument_count result =
     (if result = None \<or> TURBOJS_IR_MAX_REGISTERS < argument_count \<or> (argument_count \<noteq> 0 \<and> arguments = None)
      then Inr (TURBOJS_IR_INVALID_ARGUMENT, result)
      else bindc (mapc (rd (case arguments of None \<Rightarrow> [] | Some args \<Rightarrow> args)) [0..<argument_count]) (\<lambda>given.
           bindc (TurboJS_IRExecute E H function
                    (Some (given @ replicate (TURBOJS_IR_MAX_REGISTERS - argument_count) 0)) argument_count (Some 0))
             (\<lambda>(status, bits). Inr (status, if status = TURBOJS_IR_OK then bits else result))))"

section \<open>Memory safety\<close>

text \<open>
  The invariant of a run on a verified function with at most 64 locals: both arrays have their
  declared size and the result cell still has its initial contents. An iteration never accesses
  out of bounds and never shifts too far; it may overflow or convert badly, and it returns one
  of six statuses, with the cell untouched unless the status is OK.
\<close>

definition exec_ok :: "jit_heap \<Rightarrow> TurboJSIRFunction \<Rightarrow> bool" where
  "exec_ok H f \<longleftrightarrow> storage_inv f \<and> sites_resolve H f \<and> wf_function H f \<and>
     unat (irf_local_count f) \<le> TURBOJS_IR_MAX_REGISTERS \<and>
     (\<forall>a s. heap_sites H a = Some s \<longrightarrow> cs_target s \<noteq> 0 \<longrightarrow> heap_handles H (cs_target s) \<noteq> None)"

definition exec_inv :: "jit_heap \<Rightarrow> TurboJSIRFunction \<Rightarrow> i64 \<Rightarrow> exec_state \<Rightarrow> bool" where
  "exec_inv H f cell s \<longleftrightarrow> exec_ok H f \<and> length (ex_registers s) = TURBOJS_IR_MAX_REGISTERS \<and>
     length (ex_locals s) = TURBOJS_IR_MAX_REGISTERS \<and> ex_result s = cell"

definition arithmetic_fault :: "c_fault \<Rightarrow> bool" where
  "arithmetic_fault e \<longleftrightarrow> e = Fault_overflow \<or> e = Fault_convert"

definition exec_post :: "i64 \<Rightarrow> exec_outcome \<Rightarrow> bool" where
  "exec_post cell r \<longleftrightarrow>
     fst r \<in> {TURBOJS_IR_OK, TURBOJS_IR_INVALID_ARGUMENT, TURBOJS_IR_BAILOUT, TURBOJS_IR_INVALID_OPCODE,
              TURBOJS_IR_EXECUTION_LIMIT, TURBOJS_IR_MISSING_RETURN} \<and>
     (fst r \<noteq> TURBOJS_IR_OK \<longrightarrow> snd r = cell)"

definition exec_stop :: "i64 \<Rightarrow> exec_outcome \<Rightarrow> bool" where
  "exec_stop cell r \<longleftrightarrow> exec_post cell r \<and> fst r \<noteq> TURBOJS_IR_EXECUTION_LIMIT"

fun flow_ok :: "jit_heap \<Rightarrow> TurboJSIRFunction \<Rightarrow> i64 \<Rightarrow> exec_flow c \<Rightarrow> bool" where
  "flow_ok H f cell (Inl e) = arithmetic_fault e"
| "flow_ok H f cell (Inr (Next s)) = exec_inv H f cell s"
| "flow_ok H f cell (Inr (Stop r)) = exec_stop cell r"

lemmas exec_ops = exec_i64_def exec_f64_def exec_compare_def exec_branch_def set_register_def
  get_register_def ret_def

lemma register_in_range:
  "storage_inv f \<Longrightarrow> reg < irf_register_count f \<Longrightarrow> unat reg < 64"
  by (auto simp: storage_inv_def word_less_nat_alt)

lemma get_register_ok:
  "exec_inv H f cell s \<Longrightarrow> reg < irf_register_count f \<Longrightarrow> get_register s reg = Inr (ex_registers s ! unat reg)"
  by (auto simp: get_register_def exec_inv_def exec_ok_def rd_def dest: register_in_range)

lemma set_register_ok:
  "exec_inv H f cell s \<Longrightarrow> reg < irf_register_count f \<Longrightarrow>
   set_register s reg v =
     Inr (Next (s\<lparr>ex_registers := (ex_registers s)[unat reg := v], ex_pc := ex_pc s + 1\<rparr>))"
  by (auto simp: set_register_def exec_inv_def exec_ok_def wr_def dest: register_in_range)

lemma flow_ok_set_register:
  "exec_inv H f cell s \<Longrightarrow> reg < irf_register_count f \<Longrightarrow> flow_ok H f cell (set_register s reg v)"
  by (simp add: set_register_ok) (simp add: exec_inv_def)

lemma flow_ok_ret:
  "exec_inv H f cell s \<Longrightarrow>
   status \<in> {TURBOJS_IR_INVALID_ARGUMENT, TURBOJS_IR_BAILOUT, TURBOJS_IR_INVALID_OPCODE} \<Longrightarrow>
   flow_ok H f cell (ret status s)"
  by (auto simp: ret_def exec_stop_def exec_post_def exec_inv_def)

lemma flow_ok_chk64:
  "(\<And>v. flow_ok H f cell (k v)) \<Longrightarrow> flow_ok H f cell (bindc (chk64 x) k)"
  by (simp add: chk64_def arithmetic_fault_def)

lemma flow_ok_checked_i32:
  assumes "exec_inv H f cell s" "ins_destination ins < irf_register_count f"
    and "ins_left ins < irf_register_count f" "ins_right ins < irf_register_count f"
  shows "flow_ok H f cell (exec_checked_i32 ins s)"
  using assms
  by (auto simp: exec_checked_i32_def get_register_ok Let_def
      intro!: flow_ok_chk64 flow_ok_set_register flow_ok_ret split del: if_split)
     (auto intro!: flow_ok_chk64 flow_ok_set_register flow_ok_ret)

lemma gather_arguments_ok:
  assumes "exec_inv H f cell s" "\<forall>r\<in>set sources. r < irf_register_count f"
  shows "gather_arguments f s sources = Inr (Some (map (\<lambda>r. ex_registers s ! unat r) sources))"
  using assms(2) by (induction sources) (auto simp: get_register_ok [OF assms(1)])

lemma invoke_i64_ok:
  assumes "cs_target s \<noteq> 0 \<longrightarrow> heap_handles H (cs_target s) \<noteq> None"
  shows "\<exists>st v. TurboJS_ClutchCallSiteInvokeI64 E H (Some s) args (Some old) = Inr (st, Some v)"
  using assms
  by (auto simp: TurboJS_ClutchCallSiteInvokeI64_def load_def deref_def split: option.splits prod.splits)

lemma invoke_f64_ok:
  assumes "cs_target s \<noteq> 0 \<longrightarrow> heap_handles H (cs_target s) \<noteq> None"
  shows "\<exists>st v. TurboJS_ClutchCallSiteInvokeF64 E H (Some s) args (Some old) = Inr (st, Some v)"
  using assms
  by (auto simp: TurboJS_ClutchCallSiteInvokeF64_def load_def deref_def split: option.splits prod.splits)

lemma flow_ok_native_call:
  assumes inv: "exec_inv H f cell s" and wf: "wf_native_call H f ins" and res: "site_resolves H ins"
    and op: "ins_opcode ins \<in> native_call_ops" and d: "ins_destination ins < irf_register_count f"
  shows "flow_ok H f cell (exec_native_call E H f ins s)"
proof -
  obtain cs where cs: "heap_sites H (ins_immediate ins) = Some cs" "ins_immediate ins \<noteq> 0"
    and n: "unat (cs_argument_count cs) \<le> TURBOJS_CLUTCH_MAX_ARGUMENTS"
    and args: "\<forall>r\<in>set (site_arguments cs). r < irf_register_count f"
    using wf by (auto simp: wf_native_call_def split: option.splits)
  have len: "length (cs_argument_registers cs) = TURBOJS_CLUTCH_MAX_ARGUMENTS"
    using res op cs by (simp add: site_resolves_def)
  have m: "mapc (rd (cs_argument_registers cs)) [0..<unat (cs_argument_count cs)] = Inr (site_arguments cs)"
    using n len by (simp add: mapc_rd_prefix site_arguments_def)
  have t: "cs_target cs \<noteq> 0 \<longrightarrow> heap_handles H (cs_target cs) \<noteq> None"
    using inv cs(1) unfolding exec_inv_def exec_ok_def by blast
  let ?vs = "map (\<lambda>r. ex_registers s ! unat r) (site_arguments cs)"
  obtain st v where i: "TurboJS_ClutchCallSiteInvokeI64 E H (Some cs) (Some ?vs)
      (Some (ex_registers s ! unat (ins_destination ins))) = Inr (st, Some v)"
    using invoke_i64_ok [OF t] by blast
  obtain st' v' where f: "TurboJS_ClutchCallSiteInvokeF64 E H (Some cs) (Some ?vs)
      (Some (env_uninitialised_f64 E)) = Inr (st', Some v')"
    using invoke_f64_ok [OF t] by blast
  show ?thesis
    using n by (simp add: exec_native_call_def load_def deref_def cs m gather_arguments_ok [OF inv args]
        get_register_ok [OF inv d] i f flow_ok_ret [OF inv] flow_ok_set_register [OF inv d])
qed

lemma flow_ok_step:
  assumes inv: "exec_inv H f cell s" and wf: "wf_instruction H f ins" and res: "site_resolves H ins"
  shows "flow_ok H f cell (exec_step E H f ins s)"
proof (cases "ins_opcode ins \<in> native_call_ops")
  case True
  then have "exec_step E H f ins s = exec_native_call E H f ins s"
    by (auto simp: exec_step_def native_call_ops_def)
  then show ?thesis
    using True flow_ok_native_call [OF inv _ res] wf_instruction_native [OF True] wf
    by (simp add: valid_register_def)
next
  case False
  have locals: "unat (irf_local_count f) \<le> 64" "length (ex_locals s) = 64"
    using inv by (simp_all add: exec_inv_def exec_ok_def)
  note regs = get_register_ok [OF inv] flow_ok_set_register [OF inv] flow_ok_ret [OF inv]
    flow_ok_checked_i32 [OF inv] flow_ok_chk64
  show ?thesis
    using wf False locals inv
    by (cases "ins_opcode ins")
       (simp_all add: exec_step_def wf_instruction_def enum_sets regs rd_def wr_def
          exec_i64_def exec_f64_def exec_compare_def exec_branch_def exec_inv_def exec_stop_def exec_post_def ret_def
          arithmetic_fault_def split: option.splits)
qed

lemma flow_ok_body:
  assumes inv: "exec_inv H f cell s" and pc: "in_code f s"
  shows "flow_ok H f cell (exec_body E H f s)"
proof -
  have st: "storage_inv f" and wf: "wf_function H f" and res: "sites_resolve H f"
    using inv by (simp_all add: exec_inv_def exec_ok_def)
  have l: "ex_pc s < length (irf_code f)"
    using pc length_irf_code [OF st] by (simp add: in_code_def)
  have "wf_instruction H f (irf_code f ! ex_pc s)" "site_resolves H (irf_code f ! ex_pc s)"
    using wf res nth_mem [OF l] by (simp_all add: wf_function_def sites_resolve_def)
  with l flow_ok_step [OF inv] show ?thesis by (simp add: exec_body_def rd_def)
qed

interpretation exec_machine: limited_machine "in_code f" "exec_body E H f"
    "exec_end TURBOJS_IR_EXECUTION_LIMIT" "exec_end TURBOJS_IR_MISSING_RETURN"
    "exec_inv H f cell" arithmetic_fault "exec_post cell"
  for E H f cell
proof
  fix s
  assume s: "exec_inv H f cell s"
  { fix e assume "in_code f s" "exec_body E H f s = Inl e"
    with flow_ok_body [OF s, of E] show "arithmetic_fault e" by simp }
  { fix s' assume "in_code f s" "exec_body E H f s = Inr (Next s')"
    with flow_ok_body [OF s, of E] show "exec_inv H f cell s'" by simp }
  { fix r assume "in_code f s" "exec_body E H f s = Inr (Stop r)"
    with flow_ok_body [OF s, of E] show "exec_post cell r" by (simp add: exec_stop_def) }
  show "exec_post cell (exec_end TURBOJS_IR_EXECUTION_LIMIT s)" "exec_post cell (exec_end TURBOJS_IR_MISSING_RETURN s)"
    using s by (simp_all add: exec_post_def exec_end_def exec_inv_def)
qed

lemma execute_prefix_rule:
  assumes inv: "\<And>s. P s \<Longrightarrow> exec_inv H f cell s"
    and argument: "\<And>s i v. P s \<Longrightarrow> v \<in> set args \<Longrightarrow>
      P (s\<lparr>ex_registers := (ex_registers s)[i := v], ex_pc := Suc (ex_pc s)\<rparr>)"
    and none: "\<And>s. P s \<Longrightarrow> Q (Inr (exec_end TURBOJS_IR_MISSING_RETURN s))"
    and run: "\<And>s. P s \<Longrightarrow> Q (execute_from E H f s)"
    and "unat (irf_argument_count f) \<le> length args"
    and "P s" "length (irf_code f) = ex_pc s + n"
  shows "Q (execute_prefix n E H f args s)"
  using assms(6,7)
proof (induction n arbitrary: s)
  case 0
  then show ?case by (simp add: none)
next
  case (Suc n)
  let ?ins = "irf_code f ! ex_pc s"
  have l: "ex_pc s < length (irf_code f)" using Suc.prems by simp
  have e: "exec_inv H f cell s" using Suc.prems(1) by (rule inv)
  then have wf: "wf_instruction H f ?ins" and st: "storage_inv f" and len: "length (ex_registers s) = 64"
    using nth_mem [OF l] by (simp_all add: exec_inv_def exec_ok_def wf_function_def)
  show ?case
  proof (cases "ins_opcode ?ins = TURBOJS_IR_ARGUMENT")
    case False
    then show ?thesis using run [OF Suc.prems(1)] by (simp add: rd_def l)
  next
    case True
    then have "unat (ins_immediate ?ins) < length args" "unat (ins_destination ?ins) < 64"
      using wf assms(5) register_in_range [OF st]
      by (simp_all add: wf_instruction_def enum_sets)
    then show ?thesis
      using True l len Suc.prems by (simp add: rd_def wr_def Suc.IH argument)
  qed
qed

lemma execute_prefix_contract:
  assumes "exec_inv H f cell s" "length (irf_code f) = ex_pc s + n" "unat (irf_argument_count f) \<le> length args"
  shows "case execute_prefix n E H f args s of Inl e \<Rightarrow> arithmetic_fault e | Inr r \<Rightarrow> exec_post cell r"
  by (rule execute_prefix_rule [where P = "exec_inv H f cell", OF _ _ _ _ assms(3,1,2)])
     (simp_all add: exec_machine.run_contract execute_from_def, simp_all add: exec_inv_def exec_post_def exec_end_def)

lemma initial_inv: "exec_ok H f \<Longrightarrow> exec_inv H f cell (initial_state cell)"
  by (simp add: exec_inv_def initial_state_def)

lemma verify_accepts:
  assumes "exec_ok H f"
  shows "\<exists>d. TurboJS_IRVerify H (Some f) (Some d0) = Inr (TURBOJS_IR_OK, Some d)"
proof -
  have "storage_inv f" "sites_resolve H f" "wf_function H f"
    using assms by (simp_all add: exec_ok_def)
  moreover from this have
    "verify_loop (irf_instruction_count f) H f (irf_code f) 0 False = Inr (Inr True)"
    using verify_loop_wf [of "irf_code f" 0 "irf_instruction_count f" H f False] length_irf_code
    by (simp add: sites_resolve_def wf_function_def)
  ultimately show ?thesis by (simp add: verify_eq fail_def)
qed

section \<open>The 32-bit integer fragment\<close>

definition i32_ops :: "TurboJSIROpcode set" where
  "i32_ops = {TURBOJS_IR_NOP, TURBOJS_IR_ARGUMENT, TURBOJS_IR_CONSTANT_I64, TURBOJS_IR_ADD_I32_CHECKED,
     TURBOJS_IR_SUB_I32_CHECKED, TURBOJS_IR_MUL_I32_CHECKED, TURBOJS_IR_DIV_I32_CHECKED,
     TURBOJS_IR_REM_I32_CHECKED, TURBOJS_IR_RUNTIME_HELPER, TURBOJS_IR_LESS_THAN_I64, TURBOJS_IR_LOCAL_GET,
     TURBOJS_IR_LOCAL_SET, TURBOJS_IR_JUMP, TURBOJS_IR_BRANCH_TRUE, TURBOJS_IR_BRANCH_FALSE,
     TURBOJS_IR_RETURN_I64}"

definition i32_instruction :: "TurboJSIRInstruction \<Rightarrow> bool" where
  "i32_instruction ins \<longleftrightarrow> ins_opcode ins \<in> i32_ops \<and>
     (ins_opcode ins = TURBOJS_IR_CONSTANT_I64 \<longrightarrow> in_int32 (sint (ins_immediate ins)))"

definition i32_values :: "i64 list \<Rightarrow> bool" where
  "i32_values vs \<longleftrightarrow> (\<forall>v\<in>set vs. in_int32 (sint v))"

definition i32_inv :: "jit_heap \<Rightarrow> TurboJSIRFunction \<Rightarrow> i64 \<Rightarrow> exec_state \<Rightarrow> bool" where
  "i32_inv H f cell s \<longleftrightarrow> exec_inv H f cell s \<and> (\<forall>ins\<in>set (irf_code f). i32_instruction ins) \<and>
     i32_values (ex_registers s) \<and> i32_values (ex_locals s)"

definition i32_post :: "i64 \<Rightarrow> exec_outcome \<Rightarrow> bool" where
  "i32_post cell r \<longleftrightarrow> exec_post cell r \<and> (fst r = TURBOJS_IR_OK \<longrightarrow> in_int32 (sint (snd r)))"

fun i32_flow :: "exec_flow c \<Rightarrow> bool" where
  "i32_flow (Inl e) = False"
| "i32_flow (Inr (Next s)) = (i32_values (ex_registers s) \<and> i32_values (ex_locals s))"
| "i32_flow (Inr (Stop r)) = (fst r = TURBOJS_IR_OK \<longrightarrow> in_int32 (sint (snd r)))"

lemma i32_values_nth: "i32_values vs \<Longrightarrow> i < length vs \<Longrightarrow> in_int32 (sint (vs ! i))"
  by (simp add: i32_values_def)

lemma i32_values_update: "i32_values vs \<Longrightarrow> in_int32 (sint v) \<Longrightarrow> i32_values (vs[i := v])"
  using set_update_subset_insert [of vs i v] by (auto simp: i32_values_def)

lemma abs_sdiv_le: "\<bar>(l :: int) sdiv r\<bar> \<le> \<bar>l\<bar>"
proof (cases "r = 0")
  case True
  then show ?thesis by (simp add: signed_divide_int_def)
next
  case False
  have "\<bar>l\<bar> div \<bar>r\<bar> \<le> \<bar>l\<bar> div 1" by (rule zdiv_mono2) (use False in simp_all)
  moreover have "0 \<le> \<bar>l\<bar> div \<bar>r\<bar>" using False by (simp add: pos_imp_zdiv_nonneg_iff)
  ultimately show ?thesis
    by (auto simp: signed_divide_int_def sgn_if)
qed

lemma mod_abs_bounds: "0 \<le> \<bar>l\<bar> mod \<bar>r :: int\<bar> \<and> \<bar>l\<bar> mod \<bar>r\<bar> \<le> \<bar>l\<bar>"
  by (cases "r = 0") (simp_all add: zmod_le_nonneg_dividend)

lemma sdiv_int32:
  assumes "in_int32 l" "in_int32 r" "\<not> (l = INT32_MIN \<and> r = - 1)"
  shows "in_int32 (l sdiv r)"
proof (cases "l = INT32_MIN")
  case False
  then have "\<bar>l\<bar> \<le> INT32_MAX" using assms(1) by (auto simp: in_int32_def)
  then have "\<bar>l sdiv r\<bar> \<le> INT32_MAX" using abs_sdiv_le [of l r] by simp
  then show ?thesis by (auto simp: in_int32_def)
next
  case True
  consider "r = 0" | "r = 1" | "2 \<le> \<bar>r\<bar>" using assms(3) True by linarith
  then show ?thesis
  proof cases
    case 3
    have "\<bar>l\<bar> div \<bar>r\<bar> \<le> \<bar>l\<bar> div 2" by (rule zdiv_mono2) (use 3 in simp_all)
    then have le: "\<bar>l\<bar> div \<bar>r\<bar> \<le> 1073741824" by (simp add: True)
    have "0 \<le> \<bar>l\<bar> div \<bar>r\<bar>" using 3 by (simp add: pos_imp_zdiv_nonneg_iff)
    with le show ?thesis by (auto simp: in_int32_def signed_divide_int_def sgn_if)
  qed (simp_all add: True in_int32_def signed_divide_int_def)
qed

lemma int32_sdiv_int64: "in_int32 l \<Longrightarrow> in_int64 (l sdiv r)"
  using abs_sdiv_le [of l r] by (auto simp: in_int32_def in_int64_def)

lemma int32_smod: "in_int32 l \<Longrightarrow> in_int32 (l smod r)"
  using mod_abs_bounds [of l r] by (auto simp: in_int32_def signed_modulo_int_def sgn_if split: if_splits)

text \<open>
  What the checked operations compute: the mathematical result when it is a 32-bit integer,
  otherwise (and for a zero divisor) no result. The quotient of the smallest integer by -1 is
  the only division that leaves the range; the remainder of that pair is 0.
\<close>

fun i32_result :: "TurboJSIROpcode \<Rightarrow> int \<Rightarrow> int \<Rightarrow> int option" where
  "i32_result TURBOJS_IR_ADD_I32_CHECKED l r = (if in_int32 (l + r) then Some (l + r) else None)"
| "i32_result TURBOJS_IR_SUB_I32_CHECKED l r = (if in_int32 (l - r) then Some (l - r) else None)"
| "i32_result TURBOJS_IR_MUL_I32_CHECKED l r = (if in_int32 (l * r) then Some (l * r) else None)"
| "i32_result TURBOJS_IR_DIV_I32_CHECKED l r = (if r \<noteq> 0 \<and> in_int32 (l sdiv r) then Some (l sdiv r) else None)"
| "i32_result TURBOJS_IR_REM_I32_CHECKED l r = (if r \<noteq> 0 then Some (l smod r) else None)"
| "i32_result _ l r = None"

definition checked_ops :: "TurboJSIROpcode set" where
  "checked_ops = {TURBOJS_IR_ADD_I32_CHECKED, TURBOJS_IR_SUB_I32_CHECKED, TURBOJS_IR_MUL_I32_CHECKED,
     TURBOJS_IR_DIV_I32_CHECKED, TURBOJS_IR_REM_I32_CHECKED}"

lemma i32_result_range: "in_int32 l \<Longrightarrow> i32_result op l r = Some v \<Longrightarrow> in_int32 v"
  by (cases op) (auto simp: int32_smod split: if_splits)

lemma min_sdiv: "\<not> in_int32 (INT32_MIN sdiv (- 1))"
  by (simp add: in_int32_def signed_divide_int_def)

lemma bind_checked_range:
  assumes "in_int64 v"
  shows "bindc (chk64 v) (\<lambda>w. if sint w < INT32_MIN \<or> INT32_MAX < sint w then no else yes w) =
           (if in_int32 v then yes (word_of_int v) else no)"
  using assms by (auto simp: chk64_ok sint_word_of_int64 in_int32_def)

lemma exec_checked_i32_exact:
  assumes "exec_inv H f cell s" "ins_opcode ins \<in> checked_ops"
    and "ins_left ins < irf_register_count f" "ins_right ins < irf_register_count f"
    and "sint (ex_registers s ! unat (ins_left ins)) = l" "sint (ex_registers s ! unat (ins_right ins)) = r"
    and "in_int32 l" "in_int32 r"
  shows "exec_checked_i32 ins s =
    (case i32_result (ins_opcode ins) l r of
       None \<Rightarrow> ret TURBOJS_IR_BAILOUT s
     | Some v \<Rightarrow> set_register s (ins_destination ins) (word_of_int v))"
proof -
  have range: "in_int64 (l + r)" "in_int64 (l - r)" "in_int64 (l * r)" "in_int64 (l sdiv r)" "in_int64 (l smod r)"
    using assms(7,8) in_int32_add in_int32_sub in_int32_mult int32_sdiv_int64 int32_smod in_int32_64 by simp_all
  have div: "l = INT32_MIN \<and> r = - 1 \<longleftrightarrow> \<not> in_int32 (l sdiv r)"
    using sdiv_int32 [OF assms(7,8)] min_sdiv by auto
  note eval = exec_checked_i32_def get_register_ok [OF assms(1,3)] get_register_ok [OF assms(1,4)] assms(5,6)
    bind_checked_range range Let_def div
  consider "ins_opcode ins = TURBOJS_IR_ADD_I32_CHECKED" | "ins_opcode ins = TURBOJS_IR_SUB_I32_CHECKED"
    | "ins_opcode ins = TURBOJS_IR_MUL_I32_CHECKED" | "ins_opcode ins = TURBOJS_IR_DIV_I32_CHECKED"
    | "ins_opcode ins = TURBOJS_IR_REM_I32_CHECKED"
    using assms(2) by (auto simp: checked_ops_def)
  then show ?thesis
  proof cases
    case 4
    then show ?thesis by (simp add: eval chk64_ok)
  next
    case 5
    then show ?thesis by (simp add: eval chk64_ok)
  qed (simp_all add: eval)
qed

lemma i32_set_register:
  assumes "exec_inv H f cell s" "reg < irf_register_count f" "i32_values (ex_registers s)" "i32_values (ex_locals s)"
    and "in_int32 (sint v)"
  shows "i32_flow (set_register s reg v)"
  using assms by (simp add: set_register_ok [OF assms(1,2)] i32_values_update)

lemma i32_of_bool [simp]: "in_int32 (sint (of_bool64 b))"
  by (simp add: of_bool64_def in_int32_def)

lemma i32_checked:
  assumes "exec_inv H f cell s" "ins_opcode ins \<in> checked_ops" "ins_destination ins < irf_register_count f"
    and "ins_left ins < irf_register_count f" "ins_right ins < irf_register_count f"
    and "i32_values (ex_registers s)" "i32_values (ex_locals s)"
  shows "i32_flow (exec_checked_i32 ins s)"
proof -
  have len: "unat reg < length (ex_registers s)" if "reg < irf_register_count f" for reg
    using assms(1) register_in_range [of f reg] that by (simp add: exec_inv_def exec_ok_def)
  let ?l = "sint (ex_registers s ! unat (ins_left ins))" and ?r = "sint (ex_registers s ! unat (ins_right ins))"
  have lr: "in_int32 ?l" "in_int32 ?r"
    using i32_values_nth [OF assms(6)] len assms(4,5) by simp_all
  have "i32_flow (set_register s (ins_destination ins) (word_of_int v))" if "i32_result (ins_opcode ins) ?l ?r = Some v" for v
    using i32_set_register [OF assms(1,3,6,7)] i32_result_range [OF lr(1) that] by (simp add: sint_word_of_int64 in_int32_64)
  then show ?thesis
    by (simp add: exec_checked_i32_exact [OF assms(1,2,4,5) refl refl lr] ret_def split: option.splits)
qed

lemma i32_step:
  assumes inv: "exec_inv H f cell s" and wf: "wf_instruction H f ins" and i32: "i32_instruction ins"
    and vals: "i32_values (ex_registers s)" "i32_values (ex_locals s)"
  shows "i32_flow (exec_step E H f ins s)"
proof (cases "ins_opcode ins \<in> checked_ops")
  case True
  then have "exec_step E H f ins s = exec_checked_i32 ins s"
    by (auto simp: exec_step_def checked_ops_def)
  moreover have "ins_destination ins < irf_register_count f" "ins_left ins < irf_register_count f"
    "ins_right ins < irf_register_count f"
    using True wf by (cases "ins_opcode ins"; simp add: wf_instruction_def checked_ops_def enum_sets)+
  ultimately show ?thesis
    using i32_checked [OF inv True _ _ _ vals] by simp
next
  case False
  have st: "storage_inv f" and len: "length (ex_registers s) = 64" "length (ex_locals s) = 64"
    and locals: "unat (irf_local_count f) \<le> 64"
    using inv by (simp_all add: exec_inv_def exec_ok_def)
  note regs = get_register_ok [OF inv] i32_set_register [OF inv _ vals] i32_values_nth [OF vals(1)]
    i32_values_nth [OF vals(2)] i32_values_update [OF vals(2)] register_in_range [OF st]
  show ?thesis
    using wf False i32 len locals vals
    by (cases "ins_opcode ins")
       (simp_all add: exec_step_def wf_instruction_def enum_sets i32_instruction_def i32_ops_def checked_ops_def
          regs rd_def wr_def exec_compare_def exec_branch_def ret_def)
qed

lemma i32_body:
  assumes inv: "i32_inv H f cell s" and pc: "in_code f s"
  shows "i32_flow (exec_body E H f s)"
proof -
  have e: "exec_inv H f cell s" and vals: "i32_values (ex_registers s)" "i32_values (ex_locals s)"
    using inv by (simp_all add: i32_inv_def)
  have st: "storage_inv f" and wf: "wf_function H f"
    using e by (simp_all add: exec_inv_def exec_ok_def)
  have l: "ex_pc s < length (irf_code f)"
    using pc length_irf_code [OF st] by (simp add: in_code_def)
  have "wf_instruction H f (irf_code f ! ex_pc s)" "i32_instruction (irf_code f ! ex_pc s)"
    using wf inv nth_mem [OF l] by (simp_all add: wf_function_def i32_inv_def)
  with l i32_step [OF e _ _ vals] show ?thesis by (simp add: exec_body_def rd_def)
qed

interpretation i32_machine: limited_machine "in_code f" "exec_body E H f"
    "exec_end TURBOJS_IR_EXECUTION_LIMIT" "exec_end TURBOJS_IR_MISSING_RETURN"
    "i32_inv H f cell" "\<lambda>_. False" "i32_post cell"
  for E H f cell
proof
  fix s
  assume s: "i32_inv H f cell s"
  then have e: "exec_inv H f cell s" by (simp add: i32_inv_def)
  { fix x assume "in_code f s" "exec_body E H f s = Inl x"
    with i32_body [OF s, of E] show False by simp }
  { fix s' assume "in_code f s" "exec_body E H f s = Inr (Next s')"
    with i32_body [OF s, of E] flow_ok_body [OF e, of E] s show "i32_inv H f cell s'" by (simp add: i32_inv_def) }
  { fix r assume "in_code f s" "exec_body E H f s = Inr (Stop r)"
    with i32_body [OF s, of E] flow_ok_body [OF e, of E] show "i32_post cell r" by (simp add: i32_post_def exec_stop_def) }
  show "i32_post cell (exec_end TURBOJS_IR_EXECUTION_LIMIT s)" "i32_post cell (exec_end TURBOJS_IR_MISSING_RETURN s)"
    using e by (simp_all add: i32_post_def exec_post_def exec_end_def exec_inv_def)
qed

lemma execute_prefix_i32:
  assumes "i32_inv H f cell s" "length (irf_code f) = ex_pc s + n" "unat (irf_argument_count f) \<le> length args"
    and "i32_values args"
  shows "case execute_prefix n E H f args s of Inl e \<Rightarrow> False | Inr r \<Rightarrow> i32_post cell r"
proof (rule execute_prefix_rule [where P = "i32_inv H f cell", OF _ _ _ _ assms(3,1,2)])
  fix s
  assume s: "i32_inv H f cell s"
  then show "exec_inv H f cell s" by (simp add: i32_inv_def)
  show "case execute_from E H f s of Inl e \<Rightarrow> False | Inr r \<Rightarrow> i32_post cell r"
    using i32_machine.run_contract [OF s] by (simp add: execute_from_def)
  show "case Inr (exec_end TURBOJS_IR_MISSING_RETURN s) of Inl e \<Rightarrow> False | Inr r \<Rightarrow> i32_post cell r"
    using s by (simp add: i32_post_def exec_post_def exec_end_def i32_inv_def exec_inv_def)
next
  fix s i v
  assume "i32_inv H f cell s" "v \<in> set args"
  moreover from this assms(4) have "in_int32 (sint v)" by (simp add: i32_values_def)
  ultimately show "i32_inv H f cell (s\<lparr>ex_registers := (ex_registers s)[i := v], ex_pc := Suc (ex_pc s)\<rparr>)"
    by (simp add: i32_inv_def exec_inv_def i32_values_update)
qed

section \<open>Loop-free code\<close>

definition forward_code :: "TurboJSIRFunction \<Rightarrow> bool" where
  "forward_code f \<longleftrightarrow> (\<forall>pc < length (irf_code f).
     ins_opcode (irf_code f ! pc) \<in> insert TURBOJS_IR_JUMP branch_ops \<longrightarrow> pc < unat (ins_target (irf_code f ! pc)))"

lemma set_register_next: "set_register s reg v = Inr (Next s') \<Longrightarrow> ex_pc s' = Suc (ex_pc s)"
  by (auto simp: set_register_def bindc_Inr_iff)

lemma native_call_next: "exec_native_call E H f ins s = Inr (Next s') \<Longrightarrow> ex_pc s' = Suc (ex_pc s)"
  by (auto simp: exec_native_call_def bindc_Inr_iff ret_def dest: set_register_next split: option.splits if_splits)

lemma checked_next: "exec_checked_i32 ins s = Inr (Next s') \<Longrightarrow> ex_pc s' = Suc (ex_pc s)"
  by (auto simp: exec_checked_i32_def Let_def bindc_Inr_iff ret_def dest: set_register_next split: if_splits)

lemma step_next:
  assumes "exec_step E H f ins s = Inr (Next s')"
  shows "ex_pc s' = Suc (ex_pc s) \<or> ins_opcode ins \<in> insert TURBOJS_IR_JUMP branch_ops \<and> ex_pc s' = unat (ins_target ins)"
  using assms
  by (cases "ins_opcode ins")
     (auto simp: exec_step_def exec_i64_def exec_f64_def exec_compare_def exec_branch_def ret_def bindc_Inr_iff branch_ops_def
        dest: set_register_next native_call_next checked_next split: option.splits)

lemma forward_body:
  assumes "forward_code f" "in_code f s" "storage_inv f" "exec_body E H f s = Inr (Next s')"
  shows "irf_instruction_count f - ex_pc s' < irf_instruction_count f - ex_pc s"
proof -
  have l: "ex_pc s < length (irf_code f)"
    using assms(2) length_irf_code [OF assms(3)] by (simp add: in_code_def)
  then have "ex_pc s < ex_pc s'"
    using assms(1,4) step_next [of E H f "irf_code f ! ex_pc s" s s'] by (auto simp: exec_body_def rd_def forward_code_def)
  then show ?thesis using assms(2) by (simp add: in_code_def)
qed

lemma forward_execute_from:
  assumes inv: "exec_inv H f cell s" and fwd: "forward_code f"
    and small: "irf_instruction_count f * 1000 + 1024 < 2 ^ 64"
  shows "execute_from E H f s \<noteq> Inr (TURBOJS_IR_EXECUTION_LIMIT, v)"
proof
  let ?lim = "exec_end TURBOJS_IR_EXECUTION_LIMIT" and ?out = "exec_end TURBOJS_IR_MISSING_RETURN"
  assume "execute_from E H f s = Inr (TURBOJS_IR_EXECUTION_LIMIT, v)"
  then have run: "limited_loop (in_code f) (exec_body E H f) ?lim ?out (step_limit f) s =
      Inr (TURBOJS_IR_EXECUTION_LIMIT, v)"
    by (simp add: execute_from_def)
  have st: "storage_inv f" using inv by (simp add: exec_inv_def exec_ok_def)
  have budget: "irf_instruction_count f - ex_pc s \<le> step_limit f"
    using small by (simp add: step_limit_def)
  have "(\<exists>s'. exec_inv H f cell s' \<and> \<not> in_code f s' \<and> (TURBOJS_IR_EXECUTION_LIMIT, v) = ?out s') \<or>
    (\<exists>s'. exec_inv H f cell s' \<and> in_code f s' \<and> exec_body E H f s' = Inr (Stop (TURBOJS_IR_EXECUTION_LIMIT, v)))"
    by (rule exec_machine.run_measure
          [where m = "\<lambda>s. irf_instruction_count f - ex_pc s", OF inv budget run]) (use forward_body [OF fwd _ st] in \<open>simp_all add: in_code_def\<close>)
  then show False
    using flow_ok_body [of H f cell _ E] by (fastforce simp: exec_end_def exec_stop_def)
qed

section \<open>Resuming after a bailout\<close>

text \<open>
  A deoptimization frame captures a state: the frame's masked values are the registers and
  locals, everything outside the masks is zero, and the failing instruction is the current one.
\<close>

definition masked_values :: "nat \<Rightarrow> u64 \<Rightarrow> i64 list \<Rightarrow> i64 list" where
  "masked_values n bits values = map (\<lambda>i. if i < n \<and> bit bits i then values ! i else 0) [0..<TURBOJS_IR_MAX_REGISTERS]"

definition frame_captures :: "TurboJSIRFunction \<Rightarrow> TurboJSDeoptFrame \<Rightarrow> exec_state \<Rightarrow> bool" where
  "frame_captures f fr s \<longleftrightarrow>
     bi_reason (df_bailout fr) \<noteq> TURBOJS_BAILOUT_NONE \<and> bi_instruction_index (df_bailout fr) = ex_pc s \<and>
     df_register_count fr = irf_register_count f \<and> df_local_count fr = irf_local_count f \<and>
     length (df_register_values fr) = TURBOJS_IR_MAX_REGISTERS \<and> length (df_local_values fr) = TURBOJS_IR_MAX_REGISTERS \<and>
     ex_registers s = masked_values (unat (irf_register_count f)) (df_materialized_register_mask fr) (df_register_values fr) \<and>
     ex_locals s = masked_values (unat (irf_local_count f)) (df_materialized_local_mask fr) (df_local_values fr)"

lemma restore_masked_ok:
  assumes "\<forall>i\<in>set is. i < 64" "length source = 64" "length target = 64"
  shows "restore_masked is bits source target =
    Inr (map (\<lambda>i. if i \<in> set is \<and> bit bits i then source ! i else target ! i) [0..<64])"
  using assms
proof (induction "is" arbitrary: target)
  case Nil
  then show ?case by (simp add: list_eq_iff_nth_eq)
next
  case (Cons i "is")
  show ?case
    using Cons.prems
    by (auto simp: and_exp_eq_0_iff_not_bit rd_def wr_def Cons.IH list_eq_iff_nth_eq nth_list_update)
qed

lemma restore_masked_values:
  assumes "n \<le> 64" "length source = 64"
  shows "restore_masked [0..<n] bits source (replicate TURBOJS_IR_MAX_REGISTERS 0) = Inr (masked_values n bits source)"
  using assms by (simp add: restore_masked_ok masked_values_def)

section \<open>Properties\<close>

lemma execute_contract:
  assumes "exec_ok H f" "unat (irf_argument_count f) \<le> n" "length args = n"
  shows "case TurboJS_IRExecute E H (Some f) (Some args) n (Some cell) of
           Inl e \<Rightarrow> e = Fault_overflow \<or> e = Fault_convert
         | Inr (st, v) \<Rightarrow> st \<in> {TURBOJS_IR_OK, TURBOJS_IR_INVALID_ARGUMENT, TURBOJS_IR_BAILOUT,
               TURBOJS_IR_INVALID_OPCODE, TURBOJS_IR_EXECUTION_LIMIT, TURBOJS_IR_MISSING_RETURN} \<and>
             (st \<noteq> TURBOJS_IR_OK \<longrightarrow> v = Some cell)"
proof -
  obtain d where d: "TurboJS_IRVerify H (Some f) (Some null_diagnostic) = Inr (TURBOJS_IR_OK, Some d)"
    using verify_accepts [OF assms(1)] by blast
  have "storage_inv f" using assms(1) by (simp add: exec_ok_def)
  then have "case execute_prefix (irf_instruction_count f) E H f args (initial_state cell) of
      Inl e \<Rightarrow> arithmetic_fault e | Inr r \<Rightarrow> exec_post cell r"
    using execute_prefix_contract [OF initial_inv [OF assms(1)], where n = "irf_instruction_count f" and args = args and E = E and cell = cell]
      length_irf_code assms(2,3) by (simp add: initial_state_def)
  then show ?thesis
    using assms(2) d
    by (auto simp: TurboJS_IRExecute_def bindc_def exec_post_def arithmetic_fault_def split: sum.splits prod.splits)
qed

text \<open>
  C5. Executing a verified function is memory safe. For a well-formed function with at most 64
  locals whose call sites and entry handles are allocated, called with enough arguments,
  \<^verbatim>\<open>TurboJS_IRExecute\<close> never accesses an array out of bounds (the only faults left are
  signed overflow in the unchecked 64-bit operations and a float that does not fit); when it
  returns, the status is one of six, and the result cell is written only when it is OK.
\<close>

theorem execute_memory_safe:
  assumes "exec_ok H f" "unat (irf_argument_count f) \<le> n" "length args = n"
  shows "case TurboJS_IRExecute E H (Some f) (Some args) n (Some cell) of
           Inl e \<Rightarrow> e = Fault_overflow \<or> e = Fault_convert
         | Inr (st, v) \<Rightarrow> st \<in> {TURBOJS_IR_OK, TURBOJS_IR_INVALID_ARGUMENT, TURBOJS_IR_BAILOUT,
               TURBOJS_IR_INVALID_OPCODE, TURBOJS_IR_EXECUTION_LIMIT, TURBOJS_IR_MISSING_RETURN} \<and>
             (st \<noteq> TURBOJS_IR_OK \<longrightarrow> v = Some cell)"
  using assms by (rule execute_contract)

lemmas evaluate_ir = return_argument_def null_function_def null_instruction_def irf_code_def initial_state_def
  execute_from_def step_limit_def limited_loop_numeral in_code_def exec_body_def exec_step_def exec_ops
  exec_end_def rd_def wr_def execute_prefix_numeral

lemma return_argument_ok: "exec_ok empty_heap return_argument"
  by (simp add: exec_ok_def storage_inv_def null_function_def sites_resolve_def site_resolves_def return_argument_def
      irf_code_def null_instruction_def enum_sets wf_function_def wf_instruction_def empty_heap_def)

theorem execute_memory_safe_witness:
  "exec_ok empty_heap return_argument \<and>
   TurboJS_IRExecute example_env empty_heap (Some return_argument) (Some [7]) 1 (Some 0) = Inr (TURBOJS_IR_OK, Some 7) \<and>
   (case TurboJS_IRExecute example_env empty_heap (Some return_argument) (Some [7]) 1 (Some 0) of
      Inl e \<Rightarrow> e = Fault_overflow \<or> e = Fault_convert
    | Inr (st, v) \<Rightarrow> st \<in> {TURBOJS_IR_OK, TURBOJS_IR_INVALID_ARGUMENT, TURBOJS_IR_BAILOUT,
               TURBOJS_IR_INVALID_OPCODE, TURBOJS_IR_EXECUTION_LIMIT, TURBOJS_IR_MISSING_RETURN})"
proof -
  obtain d where "TurboJS_IRVerify empty_heap (Some return_argument) (Some null_diagnostic) = Inr (TURBOJS_IR_OK, Some d)"
    using verify_accepts [OF return_argument_ok] by blast
  then have "TurboJS_IRExecute example_env empty_heap (Some return_argument) (Some [7]) 1 (Some 0) = Inr (TURBOJS_IR_OK, Some 7)"
    by (simp add: TurboJS_IRExecute_def) (simp add: evaluate_ir)
  moreover have "unat (irf_argument_count return_argument) \<le> 1"
    by (simp add: return_argument_def)
  ultimately show ?thesis
    using return_argument_ok execute_memory_safe [OF return_argument_ok, where n = 1 and args = "[7]" and E = example_env and cell = 0] by auto
qed

text \<open>
  C8. The 32-bit fragment is sound. A verified function built from 32-bit constants, checked
  32-bit arithmetic, comparisons, locals, branches and returns, called with 32-bit arguments,
  runs without any fault (no undefined behaviour at all), and if it returns OK the result is a
  32-bit integer.
\<close>

theorem execute_i32_sound:
  assumes "exec_ok H f" "\<forall>ins\<in>set (irf_code f). i32_instruction ins"
    and "unat (irf_argument_count f) \<le> length args" "i32_values args"
  shows "\<exists>st v. TurboJS_IRExecute E H (Some f) (Some args) (length args) (Some cell) = Inr (st, Some v) \<and>
           (st = TURBOJS_IR_OK \<longrightarrow> in_int32 (sint v))"
proof -
  obtain d where d: "TurboJS_IRVerify H (Some f) (Some null_diagnostic) = Inr (TURBOJS_IR_OK, Some d)"
    using verify_accepts [OF assms(1)] by blast
  have "storage_inv f" using assms(1) by (simp add: exec_ok_def)
  have inv: "i32_inv H f cell (initial_state cell)"
    using initial_inv [OF assms(1)] assms(2) by (simp add: i32_inv_def i32_values_def initial_state_def in_int32_def)
  have "case execute_prefix (irf_instruction_count f) E H f args (initial_state cell) of
      Inl e \<Rightarrow> False | Inr r \<Rightarrow> i32_post cell r"
    using execute_prefix_i32 [OF inv _ assms(3,4)] length_irf_code [OF \<open>storage_inv f\<close>] by (simp add: initial_state_def)
  then show ?thesis
    using assms(3) d by (auto simp: TurboJS_IRExecute_def i32_post_def split: sum.splits)
qed

theorem execute_i32_sound_witness:
  "\<exists>v. TurboJS_IRExecute example_env empty_heap (Some return_argument) (Some [7]) 1 (Some 0) = Inr (TURBOJS_IR_OK, Some v) \<and>
       in_int32 (sint v)"
proof -
  have i: "\<forall>ins\<in>set (irf_code return_argument). i32_instruction ins" "i32_values [7]"
    "unat (irf_argument_count return_argument) \<le> length [7 :: i64]"
    by (simp_all add: return_argument_def irf_code_def i32_instruction_def i32_ops_def null_instruction_def
        i32_values_def in_int32_def)
  obtain d where "TurboJS_IRVerify empty_heap (Some return_argument) (Some null_diagnostic) = Inr (TURBOJS_IR_OK, Some d)"
    using verify_accepts [OF return_argument_ok] by blast
  then have "TurboJS_IRExecute example_env empty_heap (Some return_argument) (Some [7]) 1 (Some 0) = Inr (TURBOJS_IR_OK, Some 7)"
    by (simp add: TurboJS_IRExecute_def) (simp add: evaluate_ir)
  then show ?thesis
    using execute_i32_sound [OF return_argument_ok i(1) i(3,2), of example_env 0] by simp
qed

text \<open>
  C17. The step budget never cuts short code without loops: if every jump and branch of a verified
  function goes forward (and the budget \<^verbatim>\<open>instruction_count * 1000 + 1024\<close> does not wrap),
  execution from any point of the code ends with a status other than the execution limit.
\<close>

theorem forward_code_never_hits_limit:
  assumes "exec_ok H f" "forward_code f" "irf_instruction_count f * 1000 + 1024 < 2 ^ 64"
    and "unat (irf_argument_count f) \<le> length args"
  shows "TurboJS_IRExecute E H (Some f) (Some args) (length args) (Some cell) \<noteq> Inr (TURBOJS_IR_EXECUTION_LIMIT, v)"
proof -
  obtain d where d: "TurboJS_IRVerify H (Some f) (Some null_diagnostic) = Inr (TURBOJS_IR_OK, Some d)"
    using verify_accepts [OF assms(1)] by blast
  have "storage_inv f" using assms(1) by (simp add: exec_ok_def)
  then have len: "length (irf_code f) = ex_pc (initial_state cell) + irf_instruction_count f"
    by (simp add: length_irf_code initial_state_def)
  have "\<forall>v. execute_prefix (irf_instruction_count f) E H f args (initial_state cell) \<noteq> Inr (TURBOJS_IR_EXECUTION_LIMIT, v)"
    by (rule execute_prefix_rule [where P = "exec_inv H f cell" and
          Q = "\<lambda>m. \<forall>v. m \<noteq> Inr (TURBOJS_IR_EXECUTION_LIMIT, v)", OF _ _ _ _ assms(4) initial_inv [OF assms(1)] len])
       (auto simp: forward_execute_from [OF _ assms(2,3)] exec_inv_def exec_end_def)
  then show ?thesis
    using assms(4) d by (auto simp: TurboJS_IRExecute_def bindc_Inr_iff)
qed

theorem forward_code_never_hits_limit_witness:
  "forward_code return_argument \<and>
   TurboJS_IRExecute example_env empty_heap (Some return_argument) (Some [7]) 1 (Some 0) \<noteq> Inr (TURBOJS_IR_EXECUTION_LIMIT, Some 0)"
proof -
  have f: "forward_code return_argument"
    by (simp add: forward_code_def return_argument_def irf_code_def null_instruction_def branch_ops_def less_Suc_eq numeral_2_eq_2)
  have "irf_instruction_count return_argument * 1000 + 1024 < 2 ^ 64"
    "unat (irf_argument_count return_argument) \<le> length [7 :: i64]"
    by (simp_all add: return_argument_def)
  with f forward_code_never_hits_limit [OF return_argument_ok f, of "[7]" example_env 0 "Some 0"] show ?thesis by simp
qed

text \<open>
  C18. Deoptimization resumes where the compiled code stopped: if a frame captures the state at a
  checked 32-bit operation, a runtime helper or a native call of a verified function (at most 64
  locals), then \<^verbatim>\<open>TurboJS_IRResumeAfterBailout\<close> gives exactly what the interpreter gives
  when it continues after that instruction with the slow-path result in its destination.
\<close>

theorem resume_continues_execution:
  assumes "exec_ok H f" "frame_captures f fr s" "ex_pc s < irf_instruction_count f"
    and "ins_opcode (irf_code f ! ex_pc s) \<in> resumable_ops" "ex_result s = cell"
  shows "TurboJS_IRResumeAfterBailout E H (Some f) (Some fr) v (Some cell) =
    bindc (execute_from E H f
        (s\<lparr>ex_registers := (ex_registers s)[unat (ins_destination (irf_code f ! ex_pc s)) := v], ex_pc := ex_pc s + 1\<rparr>))
      (\<lambda>(st, r). Inr (st, Some r))"
proof -
  obtain d where d: "TurboJS_IRVerify H (Some f) (Some null_diagnostic) = Inr (TURBOJS_IR_OK, Some d)"
    using verify_accepts [OF assms(1)] by blast
  have st: "storage_inv f" and wf: "wf_function H f" and ls: "unat (irf_local_count f) \<le> 64"
    using assms(1) by (simp_all add: exec_ok_def)
  have l: "ex_pc s < length (irf_code f)" using assms(3) length_irf_code [OF st] by simp
  have "wf_instruction H f (irf_code f ! ex_pc s)"
    using wf nth_mem [OF l] by (simp add: wf_function_def)
  then have dest: "unat (ins_destination (irf_code f ! ex_pc s)) < 64"
    using assms(4) register_in_range [OF st]
    by (cases "ins_opcode (irf_code f ! ex_pc s)") (simp_all add: wf_instruction_def resumable_ops_def enum_sets)
  have s: "s = \<lparr>ex_registers = ex_registers s, ex_locals = ex_locals s, ex_pc = ex_pc s, ex_result = cell\<rparr>"
    using assms(5) by simp
  show ?thesis
    using assms(2,3,4) d l dest ls storage_registers [OF st]
    by (subst (3) s) (simp add: TurboJS_IRResumeAfterBailout_def frame_captures_def restore_masked_values rd_def wr_def
        masked_values_def assms(5))
qed

theorem resume_continues_execution_witness:
  "let f = return_argument\<lparr>irf_instructions := Some
         [null_instruction\<lparr>ins_opcode := TURBOJS_IR_ADD_I32_CHECKED\<rparr>, null_instruction\<lparr>ins_opcode := TURBOJS_IR_RETURN_I64\<rparr>]\<rparr>;
       fr = \<lparr>df_bailout = \<lparr>bi_reason = TURBOJS_BAILOUT_INTEGER_OVERFLOW, bi_instruction_index = 0, bi_bytecode_offset = 0\<rparr>,
              df_register_count = 1, df_local_count = 0, df_stack_count = 0, df_materialized_register_mask = 0,
              df_materialized_local_mask = 0, df_live_register_mask = 0, df_live_local_mask = 0,
              df_register_values = replicate 64 9, df_local_values = replicate 64 9,
              df_register_kinds = [], df_local_kinds = []\<rparr>
   in TurboJS_IRResumeAfterBailout example_env empty_heap (Some f) (Some fr) 5 (Some 0) =
        bindc (execute_from example_env empty_heap f
            ((initial_state 0)\<lparr>ex_registers := (replicate 64 0)[0 := 5], ex_pc := 1\<rparr>)) (\<lambda>(st, r). Inr (st, Some r))"
proof -
  let ?f = "return_argument\<lparr>irf_instructions := Some
         [null_instruction\<lparr>ins_opcode := TURBOJS_IR_ADD_I32_CHECKED\<rparr>, null_instruction\<lparr>ins_opcode := TURBOJS_IR_RETURN_I64\<rparr>]\<rparr>"
  let ?fr = "\<lparr>df_bailout = \<lparr>bi_reason = TURBOJS_BAILOUT_INTEGER_OVERFLOW, bi_instruction_index = 0, bi_bytecode_offset = 0\<rparr>,
              df_register_count = 1, df_local_count = 0, df_stack_count = 0, df_materialized_register_mask = 0,
              df_materialized_local_mask = 0, df_live_register_mask = 0, df_live_local_mask = 0,
              df_register_values = replicate 64 9, df_local_values = replicate 64 9,
              df_register_kinds = [], df_local_kinds = []\<rparr>"
  have ok: "exec_ok empty_heap ?f"
    by (simp add: exec_ok_def storage_inv_def null_function_def sites_resolve_def site_resolves_def return_argument_def
        irf_code_def null_instruction_def enum_sets wf_function_def wf_instruction_def empty_heap_def)
  have cap: "frame_captures ?f ?fr (initial_state 0)"
    by (simp add: frame_captures_def initial_state_def masked_values_def return_argument_def null_function_def
        map_replicate_const)
  show ?thesis
    using resume_continues_execution [OF ok cap, of 0 example_env 5]
    by (simp add: initial_state_def irf_code_def return_argument_def resumable_ops_def null_instruction_def)
qed

text \<open>
  C19. The verifier leaves a hole: it bounds the number of registers but not the number of locals,
  while the interpreter's array of locals has 64 elements. The function that declares 65 locals
  and stores into the last one is accepted, and executing it writes past the array.
\<close>

definition store_local_64 :: TurboJSIRFunction where
  "store_local_64 = null_function\<lparr>irf_instructions := Some
     [null_instruction\<lparr>ins_opcode := TURBOJS_IR_CONSTANT_I64\<rparr>,
      null_instruction\<lparr>ins_opcode := TURBOJS_IR_LOCAL_SET, ins_immediate := 64\<rparr>,
      null_instruction\<lparr>ins_opcode := TURBOJS_IR_RETURN_I64\<rparr>],
     irf_instruction_count := 3, irf_instruction_capacity := 16, irf_register_count := 1, irf_local_count := 65\<rparr>"

theorem verified_function_overruns_locals:
  "TurboJS_IRVerify empty_heap (Some store_local_64) None = Inr (TURBOJS_IR_OK, None) \<and>
   TurboJS_IRExecute E empty_heap (Some store_local_64) None 0 (Some cell) = Inl Fault_bounds"
proof -
  have s: "storage_inv store_local_64" and r: "sites_resolve empty_heap store_local_64"
    by (simp_all add: store_local_64_def storage_inv_def null_function_def sites_resolve_def site_resolves_def
        irf_code_def null_instruction_def enum_sets)
  have w: "\<forall>ins\<in>set (irf_code store_local_64). site_resolves empty_heap ins \<and> wf_instruction empty_heap store_local_64 ins"
    "\<exists>ins\<in>set (irf_code store_local_64). ins_opcode ins \<in> return_ops"
    by (simp_all add: site_resolves_def wf_instruction_def store_local_64_def irf_code_def null_instruction_def enum_sets)
  have v: "TurboJS_IRVerify empty_heap (Some store_local_64) d = Inr (fail d TURBOJS_IR_OK 0 ''ok'')" for d
    using verify_loop_wf [of "irf_code store_local_64" 0 "irf_instruction_count store_local_64" empty_heap store_local_64 False]
      w length_irf_code [OF s] by (simp add: verify_eq [OF s])
  have code: "irf_code store_local_64 =
     [null_instruction\<lparr>ins_opcode := TURBOJS_IR_CONSTANT_I64\<rparr>,
      null_instruction\<lparr>ins_opcode := TURBOJS_IR_LOCAL_SET, ins_immediate := 64\<rparr>,
      null_instruction\<lparr>ins_opcode := TURBOJS_IR_RETURN_I64\<rparr>]"
    and n: "irf_instruction_count store_local_64 = 3"
    by (simp_all add: store_local_64_def irf_code_def)
  have "execute_prefix (irf_instruction_count store_local_64) E empty_heap store_local_64 [] (initial_state cell) = Inl Fault_bounds"
    by (subst execute_prefix_first)
       (simp_all add: n code null_instruction_def execute_from_def step_limit_def limited_loop_numeral in_code_def
          exec_body_def exec_step_def set_register_def get_register_def rd_def wr_def initial_state_def)
  then show ?thesis
    by (simp add: v fail_def TurboJS_IRExecute_def) (simp add: store_local_64_def null_function_def)
qed

end
