(* ===== verification/Codec.thy ===== *)
theory Codec
  imports Prelude
begin

text \<open>
  Little-endian integers in byte arrays, as the AOT image writers and readers use them
  (\<^verbatim>\<open>put16\<close>, \<^verbatim>\<open>put32\<close>, \<^verbatim>\<open>put64\<close>, \<^verbatim>\<open>get16\<close>, \<^verbatim>\<open>get32\<close>,
  \<^verbatim>\<open>get64\<close> of \<^verbatim>\<open>src/jit/aot/portable_ir.c\<close> and their copies \<^verbatim>\<open>p16\<close> to
  \<^verbatim>\<open>g64\<close> in \<^verbatim>\<open>module.c\<close>), the FNV-1a checksum, and the contract of a
  fixed-width record codec with its table lemmas.
\<close>

unbundle bit_operations_syntax

section \<open>Reading and writing integers\<close>

text \<open>
  The byte loops: the first argument is the number of bytes left, the second the position.
  Writing stores the low byte and goes on with the value shifted right by 8.
\<close>

fun put_bytes :: "nat \<Rightarrow> nat \<Rightarrow> u64 \<Rightarrow> u8 list \<Rightarrow> u8 list c" where
  "put_bytes 0 off v p = Inr p"
| "put_bytes (Suc n) off v p = bindc (wr p off (ucast v)) (put_bytes n (off + 1) (drop_bit 8 v))"

fun get_bytes :: "nat \<Rightarrow> nat \<Rightarrow> u8 list \<Rightarrow> u64 c" where
  "get_bytes 0 off p = Inr 0"
| "get_bytes (Suc n) off p =
     bindc (rd p off) (\<lambda>b. bindc (get_bytes n (off + 1) p) (\<lambda>v. Inr (ucast b OR push_bit 8 v)))"

definition put16 :: "nat \<Rightarrow> u16 \<Rightarrow> u8 list \<Rightarrow> u8 list c" where
  "put16 off v p = put_bytes 2 off (ucast v) p"

definition put32 :: "nat \<Rightarrow> u32 \<Rightarrow> u8 list \<Rightarrow> u8 list c" where
  "put32 off v p = put_bytes 4 off (ucast v) p"

definition put64 :: "nat \<Rightarrow> u64 \<Rightarrow> u8 list \<Rightarrow> u8 list c" where
  "put64 off v p = put_bytes 8 off v p"

definition get16 :: "nat \<Rightarrow> u8 list \<Rightarrow> u16 c" where
  "get16 off p = bindc (get_bytes 2 off p) (\<lambda>v. Inr (ucast v))"

definition get32 :: "nat \<Rightarrow> u8 list \<Rightarrow> u32 c" where
  "get32 off p = bindc (get_bytes 4 off p) (\<lambda>v. Inr (ucast v))"

definition get64 :: "nat \<Rightarrow> u8 list \<Rightarrow> u64 c" where
  "get64 off p = get_bytes 8 off p"

definition checksum :: "u8 list \<Rightarrow> u32" where
  "checksum bs = fold (\<lambda>b h. (h XOR ucast b) * 16777619) bs 2166136261"

text \<open>\<^verbatim>\<open>memcpy\<close> into an array.\<close>

definition copy_into :: "nat \<Rightarrow> u8 list \<Rightarrow> u8 list \<Rightarrow> u8 list c" where
  "copy_into off bs p =
     (if off + length bs \<le> length p then Inr (take off p @ bs @ drop (off + length bs) p) else Inl Fault_bounds)"

section \<open>Specification\<close>

fun le_bytes :: "nat \<Rightarrow> u64 \<Rightarrow> u8 list" where
  "le_bytes 0 v = []"
| "le_bytes (Suc n) v = ucast v # le_bytes n (drop_bit 8 v)"

fun le_word :: "u8 list \<Rightarrow> u64" where
  "le_word [] = 0"
| "le_word (b # bs) = ucast b OR push_bit 8 (le_word bs)"

definition overlay :: "nat \<Rightarrow> 'a list \<Rightarrow> 'a list \<Rightarrow> 'a list" where
  "overlay off bs p = take off p @ bs @ drop (off + length bs) p"

definition window :: "nat \<Rightarrow> nat \<Rightarrow> 'a list \<Rightarrow> 'a list" where
  "window off n p = take n (drop off p)"

abbreviation le16 :: "u16 \<Rightarrow> u8 list" where
  "le16 v \<equiv> le_bytes 2 (ucast v)"

abbreviation le32 :: "u32 \<Rightarrow> u8 list" where
  "le32 v \<equiv> le_bytes 4 (ucast v)"

abbreviation le64 :: "u64 \<Rightarrow> u8 list" where
  "le64 v \<equiv> le_bytes 8 v"

lemma length_le_bytes [simp]: "length (le_bytes n v) = n"
  by (induction n arbitrary: v) simp_all

lemma length_overlay [simp]: "off + length bs \<le> length p \<Longrightarrow> length (overlay off bs p) = length p"
  by (simp add: overlay_def)

lemma le_word_le_bytes: "le_word (le_bytes n v) = take_bit (8 * n) v"
proof (induction n arbitrary: v)
  case 0
  then show ?case by simp
next
  case (Suc n)
  have "ucast (ucast v :: u8) OR push_bit 8 (take_bit (8 * n) (drop_bit 8 v)) = take_bit (8 + 8 * n) v"
    by (rule bit_eqI) (auto simp: bit_simps)
  with Suc show ?case by simp
qed

lemma le_word_16: "ucast (le_word (le16 v)) = v"
  by (rule bit_word_eqI) (simp add: le_word_le_bytes bit_simps)

lemma le_word_32: "ucast (le_word (le32 v)) = v"
  by (rule bit_word_eqI) (simp add: le_word_le_bytes bit_simps)

lemma le_word_64: "le_word (le64 v) = v"
  by (rule bit_word_eqI) (simp add: le_word_le_bytes bit_simps)

lemma overlay_append:
  assumes "off + length a + length b \<le> length p"
  shows "overlay (off + length a) b (overlay off a p) = overlay off (a @ b) p"
  using assms by (auto simp: overlay_def ac_simps min_def)

lemma put_bytes_overlay:
  "off + n \<le> length p \<Longrightarrow> put_bytes n off v p = Inr (overlay off (le_bytes n v) p)"
proof (induction n arbitrary: off v p)
  case 0
  then show ?case by (simp add: overlay_def)
next
  case (Suc n)
  have "p[off := ucast v] = overlay off [ucast v] p"
    using Suc.prems by (simp add: overlay_def upd_conv_take_nth_drop)
  then show ?case
    using Suc overlay_append [of off "[ucast v]" "le_bytes n (drop_bit 8 v)" p] by (simp add: wr_def)
qed

lemma get_bytes_window: "off + n \<le> length p \<Longrightarrow> get_bytes n off p = Inr (le_word (window off n p))"
proof (induction n arbitrary: off)
  case 0
  then show ?case by (simp add: window_def)
next
  case (Suc n)
  then show ?case by (simp add: rd_def window_def flip: Cons_nth_drop_Suc)
qed

lemma put16_ok: "off + 2 \<le> length p \<Longrightarrow> put16 off v p = Inr (overlay off (le16 v) p)"
  by (simp add: put16_def put_bytes_overlay)

lemma put32_ok: "off + 4 \<le> length p \<Longrightarrow> put32 off v p = Inr (overlay off (le32 v) p)"
  by (simp add: put32_def put_bytes_overlay)

lemma put64_ok: "off + 8 \<le> length p \<Longrightarrow> put64 off v p = Inr (overlay off (le64 v) p)"
  by (simp add: put64_def put_bytes_overlay)

lemma get16_ok: "off + 2 \<le> length p \<Longrightarrow> get16 off p = Inr (ucast (le_word (window off 2 p)))"
  by (simp add: get16_def get_bytes_window)

lemma get32_ok: "off + 4 \<le> length p \<Longrightarrow> get32 off p = Inr (ucast (le_word (window off 4 p)))"
  by (simp add: get32_def get_bytes_window)

lemma get64_ok: "off + 8 \<le> length p \<Longrightarrow> get64 off p = Inr (le_word (window off 8 p))"
  by (simp add: get64_def get_bytes_window)

lemma copy_into_ok: "off + length bs \<le> length p \<Longrightarrow> copy_into off bs p = Inr (overlay off bs p)"
  by (simp add: copy_into_def overlay_def)

lemma window_append_left: "off + n \<le> length a \<Longrightarrow> window off n (a @ b) = window off n a"
  by (simp add: window_def)

lemma window_append_right: "length a \<le> off \<Longrightarrow> window off n (a @ b) = window (off - length a) n b"
  by (simp add: window_def)

lemma window_window: "i + k \<le> n \<Longrightarrow> window i k (window off n p) = window (off + i) k p"
  by (simp add: window_def drop_take min_def add.commute)

lemma length_window: "off + n \<le> length p \<Longrightarrow> length (window off n p) = n"
  by (simp add: window_def)

lemma overlay_middle: "overlay (length a) b (a @ c @ d) = a @ b @ d" if "length c = length b"
  using that by (simp add: overlay_def)

section \<open>Fixed-width records\<close>

text \<open>
  The contract of a record codec: every encoding has the same width and decoding inverts it on
  the values in its domain. A table of records then reads back entry by entry.
\<close>

locale record_codec =
  fixes width :: nat
    and enc :: "'a \<Rightarrow> u8 list"
    and dec :: "u8 list \<Rightarrow> 'a"
    and dom :: "'a \<Rightarrow> bool"
  assumes length_enc [simp]: "length (enc x) = width"
    and dec_enc: "dom x \<Longrightarrow> dec (enc x) = x"
begin

lemma length_table [simp]: "length (concat (map enc xs)) = length xs * width"
  by (induction xs) simp_all

lemma window_table: "i < length xs \<Longrightarrow> window (i * width) width (concat (map enc xs)) = enc (xs ! i)"
proof (induction xs arbitrary: i)
  case Nil
  then show ?case by simp
next
  case (Cons x xs)
  then show ?case
    by (cases i) (simp_all add: window_append_left window_append_right, simp add: window_def)
qed

lemma decode_table:
  assumes "\<forall>x\<in>set xs. dom x" "i < length xs" "length pre = off"
  shows "dec (window (off + i * width) width (pre @ concat (map enc xs) @ post)) = xs ! i"
proof -
  have "i * width + width \<le> length xs * width"
    using assms(2) by (metis Suc_leI add.commute mult_Suc mult_le_mono1)
  then have "window (off + i * width) width (pre @ concat (map enc xs) @ post) = enc (xs ! i)"
    using assms(2,3) by (simp add: window_append_right window_append_left window_table)
  with assms(1,2) show ?thesis by (simp add: dec_enc)
qed

end

interpretation codec16: record_codec 2 le16 "\<lambda>b. ucast (le_word b)" "\<lambda>_. True"
  by unfold_locales (simp_all add: le_word_16)

interpretation codec32: record_codec 4 le32 "\<lambda>b. ucast (le_word b)" "\<lambda>_. True"
  by unfold_locales (simp_all add: le_word_32)

interpretation codec64: record_codec 8 le64 le_word "\<lambda>_. True"
  by unfold_locales (simp_all add: le_word_64)

end
