(* ===== verification/AOT.thy ===== *)
theory AOT
  imports IR_Interp Codec
begin

text \<open>
  Portable IR images, \<^verbatim>\<open>src/jit/aot/portable_ir.c\<close>: a function is written as a 32-byte
  header (magic, version, sizes, counts, checksum, total size) followed by 32-byte instruction
  records, and read back through a chain of checks, the emission of every instruction, and the
  IR verifier. The success of \<^verbatim>\<open>calloc\<close> is a Boolean argument, the success of the
  \<^verbatim>\<open>realloc\<close> of the i-th emission the value of a function at i.
\<close>

section \<open>Opcode numbers\<close>

definition opcode_table :: "TurboJSIROpcode list" where
  "opcode_table = [TURBOJS_IR_NOP, TURBOJS_IR_ARGUMENT, TURBOJS_IR_CONSTANT_I64, TURBOJS_IR_CONSTANT_F64,
     TURBOJS_IR_ADD_I64, TURBOJS_IR_SUB_I64, TURBOJS_IR_MUL_I64, TURBOJS_IR_ADD_F64, TURBOJS_IR_SUB_F64,
     TURBOJS_IR_MUL_F64, TURBOJS_IR_DIV_F64, TURBOJS_IR_LESS_THAN_F64, TURBOJS_IR_LESS_EQUAL_F64,
     TURBOJS_IR_EQUAL_F64, TURBOJS_IR_I64_TO_F64, TURBOJS_IR_F64_TO_I64_TRUNC, TURBOJS_IR_ADD_I32_CHECKED,
     TURBOJS_IR_SUB_I32_CHECKED, TURBOJS_IR_MUL_I32_CHECKED, TURBOJS_IR_DIV_I32_CHECKED,
     TURBOJS_IR_REM_I32_CHECKED, TURBOJS_IR_RUNTIME_HELPER, TURBOJS_IR_VALUE_ARGUMENT,
     TURBOJS_IR_VALUE_UNDEFINED, TURBOJS_IR_VALUE_CONSTANT_I32, TURBOJS_IR_VALUE_MOVE,
     TURBOJS_IR_VALUE_LOCAL_GET, TURBOJS_IR_VALUE_LOCAL_SET, TURBOJS_IR_VALUE_TO_BOOLEAN,
     TURBOJS_IR_VALUE_CALLABLE_CONSTANT, TURBOJS_IR_VALUE_CALL_I64, TURBOJS_IR_VALUE_CALL_F64,
     TURBOJS_IR_VALUE_RETURN, TURBOJS_IR_LESS_THAN_I64, TURBOJS_IR_LOCAL_GET, TURBOJS_IR_LOCAL_SET,
     TURBOJS_IR_JUMP, TURBOJS_IR_BRANCH_TRUE, TURBOJS_IR_BRANCH_FALSE, TURBOJS_IR_CALL_NATIVE_I64,
     TURBOJS_IR_CALL_NATIVE_F64, TURBOJS_IR_RETURN_I64, TURBOJS_IR_RETURN_F64]"

fun index_of :: "'a \<Rightarrow> 'a list \<Rightarrow> nat" where
  "index_of x [] = 0"
| "index_of x (y # ys) = (if x = y then 0 else Suc (index_of x ys))"

text \<open>The enumerator's value cut down to 16 bits, and the conversion back.\<close>

definition opcode_number :: "TurboJSIROpcode \<Rightarrow> u16" where
  "opcode_number op =
     (case op of TURBOJS_IR_OPCODE_OTHER n \<Rightarrow> word_of_nat n | _ \<Rightarrow> word_of_nat (index_of op opcode_table))"

definition number_opcode :: "u16 \<Rightarrow> TurboJSIROpcode" where
  "number_opcode w =
     (if unat w < length opcode_table then opcode_table ! unat w else TURBOJS_IR_OPCODE_OTHER (unat w))"

section \<open>Writing\<close>

record TurboJSAOTBuffer =
  buf_data :: "u8 list ptr"
  buf_size :: nat

definition TurboJS_AOTBufferDestroy :: "TurboJSAOTBuffer ptr \<Rightarrow> TurboJSAOTBuffer ptr" where
  "TurboJS_AOTBufferDestroy b = map_option (\<lambda>x. x\<lparr>buf_data := None, buf_size := 0\<rparr>) b"

abbreviation HEADER_SIZE :: nat where
  "HEADER_SIZE \<equiv> 32"

abbreviation INSTRUCTION_SIZE :: nat where
  "INSTRUCTION_SIZE \<equiv> 32"

abbreviation TURBOJS_AOT_FORMAT_VERSION :: u16 where
  "TURBOJS_AOT_FORMAT_VERSION \<equiv> 2"

definition tjir_magic :: "u8 list" where
  "tjir_magic = [84, 74, 73, 82]"

definition put_instruction :: "nat \<Rightarrow> TurboJSIRInstruction \<Rightarrow> u8 list \<Rightarrow> u8 list c" where
  "put_instruction q ins p =
     bindc (put16 q (opcode_number (ins_opcode ins)) p) (\<lambda>p.
     bindc (put16 (q + 2) (ins_destination ins) p) (\<lambda>p.
     bindc (put16 (q + 4) (ins_left ins) p) (\<lambda>p.
     bindc (put16 (q + 6) (ins_right ins) p) (\<lambda>p.
     bindc (put64 (q + 8) (ins_immediate ins) p) (\<lambda>p.
     bindc (put32 (q + 16) (ins_target ins) p) (\<lambda>p.
     put32 (q + 20) (ins_bytecode_offset ins) p))))))"

fun put_instructions :: "nat \<Rightarrow> TurboJSIRInstruction list \<Rightarrow> u8 list \<Rightarrow> u8 list c" where
  "put_instructions i [] p = Inr p"
| "put_instructions i (ins # code) p =
     bindc (put_instruction (HEADER_SIZE + i * INSTRUCTION_SIZE) ins p) (put_instructions (i + 1) code)"

definition TurboJS_AOTSerializeIR ::
  "bool \<Rightarrow> jit_heap \<Rightarrow> TurboJSIRFunction ptr \<Rightarrow> TurboJSAOTBuffer ptr \<Rightarrow> TurboJSIRDiagnostic ptr
     \<Rightarrow> (TurboJSIRStatus \<times> TurboJSAOTBuffer ptr \<times> TurboJSIRDiagnostic ptr) c" where
  "TurboJS_AOTSerializeIR calloc_ok H function out d =
     (case (function, out) of
        (Some f, Some _) \<Rightarrow>
          (let cleared = Some \<lparr>buf_data = None, buf_size = 0\<rparr>;
               failed = (\<lambda>st m. case fail d st 0 m of (st', d') \<Rightarrow> Inr (st', cleared, d'))
           in bindc (TurboJS_IRVerify H function d) (\<lambda>(st, d1).
             if st \<noteq> TURBOJS_IR_OK then Inr (st, cleared, d1)
             else if (SIZE_MAX - HEADER_SIZE) div INSTRUCTION_SIZE < irf_instruction_count f
             then failed TURBOJS_IR_OUT_OF_MEMORY ''AOT image too large''
             else
               (let total = HEADER_SIZE + irf_instruction_count f * INSTRUCTION_SIZE
                in if \<not> calloc_ok then failed TURBOJS_IR_OUT_OF_MEMORY ''AOT allocation failed''
                   else
                     bindc (copy_into 0 tjir_magic (replicate total 0)) (\<lambda>p.
                     bindc (put16 4 TURBOJS_AOT_FORMAT_VERSION p) (\<lambda>p.
                     bindc (put16 6 (word_of_nat HEADER_SIZE) p) (\<lambda>p.
                     bindc (put32 8 (word_of_nat (irf_instruction_count f)) p) (\<lambda>p.
                     bindc (put16 12 (irf_register_count f) p) (\<lambda>p.
                     bindc (put16 14 (irf_argument_count f) p) (\<lambda>p.
                     bindc (put16 16 (irf_local_count f) p) (\<lambda>p.
                     bindc (put16 18 (word_of_nat INSTRUCTION_SIZE) p) (\<lambda>p.
                     bindc (put_instructions 0 (irf_code f) p) (\<lambda>p.
                     bindc (put32 20 (checksum (drop HEADER_SIZE p)) p) (\<lambda>p.
                     bindc (put64 24 (word_of_nat total) p) (\<lambda>p.
                       case fail d TURBOJS_IR_OK 0 ''ok'' of
                         (st', d') \<Rightarrow> Inr (st', Some \<lparr>buf_data = Some p, buf_size = total\<rparr>, d')))))))))))))))
      | _ \<Rightarrow> (case fail d TURBOJS_IR_INVALID_ARGUMENT 0 ''invalid AOT serialization arguments'' of
                (st', d') \<Rightarrow> Inr (st', out, d')))"

section \<open>Reading\<close>

definition get_instruction :: "nat \<Rightarrow> u8 list \<Rightarrow> TurboJSIRInstruction c" where
  "get_instruction q data =
     bindc (get16 q data) (\<lambda>op.
     bindc (get16 (q + 2) data) (\<lambda>dst.
     bindc (get16 (q + 4) data) (\<lambda>l.
     bindc (get16 (q + 6) data) (\<lambda>r.
     bindc (get64 (q + 8) data) (\<lambda>imm.
     bindc (get32 (q + 16) data) (\<lambda>t.
     bindc (get32 (q + 20) data) (\<lambda>bo.
       Inr \<lparr>ins_opcode = number_opcode op, ins_destination = dst, ins_left = l, ins_right = r,
            ins_immediate = imm, ins_target = t, ins_bytecode_offset = bo\<rparr>)))))))"

text \<open>
  The emission loop; the first argument is the number of instructions left. \<open>Inl\<close> is the early
  return with the status of a failed emission and its index.
\<close>

fun load_instructions ::
  "nat \<Rightarrow> (nat \<Rightarrow> bool) \<Rightarrow> nat \<Rightarrow> u8 list \<Rightarrow> TurboJSIRFunction ptr \<Rightarrow> ((TurboJSIRStatus \<times> nat) + TurboJSIRFunction ptr) c" where
  "load_instructions 0 realloc_ok i data out = Inr (Inr out)"
| "load_instructions (Suc n) realloc_ok i data out =
     bindc (get_instruction (HEADER_SIZE + i * INSTRUCTION_SIZE) data) (\<lambda>ins.
       case TurboJS_IREmit (realloc_ok i) out ins of
         (st, out') \<Rightarrow>
           if st \<noteq> TURBOJS_IR_OK then Inr (Inl (st, i))
           else load_instructions n realloc_ok (i + 1) data out')"

text \<open>
  The reader. A failing exit after \<^verbatim>\<open>TurboJS_IRFunctionInit\<close> destroys the function, which
  owns nothing at that point and becomes the zeroed function. The counter of instance ids is
  passed through.
\<close>

definition TurboJS_AOTDeserializeIR ::
  "(nat \<Rightarrow> bool) \<Rightarrow> jit_heap \<Rightarrow> u64 \<Rightarrow> u8 list ptr \<Rightarrow> nat \<Rightarrow> TurboJSIRFunction ptr \<Rightarrow> TurboJSIRDiagnostic ptr
     \<Rightarrow> (TurboJSIRStatus \<times> TurboJSIRFunction ptr \<times> TurboJSIRDiagnostic ptr \<times> u64) c" where
  "TurboJS_AOTDeserializeIR realloc_ok H next_id data sz out d =
     (let stop = (\<lambda>st i m g nid. case fail d st i m of (st', d') \<Rightarrow> Inr (st', g, d', nid))
      in case (data, out) of
        (Some bytes, Some _) \<Rightarrow>
          if sz < HEADER_SIZE then stop TURBOJS_IR_INVALID_ARGUMENT 0 ''invalid AOT magic'' out next_id
          else bindc (mapc (rd bytes) [0..<4]) (\<lambda>magic.
          if magic \<noteq> tjir_magic then stop TURBOJS_IR_INVALID_ARGUMENT 0 ''invalid AOT magic'' out next_id
          else bindc (get16 4 bytes) (\<lambda>version.
          if version \<noteq> TURBOJS_AOT_FORMAT_VERSION
          then stop TURBOJS_IR_UNSUPPORTED 0 ''unsupported AOT version'' out next_id
          else bindc (get16 6 bytes) (\<lambda>hs. bindc (get32 8 bytes) (\<lambda>count.
               bindc (get16 18 bytes) (\<lambda>is. bindc (get64 24 bytes) (\<lambda>declared.
          if unat hs \<noteq> HEADER_SIZE \<or> unat is \<noteq> INSTRUCTION_SIZE \<or> unat declared \<noteq> sz
          then stop TURBOJS_IR_INVALID_ARGUMENT 0 ''invalid AOT layout'' out next_id
          else if HEADER_SIZE + unat count * INSTRUCTION_SIZE \<noteq> sz
          then stop TURBOJS_IR_INVALID_ARGUMENT 0 ''truncated AOT image'' out next_id
          else bindc (get32 20 bytes) (\<lambda>stored.
               bindc (mapc (rd bytes) [HEADER_SIZE..<sz]) (\<lambda>body.
          if stored \<noteq> checksum body
          then stop TURBOJS_IR_INVALID_ARGUMENT 0 ''AOT checksum mismatch'' out next_id
          else bindc (get16 14 bytes) (\<lambda>args. bindc (get16 12 bytes) (\<lambda>regs. bindc (get16 16 bytes) (\<lambda>locals.
               case TurboJS_IRFunctionInit next_id out args of (g0, nid) \<Rightarrow>
               (let g = map_option (\<lambda>f. f\<lparr>irf_register_count := regs, irf_local_count := locals\<rparr>) g0
                in if TURBOJS_IR_MAX_REGISTERS < unat regs \<or> TURBOJS_IR_MAX_REGISTERS < unat locals
                   then stop TURBOJS_IR_INVALID_REGISTER 0 ''AOT register/local limit exceeded''
                          (Some null_function) nid
                   else bindc (load_instructions (unat count) realloc_ok 0 bytes g) (\<lambda>r.
                     case r of
                       Inl (st, i) \<Rightarrow> stop st i ''AOT instruction allocation failed''
                                  (Some null_function) nid
                     | Inr h \<Rightarrow>
                         bindc (TurboJS_IRVerify H h d) (\<lambda>(st, d').
                           Inr (st, if st \<noteq> TURBOJS_IR_OK then Some null_function else h, d', nid)))))))))))))))
      | _ \<Rightarrow> stop TURBOJS_IR_INVALID_ARGUMENT 0 ''invalid AOT deserialization arguments'' out next_id)"

section \<open>Image format\<close>

definition enc_instruction :: "TurboJSIRInstruction \<Rightarrow> u8 list" where
  "enc_instruction ins =
     le16 (opcode_number (ins_opcode ins)) @ le16 (ins_destination ins) @ le16 (ins_left ins) @
     le16 (ins_right ins) @ le64 (ins_immediate ins) @ le32 (ins_target ins) @ le32 (ins_bytecode_offset ins) @
     replicate 8 0"

definition dec_instruction :: "u8 list \<Rightarrow> TurboJSIRInstruction" where
  "dec_instruction b =
     \<lparr>ins_opcode = number_opcode (ucast (le_word (window 0 2 b))), ins_destination = ucast (le_word (window 2 2 b)),
      ins_left = ucast (le_word (window 4 2 b)), ins_right = ucast (le_word (window 6 2 b)),
      ins_immediate = le_word (window 8 8 b), ins_target = ucast (le_word (window 16 4 b)),
      ins_bytecode_offset = ucast (le_word (window 20 4 b))\<rparr>"

definition image_body :: "TurboJSIRFunction \<Rightarrow> u8 list" where
  "image_body f = concat (map enc_instruction (irf_code f))"

definition image_start :: "TurboJSIRFunction \<Rightarrow> u8 list" where
  "image_start f = tjir_magic @ le16 TURBOJS_AOT_FORMAT_VERSION @ le16 32 @
     le32 (word_of_nat (irf_instruction_count f)) @ le16 (irf_register_count f) @ le16 (irf_argument_count f) @
     le16 (irf_local_count f) @ le16 32"

definition aot_image :: "TurboJSIRFunction \<Rightarrow> u8 list" where
  "aot_image f = image_start f @ le32 (checksum (image_body f)) @
     le64 (word_of_nat (HEADER_SIZE + irf_instruction_count f * INSTRUCTION_SIZE)) @ image_body f"

definition image_code :: "u8 list \<Rightarrow> nat \<Rightarrow> TurboJSIRInstruction list" where
  "image_code data n = map (\<lambda>i. dec_instruction (window (HEADER_SIZE + i * INSTRUCTION_SIZE) INSTRUCTION_SIZE data)) [0..<n]"

lemma number_opcode_number: "op \<in> known_ops \<Longrightarrow> number_opcode (opcode_number op) = op"
  by (cases op) (simp_all add: opcode_number_def number_opcode_def opcode_table_def known_ops_def)

lemma window_whole: "n = length a \<Longrightarrow> window 0 n a = a"
  by (simp add: window_def)

lemma window_prefix: "n = length a \<Longrightarrow> window 0 n (a @ b) = a"
  by (simp add: window_def)

lemmas window_eval = window_append_right window_prefix window_whole

interpretation instruction_codec: record_codec 32 enc_instruction dec_instruction
    "\<lambda>ins. ins_opcode ins \<in> known_ops"
  by unfold_locales
     (simp_all add: enc_instruction_def dec_instruction_def window_eval le_word_16 le_word_32 le_word_64 number_opcode_number)

lemma get_instruction_ok:
  "q + 32 \<le> length data \<Longrightarrow> get_instruction q data = Inr (dec_instruction (window q 32 data))"
  by (simp add: get_instruction_def dec_instruction_def get16_ok get32_ok get64_ok window_window)

lemma overlay_append_at:
  "off' = off + length a \<Longrightarrow> off' + length b \<le> length p \<Longrightarrow> overlay off' b (overlay off a p) = overlay off (a @ b) p"
  using overlay_append [of off a b p] by simp

lemma put_instruction_ok:
  "q + 24 \<le> length p \<Longrightarrow> put_instruction q ins p = Inr (overlay q (take 24 (enc_instruction ins)) p)"
  by (simp add: put_instruction_def enc_instruction_def put16_ok put32_ok put64_ok overlay_append_at)

lemma put_instructions_ok:
  "length pre = 32 + i * 32 \<Longrightarrow>
   put_instructions i code (pre @ replicate (length code * 32) 0) = Inr (pre @ concat (map enc_instruction code))"
proof (induction code arbitrary: i pre)
  case Nil
  then show ?case by simp
next
  case (Cons ins code)
  have z: "replicate (length (ins # code) * 32) (0 :: u8) = replicate 24 0 @ replicate 8 0 @ replicate (length code * 32) 0"
    by (simp flip: replicate_add)
  have e: "take 24 (enc_instruction ins) @ replicate 8 0 = enc_instruction ins"
    by (simp add: enc_instruction_def)
  have "overlay (32 + i * 32) (take 24 (enc_instruction ins)) (pre @ replicate (length (ins # code) * 32) 0) =
        (pre @ enc_instruction ins) @ replicate (length code * 32) 0"
    unfolding z using Cons.prems e overlay_middle [of "replicate 24 0" "take 24 (enc_instruction ins)" pre]
    by simp
  then show ?case
    using Cons.prems Cons.IH [of "pre @ enc_instruction ins" "Suc i"] by (simp add: put_instruction_ok)
qed

lemma length_image_body: "length (image_body f) = length (irf_code f) * 32"
  by (simp add: image_body_def)

lemma length_image_start [simp]: "length (image_start f) = 20"
  by (simp add: image_start_def tjir_magic_def)

lemma length_aot_image: "storage_inv f \<Longrightarrow> length (aot_image f) = 32 + irf_instruction_count f * 32"
  by (simp add: aot_image_def length_image_body length_irf_code)

lemma serialize_ok:
  assumes ok: "storage_inv f" "sites_resolve H f" "wf_function H f"
    and small: "irf_instruction_count f \<le> (SIZE_MAX - HEADER_SIZE) div INSTRUCTION_SIZE"
  shows "TurboJS_AOTSerializeIR True H (Some f) (Some out) d =
    Inr (TURBOJS_IR_OK, Some \<lparr>buf_data = Some (aot_image f), buf_size = length (aot_image f)\<rparr>,
         snd (fail d TURBOJS_IR_OK 0 ''ok''))"
proof -
  let ?n = "irf_instruction_count f"
  have len: "length (irf_code f) = ?n" using ok(1) by (rule length_irf_code)
  have loop: "verify_loop ?n H f (irf_code f) 0 False = Inr (Inr True)"
    using verify_loop_wf [of "irf_code f" 0 ?n H f False] ok(2,3) len
    by (simp add: sites_resolve_def wf_function_def)
  have "replicate (32 + ?n * 32) (0 :: u8) = replicate 20 0 @ replicate 12 0 @ replicate (?n * 32) 0"
    by (simp flip: replicate_add)
  then have start: "overlay 0 (image_start f) (replicate (32 + ?n * 32) 0) =
      (image_start f @ replicate 12 0) @ replicate (length (irf_code f) * 32) 0"
    using overlay_middle [of "replicate 20 0" "image_start f" "[]"] len by simp
  have body: "put_instructions 0 (irf_code f) (overlay 0 (image_start f) (replicate (32 + ?n * 32) 0)) =
      Inr ((image_start f @ replicate 12 0) @ image_body f)"
    unfolding start image_body_def by (rule put_instructions_ok) simp
  have fin: "overlay 20 (le32 c @ le64 t) (image_start f @ replicate 12 0 @ image_body f) =
      image_start f @ le32 c @ le64 t @ image_body f" for c t
    using overlay_middle [of "replicate 12 0" "le32 c @ le64 t" "image_start f" "image_body f"] by simp
  have hdr: "tjir_magic @ le16 2 @ le16 32 @ le32 (word_of_nat ?n) @ le16 (irf_register_count f) @
      le16 (irf_argument_count f) @ le16 (irf_local_count f) @ le16 32 = image_start f"
    by (simp add: image_start_def)
  show ?thesis
    using small body
    by (simp add: TurboJS_AOTSerializeIR_def verify_eq [OF ok(1)] loop fail_def copy_into_ok put16_ok put32_ok put64_ok
        overlay_append_at tjir_magic_def hdr [unfolded tjir_magic_def, simplified] length_image_body len fin
        length_aot_image [OF ok(1)] aot_image_def)
qed

section \<open>The reader\<close>

definition same_counts :: "TurboJSIRFunction \<Rightarrow> TurboJSIRFunction \<Rightarrow> bool" where
  "same_counts f g \<longleftrightarrow> irf_register_count g = irf_register_count f \<and> irf_argument_count g = irf_argument_count f \<and>
     irf_local_count g = irf_local_count f"

lemma emit_cases:
  assumes "storage_inv f"
  shows "TurboJS_IREmit ok (Some f) ins = (TURBOJS_IR_OUT_OF_MEMORY, Some f) \<and> \<not> ok \<or>
    (\<exists>f'. TurboJS_IREmit ok (Some f) ins = (TURBOJS_IR_OK, Some f') \<and> storage_inv f' \<and>
       irf_code f' = irf_code f @ [ins] \<and> same_counts f f' \<and>
       irf_owned_clutch_sites f' = irf_owned_clutch_sites f \<and>
       irf_owned_callable_references f' = irf_owned_callable_references f)"
proof -
  have "\<exists>st f'. TurboJS_IREmit ok (Some f) ins = (st, Some f')"
    by (auto simp: TurboJS_IREmit_def Let_def)
  then obtain st f' where e: "TurboJS_IREmit ok (Some f) ins = (st, Some f')" by blast
  show ?thesis
    using emit_storage [OF assms e] emit_code [OF assms e] emit_frame [OF e] emit_status [of ok f ins] e
    by (auto simp: same_counts_def TurboJS_IREmit_def Let_def touch_def split: if_splits)
qed

lemma load_instructions_ok:
  assumes "storage_inv f" "32 + (i + n) * 32 \<le> length data" "irf_owned_clutch_sites f = []"
    "irf_owned_callable_references f = []"
  shows "(\<exists>j. load_instructions n ok i data (Some f) = Inr (Inl (TURBOJS_IR_OUT_OF_MEMORY, j)) \<and> i \<le> j \<and> j < i + n \<and> \<not> ok j) \<or>
    (\<exists>g. load_instructions n ok i data (Some f) = Inr (Inr (Some g)) \<and> storage_inv g \<and>
       irf_code g = irf_code f @ map (\<lambda>j. dec_instruction (window (32 + j * 32) 32 data)) [i..<i + n] \<and>
       same_counts f g \<and> irf_owned_clutch_sites g = [] \<and> irf_owned_callable_references g = [])"
  using assms
proof (induction n arbitrary: i f)
  case 0
  then show ?case by (simp add: same_counts_def)
next
  case (Suc n)
  let ?ins = "dec_instruction (window (32 + i * 32) 32 data)"
  have get: "get_instruction (32 + i * 32) data = Inr ?ins"
    using Suc.prems(2) by (intro get_instruction_ok) simp
  from emit_cases [OF Suc.prems(1), of "ok i" ?ins]
  show ?case
  proof (elim disjE exE conjE)
    assume "TurboJS_IREmit (ok i) (Some f) ?ins = (TURBOJS_IR_OUT_OF_MEMORY, Some f)" "\<not> ok i"
    then show ?thesis using get by simp
  next
    fix f'
    assume f': "TurboJS_IREmit (ok i) (Some f) ?ins = (TURBOJS_IR_OK, Some f')" "storage_inv f'"
      "irf_code f' = irf_code f @ [?ins]" "same_counts f f'"
      "irf_owned_clutch_sites f' = irf_owned_clutch_sites f"
      "irf_owned_callable_references f' = irf_owned_callable_references f"
    have u: "[i..<i + Suc n] = i # [Suc i..<Suc i + n]" by (simp add: upt_rec)
    have l: "load_instructions (Suc n) ok i data (Some f) = load_instructions n ok (Suc i) data (Some f')"
      using get f'(1) by simp
    have pre: "32 + (Suc i + n) * 32 \<le> length data" using Suc.prems(2) by simp
    show ?thesis
      using Suc.IH [OF f'(2) pre] f' Suc.prems(3,4) unfolding l u by (auto simp: same_counts_def)
  qed
qed

lemma mapc_rd_tail: "n \<le> length xs \<Longrightarrow> mapc (rd xs) [n..<length xs] = Inr (drop n xs)"
  using mapc_rd_ok [of "[n..<length xs]" "\<lambda>i. i" xs] by (simp add: list_eq_iff_nth_eq)

text \<open>The function the header of an image describes, before any instruction is emitted.\<close>

definition image_function :: "u64 \<Rightarrow> u8 list \<Rightarrow> TurboJSIRFunction" where
  "image_function next_id data =
     null_function\<lparr>irf_argument_count := ucast (le_word (window 14 2 data)), irf_instance_id := next_id,
       irf_revision := 1, irf_register_count := ucast (le_word (window 12 2 data)),
       irf_local_count := ucast (le_word (window 16 2 data))\<rparr>"

definition image_count :: "u8 list \<Rightarrow> nat" where
  "image_count data = unat (ucast (le_word (window 8 4 data)) :: u32)"

definition image_header_ok :: "u8 list \<Rightarrow> bool" where
  "image_header_ok data \<longleftrightarrow> 32 \<le> length data \<and> take 4 data = tjir_magic \<and>
     (ucast (le_word (window 4 2 data)) :: u16) = TURBOJS_AOT_FORMAT_VERSION \<and>
     unat (ucast (le_word (window 6 2 data)) :: u16) = 32 \<and> unat (ucast (le_word (window 18 2 data)) :: u16) = 32 \<and>
     unat (le_word (window 24 8 data)) = length data \<and> 32 + image_count data * 32 = length data \<and>
     (ucast (le_word (window 20 4 data)) :: u32) = checksum (drop 32 data)"

definition image_limits_ok :: "u8 list \<Rightarrow> bool" where
  "image_limits_ok data \<longleftrightarrow> unat (irf_register_count (image_function 0 data)) \<le> 64 \<and>
     unat (irf_local_count (image_function 0 data)) \<le> 64"

lemma deserialize_bad_header:
  assumes "\<not> image_header_ok data"
  shows "\<exists>st d'. TurboJS_AOTDeserializeIR ok H nid (Some data) (length data) (Some g) d = Inr (st, Some g, d', nid) \<and>
    st \<noteq> TURBOJS_IR_OK"
proof (cases "32 \<le> length data")
  case False
  then show ?thesis by (simp add: TurboJS_AOTDeserializeIR_def fail_def)
next
  case True
  then show ?thesis
    using assms
    by (auto simp: TurboJS_AOTDeserializeIR_def fail_def image_header_ok_def image_count_def mapc_rd_prefix mapc_rd_tail
        get16_ok get32_ok get64_ok)
qed

lemma deserialize_good_header:
  assumes "image_header_ok data"
  shows "TurboJS_AOTDeserializeIR ok H nid (Some data) (length data) (Some g) d =
    (if \<not> image_limits_ok data
     then (case fail d TURBOJS_IR_INVALID_REGISTER 0 ''AOT register/local limit exceeded'' of
             (st, d') \<Rightarrow> Inr (st, Some null_function, d', nid + 1))
     else bindc (load_instructions (image_count data) ok 0 data (Some (image_function nid data))) (\<lambda>r.
       case r of
         Inl (st, i) \<Rightarrow> (case fail d st i ''AOT instruction allocation failed'' of
             (st, d') \<Rightarrow> Inr (st, Some null_function, d', nid + 1))
       | Inr h \<Rightarrow> bindc (TurboJS_IRVerify H h d) (\<lambda>(st, d').
           Inr (st, if st \<noteq> TURBOJS_IR_OK then Some null_function else h, d', nid + 1))))"
  using assms
  by (auto simp: TurboJS_AOTDeserializeIR_def fail_def image_header_ok_def image_count_def mapc_rd_prefix mapc_rd_tail
      get16_ok get32_ok get64_ok TurboJS_IRFunctionInit_def image_function_def image_limits_ok_def not_less not_le)

lemma load_image:
  assumes "image_header_ok data" "image_limits_ok data"
  shows "(\<exists>j. load_instructions (image_count data) ok 0 data (Some (image_function nid data)) =
            Inr (Inl (TURBOJS_IR_OUT_OF_MEMORY, j)) \<and> \<not> ok j) \<or>
    (\<exists>f. load_instructions (image_count data) ok 0 data (Some (image_function nid data)) = Inr (Inr (Some f)) \<and>
       storage_inv f \<and> irf_code f = image_code data (image_count data) \<and> same_counts (image_function nid data) f \<and>
       irf_owned_clutch_sites f = [] \<and> irf_owned_callable_references f = [])"
proof -
  have "storage_inv (image_function nid data)"
    using assms(2) by (simp add: image_limits_ok_def image_function_def storage_inv_def null_function_def)
  moreover have "32 + (0 + image_count data) * 32 \<le> length data"
    using assms(1) by (simp add: image_header_ok_def)
  moreover have "irf_code (image_function nid data) = []" "irf_owned_clutch_sites (image_function nid data) = []"
    "irf_owned_callable_references (image_function nid data) = []"
    by (simp_all add: image_function_def null_function_def irf_code_def)
  ultimately show ?thesis
    using load_instructions_ok [of "image_function nid data" 0 "image_count data" data ok]
    by (auto simp: image_code_def)
qed

lemma length_tjir_magic [simp]: "length tjir_magic = 4"
  by (simp add: tjir_magic_def)

lemma unat_of_nat_32: "n < 4294967296 \<Longrightarrow> unat (word_of_nat n :: u32) = n"
  by (simp add: unat_of_nat)

lemma unat_of_nat_64: "n < 18446744073709551616 \<Longrightarrow> unat (word_of_nat n :: u64) = n"
  by (simp add: unat_of_nat)

lemma image_header_aot_image:
  assumes "storage_inv f" "irf_instruction_count f < 4294967296"
  shows "image_count (aot_image f) = irf_instruction_count f" "image_header_ok (aot_image f)"
proof -
  let ?d = "aot_image f"
  note eval = aot_image_def image_start_def window_eval le_word_16 le_word_32 le_word_64
  have len: "length ?d = 32 + irf_instruction_count f * 32" using assms(1) by (rule length_aot_image)
  show count: "image_count ?d = irf_instruction_count f"
    using assms(2) by (simp add: image_count_def eval unat_of_nat_32)
  have "take 4 ?d = tjir_magic" "drop 32 ?d = image_body f" by (simp_all add: eval)
  moreover have "ucast (le_word (window 20 4 ?d)) = checksum (image_body f)" by (simp add: eval)
  moreover have "unat (le_word (window 24 8 ?d)) = length ?d"
    using assms(2) unfolding len by (simp add: eval unat_of_nat_64 del: of_nat_add of_nat_mult)
  moreover have "ucast (le_word (window 4 2 ?d)) = TURBOJS_AOT_FORMAT_VERSION" "unat (ucast (le_word (window 6 2 ?d)) :: u16) = 32"
    "unat (ucast (le_word (window 18 2 ?d)) :: u16) = 32"
    by (simp_all add: eval le_word_le_bytes)
  ultimately show "image_header_ok ?d"
    using count len by (simp add: image_header_ok_def)
qed

lemma image_function_aot_image:
  "irf_register_count (image_function nid (aot_image f)) = irf_register_count f"
  "irf_argument_count (image_function nid (aot_image f)) = irf_argument_count f"
  "irf_local_count (image_function nid (aot_image f)) = irf_local_count f"
  by (simp_all add: image_function_def aot_image_def image_start_def window_eval le_word_16)

lemma image_code_aot_image:
  assumes "storage_inv f" "wf_function H f"
  shows "image_code (aot_image f) (irf_instruction_count f) = irf_code f"
proof (rule nth_equalityI)
  fix i
  assume "i < length (image_code (aot_image f) (irf_instruction_count f))"
  then have i: "i < length (irf_code f)" "i < irf_instruction_count f"
    using length_irf_code [OF assms(1)] by (simp_all add: image_code_def)
  have known: "\<forall>ins\<in>set (irf_code f). ins_opcode ins \<in> known_ops"
    using assms(2) by (simp add: wf_function_def wf_instruction_def)
  define pre where "pre = image_start f @ le32 (checksum (image_body f)) @
      le64 (word_of_nat (32 + irf_instruction_count f * 32))"
  have "aot_image f = pre @ concat (map enc_instruction (irf_code f)) @ []" "length pre = 32"
    by (simp_all add: aot_image_def image_body_def pre_def)
  then show "image_code (aot_image f) (irf_instruction_count f) ! i = irf_code f ! i"
    using instruction_codec.decode_table [OF known i(1), of pre 32 "[]"] i(2) by (simp add: image_code_def)
qed (simp add: image_code_def length_irf_code [OF assms(1)])

lemma wf_function_cong:
  assumes "same_counts f g" "storage_inv f" "storage_inv g" "irf_code g = irf_code f"
  shows "wf_function H g \<longleftrightarrow> wf_function H f"
proof -
  have eqs: "irf_register_count g = irf_register_count f" "irf_argument_count g = irf_argument_count f"
    "irf_local_count g = irf_local_count f" "irf_instruction_count g = irf_instruction_count f"
    using assms length_irf_code [OF assms(2)] length_irf_code [OF assms(3)] by (simp_all add: same_counts_def)
  have "wf_instruction H g ins = wf_instruction H f ins" for ins
    unfolding wf_instruction_def wf_native_call_def eqs ..
  then show ?thesis by (simp add: wf_function_def eqs assms(4))
qed

section \<open>Properties\<close>

lemma deserialize_image:
  assumes "storage_inv f" "sites_resolve H f" "wf_function H f"
    and "unat (irf_local_count f) \<le> 64" "irf_instruction_count f < 4294967296"
  shows "\<exists>g d2. TurboJS_AOTDeserializeIR (\<lambda>_. True) H nid (Some (aot_image f)) (length (aot_image f)) (Some g0) d =
      Inr (TURBOJS_IR_OK, Some g, d2, nid + 1) \<and>
    irf_code g = irf_code f \<and> same_counts f g \<and> irf_owned_clutch_sites g = []"
proof -
  let ?d = "aot_image f"
  have hdr: "image_header_ok ?d" and count: "image_count ?d = irf_instruction_count f"
    using image_header_aot_image [OF assms(1,5)] by simp_all
  have lim: "image_limits_ok ?d"
    using storage_registers [OF assms(1)] assms(4) by (simp add: image_limits_ok_def image_function_aot_image)
  obtain g where g: "load_instructions (image_count ?d) (\<lambda>_. True) 0 ?d (Some (image_function nid ?d)) = Inr (Inr (Some g))"
    "storage_inv g" "irf_code g = irf_code f" "same_counts (image_function nid ?d) g" "irf_owned_clutch_sites g = []"
    using load_image [OF hdr lim, of "\<lambda>_. True" nid] image_code_aot_image [OF assms(1,3)] count by auto
  have same: "same_counts f g"
    using g(4) by (simp add: same_counts_def image_function_aot_image)
  have wf: "wf_function H g" "sites_resolve H g"
    using assms(2,3) wf_function_cong [OF same assms(1) g(2,3)] g(3) by (simp_all add: sites_resolve_def)
  obtain d2 where "TurboJS_IRVerify H (Some g) d = Inr (TURBOJS_IR_OK, d2)"
    using verify_ok_iff [OF g(2) wf(2), of d] wf(1) by auto
  then show ?thesis
    using deserialize_good_header [OF hdr, of "\<lambda>_. True" H nid g0 d] lim g same by auto
qed

text \<open>
  C9. Images round-trip. A well-formed function with at most 64 locals and fewer than
  \<open>2 ^ 32\<close> instructions is serialized to an image (when memory suffices), and reading that image
  back, in a store where its call sites still resolve, succeeds and gives a function with the
  same instructions and the same register, argument and local counts; the loaded function owns
  no call sites.
\<close>

theorem aot_roundtrip:
  assumes "storage_inv f" "sites_resolve H f" "wf_function H f"
    and "unat (irf_local_count f) \<le> 64" "irf_instruction_count f < 4294967296"
  shows "\<exists>image d1 g d2. TurboJS_AOTSerializeIR True H (Some f) (Some out) d =
      Inr (TURBOJS_IR_OK, Some \<lparr>buf_data = Some image, buf_size = length image\<rparr>, d1) \<and>
    TurboJS_AOTDeserializeIR (\<lambda>_. True) H nid (Some image) (length image) (Some g0) d =
      Inr (TURBOJS_IR_OK, Some g, d2, nid + 1) \<and>
    irf_code g = irf_code f \<and> same_counts f g \<and> irf_owned_clutch_sites g = []"
proof -
  have small: "irf_instruction_count f \<le> (SIZE_MAX - HEADER_SIZE) div INSTRUCTION_SIZE"
    using assms(5) by simp
  show ?thesis
    using serialize_ok [OF assms(1-3) small, of out d] deserialize_image [OF assms, of nid g0 d] by auto
qed

lemma return_argument_wf:
  "storage_inv return_argument" "sites_resolve empty_heap return_argument" "wf_function empty_heap return_argument"
  using return_argument_ok by (simp_all add: exec_ok_def)

theorem aot_roundtrip_witness:
  "\<exists>image d1 g d2. TurboJS_AOTSerializeIR True empty_heap (Some return_argument) (Some \<lparr>buf_data = None, buf_size = 0\<rparr>) None =
      Inr (TURBOJS_IR_OK, Some \<lparr>buf_data = Some image, buf_size = length image\<rparr>, d1) \<and>
    TurboJS_AOTDeserializeIR (\<lambda>_. True) empty_heap 1 (Some image) (length image) (Some null_function) None =
      Inr (TURBOJS_IR_OK, Some g, d2, 2) \<and>
    irf_code g = irf_code return_argument"
proof -
  have "unat (irf_local_count return_argument) \<le> 64" "irf_instruction_count return_argument < 4294967296"
    by (simp_all add: return_argument_def null_function_def)
  from aot_roundtrip [OF return_argument_wf this, of "\<lparr>buf_data = None, buf_size = 0\<rparr>" None 1 null_function]
  show ?thesis by auto
qed

lemma deserialize_contract:
  assumes "\<forall>ins\<in>set (image_code data (image_count data)). site_resolves H ins"
  shows "\<exists>st g d' nid'. TurboJS_AOTDeserializeIR ok H nid (Some data) (length data) (Some g0) d = Inr (st, Some g, d', nid') \<and>
    (if st = TURBOJS_IR_OK
     then irf_code g = image_code data (image_count data) \<and> storage_inv g \<and> wf_function H g \<and> sites_resolve H g \<and>
          unat (irf_local_count g) \<le> 64 \<and> irf_owned_clutch_sites g = [] \<and> irf_owned_callable_references g = []
     else g = g0 \<or> g = null_function)"
proof (cases "image_header_ok data")
  case False
  then show ?thesis using deserialize_bad_header [OF False, of ok H nid g0 d] by auto
next
  case hdr: True
  note D = deserialize_good_header [OF hdr, of ok H nid g0 d]
  show ?thesis
  proof (cases "image_limits_ok data")
    case False
    then show ?thesis unfolding D by (simp add: fail_def)
  next
    case lim: True
    from load_image [OF hdr lim, of ok nid] show ?thesis
    proof (elim disjE exE conjE)
      fix j
      assume "load_instructions (image_count data) ok 0 data (Some (image_function nid data)) = Inr (Inl (TURBOJS_IR_OUT_OF_MEMORY, j))"
      then show ?thesis unfolding D using lim by (simp add: fail_def)
    next
      fix f
      assume f: "load_instructions (image_count data) ok 0 data (Some (image_function nid data)) = Inr (Inr (Some f))"
        "storage_inv f" "irf_code f = image_code data (image_count data)" "same_counts (image_function nid data) f"
        "irf_owned_clutch_sites f = []" "irf_owned_callable_references f = []"
      have res: "sites_resolve H f" using assms f(3) by (simp add: sites_resolve_def)
      have loc: "unat (irf_local_count f) \<le> 64"
        using lim f(4) by (simp add: image_limits_ok_def same_counts_def image_function_def)
      obtain st d' where "TurboJS_IRVerify H (Some f) d = Inr (st, d')" "st = TURBOJS_IR_OK \<longleftrightarrow> wf_function H f"
        using verify_ok_iff [OF f(2) res] by blast
      then show ?thesis unfolding D using lim f res loc by simp
    qed
  qed
qed

text \<open>
  Loading an image never reads outside it. For any byte string (its declared size being its
  length) and any pattern of allocation failures, if the call-site addresses of its records
  resolve then the reader returns without a fault, and an OK status means: the function has the
  image's instructions, is well formed, has sound storage, at most 64 locals, and owns nothing.
  On any other status the function is the caller's unchanged one or the zeroed one.
\<close>

lemma aot_load_safe:
  assumes "\<forall>ins\<in>set (image_code data (image_count data)). site_resolves H ins"
  shows "\<exists>st g d' nid'. TurboJS_AOTDeserializeIR ok H nid (Some data) (length data) (Some g0) d = Inr (st, Some g, d', nid') \<and>
    (if st = TURBOJS_IR_OK
     then irf_code g = image_code data (image_count data) \<and> storage_inv g \<and> wf_function H g \<and> sites_resolve H g \<and>
          unat (irf_local_count g) \<le> 64 \<and> irf_owned_clutch_sites g = [] \<and> irf_owned_callable_references g = []
     else g = g0 \<or> g = null_function)"
  using assms by (rule deserialize_contract)

text \<open>
  C20. Images that contain native calls are not portable: the record stores the address of the
  call site. Reading back the image of a function whose first instruction is a native call, in a
  process where there is no call site at that address, dereferences the stale address.
\<close>

theorem aot_stale_call_site_fault:
  assumes "storage_inv f" "sites_resolve H f" "wf_function H f"
    and "unat (irf_local_count f) \<le> 64" "irf_instruction_count f < 4294967296"
    and "irf_code f = ins # code" "ins_opcode ins \<in> native_call_ops" "heap_sites H' (ins_immediate ins) = None"
  shows "TurboJS_AOTDeserializeIR (\<lambda>_. True) H' nid (Some (aot_image f)) (length (aot_image f)) (Some g0) d = Inl Fault_bounds"
proof -
  let ?d = "aot_image f"
  have hdr: "image_header_ok ?d" and count: "image_count ?d = irf_instruction_count f"
    using image_header_aot_image [OF assms(1,5)] by simp_all
  have lim: "image_limits_ok ?d"
    using storage_registers [OF assms(1)] assms(4) by (simp add: image_limits_ok_def image_function_aot_image)
  obtain g where g: "load_instructions (image_count ?d) (\<lambda>_. True) 0 ?d (Some (image_function nid ?d)) = Inr (Inr (Some g))"
    "storage_inv g" "irf_code g = ins # code" "same_counts (image_function nid ?d) g"
    using load_image [OF hdr lim, of "\<lambda>_. True" nid] image_code_aot_image [OF assms(1,3)] count assms(6) by auto
  have "wf_instruction H f ins" using assms(3,6) by (simp add: wf_function_def)
  then have "ins_destination ins < irf_register_count g" "ins_immediate ins \<noteq> 0"
    using wf_instruction_native [OF assms(7)] g(4)
    by (simp_all add: valid_register_def wf_native_call_def same_counts_def image_function_aot_image)
  moreover obtain n where n: "irf_instruction_count g = Suc n"
    using length_irf_code [OF g(2)] g(3) by (metis length_Cons)
  ultimately have "TurboJS_IRVerify H' (Some g) d = Inl Fault_bounds"
    using assms(7,8)
    by (simp add: verify_eq [OF g(2)] g(3) n rd_def check_instruction_native check_native_call_def valid_register_def deref_def)
  then show ?thesis
    using deserialize_good_header [OF hdr, of "\<lambda>_. True" H' nid g0 d] lim g(1) by simp
qed

definition call_site_48 :: TurboJSIRFunction where
  "call_site_48 = return_argument\<lparr>irf_instructions := Some
     [null_instruction\<lparr>ins_opcode := TURBOJS_IR_CALL_NATIVE_I64, ins_immediate := 48\<rparr>,
      null_instruction\<lparr>ins_opcode := TURBOJS_IR_RETURN_I64\<rparr>]\<rparr>"

theorem aot_stale_call_site_fault_witness:
  "TurboJS_AOTDeserializeIR (\<lambda>_. True) empty_heap 1 (Some (aot_image call_site_48)) (length (aot_image call_site_48))
     (Some null_function) None = Inl Fault_bounds"
  by (rule aot_stale_call_site_fault [where H = "empty_heap\<lparr>heap_sites := [48 \<mapsto> null_call_site]\<rparr>" and
        ins = "null_instruction\<lparr>ins_opcode := TURBOJS_IR_CALL_NATIVE_I64, ins_immediate := 48\<rparr>" and
        code = "[null_instruction\<lparr>ins_opcode := TURBOJS_IR_RETURN_I64\<rparr>]"])
     (simp_all add: call_site_48_def return_argument_def null_function_def storage_inv_def irf_code_def null_instruction_def
       sites_resolve_def site_resolves_def wf_function_def wf_instruction_def wf_native_call_def site_arguments_def
       null_call_site_def enum_sets empty_heap_def)

end
