(* ===== verification/IR_Tagged.thy ===== *)
theory IR_Tagged
  imports IR_Verify
begin

text \<open>
  The tagged baseline interpreter, \<^verbatim>\<open>src/jit/ir/tagged_ir.c\<close>. Registers and locals
  are heap arrays of boxed values with exactly as many elements as the function declares (one
  when it declares none). A boxed callable is an address that the interpreter dereferences, so
  callables are looked up in the store. Both arrays are freed on every path; whether
  \<^verbatim>\<open>calloc\<close> succeeds is a Boolean argument.
\<close>

section \<open>Values\<close>

definition tagged_undefined :: TurboJSBoxedValue where
  "tagged_undefined = \<lparr>bv_tag = TURBOJS_BOXED_UNDEFINED, bv_as = 0\<rparr>"

definition int32_bits :: "i64 \<Rightarrow> u64" where
  "int32_bits v = scast (ucast v :: u32)"

definition tagged_truthy :: "jit_env \<Rightarrow> jit_heap \<Rightarrow> TurboJSBoxedValue ptr \<Rightarrow> bool c" where
  "tagged_truthy E H val =
     (case val of
        None \<Rightarrow> Inr False
      | Some v \<Rightarrow>
          (case bv_tag v of
             TURBOJS_BOXED_UNDEFINED \<Rightarrow> Inr False
           | TURBOJS_BOXED_BOOLEAN \<Rightarrow> Inr (bv_as v \<noteq> 0)
           | TURBOJS_BOXED_INT32 \<Rightarrow> Inr (bv_as v \<noteq> 0)
           | TURBOJS_BOXED_INT64 \<Rightarrow> Inr (bv_as v \<noteq> 0)
           | TURBOJS_BOXED_FLOAT64 \<Rightarrow> Inr (\<not> env_f64_equal E (bv_as v) 0 \<and> env_f64_equal E (bv_as v) (bv_as v))
           | TURBOJS_BOXED_HEAP_REFERENCE \<Rightarrow> Inr (bv_as v \<noteq> 0)
           | TURBOJS_BOXED_CALLABLE_REFERENCE \<Rightarrow>
               bindc (load (heap_callables H) (bv_as v)) (\<lambda>callable.
                 if callable = None then Inr False else TurboJS_CallableReferenceIsLive H callable)))"

section \<open>One iteration\<close>

record tagged_state =
  tg_registers :: "TurboJSBoxedValue list"
  tg_locals :: "TurboJSBoxedValue list"
  tg_pc :: nat
  tg_result :: TurboJSBoxedValue

type_synonym tagged_outcome = "TurboJSIRStatus \<times> TurboJSBoxedValue"

type_synonym tagged_flow = "(tagged_state, tagged_outcome) flow"

definition tg_ret :: "TurboJSIRStatus \<Rightarrow> tagged_state \<Rightarrow> tagged_flow c" where
  "tg_ret status s = Inr (Stop (status, tg_result s))"

definition tg_get :: "tagged_state \<Rightarrow> u16 \<Rightarrow> TurboJSBoxedValue c" where
  "tg_get s reg = rd (tg_registers s) (unat reg)"

definition tg_set :: "tagged_state \<Rightarrow> u16 \<Rightarrow> TurboJSBoxedValue \<Rightarrow> tagged_flow c" where
  "tg_set s reg v =
     bindc (wr (tg_registers s) (unat reg) v) (\<lambda>regs.
       Inr (Next (s\<lparr>tg_registers := regs, tg_pc := tg_pc s + 1\<rparr>)))"

text \<open>
  The argument loops of the two call instructions: \<open>None\<close> is the early exit on a value of the
  wrong kind.
\<close>

definition i64_argument :: "TurboJSBoxedValue \<Rightarrow> i64 option" where
  "i64_argument v =
     (if bv_tag v \<noteq> TURBOJS_BOXED_INT32 \<and> bv_tag v \<noteq> TURBOJS_BOXED_INT64 \<and> bv_tag v \<noteq> TURBOJS_BOXED_BOOLEAN
      then None else Some (bv_as v))"

definition f64_argument :: "jit_env \<Rightarrow> TurboJSBoxedValue \<Rightarrow> u64 option" where
  "f64_argument E v =
     (if bv_tag v = TURBOJS_BOXED_FLOAT64 then Some (bv_as v)
      else if bv_tag v = TURBOJS_BOXED_INT32 \<or> bv_tag v = TURBOJS_BOXED_INT64
      then Some (env_i64_to_f64 E (bv_as v)) else None)"

fun tg_arguments ::
  "(TurboJSBoxedValue \<Rightarrow> u64 option) \<Rightarrow> tagged_state \<Rightarrow> nat list \<Rightarrow> u64 list option c" where
  "tg_arguments conv s [] = Inr (Some [])"
| "tg_arguments conv s (i # is) =
     bindc (rd (tg_registers s) i) (\<lambda>v.
       case conv v of
         None \<Rightarrow> Inr None
       | Some x \<Rightarrow> bindc (tg_arguments conv s is) (\<lambda>xs. Inr (map_option ((#) x) xs)))"

text \<open>
  \<^verbatim>\<open>VALUE_CALL_I64\<close> and \<^verbatim>\<open>VALUE_CALL_F64\<close>: the conversion, the tag of the result
  and the invocation differ. The array of four arguments is padded with zeros.
\<close>

definition tg_call ::
  "(TurboJSBoxedValue \<Rightarrow> u64 option) \<Rightarrow> TurboJSBoxedValueTag \<Rightarrow>
     (TurboJSCallableReference ptr \<Rightarrow> u64 list ptr \<Rightarrow> nat \<Rightarrow> u64 \<Rightarrow> (TurboJSIRStatus \<times> u64) c) \<Rightarrow>
     jit_heap \<Rightarrow> TurboJSIRFunction \<Rightarrow> TurboJSIRInstruction \<Rightarrow> tagged_state \<Rightarrow> tagged_flow c" where
  "tg_call conv result_tag invoke H f ins s =
     bindc (tg_get s (ins_left ins)) (\<lambda>callee.
       let argc = unat (ins_immediate ins); first = unat (ins_right ins) in
       if bv_tag callee \<noteq> TURBOJS_BOXED_CALLABLE_REFERENCE \<or> bv_as callee = 0 \<or>
          TURBOJS_CLUTCH_MAX_ARGUMENTS < argc \<or> unat (irf_register_count f) < first + argc
       then tg_ret TURBOJS_IR_UNSUPPORTED s
       else bindc (tg_arguments conv s [first..<first + argc]) (\<lambda>args.
         case args of
           None \<Rightarrow> tg_ret TURBOJS_IR_UNSUPPORTED s
         | Some xs \<Rightarrow>
             bindc (load (heap_callables H) (bv_as callee)) (\<lambda>callable.
             bindc (invoke callable (Some (xs @ replicate (TURBOJS_CLUTCH_MAX_ARGUMENTS - argc) 0)) argc 0)
               (\<lambda>(status, native_result).
                  if status \<noteq> TURBOJS_IR_OK then tg_ret status s
                  else tg_set s (ins_destination ins) \<lparr>bv_tag = result_tag, bv_as = native_result\<rparr>))))"

definition tg_branch :: "jit_env \<Rightarrow> jit_heap \<Rightarrow> bool \<Rightarrow> TurboJSIRInstruction \<Rightarrow> tagged_state \<Rightarrow> tagged_flow c" where
  "tg_branch E H sense ins s =
     bindc (tg_get s (ins_left ins)) (\<lambda>v.
     bindc (tagged_truthy E H (Some v)) (\<lambda>t.
       Inr (Next (s\<lparr>tg_pc := (if t = sense then unat (ins_target ins) else tg_pc s + 1)\<rparr>))))"

definition tagged_step ::
  "jit_env \<Rightarrow> jit_heap \<Rightarrow> TurboJSIRFunction \<Rightarrow> TurboJSBoxedValue list \<Rightarrow> TurboJSIRInstruction \<Rightarrow> tagged_state \<Rightarrow> tagged_flow c" where
  "tagged_step E H f arguments ins s =
     (case ins_opcode ins of
        TURBOJS_IR_NOP \<Rightarrow> Inr (Next (s\<lparr>tg_pc := tg_pc s + 1\<rparr>))
      | TURBOJS_IR_VALUE_ARGUMENT \<Rightarrow>
          bindc (rd arguments (unat (ins_immediate ins))) (tg_set s (ins_destination ins))
      | TURBOJS_IR_VALUE_UNDEFINED \<Rightarrow> tg_set s (ins_destination ins) tagged_undefined
      | TURBOJS_IR_VALUE_CONSTANT_I32 \<Rightarrow>
          tg_set s (ins_destination ins) \<lparr>bv_tag = TURBOJS_BOXED_INT32, bv_as = int32_bits (ins_immediate ins)\<rparr>
      | TURBOJS_IR_VALUE_MOVE \<Rightarrow> bindc (tg_get s (ins_left ins)) (tg_set s (ins_destination ins))
      | TURBOJS_IR_VALUE_LOCAL_GET \<Rightarrow>
          bindc (rd (tg_locals s) (unat (ins_immediate ins))) (tg_set s (ins_destination ins))
      | TURBOJS_IR_VALUE_LOCAL_SET \<Rightarrow>
          bindc (tg_get s (ins_left ins)) (\<lambda>v.
          bindc (wr (tg_locals s) (unat (ins_immediate ins)) v) (\<lambda>ls.
            Inr (Next (s\<lparr>tg_locals := ls, tg_pc := tg_pc s + 1\<rparr>))))
      | TURBOJS_IR_VALUE_TO_BOOLEAN \<Rightarrow>
          bindc (tg_get s (ins_left ins)) (\<lambda>v.
          bindc (tagged_truthy E H (Some (if ins_destination ins = ins_left ins
                   then v\<lparr>bv_tag := TURBOJS_BOXED_BOOLEAN\<rparr> else v))) (\<lambda>t.
            tg_set s (ins_destination ins) \<lparr>bv_tag = TURBOJS_BOXED_BOOLEAN, bv_as = of_bool64 t\<rparr>))
      | TURBOJS_IR_VALUE_CALLABLE_CONSTANT \<Rightarrow>
          tg_set s (ins_destination ins) \<lparr>bv_tag = TURBOJS_BOXED_CALLABLE_REFERENCE, bv_as = ins_immediate ins\<rparr>
      | TURBOJS_IR_VALUE_CALL_I64 \<Rightarrow>
          tg_call i64_argument TURBOJS_BOXED_INT64 (TurboJS_CallableReferenceInvokeI64 E H) H f ins s
      | TURBOJS_IR_VALUE_CALL_F64 \<Rightarrow>
          tg_call (f64_argument E) TURBOJS_BOXED_FLOAT64 (TurboJS_CallableReferenceInvokeF64 E H) H f ins s
      | TURBOJS_IR_JUMP \<Rightarrow> Inr (Next (s\<lparr>tg_pc := unat (ins_target ins)\<rparr>))
      | TURBOJS_IR_BRANCH_TRUE \<Rightarrow> tg_branch E H True ins s
      | TURBOJS_IR_BRANCH_FALSE \<Rightarrow> tg_branch E H False ins s
      | TURBOJS_IR_VALUE_RETURN \<Rightarrow>
          bindc (tg_get s (ins_left ins)) (\<lambda>v. tg_ret TURBOJS_IR_OK (s\<lparr>tg_result := v\<rparr>))
      | _ \<Rightarrow> tg_ret TURBOJS_IR_UNSUPPORTED s)"

section \<open>The interpreter\<close>

definition tagged_step_limit :: "TurboJSIRFunction \<Rightarrow> nat" where
  "tagged_step_limit f = (irf_instruction_count f * 1000 + 1024) mod 2 ^ 64"

definition tagged_in_code :: "TurboJSIRFunction \<Rightarrow> tagged_state \<Rightarrow> bool" where
  "tagged_in_code f s \<longleftrightarrow> tg_pc s < irf_instruction_count f"

definition tagged_body ::
  "jit_env \<Rightarrow> jit_heap \<Rightarrow> TurboJSIRFunction \<Rightarrow> TurboJSBoxedValue list \<Rightarrow> tagged_state \<Rightarrow> tagged_flow c" where
  "tagged_body E H f arguments s =
     bindc (rd (irf_code f) (tg_pc s)) (\<lambda>ins. tagged_step E H f arguments ins s)"

definition tagged_end :: "TurboJSIRStatus \<Rightarrow> tagged_state \<Rightarrow> tagged_outcome" where
  "tagged_end status s = (status, tg_result s)"

definition TurboJS_IRExecuteTagged ::
  "bool \<Rightarrow> jit_env \<Rightarrow> jit_heap \<Rightarrow> TurboJSIRFunction ptr \<Rightarrow> TurboJSBoxedValue list ptr \<Rightarrow> nat \<Rightarrow> TurboJSBoxedValue ptr
     \<Rightarrow> (TurboJSIRStatus \<times> TurboJSBoxedValue ptr) c" where
  "TurboJS_IRExecuteTagged calloc_ok E H function arguments argument_count result =
     (case (function, result) of
        (Some f, Some cell) \<Rightarrow>
          if argument_count \<noteq> unat (irf_argument_count f) \<or> (argument_count \<noteq> 0 \<and> arguments = None)
          then Inr (TURBOJS_IR_INVALID_ARGUMENT, result)
          else bindc (TurboJS_IRVerify H function (Some \<lparr>diag_status = TURBOJS_IR_OK, diag_instruction_index = 0, diag_message = []\<rparr>))
            (\<lambda>(status, diagnostic).
              if status \<noteq> TURBOJS_IR_OK then Inr (diag_status (the diagnostic), result)
              else if \<not> calloc_ok then Inr (TURBOJS_IR_OUT_OF_MEMORY, result)
              else bindc (limited_loop (tagged_in_code f)
                     (tagged_body E H f (case arguments of None \<Rightarrow> [] | Some args \<Rightarrow> args))
                     (tagged_end TURBOJS_IR_EXECUTION_LIMIT) (tagged_end TURBOJS_IR_MISSING_RETURN) (tagged_step_limit f)
                     \<lparr>tg_registers = replicate (max 1 (unat (irf_register_count f))) tagged_undefined,
                      tg_locals = replicate (max 1 (unat (irf_local_count f))) tagged_undefined,
                      tg_pc = 0, tg_result = cell\<rparr>)
                   (\<lambda>(st, v). Inr (st, Some v)))
      | _ \<Rightarrow> Inr (TURBOJS_IR_INVALID_ARGUMENT, result))"

section \<open>Safety\<close>

text \<open>
  A value is valid when, boxed as a callable, it is null or the address of a callable reference
  whose target is null or an allocated handle. The invariant of a run: the arrays have the
  declared sizes and hold valid values only.
\<close>

definition valid_callable :: "jit_heap \<Rightarrow> addr \<Rightarrow> bool" where
  "valid_callable H a \<longleftrightarrow> a = 0 \<or>
     (case heap_callables H a of
        None \<Rightarrow> False
      | Some r \<Rightarrow> cr_target r = 0 \<or> heap_handles H (cr_target r) \<noteq> None)"

definition valid_value :: "jit_heap \<Rightarrow> TurboJSBoxedValue \<Rightarrow> bool" where
  "valid_value H v \<longleftrightarrow> (bv_tag v = TURBOJS_BOXED_CALLABLE_REFERENCE \<longrightarrow> valid_callable H (bv_as v))"

definition valid_values :: "jit_heap \<Rightarrow> TurboJSBoxedValue list \<Rightarrow> bool" where
  "valid_values H vs \<longleftrightarrow> (\<forall>v\<in>set vs. valid_value H v)"

definition callables_valid :: "jit_heap \<Rightarrow> TurboJSIRFunction \<Rightarrow> bool" where
  "callables_valid H f \<longleftrightarrow>
     (\<forall>ins\<in>set (irf_code f). ins_opcode ins = TURBOJS_IR_VALUE_CALLABLE_CONSTANT \<longrightarrow> valid_callable H (ins_immediate ins))"

definition tagged_ok :: "jit_heap \<Rightarrow> TurboJSIRFunction \<Rightarrow> TurboJSBoxedValue list \<Rightarrow> bool" where
  "tagged_ok H f args \<longleftrightarrow> storage_inv f \<and> sites_resolve H f \<and> wf_function H f \<and> callables_valid H f \<and>
     length args = unat (irf_argument_count f) \<and> valid_values H args"

definition tagged_inv ::
  "jit_heap \<Rightarrow> TurboJSIRFunction \<Rightarrow> TurboJSBoxedValue list \<Rightarrow> TurboJSBoxedValue \<Rightarrow> tagged_state \<Rightarrow> bool" where
  "tagged_inv H f args cell s \<longleftrightarrow> tagged_ok H f args \<and> unat (irf_register_count f) \<le> length (tg_registers s) \<and>
     unat (irf_local_count f) \<le> length (tg_locals s) \<and>
     valid_values H (tg_registers s) \<and> valid_values H (tg_locals s) \<and> tg_result s = cell"

definition tagged_post :: "jit_heap \<Rightarrow> TurboJSBoxedValue \<Rightarrow> tagged_outcome \<Rightarrow> bool" where
  "tagged_post H cell r \<longleftrightarrow> (if fst r = TURBOJS_IR_OK then valid_value H (snd r) else snd r = cell)"

fun tagged_flow_ok ::
  "jit_heap \<Rightarrow> TurboJSIRFunction \<Rightarrow> TurboJSBoxedValue list \<Rightarrow> TurboJSBoxedValue \<Rightarrow> tagged_flow c \<Rightarrow> bool" where
  "tagged_flow_ok H f args cell (Inl e) = False"
| "tagged_flow_ok H f args cell (Inr (Next s)) = tagged_inv H f args cell s"
| "tagged_flow_ok H f args cell (Inr (Stop r)) = tagged_post H cell r"

lemma valid_values_nth: "valid_values H vs \<Longrightarrow> i < length vs \<Longrightarrow> valid_value H (vs ! i)"
  by (simp add: valid_values_def)

lemma valid_values_update: "valid_values H vs \<Longrightarrow> valid_value H v \<Longrightarrow> valid_values H (vs[i := v])"
  using set_update_subset_insert [of vs i v] by (auto simp: valid_values_def)

lemma tg_get_ok:
  "tagged_inv H f args cell s \<Longrightarrow> reg < irf_register_count f \<Longrightarrow>
   tg_get s reg = Inr (tg_registers s ! unat reg) \<and> valid_value H (tg_registers s ! unat reg)"
  by (auto simp: tg_get_def tagged_inv_def rd_def word_less_nat_alt valid_values_nth)

lemma tg_get_eq:
  "tagged_inv H f args cell s \<Longrightarrow> reg < irf_register_count f \<Longrightarrow> tg_get s reg = Inr (tg_registers s ! unat reg)"
  using tg_get_ok by blast

lemma tg_get_valid:
  "tagged_inv H f args cell s \<Longrightarrow> reg < irf_register_count f \<Longrightarrow> valid_value H (tg_registers s ! unat reg)"
  using tg_get_ok by blast

lemma tg_set_ok:
  assumes "tagged_inv H f args cell s" "reg < irf_register_count f" "valid_value H v"
  shows "tagged_flow_ok H f args cell (tg_set s reg v)"
  using assms by (auto simp: tg_set_def tagged_inv_def wr_def word_less_nat_alt valid_values_update)

lemma tg_ret_ok:
  "tagged_inv H f args cell s \<Longrightarrow> status \<noteq> TURBOJS_IR_OK \<Longrightarrow> tagged_flow_ok H f args cell (tg_ret status s)"
  by (simp add: tg_ret_def tagged_post_def tagged_inv_def)

lemma callable_live_ok:
  "valid_callable H a \<Longrightarrow> load (heap_callables H) a = Inr r \<Longrightarrow> \<exists>b. TurboJS_CallableReferenceIsLive H r = Inr b"
  by (auto simp: valid_callable_def load_def deref_def TurboJS_CallableReferenceIsLive_def split: option.splits if_splits)

lemma load_callable_ok: "valid_callable H a \<Longrightarrow> \<exists>r. load (heap_callables H) a = Inr r"
  by (auto simp: valid_callable_def load_def deref_def split: option.splits)

lemma tagged_truthy_ok: "valid_value H v \<Longrightarrow> \<exists>b. tagged_truthy E H (Some v) = Inr b"
  using load_callable_ok [of H "bv_as v"] callable_live_ok [of H "bv_as v"]
  by (cases "bv_tag v") (auto simp: tagged_truthy_def valid_value_def)

lemma invoke_callable_ok:
  assumes "valid_callable H a" "load (heap_callables H) a = Inr r"
  shows "\<exists>st v. TurboJS_CallableReferenceInvokeI64 E H r xs n old = Inr (st, v)"
    "\<exists>st v. TurboJS_CallableReferenceInvokeF64 E H r xs n old = Inr (st, v)"
  using callable_live_ok [OF assms] assms
  by (auto simp: TurboJS_CallableReferenceInvokeI64_def TurboJS_CallableReferenceInvokeF64_def valid_callable_def
      load_def deref_def split: option.splits prod.splits if_splits)

lemma tg_arguments_ok:
  "\<forall>i\<in>set is. i < length (tg_registers s) \<Longrightarrow> \<exists>xs. tg_arguments conv s is = Inr xs"
  by (induction "is") (auto simp: rd_def split: option.splits)

lemma tg_call_ok:
  assumes inv: "tagged_inv H f args cell s" and l: "ins_left ins < irf_register_count f"
    and d: "ins_destination ins < irf_register_count f" and tag: "result_tag \<noteq> TURBOJS_BOXED_CALLABLE_REFERENCE"
    and invoke: "\<And>a r xs n old. valid_callable H a \<Longrightarrow> load (heap_callables H) a = Inr r \<Longrightarrow> \<exists>st v. invoke r xs n old = Inr (st, v)"
  shows "tagged_flow_ok H f args cell (tg_call conv result_tag invoke H f ins s)"
proof -
  let ?callee = "tg_registers s ! unat (ins_left ins)"
  let ?argc = "unat (ins_immediate ins)" and ?first = "unat (ins_right ins)"
  note ret = tg_ret_ok [OF inv]
  show ?thesis
  proof (cases "bv_tag ?callee = TURBOJS_BOXED_CALLABLE_REFERENCE \<and> bv_as ?callee \<noteq> 0 \<and>
      ?argc \<le> TURBOJS_CLUTCH_MAX_ARGUMENTS \<and> ?first + ?argc \<le> unat (irf_register_count f)")
    case False
    then show ?thesis using ret by (auto simp: tg_call_def tg_get_eq [OF inv l])
  next
    case True
    then have vc: "valid_callable H (bv_as ?callee)"
      using tg_get_valid [OF inv l] by (simp add: valid_value_def)
    obtain r where r: "load (heap_callables H) (bv_as ?callee) = Inr r" using load_callable_ok [OF vc] by blast
    have "\<forall>i\<in>set [?first..<?first + ?argc]. i < length (tg_registers s)"
      using True inv by (auto simp: tagged_inv_def)
    then obtain xs where xs: "tg_arguments conv s [?first..<?first + ?argc] = Inr xs"
      using tg_arguments_ok by blast
    have set_ok: "tagged_flow_ok H f args cell (tg_set s (ins_destination ins) \<lparr>bv_tag = result_tag, bv_as = v\<rparr>)" for v
      using tag by (intro tg_set_ok [OF inv d]) (simp add: valid_value_def)
    show ?thesis
    proof (cases xs)
      case None
      then show ?thesis using True xs ret by (simp add: tg_call_def tg_get_eq [OF inv l])
    next
      case (Some ys)
      obtain st v where "invoke r (Some (ys @ replicate (4 - ?argc) 0)) ?argc 0 = Inr (st, v)"
        using invoke [OF vc r] by blast
      then show ?thesis using True xs Some r ret set_ok by (simp add: tg_call_def tg_get_eq [OF inv l])
    qed
  qed
qed

lemma tg_branch_ok:
  assumes inv: "tagged_inv H f args cell s" and l: "ins_left ins < irf_register_count f"
  shows "tagged_flow_ok H f args cell (tg_branch E H sense ins s)"
proof -
  obtain b where "tagged_truthy E H (Some (tg_registers s ! unat (ins_left ins))) = Inr b"
    using tagged_truthy_ok [OF tg_get_valid [OF inv l]] by blast
  then show ?thesis using inv by (simp add: tg_branch_def tg_get_eq [OF inv l] tagged_inv_def)
qed

lemma to_boolean_ok:
  assumes inv: "tagged_inv H f args cell s" and l: "ins_left ins < irf_register_count f"
    and d: "ins_destination ins < irf_register_count f" and op: "ins_opcode ins = TURBOJS_IR_VALUE_TO_BOOLEAN"
  shows "tagged_flow_ok H f args cell (tagged_step E H f args' ins s)"
proof -
  let ?v = "tg_registers s ! unat (ins_left ins)"
  let ?w = "if ins_destination ins = ins_left ins then ?v\<lparr>bv_tag := TURBOJS_BOXED_BOOLEAN\<rparr> else ?v"
  have "valid_value H ?w" using tg_get_valid [OF inv l] by (simp add: valid_value_def)
  then obtain b where b: "tagged_truthy E H (Some ?w) = Inr b" using tagged_truthy_ok by blast
  have "tagged_flow_ok H f args cell
      (tg_set s (ins_destination ins) \<lparr>bv_tag = TURBOJS_BOXED_BOOLEAN, bv_as = of_bool64 b\<rparr>)"
    by (rule tg_set_ok [OF inv d]) (simp add: valid_value_def)
  then show ?thesis using b by (simp add: tagged_step_def op tg_get_eq [OF inv l] split del: if_split)
qed

lemma tagged_step_ok:
  assumes inv: "tagged_inv H f args cell s" and wf: "wf_instruction H f ins"
    and const: "ins_opcode ins = TURBOJS_IR_VALUE_CALLABLE_CONSTANT \<longrightarrow> valid_callable H (ins_immediate ins)"
  shows "tagged_flow_ok H f args cell (tagged_step E H f args ins s)"
proof -
  have len: "unat (irf_local_count f) \<le> length (tg_locals s)" "length args = unat (irf_argument_count f)"
    and vals: "valid_values H (tg_locals s)" "valid_values H args"
    using inv by (simp_all add: tagged_inv_def tagged_ok_def)
  note ok = tg_get_eq [OF inv] tg_get_valid [OF inv] tg_set_ok [OF inv] tg_ret_ok [OF inv]
    tg_branch_ok [OF inv] tg_call_ok [OF inv] invoke_callable_ok valid_values_nth [OF vals(1)] valid_values_nth [OF vals(2)]
    valid_values_update [OF vals(1)]
  show ?thesis
  proof (cases "ins_opcode ins = TURBOJS_IR_VALUE_TO_BOOLEAN")
    case True
    with wf show ?thesis by (intro to_boolean_ok [OF inv]) (simp_all add: wf_instruction_def enum_sets)
  next
    case False
    with wf const len inv show ?thesis
      by (cases "ins_opcode ins")
         (simp_all add: ok tagged_step_def wf_instruction_def enum_sets rd_def wr_def tagged_inv_def
            valid_value_def [of H "\<lparr>bv_tag = _, bv_as = _\<rparr>"] tagged_undefined_def tagged_post_def tg_ret_def)
  qed
qed

lemma tagged_body_ok:
  assumes inv: "tagged_inv H f args cell s" and pc: "tagged_in_code f s"
  shows "tagged_flow_ok H f args cell (tagged_body E H f args s)"
proof -
  have st: "storage_inv f" and wf: "wf_function H f" and cv: "callables_valid H f"
    using inv by (simp_all add: tagged_inv_def tagged_ok_def)
  have l: "tg_pc s < length (irf_code f)"
    using pc length_irf_code [OF st] by (simp add: tagged_in_code_def)
  have "tagged_flow_ok H f args cell (tagged_step E H f args (irf_code f ! tg_pc s) s)"
    using nth_mem [OF l] wf cv by (intro tagged_step_ok [OF inv]) (simp_all add: wf_function_def callables_valid_def)
  with l show ?thesis by (simp add: tagged_body_def rd_def)
qed

interpretation tagged_machine: limited_machine "tagged_in_code f" "tagged_body E H f args"
    "tagged_end TURBOJS_IR_EXECUTION_LIMIT" "tagged_end TURBOJS_IR_MISSING_RETURN"
    "tagged_inv H f args cell" "\<lambda>_. False" "tagged_post H cell"
  for E H f args cell
proof
  fix s
  assume s: "tagged_inv H f args cell s"
  { fix e assume "tagged_in_code f s" "tagged_body E H f args s = Inl e"
    with tagged_body_ok [OF s, of E] show False by simp }
  { fix s' assume "tagged_in_code f s" "tagged_body E H f args s = Inr (Next s')"
    with tagged_body_ok [OF s, of E] show "tagged_inv H f args cell s'" by simp }
  { fix r assume "tagged_in_code f s" "tagged_body E H f args s = Inr (Stop r)"
    with tagged_body_ok [OF s, of E] show "tagged_post H cell r" by simp }
  show "tagged_post H cell (tagged_end TURBOJS_IR_EXECUTION_LIMIT s)" "tagged_post H cell (tagged_end TURBOJS_IR_MISSING_RETURN s)"
    using s by (simp_all add: tagged_post_def tagged_end_def tagged_inv_def)
qed

section \<open>Properties\<close>

text \<open>
  C21. The tagged interpreter runs verified functions without any fault: if the callable constants
  and the arguments are valid values, \<^verbatim>\<open>TurboJS_IRExecuteTagged\<close> returns (whether or not
  its arrays could be allocated), the value it returns with OK is again valid (a returned
  callable can be dereferenced), and on every other status the result cell is unchanged.
\<close>

theorem tagged_execution_safe:
  assumes "tagged_ok H f args"
  shows "\<exists>st v. TurboJS_IRExecuteTagged ok E H (Some f) (Some args) (length args) (Some cell) = Inr (st, Some v) \<and>
           (if st = TURBOJS_IR_OK then valid_value H v else v = cell)"
proof -
  let ?d0 = "\<lparr>diag_status = TURBOJS_IR_OK, diag_instruction_index = 0, diag_message = []\<rparr>"
  let ?s0 = "\<lparr>tg_registers = replicate (max 1 (unat (irf_register_count f))) tagged_undefined,
    tg_locals = replicate (max 1 (unat (irf_local_count f))) tagged_undefined, tg_pc = 0, tg_result = cell\<rparr>"
  let ?run = "limited_loop (tagged_in_code f) (tagged_body E H f args) (tagged_end TURBOJS_IR_EXECUTION_LIMIT)
    (tagged_end TURBOJS_IR_MISSING_RETURN) (tagged_step_limit f) ?s0"
  have "storage_inv f" "sites_resolve H f" "wf_function H f" using assms by (simp_all add: tagged_ok_def)
  moreover from this have "verify_loop (irf_instruction_count f) H f (irf_code f) 0 False = Inr (Inr True)"
    using verify_loop_wf [of "irf_code f" 0 "irf_instruction_count f" H f False] length_irf_code
    by (simp add: sites_resolve_def wf_function_def)
  ultimately have v: "TurboJS_IRVerify H (Some f) (Some ?d0) = Inr (fail (Some ?d0) TURBOJS_IR_OK 0 ''ok'')"
    by (simp add: verify_eq)
  have inv: "tagged_inv H f args cell ?s0"
    using assms by (auto simp: tagged_inv_def valid_values_def valid_value_def tagged_undefined_def)
  obtain st v' where r: "?run = Inr (st, v')" "tagged_post H cell (st, v')"
    using tagged_machine.run_contract [OF inv, of E "tagged_step_limit f"] by (cases ?run) auto
  have "TurboJS_IRExecuteTagged ok E H (Some f) (Some args) (length args) (Some cell) =
      (if ok then Inr (st, Some v') else Inr (TURBOJS_IR_OUT_OF_MEMORY, Some cell))"
    using assms v r(1) by (simp add: TurboJS_IRExecuteTagged_def tagged_ok_def fail_def)
  with r(2) show ?thesis by (cases ok) (simp_all add: tagged_post_def split: if_splits)
qed

definition tagged_identity :: TurboJSIRFunction where
  "tagged_identity = return_argument\<lparr>irf_instructions := Some
     [null_instruction\<lparr>ins_opcode := TURBOJS_IR_VALUE_ARGUMENT\<rparr>, null_instruction\<lparr>ins_opcode := TURBOJS_IR_VALUE_RETURN\<rparr>]\<rparr>"

theorem tagged_execution_safe_witness:
  "\<exists>st v. TurboJS_IRExecuteTagged True example_env empty_heap (Some tagged_identity)
      (Some [\<lparr>bv_tag = TURBOJS_BOXED_INT32, bv_as = 7\<rparr>]) 1 (Some tagged_undefined) = Inr (st, Some v) \<and>
    (if st = TURBOJS_IR_OK then valid_value empty_heap v else v = tagged_undefined)"
proof -
  have "tagged_ok empty_heap tagged_identity [\<lparr>bv_tag = TURBOJS_BOXED_INT32, bv_as = 7\<rparr>]"
    by (simp add: tagged_ok_def storage_inv_def null_function_def sites_resolve_def site_resolves_def tagged_identity_def
        return_argument_def irf_code_def null_instruction_def enum_sets wf_function_def wf_instruction_def callables_valid_def
        valid_values_def valid_value_def)
  from tagged_execution_safe [OF this, of True example_env tagged_undefined] show ?thesis by simp
qed

text \<open>
  C22. Converting a register to Boolean in place gives the wrong answer for a float that is not a
  number: the instruction first overwrites the tag of its destination, so when the destination
  is also the source, \<^verbatim>\<open>tagged_truthy\<close> sees a Boolean with the float's bits. A NaN is
  falsy (and converts to 0 into another register), but the in-place conversion stores 1.
\<close>

theorem to_boolean_in_place_wrong:
  assumes "ins_opcode ins = TURBOJS_IR_VALUE_TO_BOOLEAN" "ins_destination ins = ins_left ins"
    and "unat (ins_left ins) < length (tg_registers s)"
    and "tg_registers s ! unat (ins_left ins) = \<lparr>bv_tag = TURBOJS_BOXED_FLOAT64, bv_as = nan\<rparr>"
    and "\<not> env_f64_equal E nan nan" "nan \<noteq> 0"
  shows "tagged_truthy E H (Some (tg_registers s ! unat (ins_left ins))) = Inr False \<and>
    (\<exists>s'. tagged_step E H f args ins s = Inr (Next s') \<and>
          tg_registers s' ! unat (ins_left ins) = \<lparr>bv_tag = TURBOJS_BOXED_BOOLEAN, bv_as = 1\<rparr>)"
  using assms
  by (simp add: tagged_truthy_def tagged_step_def tg_get_def tg_set_def rd_def wr_def of_bool64_def)

theorem to_boolean_in_place_wrong_witness:
  "\<exists>s'. tagged_step (example_env\<lparr>env_f64_equal := \<lambda>a b. a = b \<and> a \<noteq> 9221120237041090560\<rparr>) empty_heap tagged_identity []
     (null_instruction\<lparr>ins_opcode := TURBOJS_IR_VALUE_TO_BOOLEAN\<rparr>)
     \<lparr>tg_registers = [\<lparr>bv_tag = TURBOJS_BOXED_FLOAT64, bv_as = 9221120237041090560\<rparr>], tg_locals = [], tg_pc = 0,
      tg_result = tagged_undefined\<rparr> = Inr (Next s') \<and>
     tg_registers s' ! 0 = \<lparr>bv_tag = TURBOJS_BOXED_BOOLEAN, bv_as = 1\<rparr>"
  using to_boolean_in_place_wrong [of "null_instruction\<lparr>ins_opcode := TURBOJS_IR_VALUE_TO_BOOLEAN\<rparr>"
      "\<lparr>tg_registers = [\<lparr>bv_tag = TURBOJS_BOXED_FLOAT64, bv_as = 9221120237041090560\<rparr>], tg_locals = [], tg_pc = 0,
      tg_result = tagged_undefined\<rparr>" 9221120237041090560 "example_env\<lparr>env_f64_equal := \<lambda>a b. a = b \<and> a \<noteq> 9221120237041090560\<rparr>"
      empty_heap tagged_identity "[]"]
  by (simp add: null_instruction_def)

end
