(* ===== verification/Deopt.thy ===== *)
theory Deopt
  imports IR_Interp IR_Tagged
begin

text \<open>
  Boxing of deoptimization frames, \<^verbatim>\<open>src/jit/ir/deopt_boxing.c\<close>: the machine values a
  native frame materialized are boxed according to their kind, heap references are rooted
  through the embedder's hooks, and destroying the boxed frame releases exactly those roots.
  The three Booleans of the boxing operation say whether its three allocations succeed.
\<close>

section \<open>Boxing one value\<close>

text \<open>The boxed value, the flag \<^verbatim>\<open>rooted\<close>, and the log of the hooks.\<close>

definition box_value ::
  "jit_env \<Rightarrow> i64 \<Rightarrow> TurboJSValueKind \<Rightarrow> TurboJSRootingHooks ptr \<Rightarrow> root_log \<Rightarrow> TurboJSBoxedValue \<times> bool \<times> root_log" where
  "box_value E value kind rooting log =
     (case kind of
        TURBOJS_VALUE_I32 \<Rightarrow> (\<lparr>bv_tag = TURBOJS_BOXED_INT32, bv_as = int32_bits value\<rparr>, False, log)
      | TURBOJS_VALUE_BOOLEAN \<Rightarrow> (\<lparr>bv_tag = TURBOJS_BOXED_BOOLEAN, bv_as = of_bool64 (value \<noteq> 0)\<rparr>, False, log)
      | TURBOJS_VALUE_I64 \<Rightarrow> (\<lparr>bv_tag = TURBOJS_BOXED_INT64, bv_as = value\<rparr>, False, log)
      | TURBOJS_VALUE_F64 \<Rightarrow> (\<lparr>bv_tag = TURBOJS_BOXED_FLOAT64, bv_as = value\<rparr>, False, log)
      | TURBOJS_VALUE_CALLABLE_REFERENCE \<Rightarrow>
          (\<lparr>bv_tag = TURBOJS_BOXED_CALLABLE_REFERENCE, bv_as = value\<rparr>, False, log)
      | TURBOJS_VALUE_HEAP_REFERENCE \<Rightarrow>
          if value \<noteq> 0 \<and> rooting \<noteq> None \<and> rh_retain (the rooting) \<noteq> 0 \<and> rh_release (the rooting) \<noteq> 0 then
            (case call_retain E (the rooting) value log of (rooted, log') \<Rightarrow>
               if rooted \<noteq> 0 then (\<lparr>bv_tag = TURBOJS_BOXED_HEAP_REFERENCE, bv_as = rooted\<rparr>, True, log')
               else (\<lparr>bv_tag = TURBOJS_BOXED_UNDEFINED, bv_as = rooted\<rparr>, False, log'))
          else if value \<noteq> 0 then (tagged_undefined, False, log)
          else (\<lparr>bv_tag = TURBOJS_BOXED_HEAP_REFERENCE, bv_as = value\<rparr>, False, log)
      | TURBOJS_VALUE_UNKNOWN \<Rightarrow> (tagged_undefined, False, log))"

section \<open>Frames\<close>

definition null_boxed_frame :: TurboJSBoxedDeoptFrame where
  "null_boxed_frame = \<lparr>bdf_bailout = \<lparr>bi_reason = TURBOJS_BAILOUT_NONE, bi_instruction_index = 0, bi_bytecode_offset = 0\<rparr>,
     bdf_register_count = 0, bdf_local_count = 0, bdf_stack_count = 0, bdf_live_register_mask = 0,
     bdf_live_local_mask = 0, bdf_registers = [], bdf_locals = [], bdf_stack = [],
     bdf_reference_register_mask = 0, bdf_reference_local_mask = 0, bdf_rooting = null_hooks\<rparr>"

text \<open>
  One of the two boxing loops of \<^verbatim>\<open>TurboJS_BoxDeoptFrameRooted\<close>, over the indices that are
  left; the accumulators are the boxed slots, the mask of rooted slots and the log.
\<close>

fun box_slots ::
  "jit_env \<Rightarrow> u64 \<Rightarrow> i64 list \<Rightarrow> TurboJSValueKind list \<Rightarrow> TurboJSRootingHooks ptr \<Rightarrow> nat list \<Rightarrow>
     TurboJSBoxedValue list \<times> u64 \<times> root_log \<Rightarrow> (TurboJSBoxedValue list \<times> u64 \<times> root_log) c" where
  "box_slots E bits vals kinds rooting [] acc = Inr acc"
| "box_slots E bits vals kinds rooting (i # is) (slots, refs, log) =
     (if 64 \<le> i then Inl Fault_shift
      else if bits AND push_bit i 1 \<noteq> 0 then
        bindc (rd vals i) (\<lambda>v. bindc (rd kinds i) (\<lambda>k.
          case box_value E v k rooting log of (boxed, rooted, log') \<Rightarrow>
            bindc (wr slots i boxed) (\<lambda>slots'.
              box_slots E bits vals kinds rooting is
                (slots', if rooted then refs OR push_bit i 1 else refs, log'))))
      else box_slots E bits vals kinds rooting is (slots, refs, log))"

text \<open>One of the two release loops of \<^verbatim>\<open>TurboJS_BoxedDeoptFrameDestroy\<close>.\<close>

fun release_slots ::
  "TurboJSRootingHooks \<Rightarrow> u64 \<Rightarrow> TurboJSBoxedValue list \<Rightarrow> nat list \<Rightarrow> root_log \<Rightarrow> root_log c" where
  "release_slots hooks refs slots [] log = Inr log"
| "release_slots hooks refs slots (i # is) log =
     (if 64 \<le> i then Inl Fault_shift
      else if refs AND push_bit i 1 \<noteq> 0 then
        bindc (rd slots i) (\<lambda>v. release_slots hooks refs slots is (call_release hooks (bv_as v) log))
      else release_slots hooks refs slots is log)"

definition destroy_boxed_frame :: "TurboJSBoxedDeoptFrame \<Rightarrow> root_log \<Rightarrow> (TurboJSBoxedDeoptFrame \<times> root_log) c" where
  "destroy_boxed_frame fr log =
     (if rh_release (bdf_rooting fr) \<noteq> 0
      then bindc (release_slots (bdf_rooting fr) (bdf_reference_register_mask fr) (bdf_registers fr)
                    [0..<unat (bdf_register_count fr)] log) (\<lambda>log1.
           bindc (release_slots (bdf_rooting fr) (bdf_reference_local_mask fr) (bdf_locals fr)
                    [0..<unat (bdf_local_count fr)] log1) (\<lambda>log2. Inr (null_boxed_frame, log2)))
      else Inr (null_boxed_frame, log))"

definition TurboJS_BoxedDeoptFrameDestroy ::
  "TurboJSBoxedDeoptFrame ptr \<Rightarrow> root_log \<Rightarrow> (TurboJSBoxedDeoptFrame ptr \<times> root_log) c" where
  "TurboJS_BoxedDeoptFrameDestroy frame log =
     (case frame of
        None \<Rightarrow> Inr (None, log)
      | Some fr \<Rightarrow> bindc (destroy_boxed_frame fr log) (\<lambda>(fr', log'). Inr (Some fr', log')))"

definition TurboJS_BoxDeoptFrameRooted ::
  "bool \<Rightarrow> bool \<Rightarrow> bool \<Rightarrow> jit_env \<Rightarrow> TurboJSDeoptFrame ptr \<Rightarrow> TurboJSRootingHooks ptr \<Rightarrow> TurboJSBoxedDeoptFrame ptr \<Rightarrow> root_log
     \<Rightarrow> (TurboJSIRStatus \<times> TurboJSBoxedDeoptFrame ptr \<times> root_log) c" where
  "TurboJS_BoxDeoptFrameRooted registers_ok locals_ok stack_ok E native_frame rooting boxed_frame log =
     (case (native_frame, boxed_frame) of
        (Some nf, Some _) \<Rightarrow>
          if rooting \<noteq> None \<and> (rh_retain (the rooting) = 0) \<noteq> (rh_release (the rooting) = 0)
          then Inr (TURBOJS_IR_INVALID_ARGUMENT, boxed_frame, log)
          else
            (let b0 = null_boxed_frame\<lparr>bdf_bailout := df_bailout nf, bdf_register_count := df_register_count nf,
                   bdf_local_count := df_local_count nf, bdf_stack_count := df_stack_count nf,
                   bdf_live_register_mask := df_live_register_mask nf, bdf_live_local_mask := df_live_local_mask nf,
                   bdf_rooting := (case rooting of None \<Rightarrow> null_hooks | Some h \<Rightarrow> h)\<rparr>;
                 zeroed = (\<lambda>n. replicate (unat (n :: u16)) tagged_undefined);
                 oom = (\<lambda>b. bindc (destroy_boxed_frame b log) (\<lambda>(b', log').
                          Inr (TURBOJS_IR_OUT_OF_MEMORY, Some b', log')))
             in if df_register_count nf \<noteq> 0 \<and> \<not> registers_ok then oom b0
                else let b1 = b0\<lparr>bdf_registers := zeroed (df_register_count nf)\<rparr>
                in if df_local_count nf \<noteq> 0 \<and> \<not> locals_ok then oom b1
                else let b2 = b1\<lparr>bdf_locals := zeroed (df_local_count nf)\<rparr>
                in if df_stack_count nf \<noteq> 0 \<and> \<not> stack_ok then oom b2
                else let b3 = b2\<lparr>bdf_stack := zeroed (df_stack_count nf)\<rparr>
                in bindc (box_slots E (df_materialized_register_mask nf) (df_register_values nf) (df_register_kinds nf)
                            rooting [0..<unat (df_register_count nf)] (bdf_registers b3, 0, log)) (\<lambda>(regs, rrefs, log1).
                   bindc (box_slots E (df_materialized_local_mask nf) (df_local_values nf) (df_local_kinds nf)
                            rooting [0..<unat (df_local_count nf)] (bdf_locals b3, 0, log1)) (\<lambda>(ls, lrefs, log2).
                     Inr (TURBOJS_IR_OK,
                          Some (b3\<lparr>bdf_registers := regs, bdf_reference_register_mask := rrefs,
                                   bdf_locals := ls, bdf_reference_local_mask := lrefs\<rparr>), log2))))
      | _ \<Rightarrow> Inr (TURBOJS_IR_INVALID_ARGUMENT, boxed_frame, log))"

definition TurboJS_BoxDeoptFrame ::
  "bool \<Rightarrow> bool \<Rightarrow> bool \<Rightarrow> jit_env \<Rightarrow> TurboJSDeoptFrame ptr \<Rightarrow> TurboJSBoxedDeoptFrame ptr \<Rightarrow> root_log
     \<Rightarrow> (TurboJSIRStatus \<times> TurboJSBoxedDeoptFrame ptr \<times> root_log) c" where
  "TurboJS_BoxDeoptFrame registers_ok locals_ok stack_ok E native_frame boxed_frame log =
     TurboJS_BoxDeoptFrameRooted registers_ok locals_ok stack_ok E native_frame None boxed_frame log"

text \<open>
  The slow-path callback is a parameter: it is given the boxed frame, the failed instruction and
  the initial result value, and yields a status and the result value.
\<close>

definition TurboJS_IRResumeWithSlowPath ::
  "bool \<Rightarrow> bool \<Rightarrow> bool \<Rightarrow> jit_env \<Rightarrow> jit_heap \<Rightarrow> TurboJSIRFunction ptr \<Rightarrow> TurboJSDeoptFrame ptr \<Rightarrow>
     (TurboJSBoxedDeoptFrame \<Rightarrow> TurboJSIRInstruction \<Rightarrow> TurboJSBoxedValue \<Rightarrow> TurboJSIRStatus \<times> TurboJSBoxedValue) ptr \<Rightarrow>
     i64 ptr \<Rightarrow> root_log \<Rightarrow> (TurboJSIRStatus \<times> i64 ptr \<times> root_log) c" where
  "TurboJS_IRResumeWithSlowPath registers_ok locals_ok stack_ok E H function native_frame slow_path result log =
     (case (function, native_frame, slow_path, result) of
        (Some f, Some nf, Some callback, Some _) \<Rightarrow>
          if irf_instruction_count f \<le> bi_instruction_index (df_bailout nf)
          then Inr (TURBOJS_IR_INVALID_ARGUMENT, result, log)
          else bindc (TurboJS_BoxDeoptFrame registers_ok locals_ok stack_ok E native_frame (Some null_boxed_frame) log)
            (\<lambda>(status, boxed, log1).
              if status \<noteq> TURBOJS_IR_OK then Inr (status, result, log1)
              else bindc (rd (irf_code f) (bi_instruction_index (df_bailout nf))) (\<lambda>failed.
                case callback (the boxed) failed tagged_undefined of (status, slow_result) \<Rightarrow>
                  bindc (if status = TURBOJS_IR_OK
                         then if bv_tag slow_result \<in> {TURBOJS_BOXED_INT32, TURBOJS_BOXED_INT64, TURBOJS_BOXED_BOOLEAN}
                              then TurboJS_IRResumeAfterBailout E H function native_frame (bv_as slow_result) result
                              else Inr (TURBOJS_IR_UNSUPPORTED, result)
                         else Inr (status, result)) (\<lambda>(status, result').
                  bindc (destroy_boxed_frame (the boxed) log1) (\<lambda>(_, log2). Inr (status, result', log2)))))
      | _ \<Rightarrow> Inr (TURBOJS_IR_INVALID_ARGUMENT, result, log))"

section \<open>Roots held by boxed slots\<close>

definition hooks_of :: "TurboJSRootingHooks ptr \<Rightarrow> TurboJSRootingHooks" where
  "hooks_of rooting = (case rooting of None \<Rightarrow> null_hooks | Some h \<Rightarrow> h)"

text \<open>The root slot \<open>i\<close> holds, counted at \<open>x\<close>.\<close>

definition slot_holds :: "TurboJSRootingHooks \<Rightarrow> u64 \<Rightarrow> TurboJSBoxedValue list \<Rightarrow> addr \<times> addr \<Rightarrow> nat \<Rightarrow> int" where
  "slot_holds hooks refs slots x i = (if bit refs i \<and> (rh_opaque hooks, bv_as (slots ! i)) = x then 1 else 0)"

definition boxed_of :: "jit_env \<Rightarrow> i64 \<Rightarrow> TurboJSValueKind \<Rightarrow> TurboJSRootingHooks ptr \<Rightarrow> TurboJSBoxedValue" where
  "boxed_of E v k rooting = fst (box_value E v k rooting [])"

definition rooted_of :: "jit_env \<Rightarrow> i64 \<Rightarrow> TurboJSValueKind \<Rightarrow> TurboJSRootingHooks ptr \<Rightarrow> bool" where
  "rooted_of E v k rooting = fst (snd (box_value E v k rooting []))"

lemma box_value_eq:
  "\<exists>log'. box_value E v k rooting log = (boxed_of E v k rooting, rooted_of E v k rooting, log') \<and>
     (\<forall>x. root_balance log' x = root_balance log x +
        (if rooted_of E v k rooting \<and> (rh_opaque (hooks_of rooting), bv_as (boxed_of E v k rooting)) = x then 1 else 0))"
  by (cases k)
     (auto simp: box_value_def boxed_of_def rooted_of_def call_retain_def Let_def root_balance_append hooks_of_def
       split: option.splits)

lemma rooted_needs_hooks: "rooted_of E v k rooting \<Longrightarrow> rh_release (hooks_of rooting) \<noteq> 0"
  by (cases k) (auto simp: rooted_of_def box_value_def hooks_of_def split: option.splits if_splits prod.splits)

lemma release_slots_ok:
  assumes "\<forall>i\<in>set is. i < 64 \<and> i < length slots"
  shows "\<exists>log'. release_slots hooks refs slots is log = Inr log' \<and>
    (\<forall>x. root_balance log' x = root_balance log x - (\<Sum>i\<leftarrow>is. slot_holds hooks refs slots x i))"
  using assms
proof (induction "is" arbitrary: log)
  case Nil
  then show ?case by simp
next
  case (Cons i "is")
  let ?log = "if bit refs i then call_release hooks (bv_as (slots ! i)) log else log"
  obtain log' where "release_slots hooks refs slots is ?log = Inr log'"
    and b: "\<forall>x. root_balance log' x = root_balance ?log x - (\<Sum>i\<leftarrow>is. slot_holds hooks refs slots x i)"
    using Cons.IH [of ?log] Cons.prems by auto
  moreover have "root_balance ?log x = root_balance log x - slot_holds hooks refs slots x i" for x
    by (simp add: call_release_def root_balance_append slot_holds_def)
  ultimately show ?case
    using Cons.prems by (auto simp: and_exp_eq_0_iff_not_bit rd_def)
qed

lemma box_slots_ok:
  assumes "distinct is" "\<forall>i\<in>set is. i < 64 \<and> i < length vals \<and> i < length kinds \<and> i < length slots \<and> \<not> bit refs i"
  shows "\<exists>slots' refs' log'. box_slots E bits vals kinds rooting is (slots, refs, log) = Inr (slots', refs', log') \<and>
    length slots' = length slots \<and>
    (\<forall>i. i \<notin> set is \<longrightarrow> slots' ! i = slots ! i \<and> bit refs' i = bit refs i) \<and>
    (\<forall>i\<in>set is. slots' ! i = (if bit bits i then boxed_of E (vals ! i) (kinds ! i) rooting else slots ! i) \<and>
       bit refs' i = (bit bits i \<and> rooted_of E (vals ! i) (kinds ! i) rooting)) \<and>
    (\<forall>x. root_balance log' x = root_balance log x + (\<Sum>i\<leftarrow>is. slot_holds (hooks_of rooting) refs' slots' x i))"
  using assms
proof (induction "is" arbitrary: slots refs log)
  case Nil
  then show ?case by simp
next
  case (Cons i "is")
  have i: "i < 64" "i < length vals" "i < length kinds" "i < length slots" "\<not> bit refs i" "i \<notin> set is"
    using Cons.prems by auto
  let ?v = "vals ! i" and ?k = "kinds ! i"
  show ?case
  proof (cases "bit bits i")
    case False
    obtain slots' refs' log' where IH: "box_slots E bits vals kinds rooting is (slots, refs, log) = Inr (slots', refs', log')"
      "length slots' = length slots" "\<forall>i. i \<notin> set is \<longrightarrow> slots' ! i = slots ! i \<and> bit refs' i = bit refs i"
      "\<forall>i\<in>set is. slots' ! i = (if bit bits i then boxed_of E (vals ! i) (kinds ! i) rooting else slots ! i) \<and>
         bit refs' i = (bit bits i \<and> rooted_of E (vals ! i) (kinds ! i) rooting)"
      "\<forall>x. root_balance log' x = root_balance log x + (\<Sum>i\<leftarrow>is. slot_holds (hooks_of rooting) refs' slots' x i)"
      using Cons.IH [of slots refs log] Cons.prems by auto
    have "box_slots E bits vals kinds rooting (i # is) (slots, refs, log) = Inr (slots', refs', log')"
      using IH(1) i False by (simp add: and_exp_eq_0_iff_not_bit)
    then show ?thesis
      using IH(2-5) i False by (auto simp: slot_holds_def)
  next
    case True
    obtain log1 where b: "box_value E ?v ?k rooting log = (boxed_of E ?v ?k rooting, rooted_of E ?v ?k rooting, log1)"
      "\<forall>x. root_balance log1 x = root_balance log x +
        (if rooted_of E ?v ?k rooting \<and> (rh_opaque (hooks_of rooting), bv_as (boxed_of E ?v ?k rooting)) = x then 1 else 0)"
      using box_value_eq by blast
    let ?slots = "slots[i := boxed_of E ?v ?k rooting]"
    let ?refs = "if rooted_of E ?v ?k rooting then refs OR push_bit i 1 else refs"
    have bits1: "bit ?refs j = (bit refs j \<or> j = i \<and> rooted_of E ?v ?k rooting)" for j
      using i(1) by (auto simp: bit_simps)
    obtain slots' refs' log' where IH: "box_slots E bits vals kinds rooting is (?slots, ?refs, log1) = Inr (slots', refs', log')"
      "length slots' = length ?slots" "\<forall>i. i \<notin> set is \<longrightarrow> slots' ! i = ?slots ! i \<and> bit refs' i = bit ?refs i"
      "\<forall>i\<in>set is. slots' ! i = (if bit bits i then boxed_of E (vals ! i) (kinds ! i) rooting else ?slots ! i) \<and>
         bit refs' i = (bit bits i \<and> rooted_of E (vals ! i) (kinds ! i) rooting)"
      "\<forall>x. root_balance log' x = root_balance log1 x + (\<Sum>i\<leftarrow>is. slot_holds (hooks_of rooting) refs' slots' x i)"
      using Cons.IH [of ?slots ?refs log1] Cons.prems bits1 by auto
    have e: "box_slots E bits vals kinds rooting (i # is) (slots, refs, log) = Inr (slots', refs', log')"
      using IH(1) i True b(1) by (simp add: and_exp_eq_0_iff_not_bit rd_def wr_def)
    have at_i: "slots' ! i = boxed_of E ?v ?k rooting" "bit refs' i = rooted_of E ?v ?k rooting"
      using IH(3) i bits1 by auto
    have "root_balance log1 x = root_balance log x + slot_holds (hooks_of rooting) refs' slots' x i" for x
      using b(2) [rule_format, of x] at_i by (simp add: slot_holds_def)
    then have bal: "root_balance log' x = root_balance log x + (\<Sum>i\<leftarrow>i # is. slot_holds (hooks_of rooting) refs' slots' x i)" for x
      using IH(5) [rule_format, of x] by simp
    have others: "slots' ! j = slots ! j \<and> bit refs' j = bit refs j" if "j \<notin> set (i # is)" for j
      using IH(3) bits1 that by auto
    have inside: "slots' ! j = (if bit bits j then boxed_of E (vals ! j) (kinds ! j) rooting else slots ! j) \<and>
         bit refs' j = (bit bits j \<and> rooted_of E (vals ! j) (kinds ! j) rooting)" if "j \<in> set (i # is)" for j
      using IH(4) at_i True i(6) that by (cases "j = i") auto
    show ?thesis using e IH(2) others inside bal by auto
  qed
qed

section \<open>Boxing a frame\<close>

definition frame_shape :: "TurboJSDeoptFrame \<Rightarrow> bool" where
  "frame_shape nf \<longleftrightarrow> unat (df_register_count nf) \<le> 64 \<and> unat (df_local_count nf) \<le> 64 \<and>
     unat (df_register_count nf) \<le> length (df_register_values nf) \<and> unat (df_register_count nf) \<le> length (df_register_kinds nf) \<and>
     unat (df_local_count nf) \<le> length (df_local_values nf) \<and> unat (df_local_count nf) \<le> length (df_local_kinds nf)"

definition hooks_consistent :: "TurboJSRootingHooks ptr \<Rightarrow> bool" where
  "hooks_consistent rooting \<longleftrightarrow> rooting = None \<or> (rh_retain (the rooting) = 0) = (rh_release (the rooting) = 0)"

text \<open>What the boxed array of registers (or locals) of a native frame is.\<close>

definition boxed_slots ::
  "jit_env \<Rightarrow> u16 \<Rightarrow> u64 \<Rightarrow> i64 list \<Rightarrow> TurboJSValueKind list \<Rightarrow> TurboJSRootingHooks ptr \<Rightarrow> TurboJSBoxedValue list" where
  "boxed_slots E n bits vals kinds rooting =
     map (\<lambda>i. if bit bits i then boxed_of E (vals ! i) (kinds ! i) rooting else tagged_undefined) [0..<unat n]"

definition frame_balanced :: "TurboJSBoxedDeoptFrame \<Rightarrow> root_log \<Rightarrow> root_log \<Rightarrow> bool" where
  "frame_balanced b log0 log1 \<longleftrightarrow>
     (\<exists>log2. destroy_boxed_frame b log1 = Inr (null_boxed_frame, log2) \<and> (\<forall>x. root_balance log2 x = root_balance log0 x))"

definition rooted_when_escaping :: "TurboJSBoxedValue list \<Rightarrow> u64 \<Rightarrow> bool" where
  "rooted_when_escaping slots refs \<longleftrightarrow>
     (\<forall>i<length slots. bv_tag (slots ! i) = TURBOJS_BOXED_HEAP_REFERENCE \<longrightarrow> bv_as (slots ! i) \<noteq> 0 \<longrightarrow> bit refs i)"

lemma box_array_ok:
  assumes "unat n \<le> 64" "unat n \<le> length vals" "unat n \<le> length kinds"
  shows "\<exists>slots refs log'. box_slots E bits vals kinds rooting [0..<unat n] (replicate (unat n) tagged_undefined, 0, log) =
      Inr (slots, refs, log') \<and>
    slots = boxed_slots E n bits vals kinds rooting \<and>
    (\<forall>i<unat n. bit refs i = (bit bits i \<and> rooted_of E (vals ! i) (kinds ! i) rooting)) \<and>
    (\<forall>x. root_balance log' x = root_balance log x + (\<Sum>i\<leftarrow>[0..<unat n]. slot_holds (hooks_of rooting) refs slots x i))"
proof -
  have "\<forall>i\<in>set [0..<unat n]. i < 64 \<and> i < length vals \<and> i < length kinds \<and>
      i < length (replicate (unat n) tagged_undefined) \<and> \<not> bit (0 :: u64) i"
    using assms by auto
  from box_slots_ok [OF distinct_upt this, of E bits rooting log] obtain slots refs log' where
    *: "box_slots E bits vals kinds rooting [0..<unat n] (replicate (unat n) tagged_undefined, 0, log) = Inr (slots, refs, log')"
      "length slots = unat n"
      "\<forall>i\<in>set [0..<unat n]. slots ! i = (if bit bits i then boxed_of E (vals ! i) (kinds ! i) rooting
           else replicate (unat n) tagged_undefined ! i) \<and> bit refs i = (bit bits i \<and> rooted_of E (vals ! i) (kinds ! i) rooting)"
      "\<forall>x. root_balance log' x = root_balance log x + (\<Sum>i\<leftarrow>[0..<unat n]. slot_holds (hooks_of rooting) refs slots x i)"
    by auto
  have "slots = boxed_slots E n bits vals kinds rooting"
    using *(2,3) by (auto simp: boxed_slots_def list_eq_iff_nth_eq)
  with * show ?thesis by auto
qed

lemma no_roots_without_hooks:
  assumes "rh_release (hooks_of rooting) = 0"
    and "\<forall>i<n. bit refs i = (bit bits i \<and> rooted_of E (vals ! i) (kinds ! i) rooting)"
  shows "(\<Sum>i\<leftarrow>[0..<n]. slot_holds (hooks_of rooting) refs slots x i) = 0"
proof -
  have zero: "map (slot_holds (hooks_of rooting) refs slots x) [0..<n] = map (\<lambda>_. 0) [0..<n]"
    using assms rooted_needs_hooks by (auto simp: slot_holds_def)
  show ?thesis by (simp only: zero sum_list_0)
qed

lemma boxed_escape:
  assumes "\<forall>i<unat n. bit refs i = (bit bits i \<and> rooted_of E (vals ! i) (kinds ! i) rooting)"
  shows "rooted_when_escaping (boxed_slots E n bits vals kinds rooting) refs"
proof -
  have "bv_tag (boxed_of E v k rooting) = TURBOJS_BOXED_HEAP_REFERENCE \<Longrightarrow> bv_as (boxed_of E v k rooting) \<noteq> 0 \<Longrightarrow>
      rooted_of E v k rooting" for v k
    by (cases k) (auto simp: boxed_of_def rooted_of_def box_value_def tagged_undefined_def split: if_splits prod.splits)
  then show ?thesis
    using assms by (auto simp: rooted_when_escaping_def boxed_slots_def tagged_undefined_def)
qed

lemma destroy_unrooted:
  assumes "bdf_reference_register_mask b = 0" "bdf_reference_local_mask b = 0"
    and "unat (bdf_register_count b) \<le> 64" "unat (bdf_local_count b) \<le> 64"
  shows "destroy_boxed_frame b log = Inr (null_boxed_frame, log)"
proof -
  have "\<forall>i\<in>set is. i < 64 \<Longrightarrow> release_slots h 0 slots is log = Inr log" for h slots "is" log
    by (induction "is") simp_all
  then show ?thesis using assms by (simp add: destroy_boxed_frame_def)
qed

lemma box_frame_ok:
  assumes shape: "frame_shape nf" and hooks: "hooks_consistent rooting"
    and ok: "df_register_count nf \<noteq> 0 \<longrightarrow> a" "df_local_count nf \<noteq> 0 \<longrightarrow> b" "df_stack_count nf \<noteq> 0 \<longrightarrow> c"
  shows "\<exists>bf log'. TurboJS_BoxDeoptFrameRooted a b c E (Some nf) rooting (Some b0) log = Inr (TURBOJS_IR_OK, Some bf, log') \<and>
    bdf_registers bf = boxed_slots E (df_register_count nf) (df_materialized_register_mask nf) (df_register_values nf) (df_register_kinds nf) rooting \<and>
    bdf_locals bf = boxed_slots E (df_local_count nf) (df_materialized_local_mask nf) (df_local_values nf) (df_local_kinds nf) rooting \<and>
    bdf_bailout bf = df_bailout nf \<and>
    rooted_when_escaping (bdf_registers bf) (bdf_reference_register_mask bf) \<and>
    rooted_when_escaping (bdf_locals bf) (bdf_reference_local_mask bf) \<and>
    frame_balanced bf log log'"
proof -
  let ?n = "df_register_count nf" and ?m = "df_local_count nf"
  have shape_parts: "unat ?n \<le> 64" "unat ?n \<le> length (df_register_values nf)" "unat ?n \<le> length (df_register_kinds nf)"
    "unat ?m \<le> 64" "unat ?m \<le> length (df_local_values nf)" "unat ?m \<le> length (df_local_kinds nf)"
    using shape by (simp_all add: frame_shape_def)
  obtain regs rrefs log1 where r: "box_slots E (df_materialized_register_mask nf) (df_register_values nf) (df_register_kinds nf) rooting
      [0..<unat ?n] (replicate (unat ?n) tagged_undefined, 0, log) = Inr (regs, rrefs, log1)"
    "regs = boxed_slots E ?n (df_materialized_register_mask nf) (df_register_values nf) (df_register_kinds nf) rooting"
    "\<forall>i<unat ?n. bit rrefs i = (bit (df_materialized_register_mask nf) i \<and>
        rooted_of E (df_register_values nf ! i) (df_register_kinds nf ! i) rooting)"
    "\<forall>x. root_balance log1 x = root_balance log x + (\<Sum>i\<leftarrow>[0..<unat ?n]. slot_holds (hooks_of rooting) rrefs regs x i)"
    using box_array_ok [OF shape_parts(1-3)] by blast
  obtain ls lrefs log2 where l: "box_slots E (df_materialized_local_mask nf) (df_local_values nf) (df_local_kinds nf) rooting
      [0..<unat ?m] (replicate (unat ?m) tagged_undefined, 0, log1) = Inr (ls, lrefs, log2)"
    "ls = boxed_slots E ?m (df_materialized_local_mask nf) (df_local_values nf) (df_local_kinds nf) rooting"
    "\<forall>i<unat ?m. bit lrefs i = (bit (df_materialized_local_mask nf) i \<and>
        rooted_of E (df_local_values nf ! i) (df_local_kinds nf ! i) rooting)"
    "\<forall>x. root_balance log2 x = root_balance log1 x + (\<Sum>i\<leftarrow>[0..<unat ?m]. slot_holds (hooks_of rooting) lrefs ls x i)"
    using box_array_ok [OF shape_parts(4-6)] by blast
  let ?bf = "null_boxed_frame\<lparr>bdf_bailout := df_bailout nf, bdf_register_count := ?n, bdf_local_count := ?m,
      bdf_stack_count := df_stack_count nf, bdf_live_register_mask := df_live_register_mask nf,
      bdf_live_local_mask := df_live_local_mask nf, bdf_rooting := hooks_of rooting,
      bdf_stack := replicate (unat (df_stack_count nf)) tagged_undefined,
      bdf_registers := regs, bdf_reference_register_mask := rrefs, bdf_locals := ls, bdf_reference_local_mask := lrefs\<rparr>"
  have box: "TurboJS_BoxDeoptFrameRooted a b c E (Some nf) rooting (Some b0) log = Inr (TURBOJS_IR_OK, Some ?bf, log2)"
    using ok hooks r(1) l(1)
    by (auto simp: TurboJS_BoxDeoptFrameRooted_def hooks_consistent_def Let_def hooks_of_def null_boxed_frame_def split: option.splits)
  have "frame_balanced ?bf log log2"
  proof (cases "rh_release (hooks_of rooting) = 0")
    case True
    then show ?thesis
      using r(4) l(4) no_roots_without_hooks [OF True r(3)] no_roots_without_hooks [OF True l(3)]
      by (simp add: frame_balanced_def destroy_boxed_frame_def)
  next
    case False
    have "\<forall>i\<in>set [0..<unat ?n]. i < 64 \<and> i < length regs" "\<forall>i\<in>set [0..<unat ?m]. i < 64 \<and> i < length ls"
      using shape r(2) l(2) by (auto simp: frame_shape_def boxed_slots_def)
    then obtain log3 log4 where
      "release_slots (hooks_of rooting) rrefs regs [0..<unat ?n] log2 = Inr log3"
      "\<forall>x. root_balance log3 x = root_balance log2 x - (\<Sum>i\<leftarrow>[0..<unat ?n]. slot_holds (hooks_of rooting) rrefs regs x i)"
      "release_slots (hooks_of rooting) lrefs ls [0..<unat ?m] log3 = Inr log4"
      "\<forall>x. root_balance log4 x = root_balance log3 x - (\<Sum>i\<leftarrow>[0..<unat ?m]. slot_holds (hooks_of rooting) lrefs ls x i)"
      by (metis release_slots_ok)
    with False r(4) l(4) show ?thesis by (simp add: frame_balanced_def destroy_boxed_frame_def)
  qed
  moreover have "rooted_when_escaping regs rrefs" "rooted_when_escaping ls lrefs"
    using boxed_escape r(2,3) l(2,3) by simp_all
  ultimately show ?thesis using box r(2) l(2) by (intro exI [of _ ?bf] exI [of _ log2]) simp
qed

lemma box_frame_oom:
  assumes "frame_shape nf" "hooks_consistent rooting"
    and "\<not> ((df_register_count nf \<noteq> 0 \<longrightarrow> a) \<and> (df_local_count nf \<noteq> 0 \<longrightarrow> b) \<and> (df_stack_count nf \<noteq> 0 \<longrightarrow> c))"
  shows "TurboJS_BoxDeoptFrameRooted a b c E (Some nf) rooting (Some b0) log =
    Inr (TURBOJS_IR_OUT_OF_MEMORY, Some null_boxed_frame, log)"
  using assms
  by (auto simp: TurboJS_BoxDeoptFrameRooted_def hooks_consistent_def Let_def destroy_unrooted frame_shape_def null_boxed_frame_def)

section \<open>Properties\<close>

text \<open>
  C23. Boxing a deoptimization frame keeps every value and every root. For a frame with at most 64
  registers and locals and consistent hooks, whichever allocations fail, boxing returns without
  a fault; on success each materialized slot is the boxed value of its kind and every other slot
  is undefined, every non-null heap reference that escapes into the boxed frame is rooted; and
  in all cases destroying the boxed frame afterwards brings the balance of every root back to
  what it was before.
\<close>

theorem deopt_boxing_sound:
  assumes "frame_shape nf" "hooks_consistent rooting"
  shows "\<exists>st bf log'. TurboJS_BoxDeoptFrameRooted a b c E (Some nf) rooting (Some b0) log = Inr (st, Some bf, log') \<and>
    frame_balanced bf log log' \<and>
    (if st = TURBOJS_IR_OK
     then bdf_registers bf = boxed_slots E (df_register_count nf) (df_materialized_register_mask nf) (df_register_values nf) (df_register_kinds nf) rooting \<and>
          bdf_locals bf = boxed_slots E (df_local_count nf) (df_materialized_local_mask nf) (df_local_values nf) (df_local_kinds nf) rooting \<and>
          rooted_when_escaping (bdf_registers bf) (bdf_reference_register_mask bf) \<and>
          rooted_when_escaping (bdf_locals bf) (bdf_reference_local_mask bf)
     else st = TURBOJS_IR_OUT_OF_MEMORY \<and> bf = null_boxed_frame)"
proof (cases "(df_register_count nf \<noteq> 0 \<longrightarrow> a) \<and> (df_local_count nf \<noteq> 0 \<longrightarrow> b) \<and> (df_stack_count nf \<noteq> 0 \<longrightarrow> c)")
  case True
  then obtain bf log' where "TurboJS_BoxDeoptFrameRooted a b c E (Some nf) rooting (Some b0) log = Inr (TURBOJS_IR_OK, Some bf, log')"
    "bdf_registers bf = boxed_slots E (df_register_count nf) (df_materialized_register_mask nf) (df_register_values nf) (df_register_kinds nf) rooting"
    "bdf_locals bf = boxed_slots E (df_local_count nf) (df_materialized_local_mask nf) (df_local_values nf) (df_local_kinds nf) rooting"
    "rooted_when_escaping (bdf_registers bf) (bdf_reference_register_mask bf)"
    "rooted_when_escaping (bdf_locals bf) (bdf_reference_local_mask bf)" "frame_balanced bf log log'"
    using box_frame_ok [OF assms, of a b c E b0 log] by blast
  then show ?thesis by (intro exI [of _ TURBOJS_IR_OK] exI [of _ bf] exI [of _ log']) simp
next
  case False
  have "frame_balanced null_boxed_frame log log"
    by (simp add: frame_balanced_def destroy_boxed_frame_def null_boxed_frame_def null_hooks_def)
  then show ?thesis
    using box_frame_oom [OF assms False, of E b0 log] by simp
qed

definition example_frame :: TurboJSDeoptFrame where
  "example_frame = \<lparr>df_bailout = \<lparr>bi_reason = TURBOJS_BAILOUT_INTEGER_OVERFLOW, bi_instruction_index = 0, bi_bytecode_offset = 0\<rparr>,
     df_register_count = 1, df_local_count = 0, df_stack_count = 0, df_materialized_register_mask = 1,
     df_materialized_local_mask = 0, df_live_register_mask = 1, df_live_local_mask = 0,
     df_register_values = replicate 64 9, df_local_values = replicate 64 0,
     df_register_kinds = replicate 64 TURBOJS_VALUE_HEAP_REFERENCE, df_local_kinds = replicate 64 TURBOJS_VALUE_UNKNOWN\<rparr>"

theorem deopt_boxing_sound_witness:
  "\<exists>st bf log'. TurboJS_BoxDeoptFrameRooted True True True example_env (Some example_frame)
      (Some \<lparr>rh_opaque = 1, rh_retain = 2, rh_release = 3\<rparr>) (Some null_boxed_frame) [] = Inr (st, Some bf, log') \<and>
      frame_balanced bf [] log'"
proof -
  have "frame_shape example_frame" "hooks_consistent (Some \<lparr>rh_opaque = 1, rh_retain = 2, rh_release = 3\<rparr>)"
    by (simp_all add: frame_shape_def example_frame_def hooks_consistent_def)
  from deopt_boxing_sound [OF this, of True True True example_env null_boxed_frame "[]"] show ?thesis by blast
qed

text \<open>
  The slow path resumes the interpreter with the callback's answer: when the frame can be
  boxed and the callback returns OK with an integer or a Boolean, resuming with the slow path is
  resuming after the bailout with that value, no root is retained or released on the way, and a
  value of another kind is refused.
\<close>

lemma slow_path_resumes:
  assumes "frame_shape nf" "storage_inv f" "bi_instruction_index (df_bailout nf) < irf_instruction_count f"
    and "\<And>bf. callback bf (irf_code f ! bi_instruction_index (df_bailout nf)) tagged_undefined = (TURBOJS_IR_OK, v)"
  shows "TurboJS_IRResumeWithSlowPath True True True E H (Some f) (Some nf) (Some callback) (Some cell) log =
    (if bv_tag v \<in> {TURBOJS_BOXED_INT32, TURBOJS_BOXED_INT64, TURBOJS_BOXED_BOOLEAN}
     then bindc (TurboJS_IRResumeAfterBailout E H (Some f) (Some nf) (bv_as v) (Some cell)) (\<lambda>(st, r). Inr (st, r, log))
     else Inr (TURBOJS_IR_UNSUPPORTED, Some cell, log))"
proof -
  have hooks: "hooks_consistent None" by (simp add: hooks_consistent_def)
  obtain bf where bf: "TurboJS_BoxDeoptFrameRooted True True True E (Some nf) None (Some null_boxed_frame) log =
      Inr (TURBOJS_IR_OK, Some bf, log)" "destroy_boxed_frame bf log = Inr (null_boxed_frame, log)"
  proof -
    have none: "box_slots E bits vals kinds None is acc = Inr (slots, refs, log') \<Longrightarrow> log' = snd (snd acc)"
      for bits vals kinds "is" acc slots refs log'
      by (induction "is" arbitrary: acc)
         (auto simp: bindc_Inr_iff box_value_def split: if_splits prod.splits TurboJSValueKind.splits)
    obtain bf log' where b: "TurboJS_BoxDeoptFrameRooted True True True E (Some nf) None (Some null_boxed_frame) log =
        Inr (TURBOJS_IR_OK, Some bf, log')"
      using box_frame_ok [OF assms(1) hooks, of True True True E null_boxed_frame log] by auto
    then have "bdf_rooting bf = null_hooks" "log' = log"
      by (auto simp: TurboJS_BoxDeoptFrameRooted_def Let_def bindc_Inr_iff null_boxed_frame_def dest!: none)
    with b that [of bf] show thesis by (simp add: destroy_boxed_frame_def null_hooks_def)
  qed
  have "bi_instruction_index (df_bailout nf) < length (irf_code f)"
    using assms(3) length_irf_code [OF assms(2)] by simp
  then show ?thesis
    using assms(3,4) bf
    by (auto simp: TurboJS_IRResumeWithSlowPath_def TurboJS_BoxDeoptFrame_def rd_def bindc_def split: sum.splits prod.splits)
qed

end
