(* ===== verification/Feedback.thy ===== *)
theory Feedback
  imports Prelude
begin

text \<open>
  Type feedback and call-target feedback, \<^verbatim>\<open>src/jit/runtime/type_feedback.c\<close> and
  \<^verbatim>\<open>src/jit/runtime/call_feedback.c\<close>: saturating counters, the set of observed types
  as a bit mask, the optimization policy, and the inline-cache state machine of a call site
  (uninitialized, monomorphic, polymorphic with up to four targets, megamorphic).
\<close>

unbundle bit_operations_syntax

section \<open>Type feedback\<close>

abbreviation TURBOJS_FEEDBACK_MAX_ARGUMENTS :: nat where
  "TURBOJS_FEEDBACK_MAX_ARGUMENTS \<equiv> 16"

abbreviation TURBOJS_FEEDBACK_INT32 :: u32 where
  "TURBOJS_FEEDBACK_INT32 \<equiv> 1"

abbreviation TURBOJS_FEEDBACK_INT64 :: u32 where
  "TURBOJS_FEEDBACK_INT64 \<equiv> 2"

record TurboJSFeedbackSlot =
  fs_observed_types :: u32
  fs_observations :: u32
  fs_transitions :: u32

record TurboJSFeedbackVector =
  fv_arguments :: "TurboJSFeedbackSlot list"
  fv_result :: TurboJSFeedbackSlot
  fv_argument_count :: u16
  fv_execution_count :: u32
  fv_bailout_count :: u32
  fv_exception_count :: u32

definition null_slot :: TurboJSFeedbackSlot where
  "null_slot = \<lparr>fs_observed_types = 0, fs_observations = 0, fs_transitions = 0\<rparr>"

definition sat_inc :: "u32 \<Rightarrow> u32" where
  "sat_inc v = (if unat v \<noteq> UINT32_MAX then v + 1 else v)"

definition observe :: "TurboJSFeedbackSlot \<Rightarrow> u32 \<Rightarrow> TurboJSFeedbackSlot" where
  "observe slot type =
     (if type = 0 then slot
      else
        (let before = fs_observed_types slot;
             after = before OR type
         in slot\<lparr>fs_observed_types := after, fs_observations := sat_inc (fs_observations slot),
                 fs_transitions := (if before \<noteq> 0 \<and> before \<noteq> after then sat_inc (fs_transitions slot)
                                    else fs_transitions slot)\<rparr>))"

definition TurboJS_FeedbackClassifyInteger :: "i64 \<Rightarrow> u32" where
  "TurboJS_FeedbackClassifyInteger v =
     (if INT32_MIN \<le> sint v \<and> sint v \<le> INT32_MAX then TURBOJS_FEEDBACK_INT32 else TURBOJS_FEEDBACK_INT64)"

definition TurboJS_FeedbackVectorInit :: "TurboJSFeedbackVector ptr \<Rightarrow> u16 \<Rightarrow> TurboJSFeedbackVector ptr" where
  "TurboJS_FeedbackVectorInit vector argument_count =
     map_option (\<lambda>_. \<lparr>fv_arguments = replicate TURBOJS_FEEDBACK_MAX_ARGUMENTS null_slot, fv_result = null_slot,
       fv_argument_count = (if TURBOJS_FEEDBACK_MAX_ARGUMENTS < unat argument_count
                            then word_of_nat TURBOJS_FEEDBACK_MAX_ARGUMENTS else argument_count),
       fv_execution_count = 0, fv_bailout_count = 0, fv_exception_count = 0\<rparr>) vector"

text \<open>The loop over the arguments, from index \<open>i\<close>; the first argument is the number of rounds left.\<close>

fun observe_arguments :: "nat \<Rightarrow> nat \<Rightarrow> i64 list \<Rightarrow> TurboJSFeedbackSlot list \<Rightarrow> TurboJSFeedbackSlot list c" where
  "observe_arguments 0 i arguments slots = Inr slots"
| "observe_arguments (Suc n) i arguments slots =
     bindc (rd arguments i) (\<lambda>v.
     bindc (rd slots i) (\<lambda>slot.
     bindc (wr slots i (observe slot (TurboJS_FeedbackClassifyInteger v)))
       (observe_arguments n (i + 1) arguments)))"

definition TurboJS_FeedbackObserveCall ::
  "TurboJSFeedbackVector ptr \<Rightarrow> i64 list ptr \<Rightarrow> nat \<Rightarrow> TurboJSFeedbackVector ptr c" where
  "TurboJS_FeedbackObserveCall vector arguments argument_count =
     (case vector of
        None \<Rightarrow> Inr None
      | Some v \<Rightarrow>
          (let v1 = v\<lparr>fv_execution_count := sat_inc (fv_execution_count v)\<rparr>
           in case arguments of
                None \<Rightarrow> Inr (Some v1)
              | Some args \<Rightarrow>
                  bindc (observe_arguments (min argument_count (unat (fv_argument_count v))) 0 args (fv_arguments v))
                    (\<lambda>slots. Inr (Some (v1\<lparr>fv_arguments := slots\<rparr>)))))"

definition TurboJS_FeedbackObserveResult :: "TurboJSFeedbackVector ptr \<Rightarrow> i64 \<Rightarrow> TurboJSFeedbackVector ptr" where
  "TurboJS_FeedbackObserveResult vector result =
     map_option (\<lambda>v. v\<lparr>fv_result := observe (fv_result v) (TurboJS_FeedbackClassifyInteger result)\<rparr>) vector"

definition TurboJS_FeedbackObserveBailout :: "TurboJSFeedbackVector ptr \<Rightarrow> TurboJSFeedbackVector ptr" where
  "TurboJS_FeedbackObserveBailout vector =
     map_option (\<lambda>v. v\<lparr>fv_bailout_count := sat_inc (fv_bailout_count v)\<rparr>) vector"

definition TurboJS_FeedbackObserveException :: "TurboJSFeedbackVector ptr \<Rightarrow> TurboJSFeedbackVector ptr" where
  "TurboJS_FeedbackObserveException vector =
     map_option (\<lambda>v. v\<lparr>fv_exception_count := sat_inc (fv_exception_count v)\<rparr>) vector"

definition TurboJS_FeedbackSlotIsStable :: "TurboJSFeedbackSlot ptr \<Rightarrow> bool" where
  "TurboJS_FeedbackSlotIsStable slot =
     (case slot of
        None \<Rightarrow> False
      | Some s \<Rightarrow> fs_observations s \<noteq> 0 \<and> fs_observed_types s AND (fs_observed_types s - 1) = 0)"

datatype TurboJSOptimizationDecision =
    TURBOJS_OPTIMIZATION_ELIGIBLE | TURBOJS_OPTIMIZATION_TOO_COLD | TURBOJS_OPTIMIZATION_UNSTABLE_ARGUMENTS
  | TURBOJS_OPTIMIZATION_UNSTABLE_RESULT | TURBOJS_OPTIMIZATION_TOO_MANY_BAILOUTS
  | TURBOJS_OPTIMIZATION_TOO_MANY_EXCEPTIONS | TURBOJS_OPTIMIZATION_ARGUMENT_LIMIT

record TurboJSOptimizationPolicy =
  op_minimum_executions :: u32
  op_maximum_bailouts :: u32
  op_maximum_exceptions :: u32
  op_require_stable_arguments :: bool
  op_require_stable_result :: bool

record TurboJSOptimizationReport =
  or_decision :: TurboJSOptimizationDecision
  or_unstable_argument :: u16
  or_executions :: u32
  or_bailouts :: u32
  or_exceptions :: u32

definition TurboJS_OptimizationPolicyDefault :: TurboJSOptimizationPolicy where
  "TurboJS_OptimizationPolicyDefault = \<lparr>op_minimum_executions = 1000, op_maximum_bailouts = 3,
     op_maximum_exceptions = 1, op_require_stable_arguments = True, op_require_stable_result = True\<rparr>"

text \<open>The search for the first unstable argument, from index \<open>i\<close>.\<close>

fun first_unstable :: "nat \<Rightarrow> nat \<Rightarrow> TurboJSFeedbackSlot list \<Rightarrow> nat option c" where
  "first_unstable 0 i slots = Inr None"
| "first_unstable (Suc n) i slots =
     bindc (rd slots i) (\<lambda>slot.
       if \<not> TurboJS_FeedbackSlotIsStable (Some slot) then Inr (Some i) else first_unstable n (i + 1) slots)"

definition TurboJS_EvaluateOptimization ::
  "TurboJSFeedbackVector ptr \<Rightarrow> TurboJSOptimizationPolicy ptr \<Rightarrow> TurboJSOptimizationReport c" where
  "TurboJS_EvaluateOptimization vector policy =
     (let r0 = \<lparr>or_decision = TURBOJS_OPTIMIZATION_ELIGIBLE, or_unstable_argument = 65535, or_executions = 0,
                or_bailouts = 0, or_exceptions = 0\<rparr>
      in case vector of
           None \<Rightarrow> Inr (r0\<lparr>or_decision := TURBOJS_OPTIMIZATION_TOO_COLD\<rparr>)
         | Some v \<Rightarrow>
             (let p = (case policy of None \<Rightarrow> TurboJS_OptimizationPolicyDefault | Some q \<Rightarrow> q);
                  r = r0\<lparr>or_executions := fv_execution_count v, or_bailouts := fv_bailout_count v,
                         or_exceptions := fv_exception_count v\<rparr>
              in bindc
                   (if TURBOJS_FEEDBACK_MAX_ARGUMENTS < unat (fv_argument_count v)
                    then Inr (r\<lparr>or_decision := TURBOJS_OPTIMIZATION_ARGUMENT_LIMIT\<rparr>)
                    else if fv_execution_count v < op_minimum_executions p
                    then Inr (r\<lparr>or_decision := TURBOJS_OPTIMIZATION_TOO_COLD\<rparr>)
                    else if op_maximum_bailouts p < fv_bailout_count v
                    then Inr (r\<lparr>or_decision := TURBOJS_OPTIMIZATION_TOO_MANY_BAILOUTS\<rparr>)
                    else if op_maximum_exceptions p < fv_exception_count v
                    then Inr (r\<lparr>or_decision := TURBOJS_OPTIMIZATION_TOO_MANY_EXCEPTIONS\<rparr>)
                    else if op_require_stable_arguments p
                    then bindc (first_unstable (unat (fv_argument_count v)) 0 (fv_arguments v)) (\<lambda>u.
                           case u of
                             None \<Rightarrow> Inr r
                           | Some i \<Rightarrow> Inr (r\<lparr>or_decision := TURBOJS_OPTIMIZATION_UNSTABLE_ARGUMENTS,
                                             or_unstable_argument := word_of_nat i\<rparr>))
                    else Inr r)
                   (\<lambda>r. if or_decision r = TURBOJS_OPTIMIZATION_ELIGIBLE \<and> op_require_stable_result p \<and>
                           \<not> TurboJS_FeedbackSlotIsStable (Some (fv_result v))
                        then Inr (r\<lparr>or_decision := TURBOJS_OPTIMIZATION_UNSTABLE_RESULT\<rparr>) else Inr r)))"

fun TurboJS_OptimizationDecisionName :: "TurboJSOptimizationDecision \<Rightarrow> string" where
  "TurboJS_OptimizationDecisionName TURBOJS_OPTIMIZATION_ELIGIBLE = ''eligible''"
| "TurboJS_OptimizationDecisionName TURBOJS_OPTIMIZATION_TOO_COLD = ''too-cold''"
| "TurboJS_OptimizationDecisionName TURBOJS_OPTIMIZATION_UNSTABLE_ARGUMENTS = ''unstable-arguments''"
| "TurboJS_OptimizationDecisionName TURBOJS_OPTIMIZATION_UNSTABLE_RESULT = ''unstable-result''"
| "TurboJS_OptimizationDecisionName TURBOJS_OPTIMIZATION_TOO_MANY_BAILOUTS = ''too-many-bailouts''"
| "TurboJS_OptimizationDecisionName TURBOJS_OPTIMIZATION_TOO_MANY_EXCEPTIONS = ''too-many-exceptions''"
| "TurboJS_OptimizationDecisionName TURBOJS_OPTIMIZATION_ARGUMENT_LIMIT = ''argument-limit''"

section \<open>Call-target feedback\<close>

abbreviation TURBOJS_CALL_FEEDBACK_MAX_TARGETS :: nat where
  "TURBOJS_CALL_FEEDBACK_MAX_TARGETS \<equiv> 4"

datatype TurboJSCallFeedbackState =
    TURBOJS_CALL_FEEDBACK_UNINITIALIZED | TURBOJS_CALL_FEEDBACK_MONOMORPHIC
  | TURBOJS_CALL_FEEDBACK_POLYMORPHIC | TURBOJS_CALL_FEEDBACK_MEGAMORPHIC

record TurboJSCallFeedbackTarget =
  ct_target_identity :: u64
  ct_hits :: u32

record TurboJSCallFeedbackSlot =
  cf_targets :: "TurboJSCallFeedbackTarget list"
  cf_observations :: u64
  cf_misses :: u32
  cf_generation :: u32
  cf_state :: TurboJSCallFeedbackState
  cf_target_count :: u8

definition saturating_increment_u32 :: "u32 \<Rightarrow> u32" where
  "saturating_increment_u32 v = (if unat v = UINT32_MAX then v else v + 1)"

definition saturating_increment_u64 :: "u64 \<Rightarrow> u64" where
  "saturating_increment_u64 v = (if unat v = SIZE_MAX then v else v + 1)"

definition null_call_feedback :: TurboJSCallFeedbackSlot where
  "null_call_feedback = \<lparr>cf_targets = replicate TURBOJS_CALL_FEEDBACK_MAX_TARGETS \<lparr>ct_target_identity = 0, ct_hits = 0\<rparr>,
     cf_observations = 0, cf_misses = 0, cf_generation = 0, cf_state = TURBOJS_CALL_FEEDBACK_UNINITIALIZED,
     cf_target_count = 0\<rparr>"

definition TurboJS_CallFeedbackInit :: "TurboJSCallFeedbackSlot ptr \<Rightarrow> TurboJSCallFeedbackSlot ptr" where
  "TurboJS_CallFeedbackInit slot = map_option (\<lambda>_. null_call_feedback) slot"

text \<open>The search for a target among the first \<^verbatim>\<open>target_count\<close> entries, from index \<open>i\<close>.\<close>

fun find_target :: "nat \<Rightarrow> nat \<Rightarrow> TurboJSCallFeedbackTarget list \<Rightarrow> u64 \<Rightarrow> nat option c" where
  "find_target 0 i targets identity = Inr None"
| "find_target (Suc n) i targets identity =
     bindc (rd targets i) (\<lambda>t.
       if ct_target_identity t = identity then Inr (Some i) else find_target n (i + 1) targets identity)"

definition add_target :: "TurboJSCallFeedbackSlot \<Rightarrow> u64 \<Rightarrow> TurboJSCallFeedbackSlot c" where
  "add_target s identity =
     (if unat (cf_target_count s) < TURBOJS_CALL_FEEDBACK_MAX_TARGETS
      then bindc (wr (cf_targets s) (unat (cf_target_count s)) \<lparr>ct_target_identity = identity, ct_hits = 1\<rparr>) (\<lambda>ts.
             Inr (s\<lparr>cf_targets := ts, cf_target_count := cf_target_count s + 1,
                    cf_state := (if cf_target_count s + 1 = 1 then TURBOJS_CALL_FEEDBACK_MONOMORPHIC
                                 else TURBOJS_CALL_FEEDBACK_POLYMORPHIC)\<rparr>))
      else Inr (s\<lparr>cf_state := TURBOJS_CALL_FEEDBACK_MEGAMORPHIC\<rparr>))"

definition TurboJS_CallFeedbackObserve ::
  "TurboJSCallFeedbackSlot ptr \<Rightarrow> u64 \<Rightarrow> (TurboJSCallFeedbackState \<times> TurboJSCallFeedbackSlot ptr) c" where
  "TurboJS_CallFeedbackObserve slot target_identity =
     (case slot of
        None \<Rightarrow> Inr (TURBOJS_CALL_FEEDBACK_UNINITIALIZED, None)
      | Some s0 \<Rightarrow>
          (let s = s0\<lparr>cf_observations := saturating_increment_u64 (cf_observations s0)\<rparr>;
               missed = s\<lparr>cf_misses := saturating_increment_u32 (cf_misses s)\<rparr>
           in if target_identity = 0 then Inr (cf_state missed, Some missed)
              else bindc (find_target (unat (cf_target_count s)) 0 (cf_targets s) target_identity) (\<lambda>found.
                case found of
                  Some i \<Rightarrow>
                    bindc (rd (cf_targets s) i) (\<lambda>t.
                    bindc (wr (cf_targets s) i (t\<lparr>ct_hits := saturating_increment_u32 (ct_hits t)\<rparr>)) (\<lambda>ts.
                      Inr (cf_state s, Some (s\<lparr>cf_targets := ts\<rparr>))))
                | None \<Rightarrow>
                    if cf_state missed = TURBOJS_CALL_FEEDBACK_MEGAMORPHIC
                    then Inr (TURBOJS_CALL_FEEDBACK_MEGAMORPHIC, Some missed)
                    else bindc (add_target missed target_identity) (\<lambda>s'.
                      let s'' = (if cf_state s' \<noteq> cf_state s0
                                 then s'\<lparr>cf_generation := saturating_increment_u32 (cf_generation s')\<rparr> else s')
                      in Inr (cf_state s'', Some s'')))))"

definition TurboJS_CallFeedbackGetState :: "TurboJSCallFeedbackSlot ptr \<Rightarrow> TurboJSCallFeedbackState" where
  "TurboJS_CallFeedbackGetState slot =
     (case slot of None \<Rightarrow> TURBOJS_CALL_FEEDBACK_UNINITIALIZED | Some s \<Rightarrow> cf_state s)"

fun TurboJS_CallFeedbackStateName :: "TurboJSCallFeedbackState \<Rightarrow> string" where
  "TurboJS_CallFeedbackStateName TURBOJS_CALL_FEEDBACK_UNINITIALIZED = ''uninitialized''"
| "TurboJS_CallFeedbackStateName TURBOJS_CALL_FEEDBACK_MONOMORPHIC = ''monomorphic''"
| "TurboJS_CallFeedbackStateName TURBOJS_CALL_FEEDBACK_POLYMORPHIC = ''polymorphic''"
| "TurboJS_CallFeedbackStateName TURBOJS_CALL_FEEDBACK_MEGAMORPHIC = ''megamorphic''"

definition TurboJS_CallFeedbackMonomorphicTarget ::
  "TurboJSCallFeedbackSlot ptr \<Rightarrow> u32 \<Rightarrow> u64 ptr \<Rightarrow> (bool \<times> u64 ptr) c" where
  "TurboJS_CallFeedbackMonomorphicTarget slot minimum_hits target_identity =
     (case (slot, target_identity) of
        (Some s, Some _) \<Rightarrow>
          if cf_state s \<noteq> TURBOJS_CALL_FEEDBACK_MONOMORPHIC \<or> cf_target_count s \<noteq> 1
          then Inr (False, target_identity)
          else bindc (rd (cf_targets s) 0) (\<lambda>t.
                 if ct_hits t < minimum_hits then Inr (False, target_identity)
                 else Inr (True, Some (ct_target_identity t)))
      | _ \<Rightarrow> Inr (False, target_identity))"

section \<open>Histories and what they should record\<close>

definition slot_after :: "i64 list \<Rightarrow> TurboJSFeedbackSlot" where
  "slot_after vs = fold (\<lambda>v s. observe s (TurboJS_FeedbackClassifyInteger v)) vs null_slot"

definition monomorphic_integers :: "i64 list \<Rightarrow> bool" where
  "monomorphic_integers vs \<longleftrightarrow> vs \<noteq> [] \<and>
     ((\<forall>v\<in>set vs. in_int32 (sint v)) \<or> (\<forall>v\<in>set vs. \<not> in_int32 (sint v)))"

datatype feedback_event = Ev_call "i64 list" | Ev_result i64 | Ev_bailout | Ev_exception

fun feedback_step :: "feedback_event \<Rightarrow> TurboJSFeedbackVector ptr \<Rightarrow> TurboJSFeedbackVector ptr c" where
  "feedback_step (Ev_call args) v = TurboJS_FeedbackObserveCall v (Some args) (length args)"
| "feedback_step (Ev_result r) v = Inr (TurboJS_FeedbackObserveResult v r)"
| "feedback_step Ev_bailout v = Inr (TurboJS_FeedbackObserveBailout v)"
| "feedback_step Ev_exception v = Inr (TurboJS_FeedbackObserveException v)"

fun feedback_run :: "feedback_event list \<Rightarrow> TurboJSFeedbackVector ptr \<Rightarrow> TurboJSFeedbackVector ptr c" where
  "feedback_run [] v = Inr v"
| "feedback_run (e # es) v = bindc (feedback_step e v) (feedback_run es)"

text \<open>The values argument \<open>i\<close> took, the results, and the numbers of calls, bailouts and exceptions.\<close>

definition column :: "nat \<Rightarrow> feedback_event list \<Rightarrow> i64 list" where
  "column i es = concat (map (\<lambda>e. case e of Ev_call args \<Rightarrow> if i < length args then [args ! i] else [] | _ \<Rightarrow> []) es)"

definition results :: "feedback_event list \<Rightarrow> i64 list" where
  "results es = concat (map (\<lambda>e. case e of Ev_result r \<Rightarrow> [r] | _ \<Rightarrow> []) es)"

definition calls :: "feedback_event list \<Rightarrow> nat" where
  "calls es = length (filter (\<lambda>e. case e of Ev_call _ \<Rightarrow> True | _ \<Rightarrow> False) es)"

definition vector_inv :: "u16 \<Rightarrow> feedback_event list \<Rightarrow> TurboJSFeedbackVector \<Rightarrow> bool" where
  "vector_inv n es v \<longleftrightarrow> fv_argument_count v = n \<and> length (fv_arguments v) = TURBOJS_FEEDBACK_MAX_ARGUMENTS \<and>
     (\<forall>i<unat n. fv_arguments v ! i = slot_after (column i es)) \<and> fv_result v = slot_after (results es) \<and>
     unat (fv_execution_count v) = min (calls es) UINT32_MAX \<and>
     unat (fv_bailout_count v) = min (count_list es Ev_bailout) UINT32_MAX \<and>
     unat (fv_exception_count v) = min (count_list es Ev_exception) UINT32_MAX"

lemma unat_sat_inc: "unat (sat_inc v) = min (unat v + 1) UINT32_MAX"
proof (cases "unat v = UINT32_MAX")
  case False
  then have "unat v + 1 < 2 ^ 32" using unat32_less [of v] by simp
  then have "unat (v + 1) = unat v + 1" by (simp add: unat_word_ariths)
  with False show ?thesis using unat32_less [of v] by (simp add: sat_inc_def)
qed (simp add: sat_inc_def)

lemma sat_step: "unat v = min n UINT32_MAX \<Longrightarrow> unat (sat_inc v) = min (Suc n) UINT32_MAX"
  by (simp add: unat_sat_inc min_def)

lemma slot_after_snoc: "slot_after (vs @ [v]) = observe (slot_after vs) (TurboJS_FeedbackClassifyInteger v)"
  by (simp add: slot_after_def)

lemma slot_after_types:
  "fs_observed_types (slot_after vs) =
     (if \<exists>v\<in>set vs. in_int32 (sint v) then 1 else 0) OR (if \<exists>v\<in>set vs. \<not> in_int32 (sint v) then 2 else 0)"
proof (induction vs rule: rev_induct)
  case Nil
  then show ?case by (simp add: slot_after_def null_slot_def)
next
  case (snoc v vs)
  then show ?case
    by (cases "in_int32 (sint v)")
       (auto simp: slot_after_snoc observe_def Let_def TurboJS_FeedbackClassifyInteger_def simp flip: in_int32_def)
qed

lemma slot_after_observations: "unat (fs_observations (slot_after vs)) = min (length vs) UINT32_MAX"
proof (induction vs rule: rev_induct)
  case Nil
  then show ?case by (simp add: slot_after_def null_slot_def)
next
  case (snoc v vs)
  then show ?case
    using sat_step [OF snoc.IH] by (simp add: slot_after_snoc observe_def Let_def TurboJS_FeedbackClassifyInteger_def)
qed

lemma slot_stable_iff: "TurboJS_FeedbackSlotIsStable (Some (slot_after vs)) \<longleftrightarrow> monomorphic_integers vs"
proof -
  have "fs_observations (slot_after vs) = 0 \<longleftrightarrow> unat (fs_observations (slot_after vs)) = 0"
    by (simp add: unat_eq_0)
  also have "\<dots> \<longleftrightarrow> vs = []"
    unfolding slot_after_observations by (auto simp: min_def)
  finally have obs: "fs_observations (slot_after vs) = 0 \<longleftrightarrow> vs = []" .
  show ?thesis
  proof (cases "vs = []")
    case True
    then show ?thesis using obs by (simp add: TurboJS_FeedbackSlotIsStable_def monomorphic_integers_def)
  next
    case False
    then have "(\<exists>v\<in>set vs. in_int32 (sint v)) \<or> (\<exists>v\<in>set vs. \<not> in_int32 (sint v))"
      by (cases vs) auto
    with False obs show ?thesis
      by (auto simp: TurboJS_FeedbackSlotIsStable_def monomorphic_integers_def slot_after_types)
  qed
qed

lemma observe_arguments_ok:
  assumes "i + n \<le> length args" "i + n \<le> length slots"
  shows "observe_arguments n i args slots =
    Inr (map (\<lambda>j. if i \<le> j \<and> j < i + n then observe (slots ! j) (TurboJS_FeedbackClassifyInteger (args ! j)) else slots ! j)
           [0..<length slots])"
  using assms
proof (induction n arbitrary: i slots)
  case 0
  have "slots = map (\<lambda>j. if i \<le> j \<and> j < i + 0 then observe (slots ! j) (TurboJS_FeedbackClassifyInteger (args ! j))
      else slots ! j) [0..<length slots]"
    by (rule nth_equalityI) auto
  then show ?case by (simp only: observe_arguments.simps)
next
  case (Suc n)
  let ?x = "observe (slots ! i) (TurboJS_FeedbackClassifyInteger (args ! i))"
  have "observe_arguments n (Suc i) args (slots[i := ?x]) =
    Inr (map (\<lambda>j. if Suc i \<le> j \<and> j < Suc i + n then observe (slots[i := ?x] ! j) (TurboJS_FeedbackClassifyInteger (args ! j))
      else slots[i := ?x] ! j) [0..<length (slots[i := ?x])])"
    using Suc.prems by (intro Suc.IH) simp_all
  then show ?case
    using Suc.prems by (simp add: rd_def wr_def) (auto simp: nth_list_update not_less_eq_eq dest: le_antisym)
qed

lemma column_snoc: "column i (es @ [e]) = column i es @ (case e of Ev_call args \<Rightarrow> if i < length args then [args ! i] else [] | _ \<Rightarrow> [])"
  by (simp add: column_def)

lemma feedback_step_inv:
  assumes "vector_inv n es v" "unat n \<le> 16"
  shows "\<exists>v'. feedback_step e (Some v) = Inr (Some v') \<and> vector_inv n (es @ [e]) v'"
proof (cases e)
  case (Ev_call args)
  let ?m = "min (length args) (unat n)"
  have "observe_arguments ?m 0 args (fv_arguments v) = Inr (map (\<lambda>j. if j < ?m
      then observe (fv_arguments v ! j) (TurboJS_FeedbackClassifyInteger (args ! j)) else fv_arguments v ! j) [0..<length (fv_arguments v)])"
    using assms by (subst observe_arguments_ok) (auto simp: vector_inv_def)
  then show ?thesis
    using assms
    by (auto simp: Ev_call TurboJS_FeedbackObserveCall_def Let_def vector_inv_def sat_step calls_def column_snoc results_def
        slot_after_snoc)
qed (use assms in \<open>auto simp: TurboJS_FeedbackObserveResult_def TurboJS_FeedbackObserveBailout_def
       TurboJS_FeedbackObserveException_def vector_inv_def sat_step calls_def column_snoc results_def slot_after_snoc\<close>)

lemma feedback_run_inv:
  assumes "vector_inv n es v" "unat n \<le> 16"
  shows "\<exists>v'. feedback_run fs (Some v) = Inr (Some v') \<and> vector_inv n (es @ fs) v'"
  using assms(1)
proof (induction fs arbitrary: es v)
  case Nil
  then show ?case by simp
next
  case (Cons e fs)
  obtain v' where "feedback_step e (Some v) = Inr (Some v')" "vector_inv n (es @ [e]) v'"
    using feedback_step_inv [OF Cons.prems assms(2)] by blast
  then show ?case using Cons.IH [of "es @ [e]" v'] by simp
qed

lemma first_unstable_ok:
  assumes "i + n \<le> length slots"
  shows "\<exists>r. first_unstable n i slots = Inr r \<and>
    (case r of None \<Rightarrow> \<forall>j. i \<le> j \<and> j < i + n \<longrightarrow> TurboJS_FeedbackSlotIsStable (Some (slots ! j))
     | Some k \<Rightarrow> i \<le> k \<and> k < i + n \<and> \<not> TurboJS_FeedbackSlotIsStable (Some (slots ! k)) \<and>
         (\<forall>j. i \<le> j \<and> j < k \<longrightarrow> TurboJS_FeedbackSlotIsStable (Some (slots ! j))))"
  using assms
proof (induction n arbitrary: i)
  case 0
  then show ?case by auto
next
  case (Suc n)
  show ?case
  proof (cases "TurboJS_FeedbackSlotIsStable (Some (slots ! i))")
    case False
    then show ?thesis using Suc.prems by (auto simp: rd_def)
  next
    case True
    obtain r where "first_unstable n (Suc i) slots = Inr r"
      "case r of None \<Rightarrow> \<forall>j. Suc i \<le> j \<and> j < Suc i + n \<longrightarrow> TurboJS_FeedbackSlotIsStable (Some (slots ! j))
       | Some k \<Rightarrow> Suc i \<le> k \<and> k < Suc i + n \<and> \<not> TurboJS_FeedbackSlotIsStable (Some (slots ! k)) \<and>
           (\<forall>j. Suc i \<le> j \<and> j < k \<longrightarrow> TurboJS_FeedbackSlotIsStable (Some (slots ! j)))"
      using Suc.IH [of "Suc i"] Suc.prems by auto
    moreover have "TurboJS_FeedbackSlotIsStable (Some (slots ! j))" if "i \<le> j" "\<not> Suc i \<le> j" for j
      using True that by (metis le_antisym not_less_eq_eq)
    ultimately show ?thesis
      using True Suc.prems by (auto simp: rd_def split: option.splits)
  qed
qed

section \<open>Call-target histories\<close>

text \<open>The distinct elements of a list in the order of their first occurrence.\<close>

definition firsts :: "u64 list \<Rightarrow> u64 list" where
  "firsts xs = fold (\<lambda>x acc. if x \<in> set acc then acc else acc @ [x]) xs []"

fun call_run :: "u64 list \<Rightarrow> TurboJSCallFeedbackSlot ptr \<Rightarrow> TurboJSCallFeedbackSlot ptr c" where
  "call_run [] s = Inr s"
| "call_run (x # xs) s = bindc (TurboJS_CallFeedbackObserve s x) (\<lambda>(_, s'). call_run xs s')"

definition state_of :: "nat \<Rightarrow> TurboJSCallFeedbackState" where
  "state_of n = (if n = 0 then TURBOJS_CALL_FEEDBACK_UNINITIALIZED else if n = 1 then TURBOJS_CALL_FEEDBACK_MONOMORPHIC
     else if n \<le> TURBOJS_CALL_FEEDBACK_MAX_TARGETS then TURBOJS_CALL_FEEDBACK_POLYMORPHIC
     else TURBOJS_CALL_FEEDBACK_MEGAMORPHIC)"

definition call_inv :: "u64 list \<Rightarrow> TurboJSCallFeedbackSlot \<Rightarrow> bool" where
  "call_inv ids s \<longleftrightarrow> length (cf_targets s) = 4 \<and> unat (cf_target_count s) = min 4 (length (firsts ids)) \<and>
     (\<forall>i<unat (cf_target_count s). ct_target_identity (cf_targets s ! i) = firsts ids ! i \<and>
        unat (ct_hits (cf_targets s ! i)) = min (count_list ids (firsts ids ! i)) UINT32_MAX) \<and>
     cf_state s = state_of (length (firsts ids))"

lemma firsts_snoc: "firsts (xs @ [x]) = (if x \<in> set (firsts xs) then firsts xs else firsts xs @ [x])"
  by (simp add: firsts_def)

lemma firsts_Nil [simp]: "firsts [] = []"
  by (simp add: firsts_def)

lemma set_firsts [simp]: "set (firsts xs) = set xs"
  by (induction xs rule: rev_induct) (auto simp: firsts_snoc)

lemma distinct_firsts: "distinct (firsts xs)"
  by (induction xs rule: rev_induct) (auto simp: firsts_snoc)

lemma length_firsts: "length (firsts xs) = card (set xs)"
  using distinct_card [OF distinct_firsts, of xs] by simp

lemma saturating_step:
  assumes "unat v = min n UINT32_MAX"
  shows "unat (saturating_increment_u32 v) = min (Suc n) UINT32_MAX"
proof -
  have "saturating_increment_u32 v = sat_inc v" by (simp add: saturating_increment_u32_def sat_inc_def)
  then show ?thesis using sat_step [OF assms] by simp
qed

lemma find_target_ok:
  assumes "i + n \<le> length ts"
  shows "\<exists>r. find_target n i ts x = Inr r \<and>
    (case r of None \<Rightarrow> \<forall>j. i \<le> j \<and> j < i + n \<longrightarrow> ct_target_identity (ts ! j) \<noteq> x
     | Some k \<Rightarrow> i \<le> k \<and> k < i + n \<and> ct_target_identity (ts ! k) = x)"
  using assms
proof (induction n arbitrary: i)
  case 0
  then show ?case by auto
next
  case (Suc n)
  show ?case
  proof (cases "ct_target_identity (ts ! i) = x")
    case True
    then show ?thesis using Suc.prems by (simp add: rd_def)
  next
    case False
    obtain r where "find_target n (Suc i) ts x = Inr r"
      "case r of None \<Rightarrow> \<forall>j. Suc i \<le> j \<and> j < Suc i + n \<longrightarrow> ct_target_identity (ts ! j) \<noteq> x
       | Some k \<Rightarrow> Suc i \<le> k \<and> k < Suc i + n \<and> ct_target_identity (ts ! k) = x"
      using Suc.IH [of "Suc i"] Suc.prems by auto
    moreover have "ct_target_identity (ts ! j) \<noteq> x" if "i \<le> j" "\<not> Suc i \<le> j" for j
      using False that by (metis le_antisym not_less_eq_eq)
    ultimately show ?thesis
      using False Suc.prems by (auto simp: rd_def split: option.splits)
  qed
qed

lemma observe_zero:
  assumes "call_inv ids s"
  shows "\<exists>st s'. TurboJS_CallFeedbackObserve (Some s) 0 = Inr (st, Some s') \<and> call_inv ids s'"
  using assms by (simp add: TurboJS_CallFeedbackObserve_def Let_def call_inv_def)

lemma observe_hit:
  assumes inv: "call_inv ids s" and k: "k < unat (cf_target_count s)" and x: "firsts ids ! k = x" "x \<noteq> 0"
  shows "\<exists>st s'. TurboJS_CallFeedbackObserve (Some s) x = Inr (st, Some s') \<and> call_inv (ids @ [x]) s'"
proof -
  let ?n = "unat (cf_target_count s)"
  have l: "0 + ?n \<le> length (cf_targets s)" "?n \<le> length (firsts ids)"
    and ident: "\<And>i. i < ?n \<Longrightarrow> ct_target_identity (cf_targets s ! i) = firsts ids ! i"
    using inv by (simp_all add: call_inv_def)
  obtain r where r: "find_target ?n 0 (cf_targets s) x = Inr r"
    "case r of None \<Rightarrow> \<forall>j. 0 \<le> j \<and> j < 0 + ?n \<longrightarrow> ct_target_identity (cf_targets s ! j) \<noteq> x
     | Some k \<Rightarrow> 0 \<le> k \<and> k < 0 + ?n \<and> ct_target_identity (cf_targets s ! k) = x"
    using find_target_ok [OF l(1), of x] by blast
  then have "r \<noteq> None" using k x(1) ident [OF k] by (auto split: option.splits)
  then obtain k' where k': "r = Some k'" "k' < ?n" "firsts ids ! k' = x" using r(2) ident by auto
  have inj: "firsts ids ! i = firsts ids ! j \<longleftrightarrow> i = j" if "i < ?n" "j < ?n" for i j
    using nth_eq_iff_index_eq [OF distinct_firsts [of ids], of i j] that l(2) by simp
  have same: "k' = k" using inj [OF k'(2) k] k'(3) x(1) by simp
  have mem: "x \<in> set ids" using nth_mem [of k "firsts ids"] k l(2) x(1) by simp
  let ?t = "cf_targets s ! k"
  let ?s = "s\<lparr>cf_observations := saturating_increment_u64 (cf_observations s),
     cf_targets := (cf_targets s)[k := ?t\<lparr>ct_hits := saturating_increment_u32 (ct_hits ?t)\<rparr>]\<rparr>"
  have "TurboJS_CallFeedbackObserve (Some s) x = Inr (cf_state s, Some ?s)"
    using r(1) k' same x(2) l(1) by (simp add: TurboJS_CallFeedbackObserve_def Let_def rd_def wr_def)
  moreover have "call_inv (ids @ [x]) ?s"
  proof -
    have "ct_target_identity (cf_targets ?s ! i) = firsts ids ! i \<and>
        unat (ct_hits (cf_targets ?s ! i)) = min (count_list (ids @ [x]) (firsts ids ! i)) UINT32_MAX" if i: "i < ?n" for i
    proof (cases "i = k")
      case True
      have "unat (ct_hits ?t) = min (count_list ids x) UINT32_MAX"
        using inv k x(1) by (simp add: call_inv_def)
      then have "unat (saturating_increment_u32 (ct_hits ?t)) = min (Suc (count_list ids x)) UINT32_MAX"
        by (rule saturating_step)
      then show ?thesis using True ident [OF k] x(1) l(1) i by simp
    next
      case False
      then have "firsts ids ! i \<noteq> x" using inj [OF i k] x(1) by simp
      then show ?thesis using False inv i by (simp add: call_inv_def)
    qed
    then show ?thesis using inv mem by (simp add: call_inv_def firsts_snoc)
  qed
  ultimately show ?thesis by blast
qed

lemma observe_miss:
  assumes inv: "call_inv ids s" and miss: "\<And>k. k < unat (cf_target_count s) \<Longrightarrow> firsts ids ! k \<noteq> x" and x: "x \<noteq> 0"
  shows "\<exists>st s'. TurboJS_CallFeedbackObserve (Some s) x = Inr (st, Some s') \<and> call_inv (ids @ [x]) s'"
proof -
  let ?n = "unat (cf_target_count s)" and ?m = "length (firsts ids)"
  have l: "0 + ?n \<le> length (cf_targets s)" "?n = min 4 ?m" "length (cf_targets s) = 4"
    and ident: "\<And>i. i < ?n \<Longrightarrow> ct_target_identity (cf_targets s ! i) = firsts ids ! i"
    and state: "cf_state s = state_of ?m"
    using inv by (simp_all add: call_inv_def)
  have find: "find_target ?n 0 (cf_targets s) x = Inr None"
    using find_target_ok [OF l(1), of x] miss ident by (auto split: option.splits)
  show ?thesis
  proof (cases "?m < 4")
    case True
    then have n: "?n = ?m" "?n < 4" using l(2) by simp_all
    have new: "x \<notin> set ids"
      using miss n(1) by (metis in_set_conv_nth set_firsts)
    have cnt: "unat (cf_target_count s + 1) = Suc ?m"
      using n by (simp add: unat_word_ariths)
    have one: "cf_target_count s = 0 \<longleftrightarrow> ?m = 0"
      using n(1) unat_eq_0 [of "cf_target_count s"] by simp
    have other: "\<forall>i<?m. firsts ids ! i \<noteq> x" using miss n(1) by simp
    have "state_of ?m \<noteq> TURBOJS_CALL_FEEDBACK_MEGAMORPHIC" using True by (simp add: state_of_def)
    then show ?thesis
      using find x n new cnt one state inv l(3) other
      by (auto simp: TurboJS_CallFeedbackObserve_def Let_def add_target_def wr_def call_inv_def firsts_snoc state_of_def nth_append
          less_Suc_eq count_notin nth_list_update)
  next
    case False
    then have n: "?n = 4" using l(2) by simp
    have in_first: "i < ?m \<Longrightarrow> i < 4 \<Longrightarrow> firsts ids ! i \<noteq> x" for i using miss n by simp
    show ?thesis
    proof (cases "x \<in> set ids")
      case True
      then have m5: "4 < ?m"
        using in_first False by (metis in_set_conv_nth not_less order_less_le_trans set_firsts linorder_cases)
      then have "state_of ?m = TURBOJS_CALL_FEEDBACK_MEGAMORPHIC" by (auto simp: state_of_def)
      then show ?thesis
        using find x n True state inv in_first m5
        by (auto simp: TurboJS_CallFeedbackObserve_def Let_def call_inv_def firsts_snoc)
    next
      case new: False
      then show ?thesis
        using find x n state inv False in_first
        by (auto simp: TurboJS_CallFeedbackObserve_def Let_def add_target_def call_inv_def firsts_snoc state_of_def nth_append)
    qed
  qed
qed

lemma call_run_inv:
  assumes "call_inv ids s"
  shows "\<exists>s'. call_run xs (Some s) = Inr (Some s') \<and> call_inv (ids @ filter (\<lambda>x. x \<noteq> 0) xs) s'"
  using assms
proof (induction xs arbitrary: ids s)
  case Nil
  then show ?case by simp
next
  case (Cons x xs)
  have "\<exists>st s'. TurboJS_CallFeedbackObserve (Some s) x = Inr (st, Some s') \<and> call_inv (ids @ filter (\<lambda>x. x \<noteq> 0) [x]) s'"
    using observe_zero [OF Cons.prems] observe_hit [OF Cons.prems] observe_miss [OF Cons.prems, of x]
    by (cases "x = 0") auto
  then obtain st s' where "TurboJS_CallFeedbackObserve (Some s) x = Inr (st, Some s')"
    "call_inv (ids @ filter (\<lambda>x. x \<noteq> 0) [x]) s'" by blast
  then show ?case using Cons.IH [of "ids @ filter (\<lambda>x. x \<noteq> 0) [x]" s'] by auto
qed

lemma call_init_inv: "call_inv [] null_call_feedback"
  by (simp add: call_inv_def null_call_feedback_def state_of_def)

section \<open>Properties\<close>

text \<open>
  C24. The optimization policy decides on what really happened. For every history of calls,
  results, bailouts and exceptions recorded in a fresh vector (arguments up to 16; a call may
  pass fewer or more), evaluating the default policy does not fault and says eligible exactly
  when there were at least 1000 calls, at most 3 bailouts, at most one exception, every argument
  position was observed with values that are all 32-bit integers or all not, and so was the
  result.
\<close>

theorem optimization_policy_exact:
  assumes "unat n \<le> TURBOJS_FEEDBACK_MAX_ARGUMENTS"
  shows "\<exists>v r. feedback_run es (TurboJS_FeedbackVectorInit (Some v0) n) = Inr (Some v) \<and>
    TurboJS_EvaluateOptimization (Some v) None = Inr r \<and>
    (or_decision r = TURBOJS_OPTIMIZATION_ELIGIBLE \<longleftrightarrow>
       1000 \<le> calls es \<and> count_list es Ev_bailout \<le> 3 \<and> count_list es Ev_exception \<le> 1 \<and>
       (\<forall>i<unat n. monomorphic_integers (column i es)) \<and> monomorphic_integers (results es))"
proof -
  let ?v0 = "\<lparr>fv_arguments = replicate 16 null_slot, fv_result = null_slot, fv_argument_count = n,
    fv_execution_count = 0, fv_bailout_count = 0, fv_exception_count = 0\<rparr>"
  have init: "TurboJS_FeedbackVectorInit (Some v0) n = Some ?v0"
    using assms by (simp add: TurboJS_FeedbackVectorInit_def)
  have "vector_inv n [] ?v0"
    using assms by (simp add: vector_inv_def slot_after_def column_def results_def calls_def)
  then obtain v where v: "feedback_run es (Some ?v0) = Inr (Some v)" "vector_inv n es v"
    using feedback_run_inv [of n "[]" ?v0 es] assms by auto
  have inv: "fv_argument_count v = n" "length (fv_arguments v) = 16" "fv_result v = slot_after (results es)"
    "\<And>i. i < unat n \<Longrightarrow> fv_arguments v ! i = slot_after (column i es)"
    using v(2) by (simp_all add: vector_inv_def)
  have counts: "fv_execution_count v < 1000 \<longleftrightarrow> calls es < 1000"
    "3 < fv_bailout_count v \<longleftrightarrow> 3 < count_list es Ev_bailout" "1 < fv_exception_count v \<longleftrightarrow> 1 < count_list es Ev_exception"
    using v(2) by (auto simp: vector_inv_def word_less_nat_alt)
  have "0 + unat n \<le> length (fv_arguments v)" using assms inv(2) by simp
  then obtain u where u1: "first_unstable (unat n) 0 (fv_arguments v) = Inr u" and
    spec: "case u of None \<Rightarrow> \<forall>j. 0 \<le> j \<and> j < 0 + unat n \<longrightarrow> TurboJS_FeedbackSlotIsStable (Some (fv_arguments v ! j))
     | Some k \<Rightarrow> 0 \<le> k \<and> k < 0 + unat n \<and> \<not> TurboJS_FeedbackSlotIsStable (Some (fv_arguments v ! k)) \<and>
         (\<forall>j. 0 \<le> j \<and> j < k \<longrightarrow> TurboJS_FeedbackSlotIsStable (Some (fv_arguments v ! j)))"
    using first_unstable_ok by blast
  have u: "first_unstable (unat n) 0 (fv_arguments v) = Inr u"
    "u = None \<longleftrightarrow> (\<forall>i<unat n. monomorphic_integers (column i es))"
    using u1 spec inv(4) by (cases u; auto simp: slot_stable_iff)+
  have "\<exists>r. TurboJS_EvaluateOptimization (Some v) None = Inr r \<and>
    (or_decision r = TURBOJS_OPTIMIZATION_ELIGIBLE \<longleftrightarrow>
       1000 \<le> calls es \<and> count_list es Ev_bailout \<le> 3 \<and> count_list es Ev_exception \<le> 1 \<and>
       (\<forall>i<unat n. monomorphic_integers (column i es)) \<and> monomorphic_integers (results es))"
    unfolding u(2) [symmetric]
    using assms u(1)
    by (cases u) (simp_all add: TurboJS_EvaluateOptimization_def TurboJS_OptimizationPolicyDefault_def inv(1,3) counts slot_stable_iff not_less not_le Let_def)
  with init v(1) show ?thesis by auto
qed

theorem optimization_policy_exact_witness:
  "\<forall>v0. \<exists>v r. feedback_run [Ev_call [5], Ev_result 7] (TurboJS_FeedbackVectorInit (Some v0) 1) = Inr (Some v) \<and>
    TurboJS_EvaluateOptimization (Some v) None = Inr r \<and> or_decision r \<noteq> TURBOJS_OPTIMIZATION_ELIGIBLE"
proof
  fix v0
  have "unat (1 :: u16) \<le> TURBOJS_FEEDBACK_MAX_ARGUMENTS" by simp
  from optimization_policy_exact [OF this, of "[Ev_call [5], Ev_result 7]" v0]
  show "\<exists>v r. feedback_run [Ev_call [5], Ev_result 7] (TurboJS_FeedbackVectorInit (Some v0) 1) = Inr (Some v) \<and>
    TurboJS_EvaluateOptimization (Some v) None = Inr r \<and> or_decision r \<noteq> TURBOJS_OPTIMIZATION_ELIGIBLE"
    by (auto simp: calls_def)
qed

text \<open>
  C25. A call-feedback slot is a faithful summary of the calls it saw. After any sequence of
  observations from a fresh slot (identity 0 is an unknown callee and is not a target), the state
  is determined by the number of distinct known callees (none, one, two to four, more), the
  recorded targets are the first four distinct callees in the order of their first call, and the
  hit count of each is the number of its calls, saturating at \<open>2 ^ 32 - 1\<close>.
\<close>

theorem call_feedback_faithful:
  "\<exists>s. call_run xs (TurboJS_CallFeedbackInit (Some s0)) = Inr (Some s) \<and>
     (let ids = filter (\<lambda>x. x \<noteq> 0) xs in
      cf_state s = state_of (card (set ids)) \<and>
      map ct_target_identity (take (unat (cf_target_count s)) (cf_targets s)) = take 4 (firsts ids) \<and>
      map (\<lambda>t. unat (ct_hits t)) (take (unat (cf_target_count s)) (cf_targets s)) =
        map (\<lambda>x. min (count_list ids x) UINT32_MAX) (take 4 (firsts ids)))"
proof -
  let ?ids = "filter (\<lambda>x. x \<noteq> 0) xs"
  obtain s where s: "call_run xs (Some null_call_feedback) = Inr (Some s)" "call_inv ?ids s"
    using call_run_inv [OF call_init_inv, of xs] by auto
  then have "unat (cf_target_count s) = min 4 (length (firsts ?ids))" "length (cf_targets s) = 4"
    "cf_state s = state_of (card (set ?ids))"
    by (simp_all add: call_inv_def length_firsts)
  with s show ?thesis
    by (auto simp: TurboJS_CallFeedbackInit_def call_inv_def list_eq_iff_nth_eq Let_def min.commute)
qed

text \<open>
  Relay only installs a monomorphic target that is one: the query answers with a callee
  exactly when all the known callees observed so far are that one and it was called at least the
  requested number of times (requests up to the saturation point).
\<close>

lemma monomorphic_target_exact:
  "\<exists>s b t. call_run xs (TurboJS_CallFeedbackInit (Some s0)) = Inr (Some s) \<and>
     TurboJS_CallFeedbackMonomorphicTarget (Some s) hits (Some t0) = Inr (b, Some t) \<and>
     (let ids = filter (\<lambda>x. x \<noteq> 0) xs in
      if b then set ids = {t} \<and> unat hits \<le> length ids
      else t = t0 \<and> \<not> (card (set ids) = 1 \<and> unat hits \<le> min (length ids) UINT32_MAX))"
proof -
  let ?ids = "filter (\<lambda>x. x \<noteq> 0) xs"
  obtain s where s: "call_run xs (Some null_call_feedback) = Inr (Some s)" "call_inv ?ids s"
    using call_run_inv [OF call_init_inv, of xs] by auto
  have state: "cf_state s = state_of (card (set ?ids))" and len: "length (cf_targets s) = 4"
    and n: "unat (cf_target_count s) = min 4 (card (set ?ids))"
    using s(2) by (simp_all add: call_inv_def length_firsts)
  show ?thesis
  proof (cases "card (set ?ids) = 1")
    case False
    then have "cf_state s \<noteq> TURBOJS_CALL_FEEDBACK_MONOMORPHIC" using state by (simp add: state_of_def)
    then show ?thesis
      using s(1) False
      by (intro exI [of _ s] exI [of _ False] exI [of _ t0])
         (simp add: TurboJS_CallFeedbackInit_def TurboJS_CallFeedbackMonomorphicTarget_def)
  next
    case True
    then obtain x where x: "set ?ids = {x}" by (rule card_1_singletonE)
    have "length (firsts ?ids) = Suc 0" using True by (simp only: length_firsts One_nat_def)
    then obtain y where "firsts ?ids = [y]" by (auto simp only: length_Suc_conv length_0_conv)
    moreover from this have "{y} = {x}" using set_firsts [of ?ids] x by simp
    ultimately have f: "firsts ?ids = [x]" by simp
    have "unat (cf_target_count s) = 1" using n True by simp
    then have one: "cf_target_count s = 1" by (metis unat_1 word_unat_eq_iff)
    have "count_list ?ids x = length ?ids"
    proof -
      have "x = y" if "y \<in> set ?ids" for y using that unfolding x by simp
      then have "filter ((=) x) ?ids = ?ids" by (intro filter_True ballI)
      then show ?thesis by (simp only: count_list_eq_length_filter)
    qed
    then have t: "ct_target_identity (cf_targets s ! 0) = x"
      "unat (ct_hits (cf_targets s ! 0)) = min (length ?ids) UINT32_MAX"
      using s(2) one f by (simp_all add: call_inv_def)
    have rd: "rd (cf_targets s) 0 = Inr (cf_targets s ! 0)" using len by (simp add: rd_def)
    have mono: "cf_state s = TURBOJS_CALL_FEEDBACK_MONOMORPHIC" using True state by (simp add: state_of_def)
    have lim: "unat hits \<le> UINT32_MAX" using unat32_less [of hits] by simp
    show ?thesis
    proof (cases "ct_hits (cf_targets s ! 0) < hits")
      case less: True
      then have "min (length ?ids) UINT32_MAX < unat hits" using t(2) by (simp only: word_less_nat_alt)
      then show ?thesis
        using s(1) less rd mono one
        by (intro exI [of _ s] exI [of _ False] exI [of _ t0])
           (auto simp: TurboJS_CallFeedbackInit_def TurboJS_CallFeedbackMonomorphicTarget_def min_def split: if_splits)
    next
      case ge: False
      then have "unat hits \<le> length ?ids" using t(2) lim by (simp add: word_less_nat_alt)
      then show ?thesis
        using s(1) ge rd mono one t(1) x
        by (intro exI [of _ s] exI [of _ True] exI [of _ x])
           (simp add: TurboJS_CallFeedbackInit_def TurboJS_CallFeedbackMonomorphicTarget_def)
    qed
  qed
qed

end
