(* ===== verification/Profiler.thy ===== *)
theory Profiler
  imports JIT_Types
begin

text \<open>
  The optimization policy boundary: the call profiler and the tier configuration of
  \<^verbatim>\<open>src/jit/optimization_api.c\<close> and the pipeline identities of
  \<^verbatim>\<open>src/jit/runtime/pipeline_identity.c\<close>. The profiler keeps an array of entries searched
  linearly; its contract is a finite map from function identities to a call count and a requested
  tier, and the lemmas show that the array implements that map, with the allocation failures.

  The entry array is the list of its initialised elements; whether a \<^verbatim>\<open>realloc\<close> succeeds is an
  argument of the operation that may call it.
\<close>

section \<open>Tiers and configuration\<close>

datatype TurboJSOptimizationTier =
    TURBOJS_TIER_INTERPRETER | TURBOJS_TIER_BASELINE | TURBOJS_TIER_OPTIMIZING | TURBOJS_TIER_AOT

fun tier_number :: "TurboJSOptimizationTier \<Rightarrow> nat" where
  "tier_number TURBOJS_TIER_INTERPRETER = 0"
| "tier_number TURBOJS_TIER_BASELINE = 1"
| "tier_number TURBOJS_TIER_OPTIMIZING = 2"
| "tier_number TURBOJS_TIER_AOT = 3"

lemma tier_number_eq: "tier_number a = tier_number b \<longleftrightarrow> a = b"
  by (cases a; cases b) simp_all

instantiation TurboJSOptimizationTier :: linorder
begin

definition less_eq_tier: "a \<le> b \<longleftrightarrow> tier_number a \<le> tier_number b"

definition less_tier: "a < b \<longleftrightarrow> tier_number a < tier_number b"

instance
  by standard (auto simp: less_eq_tier less_tier tier_number_eq)

end

record TurboJSOptimizationConfig =
  oc_baseline_threshold :: u32
  oc_optimizing_threshold :: u32
  oc_osr_threshold :: u32
  oc_enable_profiling :: bool
  oc_enable_jit :: bool
  oc_enable_optimizing_jit :: bool
  oc_enable_osr :: bool
  oc_enable_aot :: bool

text \<open>The two preprocessor conditions, a native target and an optimizing build, are arguments.\<close>

definition TurboJS_DefaultOptimizationConfig :: "bool \<Rightarrow> bool \<Rightarrow> TurboJSOptimizationConfig" where
  "TurboJS_DefaultOptimizationConfig native_target optimizing_build =
     \<lparr>oc_baseline_threshold = 64, oc_optimizing_threshold = 384, oc_osr_threshold = 96,
      oc_enable_profiling = True, oc_enable_jit = native_target,
      oc_enable_optimizing_jit = (optimizing_build \<and> native_target),
      oc_enable_osr = (optimizing_build \<and> native_target), oc_enable_aot = True\<rparr>"

fun TurboJS_OptimizationTierName :: "TurboJSOptimizationTier \<Rightarrow> string" where
  "TurboJS_OptimizationTierName TURBOJS_TIER_INTERPRETER = ''interpreter''"
| "TurboJS_OptimizationTierName TURBOJS_TIER_BASELINE = ''baseline''"
| "TurboJS_OptimizationTierName TURBOJS_TIER_OPTIMIZING = ''optimizing''"
| "TurboJS_OptimizationTierName TURBOJS_TIER_AOT = ''aot''"

section \<open>The profiler\<close>

record TurboJSProfileEntry =
  pe_function_id :: u64
  pe_call_count :: u64
  pe_requested_tier :: TurboJSOptimizationTier

record TurboJSProfiler =
  pr_config :: TurboJSOptimizationConfig
  pr_entries :: "TurboJSProfileEntry list"
  pr_count :: nat
  pr_capacity :: nat

record TurboJSHotFunction =
  hot_function_id :: u64
  hot_call_count :: u64
  hot_requested_tier :: TurboJSOptimizationTier

definition TurboJS_ProfilerCreate ::
  "bool \<Rightarrow> TurboJSOptimizationConfig \<Rightarrow> TurboJSOptimizationConfig ptr \<Rightarrow> TurboJSProfiler ptr" where
  "TurboJS_ProfilerCreate calloc_ok default_config config =
     (if \<not> calloc_ok then None
      else
        (let c = (case config of None \<Rightarrow> default_config | Some c \<Rightarrow> c);
             c1 = (if oc_optimizing_threshold c < oc_baseline_threshold c
                   then c\<lparr>oc_optimizing_threshold := oc_baseline_threshold c\<rparr> else c)
         in Some \<lparr>pr_config = c1, pr_entries = [], pr_count = 0, pr_capacity = 0\<rparr>))"

text \<open>The search of \<^verbatim>\<open>find_entry\<close>, with the number of rounds left and the index.\<close>

fun find_entry_from :: "nat \<Rightarrow> nat \<Rightarrow> TurboJSProfileEntry list \<Rightarrow> u64 \<Rightarrow> nat option c" where
  "find_entry_from 0 i entries function_id = Inr None"
| "find_entry_from (Suc n) i entries function_id =
     bindc (rd entries i) (\<lambda>e.
       if pe_function_id e = function_id then Inr (Some i)
       else find_entry_from n (i + 1) entries function_id)"

definition find_entry :: "TurboJSProfiler \<Rightarrow> u64 \<Rightarrow> nat option c" where
  "find_entry profiler function_id = find_entry_from (pr_count profiler) 0 (pr_entries profiler) function_id"

definition append_entry :: "bool \<Rightarrow> TurboJSProfiler \<Rightarrow> u64 \<Rightarrow> (nat \<times> TurboJSProfiler) option" where
  "append_entry realloc_ok profiler function_id =
     (let full = pr_count profiler = pr_capacity profiler;
          capacity = (if pr_capacity profiler \<noteq> 0 then pr_capacity profiler * 2 else 32);
          p = (if full then profiler\<lparr>pr_capacity := capacity\<rparr> else profiler);
          entry = \<lparr>pe_function_id = function_id, pe_call_count = 0, pe_requested_tier = TURBOJS_TIER_INTERPRETER\<rparr>
      in if full \<and> \<not> realloc_ok then None
         else Some (pr_count profiler,
                    p\<lparr>pr_entries := take (pr_count profiler) (pr_entries profiler) @ [entry],
                      pr_count := pr_count profiler + 1\<rparr>))"

definition record_entry :: "TurboJSOptimizationConfig \<Rightarrow> TurboJSProfileEntry \<Rightarrow> TurboJSProfileEntry" where
  "record_entry config entry =
     (let count = pe_call_count entry + 1;
          e = entry\<lparr>pe_call_count := count\<rparr>
      in if oc_enable_jit config \<and> oc_enable_optimizing_jit config \<and>
            ucast (oc_optimizing_threshold config) \<le> count
         then e\<lparr>pe_requested_tier := TURBOJS_TIER_OPTIMIZING\<rparr>
         else if oc_enable_jit config \<and> ucast (oc_baseline_threshold config) \<le> count
         then e\<lparr>pe_requested_tier := TURBOJS_TIER_BASELINE\<rparr>
         else e)"

definition TurboJS_ProfilerRecordCall ::
  "bool \<Rightarrow> TurboJSProfiler ptr \<Rightarrow> u64 \<Rightarrow> (TurboJSOptimizationTier \<times> TurboJSProfiler ptr) c" where
  "TurboJS_ProfilerRecordCall realloc_ok profiler function_id =
     (case profiler of
        None \<Rightarrow> Inr (TURBOJS_TIER_INTERPRETER, None)
      | Some p \<Rightarrow>
          if \<not> oc_enable_profiling (pr_config p) then Inr (TURBOJS_TIER_INTERPRETER, profiler)
          else bindc (find_entry p function_id) (\<lambda>found.
            case (case found of Some i \<Rightarrow> Some (i, p) | None \<Rightarrow> append_entry realloc_ok p function_id) of
              None \<Rightarrow> Inr (TURBOJS_TIER_INTERPRETER, profiler)
            | Some (i, p1) \<Rightarrow>
                bindc (rd (pr_entries p1) i) (\<lambda>e.
                bindc (wr (pr_entries p1) i (record_entry (pr_config p1) e)) (\<lambda>entries.
                  Inr (pe_requested_tier (record_entry (pr_config p1) e), Some (p1\<lparr>pr_entries := entries\<rparr>))))))"

definition TurboJS_ProfilerQuery ::
  "TurboJSProfiler ptr \<Rightarrow> u64 \<Rightarrow> TurboJSHotFunction ptr \<Rightarrow> (bool \<times> TurboJSHotFunction ptr) c" where
  "TurboJS_ProfilerQuery profiler function_id out =
     (case (profiler, out) of
        (Some p, Some _) \<Rightarrow>
          bindc (find_entry_from (pr_count p) 0 (pr_entries p) function_id) (\<lambda>found.
            case found of
              None \<Rightarrow> Inr (False, out)
            | Some i \<Rightarrow> bindc (rd (pr_entries p) i) (\<lambda>e.
                Inr (True, Some \<lparr>hot_function_id = function_id, hot_call_count = pe_call_count e,
                                 hot_requested_tier = pe_requested_tier e\<rparr>)))
      | _ \<Rightarrow> Inr (False, out))"

definition TurboJS_ProfilerFunctionCount :: "TurboJSProfiler ptr \<Rightarrow> nat" where
  "TurboJS_ProfilerFunctionCount profiler = (case profiler of None \<Rightarrow> 0 | Some p \<Rightarrow> pr_count p)"

section \<open>The profile as a map\<close>

text \<open>
  What the profiler promises: a finite map from identities to entries. A recorded call creates
  the entry when it is missing and updates it; nothing else changes.
\<close>

locale profile_store =
  fixes record_call :: "'k \<Rightarrow> 's \<Rightarrow> 's"
    and lookup :: "'s \<Rightarrow> 'k \<Rightarrow> 'v option"
    and fresh :: "'k \<Rightarrow> 'v"
    and bump :: "'v \<Rightarrow> 'v"
    and inv :: "'s \<Rightarrow> bool"
  assumes record_inv: "inv s \<Longrightarrow> inv (record_call k s)"
    and lookup_record: "inv s \<Longrightarrow> lookup (record_call k s) j =
      (if j = k then Some (bump (case lookup s k of None \<Rightarrow> fresh k | Some v \<Rightarrow> v)) else lookup s j)"
begin

lemma run_inv: "inv s \<Longrightarrow> inv (fold record_call ks s)"
  by (induction ks arbitrary: s) (simp_all add: record_inv)

lemma lookup_run:
  "inv s \<Longrightarrow> lookup s j = None \<Longrightarrow>
   lookup (fold record_call ks s) j =
     (if j \<in> set ks then Some ((bump ^^ count_list ks j) (fresh j)) else None)"
proof (induction ks rule: rev_induct)
  case Nil
  then show ?case by simp
next
  case (snoc k ks)
  have "inv (fold record_call ks s)" using snoc.prems(1) by (rule run_inv)
  then show ?case
    using snoc by (auto simp: lookup_record)
qed

lemma dom_run: "inv s \<Longrightarrow> dom (lookup s) = {} \<Longrightarrow> dom (lookup (fold record_call ks s)) = set ks"
  by (auto simp: dom_def lookup_run split: if_splits)

end

definition profile :: "TurboJSProfiler \<Rightarrow> u64 \<Rightarrow> TurboJSProfileEntry option" where
  "profile p = map_of (map (\<lambda>e. (pe_function_id e, e)) (pr_entries p))"

definition profile_inv :: "TurboJSOptimizationConfig \<Rightarrow> TurboJSProfiler \<Rightarrow> bool" where
  "profile_inv c p \<longleftrightarrow> pr_config p = c \<and> pr_count p = length (pr_entries p) \<and> pr_count p \<le> pr_capacity p \<and>
     distinct (map pe_function_id (pr_entries p))"

definition fresh_entry :: "u64 \<Rightarrow> TurboJSProfileEntry" where
  "fresh_entry function_id =
     \<lparr>pe_function_id = function_id, pe_call_count = 0, pe_requested_tier = TURBOJS_TIER_INTERPRETER\<rparr>"

definition record_call_ok :: "u64 \<Rightarrow> TurboJSProfiler \<Rightarrow> TurboJSProfiler" where
  "record_call_ok function_id p =
     (case TurboJS_ProfilerRecordCall True (Some p) function_id of Inr (_, Some q) \<Rightarrow> q | _ \<Rightarrow> p)"

definition out_of_memory :: "bool \<Rightarrow> TurboJSProfiler \<Rightarrow> u64 \<Rightarrow> bool" where
  "out_of_memory realloc_ok p k \<longleftrightarrow> \<not> realloc_ok \<and> profile p k = None \<and> pr_count p = pr_capacity p"

lemma record_entry_id [simp]: "pe_function_id (record_entry c e) = pe_function_id e"
  by (simp add: record_entry_def Let_def)

lemma find_entry_from_eq:
  "i + n = length es \<Longrightarrow>
   find_entry_from n i es k =
     Inr (if k \<in> pe_function_id ` set (drop i es)
          then Some (LEAST j. i \<le> j \<and> j < length es \<and> pe_function_id (es ! j) = k) else None)"
proof (induction n arbitrary: i)
  case 0
  then show ?case by simp
next
  case (Suc n)
  then have i: "i < length es" by simp
  then have d: "drop i es = es ! i # drop (Suc i) es" by (simp add: Cons_nth_drop_Suc)
  show ?case
  proof (cases "pe_function_id (es ! i) = k")
    case True
    have "(LEAST j. i \<le> j \<and> j < length es \<and> pe_function_id (es ! j) = k) = i"
      using True i by (intro Least_equality) auto
    with True i d show ?thesis by (simp add: rd_def bindc_def)
  next
    case False
    then have "(i \<le> j \<and> j < length es \<and> pe_function_id (es ! j) = k) =
        (Suc i \<le> j \<and> j < length es \<and> pe_function_id (es ! j) = k)" for j
      by (metis Suc_leD Suc_leI le_neq_implies_less)
    with False Suc i d show ?thesis by (auto simp: rd_def bindc_def)
  qed
qed

lemma find_entry_cases:
  assumes "pr_count p = length (pr_entries p)"
  obtains (None) "find_entry p k = Inr None" "profile p k = None" "k \<notin> pe_function_id ` set (pr_entries p)"
  | (Some) i where "find_entry p k = Inr (Some i)" "i < length (pr_entries p)"
      "pe_function_id (pr_entries p ! i) = k"
proof (cases "k \<in> pe_function_id ` set (pr_entries p)")
  case False
  then have "profile p k = None" by (auto simp: profile_def map_of_eq_None_iff)
  with False show thesis
    using that(1) assms find_entry_from_eq [of 0 "pr_count p" "pr_entries p" k]
    by (auto simp: find_entry_def)
next
  case True
  then obtain j where j: "j < length (pr_entries p)" "pe_function_id (pr_entries p ! j) = k"
    by (auto simp: in_set_conv_nth)
  let ?P = "\<lambda>j. 0 \<le> j \<and> j < length (pr_entries p) \<and> pe_function_id (pr_entries p ! j) = k"
  have "?P (LEAST j. ?P j)" by (rule LeastI [of ?P j]) (simp add: j)
  then show thesis
    using that(2) True assms find_entry_from_eq [of 0 "pr_count p" "pr_entries p" k]
    by (simp add: find_entry_def)
qed

lemma profile_nth:
  assumes "distinct (map pe_function_id (pr_entries p))" "i < length (pr_entries p)"
  shows "profile p (pe_function_id (pr_entries p ! i)) = Some (pr_entries p ! i)"
proof -
  have "(pe_function_id (pr_entries p ! i), pr_entries p ! i) \<in> set (map (\<lambda>e. (pe_function_id e, e)) (pr_entries p))"
    using assms(2) by (auto intro!: image_eqI)
  then show ?thesis
    using assms(1) unfolding profile_def by (intro map_of_is_SomeI) (simp_all add: comp_def)
qed

lemma map_of_update_entry:
  "distinct (map pe_function_id es) \<Longrightarrow> i < length es \<Longrightarrow> pe_function_id e = pe_function_id (es ! i) \<Longrightarrow>
   map_of (map (\<lambda>e. (pe_function_id e, e)) (es[i := e])) =
     (map_of (map (\<lambda>e. (pe_function_id e, e)) es))(pe_function_id e \<mapsto> e)"
proof (induction es arbitrary: i)
  case Nil
  then show ?case by simp
next
  case (Cons a es)
  show ?case
  proof (cases i)
    case 0
    with Cons.prems show ?thesis by (simp add: fun_eq_iff)
  next
    case (Suc j)
    with Cons.prems have "pe_function_id a \<noteq> pe_function_id e" by auto
    with Suc Cons show ?thesis by (auto simp: fun_eq_iff)
  qed
qed

lemma map_of_append_entry:
  "k \<notin> pe_function_id ` set es \<Longrightarrow> pe_function_id e = k \<Longrightarrow>
   map_of (map (\<lambda>e. (pe_function_id e, e)) (es @ [e])) = (map_of (map (\<lambda>e. (pe_function_id e, e)) es))(k \<mapsto> e)"
  by (induction es) (auto simp: fun_upd_twist)

lemma record_call_spec:
  fixes k :: u64
  assumes inv: "profile_inv c p" and on: "oc_enable_profiling c"
  defines "e \<equiv> record_entry c (case profile p k of None \<Rightarrow> fresh_entry k | Some e \<Rightarrow> e)"
  shows "\<exists>t q. TurboJS_ProfilerRecordCall realloc_ok (Some p) k = Inr (t, Some q) \<and> profile_inv c q \<and>
    (if out_of_memory realloc_ok p k then t = TURBOJS_TIER_INTERPRETER \<and> q = p
     else profile q = (profile p)(k \<mapsto> e) \<and> t = pe_requested_tier e)"
proof -
  let ?es = "pr_entries p"
  have c: "pr_config p = c" and n: "pr_count p = length ?es" and cap: "pr_count p \<le> pr_capacity p"
    and d: "distinct (map pe_function_id ?es)"
    using inv by (simp_all add: profile_inv_def)
  from n show ?thesis
  proof (cases rule: find_entry_cases [of p k])
    case (Some i)
    then have pk: "profile p k = Some (?es ! i)" using profile_nth [OF d, of i] by simp
    let ?q = "p\<lparr>pr_entries := ?es[i := e]\<rparr>"
    have e: "e = record_entry c (?es ! i)" by (simp add: e_def pk)
    have "map pe_function_id (?es[i := e]) = map pe_function_id ?es"
      using Some(2,3) by (simp add: e map_update list_update_same_conv)
    then have "profile_inv c ?q" using c n cap d by (simp add: profile_inv_def)
    moreover have "profile ?q = (profile p)(k \<mapsto> e)"
      using map_of_update_entry [OF d Some(2), of e] Some(3) by (simp add: profile_def e)
    ultimately show ?thesis
      using Some c on pk
      by (simp add: TurboJS_ProfilerRecordCall_def bindc_def rd_def wr_def e out_of_memory_def)
  next
    case None
    let ?q = "p\<lparr>pr_capacity := (if pr_count p = pr_capacity p
        then (if pr_capacity p \<noteq> 0 then pr_capacity p * 2 else 32) else pr_capacity p),
      pr_entries := ?es @ [e], pr_count := pr_count p + 1\<rparr>"
    have e: "e = record_entry c (fresh_entry k)" by (simp add: e_def None)
    have "pe_function_id e = k" by (simp add: e fresh_entry_def)
    moreover have "profile_inv c ?q"
      using c n cap d None(3) \<open>pe_function_id e = k\<close> by (auto simp: profile_inv_def)
    moreover have "profile ?q = (profile p)(k \<mapsto> e)"
      using map_of_append_entry [OF None(3)] \<open>pe_function_id e = k\<close> by (simp add: profile_def)
    moreover have "TurboJS_ProfilerRecordCall realloc_ok (Some p) k =
        (if out_of_memory realloc_ok p k then Inr (TURBOJS_TIER_INTERPRETER, Some p)
         else Inr (pe_requested_tier e, Some ?q))"
      using None c on n
      by (simp add: TurboJS_ProfilerRecordCall_def append_entry_def bindc_def rd_def wr_def e
        out_of_memory_def fresh_entry_def Let_def)
    ultimately show ?thesis using inv by simp
  qed
qed

lemma query_spec:
  assumes "profile_inv c p"
  shows "TurboJS_ProfilerQuery (Some p) k (Some h) = Inr (case profile p k of None \<Rightarrow> (False, Some h)
    | Some e \<Rightarrow> (True, Some \<lparr>hot_function_id = k, hot_call_count = pe_call_count e,
                            hot_requested_tier = pe_requested_tier e\<rparr>))"
proof -
  have n: "pr_count p = length (pr_entries p)" and d: "distinct (map pe_function_id (pr_entries p))"
    using assms by (simp_all add: profile_inv_def)
  from n show ?thesis
  proof (cases rule: find_entry_cases [of p k])
    case (Some i)
    with profile_nth [OF d, of i] show ?thesis
      by (simp add: TurboJS_ProfilerQuery_def find_entry_def bindc_def rd_def)
  qed (simp add: TurboJS_ProfilerQuery_def find_entry_def bindc_def)
qed

interpretation prof: profile_store record_call_ok profile fresh_entry "record_entry c"
  "\<lambda>p. profile_inv c p \<and> oc_enable_profiling c" for c
proof
  fix k j p
  assume "profile_inv c p \<and> oc_enable_profiling c"
  then have inv: "profile_inv c p" and on: "oc_enable_profiling c" by simp_all
  obtain t q where q: "TurboJS_ProfilerRecordCall True (Some p) k = Inr (t, Some q)" "profile_inv c q"
    "profile q = (profile p)(k \<mapsto> record_entry c (case profile p k of None \<Rightarrow> fresh_entry k | Some e \<Rightarrow> e))"
    using record_call_spec [OF inv on, of True k] by (auto simp: out_of_memory_def)
  then have r: "record_call_ok k p = q" by (simp add: record_call_ok_def)
  show "profile_inv c (record_call_ok k p) \<and> oc_enable_profiling c" using q(2) on by (simp add: r)
  show "profile (record_call_ok k p) j = (if j = k
      then Some (record_entry c (case profile p k of None \<Rightarrow> fresh_entry k | Some v \<Rightarrow> v)) else profile p j)"
    using q(3) by (simp add: r)
qed

text \<open>The tier a function has after a positive number of recorded calls.\<close>

definition tier_after :: "TurboJSOptimizationConfig \<Rightarrow> nat \<Rightarrow> TurboJSOptimizationTier" where
  "tier_after c n =
     (if oc_enable_jit c \<and> oc_enable_optimizing_jit c \<and> unat (oc_optimizing_threshold c) \<le> n
      then TURBOJS_TIER_OPTIMIZING
      else if oc_enable_jit c \<and> unat (oc_baseline_threshold c) \<le> n then TURBOJS_TIER_BASELINE
      else TURBOJS_TIER_INTERPRETER)"

lemma unat_ucast_32_64: "unat (ucast (t :: u32) :: u64) = unat t"
  using unat32_less [of t] by (simp add: unsigned_ucast_eq take_bit_nat_eq_self)

lemma threshold_reached:
  "n < 2 ^ 64 \<Longrightarrow> (ucast (t :: u32) :: u64) \<le> word_of_nat n \<longleftrightarrow> unat t \<le> n"
  by (simp add: word_le_nat_alt unat_of_nat unat_ucast_32_64)

lemma record_entry_pow:
  "n < 2 ^ 64 \<Longrightarrow> (record_entry c ^^ n) (fresh_entry k) =
     \<lparr>pe_function_id = k, pe_call_count = word_of_nat n,
      pe_requested_tier = (if n = 0 then TURBOJS_TIER_INTERPRETER else tier_after c n)\<rparr>"
proof (induction n)
  case 0
  then show ?case by (simp add: fresh_entry_def)
next
  case (Suc n)
  have th: "ucast t \<le> (word_of_nat n + 1 :: u64) \<longleftrightarrow> unat t \<le> Suc n" for t :: u32
    using threshold_reached [of "Suc n" t] Suc.prems by (simp add: add.commute)
  have pow: "(record_entry c ^^ n) (fresh_entry k) =
     \<lparr>pe_function_id = k, pe_call_count = word_of_nat n,
      pe_requested_tier = (if n = 0 then TURBOJS_TIER_INTERPRETER else tier_after c n)\<rparr>"
    using Suc by simp
  have "(record_entry c ^^ Suc n) (fresh_entry k) = record_entry c ((record_entry c ^^ n) (fresh_entry k))"
    by simp
  also have "\<dots> = \<lparr>pe_function_id = k, pe_call_count = word_of_nat n + 1, pe_requested_tier = tier_after c (Suc n)\<rparr>"
    unfolding pow by (simp add: record_entry_def tier_after_def th Let_def)
  finally show ?case by (simp add: add.commute)
qed

fun profile_run :: "(bool \<times> u64) list \<Rightarrow> TurboJSProfiler ptr \<Rightarrow> TurboJSProfiler ptr c" where
  "profile_run [] p = Inr p"
| "profile_run ((realloc_ok, k) # calls) p =
     bindc (TurboJS_ProfilerRecordCall realloc_ok p k) (\<lambda>(_, q). profile_run calls q)"

lemma profile_run_ok:
  assumes "profile_inv c p" "oc_enable_profiling c"
  shows "profile_run (map (Pair True) ks) (Some p) = Inr (Some (fold record_call_ok ks p))"
  using assms(1)
proof (induction ks arbitrary: p)
  case Nil
  then show ?case by simp
next
  case (Cons k ks)
  obtain t q where q: "TurboJS_ProfilerRecordCall True (Some p) k = Inr (t, Some q)" "profile_inv c q"
    using record_call_spec [OF Cons.prems assms(2), of True k] by auto
  moreover from this have "record_call_ok k p = q" by (simp add: record_call_ok_def)
  ultimately show ?case using Cons.IH [of q] by (simp add: bindc_def)
qed

lemma profile_card: "profile_inv c p \<Longrightarrow> pr_count p = card (dom (profile p))"
proof -
  assume "profile_inv c p"
  moreover have "dom (profile p) = set (map pe_function_id (pr_entries p))"
    by (auto simp: profile_def dom_map_of_conv_image_fst image_image)
  ultimately show ?thesis using distinct_card [of "map pe_function_id (pr_entries p)"]
    by (simp add: profile_inv_def)
qed

section \<open>Pipeline identities\<close>

datatype TurboJSPipelineComponent =
    TURBOJS_PIPELINE_ROTOR_FRONTEND | TURBOJS_PIPELINE_PULSE_INTERPRETER | TURBOJS_PIPELINE_SPOOL_BASELINE
  | TURBOJS_PIPELINE_REDLINE_OPTIMIZER | TURBOJS_PIPELINE_FORGE_AOT | TURBOJS_PIPELINE_TELEMETRY_FEEDBACK
  | TURBOJS_PIPELINE_RELAY_INLINE_CACHE | TURBOJS_PIPELINE_CLUTCH_CALL_ABI
  | TURBOJS_PIPELINE_BEACON_IDENTITY_REGISTRY | TURBOJS_PIPELINE_SLIPSTREAM_OSR | TURBOJS_PIPELINE_REWIND_DEOPT
  | TURBOJS_PIPELINE_GEARBOX_BACKEND | TURBOJS_PIPELINE_VAULT_CODE_CACHE | TURBOJS_PIPELINE_COMPONENT_COUNT

fun component_number :: "TurboJSPipelineComponent \<Rightarrow> nat" where
  "component_number TURBOJS_PIPELINE_ROTOR_FRONTEND = 0"
| "component_number TURBOJS_PIPELINE_PULSE_INTERPRETER = 1"
| "component_number TURBOJS_PIPELINE_SPOOL_BASELINE = 2"
| "component_number TURBOJS_PIPELINE_REDLINE_OPTIMIZER = 3"
| "component_number TURBOJS_PIPELINE_FORGE_AOT = 4"
| "component_number TURBOJS_PIPELINE_TELEMETRY_FEEDBACK = 5"
| "component_number TURBOJS_PIPELINE_RELAY_INLINE_CACHE = 6"
| "component_number TURBOJS_PIPELINE_CLUTCH_CALL_ABI = 7"
| "component_number TURBOJS_PIPELINE_BEACON_IDENTITY_REGISTRY = 8"
| "component_number TURBOJS_PIPELINE_SLIPSTREAM_OSR = 9"
| "component_number TURBOJS_PIPELINE_REWIND_DEOPT = 10"
| "component_number TURBOJS_PIPELINE_GEARBOX_BACKEND = 11"
| "component_number TURBOJS_PIPELINE_VAULT_CODE_CACHE = 12"
| "component_number TURBOJS_PIPELINE_COMPONENT_COUNT = 13"

record TurboJSPipelineIdentity =
  pi_component :: TurboJSPipelineComponent
  pi_codename :: string
  pi_role :: string

definition identity_row :: "TurboJSPipelineComponent \<Rightarrow> string \<Rightarrow> string \<Rightarrow> TurboJSPipelineIdentity" where
  "identity_row component codename role =
     \<lparr>pi_component = component, pi_codename = codename, pi_role = role\<rparr>"

definition turbojs_pipeline_identities :: "TurboJSPipelineIdentity list" where
  "turbojs_pipeline_identities = [
     identity_row TURBOJS_PIPELINE_ROTOR_FRONTEND ''Rotor'' ''bytecode frontend'',
     identity_row TURBOJS_PIPELINE_PULSE_INTERPRETER ''Pulse'' ''interpreter'',
     identity_row TURBOJS_PIPELINE_SPOOL_BASELINE ''Spool'' ''baseline JIT'',
     identity_row TURBOJS_PIPELINE_REDLINE_OPTIMIZER ''Redline'' ''optimizing JIT'',
     identity_row TURBOJS_PIPELINE_FORGE_AOT ''Forge'' ''ahead-of-time compiler'',
     identity_row TURBOJS_PIPELINE_TELEMETRY_FEEDBACK ''Telemetry'' ''feedback system'',
     identity_row TURBOJS_PIPELINE_RELAY_INLINE_CACHE ''Relay'' ''inline caches'',
     identity_row TURBOJS_PIPELINE_CLUTCH_CALL_ABI ''Clutch'' ''compiled call ABI'',
     identity_row TURBOJS_PIPELINE_BEACON_IDENTITY_REGISTRY ''Beacon'' ''live function identity registry'',
     identity_row TURBOJS_PIPELINE_SLIPSTREAM_OSR ''Slipstream'' ''OSR and tier transitions'',
     identity_row TURBOJS_PIPELINE_REWIND_DEOPT ''Rewind'' ''deoptimization'',
     identity_row TURBOJS_PIPELINE_GEARBOX_BACKEND ''Gearbox'' ''machine backend'',
     identity_row TURBOJS_PIPELINE_VAULT_CODE_CACHE ''Vault'' ''native code cache'']"

definition TurboJS_PipelineIdentity :: "TurboJSPipelineComponent \<Rightarrow> TurboJSPipelineIdentity ptr" where
  "TurboJS_PipelineIdentity component =
     (let index = component_number component
      in if length turbojs_pipeline_identities \<le> index then None
         else if pi_component (turbojs_pipeline_identities ! index) \<noteq> component then None
         else Some (turbojs_pipeline_identities ! index))"

definition TurboJS_PipelineComponentCodename :: "TurboJSPipelineComponent \<Rightarrow> string" where
  "TurboJS_PipelineComponentCodename component =
     (case TurboJS_PipelineIdentity component of None \<Rightarrow> ''Unknown'' | Some identity \<Rightarrow> pi_codename identity)"

definition TurboJS_PipelineComponentRole :: "TurboJSPipelineComponent \<Rightarrow> string" where
  "TurboJS_PipelineComponentRole component =
     (case TurboJS_PipelineIdentity component of None \<Rightarrow> ''unknown'' | Some identity \<Rightarrow> pi_role identity)"

definition TurboJS_PipelineComponentCount :: nat where
  "TurboJS_PipelineComponentCount = length turbojs_pipeline_identities"

fun TurboJS_OptimizationTierCodename :: "TurboJSOptimizationTier \<Rightarrow> string" where
  "TurboJS_OptimizationTierCodename TURBOJS_TIER_INTERPRETER =
     TurboJS_PipelineComponentCodename TURBOJS_PIPELINE_PULSE_INTERPRETER"
| "TurboJS_OptimizationTierCodename TURBOJS_TIER_BASELINE =
     TurboJS_PipelineComponentCodename TURBOJS_PIPELINE_SPOOL_BASELINE"
| "TurboJS_OptimizationTierCodename TURBOJS_TIER_OPTIMIZING =
     TurboJS_PipelineComponentCodename TURBOJS_PIPELINE_REDLINE_OPTIMIZER"
| "TurboJS_OptimizationTierCodename TURBOJS_TIER_AOT =
     TurboJS_PipelineComponentCodename TURBOJS_PIPELINE_FORGE_AOT"

section \<open>Properties\<close>

text \<open>
  C26. The profiler counts calls exactly and promotes at the thresholds. After any sequence of
  recorded calls in a new profiler (profiling on, fewer than \<open>2 ^ 64\<close> calls, allocations that
  succeed) there is one entry per distinct function, a query of a called function answers with
  the number of its calls and the tier of that count, and a query of any other function says
  there is none. The optimizing threshold is never below the baseline threshold.
\<close>

theorem profiler_counts_calls:
  assumes "oc_enable_profiling c" and "length ks < 2 ^ 64"
  shows "\<exists>p. profile_run (map (Pair True) ks) (TurboJS_ProfilerCreate True d (Some c)) = Inr (Some p) \<and>
    TurboJS_ProfilerFunctionCount (Some p) = card (set ks) \<and>
    (\<forall>k h. TurboJS_ProfilerQuery (Some p) k (Some h) = Inr (if k \<in> set ks
       then (True, Some \<lparr>hot_function_id = k, hot_call_count = word_of_nat (count_list ks k),
               hot_requested_tier = tier_after
                 (c\<lparr>oc_optimizing_threshold := max (oc_optimizing_threshold c) (oc_baseline_threshold c)\<rparr>)
                 (count_list ks k)\<rparr>)
       else (False, Some h)))"
proof -
  let ?c = "c\<lparr>oc_optimizing_threshold := max (oc_optimizing_threshold c) (oc_baseline_threshold c)\<rparr>"
  let ?start = "\<lparr>pr_config = ?c, pr_entries = [], pr_count = 0, pr_capacity = 0\<rparr>"
  let ?p = "fold record_call_ok ks ?start"
  have create: "TurboJS_ProfilerCreate True d (Some c) = Some ?start"
    by (auto simp: TurboJS_ProfilerCreate_def Let_def max_def)
  have inv: "profile_inv ?c ?start \<and> oc_enable_profiling ?c" using assms(1) by (simp add: profile_inv_def)
  have empty: "profile ?start k = None" for k by (simp add: profile_def)
  have run: "profile_run (map (Pair True) ks) (Some ?start) = Inr (Some ?p)"
    using profile_run_ok [of ?c] inv by simp
  have pinv: "profile_inv ?c ?p" using prof.run_inv [OF inv] by simp
  have "count_list ks k < 2 ^ 64" for k using assms(2) count_le_length [of ks k] by simp
  then have "profile ?p k = (if k \<in> set ks then Some \<lparr>pe_function_id = k,
      pe_call_count = word_of_nat (count_list ks k), pe_requested_tier = tier_after ?c (count_list ks k)\<rparr>
      else None)" for k
    using prof.lookup_run [OF inv empty, of ks k] by (simp add: record_entry_pow count_list_0_iff)
  then have "TurboJS_ProfilerQuery (Some ?p) k (Some h) = Inr (if k \<in> set ks
       then (True, Some \<lparr>hot_function_id = k, hot_call_count = word_of_nat (count_list ks k),
               hot_requested_tier = tier_after ?c (count_list ks k)\<rparr>)
       else (False, Some h))" for k h
    by (simp add: query_spec [OF pinv])
  moreover have "TurboJS_ProfilerFunctionCount (Some ?p) = card (set ks)"
    using profile_card [OF pinv] prof.dom_run [OF inv, of ks] empty
    by (simp add: TurboJS_ProfilerFunctionCount_def dom_def)
  ultimately show ?thesis unfolding create using run by blast
qed

theorem profiler_counts_calls_witness:
  "\<exists>p. profile_run (map (Pair True) [7, 9, 7])
       (TurboJS_ProfilerCreate True (TurboJS_DefaultOptimizationConfig True True) (Some ((TurboJS_DefaultOptimizationConfig True True)\<lparr>oc_baseline_threshold := 2\<rparr>))) = Inr (Some p) \<and>
     TurboJS_ProfilerQuery (Some p) 7 (Some \<lparr>hot_function_id = 0, hot_call_count = 0, hot_requested_tier = TURBOJS_TIER_AOT\<rparr>) =
       Inr (True, Some \<lparr>hot_function_id = 7, hot_call_count = 2, hot_requested_tier = TURBOJS_TIER_BASELINE\<rparr>)"
proof -
  let ?c = "(TurboJS_DefaultOptimizationConfig True True)\<lparr>oc_baseline_threshold := 2\<rparr>"
  have "oc_enable_profiling ?c" "length [7, 9, 7 :: u64] < 2 ^ 64"
    by (simp_all add: TurboJS_DefaultOptimizationConfig_def)
  from profiler_counts_calls [OF this, of "TurboJS_DefaultOptimizationConfig True True"] show ?thesis
    by (auto simp: tier_after_def TurboJS_DefaultOptimizationConfig_def max_def)
qed

text \<open>
  Recording a call never faults and never demotes. From any well-formed profile with room in
  its counters, recording a call (whether or not a reallocation would succeed) keeps the profile
  well formed, keeps every entry with a count and a tier at least as high, leaves the entries of
  other functions as they were, and returns the tier the function now has; only a call of an
  unknown function with memory exhausted is lost, and it is answered with the interpreter tier.
\<close>

lemma profiler_never_demotes:
  assumes "profile_inv c p" "oc_enable_profiling c"
    and "\<forall>j e. profile p j = Some e \<longrightarrow> unat (pe_call_count e) < 2 ^ 64 - 1 \<and> pe_requested_tier e \<le> TURBOJS_TIER_OPTIMIZING \<and>
      (pe_requested_tier e = TURBOJS_TIER_OPTIMIZING \<longrightarrow> oc_enable_jit c \<and> oc_enable_optimizing_jit c \<and>
        unat (oc_optimizing_threshold c) \<le> unat (pe_call_count e))"
  shows "\<exists>t q. TurboJS_ProfilerRecordCall realloc_ok (Some p) k = Inr (t, Some q) \<and> profile_inv c q \<and>
    (\<forall>j e. profile p j = Some e \<longrightarrow> (\<exists>e'. profile q j = Some e' \<and> (if j = k then pe_call_count e < pe_call_count e' \<and>
       pe_requested_tier e \<le> pe_requested_tier e' else e' = e))) \<and>
    (if out_of_memory realloc_ok p k then t = TURBOJS_TIER_INTERPRETER \<and> q = p
     else \<exists>e. profile q k = Some e \<and> t = pe_requested_tier e)"
proof -
  obtain t q where q: "TurboJS_ProfilerRecordCall realloc_ok (Some p) k = Inr (t, Some q)" "profile_inv c q"
    "if out_of_memory realloc_ok p k then t = TURBOJS_TIER_INTERPRETER \<and> q = p
     else profile q = (profile p)(k \<mapsto> record_entry c (case profile p k of None \<Rightarrow> fresh_entry k | Some e \<Rightarrow> e)) \<and>
       t = pe_requested_tier (record_entry c (case profile p k of None \<Rightarrow> fresh_entry k | Some e \<Rightarrow> e))"
    using record_call_spec [OF assms(1,2), of realloc_ok k] by blast
  have grow: "pe_call_count e < pe_call_count (record_entry c e) \<and>
      pe_requested_tier e \<le> pe_requested_tier (record_entry c e)" if "profile p k = Some e" for e
  proof -
    have lt: "unat (pe_call_count e + 1) = unat (pe_call_count e) + 1" and
      tier: "pe_requested_tier e \<le> TURBOJS_TIER_OPTIMIZING"
      "pe_requested_tier e = TURBOJS_TIER_OPTIMIZING \<Longrightarrow> oc_enable_jit c \<and> oc_enable_optimizing_jit c \<and>
        unat (oc_optimizing_threshold c) \<le> unat (pe_call_count e)"
      using assms(3) that by (force simp: unat_word_ariths)+
    then show ?thesis
      by (cases "pe_requested_tier e")
        (auto simp: record_entry_def Let_def less_eq_tier word_less_nat_alt word_le_nat_alt unat_ucast_32_64)
  qed
  show ?thesis
  proof (intro exI [of _ t] exI [of _ q] conjI allI impI)
    show "TurboJS_ProfilerRecordCall realloc_ok (Some p) k = Inr (t, Some q)" "profile_inv c q" by (rule q)+
    show "if out_of_memory realloc_ok p k then t = TURBOJS_TIER_INTERPRETER \<and> q = p
      else \<exists>e. profile q k = Some e \<and> t = pe_requested_tier e"
      using q(3) by simp
    fix j e assume e: "profile p j = Some e"
    then show "\<exists>e'. profile q j = Some e' \<and> (if j = k then pe_call_count e < pe_call_count e' \<and>
       pe_requested_tier e \<le> pe_requested_tier e' else e' = e)"
      using q(3) grow [of e]
      by (cases "j = k"; cases "out_of_memory realloc_ok p k") (simp_all add: out_of_memory_def)
  qed
qed

text \<open>
  The identity table is consistent: every pipeline component other than the count sentinel
  has a row that names it, the number of rows is the sentinel's number, distinct components have
  distinct codenames, and distinct tiers have distinct codenames, none of them unknown.
\<close>

lemma pipeline_identities_consistent:
  "TurboJS_PipelineComponentCount = component_number TURBOJS_PIPELINE_COMPONENT_COUNT \<and>
   (case TurboJS_PipelineIdentity a of
      None \<Rightarrow> a = TURBOJS_PIPELINE_COMPONENT_COUNT
    | Some row \<Rightarrow> pi_component row = a \<and> TurboJS_PipelineComponentCodename a = pi_codename row \<and>
        TurboJS_PipelineComponentRole a = pi_role row) \<and>
   (TurboJS_PipelineComponentCodename a = TurboJS_PipelineComponentCodename b \<longleftrightarrow> a = b) \<and>
   (TurboJS_OptimizationTierCodename s = TurboJS_OptimizationTierCodename t \<longleftrightarrow> s = t) \<and>
   TurboJS_OptimizationTierCodename s \<noteq> ''Unknown''"
proof -
  have code: "TurboJS_PipelineComponentCodename a =
      (if a = TURBOJS_PIPELINE_COMPONENT_COUNT then ''Unknown''
       else pi_codename (turbojs_pipeline_identities ! component_number a))" for a
    by (cases a) (simp_all add: TurboJS_PipelineComponentCodename_def TurboJS_PipelineIdentity_def
      turbojs_pipeline_identities_def identity_row_def)
  note ids = turbojs_pipeline_identities_def identity_row_def
  have "TurboJS_PipelineComponentCodename a = TurboJS_PipelineComponentCodename b \<longleftrightarrow> a = b" for a b
    by (cases a; cases b) (simp_all add: code ids)
  moreover have "case TurboJS_PipelineIdentity a of
      None \<Rightarrow> a = TURBOJS_PIPELINE_COMPONENT_COUNT
    | Some row \<Rightarrow> pi_component row = a \<and> TurboJS_PipelineComponentCodename a = pi_codename row \<and>
        TurboJS_PipelineComponentRole a = pi_role row"
    by (cases a) (simp_all add: code TurboJS_PipelineComponentRole_def TurboJS_PipelineIdentity_def ids)
  moreover have "TurboJS_OptimizationTierCodename s = TurboJS_OptimizationTierCodename t \<longleftrightarrow> s = t"
    by (cases s; cases t) (simp_all add: code ids)
  moreover have "TurboJS_OptimizationTierCodename s \<noteq> ''Unknown''" by (cases s) (simp_all add: code ids)
  ultimately show ?thesis by (simp add: TurboJS_PipelineComponentCount_def ids)
qed

end
