(* ===== verification/Specialize.thy ===== *)
theory Specialize
  imports IR_Verify
begin

text \<open>
  Specialization of callable references, \<^verbatim>\<open>src/jit/ir/callable_specialize.c\<close>: a wrapper whose
  callee is a known callable reference is rewritten from the tagged instructions into native ones,
  with a call site per call that the output function owns. The rewriting walks the instructions
  once and tracks what each register and local is known to hold.

  The allocations of instruction \<open>i\<close> are arguments: whether growing the instruction array
  (\<open>emit_ok i\<close>) or the array of owned sites (\<open>site_ok i\<close>) succeeds, and the address the new call
  site gets (\<open>fresh i\<close>, 0 when there is no memory).
\<close>

section \<open>Operations\<close>

datatype known_kind = KNOWN_NONE | KNOWN_NUMERIC | KNOWN_CALLABLE

record KnownValue =
  kv_callable :: addr
  kv_kind :: known_kind

definition null_known :: KnownValue where
  "null_known = \<lparr>kv_callable = 0, kv_kind = KNOWN_NONE\<rparr>"

record specialize_state =
  sp_regs :: "KnownValue list"
  sp_locals :: "KnownValue list"
  sp_output :: TurboJSIRFunction
  sp_heap :: jit_heap
  sp_log :: root_log

text \<open>The labels \<^verbatim>\<open>unsupported\<close>, \<^verbatim>\<open>oom\<close> and \<^verbatim>\<open>failed\<close>.\<close>

datatype specialize_exit = Exit_unsupported | Exit_oom | Exit_failed TurboJSIRStatus

type_synonym specialize_result = "(specialize_state \<times> specialize_exit option) c"

fun allocate_registers :: "nat \<Rightarrow> u16 \<Rightarrow> TurboJSIRFunction \<Rightarrow> bool \<times> TurboJSIRFunction" where
  "allocate_registers 0 target out = (True, out)"
| "allocate_registers (Suc n) target out =
     (if irf_register_count out < target
      then (case TurboJS_IRAllocateRegister (Some out) of (r, out') \<Rightarrow>
              if r = TURBOJS_IR_NO_REGISTER then (False, the out')
              else allocate_registers n target (the out'))
      else (True, out))"

definition emit_copy :: "bool \<Rightarrow> specialize_state \<Rightarrow> TurboJSIRInstruction \<Rightarrow> specialize_state \<times> specialize_exit option" where
  "emit_copy realloc_ok s ins =
     (case TurboJS_IREmit realloc_ok (Some (sp_output s)) ins of (status, out) \<Rightarrow>
        (s\<lparr>sp_output := the out\<rparr>, if status = TURBOJS_IR_OK then None else Some (Exit_failed status)))"

definition mark_numeric :: "specialize_state \<Rightarrow> u16 \<Rightarrow> specialize_state c" where
  "mark_numeric s r =
     bindc (rd (sp_regs s) (unat r)) (\<lambda>v.
     bindc (wr (sp_regs s) (unat r) (v\<lparr>kv_kind := KNOWN_NUMERIC\<rparr>)) (\<lambda>regs. Inr (s\<lparr>sp_regs := regs\<rparr>)))"

text \<open>The loop over the arguments of a call, from argument \<open>ai\<close>; \<open>None\<close> is a jump to \<^verbatim>\<open>unsupported\<close>.\<close>

fun specialize_arguments ::
  "nat \<Rightarrow> nat \<Rightarrow> TurboJSIRFunction \<Rightarrow> u16 \<Rightarrow> KnownValue list \<Rightarrow> TurboJSClutchCallSite
     \<Rightarrow> TurboJSClutchCallSite option c" where
  "specialize_arguments 0 ai input right regs site = Inr (Some site)"
| "specialize_arguments (Suc n) ai input right regs site =
     (let source = right + word_of_nat ai
      in if irf_register_count input \<le> source then Inr None
         else bindc (rd regs (unat source)) (\<lambda>v.
           if kv_kind v \<noteq> KNOWN_NUMERIC then Inr None
           else (case TurboJS_ClutchCallSiteSetArgument (Some site) (word_of_nat ai) source of
                   (status, site') \<Rightarrow>
                     if status \<noteq> TURBOJS_IR_OK then Inr None
                     else specialize_arguments n (ai + 1) input right regs (the site'))))"

text \<open>From the allocation of the call site to the end of the case, for a live reference \<open>ref\<close>.\<close>

definition specialize_site ::
  "jit_env \<Rightarrow> bool \<Rightarrow> bool \<Rightarrow> addr \<Rightarrow> TurboJSIRFunction \<Rightarrow> specialize_state \<Rightarrow> TurboJSIRInstruction
     \<Rightarrow> TurboJSCallableReference \<Rightarrow> specialize_result" where
  "specialize_site E emit_ok site_ok fresh input s ins ref =
     (let argc = unat (ins_immediate ins)
      in case TurboJS_IRAllocateClutchCallSite site_ok fresh (Some (sp_output s)) (sp_heap s) of
           (a, out, H) \<Rightarrow>
             if a = 0 then Inr (s\<lparr>sp_output := the out, sp_heap := H\<rparr>, Some Exit_oom)
             else
               (let s1 = s\<lparr>sp_output := the out, sp_heap := H\<rparr>;
                    site = TurboJS_ClutchCallSiteSetTargetIdentity
                      (TurboJS_ClutchCallSiteInit (Some null_call_site) (cr_target ref) (cr_expected_generation ref)
                         (cr_expected_kind ref) (word_of_nat argc)) (cr_target_identity ref);
                    store = (\<lambda>st site. st\<lparr>sp_heap := (sp_heap st)\<lparr>heap_sites := (heap_sites (sp_heap st))(a \<mapsto> site)\<rparr>\<rparr>)
                in case (if cr_closure_environment ref \<noteq> 0
                         then TurboJS_ClutchCallSiteSetClosureEnvironment E site (cr_closure_environment ref)
                                (if cr_owns_environment ref then Some (cr_environment_rooting ref) else None) (sp_log s)
                         else (TURBOJS_IR_OK, site, sp_log s)) of
                     (env_status, site1, log) \<Rightarrow>
                       if env_status \<noteq> TURBOJS_IR_OK
                       then Inr ((store s1 (the site1))\<lparr>sp_log := log\<rparr>, Some (Exit_failed env_status))
                       else bindc (specialize_arguments argc 0 input (ins_right ins) (sp_regs s) (the site1)) (\<lambda>r.
                         case r of
                           None \<Rightarrow> Inr ((store s1 (the site1))\<lparr>sp_log := log\<rparr>, Some Exit_unsupported)
                         | Some site2 \<Rightarrow>
                             bindc (mark_numeric ((store s1 site2)\<lparr>sp_log := log\<rparr>) (ins_destination ins)) (\<lambda>s2.
                               Inr (emit_copy emit_ok s2 (ins\<lparr>
                                 ins_opcode := (if ins_opcode ins = TURBOJS_IR_VALUE_CALL_I64
                                                then TURBOJS_IR_CALL_NATIVE_I64 else TURBOJS_IR_CALL_NATIVE_F64),
                                 ins_immediate := a, ins_left := 0, ins_right := 0\<rparr>))))))"

definition specialize_call ::
  "jit_env \<Rightarrow> bool \<Rightarrow> bool \<Rightarrow> addr \<Rightarrow> TurboJSIRFunction \<Rightarrow> specialize_state \<Rightarrow> TurboJSIRInstruction \<Rightarrow> specialize_result" where
  "specialize_call E emit_ok site_ok fresh input s ins =
     bindc (rd (sp_regs s) (unat (ins_left ins))) (\<lambda>v.
       if kv_kind v \<noteq> KNOWN_CALLABLE \<or> kv_callable v = 0 \<or>
          TURBOJS_CLUTCH_MAX_ARGUMENTS < unat (ins_immediate ins)
       then Inr (s, Some Exit_unsupported)
       else bindc (deref (heap_callables (sp_heap s)) (kv_callable v)) (\<lambda>ref.
         if unat (cr_argument_count ref) \<noteq> unat (ins_immediate ins) then Inr (s, Some Exit_unsupported)
         else bindc (TurboJS_CallableReferenceIsLive (sp_heap s) (Some ref)) (\<lambda>live.
           if \<not> live then Inr (s, Some Exit_unsupported)
           else specialize_site E emit_ok site_ok fresh input s ins ref)))"

definition copied_ops :: "TurboJSIROpcode set" where
  [enum_sets]: "copied_ops = {TURBOJS_IR_RETURN_I64, TURBOJS_IR_RETURN_F64, TURBOJS_IR_ARGUMENT, TURBOJS_IR_CONSTANT_I64,
     TURBOJS_IR_CONSTANT_F64, TURBOJS_IR_ADD_I64, TURBOJS_IR_SUB_I64, TURBOJS_IR_MUL_I64,
     TURBOJS_IR_CALL_NATIVE_I64, TURBOJS_IR_CALL_NATIVE_F64}"

text \<open>One case of the switch.\<close>

definition specialize_step ::
  "jit_env \<Rightarrow> bool \<Rightarrow> bool \<Rightarrow> addr \<Rightarrow> TurboJSIRFunction \<Rightarrow> specialize_state \<Rightarrow> TurboJSIRInstruction \<Rightarrow> specialize_result" where
  "specialize_step E emit_ok site_ok fresh input s ins =
     (case ins_opcode ins of
        TURBOJS_IR_VALUE_CALLABLE_CONSTANT \<Rightarrow>
          bindc (wr (sp_regs s) (unat (ins_destination ins))
                   \<lparr>kv_callable = ins_immediate ins, kv_kind = KNOWN_CALLABLE\<rparr>) (\<lambda>regs.
            Inr (s\<lparr>sp_regs := regs\<rparr>, None))
      | TURBOJS_IR_VALUE_CONSTANT_I32 \<Rightarrow>
          bindc (mark_numeric s (ins_destination ins)) (\<lambda>s1.
            Inr (emit_copy emit_ok s1 (ins\<lparr>ins_opcode := TURBOJS_IR_CONSTANT_I64\<rparr>)))
      | TURBOJS_IR_VALUE_ARGUMENT \<Rightarrow>
          bindc (mark_numeric s (ins_destination ins)) (\<lambda>s1.
            Inr (emit_copy emit_ok s1 (ins\<lparr>ins_opcode := TURBOJS_IR_ARGUMENT\<rparr>)))
      | TURBOJS_IR_VALUE_MOVE \<Rightarrow>
          bindc (rd (sp_regs s) (unat (ins_left ins))) (\<lambda>v.
          bindc (wr (sp_regs s) (unat (ins_destination ins)) v) (\<lambda>regs.
          bindc (rd regs (unat (ins_left ins))) (\<lambda>v'.
            Inr (s\<lparr>sp_regs := regs\<rparr>, if kv_kind v' = KNOWN_NUMERIC then Some Exit_unsupported else None))))
      | TURBOJS_IR_VALUE_LOCAL_SET \<Rightarrow>
          if unat (irf_local_count input) \<le> unat (ins_immediate ins) then Inr (s, Some Exit_unsupported)
          else
            bindc (rd (sp_regs s) (unat (ins_left ins))) (\<lambda>v.
            bindc (wr (sp_locals s) (unat (ins_immediate ins)) v) (\<lambda>locals.
              if kv_kind v = KNOWN_NUMERIC
              then Inr (emit_copy emit_ok (s\<lparr>sp_locals := locals\<rparr>) (ins\<lparr>ins_opcode := TURBOJS_IR_LOCAL_SET\<rparr>))
              else Inr (s\<lparr>sp_locals := locals\<rparr>, None)))
      | TURBOJS_IR_VALUE_LOCAL_GET \<Rightarrow>
          if unat (irf_local_count input) \<le> unat (ins_immediate ins) then Inr (s, Some Exit_unsupported)
          else
            bindc (rd (sp_locals s) (unat (ins_immediate ins))) (\<lambda>v.
            bindc (wr (sp_regs s) (unat (ins_destination ins)) v) (\<lambda>regs.
              if kv_kind v = KNOWN_NUMERIC
              then Inr (emit_copy emit_ok (s\<lparr>sp_regs := regs\<rparr>) (ins\<lparr>ins_opcode := TURBOJS_IR_LOCAL_GET\<rparr>))
              else Inr (s\<lparr>sp_regs := regs\<rparr>, None)))
      | TURBOJS_IR_VALUE_CALL_I64 \<Rightarrow> specialize_call E emit_ok site_ok fresh input s ins
      | TURBOJS_IR_VALUE_CALL_F64 \<Rightarrow> specialize_call E emit_ok site_ok fresh input s ins
      | TURBOJS_IR_VALUE_RETURN \<Rightarrow>
          bindc (rd (sp_regs s) (unat (ins_left ins))) (\<lambda>v.
            if kv_kind v \<noteq> KNOWN_NUMERIC then Inr (s, Some Exit_unsupported)
            else Inr (emit_copy emit_ok s (ins\<lparr>ins_opcode := TURBOJS_IR_RETURN_I64\<rparr>)))
      | _ \<Rightarrow>
          if ins_opcode ins \<in> copied_ops
          then (case emit_copy emit_ok s ins of (s1, exit) \<Rightarrow>
                  if exit = None \<and> ins_destination ins < irf_register_count input
                  then bindc (mark_numeric s1 (ins_destination ins)) (\<lambda>s2. Inr (s2, None))
                  else Inr (s1, exit))
          else Inr (s, Some Exit_unsupported))"

fun specialize_loop ::
  "nat \<Rightarrow> jit_env \<Rightarrow> (nat \<Rightarrow> bool) \<Rightarrow> (nat \<Rightarrow> bool) \<Rightarrow> (nat \<Rightarrow> addr) \<Rightarrow> TurboJSIRFunction \<Rightarrow> nat \<Rightarrow> specialize_state
     \<Rightarrow> (specialize_state \<times> nat \<times> specialize_exit option) c" where
  "specialize_loop 0 E emit_ok site_ok fresh input i s = Inr (s, i, None)"
| "specialize_loop (Suc n) E emit_ok site_ok fresh input i s =
     bindc (rd (case irf_instructions input of None \<Rightarrow> [] | Some xs \<Rightarrow> xs) i) (\<lambda>ins.
     bindc (specialize_step E (emit_ok i) (site_ok i) (fresh i) input s ins) (\<lambda>(s', exit).
       case exit of
         None \<Rightarrow> specialize_loop n E emit_ok site_ok fresh input (i + 1) s'
       | Some e \<Rightarrow> Inr (s', i, Some e)))"

text \<open>The result: status, output function, diagnostic, store, log.\<close>

definition specialize_exit_path ::
  "specialize_state \<Rightarrow> nat \<Rightarrow> specialize_exit \<Rightarrow> TurboJSIRDiagnostic ptr
     \<Rightarrow> (TurboJSIRStatus \<times> TurboJSIRFunction ptr \<times> TurboJSIRDiagnostic ptr \<times> jit_heap \<times> root_log) c" where
  "specialize_exit_path s i exit diagnostic =
     bindc (TurboJS_IRFunctionDestroy (Some (sp_output s)) (sp_heap s) (sp_log s)) (\<lambda>(out, H, log).
       case exit of
         Exit_unsupported \<Rightarrow>
           Inr (TURBOJS_IR_UNSUPPORTED, out,
                map_option (\<lambda>_. \<lparr>diag_status = TURBOJS_IR_UNSUPPORTED, diag_instruction_index = i,
                  diag_message = ''tagged callable wrapper remains dynamic''\<rparr>) diagnostic, H, log)
       | Exit_oom \<Rightarrow> Inr (TURBOJS_IR_OUT_OF_MEMORY, out, diagnostic, H, log)
       | Exit_failed status \<Rightarrow> Inr (status, out, diagnostic, H, log))"

definition specialize_start :: "u64 \<Rightarrow> TurboJSIRFunction \<Rightarrow> TurboJSIRFunction" where
  "specialize_start next_id input =
     (the (TurboJS_IRFunctionSetLocalCount
        (fst (TurboJS_IRFunctionInit next_id (Some null_function) (irf_argument_count input)))
        (irf_local_count input)))\<lparr>irf_source_local_count := irf_source_local_count input\<rparr>"

definition TurboJS_IRSpecializeCallableReferences ::
  "jit_env \<Rightarrow> (nat \<Rightarrow> bool) \<Rightarrow> (nat \<Rightarrow> bool) \<Rightarrow> (nat \<Rightarrow> addr) \<Rightarrow> u64 \<Rightarrow> TurboJSIRFunction ptr \<Rightarrow> TurboJSIRFunction ptr
     \<Rightarrow> TurboJSIRDiagnostic ptr \<Rightarrow> jit_heap \<Rightarrow> root_log
     \<Rightarrow> (TurboJSIRStatus \<times> TurboJSIRFunction ptr \<times> TurboJSIRDiagnostic ptr \<times> jit_heap \<times> root_log) c" where
  "TurboJS_IRSpecializeCallableReferences E emit_ok site_ok fresh next_id input output diagnostic H log =
     (case (input, output) of
        (Some inp, Some _) \<Rightarrow>
          (case allocate_registers (unat (irf_register_count inp)) (irf_register_count inp)
                  (specialize_start next_id inp) of (enough, out) \<Rightarrow>
             (let s = \<lparr>sp_regs = replicate TURBOJS_IR_MAX_REGISTERS null_known,
                       sp_locals = replicate TURBOJS_IR_MAX_REGISTERS null_known,
                       sp_output = out, sp_heap = H, sp_log = log\<rparr>
              in if \<not> enough then specialize_exit_path s 0 Exit_unsupported diagnostic
                 else bindc (specialize_loop (irf_instruction_count inp) E emit_ok site_ok fresh inp 0 s) (\<lambda>(s', i, exit).
                   case exit of
                     Some e \<Rightarrow> specialize_exit_path s' i e diagnostic
                   | None \<Rightarrow>
                       bindc (TurboJS_IRVerify (sp_heap s') (Some (sp_output s')) diagnostic) (\<lambda>(status, diagnostic').
                         if status \<noteq> TURBOJS_IR_OK then specialize_exit_path s' i Exit_unsupported diagnostic'
                         else Inr (TURBOJS_IR_OK, Some (sp_output s'), diagnostic', sp_heap s', sp_log s')))))
      | _ \<Rightarrow> Inr (TURBOJS_IR_INVALID_ARGUMENT, output, diagnostic, H, log))"

section \<open>Invariant\<close>

text \<open>
  What holds after the first \<open>i\<close> instructions: the output is well formed and owns call sites at
  fresh addresses only, everything else in the store is as it was, the roots retained are those the
  owned sites hold, every known callable resolves, and the emitted code is native code whose call
  sites resolve.
\<close>

definition native_ops :: "TurboJSIROpcode set" where
  [enum_sets]: "native_ops = copied_ops \<union> {TURBOJS_IR_LOCAL_GET, TURBOJS_IR_LOCAL_SET}"

definition callable_resolves :: "jit_heap \<Rightarrow> addr \<Rightarrow> bool" where
  "callable_resolves H a \<longleftrightarrow> (\<exists>r. heap_callables H a = Some r \<and> (cr_target r = 0 \<or> heap_handles H (cr_target r) \<noteq> None))"

definition known_ok :: "jit_heap \<Rightarrow> KnownValue \<Rightarrow> bool" where
  "known_ok H v \<longleftrightarrow> (kv_kind v = KNOWN_CALLABLE \<longrightarrow> kv_callable v \<noteq> 0 \<longrightarrow> callable_resolves H (kv_callable v))"

definition sites_balance :: "TurboJSIRFunction \<Rightarrow> jit_heap \<Rightarrow> addr \<times> addr \<Rightarrow> int" where
  "sites_balance f H x = (\<Sum>a\<leftarrow>irf_owned_clutch_sites f. holds (site_root (the (heap_sites H a))) x)"

definition output_inv :: "jit_heap \<Rightarrow> TurboJSIRFunction \<Rightarrow> TurboJSIRFunction \<Rightarrow> jit_heap \<Rightarrow> bool" where
  "output_inv H inp out K \<longleftrightarrow> storage_inv out \<and> owned_inv out K \<and> irf_owned_callable_references out = [] \<and>
     irf_register_count out = irf_register_count inp \<and> irf_argument_count out = irf_argument_count inp \<and>
     irf_local_count out = irf_local_count inp \<and>
     heap_callables K = heap_callables H \<and> heap_handles K = heap_handles H \<and>
     heap_sites K |` (- set (irf_owned_clutch_sites out)) = heap_sites H \<and>
     (\<forall>ins\<in>set (irf_code out). ins_opcode ins \<in> native_ops \<and> site_resolves K ins)"

definition spec_inv :: "jit_heap \<Rightarrow> root_log \<Rightarrow> TurboJSIRFunction \<Rightarrow> (nat \<Rightarrow> addr) \<Rightarrow> nat \<Rightarrow> specialize_state \<Rightarrow> bool" where
  "spec_inv H log inp fresh i s \<longleftrightarrow> output_inv H inp (sp_output s) (sp_heap s) \<and>
     set (irf_owned_clutch_sites (sp_output s)) \<subseteq> fresh ` {0..<i} - {0} \<and>
     (\<forall>x. root_balance (sp_log s) x = root_balance log x + sites_balance (sp_output s) (sp_heap s) x) \<and>
     length (sp_regs s) = TURBOJS_IR_MAX_REGISTERS \<and> length (sp_locals s) = TURBOJS_IR_MAX_REGISTERS \<and>
     (\<forall>v\<in>set (sp_regs s) \<union> set (sp_locals s). known_ok H v)"

definition specializable :: "jit_heap \<Rightarrow> TurboJSIRFunction \<Rightarrow> (nat \<Rightarrow> addr) \<Rightarrow> bool" where
  "specializable H inp fresh \<longleftrightarrow> storage_inv inp \<and> sites_resolve H inp \<and> wf_function H inp \<and>
     unat (irf_local_count inp) \<le> TURBOJS_IR_MAX_REGISTERS \<and>
     (\<forall>ins\<in>set (irf_code inp). ins_opcode ins = TURBOJS_IR_VALUE_CALLABLE_CONSTANT \<longrightarrow> ins_immediate ins \<noteq> 0 \<longrightarrow>
        callable_resolves H (ins_immediate ins)) \<and>
     (\<forall>i. heap_sites H (fresh i) = None) \<and> (\<forall>i j. fresh i = fresh j \<longrightarrow> fresh i \<noteq> 0 \<longrightarrow> i = j)"

lemma spec_inv_mono: "spec_inv H log inp fresh i s \<Longrightarrow> spec_inv H log inp fresh (Suc i) s"
  by (fastforce simp: spec_inv_def)

lemma spec_inv_regs:
  assumes "spec_inv H log inp fresh i s" "known_ok H v"
  shows "spec_inv H log inp fresh i (s\<lparr>sp_regs := (sp_regs s)[r := v]\<rparr>)"
  using assms set_update_subset_insert [of "sp_regs s" r v] by (auto simp: spec_inv_def)

lemma spec_inv_locals:
  assumes "spec_inv H log inp fresh i s" "known_ok H v"
  shows "spec_inv H log inp fresh i (s\<lparr>sp_locals := (sp_locals s)[r := v]\<rparr>)"
  using assms set_update_subset_insert [of "sp_locals s" r v] by (auto simp: spec_inv_def)

lemma spec_inv_known:
  "spec_inv H log inp fresh i s \<Longrightarrow> r < TURBOJS_IR_MAX_REGISTERS \<Longrightarrow>
   known_ok H (sp_regs s ! r) \<and> known_ok H (sp_locals s ! r)"
  by (simp add: spec_inv_def)

lemma spec_inv_lengths:
  "spec_inv H log inp fresh i s \<Longrightarrow> length (sp_regs s) = TURBOJS_IR_MAX_REGISTERS \<and> length (sp_locals s) = TURBOJS_IR_MAX_REGISTERS"
  by (simp add: spec_inv_def)

lemma mark_numeric_inv:
  assumes "spec_inv H log inp fresh i s" "unat r < TURBOJS_IR_MAX_REGISTERS"
  shows "\<exists>s'. mark_numeric s r = Inr s' \<and> spec_inv H log inp fresh i s' \<and> sp_heap s' = sp_heap s"
proof -
  have "known_ok H ((sp_regs s ! unat r)\<lparr>kv_kind := KNOWN_NUMERIC\<rparr>)" by (simp add: known_ok_def)
  from spec_inv_regs [OF assms(1) this, of "unat r"] show ?thesis
    using spec_inv_lengths [OF assms(1)] assms(2) by (simp add: mark_numeric_def rd_def wr_def)
qed

lemma emit_owned_sites:
  "TurboJS_IREmit ok (Some f) ins = (st, Some f') \<Longrightarrow>
   irf_owned_callable_references f' = irf_owned_callable_references f"
  by (auto simp: TurboJS_IREmit_def touch_def Let_def split: if_splits)

lemma emit_some: "\<exists>st f'. TurboJS_IREmit ok (Some f) ins = (st, Some f')"
  by (simp add: TurboJS_IREmit_def Let_def)

lemma emit_copy_inv:
  assumes "spec_inv H log inp fresh i s" "ins_opcode ins \<in> native_ops" "site_resolves (sp_heap s) ins"
  shows "spec_inv H log inp fresh i (fst (emit_copy ok s ins))"
proof -
  obtain st f' where e: "TurboJS_IREmit ok (Some (sp_output s)) ins = (st, Some f')"
    using emit_some by blast
  have o: "output_inv H inp (sp_output s) (sp_heap s)" using assms(1) by (simp add: spec_inv_def)
  then have "storage_inv f'" "irf_code f' = irf_code (sp_output s) @ (if st = TURBOJS_IR_OK then [ins] else [])"
    using e emit_storage emit_code by (auto simp: output_inv_def)
  moreover have "owned_inv f' (sp_heap s)" using o e emit_owned by (auto simp: output_inv_def)
  moreover note emit_frame [OF e] emit_owned_sites [OF e]
  ultimately have "output_inv H inp f' (sp_heap s)"
    using o assms(2,3) by (auto simp: output_inv_def)
  then show ?thesis
    using assms(1) emit_frame [OF e] by (simp add: spec_inv_def emit_copy_def e sites_balance_def)
qed

lemma wf_registers:
  assumes "specializable H inp fresh" "r < irf_register_count inp"
  shows "unat r < TURBOJS_IR_MAX_REGISTERS"
  using assms by (auto simp: specializable_def wf_function_def word_less_nat_alt)

lemma set_argument_site:
  "\<exists>status site'. TurboJS_ClutchCallSiteSetArgument (Some site) i r = (status, Some site') \<and>
     site_root site' = site_root site \<and> length (cs_argument_registers site') = length (cs_argument_registers site)"
  unfolding TurboJS_ClutchCallSiteSetArgument_def option.case by (simp add: site_root_def)

lemma specialize_arguments_ok:
  assumes "length regs = TURBOJS_IR_MAX_REGISTERS" "unat (irf_register_count input) \<le> TURBOJS_IR_MAX_REGISTERS"
  shows "\<exists>r. specialize_arguments n ai input right regs site = Inr r \<and>
    (\<forall>site'. r = Some site' \<longrightarrow> site_root site' = site_root site \<and>
       length (cs_argument_registers site') = length (cs_argument_registers site))"
proof (induction n arbitrary: ai site)
  case 0
  then show ?case by simp
next
  case (Suc n)
  let ?source = "right + word_of_nat ai"
  obtain status site' where set: "TurboJS_ClutchCallSiteSetArgument (Some site) (word_of_nat ai) ?source = (status, Some site')"
    "site_root site' = site_root site" "length (cs_argument_registers site') = length (cs_argument_registers site)"
    using set_argument_site by blast
  show ?case
  proof (cases "irf_register_count input \<le> ?source")
    case False
    then have "unat ?source < length regs" using assms by (simp add: word_le_nat_alt)
    with False set Suc.IH [of "ai + 1" site'] show ?thesis by (simp add: Let_def rd_def)
  qed simp
qed

lemma site_resolves_update:
  assumes "site_resolves K ins" "length (cs_argument_registers site) = TURBOJS_CLUTCH_MAX_ARGUMENTS"
  shows "site_resolves (K\<lparr>heap_sites := (heap_sites K)(a \<mapsto> site)\<rparr>) ins"
  using assms by (auto simp: site_resolves_def)

lemma storage_sites [simp]:
  "storage_inv (f\<lparr>irf_owned_clutch_sites := xs\<rparr>) = storage_inv f"
  "storage_inv (f\<lparr>irf_owned_clutch_site_capacity := n\<rparr>) = storage_inv f"
  "irf_code (f\<lparr>irf_owned_clutch_sites := xs\<rparr>) = irf_code f"
  "irf_code (f\<lparr>irf_owned_clutch_site_capacity := n\<rparr>) = irf_code f"
  by (simp_all add: storage_inv_def irf_code_def split: option.splits)

lemma allocate_site_cases:
  assumes "output_inv H inp out K" "heap_sites H a = None" "a \<notin> set (irf_owned_clutch_sites out)"
  obtains (none) out' where "TurboJS_IRAllocateClutchCallSite ok a (Some out) K = (0, Some out', K)"
      "output_inv H inp out' K" "irf_owned_clutch_sites out' = irf_owned_clutch_sites out"
  | (some) out' where "a \<noteq> 0"
      "TurboJS_IRAllocateClutchCallSite ok a (Some out) K =
         (a, Some out', K\<lparr>heap_sites := (heap_sites K)(a \<mapsto> null_call_site)\<rparr>)"
      "irf_owned_clutch_sites out' = irf_owned_clutch_sites out @ [a]"
      "\<And>site. length (cs_argument_registers site) = TURBOJS_CLUTCH_MAX_ARGUMENTS \<Longrightarrow>
         output_inv H inp out' (K\<lparr>heap_sites := (heap_sites K)(a \<mapsto> site)\<rparr>)"
      "\<And>site x. sites_balance out' (K\<lparr>heap_sites := (heap_sites K)(a \<mapsto> site)\<rparr>) x =
         sites_balance out K x + holds (site_root site) x"
proof -
  let ?full = "length (irf_owned_clutch_sites out) = irf_owned_clutch_site_capacity out"
  let ?cap = "if irf_owned_clutch_site_capacity out \<noteq> 0 then irf_owned_clutch_site_capacity out * 2 else 4"
  define f where "f = (if ?full then out\<lparr>irf_owned_clutch_site_capacity := ?cap\<rparr> else out)"
  have o: "storage_inv out" "owned_inv out K" using assms(1) by (simp_all add: output_inv_def)
  have grow: "length (irf_owned_clutch_sites out) < irf_owned_clutch_site_capacity f" and
    f: "storage_inv f" "irf_code f = irf_code out" "owned_inv f K"
    "irf_owned_clutch_sites f = irf_owned_clutch_sites out"
    "irf_owned_callable_references f = irf_owned_callable_references out"
    "irf_register_count f = irf_register_count out" "irf_argument_count f = irf_argument_count out"
    "irf_local_count f = irf_local_count out"
    using o by (auto simp: owned_inv_def f_def)
  have free: "heap_sites K a = None"
    using assms by (auto simp: output_inv_def restrict_map_def fun_eq_iff split: if_splits)
  show thesis
  proof (cases "?full \<and> \<not> ok")
    case True
    show thesis
      by (rule none [of out]) (use True assms(1) in \<open>simp_all add: TurboJS_IRAllocateClutchCallSite_def\<close>)
  next
    case no: False
    show thesis
    proof (cases "a = 0")
      case True
      show thesis
      proof (rule none [of f])
        show "TurboJS_IRAllocateClutchCallSite ok a (Some out) K = (0, Some f, K)"
          using no True by (auto simp: TurboJS_IRAllocateClutchCallSite_def Let_def f_def)
        show "output_inv H inp f K" using assms(1) f by (auto simp: output_inv_def)
      qed (simp add: f)
    next
      case False
      let ?out = "touch (f\<lparr>irf_owned_clutch_sites := irf_owned_clutch_sites out @ [a]\<rparr>)"
      show thesis
      proof (rule some [of ?out])
        show "a \<noteq> 0" by (rule False)
        show "TurboJS_IRAllocateClutchCallSite ok a (Some out) K =
           (a, Some ?out, K\<lparr>heap_sites := (heap_sites K)(a \<mapsto> null_call_site)\<rparr>)"
          using no False by (simp add: TurboJS_IRAllocateClutchCallSite_def Let_def f_def)
        show "irf_owned_clutch_sites ?out = irf_owned_clutch_sites out @ [a]" by (simp add: touch_def)
        fix site :: TurboJSClutchCallSite and x
        let ?K = "K\<lparr>heap_sites := (heap_sites K)(a \<mapsto> site)\<rparr>"
        have "sum_list (map (\<lambda>b. holds (site_root (the (heap_sites ?K b))) x) (irf_owned_clutch_sites out)) =
            sum_list (map (\<lambda>b. holds (site_root (the (heap_sites K b))) x) (irf_owned_clutch_sites out))"
          by (rule arg_cong [where f = sum_list]) (use assms(3) in auto)
        then show "sites_balance ?out ?K x = sites_balance out K x + holds (site_root site) x"
          by (simp add: sites_balance_def touch_def)
        assume len: "length (cs_argument_registers site) = TURBOJS_CLUTCH_MAX_ARGUMENTS"
        have "storage_inv ?out" "irf_code ?out = irf_code out"
          using f(1,2) by simp_all
        moreover have "owned_inv ?out ?K"
          using f(3,4) assms(3) grow by (auto simp: owned_inv_def touch_def)
        moreover have "heap_sites ?K |` (- set (irf_owned_clutch_sites ?out)) = heap_sites H"
        proof -
          have "heap_sites ?K |` (- set (irf_owned_clutch_sites ?out)) =
              heap_sites K |` (- set (irf_owned_clutch_sites out))"
            using free assms(3) by (auto simp: restrict_map_def touch_def fun_eq_iff)
          then show ?thesis using assms(1) by (simp add: output_inv_def)
        qed
        ultimately show "output_inv H inp ?out ?K"
          using assms(1) site_resolves_update [OF _ len] unfolding output_inv_def
          by (auto simp: touch_def f)
      qed
    qed
  qed
qed

lemma set_environment_arguments:
  "TurboJS_ClutchCallSiteSetClosureEnvironment E (Some s) a hooks log = (st, Some s', log') \<Longrightarrow>
   cs_argument_registers s' = cs_argument_registers s"
  by (auto simp: TurboJS_ClutchCallSiteSetClosureEnvironment_def destroy_call_site_def set_site_environment_def
    split: option.splits if_splits prod.splits)

lemma specialize_site_inv:
  assumes ok: "specializable H inp fresh" and inv: "spec_inv H log inp fresh i s"
    and dst: "ins_destination ins < irf_register_count inp"
  shows "\<exists>s' x. specialize_site E emit_ok site_ok (fresh i) inp s ins ref = Inr (s', x) \<and>
    spec_inv H log inp fresh (Suc i) s'"
proof -
  have o: "output_inv H inp (sp_output s) (sp_heap s)" using inv by (simp add: spec_inv_def)
  have free: "heap_sites H (fresh i) = None" using ok by (simp add: specializable_def)
  have new: "fresh i \<notin> set (irf_owned_clutch_sites (sp_output s))"
  proof
    assume "fresh i \<in> set (irf_owned_clutch_sites (sp_output s))"
    moreover have "set (irf_owned_clutch_sites (sp_output s)) \<subseteq> fresh ` {0..<i} - {0}"
      using inv by (simp add: spec_inv_def)
    ultimately have "fresh i \<in> fresh ` {0..<i}" "fresh i \<noteq> 0" by blast+
    then obtain j where "j < i" "fresh i = fresh j" "fresh i \<noteq> 0" by auto
    moreover from this have "i = j" using ok by (simp add: specializable_def)
    ultimately show False by simp
  qed
  have regs: "length (sp_regs s) = TURBOJS_IR_MAX_REGISTERS" "unat (irf_register_count inp) \<le> TURBOJS_IR_MAX_REGISTERS"
    using inv ok by (simp_all add: spec_inv_def specializable_def wf_function_def)
  from o free new show ?thesis
  proof (cases rule: allocate_site_cases [where ok = site_ok])
    case (none out')
    then show ?thesis
      using spec_inv_mono [OF inv] by (auto simp: specialize_site_def Let_def spec_inv_def sites_balance_def)
  next
    case (some out')
    let ?argc = "unat (ins_immediate ins)"
    define site where "site = (null_call_site\<lparr>cs_target := cr_target ref,
      cs_expected_generation := cr_expected_generation ref, cs_expected_kind := cr_expected_kind ref,
      cs_argument_count := word_of_nat ?argc, cs_receiver_register := TURBOJS_IR_NO_REGISTER,
      cs_argument_registers := replicate TURBOJS_CLUTCH_MAX_ARGUMENTS TURBOJS_IR_NO_REGISTER\<rparr>)
      \<lparr>cs_target_identity := cr_target_identity ref\<rparr>"
    have site: "TurboJS_ClutchCallSiteSetTargetIdentity
        (TurboJS_ClutchCallSiteInit (Some null_call_site) (cr_target ref) (cr_expected_generation ref)
           (cr_expected_kind ref) (word_of_nat ?argc)) (cr_target_identity ref) = Some site"
      "site_root site = None" "length (cs_argument_registers site) = TURBOJS_CLUTCH_MAX_ARGUMENTS"
      by (simp_all add: site_def TurboJS_ClutchCallSiteInit_def TurboJS_ClutchCallSiteSetTargetIdentity_def
        site_root_def null_call_site_def)
    obtain st site1 log1 where env: "(if cr_closure_environment ref \<noteq> 0
        then TurboJS_ClutchCallSiteSetClosureEnvironment E (Some site) (cr_closure_environment ref)
               (if cr_owns_environment ref then Some (cr_environment_rooting ref) else None) (sp_log s)
        else (TURBOJS_IR_OK, Some site, sp_log s)) = (st, Some site1, log1)"
      "length (cs_argument_registers site1) = TURBOJS_CLUTCH_MAX_ARGUMENTS"
      "\<And>x. root_balance log1 x = root_balance (sp_log s) x + holds (site_root site1) x"
    proof (cases "cr_closure_environment ref \<noteq> 0")
      case True
      let ?hooks = "if cr_owns_environment ref then Some (cr_environment_rooting ref) else None"
      obtain st s' log' where e: "TurboJS_ClutchCallSiteSetClosureEnvironment E (Some site)
          (cr_closure_environment ref) ?hooks (sp_log s) = (st, Some s', log')"
        using set_environment_site by blast
      show thesis
        by (rule that [of st s' log']) (use e True set_environment_arguments [OF e] set_environment_balance [OF e] site in
          \<open>simp_all add: holds_def\<close>)
    next
      case False
      show thesis
        by (rule that [of TURBOJS_IR_OK site "sp_log s"]) (use False site in \<open>simp_all add: holds_def\<close>)
    qed
    let ?st = "\<lambda>st'. s\<lparr>sp_output := out', sp_heap := (sp_heap s)\<lparr>heap_sites := (heap_sites (sp_heap s))(fresh i \<mapsto> st')\<rparr>, sp_log := log1\<rparr>"
    have stored: "spec_inv H log inp fresh (Suc i) (?st st')"
      if "site_root st' = site_root site1" "length (cs_argument_registers st') = TURBOJS_CLUTCH_MAX_ARGUMENTS" for st'
      using inv some(1) some(3) some(4) [OF that(2)] some(5) [of st'] env(3) that(1)
      by (auto simp: spec_inv_def)
    obtain r where r: "specialize_arguments ?argc 0 inp (ins_right ins) (sp_regs s) site1 = Inr r"
      "\<And>site'. r = Some site' \<Longrightarrow> site_root site' = site_root site1 \<and>
         length (cs_argument_registers site') = length (cs_argument_registers site1)"
      using specialize_arguments_ok [OF regs] by blast
    have step: "specialize_site E emit_ok site_ok (fresh i) inp s ins ref =
       (if st \<noteq> TURBOJS_IR_OK then Inr (?st site1, Some (Exit_failed st))
        else case r of None \<Rightarrow> Inr (?st site1, Some Exit_unsupported)
          | Some site2 \<Rightarrow> bindc (mark_numeric (?st site2) (ins_destination ins)) (\<lambda>s2.
              Inr (emit_copy emit_ok s2 (ins\<lparr>
                ins_opcode := (if ins_opcode ins = TURBOJS_IR_VALUE_CALL_I64
                               then TURBOJS_IR_CALL_NATIVE_I64 else TURBOJS_IR_CALL_NATIVE_F64),
                ins_immediate := fresh i, ins_left := 0, ins_right := 0\<rparr>))))"
      unfolding specialize_site_def Let_def some(2) prod.case if_not_P [OF some(1)] site(1) env(1) option.sel r(1)
      by (cases r) simp_all
    show ?thesis
    proof (cases "st = TURBOJS_IR_OK \<and> r \<noteq> None")
      case False
      then show ?thesis using step stored [of site1] env(2) by (cases "st = TURBOJS_IR_OK") auto
    next
      case True
      then obtain site2 where s2: "r = Some site2" "site_root site2 = site_root site1"
        "length (cs_argument_registers site2) = TURBOJS_CLUTCH_MAX_ARGUMENTS"
        using r(2) env(2) by auto
      obtain s' where m: "mark_numeric (?st site2) (ins_destination ins) = Inr s'"
        "spec_inv H log inp fresh (Suc i) s'" "sp_heap s' = sp_heap (?st site2)"
        using mark_numeric_inv [OF stored [OF s2(2,3)] wf_registers [OF ok dst]] by blast
      let ?ins = "ins\<lparr>ins_opcode := (if ins_opcode ins = TURBOJS_IR_VALUE_CALL_I64
                               then TURBOJS_IR_CALL_NATIVE_I64 else TURBOJS_IR_CALL_NATIVE_F64),
                ins_immediate := fresh i, ins_left := 0, ins_right := 0\<rparr>"
      have "spec_inv H log inp fresh (Suc i) (fst (emit_copy emit_ok s' ?ins))"
        by (rule emit_copy_inv [OF m(2)]) (simp_all add: enum_sets site_resolves_def m(3) s2(3))
      then show ?thesis
        using True step m(1) s2(1) by (cases "emit_copy emit_ok s' ?ins") simp
    qed
  qed
qed

lemma specialize_call_inv:
  assumes ok: "specializable H inp fresh" and inv: "spec_inv H log inp fresh i s"
    and dst: "ins_destination ins < irf_register_count inp" and left: "ins_left ins < irf_register_count inp"
  shows "\<exists>s' x. specialize_call E emit_ok site_ok (fresh i) inp s ins = Inr (s', x) \<and>
    spec_inv H log inp fresh (Suc i) s'"
proof -
  let ?v = "sp_regs s ! unat (ins_left ins)"
  have l: "unat (ins_left ins) < TURBOJS_IR_MAX_REGISTERS" by (rule wf_registers [OF ok left])
  have rdv: "rd (sp_regs s) (unat (ins_left ins)) = Inr ?v"
    using l spec_inv_lengths [OF inv] by (simp add: rd_def)
  have heap: "heap_callables (sp_heap s) = heap_callables H" "heap_handles (sp_heap s) = heap_handles H"
    using inv by (simp_all add: spec_inv_def output_inv_def)
  show ?thesis
  proof (cases "kv_kind ?v \<noteq> KNOWN_CALLABLE \<or> kv_callable ?v = 0 \<or>
      TURBOJS_CLUTCH_MAX_ARGUMENTS < unat (ins_immediate ins)")
    case True
    then show ?thesis using spec_inv_mono [OF inv] by (simp add: specialize_call_def rdv)
  next
    case False
    then obtain r where r: "heap_callables H (kv_callable ?v) = Some r" "cr_target r = 0 \<or> heap_handles H (cr_target r) \<noteq> None"
      using spec_inv_known [OF inv l] by (auto simp: known_ok_def callable_resolves_def)
    then have "\<exists>live. TurboJS_CallableReferenceIsLive (sp_heap s) (Some r) = Inr live"
      by (cases "heap_handles H (cr_target r)") (auto simp: TurboJS_CallableReferenceIsLive_def deref_def heap)
    then obtain live where live: "TurboJS_CallableReferenceIsLive (sp_heap s) (Some r) = Inr live" by blast
    have "specialize_call E emit_ok site_ok (fresh i) inp s ins =
       (if unat (cr_argument_count r) \<noteq> unat (ins_immediate ins) \<or> \<not> live then Inr (s, Some Exit_unsupported)
        else specialize_site E emit_ok site_ok (fresh i) inp s ins r)"
      using False r live by (simp add: specialize_call_def rdv deref_def heap)
    then show ?thesis
      using spec_inv_mono [OF inv] specialize_site_inv [OF ok inv dst, of E emit_ok site_ok r] by auto
  qed
qed

lemma emit_copy_result:
  assumes "spec_inv H log inp fresh i s" "ins_opcode ins \<in> native_ops" "site_resolves (sp_heap s) ins"
  shows "\<exists>s' x. Inr (emit_copy ok s ins) = (Inr (s', x) :: specialize_result) \<and> spec_inv H log inp fresh (Suc i) s'"
  using spec_inv_mono [OF emit_copy_inv [OF assms, of ok]] by (cases "emit_copy ok s ins") auto

lemma not_native_call_resolves: "ins_opcode ins \<notin> native_call_ops \<Longrightarrow> site_resolves K ins"
  by (simp add: site_resolves_def)

lemma input_site_resolves:
  assumes "spec_inv H log inp fresh i s" "site_resolves H ins"
  shows "site_resolves (sp_heap s) ins"
proof -
  have sub: "heap_sites (sp_heap s) |` (- set (irf_owned_clutch_sites (sp_output s))) = heap_sites H"
    using assms(1) by (simp add: spec_inv_def output_inv_def)
  have "heap_sites (sp_heap s) a = Some x" if "heap_sites H a = Some x" for a x
    using that by (simp add: sub [symmetric] restrict_map_def split: if_splits)
  then show ?thesis using assms(2) by (auto simp: site_resolves_def)
qed

lemma specialize_copied:
  assumes ok: "specializable H inp fresh" and inv: "spec_inv H log inp fresh i s"
    and op: "ins_opcode ins \<in> copied_ops" and res: "site_resolves H ins"
  shows "\<exists>s' x. (case emit_copy emit_ok s ins of (s1, exit) \<Rightarrow>
                  if exit = None \<and> ins_destination ins < irf_register_count inp
                  then bindc (mark_numeric s1 (ins_destination ins)) (\<lambda>s2. Inr (s2, None))
                  else Inr (s1, exit)) = (Inr (s', x) :: specialize_result) \<and> spec_inv H log inp fresh (Suc i) s'"
proof -
  obtain s1 exit where e: "emit_copy emit_ok s ins = (s1, exit)" by fastforce
  have "ins_opcode ins \<in> native_ops" using op by (simp add: native_ops_def)
  then have inv1: "spec_inv H log inp fresh (Suc i) s1"
    using emit_copy_result [OF inv _ input_site_resolves [OF inv res], of emit_ok] e by simp
  show ?thesis
  proof (cases "exit = None \<and> ins_destination ins < irf_register_count inp")
    case True
    then obtain s2 where "mark_numeric s1 (ins_destination ins) = Inr s2" "spec_inv H log inp fresh (Suc i) s2"
      using mark_numeric_inv [OF inv1 wf_registers [OF ok]] by blast
    with True show ?thesis using e by simp
  next
    case False
    then show ?thesis using inv1 e by auto
  qed
qed

lemma specialize_step_inv:
  assumes ok: "specializable H inp fresh" and inv: "spec_inv H log inp fresh i s"
    and ins: "ins \<in> set (irf_code inp)"
  shows "\<exists>s' x. specialize_step E emit_ok site_ok (fresh i) inp s ins = Inr (s', x) \<and>
    spec_inv H log inp fresh (Suc i) s'"
proof -
  have wf: "wf_instruction H inp ins" and res: "site_resolves H ins"
    using ok ins by (simp_all add: specializable_def wf_function_def sites_resolve_def)
  have dst: "unat (ins_destination ins) < TURBOJS_IR_MAX_REGISTERS" if "writes_destination (ins_opcode ins)"
    using that wf wf_registers [OF ok] by (simp add: wf_instruction_def)
  have left: "unat (ins_left ins) < TURBOJS_IR_MAX_REGISTERS" if "reads_left (ins_opcode ins)"
    using that wf wf_registers [OF ok] by (simp add: wf_instruction_def)
  have local: "unat (ins_immediate ins) < TURBOJS_IR_MAX_REGISTERS" if "\<not> unat (irf_local_count inp) \<le> unat (ins_immediate ins)"
    using that ok by (simp add: specializable_def)
  note len = spec_inv_lengths [OF inv]
  have emit: "\<exists>s' x. Inr (emit_copy emit_ok t (ins\<lparr>ins_opcode := op\<rparr>)) = (Inr (s', x) :: specialize_result) \<and>
      spec_inv H log inp fresh (Suc i) s'"
    if "spec_inv H log inp fresh i t" "op \<in> native_ops" "op \<notin> native_call_ops" for t op
    by (rule emit_copy_result [OF that(1)]) (use that not_native_call_resolves in simp_all)
  have numeric: "\<exists>s' x. bindc (mark_numeric s (ins_destination ins)) (\<lambda>s1.
        Inr (emit_copy emit_ok s1 (ins\<lparr>ins_opcode := op\<rparr>))) = (Inr (s', x) :: specialize_result) \<and>
      spec_inv H log inp fresh (Suc i) s'"
    if "writes_destination (ins_opcode ins)" "op \<in> native_ops" "op \<notin> native_call_ops" for op
    using mark_numeric_inv [OF inv dst [OF that(1)]] emit [OF _ that(2,3)] by fastforce
  show ?thesis
  proof (cases "ins_opcode ins \<in> copied_ops")
    case True
    then show ?thesis
      using specialize_copied [OF ok inv True res, of emit_ok]
      by (cases "ins_opcode ins") (simp_all add: specialize_step_def copied_ops_def)
  next
    case False
    show ?thesis
    proof (cases "ins_opcode ins")
      case TURBOJS_IR_VALUE_CALLABLE_CONSTANT
      then have "known_ok H \<lparr>kv_callable = ins_immediate ins, kv_kind = KNOWN_CALLABLE\<rparr>"
        using ok ins by (simp add: specializable_def known_ok_def)
      from spec_inv_mono [OF spec_inv_regs [OF inv this, of "unat (ins_destination ins)"]] show ?thesis
        using TURBOJS_IR_VALUE_CALLABLE_CONSTANT dst len by (simp add: specialize_step_def wr_def enum_sets)
    next
      case TURBOJS_IR_VALUE_CONSTANT_I32
      then show ?thesis using numeric [of TURBOJS_IR_CONSTANT_I64] by (simp add: specialize_step_def enum_sets)
    next
      case TURBOJS_IR_VALUE_ARGUMENT
      then show ?thesis using numeric [of TURBOJS_IR_ARGUMENT] by (simp add: specialize_step_def enum_sets)
    next
      case TURBOJS_IR_VALUE_MOVE
      then have d: "unat (ins_destination ins) < TURBOJS_IR_MAX_REGISTERS" and l: "unat (ins_left ins) < TURBOJS_IR_MAX_REGISTERS"
        using dst left by (simp_all add: enum_sets)
      have "known_ok H (sp_regs s ! unat (ins_left ins))" using spec_inv_known [OF inv l] by simp
      from spec_inv_mono [OF spec_inv_regs [OF inv this, of "unat (ins_destination ins)"]] show ?thesis
        using TURBOJS_IR_VALUE_MOVE d l len by (simp add: specialize_step_def rd_def wr_def)
    next
      case TURBOJS_IR_VALUE_LOCAL_SET
      then have l: "unat (ins_left ins) < TURBOJS_IR_MAX_REGISTERS" using left by (simp add: enum_sets)
      have "known_ok H (sp_regs s ! unat (ins_left ins))" using spec_inv_known [OF inv l] by simp
      note t = spec_inv_locals [OF inv this, of "unat (ins_immediate ins)"]
      show ?thesis
        using TURBOJS_IR_VALUE_LOCAL_SET l local len spec_inv_mono [OF inv] spec_inv_mono [OF t]
          emit [OF t, of TURBOJS_IR_LOCAL_SET]
        by (auto simp: specialize_step_def rd_def wr_def enum_sets)
    next
      case TURBOJS_IR_VALUE_LOCAL_GET
      then have d: "unat (ins_destination ins) < TURBOJS_IR_MAX_REGISTERS" using dst by (simp add: enum_sets)
      show ?thesis
      proof (cases "unat (irf_local_count inp) \<le> unat (ins_immediate ins)")
        case True
        then show ?thesis
          using TURBOJS_IR_VALUE_LOCAL_GET spec_inv_mono [OF inv] by (simp add: specialize_step_def)
      next
        case False
        have "known_ok H (sp_locals s ! unat (ins_immediate ins))" using spec_inv_known [OF inv local [OF False]] by simp
        note t = spec_inv_regs [OF inv this, of "unat (ins_destination ins)"]
        show ?thesis
          using TURBOJS_IR_VALUE_LOCAL_GET d False local len spec_inv_mono [OF t] emit [OF t, of TURBOJS_IR_LOCAL_GET]
          by (auto simp: specialize_step_def rd_def wr_def enum_sets)
      qed
    next
      case TURBOJS_IR_VALUE_CALL_I64
      then have "ins_destination ins < irf_register_count inp" "ins_left ins < irf_register_count inp"
        using wf by (simp_all add: wf_instruction_def enum_sets)
      from specialize_call_inv [OF ok inv this] show ?thesis
        using TURBOJS_IR_VALUE_CALL_I64 by (simp add: specialize_step_def)
    next
      case TURBOJS_IR_VALUE_CALL_F64
      then have "ins_destination ins < irf_register_count inp" "ins_left ins < irf_register_count inp"
        using wf by (simp_all add: wf_instruction_def enum_sets)
      from specialize_call_inv [OF ok inv this] show ?thesis
        using TURBOJS_IR_VALUE_CALL_F64 by (simp add: specialize_step_def)
    next
      case TURBOJS_IR_VALUE_RETURN
      then have l: "unat (ins_left ins) < TURBOJS_IR_MAX_REGISTERS" using left by (simp add: enum_sets)
      show ?thesis
        using TURBOJS_IR_VALUE_RETURN l len spec_inv_mono [OF inv] emit [OF inv, of TURBOJS_IR_RETURN_I64]
        by (auto simp: specialize_step_def rd_def enum_sets)
    qed (use False spec_inv_mono [OF inv] in \<open>simp_all add: specialize_step_def\<close>)
  qed
qed

lemma specialize_loop_inv:
  assumes "specializable H inp fresh" "spec_inv H log inp fresh i s" "i + n = irf_instruction_count inp"
  shows "\<exists>s' j x k. specialize_loop n E emit_ok site_ok fresh inp i s = Inr (s', j, x) \<and>
    spec_inv H log inp fresh k s'"
  using assms(2,3)
proof (induction n arbitrary: i s)
  case 0
  then show ?case by auto
next
  case (Suc n)
  let ?ins = "irf_code inp ! i"
  have st: "storage_inv inp" using assms(1) by (simp add: specializable_def)
  then have code: "(case irf_instructions inp of None \<Rightarrow> [] | Some xs \<Rightarrow> xs) = irf_code inp"
    by (auto simp: storage_defs split: option.splits)
  have i: "i < length (irf_code inp)" using Suc.prems(2) length_irf_code [OF st] by simp
  then have "?ins \<in> set (irf_code inp)" by simp
  then obtain s' x where s': "specialize_step E (emit_ok i) (site_ok i) (fresh i) inp s ?ins = Inr (s', x)"
    "spec_inv H log inp fresh (Suc i) s'"
    using specialize_step_inv [OF assms(1) Suc.prems(1)] by blast
  show ?case
  proof (cases x)
    case None
    then show ?thesis
      using Suc.IH [OF s'(2)] Suc.prems(2) s'(1) i by (simp add: code rd_def)
  next
    case (Some e)
    then show ?thesis using s' i by (auto simp: code rd_def)
  qed
qed

lemma allocate_registers_ok:
  "unat (irf_register_count out) + n = unat target \<Longrightarrow> unat target \<le> TURBOJS_IR_MAX_REGISTERS \<Longrightarrow>
   \<exists>rev. allocate_registers n target out = (True, out\<lparr>irf_register_count := target, irf_revision := rev\<rparr>)"
proof (induction n arbitrary: out)
  case 0
  then have "irf_register_count out = target" by (simp add: word_unat_eq_iff)
  then show ?case by (intro exI [of _ "irf_revision out"]) simp
next
  case (Suc n)
  let ?r = "irf_register_count out"
  let ?out = "(touch out)\<lparr>irf_register_count := ?r + 1\<rparr>"
  have lt: "?r < target" "unat ?r < TURBOJS_IR_MAX_REGISTERS" using Suc.prems by (simp_all add: word_less_nat_alt)
  then have ne: "?r \<noteq> TURBOJS_IR_NO_REGISTER" by auto
  have "unat (irf_register_count ?out) + n = unat target" using Suc.prems lt(2) by (simp add: unat_word_ariths)
  from Suc.IH [OF this Suc.prems(2)] show ?case
    using lt ne by (simp add: TurboJS_IRAllocateRegister_def touch_def)
qed

lemma specialize_exit_releases:
  assumes "spec_inv H log inp fresh i s"
  shows "\<exists>st d' H' log'. specialize_exit_path s j e d = Inr (st, Some null_function, d', H', log') \<and>
    st = (case e of Exit_unsupported \<Rightarrow> TURBOJS_IR_UNSUPPORTED | Exit_oom \<Rightarrow> TURBOJS_IR_OUT_OF_MEMORY | Exit_failed st \<Rightarrow> st) \<and>
    H' = H \<and> (\<forall>x. root_balance log' x = root_balance log x)"
proof -
  have inv: "output_inv H inp (sp_output s) (sp_heap s)"
    "\<And>x. root_balance (sp_log s) x = root_balance log x + sites_balance (sp_output s) (sp_heap s) x"
    using assms unfolding spec_inv_def by blast+
  then have o: "distinct (irf_owned_clutch_sites (sp_output s))"
    "set (irf_owned_clutch_sites (sp_output s)) \<subseteq> dom (heap_sites (sp_heap s))"
    "irf_owned_callable_references (sp_output s) = []"
    by (simp_all add: output_inv_def owned_inv_def)
  obtain log1 where "free_owned destroy_call_site (irf_owned_clutch_sites (sp_output s)) (heap_sites (sp_heap s)) (sp_log s) =
      Inr (heap_sites (sp_heap s) |` (- set (irf_owned_clutch_sites (sp_output s))), log1)"
    "\<And>x. root_balance log1 x = root_balance (sp_log s) x - sites_balance (sp_output s) (sp_heap s) x"
    using site_owner.free_owned_ok [OF o(1,2), of "sp_log s"] by (auto simp: sites_balance_def)
  moreover have "(sp_heap s)\<lparr>heap_sites := heap_sites H, heap_callables := heap_callables (sp_heap s)\<rparr> = H"
    using inv(1) by (cases H; cases "sp_heap s") (simp add: output_inv_def)
  ultimately show ?thesis
    using inv o(3) by (cases e) (simp_all add: specialize_exit_path_def TurboJS_IRFunctionDestroy_def output_inv_def)
qed

text \<open>A failure is never reported with the status of success.\<close>

lemma emit_copy_failed: "emit_copy ok s ins = (s', x) \<Longrightarrow> x \<noteq> Some (Exit_failed TURBOJS_IR_OK)"
  by (auto simp: emit_copy_def split: prod.splits if_splits)

lemma specialize_site_failed:
  "specialize_site E emit_ok site_ok a inp s ins ref = Inr (s', x) \<Longrightarrow> x \<noteq> Some (Exit_failed TURBOJS_IR_OK)"
  unfolding specialize_site_def Let_def
  by (auto simp: bindc_Inr_iff dest: emit_copy_failed split: prod.splits if_splits option.splits)

lemma specialize_call_failed:
  "specialize_call E emit_ok site_ok a inp s ins = Inr (s', x) \<Longrightarrow> x \<noteq> Some (Exit_failed TURBOJS_IR_OK)"
  unfolding specialize_call_def
  by (auto simp: bindc_Inr_iff dest: specialize_site_failed split: if_splits)

lemma specialize_step_failed:
  assumes "specialize_step E emit_ok site_ok a inp s ins = Inr (s', x)"
  shows "x \<noteq> Some (Exit_failed TURBOJS_IR_OK)"
  using assms
  by (cases "ins_opcode ins")
     (auto simp: specialize_step_def bindc_Inr_iff dest: emit_copy_failed specialize_call_failed
        split: prod.splits if_splits)

lemma specialize_loop_failed:
  "specialize_loop n E emit_ok site_ok fresh inp i s = Inr (s', j, x) \<Longrightarrow> x \<noteq> Some (Exit_failed TURBOJS_IR_OK)"
proof (induction n arbitrary: i s)
  case (Suc n)
  then show ?case
    by (auto simp: bindc_Inr_iff dest: specialize_step_failed split: option.splits)
qed simp

lemma specialize_start_inv:
  assumes "specializable H inp fresh"
  shows "\<exists>out. allocate_registers (unat (irf_register_count inp)) (irf_register_count inp) (specialize_start next_id inp) = (True, out) \<and>
    spec_inv H log inp fresh 0 \<lparr>sp_regs = replicate TURBOJS_IR_MAX_REGISTERS null_known,
      sp_locals = replicate TURBOJS_IR_MAX_REGISTERS null_known, sp_output = out, sp_heap = H, sp_log = log\<rparr>"
proof -
  have le: "unat (irf_register_count inp) \<le> TURBOJS_IR_MAX_REGISTERS"
    using assms by (simp add: specializable_def wf_function_def)
  let ?f = "specialize_start next_id inp"
  have f: "irf_register_count ?f = 0" "storage_inv ?f" "irf_code ?f = []"
    by (simp_all add: specialize_start_def TurboJS_IRFunctionSetLocalCount_def TurboJS_IRFunctionInit_def
      null_function_def storage_defs)
  then have "unat (irf_register_count ?f) + unat (irf_register_count inp) = unat (irf_register_count inp)" by simp
  then obtain rev where r: "allocate_registers (unat (irf_register_count inp)) (irf_register_count inp) ?f =
      (True, ?f\<lparr>irf_register_count := irf_register_count inp, irf_revision := rev\<rparr>)"
    using allocate_registers_ok le by blast
  have "output_inv H inp (?f\<lparr>irf_register_count := irf_register_count inp, irf_revision := rev\<rparr>) H"
    using le by (simp add: output_inv_def owned_inv_def specialize_start_def TurboJS_IRFunctionSetLocalCount_def
      TurboJS_IRFunctionInit_def null_function_def storage_defs restrict_map_def)
  then show ?thesis
    unfolding r
    by (simp add: spec_inv_def sites_balance_def specialize_start_def TurboJS_IRFunctionSetLocalCount_def
      TurboJS_IRFunctionInit_def null_function_def touch_def null_known_def known_ok_def)
qed

section \<open>Properties\<close>

text \<open>
  C27. Specialization is safe and all or nothing. For a verified input whose callable constants
  resolve and that has at most 64 locals, no step faults, whatever allocations fail. On success
  the output passes the verifier, has the input's register, argument and local counts, consists
  of native instructions only, owns exactly the new call sites, and the roots retained are those
  the new call sites hold. On any failure the output is the zeroed function, every call site
  allocated on the way has been freed, the store is the one before the call, and every
  root retained has been released.
\<close>

theorem specialize_all_or_nothing:
  assumes "specializable H inp fresh"
  shows "\<exists>st out d' H' log'.
    TurboJS_IRSpecializeCallableReferences E emit_ok site_ok fresh next_id (Some inp) (Some f0) d H log =
      Inr (st, Some out, d', H', log') \<and>
    (if st = TURBOJS_IR_OK
     then wf_function H' out \<and> (\<forall>ins\<in>set (irf_code out). ins_opcode ins \<in> native_ops) \<and>
       irf_register_count out = irf_register_count inp \<and> irf_argument_count out = irf_argument_count inp \<and>
       irf_local_count out = irf_local_count inp \<and> owned_inv out H' \<and>
       heap_sites H' |` (- set (irf_owned_clutch_sites out)) = heap_sites H \<and>
       (\<forall>x. root_balance log' x = root_balance log x + sites_balance out H' x)
     else out = null_function \<and> H' = H \<and> (\<forall>x. root_balance log' x = root_balance log x))"
proof -
  let ?start = "\<lambda>out. \<lparr>sp_regs = replicate TURBOJS_IR_MAX_REGISTERS null_known,
      sp_locals = replicate TURBOJS_IR_MAX_REGISTERS null_known, sp_output = out, sp_heap = H, sp_log = log\<rparr>"
  obtain out where out: "allocate_registers (unat (irf_register_count inp)) (irf_register_count inp)
      (specialize_start next_id inp) = (True, out)" "spec_inv H log inp fresh 0 (?start out)"
    using specialize_start_inv [OF assms] by blast
  obtain s j x k where loop: "specialize_loop (irf_instruction_count inp) E emit_ok site_ok fresh inp 0 (?start out) = Inr (s, j, x)"
    and inv: "spec_inv H log inp fresh k s"
    using specialize_loop_inv [OF assms out(2)] by (metis add_0)
  have o: "output_inv H inp (sp_output s) (sp_heap s)" using inv by (simp add: spec_inv_def)
  then obtain st d1 where v: "TurboJS_IRVerify (sp_heap s) (Some (sp_output s)) d = Inr (st, d1)"
    "st = TURBOJS_IR_OK \<longleftrightarrow> wf_function (sp_heap s) (sp_output s)"
    using verify_ok_iff [of "sp_output s" "sp_heap s" d] by (auto simp: output_inv_def sites_resolve_def)
  have run: "TurboJS_IRSpecializeCallableReferences E emit_ok site_ok fresh next_id (Some inp) (Some f0) d H log =
     (case x of Some e \<Rightarrow> specialize_exit_path s j e d
      | None \<Rightarrow> if st \<noteq> TURBOJS_IR_OK then specialize_exit_path s j Exit_unsupported d1
          else Inr (TURBOJS_IR_OK, Some (sp_output s), d1, sp_heap s, sp_log s))"
    using v(1) by (cases x) (simp_all add: TurboJS_IRSpecializeCallableReferences_def out(1) Let_def loop)
  show ?thesis
  proof (cases "x = None \<and> st = TURBOJS_IR_OK")
    case True
    then have "TurboJS_IRSpecializeCallableReferences E emit_ok site_ok fresh next_id (Some inp) (Some f0) d H log =
        Inr (TURBOJS_IR_OK, Some (sp_output s), d1, sp_heap s, sp_log s)" by (simp add: run)
    then show ?thesis
      using True v(2) o inv by (auto simp: output_inv_def spec_inv_def)
  next
    case False
    then obtain e d2 where e: "TurboJS_IRSpecializeCallableReferences E emit_ok site_ok fresh next_id (Some inp) (Some f0) d H log =
        specialize_exit_path s j e d2" "e \<noteq> Exit_failed TURBOJS_IR_OK"
      using specialize_loop_failed [OF loop] by (cases x) (auto simp: run)
    then show ?thesis
      using specialize_exit_releases [OF inv, of j e d2] by (cases e) auto
  qed
qed

text \<open>A wrapper that calls a known function with its own argument and returns the result.\<close>

definition example_wrapper :: TurboJSIRFunction where
  "example_wrapper = null_function\<lparr>irf_instructions := Some
     [null_instruction\<lparr>ins_opcode := TURBOJS_IR_VALUE_CALLABLE_CONSTANT, ins_immediate := 256\<rparr>,
      null_instruction\<lparr>ins_opcode := TURBOJS_IR_VALUE_ARGUMENT, ins_destination := 1\<rparr>,
      null_instruction\<lparr>ins_opcode := TURBOJS_IR_VALUE_CALL_I64, ins_destination := 2, ins_right := 1, ins_immediate := 1\<rparr>,
      null_instruction\<lparr>ins_opcode := TURBOJS_IR_VALUE_RETURN, ins_left := 2\<rparr>],
     irf_instruction_count := 4, irf_instruction_capacity := 16, irf_register_count := 3, irf_argument_count := 1\<rparr>"

definition example_callable_heap :: jit_heap where
  "example_callable_heap = empty_heap\<lparr>
     heap_callables := [256 \<mapsto> null_callable\<lparr>cr_target_identity := 9, cr_target := 512, cr_expected_generation := 1,
        cr_argument_count := 1, cr_expected_kind := TURBOJS_NATIVE_ENTRY_INT32\<rparr>],
     heap_handles := [512 \<mapsto> \<lparr>neh_function = 4096, neh_generation = 1, neh_argument_count = 1,
        neh_kind = TURBOJS_NATIVE_ENTRY_INT32, neh_result_kind = TURBOJS_VALUE_I64\<rparr>]\<rparr>"

theorem specialize_all_or_nothing_witness:
  "specializable example_callable_heap example_wrapper (\<lambda>i. if i = 2 then 1024 else 0) \<and>
   (\<exists>st out d' H' log'. TurboJS_IRSpecializeCallableReferences example_env (\<lambda>_. True) (\<lambda>_. True)
      (\<lambda>i. if i = 2 then 1024 else 0) 1 (Some example_wrapper) (Some null_function) None
      example_callable_heap [] = Inr (st, Some out, d', H', log') \<and>
    (if st = TURBOJS_IR_OK then wf_function H' out else out = null_function))"
proof -
  let ?fresh = "\<lambda>i :: nat. if i = 2 then 1024 else 0 :: addr"
  have ok: "specializable example_callable_heap example_wrapper ?fresh"
    unfolding specializable_def
  proof (intro conjI allI impI)
    show "wf_function example_callable_heap example_wrapper"
      by (simp add: wf_function_def wf_instruction_def example_wrapper_def null_function_def irf_code_def enum_sets
        null_instruction_def word_less_nat_alt)
    show "sites_resolve example_callable_heap example_wrapper"
      by (simp add: sites_resolve_def site_resolves_def example_wrapper_def irf_code_def enum_sets null_instruction_def)
    show "storage_inv example_wrapper" by (simp add: example_wrapper_def storage_inv_def null_function_def)
    show "heap_sites example_callable_heap (?fresh i) = None" for i
      by (simp add: example_callable_heap_def empty_heap_def)
    show "i = j" if "?fresh i = ?fresh j" "?fresh i \<noteq> 0" for i j using that by (auto split: if_splits)
  qed (simp_all add: example_wrapper_def null_function_def null_instruction_def irf_code_def
      callable_resolves_def example_callable_heap_def)
  show ?thesis
    using ok specialize_all_or_nothing [OF ok, of example_env "\<lambda>_. True" "\<lambda>_. True" 1 null_function None "[]"]
    by (auto split: if_splits)
qed

end
