(* ===== verification/Vault.thy ===== *)
theory Vault
  imports Specialize
begin

text \<open>
  The native code cache (Vault), \<^verbatim>\<open>src/jit/runtime/code_cache.c\<close>, with the accessors of native
  functions it uses from \<^verbatim>\<open>src/jit/backend/x64/baseline_x64.c\<close>: an open-addressing table of
  functions and continuations, with a byte budget, eviction by score, and two indexes from call
  targets to the entries that call them.

  The linked lists of the indexes are lists of pairs of target and owning slot; an entry's own list
  holds the targets in the order of the links. A node is identified by its target and owner: the code
  never links two nodes with the same target for one owner. Native functions live in a store of their
  own; using one that has been destroyed is a fault. Allocations are arguments, as elsewhere. Machine
  code generation is the function \<open>ve_baseline\<close> of the environment.
\<close>

unbundle bit_operations_syntax

section \<open>Native functions\<close>

text \<open>The fields of \<^verbatim>\<open>struct TurboJSNativeFunction\<close> the cache depends on.\<close>

record TurboJSNativeFunction =
  nf_code_size :: nat
  nf_argument_count :: u16
  nf_result_kind :: TurboJSValueKind
  nf_owned_clutch_sites :: "TurboJSClutchCallSite list"

record vault_heap =
  vh_jit :: jit_heap
  vh_natives :: "addr \<Rightarrow> TurboJSNativeFunction option"
  vh_log :: root_log

definition TurboJS_NativeCodeSize :: "TurboJSNativeFunction ptr \<Rightarrow> nat" where
  "TurboJS_NativeCodeSize f = (case f of None \<Rightarrow> 0 | Some n \<Rightarrow> nf_code_size n)"

definition TurboJS_NativeClutchSiteCount :: "TurboJSNativeFunction ptr \<Rightarrow> nat" where
  "TurboJS_NativeClutchSiteCount f = (case f of None \<Rightarrow> 0 | Some n \<Rightarrow> length (nf_owned_clutch_sites n))"

definition TurboJS_NativeClutchSiteTargetAt :: "TurboJSNativeFunction ptr \<Rightarrow> nat \<Rightarrow> addr" where
  "TurboJS_NativeClutchSiteTargetAt f index =
     (case f of
        None \<Rightarrow> 0
      | Some n \<Rightarrow> if length (nf_owned_clutch_sites n) \<le> index then 0 else cs_target (nf_owned_clutch_sites n ! index))"

definition TurboJS_NativeClutchSiteIdentityAt :: "TurboJSNativeFunction ptr \<Rightarrow> nat \<Rightarrow> u64" where
  "TurboJS_NativeClutchSiteIdentityAt f index =
     (case f of
        None \<Rightarrow> 0
      | Some n \<Rightarrow> if length (nf_owned_clutch_sites n) \<le> index then 0
                  else cs_target_identity (nf_owned_clutch_sites n ! index))"

fun invalidate_sites :: "addr \<Rightarrow> TurboJSClutchCallSite list \<Rightarrow> nat \<times> TurboJSClutchCallSite list" where
  "invalidate_sites target [] = (0, [])"
| "invalidate_sites target (s # ss) =
     (case invalidate_sites target ss of (n, ss') \<Rightarrow>
        if cs_target s = target then (n + 1, s\<lparr>cs_target := 0, cs_expected_generation := 0\<rparr> # ss') else (n, s # ss'))"

definition TurboJS_NativeInvalidateClutchTarget ::
  "TurboJSNativeFunction ptr \<Rightarrow> addr \<Rightarrow> nat \<times> TurboJSNativeFunction ptr" where
  "TurboJS_NativeInvalidateClutchTarget f target =
     (case f of
        None \<Rightarrow> (0, None)
      | Some n \<Rightarrow>
          if target = 0 then (0, f)
          else (case invalidate_sites target (nf_owned_clutch_sites n) of (k, ss) \<Rightarrow>
                  (k, Some (n\<lparr>nf_owned_clutch_sites := ss\<rparr>))))"

text \<open>The result: sites patched, sites rejected, the sites.\<close>

fun repatch_sites ::
  "u64 \<Rightarrow> addr \<Rightarrow> u64 \<Rightarrow> TurboJSNativeEntryKind \<Rightarrow> u16 \<Rightarrow> TurboJSClutchCallSite list
     \<Rightarrow> nat \<times> nat \<times> TurboJSClutchCallSite list" where
  "repatch_sites identity target generation kind argument_count [] = (0, 0, [])"
| "repatch_sites identity target generation kind argument_count (s # ss) =
     (case repatch_sites identity target generation kind argument_count ss of (p, r, ss') \<Rightarrow>
        if cs_target_identity s \<noteq> identity then (p, r, s # ss')
        else if cs_expected_kind s \<noteq> kind \<or> cs_argument_count s \<noteq> argument_count then (p, r + 1, s # ss')
        else (p + 1, r, s\<lparr>cs_target := target, cs_expected_generation := generation\<rparr> # ss'))"

definition TurboJS_NativeRepatchClutchIdentity ::
  "TurboJSNativeFunction ptr \<Rightarrow> u64 \<Rightarrow> addr \<Rightarrow> u64 \<Rightarrow> TurboJSNativeEntryKind \<Rightarrow> u16 \<Rightarrow> nat
     \<Rightarrow> nat \<times> nat \<times> TurboJSNativeFunction ptr" where
  "TurboJS_NativeRepatchClutchIdentity f identity target generation kind argument_count incompatible =
     (case f of
        None \<Rightarrow> (0, incompatible, None)
      | Some n \<Rightarrow>
          if identity = 0 \<or> target = 0 then (0, incompatible, f)
          else (case repatch_sites identity target generation kind argument_count (nf_owned_clutch_sites n) of
                  (p, r, ss) \<Rightarrow> (p, incompatible + r, Some (n\<lparr>nf_owned_clutch_sites := ss\<rparr>))))"

definition destroy_clutch_sites :: "TurboJSClutchCallSite list \<Rightarrow> root_log \<Rightarrow> root_log" where
  "destroy_clutch_sites sites log = fold (\<lambda>s log. snd (destroy_call_site s log)) sites log"

definition TurboJS_NativeFunctionDestroy :: "addr \<Rightarrow> vault_heap \<Rightarrow> vault_heap c" where
  "TurboJS_NativeFunctionDestroy f V =
     (if f = 0 then Inr V
      else bindc (deref (vh_natives V) f) (\<lambda>n.
        Inr (V\<lparr>vh_natives := (vh_natives V)(f := None),
               vh_log := destroy_clutch_sites (nf_owned_clutch_sites n) (vh_log V)\<rparr>)))"

section \<open>The cache\<close>

record TurboJSCodeCacheEntry =
  ce_key :: addr
  ce_function :: addr
  ce_entry_handle :: addr
  ce_code_size :: nat
  ce_stamp :: u64
  ce_access_count :: u32
  ce_entry_kind :: TurboJSNativeEntryKind
  ce_cache_kind :: u8
  ce_state :: u8
  ce_continuation_function_id :: u64
  ce_continuation_revision :: u64
  ce_target_identity :: u64
  ce_continuation_start_instruction :: nat
  ce_continuation_prologue_count :: nat
  ce_dependencies :: "addr list"
  ce_repatch_dependencies :: "u64 list"

record TurboJSCodeCacheStats =
  ccs_entry_count :: nat
  ccs_code_bytes :: nat
  ccs_hits :: u64
  ccs_misses :: u64
  ccs_compilations :: u64
  ccs_evictions :: u64
  ccs_dependent_call_sites_invalidated :: u64
  ccs_continuation_dependency_invalidations :: u64
  ccs_reverse_dependency_lookups :: u64
  ccs_reverse_dependency_nodes_visited :: u64
  ccs_reverse_dependency_registrations :: u64
  ccs_reverse_dependency_unregistrations :: u64
  ccs_clutch_repatch_attempts :: u64
  ccs_clutch_repatch_successes :: u64
  ccs_clutch_repatch_incompatible :: u64
  ccs_clutch_call_sites_repatched :: u64
  ccs_repatch_identity_lookups :: u64
  ccs_repatch_identity_nodes_visited :: u64
  ccs_repatch_identity_registrations :: u64
  ccs_repatch_identity_unregistrations :: u64
  ccs_weighted_function_evictions :: u64
  ccs_weighted_continuation_evictions :: u64
  ccs_continuation_hits :: u64
  ccs_continuation_misses :: u64
  ccs_continuation_compilations :: u64
  ccs_continuation_evictions :: u64
  ccs_continuation_entry_count :: nat
  ccs_continuation_code_bytes :: nat

record TurboJSCodeCache =
  cc_entries :: "TurboJSCodeCacheEntry list"
  cc_slot_count :: nat
  cc_count :: nat
  cc_maximum_entries :: nat
  cc_maximum_code_bytes :: nat
  cc_code_bytes :: nat
  cc_clock :: u64
  cc_last_key :: addr
  cc_last_function :: addr
  cc_stats :: TurboJSCodeCacheStats
  cc_dependency_buckets :: "(addr \<times> nat) list list"
  cc_dependency_bucket_count :: nat
  cc_repatch_buckets :: "(u64 \<times> nat) list list"
  cc_repatch_bucket_count :: nat

type_synonym vault = "TurboJSCodeCache \<times> vault_heap"

text \<open>Arithmetic of \<^verbatim>\<open>size_t\<close>.\<close>

definition size_add :: "nat \<Rightarrow> nat \<Rightarrow> nat" where
  "size_add a b = (a + b) mod 18446744073709551616"

definition size_sub :: "nat \<Rightarrow> nat \<Rightarrow> nat" where
  "size_sub a b = (if b \<le> a then a - b else a + 18446744073709551616 - b)"

definition null_entry :: TurboJSCodeCacheEntry where
  "null_entry = \<lparr>ce_key = 0, ce_function = 0, ce_entry_handle = 0, ce_code_size = 0, ce_stamp = 0,
     ce_access_count = 0, ce_entry_kind = TURBOJS_NATIVE_ENTRY_NONE, ce_cache_kind = 0, ce_state = 0,
     ce_continuation_function_id = 0, ce_continuation_revision = 0, ce_target_identity = 0,
     ce_continuation_start_instruction = 0, ce_continuation_prologue_count = 0,
     ce_dependencies = [], ce_repatch_dependencies = []\<rparr>"

definition null_stats :: TurboJSCodeCacheStats where
  "null_stats = \<lparr>ccs_entry_count = 0, ccs_code_bytes = 0, ccs_hits = 0, ccs_misses = 0, ccs_compilations = 0,
     ccs_evictions = 0, ccs_dependent_call_sites_invalidated = 0, ccs_continuation_dependency_invalidations = 0,
     ccs_reverse_dependency_lookups = 0, ccs_reverse_dependency_nodes_visited = 0,
     ccs_reverse_dependency_registrations = 0, ccs_reverse_dependency_unregistrations = 0,
     ccs_clutch_repatch_attempts = 0, ccs_clutch_repatch_successes = 0, ccs_clutch_repatch_incompatible = 0,
     ccs_clutch_call_sites_repatched = 0, ccs_repatch_identity_lookups = 0,
     ccs_repatch_identity_nodes_visited = 0, ccs_repatch_identity_registrations = 0,
     ccs_repatch_identity_unregistrations = 0, ccs_weighted_function_evictions = 0,
     ccs_weighted_continuation_evictions = 0, ccs_continuation_hits = 0, ccs_continuation_misses = 0,
     ccs_continuation_compilations = 0, ccs_continuation_evictions = 0, ccs_continuation_entry_count = 0,
     ccs_continuation_code_bytes = 0\<rparr>"

subsection \<open>Hashes\<close>

definition mix33 :: "u64 \<Rightarrow> u64" where
  "mix33 x = x XOR drop_bit 33 x"

definition dependency_hash :: "addr \<Rightarrow> nat \<Rightarrow> nat" where
  "dependency_hash target bucket_count =
     (let x = mix33 (mix33 target * 0xff51afd7ed558ccd)
      in if bucket_count \<noteq> 0 then unat (x AND (word_of_nat bucket_count - 1)) else 0)"

definition key_hash :: "addr \<Rightarrow> u64" where
  "key_hash key = mix33 (mix33 (mix33 key * 0xff51afd7ed558ccd) * 0xc4ceb9fe1a85ec53)"

definition identity_hash :: "u64 \<Rightarrow> nat \<Rightarrow> nat" where
  "identity_hash identity bucket_count =
     (let x = mix33 (mix33 (mix33 identity * 0xff51afd7ed558ccd) * 0xc4ceb9fe1a85ec53)
      in if bucket_count \<noteq> 0 then unat (x AND (word_of_nat bucket_count - 1)) else 0)"

subsection \<open>The indexes\<close>

text \<open>
  Both indexes unlink and link nodes the same way: \<open>unlink_all\<close> walks an entry's list and takes each
  node out of its bucket, \<open>link_all\<close> walks the call sites, skips null targets and targets already
  linked, and stops at the first allocation that fails.
\<close>

fun unlink_all :: "('k \<Rightarrow> nat) \<Rightarrow> nat \<Rightarrow> 'k list \<Rightarrow> ('k \<times> nat) list list \<Rightarrow> ('k \<times> nat) list list c" where
  "unlink_all bucket owner [] buckets = Inr buckets"
| "unlink_all bucket owner (k # ks) buckets =
     bindc (rd buckets (bucket k)) (\<lambda>b.
     bindc (wr buckets (bucket k) (remove1 (k, owner) b)) (unlink_all bucket owner ks))"

fun link_all ::
  "('k \<Rightarrow> nat) \<Rightarrow> 'k \<Rightarrow> (nat \<Rightarrow> bool) \<Rightarrow> nat \<Rightarrow> nat \<Rightarrow> 'k list \<Rightarrow> 'k list \<Rightarrow> ('k \<times> nat) list list
     \<Rightarrow> (bool \<times> 'k list \<times> ('k \<times> nat) list list) c" where
  "link_all bucket null calloc_ok owner i [] own buckets = Inr (True, own, buckets)"
| "link_all bucket null calloc_ok owner i (k # ks) own buckets =
     (if k = null \<or> k \<in> set own then link_all bucket null calloc_ok owner (i + 1) ks own buckets
      else if \<not> calloc_ok i then Inr (False, own, buckets)
      else bindc (rd buckets (bucket k)) (\<lambda>b.
           bindc (wr buckets (bucket k) ((k, owner) # b))
             (link_all bucket null calloc_ok owner (i + 1) ks (k # own))))"

definition unregister_entry_dependencies :: "TurboJSCodeCache \<Rightarrow> nat \<Rightarrow> TurboJSCodeCache c" where
  "unregister_entry_dependencies cache slot =
     bindc (rd (cc_entries cache) slot) (\<lambda>entry.
     bindc (unlink_all (\<lambda>t. dependency_hash t (cc_dependency_bucket_count cache)) slot (ce_dependencies entry)
              (cc_dependency_buckets cache)) (\<lambda>buckets.
       Inr (cache\<lparr>cc_dependency_buckets := buckets,
                  cc_entries := (cc_entries cache)[slot := entry\<lparr>ce_dependencies := []\<rparr>],
                  cc_stats := (cc_stats cache)\<lparr>ccs_reverse_dependency_unregistrations :=
                    ccs_reverse_dependency_unregistrations (cc_stats cache) + word_of_nat (length (ce_dependencies entry))\<rparr>\<rparr>)))"

definition unregister_entry_repatch_dependencies :: "TurboJSCodeCache \<Rightarrow> nat \<Rightarrow> TurboJSCodeCache c" where
  "unregister_entry_repatch_dependencies cache slot =
     bindc (rd (cc_entries cache) slot) (\<lambda>entry.
     bindc (unlink_all (\<lambda>t. identity_hash t (cc_repatch_bucket_count cache)) slot (ce_repatch_dependencies entry)
              (cc_repatch_buckets cache)) (\<lambda>buckets.
       Inr (cache\<lparr>cc_repatch_buckets := buckets,
                  cc_entries := (cc_entries cache)[slot := entry\<lparr>ce_repatch_dependencies := []\<rparr>],
                  cc_stats := (cc_stats cache)\<lparr>ccs_repatch_identity_unregistrations :=
                    ccs_repatch_identity_unregistrations (cc_stats cache) + word_of_nat (length (ce_repatch_dependencies entry))\<rparr>\<rparr>)))"

definition register_entry_repatch_dependencies ::
  "(nat \<Rightarrow> bool) \<Rightarrow> TurboJSCodeCache \<Rightarrow> vault_heap \<Rightarrow> nat \<Rightarrow> (bool \<times> TurboJSCodeCache) c" where
  "register_entry_repatch_dependencies calloc_ok cache V slot =
     bindc (rd (cc_entries cache) slot) (\<lambda>entry.
       if ce_function entry = 0 then Inr (False, cache)
       else bindc (unregister_entry_repatch_dependencies cache slot) (\<lambda>c1.
            bindc (deref (vh_natives V) (ce_function entry)) (\<lambda>native.
            bindc (link_all (\<lambda>t. identity_hash t (cc_repatch_bucket_count c1)) 0 calloc_ok slot 0
                     (map (TurboJS_NativeClutchSiteIdentityAt (Some native)) [0..<TurboJS_NativeClutchSiteCount (Some native)])
                     [] (cc_repatch_buckets c1)) (\<lambda>(ok, own, buckets).
            bindc (rd (cc_entries c1) slot) (\<lambda>entry1.
              (let c2 = c1\<lparr>cc_repatch_buckets := buckets,
                           cc_entries := (cc_entries c1)[slot := entry1\<lparr>ce_repatch_dependencies := own\<rparr>],
                           cc_stats := (cc_stats c1)\<lparr>ccs_repatch_identity_registrations :=
                             ccs_repatch_identity_registrations (cc_stats c1) + word_of_nat (length own)\<rparr>\<rparr>
               in if ok then Inr (True, c2)
                  else bindc (unregister_entry_repatch_dependencies c2 slot) (\<lambda>c3. Inr (False, c3))))))))"

definition register_entry_dependencies ::
  "(nat \<Rightarrow> bool) \<Rightarrow> (nat \<Rightarrow> bool) \<Rightarrow> TurboJSCodeCache \<Rightarrow> vault_heap \<Rightarrow> nat \<Rightarrow> (bool \<times> TurboJSCodeCache) c" where
  "register_entry_dependencies calloc_ok repatch_ok cache V slot =
     bindc (rd (cc_entries cache) slot) (\<lambda>entry.
       if ce_function entry = 0 then Inr (False, cache)
       else bindc (unregister_entry_dependencies cache slot) (\<lambda>c1.
            bindc (deref (vh_natives V) (ce_function entry)) (\<lambda>native.
            bindc (link_all (\<lambda>t. dependency_hash t (cc_dependency_bucket_count c1)) 0 calloc_ok slot 0
                     (map (TurboJS_NativeClutchSiteTargetAt (Some native)) [0..<TurboJS_NativeClutchSiteCount (Some native)])
                     [] (cc_dependency_buckets c1)) (\<lambda>(ok, own, buckets).
            bindc (rd (cc_entries c1) slot) (\<lambda>entry1.
              (let c2 = c1\<lparr>cc_dependency_buckets := buckets,
                           cc_entries := (cc_entries c1)[slot := entry1\<lparr>ce_dependencies := own\<rparr>],
                           cc_stats := (cc_stats c1)\<lparr>ccs_reverse_dependency_registrations :=
                             ccs_reverse_dependency_registrations (cc_stats c1) + word_of_nat (length own)\<rparr>\<rparr>
               in if \<not> ok then bindc (unregister_entry_dependencies c2 slot) (\<lambda>c3. Inr (False, c3))
                  else bindc (register_entry_repatch_dependencies repatch_ok c2 V slot) (\<lambda>(ok2, c3).
                         if \<not> ok2 then bindc (unregister_entry_dependencies c3 slot) (\<lambda>c4. Inr (False, c4))
                         else Inr (True, c3))))))))"

fun invalidate_nodes :: "(addr \<times> nat) list \<Rightarrow> addr \<Rightarrow> TurboJSCodeCache \<Rightarrow> vault_heap \<Rightarrow> nat \<Rightarrow> (nat \<times> vault) c" where
  "invalidate_nodes [] target cache V acc = Inr (acc, cache, V)"
| "invalidate_nodes ((t, owner) # nodes) target cache V acc =
     bindc (rd (cc_entries cache) owner) (\<lambda>entry.
       if t = target \<and> ce_state entry = 1
       then bindc (load (vh_natives V) (ce_function entry)) (\<lambda>native.
              case TurboJS_NativeInvalidateClutchTarget native target of (n, native') \<Rightarrow>
                (let V' = V\<lparr>vh_natives := (vh_natives V)(ce_function entry := native')\<rparr>;
                     st = cc_stats cache;
                     st1 = st\<lparr>ccs_reverse_dependency_nodes_visited := ccs_reverse_dependency_nodes_visited st + 1,
                              ccs_dependent_call_sites_invalidated :=
                                ccs_dependent_call_sites_invalidated st + word_of_nat n\<rparr>;
                     st2 = (if ce_cache_kind entry = 1
                            then st1\<lparr>ccs_continuation_dependency_invalidations :=
                                       ccs_continuation_dependency_invalidations st1 + word_of_nat n\<rparr> else st1)
                 in invalidate_nodes nodes target (cache\<lparr>cc_stats := st2\<rparr>) V' (acc + n)))
       else invalidate_nodes nodes target cache V acc)"

definition invalidate_indexed_dependents :: "TurboJSCodeCache \<Rightarrow> vault_heap \<Rightarrow> addr \<Rightarrow> (nat \<times> vault) c" where
  "invalidate_indexed_dependents cache V target =
     (if target = 0 \<or> cc_dependency_bucket_count cache = 0 then Inr (0, cache, V)
      else
        (let c1 = cache\<lparr>cc_stats := (cc_stats cache)\<lparr>ccs_reverse_dependency_lookups :=
               ccs_reverse_dependency_lookups (cc_stats cache) + 1\<rparr>\<rparr>
         in bindc (rd (cc_dependency_buckets cache) (dependency_hash target (cc_dependency_bucket_count cache)))
              (\<lambda>nodes. invalidate_nodes nodes target c1 V 0)))"

subsection \<open>Slots\<close>

fun grow_pow2 :: "nat \<Rightarrow> nat \<Rightarrow> nat \<Rightarrow> nat" where
  "grow_pow2 0 result size_value = 0"
| "grow_pow2 (Suc n) result size_value =
     (if result < size_value then if SIZE_MAX div 2 < result then 0 else grow_pow2 n (result * 2) size_value else result)"

text \<open>The loop of \<^verbatim>\<open>next_pow2\<close> shifts at most 61 times before it returns.\<close>

definition next_pow2 :: "nat \<Rightarrow> nat" where
  "next_pow2 size_value = (if SIZE_MAX div 2 < size_value then 0 else grow_pow2 62 8 size_value)"

text \<open>
  The probe sequence, with the rounds left; \<open>None\<close> is \<^verbatim>\<open>SIZE_MAX\<close>. States: 0 empty, 1 live, 2 tombstone.
\<close>

fun probe :: "nat \<Rightarrow> TurboJSCodeCacheEntry list \<Rightarrow> nat \<Rightarrow> addr \<Rightarrow> bool \<Rightarrow> nat \<Rightarrow> nat option \<Rightarrow> nat option c" where
  "probe 0 entries slot_mask key for_insert slot tombstone = Inr tombstone"
| "probe (Suc n) entries slot_mask key for_insert slot tombstone =
     bindc (rd entries slot) (\<lambda>entry.
       if ce_state entry = 0 then Inr (if for_insert \<and> tombstone \<noteq> None then tombstone else Some slot)
       else if ce_state entry = 1 \<and> ce_key entry = key then Inr (Some slot)
       else probe n entries slot_mask key for_insert ((slot + 1) AND slot_mask)
              (if for_insert \<and> ce_state entry = 2 \<and> tombstone = None then Some slot else tombstone))"

definition find_slot :: "TurboJSCodeCache \<Rightarrow> addr \<Rightarrow> bool \<Rightarrow> nat option c" where
  "find_slot cache key for_insert =
     (let slot_mask = size_sub (cc_slot_count cache) 1
      in probe (cc_slot_count cache) (cc_entries cache) slot_mask key for_insert (unat (key_hash key) AND slot_mask) None)"

definition touch_entry :: "TurboJSCodeCache \<Rightarrow> nat \<Rightarrow> TurboJSCodeCache c" where
  "touch_entry cache slot =
     bindc (rd (cc_entries cache) slot) (\<lambda>entry.
       Inr (cache\<lparr>cc_clock := cc_clock cache + 1,
                  cc_entries := (cc_entries cache)[slot := entry\<lparr>ce_stamp := cc_clock cache + 1,
                    ce_access_count := (if unat (ce_access_count entry) \<noteq> UINT32_MAX
                                        then ce_access_count entry + 1 else ce_access_count entry)\<rparr>]\<rparr>))"

definition eviction_score :: "TurboJSCodeCache \<Rightarrow> TurboJSCodeCacheEntry \<Rightarrow> u64" where
  "eviction_score cache entry =
     (if ce_state entry \<noteq> 1 then 0
      else
        (let age = (if ce_stamp entry \<le> cc_clock cache then cc_clock cache - ce_stamp entry else 0);
             size_units = 1 + word_of_nat (ce_code_size entry div 16384);
             access = ce_access_count entry;
             retention = (if ce_cache_kind entry = 1 then 4 + (if access < 12 then ucast access else 12)
                          else 1 + (if access < 3 then ucast access else 3))
         in (age + 1) * size_units * 1024 div retention))"

definition remove_slot :: "TurboJSCodeCache \<Rightarrow> vault_heap \<Rightarrow> nat \<Rightarrow> bool \<Rightarrow> vault c" where
  "remove_slot cache V slot eviction =
     bindc (rd (cc_entries cache) slot) (\<lambda>entry.
       if ce_state entry \<noteq> 1 then Inr (cache, V)
       else
         (let c1 = cache\<lparr>cc_code_bytes := size_sub (cc_code_bytes cache) (ce_code_size entry)\<rparr>;
              c2 = (if cc_last_key c1 = ce_key entry then c1\<lparr>cc_last_key := 0, cc_last_function := 0\<rparr> else c1)
          in bindc (if ce_cache_kind entry = 0 \<and> ce_entry_handle entry \<noteq> 0
                    then bindc (deref (heap_handles (vh_jit V)) (ce_entry_handle entry)) (\<lambda>handle.
                           if neh_function handle = ce_function entry
                           then bindc (invalidate_indexed_dependents c2 V (ce_entry_handle entry)) (\<lambda>(_, c, V1).
                                  Inr (c, V1\<lparr>vh_jit := (vh_jit V1)\<lparr>heap_handles :=
                                    (heap_handles (vh_jit V1))(ce_entry_handle entry :=
                                       TurboJS_NativeEntryHandleInvalidate (Some handle))\<rparr>\<rparr>))
                           else Inr (c2, V))
                    else Inr (c2, V)) (\<lambda>(c3, V3).
             bindc (unregister_entry_dependencies c3 slot) (\<lambda>c4.
             bindc (unregister_entry_repatch_dependencies c4 slot) (\<lambda>c5.
             bindc (TurboJS_NativeFunctionDestroy (ce_function entry) V3) (\<lambda>V5.
               (let st = cc_stats c5;
                    st1 = (if ce_cache_kind entry = 1
                           then st\<lparr>ccs_continuation_evictions := ccs_continuation_evictions st + (if eviction then 1 else 0),
                                   ccs_continuation_entry_count := (if ccs_continuation_entry_count st \<noteq> 0
                                      then ccs_continuation_entry_count st - 1 else 0),
                                   ccs_continuation_code_bytes := ccs_continuation_code_bytes st - ce_code_size entry\<rparr>
                           else st);
                    st2 = (if eviction then st1\<lparr>ccs_evictions := ccs_evictions st1 + 1\<rparr> else st1)
                in Inr (c5\<lparr>cc_entries := (cc_entries c5)[slot := null_entry\<lparr>ce_state := 2\<rparr>],
                           cc_count := size_sub (cc_count c5) 1, cc_stats := st2\<rparr>, V5))))))))"

fun scan_victim ::
  "nat \<Rightarrow> nat \<Rightarrow> TurboJSCodeCache \<Rightarrow> nat option \<Rightarrow> u64 \<Rightarrow> u64 \<Rightarrow> nat option c" where
  "scan_victim 0 i cache victim worst_score oldest_stamp = Inr victim"
| "scan_victim (Suc n) i cache victim worst_score oldest_stamp =
     bindc (rd (cc_entries cache) i) (\<lambda>entry.
       if ce_state entry \<noteq> 1 then scan_victim n (i + 1) cache victim worst_score oldest_stamp
       else
         (let score = eviction_score cache entry
          in if victim = None \<or> worst_score < score \<or> (score = worst_score \<and> ce_stamp entry < oldest_stamp)
             then scan_victim n (i + 1) cache (Some i) score (ce_stamp entry)
             else scan_victim n (i + 1) cache victim worst_score oldest_stamp))"

definition evict_lru :: "TurboJSCodeCache \<Rightarrow> vault_heap \<Rightarrow> (bool \<times> vault) c" where
  "evict_lru cache V =
     bindc (scan_victim (cc_slot_count cache) 0 cache None 0 (- 1)) (\<lambda>victim.
       case victim of
         None \<Rightarrow> Inr (False, cache, V)
       | Some i \<Rightarrow>
           bindc (rd (cc_entries cache) i) (\<lambda>entry.
             (let st = cc_stats cache;
                  st1 = (if ce_cache_kind entry = 0
                         then st\<lparr>ccs_weighted_function_evictions := ccs_weighted_function_evictions st + 1\<rparr>
                         else st\<lparr>ccs_weighted_continuation_evictions := ccs_weighted_continuation_evictions st + 1\<rparr>)
              in bindc (remove_slot (cache\<lparr>cc_stats := st1\<rparr>) V i True) (\<lambda>v. Inr (True, v)))))"

subsection \<open>Public operations\<close>

definition TurboJS_CodeCacheCreate :: "bool \<Rightarrow> nat \<Rightarrow> nat \<Rightarrow> TurboJSCodeCache ptr" where
  "TurboJS_CodeCacheCreate calloc_ok maximum_entries maximum_code_bytes =
     (let entries = (if maximum_entries = 0 then 64 else maximum_entries);
          bytes = (if maximum_code_bytes = 0 then 4194304 else maximum_code_bytes);
          slots = next_pow2 (if entries < SIZE_MAX div 2 then entries * 2 else 0)
      in if slots = 0 \<or> \<not> calloc_ok then None
         else Some \<lparr>cc_entries = replicate slots null_entry, cc_slot_count = slots, cc_count = 0,
                cc_maximum_entries = entries, cc_maximum_code_bytes = bytes, cc_code_bytes = 0, cc_clock = 0,
                cc_last_key = 0, cc_last_function = 0, cc_stats = null_stats,
                cc_dependency_buckets = replicate slots [], cc_dependency_bucket_count = slots,
                cc_repatch_buckets = replicate slots [], cc_repatch_bucket_count = slots\<rparr>)"

text \<open>The result: the function found (0 for \<^verbatim>\<open>NULL\<close>) and the cache.\<close>

definition TurboJS_CodeCacheLookup :: "TurboJSCodeCache ptr \<Rightarrow> addr \<Rightarrow> (addr \<times> TurboJSCodeCache ptr) c" where
  "TurboJS_CodeCacheLookup cache key =
     (case cache of
        None \<Rightarrow> Inr (0, None)
      | Some c \<Rightarrow>
          if key = 0 then Inr (0, cache)
          else
            (let hit = (\<lambda>c. c\<lparr>cc_stats := (cc_stats c)\<lparr>ccs_hits := ccs_hits (cc_stats c) + 1\<rparr>\<rparr>)
             in if cc_last_key c = key \<and> cc_last_function c \<noteq> 0
                then bindc (find_slot (hit c) key False) (\<lambda>slot.
                       case slot of
                         None \<Rightarrow> Inr (cc_last_function c, Some (hit c))
                       | Some i \<Rightarrow> bindc (rd (cc_entries c) i) (\<lambda>entry.
                           if ce_state entry = 1
                           then bindc (touch_entry (hit c) i) (\<lambda>c1. Inr (cc_last_function c, Some c1))
                           else Inr (cc_last_function c, Some (hit c))))
                else bindc (find_slot c key False) (\<lambda>slot.
                       (let miss = Inr (0, Some (c\<lparr>cc_stats := (cc_stats c)\<lparr>ccs_misses := ccs_misses (cc_stats c) + 1\<rparr>\<rparr>))
                        in case slot of
                             None \<Rightarrow> miss
                           | Some i \<Rightarrow> bindc (rd (cc_entries c) i) (\<lambda>entry.
                               if ce_state entry \<noteq> 1 then miss
                               else bindc (touch_entry (hit c) i) (\<lambda>c1.
                                      Inr (ce_function entry,
                                           Some (c1\<lparr>cc_last_key := key, cc_last_function := ce_function entry\<rparr>))))))))"

definition over_budget :: "TurboJSCodeCache \<Rightarrow> nat \<Rightarrow> bool" where
  "over_budget cache code_size \<longleftrightarrow> cc_maximum_entries cache \<le> cc_count cache \<or>
     size_sub (cc_maximum_code_bytes cache) (cc_code_bytes cache) < code_size"

text \<open>
  The eviction loop. Every round that goes on removes one entry, so the number of entries at the
  start bounds the rounds.
\<close>

fun make_room :: "nat \<Rightarrow> TurboJSCodeCache \<Rightarrow> vault_heap \<Rightarrow> nat \<Rightarrow> vault c" where
  "make_room 0 cache V code_size = Inr (cache, V)"
| "make_room (Suc n) cache V code_size =
     (if cc_count cache \<noteq> 0 \<and> over_budget cache code_size
      then bindc (evict_lru cache V) (\<lambda>(evicted, c, V1). if evicted then make_room n c V1 code_size else Inr (c, V1))
      else Inr (cache, V))"

record vault_env =
  ve_jit :: jit_env
  ve_baseline :: "TurboJSIRFunction \<Rightarrow> jit_heap \<Rightarrow> TurboJSIRDiagnostic ptr \<Rightarrow> root_log
     \<Rightarrow> TurboJSIRStatus \<times> TurboJSNativeFunction \<times> TurboJSIRDiagnostic ptr \<times> root_log"

text \<open>The outcomes of the allocations during one operation.\<close>

record vault_alloc =
  va_emit :: "nat \<Rightarrow> bool"
  va_site :: "nat \<Rightarrow> bool"
  va_fresh_site :: "nat \<Rightarrow> addr"
  va_next_id :: u64
  va_native :: addr
  va_dependency :: "nat \<Rightarrow> bool"
  va_repatch :: "nat \<Rightarrow> bool"

text \<open>Storing a compiled function in a slot and registering what it calls; \<open>update\<close> fills in the entry.\<close>

definition occupy_slot ::
  "vault_alloc \<Rightarrow> TurboJSCodeCache \<Rightarrow> vault_heap \<Rightarrow> nat \<Rightarrow> addr \<Rightarrow> nat
     \<Rightarrow> (TurboJSCodeCacheEntry \<Rightarrow> TurboJSCodeCacheEntry) \<Rightarrow> (bool \<times> vault) c" where
  "occupy_slot A cache V slot native code_size update =
     bindc (rd (cc_entries cache) slot) (\<lambda>entry.
       (let c1 = cache\<lparr>cc_clock := cc_clock cache + 1,
                       cc_entries := (cc_entries cache)[slot := update (entry\<lparr>ce_function := native,
                         ce_code_size := code_size, ce_stamp := cc_clock cache + 1, ce_access_count := 1, ce_state := 1\<rparr>)],
                       cc_count := size_add (cc_count cache) 1,
                       cc_code_bytes := size_add (cc_code_bytes cache) code_size\<rparr>
        in bindc (register_entry_dependencies (va_dependency A) (va_repatch A) c1 V slot) (\<lambda>(ok, c2).
             if ok then Inr (True, c2, V) else bindc (remove_slot c2 V slot False) (\<lambda>v. Inr (False, v)))))"

text \<open>
  Compilation on a miss: the baseline compiler, once more on the specialized wrapper when it does not
  support the function. The native function gets the address \<open>va_native\<close>.
\<close>

definition compile_native ::
  "vault_env \<Rightarrow> vault_alloc \<Rightarrow> TurboJSIRFunction \<Rightarrow> TurboJSIRDiagnostic ptr \<Rightarrow> vault_heap
     \<Rightarrow> (TurboJSIRStatus \<times> TurboJSNativeFunction \<times> TurboJSIRDiagnostic ptr \<times> vault_heap) c" where
  "compile_native E A ir diagnostic V =
     (case ve_baseline E ir (vh_jit V) diagnostic (vh_log V) of (status, native, d1, log) \<Rightarrow>
        (let V1 = V\<lparr>vh_log := log\<rparr>
         in if status \<noteq> TURBOJS_IR_UNSUPPORTED then Inr (status, native, d1, V1)
            else bindc (TurboJS_IRSpecializeCallableReferences (ve_jit E) (va_emit A) (va_site A) (va_fresh_site A)
                          (va_next_id A) (Some ir) (Some null_function) (Some \<lparr>diag_status = TURBOJS_IR_OK,
                          diag_instruction_index = 0, diag_message = []\<rparr>) (vh_jit V1) (vh_log V1))
                   (\<lambda>(sp_status, specialized, _, H, log1).
                      if sp_status \<noteq> TURBOJS_IR_OK
                      then Inr (status, native, d1, V1\<lparr>vh_jit := H, vh_log := log1\<rparr>)
                      else (case ve_baseline E (the specialized) H d1 log1 of (status2, native2, d2, log2) \<Rightarrow>
                              bindc (TurboJS_IRFunctionDestroy specialized H log2) (\<lambda>(_, H2, log3).
                                Inr (status2, native2, d2, V1\<lparr>vh_jit := H2, vh_log := log3\<rparr>))))))"

definition TurboJS_CodeCacheCompile ::
  "vault_env \<Rightarrow> vault_alloc \<Rightarrow> TurboJSCodeCache ptr \<Rightarrow> addr \<Rightarrow> TurboJSIRFunction ptr \<Rightarrow> addr ptr \<Rightarrow> TurboJSIRDiagnostic ptr
     \<Rightarrow> vault_heap \<Rightarrow> (TurboJSIRStatus \<times> TurboJSCodeCache ptr \<times> addr ptr \<times> TurboJSIRDiagnostic ptr \<times> vault_heap) c" where
  "TurboJS_CodeCacheCompile E A cache key ir out_function diagnostic V =
     (case (cache, ir, out_function) of
        (Some c, Some f, Some _) \<Rightarrow>
          if key = 0 then Inr (TURBOJS_IR_INVALID_ARGUMENT, cache, out_function, diagnostic, V)
          else bindc (find_slot c key False) (\<lambda>slot.
               bindc (case slot of None \<Rightarrow> Inr False
                      | Some i \<Rightarrow> bindc (rd (cc_entries c) i) (\<lambda>entry. Inr (ce_state entry = 1))) (\<lambda>present.
                 if present
                 then bindc (rd (cc_entries c) (the slot)) (\<lambda>entry.
                      bindc (touch_entry c (the slot)) (\<lambda>c1.
                        Inr (TURBOJS_IR_OK, Some c1, Some (ce_function entry), diagnostic, V)))
                 else bindc (compile_native E A f diagnostic V) (\<lambda>(status, native, d1, V1).
                   if status \<noteq> TURBOJS_IR_OK then Inr (status, cache, out_function, d1, V1)
                   else
                     (let V2 = V1\<lparr>vh_natives := (vh_natives V1)(va_native A \<mapsto> native)\<rparr>;
                          code_size = TurboJS_NativeCodeSize (Some native);
                          discard = (\<lambda>status c V. bindc (TurboJS_NativeFunctionDestroy (va_native A) V) (\<lambda>V'.
                            Inr (status, Some c, out_function, d1, V')))
                      in if cc_maximum_code_bytes c < code_size then discard TURBOJS_IR_UNSUPPORTED c V2
                         else bindc (make_room (cc_count c) c V2 code_size) (\<lambda>(c3, V3).
                           if over_budget c3 code_size then discard TURBOJS_IR_UNSUPPORTED c3 V3
                           else bindc (find_slot c3 key True) (\<lambda>slot1.
                             case slot1 of
                               None \<Rightarrow> discard TURBOJS_IR_OUT_OF_MEMORY c3 V3
                             | Some i \<Rightarrow>
                                 bindc (occupy_slot A c3 V3 i (va_native A) code_size
                                          (\<lambda>e. e\<lparr>ce_key := key, ce_cache_kind := 0\<rparr>)) (\<lambda>(ok, c4, V4).
                                   if \<not> ok then Inr (TURBOJS_IR_OUT_OF_MEMORY, Some c4, out_function, d1, V4)
                                   else Inr (TURBOJS_IR_OK,
                                     Some (c4\<lparr>cc_stats := (cc_stats c4)\<lparr>ccs_compilations := ccs_compilations (cc_stats c4) + 1\<rparr>,
                                       cc_last_key := key, cc_last_function := va_native A\<rparr>),
                                     Some (va_native A), d1, V4))))))))
      | _ \<Rightarrow> Inr (TURBOJS_IR_INVALID_ARGUMENT, cache, out_function, diagnostic, V))"

definition TurboJS_CodeCacheInvalidate :: "TurboJSCodeCache ptr \<Rightarrow> addr \<Rightarrow> vault_heap \<Rightarrow> (TurboJSCodeCache ptr \<times> vault_heap) c" where
  "TurboJS_CodeCacheInvalidate cache key V =
     (case cache of
        None \<Rightarrow> Inr (None, V)
      | Some c \<Rightarrow>
          if key = 0 then Inr (cache, V)
          else bindc (find_slot c key False) (\<lambda>slot.
                 case slot of
                   None \<Rightarrow> Inr (cache, V)
                 | Some i \<Rightarrow> bindc (remove_slot c V i False) (\<lambda>(c1, V1). Inr (Some c1, V1))))"

fun clear_slots :: "nat \<Rightarrow> nat \<Rightarrow> TurboJSCodeCache \<Rightarrow> vault_heap \<Rightarrow> vault c" where
  "clear_slots 0 i cache V = Inr (cache, V)"
| "clear_slots (Suc n) i cache V =
     bindc (rd (cc_entries cache) i) (\<lambda>entry.
       if ce_state entry = 1
       then bindc (remove_slot cache V i False) (\<lambda>(c1, V1). clear_slots n (i + 1) c1 V1)
       else clear_slots n (i + 1) cache V)"

definition TurboJS_CodeCacheClear :: "TurboJSCodeCache ptr \<Rightarrow> vault_heap \<Rightarrow> (TurboJSCodeCache ptr \<times> vault_heap) c" where
  "TurboJS_CodeCacheClear cache V =
     (case cache of
        None \<Rightarrow> Inr (None, V)
      | Some c \<Rightarrow>
          bindc (clear_slots (cc_slot_count c) 0 c V) (\<lambda>(c1, V1).
            Inr (Some (c1\<lparr>cc_entries := replicate (cc_slot_count c1) null_entry,
                          cc_dependency_buckets := replicate (cc_dependency_bucket_count c1) [],
                          cc_count := 0, cc_code_bytes := 0, cc_last_key := 0, cc_last_function := 0\<rparr>), V1)))"

definition TurboJS_CodeCacheDestroy :: "TurboJSCodeCache ptr \<Rightarrow> vault_heap \<Rightarrow> vault_heap c" where
  "TurboJS_CodeCacheDestroy cache V =
     (if cache = None then Inr V else bindc (TurboJS_CodeCacheClear cache V) (\<lambda>(_, V1). Inr V1))"

definition TurboJS_CodeCacheGetStats :: "TurboJSCodeCache ptr \<Rightarrow> TurboJSCodeCacheStats" where
  "TurboJS_CodeCacheGetStats cache =
     (case cache of
        None \<Rightarrow> null_stats
      | Some c \<Rightarrow> (cc_stats c)\<lparr>ccs_entry_count := cc_count c, ccs_code_bytes := cc_code_bytes c\<rparr>)"

text \<open>
  Repatching: first the owners that registered the identity are collected (\<open>None\<close> when the list of
  owners cannot grow: capacity 8, doubled when full), then each is patched.
\<close>

fun collect_owners ::
  "(u64 \<times> nat) list \<Rightarrow> u64 \<Rightarrow> (nat \<Rightarrow> bool) \<Rightarrow> TurboJSCodeCache \<Rightarrow> nat list \<Rightarrow> nat
     \<Rightarrow> (nat list option \<times> TurboJSCodeCache) c" where
  "collect_owners [] identity realloc_ok cache owners capacity = Inr (Some owners, cache)"
| "collect_owners ((t, owner) # nodes) identity realloc_ok cache owners capacity =
     bindc (rd (cc_entries cache) owner) (\<lambda>entry.
       if t \<noteq> identity \<or> ce_state entry \<noteq> 1 \<or> ce_function entry = 0
       then collect_owners nodes identity realloc_ok cache owners capacity
       else
         (let c1 = cache\<lparr>cc_stats := (cc_stats cache)\<lparr>ccs_repatch_identity_nodes_visited :=
                ccs_repatch_identity_nodes_visited (cc_stats cache) + 1\<rparr>\<rparr>;
              full = length owners = capacity
          in if full \<and> \<not> realloc_ok (length owners) then Inr (None, c1)
             else collect_owners nodes identity realloc_ok c1 (owners @ [owner])
                    (if full then (if capacity \<noteq> 0 then capacity * 2 else 8) else capacity)))"

fun repatch_owners ::
  "nat list \<Rightarrow> u64 \<Rightarrow> addr \<Rightarrow> u64 \<Rightarrow> TurboJSNativeEntryKind \<Rightarrow> u16 \<Rightarrow> vault_alloc \<Rightarrow> TurboJSCodeCache \<Rightarrow> vault_heap \<Rightarrow> vault c" where
  "repatch_owners [] identity handle generation kind argument_count A cache V = Inr (cache, V)"
| "repatch_owners (owner # owners) identity handle generation kind argument_count A cache V =
     bindc (rd (cc_entries cache) owner) (\<lambda>entry.
     bindc (load (vh_natives V) (ce_function entry)) (\<lambda>native.
       case TurboJS_NativeRepatchClutchIdentity native identity handle generation kind argument_count 0 of
         (patched, incompatible, native') \<Rightarrow>
           (let V1 = V\<lparr>vh_natives := (vh_natives V)(ce_function entry := native')\<rparr>;
                st = cc_stats cache;
                st1 = st\<lparr>ccs_clutch_repatch_attempts := ccs_clutch_repatch_attempts st + 1,
                         ccs_clutch_call_sites_repatched := ccs_clutch_call_sites_repatched st + word_of_nat patched,
                         ccs_clutch_repatch_incompatible := ccs_clutch_repatch_incompatible st + word_of_nat incompatible\<rparr>
            in if patched = 0
               then repatch_owners owners identity handle generation kind argument_count A (cache\<lparr>cc_stats := st1\<rparr>) V1
               else bindc (register_entry_dependencies (va_dependency A) (va_repatch A)
                             (cache\<lparr>cc_stats := st1\<lparr>ccs_clutch_repatch_successes := ccs_clutch_repatch_successes st1 + 1\<rparr>\<rparr>) V1 owner)
                      (\<lambda>(_, c1). repatch_owners owners identity handle generation kind argument_count A c1 V1))))"

definition repatch_identity_dependents ::
  "vault_alloc \<Rightarrow> (nat \<Rightarrow> bool) \<Rightarrow> TurboJSCodeCache \<Rightarrow> vault_heap \<Rightarrow> u64 \<Rightarrow> addr \<Rightarrow> TurboJSNativeEntryKind \<Rightarrow> u16 \<Rightarrow> vault c" where
  "repatch_identity_dependents A realloc_ok cache V identity handle kind argument_count =
     (if identity = 0 \<or> handle = 0 \<or> cc_repatch_bucket_count cache = 0 then Inr (cache, V)
      else
        (let c1 = cache\<lparr>cc_stats := (cc_stats cache)\<lparr>ccs_repatch_identity_lookups :=
               ccs_repatch_identity_lookups (cc_stats cache) + 1\<rparr>\<rparr>
         in bindc (rd (cc_repatch_buckets c1) (identity_hash identity (cc_repatch_bucket_count c1))) (\<lambda>nodes.
            bindc (collect_owners nodes identity realloc_ok c1 [] 0) (\<lambda>(owners, c2).
              case owners of
                None \<Rightarrow> Inr (c2, V)
              | Some os \<Rightarrow>
                  bindc (deref (heap_handles (vh_jit V)) handle) (\<lambda>h.
                    repatch_owners os identity handle (neh_generation h) kind argument_count A c2 V)))))"

definition TurboJS_CodeCacheAttachEntryHandleIdentity ::
  "jit_env \<Rightarrow> vault_alloc \<Rightarrow> (nat \<Rightarrow> bool) \<Rightarrow> TurboJSCodeCache ptr \<Rightarrow> addr \<Rightarrow> addr \<Rightarrow> TurboJSNativeEntryKind \<Rightarrow> u16 \<Rightarrow> u64
     \<Rightarrow> vault_heap \<Rightarrow> (TurboJSIRStatus \<times> TurboJSCodeCache ptr \<times> vault_heap) c" where
  "TurboJS_CodeCacheAttachEntryHandleIdentity E A realloc_ok cache key handle kind argument_count target_identity V =
     (case cache of
        None \<Rightarrow> Inr (TURBOJS_IR_INVALID_ARGUMENT, None, V)
      | Some c \<Rightarrow>
          if key = 0 \<or> handle = 0 \<or> (kind \<noteq> TURBOJS_NATIVE_ENTRY_INT32 \<and> kind \<noteq> TURBOJS_NATIVE_ENTRY_FLOAT64)
          then Inr (TURBOJS_IR_INVALID_ARGUMENT, cache, V)
          else bindc (find_slot c key False) (\<lambda>slot.
            case slot of
              None \<Rightarrow> Inr (TURBOJS_IR_UNSUPPORTED, cache, V)
            | Some i \<Rightarrow> bindc (rd (cc_entries c) i) (\<lambda>entry.
                if ce_state entry \<noteq> 1 then Inr (TURBOJS_IR_UNSUPPORTED, cache, V)
                else
                  bindc (if ce_entry_handle entry \<noteq> 0 \<and> ce_entry_handle entry \<noteq> handle
                         then bindc (deref (heap_handles (vh_jit V)) (ce_entry_handle entry)) (\<lambda>old.
                                Inr (if neh_function old = ce_function entry
                                     then (vh_jit V)\<lparr>heap_handles := (heap_handles (vh_jit V))(ce_entry_handle entry :=
                                            TurboJS_NativeEntryHandleInvalidate (Some old))\<rparr>
                                     else vh_jit V))
                         else Inr (vh_jit V)) (\<lambda>H1.
                  bindc (deref (heap_handles H1) handle) (\<lambda>h.
                    (let c1 = c\<lparr>cc_entries := (cc_entries c)[i := entry\<lparr>ce_entry_handle := handle,
                                 ce_entry_kind := kind, ce_target_identity := target_identity\<rparr>]\<rparr>;
                         H2 = H1\<lparr>heap_handles := (heap_handles H1)(handle :=
                                 publish_entry_handle E (Some h) (ce_function entry) kind argument_count)\<rparr>
                     in bindc (repatch_identity_dependents A realloc_ok c1 (V\<lparr>vh_jit := H2\<rparr>) target_identity handle kind argument_count)
                          (\<lambda>(c2, V2). Inr (TURBOJS_IR_OK, Some c2, V2))))))))"

definition TurboJS_CodeCacheAttachEntryHandle ::
  "jit_env \<Rightarrow> vault_alloc \<Rightarrow> (nat \<Rightarrow> bool) \<Rightarrow> TurboJSCodeCache ptr \<Rightarrow> addr \<Rightarrow> addr \<Rightarrow> TurboJSNativeEntryKind \<Rightarrow> u16
     \<Rightarrow> vault_heap \<Rightarrow> (TurboJSIRStatus \<times> TurboJSCodeCache ptr \<times> vault_heap) c" where
  "TurboJS_CodeCacheAttachEntryHandle E A realloc_ok cache key handle kind argument_count V =
     TurboJS_CodeCacheAttachEntryHandleIdentity E A realloc_ok cache key handle kind argument_count 0 V"

subsection \<open>Continuations\<close>

fun scan_continuation :: "nat \<Rightarrow> nat \<Rightarrow> TurboJSCodeCacheEntry list \<Rightarrow> u64 \<Rightarrow> u64 \<Rightarrow> nat \<Rightarrow> nat option c" where
  "scan_continuation 0 i entries function_id revision start_instruction = Inr None"
| "scan_continuation (Suc n) i entries function_id revision start_instruction =
     bindc (rd entries i) (\<lambda>entry.
       if ce_state entry = 1 \<and> ce_cache_kind entry = 1 \<and> ce_continuation_function_id entry = function_id \<and>
          ce_continuation_revision entry = revision \<and> ce_continuation_start_instruction entry = start_instruction
       then Inr (Some i) else scan_continuation n (i + 1) entries function_id revision start_instruction)"

definition find_continuation_entry :: "TurboJSCodeCache \<Rightarrow> u64 \<Rightarrow> u64 \<Rightarrow> nat \<Rightarrow> nat option c" where
  "find_continuation_entry cache function_id revision start_instruction =
     scan_continuation (cc_slot_count cache) 0 (cc_entries cache) function_id revision start_instruction"

definition TurboJS_CodeCacheLookupContinuation ::
  "TurboJSCodeCache ptr \<Rightarrow> u64 \<Rightarrow> u64 \<Rightarrow> nat \<Rightarrow> nat ptr \<Rightarrow> (addr \<times> nat ptr \<times> TurboJSCodeCache ptr) c" where
  "TurboJS_CodeCacheLookupContinuation cache function_id revision start_instruction out_prologue_count =
     (case cache of
        None \<Rightarrow> Inr (0, out_prologue_count, None)
      | Some c \<Rightarrow>
          bindc (find_continuation_entry c function_id revision start_instruction) (\<lambda>slot.
            case slot of
              None \<Rightarrow> Inr (0, out_prologue_count,
                Some (c\<lparr>cc_stats := (cc_stats c)\<lparr>ccs_continuation_misses := ccs_continuation_misses (cc_stats c) + 1\<rparr>\<rparr>))
            | Some i \<Rightarrow> bindc (rd (cc_entries c) i) (\<lambda>entry.
                        bindc (touch_entry c i) (\<lambda>c1.
                          Inr (ce_function entry, map_option (\<lambda>_. ce_continuation_prologue_count entry) out_prologue_count,
                            Some (c1\<lparr>cc_stats := (cc_stats c1)\<lparr>ccs_continuation_hits := ccs_continuation_hits (cc_stats c1) + 1\<rparr>\<rparr>))))))"

fun scan_free :: "nat \<Rightarrow> nat \<Rightarrow> TurboJSCodeCacheEntry list \<Rightarrow> nat option c" where
  "scan_free 0 i entries = Inr None"
| "scan_free (Suc n) i entries =
     bindc (rd entries i) (\<lambda>entry. if ce_state entry \<noteq> 1 then Inr (Some i) else scan_free n (i + 1) entries)"

definition TurboJS_CodeCacheStoreContinuation ::
  "vault_alloc \<Rightarrow> TurboJSCodeCache ptr \<Rightarrow> u64 \<Rightarrow> u64 \<Rightarrow> nat \<Rightarrow> nat \<Rightarrow> addr \<Rightarrow> addr ptr \<Rightarrow> vault_heap
     \<Rightarrow> (TurboJSIRStatus \<times> TurboJSCodeCache ptr \<times> addr ptr \<times> vault_heap) c" where
  "TurboJS_CodeCacheStoreContinuation A cache function_id revision start_instruction prologue_count native out_function V =
     (case (cache, out_function) of
        (Some c, Some _) \<Rightarrow>
          if native = 0 \<or> function_id = 0 then Inr (TURBOJS_IR_INVALID_ARGUMENT, cache, out_function, V)
          else bindc (find_continuation_entry c function_id revision start_instruction) (\<lambda>existing.
            (let discard = (\<lambda>status c V. bindc (TurboJS_NativeFunctionDestroy native V) (\<lambda>V1.
                   Inr (status, Some c, out_function, V1)))
             in case existing of
               Some i \<Rightarrow>
                 bindc (TurboJS_NativeFunctionDestroy native V) (\<lambda>V1.
                 bindc (touch_entry c i) (\<lambda>c1.
                 bindc (rd (cc_entries c1) i) (\<lambda>entry.
                   Inr (TURBOJS_IR_OK, Some c1, Some (ce_function entry), V1))))
             | None \<Rightarrow>
                 bindc (deref (vh_natives V) native) (\<lambda>nf.
                   (let code_size = TurboJS_NativeCodeSize (Some nf)
                    in if cc_maximum_code_bytes c < code_size then discard TURBOJS_IR_UNSUPPORTED c V
                       else bindc (make_room (cc_count c) c V code_size) (\<lambda>(c1, V1).
                         if over_budget c1 code_size then discard TURBOJS_IR_UNSUPPORTED c1 V1
                         else bindc (scan_free (cc_slot_count c1) 0 (cc_entries c1)) (\<lambda>slot.
                           case slot of
                             None \<Rightarrow> discard TURBOJS_IR_OUT_OF_MEMORY c1 V1
                           | Some i \<Rightarrow>
                               bindc (occupy_slot A c1 V1 i native code_size (\<lambda>e. e\<lparr>ce_key := 0, ce_cache_kind := 1,
                                        ce_continuation_function_id := function_id, ce_continuation_revision := revision,
                                        ce_continuation_start_instruction := start_instruction,
                                        ce_continuation_prologue_count := prologue_count\<rparr>)) (\<lambda>(ok, c2, V2).
                                 if \<not> ok then Inr (TURBOJS_IR_OUT_OF_MEMORY, Some c2, out_function, V2)
                                 else
                                   (let st = cc_stats c2
                                    in Inr (TURBOJS_IR_OK,
                                         Some (c2\<lparr>cc_stats := st\<lparr>
                                           ccs_continuation_compilations := ccs_continuation_compilations st + 1,
                                           ccs_continuation_entry_count := ccs_continuation_entry_count st + 1,
                                           ccs_continuation_code_bytes := ccs_continuation_code_bytes st + code_size\<rparr>\<rparr>),
                                         Some native, V2)))))))))
      | _ \<Rightarrow> Inr (TURBOJS_IR_INVALID_ARGUMENT, cache, out_function, V))"

section \<open>Reverse indexes\<close>

text \<open>
  What an index promises its clients: a node for every pair of an owner and one of its keys, in the
  bucket of the key, and no other node.
\<close>

definition indexes :: "('k \<Rightarrow> nat) \<Rightarrow> nat \<Rightarrow> 'k list list \<Rightarrow> ('k \<times> nat) list list \<Rightarrow> bool" where
  "indexes bucket n deps buckets \<longleftrightarrow> length buckets = n \<and> (\<forall>own\<in>set deps. distinct own) \<and>
     (\<forall>b<n. distinct (buckets ! b)) \<and>
     (\<forall>b<n. \<forall>t i. (t, i) \<in> set (buckets ! b) \<longleftrightarrow> b = bucket t \<and> i < length deps \<and> t \<in> set (deps ! i))"

locale reverse_index =
  fixes bucket :: "'k \<Rightarrow> nat" and n :: nat
  assumes bucket_less: "bucket k < n"
begin

lemma unlink_one:
  assumes "indexes bucket n (deps[i := k # ks]) buckets" "i < length deps"
  shows "indexes bucket n (deps[i := ks]) (buckets[bucket k := remove1 (k, i) (buckets ! bucket k)])"
proof -
  let ?b = "bucket k"
  have b: "?b < n" by (rule bucket_less)
  have len: "length buckets = n" and dist: "\<And>b. b < n \<Longrightarrow> distinct (buckets ! b)"
    and mem: "\<And>b t j. b < n \<Longrightarrow> (t, j) \<in> set (buckets ! b) \<longleftrightarrow> b = bucket t \<and> j < length deps \<and> t \<in> set (deps[i := k # ks] ! j)"
    and own: "\<And>own. own \<in> set (deps[i := k # ks]) \<Longrightarrow> distinct own"
    using assms(1) by (auto simp: indexes_def)
  have "k # ks \<in> set (deps[i := k # ks])" using assms(2) by (simp add: set_update_memI)
  then have k: "k \<notin> set ks" "distinct ks" using own by fastforce+
  have deps: "distinct own" if "own \<in> set (deps[i := ks])" for own
  proof -
    obtain j where j: "j < length deps" "own = deps[i := ks] ! j" using \<open>own \<in> _\<close> by (auto simp: in_set_conv_nth)
    show ?thesis
    proof (cases "j = i")
      case True then show ?thesis using j k by simp
    next
      case False
      then have "own = deps[i := k # ks] ! j" using j by simp
      then have "own \<in> set (deps[i := k # ks])" using j(1) by (metis length_list_update nth_mem)
      then show ?thesis by (rule own)
    qed
  qed
  have nodes: "(t, j) \<in> set (buckets[?b := remove1 (k, i) (buckets ! ?b)] ! b') \<longleftrightarrow>
      b' = bucket t \<and> j < length deps \<and> t \<in> set (deps[i := ks] ! j)" if "b' < n" for b' t j
  proof (cases "b' = ?b")
    case True
    then have "(t, j) \<in> set (buckets[?b := remove1 (k, i) (buckets ! ?b)] ! b') \<longleftrightarrow> (t, j) \<noteq> (k, i) \<and> (t, j) \<in> set (buckets ! ?b)"
      using b len dist [OF b] by (auto simp: set_remove1_eq)
    then show ?thesis using mem [OF b, of t j] True k assms(2) by (auto simp: nth_list_update)
  next
    case False
    then show ?thesis using mem [OF that, of t j] that assms(2) by (cases "j = i") auto
  qed
  have "distinct (buckets[?b := remove1 (k, i) (buckets ! ?b)] ! b')" if "b' < n" for b'
    using dist [OF that] dist [OF b] that len by (cases "b' = ?b") (simp_all add: distinct_remove1)
  then show ?thesis using len deps nodes by (auto simp: indexes_def)
qed

lemma unlink_all_ok:
  "indexes bucket n (deps[i := ks]) buckets \<Longrightarrow> i < length deps \<Longrightarrow>
   \<exists>bs. unlink_all bucket i ks buckets = Inr bs \<and> indexes bucket n (deps[i := []]) bs"
proof (induction ks arbitrary: buckets)
  case Nil
  then show ?case by simp
next
  case (Cons k ks)
  have "bucket k < length buckets" using Cons.prems(1) bucket_less by (simp add: indexes_def)
  with Cons.IH [OF unlink_one [OF Cons.prems]] Cons.prems(2) show ?case by (simp add: rd_ok wr_ok)
qed

lemma link_one:
  assumes "indexes bucket n (deps[i := own]) buckets" "i < length deps" "k \<notin> set own"
  shows "indexes bucket n (deps[i := k # own]) (buckets[bucket k := (k, i) # buckets ! bucket k])"
proof -
  let ?b = "bucket k"
  have b: "?b < n" by (rule bucket_less)
  have len: "length buckets = n" and dist: "\<And>b. b < n \<Longrightarrow> distinct (buckets ! b)"
    and mem: "\<And>b t j. b < n \<Longrightarrow> (t, j) \<in> set (buckets ! b) \<longleftrightarrow> b = bucket t \<and> j < length deps \<and> t \<in> set (deps[i := own] ! j)"
    and own: "\<And>own'. own' \<in> set (deps[i := own]) \<Longrightarrow> distinct own'"
    using assms(1) by (auto simp: indexes_def)
  have "own \<in> set (deps[i := own])" using assms(2) by (simp add: set_update_memI)
  then have k: "distinct (k # own)" using own assms(3) by simp
  have deps: "distinct own'" if "own' \<in> set (deps[i := k # own])" for own'
  proof -
    obtain j where j: "j < length deps" "own' = deps[i := k # own] ! j" using \<open>own' \<in> _\<close> by (auto simp: in_set_conv_nth)
    show ?thesis
    proof (cases "j = i")
      case True then show ?thesis using j k by simp
    next
      case False
      then have "own' = deps[i := own] ! j" using j by simp
      then have "own' \<in> set (deps[i := own])" using j(1) by (metis length_list_update nth_mem)
      then show ?thesis by (rule own)
    qed
  qed
  have new: "(k, i) \<notin> set (buckets ! ?b)" using mem [OF b, of k i] assms(2,3) by simp
  have nodes: "(t, j) \<in> set (buckets[?b := (k, i) # buckets ! ?b] ! b') \<longleftrightarrow>
      b' = bucket t \<and> j < length deps \<and> t \<in> set (deps[i := k # own] ! j)" if "b' < n" for b' t j
    using mem [OF that, of t j] mem [OF b, of t j] that b len assms(2)
    by (cases "b' = ?b") (auto simp: nth_list_update)
  have "distinct (buckets[?b := (k, i) # buckets ! ?b] ! b')" if "b' < n" for b'
    using dist [OF that] dist [OF b] that len new by (cases "b' = ?b") simp_all
  then show ?thesis using len deps nodes by (auto simp: indexes_def)
qed

lemma link_all_ok:
  "indexes bucket n (deps[i := own]) buckets \<Longrightarrow> i < length deps \<Longrightarrow>
   \<exists>ok own' bs. link_all bucket null calloc_ok i j ks own buckets = Inr (ok, own', bs) \<and>
     indexes bucket n (deps[i := own']) bs \<and> set own \<subseteq> set own' \<and>
     (ok \<longrightarrow> set ks \<subseteq> insert null (set own')) \<and> ((\<forall>m. calloc_ok m) \<longrightarrow> ok)"
proof (induction ks arbitrary: own buckets j)
  case Nil
  then show ?case by auto
next
  case (Cons k ks)
  show ?case
  proof (cases "k = null \<or> k \<in> set own")
    case True
    obtain ok own' bs where r: "link_all bucket null calloc_ok i (j + 1) ks own buckets = Inr (ok, own', bs)"
      "indexes bucket n (deps[i := own']) bs" "set own \<subseteq> set own'" "ok \<longrightarrow> set ks \<subseteq> insert null (set own')" "(\<forall>m. calloc_ok m) \<longrightarrow> ok"
      using Cons.IH [OF Cons.prems] by blast
    with True show ?thesis by auto
  next
    case False
    show ?thesis
    proof (cases "calloc_ok j")
      case True
      have len: "bucket k < length buckets" using Cons.prems(1) bucket_less by (simp add: indexes_def)
      have "k \<notin> set own" using False by simp
      note one = link_one [OF Cons.prems this]
      obtain ok own' bs where r: "link_all bucket null calloc_ok i (j + 1) ks (k # own)
          (buckets[bucket k := (k, i) # buckets ! bucket k]) = Inr (ok, own', bs)"
        "indexes bucket n (deps[i := own']) bs" "set (k # own) \<subseteq> set own'" "ok \<longrightarrow> set ks \<subseteq> insert null (set own')" "(\<forall>m. calloc_ok m) \<longrightarrow> ok"
        using Cons.IH [OF one Cons.prems(2), of "j + 1"] by blast
      then show ?thesis using False True len by (simp add: rd_ok wr_ok)
    next
      case oom: False
      then show ?thesis using False Cons.prems(1) by auto
    qed
  qed
qed

end

lemma bucket_mask: "n \<noteq> 0 \<Longrightarrow> n < 2 ^ 64 \<Longrightarrow> unat ((x :: u64) AND (word_of_nat n - 1)) < n"
proof -
  assume n: "n \<noteq> 0" "n < 2 ^ 64"
  have "x AND (word_of_nat n - 1) \<le> word_of_nat n - 1" by (rule word_and_le1)
  moreover have "unat (word_of_nat n - 1 :: u64) = n - 1"
    using n by (simp add: unat_sub word_le_nat_alt unat_of_nat)
  ultimately show ?thesis using n by (simp add: word_le_nat_alt)
qed

interpretation dependency_index: reverse_index "\<lambda>t. dependency_hash t (2 ^ min k 63)" "2 ^ min k 63" for k
proof
  fix t
  have "(2 :: nat) ^ min k 63 < 2 ^ 64" by (rule power_strict_increasing) simp_all
  then show "dependency_hash t (2 ^ min k 63) < 2 ^ min k 63"
    using bucket_mask [of "2 ^ min k 63"] unfolding dependency_hash_def Let_def by simp
qed

interpretation identity_index: reverse_index "\<lambda>t. identity_hash t (2 ^ min k 63)" "2 ^ min k 63" for k
proof
  fix t
  have "(2 :: nat) ^ min k 63 < 2 ^ 64" by (rule power_strict_increasing) simp_all
  then show "identity_hash t (2 ^ min k 63) < 2 ^ min k 63"
    using bucket_mask [of "2 ^ min k 63"] unfolding identity_hash_def Let_def by simp
qed

end
