(* ===== verification/Vault_Table.thy ===== *)
theory Vault_Table
  imports Vault
begin

text \<open>
  The code cache as a map from keys to functions: the invariant of the table, of the indexes and of
  the native functions the table owns, and what the operations of the cache do to the map.
\<close>

section \<open>The table as a map\<close>


definition live :: "TurboJSCodeCacheEntry \<Rightarrow> bool" where
  "live e \<longleftrightarrow> ce_state e = 1"

definition pow2_size :: "nat \<Rightarrow> bool" where
  "pow2_size n \<longleftrightarrow> (\<exists>k\<le>63. n = 2 ^ k)"

text \<open>The \<open>j\<close>-th slot probed for a key, and the keys that probing finds.\<close>

definition slot_at :: "nat \<Rightarrow> addr \<Rightarrow> nat \<Rightarrow> nat" where
  "slot_at n key j = (unat (key_hash key) + j) mod n"

definition reachable_key :: "TurboJSCodeCacheEntry list \<Rightarrow> nat \<Rightarrow> bool" where
  "reachable_key entries i \<longleftrightarrow> (\<exists>j<length entries. i = slot_at (length entries) (ce_key (entries ! i)) j \<and>
     (\<forall>j'<j. ce_state (entries ! slot_at (length entries) (ce_key (entries ! i)) j') \<noteq> 0))"

lemma pow2_mask: "pow2_size n \<Longrightarrow> x AND (n - 1) = x mod n"
proof -
  assume "pow2_size n"
  then obtain k where n: "n = 2 ^ k" by (auto simp: pow2_size_def)
  have "x AND (2 ^ k - 1) = take_bit k x" by (simp add: take_bit_eq_mask mask_eq_exp_minus_1)
  then show ?thesis by (simp add: n take_bit_eq_mod)
qed

lemma slot_at_less: "0 < n \<Longrightarrow> slot_at n key j < n"
  by (simp add: slot_at_def)

lemma slot_at_Suc: "(slot_at n key j + 1) mod n = slot_at n key (Suc j)"
  by (simp add: slot_at_def mod_simps)

lemma slot_at_covers:
  assumes "i < n"
  obtains j where "j < n" "i = slot_at n key j"
proof -
  let ?h = "unat (key_hash key) mod n"
  let ?j = "(i + n - ?h) mod n"
  have h: "?h < n" using assms by simp
  have "(?h + ?j) mod n = (?h + (i + n - ?h)) mod n" by (simp only: mod_add_right_eq)
  also have "\<dots> = (i + n) mod n" using h by simp
  finally have "i = slot_at n key ?j" using assms by (simp add: slot_at_def mod_simps)
  moreover have "?j < n" using assms by simp
  ultimately show thesis using that by blast
qed

definition matches :: "TurboJSCodeCacheEntry list \<Rightarrow> addr \<Rightarrow> nat \<Rightarrow> bool" where
  "matches es key i \<longleftrightarrow> ce_state (es ! i) = 1 \<and> ce_key (es ! i) = key"

text \<open>
  What a probe of \<open>n\<close> slots finds: an entry with the key, or the end of the probe path at position
  \<open>e\<close>, with no entry for the key before it; when inserting, the first tombstone on the path.
\<close>

definition probe_result ::
  "TurboJSCodeCacheEntry list \<Rightarrow> addr \<Rightarrow> bool \<Rightarrow> nat option \<Rightarrow> bool" where
  "probe_result es key ins r \<longleftrightarrow>
     (let n = length es; pos = slot_at n key in
      (\<exists>j<n. r = Some (pos j) \<and> matches es key (pos j) \<and> (\<forall>j'<j. ce_state (es ! pos j') \<noteq> 0)) \<or>
      (\<exists>e\<le>n. (\<forall>j<e. ce_state (es ! pos j) \<noteq> 0 \<and> \<not> matches es key (pos j)) \<and>
         (e < n \<longrightarrow> ce_state (es ! pos e) = 0) \<and>
         (case r of
            None \<Rightarrow> e = n \<and> (ins \<longrightarrow> (\<forall>j<n. ce_state (es ! pos j) \<noteq> 2))
          | Some s \<Rightarrow> \<exists>j\<le>e. j < n \<and> s = pos j \<and> (ce_state (es ! s) = 0 \<or> ce_state (es ! s) = 2))))"

lemma probe_spec:
  assumes "pow2_size (length es)" "j + r = length es"
    and before: "\<forall>j'<j. ce_state (es ! slot_at (length es) key j') \<noteq> 0 \<and> \<not> matches es key (slot_at (length es) key j')"
    and none: "tb = None \<and> ins \<longrightarrow> (\<forall>j'<j. ce_state (es ! slot_at (length es) key j') \<noteq> 2)"
    and some: "\<forall>t. tb = Some t \<longrightarrow> (\<exists>j'<j. t = slot_at (length es) key j' \<and> ce_state (es ! t) = 2)"
  shows "\<exists>s. probe r es (length es - 1) key ins (slot_at (length es) key j) tb = Inr s \<and> probe_result es key ins s"
  using assms(2-5)
proof (induction r arbitrary: j tb)
  case 0
  then have j: "j = length es" by simp
  have "probe_result es key ins tb"
    unfolding probe_result_def Let_def
    by (rule disjI2, rule exI [of _ j]) (use 0 j in \<open>auto split: option.split\<close>)
  then show ?case by simp
next
  case (Suc r)
  let ?n = "length es" and ?s = "slot_at (length es) key j"
  have jn: "j < ?n" using Suc.prems(1) by simp
  have s: "?s < ?n" by (rule slot_at_less) (use jn in auto)
  show ?case
  proof (cases "ce_state (es ! ?s) = 0")
    case True
    let ?r = "if ins \<and> tb \<noteq> None then tb else Some ?s"
    have "\<exists>t ja. ?r = Some t \<and> ja \<le> j \<and> ja < ?n \<and> t = slot_at ?n key ja \<and> (ce_state (es ! t) = 0 \<or> ce_state (es ! t) = 2)"
    proof (cases "ins \<and> tb \<noteq> None")
      case True
      then obtain t j' where "tb = Some t" "j' < j" "t = slot_at ?n key j'" "ce_state (es ! t) = 2" using Suc.prems(4) by auto
      then show ?thesis using True jn by (intro exI [of _ t] exI [of _ j']) simp
    next
      case False
      then show ?thesis using True jn by (intro exI [of _ ?s] exI [of _ j]) auto
    qed
    then obtain t ja where r: "?r = Some t" and ja: "ja \<le> j" "ja < ?n" "t = slot_at ?n key ja"
      "ce_state (es ! t) = 0 \<or> ce_state (es ! t) = 2" by blast
    then have "\<exists>ja\<le>j. ja < ?n \<and> t = slot_at ?n key ja \<and> (ce_state (es ! t) = 0 \<or> ce_state (es ! t) = 2)" by blast
    then have "probe_result es key ins ?r"
      unfolding probe_result_def Let_def r
      by (intro disjI2 exI [of _ j]) (use Suc.prems(2) True jn in simp)
    then show ?thesis using True s by (simp add: rd_ok)
  next
    case ne: False
    show ?thesis
    proof (cases "matches es key ?s")
      case True
      have "probe_result es key ins (Some ?s)"
        unfolding probe_result_def Let_def
        by (rule disjI1, rule exI [of _ j]) (use Suc.prems True jn in auto)
      then show ?thesis using True ne s by (auto simp: rd_ok matches_def)
    next
      case False
      let ?tb = "if ins \<and> ce_state (es ! ?s) = 2 \<and> tb = None then Some ?s else tb"
      have step: "probe (Suc r) es (?n - 1) key ins ?s tb = probe r es (?n - 1) key ins (slot_at ?n key (Suc j)) ?tb"
        using ne False s pow2_mask [OF assms(1), of "?s + 1"] slot_at_Suc [of ?n key j]
        by (auto simp: rd_ok matches_def)
      have "\<forall>j'<Suc j. ce_state (es ! slot_at ?n key j') \<noteq> 0 \<and> \<not> matches es key (slot_at ?n key j')"
        using Suc.prems(2) ne False by (auto simp: less_Suc_eq)
      moreover have "?tb = None \<and> ins \<longrightarrow> (\<forall>j'<Suc j. ce_state (es ! slot_at ?n key j') \<noteq> 2)"
        using Suc.prems(3) by (auto simp: less_Suc_eq split: if_splits)
      moreover have "\<forall>t. ?tb = Some t \<longrightarrow> (\<exists>j'<Suc j. t = slot_at ?n key j' \<and> ce_state (es ! t) = 2)"
        using Suc.prems(4) by (auto simp: less_Suc_eq split: if_splits)
      ultimately show ?thesis using Suc.IH [of "Suc j" ?tb] Suc.prems(1) by (simp only: step add_Suc_right add_Suc)
    qed
  qed
qed

lemma find_slot_spec:
  assumes "pow2_size (cc_slot_count c)" "length (cc_entries c) = cc_slot_count c"
  shows "\<exists>s. find_slot c key ins = Inr s \<and> probe_result (cc_entries c) key ins s"
proof -
  let ?n = "cc_slot_count c"
  have n: "0 < ?n" using assms(1) by (auto simp: pow2_size_def)
  then have "unat (key_hash key) AND (?n - 1) = slot_at ?n key 0"
    using pow2_mask [OF assms(1)] by (simp add: slot_at_def)
  then show ?thesis
    using probe_spec [of "cc_entries c" 0 ?n key None ins] assms n
    by (simp add: find_slot_def Let_def size_sub_def)
qed

section \<open>The invariant\<close>

text \<open>
  The part of an entry that says what the table holds; stamps, access counts and the lists of the
  indexes are left out.
\<close>

definition core :: "TurboJSCodeCacheEntry \<Rightarrow> TurboJSCodeCacheEntry" where
  "core e = e\<lparr>ce_stamp := 0, ce_access_count := 0, ce_dependencies := [], ce_repatch_dependencies := []\<rparr>"

definition cores :: "TurboJSCodeCache \<Rightarrow> TurboJSCodeCacheEntry list" where
  "cores c = map core (cc_entries c)"

definition vault_map :: "TurboJSCodeCache \<Rightarrow> addr \<Rightarrow> addr option" where
  "vault_map c = map_of (map (\<lambda>e. (ce_key e, ce_function e)) (filter (\<lambda>e. live e \<and> ce_key e \<noteq> 0) (cores c)))"

definition live_count :: "TurboJSCodeCacheEntry list \<Rightarrow> nat" where
  "live_count es = sum_list (map (\<lambda>e. if live e then 1 else 0) es)"

definition live_bytes :: "TurboJSCodeCacheEntry list \<Rightarrow> nat" where
  "live_bytes es = sum_list (map (\<lambda>e. if live e then ce_code_size e else 0) es)"

definition unique_keys :: "TurboJSCodeCacheEntry list \<Rightarrow> bool" where
  "unique_keys es \<longleftrightarrow> distinct (map ce_key (filter (\<lambda>e. live e \<and> ce_key e \<noteq> 0) es))"

definition reachable_keys :: "TurboJSCodeCacheEntry list \<Rightarrow> bool" where
  "reachable_keys es \<longleftrightarrow> (\<forall>i<length es. live (es ! i) \<and> ce_key (es ! i) \<noteq> 0 \<longrightarrow> reachable_key es i)"

text \<open>A slot without a live entry has no handle.\<close>

definition state_ok :: "TurboJSCodeCacheEntry \<Rightarrow> bool" where
  "state_ok e \<longleftrightarrow> ce_state e \<in> {0, 1, 2} \<and> (\<not> live e \<longrightarrow> ce_entry_handle e = 0)"

definition table_inv :: "TurboJSCodeCache \<Rightarrow> bool" where
  "table_inv c \<longleftrightarrow> pow2_size (cc_slot_count c) \<and> length (cores c) = cc_slot_count c \<and>
     (\<forall>e\<in>set (cores c). state_ok e) \<and>
     unique_keys (cores c) \<and> reachable_keys (cores c) \<and>
     cc_count c = live_count (cores c) \<and> cc_code_bytes c = live_bytes (cores c) \<and>
     cc_count c \<le> cc_maximum_entries c \<and> cc_code_bytes c \<le> cc_maximum_code_bytes c \<and>
     0 < cc_maximum_entries c \<and> 2 * cc_maximum_entries c \<le> cc_slot_count c \<and>
     cc_maximum_code_bytes c < 2 ^ 64 \<and>
     (cc_last_key c \<noteq> 0 \<and> cc_last_function c \<noteq> 0 \<longrightarrow> vault_map c (cc_last_key c) = Some (cc_last_function c))"

definition index_inv :: "TurboJSCodeCache \<Rightarrow> bool" where
  "index_inv c \<longleftrightarrow> cc_dependency_bucket_count c = cc_slot_count c \<and> cc_repatch_bucket_count c = cc_slot_count c \<and>
     indexes (\<lambda>t. dependency_hash t (cc_slot_count c)) (cc_slot_count c) (map ce_dependencies (cc_entries c)) (cc_dependency_buckets c) \<and>
     indexes (\<lambda>t. identity_hash t (cc_slot_count c)) (cc_slot_count c) (map ce_repatch_dependencies (cc_entries c)) (cc_repatch_buckets c)"

definition entry_owned :: "vault_heap \<Rightarrow> TurboJSCodeCacheEntry \<Rightarrow> bool" where
  "entry_owned V e \<longleftrightarrow> ce_function e \<noteq> 0 \<and> vh_natives V (ce_function e) \<noteq> None \<and>
     (ce_entry_handle e \<noteq> 0 \<longrightarrow> heap_handles (vh_jit V) (ce_entry_handle e) \<noteq> None)"

definition natives_inv :: "TurboJSCodeCacheEntry list \<Rightarrow> vault_heap \<Rightarrow> bool" where
  "natives_inv es V \<longleftrightarrow> (\<forall>e\<in>set es. live e \<longrightarrow> entry_owned V e) \<and> distinct (map ce_function (filter live es))"

definition vault_inv :: "TurboJSCodeCache \<Rightarrow> vault_heap \<Rightarrow> bool" where
  "vault_inv c V \<longleftrightarrow> table_inv c \<and> index_inv c \<and> natives_inv (cores c) V"

text \<open>What the invariant of the table depends on.\<close>

definition frame ::
  "TurboJSCodeCache \<Rightarrow> TurboJSCodeCacheEntry list \<times> nat \<times> nat \<times> nat \<times> nat \<times> nat \<times> addr \<times> addr \<times> nat \<times> nat" where
  "frame c = (cores c, cc_slot_count c, cc_count c, cc_maximum_entries c, cc_maximum_code_bytes c, cc_code_bytes c,
     cc_last_key c, cc_last_function c, cc_dependency_bucket_count c, cc_repatch_bucket_count c)"

lemma core_simps [simp]:
  "ce_key (core e) = ce_key e" "ce_function (core e) = ce_function e" "ce_state (core e) = ce_state e"
  "ce_entry_handle (core e) = ce_entry_handle e" "ce_code_size (core e) = ce_code_size e"
  "ce_cache_kind (core e) = ce_cache_kind e" "live (core e) = live e" "core (core e) = core e"
  "core (e\<lparr>ce_dependencies := ds\<rparr>) = core e" "core (e\<lparr>ce_repatch_dependencies := rs\<rparr>) = core e"
  "core (e\<lparr>ce_stamp := s\<rparr>) = core e" "core (e\<lparr>ce_access_count := a\<rparr>) = core e"
  by (simp_all add: core_def live_def)

lemma length_cores [simp]: "length (cores c) = length (cc_entries c)"
  by (simp add: cores_def)

lemma cores_nth: "i < length (cc_entries c) \<Longrightarrow> cores c ! i = core (cc_entries c ! i)"
  by (simp add: cores_def)

lemma cores_update: "map core ((cc_entries c)[i := e]) = (cores c)[i := core e]"
  by (simp add: cores_def map_update)

lemma cores_same: "i < length (cc_entries c) \<Longrightarrow> core e = core (cc_entries c ! i) \<Longrightarrow> (cores c)[i := core e] = cores c"
  by (metis cores_nth list_update_id)

lemma frame_inv: "frame c' = frame c \<Longrightarrow> table_inv c' = table_inv c"
  by (simp add: frame_def table_inv_def vault_map_def)

lemma frame_map: "frame c' = frame c \<Longrightarrow> vault_map c' = vault_map c"
  by (simp add: frame_def vault_map_def)

lemma filter_update:
  "i < length xs \<Longrightarrow> filter P (xs[i := x]) = filter P (take i xs) @ filter P [x] @ filter P (drop (Suc i) xs)"
  by (simp add: upd_conv_take_nth_drop)

lemma filter_split:
  "i < length xs \<Longrightarrow> filter P xs = filter P (take i xs) @ filter P [xs ! i] @ filter P (drop (Suc i) xs)"
  by (metis append_Cons append_Nil filter_append id_take_nth_drop)

lemma unique_keysD:
  assumes "unique_keys es" "i < length es" "j < length es" "live (es ! i)" "live (es ! j)"
    "ce_key (es ! i) = ce_key (es ! j)" "ce_key (es ! i) \<noteq> 0"
  shows "i = j"
proof (rule ccontr)
  assume "i \<noteq> j"
  let ?P = "\<lambda>e. live e \<and> ce_key e \<noteq> 0"
  have "(take i es @ drop (Suc i) es) ! (if j < i then j else j - 1) = es ! j"
    "(if j < i then j else j - 1) < length (take i es @ drop (Suc i) es)"
    using assms(2,3) \<open>i \<noteq> j\<close> by (auto simp: nth_append min_def)
  then have "es ! j \<in> set (take i es @ drop (Suc i) es)" by (metis nth_mem)
  then have "ce_key (es ! j) \<in> ce_key ` set (filter ?P (take i es @ drop (Suc i) es))" using assms by auto
  moreover have "distinct (map ce_key (filter ?P (take i es) @ filter ?P [es ! i] @ filter ?P (drop (Suc i) es)))"
    using assms(1) filter_split [OF assms(2), of ?P] by (simp add: unique_keys_def)
  ultimately show False using assms by auto
qed

lemma vault_map_Some:
  assumes "unique_keys (cores c)" "i < length (cores c)" "live (cores c ! i)" "ce_key (cores c ! i) \<noteq> 0"
  shows "vault_map c (ce_key (cores c ! i)) = Some (ce_function (cores c ! i))"
proof -
  have "distinct (map fst (map (\<lambda>e. (ce_key e, ce_function e)) (filter (\<lambda>e. live e \<and> ce_key e \<noteq> 0) (cores c))))"
    using assms(1) by (simp add: unique_keys_def comp_def)
  then show ?thesis unfolding vault_map_def using assms by (intro map_of_is_SomeI) force+
qed

lemma vault_map_None:
  "vault_map c key = None \<longleftrightarrow> key = 0 \<or> (\<forall>i<length (cores c). live (cores c ! i) \<longrightarrow> ce_key (cores c ! i) \<noteq> key)"
  unfolding vault_map_def map_of_eq_None_iff by (auto simp: image_iff all_set_conv_all_nth Ball_def in_set_conv_nth)


lemma probe_result_cores:
  assumes "0 < length (cc_entries c)"
  shows "probe_result (cores c) key ins r = probe_result (cc_entries c) key ins r"
proof -
  let ?n = "length (cc_entries c)"
  have [simp]: "ce_state (cores c ! slot_at ?n key j) = ce_state (cc_entries c ! slot_at ?n key j)"
    "matches (cores c) key (slot_at ?n key j) = matches (cc_entries c) key (slot_at ?n key j)" for j
    using slot_at_less [OF assms, of key j] by (simp_all add: cores_nth matches_def)
  have "(\<exists>j\<le>e. j < ?n \<and> s = slot_at ?n key j \<and> (ce_state (cores c ! s) = 0 \<or> ce_state (cores c ! s) = 2)) \<longleftrightarrow>
    (\<exists>j\<le>e. j < ?n \<and> s = slot_at ?n key j \<and> (ce_state (cc_entries c ! s) = 0 \<or> ce_state (cc_entries c ! s) = 2))" for e s
    by auto
  then show ?thesis unfolding probe_result_def Let_def by (simp cong: option.case_cong)
qed

text \<open>A slot where a new entry for the key can be found again: free, with no empty slot before it.\<close>

definition free_for :: "TurboJSCodeCacheEntry list \<Rightarrow> addr \<Rightarrow> nat \<Rightarrow> bool" where
  "free_for es key i \<longleftrightarrow> i < length es \<and> \<not> live (es ! i) \<and>
     (\<exists>j<length es. i = slot_at (length es) key j \<and> (\<forall>j'<j. ce_state (es ! slot_at (length es) key j') \<noteq> 0))"

lemma reachable_found:
  assumes "probe_result es key ins r" "reachable_keys es" "i < length es" "matches es key i" "key \<noteq> 0"
  shows "\<exists>i'<length es. r = Some i' \<and> matches es key i'"
proof -
  let ?n = "length es"
  from assms(2-5) have "reachable_key es i" by (simp add: reachable_keys_def matches_def live_def)
  then obtain j where j: "j < ?n" "i = slot_at ?n key j" "\<forall>j'<j. ce_state (es ! slot_at ?n key j') \<noteq> 0"
    using assms(4) unfolding reachable_key_def by (auto simp: matches_def)
  have miss: False if e: "e \<le> ?n" "\<forall>j<e. ce_state (es ! slot_at ?n key j) \<noteq> 0 \<and> \<not> matches es key (slot_at ?n key j)"
    "e < ?n \<longrightarrow> ce_state (es ! slot_at ?n key e) = 0" for e
  proof (cases "j < e")
    case True then show False using e(2) j(2) assms(4) by auto
  next
    case False
    then have "e < ?n" "e \<le> j" using j(1) by auto
    then show False using e(3) j assms(4) by (cases "e = j") (auto simp: matches_def)
  qed
  have "\<exists>j<?n. r = Some (slot_at ?n key j) \<and> matches es key (slot_at ?n key j)"
    using assms(1) miss unfolding probe_result_def Let_def by blast
  then obtain j' where "j' < ?n" "r = Some (slot_at ?n key j')" "matches es key (slot_at ?n key j')" by blast
  moreover have "slot_at ?n key j' < ?n" using assms(3) by (intro slot_at_less) auto
  ultimately show ?thesis by blast
qed

lemma probe_free:
  assumes "probe_result es key ins r" "\<forall>i<length es. \<not> matches es key i" "0 < length es"
  shows "case r of None \<Rightarrow> ins \<longrightarrow> (\<forall>i<length es. ce_state (es ! i) \<noteq> 0 \<and> ce_state (es ! i) \<noteq> 2) | Some i \<Rightarrow> free_for es key i"
proof -
  let ?n = "length es"
  have less: "slot_at ?n key j < ?n" for j by (rule slot_at_less [OF assms(3)])
  obtain e where e: "e \<le> ?n" "\<forall>j<e. ce_state (es ! slot_at ?n key j) \<noteq> 0"
    "case r of None \<Rightarrow> e = ?n \<and> (ins \<longrightarrow> (\<forall>j<?n. ce_state (es ! slot_at ?n key j) \<noteq> 2))
     | Some s \<Rightarrow> \<exists>j\<le>e. j < ?n \<and> s = slot_at ?n key j \<and> (ce_state (es ! s) = 0 \<or> ce_state (es ! s) = 2)"
    using assms(1,2) less unfolding probe_result_def Let_def by blast
  show ?thesis
  proof (cases r)
    case None
    have "ce_state (es ! i) \<noteq> 0 \<and> ce_state (es ! i) \<noteq> 2" if "ins" "i < ?n" for i
      using slot_at_covers [OF \<open>i < ?n\<close>, of key] e None \<open>ins\<close> by (auto; metis)
    then show ?thesis using None by simp
  next
    case (Some s)
    then obtain j where "j \<le> e" "j < ?n" "s = slot_at ?n key j" "ce_state (es ! s) = 0 \<or> ce_state (es ! s) = 2"
      using e(3) by auto
    then have "free_for es key s" using e(2) less unfolding free_for_def live_def by fastforce
    then show ?thesis using Some by simp
  qed
qed

lemma live_count_all: "\<forall>i<length es. live (es ! i) \<Longrightarrow> live_count es = length es"
proof -
  assume "\<forall>i<length es. live (es ! i)"
  then have "map (\<lambda>e. if live e then 1 else 0) es = map (\<lambda>_. 1 :: nat) es" by (simp add: all_set_conv_all_nth)
  then show ?thesis by (simp only: live_count_def) (simp add: sum_list_triv)
qed

lemma table_size: "table_inv c \<Longrightarrow> length (cc_entries c) = cc_slot_count c \<and> 0 < cc_slot_count c"
  by (auto simp: table_inv_def)

text \<open>What probing finds, in terms of the map.\<close>

lemma find_slot_map:
  assumes "table_inv c" "key \<noteq> 0"
  shows "\<exists>s. find_slot c key ins = Inr s \<and>
    (case vault_map c key of
       Some f \<Rightarrow> \<exists>i<length (cc_entries c). s = Some i \<and> matches (cores c) key i \<and> ce_function (cores c ! i) = f
     | None \<Rightarrow> (\<forall>i. s = Some i \<longrightarrow> free_for (cores c) key i) \<and> (ins \<longrightarrow> s \<noteq> None))"
proof -
  have n: "length (cc_entries c) = cc_slot_count c" "0 < cc_slot_count c" using table_size [OF assms(1)] by auto
  obtain s where s: "find_slot c key ins = Inr s" "probe_result (cores c) key ins s"
    using find_slot_spec [of c key ins] probe_result_cores [of c key ins] n assms(1) by (auto simp: table_inv_def)
  have u: "unique_keys (cores c)" and r: "reachable_keys (cores c)" using assms(1) by (auto simp: table_inv_def)
  show ?thesis
  proof (cases "\<exists>i<length (cores c). matches (cores c) key i")
    case True
    then obtain i where i: "i < length (cores c)" "s = Some i" "matches (cores c) key i"
      using reachable_found [OF s(2) r _ _ assms(2)] by blast
    then have "vault_map c key = Some (ce_function (cores c ! i))"
      using vault_map_Some [OF u, of i] assms(2) by (simp add: matches_def live_def)
    then show ?thesis using s(1) i by simp
  next
    case False
    then have none: "vault_map c key = None" by (auto simp: vault_map_None matches_def live_def)
    have free: "case s of None \<Rightarrow> ins \<longrightarrow> (\<forall>i<length (cores c). ce_state (cores c ! i) \<noteq> 0 \<and> ce_state (cores c ! i) \<noteq> 2)
       | Some i \<Rightarrow> free_for (cores c) key i"
      using probe_free [OF s(2)] False n by auto
    have "ins \<longrightarrow> s \<noteq> None"
    proof (intro impI notI)
      assume "ins" "s = None"
      then have "\<forall>i<length (cores c). live (cores c ! i)"
        using free assms(1) unfolding live_def table_inv_def state_ok_def all_set_conv_all_nth by auto
      then have "live_count (cores c) = length (cores c)" by (rule live_count_all)
      then show False using assms(1) by (auto simp: table_inv_def)
    qed
    then show ?thesis using s(1) none free by auto
  qed
qed

section \<open>Operations on the indexes\<close>

lemma pow2_min: "pow2_size n \<Longrightarrow> \<exists>k. n = 2 ^ min k 63"
  unfolding pow2_size_def by (metis min.absorb1)

lemma dependency_unlink:
  assumes "pow2_size n" "indexes (\<lambda>t. dependency_hash t n) n deps buckets" "i < length deps"
  shows "\<exists>bs. unlink_all (\<lambda>t. dependency_hash t n) i (deps ! i) buckets = Inr bs \<and>
    indexes (\<lambda>t. dependency_hash t n) n (deps[i := []]) bs"
  using pow2_min [OF assms(1)] dependency_index.unlink_all_ok [of _ deps i "deps ! i" buckets] assms(2,3) by auto

lemma identity_unlink:
  assumes "pow2_size n" "indexes (\<lambda>t. identity_hash t n) n deps buckets" "i < length deps"
  shows "\<exists>bs. unlink_all (\<lambda>t. identity_hash t n) i (deps ! i) buckets = Inr bs \<and>
    indexes (\<lambda>t. identity_hash t n) n (deps[i := []]) bs"
  using pow2_min [OF assms(1)] identity_index.unlink_all_ok [of _ deps i "deps ! i" buckets] assms(2,3) by auto

lemma dependency_link:
  assumes "pow2_size n" "indexes (\<lambda>t. dependency_hash t n) n (deps[i := []]) buckets" "i < length deps"
  shows "\<exists>ok own bs. link_all (\<lambda>t. dependency_hash t n) null calloc_ok i j ks [] buckets = Inr (ok, own, bs) \<and>
    indexes (\<lambda>t. dependency_hash t n) n (deps[i := own]) bs \<and> (ok \<longrightarrow> set ks \<subseteq> insert null (set own)) \<and> ((\<forall>m. calloc_ok m) \<longrightarrow> ok)"
  using pow2_min [OF assms(1)] dependency_index.link_all_ok [of _ deps i "[]" buckets null calloc_ok j ks] assms(2,3)
  by (elim exE) simp

lemma identity_link:
  assumes "pow2_size n" "indexes (\<lambda>t. identity_hash t n) n (deps[i := []]) buckets" "i < length deps"
  shows "\<exists>ok own bs. link_all (\<lambda>t. identity_hash t n) null calloc_ok i j ks [] buckets = Inr (ok, own, bs) \<and>
    indexes (\<lambda>t. identity_hash t n) n (deps[i := own]) bs \<and> (ok \<longrightarrow> set ks \<subseteq> insert null (set own)) \<and> ((\<forall>m. calloc_ok m) \<longrightarrow> ok)"
  using pow2_min [OF assms(1)] identity_index.link_all_ok [of _ deps i "[]" buckets null calloc_ok j ks] assms(2,3)
  by (elim exE) simp

text \<open>
  An operation on the indexes leaves the table as it is, and of the lists of the entries it changes
  at most those of one slot.
\<close>

definition index_step :: "nat \<Rightarrow> TurboJSCodeCache \<Rightarrow> TurboJSCodeCache \<Rightarrow> bool" where
  "index_step i c c' \<longleftrightarrow> frame c' = frame c \<and> cc_clock c' = cc_clock c \<and> (index_inv c \<longrightarrow> index_inv c') \<and>
     (\<forall>j. j \<noteq> i \<longrightarrow> cc_entries c' ! j = cc_entries c ! j)"

lemma index_stepD:
  assumes "index_step i c c'"
  shows "frame c' = frame c" "cores c' = cores c" "length (cc_entries c') = length (cc_entries c)"
    "cc_slot_count c' = cc_slot_count c" "index_inv c \<Longrightarrow> index_inv c'"
    "cc_dependency_bucket_count c' = cc_dependency_bucket_count c" "cc_repatch_bucket_count c' = cc_repatch_bucket_count c"
    "j \<noteq> i \<Longrightarrow> cc_entries c' ! j = cc_entries c ! j"
proof -
  show 1: "cores c' = cores c" using assms by (simp add: index_step_def frame_def)
  show "length (cc_entries c') = length (cc_entries c)" using arg_cong [OF 1, of length] by simp
qed (use assms in \<open>simp_all add: index_step_def frame_def\<close>)

lemma index_step_trans: "index_step i c c' \<Longrightarrow> index_step i c' c'' \<Longrightarrow> index_step i c c''"
  by (simp add: index_step_def)

lemma unregister_ok:
  assumes "index_inv c" "pow2_size (cc_slot_count c)" "i < length (cc_entries c)"
  shows "\<exists>c'. unregister_entry_dependencies c i = Inr c' \<and> index_step i c c' \<and>
    ce_dependencies (cc_entries c' ! i) = [] \<and> ce_repatch_dependencies (cc_entries c' ! i) = ce_repatch_dependencies (cc_entries c ! i)"
proof -
  let ?h = "\<lambda>t. dependency_hash t (cc_slot_count c)"
  obtain bs where bs: "unlink_all ?h i (ce_dependencies (cc_entries c ! i)) (cc_dependency_buckets c) = Inr bs"
    "indexes ?h (cc_slot_count c) ((map ce_dependencies (cc_entries c))[i := []]) bs"
    using dependency_unlink [of "cc_slot_count c" "map ce_dependencies (cc_entries c)" "cc_dependency_buckets c" i] assms
    by (auto simp: index_inv_def)
  have same: "(map ce_repatch_dependencies (cc_entries c))[i := ce_repatch_dependencies (cc_entries c ! i)] =
      map ce_repatch_dependencies (cc_entries c)"
    using assms(3) by (metis length_map list_update_id nth_map)
  show ?thesis
    using bs assms same cores_same [OF assms(3), of "(cc_entries c ! i)\<lparr>ce_dependencies := []\<rparr>"]
    by (auto simp: unregister_entry_dependencies_def rd_ok index_inv_def index_step_def frame_def cores_update cores_def map_update)
qed


lemma unregister_repatch_ok:
  assumes "index_inv c" "pow2_size (cc_slot_count c)" "i < length (cc_entries c)"
  shows "\<exists>c'. unregister_entry_repatch_dependencies c i = Inr c' \<and> index_step i c c' \<and>
    ce_repatch_dependencies (cc_entries c' ! i) = [] \<and> ce_dependencies (cc_entries c' ! i) = ce_dependencies (cc_entries c ! i)"
proof -
  let ?h = "\<lambda>t. identity_hash t (cc_slot_count c)"
  obtain bs where bs: "unlink_all ?h i (ce_repatch_dependencies (cc_entries c ! i)) (cc_repatch_buckets c) = Inr bs"
    "indexes ?h (cc_slot_count c) ((map ce_repatch_dependencies (cc_entries c))[i := []]) bs"
    using identity_unlink [of "cc_slot_count c" "map ce_repatch_dependencies (cc_entries c)" "cc_repatch_buckets c" i] assms
    by (auto simp: index_inv_def)
  have same: "(map ce_dependencies (cc_entries c))[i := ce_dependencies (cc_entries c ! i)] = map ce_dependencies (cc_entries c)"
    using assms(3) by (metis length_map list_update_id nth_map)
  show ?thesis
    using bs assms same cores_same [OF assms(3), of "(cc_entries c ! i)\<lparr>ce_repatch_dependencies := []\<rparr>"]
    by (auto simp: unregister_entry_repatch_dependencies_def rd_ok index_inv_def index_step_def frame_def cores_update cores_def map_update)
qed

text \<open>Linking a list of targets for one slot, with the entry's list empty before.\<close>

definition linked :: "TurboJSCodeCache \<Rightarrow> nat \<Rightarrow> addr list \<Rightarrow> (addr \<times> nat) list list \<Rightarrow> TurboJSCodeCache" where
  "linked c i own buckets = c\<lparr>cc_dependency_buckets := buckets,
     cc_entries := (cc_entries c)[i := (cc_entries c ! i)\<lparr>ce_dependencies := own\<rparr>],
     cc_stats := (cc_stats c)\<lparr>ccs_reverse_dependency_registrations :=
       ccs_reverse_dependency_registrations (cc_stats c) + word_of_nat (length own)\<rparr>\<rparr>"

definition repatch_linked :: "TurboJSCodeCache \<Rightarrow> nat \<Rightarrow> u64 list \<Rightarrow> (u64 \<times> nat) list list \<Rightarrow> TurboJSCodeCache" where
  "repatch_linked c i own buckets = c\<lparr>cc_repatch_buckets := buckets,
     cc_entries := (cc_entries c)[i := (cc_entries c ! i)\<lparr>ce_repatch_dependencies := own\<rparr>],
     cc_stats := (cc_stats c)\<lparr>ccs_repatch_identity_registrations :=
       ccs_repatch_identity_registrations (cc_stats c) + word_of_nat (length own)\<rparr>\<rparr>"

lemma linked_step:
  assumes "index_inv c" "i < length (cc_entries c)"
    "indexes (\<lambda>t. dependency_hash t (cc_slot_count c)) (cc_slot_count c) ((map ce_dependencies (cc_entries c))[i := own]) bs"
  shows "index_step i c (linked c i own bs)" "ce_dependencies (cc_entries (linked c i own bs) ! i) = own"
    "index_inv (linked c i own bs)"
proof -
  have same: "(map ce_repatch_dependencies (cc_entries c))[i := ce_repatch_dependencies (cc_entries c ! i)] =
      map ce_repatch_dependencies (cc_entries c)"
    using assms(2) by (metis length_map list_update_id nth_map)
  show inv: "index_inv (linked c i own bs)"
    using assms same by (simp add: index_inv_def linked_def map_update)
  show "index_step i c (linked c i own bs)" "ce_dependencies (cc_entries (linked c i own bs) ! i) = own"
    using assms(2) inv cores_same [OF assms(2), of "(cc_entries c ! i)\<lparr>ce_dependencies := own\<rparr>"]
    by (auto simp: index_step_def linked_def frame_def cores_def map_update)
qed

lemma repatch_linked_step:
  assumes "index_inv c" "i < length (cc_entries c)"
    "indexes (\<lambda>t. identity_hash t (cc_slot_count c)) (cc_slot_count c) ((map ce_repatch_dependencies (cc_entries c))[i := own]) bs"
  shows "index_step i c (repatch_linked c i own bs)"
    "ce_dependencies (cc_entries (repatch_linked c i own bs) ! i) = ce_dependencies (cc_entries c ! i)"
    "index_inv (repatch_linked c i own bs)"
proof -
  have same: "(map ce_dependencies (cc_entries c))[i := ce_dependencies (cc_entries c ! i)] = map ce_dependencies (cc_entries c)"
    using assms(2) by (metis length_map list_update_id nth_map)
  show inv: "index_inv (repatch_linked c i own bs)"
    using assms same by (simp add: index_inv_def repatch_linked_def map_update)
  show "index_step i c (repatch_linked c i own bs)"
    "ce_dependencies (cc_entries (repatch_linked c i own bs) ! i) = ce_dependencies (cc_entries c ! i)"
    using assms(2) inv cores_same [OF assms(2), of "(cc_entries c ! i)\<lparr>ce_repatch_dependencies := own\<rparr>"]
    by (auto simp: index_step_def repatch_linked_def frame_def cores_def map_update)
qed

lemma index_inv_step:
  assumes "index_step i c c'" "index_inv c" "pow2_size (cc_slot_count c)" "i < length (cc_entries c)"
  shows "index_inv c'" "pow2_size (cc_slot_count c')" "i < length (cc_entries c')" "frame c' = frame c"
    "cc_dependency_bucket_count c' = cc_slot_count c'" "cc_repatch_bucket_count c' = cc_slot_count c'"
  using index_stepD [OF assms(1)] assms(2-4) by (simp_all add: index_inv_def)

lemma empty_dependencies:
  assumes "index_inv c" "i < length (cc_entries c)"
  shows "ce_dependencies (cc_entries c ! i) = [] \<Longrightarrow>
      indexes (\<lambda>t. dependency_hash t (cc_slot_count c)) (cc_slot_count c) ((map ce_dependencies (cc_entries c))[i := []]) (cc_dependency_buckets c)"
    "ce_repatch_dependencies (cc_entries c ! i) = [] \<Longrightarrow>
      indexes (\<lambda>t. identity_hash t (cc_slot_count c)) (cc_slot_count c) ((map ce_repatch_dependencies (cc_entries c))[i := []]) (cc_repatch_buckets c)"
  using assms list_update_id [of "map ce_dependencies (cc_entries c)" i] list_update_id [of "map ce_repatch_dependencies (cc_entries c)" i]
  by (simp_all add: index_inv_def)

definition targets :: "TurboJSNativeFunction \<Rightarrow> addr list" where
  "targets n = map cs_target (nf_owned_clutch_sites n)"

lemma targets_sites:
  "map (TurboJS_NativeClutchSiteTargetAt (Some n)) [0..<TurboJS_NativeClutchSiteCount (Some n)] = targets n"
  by (rule nth_equalityI) (simp_all add: targets_def TurboJS_NativeClutchSiteTargetAt_def TurboJS_NativeClutchSiteCount_def)

lemma register_repatch_ok:
  assumes inv: "index_inv c" "pow2_size (cc_slot_count c)" "i < length (cc_entries c)"
    and f: "ce_function (cc_entries c ! i) \<noteq> 0" "vh_natives V (ce_function (cc_entries c ! i)) = Some n"
  shows "\<exists>ok c'. register_entry_repatch_dependencies calloc_ok c V i = Inr (ok, c') \<and> index_step i c c' \<and>
    ce_dependencies (cc_entries c' ! i) = ce_dependencies (cc_entries c ! i) \<and> ((\<forall>m. calloc_ok m) \<longrightarrow> ok)"
proof -
  obtain d where d: "unregister_entry_repatch_dependencies c i = Inr d" "index_step i c d"
    "ce_repatch_dependencies (cc_entries d ! i) = []" "ce_dependencies (cc_entries d ! i) = ce_dependencies (cc_entries c ! i)"
    using unregister_repatch_ok [OF inv] by blast
  note di = index_inv_step [OF d(2) inv]
  let ?ks = "map (TurboJS_NativeClutchSiteIdentityAt (Some n)) [0..<TurboJS_NativeClutchSiteCount (Some n)]"
  obtain ok own bs where l: "link_all (\<lambda>t. identity_hash t (cc_slot_count d)) 0 calloc_ok i 0 ?ks [] (cc_repatch_buckets d) = Inr (ok, own, bs)"
    "indexes (\<lambda>t. identity_hash t (cc_slot_count d)) (cc_slot_count d) ((map ce_repatch_dependencies (cc_entries d))[i := own]) bs"
    "(\<forall>m. calloc_ok m) \<longrightarrow> ok"
    using identity_link [OF di(2) empty_dependencies(2) [OF di(1,3) d(3)], of 0 calloc_ok 0 ?ks] di(3) by auto
  let ?e = "repatch_linked d i own bs"
  note e = repatch_linked_step [OF di(1,3) l(2)]
  have ce: "index_step i c ?e" by (rule index_step_trans [OF d(2) e(1)])
  note ei = index_inv_step [OF ce inv]
  have run: "register_entry_repatch_dependencies calloc_ok c V i =
      (if ok then Inr (True, ?e) else bindc (unregister_entry_repatch_dependencies ?e i) (\<lambda>c3. Inr (False, c3)))"
    using f d(1) l(1) di(3,6) inv(3)
    by (simp add: register_entry_repatch_dependencies_def rd_ok deref_def repatch_linked_def Let_def)
  obtain u where u: "unregister_entry_repatch_dependencies ?e i = Inr u" "index_step i ?e u"
    "ce_dependencies (cc_entries u ! i) = ce_dependencies (cc_entries ?e ! i)"
    using unregister_repatch_ok [OF ei(1-3)] by blast
  show ?thesis
  proof (cases ok)
    case True then show ?thesis using run ce e(2) d(4) by auto
  next
    case False then show ?thesis using run u e(2) d(4) l(3) index_step_trans [OF ce u(2)] by auto
  qed
qed

lemma register_ok:
  assumes inv: "index_inv c" "pow2_size (cc_slot_count c)" "i < length (cc_entries c)"
    and f: "ce_function (cc_entries c ! i) \<noteq> 0" "vh_natives V (ce_function (cc_entries c ! i)) = Some n"
  shows "\<exists>ok c'. register_entry_dependencies calloc_ok repatch_ok c V i = Inr (ok, c') \<and> index_step i c c' \<and>
    (ok \<longrightarrow> set (targets n) \<subseteq> insert 0 (set (ce_dependencies (cc_entries c' ! i)))) \<and>
    ((\<forall>m. calloc_ok m \<and> repatch_ok m) \<longrightarrow> ok)"
proof -
  obtain d where d: "unregister_entry_dependencies c i = Inr d" "index_step i c d" "ce_dependencies (cc_entries d ! i) = []"
    using unregister_ok [OF inv] by blast
  note di = index_inv_step [OF d(2) inv]
  obtain ok own bs where l: "link_all (\<lambda>t. dependency_hash t (cc_slot_count d)) 0 calloc_ok i 0 (targets n) [] (cc_dependency_buckets d) = Inr (ok, own, bs)"
    "indexes (\<lambda>t. dependency_hash t (cc_slot_count d)) (cc_slot_count d) ((map ce_dependencies (cc_entries d))[i := own]) bs"
    "ok \<longrightarrow> set (targets n) \<subseteq> insert 0 (set own)" "(\<forall>m. calloc_ok m) \<longrightarrow> ok"
    using dependency_link [OF di(2) empty_dependencies(1) [OF di(1,3) d(3)], of 0 calloc_ok 0 "targets n"] di(3) by auto
  let ?e = "linked d i own bs"
  note e = linked_step [OF di(1,3) l(2)]
  have ce: "index_step i c ?e" by (rule index_step_trans [OF d(2) e(1)])
  note ei = index_inv_step [OF ce inv]
  have fe: "ce_function (cc_entries ?e ! i) = ce_function (cc_entries c ! i)"
    using index_stepD(2,3) [OF ce] inv(3) cores_nth [of i ?e] cores_nth [of i c] by (metis core_simps(2))
  obtain ok2 g where g: "register_entry_repatch_dependencies repatch_ok ?e V i = Inr (ok2, g)" "index_step i ?e g"
    "ce_dependencies (cc_entries g ! i) = ce_dependencies (cc_entries ?e ! i)" "(\<forall>m. repatch_ok m) \<longrightarrow> ok2"
    using register_repatch_ok [OF ei(1-3), of V n repatch_ok] f fe by auto
  have run: "register_entry_dependencies calloc_ok repatch_ok c V i =
      (if \<not> ok then bindc (unregister_entry_dependencies ?e i) (\<lambda>c3. Inr (False, c3))
       else if \<not> ok2 then bindc (unregister_entry_dependencies g i) (\<lambda>c4. Inr (False, c4)) else Inr (True, g))"
    using f d(1) l(1) di(3,5) inv(3) g(1)
    by (simp add: register_entry_dependencies_def rd_ok deref_def linked_def Let_def targets_sites)
  have cg: "index_step i c g" by (rule index_step_trans [OF ce g(2)])
  obtain u where u: "unregister_entry_dependencies ?e i = Inr u" "index_step i ?e u"
    using unregister_ok [OF ei(1-3)] by blast
  obtain w where w: "unregister_entry_dependencies g i = Inr w" "index_step i g w"
    using unregister_ok [OF index_inv_step(1-3) [OF cg inv]] by blast
  show ?thesis
    using run u(1) w(1) index_step_trans [OF ce u(2)] index_step_trans [OF cg w(2)] cg l(3,4) g(3,4) e(2)
    by (cases ok; cases ok2) auto
qed

section \<open>Removing an entry\<close>

definition clear_target :: "addr \<Rightarrow> TurboJSNativeFunction \<Rightarrow> TurboJSNativeFunction" where
  "clear_target target n = n\<lparr>nf_owned_clutch_sites :=
     map (\<lambda>s. if cs_target s = target then s\<lparr>cs_target := 0, cs_expected_generation := 0\<rparr> else s) (nf_owned_clutch_sites n)\<rparr>"

text \<open>The native functions after the call sites of the indexed owners have lost the target.\<close>

definition cleared ::
  "(addr \<times> nat) list \<Rightarrow> TurboJSCodeCacheEntry list \<Rightarrow> addr \<Rightarrow> (addr \<Rightarrow> TurboJSNativeFunction option) \<Rightarrow> addr \<Rightarrow> TurboJSNativeFunction option" where
  "cleared nodes es target N a =
     (if \<exists>i. (target, i) \<in> set nodes \<and> live (es ! i) \<and> ce_function (es ! i) = a
      then map_option (clear_target target) (N a) else N a)"

lemma invalidate_sites_clears:
  "snd (invalidate_sites target ss) = map (\<lambda>s. if cs_target s = target then s\<lparr>cs_target := 0, cs_expected_generation := 0\<rparr> else s) ss"
  by (induction ss) (auto split: prod.split)

lemma invalidate_target_clears:
  "target \<noteq> 0 \<Longrightarrow> snd (TurboJS_NativeInvalidateClutchTarget (Some n) target) = Some (clear_target target n)"
  using invalidate_sites_clears [of target "nf_owned_clutch_sites n"]
  by (auto simp: TurboJS_NativeInvalidateClutchTarget_def clear_target_def split: prod.split)

lemma clear_target_idem [simp]: "target \<noteq> 0 \<Longrightarrow> clear_target target (clear_target target n) = clear_target target n"
  by (simp add: clear_target_def)

lemma targets_cleared: "target \<noteq> 0 \<Longrightarrow> target \<notin> set (targets (clear_target target n))"
  "set (targets (clear_target target n)) \<subseteq> insert 0 (set (targets n))"
  by (auto simp: clear_target_def targets_def split: if_splits)

lemma invalidate_nodes_ok:
  assumes "target \<noteq> 0"
  shows "\<forall>t i. (t, i) \<in> set nodes \<longrightarrow> i < length (cc_entries c) \<and>
      (live (cc_entries c ! i) \<longrightarrow> ce_function (cc_entries c ! i) \<noteq> 0 \<and> vh_natives V (ce_function (cc_entries c ! i)) \<noteq> None) \<Longrightarrow>
    \<exists>m st. invalidate_nodes nodes target c V acc =
      Inr (m, c\<lparr>cc_stats := st\<rparr>, V\<lparr>vh_natives := cleared nodes (cc_entries c) target (vh_natives V)\<rparr>)"
proof (induction nodes arbitrary: c V acc)
  case Nil
  have "c = c\<lparr>cc_stats := cc_stats c\<rparr>" by simp
  moreover have "V\<lparr>vh_natives := cleared [] (cc_entries c) target (vh_natives V)\<rparr> = V" by (simp add: cleared_def [abs_def])
  ultimately show ?case by (metis invalidate_nodes.simps(1))
next
  case (Cons p nodes)
  obtain t i where p: "p = (t, i)" by (cases p)
  let ?e = "cc_entries c ! i"
  have i: "i < length (cc_entries c)" "live ?e \<longrightarrow> ce_function ?e \<noteq> 0 \<and> vh_natives V (ce_function ?e) \<noteq> None"
    using Cons.prems unfolding p by auto
  show ?case
  proof (cases "t = target \<and> live ?e")
    case True
    then obtain n where n: "vh_natives V (ce_function ?e) = Some n" using i by auto
    obtain k where k: "TurboJS_NativeInvalidateClutchTarget (Some n) target = (k, Some (clear_target target n))"
      using invalidate_target_clears [OF assms, of n] by (metis prod.collapse)
    define W where "W = V\<lparr>vh_natives := (vh_natives V)(ce_function ?e := Some (clear_target target n))\<rparr>"
    obtain st a where run: "invalidate_nodes (p # nodes) target c V acc = invalidate_nodes nodes target (c\<lparr>cc_stats := st\<rparr>) W a"
      using True i n k by (auto simp: p rd_ok load_def deref_def live_def Let_def W_def)
    have N: "cleared nodes (cc_entries c) target (vh_natives W) = cleared (p # nodes) (cc_entries c) target (vh_natives V)"
      using True n assms by (auto simp: cleared_def fun_eq_iff p W_def)
    have W: "W\<lparr>vh_natives := x\<rparr> = V\<lparr>vh_natives := x\<rparr>" for x by (simp add: W_def)
    have c: "c\<lparr>cc_stats := st\<rparr>\<lparr>cc_stats := st'\<rparr> = c\<lparr>cc_stats := st'\<rparr>" "cc_entries (c\<lparr>cc_stats := st\<rparr>) = cc_entries c" for st' by simp_all
    have "\<forall>t j. (t, j) \<in> set nodes \<longrightarrow> j < length (cc_entries c) \<and>
      (live (cc_entries c ! j) \<longrightarrow> ce_function (cc_entries c ! j) \<noteq> 0 \<and> vh_natives W (ce_function (cc_entries c ! j)) \<noteq> None)"
      using Cons.prems by (auto simp: W_def)
    then show ?thesis using Cons.IH [of "c\<lparr>cc_stats := st\<rparr>" W a] unfolding run c N W by blast
  next
    case False
    have N: "cleared (p # nodes) (cc_entries c) target (vh_natives V) = cleared nodes (cc_entries c) target (vh_natives V)"
      using False by (auto simp: cleared_def fun_eq_iff p)
    have "invalidate_nodes (p # nodes) target c V acc = invalidate_nodes nodes target c V acc"
      using False i by (auto simp: p rd_ok live_def)
    then show ?thesis using Cons.IH [of c V acc] Cons.prems N by auto
  qed
qed

lemma natives_invD:
  assumes "natives_inv (cores c) V" "i < length (cc_entries c)" "live (cc_entries c ! i)"
  shows "ce_function (cc_entries c ! i) \<noteq> 0" "vh_natives V (ce_function (cc_entries c ! i)) \<noteq> None"
    "ce_entry_handle (cc_entries c ! i) \<noteq> 0 \<Longrightarrow> heap_handles (vh_jit V) (ce_entry_handle (cc_entries c ! i)) \<noteq> None"
  using assms by (auto simp: natives_inv_def entry_owned_def cores_def)

text \<open>The owners that the index has for a target.\<close>

definition owners :: "TurboJSCodeCache \<Rightarrow> addr \<Rightarrow> (addr \<times> nat) list" where
  "owners c target = cc_dependency_buckets c ! dependency_hash target (cc_slot_count c)"

lemma dependency_hash_less: "pow2_size n \<Longrightarrow> dependency_hash t n < n"
  using pow2_min dependency_index.bucket_less by metis

lemma owners_iff:
  assumes "index_inv c" "pow2_size (cc_slot_count c)"
  shows "(t, i) \<in> set (owners c target) \<longleftrightarrow> dependency_hash target (cc_slot_count c) = dependency_hash t (cc_slot_count c) \<and>
    i < length (cc_entries c) \<and> t \<in> set (ce_dependencies (cc_entries c ! i))"
  using assms dependency_hash_less [OF assms(2), of target]
  by (cases "i < length (cc_entries c)") (auto simp: index_inv_def indexes_def owners_def)

lemma invalidate_dependents_ok:
  assumes "index_inv c" "pow2_size (cc_slot_count c)" "natives_inv (cores c) V" "target \<noteq> 0"
  shows "\<exists>m st. invalidate_indexed_dependents c V target =
    Inr (m, c\<lparr>cc_stats := st\<rparr>, V\<lparr>vh_natives := cleared (owners c target) (cc_entries c) target (vh_natives V)\<rparr>)"
proof -
  let ?st = "(cc_stats c)\<lparr>ccs_reverse_dependency_lookups := ccs_reverse_dependency_lookups (cc_stats c) + 1\<rparr>"
  have b: "dependency_hash target (cc_slot_count c) < length (cc_dependency_buckets c)" "cc_dependency_bucket_count c = cc_slot_count c"
    "cc_slot_count c \<noteq> 0"
    using assms(1,2) dependency_hash_less [OF assms(2), of target] by (auto simp: index_inv_def indexes_def)
  have "\<forall>t i. (t, i) \<in> set (owners c target) \<longrightarrow> i < length (cc_entries (c\<lparr>cc_stats := ?st\<rparr>)) \<and>
      (live (cc_entries (c\<lparr>cc_stats := ?st\<rparr>) ! i) \<longrightarrow> ce_function (cc_entries (c\<lparr>cc_stats := ?st\<rparr>) ! i) \<noteq> 0 \<and>
        vh_natives V (ce_function (cc_entries (c\<lparr>cc_stats := ?st\<rparr>) ! i)) \<noteq> None)"
    using owners_iff [OF assms(1,2)] natives_invD [OF assms(3)] by simp
  from invalidate_nodes_ok [OF assms(4) this, of 0] show ?thesis
    using b assms(4) by (simp add: invalidate_indexed_dependents_def rd_ok Let_def owners_def)
qed

text \<open>The cache without the entry of a slot, and what removing it does to the native functions and handles.\<close>

definition tombstone :: TurboJSCodeCacheEntry where
  "tombstone = null_entry\<lparr>ce_state := 2\<rparr>"

definition removed :: "TurboJSCodeCache \<Rightarrow> nat \<Rightarrow> TurboJSCodeCache" where
  "removed c i = c\<lparr>cc_entries := (cc_entries c)[i := tombstone], cc_count := cc_count c - 1,
     cc_code_bytes := cc_code_bytes c - ce_code_size (cc_entries c ! i),
     cc_last_key := (if cc_last_key c = ce_key (cc_entries c ! i) then 0 else cc_last_key c),
     cc_last_function := (if cc_last_key c = ce_key (cc_entries c ! i) then 0 else cc_last_function c)\<rparr>"

definition current_handle :: "TurboJSCodeCacheEntry \<Rightarrow> vault_heap \<Rightarrow> bool" where
  "current_handle e V \<longleftrightarrow> ce_cache_kind e = 0 \<and> ce_entry_handle e \<noteq> 0 \<and>
     (case heap_handles (vh_jit V) (ce_entry_handle e) of None \<Rightarrow> False | Some h \<Rightarrow> neh_function h = ce_function e)"

definition retired_natives :: "TurboJSCodeCache \<Rightarrow> vault_heap \<Rightarrow> nat \<Rightarrow> addr \<Rightarrow> TurboJSNativeFunction option" where
  "retired_natives c V i =
     (let e = cc_entries c ! i; h = ce_entry_handle e
      in (if current_handle e V then cleared (owners c h) (cc_entries c) h (vh_natives V) else vh_natives V)(ce_function e := None))"

definition retired_handles :: "TurboJSCodeCacheEntry \<Rightarrow> vault_heap \<Rightarrow> addr \<Rightarrow> TurboJSNativeEntryHandle option" where
  "retired_handles e V =
     (if current_handle e V
      then (heap_handles (vh_jit V))(ce_entry_handle e := TurboJS_NativeEntryHandleInvalidate (heap_handles (vh_jit V) (ce_entry_handle e)))
      else heap_handles (vh_jit V))"

lemma cleared_None [simp]: "cleared nodes es target N a = None \<longleftrightarrow> N a = None"
  by (simp add: cleared_def)

lemma index_inv_cong:
  "map ce_dependencies (cc_entries c') = map ce_dependencies (cc_entries c) \<Longrightarrow>
   map ce_repatch_dependencies (cc_entries c') = map ce_repatch_dependencies (cc_entries c) \<Longrightarrow>
   cc_slot_count c' = cc_slot_count c \<Longrightarrow> cc_dependency_buckets c' = cc_dependency_buckets c \<Longrightarrow>
   cc_repatch_buckets c' = cc_repatch_buckets c \<Longrightarrow> cc_dependency_bucket_count c' = cc_dependency_bucket_count c \<Longrightarrow>
   cc_repatch_bucket_count c' = cc_repatch_bucket_count c \<Longrightarrow> index_inv c' = index_inv c"
  by (simp add: index_inv_def)

lemma live_bytes_ge: "i < length es \<Longrightarrow> live (es ! i) \<Longrightarrow> ce_code_size (es ! i) \<le> live_bytes es"
  using elem_le_sum_list [of i "map (\<lambda>e. if live e then ce_code_size e else 0) es"] by (simp add: live_bytes_def)

lemma live_count_ge: "i < length es \<Longrightarrow> live (es ! i) \<Longrightarrow> 1 \<le> live_count es"
  using elem_le_sum_list [of i "map (\<lambda>e. if live e then 1 else 0 :: nat) es"] by (simp add: live_count_def)

text \<open>The first step of a removal: the entry's handle, when it still leads to the entry's function.\<close>

definition retire_handle :: "TurboJSCodeCacheEntry \<Rightarrow> TurboJSCodeCache \<Rightarrow> vault_heap \<Rightarrow> vault c" where
  "retire_handle entry c V =
     (if ce_cache_kind entry = 0 \<and> ce_entry_handle entry \<noteq> 0
      then bindc (deref (heap_handles (vh_jit V)) (ce_entry_handle entry)) (\<lambda>handle.
             if neh_function handle = ce_function entry
             then bindc (invalidate_indexed_dependents c V (ce_entry_handle entry)) (\<lambda>(_, c, V1).
                    Inr (c, V1\<lparr>vh_jit := (vh_jit V1)\<lparr>heap_handles := (heap_handles (vh_jit V1))(ce_entry_handle entry :=
                         TurboJS_NativeEntryHandleInvalidate (Some handle))\<rparr>\<rparr>))
             else Inr (c, V))
      else Inr (c, V))"

lemma retire_handle_ok:
  assumes "index_inv c" "pow2_size (cc_slot_count c)" "natives_inv (cores c) V"
    and h: "ce_entry_handle e \<noteq> 0 \<Longrightarrow> heap_handles (vh_jit V) (ce_entry_handle e) \<noteq> None"
  shows "\<exists>st V'. retire_handle e c V = Inr (c\<lparr>cc_stats := st\<rparr>, V') \<and> heap_handles (vh_jit V') = retired_handles e V \<and>
    vh_natives V' = (if current_handle e V then cleared (owners c (ce_entry_handle e)) (cc_entries c) (ce_entry_handle e) (vh_natives V) else vh_natives V)"
proof -
  have c: "\<exists>st. c = c\<lparr>cc_stats := st\<rparr>" by (rule exI [of _ "cc_stats c"]) simp
  show ?thesis
  proof (cases "ce_cache_kind e = 0 \<and> ce_entry_handle e \<noteq> 0")
    case True
    then obtain hd where hd: "heap_handles (vh_jit V) (ce_entry_handle e) = Some hd" using h by auto
    obtain m st where "invalidate_indexed_dependents c V (ce_entry_handle e) = Inr (m, c\<lparr>cc_stats := st\<rparr>,
        V\<lparr>vh_natives := cleared (owners c (ce_entry_handle e)) (cc_entries c) (ce_entry_handle e) (vh_natives V)\<rparr>)"
      using invalidate_dependents_ok [OF assms(1-3)] True by blast
    then show ?thesis using True hd c
      by (cases "neh_function hd = ce_function e") (auto simp: retire_handle_def current_handle_def retired_handles_def deref_def)
  next
    case False
    then show ?thesis using c by (auto simp: retire_handle_def current_handle_def retired_handles_def)
  qed
qed

text \<open>The cache once the bytes are returned and the last lookup forgotten.\<close>

definition released :: "TurboJSCodeCache \<Rightarrow> TurboJSCodeCacheEntry \<Rightarrow> TurboJSCodeCache" where
  "released c e = c\<lparr>cc_code_bytes := cc_code_bytes c - ce_code_size e,
     cc_last_key := (if cc_last_key c = ce_key e then 0 else cc_last_key c),
     cc_last_function := (if cc_last_key c = ce_key e then 0 else cc_last_function c)\<rparr>"

lemma released_simps [simp]:
  "cc_entries (released c e) = cc_entries c" "cc_slot_count (released c e) = cc_slot_count c"
  "cores (released c e) = cores c" "owners (released c e) t = owners c t" "index_inv (released c e) = index_inv c"
  by (simp_all add: released_def cores_def owners_def index_inv_def)

lemma frame_released:
  "frame c' = frame (released c (cc_entries c ! i)) \<Longrightarrow> i < length (cc_entries c) \<Longrightarrow>
   frame (c'\<lparr>cc_entries := (cc_entries c')[i := tombstone], cc_count := cc_count c' - 1, cc_stats := st\<rparr>) = frame (removed c i)"
  by (simp add: frame_def released_def removed_def cores_def map_update)

definition removal_stats :: "bool \<Rightarrow> TurboJSCodeCacheEntry \<Rightarrow> TurboJSCodeCacheStats \<Rightarrow> TurboJSCodeCacheStats" where
  "removal_stats eviction entry st =
     (let st1 = (if ce_cache_kind entry = 1
                 then st\<lparr>ccs_continuation_evictions := ccs_continuation_evictions st + (if eviction then 1 else 0),
                         ccs_continuation_entry_count := (if ccs_continuation_entry_count st \<noteq> 0
                            then ccs_continuation_entry_count st - 1 else 0),
                         ccs_continuation_code_bytes := ccs_continuation_code_bytes st - ce_code_size entry\<rparr>
                 else st)
      in if eviction then st1\<lparr>ccs_evictions := ccs_evictions st1 + 1\<rparr> else st1)"

lemma remove_slot_unfold:
  assumes "table_inv c" "i < length (cc_entries c)" "live (cc_entries c ! i)"
  shows "remove_slot c V i ev =
    bindc (retire_handle (cc_entries c ! i) (released c (cc_entries c ! i)) V) (\<lambda>(c3, V3).
    bindc (unregister_entry_dependencies c3 i) (\<lambda>c4.
    bindc (unregister_entry_repatch_dependencies c4 i) (\<lambda>c5.
    bindc (TurboJS_NativeFunctionDestroy (ce_function (cc_entries c ! i)) V3) (\<lambda>V5.
      Inr (c5\<lparr>cc_entries := (cc_entries c5)[i := tombstone], cc_count := size_sub (cc_count c5) 1,
              cc_stats := removal_stats ev (cc_entries c ! i) (cc_stats c5)\<rparr>, V5)))))"
proof -
  let ?e = "cc_entries c ! i"
  have "ce_code_size ?e \<le> cc_code_bytes c"
    using live_bytes_ge [of i "cores c"] assms by (auto simp: table_inv_def cores_nth)
  then have rel: "(let c1 = c\<lparr>cc_code_bytes := size_sub (cc_code_bytes c) (ce_code_size ?e)\<rparr>
       in if cc_last_key c1 = ce_key ?e then c1\<lparr>cc_last_key := 0, cc_last_function := 0\<rparr> else c1) = released c ?e"
    by (simp add: released_def size_sub_def)
  have st: "(ce_state ?e \<noteq> 1) = False" using assms(3) by (simp add: live_def)
  show ?thesis
    unfolding remove_slot_def rd_ok [OF assms(2)] bindc_simps st if_False retire_handle_def removal_stats_def tombstone_def
      rel [unfolded Let_def] Let_def ..
qed

lemma remove_slot_ok:
  assumes inv: "vault_inv c V" and i: "i < length (cc_entries c)" "live (cc_entries c ! i)"
  shows "\<exists>c' V'. remove_slot c V i ev = Inr (c', V') \<and> frame c' = frame (removed c i) \<and> index_inv c' \<and>
    vh_natives V' = retired_natives c V i \<and> heap_handles (vh_jit V') = retired_handles (cc_entries c ! i) V \<and>
    (\<forall>j. j \<noteq> i \<longrightarrow> cc_entries c' ! j = cc_entries c ! j)"
proof -
  let ?e = "cc_entries c ! i"
  let ?d = "released c ?e" and ?stat = "\<lambda>c. removal_stats ev ?e (cc_stats c)"
  have ii: "index_inv c" "pow2_size (cc_slot_count c)" "natives_inv (cores c) V" "table_inv c"
    using inv by (auto simp: vault_inv_def table_inv_def)
  note f = natives_invD [OF ii(3) i]
  have count: "1 \<le> cc_count c"
    using live_count_ge [of i "cores c"] i ii(4) by (auto simp: table_inv_def cores_nth)
  have run: "remove_slot c V i ev = bindc (retire_handle ?e ?d V) (\<lambda>(c3, V3).
    bindc (unregister_entry_dependencies c3 i) (\<lambda>c4. bindc (unregister_entry_repatch_dependencies c4 i) (\<lambda>c5.
    bindc (TurboJS_NativeFunctionDestroy (ce_function ?e) V3) (\<lambda>V5.
      Inr (c5\<lparr>cc_entries := (cc_entries c5)[i := tombstone], cc_count := size_sub (cc_count c5) 1, cc_stats := ?stat c5\<rparr>, V5)))))"
    by (rule remove_slot_unfold [OF ii(4) i])
  obtain st V3 where r: "retire_handle ?e ?d V = Inr (?d\<lparr>cc_stats := st\<rparr>, V3)" "heap_handles (vh_jit V3) = retired_handles ?e V"
    "vh_natives V3 = (if current_handle ?e V then cleared (owners c (ce_entry_handle ?e)) (cc_entries c) (ce_entry_handle ?e) (vh_natives V) else vh_natives V)"
    using retire_handle_ok [of ?d V ?e] ii f by auto
  let ?c3 = "?d\<lparr>cc_stats := st\<rparr>"
  have c3: "index_inv ?c3" "pow2_size (cc_slot_count ?c3)" "i < length (cc_entries ?c3)" "frame ?c3 = frame ?d"
    using ii i index_inv_cong [of ?c3 c] by (simp_all add: released_def frame_def cores_def)
  obtain c4 where c4: "unregister_entry_dependencies ?c3 i = Inr c4" "index_step i ?c3 c4" "ce_dependencies (cc_entries c4 ! i) = []"
    using unregister_ok [OF c3(1-3)] by blast
  obtain c5 where c5: "unregister_entry_repatch_dependencies c4 i = Inr c5" "index_step i c4 c5"
      "ce_repatch_dependencies (cc_entries c5 ! i) = []" "ce_dependencies (cc_entries c5 ! i) = []"
    using unregister_repatch_ok [OF index_inv_step(1-3) [OF c4(2) c3(1-3)]] c4(3) by auto
  have step: "index_step i ?c3 c5" by (rule index_step_trans [OF c4(2) c5(2)])
  note i5 = index_inv_step [OF step c3(1-3)]
  obtain n where n: "vh_natives V3 (ce_function ?e) = Some n"
    using f(2) cleared_None [of "owners c (ce_entry_handle ?e)"] by (metis not_Some_eq r(3))
  obtain V5 where V5: "TurboJS_NativeFunctionDestroy (ce_function ?e) V3 = Inr V5"
    "vh_natives V5 = (vh_natives V3)(ce_function ?e := None)" "vh_jit V5 = vh_jit V3"
    using f(1) n by (simp add: TurboJS_NativeFunctionDestroy_def deref_def)
  let ?c' = "c5\<lparr>cc_entries := (cc_entries c5)[i := tombstone], cc_count := size_sub (cc_count c5) 1, cc_stats := ?stat c5\<rparr>"
  have fr: "frame c5 = frame ?d" using i5(4) c3(4) by simp
  then have "size_sub (cc_count c5) 1 = cc_count c5 - 1" using count by (simp add: frame_def released_def size_sub_def)
  then have "frame ?c' = frame (removed c i)" using frame_released [OF fr i(1), of "?stat c5"] by simp
  moreover have "index_inv ?c'"
    using i5(1) c5(3,4) i5(3) list_update_id [of "map ce_dependencies (cc_entries c5)" i]
      list_update_id [of "map ce_repatch_dependencies (cc_entries c5)" i]
    by (subst index_inv_cong [of ?c' c5]) (simp_all add: map_update tombstone_def null_entry_def)
  moreover have "cc_entries ?c' ! j = cc_entries c ! j" if "j \<noteq> i" for j
    using index_stepD(8) [OF step that] that by simp
  moreover have "remove_slot c V i ev = Inr (?c', V5)" using run r(1) c4(1) c5(1) V5(1) by simp
  moreover have "vh_natives V5 = retired_natives c V i" "heap_handles (vh_jit V5) = retired_handles ?e V"
    using V5 r by (simp_all add: retired_natives_def Let_def)
  ultimately show ?thesis by blast
qed

lemma tombstone_simps [simp]: "core tombstone = tombstone" "\<not> live tombstone" "ce_state tombstone = 2" "ce_key tombstone = 0" "state_ok tombstone"
  by (simp_all add: tombstone_def core_def live_def null_entry_def state_ok_def)

lemma live_count_update:
  "i < length es \<Longrightarrow> live_count (es[i := e]) = live_count es + (if live e then 1 else 0) - (if live (es ! i) then 1 else 0)"
  by (simp add: live_count_def map_update sum_list_update)

lemma live_bytes_update:
  "i < length es \<Longrightarrow> live_bytes (es[i := e]) =
    live_bytes es + (if live e then ce_code_size e else 0) - (if live (es ! i) then ce_code_size (es ! i) else 0)"
  by (simp add: live_bytes_def map_update sum_list_update)

lemma states_update: "\<forall>e\<in>set es. state_ok e \<Longrightarrow> state_ok x \<Longrightarrow> \<forall>e\<in>set (es[i := x]). state_ok e"
  using set_update_subset_insert [of es i x] by blast

lemma reachable_update:
  assumes "reachable_keys es" "i < length es" "ce_state e \<noteq> 0"
    and "live e \<and> ce_key e \<noteq> 0 \<Longrightarrow> free_for es (ce_key e) i"
  shows "reachable_keys (es[i := e])"
proof (unfold reachable_keys_def, intro allI impI)
  fix j assume j: "j < length (es[i := e])" "live (es[i := e] ! j) \<and> ce_key (es[i := e] ! j) \<noteq> 0"
  let ?k = "ce_key (es[i := e] ! j)"
  have "\<exists>p<length es. j = slot_at (length es) ?k p \<and> (\<forall>p'<p. ce_state (es ! slot_at (length es) ?k p') \<noteq> 0)"
  proof (cases "j = i")
    case True
    then show ?thesis using assms(2,4) j by (simp add: free_for_def)
  next
    case False
    then have "reachable_key es j" using assms(1) j by (simp add: reachable_keys_def)
    then show ?thesis using False by (simp add: reachable_key_def)
  qed
  then obtain p where p: "p < length es" "j = slot_at (length es) ?k p" "\<forall>p'<p. ce_state (es ! slot_at (length es) ?k p') \<noteq> 0" by blast
  have "ce_state (es[i := e] ! slot_at (length es) ?k p') \<noteq> 0" if "p' < p" for p'
    using p(3) that assms(2,3) by (cases "slot_at (length es) ?k p' = i") auto
  then show "reachable_key (es[i := e]) j" unfolding reachable_key_def using p(1,2) by (intro exI [of _ p]) simp
qed

lemma unique_keys_drop:
  assumes "unique_keys es" "i < length es" "\<not> live e"
  shows "unique_keys (es[i := e])"
  using assms filter_split [OF assms(2), of "\<lambda>e. live e \<and> ce_key e \<noteq> 0"]
  by (auto simp: unique_keys_def filter_update split: if_splits)

lemma vault_map_drop:
  assumes "unique_keys (cores c)" "i < length (cores c)" "live (cores c ! i)" "cores c' = (cores c)[i := e]" "\<not> live e"
  shows "vault_map c' = (vault_map c)(ce_key (cores c ! i) := None)"
proof -
  let ?P = "\<lambda>e. live e \<and> ce_key e \<noteq> 0" and ?g = "\<lambda>e. (ce_key e, ce_function e)"
  define A where "A = filter ?P (take i (cores c))"
  define B where "B = filter ?P (drop (Suc i) (cores c))"
  have old: "vault_map c = map_of (map ?g (A @ filter ?P [cores c ! i] @ B))"
    using filter_split [OF assms(2), of ?P] by (simp add: vault_map_def A_def B_def)
  have new: "vault_map c' = map_of (map ?g (A @ B))"
    using filter_update [OF assms(2), of ?P e] assms(4,5) by (simp add: vault_map_def A_def B_def)
  have "distinct (map ce_key (A @ filter ?P [cores c ! i] @ B))"
    using assms(1) filter_split [OF assms(2), of ?P] by (simp add: unique_keys_def A_def B_def)
  moreover have "ce_key x \<noteq> 0" if "x \<in> set A \<union> set B" for x using that by (auto simp: A_def B_def)
  ultimately have none: "map_of (map ?g (A @ B)) (ce_key (cores c ! i)) = None"
    using assms(3) unfolding map_of_eq_None_iff by (auto split: if_splits)
  show ?thesis
    using none by (auto simp: old new fun_eq_iff map_add_def split: option.split)
qed

lemma removed_simps [simp]:
  "cores (removed c i) = (cores c)[i := tombstone]" "cc_count (removed c i) = cc_count c - 1"
  "cc_code_bytes (removed c i) = cc_code_bytes c - ce_code_size (cc_entries c ! i)"
  "length (cc_entries (removed c i)) = length (cc_entries c)"
  "cc_slot_count (removed c i) = cc_slot_count c" "cc_maximum_entries (removed c i) = cc_maximum_entries c"
  "cc_maximum_code_bytes (removed c i) = cc_maximum_code_bytes c"
  "cc_last_key (removed c i) = (if cc_last_key c = ce_key (cc_entries c ! i) then 0 else cc_last_key c)"
  "cc_last_function (removed c i) = (if cc_last_key c = ce_key (cc_entries c ! i) then 0 else cc_last_function c)"
  by (simp_all add: removed_def cores_def map_update)

lemma table_inv_removed:
  assumes "table_inv c" "i < length (cc_entries c)" "live (cc_entries c ! i)"
  shows "table_inv (removed c i)" "vault_map (removed c i) = (vault_map c)(ce_key (cc_entries c ! i) := None)"
proof -
  have i: "i < length (cores c)" "live (cores c ! i)" "ce_code_size (cores c ! i) = ce_code_size (cc_entries c ! i)"
    "ce_key (cores c ! i) = ce_key (cc_entries c ! i)"
    using assms(2,3) by (simp_all add: cores_nth)
  have inv: "unique_keys (cores c)" "reachable_keys (cores c)" "\<forall>e\<in>set (cores c). state_ok e"
    using assms(1) by (simp_all add: table_inv_def)
  show m: "vault_map (removed c i) = (vault_map c)(ce_key (cc_entries c ! i) := None)"
    using vault_map_drop [OF inv(1) i(1,2) removed_simps(1)] i(4) by simp
  have "unique_keys (cores (removed c i))" "reachable_keys (cores (removed c i))"
    "\<forall>e\<in>set (cores (removed c i)). state_ok e"
    using unique_keys_drop [OF inv(1) i(1)] reachable_update [OF inv(2) i(1), of tombstone]
      states_update [OF inv(3), of tombstone i] by simp_all
  moreover have "cc_count (removed c i) = live_count (cores (removed c i))" "cc_code_bytes (removed c i) = live_bytes (cores (removed c i))"
    using assms(1) i by (simp_all add: live_count_update live_bytes_update table_inv_def)
  ultimately show "table_inv (removed c i)"
    using assms(1) m by (auto simp: table_inv_def)
qed

lemma distinct_functions_drop:
  assumes "distinct (map ce_function (filter live es))" "i < length es" "live (es ! i)" "\<not> live e"
  shows "distinct (map ce_function (filter live (es[i := e])))" "\<forall>x\<in>set (es[i := e]). live x \<longrightarrow> x \<in> set es \<and> ce_function x \<noteq> ce_function (es ! i)"
proof -
  have d: "distinct (map ce_function (filter live (take i es) @ [es ! i] @ filter live (drop (Suc i) es)))"
    using assms filter_split [OF assms(2), of live] by simp
  show "distinct (map ce_function (filter live (es[i := e])))"
    using d assms(4) filter_update [OF assms(2), of live e] by auto
  have "set (es[i := e]) = insert e (set (take i es) \<union> set (drop (Suc i) es))"
    using assms(2) by (simp add: upd_conv_take_nth_drop)
  then show "\<forall>x\<in>set (es[i := e]). live x \<longrightarrow> x \<in> set es \<and> ce_function x \<noteq> ce_function (es ! i)"
    using d assms(4) by (auto dest: in_set_takeD in_set_dropD) (metis (mono_tags, lifting) CollectI imageI)+
qed

text \<open>Removing a live entry keeps the invariant and takes the entry's key out of the map.\<close>

lemma remove_slot_refines:
  assumes inv: "vault_inv c V" and i: "i < length (cc_entries c)" "live (cc_entries c ! i)"
  shows "\<exists>c' V'. remove_slot c V i ev = Inr (c', V') \<and> vault_inv c' V' \<and> frame c' = frame (removed c i) \<and>
    vault_map c' = (vault_map c)(ce_key (cc_entries c ! i) := None) \<and>
    vh_natives V' = retired_natives c V i \<and> heap_handles (vh_jit V') = retired_handles (cc_entries c ! i) V \<and>
    (\<forall>j. j \<noteq> i \<longrightarrow> cc_entries c' ! j = cc_entries c ! j)"
proof -
  let ?e = "cc_entries c ! i"
  obtain c' V' where r: "remove_slot c V i ev = Inr (c', V')" "frame c' = frame (removed c i)" "index_inv c'"
    "vh_natives V' = retired_natives c V i" "heap_handles (vh_jit V') = retired_handles ?e V"
    "\<forall>j. j \<noteq> i \<longrightarrow> cc_entries c' ! j = cc_entries c ! j"
    using remove_slot_ok [OF inv i] by blast
  have tab: "table_inv c" "natives_inv (cores c) V" using inv by (simp_all add: vault_inv_def)
  have cores: "cores c' = (cores c)[i := tombstone]" using r(2) by (simp add: frame_def)
  have live: "\<forall>x\<in>set (cores c'). live x \<longrightarrow> x \<in> set (cores c) \<and> ce_function x \<noteq> ce_function ?e"
    and dist: "distinct (map ce_function (filter live (cores c')))"
    using distinct_functions_drop [of "cores c" i tombstone] tab(2) i by (simp_all add: cores natives_inv_def cores_nth)
  have handles: "heap_handles (vh_jit V) a \<noteq> None \<Longrightarrow> heap_handles (vh_jit V') a \<noteq> None" for a
    by (auto simp: r(5) retired_handles_def TurboJS_NativeEntryHandleInvalidate_def current_handle_def split: option.splits)
  have natives: "a \<noteq> ce_function ?e \<Longrightarrow> vh_natives V a \<noteq> None \<Longrightarrow> vh_natives V' a \<noteq> None" for a
    by (simp add: r(4) retired_natives_def Let_def del: not_None_eq)
  have "natives_inv (cores c') V'"
    using tab(2) live dist handles natives unfolding natives_inv_def entry_owned_def by blast
  then have "vault_inv c' V'"
    using table_inv_removed(1) [OF tab(1) i] frame_inv [OF r(2)] r(3) by (simp add: vault_inv_def)
  then show ?thesis using r table_inv_removed(2) [OF tab(1) i] frame_map [OF r(2)] by auto
qed

end
