(* ===== verification/Vault_Ops.thy ===== *)
theory Vault_Ops
  imports Vault_Table
begin

text \<open>
  The operations of the code cache against the map of the table: creation, lookup, invalidation,
  eviction, compilation and clearing, and the continuations.
\<close>

section \<open>Lookup and invalidation\<close>

lemma vault_inv_frame: "frame c' = frame c \<Longrightarrow> index_inv c' \<Longrightarrow> vault_inv c V \<Longrightarrow> vault_inv c' V"
  using frame_inv [of c' c] by (simp add: vault_inv_def frame_def)

lemma vault_inv_stats [simp]: "vault_inv (c\<lparr>cc_stats := st\<rparr>) V = vault_inv c V" "vault_map (c\<lparr>cc_stats := st\<rparr>) = vault_map c"
  by (simp_all add: vault_inv_def table_inv_def index_inv_def vault_map_def cores_def)

lemma touch_ok:
  assumes "i < length (cc_entries c)"
  shows "\<exists>c'. touch_entry c i = Inr c' \<and> frame c' = frame c \<and> (index_inv c \<longrightarrow> index_inv c') \<and> cc_stats c' = cc_stats c \<and>
    map ce_dependencies (cc_entries c') = map ce_dependencies (cc_entries c)"
proof -
  let ?e = "cc_entries c ! i"
  let ?e' = "?e\<lparr>ce_stamp := cc_clock c + 1,
    ce_access_count := (if unat (ce_access_count ?e) \<noteq> UINT32_MAX then ce_access_count ?e + 1 else ce_access_count ?e)\<rparr>"
  let ?c' = "c\<lparr>cc_clock := cc_clock c + 1, cc_entries := (cc_entries c)[i := ?e']\<rparr>"
  have core: "core ?e' = core ?e" by (simp add: core_def)
  have deps: "map ce_dependencies (cc_entries ?c') = map ce_dependencies (cc_entries c)"
      "map ce_repatch_dependencies (cc_entries ?c') = map ce_repatch_dependencies (cc_entries c)"
    using assms by (simp_all add: list_eq_iff_nth_eq nth_list_update)
  have "cores ?c' = cores c" using cores_same [OF assms core] by (simp add: cores_def map_update)
  moreover have "index_inv ?c' = index_inv c" by (rule index_inv_cong) (use deps in simp_all)
  moreover have "touch_entry c i = Inr ?c'" using assms by (simp add: touch_entry_def rd_ok)
  ultimately show ?thesis using deps by (simp add: frame_def)
qed

lemma vault_map_key: "vault_map c key = Some f \<Longrightarrow> key \<noteq> 0"
  using vault_map_None [of c 0] by (metis option.simps(3))

lemma last_lookup_inv:
  assumes "vault_inv c V" "vault_map c key = Some f"
  shows "vault_inv (c\<lparr>cc_last_key := key, cc_last_function := f\<rparr>) V" "vault_map (c\<lparr>cc_last_key := key, cc_last_function := f\<rparr>) = vault_map c"
  using assms by (simp_all add: vault_inv_def table_inv_def index_inv_def vault_map_def cores_def)

text \<open>Every target of a live entry's call sites is in the entry's list, so the index leads to the entry.\<close>

definition dependencies_complete :: "TurboJSCodeCache \<Rightarrow> vault_heap \<Rightarrow> bool" where
  "dependencies_complete c V \<longleftrightarrow> (\<forall>i<length (cc_entries c). live (cc_entries c ! i) \<longrightarrow>
     (case vh_natives V (ce_function (cc_entries c ! i)) of
        None \<Rightarrow> True
      | Some n \<Rightarrow> set (targets n) \<subseteq> insert 0 (set (ce_dependencies (cc_entries c ! i)))))"

lemma complete_frame:
  assumes "frame c' = frame c" "map ce_dependencies (cc_entries c') = map ce_dependencies (cc_entries c)"
  shows "dependencies_complete c' V = dependencies_complete c V"
proof -
  have len: "length (cc_entries c') = length (cc_entries c)" using arg_cong [OF assms(2), of length] by simp
  have c: "core (cc_entries c' ! i) = core (cc_entries c ! i)" "ce_dependencies (cc_entries c' ! i) = ce_dependencies (cc_entries c ! i)"
    if "i < length (cc_entries c)" for i
    using assms len that cores_nth [of i c'] cores_nth [of i c] nth_map [of i "cc_entries c" ce_dependencies]
      nth_map [of i "cc_entries c'" ce_dependencies] by (simp_all add: frame_def)
  have "live (cc_entries c' ! i) = live (cc_entries c ! i)" "ce_function (cc_entries c' ! i) = ce_function (cc_entries c ! i)"
    if "i < length (cc_entries c)" for i
    using c(1) [OF that] by (metis core_simps(2,7))+
  then show ?thesis using c(2) len by (simp add: dependencies_complete_def cong: option.case_cong)
qed

lemma complete_irrelevant [simp]:
  "dependencies_complete (c\<lparr>cc_stats := st\<rparr>) V = dependencies_complete c V"
  "dependencies_complete (c\<lparr>cc_clock := k\<rparr>) V = dependencies_complete c V"
  "dependencies_complete (c\<lparr>cc_last_key := key, cc_last_function := f\<rparr>) V = dependencies_complete c V"
  "dependencies_complete (c\<lparr>cc_stats := st, cc_last_key := key, cc_last_function := f\<rparr>) V = dependencies_complete c V"
  by (simp_all add: dependencies_complete_def cong: option.case_cong)

lemma lookup_hit:
  assumes "vault_inv c V" "vault_map c key = Some f"
  shows "\<exists>c'. TurboJS_CodeCacheLookup (Some c) key = Inr (f, Some c') \<and> vault_inv c' V \<and> vault_map c' = vault_map c \<and>
    dependencies_complete c' V = dependencies_complete c V"
proof -
  have key: "key \<noteq> 0" using assms(2) by (rule vault_map_key)
  have tab: "table_inv c" "index_inv c" using assms(1) by (auto simp: vault_inv_def)
  define d where "d = c\<lparr>cc_stats := (cc_stats c)\<lparr>ccs_hits := ccs_hits (cc_stats c) + 1\<rparr>\<rparr>"
  have d: "vault_inv d V" "vault_map d = vault_map c" "cc_entries d = cc_entries c" "cores d = cores c"
    using assms(1) by (simp_all add: d_def cores_def)
  have di: "table_inv d" "index_inv d" using d(1) by (auto simp: vault_inv_def)
  obtain i where i: "i < length (cc_entries c)" "find_slot c key False = Inr (Some i)" "matches (cores c) key i" "ce_function (cores c ! i) = f"
    using find_slot_map [OF tab(1) key, of False] assms(2) by auto
  have id: "find_slot d key False = Inr (Some i)" using i(2) by (simp add: find_slot_def d_def)
  have e: "ce_state (cc_entries c ! i) = 1" "ce_function (cc_entries c ! i) = f"
    using i(1,3,4) by (simp_all add: matches_def cores_nth)
  obtain c' where t: "touch_entry d i = Inr c'" "frame c' = frame d" "index_inv c'"
      "map ce_dependencies (cc_entries c') = map ce_dependencies (cc_entries d)"
    using touch_ok [of i d] i(1) d(3) di(2) by auto
  have c': "vault_inv c' V" "vault_map c' = vault_map c" "dependencies_complete c' V = dependencies_complete c V"
    using vault_inv_frame [OF t(2,3) d(1)] frame_map [OF t(2)] d(2) complete_frame [OF t(2,4), of V] by (simp_all add: d_def)
  show ?thesis
  proof (cases "cc_last_key c = key \<and> cc_last_function c \<noteq> 0")
    case True
    then have "cc_last_function c = f" using tab(1) key assms(2) by (simp add: table_inv_def)
    then show ?thesis using True key id i(1) e t(1) c'
      by (simp add: TurboJS_CodeCacheLookup_def d_def [symmetric] rd_ok)
  next
    case False
    then show ?thesis using key i(1,2) e t(1) c' last_lookup_inv [of c' V key f] assms(2)
      by (auto simp: TurboJS_CodeCacheLookup_def d_def [symmetric] rd_ok)
  qed
qed

lemma free_state: "free_for (cores c) key i \<Longrightarrow> i < length (cc_entries c) \<and> ce_state (cc_entries c ! i) \<noteq> 1"
  by (auto simp: free_for_def live_def cores_nth)

lemma lookup_miss:
  assumes "vault_inv c V" "vault_map c key = None"
  shows "\<exists>c'. TurboJS_CodeCacheLookup (Some c) key = Inr (0, Some c') \<and> vault_inv c' V \<and> vault_map c' = vault_map c \<and>
    dependencies_complete c' V = dependencies_complete c V"
proof (cases "key = 0")
  case True
  then show ?thesis using assms by (simp add: TurboJS_CodeCacheLookup_def)
next
  case key: False
  have tab: "table_inv c" using assms(1) by (auto simp: vault_inv_def)
  have last: "\<not> (cc_last_key c = key \<and> cc_last_function c \<noteq> 0)" using tab key assms(2) by (auto simp: table_inv_def)
  obtain s where s: "find_slot c key False = Inr s" "\<forall>i. s = Some i \<longrightarrow> free_for (cores c) key i"
    using find_slot_map [OF tab key, of False] assms(2) by auto
  have st: "s = Some i \<Longrightarrow> i < length (cc_entries c) \<and> ce_state (cc_entries c ! i) \<noteq> 1" for i
    using s(2) free_state by blast
  show ?thesis
    using assms(1) key last s(1) st by (cases s) (auto simp: TurboJS_CodeCacheLookup_def Let_def rd_ok)
qed

lemma invalidate_ok:
  assumes inv: "vault_inv c V"
  shows "(\<exists>i<length (cc_entries c). matches (cores c) key i \<and> key \<noteq> 0 \<and> TurboJS_CodeCacheInvalidate (Some c) key V =
      bindc (remove_slot c V i False) (\<lambda>(c1, V1). Inr (Some c1, V1))) \<or>
    vault_map c key = None \<and> TurboJS_CodeCacheInvalidate (Some c) key V = Inr (Some c, V)"
proof (cases "key = 0")
  case True
  then show ?thesis using vault_map_None [of c 0] by (simp add: TurboJS_CodeCacheInvalidate_def)
next
  case key: False
  have tab: "table_inv c" using inv by (auto simp: vault_inv_def)
  show ?thesis
  proof (cases "vault_map c key")
    case None
    then obtain s where s: "find_slot c key False = Inr s" "\<forall>i. s = Some i \<longrightarrow> free_for (cores c) key i"
      using find_slot_map [OF tab key, of False] by auto
    have "s = Some i \<Longrightarrow> remove_slot c V i False = Inr (c, V)" for i
      using s(2) free_state [of c key i] by (simp add: remove_slot_def rd_ok)
    then show ?thesis using s(1) key None by (cases s) (auto simp: TurboJS_CodeCacheInvalidate_def)
  next
    case (Some f)
    then show ?thesis using find_slot_map [OF tab key, of False] key by (auto simp: TurboJS_CodeCacheInvalidate_def)
  qed
qed


text \<open>No live entry calls through the handle.\<close>

definition uncalled :: "addr \<Rightarrow> TurboJSCodeCache \<Rightarrow> vault_heap \<Rightarrow> bool" where
  "uncalled h c V \<longleftrightarrow> (\<forall>i<length (cc_entries c). live (cc_entries c ! i) \<longrightarrow>
     (case vh_natives V (ce_function (cc_entries c ! i)) of None \<Rightarrow> True | Some n \<Rightarrow> h \<notin> set (targets n)))"

lemma cleared_targets:
  "cleared nodes es h N a = Some n \<Longrightarrow> h \<noteq> 0 \<Longrightarrow> \<exists>n'. N a = Some n' \<and> set (targets n) \<subseteq> insert 0 (set (targets n'))"
  using targets_cleared(2) by (auto simp: cleared_def split: if_splits)

lemma remove_slot_uncalled:
  assumes inv: "vault_inv c V" "dependencies_complete c V" and i: "i < length (cc_entries c)" "live (cc_entries c ! i)"
    and r: "remove_slot c V i ev = Inr (c', V')"
  shows "dependencies_complete c' V'" "current_handle (cc_entries c ! i) V \<Longrightarrow> uncalled (ce_entry_handle (cc_entries c ! i)) c' V'"
proof -
  let ?e = "cc_entries c ! i"
  let ?h = "ce_entry_handle ?e"
  have len: "length (cc_entries c') = length (cc_entries c)" and tomb: "\<not> live (cc_entries c' ! i)"
    and V': "vh_natives V' = retired_natives c V i" and same: "\<And>j. j \<noteq> i \<Longrightarrow> cc_entries c' ! j = cc_entries c ! j"
  proof -
    have "cores c' = (cores c)[i := tombstone]" and "vh_natives V' = retired_natives c V i"
      and "\<And>j. j \<noteq> i \<Longrightarrow> cc_entries c' ! j = cc_entries c ! j"
      using remove_slot_refines [OF inv(1) i, of ev] r by (auto simp: frame_def)
    then show "length (cc_entries c') = length (cc_entries c)" "vh_natives V' = retired_natives c V i"
      "\<And>j. j \<noteq> i \<Longrightarrow> cc_entries c' ! j = cc_entries c ! j" by (metis length_cores length_list_update)+
    then show "\<not> live (cc_entries c' ! i)"
      using \<open>cores c' = _\<close> i(1) cores_nth [of i c'] by (metis core_simps(7) length_cores nth_list_update_eq tombstone_simps(2))
  qed
  have kept: "j < length (cc_entries c) \<and> live (cc_entries c ! j) \<and> (\<exists>n'. vh_natives V (ce_function (cc_entries c ! j)) = Some n' \<and>
      set (targets n) \<subseteq> insert 0 (set (targets n')))"
    if "j < length (cc_entries c')" "live (cc_entries c' ! j)" "vh_natives V' (ce_function (cc_entries c' ! j)) = Some n" "j \<noteq> i" for j n
    using that same [OF that(4)] len cleared_targets [of "owners c ?h" "cc_entries c" ?h "vh_natives V" "ce_function (cc_entries c ! j)" n]
    by (auto simp: V' retired_natives_def Let_def current_handle_def split: if_splits)
  have complete: "set (targets n) \<subseteq> insert 0 (set (ce_dependencies (cc_entries c ! j)))"
    if "j < length (cc_entries c)" "live (cc_entries c ! j)" "vh_natives V (ce_function (cc_entries c ! j)) = Some n" for j n
    using inv(2) that unfolding dependencies_complete_def by force
  have "set (targets n) \<subseteq> insert 0 (set (ce_dependencies (cc_entries c' ! j)))"
    if "j < length (cc_entries c')" "live (cc_entries c' ! j)" "vh_natives V' (ce_function (cc_entries c' ! j)) = Some n" for j n
    using kept [OF that] complete tomb that(2) same by (cases "j = i") force+
  then show "dependencies_complete c' V'" by (auto simp: dependencies_complete_def split: option.split)
  assume cur: "current_handle ?e V"
  have ix: "index_inv c" "pow2_size (cc_slot_count c)" using inv(1) by (auto simp: vault_inv_def table_inv_def)
  have "?h \<notin> set (targets n)"
    if j: "j < length (cc_entries c')" "live (cc_entries c' ! j)" "vh_natives V' (ce_function (cc_entries c' ! j)) = Some n" for j n
  proof
    assume h: "?h \<in> set (targets n)"
    have ji: "j \<noteq> i" using tomb j(2) by auto
    have h0: "?h \<noteq> 0" using cur by (simp add: current_handle_def)
    obtain n' where n': "vh_natives V (ce_function (cc_entries c ! j)) = Some n'" "?h \<in> set (targets n')"
      "j < length (cc_entries c)" "live (cc_entries c ! j)"
      using kept [OF j ji] h h0 by blast
    then have "(?h, j) \<in> set (owners c ?h)" using complete [of j n'] h0 by (auto simp: owners_iff [OF ix])
    then have "cleared (owners c ?h) (cc_entries c) ?h (vh_natives V) (ce_function (cc_entries c ! j)) = Some (clear_target ?h n')"
      using n' by (auto simp: cleared_def)
    moreover have "cleared (owners c ?h) (cc_entries c) ?h (vh_natives V) (ce_function (cc_entries c ! j)) = Some n"
      using j(3) same [OF ji] cur by (auto simp: V' retired_natives_def Let_def split: if_splits)
    ultimately show False using targets_cleared(1) [OF h0] h by auto
  qed
  then show "uncalled ?h c' V'" by (auto simp: uncalled_def split: option.split)
qed

section \<open>Eviction\<close>

text \<open>The order of eviction: the higher score first, the older entry among equal scores.\<close>

definition worse :: "TurboJSCodeCache \<Rightarrow> nat \<Rightarrow> nat \<Rightarrow> bool" where
  "worse c v j \<longleftrightarrow> (let e = cc_entries c ! v; e' = cc_entries c ! j in
     eviction_score c e' < eviction_score c e \<or> eviction_score c e' = eviction_score c e \<and> ce_stamp e \<le> ce_stamp e')"

lemma worse_refl [simp]: "worse c v v"
  by (simp add: worse_def Let_def)

lemma scan_victim_ok:
  assumes "i + n = length (cc_entries c)"
    and "\<forall>v. victim = Some v \<longrightarrow> v < length (cc_entries c) \<and> live (cc_entries c ! v) \<and>
      score = eviction_score c (cc_entries c ! v) \<and> stamp = ce_stamp (cc_entries c ! v)"
    and "\<forall>j<i. live (cc_entries c ! j) \<longrightarrow> (\<exists>v. victim = Some v \<and> worse c v j)"
  shows "\<exists>r. scan_victim n i c victim score stamp = Inr r \<and>
    (\<forall>v. r = Some v \<longrightarrow> v < length (cc_entries c) \<and> live (cc_entries c ! v)) \<and>
    (\<forall>j<length (cc_entries c). live (cc_entries c ! j) \<longrightarrow> (\<exists>v. r = Some v \<and> worse c v j))"
  using assms
proof (induction n arbitrary: i victim score stamp)
  case 0
  then show ?case by simp
next
  case (Suc n)
  let ?e = "cc_entries c ! i"
  have i: "i < length (cc_entries c)" using Suc.prems(1) by simp
  show ?case
  proof (cases "live ?e")
    case False
    then have "scan_victim (Suc n) i c victim score stamp = scan_victim n (i + 1) c victim score stamp"
      using i by (simp add: rd_ok live_def)
    then show ?thesis using Suc.IH [of "i + 1" victim score stamp] Suc.prems False by (auto simp: less_Suc_eq)
  next
    case True
    let ?better = "victim = None \<or> score < eviction_score c ?e \<or> (eviction_score c ?e = score \<and> ce_stamp ?e < stamp)"
    show ?thesis
    proof (cases ?better)
      case better: True
      have "worse c i j" if "worse c v j" "victim = Some v" for v j
        using better that Suc.prems(2) by (auto simp: worse_def Let_def)
      then have "\<forall>j<i + 1. live (cc_entries c ! j) \<longrightarrow> (\<exists>v. Some i = Some v \<and> worse c v j)"
        using Suc.prems(3) by (auto simp: less_Suc_eq)
      moreover have "scan_victim (Suc n) i c victim score stamp = scan_victim n (i + 1) c (Some i) (eviction_score c ?e) (ce_stamp ?e)"
        using i True better by (simp add: rd_ok live_def Let_def)
      ultimately show ?thesis using Suc.IH [of "i + 1" "Some i"] Suc.prems(1) i True by simp
    next
      case kept: False
      then obtain v where v: "victim = Some v" by auto
      then have "worse c v i" using kept Suc.prems(2) by (auto simp: worse_def Let_def)
      then have "\<forall>j<i + 1. live (cc_entries c ! j) \<longrightarrow> (\<exists>v. victim = Some v \<and> worse c v j)"
        using Suc.prems(3) v by (auto simp: less_Suc_eq)
      moreover have "scan_victim (Suc n) i c victim score stamp = scan_victim n (i + 1) c victim score stamp"
        using i True kept by (auto simp: rd_ok live_def Let_def)
      ultimately show ?thesis using Suc.IH [of "i + 1" victim score stamp] Suc.prems(1,2) by simp
    qed
  qed
qed

lemma victim_ok:
  assumes "length (cc_entries c) = cc_slot_count c"
  shows "\<exists>r. scan_victim (cc_slot_count c) 0 c None 0 (- 1) = Inr r \<and>
    (\<forall>v. r = Some v \<longrightarrow> v < length (cc_entries c) \<and> live (cc_entries c ! v)) \<and>
    (\<forall>j<length (cc_entries c). live (cc_entries c ! j) \<longrightarrow> (\<exists>v. r = Some v \<and> worse c v j))"
  using scan_victim_ok [of 0 "cc_slot_count c" c None 0 "- 1"] assms by simp

definition owned :: "TurboJSCodeCache \<Rightarrow> addr set" where
  "owned c = ce_function ` {e \<in> set (cores c). live e}"

lemma ownedI: "i < length (cc_entries c) \<Longrightarrow> live (cc_entries c ! i) \<Longrightarrow> ce_function (cc_entries c ! i) \<in> owned c"
  unfolding owned_def cores_def by (rule image_eqI [of _ _ "core (cc_entries c ! i)"]) auto

text \<open>
  What evictions may do: drop keys from the map, destroy functions the cache owns and clear their
  call sites; everything else stays.
\<close>

definition shrinks :: "TurboJSCodeCache \<Rightarrow> vault_heap \<Rightarrow> TurboJSCodeCache \<Rightarrow> vault_heap \<Rightarrow> bool" where
  "shrinks c V c' V' \<longleftrightarrow> vault_inv c' V' \<and> vault_map c' \<subseteq>\<^sub>m vault_map c \<and> owned c' \<subseteq> owned c \<and>
     (\<forall>a. a \<notin> owned c \<longrightarrow> vh_natives V' a = vh_natives V a) \<and>
     (\<forall>h. heap_handles (vh_jit V) h \<noteq> None \<longrightarrow> heap_handles (vh_jit V') h \<noteq> None) \<and>
     (dependencies_complete c V \<longrightarrow> dependencies_complete c' V') \<and>
     cc_maximum_entries c' = cc_maximum_entries c \<and> cc_maximum_code_bytes c' = cc_maximum_code_bytes c"

lemma owned_stats [simp]: "owned (c\<lparr>cc_stats := st\<rparr>) = owned c"
  by (simp add: owned_def cores_def)

lemma shrinks_refl: "vault_inv c V \<Longrightarrow> shrinks c V c V"
  by (simp add: shrinks_def)

lemma shrinks_trans: "shrinks c V c' V' \<Longrightarrow> shrinks c' V' c'' V'' \<Longrightarrow> shrinks c V c'' V''"
  unfolding shrinks_def by (metis map_le_trans subsetD subset_trans)

lemma cores_eqD: "cores c' = (cores c)[i := e] \<Longrightarrow> length (cc_entries c') = length (cc_entries c)"
  by (metis length_cores length_list_update)

lemma remove_shrinks:
  assumes inv: "vault_inv c V" and i: "i < length (cc_entries c)" "live (cc_entries c ! i)"
  shows "\<exists>c' V'. remove_slot c V i ev = Inr (c', V') \<and> shrinks c V c' V' \<and> cc_count c' = cc_count c - 1 \<and>
    owned c' = owned c - {ce_function (cc_entries c ! i)} \<and> vh_natives V' (ce_function (cc_entries c ! i)) = None \<and>
    vault_map c' = (vault_map c)(ce_key (cc_entries c ! i) := None)"
proof -
  let ?e = "cc_entries c ! i"
  obtain c' V' where r: "remove_slot c V i ev = Inr (c', V')" "vault_inv c' V'" "frame c' = frame (removed c i)"
    "vault_map c' = (vault_map c)(ce_key ?e := None)" "vh_natives V' = retired_natives c V i"
    "heap_handles (vh_jit V') = retired_handles ?e V"
    using remove_slot_refines [OF inv i, of ev] by blast
  have ci: "i < length (cores c)" "cores c ! i = core ?e" using i(1) by (simp_all add: cores_nth)
  have mem: "ce_function ?e \<in> owned c" by (rule ownedI [OF i])
  have dist: "distinct (map ce_function (filter live (cores c)))" using inv by (simp add: vault_inv_def natives_inv_def)
  have cores: "cores c' = (cores c)[i := tombstone]" using r(3) by (simp add: frame_def)
  have own: "owned c' = owned c - {ce_function ?e}"
  proof -
    have "set (cores c') = insert tombstone (set (take i (cores c)) \<union> set (drop (Suc i) (cores c)))"
      using ci(1) by (simp add: cores upd_conv_take_nth_drop)
    moreover have "set (cores c) = insert (core ?e) (set (take i (cores c)) \<union> set (drop (Suc i) (cores c)))"
      using arg_cong [OF id_take_nth_drop [OF ci(1)], of set] ci(2) by simp
    ultimately show ?thesis
      using distinct_functions_drop(2) [OF dist ci(1), of tombstone] ci(2) i(2) by (auto simp: owned_def cores [symmetric])
  qed
  have "vh_natives V' a = vh_natives V a" if "a \<notin> owned c" for a
  proof -
    have "\<not> (\<exists>j. (h, j) \<in> set (owners c h) \<and> live (cc_entries c ! j) \<and> ce_function (cc_entries c ! j) = a)" for h
    proof
      assume "\<exists>j. (h, j) \<in> set (owners c h) \<and> live (cc_entries c ! j) \<and> ce_function (cc_entries c ! j) = a"
      then obtain j where "j < length (cc_entries c)" "live (cc_entries c ! j)" "ce_function (cc_entries c ! j) = a"
        using owners_iff [of c h _ h] inv by (auto simp: vault_inv_def table_inv_def)
      then have "a \<in> owned c" using ownedI by blast
      then show False using that by simp
    qed
    then show ?thesis using that mem by (auto simp: r(5) retired_natives_def Let_def cleared_def)
  qed
  moreover have "heap_handles (vh_jit V) h \<noteq> None \<Longrightarrow> heap_handles (vh_jit V') h \<noteq> None" for h
    by (auto simp: r(6) retired_handles_def TurboJS_NativeEntryHandleInvalidate_def current_handle_def split: option.splits)
  moreover have "vault_map c' \<subseteq>\<^sub>m vault_map c" by (auto simp: r(4) map_le_def)
  moreover have "vh_natives V' (ce_function ?e) = None" by (simp add: r(5) retired_natives_def Let_def)
  ultimately show ?thesis
    using r own remove_slot_uncalled(1) [OF inv _ i r(1)] by (auto simp: shrinks_def frame_def)
qed


lemma live_zero:
  assumes "live_count es = 0"
  shows "live_bytes es = 0"
proof -
  have "\<not> live e" if "e \<in> set es" for e
  proof -
    obtain i where "i < length es" "es ! i = e" using \<open>e \<in> set es\<close> by (auto simp: in_set_conv_nth)
    then show ?thesis using live_count_ge [of i es] assms by auto
  qed
  then have "map (\<lambda>e. if live e then ce_code_size e else 0) es = map (\<lambda>_. 0) es" by simp
  then show ?thesis by (simp only: live_bytes_def) simp
qed

lemma live_exists:
  assumes "live_count es \<noteq> 0"
  shows "\<exists>i<length es. live (es ! i)"
proof (rule ccontr)
  assume "\<not> (\<exists>i<length es. live (es ! i))"
  then have "\<forall>e\<in>set es. \<not> live e" by (auto simp: in_set_conv_nth)
  then have "live_count es = 0" by (simp add: live_count_def)
  then show False using assms by simp
qed

lemma evict_ok:
  assumes "vault_inv c V" "cc_count c \<noteq> 0"
  shows "\<exists>c' V'. evict_lru c V = Inr (True, c', V') \<and> shrinks c V c' V' \<and> cc_count c' = cc_count c - 1"
proof -
  have tab: "length (cc_entries c) = cc_slot_count c" "cc_count c = live_count (cores c)"
    using assms(1) by (auto simp: vault_inv_def table_inv_def)
  obtain r where r: "scan_victim (cc_slot_count c) 0 c None 0 (- 1) = Inr r"
    "\<forall>v. r = Some v \<longrightarrow> v < length (cc_entries c) \<and> live (cc_entries c ! v)"
    "\<forall>j<length (cc_entries c). live (cc_entries c ! j) \<longrightarrow> (\<exists>v. r = Some v \<and> worse c v j)"
    using victim_ok [OF tab(1)] by (elim exE conjE) (rule that)
  have "live_count (cores c) \<noteq> 0" using tab(2) assms(2) by argo
  then obtain j where "j < length (cores c)" "live (cores c ! j)" using live_exists by blast
  then have "j < length (cc_entries c)" "live (cc_entries c ! j)" by (simp_all add: cores_nth)
  then obtain v where v: "r = Some v" "v < length (cc_entries c)" "live (cc_entries c ! v)" using r(2) r(3) by metis
  obtain st where run: "evict_lru c V = bindc (remove_slot (c\<lparr>cc_stats := st\<rparr>) V v True) (\<lambda>x. Inr (True, x))"
    using r(1) v(1,2) unfolding evict_lru_def by (auto simp: rd_ok Let_def)
  let ?c = "c\<lparr>cc_stats := st\<rparr>"
  have "vault_inv ?c V" using assms(1) by simp
  then obtain c' V' where r: "remove_slot ?c V v True = Inr (c', V')" "shrinks ?c V c' V'" "cc_count c' = cc_count c - 1"
    using remove_shrinks [of ?c V v True] v(2,3) by auto
  have "shrinks c V c' V'"
    using r(2) by (simp add: shrinks_def)
  then show ?thesis using run r by simp
qed

lemma make_room_ok:
  assumes "vault_inv c V" "cc_count c = n" "code_size \<le> cc_maximum_code_bytes c"
  shows "\<exists>c' V'. make_room n c V code_size = Inr (c', V') \<and> shrinks c V c' V' \<and> \<not> over_budget c' code_size"
  using assms
proof (induction n arbitrary: c V)
  case 0
  then have "cc_code_bytes c = 0" "0 < cc_maximum_entries c" using live_zero [of "cores c"] by (auto simp: vault_inv_def table_inv_def)
  then have "\<not> over_budget c code_size" using 0 by (simp add: over_budget_def size_sub_def)
  then show ?case using 0 shrinks_refl by auto
next
  case (Suc n)
  show ?case
  proof (cases "over_budget c code_size")
    case True
    obtain c1 V1 where e: "evict_lru c V = Inr (True, c1, V1)" "shrinks c V c1 V1" "cc_count c1 = n"
      using evict_ok [OF Suc.prems(1)] Suc.prems(2) by auto
    have "vault_inv c1 V1" "code_size \<le> cc_maximum_code_bytes c1" using e(2) Suc.prems(3) by (auto simp: shrinks_def)
    then obtain c' V' where "make_room n c1 V1 code_size = Inr (c', V')" "shrinks c1 V1 c' V'" "\<not> over_budget c' code_size"
      using Suc.IH e(3) by blast
    then show ?thesis using e shrinks_trans True Suc.prems(2) by auto
  next
    case False
    then show ?thesis using Suc.prems(1) shrinks_refl by auto
  qed
qed

section \<open>Storing a function\<close>

definition occupied :: "TurboJSCodeCache \<Rightarrow> nat \<Rightarrow> TurboJSCodeCacheEntry \<Rightarrow> TurboJSCodeCache" where
  "occupied c i e = c\<lparr>cc_entries := (cc_entries c)[i := e], cc_count := cc_count c + 1, cc_code_bytes := cc_code_bytes c + ce_code_size e\<rparr>"

lemma unique_keys_add:
  assumes "unique_keys es" "i < length es" "\<not> live (es ! i)" "ce_key e = 0 \<or> (\<forall>j<length es. live (es ! j) \<longrightarrow> ce_key (es ! j) \<noteq> ce_key e)"
  shows "unique_keys (es[i := e])"
proof -
  have "ce_key e = 0 \<or> (\<forall>x\<in>set (take i es) \<union> set (drop (Suc i) es). live x \<longrightarrow> ce_key x \<noteq> ce_key e)"
    using assms(4) by (metis UnE in_set_conv_nth in_set_dropD in_set_takeD)
  then show ?thesis
    using assms filter_split [OF assms(2), of "\<lambda>e. live e \<and> ce_key e \<noteq> 0"]
    by (auto simp: unique_keys_def filter_update split: if_splits)
qed

lemma vault_map_add:
  assumes "i < length (cores c)" "\<not> live (cores c ! i)" "cores c' = (cores c)[i := e]" "live e" "vault_map c (ce_key e) = None"
  shows "vault_map c' = (if ce_key e = 0 then vault_map c else (vault_map c)(ce_key e \<mapsto> ce_function e))"
proof -
  let ?P = "\<lambda>e. live e \<and> ce_key e \<noteq> 0" and ?g = "\<lambda>e. (ce_key e, ce_function e)"
  define A where "A = filter ?P (take i (cores c))"
  define B where "B = filter ?P (drop (Suc i) (cores c))"
  have old: "vault_map c = map_of (map ?g (A @ B))"
    using filter_split [OF assms(1), of ?P] assms(2) by (simp add: vault_map_def A_def B_def)
  have new: "vault_map c' = map_of (map ?g (A @ (if ce_key e = 0 then [] else [e]) @ B))"
    using filter_update [OF assms(1), of ?P e] assms(3,4) by (simp add: vault_map_def A_def B_def)
  have none: "map_of (map ?g A) (ce_key e) = None" "map_of (map ?g B) (ce_key e) = None"
    using assms(5) by (auto simp: old map_add_def split: option.splits)
  show ?thesis
    using none by (auto simp: old new fun_eq_iff map_add_def split: option.split)
qed

lemma occupied_simps [simp]:
  "cores (occupied c i e) = (cores c)[i := core e]" "cc_count (occupied c i e) = cc_count c + 1"
  "cc_code_bytes (occupied c i e) = cc_code_bytes c + ce_code_size e" "length (cc_entries (occupied c i e)) = length (cc_entries c)"
  "cc_slot_count (occupied c i e) = cc_slot_count c" "cc_maximum_entries (occupied c i e) = cc_maximum_entries c"
  "cc_maximum_code_bytes (occupied c i e) = cc_maximum_code_bytes c" "cc_last_key (occupied c i e) = cc_last_key c"
  "cc_last_function (occupied c i e) = cc_last_function c"
  by (simp_all add: occupied_def cores_def map_update)

text \<open>An entry that may take a slot: it has no handle, its function is new, its key is new and can be found there.\<close>

definition fits :: "TurboJSCodeCache \<Rightarrow> vault_heap \<Rightarrow> nat \<Rightarrow> TurboJSCodeCacheEntry \<Rightarrow> bool" where
  "fits c V i e \<longleftrightarrow> i < length (cc_entries c) \<and> \<not> live (cc_entries c ! i) \<and> live e \<and> ce_entry_handle e = 0 \<and>
     ce_function e \<noteq> 0 \<and> ce_function e \<notin> owned c \<and> vh_natives V (ce_function e) \<noteq> None \<and>
     ce_dependencies e = ce_dependencies (cc_entries c ! i) \<and> ce_repatch_dependencies e = ce_repatch_dependencies (cc_entries c ! i) \<and>
     (ce_key e = 0 \<or> vault_map c (ce_key e) = None \<and> free_for (cores c) (ce_key e) i) \<and> \<not> over_budget c (ce_code_size e)"

lemma occupied_map:
  assumes "fits c V i e"
  shows "vault_map (occupied c i e) = (if ce_key e = 0 then vault_map c else (vault_map c)(ce_key e \<mapsto> ce_function e))"
proof -
  have "vault_map c (ce_key e) = None" using assms vault_map_None [of c 0] by (auto simp: fits_def)
  then show ?thesis
    using vault_map_add [of i c "occupied c i e" "core e"] assms by (simp add: fits_def cores_nth)
qed

lemma occupied_table:
  assumes "table_inv c" "fits c V i e"
  shows "table_inv (occupied c i e)"
proof -
  have i: "i < length (cores c)" "\<not> live (cores c ! i)" "live (core e)"
    using assms(2) by (simp_all add: fits_def cores_nth)
  have inv: "unique_keys (cores c)" "reachable_keys (cores c)" "\<forall>e\<in>set (cores c). state_ok e"
    using assms(1) by (simp_all add: table_inv_def)
  have key: "ce_key e = 0 \<or> (\<forall>j<length (cores c). live (cores c ! j) \<longrightarrow> ce_key (cores c ! j) \<noteq> ce_key e)"
    using assms(2) unfolding fits_def vault_map_None by blast
  have "unique_keys (cores (occupied c i e))" using unique_keys_add [OF inv(1) i(1,2), of "core e"] key by simp
  moreover have "reachable_keys (cores (occupied c i e))"
    using reachable_update [OF inv(2) i(1), of "core e"] assms(2) by (auto simp: fits_def live_def)
  moreover have "\<forall>x\<in>set (cores (occupied c i e)). state_ok x"
    using states_update [OF inv(3), of "core e" i] i(3) by (simp add: state_ok_def live_def)
  moreover have "cc_count (occupied c i e) = live_count (cores (occupied c i e))"
    "cc_code_bytes (occupied c i e) = live_bytes (cores (occupied c i e))"
    using assms(1) i by (simp_all add: live_count_update live_bytes_update table_inv_def)
  moreover have "cc_count c < cc_maximum_entries c" "cc_code_bytes c + ce_code_size e \<le> cc_maximum_code_bytes c"
    using assms by (auto simp: fits_def over_budget_def size_sub_def table_inv_def)
  moreover have "cc_last_key c \<noteq> 0 \<and> cc_last_function c \<noteq> 0 \<longrightarrow> vault_map (occupied c i e) (cc_last_key c) = Some (cc_last_function c)"
    using assms occupied_map [OF assms(2)] by (auto simp: table_inv_def fits_def)
  ultimately show ?thesis using assms(1) by (simp add: table_inv_def)
qed

lemma owned_add:
  assumes "i < length (cc_entries c)" "\<not> live (cc_entries c ! i)" "live e" "cores c' = (cores c)[i := core e]"
  shows "owned c' = insert (ce_function e) (owned c)" "map ce_function (filter live (cores c')) =
     map ce_function (filter live (take i (cores c))) @ ce_function e # map ce_function (filter live (drop (Suc i) (cores c)))"
proof -
  have i: "i < length (cores c)" "\<not> live (cores c ! i)" using assms(1,2) by (simp_all add: cores_nth)
  show "map ce_function (filter live (cores c')) =
     map ce_function (filter live (take i (cores c))) @ ce_function e # map ce_function (filter live (drop (Suc i) (cores c)))"
    using filter_update [OF i(1), of live "core e"] assms(3,4) by simp
  have "owned c' = set (map ce_function (filter live (cores c')))" "owned c = set (map ce_function (filter live (cores c)))"
    by (simp_all add: owned_def)
  moreover have "filter live (cores c) = filter live (take i (cores c)) @ filter live (drop (Suc i) (cores c))"
    using filter_split [OF i(1), of live] i(2) by simp
  ultimately show "owned c' = insert (ce_function e) (owned c)"
    using filter_update [OF i(1), of live "core e"] assms(3,4) by auto
qed

lemma occupied_natives:
  assumes "natives_inv (cores c) V" "fits c V i e"
  shows "natives_inv (cores (occupied c i e)) V"
proof -
  have i: "i < length (cores c)" "\<not> live (cores c ! i)" "i < length (cc_entries c)" "\<not> live (cc_entries c ! i)" "live e"
    using assms(2) by (simp_all add: fits_def cores_nth)
  have "set (cores (occupied c i e)) \<subseteq> insert (core e) (set (cores c))" by (simp add: set_update_subset_insert)
  moreover have "entry_owned V (core e)" using assms(2) by (simp add: fits_def entry_owned_def)
  ultimately have "\<forall>x\<in>set (cores (occupied c i e)). live x \<longrightarrow> entry_owned V x" using assms(1) by (auto simp: natives_inv_def)
  moreover have "distinct (map ce_function (filter live (cores (occupied c i e))))"
  proof -
    have fresh: "ce_function e \<notin> set (map ce_function (filter live (cores c)))" using assms(2) by (simp add: fits_def owned_def)
    have split: "filter live (cores c) = filter live (take i (cores c)) @ filter live (drop (Suc i) (cores c))"
      using filter_split [OF i(1), of live] i(2) by simp
    show ?thesis
      using assms(1) fresh unfolding owned_add(2) [OF i(3-5) occupied_simps(1)] natives_inv_def split by auto
  qed
  ultimately show ?thesis by (simp add: natives_inv_def)
qed

lemma occupied_inv:
  assumes "vault_inv c V" "fits c V i e"
  shows "vault_inv (occupied c i e) V"
proof -
  have "index_inv (occupied c i e)"
    using assms by (subst index_inv_cong [of _ c])
      (simp_all add: vault_inv_def occupied_def fits_def list_eq_iff_nth_eq nth_list_update)
  then show ?thesis
    using assms occupied_table [of c V i e] occupied_natives [of c V i e] by (simp add: vault_inv_def)
qed

lemma complete_occupied:
  assumes "dependencies_complete c V" "index_step i (occupied c i e) c'" "fits c V i e"
    "\<forall>n. vh_natives V (ce_function e) = Some n \<longrightarrow> set (targets n) \<subseteq> insert 0 (set (ce_dependencies (cc_entries c' ! i)))"
  shows "dependencies_complete c' V"
proof -
  have len: "length (cc_entries c') = length (cc_entries c)" using index_stepD(3) [OF assms(2)] by simp
  have i: "i < length (cc_entries c)" using assms(3) by (simp add: fits_def)
  have fi: "ce_function (cc_entries c' ! i) = ce_function e"
    using index_stepD(2) [OF assms(2)] cores_nth [of i c'] len i by (metis core_simps(2) length_cores nth_list_update_eq occupied_simps(1))
  have same: "cc_entries c' ! j = cc_entries c ! j" if "j \<noteq> i" for j
    using index_stepD(8) [OF assms(2) that] that by (simp add: occupied_def)
  show ?thesis unfolding dependencies_complete_def
  proof (intro allI impI)
    fix j assume "j < length (cc_entries c')" "live (cc_entries c' ! j)"
    then show "case vh_natives V (ce_function (cc_entries c' ! j)) of None \<Rightarrow> True
      | Some n \<Rightarrow> set (targets n) \<subseteq> insert 0 (set (ce_dependencies (cc_entries c' ! j)))"
      using assms(1,4) len fi same [of j] unfolding dependencies_complete_def
      by (cases "j = i") (simp split: option.split, simp cong: option.case_cong)
  qed
qed

lemma frame_clock [simp]: "frame (c\<lparr>cc_clock := k\<rparr>) = frame c" "index_inv (c\<lparr>cc_clock := k\<rparr>) = index_inv c"
  by (simp_all add: frame_def cores_def index_inv_def)

lemma pow2_bound: "pow2_size n \<Longrightarrow> n \<le> 9223372036854775808"
  using power_increasing [of _ 63 "2 :: nat"] by (auto simp: pow2_size_def)

lemma budget_sizes:
  assumes "table_inv c" "\<not> over_budget c code_size"
  shows "size_add (cc_count c) 1 = cc_count c + 1" "size_add (cc_code_bytes c) code_size = cc_code_bytes c + code_size"
proof -
  have b: "cc_count c < cc_maximum_entries c" "2 * cc_maximum_entries c \<le> cc_slot_count c" "pow2_size (cc_slot_count c)"
    "cc_code_bytes c \<le> cc_maximum_code_bytes c" "cc_maximum_code_bytes c < 18446744073709551616"
    "code_size \<le> cc_maximum_code_bytes c - cc_code_bytes c"
    using assms by (auto simp: table_inv_def over_budget_def size_sub_def)
  then show "size_add (cc_count c) 1 = cc_count c + 1" using pow2_bound [OF b(3)] by (simp add: size_add_def)
  show "size_add (cc_code_bytes c) code_size = cc_code_bytes c + code_size" using b(4-6) by (simp add: size_add_def)
qed

lemma occupy_slot_ok:
  assumes inv: "vault_inv c V" and fits: "fits c V i (update e1)"
    and e1: "e1 = (cc_entries c ! i)\<lparr>ce_function := native, ce_code_size := code_size, ce_stamp := cc_clock c + 1, ce_access_count := 1, ce_state := 1\<rparr>"
    and upd: "ce_function (update e1) = native" "ce_code_size (update e1) = code_size"
  shows "\<exists>ok c' V'. occupy_slot A c V i native code_size update = Inr (ok, c', V') \<and> vault_inv c' V' \<and>
    (dependencies_complete c V \<longrightarrow> dependencies_complete c' V') \<and>
    (if ok then V' = V \<and> frame c' = frame (occupied c i (update e1)) else vault_map c' = vault_map c \<and> vh_natives V' native = None) \<and>
    ((\<forall>m. va_dependency A m \<and> va_repatch A m) \<longrightarrow> ok)"
proof -
  let ?e = "update e1"
  let ?o = "occupied c i ?e"
  let ?c1 = "?o\<lparr>cc_clock := cc_clock c + 1\<rparr>"
  have tab: "table_inv c" and i: "i < length (cc_entries c)" using inv fits by (auto simp: vault_inv_def fits_def)
  have oinv: "vault_inv ?o V" by (rule occupied_inv [OF inv fits])
  have "pow2_size (cc_slot_count c)" using tab by (simp add: table_inv_def)
  then have ix: "index_inv ?c1" "pow2_size (cc_slot_count ?c1)" "i < length (cc_entries ?c1)"
    using oinv i by (simp_all add: vault_inv_def)
  have sizes: "size_add (cc_count c) 1 = cc_count c + 1" "size_add (cc_code_bytes c) code_size = cc_code_bytes c + ce_code_size ?e"
    using budget_sizes [OF tab, of code_size] fits upd(2) by (simp_all add: fits_def)
  have ei: "cc_entries ?c1 ! i = ?e" using i by (simp add: occupied_def)
  obtain n where n: "vh_natives V native = Some n" using fits upd(1) by (auto simp: fits_def)
  have f: "ce_function (cc_entries ?c1 ! i) \<noteq> 0" "vh_natives V (ce_function (cc_entries ?c1 ! i)) = Some n"
    using fits n upd(1) ei by (simp_all add: fits_def)
  obtain ok c2 where r: "register_entry_dependencies (va_dependency A) (va_repatch A) ?c1 V i = Inr (ok, c2)" "index_step i ?c1 c2"
    "ok \<longrightarrow> set (targets n) \<subseteq> insert 0 (set (ce_dependencies (cc_entries c2 ! i)))" "(\<forall>m. va_dependency A m \<and> va_repatch A m) \<longrightarrow> ok"
    using register_ok [OF ix f, of "va_dependency A" "va_repatch A"] by (elim exE conjE) (rule that)
  have step: "index_step i ?o (c2\<lparr>cc_clock := cc_clock c\<rparr>)" using r(2) by (simp add: index_step_def occupied_def)
  have fr: "frame c2 = frame ?o" "index_inv c2" using index_inv_step(1,4) [OF r(2) ix] by simp_all
  have c2: "vault_inv c2 V" by (rule vault_inv_frame [OF fr oinv])
  have "c\<lparr>cc_clock := cc_clock c + 1, cc_entries := (cc_entries c)[i := ?e], cc_count := cc_count c + 1,
      cc_code_bytes := cc_code_bytes c + ce_code_size ?e\<rparr> = ?c1" by (simp add: occupied_def)
  then have run: "occupy_slot A c V i native code_size update =
      (if ok then Inr (True, c2, V) else bindc (remove_slot c2 V i False) (\<lambda>v. Inr (False, v)))"
    using i r(1) sizes by (simp add: occupy_slot_def rd_ok e1 Let_def)
  show ?thesis
  proof (cases ok)
    case True
    have "dependencies_complete (c2\<lparr>cc_clock := cc_clock c\<rparr>) V" if "dependencies_complete c V"
      using complete_occupied [OF that step fits] r(3) True n upd(1) by simp
    then have "dependencies_complete c V \<longrightarrow> dependencies_complete c2 V" by simp
    then show ?thesis using run True c2 fr(1) by auto
  next
    case False
    have c2i: "i < length (cc_entries c2)" "core (cc_entries c2 ! i) = core ?e"
      using fr(1) i cores_nth [of i c2] index_stepD(3) [OF r(2)] by (simp_all add: frame_def)
    then have e2: "live (cc_entries c2 ! i)" "ce_key (cc_entries c2 ! i) = ce_key ?e" "ce_function (cc_entries c2 ! i) = native"
      "ce_entry_handle (cc_entries c2 ! i) = 0"
      using fits upd(1) by (metis core_simps(1,2,4,7) fits_def)+
    obtain c3 V3 where rm: "remove_slot c2 V i False = Inr (c3, V3)" "vault_inv c3 V3" "frame c3 = frame (removed c2 i)"
      "vault_map c3 = (vault_map c2)(ce_key ?e := None)" "vh_natives V3 = retired_natives c2 V i"
      "\<forall>j. j \<noteq> i \<longrightarrow> cc_entries c3 ! j = cc_entries c2 ! j"
      using remove_slot_refines [OF c2 c2i(1) e2(1), of False] unfolding e2(2) by (elim exE conjE) (rule that)
    have N: "vh_natives V3 = (vh_natives V)(native := None)"
      using e2(3,4) by (simp add: rm(5) retired_natives_def Let_def current_handle_def)
    have "vault_map c (ce_key ?e) = None" using fits vault_map_None [of c 0] by (auto simp: fits_def)
    then have map: "vault_map c3 = vault_map c"
      using frame_map [OF fr(1)] occupied_map [OF fits] by (auto simp: rm(4) fun_eq_iff)
    have "cores c3 = (cores c2)[i := tombstone]" using rm(3) by (simp add: frame_def)
    then have len: "length (cc_entries c3) = length (cc_entries c)" and dead: "\<not> live (cc_entries c3 ! i)"
      using cores_eqD [of c3 c2 i tombstone] index_stepD(3) [OF r(2)] cores_nth [of i c3] i
      by (simp_all, metis c2i(1) core_simps(7) length_cores nth_list_update_eq tombstone_simps(2))
    have same: "cc_entries c3 ! j = cc_entries c ! j" if "j \<noteq> i" for j
      using rm(6) index_stepD(8) [OF r(2) that] that by (simp add: occupied_def)
    have "dependencies_complete c3 V3" if comp: "dependencies_complete c V"
      unfolding dependencies_complete_def
    proof (intro allI impI)
      fix j assume j: "j < length (cc_entries c3)" "live (cc_entries c3 ! j)"
      then have "j \<noteq> i" using dead by auto
      then show "case vh_natives V3 (ce_function (cc_entries c3 ! j)) of None \<Rightarrow> True
        | Some n \<Rightarrow> set (targets n) \<subseteq> insert 0 (set (ce_dependencies (cc_entries c3 ! j)))"
        using comp j len unfolding dependencies_complete_def same [OF \<open>j \<noteq> i\<close>] N by (auto split: option.splits)
    qed
    then show ?thesis using run False rm(1,2) map N r(4) by auto
  qed
qed

section \<open>Compilation\<close>

lemma compile_native_natives:
  "compile_native E A ir d V = Inr (status, native, d1, V1) \<Longrightarrow> vh_natives V1 = vh_natives V"
  unfolding compile_native_def Let_def bindc_def by (auto split: prod.splits if_splits sum.splits)

text \<open>
  What the cache needs of code generation: it returns, it leaves the handles alone, and the address
  of the new native function is new.
\<close>

definition generates ::
  "vault_env \<Rightarrow> vault_alloc \<Rightarrow> TurboJSIRFunction \<Rightarrow> TurboJSIRDiagnostic ptr \<Rightarrow> vault_heap
     \<Rightarrow> TurboJSIRStatus \<Rightarrow> TurboJSNativeFunction \<Rightarrow> vault_heap \<Rightarrow> bool" where
  "generates E A ir d V status native V1 \<longleftrightarrow> (\<exists>d1. compile_native E A ir d V = Inr (status, native, d1, V1)) \<and>
     heap_handles (vh_jit V1) = heap_handles (vh_jit V) \<and> va_native A \<noteq> 0 \<and> vh_natives V (va_native A) = None"

lemma vault_inv_more:
  assumes "vault_inv c V" "\<And>a. vh_natives V a \<noteq> None \<Longrightarrow> vh_natives W a \<noteq> None"
    "\<And>h. heap_handles (vh_jit V) h \<noteq> None \<Longrightarrow> heap_handles (vh_jit W) h \<noteq> None"
  shows "vault_inv c W"
  using assms unfolding vault_inv_def natives_inv_def entry_owned_def by blast

lemma complete_more:
  assumes "dependencies_complete c V" "\<And>a. a \<in> owned c \<Longrightarrow> vh_natives W a = vh_natives V a"
  shows "dependencies_complete c W"
  using assms(1) assms(2) [OF ownedI] by (simp add: dependencies_complete_def)

lemma not_owned: "vault_inv c V \<Longrightarrow> vh_natives V a = None \<Longrightarrow> a \<notin> owned c"
  by (auto simp: owned_def vault_inv_def natives_inv_def entry_owned_def)

lemma destroy_ok:
  assumes "a \<noteq> 0" "vh_natives V a = Some n"
  shows "\<exists>V'. TurboJS_NativeFunctionDestroy a V = Inr V' \<and> vh_natives V' = (vh_natives V)(a := None) \<and> vh_jit V' = vh_jit V"
  using assms by (simp add: TurboJS_NativeFunctionDestroy_def deref_def)

lemma destroy_unowned:
  assumes "vault_inv c V" "a \<noteq> 0" "vh_natives V a = Some n" "a \<notin> owned c"
  shows "\<exists>V'. TurboJS_NativeFunctionDestroy a V = Inr V' \<and> vault_inv c V' \<and> vh_natives V' = (vh_natives V)(a := None)"
proof -
  obtain V' where V': "TurboJS_NativeFunctionDestroy a V = Inr V'" "vh_natives V' = (vh_natives V)(a := None)" "vh_jit V' = vh_jit V"
    using destroy_ok [OF assms(2,3)] by blast
  have "ce_function e \<noteq> a" if "e \<in> set (cores c)" "live e" for e using assms(4) that by (auto simp: owned_def)
  then have "natives_inv (cores c) V'"
    using assms(1) V' by (simp add: vault_inv_def natives_inv_def entry_owned_def)
  then show ?thesis using assms(1) V' by (simp add: vault_inv_def)
qed

text \<open>The work of a miss once machine code exists.\<close>

definition install ::
  "vault_alloc \<Rightarrow> TurboJSCodeCache \<Rightarrow> addr \<Rightarrow> addr ptr \<Rightarrow> TurboJSIRDiagnostic ptr \<Rightarrow> TurboJSNativeFunction \<Rightarrow> vault_heap
     \<Rightarrow> (TurboJSIRStatus \<times> TurboJSCodeCache ptr \<times> addr ptr \<times> TurboJSIRDiagnostic ptr \<times> vault_heap) c" where
  "install A c key out_function d1 native V2 =
     (let code_size = TurboJS_NativeCodeSize (Some native);
          discard = (\<lambda>status c V. bindc (TurboJS_NativeFunctionDestroy (va_native A) V) (\<lambda>V'.
            Inr (status, Some c, out_function, d1, V')))
      in if cc_maximum_code_bytes c < code_size then discard TURBOJS_IR_UNSUPPORTED c V2
         else bindc (make_room (cc_count c) c V2 code_size) (\<lambda>(c3, V3).
           if over_budget c3 code_size then discard TURBOJS_IR_UNSUPPORTED c3 V3
           else bindc (find_slot c3 key True) (\<lambda>slot1.
             case slot1 of
               None \<Rightarrow> discard TURBOJS_IR_OUT_OF_MEMORY c3 V3
             | Some i \<Rightarrow>
                 bindc (occupy_slot A c3 V3 i (va_native A) code_size
                          (\<lambda>e. e\<lparr>ce_key := key, ce_cache_kind := 0\<rparr>)) (\<lambda>(ok, c4, V4).
                   if \<not> ok then Inr (TURBOJS_IR_OUT_OF_MEMORY, Some c4, out_function, d1, V4)
                   else Inr (TURBOJS_IR_OK,
                     Some (c4\<lparr>cc_stats := (cc_stats c4)\<lparr>ccs_compilations := ccs_compilations (cc_stats c4) + 1\<rparr>,
                       cc_last_key := key, cc_last_function := va_native A\<rparr>),
                     Some (va_native A), d1, V4)))))"

lemma compile_hit:
  assumes "vault_inv c V" "vault_map c key = Some g"
  shows "\<exists>c'. TurboJS_CodeCacheCompile E A (Some c) key (Some ir) (Some out) d V = Inr (TURBOJS_IR_OK, Some c', Some g, d, V) \<and>
    vault_inv c' V \<and> vault_map c' = vault_map c \<and> dependencies_complete c' V = dependencies_complete c V"
proof -
  have key: "key \<noteq> 0" using assms(2) by (rule vault_map_key)
  have tab: "table_inv c" "index_inv c" using assms(1) by (auto simp: vault_inv_def)
  obtain i where i: "i < length (cc_entries c)" "find_slot c key False = Inr (Some i)" "matches (cores c) key i" "ce_function (cores c ! i) = g"
    using find_slot_map [OF tab(1) key, of False] assms(2) by auto
  obtain c' where t: "touch_entry c i = Inr c'" "frame c' = frame c" "index_inv c'"
      "map ce_dependencies (cc_entries c') = map ce_dependencies (cc_entries c)"
    using touch_ok [OF i(1)] tab(2) by auto
  have "TurboJS_CodeCacheCompile E A (Some c) key (Some ir) (Some out) d V = Inr (TURBOJS_IR_OK, Some c', Some g, d, V)"
    using key i t(1) by (simp add: TurboJS_CodeCacheCompile_def rd_ok matches_def cores_nth)
  then show ?thesis using vault_inv_frame [OF t(2,3) assms(1)] frame_map [OF t(2)] complete_frame [OF t(2,4), of V] by simp
qed

lemma compile_miss:
  assumes "vault_inv c V" "key \<noteq> 0" "vault_map c key = None" "compile_native E A ir d V = Inr (status, native, d1, V1)"
  shows "TurboJS_CodeCacheCompile E A (Some c) key (Some ir) (Some out) d V =
    (if status \<noteq> TURBOJS_IR_OK then Inr (status, Some c, Some out, d1, V1)
     else install A c key (Some out) d1 native (V1\<lparr>vh_natives := (vh_natives V1)(va_native A \<mapsto> native)\<rparr>))"
proof -
  have tab: "table_inv c" using assms(1) by (auto simp: vault_inv_def)
  obtain s where s: "find_slot c key False = Inr s" "\<forall>i. s = Some i \<longrightarrow> free_for (cores c) key i"
    using find_slot_map [OF tab assms(2), of False] assms(3) by auto
  have st: "(case s of None \<Rightarrow> Inr False | Some i \<Rightarrow> bindc (rd (cc_entries c) i) (\<lambda>entry. Inr (ce_state entry = 1))) = Inr False"
    using s(2) free_state [of c key] by (auto simp: rd_ok split: option.split)
  show ?thesis
    unfolding TurboJS_CodeCacheCompile_def install_def prod.case option.case s(1) bindc_simps st assms(4) if_False Let_def
    using assms(2) by simp
qed

definition installed :: "vault_alloc \<Rightarrow> TurboJSCodeCache \<Rightarrow> addr \<Rightarrow> addr ptr \<Rightarrow> TurboJSIRStatus \<Rightarrow> TurboJSCodeCache \<Rightarrow> addr ptr \<Rightarrow> vault_heap \<Rightarrow> bool" where
  "installed A c key out status c' out' V' \<longleftrightarrow> vault_inv c' V' \<and>
     (if status = TURBOJS_IR_OK
      then out' = Some (va_native A) \<and> vault_map c' key = Some (va_native A) \<and> (vault_map c')(key := None) \<subseteq>\<^sub>m vault_map c
      else out' = out \<and> vault_map c' \<subseteq>\<^sub>m vault_map c \<and> vh_natives V' (va_native A) = None)"

lemma install_fits:
  assumes inv: "vault_inv c V" and free: "free_for (cores c) key i" "vault_map c key = None" and room: "\<not> over_budget c (nf_code_size n)"
    and nat: "va_native A \<noteq> 0" "vh_natives V (va_native A) = Some n" "va_native A \<notin> owned c"
    and e1: "e1 = (cc_entries c ! i)\<lparr>ce_function := va_native A, ce_code_size := nf_code_size n, ce_stamp := cc_clock c + 1,
      ce_access_count := 1, ce_state := 1\<rparr>"
  shows "fits c V i (e1\<lparr>ce_key := key, ce_cache_kind := 0\<rparr>)"
proof -
  have i: "i < length (cc_entries c)" "\<not> live (cc_entries c ! i)" using free_state [OF free(1)] by (auto simp: live_def)
  moreover have "state_ok (core (cc_entries c ! i))" using inv i(1) by (auto simp: vault_inv_def table_inv_def cores_def)
  ultimately have "ce_entry_handle (cc_entries c ! i) = 0" by (simp add: state_ok_def)
  then show ?thesis using i free room nat by (simp add: fits_def e1 live_def)
qed

lemma install_ok:
  assumes inv: "vault_inv c V" and key: "key \<noteq> 0" "vault_map c key = None"
    and nat: "va_native A \<noteq> 0" "vh_natives V (va_native A) = Some n" "va_native A \<notin> owned c"
  shows "\<exists>status c' out' V'. install A c key out d n V = Inr (status, Some c', out', d, V') \<and> installed A c key out status c' out' V' \<and>
    (dependencies_complete c V \<longrightarrow> dependencies_complete c' V') \<and>
    (nf_code_size n \<le> cc_maximum_code_bytes c \<and> (\<forall>m. va_dependency A m \<and> va_repatch A m) \<longrightarrow> status = TURBOJS_IR_OK)"
proof (cases "nf_code_size n \<le> cc_maximum_code_bytes c")
  case False
  obtain V' where V': "TurboJS_NativeFunctionDestroy (va_native A) V = Inr V'" "vault_inv c V'" "vh_natives V' = (vh_natives V)(va_native A := None)"
    using destroy_unowned [OF inv nat] by auto
  moreover have "dependencies_complete c V \<Longrightarrow> dependencies_complete c V'" by (erule complete_more) (use nat(3) V'(3) in auto)
  ultimately show ?thesis using False by (simp add: install_def installed_def TurboJS_NativeCodeSize_def Let_def)
next
  case True
  obtain c3 V3 where room: "make_room (cc_count c) c V (nf_code_size n) = Inr (c3, V3)" "shrinks c V c3 V3" "\<not> over_budget c3 (nf_code_size n)"
    using make_room_ok [OF inv refl True] by blast
  have inv3: "vault_inv c3 V3" and map3: "vault_map c3 \<subseteq>\<^sub>m vault_map c" and nat3: "vh_natives V3 (va_native A) = Some n" "va_native A \<notin> owned c3"
    using room(2) nat by (auto simp: shrinks_def)
  have none3: "vault_map c3 key = None" using map3 key(2) by (metis domIff map_le_def)
  have tab3: "table_inv c3" using inv3 by (simp add: vault_inv_def)
  obtain i where i: "find_slot c3 key True = Inr (Some i)" "free_for (cores c3) key i"
    using find_slot_map [OF tab3 key(1), of True] none3 by auto
  let ?up = "\<lambda>e. e\<lparr>ce_key := key, ce_cache_kind := 0\<rparr>"
  let ?e1 = "(cc_entries c3 ! i)\<lparr>ce_function := va_native A, ce_code_size := nf_code_size n, ce_stamp := cc_clock c3 + 1, ce_access_count := 1, ce_state := 1\<rparr>"
  have fits: "fits c3 V3 i (?up ?e1)" by (rule install_fits [OF inv3 i(2) none3 room(3) nat(1) nat3 refl])
  obtain ok c4 V4 where o: "occupy_slot A c3 V3 i (va_native A) (nf_code_size n) ?up = Inr (ok, c4, V4)" "vault_inv c4 V4"
    "if ok then V4 = V3 \<and> frame c4 = frame (occupied c3 i (?up ?e1)) else vault_map c4 = vault_map c3 \<and> vh_natives V4 (va_native A) = None"
    "(\<forall>m. va_dependency A m \<and> va_repatch A m) \<longrightarrow> ok" "dependencies_complete c3 V3 \<longrightarrow> dependencies_complete c4 V4"
    using occupy_slot_ok [where c = c3 and V = V3 and i = i and update = ?up and A = A and native = "va_native A" and code_size = "nf_code_size n"] inv3 fits by simp blast
  define c5 where "c5 = c4\<lparr>cc_stats := (cc_stats c4)\<lparr>ccs_compilations := ccs_compilations (cc_stats c4) + 1\<rparr>,
     cc_last_key := key, cc_last_function := va_native A\<rparr>"
  have run: "install A c key out d n V =
      (if \<not> ok then Inr (TURBOJS_IR_OUT_OF_MEMORY, Some c4, out, d, V4) else Inr (TURBOJS_IR_OK, Some c5, Some (va_native A), d, V4))"
    using True room(1,3) i(1) o(1) by (simp add: install_def TurboJS_NativeCodeSize_def Let_def c5_def)
  have comp: "dependencies_complete c V \<longrightarrow> dependencies_complete c4 V4 \<and> dependencies_complete c5 V4"
    using room(2) o(5) by (auto simp: shrinks_def c5_def)
  show ?thesis
  proof (cases ok)
    case True
    have map4: "vault_map c4 = (vault_map c3)(key \<mapsto> va_native A)"
      using o(3) True frame_map [of c4 "occupied c3 i (?up ?e1)"] occupied_map [OF fits] key(1) by simp
    then have "vault_map c4 key = Some (va_native A)" by simp
    note last = last_lookup_inv [of "c4\<lparr>cc_stats := (cc_stats c4)\<lparr>ccs_compilations := ccs_compilations (cc_stats c4) + 1\<rparr>\<rparr>" V4 key "va_native A"]
    have "vault_inv c5 V4" "vault_map c5 = vault_map c4" using last o(2) map4 by (simp_all add: c5_def)
    moreover have "(vault_map c4)(key := None) \<subseteq>\<^sub>m vault_map c" using map3 none3 by (auto simp: map4 map_le_def dom_def)
    ultimately show ?thesis using run True map4 comp by (simp add: installed_def)
  next
    case False
    then show ?thesis using run o map3 comp by (simp add: installed_def)
  qed
qed


section \<open>Creation and clearing\<close>

lemma grow_pow2_ok:
  assumes "s \<le> 9223372036854775807" "k \<le> 63" "64 \<le> n + k"
  shows "\<exists>j. k \<le> j \<and> j \<le> 63 \<and> grow_pow2 n (2 ^ k) s = 2 ^ j \<and> s \<le> 2 ^ j"
  using assms(2,3)
proof (induction n arbitrary: k)
  case 0
  then show ?case by simp
next
  case (Suc n)
  show ?case
  proof (cases "2 ^ k < s")
    case True
    have k: "k < 63"
    proof (rule ccontr)
      assume "\<not> k < 63"
      then have "k = 63" using Suc.prems(1) by simp
      then show False using True assms(1) by simp
    qed
    have "\<not> SIZE_MAX div 2 < 2 ^ k" using True assms(1) by simp
    then have "grow_pow2 (Suc n) (2 ^ k) s = grow_pow2 n (2 ^ Suc k) s" using True by (simp add: mult.commute)
    moreover obtain j where "Suc k \<le> j" "j \<le> 63" "grow_pow2 n (2 ^ Suc k) s = 2 ^ j" "s \<le> 2 ^ j"
      using Suc.IH [of "Suc k"] k Suc.prems(2) by auto
    ultimately show ?thesis by (metis Suc_leD)
  next
    case False
    then show ?thesis using Suc.prems(1) by (intro exI [of _ k]) simp
  qed
qed

lemma next_pow2_ok:
  assumes "s \<le> 9223372036854775807"
  shows "pow2_size (next_pow2 s)" "s \<le> next_pow2 s"
proof -
  have "\<not> SIZE_MAX div 2 < s" using assms by simp
  then have "next_pow2 s = grow_pow2 62 (2 ^ 3) s" by (simp add: next_pow2_def)
  then show "pow2_size (next_pow2 s)" "s \<le> next_pow2 s"
    using grow_pow2_ok [OF assms, of 3 62] by (auto simp: pow2_size_def)
qed

text \<open>A cache without entries.\<close>

definition blank_cache :: "TurboJSCodeCache \<Rightarrow> bool" where
  "blank_cache c \<longleftrightarrow> cc_entries c = replicate (cc_slot_count c) null_entry \<and> cc_count c = 0 \<and> cc_code_bytes c = 0 \<and>
     cc_last_key c = 0 \<and> cc_last_function c = 0 \<and>
     cc_dependency_buckets c = replicate (cc_slot_count c) [] \<and> cc_dependency_bucket_count c = cc_slot_count c \<and>
     cc_repatch_buckets c = replicate (cc_slot_count c) [] \<and> cc_repatch_bucket_count c = cc_slot_count c \<and>
     pow2_size (cc_slot_count c) \<and> 0 < cc_maximum_entries c \<and> 2 * cc_maximum_entries c \<le> cc_slot_count c \<and>
     cc_maximum_code_bytes c < 2 ^ 64"

lemma null_entry_simps [simp]: "core null_entry = null_entry" "\<not> live null_entry" "state_ok null_entry"
  "ce_dependencies null_entry = []" "ce_repatch_dependencies null_entry = []"
  by (simp_all add: null_entry_def core_def live_def state_ok_def)

lemma indexes_empty: "indexes h n (replicate n []) (replicate n [])"
  by (auto simp: indexes_def)

lemma blank_inv:
  assumes "blank_cache c"
  shows "vault_inv c V" "vault_map c = Map.empty" "dependencies_complete c V"
proof -
  have es: "cores c = replicate (cc_slot_count c) null_entry" using assms by (simp add: blank_cache_def cores_def)
  have "index_inv c" using assms by (simp add: index_inv_def blank_cache_def indexes_empty)
  moreover show "vault_map c = Map.empty" by (simp add: vault_map_def es)
  moreover have "table_inv c"
    using assms by (simp add: table_inv_def es unique_keys_def reachable_keys_def live_count_def live_bytes_def blank_cache_def sum_list_replicate)
  moreover have "natives_inv (cores c) V" by (simp add: natives_inv_def es)
  ultimately show "vault_inv c V" by (simp add: vault_inv_def)
  show "dependencies_complete c V" using assms by (simp add: dependencies_complete_def blank_cache_def)
qed

lemma create_blank:
  assumes "maximum_entries < SIZE_MAX div 2" "maximum_code_bytes \<le> SIZE_MAX" "TurboJS_CodeCacheCreate calloc_ok maximum_entries maximum_code_bytes = Some c"
  shows "blank_cache c"
proof -
  define entries where "entries = (if maximum_entries = 0 then 64 else maximum_entries)"
  have e: "0 < entries" "entries < SIZE_MAX div 2" using assms(1) by (auto simp: entries_def)
  have c: "next_pow2 (entries * 2) \<noteq> 0" "c = \<lparr>cc_entries = replicate (next_pow2 (entries * 2)) null_entry, cc_slot_count = next_pow2 (entries * 2), cc_count = 0,
      cc_maximum_entries = entries, cc_maximum_code_bytes = (if maximum_code_bytes = 0 then 4194304 else maximum_code_bytes), cc_code_bytes = 0, cc_clock = 0,
      cc_last_key = 0, cc_last_function = 0, cc_stats = null_stats,
      cc_dependency_buckets = replicate (next_pow2 (entries * 2)) [], cc_dependency_bucket_count = next_pow2 (entries * 2),
      cc_repatch_buckets = replicate (next_pow2 (entries * 2)) [], cc_repatch_bucket_count = next_pow2 (entries * 2)\<rparr>"
    using assms(3) e(2) unfolding TurboJS_CodeCacheCreate_def entries_def [symmetric] Let_def by (auto split: if_splits)
  have "entries * 2 \<le> 9223372036854775807"
  proof (rule ccontr)
    assume "\<not> entries * 2 \<le> 9223372036854775807"
    then have "next_pow2 (entries * 2) = 0" by (simp add: next_pow2_def)
    then show False using c(1) by simp
  qed
  from next_pow2_ok [OF this] show ?thesis using e(1) assms(2) by (auto simp: c(2) blank_cache_def)
qed

section \<open>Properties\<close>

lemma invalidate_refines:
  assumes inv: "vault_inv c V" "dependencies_complete c V"
  shows "\<exists>c' V'. TurboJS_CodeCacheInvalidate (Some c) key V = Inr (Some c', V') \<and> vault_inv c' V' \<and> dependencies_complete c' V' \<and>
    vault_map c' = (vault_map c)(key := None) \<and>
    (\<forall>i<length (cc_entries c). matches (cores c) key i \<and> key \<noteq> 0 \<and> current_handle (cc_entries c ! i) V \<longrightarrow>
       uncalled (ce_entry_handle (cc_entries c ! i)) c' V' \<and>
       heap_handles (vh_jit V') (ce_entry_handle (cc_entries c ! i)) =
         map_option invalidate_handle (heap_handles (vh_jit V) (ce_entry_handle (cc_entries c ! i))))"
  using invalidate_ok [OF inv(1), of key]
proof (elim disjE exE conjE)
  fix i assume i: "i < length (cc_entries c)" "matches (cores c) key i" "key \<noteq> 0" and
    run: "TurboJS_CodeCacheInvalidate (Some c) key V = bindc (remove_slot c V i False) (\<lambda>(c1, V1). Inr (Some c1, V1))"
  have e: "live (cc_entries c ! i)" "ce_key (cc_entries c ! i) = key" using i(1,2) by (simp_all add: matches_def live_def cores_nth)
  obtain c' V' where r: "remove_slot c V i False = Inr (c', V')" "vault_inv c' V'" "vault_map c' = (vault_map c)(key := None)"
    "heap_handles (vh_jit V') = retired_handles (cc_entries c ! i) V"
    using remove_slot_refines [OF inv(1) i(1) e(1), of False] e(2) by auto
  have u: "unique_keys (cores c)" using inv(1) by (simp add: vault_inv_def table_inv_def)
  have only: "j = i" if "j < length (cc_entries c)" "matches (cores c) key j" for j
    using unique_keysD [OF u, of j i] that i by (simp add: matches_def live_def)
  show ?thesis
    using run r remove_slot_uncalled [OF inv i(1) e(1) r(1)] only
    by (auto simp: retired_handles_def TurboJS_NativeEntryHandleInvalidate_def)
next
  assume none: "vault_map c key = None" and run: "TurboJS_CodeCacheInvalidate (Some c) key V = Inr (Some c, V)"
  have "\<not> (matches (cores c) key i \<and> key \<noteq> 0)" if "i < length (cc_entries c)" for i
    using none that by (auto simp: vault_map_None matches_def live_def)
  then show ?thesis using inv none run by (auto simp: fun_upd_idem)
qed

text \<open>
  C28. A lookup returns what the map of the table has for the key, the null address when it has
  nothing, on the fast path of the last hit as well; it changes neither the map nor the invariant.
\<close>

theorem code_cache_lookup_exact:
  assumes "vault_inv c V"
  shows "\<exists>c'. TurboJS_CodeCacheLookup (Some c) key = Inr (case vault_map c key of None \<Rightarrow> 0 | Some f \<Rightarrow> f, Some c') \<and>
    vault_inv c' V \<and> vault_map c' = vault_map c"
  using lookup_hit [OF assms, of key] lookup_miss [OF assms, of key] by (cases "vault_map c key") auto


lemma generated_inv:
  assumes "vault_inv c V" "generates E A ir d V status native V1"
  shows "vault_inv c V1" "vh_natives V1 = vh_natives V" "va_native A \<notin> owned c"
    "vault_inv c (V1\<lparr>vh_natives := (vh_natives V1)(va_native A \<mapsto> native)\<rparr>)"
    "dependencies_complete c V \<Longrightarrow> dependencies_complete c (V1\<lparr>vh_natives := (vh_natives V1)(va_native A \<mapsto> native)\<rparr>)"
    "dependencies_complete c V \<Longrightarrow> dependencies_complete c V1"
proof -
  have g: "heap_handles (vh_jit V1) = heap_handles (vh_jit V)" "vh_natives V (va_native A) = None"
    using assms(2) by (simp_all add: generates_def)
  show n: "vh_natives V1 = vh_natives V" using assms(2) compile_native_natives by (auto simp: generates_def)
  show "va_native A \<notin> owned c" by (rule not_owned [OF assms(1) g(2)])
  then show "dependencies_complete c V \<Longrightarrow> dependencies_complete c (V1\<lparr>vh_natives := (vh_natives V1)(va_native A \<mapsto> native)\<rparr>)"
    by (elim complete_more) (auto simp: n)
  show "dependencies_complete c V \<Longrightarrow> dependencies_complete c V1" by (erule complete_more) (simp add: n)
  show "vault_inv c V1" "vault_inv c (V1\<lparr>vh_natives := (vh_natives V1)(va_native A \<mapsto> native)\<rparr>)"
    by (rule vault_inv_more [OF assms(1)]; auto simp: n g(1))+
qed

lemma compile_refines:
  assumes inv: "vault_inv c V" "key \<noteq> 0" and gen: "generates E A ir d V status native V1"
  shows "\<exists>st c' out' d' V'. TurboJS_CodeCacheCompile E A (Some c) key (Some ir) (Some out) d V = Inr (st, Some c', out', d', V') \<and>
    (dependencies_complete c V \<longrightarrow> dependencies_complete c' V') \<and>
    (case vault_map c key of
       Some g \<Rightarrow> st = TURBOJS_IR_OK \<and> out' = Some g \<and> vault_inv c' V' \<and> vault_map c' = vault_map c
     | None \<Rightarrow> installed A c key (Some out) st c' out' V' \<and>
         (status = TURBOJS_IR_OK \<and> nf_code_size native \<le> cc_maximum_code_bytes c \<and> (\<forall>m. va_dependency A m \<and> va_repatch A m)
            \<longrightarrow> st = TURBOJS_IR_OK))"
proof (cases "vault_map c key")
  case (Some g)
  then show ?thesis using compile_hit [OF inv(1) Some, of E A ir out d] by auto
next
  case None
  note g = generated_inv [OF inv(1) gen]
  obtain d1 where run: "compile_native E A ir d V = Inr (status, native, d1, V1)" using gen by (auto simp: generates_def)
  have nat: "va_native A \<noteq> 0" "vh_natives V (va_native A) = None" using gen by (simp_all add: generates_def)
  let ?V2 = "V1\<lparr>vh_natives := (vh_natives V1)(va_native A \<mapsto> native)\<rparr>"
  show ?thesis
  proof (cases "status = TURBOJS_IR_OK")
    case True
    have V2: "vh_natives ?V2 (va_native A) = Some native" by simp
    obtain st c' out' V' where "install A c key (Some out) d1 native ?V2 = Inr (st, Some c', out', d1, V')"
      "installed A c key (Some out) st c' out' V'" "dependencies_complete c ?V2 \<longrightarrow> dependencies_complete c' V'"
      "nf_code_size native \<le> cc_maximum_code_bytes c \<and> (\<forall>m. va_dependency A m \<and> va_repatch A m) \<longrightarrow> st = TURBOJS_IR_OK"
      using install_ok [OF g(4) inv(2) None nat(1) V2 g(3), of "Some out" d1] by (elim exE conjE) (rule that)
    then show ?thesis using compile_miss [OF inv None run, of out] True None g(5) by auto
  next
    case False
    then show ?thesis using compile_miss [OF inv None run, of out] None g(1,2,6) nat(2) by (auto simp: installed_def)
  qed
qed


text \<open>
  C7. Compiling a key that the cache has returns its function and leaves the map alone. Otherwise,
  when the status is \<^verbatim>\<open>TURBOJS_IR_OK\<close>, the key maps to the new function and every other key either
  kept its function or was evicted; on any other status the new function is destroyed and the map only
  lost evicted keys. The invariant, budget included, is kept and nothing faults.
\<close>

theorem code_cache_compile_refines:
  assumes "vault_inv c V" "key \<noteq> 0" "generates E A ir d V status native V1"
  shows "\<exists>st c' out' d' V'. TurboJS_CodeCacheCompile E A (Some c) key (Some ir) (Some out) d V = Inr (st, Some c', out', d', V') \<and>
    (case vault_map c key of
       Some g \<Rightarrow> st = TURBOJS_IR_OK \<and> out' = Some g \<and> vault_inv c' V' \<and> vault_map c' = vault_map c
     | None \<Rightarrow> installed A c key (Some out) st c' out' V')"
  using compile_refines [OF assms, of out] by (cases "vault_map c key") auto

text \<open>
  C30. A compilation is never refused for lack of room: when code generation succeeds, the code is no
  larger than the whole budget and the index nodes can be allocated, evictions make room and the
  function is stored.
\<close>

theorem code_cache_always_makes_room:
  assumes "vault_inv c V" "key \<noteq> 0" "generates E A ir d V TURBOJS_IR_OK native V1"
    "nf_code_size native \<le> cc_maximum_code_bytes c" "\<forall>m. va_dependency A m \<and> va_repatch A m"
  shows "\<exists>c' f d' V'. TurboJS_CodeCacheCompile E A (Some c) key (Some ir) (Some out) d V = Inr (TURBOJS_IR_OK, Some c', Some f, d', V') \<and>
    vault_map c' key = Some f \<and> vault_inv c' V'"
  using compile_refines [OF assms(1-3), of out] assms(4,5) by (cases "vault_map c key") (auto simp: installed_def)

text \<open>
  The victim of an eviction is a live entry with the greatest score, the oldest among those of
  equal score; there is none only when the table has no live entry.
\<close>

lemma eviction_selects_worst:
  assumes "length (cc_entries c) = cc_slot_count c"
  shows "\<exists>r. scan_victim (cc_slot_count c) 0 c None 0 (- 1) = Inr r \<and>
    (case r of
       None \<Rightarrow> \<forall>j<cc_slot_count c. ce_state (cc_entries c ! j) \<noteq> 1
     | Some v \<Rightarrow> v < cc_slot_count c \<and> ce_state (cc_entries c ! v) = 1 \<and>
         (\<forall>j<cc_slot_count c. ce_state (cc_entries c ! j) = 1 \<longrightarrow>
            eviction_score c (cc_entries c ! j) < eviction_score c (cc_entries c ! v) \<or>
            eviction_score c (cc_entries c ! j) = eviction_score c (cc_entries c ! v) \<and>
              ce_stamp (cc_entries c ! v) \<le> ce_stamp (cc_entries c ! j)))"
proof -
  obtain r where r: "scan_victim (cc_slot_count c) 0 c None 0 (- 1) = Inr r"
    "\<forall>v. r = Some v \<longrightarrow> v < length (cc_entries c) \<and> live (cc_entries c ! v)"
    "\<forall>j<length (cc_entries c). live (cc_entries c ! j) \<longrightarrow> (\<exists>v. r = Some v \<and> worse c v j)"
    using victim_ok [OF assms] by (elim exE conjE) (rule that)
  then show ?thesis using assms by (cases r) (simp_all add: live_def worse_def Let_def)
qed

text \<open>The states of a cache under creation, lookups, compilations and invalidations.\<close>

inductive vault_reach :: "vault_env \<Rightarrow> TurboJSCodeCache \<Rightarrow> vault_heap \<Rightarrow> bool" for E where
  Created: "TurboJS_CodeCacheCreate calloc_ok maximum_entries maximum_code_bytes = Some c \<Longrightarrow>
    maximum_entries < SIZE_MAX div 2 \<Longrightarrow> maximum_code_bytes \<le> SIZE_MAX \<Longrightarrow> vault_reach E c V"
| Looked_up: "vault_reach E c V \<Longrightarrow> TurboJS_CodeCacheLookup (Some c) key = Inr (f, Some c') \<Longrightarrow> vault_reach E c' V"
| Compiled: "vault_reach E c V \<Longrightarrow> generates E A ir d V status native V1 \<Longrightarrow>
    TurboJS_CodeCacheCompile E A (Some c) key (Some ir) (Some out) d V = Inr (st, Some c', out', d', V') \<Longrightarrow> vault_reach E c' V'"
| Invalidated: "vault_reach E c V \<Longrightarrow> TurboJS_CodeCacheInvalidate (Some c) key V = Inr (Some c', V') \<Longrightarrow> vault_reach E c' V'"

lemma vault_reach_inv: "vault_reach E c V \<Longrightarrow> vault_inv c V \<and> dependencies_complete c V"
proof (induction rule: vault_reach.induct)
  case (Created calloc_ok maximum_entries maximum_code_bytes c V)
  then show ?case using create_blank blank_inv by blast
next
  case (Looked_up c V key f c')
  then show ?case using lookup_hit [of c V key] lookup_miss [of c V key] by (cases "vault_map c key") auto
next
  case (Compiled c V A ir d status native V1 key out st c' out' d' V')
  show ?case
  proof (cases "key = 0")
    case True
    then show ?thesis using Compiled by (simp add: TurboJS_CodeCacheCompile_def)
  next
    case False
    then show ?thesis using compile_refines [of c V key E A ir d status native V1 out] Compiled
      by (cases "vault_map c key") (auto simp: installed_def)
  qed
next
  case (Invalidated c V key c' V')
  then show ?case using invalidate_refines [of c V key] by auto
qed

lemma live_count_filter: "live_count es = length (filter live es)"
  by (induction es) (simp_all add: live_count_def)

lemma live_bytes_filter: "live_bytes es = sum_list (map ce_code_size (filter live es))"
  by (induction es) (simp_all add: live_bytes_def)

lemma cores_filter:
  "length (filter live (cores c)) = length (filter (\<lambda>e. ce_state e = 1) (cc_entries c))"
  "map ce_code_size (filter live (cores c)) = map ce_code_size (filter (\<lambda>e. ce_state e = 1) (cc_entries c))"
  "map ce_function (filter live (cores c)) = map ce_function (filter (\<lambda>e. ce_state e = 1) (cc_entries c))"
proof -
  have "filter live (cores c) = map core (filter (\<lambda>e. ce_state e = 1) (cc_entries c))"
    by (simp add: cores_def filter_map comp_def live_def)
  then show "length (filter live (cores c)) = length (filter (\<lambda>e. ce_state e = 1) (cc_entries c))"
    "map ce_code_size (filter live (cores c)) = map ce_code_size (filter (\<lambda>e. ce_state e = 1) (cc_entries c))"
    "map ce_function (filter live (cores c)) = map ce_function (filter (\<lambda>e. ce_state e = 1) (cc_entries c))"
    by (simp_all add: comp_def)
qed


subsection \<open>Witnesses\<close>

text \<open>A compiler that turns every function into 48 bytes of code without calls, and a cache that holds one function.\<close>

definition example_native :: TurboJSNativeFunction where
  "example_native = \<lparr>nf_code_size = 48, nf_argument_count = 1, nf_result_kind = TURBOJS_VALUE_I32, nf_owned_clutch_sites = []\<rparr>"

definition example_vault_env :: vault_env where
  "example_vault_env = \<lparr>ve_jit = example_env, ve_baseline = \<lambda>_ _ d log. (TURBOJS_IR_OK, example_native, d, log)\<rparr>"

definition example_alloc :: vault_alloc where
  "example_alloc = \<lparr>va_emit = \<lambda>_. True, va_site = \<lambda>_. True, va_fresh_site = \<lambda>_. 0, va_next_id = 1, va_native = 512,
     va_dependency = \<lambda>_. True, va_repatch = \<lambda>_. True\<rparr>"

definition example_vault_heap :: vault_heap where
  "example_vault_heap = \<lparr>vh_jit = empty_heap,
     vh_natives = Map.empty, vh_log = []\<rparr>"

definition example_cache :: TurboJSCodeCache where
  "example_cache = the (TurboJS_CodeCacheCreate True 2 64)"

lemma example_slots: "next_pow2 4 = 8"
proof -
  have "grow_pow2 (Suc 61) 8 4 = 8" unfolding grow_pow2.simps by simp
  then show ?thesis by (simp add: next_pow2_def)
qed

lemma example_create: "TurboJS_CodeCacheCreate True 2 64 = Some example_cache"
  by (simp add: example_cache_def TurboJS_CodeCacheCreate_def Let_def example_slots)

lemma example_maximum: "cc_maximum_code_bytes example_cache = 64"
  by (simp add: example_cache_def TurboJS_CodeCacheCreate_def Let_def example_slots)

lemma example_generates:
  "generates example_vault_env example_alloc null_function None example_vault_heap TURBOJS_IR_OK example_native example_vault_heap"
  by (simp add: generates_def compile_native_def example_vault_env_def example_alloc_def example_vault_heap_def)

lemma example_inv: "vault_inv example_cache example_vault_heap" "dependencies_complete example_cache example_vault_heap"
  "vault_map example_cache = Map.empty"
  using blank_inv [OF create_blank [OF _ _ example_create]] by simp_all

lemma example_populated: "\<exists>c V. vault_inv c V \<and> dependencies_complete c V \<and> vault_map c 4096 = Some 512"
  using compile_refines [OF example_inv(1) _ example_generates, of 4096 0] example_inv(2,3) example_maximum
  by (auto simp: installed_def example_native_def example_alloc_def)

theorem code_cache_lookup_exact_witness: "\<exists>c V c'. vault_inv c V \<and> TurboJS_CodeCacheLookup (Some c) 4096 = Inr (512, Some c')"
proof -
  obtain c V where c: "vault_inv c V" "vault_map c 4096 = Some 512" using example_populated by blast
  then show ?thesis using code_cache_lookup_exact [OF c(1), of 4096] by auto
qed


theorem code_cache_compile_refines_witness:
  "\<exists>st c' out' d' V'. TurboJS_CodeCacheCompile example_vault_env example_alloc (Some example_cache) 4096 (Some null_function) (Some 0) None
     example_vault_heap = Inr (st, Some c', out', d', V') \<and> installed example_alloc example_cache 4096 (Some 0) st c' out' V'"
  using code_cache_compile_refines [OF example_inv(1) _ example_generates, of 4096 0] example_inv(3) by simp

theorem code_cache_always_makes_room_witness:
  "\<exists>c' f d' V'. TurboJS_CodeCacheCompile example_vault_env example_alloc (Some example_cache) 4096 (Some null_function) (Some 0) None
     example_vault_heap = Inr (TURBOJS_IR_OK, Some c', Some f, d', V') \<and> vault_map c' 4096 = Some f"
  using code_cache_always_makes_room [OF example_inv(1) _ example_generates, of 4096 0] example_maximum
  by (auto simp: example_native_def example_alloc_def)


end
