(* ===== verification/Tiered.thy ===== *)
theory Tiered
  imports Feedback IR_Interp Vault_Ops
begin

text \<open>
  Tiered execution, \<^verbatim>\<open>src/jit/runtime/tiered_execution.c\<close>: a call goes to the optimized function, to
  baseline code in the code cache or to the interpreter, and the function moves up the tiers as its
  counters and feedback allow.

  The optimizing compiler and the two kinds of generated code are parameters: what they return for the
  arguments. The destruction of optimized functions is recorded in a log.
\<close>

section \<open>Data\<close>

datatype TurboJSTieredResult =
    TURBOJS_TIERED_INTERPRETED | TURBOJS_TIERED_BASELINE_COMPILED | TURBOJS_TIERED_BASELINE_NATIVE
  | TURBOJS_TIERED_OPTIMIZED_COMPILED | TURBOJS_TIERED_OPTIMIZED_NATIVE

record TurboJSTieredStats =
  ts_interpreted_calls :: u64
  ts_baseline_calls :: u64
  ts_optimized_calls :: u64
  ts_baseline_compilations :: u64
  ts_optimized_compilations :: u64
  ts_optimized_invalidations :: u64

record TurboJSTieredFunction =
  tf_cache_key :: addr
  tf_call_count :: u32
  tf_compile_threshold :: u32
  tf_optimization_threshold :: u32
  tf_compilation_attempted :: bool
  tf_optimization_attempted :: bool
  tf_feedback :: TurboJSFeedbackVector
  tf_optimization_policy :: TurboJSOptimizationPolicy
  tf_optimized :: addr
  tf_stats :: TurboJSTieredStats

record tiered_env =
  te_vault :: vault_env
  te_optimizing_compile :: "TurboJSIRFunction \<Rightarrow> TurboJSFeedbackVector \<Rightarrow> TurboJSIRDiagnostic ptr
     \<Rightarrow> TurboJSIRStatus \<times> addr \<times> TurboJSIRDiagnostic ptr"
  te_optimized_invoke :: "addr \<Rightarrow> i64 list ptr \<Rightarrow> nat \<Rightarrow> i64 \<Rightarrow> TurboJSIRStatus \<times> i64"

definition null_tiered_stats :: TurboJSTieredStats where
  "null_tiered_stats = \<lparr>ts_interpreted_calls = 0, ts_baseline_calls = 0, ts_optimized_calls = 0,
     ts_baseline_compilations = 0, ts_optimized_compilations = 0, ts_optimized_invalidations = 0\<rparr>"

definition null_feedback :: TurboJSFeedbackVector where
  "null_feedback = \<lparr>fv_arguments = replicate TURBOJS_FEEDBACK_MAX_ARGUMENTS null_slot, fv_result = null_slot,
     fv_argument_count = 0, fv_execution_count = 0, fv_bailout_count = 0, fv_exception_count = 0\<rparr>"

definition null_tiered :: TurboJSTieredFunction where
  "null_tiered = \<lparr>tf_cache_key = 0, tf_call_count = 0, tf_compile_threshold = 0, tf_optimization_threshold = 0,
     tf_compilation_attempted = False, tf_optimization_attempted = False, tf_feedback = null_feedback,
     tf_optimization_policy = \<lparr>op_minimum_executions = 0, op_maximum_bailouts = 0, op_maximum_exceptions = 0,
       op_require_stable_arguments = False, op_require_stable_result = False\<rparr>,
     tf_optimized = 0, tf_stats = null_tiered_stats\<rparr>"

section \<open>Operations\<close>

definition default_opt_threshold :: "u32 \<Rightarrow> u32" where
  "default_opt_threshold baseline =
     (let threshold = (if UINT32_MAX div 4 < unat baseline then word_of_nat UINT32_MAX
                       else if baseline \<noteq> 0 then baseline * 4 else 1000)
      in if threshold < 1000 then 1000 else threshold)"

definition vector_init :: "TurboJSFeedbackVector \<Rightarrow> u16 \<Rightarrow> TurboJSFeedbackVector" where
  "vector_init v n = the (TurboJS_FeedbackVectorInit (Some v) n)"

definition TurboJS_TieredFunctionInitAdvanced ::
  "TurboJSTieredFunction ptr \<Rightarrow> addr \<Rightarrow> u32 \<Rightarrow> u32 \<Rightarrow> TurboJSOptimizationPolicy ptr \<Rightarrow> TurboJSTieredFunction ptr" where
  "TurboJS_TieredFunctionInitAdvanced function cache_key baseline_threshold optimization_threshold policy =
     (case function of
        None \<Rightarrow> None
      | Some _ \<Rightarrow>
          (let compile = (if baseline_threshold \<noteq> 0 then baseline_threshold else 100);
               opt = (if optimization_threshold \<noteq> 0 then optimization_threshold else default_opt_threshold compile);
               p = (case policy of None \<Rightarrow> TurboJS_OptimizationPolicyDefault | Some q \<Rightarrow> q)
           in Some (null_tiered\<lparr>tf_cache_key := cache_key, tf_compile_threshold := compile, tf_optimization_threshold := opt,
                tf_optimization_policy := p\<lparr>op_minimum_executions := opt\<rparr>,
                tf_feedback := vector_init (tf_feedback null_tiered) 0\<rparr>)))"

definition TurboJS_TieredFunctionInit :: "TurboJSTieredFunction ptr \<Rightarrow> addr \<Rightarrow> u32 \<Rightarrow> TurboJSTieredFunction ptr" where
  "TurboJS_TieredFunctionInit function cache_key compile_threshold =
     TurboJS_TieredFunctionInitAdvanced function cache_key compile_threshold 0 None"

text \<open>The log holds the optimized functions destroyed so far.\<close>

definition TurboJS_TieredFunctionInvalidateOptimized ::
  "TurboJSTieredFunction ptr \<Rightarrow> addr list \<Rightarrow> TurboJSTieredFunction ptr \<times> addr list" where
  "TurboJS_TieredFunctionInvalidateOptimized function destroyed =
     (case function of
        None \<Rightarrow> (None, destroyed)
      | Some f \<Rightarrow>
          if tf_optimized f = 0 then (function, destroyed)
          else (Some (f\<lparr>tf_optimized := 0, tf_stats := (tf_stats f)\<lparr>ts_optimized_invalidations :=
                        ts_optimized_invalidations (tf_stats f) + 1\<rparr>\<rparr>), tf_optimized f # destroyed))"

definition TurboJS_TieredFunctionDestroy ::
  "TurboJSTieredFunction ptr \<Rightarrow> addr list \<Rightarrow> TurboJSTieredFunction ptr \<times> addr list" where
  "TurboJS_TieredFunctionDestroy function destroyed =
     (case TurboJS_TieredFunctionInvalidateOptimized function destroyed of
        (None, d) \<Rightarrow> (None, d)
      | (Some _, d) \<Rightarrow> (Some null_tiered, d))"

definition TurboJS_TieredFunctionGetStats :: "TurboJSTieredFunction ptr \<Rightarrow> TurboJSTieredStats" where
  "TurboJS_TieredFunctionGetStats function = (case function of None \<Rightarrow> null_tiered_stats | Some f \<Rightarrow> tf_stats f)"

definition observe_success :: "TurboJSTieredFunction \<Rightarrow> i64 \<Rightarrow> TurboJSTieredFunction" where
  "observe_success f result = f\<lparr>tf_feedback := the (TurboJS_FeedbackObserveResult (Some (tf_feedback f)) result)\<rparr>"

definition observe_exception :: "TurboJSTieredFunction \<Rightarrow> TurboJSTieredFunction" where
  "observe_exception f = f\<lparr>tf_feedback := the (TurboJS_FeedbackObserveException (Some (tf_feedback f)))\<rparr>"

definition observe_bailout :: "TurboJSTieredFunction \<Rightarrow> TurboJSTieredFunction" where
  "observe_bailout f = f\<lparr>tf_feedback := the (TurboJS_FeedbackObserveBailout (Some (tf_feedback f)))\<rparr>"

definition count_call :: "(TurboJSTieredStats \<Rightarrow> TurboJSTieredStats) \<Rightarrow> TurboJSTieredFunction \<Rightarrow> TurboJSTieredFunction" where
  "count_call bump f = f\<lparr>tf_stats := bump (tf_stats f)\<rparr>"

abbreviation interpreted_bump :: "TurboJSTieredStats \<Rightarrow> TurboJSTieredStats" where
  "interpreted_bump s \<equiv> s\<lparr>ts_interpreted_calls := ts_interpreted_calls s + 1\<rparr>"

abbreviation baseline_bump :: "TurboJSTieredStats \<Rightarrow> TurboJSTieredStats" where
  "baseline_bump s \<equiv> s\<lparr>ts_baseline_calls := ts_baseline_calls s + 1\<rparr>"

abbreviation optimized_bump :: "TurboJSTieredStats \<Rightarrow> TurboJSTieredStats" where
  "optimized_bump s \<equiv> s\<lparr>ts_optimized_calls := ts_optimized_calls s + 1\<rparr>"

text \<open>The status, the function, the result and the route.\<close>

type_synonym tier_return = "TurboJSIRStatus \<times> TurboJSTieredFunction \<times> i64 \<times> TurboJSTieredResult ptr"

definition fallback_interpreter ::
  "jit_env \<Rightarrow> jit_heap \<Rightarrow> TurboJSTieredFunction \<Rightarrow> TurboJSIRFunction \<Rightarrow> i64 list ptr \<Rightarrow> nat \<Rightarrow> i64 \<Rightarrow> TurboJSTieredResult ptr
     \<Rightarrow> tier_return c" where
  "fallback_interpreter E H f ir arguments argument_count result route =
     bindc (TurboJS_IRExecute E H (Some ir) arguments argument_count (Some result)) (\<lambda>(status, r).
       (let v = (case r of None \<Rightarrow> result | Some x \<Rightarrow> x)
        in Inr (if status = TURBOJS_IR_OK
                then (status, count_call interpreted_bump (observe_success f v), v, map_option (\<lambda>_. TURBOJS_TIERED_INTERPRETED) route)
                else if status = TURBOJS_IR_EXCEPTION then (status, observe_exception f, v, route)
                else (status, f, v, route))))"

text \<open>Running baseline code and, on a bailout, the interpreter; the route is the one of a success.\<close>

definition run_baseline ::
  "jit_env \<Rightarrow> jit_heap \<Rightarrow> TurboJSTieredFunction \<Rightarrow> addr \<Rightarrow> TurboJSIRFunction \<Rightarrow> i64 list ptr \<Rightarrow> nat \<Rightarrow> i64
     \<Rightarrow> TurboJSTieredResult \<Rightarrow> TurboJSTieredResult ptr \<Rightarrow> tier_return c" where
  "run_baseline E H f native ir arguments argument_count result tier route =
     (case env_native_invoke E native arguments argument_count result of (status, v) \<Rightarrow>
        if status = TURBOJS_IR_OK
        then Inr (status, count_call baseline_bump (observe_success f v), v, map_option (\<lambda>_. tier) route)
        else if status \<noteq> TURBOJS_IR_BAILOUT
        then Inr (status, if status = TURBOJS_IR_EXCEPTION then observe_exception f else f, v, route)
        else fallback_interpreter E H (observe_bailout f) ir arguments argument_count v route)"

text \<open>A phase of the invocation either returns or goes on with the next one.\<close>

datatype tier_step =
    Tier_return tier_return "addr list"
  | Tier_continue TurboJSTieredFunction i64 "addr list"

definition run_optimized ::
  "tiered_env \<Rightarrow> TurboJSTieredFunction \<Rightarrow> i64 list ptr \<Rightarrow> nat \<Rightarrow> i64 \<Rightarrow> TurboJSTieredResult \<Rightarrow> TurboJSTieredResult ptr
     \<Rightarrow> addr list \<Rightarrow> tier_step" where
  "run_optimized T f arguments argument_count result tier route destroyed =
     (case te_optimized_invoke T (tf_optimized f) arguments argument_count result of (status, v) \<Rightarrow>
        if status = TURBOJS_IR_OK
        then Tier_return (status, count_call optimized_bump (observe_success f v), v, map_option (\<lambda>_. tier) route) destroyed
        else if status = TURBOJS_IR_EXCEPTION
        then Tier_return (status, observe_exception f, v, route) destroyed
        else (case TurboJS_TieredFunctionInvalidateOptimized (Some (observe_bailout f)) destroyed of
                (g, d) \<Rightarrow> Tier_continue (the g) v d))"

definition optimized_phase ::
  "tiered_env \<Rightarrow> TurboJSTieredFunction \<Rightarrow> i64 list ptr \<Rightarrow> nat \<Rightarrow> i64 \<Rightarrow> TurboJSTieredResult ptr \<Rightarrow> addr list \<Rightarrow> tier_step" where
  "optimized_phase T f arguments argument_count result route destroyed =
     (if tf_optimized f = 0 then Tier_continue f result destroyed
      else run_optimized T f arguments argument_count result TURBOJS_TIERED_OPTIMIZED_NATIVE route destroyed)"

text \<open>A compiler that fails stores the null pointer.\<close>

definition optimizing_phase ::
  "tiered_env \<Rightarrow> TurboJSTieredFunction \<Rightarrow> TurboJSIRFunction \<Rightarrow> i64 list ptr \<Rightarrow> nat \<Rightarrow> i64 \<Rightarrow> TurboJSTieredResult ptr
     \<Rightarrow> TurboJSIRDiagnostic ptr \<Rightarrow> addr list \<Rightarrow> (tier_step \<times> TurboJSIRDiagnostic ptr) c" where
  "optimizing_phase T f ir arguments argument_count result route diagnostic destroyed =
     bindc (TurboJS_EvaluateOptimization (Some (tf_feedback f)) (Some (tf_optimization_policy f))) (\<lambda>report.
       if \<not> tf_optimization_attempted f \<and> or_decision report = TURBOJS_OPTIMIZATION_ELIGIBLE
       then (case te_optimizing_compile T ir (tf_feedback f) diagnostic of (status, code, d) \<Rightarrow>
               (let g = f\<lparr>tf_optimization_attempted := True, tf_optimized := (if status = TURBOJS_IR_OK then code else 0)\<rparr>
                in if status = TURBOJS_IR_OK
                   then Inr (run_optimized T (g\<lparr>tf_stats := (tf_stats g)\<lparr>ts_optimized_compilations :=
                               ts_optimized_compilations (tf_stats g) + 1\<rparr>\<rparr>)
                               arguments argument_count result TURBOJS_TIERED_OPTIMIZED_COMPILED route destroyed, d)
                   else if status \<noteq> TURBOJS_IR_UNSUPPORTED
                   then Inr (Tier_return (status, g, result, route) destroyed, d)
                   else Inr (Tier_continue g result destroyed, d)))
       else Inr (Tier_continue f result destroyed, diagnostic))"

text \<open>
  The last phase: baseline code from the cache, compiled at the threshold, else the interpreter. The
  result has the cache, the diagnostic and the heap beside the values of a phase.
\<close>

definition baseline_phase ::
  "tiered_env \<Rightarrow> vault_alloc \<Rightarrow> TurboJSTieredFunction \<Rightarrow> TurboJSCodeCache \<Rightarrow> TurboJSIRFunction \<Rightarrow> i64 list ptr \<Rightarrow> nat \<Rightarrow> i64
     \<Rightarrow> TurboJSTieredResult ptr \<Rightarrow> TurboJSIRDiagnostic ptr \<Rightarrow> vault_heap
     \<Rightarrow> (tier_return \<times> TurboJSCodeCache ptr \<times> TurboJSIRDiagnostic ptr \<times> vault_heap) c" where
  "baseline_phase T A f cache ir arguments argument_count result route diagnostic V =
     (let E = ve_jit (te_vault T)
      in bindc (TurboJS_CodeCacheLookup (Some cache) (tf_cache_key f)) (\<lambda>(native, c1).
           if native \<noteq> 0
           then bindc (run_baseline E (vh_jit V) f native ir arguments argument_count result TURBOJS_TIERED_BASELINE_NATIVE route)
                  (\<lambda>r. Inr (r, c1, diagnostic, V))
           else if \<not> tf_compilation_attempted f \<and> tf_compile_threshold f \<le> tf_call_count f
           then (let g = f\<lparr>tf_compilation_attempted := True\<rparr>
                 in bindc (TurboJS_CodeCacheCompile (te_vault T) A c1 (tf_cache_key g) (Some ir) (Some native) diagnostic V)
                      (\<lambda>(status, c2, out, d, V2).
                        if status = TURBOJS_IR_OK
                        then bindc (run_baseline E (vh_jit V2) (g\<lparr>tf_stats := (tf_stats g)\<lparr>ts_baseline_compilations :=
                                      ts_baseline_compilations (tf_stats g) + 1\<rparr>\<rparr>)
                                      (case out of None \<Rightarrow> native | Some x \<Rightarrow> x) ir arguments argument_count result
                                      TURBOJS_TIERED_BASELINE_COMPILED route)
                               (\<lambda>r. Inr (r, c2, d, V2))
                        else if status \<noteq> TURBOJS_IR_UNSUPPORTED then Inr ((status, g, result, route), c2, d, V2)
                        else bindc (fallback_interpreter E (vh_jit V2) g ir arguments argument_count result route)
                               (\<lambda>r. Inr (r, c2, d, V2))))
           else bindc (fallback_interpreter E (vh_jit V) f ir arguments argument_count result route)
                  (\<lambda>r. Inr (r, c1, diagnostic, V))))"

definition enter_call :: "TurboJSTieredFunction \<Rightarrow> i64 list ptr \<Rightarrow> nat \<Rightarrow> TurboJSTieredFunction c" where
  "enter_call f arguments argument_count =
     (let f1 = (if unat (tf_call_count f) \<noteq> UINT32_MAX then f\<lparr>tf_call_count := tf_call_count f + 1\<rparr> else f);
          f2 = (if fv_argument_count (tf_feedback f1) = 0
                then f1\<lparr>tf_feedback := vector_init (tf_feedback f1) (word_of_nat argument_count)\<rparr> else f1)
      in bindc (TurboJS_FeedbackObserveCall (Some (tf_feedback f2)) arguments argument_count) (\<lambda>v.
           Inr (f2\<lparr>tf_feedback := the v\<rparr>)))"

text \<open>
  The state around an invocation: the status, the function, the cache, the result cell, the route, the
  diagnostic, the log and the heap.
\<close>

type_synonym tiered_outcome = "TurboJSIRStatus \<times> TurboJSTieredFunction ptr \<times> TurboJSCodeCache ptr \<times> i64 ptr
  \<times> TurboJSTieredResult ptr \<times> TurboJSIRDiagnostic ptr \<times> addr list \<times> vault_heap"

definition tier_finish ::
  "tier_return \<Rightarrow> TurboJSCodeCache ptr \<Rightarrow> TurboJSIRDiagnostic ptr \<Rightarrow> addr list \<Rightarrow> vault_heap \<Rightarrow> tiered_outcome c" where
  "tier_finish r c d destroyed V =
     (case r of (status, g, v, route) \<Rightarrow> Inr (status, Some g, c, Some v, route, d, destroyed, V))"

definition TurboJS_TieredInvoke ::
  "tiered_env \<Rightarrow> vault_alloc \<Rightarrow> TurboJSTieredFunction ptr \<Rightarrow> TurboJSCodeCache ptr \<Rightarrow> TurboJSIRFunction ptr \<Rightarrow> i64 list ptr \<Rightarrow> nat
     \<Rightarrow> i64 ptr \<Rightarrow> TurboJSTieredResult ptr \<Rightarrow> TurboJSIRDiagnostic ptr \<Rightarrow> addr list \<Rightarrow> vault_heap \<Rightarrow> tiered_outcome c" where
  "TurboJS_TieredInvoke T A function cache ir arguments argument_count result execution_result diagnostic destroyed V =
     (case (function, cache, ir, result) of
        (Some f, Some c, Some code, Some cell) \<Rightarrow>
          if tf_cache_key f = 0 then Inr (TURBOJS_IR_INVALID_ARGUMENT, function, cache, result, execution_result, diagnostic, destroyed, V)
          else
            bindc (enter_call f arguments argument_count) (\<lambda>f1.
              case optimized_phase T f1 arguments argument_count cell execution_result destroyed of
                Tier_return r D \<Rightarrow> tier_finish r cache diagnostic D V
              | Tier_continue f2 v2 D2 \<Rightarrow>
                  bindc (optimizing_phase T f2 code arguments argument_count v2 execution_result diagnostic D2) (\<lambda>(step, d3).
                    case step of
                      Tier_return r D \<Rightarrow> tier_finish r cache d3 D V
                    | Tier_continue f3 v3 D3 \<Rightarrow>
                        bindc (baseline_phase T A f3 c code arguments argument_count v3 execution_result d3 V)
                          (\<lambda>(r, c4, d4, V4). tier_finish r c4 d4 D3 V4)))
      | _ \<Rightarrow> Inr (TURBOJS_IR_INVALID_ARGUMENT, function, cache, result, execution_result, diagnostic, destroyed, V))"

section \<open>Optimized code\<close>

lemma observer_simps [simp]:
  "tf_optimized (observe_success f v) = tf_optimized f" "tf_optimized (observe_exception f) = tf_optimized f"
  "tf_optimized (observe_bailout f) = tf_optimized f" "tf_optimized (count_call b f) = tf_optimized f"
  "tf_stats (observe_success f v) = tf_stats f" "tf_stats (observe_exception f) = tf_stats f"
  "tf_stats (observe_bailout f) = tf_stats f" "tf_stats (count_call b f) = b (tf_stats f)"
  "tf_optimization_attempted (observe_success f v) = tf_optimization_attempted f"
  "tf_optimization_attempted (observe_exception f) = tf_optimization_attempted f"
  "tf_optimization_attempted (observe_bailout f) = tf_optimization_attempted f"
  "tf_optimization_attempted (count_call b f) = tf_optimization_attempted f"
  "tf_cache_key (observe_success f v) = tf_cache_key f" "tf_cache_key (observe_exception f) = tf_cache_key f"
  "tf_cache_key (observe_bailout f) = tf_cache_key f" "tf_cache_key (count_call b f) = tf_cache_key f"
  "tf_optimization_policy (observe_success f v) = tf_optimization_policy f"
  "tf_optimization_policy (observe_exception f) = tf_optimization_policy f"
  "tf_optimization_policy (observe_bailout f) = tf_optimization_policy f"
  "tf_optimization_policy (count_call b f) = tf_optimization_policy f"
  by (simp_all add: observe_success_def observe_exception_def observe_bailout_def count_call_def)

text \<open>
  The books of the optimizing tier: compiled functions are installed or destroyed, and no more than
  one is ever compiled.
\<close>

definition optimized_once :: "TurboJSTieredFunction \<Rightarrow> addr list \<Rightarrow> bool" where
  "optimized_once f D \<longleftrightarrow>
     unat (ts_optimized_invalidations (tf_stats f)) = length D \<and>
     unat (ts_optimized_compilations (tf_stats f)) = length D + (if tf_optimized f = 0 then 0 else 1) \<and>
     length D + (if tf_optimized f = 0 then 0 else 1) \<le> (if tf_optimization_attempted f then 1 else 0)"

definition step_ok :: "(TurboJSTieredFunction \<Rightarrow> addr list \<Rightarrow> bool) \<Rightarrow> tier_step \<Rightarrow> bool" where
  "step_ok P s = (case s of Tier_return (st, g, v, r) D \<Rightarrow> P g D | Tier_continue g v D \<Rightarrow> P g D)"

lemma optimized_once_cong:
  "tf_optimized g = tf_optimized f \<Longrightarrow> tf_optimization_attempted g = tf_optimization_attempted f \<Longrightarrow>
   ts_optimized_invalidations (tf_stats g) = ts_optimized_invalidations (tf_stats f) \<Longrightarrow>
   ts_optimized_compilations (tf_stats g) = ts_optimized_compilations (tf_stats f) \<Longrightarrow> optimized_once g D = optimized_once f D"
  by (simp add: optimized_once_def)

lemma optimized_once_observers [simp]:
  "optimized_once (observe_success f v) D = optimized_once f D" "optimized_once (observe_exception f) D = optimized_once f D"
  "optimized_once (observe_bailout f) D = optimized_once f D" "optimized_once (count_call interpreted_bump f) D = optimized_once f D"
  "optimized_once (count_call baseline_bump f) D = optimized_once f D" "optimized_once (count_call optimized_bump f) D = optimized_once f D"
  "optimized_once (f\<lparr>tf_compilation_attempted := b\<rparr>) D = optimized_once f D"
  "optimized_once (f\<lparr>tf_compilation_attempted := b, tf_stats := (tf_stats f)\<lparr>ts_baseline_compilations := k\<rparr>\<rparr>) D = optimized_once f D"
  by (rule optimized_once_cong; simp)+

lemma invalidate_once:
  assumes "optimized_once f D" "TurboJS_TieredFunctionInvalidateOptimized (Some f) D = (g, D')"
  shows "\<exists>h. g = Some h \<and> optimized_once h D' \<and> tf_optimized h = 0"
proof (cases "tf_optimized f = 0")
  case True
  then show ?thesis using assms by (auto simp: TurboJS_TieredFunctionInvalidateOptimized_def)
next
  case False
  then have D: "D = []" and att: "tf_optimization_attempted f" and comp: "unat (ts_optimized_compilations (tf_stats f)) = 1"
    and inv: "ts_optimized_invalidations (tf_stats f) = 0"
    using assms(1) unfolding optimized_once_def by (auto simp: unat_eq_zero split: if_splits)
  let ?h = "f\<lparr>tf_optimized := 0, tf_stats := (tf_stats f)\<lparr>ts_optimized_invalidations := ts_optimized_invalidations (tf_stats f) + 1\<rparr>\<rparr>"
  have "optimized_once ?h [tf_optimized f]" using att comp inv by (simp add: optimized_once_def)
  moreover have "g = Some ?h" "D' = [tf_optimized f]"
    using False assms(2) D by (simp_all add: TurboJS_TieredFunctionInvalidateOptimized_def)
  ultimately show ?thesis by simp
qed

lemma run_optimized_once: "optimized_once f D \<Longrightarrow> step_ok optimized_once (run_optimized T f args n v tier route D)"
  using invalidate_once [of "observe_bailout f" D]
  by (auto simp: run_optimized_def step_ok_def split: prod.splits)

lemma optimized_phase_once: "optimized_once f D \<Longrightarrow> step_ok optimized_once (optimized_phase T f args n v route D)"
  using run_optimized_once by (cases "tf_optimized f = 0") (simp_all add: optimized_phase_def step_ok_def)

lemma optimized_phase_continue: "optimized_once f D \<Longrightarrow> optimized_phase T f args n v route D = Tier_continue g v' D' \<Longrightarrow> tf_optimized g = 0"
  using invalidate_once [of "observe_bailout f" D]
  by (auto simp: optimized_phase_def run_optimized_def split: prod.splits if_splits)

lemma optimizing_phase_once:
  assumes "optimized_once f D" "tf_optimized f = 0" "\<And>ir v d. fst (te_optimizing_compile T ir v d) = TURBOJS_IR_OK \<Longrightarrow> fst (snd (te_optimizing_compile T ir v d)) \<noteq> 0"
    "optimizing_phase T f ir args n v route d D = Inr (s, d')"
  shows "step_ok optimized_once s"
proof -
  obtain report where report: "TurboJS_EvaluateOptimization (Some (tf_feedback f)) (Some (tf_optimization_policy f)) = Inr report"
    using assms(4) by (cases "TurboJS_EvaluateOptimization (Some (tf_feedback f)) (Some (tf_optimization_policy f))")
      (auto simp: optimizing_phase_def bindc_def)
  obtain status code d1 where comp: "te_optimizing_compile T ir (tf_feedback f) d = (status, code, d1)" by (metis prod_cases3)
  have code: "status = TURBOJS_IR_OK \<Longrightarrow> code \<noteq> 0" using assms(3) [of ir "tf_feedback f" d] comp by simp
  show ?thesis
  proof (cases "\<not> tf_optimization_attempted f \<and> or_decision report = TURBOJS_OPTIMIZATION_ELIGIBLE")
    case True
    then have D: "D = []" "ts_optimized_invalidations (tf_stats f) = 0" "ts_optimized_compilations (tf_stats f) = 0"
      using assms(1,2) by (auto simp: optimized_once_def unat_eq_zero)
    let ?g = "f\<lparr>tf_optimization_attempted := True, tf_optimized := code\<rparr>"
    have "status = TURBOJS_IR_OK \<Longrightarrow> optimized_once (?g\<lparr>tf_stats := (tf_stats ?g)\<lparr>ts_optimized_compilations := 1\<rparr>\<rparr>) D"
      using code D by (simp add: optimized_once_def)
    then show ?thesis
      using True assms(1,2,4) report comp D run_optimized_once [of "?g\<lparr>tf_stats := (tf_stats ?g)\<lparr>ts_optimized_compilations := 1\<rparr>\<rparr>" D]
      by (auto simp: optimizing_phase_def Let_def step_ok_def optimized_once_def split: if_splits)
  next
    case False
    then have "optimizing_phase T f ir args n v route d D = Inr (Tier_continue f v D, d)"
      by (simp only: optimizing_phase_def report bindc_simps if_False)
    then show ?thesis using assms(1,4) by (auto simp: step_ok_def)
  qed
qed


lemma baseline_phase_cases:
  assumes "baseline_phase T A f c ir args n v route d V = Inr ((st, g, v', r'), c', d', V')"
    and "\<And>native tier h H. h \<in> {f, f\<lparr>tf_compilation_attempted := True, tf_stats := (tf_stats f)\<lparr>ts_baseline_compilations :=
      ts_baseline_compilations (tf_stats f) + 1\<rparr>\<rparr>} \<Longrightarrow>
      run_baseline (ve_jit (te_vault T)) H h native ir args n v tier route = Inr (st, g, v', r') \<Longrightarrow> P"
    and "\<And>h H. h \<in> {f, f\<lparr>tf_compilation_attempted := True\<rparr>} \<Longrightarrow>
      fallback_interpreter (ve_jit (te_vault T)) H h ir args n v route = Inr (st, g, v', r') \<Longrightarrow> P"
    and "g = f\<lparr>tf_compilation_attempted := True\<rparr> \<Longrightarrow> st \<noteq> TURBOJS_IR_OK \<Longrightarrow> r' = route \<Longrightarrow> P"
  shows P
proof -
  obtain native c1 where look: "TurboJS_CodeCacheLookup (Some c) (tf_cache_key f) = Inr (native, c1)"
    using assms(1) by (cases "TurboJS_CodeCacheLookup (Some c) (tf_cache_key f)") (auto simp: baseline_phase_def bindc_def)
  consider (hit) "native \<noteq> 0" | (compile) "native = 0" "\<not> tf_compilation_attempted f \<and> tf_compile_threshold f \<le> tf_call_count f"
    | (cold) "native = 0" "\<not> (\<not> tf_compilation_attempted f \<and> tf_compile_threshold f \<le> tf_call_count f)" by blast
  then show P
  proof cases
    case hit
    then show P using assms(1) look
      by (intro assms(2) [of f "vh_jit V" native TURBOJS_TIERED_BASELINE_NATIVE])
        (auto simp: baseline_phase_def bindc_def Let_def split: sum.splits)
  next
    case cold
    then show P using assms(1) look
      by (intro assms(3) [of f "vh_jit V"]) (auto simp: baseline_phase_def bindc_def Let_def split: sum.splits if_splits)
  next
    case compile
    let ?g = "f\<lparr>tf_compilation_attempted := True\<rparr>"
    obtain status c2 out d2 V2 where comp: "TurboJS_CodeCacheCompile (te_vault T) A c1 (tf_cache_key f) (Some ir) (Some 0) d V = Inr (status, c2, out, d2, V2)"
      using assms(1) look compile
      by (cases "TurboJS_CodeCacheCompile (te_vault T) A c1 (tf_cache_key f) (Some ir) (Some 0) d V") (auto simp: baseline_phase_def bindc_def)
    have run: "baseline_phase T A f c ir args n v route d V =
      (if status = TURBOJS_IR_OK
       then bindc (run_baseline (ve_jit (te_vault T)) (vh_jit V2) (?g\<lparr>tf_stats := (tf_stats ?g)\<lparr>ts_baseline_compilations :=
              ts_baseline_compilations (tf_stats ?g) + 1\<rparr>\<rparr>) (case out of None \<Rightarrow> 0 | Some x \<Rightarrow> x) ir args n v TURBOJS_TIERED_BASELINE_COMPILED route)
              (\<lambda>r. Inr (r, c2, d2, V2))
       else if status \<noteq> TURBOJS_IR_UNSUPPORTED then Inr ((status, ?g, v, route), c2, d2, V2)
       else bindc (fallback_interpreter (ve_jit (te_vault T)) (vh_jit V2) ?g ir args n v route) (\<lambda>r. Inr (r, c2, d2, V2)))"
      using look compile comp by (simp add: baseline_phase_def Let_def)
    consider "status = TURBOJS_IR_OK" | "status = TURBOJS_IR_UNSUPPORTED" | "status \<noteq> TURBOJS_IR_OK" "status \<noteq> TURBOJS_IR_UNSUPPORTED" by blast
    then show P
    proof cases
      case 1
      then show P using assms(1) unfolding run
        by (intro assms(2) [of "?g\<lparr>tf_stats := (tf_stats ?g)\<lparr>ts_baseline_compilations := ts_baseline_compilations (tf_stats ?g) + 1\<rparr>\<rparr>" "vh_jit V2"
              "case out of None \<Rightarrow> 0 | Some x \<Rightarrow> x" TURBOJS_TIERED_BASELINE_COMPILED]) (auto simp: bindc_def split: sum.splits)
    next
      case 2
      then show P using assms(1) unfolding run by (intro assms(3) [of ?g "vh_jit V2"]) (auto simp: bindc_def split: sum.splits)
    next
      case 3
      then show P using assms(1) unfolding run by (intro assms(4)) auto
    qed
  qed
qed

text \<open>
  What the interpreter and baseline code may change of a function: its feedback, its counters and the
  mark of an attempted compilation. A predicate that does not depend on them survives the last phase.
\<close>

locale tier_invariant =
  fixes P :: "TurboJSTieredFunction \<Rightarrow> bool"
  assumes success: "P f \<Longrightarrow> P (observe_success f v)" and exception: "P f \<Longrightarrow> P (observe_exception f)"
    and bailout: "P f \<Longrightarrow> P (observe_bailout f)" and attempted: "P f \<Longrightarrow> P (f\<lparr>tf_compilation_attempted := b\<rparr>)"
    and interpreted_call: "P f \<Longrightarrow> P (count_call interpreted_bump f)" and baseline_call: "P f \<Longrightarrow> P (count_call baseline_bump f)"
    and compilation: "P f \<Longrightarrow> P (f\<lparr>tf_stats := (tf_stats f)\<lparr>ts_baseline_compilations := k\<rparr>\<rparr>)"
begin

lemma fallback:
  "P f \<Longrightarrow> fallback_interpreter E H f ir args n v route = Inr (st, g, v', r') \<Longrightarrow> P g"
  by (auto simp: fallback_interpreter_def bindc_def Let_def split: sum.splits prod.splits if_splits
      intro: success exception interpreted_call)

lemma run:
  "P f \<Longrightarrow> run_baseline E H f native ir args n v tier route = Inr (st, g, v', r') \<Longrightarrow> P g"
  by (auto simp: run_baseline_def split: prod.splits if_splits intro: success exception baseline_call dest: bailout fallback)

lemma phase:
  assumes "P f" "baseline_phase T A f c ir args n v route d V = Inr ((st, g, v', r'), c', d', V')"
  shows "P g"
  using assms(2)
proof (rule baseline_phase_cases)
  fix native tier h H
  assume h: "h \<in> {f, f\<lparr>tf_compilation_attempted := True, tf_stats := (tf_stats f)\<lparr>ts_baseline_compilations := ts_baseline_compilations (tf_stats f) + 1\<rparr>\<rparr>}"
    "run_baseline (ve_jit (te_vault T)) H h native ir args n v tier route = Inr (st, g, v', r')"
  have "P h" using h(1) assms(1) compilation [OF attempted [where b = True, OF assms(1)]] by auto
  then show "P g" using h(2) by (rule run)
next
  fix h H
  assume h: "h \<in> {f, f\<lparr>tf_compilation_attempted := True\<rparr>}"
    "fallback_interpreter (ve_jit (te_vault T)) H h ir args n v route = Inr (st, g, v', r')"
  have "P h" using h(1) assms(1) attempted [where b = True, OF assms(1)] by auto
  then show "P g" using h(2) by (rule fallback)
next
  assume "g = f\<lparr>tf_compilation_attempted := True\<rparr>"
  then show "P g" using attempted [OF assms(1)] by simp
qed

end

interpretation optimized_books: tier_invariant "\<lambda>f. optimized_once f D" for D
  by unfold_locales (auto simp: optimized_once_def)

section \<open>Feedback along an invocation\<close>

definition feedback_ok :: "TurboJSFeedbackVector \<Rightarrow> bool" where
  "feedback_ok v \<longleftrightarrow> length (fv_arguments v) = TURBOJS_FEEDBACK_MAX_ARGUMENTS \<and> unat (fv_argument_count v) \<le> TURBOJS_FEEDBACK_MAX_ARGUMENTS"

definition args_ok :: "i64 list ptr \<Rightarrow> nat \<Rightarrow> bool" where
  "args_ok arguments n \<longleftrightarrow> (case arguments of None \<Rightarrow> True | Some xs \<Rightarrow> n \<le> length xs)"

lemma vector_init_ok: "feedback_ok (vector_init v n)"
  by (simp add: vector_init_def TurboJS_FeedbackVectorInit_def feedback_ok_def)

lemma observe_call_ok:
  assumes "feedback_ok v" "args_ok args n"
  shows "\<exists>v'. TurboJS_FeedbackObserveCall (Some v) args n = Inr (Some v') \<and> feedback_ok v' \<and>
    fv_argument_count v' = fv_argument_count v \<and> fv_execution_count v' = sat_inc (fv_execution_count v)"
proof (cases args)
  case None
  then show ?thesis using assms(1) by (simp add: TurboJS_FeedbackObserveCall_def Let_def feedback_ok_def)
next
  case (Some xs)
  then have b: "0 + min n (unat (fv_argument_count v)) \<le> length xs" "0 + min n (unat (fv_argument_count v)) \<le> length (fv_arguments v)"
    using assms by (auto simp: feedback_ok_def args_ok_def)
  obtain slots where "observe_arguments (min n (unat (fv_argument_count v))) 0 xs (fv_arguments v) = Inr slots"
    "length slots = length (fv_arguments v)"
    using observe_arguments_ok [OF b] by (metis (no_types, lifting) diff_zero length_map length_upt)
  then show ?thesis using Some assms(1) by (simp add: TurboJS_FeedbackObserveCall_def Let_def feedback_ok_def)
qed

lemma enter_call_ok:
  assumes "feedback_ok (tf_feedback f)" "args_ok args n"
  shows "\<exists>k v. enter_call f args n = Inr (f\<lparr>tf_call_count := k, tf_feedback := v\<rparr>) \<and> feedback_ok v \<and>
    (n = 0 \<and> fv_argument_count (tf_feedback f) = 0 \<longrightarrow> fv_argument_count v = 0 \<and> fv_execution_count v = 1)"
proof -
  define f1 where "f1 = (if unat (tf_call_count f) \<noteq> UINT32_MAX then f\<lparr>tf_call_count := tf_call_count f + 1\<rparr> else f)"
  define w where "w = (if fv_argument_count (tf_feedback f) = 0 then vector_init (tf_feedback f) (word_of_nat n) else tf_feedback f)"
  have f1: "f1 = f\<lparr>tf_call_count := tf_call_count f1\<rparr>" "tf_feedback f1 = tf_feedback f" by (simp_all add: f1_def)
  have "feedback_ok w" using assms(1) vector_init_ok by (simp add: w_def)
  then obtain v where v: "TurboJS_FeedbackObserveCall (Some w) args n = Inr (Some v)" "feedback_ok v"
    "fv_argument_count v = fv_argument_count w" "fv_execution_count v = sat_inc (fv_execution_count w)"
    using observe_call_ok [OF _ assms(2)] by blast
  have "(if fv_argument_count (tf_feedback f1) = 0 then f1\<lparr>tf_feedback := vector_init (tf_feedback f1) (word_of_nat n)\<rparr> else f1) = f1\<lparr>tf_feedback := w\<rparr>"
    by (simp add: f1(2) w_def)
  then have "enter_call f args n = Inr (f1\<lparr>tf_feedback := v\<rparr>)"
    using v(1) by (simp add: enter_call_def Let_def f1_def [symmetric])
  moreover have "f1\<lparr>tf_feedback := v\<rparr> = f\<lparr>tf_call_count := tf_call_count f1, tf_feedback := v\<rparr>" by (subst f1(1)) simp
  moreover have "n = 0 \<and> fv_argument_count (tf_feedback f) = 0 \<longrightarrow> fv_argument_count v = 0 \<and> fv_execution_count v = 1"
    using v(3,4) by (simp add: w_def vector_init_def TurboJS_FeedbackVectorInit_def sat_inc_def)
  ultimately show ?thesis using v(2) by (intro exI [of _ "tf_call_count f1"] exI [of _ v]) simp
qed

lemma evaluate_ok:
  assumes "feedback_ok v"
  shows "\<exists>r. TurboJS_EvaluateOptimization (Some v) (Some p) = Inr r \<and>
    (fv_execution_count v < op_minimum_executions p \<longrightarrow> or_decision r = TURBOJS_OPTIMIZATION_TOO_COLD)"
proof -
  obtain r where "first_unstable (unat (fv_argument_count v)) 0 (fv_arguments v) = Inr r"
    using first_unstable_ok [of 0 "unat (fv_argument_count v)" "fv_arguments v"] assms by (auto simp: feedback_ok_def)
  then show ?thesis using assms
    by (auto simp: TurboJS_EvaluateOptimization_def Let_def feedback_ok_def split: option.splits)
qed

lemma feedback_observers [simp]:
  "feedback_ok (tf_feedback (observe_success f v)) = feedback_ok (tf_feedback f)"
  "feedback_ok (tf_feedback (observe_exception f)) = feedback_ok (tf_feedback f)"
  "feedback_ok (tf_feedback (observe_bailout f)) = feedback_ok (tf_feedback f)"
  "tf_feedback (count_call b f) = tf_feedback f"
  "fv_argument_count (tf_feedback (observe_success f v)) = fv_argument_count (tf_feedback f)"
  "fv_argument_count (tf_feedback (observe_exception f)) = fv_argument_count (tf_feedback f)"
  "fv_argument_count (tf_feedback (observe_bailout f)) = fv_argument_count (tf_feedback f)"
  "fv_execution_count (tf_feedback (observe_success f v)) = fv_execution_count (tf_feedback f)"
  "fv_execution_count (tf_feedback (observe_exception f)) = fv_execution_count (tf_feedback f)"
  "fv_execution_count (tf_feedback (observe_bailout f)) = fv_execution_count (tf_feedback f)"
  by (simp_all add: observe_success_def observe_exception_def observe_bailout_def count_call_def feedback_ok_def
      TurboJS_FeedbackObserveResult_def TurboJS_FeedbackObserveException_def TurboJS_FeedbackObserveBailout_def)

text \<open>Functions that are too cold for the optimizing tier, as the calls without arguments leave them.\<close>

definition cold :: "TurboJSTieredFunction \<Rightarrow> bool" where
  "cold f \<longleftrightarrow> feedback_ok (tf_feedback f) \<and> fv_argument_count (tf_feedback f) = 0 \<and> fv_execution_count (tf_feedback f) \<le> 1 \<and>
     tf_optimized f = 0 \<and> 1 < op_minimum_executions (tf_optimization_policy f) \<and>
     ts_optimized_calls (tf_stats f) = 0 \<and> ts_optimized_compilations (tf_stats f) = 0"

interpretation cold_function: tier_invariant cold
  by unfold_locales (auto simp: cold_def)

definition compiler_ok :: "tiered_env \<Rightarrow> bool" where
  "compiler_ok T \<longleftrightarrow> (\<forall>ir v d. fst (te_optimizing_compile T ir v d) = TURBOJS_IR_OK \<longrightarrow> fst (snd (te_optimizing_compile T ir v d)) \<noteq> 0)"

text \<open>The ways an invocation of a function can end: in the optimized tier, while optimizing, or in the last phase.\<close>

lemma invoke_cases:
  assumes "TurboJS_TieredInvoke T A (Some f) (Some c) (Some ir) args n (Some cell) route d D V = Inr (st, Some g, c', r, route', d', D', V')"
    "tf_cache_key f \<noteq> 0"
  obtains (optimized) f1 v where "enter_call f args n = Inr f1" "optimized_phase T f1 args n cell route D = Tier_return (st, g, v, route') D'" "r = Some v"
  | (optimizing) f1 f2 v2 D2 v where "enter_call f args n = Inr f1" "optimized_phase T f1 args n cell route D = Tier_continue f2 v2 D2"
      "optimizing_phase T f2 ir args n v2 route d D2 = Inr (Tier_return (st, g, v, route') D', d')" "r = Some v"
  | (last) f1 f2 v2 D2 f3 v3 d3 v where "enter_call f args n = Inr f1" "optimized_phase T f1 args n cell route D = Tier_continue f2 v2 D2"
      "optimizing_phase T f2 ir args n v2 route d D2 = Inr (Tier_continue f3 v3 D', d3)"
      "baseline_phase T A f3 c ir args n v3 route d3 V = Inr ((st, g, v, route'), c', d', V')" "r = Some v"
  using assms by (auto simp: TurboJS_TieredInvoke_def tier_finish_def bindc_def split: sum.splits tier_step.splits prod.splits)

lemma enter_call_frame:
  assumes "enter_call f args n = Inr g"
  shows "tf_optimized g = tf_optimized f" "tf_stats g = tf_stats f" "tf_optimization_attempted g = tf_optimization_attempted f"
    "tf_optimization_policy g = tf_optimization_policy f" "tf_cache_key g = tf_cache_key f"
  using assms by (auto simp: enter_call_def bindc_def Let_def split: sum.splits if_splits)

lemma invoke_once:
  assumes "compiler_ok T" "optimized_once f D"
    "TurboJS_TieredInvoke T A (Some f) (Some c) (Some ir) args n (Some cell) route d D V = Inr (st, Some g, c', r, route', d', D', V')"
  shows "optimized_once g D'"
proof (cases "tf_cache_key f = 0")
  case True
  then show ?thesis using assms(2,3) by (auto simp: TurboJS_TieredInvoke_def)
next
  case False
  have enter: "optimized_once f1 D" if "enter_call f args n = Inr f1" for f1
    using assms(2) enter_call_frame [OF that] optimized_once_cong [of f1 f D] by simp
  note comp = assms(1) [unfolded compiler_ok_def, rule_format]
  from assms(3) False show ?thesis
  proof (cases rule: invoke_cases)
    case (optimized f1 v)
    then show ?thesis using optimized_phase_once [OF enter [OF optimized(1)], of T args n cell route] by (simp add: step_ok_def)
  next
    case (optimizing f1 f2 v2 D2 v)
    have "optimized_once f2 D2" "tf_optimized f2 = 0"
      using optimized_phase_once [OF enter [OF optimizing(1)], of T args n cell route] optimizing(2)
        optimized_phase_continue [OF enter [OF optimizing(1)] optimizing(2)] by (simp_all add: step_ok_def)
    from optimizing_phase_once [OF this comp optimizing(3)] show ?thesis by (simp add: step_ok_def)
  next
    case (last f1 f2 v2 D2 f3 v3 d3 v)
    have "optimized_once f2 D2" "tf_optimized f2 = 0"
      using optimized_phase_once [OF enter [OF last(1)], of T args n cell route] last(2)
        optimized_phase_continue [OF enter [OF last(1)] last(2)] by (simp_all add: step_ok_def)
    from optimizing_phase_once [OF this comp last(3)] have "optimized_once f3 D'" by (simp add: step_ok_def)
    then show ?thesis using last(4) by (rule optimized_books.phase)
  qed
qed

text \<open>The states of a tiered function and the log of its destroyed optimized code.\<close>

inductive tiered_reach :: "tiered_env \<Rightarrow> TurboJSTieredFunction \<Rightarrow> addr list \<Rightarrow> bool" for T where
  Started: "TurboJS_TieredFunctionInitAdvanced (Some g) key baseline_threshold optimization_threshold policy = Some f \<Longrightarrow> tiered_reach T f []"
| Invoked: "tiered_reach T f D \<Longrightarrow>
    TurboJS_TieredInvoke T A (Some f) (Some c) (Some ir) args n (Some cell) route d D V = Inr (st, Some g, c', r, route', d', D', V') \<Longrightarrow>
    tiered_reach T g D'"
| Discarded: "tiered_reach T f D \<Longrightarrow> TurboJS_TieredFunctionInvalidateOptimized (Some f) D = (Some g, D') \<Longrightarrow> tiered_reach T g D'"

lemma tiered_reach_once:
  assumes "compiler_ok T"
  shows "tiered_reach T f D \<Longrightarrow> optimized_once f D"
proof (induction rule: tiered_reach.induct)
  case (Started g key baseline_threshold optimization_threshold policy f)
  then show ?case by (auto simp: TurboJS_TieredFunctionInitAdvanced_def Let_def optimized_once_def null_tiered_def null_tiered_stats_def)
next
  case (Invoked f D A c ir args n cell route d V st g c' r route' d' D' V')
  then show ?case using invoke_once [OF assms] by blast
next
  case (Discarded f D g D')
  then show ?case using invalidate_once by fastforce
qed

lemma nullary_invoke_cold:
  assumes "cold f" "args_ok args 0"
    "TurboJS_TieredInvoke T A (Some f) (Some c) (Some ir) args 0 (Some cell) route d D V = Inr (st, Some g, c', r, route', d', D', V')"
  shows "cold g"
proof (cases "tf_cache_key f = 0")
  case True
  then show ?thesis using assms by (auto simp: TurboJS_TieredInvoke_def)
next
  case False
  obtain k v where e: "enter_call f args 0 = Inr (f\<lparr>tf_call_count := k, tf_feedback := v\<rparr>)" "feedback_ok v" "fv_argument_count v = 0" "fv_execution_count v = 1"
    using enter_call_ok [of f args 0] assms(1,2) by (auto simp: cold_def)
  let ?f = "f\<lparr>tf_call_count := k, tf_feedback := v\<rparr>"
  have c1: "cold ?f" "fv_execution_count (tf_feedback ?f) < op_minimum_executions (tf_optimization_policy ?f)"
    using assms(1) e(2-4) by (auto simp: cold_def)
  have p1: "optimized_phase T ?f args 0 cell route D = Tier_continue ?f cell D" using c1(1) by (simp add: optimized_phase_def cold_def)
  obtain rep where "TurboJS_EvaluateOptimization (Some v) (Some (tf_optimization_policy f)) = Inr rep" "or_decision rep = TURBOJS_OPTIMIZATION_TOO_COLD"
    using evaluate_ok [OF e(2), of "tf_optimization_policy f"] c1(2) by auto
  then have p2: "optimizing_phase T ?f ir args 0 cell route d D = Inr (Tier_continue ?f cell D, d)"
    by (simp add: optimizing_phase_def)
  from assms(3) False show ?thesis
  proof (cases rule: invoke_cases)
    case (last f1 f2 v2 D2 f3 v3 d3 v)
    have "f1 = ?f" using e(1) last(1) by simp
    then have "f3 = ?f" using p1 p2 last(2,3) by simp
    then show ?thesis using c1(1) last(4) cold_function.phase by blast
  qed (use e(1) p1 p2 in auto)
qed

section \<open>Agreement with the interpreter\<close>

text \<open>
  Generated code that agrees with the interpreter: it returns normally only with the interpreter's
  result, raises an exception only when the interpreter does, and otherwise bails out.
\<close>

definition agrees :: "jit_env \<Rightarrow> TurboJSIRFunction \<Rightarrow> i64 list ptr \<Rightarrow> nat \<Rightarrow> (i64 \<Rightarrow> TurboJSIRStatus \<times> i64) \<Rightarrow> bool" where
  "agrees E ir args n run \<longleftrightarrow> (\<forall>cell. case run cell of (st, r) \<Rightarrow> st \<in> {TURBOJS_IR_OK, TURBOJS_IR_EXCEPTION, TURBOJS_IR_BAILOUT} \<and>
     (st = TURBOJS_IR_OK \<longrightarrow> (\<forall>H v. TurboJS_IRExecute E H (Some ir) args n (Some v) = Inr (TURBOJS_IR_OK, Some r))) \<and>
     (st = TURBOJS_IR_EXCEPTION \<longrightarrow> (\<forall>H v. \<exists>x. TurboJS_IRExecute E H (Some ir) args n (Some v) = Inr (TURBOJS_IR_EXCEPTION, Some x))))"

text \<open>The interpreter, in some heap, ends with the status, and with the result when the status is normal.\<close>

definition interpreted_as :: "jit_env \<Rightarrow> TurboJSIRFunction \<Rightarrow> i64 list ptr \<Rightarrow> nat \<Rightarrow> TurboJSIRStatus \<Rightarrow> i64 \<Rightarrow> bool" where
  "interpreted_as E ir args n st r \<longleftrightarrow> (\<exists>H v x. TurboJS_IRExecute E H (Some ir) args n (Some v) = Inr (st, Some x) \<and>
     (st = TURBOJS_IR_OK \<longrightarrow> x = r))"

definition interpretable :: "jit_env \<Rightarrow> TurboJSIRFunction \<Rightarrow> i64 list ptr \<Rightarrow> nat \<Rightarrow> bool" where
  "interpretable E ir args n \<longleftrightarrow> (\<forall>H v. \<exists>st x. TurboJS_IRExecute E H (Some ir) args n (Some v) = Inr (st, Some x))"

lemma fallback_agrees:
  assumes "interpretable E ir args n"
  shows "\<exists>st g r route'. fallback_interpreter E H f ir args n v route = Inr (st, g, r, route') \<and> interpreted_as E ir args n st r"
proof -
  obtain st x where x: "TurboJS_IRExecute E H (Some ir) args n (Some v) = Inr (st, Some x)" using assms unfolding interpretable_def by blast
  then have "interpreted_as E ir args n st x" by (auto simp: interpreted_as_def)
  then show ?thesis using x by (auto simp: fallback_interpreter_def Let_def)
qed

lemma run_baseline_agrees:
  assumes "interpretable E ir args n" "agrees E ir args n (env_native_invoke E native args n)"
  shows "\<exists>st g r route'. run_baseline E H f native ir args n v tier route = Inr (st, g, r, route') \<and> interpreted_as E ir args n st r"
proof -
  obtain st r where inv: "env_native_invoke E native args n v = (st, r)" by fastforce
  have a: "st \<in> {TURBOJS_IR_OK, TURBOJS_IR_EXCEPTION, TURBOJS_IR_BAILOUT}"
    "st = TURBOJS_IR_OK \<Longrightarrow> TurboJS_IRExecute E H (Some ir) args n (Some v) = Inr (TURBOJS_IR_OK, Some r)"
    "st = TURBOJS_IR_EXCEPTION \<Longrightarrow> \<exists>x. TurboJS_IRExecute E H (Some ir) args n (Some v) = Inr (TURBOJS_IR_EXCEPTION, Some x)"
    using assms(2) [unfolded agrees_def, rule_format, of v] inv by auto
  then have "interpreted_as E ir args n st r" if "st \<noteq> TURBOJS_IR_BAILOUT" using that unfolding interpreted_as_def by auto
  then show ?thesis
    using inv fallback_agrees [OF assms(1), of H "observe_bailout f" r route]
    by (cases "st = TURBOJS_IR_OK"; cases "st = TURBOJS_IR_BAILOUT") (auto simp: run_baseline_def)
qed

lemma run_optimized_agrees:
  assumes "agrees E ir args n (te_optimized_invoke T (tf_optimized f) args n)"
    "run_optimized T f args n v tier route D = Tier_return (st, g, r, route') D'"
  shows "interpreted_as E ir args n st r"
proof -
  obtain s x where inv: "te_optimized_invoke T (tf_optimized f) args n v = (s, x)" by fastforce
  have "interpreted_as E ir args n s x" if "s = TURBOJS_IR_OK \<or> s = TURBOJS_IR_EXCEPTION"
    using assms(1) [unfolded agrees_def, rule_format, of v] inv that unfolding interpreted_as_def by auto
  then show ?thesis
    using assms(2) inv unfolding run_optimized_def by (auto split: if_splits prod.splits)
qed

lemma continue_frame:
  assumes "run_optimized T f args n v tier route D = Tier_continue g v' D'"
  shows "tf_cache_key g = tf_cache_key f" "feedback_ok (tf_feedback f) \<Longrightarrow> feedback_ok (tf_feedback g)"
  using assms by (auto simp: run_optimized_def TurboJS_TieredFunctionInvalidateOptimized_def split: if_splits prod.splits)

lemma optimizing_agrees:
  assumes "feedback_ok (tf_feedback f)"
    "\<And>fb d code d'. te_optimizing_compile T ir fb d = (TURBOJS_IR_OK, code, d') \<Longrightarrow> agrees E ir args n (te_optimized_invoke T code args n)"
  shows "\<exists>s d'. optimizing_phase T f ir args n v route d D = Inr (s, d') \<and>
    (case s of
       Tier_return (st, g, r, route') D' \<Rightarrow> interpreted_as E ir args n st r \<or> st \<notin> {TURBOJS_IR_OK, TURBOJS_IR_UNSUPPORTED}
     | Tier_continue g v' D' \<Rightarrow> tf_cache_key g = tf_cache_key f)"
proof -
  obtain rep where rep: "TurboJS_EvaluateOptimization (Some (tf_feedback f)) (Some (tf_optimization_policy f)) = Inr rep"
    using evaluate_ok [OF assms(1)] by blast
  obtain status code d1 where comp: "te_optimizing_compile T ir (tf_feedback f) d = (status, code, d1)" by (metis prod_cases3)
  let ?g = "f\<lparr>tf_optimization_attempted := True, tf_optimized := code,
    tf_stats := (tf_stats f)\<lparr>ts_optimized_compilations := ts_optimized_compilations (tf_stats f) + 1\<rparr>\<rparr>"
  let ?s = "run_optimized T ?g args n v TURBOJS_TIERED_OPTIMIZED_COMPILED route D"
  have ag: "status = TURBOJS_IR_OK \<Longrightarrow> agrees E ir args n (te_optimized_invoke T (tf_optimized ?g) args n)" using assms(2) comp by simp
  have "case ?s of Tier_return (st, g, r, route') D' \<Rightarrow> interpreted_as E ir args n st r
      | Tier_continue g v' D' \<Rightarrow> tf_cache_key g = tf_cache_key f" if ok: "status = TURBOJS_IR_OK"
  proof (cases ?s)
    case (Tier_return x D')
    then show ?thesis using run_optimized_agrees [OF ag [OF ok]] by (cases x) auto
  next
    case (Tier_continue g v' D')
    then show ?thesis using continue_frame(1) [OF Tier_continue] by simp
  qed
  then show ?thesis
    using rep comp by (auto simp: optimizing_phase_def Let_def split: tier_step.splits)
qed

lemma baseline_agrees:
  assumes inv: "vault_inv c V" and key: "tf_cache_key f \<noteq> 0" and gen: "\<And>d. \<exists>status native V1. generates (te_vault T) A ir d V status native V1"
    and interp: "interpretable (ve_jit (te_vault T)) ir args n"
    and hit: "\<And>g. vault_map c (tf_cache_key f) = Some g \<Longrightarrow> agrees (ve_jit (te_vault T)) ir args n (env_native_invoke (ve_jit (te_vault T)) g args n)"
    and new: "agrees (ve_jit (te_vault T)) ir args n (env_native_invoke (ve_jit (te_vault T)) (va_native A) args n)"
    and nonnull: "\<And>g. vault_map c (tf_cache_key f) = Some g \<Longrightarrow> g \<noteq> 0"
  shows "\<exists>st g r route' c' d' V'. baseline_phase T A f c ir args n v route d V = Inr ((st, g, r, route'), Some c', d', V') \<and> vault_inv c' V' \<and>
    (interpreted_as (ve_jit (te_vault T)) ir args n st r \<or> st \<notin> {TURBOJS_IR_OK, TURBOJS_IR_UNSUPPORTED})"
proof (cases "vault_map c (tf_cache_key f)")
  case (Some g)
  obtain c1 where look: "TurboJS_CodeCacheLookup (Some c) (tf_cache_key f) = Inr (g, Some c1)" "vault_inv c1 V"
    using lookup_hit [OF inv Some] by blast
  then show ?thesis
    using run_baseline_agrees [OF interp hit [OF Some], of "vh_jit V" f v TURBOJS_TIERED_BASELINE_NATIVE route] nonnull [OF Some]
    by (auto simp: baseline_phase_def Let_def)
next
  case None
  let ?E = "ve_jit (te_vault T)"
  obtain c1 where look: "TurboJS_CodeCacheLookup (Some c) (tf_cache_key f) = Inr (0, Some c1)" "vault_inv c1 V" "vault_map c1 = vault_map c"
    using lookup_miss [OF inv None] by blast
  show ?thesis
  proof (cases "\<not> tf_compilation_attempted f \<and> tf_compile_threshold f \<le> tf_call_count f")
    case False
    then show ?thesis using look fallback_agrees [OF interp, of "vh_jit V" f v route] by (auto simp: baseline_phase_def Let_def)
  next
    case True
    obtain status native V1 where "generates (te_vault T) A ir d V status native V1" using gen by blast
    then obtain st c2 out d2 V2 where comp: "TurboJS_CodeCacheCompile (te_vault T) A (Some c1) (tf_cache_key f) (Some ir) (Some 0) d V = Inr (st, Some c2, out, d2, V2)"
      "installed A c1 (tf_cache_key f) (Some 0) st c2 out V2"
      using compile_refines [OF look(2) key, of "te_vault T" A ir d status native V1 0] None look(3) by auto
    then have inv2: "vault_inv c2 V2" and out: "st = TURBOJS_IR_OK \<Longrightarrow> out = Some (va_native A)" by (auto simp: installed_def split: if_splits)
    show ?thesis
      using True look(1) comp(1) inv2 out fallback_agrees [OF interp, of "vh_jit V2" "f\<lparr>tf_compilation_attempted := True\<rparr>" v route]
        run_baseline_agrees [OF interp new, of "vh_jit V2" "f\<lparr>tf_compilation_attempted := True, tf_stats := (tf_stats f)\<lparr>ts_baseline_compilations :=
          ts_baseline_compilations (tf_stats f) + 1\<rparr>\<rparr>" v TURBOJS_TIERED_BASELINE_COMPILED route]
      by (cases "st = TURBOJS_IR_OK"; cases "st = TURBOJS_IR_UNSUPPORTED") (auto simp: baseline_phase_def Let_def)
  qed
qed


lemma vault_map_nonnull:
  assumes "vault_inv c V" "vault_map c key = Some g"
  shows "g \<noteq> 0"
proof -
  obtain e where "e \<in> set (cores c)" "live e" "ce_function e = g" using map_of_SomeD [OF assms(2) [unfolded vault_map_def]] by auto
  then show ?thesis using assms(1) by (auto simp: vault_inv_def natives_inv_def entry_owned_def)
qed

text \<open>The code that an invocation may run agrees with the interpreter.\<close>

definition tiers_agree ::
  "tiered_env \<Rightarrow> vault_alloc \<Rightarrow> TurboJSTieredFunction \<Rightarrow> TurboJSCodeCache \<Rightarrow> TurboJSIRFunction \<Rightarrow> i64 list ptr \<Rightarrow> nat \<Rightarrow> bool" where
  "tiers_agree T A f c ir args n \<longleftrightarrow>
     (let E = ve_jit (te_vault T); ok = (\<lambda>run. agrees E ir args n run) in
      interpretable E ir args n \<and>
      (\<forall>g. vault_map c (tf_cache_key f) = Some g \<longrightarrow> ok (env_native_invoke E g args n)) \<and> ok (env_native_invoke E (va_native A) args n) \<and>
      (tf_optimized f \<noteq> 0 \<longrightarrow> ok (te_optimized_invoke T (tf_optimized f) args n)) \<and>
      (\<forall>fb d code d'. te_optimizing_compile T ir fb d = (TURBOJS_IR_OK, code, d') \<longrightarrow> ok (te_optimized_invoke T code args n)))"

lemma invoke_agrees:
  assumes "vault_inv c V" "tf_cache_key f \<noteq> 0" "feedback_ok (tf_feedback f)" "args_ok args n"
    "\<forall>d. \<exists>status native V1. generates (te_vault T) A ir d V status native V1" "tiers_agree T A f c ir args n"
  shows "\<exists>st g c' r route' d' D' V'.
    TurboJS_TieredInvoke T A (Some f) (Some c) (Some ir) args n (Some cell) route d D V = Inr (st, Some g, Some c', Some r, route', d', D', V') \<and>
    vault_inv c' V' \<and>
    (interpreted_as (ve_jit (te_vault T)) ir args n st r \<or> st \<notin> {TURBOJS_IR_OK, TURBOJS_IR_UNSUPPORTED})"
proof -
  let ?E = "ve_jit (te_vault T)"
  have ag: "interpretable ?E ir args n" "agrees ?E ir args n (env_native_invoke ?E (va_native A) args n)"
    "\<And>g. vault_map c (tf_cache_key f) = Some g \<Longrightarrow> agrees ?E ir args n (env_native_invoke ?E g args n)"
    "tf_optimized f \<noteq> 0 \<Longrightarrow> agrees ?E ir args n (te_optimized_invoke T (tf_optimized f) args n)"
    "\<And>fb d code d'. te_optimizing_compile T ir fb d = (TURBOJS_IR_OK, code, d') \<Longrightarrow> agrees ?E ir args n (te_optimized_invoke T code args n)"
    using assms(6) unfolding tiers_agree_def Let_def by blast+
  obtain k v where e: "enter_call f args n = Inr (f\<lparr>tf_call_count := k, tf_feedback := v\<rparr>)" "feedback_ok v"
    using enter_call_ok [OF assms(3,4)] by blast
  let ?f = "f\<lparr>tf_call_count := k, tf_feedback := v\<rparr>"
  show ?thesis
  proof (cases "optimized_phase T ?f args n cell route D")
    case (Tier_return x D')
    obtain st g r route' where x: "x = (st, g, r, route')" by (metis prod_cases4)
    have opt: "tf_optimized f \<noteq> 0" using Tier_return by (auto simp: optimized_phase_def)
    have "interpreted_as ?E ir args n st r"
      using run_optimized_agrees [of ?E ir args n T ?f] ag(4) opt Tier_return x by (simp add: optimized_phase_def)
    then show ?thesis using e(1) Tier_return x assms(1,2) by (simp add: TurboJS_TieredInvoke_def tier_finish_def)
  next
    case (Tier_continue f2 v2 D2)
    have f2: "tf_cache_key f2 = tf_cache_key f" "feedback_ok (tf_feedback f2)"
      using Tier_continue continue_frame [where f = ?f] e(2) by (auto simp: optimized_phase_def split: if_splits)
    have "\<exists>s d3. optimizing_phase T f2 ir args n v2 route d D2 = Inr (s, d3) \<and>
      (case s of Tier_return (st, g, r, route') D' \<Rightarrow> interpreted_as ?E ir args n st r \<or> st \<notin> {TURBOJS_IR_OK, TURBOJS_IR_UNSUPPORTED}
       | Tier_continue g v' D' \<Rightarrow> tf_cache_key g = tf_cache_key f)"
      unfolding f2(1) [symmetric] by (rule optimizing_agrees [OF f2(2)]) (rule ag(5))
    then obtain s d3 where s: "optimizing_phase T f2 ir args n v2 route d D2 = Inr (s, d3)"
      "case s of Tier_return (st, g, r, route') D' \<Rightarrow> interpreted_as ?E ir args n st r \<or> st \<notin> {TURBOJS_IR_OK, TURBOJS_IR_UNSUPPORTED}
       | Tier_continue g v' D' \<Rightarrow> tf_cache_key g = tf_cache_key f"
      by (elim exE conjE) (rule that)
    show ?thesis
    proof (cases s)
      case (Tier_return x D')
      then show ?thesis using e(1) Tier_continue s assms(1,2) by (cases x) (simp add: TurboJS_TieredInvoke_def tier_finish_def)
    next
      case cont: (Tier_continue f3 v3 D3)
      then have f3: "tf_cache_key f3 = tf_cache_key f" using s(2) by simp
      obtain st g r route' c' d' V' where b: "baseline_phase T A f3 c ir args n v3 route d3 V = Inr ((st, g, r, route'), Some c', d', V')"
        "vault_inv c' V'" "interpreted_as ?E ir args n st r \<or> st \<notin> {TURBOJS_IR_OK, TURBOJS_IR_UNSUPPORTED}"
        using baseline_agrees [of c V f3 T A ir args n v3 route d3] assms(1,2,5) ag f3 vault_map_nonnull [OF assms(1)] by auto
      then show ?thesis using e(1) Tier_continue s(1) cont assms(2) by (auto simp: TurboJS_TieredInvoke_def tier_finish_def)
    qed
  qed
qed


text \<open>
  The optimizing compiler is asked at most once for a function: the counters are exact, every
  optimized function that was compiled is either installed or has been destroyed, and there is at most
  one.
\<close>

lemma tiered_optimizes_once:
  assumes "compiler_ok T" "tiered_reach T f D"
  shows "unat (ts_optimized_compilations (tf_stats f)) \<le> 1 \<and>
    unat (ts_optimized_compilations (tf_stats f)) = length D + (if tf_optimized f = 0 then 0 else 1) \<and>
    unat (ts_optimized_invalidations (tf_stats f)) = length D"
  using tiered_reach_once [OF assms] by (auto simp: optimized_once_def split: if_splits)

text \<open>The states of a function that is called without arguments, with the number of calls.\<close>

inductive nullary_reach :: "tiered_env \<Rightarrow> TurboJSTieredFunction \<Rightarrow> nat \<Rightarrow> bool" for T where
  Nullary_started: "TurboJS_TieredFunctionInitAdvanced (Some g) key baseline_threshold optimization_threshold policy = Some f \<Longrightarrow>
    optimization_threshold \<noteq> 1 \<Longrightarrow> nullary_reach T f 0"
| Nullary_invoked: "nullary_reach T f k \<Longrightarrow>
    TurboJS_TieredInvoke T A (Some f) (Some c) (Some ir) args 0 (Some cell) route d D V = Inr (st, Some g, c', r, route', d', D', V') \<Longrightarrow>
    nullary_reach T g (Suc k)"

lemma default_threshold_large: "1000 \<le> default_opt_threshold b"
  by (auto simp: default_opt_threshold_def Let_def)

lemma u32_above_one: "x \<noteq> 0 \<Longrightarrow> x \<noteq> 1 \<Longrightarrow> 1 < (x :: u32)"
  by (metis order_less_le word_le_less_eq word_less_1 word_less_nat_alt not_less)

lemma nullary_reach_cold: "nullary_reach T f k \<Longrightarrow> cold f"
proof (induction rule: nullary_reach.induct)
  case (Nullary_started g key baseline_threshold optimization_threshold policy f)
  have "1 < (if optimization_threshold \<noteq> 0 then optimization_threshold else default_opt_threshold b)" for b
    using Nullary_started(2) default_threshold_large [of b] u32_above_one [of optimization_threshold]
      order.strict_trans2 [of 1 1000 "default_opt_threshold b"] by simp
  then show ?case using Nullary_started(1)
    by (auto simp: TurboJS_TieredFunctionInitAdvanced_def Let_def cold_def null_tiered_def null_tiered_stats_def
        vector_init_def TurboJS_FeedbackVectorInit_def feedback_ok_def)
next
  case (Nullary_invoked f k A c ir args cell route d D V st g c' r route' d' D' V')
  then show ?case using nullary_invoke_cold by (auto simp: args_ok_def split: option.splits)
qed



subsection \<open>Witnesses\<close>

definition example_tiers :: tiered_env where
  "example_tiers = \<lparr>te_vault = example_vault_env, te_optimizing_compile = \<lambda>_ _ d. (TURBOJS_IR_UNSUPPORTED, 0, d),
     te_optimized_invoke = \<lambda>_ _ _ r. (TURBOJS_IR_BAILOUT, r)\<rparr>"

text \<open>Tiers whose baseline code bails out on every call.\<close>

definition example_bailing_tiers :: tiered_env where
  "example_bailing_tiers = example_tiers\<lparr>te_vault := example_vault_env\<lparr>ve_jit := example_env\<lparr>env_native_invoke :=
     \<lambda>_ _ _ r. (TURBOJS_IR_BAILOUT, r)\<rparr>\<rparr>\<rparr>"

definition example_tiered :: TurboJSTieredFunction where
  "example_tiered = the (TurboJS_TieredFunctionInit (Some null_tiered) 4096 2)"

lemma example_tiered_init: "TurboJS_TieredFunctionInitAdvanced (Some null_tiered) 4096 2 0 None = Some example_tiered"
  by (simp add: example_tiered_def TurboJS_TieredFunctionInit_def TurboJS_TieredFunctionInitAdvanced_def Let_def)

lemma example_tiered_simps [simp]: "tf_cache_key example_tiered = 4096" "tf_optimized example_tiered = 0" "feedback_ok (tf_feedback example_tiered)"
  by (simp_all add: example_tiered_def TurboJS_TieredFunctionInit_def TurboJS_TieredFunctionInitAdvanced_def Let_def vector_init_ok null_tiered_def)

lemma example_tiers_generate:
  "\<exists>status native V1. generates (te_vault example_tiers) example_alloc ir d example_vault_heap status native V1"
  "\<exists>status native V1. generates (te_vault example_bailing_tiers) example_alloc ir d example_vault_heap status native V1"
  by (auto simp: generates_def compile_native_def example_tiers_def example_bailing_tiers_def example_vault_env_def example_alloc_def example_vault_heap_def)

lemma return_argument_accepted: "storage_inv return_argument" "sites_resolve H return_argument" "wf_function H return_argument"
  by (simp_all add: storage_inv_def null_function_def sites_resolve_def site_resolves_def return_argument_def
      irf_code_def null_instruction_def enum_sets wf_function_def wf_instruction_def)

lemma return_argument_runs: "TurboJS_IRExecute example_env H (Some return_argument) (Some [7, 0]) 2 (Some v) = Inr (TURBOJS_IR_OK, Some 7)"
proof -
  obtain d where "TurboJS_IRVerify H (Some return_argument) (Some null_diagnostic) = Inr (TURBOJS_IR_OK, d)"
    using verify_ok_iff [OF return_argument_accepted(1,2)] return_argument_accepted(3) by metis
  then show ?thesis by (simp add: TurboJS_IRExecute_def) (simp add: evaluate_ir)
qed

lemma example_tiers_agree: "tiers_agree example_tiers example_alloc example_tiered example_cache return_argument (Some [7, 0]) 2"
  using return_argument_runs
  by (simp add: tiers_agree_def Let_def agrees_def interpretable_def example_inv(3) example_tiers_def example_vault_env_def)
    (simp add: example_env_def)


lemma example_nullary: "\<exists>f. nullary_reach example_bailing_tiers f 1"
proof -
  have agree: "tiers_agree example_bailing_tiers example_alloc example_tiered example_cache return_argument None 0"
    by (simp add: tiers_agree_def Let_def agrees_def interpretable_def example_inv(3) example_bailing_tiers_def example_tiers_def
        TurboJS_IRExecute_def return_argument_def)
  have start: "nullary_reach example_bailing_tiers example_tiered 0" by (rule Nullary_started [OF example_tiered_init]) simp
  obtain st g c' r route' d' D' V' where "TurboJS_TieredInvoke example_bailing_tiers example_alloc (Some example_tiered) (Some example_cache)
      (Some return_argument) None 0 (Some 0) None None [] example_vault_heap = Inr (st, Some g, Some c', Some r, route', d', D', V')"
    using invoke_agrees [OF example_inv(1) _ _ _ _ agree, of 0 None None "[]"] example_tiers_generate(2) by (auto simp: args_ok_def)
  from Nullary_invoked [OF start this] show ?thesis by auto
qed


end
