(* ===== verification/OSR.thy ===== *)
theory OSR
  imports JIT_Types
begin

text \<open>
  On-stack replacement, \<^verbatim>\<open>src/jit/runtime/osr.c\<close>, \<^verbatim>\<open>osr_frame.c\<close> and \<^verbatim>\<open>osr_entry.c\<close>: the state of a
  loop, typed snapshots of its frame, and entering compiled code in the middle of the loop.

  Arrays are pointers to lists, so that the null pointer and an array that is too short can be told
  apart from the counts beside them. The compiled loop is a function from the frame to the frame it
  leaves behind. Copying no values between null pointers is taken to have no effect.
\<close>

section \<open>Loop state\<close>

datatype TurboJSOSRDecision =
    TURBOJS_OSR_CONTINUE_INTERPRETING | TURBOJS_OSR_REQUEST_COMPILE | TURBOJS_OSR_ENTER_READY_CODE | TURBOJS_OSR_DISABLED

record TurboJSOSRState =
  os_backedge_count :: u32
  os_compile_threshold :: u32
  os_entry_count :: u32
  os_bailout_count :: u32
  os_loop_header :: u32
  os_compilation_requested :: bool
  os_code_ready :: bool
  os_disabled :: bool

definition u32_inc :: "u32 \<Rightarrow> u32" where
  "u32_inc v = (if unat v \<noteq> UINT32_MAX then v + 1 else v)"

definition TurboJS_OSRStateInit :: "TurboJSOSRState ptr \<Rightarrow> u32 \<Rightarrow> u32 \<Rightarrow> TurboJSOSRState ptr" where
  "TurboJS_OSRStateInit s header threshold =
     map_option (\<lambda>_. \<lparr>os_backedge_count = 0, os_compile_threshold = (if threshold \<noteq> 0 then threshold else 1), os_entry_count = 0,
       os_bailout_count = 0, os_loop_header = header, os_compilation_requested = False, os_code_ready = False,
       os_disabled = False\<rparr>) s"

definition TurboJS_OSRObserveBackedge :: "TurboJSOSRState ptr \<Rightarrow> TurboJSOSRDecision \<times> TurboJSOSRState ptr" where
  "TurboJS_OSRObserveBackedge state =
     (case state of
        None \<Rightarrow> (TURBOJS_OSR_DISABLED, None)
      | Some s \<Rightarrow>
          if os_disabled s then (TURBOJS_OSR_DISABLED, state)
          else
            (let s1 = s\<lparr>os_backedge_count := u32_inc (os_backedge_count s)\<rparr>
             in if os_code_ready s1 then (TURBOJS_OSR_ENTER_READY_CODE, Some s1)
                else if \<not> os_compilation_requested s1 \<and> os_compile_threshold s1 \<le> os_backedge_count s1
                then (TURBOJS_OSR_REQUEST_COMPILE, Some (s1\<lparr>os_compilation_requested := True\<rparr>))
                else (TURBOJS_OSR_CONTINUE_INTERPRETING, Some s1)))"

definition TurboJS_OSRMarkCodeReady :: "TurboJSOSRState ptr \<Rightarrow> TurboJSOSRState ptr" where
  "TurboJS_OSRMarkCodeReady state = map_option (\<lambda>s. if os_disabled s then s else s\<lparr>os_code_ready := True\<rparr>) state"

definition TurboJS_OSRRecordEntry :: "TurboJSOSRState ptr \<Rightarrow> TurboJSOSRState ptr" where
  "TurboJS_OSRRecordEntry state = map_option (\<lambda>s. s\<lparr>os_entry_count := u32_inc (os_entry_count s)\<rparr>) state"

definition TurboJS_OSRRecordBailout :: "TurboJSOSRState ptr \<Rightarrow> u32 \<Rightarrow> TurboJSOSRState ptr" where
  "TurboJS_OSRRecordBailout state limit =
     map_option (\<lambda>s.
       (let s1 = s\<lparr>os_bailout_count := u32_inc (os_bailout_count s), os_code_ready := False\<rparr>
        in if limit \<noteq> 0 \<and> limit \<le> os_bailout_count s1 then s1\<lparr>os_disabled := True\<rparr> else s1)) state"

section \<open>Frames\<close>

text \<open>The kind is kept as the number in memory: \<^verbatim>\<open>TurboJSOSRValueKind\<close> has the values 0 to 3.\<close>

record TurboJSOSRValue =
  ov_bits :: u64
  ov_kind :: u32

record TurboJSOSRFrame =
  of_locals :: "TurboJSOSRValue list ptr"
  of_stack :: "TurboJSOSRValue list ptr"
  of_local_count :: u32
  of_stack_count :: u32
  of_bytecode_offset :: u32
  of_loop_header :: u32

definition null_osr_frame :: TurboJSOSRFrame where
  "null_osr_frame = \<lparr>of_locals = None, of_stack = None, of_local_count = 0, of_stack_count = 0, of_bytecode_offset = 0,
     of_loop_header = 0\<rparr>"

definition null_osr_value :: TurboJSOSRValue where
  "null_osr_value = \<lparr>ov_bits = 0, ov_kind = 0\<rparr>"

definition valid_kind :: "u32 \<Rightarrow> bool" where
  "valid_kind kind \<longleftrightarrow> kind \<le> 3"

definition TurboJS_OSRFrameInit :: "bool \<Rightarrow> bool \<Rightarrow> TurboJSOSRFrame ptr \<Rightarrow> u32 \<Rightarrow> u32 \<Rightarrow> TurboJSIRStatus \<times> TurboJSOSRFrame ptr" where
  "TurboJS_OSRFrameInit locals_ok stack_ok frame local_count stack_count =
     (case frame of
        None \<Rightarrow> (TURBOJS_IR_INVALID_ARGUMENT, None)
      | Some _ \<Rightarrow>
          if local_count \<noteq> 0 \<and> \<not> locals_ok then (TURBOJS_IR_OUT_OF_MEMORY, Some null_osr_frame)
          else if stack_count \<noteq> 0 \<and> \<not> stack_ok then (TURBOJS_IR_OUT_OF_MEMORY, Some null_osr_frame)
          else (TURBOJS_IR_OK, Some (null_osr_frame\<lparr>
            of_locals := (if local_count \<noteq> 0 then Some (replicate (unat local_count) null_osr_value) else None),
            of_stack := (if stack_count \<noteq> 0 then Some (replicate (unat stack_count) null_osr_value) else None),
            of_local_count := local_count, of_stack_count := stack_count\<rparr>)))"

definition TurboJS_OSRFrameDestroy :: "TurboJSOSRFrame ptr \<Rightarrow> TurboJSOSRFrame ptr" where
  "TurboJS_OSRFrameDestroy frame = map_option (\<lambda>_. null_osr_frame) frame"

fun kinds_valid :: "nat \<Rightarrow> nat \<Rightarrow> TurboJSOSRValue list \<Rightarrow> bool c" where
  "kinds_valid 0 i values = Inr True"
| "kinds_valid (Suc n) i values =
     bindc (rd values i) (\<lambda>v. if \<not> valid_kind (ov_kind v) then Inr False else kinds_valid n (i + 1) values)"

definition array_valid :: "u32 \<Rightarrow> TurboJSOSRValue list ptr \<Rightarrow> bool c" where
  "array_valid count values = kinds_valid (unat count) 0 (case values of None \<Rightarrow> [] | Some vs \<Rightarrow> vs)"

definition TurboJS_OSRFrameValidate :: "TurboJSOSRFrame ptr \<Rightarrow> TurboJSIRStatus c" where
  "TurboJS_OSRFrameValidate frame =
     (case frame of
        None \<Rightarrow> Inr TURBOJS_IR_INVALID_ARGUMENT
      | Some f \<Rightarrow>
          if (of_local_count f \<noteq> 0 \<and> of_locals f = None) \<or> (of_stack_count f \<noteq> 0 \<and> of_stack f = None)
          then Inr TURBOJS_IR_INVALID_ARGUMENT
          else bindc (array_valid (of_local_count f) (of_locals f)) (\<lambda>ok.
               if \<not> ok then Inr TURBOJS_IR_INVALID_ARGUMENT
               else bindc (array_valid (of_stack_count f) (of_stack f)) (\<lambda>ok.
                    if \<not> ok then Inr TURBOJS_IR_INVALID_ARGUMENT else Inr TURBOJS_IR_OK)))"

text \<open>\<^verbatim>\<open>memcpy\<close> of a number of values.\<close>

definition memcpy :: "nat \<Rightarrow> TurboJSOSRValue list ptr \<Rightarrow> TurboJSOSRValue list ptr \<Rightarrow> TurboJSOSRValue list ptr c" where
  "memcpy n dst src =
     (if n = 0 then Inr dst
      else (case (dst, src) of
              (Some d, Some s) \<Rightarrow> if n \<le> length d \<and> n \<le> length s then Inr (Some (take n s @ drop n d)) else Inl Fault_bounds
            | _ \<Rightarrow> Inl Fault_bounds))"

definition TurboJS_OSRFrameCapture ::
  "TurboJSOSRFrame ptr \<Rightarrow> TurboJSOSRValue list ptr \<Rightarrow> u32 \<Rightarrow> TurboJSOSRValue list ptr \<Rightarrow> u32 \<Rightarrow> u32 \<Rightarrow> u32
     \<Rightarrow> (TurboJSIRStatus \<times> TurboJSOSRFrame ptr) c" where
  "TurboJS_OSRFrameCapture frame locals local_count stack stack_count bytecode_offset loop_header =
     (case frame of
        None \<Rightarrow> Inr (TURBOJS_IR_INVALID_ARGUMENT, None)
      | Some f \<Rightarrow>
          if local_count \<noteq> of_local_count f \<or> stack_count \<noteq> of_stack_count f \<or>
             (local_count \<noteq> 0 \<and> locals = None) \<or> (stack_count \<noteq> 0 \<and> stack = None)
          then Inr (TURBOJS_IR_INVALID_ARGUMENT, frame)
          else bindc (memcpy (unat local_count) (of_locals f) locals) (\<lambda>ls.
               bindc (memcpy (unat stack_count) (of_stack f) stack) (\<lambda>ss.
                 (let g = Some (f\<lparr>of_locals := ls, of_stack := ss, of_bytecode_offset := bytecode_offset,
                                  of_loop_header := loop_header\<rparr>)
                  in bindc (TurboJS_OSRFrameValidate g) (\<lambda>st. Inr (st, g))))))"

definition TurboJS_OSRFrameRestore ::
  "TurboJSOSRFrame ptr \<Rightarrow> TurboJSOSRValue list ptr \<Rightarrow> u32 \<Rightarrow> TurboJSOSRValue list ptr \<Rightarrow> u32
     \<Rightarrow> (TurboJSIRStatus \<times> TurboJSOSRValue list ptr \<times> TurboJSOSRValue list ptr) c" where
  "TurboJS_OSRFrameRestore frame locals local_capacity stack stack_capacity =
     bindc (TurboJS_OSRFrameValidate frame) (\<lambda>status.
       if status \<noteq> TURBOJS_IR_OK then Inr (status, locals, stack)
       else
         (let f = the frame
          in if local_capacity < of_local_count f \<or> stack_capacity < of_stack_count f \<or>
                (of_local_count f \<noteq> 0 \<and> locals = None) \<or> (of_stack_count f \<noteq> 0 \<and> stack = None)
             then Inr (TURBOJS_IR_INVALID_ARGUMENT, locals, stack)
             else bindc (memcpy (unat (of_local_count f)) locals (of_locals f)) (\<lambda>ls.
                  bindc (memcpy (unat (of_stack_count f)) stack (of_stack f)) (\<lambda>ss.
                    Inr (TURBOJS_IR_OK, ls, ss)))))"

section \<open>Entry\<close>

datatype TurboJSOSRExitKind = TURBOJS_OSR_EXIT_COMPLETED | TURBOJS_OSR_EXIT_BAILOUT | TURBOJS_OSR_EXIT_ERROR

text \<open>The callback and its opaque argument are one function.\<close>

record TurboJSOSREntry =
  oe_callback :: "(TurboJSOSRFrame \<Rightarrow> u32 \<Rightarrow> TurboJSOSRExitKind \<times> TurboJSOSRFrame \<times> u32) ptr"
  oe_loop_header :: u32
  oe_bailout_limit :: u32

record TurboJSOSRExecutionResult =
  oer_exit_kind :: TurboJSOSRExitKind
  oer_resume_bytecode_offset :: u32
  oer_restored_original_frame :: bool

definition null_execution_result :: TurboJSOSRExecutionResult where
  "null_execution_result = \<lparr>oer_exit_kind = TURBOJS_OSR_EXIT_COMPLETED, oer_resume_bytecode_offset = 0,
     oer_restored_original_frame = False\<rparr>"

definition clone_frame :: "bool \<Rightarrow> bool \<Rightarrow> TurboJSOSRFrame \<Rightarrow> (TurboJSIRStatus \<times> TurboJSOSRFrame) c" where
  "clone_frame locals_ok stack_ok src =
     bindc (TurboJS_OSRFrameValidate (Some src)) (\<lambda>st.
       if st \<noteq> TURBOJS_IR_OK then Inr (st, null_osr_frame)
       else (case TurboJS_OSRFrameInit locals_ok stack_ok (Some null_osr_frame) (of_local_count src) (of_stack_count src) of (st, dst) \<Rightarrow>
         if st \<noteq> TURBOJS_IR_OK then Inr (st, the dst)
         else bindc (TurboJS_OSRFrameCapture dst (of_locals src) (of_local_count src) (of_stack src) (of_stack_count src)
                       (of_bytecode_offset src) (of_loop_header src)) (\<lambda>(st, dst).
                if st \<noteq> TURBOJS_IR_OK then Inr (st, the (TurboJS_OSRFrameDestroy dst)) else Inr (st, the dst))))"

definition TurboJS_OSRExecuteEntry ::
  "bool \<Rightarrow> bool \<Rightarrow> TurboJSOSRState ptr \<Rightarrow> TurboJSOSREntry ptr \<Rightarrow> TurboJSOSRFrame ptr \<Rightarrow> TurboJSOSRExecutionResult ptr
     \<Rightarrow> (TurboJSIRStatus \<times> TurboJSOSRState ptr \<times> TurboJSOSRFrame ptr \<times> TurboJSOSRExecutionResult ptr) c" where
  "TurboJS_OSRExecuteEntry locals_ok stack_ok state entry live_frame result =
     (case (state, Option.bind entry oe_callback, live_frame, result) of
        (Some s, Some callback, Some f, Some _) \<Rightarrow>
          (let e = the entry; r0 = null_execution_result
           in bindc (TurboJS_OSRFrameValidate live_frame) (\<lambda>st.
                if st \<noteq> TURBOJS_IR_OK then Inr (st, state, live_frame, Some r0)
                else if os_disabled s \<or> \<not> os_code_ready s \<or> of_loop_header f \<noteq> oe_loop_header e \<or> os_loop_header s \<noteq> oe_loop_header e
                then Inr (TURBOJS_IR_UNSUPPORTED, state, live_frame, Some r0)
                else bindc (clone_frame locals_ok stack_ok f) (\<lambda>(st, backup).
                  if st \<noteq> TURBOJS_IR_OK then Inr (st, state, live_frame, Some r0)
                  else (case callback f (of_bytecode_offset f) of (exit_kind, g, resume) \<Rightarrow>
                    (let r = r0\<lparr>oer_exit_kind := exit_kind, oer_resume_bytecode_offset := resume\<rparr>;
                         status = (if exit_kind = TURBOJS_OSR_EXIT_ERROR then TURBOJS_IR_EXCEPTION else TURBOJS_IR_OK)
                     in if exit_kind = TURBOJS_OSR_EXIT_COMPLETED
                        then Inr (status, TurboJS_OSRRecordEntry state, Some (g\<lparr>of_bytecode_offset := resume\<rparr>), Some r)
                        else bindc (memcpy (unat (of_local_count backup)) (of_locals g) (of_locals backup)) (\<lambda>ls.
                             bindc (memcpy (unat (of_stack_count backup)) (of_stack g) (of_stack backup)) (\<lambda>ss.
                               Inr (status, TurboJS_OSRRecordBailout state (oe_bailout_limit e),
                                 Some (g\<lparr>of_locals := ls, of_stack := ss, of_bytecode_offset := of_bytecode_offset backup,
                                         of_loop_header := of_loop_header backup\<rparr>),
                                 Some (r\<lparr>oer_resume_bytecode_offset := of_bytecode_offset backup,
                                         oer_restored_original_frame := True\<rparr>)))))))))
      | _ \<Rightarrow> Inr (TURBOJS_IR_INVALID_ARGUMENT, state, live_frame, result))"

section \<open>Facts about frames\<close>

text \<open>
  What every frame in memory satisfies: a count that is not zero comes with an array of that many
  values. \<open>frame_kinds\<close> is what \<^verbatim>\<open>TurboJS_OSRFrameValidate\<close> checks.
\<close>

definition values_of :: "TurboJSOSRValue list ptr \<Rightarrow> TurboJSOSRValue list" where
  "values_of p = (case p of None \<Rightarrow> [] | Some vs \<Rightarrow> vs)"

definition array_shape :: "u32 \<Rightarrow> TurboJSOSRValue list ptr \<Rightarrow> bool" where
  "array_shape count p \<longleftrightarrow> length (values_of p) = unat count"

definition frame_shape :: "TurboJSOSRFrame \<Rightarrow> bool" where
  "frame_shape f \<longleftrightarrow> array_shape (of_local_count f) (of_locals f) \<and> array_shape (of_stack_count f) (of_stack f)"

definition frame_kinds :: "TurboJSOSRFrame \<Rightarrow> bool" where
  "frame_kinds f \<longleftrightarrow> (\<forall>v\<in>set (values_of (of_locals f)) \<union> set (values_of (of_stack f)). valid_kind (ov_kind v))"

lemmas shape_defs = frame_shape_def array_shape_def values_of_def

lemma array_shape_null: "array_shape n None \<longleftrightarrow> n = 0"
  by (auto simp: array_shape_def values_of_def unat_eq_0)

lemma array_shape_some: "array_shape n (Some vs) \<longleftrightarrow> length vs = unat n"
  by (simp add: array_shape_def values_of_def)

lemma kinds_valid_exact:
  "i + n \<le> length vs \<Longrightarrow> kinds_valid n i vs = Inr (\<forall>v\<in>set (take n (drop i vs)). valid_kind (ov_kind v))"
proof (induction n i vs rule: kinds_valid.induct)
  case (2 n i vs)
  then have step: "take (Suc n) (drop i vs) = vs ! i # take n (drop (i + 1) vs)"
    by (simp add: Cons_nth_drop_Suc [symmetric])
  from 2 show ?case
    unfolding step by (simp add: rd_def bindc_def)
qed simp

lemma array_valid_exact:
  "array_shape n p \<Longrightarrow> array_valid n p = Inr (\<forall>v\<in>set (values_of p). valid_kind (ov_kind v))"
  using kinds_valid_exact [of 0 "unat n" "values_of p"]
  by (simp add: array_valid_def array_shape_def values_of_def split: option.splits)

lemma frame_validate_exact:
  assumes "frame_shape f"
  shows "TurboJS_OSRFrameValidate (Some f) = Inr (if frame_kinds f then TURBOJS_IR_OK else TURBOJS_IR_INVALID_ARGUMENT)"
proof -
  from assms have a: "array_shape (of_local_count f) (of_locals f)" "array_shape (of_stack_count f) (of_stack f)"
    by (simp_all add: frame_shape_def)
  then have nonnull: "\<not> ((of_local_count f \<noteq> 0 \<and> of_locals f = None) \<or> (of_stack_count f \<noteq> 0 \<and> of_stack f = None))"
    by (auto simp: array_shape_null)
  have "frame_kinds f \<longleftrightarrow> (\<forall>v\<in>set (values_of (of_locals f)). valid_kind (ov_kind v)) \<and>
                         (\<forall>v\<in>set (values_of (of_stack f)). valid_kind (ov_kind v))"
    by (auto simp: frame_kinds_def)
  with a nonnull show ?thesis
    by (simp add: TurboJS_OSRFrameValidate_def array_valid_exact bindc_def del: not_None_eq)
qed

lemma memcpy_into_buffer:
  assumes "array_shape n src" "unat n \<le> length (values_of dst)"
  shows "memcpy (unat n) dst src = Inr (map_option (\<lambda>d. values_of src @ drop (unat n) d) dst)"
  using assms by (auto simp: memcpy_def array_shape_def values_of_def unat_eq_0 split: option.splits)

lemma memcpy_calloc:
  assumes "array_shape n src"
  shows "memcpy (unat n) (if n \<noteq> 0 then Some (replicate (unat n) v) else None) src =
           Inr (if n \<noteq> 0 then src else None)"
  using assms by (auto simp: memcpy_def array_shape_def values_of_def unat_eq_0 split: option.splits)

text \<open>The frame that \<^verbatim>\<open>TurboJS_OSRFrameInit\<close> and \<^verbatim>\<open>TurboJS_OSRFrameCapture\<close> build together.\<close>

definition snapshot :: "TurboJSOSRValue list ptr \<Rightarrow> u32 \<Rightarrow> TurboJSOSRValue list ptr \<Rightarrow> u32 \<Rightarrow> u32 \<Rightarrow> u32 \<Rightarrow> TurboJSOSRFrame" where
  "snapshot locals local_count stack stack_count offset header =
     \<lparr>of_locals = (if local_count \<noteq> 0 then locals else None), of_stack = (if stack_count \<noteq> 0 then stack else None),
      of_local_count = local_count, of_stack_count = stack_count, of_bytecode_offset = offset, of_loop_header = header\<rparr>"

lemma snapshot_shape:
  "array_shape lc ls \<Longrightarrow> array_shape sc ss \<Longrightarrow> frame_shape (snapshot ls lc ss sc off hdr)"
  by (simp add: frame_shape_def snapshot_def array_shape_null)

lemma snapshot_kinds:
  assumes "array_shape lc ls" "array_shape sc ss"
  shows "frame_kinds (snapshot ls lc ss sc off hdr) \<longleftrightarrow>
           (\<forall>v\<in>set (values_of ls) \<union> set (values_of ss). valid_kind (ov_kind v))"
  using assms by (auto simp: frame_kinds_def snapshot_def array_shape_def values_of_def)

lemma init_capture:
  assumes "array_shape lc ls" "array_shape sc ss"
    and init: "TurboJS_OSRFrameInit lo so (Some f0) lc sc = (TURBOJS_IR_OK, f1)"
  shows "TurboJS_OSRFrameCapture f1 ls lc ss sc off hdr =
           Inr (if \<forall>v\<in>set (values_of ls) \<union> set (values_of ss). valid_kind (ov_kind v)
                then TURBOJS_IR_OK else TURBOJS_IR_INVALID_ARGUMENT, Some (snapshot ls lc ss sc off hdr))"
proof -
  define cl where "cl = (if lc \<noteq> 0 then Some (replicate (unat lc) null_osr_value) else None)"
  define cs where "cs = (if sc \<noteq> 0 then Some (replicate (unat sc) null_osr_value) else None)"
  define fr where "fr = null_osr_frame\<lparr>of_locals := cl, of_stack := cs, of_local_count := lc, of_stack_count := sc\<rparr>"
  define g where "g = snapshot ls lc ss sc off hdr"
  from init have f1: "f1 = Some fr"
    unfolding fr_def cl_def cs_def by (auto simp: TurboJS_OSRFrameInit_def split: if_splits)
  have fr: "of_locals fr = cl" "of_stack fr = cs" "of_local_count fr = lc" "of_stack_count fr = sc"
    by (simp_all add: fr_def)
  have nonnull: "(lc \<noteq> 0 \<and> ls = None) = False" "(sc \<noteq> 0 \<and> ss = None) = False"
    using assms(1,2) by (auto simp: array_shape_null)
  have copies: "memcpy (unat lc) cl ls = Inr (if lc \<noteq> 0 then ls else None)" "memcpy (unat sc) cs ss = Inr (if sc \<noteq> 0 then ss else None)"
    unfolding cl_def cs_def by (rule memcpy_calloc, fact)+
  have g: "fr\<lparr>of_locals := if lc \<noteq> 0 then ls else None, of_stack := if sc \<noteq> 0 then ss else None,
      of_bytecode_offset := off, of_loop_header := hdr\<rparr> = g"
    by (simp add: fr_def g_def null_osr_frame_def snapshot_def)
  have "TurboJS_OSRFrameCapture f1 ls lc ss sc off hdr =
          bindc (TurboJS_OSRFrameValidate (Some g)) (\<lambda>st. Inr (st, Some g))"
    unfolding TurboJS_OSRFrameCapture_def f1 option.case fr nonnull copies bindc_def sum.case Let_def g by simp
  then show ?thesis
    unfolding g_def frame_validate_exact [OF snapshot_shape [OF assms(1,2)]] snapshot_kinds [OF assms(1,2)]
    by (simp add: bindc_def)
qed

lemma clone_frame_exact:
  assumes "frame_shape f" "frame_kinds f"
  shows "\<exists>st b. clone_frame lo so f = Inr (st, b) \<and>
           st = (if (of_local_count f \<noteq> 0 \<and> \<not> lo) \<or> (of_stack_count f \<noteq> 0 \<and> \<not> so) then TURBOJS_IR_OUT_OF_MEMORY else TURBOJS_IR_OK) \<and>
           (st = TURBOJS_IR_OK \<longrightarrow>
              b = snapshot (of_locals f) (of_local_count f) (of_stack f) (of_stack_count f) (of_bytecode_offset f) (of_loop_header f))"
proof -
  from assms(1) have a: "array_shape (of_local_count f) (of_locals f)" "array_shape (of_stack_count f) (of_stack f)"
    by (simp_all add: frame_shape_def)
  have kinds: "\<forall>v\<in>set (values_of (of_locals f)) \<union> set (values_of (of_stack f)). valid_kind (ov_kind v)"
    using assms(2) by (simp add: frame_kinds_def)
  obtain st dst where init: "TurboJS_OSRFrameInit lo so (Some null_osr_frame) (of_local_count f) (of_stack_count f) = (st, dst)"
    by (cases "TurboJS_OSRFrameInit lo so (Some null_osr_frame) (of_local_count f) (of_stack_count f)") simp
  have st: "st = (if (of_local_count f \<noteq> 0 \<and> \<not> lo) \<or> (of_stack_count f \<noteq> 0 \<and> \<not> so) then TURBOJS_IR_OUT_OF_MEMORY else TURBOJS_IR_OK)"
    using init by (auto simp: TurboJS_OSRFrameInit_def split: if_splits)
  show ?thesis
  proof (cases "st = TURBOJS_IR_OK")
    case True
    show ?thesis
      using init_capture [OF a init [unfolded True]] kinds st True frame_validate_exact [OF assms(1)] assms(2)
      by (simp add: clone_frame_def init bindc_def)
  next
    case False
    then show ?thesis
      using st frame_validate_exact [OF assms(1)] assms(2)
      by (simp add: clone_frame_def init bindc_def)
  qed
qed

section \<open>Entering compiled code\<close>

text \<open>
  What compiled code promises about the frame it runs on: it writes into the arrays and does not
  exchange or resize them.
\<close>

definition keeps_arrays :: "TurboJSOSRFrame \<Rightarrow> TurboJSOSRFrame \<Rightarrow> bool" where
  "keeps_arrays f g \<longleftrightarrow> of_local_count g = of_local_count f \<and> of_stack_count g = of_stack_count f \<and>
     map_option length (of_locals g) = map_option length (of_locals f) \<and>
     map_option length (of_stack g) = map_option length (of_stack f)"

definition entry_allowed :: "TurboJSOSRState \<Rightarrow> TurboJSOSREntry \<Rightarrow> TurboJSOSRFrame \<Rightarrow> bool" where
  "entry_allowed s e f \<longleftrightarrow> \<not> os_disabled s \<and> os_code_ready s \<and> of_loop_header f = oe_loop_header e \<and> os_loop_header s = oe_loop_header e"

definition backup_fails :: "bool \<Rightarrow> bool \<Rightarrow> TurboJSOSRFrame \<Rightarrow> bool" where
  "backup_fails lo so f \<longleftrightarrow> (of_local_count f \<noteq> 0 \<and> \<not> lo) \<or> (of_stack_count f \<noteq> 0 \<and> \<not> so)"

lemma memcpy_restores:
  assumes "array_shape n src" "map_option length dst = map_option length src"
  shows "memcpy (unat n) dst (if n \<noteq> 0 then src else None) = Inr src"
  using assms
  by (cases dst; cases src) (auto simp: memcpy_def array_shape_def values_of_def unat_eq_0)

lemma keeps_arrays_frame:
  assumes "keeps_arrays f g"
  shows "g\<lparr>of_locals := of_locals f, of_stack := of_stack f, of_bytecode_offset := of_bytecode_offset f,
           of_loop_header := of_loop_header f\<rparr> = f"
  using assms by (cases f; cases g) (simp add: keeps_arrays_def)

text \<open>
  C12. Entering compiled loop code is a transaction on the live frame. Nothing faults; a frame with a
  value of unknown kind, a loop that is disabled, not compiled or another one, and a backup that
  cannot be allocated are refused without touching the frame or the state. Code that completes keeps
  its frame, moved to the resume offset, and counts as an entry. Code that bails out or fails has all
  its writes undone: the frame is the one that entered, the result says so and resumes where the loop
  stood, and the state counts a bailout, forgets the code and is disabled once the limit is reached.
\<close>

theorem osr_entry_transactional:
  assumes shape: "frame_shape f"
    and code: "oe_callback e = Some callback"
    and keeps: "\<And>k g resume. callback f (of_bytecode_offset f) = (k, g, resume) \<Longrightarrow> keeps_arrays f g"
  shows "\<exists>st s' f' r'.
    TurboJS_OSRExecuteEntry lo so (Some s) (Some e) (Some f) (Some r) = Inr (st, Some s', Some f', Some r') \<and>
    (if \<not> frame_kinds f then st = TURBOJS_IR_INVALID_ARGUMENT \<and> s' = s \<and> f' = f
     else if \<not> entry_allowed s e f then st = TURBOJS_IR_UNSUPPORTED \<and> s' = s \<and> f' = f
     else if backup_fails lo so f then st = TURBOJS_IR_OUT_OF_MEMORY \<and> s' = s \<and> f' = f
     else (case callback f (of_bytecode_offset f) of
         (TURBOJS_OSR_EXIT_COMPLETED, g, resume) \<Rightarrow>
           st = TURBOJS_IR_OK \<and> f' = g\<lparr>of_bytecode_offset := resume\<rparr> \<and>
           s' = s\<lparr>os_entry_count := u32_inc (os_entry_count s)\<rparr> \<and>
           r' = \<lparr>oer_exit_kind = TURBOJS_OSR_EXIT_COMPLETED, oer_resume_bytecode_offset = resume, oer_restored_original_frame = False\<rparr>
       | (k, _, _) \<Rightarrow>
           st = (if k = TURBOJS_OSR_EXIT_ERROR then TURBOJS_IR_EXCEPTION else TURBOJS_IR_OK) \<and> f' = f \<and>
           s' = s\<lparr>os_bailout_count := u32_inc (os_bailout_count s), os_code_ready := False,
                   os_disabled := oe_bailout_limit e \<noteq> 0 \<and> oe_bailout_limit e \<le> u32_inc (os_bailout_count s)\<rparr> \<and>
           r' = \<lparr>oer_exit_kind = k, oer_resume_bytecode_offset = of_bytecode_offset f, oer_restored_original_frame = True\<rparr>))"
proof -
  note exec = TurboJS_OSRExecuteEntry_def frame_validate_exact [OF shape] bindc_def Let_def code
  show ?thesis
  proof (cases "frame_kinds f \<and> entry_allowed s e f")
    case False
    then show ?thesis
      by (auto simp: exec entry_allowed_def)
  next
    case True
    then have kinds: "frame_kinds f" and en: "\<not> os_disabled s" "os_code_ready s" "of_loop_header f = oe_loop_header e" "os_loop_header s = oe_loop_header e"
      by (simp_all add: entry_allowed_def)
    obtain st b where clone: "clone_frame lo so f = Inr (st, b)"
        "st = (if backup_fails lo so f then TURBOJS_IR_OUT_OF_MEMORY else TURBOJS_IR_OK)"
        "st = TURBOJS_IR_OK \<longrightarrow> b = snapshot (of_locals f) (of_local_count f) (of_stack f) (of_stack_count f) (of_bytecode_offset f) (of_loop_header f)"
      using clone_frame_exact [OF shape kinds, of lo so] unfolding backup_fails_def by blast
    obtain k g resume where cb: "callback f (of_bytecode_offset f) = (k, g, resume)"
      by (cases "callback f (of_bytecode_offset f)") auto
    note keep = keeps [OF cb]
    show ?thesis
    proof (cases "backup_fails lo so f")
      case True
      then show ?thesis
        using kinds en clone by (simp add: exec entry_allowed_def)
    next
      case False
      have restore: "memcpy (unat (of_local_count f)) (of_locals g) (of_locals b) = Inr (of_locals f)"
          "memcpy (unat (of_stack_count f)) (of_stack g) (of_stack b) = Inr (of_stack f)"
        and b: "of_local_count b = of_local_count f" "of_stack_count b = of_stack_count f"
          "of_bytecode_offset b = of_bytecode_offset f" "of_loop_header b = of_loop_header f"
        using clone False keep shape memcpy_restores
        by (simp_all add: snapshot_def keeps_arrays_def frame_shape_def)
      have same: "g\<lparr>of_locals := of_locals f, of_stack := of_stack f, of_bytecode_offset := of_bytecode_offset f, of_loop_header := oe_loop_header e\<rparr> = f"
        using keeps_arrays_frame [OF keep] en by simp
      have enabled: "s\<lparr>os_bailout_count := n, os_code_ready := False, os_disabled := False\<rparr> = s\<lparr>os_bailout_count := n, os_code_ready := False\<rparr>" for n
        using en(1) by (cases s) simp
      show ?thesis
        using False kinds en clone(1,2) cb
        by (cases k)
          (simp_all add: exec entry_allowed_def restore b same enabled TurboJS_OSRRecordEntry_def TurboJS_OSRRecordBailout_def null_execution_result_def)
    qed
  qed
qed

definition sample_osr_frame :: TurboJSOSRFrame where
  "sample_osr_frame = \<lparr>of_locals = Some [\<lparr>ov_bits = 7, ov_kind = 1\<rparr>], of_stack = None, of_local_count = 1, of_stack_count = 0,
     of_bytecode_offset = 40, of_loop_header = 32\<rparr>"

text \<open>Code that overwrites the first local and then bails out.\<close>

definition sample_osr_code :: "TurboJSOSRFrame \<Rightarrow> u32 \<Rightarrow> TurboJSOSRExitKind \<times> TurboJSOSRFrame \<times> u32" where
  "sample_osr_code f resume = (TURBOJS_OSR_EXIT_BAILOUT, f\<lparr>of_locals := map_option (map (\<lambda>v. v\<lparr>ov_bits := 99\<rparr>)) (of_locals f)\<rparr>, 80)"

definition sample_osr_entry :: TurboJSOSREntry where
  "sample_osr_entry = \<lparr>oe_callback = Some sample_osr_code, oe_loop_header = 32, oe_bailout_limit = 1\<rparr>"

definition null_osr_state :: TurboJSOSRState where
  "null_osr_state = \<lparr>os_backedge_count = 0, os_compile_threshold = 0, os_entry_count = 0, os_bailout_count = 0, os_loop_header = 0,
     os_compilation_requested = False, os_code_ready = False, os_disabled = False\<rparr>"

definition sample_osr_state :: TurboJSOSRState where
  "sample_osr_state = the (TurboJS_OSRMarkCodeReady (TurboJS_OSRStateInit (Some null_osr_state) 32 10))"

theorem osr_entry_transactional_witness:
  "\<exists>s' r'. TurboJS_OSRExecuteEntry True True (Some sample_osr_state) (Some sample_osr_entry) (Some sample_osr_frame) (Some null_execution_result) =
     Inr (TURBOJS_IR_OK, Some s', Some sample_osr_frame, Some r') \<and> os_disabled s' \<and> oer_resume_bytecode_offset r' = 40"
proof -
  have "frame_shape sample_osr_frame" "oe_callback sample_osr_entry = Some sample_osr_code"
    by (simp_all add: shape_defs sample_osr_frame_def sample_osr_entry_def)
  moreover have "keeps_arrays sample_osr_frame g"
    if "sample_osr_code sample_osr_frame (of_bytecode_offset sample_osr_frame) = (k, g, resume)" for k g resume
    using that by (auto simp: sample_osr_code_def sample_osr_frame_def keeps_arrays_def)
  moreover have "frame_kinds sample_osr_frame" "entry_allowed sample_osr_state sample_osr_entry sample_osr_frame"
      "\<not> backup_fails True True sample_osr_frame"
    by (simp_all add: frame_kinds_def values_of_def valid_kind_def sample_osr_frame_def entry_allowed_def sample_osr_state_def
          sample_osr_entry_def backup_fails_def TurboJS_OSRMarkCodeReady_def TurboJS_OSRStateInit_def)
  moreover have "u32_inc (os_bailout_count sample_osr_state) = 1" "oe_bailout_limit sample_osr_entry = 1"
      "fst (sample_osr_code sample_osr_frame (of_bytecode_offset sample_osr_frame)) = TURBOJS_OSR_EXIT_BAILOUT"
      "of_bytecode_offset sample_osr_frame = 40"
    by (simp_all add: u32_inc_def sample_osr_state_def TurboJS_OSRMarkCodeReady_def TurboJS_OSRStateInit_def sample_osr_entry_def
          sample_osr_code_def sample_osr_frame_def)
  ultimately show ?thesis
    using osr_entry_transactional [of sample_osr_frame sample_osr_entry sample_osr_code True True sample_osr_state null_execution_result]
    by (cases "sample_osr_code sample_osr_frame 40") auto
qed

section \<open>Round trip of a frame\<close>

text \<open>
  Capturing the locals and the operand stack of a frame and restoring them gives back exactly the
  values, in buffers of any size that is large enough: the values come first and the rest of each
  buffer is as it was.
\<close>

lemma osr_frame_roundtrip:
  assumes "array_shape local_count locals" "array_shape stack_count stack"
    and "\<forall>v\<in>set (values_of locals) \<union> set (values_of stack). valid_kind (ov_kind v)"
    and "TurboJS_OSRFrameInit locals_ok stack_ok (Some f0) local_count stack_count = (TURBOJS_IR_OK, f1)"
    and "array_shape local_capacity locals_out" "array_shape stack_capacity stack_out"
    and "local_count \<le> local_capacity" "stack_count \<le> stack_capacity"
  shows "\<exists>f2. TurboJS_OSRFrameCapture f1 locals local_count stack stack_count offset header = Inr (TURBOJS_IR_OK, f2) \<and>
    TurboJS_OSRFrameRestore f2 locals_out local_capacity stack_out stack_capacity =
      Inr (TURBOJS_IR_OK,
           map_option (\<lambda>d. values_of locals @ drop (unat local_count) d) locals_out,
           map_option (\<lambda>d. values_of stack @ drop (unat stack_count) d) stack_out)"
proof -
  let ?g = "snapshot locals local_count stack stack_count offset header"
  have capture: "TurboJS_OSRFrameCapture f1 locals local_count stack stack_count offset header = Inr (TURBOJS_IR_OK, Some ?g)"
    using init_capture [OF assms(1,2,4)] assms(3) by simp
  have valid: "TurboJS_OSRFrameValidate (Some ?g) = Inr TURBOJS_IR_OK"
    using frame_validate_exact [OF snapshot_shape [OF assms(1,2)]] snapshot_kinds [OF assms(1,2)] assms(3) by simp
  have room: "unat local_count \<le> length (values_of locals_out)" "unat stack_count \<le> length (values_of stack_out)"
    using assms(5-8) by (simp_all add: array_shape_def word_le_nat_alt)
  have nonnull: "(local_count \<noteq> 0 \<and> locals_out = None) = False" "(stack_count \<noteq> 0 \<and> stack_out = None) = False"
    using room by (auto simp: values_of_def unat_eq_0)
  have shape: "array_shape local_count (if local_count \<noteq> 0 then locals else None)" "array_shape stack_count (if stack_count \<noteq> 0 then stack else None)"
    using assms(1,2) by (auto simp: array_shape_null)
  have vals: "values_of (if local_count \<noteq> 0 then locals else None) = values_of locals" "values_of (if stack_count \<noteq> 0 then stack else None) = values_of stack"
    using assms(1,2) by (auto simp: array_shape_def values_of_def)
  have "\<not> local_capacity < local_count" "\<not> stack_capacity < stack_count"
    using assms(7,8) by simp_all
  then have "TurboJS_OSRFrameRestore (Some ?g) locals_out local_capacity stack_out stack_capacity =
      Inr (TURBOJS_IR_OK,
           map_option (\<lambda>d. values_of locals @ drop (unat local_count) d) locals_out,
           map_option (\<lambda>d. values_of stack @ drop (unat stack_count) d) stack_out)"
    using memcpy_into_buffer [OF shape(1) room(1)] memcpy_into_buffer [OF shape(2) room(2)]
    unfolding TurboJS_OSRFrameRestore_def valid vals
    by (simp add: bindc_def Let_def snapshot_def nonnull del: not_None_eq)
  with capture show ?thesis by blast
qed

section \<open>Histories of a loop\<close>

text \<open>What can happen to a loop, and the decisions its back edges get.\<close>

datatype osr_event = Backedge | Code_Ready | Entered | Bailed_Out u32

fun osr_history :: "osr_event list \<Rightarrow> TurboJSOSRState ptr \<Rightarrow> TurboJSOSRDecision list \<times> TurboJSOSRState ptr" where
  "osr_history [] s = ([], s)"
| "osr_history (Backedge # es) s =
     (case TurboJS_OSRObserveBackedge s of (d, s') \<Rightarrow> map_prod ((#) d) id (osr_history es s'))"
| "osr_history (Code_Ready # es) s = osr_history es (TurboJS_OSRMarkCodeReady s)"
| "osr_history (Entered # es) s = osr_history es (TurboJS_OSRRecordEntry s)"
| "osr_history (Bailed_Out limit # es) s = osr_history es (TurboJS_OSRRecordBailout s limit)"

lemmas osr_operations = TurboJS_OSRObserveBackedge_def TurboJS_OSRMarkCodeReady_def TurboJS_OSRRecordEntry_def
  TurboJS_OSRRecordBailout_def

lemma requested_stays:
  "os_compilation_requested s \<Longrightarrow> TURBOJS_OSR_REQUEST_COMPILE \<notin> set (fst (osr_history es (Some s)))"
proof (induction es arbitrary: s)
  case (Cons e es)
  then show ?case
    by (cases e) (simp_all add: osr_operations Let_def)
qed simp

lemma requested_at_most_once:
  "length (filter (\<lambda>d. d = TURBOJS_OSR_REQUEST_COMPILE) (fst (osr_history es (Some s)))) \<le> 1"
proof (induction es arbitrary: s)
  case (Cons e es)
  have silent: "filter (\<lambda>d. d = TURBOJS_OSR_REQUEST_COMPILE) (fst (osr_history es (Some t))) = []"
    if "os_compilation_requested t" for t
    using requested_stays [OF that, of es] by (auto simp: filter_empty_conv)
  show ?case
    using Cons.IH by (cases e) (simp_all add: osr_operations Let_def silent)
qed simp

lemma disabled_stays:
  "os_disabled s \<Longrightarrow> set (fst (osr_history es (Some s))) \<subseteq> {TURBOJS_OSR_DISABLED}"
proof (induction es arbitrary: s)
  case (Cons e es)
  then show ?case
    by (cases e) (simp_all add: osr_operations Let_def)
qed simp

lemma u32_le_max: "unat (v :: u32) \<le> UINT32_MAX"
  using unat32_less [of v] by simp

lemma u32_inc_nat: "unat (u32_inc v) = min (Suc (unat v)) UINT32_MAX"
  using u32_le_max [of v] by (auto simp: u32_inc_def unat_word_ariths)

text \<open>A loop that is never compiled: the count saturates and the request comes at the threshold.\<close>

lemma interpreted_loop:
  assumes "\<not> os_disabled s" "\<not> os_code_ready s" "unat (os_backedge_count s) = min c UINT32_MAX"
    and "os_compilation_requested s \<longleftrightarrow> unat (os_compile_threshold s) \<le> c"
  shows "fst (osr_history (replicate n Backedge) (Some s)) =
           map (\<lambda>k. if k = unat (os_compile_threshold s) then TURBOJS_OSR_REQUEST_COMPILE else TURBOJS_OSR_CONTINUE_INTERPRETING)
             [Suc c ..< Suc (c + n)]"
  using assms
proof (induction n arbitrary: s c)
  case (Suc n)
  let ?t = "unat (os_compile_threshold s)"
  have inc: "unat (u32_inc (os_backedge_count s)) = min (Suc c) UINT32_MAX"
    using Suc.prems(3) by (auto simp: u32_inc_nat)
  have reached: "os_compile_threshold s \<le> u32_inc (os_backedge_count s) \<longleftrightarrow> ?t \<le> Suc c"
    using u32_le_max [of "os_compile_threshold s"] unfolding word_le_nat_alt inc by linarith
  have range: "[Suc c ..< Suc (c + Suc n)] = Suc c # [Suc (Suc c) ..< Suc (Suc c + n)]"
    by (simp add: upt_conv_Cons del: upt_Suc)
  show ?case
    unfolding range using Suc.prems reached Suc.IH [of _ "Suc c"] inc
    by (auto simp: TurboJS_OSRObserveBackedge_def Let_def simp del: upt_Suc)
qed simp

text \<open>
  A loop asks to be compiled at most once in its life, whatever happens to it. A loop that is
  only interpreted asks exactly at the back edge that reaches the threshold (the first one for a
  threshold of zero), and at no other, however long it runs and although its counter saturates. Once a
  bailout has reached its limit the loop is disabled for good: every later back edge is told so.
\<close>

lemma osr_requests_once:
  "length (filter (\<lambda>d. d = TURBOJS_OSR_REQUEST_COMPILE) (fst (osr_history es (TurboJS_OSRStateInit (Some s0) header threshold)))) \<le> 1 \<and>
   fst (osr_history (replicate n Backedge) (TurboJS_OSRStateInit (Some s0) header threshold)) =
     map (\<lambda>k. if k = max 1 (unat threshold) then TURBOJS_OSR_REQUEST_COMPILE else TURBOJS_OSR_CONTINUE_INTERPRETING) [1 ..< Suc n] \<and>
   (limit \<noteq> 0 \<and> limit \<le> u32_inc (os_bailout_count s) \<longrightarrow>
      set (fst (osr_history es (TurboJS_OSRRecordBailout (Some s) limit))) \<subseteq> {TURBOJS_OSR_DISABLED})"
proof (intro conjI impI)
  show "length (filter (\<lambda>d. d = TURBOJS_OSR_REQUEST_COMPILE) (fst (osr_history es (TurboJS_OSRStateInit (Some s0) header threshold)))) \<le> 1"
    unfolding TurboJS_OSRStateInit_def option.map by (rule requested_at_most_once)
  define s where "s = the (TurboJS_OSRStateInit (Some s0) header threshold)"
  have init: "TurboJS_OSRStateInit (Some s0) header threshold = Some s"
    by (simp add: s_def TurboJS_OSRStateInit_def)
  have t: "unat (os_compile_threshold s) = max 1 (unat threshold)"
    by (auto simp: s_def TurboJS_OSRStateInit_def max_def unat_eq_0 not_le less_Suc_eq)
  have "fst (osr_history (replicate n Backedge) (Some s)) =
      map (\<lambda>k. if k = unat (os_compile_threshold s) then TURBOJS_OSR_REQUEST_COMPILE else TURBOJS_OSR_CONTINUE_INTERPRETING) [Suc 0 ..< Suc (0 + n)]"
    using t by (intro interpreted_loop) (auto simp: s_def TurboJS_OSRStateInit_def)
  then show "fst (osr_history (replicate n Backedge) (TurboJS_OSRStateInit (Some s0) header threshold)) =
      map (\<lambda>k. if k = max 1 (unat threshold) then TURBOJS_OSR_REQUEST_COMPILE else TURBOJS_OSR_CONTINUE_INTERPRETING) [1 ..< Suc n]"
    by (simp add: init t del: upt_Suc)
next
  assume "limit \<noteq> 0 \<and> limit \<le> u32_inc (os_bailout_count s)"
  then show "set (fst (osr_history es (TurboJS_OSRRecordBailout (Some s) limit))) \<subseteq> {TURBOJS_OSR_DISABLED}"
    unfolding TurboJS_OSRRecordBailout_def option.map by (intro disabled_stays) (simp add: Let_def)
qed

end
