(* ===== verification/OSR_Loop.thy ===== *)
theory OSR_Loop
  imports OSR Codec "HOL-Library.While_Combinator"
begin

text \<open>
  Native counted loops, \<^verbatim>\<open>src/jit/runtime/osr_loop.c\<close>: the emitter of two small x64 kernels for a recognised
  loop that adds its induction variable to an accumulator, one for integers and one for floats, and the callback that checks a
  frame and runs a kernel on it.

  The kernels are bytes. What they do is given by a decoder and a step function for the few instructions that the emitter
  uses, as the manual of the processor describes them: 64-bit moves and additions, the comparison, relative jumps, and the
  scalar moves, conversion and addition of binary64 values, whose arithmetic is that of the environment. Memory
  is a map from addresses to 64-bit words, and an access outside it is a fault. The program is for the System V calling
  convention, where the frame is in the seventh register. A kernel that never returns is the fault \<^verbatim>\<open>Fault_loop\<close>. The diagnostic message
  that is the null pointer is the empty string.
\<close>

unbundle bit_operations_syntax

section \<open>Loop specifications\<close>

text \<open>The comparison is kept as the number in memory.\<close>

abbreviation TURBOJS_OSR_LOOP_LT :: u32 where "TURBOJS_OSR_LOOP_LT \<equiv> 0"
abbreviation TURBOJS_OSR_LOOP_LTE :: u32 where "TURBOJS_OSR_LOOP_LTE \<equiv> 1"
abbreviation TURBOJS_OSR_LOOP_GT :: u32 where "TURBOJS_OSR_LOOP_GT \<equiv> 2"
abbreviation TURBOJS_OSR_LOOP_GTE :: u32 where "TURBOJS_OSR_LOOP_GTE \<equiv> 3"

abbreviation TURBOJS_OSR_VALUE_INT64 :: u32 where "TURBOJS_OSR_VALUE_INT64 \<equiv> 1"
abbreviation TURBOJS_OSR_VALUE_FLOAT64 :: u32 where "TURBOJS_OSR_VALUE_FLOAT64 \<equiv> 2"

record TurboJSOSRCountedLoopSpec =
  cl_induction_local :: u16
  cl_limit_local :: u16
  cl_accumulator_local :: u16
  cl_step :: "32 word"
  cl_loop_header :: u32
  cl_resume_bytecode_offset :: u32
  cl_maximum_iterations :: u64
  cl_comparison :: u32

record TurboJSOSRLoopProgram =
  lp_spec :: TurboJSOSRCountedLoopSpec
  lp_code :: "u8 list ptr"
  lp_float_code :: "u8 list ptr"
  lp_code_size :: nat
  lp_float_code_size :: nat
  lp_allocation_size :: nat
  lp_float_allocation_size :: nat

section \<open>Emission\<close>

text \<open>A code buffer is the list of the bytes in it; an emitter returns nothing when the buffer of 256 bytes is full.\<close>

definition emit8 :: "u8 \<Rightarrow> u8 list \<Rightarrow> u8 list option" where
  "emit8 v b = (if 256 \<le> length b then None else Some (b @ [v]))"

text \<open>\<^verbatim>\<open>&&\<close> of two emitters.\<close>

definition also_emit :: "(u8 list \<Rightarrow> u8 list option) \<Rightarrow> (u8 list \<Rightarrow> u8 list option) \<Rightarrow> u8 list \<Rightarrow> u8 list option" where
  "also_emit f g b = Option.bind (f b) g"

definition emit32 :: "u32 \<Rightarrow> u8 list \<Rightarrow> u8 list option" where
  "emit32 v = also_emit (emit8 (ucast v)) (also_emit (emit8 (ucast (drop_bit 8 v))) (also_emit (emit8 (ucast (drop_bit 16 v))) (emit8 (ucast (drop_bit 24 v)))))"

definition patch32 :: "nat \<Rightarrow> u32 \<Rightarrow> u8 list \<Rightarrow> u8 list" where
  "patch32 off value b = b[off := ucast value, off + 1 := ucast (drop_bit 8 value), off + 2 := ucast (drop_bit 16 value), off + 3 := ucast (drop_bit 24 value)]"

definition rex :: "bool \<Rightarrow> u32 \<Rightarrow> u32 \<Rightarrow> u32 \<Rightarrow> u8 list \<Rightarrow> u8 list option" where
  "rex w r x m = emit8 (64 OR (if w then 8 else 0) OR (if r AND 8 \<noteq> 0 then 4 else 0) OR (if x AND 8 \<noteq> 0 then 2 else 0) OR (if m AND 8 \<noteq> 0 then 1 else 0))"

text \<open>The byte with the mode and two registers.\<close>

definition modrm :: "u32 \<Rightarrow> u32 \<Rightarrow> u32 \<Rightarrow> u8" where
  "modrm mode reg rm = ucast (mode OR push_bit 3 (reg AND 7) OR (rm AND 7))"

definition mov_rr :: "u32 \<Rightarrow> u32 \<Rightarrow> u8 list \<Rightarrow> u8 list option" where
  "mov_rr dst src = also_emit (rex True src 0 dst) (also_emit (emit8 0x89) (emit8 (modrm 0xC0 src dst)))"

definition load_base_disp32 :: "u32 \<Rightarrow> u32 \<Rightarrow> u32 \<Rightarrow> u8 list \<Rightarrow> u8 list option" where
  "load_base_disp32 dst base disp = also_emit (rex True dst 0 base) (also_emit (emit8 0x8B) (also_emit (emit8 (modrm 0x80 dst base)) (emit32 disp)))"

definition store_base_disp32 :: "u32 \<Rightarrow> u32 \<Rightarrow> u32 \<Rightarrow> u8 list \<Rightarrow> u8 list option" where
  "store_base_disp32 base src disp = also_emit (rex True src 0 base) (also_emit (emit8 0x89) (also_emit (emit8 (modrm 0x80 src base)) (emit32 disp)))"

definition add_rr :: "u32 \<Rightarrow> u32 \<Rightarrow> u8 list \<Rightarrow> u8 list option" where
  "add_rr dst src = also_emit (rex True src 0 dst) (also_emit (emit8 0x01) (emit8 (modrm 0xC0 src dst)))"

definition add_imm32 :: "u32 \<Rightarrow> u32 \<Rightarrow> u8 list \<Rightarrow> u8 list option" where
  "add_imm32 reg imm = also_emit (rex True 0 0 reg) (also_emit (emit8 0x81) (also_emit (emit8 (modrm 0xC0 0 reg)) (emit32 imm)))"

definition movq_xmm_mem :: "u32 \<Rightarrow> u32 \<Rightarrow> u32 \<Rightarrow> u8 list \<Rightarrow> u8 list option" where
  "movq_xmm_mem xmm base disp = also_emit (emit8 0xF3) (also_emit (rex False xmm 0 base) (also_emit (emit8 0x0F) (also_emit (emit8 0x7E)
     (also_emit (emit8 (modrm 0x80 xmm base)) (emit32 disp)))))"

definition movq_mem_xmm :: "u32 \<Rightarrow> u32 \<Rightarrow> u32 \<Rightarrow> u8 list \<Rightarrow> u8 list option" where
  "movq_mem_xmm base xmm disp = also_emit (emit8 0x66) (also_emit (rex False xmm 0 base) (also_emit (emit8 0x0F) (also_emit (emit8 0xD6)
     (also_emit (emit8 (modrm 0x80 xmm base)) (emit32 disp)))))"

definition cvtsi2sd_xmm_reg :: "u32 \<Rightarrow> u32 \<Rightarrow> u8 list \<Rightarrow> u8 list option" where
  "cvtsi2sd_xmm_reg xmm reg = also_emit (emit8 0xF2) (also_emit (rex True xmm 0 reg) (also_emit (emit8 0x0F) (also_emit (emit8 0x2A) (emit8 (modrm 0xC0 xmm reg)))))"

definition addsd_xmm_xmm :: "u32 \<Rightarrow> u32 \<Rightarrow> u8 list \<Rightarrow> u8 list option" where
  "addsd_xmm_xmm dst src = also_emit (emit8 0xF2) (also_emit (rex False dst 0 src) (also_emit (emit8 0x0F) (also_emit (emit8 0x58) (emit8 (modrm 0xC0 dst src)))))"

definition cmp_rr :: "u32 \<Rightarrow> u32 \<Rightarrow> u8 list \<Rightarrow> u8 list option" where
  "cmp_rr left right = also_emit (rex True right 0 left) (also_emit (emit8 0x39) (emit8 (modrm 0xC0 right left)))"

text \<open>The sizes and offsets of the structures of \<^verbatim>\<open>jit.h\<close>: \<^verbatim>\<open>sizeof(TurboJSOSRValue)\<close> and \<^verbatim>\<open>offsetof(TurboJSOSRFrame, locals)\<close>.\<close>

abbreviation value_size :: u32 where "value_size \<equiv> 16"
abbreviation locals_offset :: u32 where "locals_offset \<equiv> 0"

definition local_disp :: "u16 \<Rightarrow> u32" where
  "local_disp i = ucast i * value_size"

definition exit_condition :: "u32 \<Rightarrow> u8 list \<Rightarrow> u8 list option" where
  "exit_condition comparison =
     (if comparison = TURBOJS_OSR_LOOP_LT then emit8 0x8D
      else if comparison = TURBOJS_OSR_LOOP_LTE then emit8 0x8F
      else if comparison = TURBOJS_OSR_LOOP_GT then emit8 0x8E
      else if comparison = TURBOJS_OSR_LOOP_GTE then emit8 0x8C
      else (\<lambda>_. None))"

text \<open>
  One kernel: loads of the operands, the loop with its exit, the body and the jump back, and the stores. The two kernels differ in how
  the accumulator is loaded, added to and stored. The distances of the jumps are patched in after they are known.
\<close>

definition emit_kernel ::
  "TurboJSOSRCountedLoopSpec \<Rightarrow> (u8 list \<Rightarrow> u8 list option) \<Rightarrow> (u8 list \<Rightarrow> u8 list option) \<Rightarrow> (u8 list \<Rightarrow> u8 list option) \<Rightarrow> u8 list option" where
  "emit_kernel spec load_accumulator add_induction store_accumulator =
     Option.bind (also_emit (mov_rr 8 7) (also_emit (load_base_disp32 9 8 locals_offset) (also_emit (load_base_disp32 0 9 (local_disp (cl_induction_local spec)))
                   (also_emit (load_base_disp32 1 9 (local_disp (cl_limit_local spec))) load_accumulator))) []) (\<lambda>b.
       (let loop_offset = length b
        in Option.bind (also_emit (cmp_rr 0 1) (also_emit (emit8 0x0F) (exit_condition (cl_comparison spec))) b) (\<lambda>b.
           (let done_patch = length b
            in Option.bind (also_emit (emit32 0) (also_emit add_induction (also_emit (add_imm32 0 (cl_step spec)) (emit8 0xE9))) b) (\<lambda>b.
               (let jump_patch = length b
                in Option.bind (emit32 0 b) (\<lambda>b.
                   (let b = patch32 jump_patch (word_of_int (int loop_offset - int (jump_patch + 4))) b;
                        b = patch32 done_patch (word_of_int (int (length b) - int (done_patch + 4))) b
                    in also_emit (store_base_disp32 9 0 (local_disp (cl_induction_local spec)))
                         (also_emit store_accumulator (also_emit (emit8 0x31) (also_emit (emit8 0xC0) (emit8 0xC3)))) b))))))))"

definition int_kernel :: "TurboJSOSRCountedLoopSpec \<Rightarrow> u8 list option" where
  "int_kernel spec = emit_kernel spec (load_base_disp32 2 9 (local_disp (cl_accumulator_local spec))) (add_rr 2 0)
     (store_base_disp32 9 2 (local_disp (cl_accumulator_local spec)))"

definition float_kernel :: "TurboJSOSRCountedLoopSpec \<Rightarrow> u8 list option" where
  "float_kernel spec = emit_kernel spec (movq_xmm_mem 0 9 (local_disp (cl_accumulator_local spec))) (also_emit (cvtsi2sd_xmm_reg 1 0) (addsd_xmm_xmm 0 1))
     (movq_mem_xmm 9 0 (local_disp (cl_accumulator_local spec)))"

text \<open>The outcomes of the five allocations and seals.\<close>

record loop_alloc =
  la_program :: bool
  la_code :: bool
  la_seal :: bool
  la_float_code :: bool
  la_float_seal :: bool

definition allocation_for :: "nat \<Rightarrow> nat" where
  "allocation_for n = (let size = (n + 4095) div 4096 * 4096 in if size = 0 then 4096 else size)"

definition TurboJS_OSRCompileCountedI64Loop ::
  "loop_alloc \<Rightarrow> TurboJSOSRCountedLoopSpec ptr \<Rightarrow> TurboJSOSRLoopProgram ptr ptr \<Rightarrow> TurboJSIRDiagnostic ptr
     \<Rightarrow> TurboJSIRStatus \<times> TurboJSOSRLoopProgram ptr ptr \<times> TurboJSIRDiagnostic ptr" where
  "TurboJS_OSRCompileCountedI64Loop A spec out_program d =
     (let report = (\<lambda>st m. map_option (\<lambda>_. \<lparr>diag_status = st, diag_instruction_index = 0, diag_message = m\<rparr>) d);
          oom = (TURBOJS_IR_OUT_OF_MEMORY, Some None, report TURBOJS_IR_OUT_OF_MEMORY ''unable to emit native counted-loop OSR code'')
      in case (spec, out_program) of
        (Some s, Some _) \<Rightarrow>
          if cl_step s = 0 \<or> cl_maximum_iterations s = 0 \<or> TURBOJS_OSR_LOOP_GTE < cl_comparison s
          then (TURBOJS_IR_INVALID_ARGUMENT, out_program, report TURBOJS_IR_INVALID_ARGUMENT ''invalid counted-loop specification'')
          else
            (case int_kernel s of
               None \<Rightarrow> oom
             | Some code \<Rightarrow>
                 if \<not> la_program A \<or> \<not> la_code A \<or> \<not> la_seal A then oom
                 else
                   (case float_kernel s of
                      None \<Rightarrow> oom
                    | Some float_code \<Rightarrow>
                        if \<not> la_float_code A \<or> \<not> la_float_seal A then oom
                        else (TURBOJS_IR_OK,
                              Some (Some \<lparr>lp_spec = s, lp_code = Some code, lp_float_code = Some float_code, lp_code_size = length code,
                                lp_float_code_size = length float_code, lp_allocation_size = allocation_for (length code),
                                lp_float_allocation_size = allocation_for (length float_code)\<rparr>),
                              report TURBOJS_IR_OK '''')))
      | _ \<Rightarrow> (TURBOJS_IR_INVALID_ARGUMENT, out_program, report TURBOJS_IR_INVALID_ARGUMENT ''invalid counted-loop specification''))"

section \<open>The processor\<close>

datatype x64 =
    Mov nat nat | Load nat nat u32 | Store nat nat u32 | Add nat nat | Add_imm nat u32 | Cmp nat nat | Jcc u8 u32 | Jmp u32
  | Zero_eax | Ret | Movq_load nat nat u32 | Movq_store nat nat u32 | Cvtsi2sd nat nat | Addsd nat nat

text \<open>The register and the register or base of the mode byte, with the bits that the prefix adds.\<close>

definition reg_field :: "u8 \<Rightarrow> u8 \<Rightarrow> nat" where
  "reg_field prefix b = unat ((drop_bit 3 b) AND 7) + (if prefix AND 4 \<noteq> 0 then 8 else 0)"

definition rm_field :: "u8 \<Rightarrow> u8 \<Rightarrow> nat" where
  "rm_field prefix b = unat (b AND 7) + (if prefix AND 1 \<noteq> 0 then 8 else 0)"

definition long_prefix :: "u8 \<Rightarrow> bool" where
  "long_prefix p \<longleftrightarrow> drop_bit 3 p = 9"

definition short_prefix :: "u8 \<Rightarrow> bool" where
  "short_prefix p \<longleftrightarrow> drop_bit 3 p = 8"

definition direct :: "u8 \<Rightarrow> bool" where
  "direct b \<longleftrightarrow> drop_bit 6 b = 3"

definition based :: "u8 \<Rightarrow> bool" where
  "based b \<longleftrightarrow> drop_bit 6 b = 2 \<and> b AND 7 \<noteq> 4"

definition imm32 :: "u8 list \<Rightarrow> u32" where
  "imm32 bs = ucast (le_word (take 4 bs))"

text \<open>An instruction that takes a register and a memory operand, or two registers, and its length.\<close>

definition decode_long :: "u8 \<Rightarrow> u8 \<Rightarrow> u8 list \<Rightarrow> (x64 \<times> nat) option" where
  "decode_long p op bs =
     (case bs of
        [] \<Rightarrow> None
      | m # rest \<Rightarrow>
          (let r = reg_field p m; b = rm_field p m; whole = 4 \<le> length rest
           in if op = 0x89 \<and> direct m then Some (Mov b r, 3)
              else if op = 0x01 \<and> direct m then Some (Add b r, 3)
              else if op = 0x39 \<and> direct m then Some (Cmp b r, 3)
              else if op = 0x8B \<and> based m \<and> whole then Some (Load r b (imm32 rest), 7)
              else if op = 0x89 \<and> based m \<and> whole then Some (Store b r (imm32 rest), 7)
              else if op = 0x81 \<and> direct m \<and> (drop_bit 3 m) AND 7 = 0 \<and> whole then Some (Add_imm b (imm32 rest), 7)
              else None))"

definition decode_scalar :: "u8 \<Rightarrow> u8 \<Rightarrow> u8 \<Rightarrow> u8 list \<Rightarrow> (x64 \<times> nat) option" where
  "decode_scalar kind p op bs =
     (case bs of
        [] \<Rightarrow> None
      | m # rest \<Rightarrow>
          (let r = reg_field p m; b = rm_field p m; whole = 4 \<le> length rest
           in if kind = 0xF3 \<and> short_prefix p \<and> op = 0x7E \<and> based m \<and> whole then Some (Movq_load r b (imm32 rest), 9)
              else if kind = 0x66 \<and> short_prefix p \<and> op = 0xD6 \<and> based m \<and> whole then Some (Movq_store b r (imm32 rest), 9)
              else if kind = 0xF2 \<and> long_prefix p \<and> op = 0x2A \<and> direct m then Some (Cvtsi2sd r b, 5)
              else if kind = 0xF2 \<and> short_prefix p \<and> op = 0x58 \<and> direct m then Some (Addsd r b, 5)
              else None))"

definition decode :: "u8 list \<Rightarrow> (x64 \<times> nat) option" where
  "decode bs =
     (case bs of
        [] \<Rightarrow> None
      | a # as \<Rightarrow>
          if a = 0xC3 then Some (Ret, 1)
          else if a = 0xE9 then (if 4 \<le> length as then Some (Jmp (imm32 as), 5) else None)
          else (case as of
                  [] \<Rightarrow> None
                | b # bs \<Rightarrow>
                    if a = 0x31 \<and> b = 0xC0 then Some (Zero_eax, 2)
                    else if a = 0x0F \<and> b \<in> {0x8C, 0x8D, 0x8E, 0x8F} then (if 4 \<le> length bs then Some (Jcc b (imm32 bs), 6) else None)
                    else if long_prefix a then decode_long a b bs
                    else if a \<in> {0xF2, 0xF3, 0x66} then (case bs of c # d # cs \<Rightarrow> if c = 0x0F then decode_scalar a b d cs else None | _ \<Rightarrow> None)
                    else None))"

datatype x64_status = X_running | X_returned | X_fault

text \<open>Of the flags the comparison needs two: the result was zero, and it was negative before it was cut down to 64 bits.\<close>

record x64_state =
  x_rip :: nat
  x_regs :: "nat \<Rightarrow> u64"
  x_xmm :: "nat \<Rightarrow> u64"
  x_zero :: bool
  x_less :: bool
  x_mem :: "addr \<Rightarrow> u64 option"
  x_status :: x64_status

definition condition :: "u8 \<Rightarrow> bool \<Rightarrow> bool \<Rightarrow> bool" where
  "condition cc z l = (if cc = 0x8C then l else if cc = 0x8D then \<not> l else if cc = 0x8E then l \<or> z else \<not> l \<and> \<not> z)"

definition jump :: "u32 \<Rightarrow> x64_state \<Rightarrow> x64_state" where
  "jump rel s = (if int (x_rip s) + sint rel < 0 then s\<lparr>x_status := X_fault\<rparr> else s\<lparr>x_rip := nat (int (x_rip s) + sint rel)\<rparr>)"

definition effective :: "x64_state \<Rightarrow> nat \<Rightarrow> u32 \<Rightarrow> addr" where
  "effective s base disp = x_regs s base + scast disp"

definition add_into :: "nat \<Rightarrow> u64 \<Rightarrow> x64_state \<Rightarrow> x64_state" where
  "add_into r v s = s\<lparr>x_regs := (x_regs s)(r := x_regs s r + v), x_zero := (x_regs s r + v = 0), x_less := (sint (x_regs s r) + sint v < 0)\<rparr>"

definition execute_x64 :: "jit_env \<Rightarrow> x64 \<Rightarrow> x64_state \<Rightarrow> x64_state" where
  "execute_x64 E i s =
     (case i of
        Mov d r \<Rightarrow> s\<lparr>x_regs := (x_regs s)(d := x_regs s r)\<rparr>
      | Load d b disp \<Rightarrow> (case x_mem s (effective s b disp) of None \<Rightarrow> s\<lparr>x_status := X_fault\<rparr> | Some v \<Rightarrow> s\<lparr>x_regs := (x_regs s)(d := v)\<rparr>)
      | Store b r disp \<Rightarrow> (case x_mem s (effective s b disp) of None \<Rightarrow> s\<lparr>x_status := X_fault\<rparr>
           | Some _ \<Rightarrow> s\<lparr>x_mem := (x_mem s)(effective s b disp \<mapsto> x_regs s r)\<rparr>)
      | Add d r \<Rightarrow> add_into d (x_regs s r) s
      | Add_imm d imm \<Rightarrow> add_into d (scast imm) s
      | Cmp a b \<Rightarrow> s\<lparr>x_zero := (x_regs s a = x_regs s b), x_less := (sint (x_regs s a) < sint (x_regs s b))\<rparr>
      | Jcc cc rel \<Rightarrow> if condition cc (x_zero s) (x_less s) then jump rel s else s
      | Jmp rel \<Rightarrow> jump rel s
      | Zero_eax \<Rightarrow> s\<lparr>x_regs := (x_regs s)(0 := 0), x_zero := True, x_less := False\<rparr>
      | Ret \<Rightarrow> s\<lparr>x_status := X_returned\<rparr>
      | Movq_load d b disp \<Rightarrow> (case x_mem s (effective s b disp) of None \<Rightarrow> s\<lparr>x_status := X_fault\<rparr> | Some v \<Rightarrow> s\<lparr>x_xmm := (x_xmm s)(d := v)\<rparr>)
      | Movq_store b r disp \<Rightarrow> (case x_mem s (effective s b disp) of None \<Rightarrow> s\<lparr>x_status := X_fault\<rparr>
           | Some _ \<Rightarrow> s\<lparr>x_mem := (x_mem s)(effective s b disp \<mapsto> x_xmm s r)\<rparr>)
      | Cvtsi2sd d r \<Rightarrow> s\<lparr>x_xmm := (x_xmm s)(d := env_i64_to_f64 E (x_regs s r))\<rparr>
      | Addsd d r \<Rightarrow> s\<lparr>x_xmm := (x_xmm s)(d := env_f64_add E (x_xmm s d) (x_xmm s r))\<rparr>)"

definition x64_step :: "jit_env \<Rightarrow> u8 list \<Rightarrow> x64_state \<Rightarrow> x64_state" where
  "x64_step E code s =
     (case decode (drop (x_rip s) code) of
        None \<Rightarrow> s\<lparr>x_status := X_fault\<rparr>
      | Some (i, n) \<Rightarrow> execute_x64 E i (s\<lparr>x_rip := x_rip s + n\<rparr>))"

definition x64_run :: "jit_env \<Rightarrow> u8 list \<Rightarrow> x64_state \<Rightarrow> x64_state option" where
  "x64_run E code = while_option (\<lambda>s. x_status s = X_running) (x64_step E code)"

section \<open>Running a kernel\<close>

text \<open>
  Where a frame and its locals are, and the registers at the call, which hold anything but for the argument. The words of the
  locals that the kernel may read and write are their bits.
\<close>

record x64_call =
  xc_frame :: addr
  xc_locals :: addr
  xc_regs :: "nat \<Rightarrow> u64"
  xc_xmm :: "nat \<Rightarrow> u64"

definition local_addr :: "x64_call \<Rightarrow> nat \<Rightarrow> addr" where
  "local_addr C k = xc_locals C + of_nat (16 * k)"

definition frame_memory :: "x64_call \<Rightarrow> TurboJSOSRValue list \<Rightarrow> addr \<Rightarrow> u64 option" where
  "frame_memory C ls = map_of ((xc_frame C, xc_locals C) # zip (map (local_addr C) [0..<length ls]) (map ov_bits ls))"

definition memory_locals :: "x64_call \<Rightarrow> (addr \<Rightarrow> u64 option) \<Rightarrow> TurboJSOSRValue list \<Rightarrow> TurboJSOSRValue list" where
  "memory_locals C M ls = map (\<lambda>k. (ls ! k)\<lparr>ov_bits := the (M (local_addr C k))\<rparr>) [0..<length ls]"

definition call_state :: "x64_call \<Rightarrow> TurboJSOSRValue list \<Rightarrow> x64_state" where
  "call_state C ls = \<lparr>x_rip = 0, x_regs = (xc_regs C)(7 := xc_frame C), x_xmm = xc_xmm C, x_zero = False, x_less = False,
     x_mem = frame_memory C ls, x_status = X_running\<rparr>"

text \<open>\<^verbatim>\<open>kernel(frame)\<close>: the 32-bit result and the locals afterwards.\<close>

definition call_kernel :: "jit_env \<Rightarrow> x64_call \<Rightarrow> u8 list \<Rightarrow> TurboJSOSRValue list \<Rightarrow> (u32 \<times> TurboJSOSRValue list) c" where
  "call_kernel E C code ls =
     (case x64_run E code (call_state C ls) of
        None \<Rightarrow> Inl Fault_loop
      | Some s \<Rightarrow> if x_status s = X_returned then Inr (ucast (x_regs s 0), memory_locals C (x_mem s) ls) else Inl Fault_bounds)"

section \<open>The callback\<close>

text \<open>The number of iterations, or nothing where the callback bails out.\<close>

definition loop_iterations :: "TurboJSOSRCountedLoopSpec \<Rightarrow> i64 \<Rightarrow> i64 \<Rightarrow> u64 option c" where
  "loop_iterations s induction limit =
     (if 0 < sint (cl_step s)
      then (let st = ucast (cl_step s) :: u64
            in if cl_comparison s = TURBOJS_OSR_LOOP_LT
               then (if sint limit \<le> sint induction then Inr (Some 0)
                     else bindc (chk64 (sint limit - sint induction)) (\<lambda>distance. Inr (Some ((distance + st - 1) div st))))
               else if cl_comparison s = TURBOJS_OSR_LOOP_LTE
               then (if sint limit < sint induction then Inr (Some 0)
                     else bindc (chk64 (sint limit - sint induction)) (\<lambda>distance. Inr (Some (distance div st + 1))))
               else Inr None)
      else (let st = ucast (word_of_int (- sint (cl_step s)) :: u32) :: u64
            in if cl_comparison s = TURBOJS_OSR_LOOP_GT
               then (if sint induction \<le> sint limit then Inr (Some 0)
                     else bindc (chk64 (sint induction - sint limit)) (\<lambda>distance. Inr (Some ((distance + st - 1) div st))))
               else if cl_comparison s = TURBOJS_OSR_LOOP_GTE
               then (if sint induction < sint limit then Inr (Some 0)
                     else bindc (chk64 (sint induction - sint limit)) (\<lambda>distance. Inr (Some (distance div st + 1))))
               else Inr None))"

definition run_native_loop ::
  "jit_env \<Rightarrow> x64_call \<Rightarrow> TurboJSOSRLoopProgram ptr \<Rightarrow> TurboJSOSRFrame \<Rightarrow> u32 \<Rightarrow> (TurboJSOSRExitKind \<times> TurboJSOSRFrame \<times> u32) c" where
  "run_native_loop E C program frame resume =
     (case program of
        None \<Rightarrow> Inr (TURBOJS_OSR_EXIT_ERROR, frame, resume)
      | Some p \<Rightarrow>
          (let s = lp_spec p; i = unat (cl_induction_local s); l = unat (cl_limit_local s); a = unat (cl_accumulator_local s);
               n = unat (of_local_count frame); bail = Inr (TURBOJS_OSR_EXIT_BAILOUT, frame, resume)
           in if lp_code p = None then Inr (TURBOJS_OSR_EXIT_ERROR, frame, resume)
              else if n \<le> i \<or> n \<le> l \<or> n \<le> a then bail
              else
                (let ls = values_of (of_locals frame)
                 in bindc (rd ls i) (\<lambda>vi. bindc (rd ls l) (\<lambda>vl. bindc (rd ls a) (\<lambda>va.
                      if ov_kind vi \<noteq> TURBOJS_OSR_VALUE_INT64 \<or> ov_kind vl \<noteq> TURBOJS_OSR_VALUE_INT64 \<or>
                         (ov_kind va \<noteq> TURBOJS_OSR_VALUE_INT64 \<and> ov_kind va \<noteq> TURBOJS_OSR_VALUE_FLOAT64) \<or>
                         cl_step s = 0 \<or> TURBOJS_OSR_LOOP_GTE < cl_comparison s
                      then bail
                      else bindc (loop_iterations s (ov_bits vi) (ov_bits vl)) (\<lambda>iterations.
                        case iterations of
                          None \<Rightarrow> bail
                        | Some m \<Rightarrow>
                            if cl_maximum_iterations s < m then bail
                            else
                              (case (if ov_kind va = TURBOJS_OSR_VALUE_FLOAT64 then lp_float_code p else lp_code p) of
                                 None \<Rightarrow> bail
                               | Some code \<Rightarrow>
                                   bindc (call_kernel E C code ls) (\<lambda>(eax, ls).
                                     if eax \<noteq> 0 then Inr (TURBOJS_OSR_EXIT_ERROR, frame\<lparr>of_locals := Some ls\<rparr>, resume)
                                     else Inr (TURBOJS_OSR_EXIT_COMPLETED, frame\<lparr>of_locals := Some ls\<rparr>, cl_resume_bytecode_offset s))))))))))"

text \<open>Destruction gives back the executable memory: the sizes of the regions that are unmapped, in this order.\<close>

definition executable_memory_free :: "u8 list ptr \<Rightarrow> nat \<Rightarrow> nat list" where
  "executable_memory_free memory n = (if memory = None then [] else [n])"

definition TurboJS_OSRLoopProgramDestroy :: "TurboJSOSRLoopProgram ptr \<Rightarrow> nat list" where
  "TurboJS_OSRLoopProgramDestroy program =
     (case program of
        None \<Rightarrow> []
      | Some p \<Rightarrow> executable_memory_free (lp_float_code p) (lp_float_allocation_size p) @ executable_memory_free (lp_code p) (lp_allocation_size p))"

text \<open>The callback of the entry; where it faults or does not return its value is unspecified.\<close>

definition TurboJS_OSRLoopProgramEntry :: "jit_env \<Rightarrow> x64_call \<Rightarrow> TurboJSOSRLoopProgram ptr \<Rightarrow> TurboJSOSREntry" where
  "TurboJS_OSRLoopProgramEntry E C program =
     (case program of
        None \<Rightarrow> \<lparr>oe_callback = None, oe_loop_header = 0, oe_bailout_limit = 0\<rparr>
      | Some p \<Rightarrow> \<lparr>oe_callback = Some (\<lambda>frame resume. case run_native_loop E C program frame resume of Inr r \<Rightarrow> r),
                    oe_loop_header = cl_loop_header (lp_spec p), oe_bailout_limit = 3\<rparr>)"

definition TurboJS_OSRLoopProgramCodeSize :: "TurboJSOSRLoopProgram ptr \<Rightarrow> nat" where
  "TurboJS_OSRLoopProgramCodeSize program = (case program of None \<Rightarrow> 0 | Some p \<Rightarrow> lp_code_size p + lp_float_code_size p)"

section \<open>The bytes\<close>

definition b4 :: "u32 \<Rightarrow> u8 list" where
  "b4 v = [ucast v, ucast (drop_bit 8 v), ucast (drop_bit 16 v), ucast (drop_bit 24 v)]"

lemma imm32_bytes: "imm32 (ucast v # ucast (drop_bit 8 v) # ucast (drop_bit 16 v) # ucast (drop_bit 24 v) # rest) = v"
  unfolding imm32_def
proof (rule bit_word_eqI)
  fix n assume "n < LENGTH(32)"
  then show "bit (ucast (le_word (take 4 (ucast v # ucast (drop_bit 8 v) # ucast (drop_bit 16 v) # ucast (drop_bit 24 v) # rest))) :: u32) n = bit v n"
    by (cases "n < 8"; cases "n < 16"; cases "n < 24") (auto simp: bit_simps)
qed

lemma imm32_b4: "imm32 (b4 v @ rest) = v"
  by (simp add: b4_def imm32_bytes)

lemma length_b4 [simp]: "length (b4 v) = 4"
  by (simp add: b4_def)

lemma emit8_ok: "length b < 256 \<Longrightarrow> emit8 v b = Some (b @ [v])"
  by (simp add: emit8_def)

lemma emit32_ok: "length b < 253 \<Longrightarrow> emit32 v b = Some (b @ b4 v)"
  by (simp add: emit32_def also_emit_def emit8_def b4_def)

lemma patch32_bytes: "length a = off \<Longrightarrow> length z = 4 \<Longrightarrow> patch32 off v (a @ z @ r) = a @ b4 v @ r"
  by (auto simp: patch32_def list_update_append length_Suc_conv numeral_eq_Suc b4_def)

definition exit_byte :: "u32 \<Rightarrow> u8" where
  "exit_byte comparison = (if comparison = TURBOJS_OSR_LOOP_LT then 0x8D else if comparison = TURBOJS_OSR_LOOP_LTE then 0x8F
     else if comparison = TURBOJS_OSR_LOOP_GT then 0x8E else 0x8C)"

lemma comparison_cases: "\<not> TURBOJS_OSR_LOOP_GTE < c \<Longrightarrow> c \<in> {TURBOJS_OSR_LOOP_LT, TURBOJS_OSR_LOOP_LTE, TURBOJS_OSR_LOOP_GT, TURBOJS_OSR_LOOP_GTE}" for c :: u32
  by (auto simp: word_less_nat_alt unat_word_ariths word_unat_eq_iff)

lemma exit_condition_ok: "\<not> TURBOJS_OSR_LOOP_GTE < c \<Longrightarrow> exit_condition c = emit8 (exit_byte c)"
  using comparison_cases [of c] by (auto simp: exit_condition_def exit_byte_def)

definition int_code :: "TurboJSOSRCountedLoopSpec \<Rightarrow> u8 list" where
  "int_code s = [0x49, 0x89, 0xF8] @ [0x4D, 0x8B, 0x88] @ b4 0 @ [0x49, 0x8B, 0x81] @ b4 (local_disp (cl_induction_local s)) @
     [0x49, 0x8B, 0x89] @ b4 (local_disp (cl_limit_local s)) @ [0x49, 0x8B, 0x91] @ b4 (local_disp (cl_accumulator_local s)) @
     [0x48, 0x39, 0xC8] @ [0x0F, exit_byte (cl_comparison s)] @ b4 15 @ [0x48, 0x01, 0xC2] @ [0x48, 0x81, 0xC0] @ b4 (cl_step s) @ [0xE9] @ b4 (- 24) @
     [0x49, 0x89, 0x81] @ b4 (local_disp (cl_induction_local s)) @ [0x49, 0x89, 0x91] @ b4 (local_disp (cl_accumulator_local s)) @ [0x31, 0xC0] @ [0xC3]"

lemmas emitters = mov_rr_def load_base_disp32_def store_base_disp32_def add_rr_def add_imm32_def cmp_rr_def movq_xmm_mem_def movq_mem_xmm_def
  cvtsi2sd_xmm_reg_def addsd_xmm_xmm_def also_emit_def rex_def modrm_def

lemma int_kernel_bytes:
  assumes "\<not> TURBOJS_OSR_LOOP_GTE < cl_comparison s"
  shows "int_kernel s = Some (int_code s)"
  using exit_condition_ok [OF assms]
  by (simp add: int_kernel_def emit_kernel_def emitters emit8_ok emit32_ok Let_def)
    (simp add: int_code_def b4_def patch32_def emit8_ok emit32_ok also_emit_def)

definition float_code :: "TurboJSOSRCountedLoopSpec \<Rightarrow> u8 list" where
  "float_code s = [0x49, 0x89, 0xF8] @ [0x4D, 0x8B, 0x88] @ b4 0 @ [0x49, 0x8B, 0x81] @ b4 (local_disp (cl_induction_local s)) @
     [0x49, 0x8B, 0x89] @ b4 (local_disp (cl_limit_local s)) @ [0xF3, 0x41, 0x0F, 0x7E, 0x81] @ b4 (local_disp (cl_accumulator_local s)) @
     [0x48, 0x39, 0xC8] @ [0x0F, exit_byte (cl_comparison s)] @ b4 22 @ [0xF2, 0x48, 0x0F, 0x2A, 0xC8] @ [0xF2, 0x40, 0x0F, 0x58, 0xC1] @
     [0x48, 0x81, 0xC0] @ b4 (cl_step s) @ [0xE9] @ b4 (- 31) @
     [0x49, 0x89, 0x81] @ b4 (local_disp (cl_induction_local s)) @ [0x66, 0x41, 0x0F, 0xD6, 0x81] @ b4 (local_disp (cl_accumulator_local s)) @ [0x31, 0xC0] @ [0xC3]"

lemma float_kernel_bytes:
  assumes "\<not> TURBOJS_OSR_LOOP_GTE < cl_comparison s"
  shows "float_kernel s = Some (float_code s)"
  using exit_condition_ok [OF assms]
  by (simp add: float_kernel_def emit_kernel_def emitters emit8_ok emit32_ok Let_def)
    (simp add: float_code_def b4_def patch32_def emit8_ok emit32_ok also_emit_def)

section \<open>The instructions\<close>

lemma exit_byte_jump: "exit_byte c \<in> {0x8C, 0x8D, 0x8E, 0x8F}"
  by (simp add: exit_byte_def)

lemmas decoding = decode_def decode_long_def decode_scalar_def long_prefix_def short_prefix_def direct_def based_def reg_field_def rm_field_def

lemma int_fetch:
  "decode (drop 0 (int_code s)) = Some (Mov 8 7, 3)"
  "decode (drop 3 (int_code s)) = Some (Load 9 8 0, 7)"
  "decode (drop 10 (int_code s)) = Some (Load 0 9 (local_disp (cl_induction_local s)), 7)"
  "decode (drop 17 (int_code s)) = Some (Load 1 9 (local_disp (cl_limit_local s)), 7)"
  "decode (drop 24 (int_code s)) = Some (Load 2 9 (local_disp (cl_accumulator_local s)), 7)"
  "decode (drop 31 (int_code s)) = Some (Cmp 0 1, 3)"
  "decode (drop 34 (int_code s)) = Some (Jcc (exit_byte (cl_comparison s)) 15, 6)"
  "decode (drop 40 (int_code s)) = Some (Add 2 0, 3)"
  "decode (drop 43 (int_code s)) = Some (Add_imm 0 (cl_step s), 7)"
  "decode (drop 50 (int_code s)) = Some (Jmp (- 24), 5)"
  "decode (drop 55 (int_code s)) = Some (Store 9 0 (local_disp (cl_induction_local s)), 7)"
  "decode (drop 62 (int_code s)) = Some (Store 9 2 (local_disp (cl_accumulator_local s)), 7)"
  "decode (drop 69 (int_code s)) = Some (Zero_eax, 2)"
  "decode (drop 71 (int_code s)) = Some (Ret, 1)"
  using exit_byte_jump [of "cl_comparison s"] by (simp_all add: int_code_def decoding imm32_b4)

lemma float_fetch:
  "decode (drop 0 (float_code s)) = Some (Mov 8 7, 3)"
  "decode (drop 3 (float_code s)) = Some (Load 9 8 0, 7)"
  "decode (drop 10 (float_code s)) = Some (Load 0 9 (local_disp (cl_induction_local s)), 7)"
  "decode (drop 17 (float_code s)) = Some (Load 1 9 (local_disp (cl_limit_local s)), 7)"
  "decode (drop 24 (float_code s)) = Some (Movq_load 0 9 (local_disp (cl_accumulator_local s)), 9)"
  "decode (drop 33 (float_code s)) = Some (Cmp 0 1, 3)"
  "decode (drop 36 (float_code s)) = Some (Jcc (exit_byte (cl_comparison s)) 22, 6)"
  "decode (drop 42 (float_code s)) = Some (Cvtsi2sd 1 0, 5)"
  "decode (drop 47 (float_code s)) = Some (Addsd 0 1, 5)"
  "decode (drop 52 (float_code s)) = Some (Add_imm 0 (cl_step s), 7)"
  "decode (drop 59 (float_code s)) = Some (Jmp (- 31), 5)"
  "decode (drop 64 (float_code s)) = Some (Store 9 0 (local_disp (cl_induction_local s)), 7)"
  "decode (drop 71 (float_code s)) = Some (Movq_store 9 0 (local_disp (cl_accumulator_local s)), 9)"
  "decode (drop 80 (float_code s)) = Some (Zero_eax, 2)"
  "decode (drop 82 (float_code s)) = Some (Ret, 1)"
  using exit_byte_jump [of "cl_comparison s"] by (simp_all add: float_code_def decoding imm32_b4)

section \<open>Machine loops\<close>

text \<open>
  A machine that goes around a loop: between two visits of the head it makes some steps, and where the loop is left it comes to a halt. It then ends
  if and only if the loop does, in a state that fits the final values of the loop.
\<close>

primrec advance :: "('s \<Rightarrow> bool) \<Rightarrow> ('s \<Rightarrow> 's) \<Rightarrow> nat \<Rightarrow> 's \<Rightarrow> 's option" where
  "advance running step 0 s = Some s"
| "advance running step (Suc k) s = (if running s then advance running step k (step s) else None)"

lemma advance_run: "advance running step k s = Some t \<Longrightarrow> while_option running step s = while_option running step t"
proof (induction k arbitrary: s)
  case (Suc k)
  have "running s" "while_option running step (step s) = while_option running step t"
    using Suc.prems Suc.IH [of "step s"] by (auto split: if_splits)
  moreover have "while_option running step s = (if running s then while_option running step (step s) else Some s)" by (rule while_option_unfold)
  ultimately show ?case by (simp only: if_True)
qed simp

lemma advance_steps: "advance running step k s = Some t \<Longrightarrow> t = (step ^^ k) s \<and> (\<forall>j<k. running ((step ^^ j) s))"
proof (induction k arbitrary: s)
  case (Suc k)
  then have "running s" "t = (step ^^ k) (step s)" "\<forall>j<k. running ((step ^^ j) (step s))" by (auto split: if_splits)
  moreover have "running ((step ^^ j) s)" if "j < Suc k" for j using calculation(1,3) that by (cases j) (simp_all add: funpow_swap1)
  ultimately show ?case by (simp add: funpow_swap1)
qed simp

locale machine_loop =
  fixes step :: "'s \<Rightarrow> 's"
    and running :: "'s \<Rightarrow> bool"
    and at_head :: "'a \<Rightarrow> 's \<Rightarrow> bool"
    and enters :: "'a \<Rightarrow> bool"
    and body :: "'a \<Rightarrow> 'a"
    and left_with :: "'a \<Rightarrow> 's \<Rightarrow> bool"
  assumes around: "at_head x s \<Longrightarrow> enters x \<Longrightarrow> \<exists>k t. advance running step (Suc k) s = Some t \<and> at_head (body x) t"
    and leaves: "at_head x s \<Longrightarrow> \<not> enters x \<Longrightarrow> \<exists>k t. advance running step k s = Some t \<and> \<not> running t \<and> left_with x t"
begin

lemma run_around:
  assumes "at_head x s" "enters x"
  obtains t where "at_head (body x) t" "while_option running step s = while_option running step t"
proof -
  obtain k t where t: "advance running step (Suc k) s = Some t" "at_head (body x) t" using around [OF assms] by blast
  show thesis by (rule that [OF t(2) advance_run [OF t(1)]])
qed

lemma run_leaves:
  assumes "at_head x s" "\<not> enters x"
  shows "\<exists>t. while_option running step s = Some t \<and> left_with x t"
proof -
  obtain k t where t: "advance running step k s = Some t" "\<not> running t" "left_with x t" using leaves [OF assms] by blast
  then have "while_option running step s = Some t" using advance_run [OF t(1)] while_option_unfold [of running step t] by simp
  then show ?thesis using t(3) by blast
qed

lemma run_ends:
  assumes "while_option enters body x = Some y" "at_head x s"
  shows "\<exists>t. while_option running step s = Some t \<and> left_with y t"
proof -
  obtain n where n: "y = (body ^^ n) x" "\<not> enters y" using while_option_stop2 [OF assms(1)] by blast
  have "\<forall>x s. at_head x s \<longrightarrow> while_option enters body x = Some y \<longrightarrow> y = (body ^^ n) x \<longrightarrow> (\<exists>t. while_option running step s = Some t \<and> left_with y t)"
  proof (induction n)
    case 0
    then show ?case using run_leaves n(2) by auto
  next
    case (Suc n)
    show ?case
    proof (intro allI impI)
      fix x s assume a: "at_head x s" "while_option enters body x = Some y" "y = (body ^^ Suc n) x"
      show "\<exists>t. while_option running step s = Some t \<and> left_with y t"
      proof (cases "enters x")
        case True
        then have "while_option enters body (body x) = Some y" using a(2) while_option_unfold [of enters body x] by simp
        moreover have "y = (body ^^ n) (body x)" using a(3) by (simp add: funpow_swap1)
        ultimately show ?thesis using Suc run_around [OF a(1) True] by metis
      next
        case False
        then have "x = y" using a(2) while_option_unfold [of enters body x] by simp
        then show ?thesis using run_leaves [OF a(1) False] by simp
      qed
    qed
  qed
  then show ?thesis using assms n(1) by blast
qed

lemma run_diverges:
  assumes "while_option enters body x = None" "at_head x s"
  shows "while_option running step s = None"
proof (rule ccontr)
  assume "while_option running step s \<noteq> None"
  then obtain t where "while_option running step s = Some t" by blast
  then obtain n where n: "\<not> running ((step ^^ n) s)" using while_option_stop2 by metis
  have "\<forall>x s. at_head x s \<longrightarrow> while_option enters body x = None \<longrightarrow> running ((step ^^ n) s)" for n
  proof (induction n rule: less_induct)
    case (less n)
    show ?case
    proof (intro allI impI)
      fix x s assume a: "at_head x s" "while_option enters body x = None"
      have e: "enters x" "while_option enters body (body x) = None" using a(2) while_option_unfold [of enters body x] by (auto split: if_splits)
      obtain k where k: "at_head (body x) ((step ^^ Suc k) s)" "\<forall>j<Suc k. running ((step ^^ j) s)"
        using around [OF a(1) e(1)] advance_steps by metis
      show "running ((step ^^ n) s)"
      proof (cases "n \<le> k")
        case False
        then have "running ((step ^^ (n - Suc k)) ((step ^^ Suc k) s))" using less.IH [of "n - Suc k"] k(1) e(2) by auto
        moreover have "n = (n - Suc k) + Suc k" using False by simp
        ultimately show ?thesis by (metis comp_apply funpow_add)
      qed (use k(2) in auto)
    qed
  qed
  then show False using n assms by blast
qed

end

section \<open>What the kernels compute\<close>

text \<open>The loop that was recognised: the induction variable is added to the accumulator and then stepped.\<close>

definition continues :: "u32 \<Rightarrow> i64 \<Rightarrow> i64 \<Rightarrow> bool" where
  "continues comparison i limit =
     (if comparison = TURBOJS_OSR_LOOP_LT then sint i < sint limit else if comparison = TURBOJS_OSR_LOOP_LTE then sint i \<le> sint limit
      else if comparison = TURBOJS_OSR_LOOP_GT then sint limit < sint i else sint limit \<le> sint i)"

definition loop_body :: "(u64 \<Rightarrow> i64 \<Rightarrow> u64) \<Rightarrow> TurboJSOSRCountedLoopSpec \<Rightarrow> i64 \<times> u64 \<Rightarrow> i64 \<times> u64" where
  "loop_body add s = (\<lambda>(i, acc). (i + scast (cl_step s), add acc i))"

definition counted_loop :: "(u64 \<Rightarrow> i64 \<Rightarrow> u64) \<Rightarrow> TurboJSOSRCountedLoopSpec \<Rightarrow> i64 \<Rightarrow> i64 \<times> u64 \<Rightarrow> (i64 \<times> u64) option" where
  "counted_loop add s limit = while_option (\<lambda>(i, acc). continues (cl_comparison s) i limit) (loop_body add s)"

lemma exit_taken: "\<not> TURBOJS_OSR_LOOP_GTE < c \<Longrightarrow> condition (exit_byte c) (i = l) (sint i < sint l) \<longleftrightarrow> \<not> continues c i l"
  using comparison_cases [of c] word_eq_iff_signed [of i l] by (auto simp: condition_def exit_byte_def continues_def)

text \<open>The head of the integer loop, and what is left behind.\<close>

definition operand_addr :: "x64_call \<Rightarrow> u16 \<Rightarrow> addr" where
  "operand_addr C k = xc_locals C + scast (local_disp k)"

definition kernel_frame :: "x64_call \<Rightarrow> TurboJSOSRCountedLoopSpec \<Rightarrow> i64 \<Rightarrow> (addr \<Rightarrow> u64 option) \<Rightarrow> i64 \<Rightarrow> x64_state \<Rightarrow> bool" where
  "kernel_frame C s limit M i st \<longleftrightarrow> x_status st = X_running \<and> x_regs st 0 = i \<and> x_regs st 1 = limit \<and> x_regs st 9 = xc_locals C \<and> x_mem st = M \<and>
     M (operand_addr C (cl_induction_local s)) \<noteq> None \<and> M (operand_addr C (cl_accumulator_local s)) \<noteq> None \<and> \<not> TURBOJS_OSR_LOOP_GTE < cl_comparison s"

definition int_head :: "x64_call \<Rightarrow> TurboJSOSRCountedLoopSpec \<Rightarrow> i64 \<Rightarrow> (addr \<Rightarrow> u64 option) \<Rightarrow> i64 \<times> u64 \<Rightarrow> x64_state \<Rightarrow> bool" where
  "int_head C s limit M x st \<longleftrightarrow> x_rip st = 31 \<and> x_regs st 2 = snd x \<and> kernel_frame C s limit M (fst x) st"

definition kernel_result :: "x64_call \<Rightarrow> TurboJSOSRCountedLoopSpec \<Rightarrow> (addr \<Rightarrow> u64 option) \<Rightarrow> i64 \<times> u64 \<Rightarrow> x64_state \<Rightarrow> bool" where
  "kernel_result C s M x st \<longleftrightarrow> x_status st = X_returned \<and> x_regs st 0 = 0 \<and>
     x_mem st = M(operand_addr C (cl_induction_local s) \<mapsto> fst x, operand_addr C (cl_accumulator_local s) \<mapsto> snd x)"

lemma x64_step_at:
  "decode (drop off code) = Some (i, n) \<Longrightarrow> x_rip s = off \<Longrightarrow> x64_step E code s = execute_x64 E i (s\<lparr>x_rip := off + n\<rparr>)"
  by (simp add: x64_step_def)

lemmas int_steps = int_fetch [THEN x64_step_at]
lemmas float_steps = float_fetch [THEN x64_step_at]
lemmas executing = execute_x64_def add_into_def jump_def effective_def operand_addr_def [symmetric]

abbreviation x_runs :: "x64_state \<Rightarrow> bool" where
  "x_runs s \<equiv> x_status s = X_running"

lemma int_around:
  assumes h: "int_head C s limit M x st" and go: "continues (cl_comparison s) (fst x) limit"
  shows "\<exists>k t. advance x_runs (x64_step E (int_code s)) (Suc k) st = Some t \<and> int_head C s limit M (loop_body (+) s x) t"
proof -
  have "\<not> condition (exit_byte (cl_comparison s)) (fst x = limit) (sint (fst x) < sint limit)"
    using exit_taken [of "cl_comparison s" "fst x" limit] go h by (simp add: int_head_def kernel_frame_def)
  then have "\<exists>t. advance x_runs (x64_step E (int_code s)) (Suc (Suc (Suc (Suc (Suc 0))))) st = Some t \<and> int_head C s limit M (loop_body (+) s x) t"
    using h by (simp add: int_steps executing int_head_def kernel_frame_def loop_body_def split_def)
  then show ?thesis by blast
qed

lemma int_leaves:
  assumes h: "int_head C s limit M x st" and stop: "\<not> continues (cl_comparison s) (fst x) limit"
  shows "\<exists>k t. advance x_runs (x64_step E (int_code s)) k st = Some t \<and> \<not> x_runs t \<and> kernel_result C s M x t"
proof -
  have "condition (exit_byte (cl_comparison s)) (fst x = limit) (sint (fst x) < sint limit)"
    using exit_taken [of "cl_comparison s" "fst x" limit] stop h by (simp add: int_head_def kernel_frame_def)
  then have "\<exists>t. advance x_runs (x64_step E (int_code s)) (Suc (Suc (Suc (Suc (Suc (Suc 0)))))) st = Some t \<and> \<not> x_runs t \<and> kernel_result C s M x t"
    using h by (auto simp add: int_steps executing int_head_def kernel_frame_def kernel_result_def split: option.split)
  then show ?thesis by blast
qed

text \<open>The same for the float kernel.\<close>

definition float_add :: "jit_env \<Rightarrow> u64 \<Rightarrow> i64 \<Rightarrow> u64" where
  "float_add E acc i = env_f64_add E acc (env_i64_to_f64 E i)"

definition float_head :: "x64_call \<Rightarrow> TurboJSOSRCountedLoopSpec \<Rightarrow> i64 \<Rightarrow> (addr \<Rightarrow> u64 option) \<Rightarrow> i64 \<times> u64 \<Rightarrow> x64_state \<Rightarrow> bool" where
  "float_head C s limit M x st \<longleftrightarrow> x_rip st = 33 \<and> x_xmm st 0 = snd x \<and> kernel_frame C s limit M (fst x) st"

lemma float_around:
  assumes h: "float_head C s limit M x st" and go: "continues (cl_comparison s) (fst x) limit"
  shows "\<exists>k t. advance x_runs (x64_step E (float_code s)) (Suc k) st = Some t \<and> float_head C s limit M (loop_body (float_add E) s x) t"
proof -
  have "\<not> condition (exit_byte (cl_comparison s)) (fst x = limit) (sint (fst x) < sint limit)"
    using exit_taken [of "cl_comparison s" "fst x" limit] go h by (simp add: float_head_def kernel_frame_def)
  then have "\<exists>t. advance x_runs (x64_step E (float_code s)) (Suc (Suc (Suc (Suc (Suc (Suc 0)))))) st = Some t \<and> float_head C s limit M (loop_body (float_add E) s x) t"
    using h by (simp add: float_steps executing float_head_def kernel_frame_def loop_body_def float_add_def split_def)
  then show ?thesis by blast
qed

lemma float_leaves:
  assumes h: "float_head C s limit M x st" and stop: "\<not> continues (cl_comparison s) (fst x) limit"
  shows "\<exists>k t. advance x_runs (x64_step E (float_code s)) k st = Some t \<and> \<not> x_runs t \<and> kernel_result C s M x t"
proof -
  have "condition (exit_byte (cl_comparison s)) (fst x = limit) (sint (fst x) < sint limit)"
    using exit_taken [of "cl_comparison s" "fst x" limit] stop h by (simp add: float_head_def kernel_frame_def)
  then have "\<exists>t. advance x_runs (x64_step E (float_code s)) (Suc (Suc (Suc (Suc (Suc (Suc 0)))))) st = Some t \<and> \<not> x_runs t \<and> kernel_result C s M x t"
    using h by (auto simp add: float_steps executing float_head_def kernel_frame_def kernel_result_def split: option.split)
  then show ?thesis by blast
qed

interpretation int_loop: machine_loop "x64_step E (int_code s)" x_runs "int_head C s limit M" "\<lambda>(i, acc). continues (cl_comparison s) i limit" "loop_body (+) s" "kernel_result C s M"
  for E C s limit M
  using int_around int_leaves by unfold_locales (simp_all add: split_def)

interpretation float_loop: machine_loop "x64_step E (float_code s)" x_runs "float_head C s limit M" "\<lambda>(i, acc). continues (cl_comparison s) i limit" "loop_body (float_add E) s" "kernel_result C s M"
  for E C s limit M
  using float_around float_leaves by unfold_locales (simp_all add: split_def)

section \<open>Memory\<close>

text \<open>The frame and the words of its locals are at different addresses.\<close>

definition separate :: "x64_call \<Rightarrow> nat \<Rightarrow> bool" where
  "separate C n \<longleftrightarrow> 16 * n < 2 ^ 64 \<and> (\<forall>k<n. local_addr C k \<noteq> xc_frame C)"

lemma local_addr_inj:
  assumes "separate C n" "j < n" "k < n"
  shows "local_addr C j = local_addr C k \<longleftrightarrow> j = k"
proof -
  have e: "unat (of_nat m :: addr) = m" if "m < 2 ^ 64" for m using that by (simp add: unat_of_nat)
  have "16 * j = 16 * k" if "(of_nat (16 * j) :: addr) = of_nat (16 * k)"
  proof -
    have "16 * j < 2 ^ 64" "16 * k < 2 ^ 64" using assms by (simp_all add: separate_def)
    then show ?thesis using arg_cong [OF that, of unat] e by metis
  qed
  then show ?thesis unfolding local_addr_def by auto
qed

lemma frame_memory_frame: "frame_memory C ls (xc_frame C) = Some (xc_locals C)"
  by (simp add: frame_memory_def)

lemma frame_memory_local:
  assumes "separate C (length ls)" "k < length ls"
  shows "frame_memory C ls (local_addr C k) = Some (ov_bits (ls ! k))"
proof -
  have "distinct (map (local_addr C) [0..<length ls])" using local_addr_inj [OF assms(1)] by (auto simp: distinct_map inj_on_def)
  then have "map_of (zip (map (local_addr C) [0..<length ls]) (map ov_bits ls)) (local_addr C k) = Some (ov_bits (ls ! k))"
    using assms(2) map_of_zip_nth [of "map (local_addr C) [0..<length ls]" "map ov_bits ls" k] by simp
  then show ?thesis using assms by (simp add: frame_memory_def separate_def)
qed

lemma scast_small: "m < 2 ^ 31 \<Longrightarrow> scast (of_nat m :: u32) = (of_nat m :: u64)"
proof -
  assume m: "m < 2 ^ 31"
  have "uint (of_nat m :: u32) = int m" using m by (simp add: uint_nat unat_of_nat)
  moreover have "signed_take_bit 31 (int m) = int m" using m by (intro signed_take_bit_int_eq_self) simp_all
  ultimately have "sint (of_nat m :: u32) = int m" by (simp add: sint_uint)
  then show ?thesis by (simp add: scast_eq)
qed

lemma operand_local: "operand_addr C k = local_addr C (unat k)"
proof -
  have "unat k < 65536" using unsigned_less [of k] by simp
  then have "scast (of_nat (16 * unat k) :: u32) = (of_nat (16 * unat k) :: u64)" by (intro scast_small) simp
  moreover have "local_disp k = of_nat (16 * unat k)" by (simp add: local_disp_def mult.commute)
  ultimately show ?thesis unfolding operand_addr_def local_addr_def by (simp only:)
qed

section \<open>Calling a kernel\<close>

text \<open>A frame on which the kernel of a loop can run.\<close>

definition kernel_ready :: "x64_call \<Rightarrow> TurboJSOSRCountedLoopSpec \<Rightarrow> TurboJSOSRValue list \<Rightarrow> bool" where
  "kernel_ready C s ls \<longleftrightarrow> separate C (length ls) \<and> unat (cl_induction_local s) < length ls \<and> unat (cl_limit_local s) < length ls \<and>
     unat (cl_accumulator_local s) < length ls \<and> \<not> TURBOJS_OSR_LOOP_GTE < cl_comparison s"

definition bits_at :: "TurboJSOSRValue list \<Rightarrow> u16 \<Rightarrow> u64" where
  "bits_at ls k = ov_bits (ls ! unat k)"

definition put_bits :: "u16 \<Rightarrow> u64 \<Rightarrow> TurboJSOSRValue list \<Rightarrow> TurboJSOSRValue list" where
  "put_bits k v ls = ls[unat k := (ls ! unat k)\<lparr>ov_bits := v\<rparr>]"

definition loop_locals :: "TurboJSOSRCountedLoopSpec \<Rightarrow> i64 \<times> u64 \<Rightarrow> TurboJSOSRValue list \<Rightarrow> TurboJSOSRValue list" where
  "loop_locals s x ls = put_bits (cl_accumulator_local s) (snd x) (put_bits (cl_induction_local s) (fst x) ls)"

lemma operand_memory: "separate C (length ls) \<Longrightarrow> unat k < length ls \<Longrightarrow> frame_memory C ls (operand_addr C k) = Some (bits_at ls k)"
  by (simp add: operand_local frame_memory_local bits_at_def)

lemma int_entry:
  assumes "kernel_ready C s ls"
  shows "\<exists>t. x64_run E (int_code s) (call_state C ls) = x64_run E (int_code s) t \<and>
    int_head C s (bits_at ls (cl_limit_local s)) (frame_memory C ls) (bits_at ls (cl_induction_local s), bits_at ls (cl_accumulator_local s)) t"
proof -
  have "\<exists>t. advance x_runs (x64_step E (int_code s)) (Suc (Suc (Suc (Suc (Suc 0))))) (call_state C ls) = Some t \<and>
    int_head C s (bits_at ls (cl_limit_local s)) (frame_memory C ls) (bits_at ls (cl_induction_local s), bits_at ls (cl_accumulator_local s)) t"
    using assms by (simp add: int_steps executing int_head_def kernel_frame_def kernel_ready_def call_state_def frame_memory_frame operand_memory)
  then obtain t where t: "advance x_runs (x64_step E (int_code s)) (Suc (Suc (Suc (Suc (Suc 0))))) (call_state C ls) = Some t"
    "int_head C s (bits_at ls (cl_limit_local s)) (frame_memory C ls) (bits_at ls (cl_induction_local s), bits_at ls (cl_accumulator_local s)) t" by blast
  show ?thesis using advance_run [OF t(1)] t(2) unfolding x64_run_def by blast
qed

lemma float_entry:
  assumes "kernel_ready C s ls"
  shows "\<exists>t. x64_run E (float_code s) (call_state C ls) = x64_run E (float_code s) t \<and>
    float_head C s (bits_at ls (cl_limit_local s)) (frame_memory C ls) (bits_at ls (cl_induction_local s), bits_at ls (cl_accumulator_local s)) t"
proof -
  have "\<exists>t. advance x_runs (x64_step E (float_code s)) (Suc (Suc (Suc (Suc (Suc 0))))) (call_state C ls) = Some t \<and>
    float_head C s (bits_at ls (cl_limit_local s)) (frame_memory C ls) (bits_at ls (cl_induction_local s), bits_at ls (cl_accumulator_local s)) t"
    using assms by (simp add: float_steps executing float_head_def kernel_frame_def kernel_ready_def call_state_def frame_memory_frame operand_memory)
  then obtain t where t: "advance x_runs (x64_step E (float_code s)) (Suc (Suc (Suc (Suc (Suc 0))))) (call_state C ls) = Some t"
    "float_head C s (bits_at ls (cl_limit_local s)) (frame_memory C ls) (bits_at ls (cl_induction_local s), bits_at ls (cl_accumulator_local s)) t" by blast
  show ?thesis using advance_run [OF t(1)] t(2) unfolding x64_run_def by blast
qed

lemma result_locals:
  assumes "kernel_ready C s ls" "kernel_result C s (frame_memory C ls) x t"
  shows "memory_locals C (x_mem t) ls = loop_locals s x ls"
proof (rule nth_equalityI)
  fix k assume "k < length (memory_locals C (x_mem t) ls)"
  then have k: "k < length ls" by (simp add: memory_locals_def)
  have r: "separate C (length ls)" "unat (cl_induction_local s) < length ls" "unat (cl_accumulator_local s) < length ls"
    using assms(1) by (simp_all add: kernel_ready_def)
  have "x_mem t (local_addr C k) = (if k = unat (cl_accumulator_local s) then Some (snd x) else if k = unat (cl_induction_local s) then Some (fst x) else Some (ov_bits (ls ! k)))"
    using assms(2) k r by (simp add: kernel_result_def operand_local local_addr_inj frame_memory_local)
  then show "memory_locals C (x_mem t) ls ! k = loop_locals s x ls ! k"
    using k r by (auto simp: memory_locals_def loop_locals_def put_bits_def nth_list_update)
qed (simp add: memory_locals_def loop_locals_def put_bits_def)

text \<open>A kernel and the loop it was made for end together or not at all, with the same values.\<close>

definition kernel_outcome :: "TurboJSOSRCountedLoopSpec \<Rightarrow> TurboJSOSRValue list \<Rightarrow> (i64 \<times> u64) option \<Rightarrow> (u32 \<times> TurboJSOSRValue list) c" where
  "kernel_outcome s ls r = (case r of None \<Rightarrow> Inl Fault_loop | Some x \<Rightarrow> Inr (0, loop_locals s x ls))"

lemma call_kernel_result:
  assumes "kernel_ready C s ls" "x64_run E code (call_state C ls) = Some t" "kernel_result C s (frame_memory C ls) x t"
  shows "call_kernel E C code ls = Inr (0, loop_locals s x ls)"
  using assms(2,3) result_locals [OF assms(1,3)] by (simp add: call_kernel_def kernel_result_def)

lemma int_call:
  assumes r: "kernel_ready C s ls"
  shows "call_kernel E C (int_code s) ls =
    kernel_outcome s ls (counted_loop (+) s (bits_at ls (cl_limit_local s)) (bits_at ls (cl_induction_local s), bits_at ls (cl_accumulator_local s)))"
proof -
  obtain t where t: "x64_run E (int_code s) (call_state C ls) = x64_run E (int_code s) t"
    "int_head C s (bits_at ls (cl_limit_local s)) (frame_memory C ls) (bits_at ls (cl_induction_local s), bits_at ls (cl_accumulator_local s)) t"
    using int_entry [OF r] by blast
  show ?thesis
  proof (cases "counted_loop (+) s (bits_at ls (cl_limit_local s)) (bits_at ls (cl_induction_local s), bits_at ls (cl_accumulator_local s))")
    case None
    then have "x64_run E (int_code s) t = None" unfolding counted_loop_def x64_run_def using t(2) by (rule int_loop.run_diverges)
    then show ?thesis using None t(1) by (simp add: call_kernel_def kernel_outcome_def)
  next
    case (Some x)
    then obtain u where "x64_run E (int_code s) t = Some u" "kernel_result C s (frame_memory C ls) x u"
      unfolding counted_loop_def x64_run_def using int_loop.run_ends [OF _ t(2)] by blast
    then show ?thesis using Some t(1) call_kernel_result [OF r] by (simp add: kernel_outcome_def)
  qed
qed

lemma float_call:
  assumes r: "kernel_ready C s ls"
  shows "call_kernel E C (float_code s) ls =
    kernel_outcome s ls (counted_loop (float_add E) s (bits_at ls (cl_limit_local s)) (bits_at ls (cl_induction_local s), bits_at ls (cl_accumulator_local s)))"
proof -
  obtain t where t: "x64_run E (float_code s) (call_state C ls) = x64_run E (float_code s) t"
    "float_head C s (bits_at ls (cl_limit_local s)) (frame_memory C ls) (bits_at ls (cl_induction_local s), bits_at ls (cl_accumulator_local s)) t"
    using float_entry [OF r] by blast
  show ?thesis
  proof (cases "counted_loop (float_add E) s (bits_at ls (cl_limit_local s)) (bits_at ls (cl_induction_local s), bits_at ls (cl_accumulator_local s))")
    case None
    then have "x64_run E (float_code s) t = None" unfolding counted_loop_def x64_run_def using t(2) by (rule float_loop.run_diverges)
    then show ?thesis using None t(1) by (simp add: call_kernel_def kernel_outcome_def)
  next
    case (Some x)
    then obtain u where "x64_run E (float_code s) t = Some u" "kernel_result C s (frame_memory C ls) x u"
      unfolding counted_loop_def x64_run_def using float_loop.run_ends [OF _ t(2)] by blast
    then show ?thesis using Some t(1) call_kernel_result [OF r] by (simp add: kernel_outcome_def)
  qed
qed

section \<open>The number of iterations\<close>

text \<open>The loop on mathematical integers.\<close>

definition continues_int :: "u32 \<Rightarrow> int \<Rightarrow> int \<Rightarrow> bool" where
  "continues_int comparison i limit =
     (if comparison = TURBOJS_OSR_LOOP_LT then i < limit else if comparison = TURBOJS_OSR_LOOP_LTE then i \<le> limit
      else if comparison = TURBOJS_OSR_LOOP_GT then limit < i else limit \<le> i)"

lemma continues_gte: "continues_int TURBOJS_OSR_LOOP_GTE i limit \<longleftrightarrow> limit \<le> i"
  by (simp add: continues_int_def)

definition runs_for :: "TurboJSOSRCountedLoopSpec \<Rightarrow> int \<Rightarrow> int \<Rightarrow> nat \<Rightarrow> bool" where
  "runs_for s i limit m \<longleftrightarrow> (\<forall>k<m. continues_int (cl_comparison s) (i + int k * sint (cl_step s)) limit) \<and>
     \<not> continues_int (cl_comparison s) (i + int m * sint (cl_step s)) limit"

lemma u64_ceiling:
  assumes "0 < d" "d < 2 ^ 63" "0 < n" "n \<le> 2 ^ 31"
  shows "unat ((of_nat d + of_nat n - 1) div of_nat n :: u64) = (d + n - 1) div n"
proof -
  have e: "unat (of_nat m :: u64) = m" if "m < 2 ^ 64" for m using that by (simp add: unat_of_nat)
  have "of_nat d + of_nat n - 1 = (of_nat (d + n - 1) :: u64)" using assms(1) by (simp add: of_nat_diff)
  then show ?thesis using assms e [of "d + n - 1"] e [of n] by (simp only: unat_div) simp
qed

lemma u64_floor:
  assumes "d < 2 ^ 63" "0 < n" "n \<le> 2 ^ 31"
  shows "unat (of_nat d div of_nat n + 1 :: u64) = d div n + 1"
proof -
  have e: "unat (of_nat m :: u64) = m" if "m < 2 ^ 64" for m using that by (simp add: unat_of_nat)
  have le: "d div n \<le> d" by simp
  have "of_nat d div of_nat n = (of_nat (d div n) :: u64)"
    using word_arith_nat_div [of "of_nat d :: u64" "of_nat n"] e [of d] e [of n] assms by simp
  moreover have "d div n + 1 < 2 ^ 64" using le_less_trans [OF le assms(1)] by simp
  then have "unat (of_nat (d div n + 1) :: u64) = d div n + 1" by (rule e)
  ultimately show ?thesis by (simp add: add.commute)
qed

lemma ceiling_bounds:
  assumes "0 < n" "0 < (d :: nat)"
  shows "k < (d + n - 1) div n \<Longrightarrow> k * n < d" "d \<le> (d + n - 1) div n * n"
proof -
  define m where "m = (d + n - 1) div n"
  have a: "m * n \<le> d + n - 1" unfolding m_def by (rule div_times_less_eq_dividend)
  show "k * n < d" if "k < (d + n - 1) div n"
  proof -
    have "Suc k * n \<le> m * n" using that unfolding m_def by (intro mult_le_mono1) simp
    then have "n + k * n \<le> m * n" by simp
    then show ?thesis using a assms by linarith
  qed
  have "(d + n - 1) mod n < n" using assms by simp
  moreover have "m * n + (d + n - 1) mod n = d + n - 1" unfolding m_def by (rule div_mult_mod_eq)
  ultimately show "d \<le> (d + n - 1) div n * n" unfolding m_def [symmetric] using assms by linarith
qed

lemma floor_bounds:
  assumes "0 < n"
  shows "k < d div n + 1 \<Longrightarrow> k * n \<le> d" "d < (d div n + 1) * (n :: nat)"
proof -
  have a: "d div n * n \<le> d" by (rule div_times_less_eq_dividend)
  show "k * n \<le> d" if "k < d div n + 1"
  proof -
    have "k * n \<le> d div n * n" using that by (intro mult_le_mono1) simp
    then show ?thesis using a by linarith
  qed
  show "d < (d div n + 1) * n" using dividend_less_div_times [OF assms, of d] by (simp add: algebra_simps)
qed

text \<open>The two formulas, for a distance and a step that are not negative.\<close>

lemma strict_iterations:
  assumes "0 < d" "d < 2 ^ 63" "0 < n" "n \<le> 2 ^ 31" "m = (of_int d + of_nat n - 1) div (of_nat n :: u64)"
  shows "k < unat m \<Longrightarrow> int k * int n < d" "d \<le> int (unat m) * int n"
proof -
  have "of_int d = (of_nat (nat d) :: u64)" using assms(1) by simp
  then have m: "unat m = (nat d + n - 1) div n" using u64_ceiling [of "nat d" n] assms by simp
  show "int k * int n < d" if "k < unat m"
    using ceiling_bounds(1) [of n "nat d" k] that m assms(1,3) by (simp add: zless_nat_eq_int_zless flip: of_nat_mult)
  show "d \<le> int (unat m) * int n"
    using ceiling_bounds(2) [of n "nat d"] m assms(1,3) by (simp add: nat_le_iff flip: of_nat_mult)
qed

lemma weak_iterations:
  assumes "0 \<le> d" "d < 2 ^ 63" "0 < n" "n \<le> 2 ^ 31" "m = of_int d div (of_nat n :: u64) + 1"
  shows "k < unat m \<Longrightarrow> int k * int n \<le> d" "d < int (unat m) * int n"
proof -
  have "of_int d = (of_nat (nat d) :: u64)" using assms(1) by simp
  then have m: "unat m = nat d div n + 1" using u64_floor [of "nat d" n] assms by simp
  show "int k * int n \<le> d" if "k < unat m"
    using floor_bounds(1) [of n k "nat d"] that m assms(1,3) by (simp add: le_nat_iff flip: of_nat_mult)
  show "d < int (unat m) * int n"
    using floor_bounds(2) [of n "nat d"] m assms(1,3) unfolding of_nat_mult [symmetric] by (simp add: nat_less_iff)
qed

text \<open>The step as the code reads it, without its sign.\<close>

lemma ucast_small: "m < 2 ^ 32 \<Longrightarrow> ucast (of_nat m :: u32) = (of_nat m :: u64)"
proof -
  assume m: "m < 2 ^ 32"
  have "unat (of_nat m :: u32) = m" using m by (simp add: unat_of_nat)
  then show ?thesis using of_nat_unat [of "of_nat m :: u32", where ?'a = u64] by simp
qed

lemma step_up: "0 < sint x \<Longrightarrow> (ucast x :: u64) = of_nat (nat (sint x)) \<and> nat (sint x) \<le> 2 ^ 31" for x :: "32 word"
proof -
  assume p: "0 < sint x"
  have small: "sint x < 2 ^ 31" using sint_less [of x] by simp
  have "(of_nat (nat (sint x)) :: u32) = x" using p by simp
  then show ?thesis using ucast_small [of "nat (sint x)"] small p by auto
qed

lemma step_down:
  "sint x < 0 \<Longrightarrow> (ucast (word_of_int (- sint x) :: u32) :: u64) = of_nat (nat (- sint x)) \<and> nat (- sint x) \<le> 2 ^ 31" for x :: "32 word"
proof -
  assume p: "sint x < 0"
  have small: "- sint x \<le> 2 ^ 31" using sint_greater_eq [of x] by simp
  have "(of_nat (nat (- sint x)) :: u32) = word_of_int (- sint x)" using p by (metis neg_0_le_iff_le less_imp_le of_nat_nat)
  then show ?thesis using ucast_small [of "nat (- sint x)"] small p by auto
qed

lemma iterations_exact:
  assumes m: "loop_iterations s i l = Inr (Some m)" and s: "cl_step s \<noteq> 0" and c: "\<not> TURBOJS_OSR_LOOP_GTE < cl_comparison s"
  shows "runs_for s (sint i) (sint l) (unat m)"
proof (cases "0 < sint (cl_step s)")
  case up: True
  define n where "n = nat (sint (cl_step s))"
  have st: "(ucast (cl_step s) :: u64) = of_nat n" "n \<le> 2 ^ 31" "0 < n" "int n = sint (cl_step s)" using step_up [OF up] up unfolding n_def by simp_all
  consider (lt) "cl_comparison s = TURBOJS_OSR_LOOP_LT" | (lte) "cl_comparison s = TURBOJS_OSR_LOOP_LTE"
    using m up by (auto simp: loop_iterations_def Let_def split: if_splits)
  then show ?thesis
  proof cases
    case lt
    show ?thesis
    proof (cases "sint l \<le> sint i")
      case True
      then show ?thesis using m up lt by (simp add: loop_iterations_def Let_def runs_for_def continues_int_def)
    next
      case False
      then have "in_int64 (sint l - sint i)" "m = (of_int (sint l - sint i) + of_nat n - 1) div of_nat n"
        using m up lt st(1) by (auto simp: loop_iterations_def Let_def chk64_def bindc_def split: if_splits)
      then have "k < unat m \<Longrightarrow> int k * int n < sint l - sint i" "sint l - sint i \<le> int (unat m) * int n" for k
        using False strict_iterations(1) [of "sint l - sint i" n m k] strict_iterations(2) [of "sint l - sint i" n m] st(2,3) unfolding in_int64_def by simp_all
      then show ?thesis unfolding runs_for_def continues_int_def st(4) [symmetric] lt by (simp add: less_diff_eq le_diff_eq algebra_simps)
    qed
  next
    case lte
    show ?thesis
    proof (cases "sint l < sint i")
      case True
      then show ?thesis using m up lte by (simp add: loop_iterations_def Let_def runs_for_def continues_int_def)
    next
      case False
      then have "in_int64 (sint l - sint i)" "m = of_int (sint l - sint i) div of_nat n + 1"
        using m up lte st(1) by (auto simp: loop_iterations_def Let_def chk64_def bindc_def split: if_splits)
      then have "k < unat m \<Longrightarrow> int k * int n \<le> sint l - sint i" "sint l - sint i < int (unat m) * int n" for k
        using False weak_iterations(1) [of "sint l - sint i" n m k] weak_iterations(2) [of "sint l - sint i" n m] st(2,3) unfolding in_int64_def by simp_all
      then show ?thesis unfolding runs_for_def continues_int_def st(4) [symmetric] lte by (simp add: less_diff_eq le_diff_eq algebra_simps)
    qed
  qed
next
  case False
  have "sint (cl_step s) \<noteq> 0" using s word_eq_iff_signed [of "cl_step s" 0] by simp
  then have down: "sint (cl_step s) < 0" using False by simp
  define n where "n = nat (- sint (cl_step s))"
  have st: "(ucast (word_of_int (- sint (cl_step s)) :: u32) :: u64) = of_nat n" "n \<le> 2 ^ 31" "0 < n" "sint (cl_step s) = - int n"
    using step_down [OF down] down unfolding n_def by simp_all
  consider (gt) "cl_comparison s = TURBOJS_OSR_LOOP_GT" | (gte) "cl_comparison s = TURBOJS_OSR_LOOP_GTE"
    using m down by (auto simp: loop_iterations_def Let_def split: if_splits)
  then show ?thesis
  proof cases
    case gt
    show ?thesis
    proof (cases "sint i \<le> sint l")
      case True
      then show ?thesis using m down gt by (simp add: loop_iterations_def Let_def runs_for_def continues_int_def)
    next
      case False
      then have "in_int64 (sint i - sint l)" "m = (of_int (sint i - sint l) + of_nat n - 1) div of_nat n"
        using m down gt st(1) by (auto simp: loop_iterations_def Let_def chk64_def bindc_def split: if_splits)
      then have "k < unat m \<Longrightarrow> int k * int n < sint i - sint l" "sint i - sint l \<le> int (unat m) * int n" for k
        using False strict_iterations(1) [of "sint i - sint l" n m k] strict_iterations(2) [of "sint i - sint l" n m] st(2,3) unfolding in_int64_def by simp_all
      then show ?thesis unfolding runs_for_def continues_int_def st(4) gt by (simp add: less_diff_eq le_diff_eq algebra_simps)
    qed
  next
    case gte
    show ?thesis
    proof (cases "sint i < sint l")
      case True
      then show ?thesis using m down gte by (simp add: loop_iterations_def Let_def runs_for_def continues_int_def)
    next
      case False
      then have "in_int64 (sint i - sint l)" "m = of_int (sint i - sint l) div of_nat n + 1"
        using m down gte st(1) by (auto simp: loop_iterations_def Let_def chk64_def bindc_def split: if_splits)
      then have "k < unat m \<Longrightarrow> int k * int n \<le> sint i - sint l" "sint i - sint l < int (unat m) * int n" for k
        using False weak_iterations(1) [of "sint i - sint l" n m k] weak_iterations(2) [of "sint i - sint l" n m] st(2,3) unfolding in_int64_def by simp_all
      then show ?thesis unfolding runs_for_def gte continues_gte st(4) by (simp add: less_diff_eq le_diff_eq algebra_simps)
    qed
  qed
qed

section \<open>The loop on machine words\<close>

text \<open>The step goes in the direction that the comparison needs.\<close>

definition counts_toward :: "TurboJSOSRCountedLoopSpec \<Rightarrow> bool" where
  "counts_toward s \<longleftrightarrow> (if 0 < sint (cl_step s) then cl_comparison s \<in> {TURBOJS_OSR_LOOP_LT, TURBOJS_OSR_LOOP_LTE}
     else cl_comparison s \<in> {TURBOJS_OSR_LOOP_GT, TURBOJS_OSR_LOOP_GTE})"

lemma iterations_defined:
  assumes "counts_toward s" "\<bar>sint limit - sint i\<bar> < 2 ^ 63"
  shows "\<exists>m. loop_iterations s i limit = Inr (Some m)"
proof -
  have "in_int64 (sint limit - sint i)" "in_int64 (sint i - sint limit)" using assms(2) by (auto simp: in_int64_def)
  then have "chk64 (sint limit - sint i) = Inr (limit - i)" "chk64 (sint i - sint limit) = Inr (i - limit)" by (simp_all add: chk64_def)
  then show ?thesis using assms(1) by (auto simp: counts_toward_def loop_iterations_def Let_def bindc_def split: if_splits)
qed

lemma runs_for_unique: "runs_for s i l m \<Longrightarrow> runs_for s i l n \<Longrightarrow> m = n"
  unfolding runs_for_def by (metis linorder_neqE_nat)

lemma while_exact: "(\<forall>k<m. b ((c ^^ k) x)) \<Longrightarrow> \<not> b ((c ^^ m) x) \<Longrightarrow> while_option b c x = Some ((c ^^ m) x)"
proof (induction m arbitrary: x)
  case 0
  then show ?case using while_option_unfold [of b c x] by simp
next
  case (Suc m)
  have "b ((c ^^ k) (c x))" if "k < m" for k using Suc.prems(1) [rule_format, of "Suc k"] that by (simp add: funpow_swap1)
  moreover have "\<not> b ((c ^^ m) (c x))" using Suc.prems(2) by (simp add: funpow_swap1)
  ultimately have "while_option b c (c x) = Some ((c ^^ m) (c x))" using Suc.IH [of "c x"] by blast
  moreover have "b x" using Suc.prems(1) [rule_format, of 0] by simp
  ultimately show ?case using while_option_unfold [of b c x] by (simp add: funpow_swap1)
qed

lemma induction_after: "fst ((loop_body add s ^^ k) x) = fst x + of_nat k * scast (cl_step s)"
  by (induction k) (simp_all add: loop_body_def split_def algebra_simps)

lemma sint_after:
  assumes "in_int64 (sint i + int k * sint st)"
  shows "sint (i + of_nat k * scast st :: i64) = sint i + int k * sint (st :: 32 word)"
proof -
  have "i + of_nat k * scast st = (word_of_int (sint i + int k * sint st) :: i64)" by simp
  then show ?thesis using sint_word_of_int64 [OF assms] by (simp only:)
qed

lemma in_int64_between: "in_int64 a \<Longrightarrow> in_int64 (a + int m * d) \<Longrightarrow> k \<le> m \<Longrightarrow> in_int64 (a + int k * d)"
proof -
  assume a: "in_int64 a" "in_int64 (a + int m * d)" "k \<le> m"
  show ?thesis
  proof (cases "0 \<le> d")
    case True
    then have "0 \<le> int k * d" "int k * d \<le> int m * d" using a(3) by (simp_all add: mult_right_mono)
    then show ?thesis using a(1,2) by (simp add: in_int64_def)
  next
    case False
    then have "int k * d \<le> 0" "int m * d \<le> int k * d" using a(3) by (simp_all add: mult_right_mono_neg mult_nonneg_nonpos)
    then show ?thesis using a(1,2) by (simp add: in_int64_def)
  qed
qed

text \<open>Where the induction variable stays in range the loop on words is the loop on integers.\<close>

lemma counted_loop_exact:
  assumes r: "runs_for s (sint i) (sint limit) m" and w: "in_int64 (sint i + int m * sint (cl_step s))"
  shows "counted_loop add s limit (i, acc) = Some ((loop_body add s ^^ m) (i, acc))"
proof -
  have "continues (cl_comparison s) (fst ((loop_body add s ^^ k) (i, acc))) limit \<longleftrightarrow>
      continues_int (cl_comparison s) (sint i + int k * sint (cl_step s)) (sint limit)" if "k \<le> m" for k
    using sint_after [OF in_int64_between [OF sint_in_int64 w that]] by (simp add: continues_def continues_int_def induction_after)
  then show ?thesis unfolding counted_loop_def using r unfolding runs_for_def by (intro while_exact) (simp_all add: split_def)
qed

section \<open>Compiled loops\<close>

lemma compiled_program:
  assumes "TurboJS_OSRCompileCountedI64Loop A (Some s) q d = (TURBOJS_IR_OK, Some (Some p), d')"
  shows "lp_spec p = s" "lp_code p = Some (int_code s)" "lp_float_code p = Some (float_code s)" "cl_step s \<noteq> 0" "\<not> TURBOJS_OSR_LOOP_GTE < cl_comparison s"
proof -
  show g: "cl_step s \<noteq> 0" "\<not> TURBOJS_OSR_LOOP_GTE < cl_comparison s"
    using assms by (auto simp: TurboJS_OSRCompileCountedI64Loop_def Let_def split: option.splits if_splits)
  show "lp_spec p = s" "lp_code p = Some (int_code s)" "lp_float_code p = Some (float_code s)"
    using assms g int_kernel_bytes [OF g(2)] float_kernel_bytes [OF g(2)]
    by (auto simp: TurboJS_OSRCompileCountedI64Loop_def Let_def split: option.splits if_splits)
qed

definition loop_kinds :: "TurboJSOSRCountedLoopSpec \<Rightarrow> TurboJSOSRValue list \<Rightarrow> bool" where
  "loop_kinds s ls \<longleftrightarrow> ov_kind (ls ! unat (cl_induction_local s)) = TURBOJS_OSR_VALUE_INT64 \<and> ov_kind (ls ! unat (cl_limit_local s)) = TURBOJS_OSR_VALUE_INT64 \<and>
     ov_kind (ls ! unat (cl_accumulator_local s)) \<in> {TURBOJS_OSR_VALUE_INT64, TURBOJS_OSR_VALUE_FLOAT64}"

definition accumulate :: "jit_env \<Rightarrow> TurboJSOSRCountedLoopSpec \<Rightarrow> TurboJSOSRValue list \<Rightarrow> u64 \<Rightarrow> i64 \<Rightarrow> u64" where
  "accumulate E s ls = (if ov_kind (ls ! unat (cl_accumulator_local s)) = TURBOJS_OSR_VALUE_FLOAT64 then float_add E else (+))"

abbreviation loop_start :: "TurboJSOSRCountedLoopSpec \<Rightarrow> TurboJSOSRValue list \<Rightarrow> i64 \<times> u64" where
  "loop_start s ls \<equiv> (bits_at ls (cl_induction_local s), bits_at ls (cl_accumulator_local s))"

text \<open>The callback of a compiled loop, once it is known how often the loop runs.\<close>

lemma run_native_loop_compiled:
  assumes p: "TurboJS_OSRCompileCountedI64Loop A (Some s) q d = (TURBOJS_IR_OK, Some (Some p), d')"
    and f: "of_locals frame = Some ls" "length ls = unat (of_local_count frame)" "kernel_ready C s ls" "loop_kinds s ls"
    and m: "loop_iterations s (bits_at ls (cl_induction_local s)) (bits_at ls (cl_limit_local s)) = Inr (Some m)"
  shows "run_native_loop E C (Some p) frame resume =
    (if cl_maximum_iterations s < m then Inr (TURBOJS_OSR_EXIT_BAILOUT, frame, resume)
     else bindc (kernel_outcome s ls (counted_loop (accumulate E s ls) s (bits_at ls (cl_limit_local s)) (loop_start s ls)))
            (\<lambda>(eax, ls). if eax \<noteq> 0 then Inr (TURBOJS_OSR_EXIT_ERROR, frame\<lparr>of_locals := Some ls\<rparr>, resume)
               else Inr (TURBOJS_OSR_EXIT_COMPLETED, frame\<lparr>of_locals := Some ls\<rparr>, cl_resume_bytecode_offset s)))"
proof -
  note prog = compiled_program [OF p]
  have range: "unat (cl_induction_local s) < length ls" "unat (cl_limit_local s) < length ls" "unat (cl_accumulator_local s) < length ls"
    using f(3) by (simp_all add: kernel_ready_def)
  have call: "call_kernel E C (if ov_kind (ls ! unat (cl_accumulator_local s)) = TURBOJS_OSR_VALUE_FLOAT64 then float_code s else int_code s) ls =
      kernel_outcome s ls (counted_loop (accumulate E s ls) s (bits_at ls (cl_limit_local s)) (loop_start s ls))"
    using int_call [OF f(3)] float_call [OF f(3)] by (simp add: accumulate_def)
  have "values_of (of_locals frame) = ls" by (simp add: values_of_def f(1))
  then show ?thesis
    using prog range f(2,4) m unfolding call [symmetric]
    by (auto simp: run_native_loop_def Let_def rd_ok bindc_def loop_kinds_def bits_at_def)
qed

text \<open>What a loop needs of its frame: the operands exist and have numeric kinds, and the loop on integers takes \<^verbatim>\<open>m\<close> iterations without leaving the 64-bit integers.\<close>

definition loop_fits :: "x64_call \<Rightarrow> TurboJSOSRCountedLoopSpec \<Rightarrow> TurboJSOSRValue list \<Rightarrow> nat \<Rightarrow> bool" where
  "loop_fits C s ls m \<longleftrightarrow> kernel_ready C s ls \<and> loop_kinds s ls \<and> counts_toward s \<and>
     \<bar>sint (bits_at ls (cl_limit_local s)) - sint (bits_at ls (cl_induction_local s))\<bar> < 2 ^ 63 \<and>
     runs_for s (sint (bits_at ls (cl_induction_local s))) (sint (bits_at ls (cl_limit_local s))) m \<and>
     in_int64 (sint (bits_at ls (cl_induction_local s)) + int m * sint (cl_step s))"

text \<open>The locals after \<^verbatim>\<open>m\<close> iterations.\<close>

definition after_loop :: "jit_env \<Rightarrow> TurboJSOSRCountedLoopSpec \<Rightarrow> nat \<Rightarrow> TurboJSOSRValue list \<Rightarrow> TurboJSOSRValue list" where
  "after_loop E s m ls = loop_locals s ((loop_body (accumulate E s ls) s ^^ m) (loop_start s ls)) ls"

lemma native_loop_result:
  assumes p: "TurboJS_OSRCompileCountedI64Loop A (Some s) q d = (TURBOJS_IR_OK, Some (Some p), d')"
    and f: "of_locals frame = Some ls" "length ls = unat (of_local_count frame)" and fits: "loop_fits C s ls m"
  shows "run_native_loop E C (Some p) frame resume =
    Inr (if m \<le> unat (cl_maximum_iterations s)
         then (TURBOJS_OSR_EXIT_COMPLETED, frame\<lparr>of_locals := Some (after_loop E s m ls)\<rparr>, cl_resume_bytecode_offset s)
         else (TURBOJS_OSR_EXIT_BAILOUT, frame, resume))"
proof -
  note prog = compiled_program [OF p]
  have ready: "kernel_ready C s ls" "loop_kinds s ls"
    and runs: "runs_for s (sint (bits_at ls (cl_induction_local s))) (sint (bits_at ls (cl_limit_local s))) m"
    and range: "in_int64 (sint (bits_at ls (cl_induction_local s)) + int m * sint (cl_step s))"
    using fits by (simp_all add: loop_fits_def)
  obtain n where n: "loop_iterations s (bits_at ls (cl_induction_local s)) (bits_at ls (cl_limit_local s)) = Inr (Some n)"
    using iterations_defined [of s] fits unfolding loop_fits_def by blast
  then have "m = unat n" using iterations_exact [OF n prog(4,5)] runs_for_unique [OF runs] by blast
  moreover note counted_loop_exact [OF runs range, of "accumulate E s ls" "bits_at ls (cl_accumulator_local s)"]
  ultimately show ?thesis
    using run_native_loop_compiled [OF p f ready n, of E resume] by (simp add: word_less_nat_alt kernel_outcome_def after_loop_def)
qed

text \<open>
  C10. A compiled counted loop does what the loop does. If on mathematical integers the loop takes exactly \<^verbatim>\<open>m\<close>
  iterations, its induction variable stays a 64-bit integer and the distance to the limit is one, then the callback
  of the compiled program, running the emitted machine code on the frame, returns. Within the limit on iterations it completes at the resume offset, and of the frame
  only the induction variable and the accumulator change, to their values after \<^verbatim>\<open>m\<close> iterations, the accumulator
  with integer or with binary64 arithmetic as its kind says. Beyond the limit it bails out with the frame as it was.
\<close>

theorem native_loop_correct:
  assumes "TurboJS_OSRCompileCountedI64Loop A (Some s) q d = (TURBOJS_IR_OK, Some (Some p), d')"
    and "of_locals frame = Some ls" "length ls = unat (of_local_count frame)" "loop_fits C s ls m"
  shows "run_native_loop E C (Some p) frame resume =
    Inr (if m \<le> unat (cl_maximum_iterations s)
         then (TURBOJS_OSR_EXIT_COMPLETED, frame\<lparr>of_locals := Some (after_loop E s m ls)\<rparr>, cl_resume_bytecode_offset s)
         else (TURBOJS_OSR_EXIT_BAILOUT, frame, resume))"
  by (rule native_loop_result [OF assms])

text \<open>
  C11. Entering a compiled loop. On a valid frame at the header of the loop, with the code marked as ready, memory for the backup and
  a loop within its limit on iterations, the entry protocol runs the machine code and succeeds: the caller sees the frame with the
  locals after all iterations, at the bytecode after the loop, and the entry is counted.
\<close>

theorem native_loop_entry_completes:
  assumes p: "TurboJS_OSRCompileCountedI64Loop A (Some s) q d = (TURBOJS_IR_OK, Some (Some p), d')"
    and f: "frame_shape frame" "frame_kinds frame" "of_locals frame = Some ls"
    and fits: "loop_fits C s ls m" "m \<le> unat (cl_maximum_iterations s)"
    and en: "entry_allowed state (TurboJS_OSRLoopProgramEntry E C (Some p)) frame" "\<not> backup_fails lo so frame"
  shows "TurboJS_OSRExecuteEntry lo so (Some state) (Some (TurboJS_OSRLoopProgramEntry E C (Some p))) (Some frame) (Some r) =
    Inr (TURBOJS_IR_OK, Some (state\<lparr>os_entry_count := u32_inc (os_entry_count state)\<rparr>),
      Some (frame\<lparr>of_locals := Some (after_loop E s m ls), of_bytecode_offset := cl_resume_bytecode_offset s\<rparr>),
      Some \<lparr>oer_exit_kind = TURBOJS_OSR_EXIT_COMPLETED, oer_resume_bytecode_offset = cl_resume_bytecode_offset s, oer_restored_original_frame = False\<rparr>)"
proof -
  have "length ls = unat (of_local_count frame)" using f(1,3) by (simp add: shape_defs)
  note run = native_loop_result [OF p f(3) this fits(1), of E "of_bytecode_offset frame"]
  obtain st b where "clone_frame lo so frame = Inr (st, b)" "st = (if backup_fails lo so frame then TURBOJS_IR_OUT_OF_MEMORY else TURBOJS_IR_OK)"
    using clone_frame_exact [OF f(1,2), of lo so] unfolding backup_fails_def by blast
  then show ?thesis
    using run fits(2) en f(2)
    by (simp add: TurboJS_OSRExecuteEntry_def TurboJS_OSRLoopProgramEntry_def frame_validate_exact [OF f(1)] entry_allowed_def
      TurboJS_OSRRecordEntry_def null_execution_result_def bindc_def Let_def)
qed

text \<open>The loop that adds up 0, 1, 2 and 3.\<close>

definition example_loop :: TurboJSOSRCountedLoopSpec where
  "example_loop = \<lparr>cl_induction_local = 0, cl_limit_local = 1, cl_accumulator_local = 2, cl_step = 1, cl_loop_header = 0, cl_resume_bytecode_offset = 9,
     cl_maximum_iterations = 100, cl_comparison = TURBOJS_OSR_LOOP_LT\<rparr>"

definition example_loop_program :: TurboJSOSRLoopProgram where
  "example_loop_program = \<lparr>lp_spec = example_loop, lp_code = Some (int_code example_loop), lp_float_code = Some (float_code example_loop),
     lp_code_size = length (int_code example_loop), lp_float_code_size = length (float_code example_loop), lp_allocation_size = 4096, lp_float_allocation_size = 4096\<rparr>"

definition example_loop_locals :: "u64 \<Rightarrow> u64 \<Rightarrow> TurboJSOSRValue list" where
  "example_loop_locals i acc = [\<lparr>ov_bits = i, ov_kind = TURBOJS_OSR_VALUE_INT64\<rparr>, \<lparr>ov_bits = 4, ov_kind = TURBOJS_OSR_VALUE_INT64\<rparr>, \<lparr>ov_bits = acc, ov_kind = TURBOJS_OSR_VALUE_INT64\<rparr>]"

definition example_loop_frame :: "u64 \<Rightarrow> u64 \<Rightarrow> TurboJSOSRFrame" where
  "example_loop_frame i acc = \<lparr>of_locals = Some (example_loop_locals i acc), of_stack = None, of_local_count = 3, of_stack_count = 0, of_bytecode_offset = 5, of_loop_header = 0\<rparr>"

definition example_call :: x64_call where
  "example_call = \<lparr>xc_frame = 4096, xc_locals = 8192, xc_regs = (\<lambda>_. 0), xc_xmm = (\<lambda>_. 0)\<rparr>"

lemma example_loop_compiled:
  "TurboJS_OSRCompileCountedI64Loop \<lparr>la_program = True, la_code = True, la_seal = True, la_float_code = True, la_float_seal = True\<rparr>
     (Some example_loop) (Some None) None = (TURBOJS_IR_OK, Some (Some example_loop_program), None)"
proof -
  have c: "\<not> TURBOJS_OSR_LOOP_GTE < cl_comparison example_loop" by (simp add: example_loop_def)
  have "allocation_for (length (int_code example_loop)) = 4096" "allocation_for (length (float_code example_loop)) = 4096"
    by (simp_all add: allocation_for_def int_code_def float_code_def)
  then show ?thesis
    using int_kernel_bytes [OF c] float_kernel_bytes [OF c] c
    by (simp add: TurboJS_OSRCompileCountedI64Loop_def example_loop_program_def) (simp add: example_loop_def)
qed

lemma example_loop_fits: "loop_fits example_call example_loop (example_loop_locals 0 0) 4"
proof -
  let ?ls = "example_loop_locals 0 0"
  have "local_addr example_call k \<noteq> xc_frame example_call" if k: "k < 3" for k
  proof -
    consider "k = 0" | "k = 1" | "k = 2" using k by linarith
    then show ?thesis by cases (simp_all add: local_addr_def example_call_def)
  qed
  then have 1: "kernel_ready example_call example_loop ?ls" "loop_kinds example_loop ?ls" "counts_toward example_loop"
    by (simp_all add: kernel_ready_def separate_def loop_kinds_def counts_toward_def example_loop_def example_loop_locals_def)
  have 2: "bits_at ?ls (cl_induction_local example_loop) = 0" "bits_at ?ls (cl_limit_local example_loop) = 4"
    by (simp_all add: bits_at_def example_loop_def example_loop_locals_def)
  have "runs_for example_loop 0 4 4" by (auto simp: runs_for_def continues_int_def example_loop_def)
  then show ?thesis using 1 unfolding loop_fits_def 2 by (simp add: in_int64_def example_loop_def)
qed

lemma example_after_loop: "after_loop E example_loop 4 (example_loop_locals 0 0) = example_loop_locals 4 6"
proof -
  have "(f ^^ 4) x = f (f (f (f x)))" for f :: "i64 \<times> u64 \<Rightarrow> i64 \<times> u64" and x by (simp add: numeral_eq_Suc)
  then show ?thesis
    by (simp add: after_loop_def bits_at_def example_loop_def loop_locals_def put_bits_def loop_body_def accumulate_def example_loop_locals_def)
qed

theorem native_loop_correct_witness:
  "run_native_loop example_env example_call (Some example_loop_program) (example_loop_frame 0 0) 7 =
     Inr (TURBOJS_OSR_EXIT_COMPLETED, example_loop_frame 4 6, 9)"
proof -
  have "of_locals (example_loop_frame 0 0) = Some (example_loop_locals 0 0)" "length (example_loop_locals 0 0) = unat (of_local_count (example_loop_frame 0 0))"
    by (simp_all add: example_loop_frame_def example_loop_locals_def)
  note * = native_loop_correct [OF example_loop_compiled this example_loop_fits, of example_env 7]
  have "cl_maximum_iterations example_loop = 100" "cl_resume_bytecode_offset example_loop = 9" by (simp_all add: example_loop_def)
  then show ?thesis using * by (simp add: example_after_loop example_loop_frame_def)
qed

definition example_osr_state :: TurboJSOSRState where
  "example_osr_state = \<lparr>os_backedge_count = 0, os_compile_threshold = 1, os_entry_count = 0, os_bailout_count = 0, os_loop_header = 0,
     os_compilation_requested = True, os_code_ready = True, os_disabled = False\<rparr>"

theorem native_loop_entry_completes_witness:
  "TurboJS_OSRExecuteEntry True True (Some example_osr_state) (Some (TurboJS_OSRLoopProgramEntry example_env example_call (Some example_loop_program)))
      (Some (example_loop_frame 0 0)) (Some null_execution_result) =
    Inr (TURBOJS_IR_OK, Some (example_osr_state\<lparr>os_entry_count := 1\<rparr>), Some ((example_loop_frame 4 6)\<lparr>of_bytecode_offset := 9\<rparr>),
      Some \<lparr>oer_exit_kind = TURBOJS_OSR_EXIT_COMPLETED, oer_resume_bytecode_offset = 9, oer_restored_original_frame = False\<rparr>)"
proof -
  let ?f = "example_loop_frame 0 0" and ?e = "TurboJS_OSRLoopProgramEntry example_env example_call (Some example_loop_program)"
  have f: "frame_shape ?f" "frame_kinds ?f" "of_locals ?f = Some (example_loop_locals 0 0)" "\<not> backup_fails True True ?f"
    by (simp_all add: shape_defs frame_kinds_def valid_kind_def backup_fails_def example_loop_frame_def example_loop_locals_def)
  have e: "entry_allowed example_osr_state ?e ?f"
    by (simp add: entry_allowed_def example_osr_state_def TurboJS_OSRLoopProgramEntry_def example_loop_program_def example_loop_def example_loop_frame_def)
  have "4 \<le> unat (cl_maximum_iterations example_loop)" by (simp add: example_loop_def)
  from native_loop_entry_completes [OF example_loop_compiled f(1-3) example_loop_fits this e f(4), of null_execution_result]
  show ?thesis by (simp add: example_after_loop example_loop_frame_def example_osr_state_def u32_inc_def) (simp add: example_loop_def)
qed

text \<open>
  The bound on the induction variable is needed: a loop up to the largest integer itself, which the callback counts as one iteration, runs for ever, since the
  next value wraps around and is again below the limit.
\<close>

lemma native_loop_hangs:
  assumes p: "TurboJS_OSRCompileCountedI64Loop A (Some s) q d = (TURBOJS_IR_OK, Some (Some p), d')"
    and f: "of_locals frame = Some ls" "length ls = unat (of_local_count frame)" "kernel_ready C s ls" "loop_kinds s ls"
    and s: "cl_comparison s = TURBOJS_OSR_LOOP_LTE" "0 < sint (cl_step s)" "cl_maximum_iterations s \<noteq> 0"
    and l: "bits_at ls (cl_limit_local s) = word_of_int INT64_MAX" "bits_at ls (cl_induction_local s) = word_of_int INT64_MAX"
  shows "run_native_loop E C (Some p) frame resume = Inl Fault_loop"
proof -
  have m: "loop_iterations s (bits_at ls (cl_induction_local s)) (bits_at ls (cl_limit_local s)) = Inr (Some 1)"
    unfolding l using s by (simp add: loop_iterations_def chk64_def in_int64_def bindc_def)
  have "continues (cl_comparison s) i (word_of_int INT64_MAX)" for i
    using sint_in_int64 [of i] s(1) sint_word_of_int64 [of INT64_MAX] by (simp add: continues_def in_int64_def)
  then have never: "counted_loop add s (word_of_int INT64_MAX) x = None" for add x
    unfolding counted_loop_def using while_option_stop [of _ _ x] by (metis (mono_tags, lifting) case_prod_conv option.exhaust surj_pair)
  have "\<not> cl_maximum_iterations s < 1" using s(3) by (simp add: word_less_1)
  then show ?thesis using run_native_loop_compiled [OF p f m, of E resume] never by (simp add: l(1) kernel_outcome_def bindc_def)
qed
end
