(* ===== verification/Parallel_Moves.thy ===== *)
theory Parallel_Moves
  imports JIT_Types
begin

text \<open>
  Parallel moves, \<^verbatim>\<open>src/jit/optimizing/parallel_moves.c\<close>: a set of moves that are meant to happen at the
  same time is put into an order in which they can be executed one after the other, with a scratch
  location to break cycles.

  The flags \<^verbatim>\<open>done\<close> and the output array \<^verbatim>\<open>r\<close> are lists; \<^verbatim>\<open>r\<close> has the capacity it was allocated
  with, and a write past it is a fault. Running a sequence of moves on a store of locations is the
  specification side.
\<close>

section \<open>Model\<close>

datatype TurboJSMoveLocationKind = TURBOJS_MOVE_REGISTER | TURBOJS_MOVE_SPILL_SLOT | TURBOJS_MOVE_SCRATCH

datatype TurboJSRegisterClass = TURBOJS_REGISTER_CLASS_INTEGER | TURBOJS_REGISTER_CLASS_FLOAT64

record TurboJSMoveLocation =
  ml_kind :: TurboJSMoveLocationKind
  ml_register_class :: TurboJSRegisterClass
  ml_index :: u16

record TurboJSParallelMove =
  pm_source :: TurboJSMoveLocation
  pm_destination :: TurboJSMoveLocation

record TurboJSMoveSequence =
  mq_moves :: "TurboJSParallelMove list ptr"
  mq_count :: nat

definition null_move_sequence :: TurboJSMoveSequence where
  "null_move_sequence = \<lparr>mq_moves = None, mq_count = 0\<rparr>"

definition move_eq :: "TurboJSMoveLocation \<Rightarrow> TurboJSMoveLocation \<Rightarrow> bool" where
  "move_eq a b \<longleftrightarrow> ml_kind a = ml_kind b \<and> ml_register_class a = ml_register_class b \<and> ml_index a = ml_index b"

definition source_used :: "TurboJSParallelMove list \<Rightarrow> bool list \<Rightarrow> TurboJSMoveLocation \<Rightarrow> bool" where
  "source_used m dn d \<longleftrightarrow>
     list_ex (\<lambda>i. \<not> dn ! i \<and> move_eq (pm_source (m ! i)) d \<and> \<not> move_eq (pm_source (m ! i)) (pm_destination (m ! i))) [0..<length m]"

definition emit_move :: "nat \<Rightarrow> TurboJSParallelMove list \<Rightarrow> TurboJSParallelMove \<Rightarrow> TurboJSParallelMove list c" where
  "emit_move cap r mv = (if length r < cap then Inr (r @ [mv]) else Inl Fault_bounds)"

text \<open>One pass over the pending moves: \<^verbatim>\<open>for(i=0;i<n;i++)if(!done[i]&&!source_used(...)){...}\<close>.\<close>

type_synonym move_state = "bool list \<times> TurboJSParallelMove list \<times> u64"

fun move_pass :: "nat \<Rightarrow> TurboJSParallelMove list \<Rightarrow> nat \<Rightarrow> nat \<Rightarrow> bool list \<Rightarrow> TurboJSParallelMove list \<Rightarrow> u64 \<Rightarrow> bool
    \<Rightarrow> (bool list \<times> TurboJSParallelMove list \<times> u64 \<times> bool) c" where
  "move_pass cap m 0 i dn r left progress = Inr (dn, r, left, progress)"
| "move_pass cap m (Suc n) i dn r left progress =
     (if \<not> dn ! i \<and> \<not> source_used m dn (pm_destination (m ! i))
      then bindc (emit_move cap r (m ! i)) (\<lambda>r. move_pass cap m n (i + 1) (dn[i := True]) r (left - 1) True)
      else move_pass cap m n (i + 1) dn r left progress)"

text \<open>The inner loop that follows a cycle from the move \<^verbatim>\<open>i\<close>, whose source is in the scratch location.\<close>

definition pending :: "bool list \<Rightarrow> nat" where
  "pending dn = length (filter Not dn)"

lemma pending_update: "k < length dn \<Longrightarrow> \<not> dn ! k \<Longrightarrow> Suc (pending (dn[k := True])) = pending dn"
  by (induction dn arbitrary: k) (auto simp: pending_def nth_Cons split: nat.splits)

lemma pending_update_le: "pending (dn[k := True]) \<le> pending dn"
  by (induction dn arbitrary: k) (auto simp: pending_def split: nat.splits intro: le_SucI)

lemma find_index: "List.find P [0..<n] = Some k \<Longrightarrow> k < n \<and> P k"
  by (auto simp: find_Some_iff)

lemma pending_found:
  "List.find (\<lambda>k. \<not> dn ! k \<and> Q k) [0..<length dn] = Some k \<Longrightarrow> Suc (pending (dn[k := True])) = pending dn"
  using find_index pending_update by metis

function break_cycle :: "nat \<Rightarrow> TurboJSParallelMove list \<Rightarrow> TurboJSMoveLocation \<Rightarrow> nat \<Rightarrow> nat \<Rightarrow> bool list \<Rightarrow> TurboJSParallelMove list
    \<Rightarrow> u64 \<Rightarrow> move_state c" where
  "break_cycle cap m scratch i j dn r left =
     (case List.find (\<lambda>k. \<not> dn ! k \<and> move_eq (pm_destination (m ! k)) (pm_source (m ! j))) [0..<length dn] of
        None \<Rightarrow>
          bindc (emit_move cap r \<lparr>pm_source = scratch, pm_destination = pm_destination (m ! j)\<rparr>) (\<lambda>r.
            Inr (dn[j := True], r, left - 1))
      | Some k \<Rightarrow>
          bindc (emit_move cap r (m ! k)) (\<lambda>r.
            if move_eq (pm_source (m ! k)) (pm_destination (m ! i))
            then Inr (dn[k := True], r[length r - 1 := (r ! (length r - 1))\<lparr>pm_source := scratch\<rparr>], left - 1)
            else break_cycle cap m scratch i k (dn[k := True]) r (left - 1)))"
  by pat_completeness auto

termination break_cycle
  by (relation "measure (\<lambda>(cap, m, scratch, i, j, dn, r, left). pending dn)") (auto dest: pending_found)

declare break_cycle.simps [simp del]

lemma bindc_cong [fundef_cong]:
  "m = m' \<Longrightarrow> (\<And>x. m' = Inr x \<Longrightarrow> k x = k' x) \<Longrightarrow> bindc m k = bindc m' k'"
  by (auto simp: bindc_def split: sum.splits)

lemma break_cycle_pending:
  "break_cycle cap m scratch i j dn r left = Inr (dn', r', left') \<Longrightarrow>
     length dn' = length dn \<and> pending dn' \<le> pending dn \<and> (j < length dn \<and> \<not> dn ! j \<longrightarrow> pending dn' < pending dn)"
proof (induction cap m scratch i j dn r left rule: break_cycle.induct)
  case (1 cap m scratch i j dn r left)
  show ?case
  proof (cases "List.find (\<lambda>k. \<not> dn ! k \<and> move_eq (pm_destination (m ! k)) (pm_source (m ! j))) [0..<length dn]")
    case None
    with 1(2) show ?thesis
      using pending_update [of j dn] pending_update_le [of dn j] by (auto simp: break_cycle.simps [of cap m scratch i j] bindc_Inr_iff)
  next
    case (Some k)
    note smaller = pending_found [OF Some]
    from 1(2) Some obtain q where q: "emit_move cap r (m ! k) = Inr q"
      by (auto simp: break_cycle.simps [of cap m scratch i j] bindc_Inr_iff)
    show ?thesis
    proof (cases "move_eq (pm_source (m ! k)) (pm_destination (m ! i))")
      case True
      with 1(2) Some q smaller show ?thesis
        by (auto simp: break_cycle.simps [of cap m scratch i j] bindc_def)
    next
      case False
      then have "break_cycle cap m scratch i k (dn[k := True]) q (left - 1) = Inr (dn', r', left')"
        using 1(2) Some q by (simp add: break_cycle.simps [of cap m scratch i j] bindc_def)
      from 1(1) [OF Some False this] smaller show ?thesis by auto
    qed
  qed
qed

lemma pass_pending:
  "move_pass cap m n i dn r left progress = Inr (dn', r', left', progress') \<Longrightarrow> i + n \<le> length dn \<Longrightarrow>
     length dn' = length dn \<and> pending dn' \<le> pending dn \<and> (progress' \<longrightarrow> progress \<or> pending dn' < pending dn)"
proof (induction cap m n i dn r left progress rule: move_pass.induct)
  case (2 cap m n i dn r left progress)
  show ?case
  proof (cases "\<not> dn ! i \<and> \<not> source_used m dn (pm_destination (m ! i))")
    case True
    with 2(3) obtain q where q: "emit_move cap r (m ! i) = Inr q"
        "move_pass cap m n (i + 1) (dn[i := True]) q (left - 1) True = Inr (dn', r', left', progress')"
      by (auto simp: bindc_Inr_iff)
    from 2(1) [OF True q(2)] 2(4) pending_update [of i dn] True show ?thesis by auto
  next
    case False
    with 2(2) [OF False] 2(3,4) show ?thesis by auto
  qed
qed simp

function resolve_loop :: "nat \<Rightarrow> TurboJSParallelMove list \<Rightarrow> TurboJSMoveLocation \<Rightarrow> TurboJSMoveLocation \<Rightarrow> bool list
    \<Rightarrow> TurboJSParallelMove list \<Rightarrow> u64 \<Rightarrow> (TurboJSIRStatus \<times> TurboJSParallelMove list) c" where
  "resolve_loop cap m integer_scratch float_scratch dn r left =
     (if left = 0 then Inr (TURBOJS_IR_OK, r)
      else bindc (move_pass cap m (length dn) 0 dn r left False) (\<lambda>(dn1, r, left, progress).
        if progress then resolve_loop cap m integer_scratch float_scratch dn1 r left
        else (case List.find (\<lambda>i. \<not> dn1 ! i) [0..<length dn1] of
            None \<Rightarrow> Inr (TURBOJS_IR_OK, r)
          | Some i \<Rightarrow>
              (let scratch = (if ml_register_class (pm_source (m ! i)) = TURBOJS_REGISTER_CLASS_FLOAT64 then float_scratch else integer_scratch)
               in if ml_kind scratch \<noteq> TURBOJS_MOVE_SCRATCH then Inr (TURBOJS_IR_INVALID_ARGUMENT, [])
                  else bindc (emit_move cap r \<lparr>pm_source = pm_source (m ! i), pm_destination = scratch\<rparr>) (\<lambda>r.
                       bindc (break_cycle cap m scratch i i dn1 r left) (\<lambda>(dn2, r, left).
                         resolve_loop cap m integer_scratch float_scratch dn2 r left))))))"
  by pat_completeness auto

termination resolve_loop
  by (relation "measure (\<lambda>(cap, m, isc, fs, dn, r, left). pending dn)")
    (auto dest!: pass_pending break_cycle_pending find_index)

declare resolve_loop.simps [simp del]

definition TurboJS_ResolveParallelMoves ::
  "bool \<Rightarrow> bool \<Rightarrow> TurboJSParallelMove list ptr \<Rightarrow> nat \<Rightarrow> TurboJSMoveLocation \<Rightarrow> TurboJSMoveLocation \<Rightarrow> TurboJSMoveSequence ptr
     \<Rightarrow> (TurboJSIRStatus \<times> TurboJSMoveSequence ptr) c" where
  "TurboJS_ResolveParallelMoves done_ok moves_ok moves n integer_scratch float_scratch out =
     (if out = None \<or> (moves = None \<and> n \<noteq> 0) then Inr (TURBOJS_IR_INVALID_ARGUMENT, out)
      else if n = 0 then Inr (TURBOJS_IR_OK, Some null_move_sequence)
      else if \<not> done_ok \<or> \<not> moves_ok then Inr (TURBOJS_IR_OUT_OF_MEMORY, Some null_move_sequence)
      else if length (the moves) < n then Inl Fault_bounds
      else
        (let m = take n (the moves);
             dn = map (\<lambda>mv. move_eq (pm_source mv) (pm_destination mv)) m
         in bindc (resolve_loop (n * 2 mod 2 ^ 64) m integer_scratch float_scratch dn [] (of_nat (pending dn))) (\<lambda>(st, r).
              Inr (st, Some (if st = TURBOJS_IR_OK then \<lparr>mq_moves = Some r, mq_count = length r\<rparr> else null_move_sequence)))))"

definition TurboJS_MoveSequenceDestroy :: "TurboJSMoveSequence ptr \<Rightarrow> TurboJSMoveSequence ptr" where
  "TurboJS_MoveSequenceDestroy s = map_option (\<lambda>_. null_move_sequence) s"

section \<open>Running moves\<close>

primrec run_moves :: "TurboJSParallelMove list \<Rightarrow> (TurboJSMoveLocation \<Rightarrow> 'v) \<Rightarrow> TurboJSMoveLocation \<Rightarrow> 'v" where
  "run_moves [] store = store"
| "run_moves (mv # mvs) store = run_moves mvs (store(pm_destination mv := store (pm_source mv)))"

lemma run_moves_append: "run_moves (xs @ ys) store = run_moves ys (run_moves xs store)"
  by (induction xs arbitrary: store) simp_all

lemma move_eq_iff [simp]: "move_eq a b \<longleftrightarrow> a = b"
  by (auto simp: move_eq_def)

lemma source_used_iff:
  "source_used m dn d \<longleftrightarrow> (\<exists>i<length m. \<not> dn ! i \<and> pm_source (m ! i) = d \<and> pm_source (m ! i) \<noteq> pm_destination (m ! i))"
  by (auto simp: source_used_def list_ex_iff)

text \<open>
  What the sequence built so far does: the moves that are done have taken effect, every other location
  is as it was, and no pending move reads what has been overwritten.
\<close>

definition moves_inv :: "TurboJSParallelMove list \<Rightarrow> bool list \<Rightarrow> (TurboJSMoveLocation \<Rightarrow> 'v) \<Rightarrow> (TurboJSMoveLocation \<Rightarrow> 'v) \<Rightarrow> bool" where
  "moves_inv m dn store0 store \<longleftrightarrow> length dn = length m \<and>
     (\<forall>i<length m. dn ! i \<longrightarrow> store (pm_destination (m ! i)) = store0 (pm_source (m ! i))) \<and>
     (\<forall>l. (\<forall>i<length m. dn ! i \<longrightarrow> pm_destination (m ! i) \<noteq> l) \<longrightarrow> store l = store0 l) \<and>
     (\<forall>i<length m. \<forall>j<length m. dn ! i \<longrightarrow> pm_source (m ! i) \<noteq> pm_destination (m ! i) \<longrightarrow> \<not> dn ! j \<longrightarrow>
        pm_source (m ! j) \<noteq> pm_destination (m ! i)) \<and>
     (\<forall>j<length m. \<not> dn ! j \<longrightarrow> pm_source (m ! j) \<noteq> pm_destination (m ! j))"

lemma moves_inv_source:
  assumes "moves_inv m dn store0 store" "i < length m" "\<not> dn ! i"
  shows "store (pm_source (m ! i)) = store0 (pm_source (m ! i))"
proof (cases "\<exists>k<length m. dn ! k \<and> pm_destination (m ! k) = pm_source (m ! i)")
  case True
  then obtain k where "k < length m" "dn ! k" "pm_destination (m ! k) = pm_source (m ! i)" by blast
  with assms show ?thesis unfolding moves_inv_def by metis
next
  case False
  with assms show ?thesis unfolding moves_inv_def by metis
qed

lemma moves_inv_step:
  assumes inv: "moves_inv m dn store0 store" and i: "i < length m" "\<not> dn ! i"
    and free: "\<not> source_used m dn (pm_destination (m ! i))"
    and dist: "distinct (map pm_destination m)"
  shows "moves_inv m (dn[i := True]) store0 (store(pm_destination (m ! i) := store (pm_source (m ! i))))"
proof -
  have other: "pm_destination (m ! k) \<noteq> pm_destination (m ! i)" if "k < length m" "k \<noteq> i" for k
    using dist that i(1) by (simp add: distinct_conv_nth)
  have "pm_source (m ! j) \<noteq> pm_destination (m ! i)" if "j < length m" "\<not> dn ! j" for j
    using free inv that by (auto simp: source_used_iff moves_inv_def)
  moreover have "(dn[i := True]) ! k \<longleftrightarrow> k = i \<or> dn ! k" if "k < length m" for k
    using inv that by (cases "k = i") (simp_all add: moves_inv_def)
  ultimately show ?thesis
    using inv i other moves_inv_source [OF inv i] unfolding moves_inv_def length_list_update fun_upd_apply
    by (intro conjI; metis)
qed

text \<open>A pass keeps the invariant, and if it emits nothing then no pending move was free.\<close>

lemma pass_keeps:
  assumes "moves_inv m dn store0 (run_moves r store0)" "distinct (map pm_destination m)" "i + n = length m"
    and "unat left = pending dn" "length r + pending dn \<le> cap"
  shows "\<exists>dn' r' left' progress'. move_pass cap m n i dn r left progress = Inr (dn', r', left', progress') \<and>
           moves_inv m dn' store0 (run_moves r' store0) \<and> unat left' = pending dn' \<and> length r' + pending dn' \<le> cap \<and>
           (\<not> progress' \<longrightarrow> dn' = dn \<and> \<not> progress \<and> (\<forall>k. i \<le> k \<and> k < length m \<and> \<not> dn ! k \<longrightarrow> source_used m dn (pm_destination (m ! k)))) \<and>
           (progress \<longrightarrow> progress')"
  using assms
proof (induction n arbitrary: i dn r left progress)
  case (Suc n)
  have i: "i < length m" "length dn = length m" "Suc i + n = length m"
    using Suc.prems(1,3) by (auto simp: moves_inv_def)
  show ?case
  proof (cases "\<not> dn ! i \<and> \<not> source_used m dn (pm_destination (m ! i))")
    case True
    have less: "Suc (pending (dn[i := True])) = pending dn"
      using pending_update True i by simp
    have "left \<noteq> 0" using less Suc.prems(4) by auto
    then have left: "unat (left - 1) = pending (dn[i := True])"
      using less Suc.prems(4) by (simp add: unat_minus_one)
    have emit: "emit_move cap r (m ! i) = Inr (r @ [m ! i])"
      using less Suc.prems(5) by (simp add: emit_move_def)
    have inv: "moves_inv m (dn[i := True]) store0 (run_moves (r @ [m ! i]) store0)"
      using moves_inv_step [OF Suc.prems(1) i(1)] True Suc.prems(2) by (simp add: run_moves_append)
    from Suc.IH [OF inv Suc.prems(2) i(3) left, where progress = True] less Suc.prems(5)
    show ?thesis using True emit by (auto simp: bindc_def)
  next
    case False
    from Suc.IH [OF Suc.prems(1,2) i(3) Suc.prems(4,5), of progress] obtain dn' r' left' progress' where *:
      "move_pass cap m n (Suc i) dn r left progress = Inr (dn', r', left', progress')"
      "moves_inv m dn' store0 (run_moves r' store0)" "unat left' = pending dn'" "length r' + pending dn' \<le> cap"
      "\<not> progress' \<longrightarrow> dn' = dn \<and> \<not> progress \<and> (\<forall>k. Suc i \<le> k \<and> k < length m \<and> \<not> dn ! k \<longrightarrow> source_used m dn (pm_destination (m ! k)))"
      "progress \<longrightarrow> progress'"
      by (elim exE conjE) (rule that)
    have "\<forall>k. i \<le> k \<and> k < length m \<and> \<not> dn ! k \<longrightarrow> source_used m dn (pm_destination (m ! k))" if "\<not> progress'"
      using *(5) that False by (metis Suc_leI le_neq_implies_less)
    with * False show ?thesis by auto
  qed
qed auto

text \<open>Without a cycle some pending move is always free.\<close>

definition move_graph :: "TurboJSParallelMove list \<Rightarrow> (TurboJSMoveLocation \<times> TurboJSMoveLocation) set" where
  "move_graph m = (\<lambda>mv. (pm_source mv, pm_destination mv)) ` {mv \<in> set m. pm_source mv \<noteq> pm_destination mv}"

lemma some_move_free:
  assumes "acyclic (move_graph m)" and inv: "moves_inv m dn store0 store" and i: "i < length m" "\<not> dn ! i"
  shows "\<exists>k<length m. \<not> dn ! k \<and> \<not> source_used m dn (pm_destination (m ! k))"
proof -
  let ?Q = "(\<lambda>k. pm_destination (m ! k)) ` {k. k < length m \<and> \<not> dn ! k}"
  have "finite (move_graph m)" by (simp add: move_graph_def)
  then have "wf ((move_graph m)\<inverse>)"
    using assms(1) by (rule finite_acyclic_wf_converse)
  moreover from i have "pm_destination (m ! i) \<in> ?Q" by blast
  ultimately obtain z where z: "z \<in> ?Q" "\<And>y. (y, z) \<in> (move_graph m)\<inverse> \<Longrightarrow> y \<notin> ?Q"
    by (rule wfE_min) blast
  then obtain k where k: "k < length m" "\<not> dn ! k" "z = pm_destination (m ! k)" by blast
  have "\<not> source_used m dn z"
  proof
    assume "source_used m dn z"
    then obtain j where j: "j < length m" "\<not> dn ! j" "pm_source (m ! j) = z" "pm_source (m ! j) \<noteq> pm_destination (m ! j)"
      by (auto simp: source_used_iff)
    then have "(pm_destination (m ! j), z) \<in> (move_graph m)\<inverse>"
      by (force simp: move_graph_def)
    from z(2) [OF this] j show False by blast
  qed
  with k show ?thesis by blast
qed

lemma resolve_keeps:
  assumes "acyclic (move_graph m)" "distinct (map pm_destination m)" "moves_inv m dn store0 (run_moves r store0)"
    and "unat left = pending dn" "length r + pending dn \<le> cap"
  shows "\<exists>r'. resolve_loop cap m isc fs dn r left = Inr (TURBOJS_IR_OK, r') \<and>
           moves_inv m (replicate (length m) True) store0 (run_moves r' store0)"
  using assms
proof (induction "pending dn" arbitrary: dn r left rule: less_induct)
  case less
  have len: "length dn = length m" using less.prems(3) by (simp add: moves_inv_def)
  show ?case
  proof (cases "left = 0")
    case True
    then have "pending dn = 0" using less.prems(4) by simp
    then have "dn = replicate (length m) True"
      using len by (auto simp: pending_def filter_empty_conv intro!: nth_equalityI)
    then show ?thesis using True less.prems(3) by (simp add: resolve_loop.simps)
  next
    case False
    from pass_keeps [OF less.prems(3,2) _ less.prems(4,5), of 0 "length m" False] obtain dn' r' left' progress' where *:
      "move_pass cap m (length m) 0 dn r left False = Inr (dn', r', left', progress')"
      "moves_inv m dn' store0 (run_moves r' store0)" "unat left' = pending dn'" "length r' + pending dn' \<le> cap"
      "\<not> progress' \<longrightarrow> dn' = dn \<and> (\<forall>k. k < length m \<and> \<not> dn ! k \<longrightarrow> source_used m dn (pm_destination (m ! k)))"
      by auto
    obtain i where "i < length m" "\<not> dn ! i"
    proof -
      have "filter Not dn \<noteq> []"
        using False less.prems(4) unfolding pending_def by (metis length_0_conv unat_eq_0)
      then show thesis using that len by (auto simp: filter_empty_conv in_set_conv_nth)
    qed
    then have progress: "progress'"
      using some_move_free [OF less.prems(1,3)] *(5) by blast
    then have "pending dn' < pending dn"
      using pass_pending [OF *(1)] len by simp
    from less.hyps [OF this less.prems(1,2) *(2-4)] show ?thesis
      using False *(1) progress len by (simp add: resolve_loop.simps [of cap m isc fs dn] bindc_def)
  qed
qed

section \<open>Properties\<close>

text \<open>
  C33. A set of moves with distinct destinations and without a cycle is resolved: the call succeeds
  within its buffer, and executing the resulting sequence one move after the other has the effect of
  executing all moves at the same time. Every destination receives what its source held at the start,
  and no other location changes, the scratch locations included.
\<close>

theorem parallel_moves_acyclic_correct:
  assumes "acyclic (move_graph moves)" "distinct (map pm_destination moves)" "length moves < 2 ^ 63"
  shows "\<exists>r. TurboJS_ResolveParallelMoves True True (Some moves) (length moves) integer_scratch float_scratch (Some out) =
      Inr (TURBOJS_IR_OK, Some \<lparr>mq_moves = (if moves = [] then None else Some r), mq_count = length r\<rparr>) \<and>
    (\<forall>mv\<in>set moves. run_moves r store (pm_destination mv) = store (pm_source mv)) \<and>
    (\<forall>l. l \<notin> pm_destination ` set moves \<longrightarrow> run_moves r store l = store l)"
proof (cases "moves = []")
  case True
  then show ?thesis
    by (intro exI [of _ "[]"]) (simp add: TurboJS_ResolveParallelMoves_def null_move_sequence_def)
next
  case False
  define dn where "dn = map (\<lambda>mv. move_eq (pm_source mv) (pm_destination mv)) moves"
  have len: "pending dn \<le> length moves"
    using length_filter_le [of Not dn] by (simp add: pending_def dn_def)
  have cap: "length moves * 2 mod 2 ^ 64 = length moves * 2"
    using assms(3) by simp
  have inv: "moves_inv moves dn store (run_moves [] store)"
    by (auto simp: moves_inv_def dn_def)
  have left: "unat (of_nat (pending dn) :: u64) = pending dn"
    using len assms(3) by (simp add: unat_of_nat)
  from resolve_keeps [OF assms(1,2) inv left, of "length moves * 2" integer_scratch float_scratch] len obtain r where r:
    "resolve_loop (length moves * 2) moves integer_scratch float_scratch dn [] (of_nat (pending dn)) = Inr (TURBOJS_IR_OK, r)"
    "moves_inv moves (replicate (length moves) True) store (run_moves r store)"
    by auto
  have "run_moves r store (pm_destination mv) = store (pm_source mv)" if "mv \<in> set moves" for mv
    using r(2) that by (auto simp: moves_inv_def in_set_conv_nth)
  moreover have "run_moves r store l = store l" if "l \<notin> pm_destination ` set moves" for l
  proof -
    have "pm_destination (moves ! i) \<noteq> l" if "i < length moves" for i
      using \<open>l \<notin> _\<close> nth_mem [OF that] by blast
    then show ?thesis using r(2) by (auto simp: moves_inv_def)
  qed
  ultimately show ?thesis
    using False r(1) cap by (intro exI [of _ r]) (auto simp: TurboJS_ResolveParallelMoves_def Let_def dn_def bindc_def)
qed

definition machine_register :: "u16 \<Rightarrow> TurboJSMoveLocation" where
  "machine_register i = \<lparr>ml_kind = TURBOJS_MOVE_REGISTER, ml_register_class = TURBOJS_REGISTER_CLASS_INTEGER, ml_index = i\<rparr>"

definition scratch_location :: "TurboJSRegisterClass \<Rightarrow> TurboJSMoveLocation" where
  "scratch_location rc = \<lparr>ml_kind = TURBOJS_MOVE_SCRATCH, ml_register_class = rc, ml_index = 0\<rparr>"

definition move_between :: "u16 \<Rightarrow> u16 \<Rightarrow> TurboJSParallelMove" where
  "move_between a b = \<lparr>pm_source = machine_register a, pm_destination = machine_register b\<rparr>"

theorem parallel_moves_acyclic_correct_witness:
  "\<exists>r. TurboJS_ResolveParallelMoves True True (Some [move_between 0 1, move_between 1 2]) 2
        (scratch_location TURBOJS_REGISTER_CLASS_INTEGER) (scratch_location TURBOJS_REGISTER_CLASS_FLOAT64) (Some null_move_sequence) =
      Inr (TURBOJS_IR_OK, Some \<lparr>mq_moves = Some r, mq_count = length r\<rparr>) \<and>
    run_moves r ml_index (machine_register 1) = 0 \<and> run_moves r ml_index (machine_register 2) = 1"
proof -
  have "move_graph [move_between 0 1, move_between 1 2] \<subseteq> measure (\<lambda>l. unat (ml_index l))"
    by (auto simp: move_graph_def move_between_def machine_register_def)
  then have acyc: "acyclic (move_graph [move_between 0 1, move_between 1 2])"
    by (rule acyclic_subset [OF wf_acyclic [OF wf_measure]])
  have dist: "distinct (map pm_destination [move_between 0 1, move_between 1 2])"
    and size: "length [move_between 0 1, move_between 1 2] < 2 ^ 63"
    and len: "length [move_between 0 1, move_between 1 2] = 2"
    by (simp_all add: move_between_def machine_register_def)
  from parallel_moves_acyclic_correct [OF acyc dist size, where out = null_move_sequence and store = ml_index
      and integer_scratch = "scratch_location TURBOJS_REGISTER_CLASS_INTEGER"
      and float_scratch = "scratch_location TURBOJS_REGISTER_CLASS_FLOAT64"]
  show ?thesis
    unfolding len by (auto simp: move_between_def machine_register_def)
qed


end
