(* ===== verification/Frames.thy ===== *)
theory Frames
  imports JIT_Types
begin

text \<open>
  Frames of the baseline tier: the layout of a frame in memory, \<^verbatim>\<open>src/jit/runtime/js_frame_abi.c\<close>, and the
  frame state that the bytecode front end carries from instruction to instruction,
  \<^verbatim>\<open>src/jit/frontend/spool_frame_state.c\<close>.

  The 64-bit sums of the layout are natural numbers: four 32-bit counts and eight slots stay far below
  \<open>2 ^ 64\<close>. A failed allocation is a boolean argument.
\<close>

section \<open>Layout\<close>

abbreviation TURBOJS_JS_FRAME_ABI_VERSION :: u32 where
  "TURBOJS_JS_FRAME_ABI_VERSION \<equiv> 1"

abbreviation TURBOJS_JS_FRAME_SLOT_SIZE :: nat where
  "TURBOJS_JS_FRAME_SLOT_SIZE \<equiv> 8"

datatype TurboJSJSFrameFixedSlot =
    TURBOJS_JS_FRAME_PREVIOUS_FRAME | TURBOJS_JS_FRAME_RETURN_PC | TURBOJS_JS_FRAME_CONTEXT
  | TURBOJS_JS_FRAME_FUNCTION | TURBOJS_JS_FRAME_ENVIRONMENT | TURBOJS_JS_FRAME_BYTECODE_PC
  | TURBOJS_JS_FRAME_ARGUMENT_COUNT | TURBOJS_JS_FRAME_ACCUMULATOR | TURBOJS_JS_FRAME_FIXED_SLOT_COUNT

primrec fixed_slot_number :: "TurboJSJSFrameFixedSlot \<Rightarrow> nat" where
  "fixed_slot_number TURBOJS_JS_FRAME_PREVIOUS_FRAME = 0"
| "fixed_slot_number TURBOJS_JS_FRAME_RETURN_PC = 1"
| "fixed_slot_number TURBOJS_JS_FRAME_CONTEXT = 2"
| "fixed_slot_number TURBOJS_JS_FRAME_FUNCTION = 3"
| "fixed_slot_number TURBOJS_JS_FRAME_ENVIRONMENT = 4"
| "fixed_slot_number TURBOJS_JS_FRAME_BYTECODE_PC = 5"
| "fixed_slot_number TURBOJS_JS_FRAME_ARGUMENT_COUNT = 6"
| "fixed_slot_number TURBOJS_JS_FRAME_ACCUMULATOR = 7"
| "fixed_slot_number TURBOJS_JS_FRAME_FIXED_SLOT_COUNT = 8"

record TurboJSJSFrameLayout =
  fl_abi_version :: u32
  fl_slot_size :: u32
  fl_fixed_slot_count :: u32
  fl_argument_count :: u32
  fl_local_count :: u32
  fl_stack_capacity :: u32
  fl_total_slots :: u32
  fl_frame_size_bytes :: u32

definition slot_offset :: "nat \<Rightarrow> nat" where
  "slot_offset slot = (if SIZE_MAX div TURBOJS_JS_FRAME_SLOT_SIZE < slot then SIZE_MAX else slot * TURBOJS_JS_FRAME_SLOT_SIZE)"

definition TurboJS_JSFrameLayoutInit ::
  "TurboJSJSFrameLayout ptr \<Rightarrow> u32 \<Rightarrow> u32 \<Rightarrow> u32 \<Rightarrow> TurboJSIRStatus \<times> TurboJSJSFrameLayout ptr" where
  "TurboJS_JSFrameLayoutInit layout argument_count local_count stack_capacity =
     (case layout of
        None \<Rightarrow> (TURBOJS_IR_INVALID_ARGUMENT, None)
      | Some l \<Rightarrow>
          (let total_slots = fixed_slot_number TURBOJS_JS_FRAME_FIXED_SLOT_COUNT + unat argument_count + unat local_count + unat stack_capacity;
               frame_size = total_slots * TURBOJS_JS_FRAME_SLOT_SIZE
           in if UINT32_MAX < total_slots \<or> UINT32_MAX < frame_size then (TURBOJS_IR_INVALID_ARGUMENT, layout)
              else (TURBOJS_IR_OK, Some
                \<lparr>fl_abi_version = TURBOJS_JS_FRAME_ABI_VERSION, fl_slot_size = of_nat TURBOJS_JS_FRAME_SLOT_SIZE,
                 fl_fixed_slot_count = of_nat (fixed_slot_number TURBOJS_JS_FRAME_FIXED_SLOT_COUNT),
                 fl_argument_count = argument_count, fl_local_count = local_count, fl_stack_capacity = stack_capacity,
                 fl_total_slots = of_nat total_slots, fl_frame_size_bytes = of_nat frame_size\<rparr>)))"

definition TurboJS_JSFrameFixedSlotOffset :: "TurboJSJSFrameFixedSlot \<Rightarrow> nat" where
  "TurboJS_JSFrameFixedSlotOffset slot =
     (if fixed_slot_number TURBOJS_JS_FRAME_FIXED_SLOT_COUNT \<le> fixed_slot_number slot then SIZE_MAX
      else slot_offset (fixed_slot_number slot))"

definition TurboJS_JSFrameArgumentOffset :: "TurboJSJSFrameLayout ptr \<Rightarrow> u32 \<Rightarrow> nat" where
  "TurboJS_JSFrameArgumentOffset layout index =
     (case layout of
        None \<Rightarrow> SIZE_MAX
      | Some l \<Rightarrow>
          if fl_abi_version l \<noteq> TURBOJS_JS_FRAME_ABI_VERSION \<or> fl_argument_count l \<le> index then SIZE_MAX
          else slot_offset (unat (fl_fixed_slot_count l) + unat index))"

definition TurboJS_JSFrameLocalOffset :: "TurboJSJSFrameLayout ptr \<Rightarrow> u32 \<Rightarrow> nat" where
  "TurboJS_JSFrameLocalOffset layout index =
     (case layout of
        None \<Rightarrow> SIZE_MAX
      | Some l \<Rightarrow>
          if fl_abi_version l \<noteq> TURBOJS_JS_FRAME_ABI_VERSION \<or> fl_local_count l \<le> index then SIZE_MAX
          else slot_offset (unat (fl_fixed_slot_count l) + unat (fl_argument_count l) + unat index))"

definition TurboJS_JSFrameStackOffset :: "TurboJSJSFrameLayout ptr \<Rightarrow> u32 \<Rightarrow> nat" where
  "TurboJS_JSFrameStackOffset layout index =
     (case layout of
        None \<Rightarrow> SIZE_MAX
      | Some l \<Rightarrow>
          if fl_abi_version l \<noteq> TURBOJS_JS_FRAME_ABI_VERSION \<or> fl_stack_capacity l \<le> index then SIZE_MAX
          else slot_offset (unat (fl_fixed_slot_count l) + unat (fl_argument_count l) + unat (fl_local_count l) + unat index))"

section \<open>Frame state of the front end\<close>

record TurboJSSpoolFrameState =
  sf_locals :: "TurboJSBoxedValue list ptr"
  sf_stack :: "TurboJSBoxedValue list ptr"
  sf_local_count :: u32
  sf_stack_count :: u32
  sf_stack_capacity :: u32
  sf_bytecode_offset :: u32

definition null_spool_state :: TurboJSSpoolFrameState where
  "null_spool_state = \<lparr>sf_locals = None, sf_stack = None, sf_local_count = 0, sf_stack_count = 0, sf_stack_capacity = 0,
     sf_bytecode_offset = 0\<rparr>"

definition undefined_value :: TurboJSBoxedValue where
  "undefined_value = \<lparr>bv_tag = TURBOJS_BOXED_UNDEFINED, bv_as = 0\<rparr>"

definition TurboJS_SpoolFrameStateInit ::
  "bool \<Rightarrow> bool \<Rightarrow> TurboJSSpoolFrameState ptr \<Rightarrow> u32 \<Rightarrow> u32 \<Rightarrow> TurboJSIRStatus \<times> TurboJSSpoolFrameState ptr" where
  "TurboJS_SpoolFrameStateInit locals_ok stack_ok state local_count stack_capacity =
     (case state of
        None \<Rightarrow> (TURBOJS_IR_INVALID_ARGUMENT, None)
      | Some _ \<Rightarrow>
          if local_count \<noteq> 0 \<and> \<not> locals_ok then (TURBOJS_IR_OUT_OF_MEMORY, Some null_spool_state)
          else if stack_capacity \<noteq> 0 \<and> \<not> stack_ok then (TURBOJS_IR_OUT_OF_MEMORY, Some null_spool_state)
          else (TURBOJS_IR_OK, Some (null_spool_state\<lparr>
            sf_locals := (if local_count \<noteq> 0 then Some (replicate (unat local_count) undefined_value) else None),
            sf_stack := (if stack_capacity \<noteq> 0 then Some (replicate (unat stack_capacity) undefined_value) else None),
            sf_local_count := local_count, sf_stack_capacity := stack_capacity\<rparr>)))"

definition TurboJS_SpoolFrameStateDestroy :: "TurboJSSpoolFrameState ptr \<Rightarrow> TurboJSSpoolFrameState ptr" where
  "TurboJS_SpoolFrameStateDestroy state = map_option (\<lambda>_. null_spool_state) state"

definition array_values :: "'a list ptr \<Rightarrow> 'a list" where
  "array_values p = (case p of None \<Rightarrow> [] | Some xs \<Rightarrow> xs)"

definition copy_values :: "u32 \<Rightarrow> TurboJSBoxedValue list ptr \<Rightarrow> TurboJSBoxedValue list ptr \<Rightarrow> TurboJSBoxedValue list ptr c" where
  "copy_values n dst src =
     (if n = 0 then Inr dst
      else (case (dst, src) of
              (Some d, Some s) \<Rightarrow>
                if unat n \<le> length d \<and> unat n \<le> length s then Inr (Some (take (unat n) s @ drop (unat n) d)) else Inl Fault_bounds
            | _ \<Rightarrow> Inl Fault_bounds))"

definition TurboJS_SpoolFrameStateClone ::
  "bool \<Rightarrow> bool \<Rightarrow> TurboJSSpoolFrameState ptr \<Rightarrow> TurboJSSpoolFrameState ptr \<Rightarrow> (TurboJSIRStatus \<times> TurboJSSpoolFrameState ptr) c" where
  "TurboJS_SpoolFrameStateClone locals_ok stack_ok source destination =
     (case (source, destination) of
        (Some s, Some _) \<Rightarrow>
          (case TurboJS_SpoolFrameStateInit locals_ok stack_ok destination (sf_local_count s) (sf_stack_capacity s) of (status, dst) \<Rightarrow>
             if status \<noteq> TURBOJS_IR_OK then Inr (status, dst)
             else
               (let d = the dst
                in bindc (copy_values (sf_local_count s) (sf_locals d) (sf_locals s)) (\<lambda>ls.
                   bindc (copy_values (sf_stack_count s) (sf_stack d) (sf_stack s)) (\<lambda>ss.
                     Inr (TURBOJS_IR_OK, Some (d\<lparr>sf_locals := ls, sf_stack := ss, sf_stack_count := sf_stack_count s,
                       sf_bytecode_offset := sf_bytecode_offset s\<rparr>)))))
           )
      | _ \<Rightarrow> Inr (TURBOJS_IR_INVALID_ARGUMENT, destination))"

text \<open>\<^verbatim>\<open>realloc\<close> keeps the values; the new room is read only after it has been written.\<close>

definition TurboJS_SpoolFrameStatePush ::
  "bool \<Rightarrow> TurboJSSpoolFrameState ptr \<Rightarrow> TurboJSBoxedValue \<Rightarrow> (TurboJSIRStatus \<times> TurboJSSpoolFrameState ptr) c" where
  "TurboJS_SpoolFrameStatePush realloc_ok state value =
     (case state of
        None \<Rightarrow> Inr (TURBOJS_IR_INVALID_ARGUMENT, None)
      | Some s \<Rightarrow>
          (let full = sf_stack_count s = sf_stack_capacity s;
               capacity = (if sf_stack_capacity s \<noteq> 0 then sf_stack_capacity s * 2 else 8);
               old = array_values (sf_stack s);
               s1 = (if full then s\<lparr>sf_stack := Some (take (unat capacity) old @ replicate (unat capacity - length old) undefined_value),
                                    sf_stack_capacity := capacity\<rparr> else s)
           in if full \<and> (capacity < sf_stack_capacity s \<or> \<not> realloc_ok) then Inr (TURBOJS_IR_OUT_OF_MEMORY, state)
              else bindc (wr (array_values (sf_stack s1)) (unat (sf_stack_count s)) value) (\<lambda>xs.
                     Inr (TURBOJS_IR_OK, Some (s1\<lparr>sf_stack := Some xs, sf_stack_count := sf_stack_count s + 1\<rparr>)))))"

definition TurboJS_SpoolFrameStatePop ::
  "TurboJSSpoolFrameState ptr \<Rightarrow> TurboJSBoxedValue ptr \<Rightarrow> (TurboJSIRStatus \<times> TurboJSSpoolFrameState ptr \<times> TurboJSBoxedValue ptr) c" where
  "TurboJS_SpoolFrameStatePop state value =
     (case (state, value) of
        (Some s, Some _) \<Rightarrow>
          if sf_stack_count s = 0 then Inr (TURBOJS_IR_INVALID_REGISTER, state, value)
          else
            (let top = unat (sf_stack_count s - 1); xs = array_values (sf_stack s)
             in bindc (rd xs top) (\<lambda>v.
                bindc (wr xs top undefined_value) (\<lambda>ys.
                  Inr (TURBOJS_IR_OK, Some (s\<lparr>sf_stack := Some ys, sf_stack_count := sf_stack_count s - 1\<rparr>), Some v))))
      | _ \<Rightarrow> Inr (TURBOJS_IR_INVALID_ARGUMENT, state, value))"

definition TurboJS_SpoolFrameStateSetLocal ::
  "TurboJSSpoolFrameState ptr \<Rightarrow> u32 \<Rightarrow> TurboJSBoxedValue \<Rightarrow> (TurboJSIRStatus \<times> TurboJSSpoolFrameState ptr) c" where
  "TurboJS_SpoolFrameStateSetLocal state index value =
     (case state of
        None \<Rightarrow> Inr (TURBOJS_IR_INVALID_REGISTER, None)
      | Some s \<Rightarrow>
          if sf_local_count s \<le> index then Inr (TURBOJS_IR_INVALID_REGISTER, state)
          else bindc (wr (array_values (sf_locals s)) (unat index) value) (\<lambda>xs.
                 Inr (TURBOJS_IR_OK, Some (s\<lparr>sf_locals := Some xs\<rparr>))))"

definition TurboJS_SpoolFrameStateGetLocal ::
  "TurboJSSpoolFrameState ptr \<Rightarrow> u32 \<Rightarrow> TurboJSBoxedValue ptr \<Rightarrow> (TurboJSIRStatus \<times> TurboJSBoxedValue ptr) c" where
  "TurboJS_SpoolFrameStateGetLocal state index value =
     (case (state, value) of
        (Some s, Some _) \<Rightarrow>
          if sf_local_count s \<le> index then Inr (TURBOJS_IR_INVALID_REGISTER, value)
          else bindc (rd (array_values (sf_locals s)) (unat index)) (\<lambda>v. Inr (TURBOJS_IR_OK, Some v))
      | _ \<Rightarrow> Inr (TURBOJS_IR_INVALID_REGISTER, value))"

definition TurboJS_SpoolFrameStateShapeCompatible :: "TurboJSSpoolFrameState ptr \<Rightarrow> TurboJSSpoolFrameState ptr \<Rightarrow> bool" where
  "TurboJS_SpoolFrameStateShapeCompatible left right \<longleftrightarrow>
     (case (left, right) of
        (Some l, Some r) \<Rightarrow> sf_local_count l = sf_local_count r \<and> sf_stack_count l = sf_stack_count r
      | _ \<Rightarrow> False)"

section \<open>Facts about the layout\<close>

lemma slot_offset_small: "slot \<le> UINT32_MAX \<Longrightarrow> slot_offset slot = slot * 8"
  by (simp add: slot_offset_def)

text \<open>What a layout made by \<^verbatim>\<open>TurboJS_JSFrameLayoutInit\<close> looks like.\<close>

lemma layout_init_ok:
  assumes "TurboJS_JSFrameLayoutInit (Some l0) a n s = (TURBOJS_IR_OK, Some l)"
  shows "fl_abi_version l = 1" "unat (fl_fixed_slot_count l) = 8" "fl_argument_count l = a" "fl_local_count l = n" "fl_stack_capacity l = s"
    "unat (fl_total_slots l) = 8 + unat a + unat n + unat s" "unat (fl_frame_size_bytes l) = 8 * unat (fl_total_slots l)"
    "8 * (8 + unat a + unat n + unat s) \<le> UINT32_MAX"
proof -
  define t where "t = 8 + unat a + unat n + unat s"
  have "\<not> (UINT32_MAX < t \<or> UINT32_MAX < t * 8)" and l: "l = \<lparr>fl_abi_version = 1, fl_slot_size = 8, fl_fixed_slot_count = 8,
      fl_argument_count = a, fl_local_count = n, fl_stack_capacity = s, fl_total_slots = of_nat t, fl_frame_size_bytes = of_nat (t * 8)\<rparr>"
    using assms unfolding TurboJS_JSFrameLayoutInit_def option.case Let_def fixed_slot_number.simps t_def
    by (simp_all only: prod.inject option.inject split: if_splits) simp_all
  then have fits: "t * 8 \<le> UINT32_MAX" by simp
  then have "unat (of_nat t :: u32) = t" "unat (of_nat (t * 8) :: u32) = t * 8"
    by (simp_all only: unat_of_nat) simp_all
  then show "fl_abi_version l = 1" "unat (fl_fixed_slot_count l) = 8" "fl_argument_count l = a" "fl_local_count l = n" "fl_stack_capacity l = s"
    "unat (fl_total_slots l) = 8 + unat a + unat n + unat s" "unat (fl_frame_size_bytes l) = 8 * unat (fl_total_slots l)"
    "8 * (8 + unat a + unat n + unat s) \<le> UINT32_MAX"
    using fits unfolding l by (simp_all only: TurboJSJSFrameLayout.simps t_def) simp_all
qed

text \<open>The slots of a frame, in the order they lie in memory.\<close>

definition frame_offsets :: "TurboJSJSFrameLayout \<Rightarrow> nat list" where
  "frame_offsets l =
     map TurboJS_JSFrameFixedSlotOffset
       [TURBOJS_JS_FRAME_PREVIOUS_FRAME, TURBOJS_JS_FRAME_RETURN_PC, TURBOJS_JS_FRAME_CONTEXT, TURBOJS_JS_FRAME_FUNCTION,
        TURBOJS_JS_FRAME_ENVIRONMENT, TURBOJS_JS_FRAME_BYTECODE_PC, TURBOJS_JS_FRAME_ARGUMENT_COUNT, TURBOJS_JS_FRAME_ACCUMULATOR] @
     map (\<lambda>i. TurboJS_JSFrameArgumentOffset (Some l) (of_nat i)) [0..<unat (fl_argument_count l)] @
     map (\<lambda>i. TurboJS_JSFrameLocalOffset (Some l) (of_nat i)) [0..<unat (fl_local_count l)] @
     map (\<lambda>i. TurboJS_JSFrameStackOffset (Some l) (of_nat i)) [0..<unat (fl_stack_capacity l)]"

lemma index_word: "i < unat (c :: u32) \<Longrightarrow> \<not> c \<le> of_nat i \<and> unat (of_nat i :: u32) = i"
  using unat32_less [of c] by (simp add: word_le_nat_alt unat_of_nat)

lemma map_shift_upt: "map (\<lambda>i. (m + i) * 8) [0..<n] = map (\<lambda>i. i * 8) [m..<m + n]"
  by (induction n) (simp_all add: ac_simps)

lemma upt_segments: "[0..<a] @ [a..<a + b] @ [a + b..<a + b + c] @ [a + b + c..<a + b + c + d] = [0..<a + b + c + d :: nat]"
proof -
  have "[i..<j] @ [j..<k] = [i..<k]" if "i \<le> j" "j \<le> k" for i j k :: nat
    using that by (metis le_Suc_ex upt_add_eq_append)
  then show ?thesis by simp
qed

lemma fixed_offsets: "map TurboJS_JSFrameFixedSlotOffset
       [TURBOJS_JS_FRAME_PREVIOUS_FRAME, TURBOJS_JS_FRAME_RETURN_PC, TURBOJS_JS_FRAME_CONTEXT, TURBOJS_JS_FRAME_FUNCTION,
        TURBOJS_JS_FRAME_ENVIRONMENT, TURBOJS_JS_FRAME_BYTECODE_PC, TURBOJS_JS_FRAME_ARGUMENT_COUNT, TURBOJS_JS_FRAME_ACCUMULATOR] =
     map (\<lambda>i. i * 8) [0..<8]"
  by (simp add: TurboJS_JSFrameFixedSlotOffset_def slot_offset_def upt_rec)

text \<open>
  C35. A frame layout has a slot of eight bytes for everything and nothing else. The offsets of the
  fixed slots, arguments, locals and operand-stack entries of a layout, in this order, are 0, 8, 16 and
  so on up to the frame size: no two slots overlap, none lies outside the frame, and no byte is wasted.
  An index outside its area has no offset, and a layout is refused only when the frame does not fit
  into 32 bits.
\<close>

theorem frame_layout_partition:
  "(case TurboJS_JSFrameLayoutInit (Some l0) argument_count local_count stack_capacity of
      (st, Some l) \<Rightarrow>
        if 8 * (8 + unat argument_count + unat local_count + unat stack_capacity) \<le> UINT32_MAX
        then st = TURBOJS_IR_OK \<and> frame_offsets l = map (\<lambda>i. i * 8) [0..<unat (fl_total_slots l)] \<and>
             unat (fl_frame_size_bytes l) = 8 * unat (fl_total_slots l) \<and>
             (argument_count \<le> i \<longleftrightarrow> TurboJS_JSFrameArgumentOffset (Some l) i = SIZE_MAX) \<and>
             (local_count \<le> i \<longleftrightarrow> TurboJS_JSFrameLocalOffset (Some l) i = SIZE_MAX) \<and>
             (stack_capacity \<le> i \<longleftrightarrow> TurboJS_JSFrameStackOffset (Some l) i = SIZE_MAX)
        else st = TURBOJS_IR_INVALID_ARGUMENT \<and> l = l0
    | (_, None) \<Rightarrow> False)"
proof (cases "8 * (8 + unat argument_count + unat local_count + unat stack_capacity) \<le> UINT32_MAX")
  case False
  then show ?thesis by (simp add: TurboJS_JSFrameLayoutInit_def Let_def)
next
  case fits: True
  then obtain l where init: "TurboJS_JSFrameLayoutInit (Some l0) argument_count local_count stack_capacity = (TURBOJS_IR_OK, Some l)"
    by (simp add: TurboJS_JSFrameLayoutInit_def Let_def)
  note l = layout_init_ok [OF init]
  let ?a = "unat argument_count" and ?n = "unat local_count" and ?s = "unat stack_capacity"
  have offsets: "TurboJS_JSFrameArgumentOffset (Some l) j = (if argument_count \<le> j then SIZE_MAX else (8 + unat j) * 8)"
      "TurboJS_JSFrameLocalOffset (Some l) j = (if local_count \<le> j then SIZE_MAX else (8 + ?a + unat j) * 8)"
      "TurboJS_JSFrameStackOffset (Some l) j = (if stack_capacity \<le> j then SIZE_MAX else (8 + ?a + ?n + unat j) * 8)" for j
    using l fits by (auto simp: TurboJS_JSFrameArgumentOffset_def TurboJS_JSFrameLocalOffset_def TurboJS_JSFrameStackOffset_def
      word_le_nat_alt not_le slot_offset_small)
  have areas: "map (\<lambda>i. TurboJS_JSFrameArgumentOffset (Some l) (of_nat i)) [0..<?a] = map (\<lambda>i. i * 8) [8..<8 + ?a]"
      "map (\<lambda>i. TurboJS_JSFrameLocalOffset (Some l) (of_nat i)) [0..<?n] = map (\<lambda>i. i * 8) [8 + ?a..<8 + ?a + ?n]"
      "map (\<lambda>i. TurboJS_JSFrameStackOffset (Some l) (of_nat i)) [0..<?s] = map (\<lambda>i. i * 8) [8 + ?a + ?n..<8 + ?a + ?n + ?s]"
    unfolding map_shift_upt [symmetric] by (auto simp: offsets index_word)
  have "frame_offsets l = map (\<lambda>i. i * 8) [0..<8 + ?a + ?n + ?s]"
    unfolding frame_offsets_def fixed_offsets l(3-5) areas upt_segments [symmetric] map_append ..
  with fits init l offsets [of i] show ?thesis
    by (auto simp: word_le_nat_alt)
qed

section \<open>The frame state as a pair of lists\<close>

definition spool_inv :: "TurboJSSpoolFrameState \<Rightarrow> bool" where
  "spool_inv s \<longleftrightarrow> length (array_values (sf_locals s)) = unat (sf_local_count s) \<and>
     length (array_values (sf_stack s)) = unat (sf_stack_capacity s) \<and> sf_stack_count s \<le> sf_stack_capacity s"

definition spool_stack :: "TurboJSSpoolFrameState \<Rightarrow> TurboJSBoxedValue list" where
  "spool_stack s = rev (take (unat (sf_stack_count s)) (array_values (sf_stack s)))"

abbreviation spool_abs :: "TurboJSSpoolFrameState \<Rightarrow> TurboJSBoxedValue list \<times> TurboJSBoxedValue list" where
  "spool_abs s \<equiv> (array_values (sf_locals s), spool_stack s)"

lemma array_values_simps [simp]: "array_values None = []" "array_values (Some xs) = xs"
  by (simp_all add: array_values_def)

lemma spool_init_abs:
  assumes "TurboJS_SpoolFrameStateInit lo so (Some s0) n c = (TURBOJS_IR_OK, Some s)"
  shows "spool_inv s" "spool_abs s = (replicate (unat n) undefined_value, [])"
  using assms by (auto simp: TurboJS_SpoolFrameStateInit_def spool_inv_def spool_stack_def null_spool_state_def split: if_splits)

lemma doubled_capacity:
  fixes c :: u32
  shows "\<not> c * 2 < c \<Longrightarrow> unat (c * 2) = 2 * unat c" "unat c < 2 ^ 31 \<Longrightarrow> \<not> c * 2 < c"
proof -
  have double: "unat (c * 2) = 2 * unat c mod 2 ^ 32"
    by (simp add: unat_word_ariths mult.commute)
  show "unat (c * 2) = 2 * unat c" if "\<not> c * 2 < c"
  proof (rule ccontr)
    assume "unat (c * 2) \<noteq> 2 * unat c"
    then have "2 * unat c \<ge> 2 ^ 32" using double by (metis mod_less not_less)
    then have "2 * unat c mod 2 ^ 32 = 2 * unat c - 2 ^ 32"
      using unat32_less [of c] by (simp add: mod_if)
    then show False using that double unat32_less [of c] \<open>2 * unat c \<ge> 2 ^ 32\<close> by (simp add: word_less_nat_alt)
  qed
  show "\<not> c * 2 < c" if "unat c < 2 ^ 31"
    using that double by (simp add: word_less_nat_alt)
qed

lemma push_effect:
  assumes inv: "spool_inv s"
  shows "\<exists>st t. TurboJS_SpoolFrameStatePush ok (Some s) v = Inr (st, Some t) \<and> spool_inv t \<and>
    (st = TURBOJS_IR_OK \<and> spool_abs t = (array_values (sf_locals s), v # spool_stack s) \<or>
     st = TURBOJS_IR_OUT_OF_MEMORY \<and> t = s \<and> \<not> (ok \<and> unat (sf_stack_count s) < 2 ^ 31))"
proof -
  let ?xs = "array_values (sf_stack s)" and ?c = "sf_stack_capacity s" and ?n = "unat (sf_stack_count s)"
  have len: "length ?xs = unat ?c" and le: "?n \<le> unat ?c"
    using inv by (simp_all add: spool_inv_def word_le_nat_alt)
  show ?thesis
  proof (cases "sf_stack_count s = ?c")
    case False
    then have n: "?n < unat ?c" using le by (metis le_neq_implies_less word_unat_eq_iff)
    then have inc: "unat (sf_stack_count s + 1) = Suc ?n"
      using unat32_less [of ?c] by (simp add: unat_word_ariths)
    then have "sf_stack_count s + 1 \<le> ?c" using n by (simp add: word_le_nat_alt)
    moreover have "take (Suc ?n) (?xs[?n := v]) = take ?n ?xs @ [v]"
      using n len by (simp add: take_Suc_conv_app_nth)
    ultimately show ?thesis
      using False n len inv inc
      by (auto simp: TurboJS_SpoolFrameStatePush_def Let_def wr_def spool_inv_def spool_stack_def)
  next
    case full: True
    define c2 where "c2 = (if ?c \<noteq> 0 then ?c * 2 else 8)"
    show ?thesis
    proof (cases "c2 < ?c \<or> \<not> ok")
      case True
      then have "\<not> (ok \<and> ?n < 2 ^ 31)"
        using doubled_capacity(2) [of ?c] full by (auto simp: c2_def split: if_splits)
      with True full inv show ?thesis
        by (auto simp: TurboJS_SpoolFrameStatePush_def Let_def c2_def)
    next
      case False
      have n: "?n < unat c2"
        using False doubled_capacity(1) [of ?c] full by (auto simp: c2_def unat_gt_0 split: if_splits)
      then have inc: "unat (sf_stack_count s + 1) = Suc ?n"
        using unat32_less [of c2] by (simp add: unat_word_ariths)
      have le2: "sf_stack_count s + 1 \<le> c2" using n inc by (simp add: word_le_nat_alt)
      let ?ys = "take (unat c2) ?xs @ replicate (unat c2 - length ?xs) undefined_value"
      have ys: "length ?ys = unat c2" "take ?n ?ys = take ?n ?xs" using len n full by simp_all
      have "take (Suc ?n) (?ys[?n := v]) = take ?n ?xs @ [v]"
        using n ys by (simp add: take_Suc_conv_app_nth del: take_append)
      then show ?thesis
        using full False n ys(1) inv inc le2
        by (auto simp: TurboJS_SpoolFrameStatePush_def Let_def wr_def spool_inv_def spool_stack_def c2_def [symmetric])
    qed
  qed
qed

lemma pop_effect:
  assumes inv: "spool_inv s"
  shows "(case spool_stack s of
      [] \<Rightarrow> TurboJS_SpoolFrameStatePop (Some s) (Some out) = Inr (TURBOJS_IR_INVALID_REGISTER, Some s, Some out)
    | v # vs \<Rightarrow> \<exists>t. TurboJS_SpoolFrameStatePop (Some s) (Some out) = Inr (TURBOJS_IR_OK, Some t, Some v) \<and> spool_inv t \<and>
        spool_abs t = (array_values (sf_locals s), vs))"
proof -
  let ?xs = "array_values (sf_stack s)" and ?n = "unat (sf_stack_count s)"
  have len: "length ?xs = unat (sf_stack_capacity s)" and le: "?n \<le> length ?xs"
    using inv by (simp_all add: spool_inv_def word_le_nat_alt)
  show ?thesis
  proof (cases "sf_stack_count s = 0")
    case True
    then show ?thesis by (simp add: spool_stack_def TurboJS_SpoolFrameStatePop_def)
  next
    case False
    then obtain m where m: "?n = Suc m" by (metis not0_implies_Suc unat_eq_0)
    have dec: "unat (sf_stack_count s - 1) = m" using False m by (simp add: unat_minus_one)
    have stack: "spool_stack s = ?xs ! m # rev (take m ?xs)"
      using m le by (simp add: spool_stack_def take_Suc_conv_app_nth)
    have "sf_stack_count s - 1 \<le> sf_stack_capacity s"
      using dec m le len by (simp add: word_le_nat_alt)
    then show ?thesis
      unfolding stack using False m dec le len inv
      by (auto simp: TurboJS_SpoolFrameStatePop_def Let_def rd_def wr_def spool_inv_def spool_stack_def)
  qed
qed

lemma local_effect:
  assumes inv: "spool_inv s"
  shows "(if unat i < length (array_values (sf_locals s))
     then (\<exists>t. TurboJS_SpoolFrameStateSetLocal (Some s) i v = Inr (TURBOJS_IR_OK, Some t) \<and> spool_inv t \<and>
            spool_abs t = ((array_values (sf_locals s))[unat i := v], spool_stack s)) \<and>
          TurboJS_SpoolFrameStateGetLocal (Some s) i (Some out) = Inr (TURBOJS_IR_OK, Some (array_values (sf_locals s) ! unat i))
     else TurboJS_SpoolFrameStateSetLocal (Some s) i v = Inr (TURBOJS_IR_INVALID_REGISTER, Some s) \<and>
          TurboJS_SpoolFrameStateGetLocal (Some s) i (Some out) = Inr (TURBOJS_IR_INVALID_REGISTER, Some out))"
  using inv
  by (auto simp: TurboJS_SpoolFrameStateSetLocal_def TurboJS_SpoolFrameStateGetLocal_def spool_inv_def spool_stack_def word_le_nat_alt
      rd_def wr_def not_le)

section \<open>Refinement\<close>

text \<open>
  The operations a front end performs on a frame state, with the result of the allocation a push may
  need, and what they mean on a list of locals and an operand stack.
\<close>

datatype spool_op = Op_Push bool TurboJSBoxedValue | Op_Pop | Op_Set_Local u32 TurboJSBoxedValue | Op_Get_Local u32

type_synonym spool_answer = "TurboJSIRStatus \<times> TurboJSBoxedValue option"

fun spool_step :: "spool_op \<Rightarrow> TurboJSSpoolFrameState \<Rightarrow> (spool_answer \<times> TurboJSSpoolFrameState) c" where
  "spool_step (Op_Push ok v) s = bindc (TurboJS_SpoolFrameStatePush ok (Some s) v) (\<lambda>(st, t). Inr ((st, None), the t))"
| "spool_step Op_Pop s = bindc (TurboJS_SpoolFrameStatePop (Some s) (Some undefined_value)) (\<lambda>(st, t, v).
     Inr ((st, if st = TURBOJS_IR_OK then v else None), the t))"
| "spool_step (Op_Set_Local i v) s = bindc (TurboJS_SpoolFrameStateSetLocal (Some s) i v) (\<lambda>(st, t). Inr ((st, None), the t))"
| "spool_step (Op_Get_Local i) s = bindc (TurboJS_SpoolFrameStateGetLocal (Some s) i (Some undefined_value)) (\<lambda>(st, v).
     Inr ((st, if st = TURBOJS_IR_OK then v else None), s))"

fun spool_run :: "spool_op list \<Rightarrow> TurboJSSpoolFrameState \<Rightarrow> (spool_answer list \<times> TurboJSSpoolFrameState) c" where
  "spool_run [] s = Inr ([], s)"
| "spool_run (op # ops) s = bindc (spool_step op s) (\<lambda>(a, t). bindc (spool_run ops t) (\<lambda>(as, u). Inr (a # as, u)))"

inductive frame_step :: "spool_op \<Rightarrow> spool_answer \<Rightarrow> TurboJSBoxedValue list \<times> TurboJSBoxedValue list
    \<Rightarrow> TurboJSBoxedValue list \<times> TurboJSBoxedValue list \<Rightarrow> bool" where
  push: "frame_step (Op_Push ok v) (TURBOJS_IR_OK, None) (ls, vs) (ls, v # vs)"
| push_fails: "\<not> (ok \<and> length vs < 2 ^ 31) \<Longrightarrow> frame_step (Op_Push ok v) (TURBOJS_IR_OUT_OF_MEMORY, None) (ls, vs) (ls, vs)"
| pop: "frame_step Op_Pop (TURBOJS_IR_OK, Some v) (ls, v # vs) (ls, vs)"
| pop_fails: "frame_step Op_Pop (TURBOJS_IR_INVALID_REGISTER, None) (ls, []) (ls, [])"
| set_local: "unat i < length ls \<Longrightarrow> frame_step (Op_Set_Local i v) (TURBOJS_IR_OK, None) (ls, vs) (ls[unat i := v], vs)"
| get_local: "unat i < length ls \<Longrightarrow> frame_step (Op_Get_Local i) (TURBOJS_IR_OK, Some (ls ! unat i)) (ls, vs) (ls, vs)"
| set_fails: "length ls \<le> unat i \<Longrightarrow> frame_step (Op_Set_Local i v) (TURBOJS_IR_INVALID_REGISTER, None) (ls, vs) (ls, vs)"
| get_fails: "length ls \<le> unat i \<Longrightarrow> frame_step (Op_Get_Local i) (TURBOJS_IR_INVALID_REGISTER, None) (ls, vs) (ls, vs)"

inductive frame_run :: "spool_op list \<Rightarrow> spool_answer list \<Rightarrow> TurboJSBoxedValue list \<times> TurboJSBoxedValue list
    \<Rightarrow> TurboJSBoxedValue list \<times> TurboJSBoxedValue list \<Rightarrow> bool" where
  stop: "frame_run [] [] f f"
| step: "frame_step op a f g \<Longrightarrow> frame_run ops as g h \<Longrightarrow> frame_run (op # ops) (a # as) f h"

inductive_cases frame_runE: "frame_run (op # ops) as f h"

lemma length_spool_stack: "spool_inv s \<Longrightarrow> length (spool_stack s) = unat (sf_stack_count s)"
  by (simp add: spool_inv_def spool_stack_def word_le_nat_alt)

lemma spool_step_refines:
  assumes inv: "spool_inv s"
  shows "\<exists>a t. spool_step op s = Inr (a, t) \<and> spool_inv t \<and> frame_step op a (spool_abs s) (spool_abs t)"
proof (cases op)
  case (Op_Push ok v)
  obtain st t where "TurboJS_SpoolFrameStatePush ok (Some s) v = Inr (st, Some t)" "spool_inv t"
    "st = TURBOJS_IR_OK \<and> spool_abs t = (array_values (sf_locals s), v # spool_stack s) \<or>
     st = TURBOJS_IR_OUT_OF_MEMORY \<and> t = s \<and> \<not> (ok \<and> unat (sf_stack_count s) < 2 ^ 31)"
    using push_effect [OF inv, of ok v] by blast
  with Op_Push length_spool_stack [OF inv] show ?thesis
    by (auto simp: bindc_def intro: frame_step.intros)
next
  case Op_Pop
  with pop_effect [OF inv, of undefined_value] inv show ?thesis
    by (auto simp: bindc_def split: list.splits intro: frame_step.intros)
next
  case (Op_Set_Local i v)
  with local_effect [OF inv, of i v undefined_value] inv show ?thesis
    by (auto simp: bindc_def not_less split: if_splits intro: frame_step.intros)
next
  case (Op_Get_Local i)
  with local_effect [OF inv, of i undefined_value undefined_value] inv show ?thesis
    by (auto simp: bindc_def not_less split: if_splits intro: frame_step.intros)
qed

lemma spool_run_refines:
  "spool_inv s \<Longrightarrow> \<exists>as t. spool_run ops s = Inr (as, t) \<and> spool_inv t \<and> frame_run ops as (spool_abs s) (spool_abs t)"
proof (induction ops arbitrary: s)
  case (Cons op ops)
  obtain a t where t: "spool_step op s = Inr (a, t)" "spool_inv t" "frame_step op a (spool_abs s) (spool_abs t)"
    using spool_step_refines [OF Cons.prems] by blast
  obtain as u where "spool_run ops t = Inr (as, u)" "spool_inv u" "frame_run ops as (spool_abs t) (spool_abs u)"
    using Cons.IH [OF t(2)] by blast
  with t show ?case by (auto simp: bindc_def intro: frame_run.step)
qed (auto intro: frame_run.stop)

definition blank_values :: "u32 \<Rightarrow> TurboJSBoxedValue list ptr" where
  "blank_values n = (if n \<noteq> 0 then Some (replicate (unat n) undefined_value) else None)"

lemma copy_to_blank:
  assumes "unat n \<le> length (array_values src)" "n \<le> m"
  shows "\<exists>r. copy_values n (blank_values m) src = Inr r \<and>
           array_values r = take (unat n) (array_values src) @ replicate (unat m - unat n) undefined_value"
proof (cases "n = 0")
  case True
  then show ?thesis by (simp add: copy_values_def blank_values_def)
next
  case False
  then have "m \<noteq> 0"
    using assms by auto
  from False obtain xs where "src = Some xs"
    using assms by (cases src) (simp_all add: unat_eq_0)
  with assms False \<open>m \<noteq> 0\<close> show ?thesis
    by (simp add: copy_values_def blank_values_def word_le_nat_alt)
qed

lemma clone_abs:
  assumes inv: "spool_inv s" and st: "TurboJS_SpoolFrameStateInit lo so (Some d) (sf_local_count s) (sf_stack_capacity s) = (TURBOJS_IR_OK, d1)"
  shows "\<exists>t. TurboJS_SpoolFrameStateClone lo so (Some s) (Some d) = Inr (TURBOJS_IR_OK, Some t) \<and> spool_inv t \<and> spool_abs t = spool_abs s"
proof -
  let ?ls = "array_values (sf_locals s)" and ?ss = "array_values (sf_stack s)" and ?n = "unat (sf_stack_count s)"
  have len: "length ?ls = unat (sf_local_count s)" "length ?ss = unat (sf_stack_capacity s)" "?n \<le> length ?ss"
    using inv by (simp_all add: spool_inv_def word_le_nat_alt)
  have d1: "d1 = Some (null_spool_state\<lparr>sf_locals := blank_values (sf_local_count s), sf_stack := blank_values (sf_stack_capacity s),
      sf_local_count := sf_local_count s, sf_stack_capacity := sf_stack_capacity s\<rparr>)"
    using st unfolding blank_values_def by (auto simp: TurboJS_SpoolFrameStateInit_def split: if_splits)
  obtain ls' where ls': "copy_values (sf_local_count s) (blank_values (sf_local_count s)) (sf_locals s) = Inr ls'" "array_values ls' = ?ls"
    using copy_to_blank [of "sf_local_count s" "sf_locals s" "sf_local_count s"] len by auto
  obtain ss' where ss': "copy_values (sf_stack_count s) (blank_values (sf_stack_capacity s)) (sf_stack s) = Inr ss'"
      "take ?n (array_values ss') = take ?n ?ss" "length (array_values ss') = unat (sf_stack_capacity s)"
    using copy_to_blank [of "sf_stack_count s" "sf_stack s" "sf_stack_capacity s"] len inv by (auto simp: spool_inv_def)
  show ?thesis
    using ls' ss' inv len
    by (auto simp: TurboJS_SpoolFrameStateClone_def st d1 Let_def bindc_def spool_inv_def spool_stack_def)
qed

text \<open>
  C36. The frame state implements a list of locals and an operand stack. Whatever a front end does with
  a fresh frame state, no operation faults, and the answers it gets and the frame it ends up with are
  those of the lists: pushed values come back in reverse order, a full stack grows, a push fails only
  if memory is short or the stack has reached two to the power of 31 entries, popping an empty stack and
  naming a local that does not exist are refused. Cloning the state at the end gives the same frame.
\<close>

theorem spool_frame_refines:
  assumes "TurboJS_SpoolFrameStateInit locals_ok stack_ok (Some s0) local_count stack_capacity = (TURBOJS_IR_OK, Some s)"
  shows "\<exists>as t u. spool_run ops s = Inr (as, t) \<and>
    frame_run ops as (replicate (unat local_count) undefined_value, []) (spool_abs t) \<and>
    TurboJS_SpoolFrameStateClone True True (Some t) (Some s0) = Inr (TURBOJS_IR_OK, Some u) \<and> spool_abs u = spool_abs t"
proof -
  note s = spool_init_abs [OF assms]
  obtain as t where t: "spool_run ops s = Inr (as, t)" "spool_inv t" "frame_run ops as (spool_abs s) (spool_abs t)"
    using spool_run_refines [OF s(1)] by blast
  have "\<exists>d1. TurboJS_SpoolFrameStateInit True True (Some s0) (sf_local_count t) (sf_stack_capacity t) = (TURBOJS_IR_OK, d1)"
    by (simp add: TurboJS_SpoolFrameStateInit_def)
  then obtain u where "TurboJS_SpoolFrameStateClone True True (Some t) (Some s0) = Inr (TURBOJS_IR_OK, Some u)" "spool_abs u = spool_abs t"
    using clone_abs [OF t(2)] by blast
  with t s(2) show ?thesis by auto
qed

theorem spool_frame_refines_witness:
  "\<exists>as t u. spool_run [Op_Push True \<lparr>bv_tag = TURBOJS_BOXED_INT32, bv_as = 5\<rparr>, Op_Pop, Op_Pop]
        (the (snd (TurboJS_SpoolFrameStateInit True True (Some null_spool_state) 1 0))) = Inr (as, t) \<and>
    frame_run [Op_Push True \<lparr>bv_tag = TURBOJS_BOXED_INT32, bv_as = 5\<rparr>, Op_Pop, Op_Pop] as ([undefined_value], []) (spool_abs t) \<and>
    TurboJS_SpoolFrameStateClone True True (Some t) (Some null_spool_state) = Inr (TURBOJS_IR_OK, Some u) \<and> spool_abs u = spool_abs t"
proof -
  have "TurboJS_SpoolFrameStateInit True True (Some null_spool_state) 1 0 =
      (TURBOJS_IR_OK, Some (the (snd (TurboJS_SpoolFrameStateInit True True (Some null_spool_state) 1 0))))"
    by (simp add: TurboJS_SpoolFrameStateInit_def)
  from spool_frame_refines [OF this, of "[Op_Push True \<lparr>bv_tag = TURBOJS_BOXED_INT32, bv_as = 5\<rparr>, Op_Pop, Op_Pop]"]
  show ?thesis by (simp only: unat_1 replicate_0 replicate_Suc One_nat_def)
qed

end
