(* ===== verification/SSA_Graph.thy ===== *)
theory SSA_Graph
  imports JIT_Types "HOL-Library.While_Combinator"
begin

unbundle bit_operations_syntax

text \<open>
  The SSA graph of the optimizing tier, \<^verbatim>\<open>TurboJSSSAGraph\<close> of \<^verbatim>\<open>include/turbojs/jit.h\<close>: typed values in one
  array, basic blocks that own a range of it, and the edges between blocks; its verifier and the
  dominator analysis of \<^verbatim>\<open>src/jit/optimizing/ssa.c\<close>.

  An array and its count are one list, the edge arrays of a block keep their separate counts. A loop that could run
  forever is a \<open>while_option\<close>.
\<close>

section \<open>Data\<close>

abbreviation TURBOJS_SSA_NO_VALUE :: u32 where
  "TURBOJS_SSA_NO_VALUE \<equiv> 4294967295"

abbreviation TURBOJS_SSA_NO_BLOCK :: u32 where
  "TURBOJS_SSA_NO_BLOCK \<equiv> 4294967295"

abbreviation TURBOJS_SSA_MAX_BLOCK_EDGES :: u32 where
  "TURBOJS_SSA_MAX_BLOCK_EDGES \<equiv> 8"

datatype TurboJSSSAType =
    TURBOJS_SSA_TYPE_UNKNOWN | TURBOJS_SSA_TYPE_INT32 | TURBOJS_SSA_TYPE_INT64 | TURBOJS_SSA_TYPE_BOOLEAN
  | TURBOJS_SSA_TYPE_FLOAT64 | TURBOJS_SSA_TYPE_REFERENCE

datatype TurboJSSSAOpcode =
    TURBOJS_SSA_NOP | TURBOJS_SSA_ARGUMENT | TURBOJS_SSA_CONSTANT_I64 | TURBOJS_SSA_ADD_I64 | TURBOJS_SSA_SUB_I64
  | TURBOJS_SSA_MUL_I64 | TURBOJS_SSA_AND_I64 | TURBOJS_SSA_OR_I64 | TURBOJS_SSA_XOR_I64 | TURBOJS_SSA_SHL_I64
  | TURBOJS_SSA_SAR_I64 | TURBOJS_SSA_SHR_I64 | TURBOJS_SSA_MIN_F64 | TURBOJS_SSA_MAX_F64 | TURBOJS_SSA_LESS_THAN_I64
  | TURBOJS_SSA_LESS_EQUAL_I64 | TURBOJS_SSA_GREATER_THAN_I64 | TURBOJS_SSA_GREATER_EQUAL_I64 | TURBOJS_SSA_EQUAL_I64
  | TURBOJS_SSA_PHI | TURBOJS_SSA_GUARD_INT32 | TURBOJS_SSA_PROPERTY_LOAD | TURBOJS_SSA_PROPERTY_STORE
  | TURBOJS_SSA_VIRTUAL_OBJECT | TURBOJS_SSA_VIRTUAL_FIELD_STORE | TURBOJS_SSA_ELEMENT_LOAD | TURBOJS_SSA_ELEMENT_STORE
  | TURBOJS_SSA_JUMP | TURBOJS_SSA_BRANCH_TRUE | TURBOJS_SSA_BRANCH_FALSE | TURBOJS_SSA_RETURN

text \<open>
  The fields of a value that only property and element operations use are grouped in two records; a fresh value has
  them cleared.
\<close>

record TurboJSSSAProperty =
  pv_feedback_slot :: u16
  pv_metadata :: u32
  pv_guard_shape :: u64
  pv_index :: u32
  pv_flags :: u16
  pv_feedback_generation :: u16
  pv_case_count :: u8
  pv_reserved :: "u8 list"
  pv_state_receiver :: u32
  pv_shapes :: "u64 list"
  pv_indices :: "u32 list"
  pv_generations :: "u16 list"
  pv_case_flags :: "u16 list"

record TurboJSSSAElement =
  ev_kind :: u16
  ev_flags :: u16
  ev_generation :: u32
  ev_length_value :: u32
  ev_range_min :: int
  ev_range_max :: int
  ev_induction_step :: int
  ev_bounds_proven :: bool
  ev_length_hoisted :: bool
  ev_base_hoisted :: bool

definition null_property :: TurboJSSSAProperty where
  "null_property = \<lparr>pv_feedback_slot = 0, pv_metadata = 0, pv_guard_shape = 0, pv_index = 0, pv_flags = 0, pv_feedback_generation = 0,
     pv_case_count = 0, pv_reserved = replicate 3 0, pv_state_receiver = 0, pv_shapes = replicate 4 0, pv_indices = replicate 4 0,
     pv_generations = replicate 4 0, pv_case_flags = replicate 4 0\<rparr>"

definition null_element :: TurboJSSSAElement where
  "null_element = \<lparr>ev_kind = 0, ev_flags = 0, ev_generation = 0, ev_length_value = 0, ev_range_min = 0, ev_range_max = 0,
     ev_induction_step = 0, ev_bounds_proven = False, ev_length_hoisted = False, ev_base_hoisted = False\<rparr>"

record TurboJSSSAValue =
  sv_opcode :: TurboJSSSAOpcode
  sv_type :: TurboJSSSAType
  sv_id :: u32
  sv_block :: u32
  sv_left :: u32
  sv_right :: u32
  sv_immediate :: i64
  sv_use_count :: u32
  sv_source_instruction :: u32
  sv_deopt_id :: u32
  sv_removed :: bool
  sv_has_deopt_edge :: bool
  sv_property :: TurboJSSSAProperty
  sv_element :: TurboJSSSAElement

record TurboJSSSABlock =
  sb_id :: u32
  sb_first_value :: u32
  sb_value_count :: u32
  sb_first_instruction :: u32
  sb_instruction_count :: u32
  sb_predecessors :: "u32 list"
  sb_successors :: "u32 list"
  sb_predecessor_count :: u32
  sb_successor_count :: u32
  sb_immediate_dominator :: u32
  sb_loop_header :: u32
  sb_dominance_frontier_mask :: u64
  sb_loop_depth :: u16
  sb_reachable :: bool
  sb_removed :: bool

record TurboJSSSAGraph =
  sg_values :: "TurboJSSSAValue list"
  sg_blocks :: "TurboJSSSABlock list"
  sg_entry_block :: u32
  sg_deopt_exit_count :: u32

abbreviation sg_block_count :: "TurboJSSSAGraph \<Rightarrow> nat" where
  "sg_block_count g \<equiv> length (sg_blocks g)"

abbreviation sg_value_count :: "TurboJSSSAGraph \<Rightarrow> nat" where
  "sg_value_count g \<equiv> length (sg_values g)"

definition TurboJS_SSAGraphInit :: "TurboJSSSAGraph ptr \<Rightarrow> TurboJSSSAGraph ptr" where
  "TurboJS_SSAGraphInit g = map_option (\<lambda>_. \<lparr>sg_values = [], sg_blocks = [], sg_entry_block = TURBOJS_SSA_NO_BLOCK, sg_deopt_exit_count = 0\<rparr>) g"

definition TurboJS_SSAGraphDestroy :: "TurboJSSSAGraph ptr \<Rightarrow> TurboJSSSAGraph ptr" where
  "TurboJS_SSAGraphDestroy g = map_option (\<lambda>_. \<lparr>sg_values = [], sg_blocks = [], sg_entry_block = TURBOJS_SSA_NO_BLOCK, sg_deopt_exit_count = 0\<rparr>) g"

section \<open>Dominators\<close>

text \<open>The intersection over the predecessors of a block.\<close>

fun meet_loop :: "nat \<Rightarrow> nat \<Rightarrow> TurboJSSSABlock \<Rightarrow> u64 list \<Rightarrow> u64 \<Rightarrow> u64 c" where
  "meet_loop 0 p b doms next = Inr next"
| "meet_loop (Suc n) p b doms next =
     bindc (rd (sb_predecessors b) p) (\<lambda>pred.
     bindc (rd doms (unat pred)) (\<lambda>d. meet_loop n (p + 1) b doms (next AND d)))"

text \<open>One round over all blocks: \<^verbatim>\<open>for(i=0;i<n;i++){...}\<close>.\<close>

fun dom_pass :: "nat \<Rightarrow> nat \<Rightarrow> TurboJSSSAGraph \<Rightarrow> u64 \<Rightarrow> u64 list \<Rightarrow> bool \<Rightarrow> (u64 list \<times> bool) c" where
  "dom_pass 0 i g all doms changed = Inr (doms, changed)"
| "dom_pass (Suc n) i g all doms changed =
     bindc (rd (sg_blocks g) i) (\<lambda>b.
       if i = unat (sg_entry_block g) \<or> \<not> sb_reachable b then dom_pass n (i + 1) g all doms changed
       else
         bindc (if sb_predecessor_count b = 0 then Inr 0 else meet_loop (unat (sb_predecessor_count b)) 0 b doms all) (\<lambda>next.
           (let next = next OR push_bit i 1
            in if next \<noteq> doms ! i then dom_pass n (i + 1) g all (doms[i := next]) True
               else dom_pass n (i + 1) g all doms changed)))"

definition initial_dom :: "TurboJSSSAGraph \<Rightarrow> u64 \<Rightarrow> u64 list" where
  "initial_dom g all = map (\<lambda>i. if i = unat (sg_entry_block g) then push_bit i 1 else all) [0..< sg_block_count g]"

definition all_blocks :: "nat \<Rightarrow> u64" where
  "all_blocks n = (if n = 64 then - 1 else push_bit n 1 - 1)"

definition dom_loop :: "TurboJSSSAGraph \<Rightarrow> (u64 list \<times> bool) c option" where
  "dom_loop g =
     (let all = all_blocks (sg_block_count g)
      in while_option (\<lambda>s. case s of Inl _ \<Rightarrow> False | Inr (_, changed) \<Rightarrow> changed)
           (\<lambda>s. bindc s (\<lambda>(doms, _). dom_pass (sg_block_count g) 0 g all doms False)) (Inr (initial_dom g all, True)))"

text \<open>The block that is recorded as the immediate dominator of the block \<open>i\<close>.\<close>

definition dominated_by_other :: "nat \<Rightarrow> u64 list \<Rightarrow> nat \<Rightarrow> nat \<Rightarrow> bool" where
  "dominated_by_other n doms i j \<longleftrightarrow> list_ex (\<lambda>k. k \<noteq> i \<and> k \<noteq> j \<and> bit (doms ! i) k \<and> bit (doms ! j) k) [0..<n]"

definition dom_candidate :: "nat \<Rightarrow> u64 list \<Rightarrow> nat \<Rightarrow> u32" where
  "dom_candidate n doms i =
     (case List.find (\<lambda>j. j \<noteq> i \<and> bit (doms ! i) j \<and> \<not> dominated_by_other n doms i j) [0..<n] of
        None \<Rightarrow> TURBOJS_SSA_NO_BLOCK
      | Some j \<Rightarrow> of_nat j)"

definition TurboJS_SSAComputeDominators :: "bool \<Rightarrow> TurboJSSSAGraph ptr \<Rightarrow> (TurboJSIRStatus \<times> TurboJSSSAGraph ptr) c option" where
  "TurboJS_SSAComputeDominators calloc_ok graph =
     (case graph of
        None \<Rightarrow> Some (Inr (TURBOJS_IR_INVALID_ARGUMENT, None))
      | Some g \<Rightarrow>
          if sg_blocks g = [] \<or> 64 < sg_block_count g then Some (Inr (TURBOJS_IR_INVALID_ARGUMENT, graph))
          else if \<not> calloc_ok then Some (Inr (TURBOJS_IR_OUT_OF_MEMORY, graph))
          else
            map_option (\<lambda>r. bindc r (\<lambda>(doms, _).
              (let n = sg_block_count g
               in Inr (TURBOJS_IR_OK, Some (g\<lparr>sg_blocks := map (\<lambda>i. (sg_blocks g ! i)\<lparr>sb_immediate_dominator :=
                     (if i = unat (sg_entry_block g) then TURBOJS_SSA_NO_BLOCK else dom_candidate n doms i)\<rparr>) [0..<n]\<rparr>)))))
              (dom_loop g))"

section \<open>Verification of a graph\<close>

definition ssa_block_ok :: "TurboJSSSAGraph \<Rightarrow> nat \<Rightarrow> TurboJSSSABlock \<Rightarrow> bool" where
  "ssa_block_ok g i b \<longleftrightarrow> unat (sb_id b) = i \<and> sb_predecessor_count b \<le> TURBOJS_SSA_MAX_BLOCK_EDGES \<and>
     sb_successor_count b \<le> TURBOJS_SSA_MAX_BLOCK_EDGES \<and>
     list_all (\<lambda>s. unat s < sg_block_count g) (take (unat (sb_successor_count b)) (sb_successors b))"

definition ssa_value_ok :: "TurboJSSSAGraph \<Rightarrow> nat \<Rightarrow> TurboJSSSAValue \<Rightarrow> bool" where
  "ssa_value_ok g i v \<longleftrightarrow> unat (sv_id v) = i \<and> unat (sv_block v) < sg_block_count g \<and>
     (if sv_opcode v \<noteq> TURBOJS_SSA_PHI
      then (sv_left v = TURBOJS_SSA_NO_VALUE \<or> unat (sv_left v) < i) \<and> (sv_right v = TURBOJS_SSA_NO_VALUE \<or> unat (sv_right v) < i)
      else unat (sv_left v) < sg_value_count g \<and> unat (sv_right v) < sg_value_count g) \<and>
     (sv_opcode v = TURBOJS_SSA_GUARD_INT32 \<longrightarrow> sv_has_deopt_edge v \<and> sv_left v \<noteq> TURBOJS_SSA_NO_VALUE)"

definition TurboJS_SSAVerify :: "TurboJSSSAGraph ptr \<Rightarrow> bool" where
  "TurboJS_SSAVerify graph \<longleftrightarrow>
     (case graph of
        None \<Rightarrow> False
      | Some g \<Rightarrow> sg_blocks g \<noteq> [] \<and> unat (sg_entry_block g) < sg_block_count g \<and>
          list_all (\<lambda>i. ssa_block_ok g i (sg_blocks g ! i)) [0..< sg_block_count g] \<and>
          list_all (\<lambda>i. ssa_value_ok g i (sg_values g ! i)) [0..< sg_value_count g])"

section \<open>Paths and dominance\<close>

text \<open>
  Edges as the analysis sees them, from the predecessor arrays; a path is a list of blocks. A block
  dominates another one if it lies on every path from the entry.
\<close>

definition preds :: "TurboJSSSAGraph \<Rightarrow> nat \<Rightarrow> nat set" where
  "preds g i = unat ` set (take (unat (sb_predecessor_count (sg_blocks g ! i))) (sb_predecessors (sg_blocks g ! i)))"

inductive path :: "TurboJSSSAGraph \<Rightarrow> nat list \<Rightarrow> nat \<Rightarrow> bool" for g where
  entry: "path g [unat (sg_entry_block g)] (unat (sg_entry_block g))"
| edge: "path g p i \<Longrightarrow> i \<in> preds g j \<Longrightarrow> j < sg_block_count g \<Longrightarrow> path g (j # p) j"

definition dominates :: "TurboJSSSAGraph \<Rightarrow> nat \<Rightarrow> nat \<Rightarrow> bool" where
  "dominates g j i \<longleftrightarrow> (\<forall>p. path g p i \<longrightarrow> j \<in> set p)"

text \<open>What the analysis relies on: edges in range, and reachability flags that agree with the edges.\<close>

definition dom_ready :: "TurboJSSSAGraph \<Rightarrow> bool" where
  "dom_ready g \<longleftrightarrow> sg_blocks g \<noteq> [] \<and> sg_block_count g \<le> 64 \<and> unat (sg_entry_block g) < sg_block_count g \<and>
     (\<forall>i< sg_block_count g. unat (sb_predecessor_count (sg_blocks g ! i)) \<le> length (sb_predecessors (sg_blocks g ! i)) \<and>
        (\<forall>j\<in>preds g i. j < sg_block_count g)) \<and>
     (\<forall>i< sg_block_count g. i \<noteq> unat (sg_entry_block g) \<longrightarrow> sb_reachable (sg_blocks g ! i) \<longrightarrow> preds g i \<noteq> {}) \<and>
     (\<forall>i< sg_block_count g. \<forall>j\<in>preds g i. sb_reachable (sg_blocks g ! j) \<longrightarrow> sb_reachable (sg_blocks g ! i)) \<and>
     sb_reachable (sg_blocks g ! unat (sg_entry_block g))"

section \<open>The analysis finds the dominators\<close>

abbreviation entry_of :: "TurboJSSSAGraph \<Rightarrow> nat" where
  "entry_of g \<equiv> unat (sg_entry_block g)"

definition dom_next :: "TurboJSSSAGraph \<Rightarrow> u64 \<Rightarrow> u64 list \<Rightarrow> nat \<Rightarrow> u64" where
  "dom_next g all doms i =
     (let b = sg_blocks g ! i; ps = take (unat (sb_predecessor_count b)) (sb_predecessors b)
      in (if sb_predecessor_count b = 0 then 0 else fold (\<lambda>q m. m AND doms ! unat q) ps all) OR push_bit i 1)"

lemma bit_all_blocks: "n \<le> 64 \<Longrightarrow> bit (all_blocks n) k \<longleftrightarrow> k < n"
  by (auto simp: all_blocks_def mask_eq_exp_minus_1 [symmetric] push_bit_of_1 bit_simps bit_mask_iff)

lemma bit_meet_fold: "bit (fold (\<lambda>q m. m AND doms ! unat q) ps all) k \<longleftrightarrow> bit all k \<and> (\<forall>q\<in>set ps. bit (doms ! unat q) k)"
  for doms :: "u64 list" and ps :: "u32 list"
  by (induction ps arbitrary: all) (auto simp: bit_simps)

lemma meet_loop_fold:
  "p + n \<le> length (sb_predecessors b) \<Longrightarrow> \<forall>q\<in>set (take n (drop p (sb_predecessors b))). unat q < length doms \<Longrightarrow>
   meet_loop n p b doms m = Inr (fold (\<lambda>q m. m AND doms ! unat q) (take n (drop p (sb_predecessors b))) m)"
proof (induction n arbitrary: p m)
  case (Suc n)
  then have step: "take (Suc n) (drop p (sb_predecessors b)) = sb_predecessors b ! p # take n (drop (Suc p) (sb_predecessors b))"
    by (simp add: Cons_nth_drop_Suc [symmetric])
  from Suc show ?case unfolding step by (simp add: rd_def bindc_def)
qed simp

lemma bit_dom_next:
  assumes "i < 64"
  shows "bit (dom_next g all doms i) k \<longleftrightarrow> k = i \<or> (preds g i \<noteq> {} \<or> sb_predecessor_count (sg_blocks g ! i) \<noteq> 0) \<and> bit all k \<and> (\<forall>j\<in>preds g i. bit (doms ! j) k)"
  using assms by (auto simp: dom_next_def Let_def bit_simps bit_meet_fold preds_def)

text \<open>The invariant of the iteration.\<close>

definition dom_inv :: "TurboJSSSAGraph \<Rightarrow> u64 list \<Rightarrow> bool" where
  "dom_inv g doms \<longleftrightarrow> length doms = sg_block_count g \<and>
     (\<forall>i < sg_block_count g. \<forall>k. bit (doms ! i) k \<longrightarrow> k < sg_block_count g) \<and>
     (\<forall>i < sg_block_count g. \<forall>k < sg_block_count g. dominates g k i \<longrightarrow> bit (doms ! i) k) \<and>
     (\<forall>k. bit (doms ! entry_of g) k \<longleftrightarrow> k = entry_of g) \<and>
     (\<forall>i < sg_block_count g. i \<noteq> entry_of g \<longrightarrow> sb_reachable (sg_blocks g ! i) \<longrightarrow>
        (\<forall>k. bit (dom_next g (all_blocks (sg_block_count g)) doms i) k \<longrightarrow> bit (doms ! i) k))"

lemma dom_invD:
  assumes "dom_inv g doms"
  shows "length doms = sg_block_count g"
    "\<And>i k. i < sg_block_count g \<Longrightarrow> bit (doms ! i) k \<Longrightarrow> k < sg_block_count g"
    "\<And>i k. i < sg_block_count g \<Longrightarrow> k < sg_block_count g \<Longrightarrow> dominates g k i \<Longrightarrow> bit (doms ! i) k"
    "\<And>k. bit (doms ! entry_of g) k \<longleftrightarrow> k = entry_of g"
    "\<And>i k. i < sg_block_count g \<Longrightarrow> i \<noteq> entry_of g \<Longrightarrow> sb_reachable (sg_blocks g ! i) \<Longrightarrow>
       bit (dom_next g (all_blocks (sg_block_count g)) doms i) k \<Longrightarrow> bit (doms ! i) k"
proof -
  note c = assms [unfolded dom_inv_def]
  note c2 = conjunct2 [OF c]
  note c3 = conjunct2 [OF c2]
  note c4 = conjunct2 [OF c3]
  show "length doms = sg_block_count g" by (rule conjunct1 [OF c])
  show "k < sg_block_count g" if "i < sg_block_count g" "bit (doms ! i) k" for i k
    using conjunct1 [OF c2] that by blast
  show "bit (doms ! i) k" if "i < sg_block_count g" "k < sg_block_count g" "dominates g k i" for i k
    using conjunct1 [OF c3] that by blast
  show "bit (doms ! entry_of g) k \<longleftrightarrow> k = entry_of g" for k
    by (rule spec [OF conjunct1 [OF c4]])
  show "bit (doms ! i) k" if "i < sg_block_count g" "i \<noteq> entry_of g" "sb_reachable (sg_blocks g ! i)"
      "bit (dom_next g (all_blocks (sg_block_count g)) doms i) k" for i k
    using conjunct2 [OF c4] that by blast
qed

lemma path_in_range: "path g p i \<Longrightarrow> entry_of g < sg_block_count g \<Longrightarrow> i < sg_block_count g \<and> i \<in> set p"
  by (induction rule: path.induct) auto

lemma dominates_pred: "dominates g k i \<Longrightarrow> k \<noteq> i \<Longrightarrow> j \<in> preds g i \<Longrightarrow> i < sg_block_count g \<Longrightarrow> dominates g k j"
  unfolding dominates_def by (metis path.edge set_ConsD)

lemma dom_ready_simps:
  assumes "dom_ready g"
  shows "sg_block_count g \<le> 64" "entry_of g < sg_block_count g" "sg_blocks g \<noteq> []"
    "\<And>i. i < sg_block_count g \<Longrightarrow> unat (sb_predecessor_count (sg_blocks g ! i)) \<le> length (sb_predecessors (sg_blocks g ! i))"
    "\<And>i j. i < sg_block_count g \<Longrightarrow> j \<in> preds g i \<Longrightarrow> j < sg_block_count g"
    "\<And>i. i < sg_block_count g \<Longrightarrow> i \<noteq> entry_of g \<Longrightarrow> sb_reachable (sg_blocks g ! i) \<Longrightarrow> preds g i \<noteq> {}"
    "\<And>i j. i < sg_block_count g \<Longrightarrow> j \<in> preds g i \<Longrightarrow> sb_reachable (sg_blocks g ! j) \<Longrightarrow> sb_reachable (sg_blocks g ! i)"
    "sb_reachable (sg_blocks g ! entry_of g)"
  using assms unfolding dom_ready_def by blast+

lemma dom_inv_initial:
  assumes ready: "dom_ready g"
  shows "dom_inv g (initial_dom g (all_blocks (sg_block_count g)))"
proof -
  let ?n = "sg_block_count g" and ?d = "initial_dom g (all_blocks (sg_block_count g))"
  note r = dom_ready_simps [OF ready]
  have at: "?d ! i = (if i = entry_of g then push_bit i 1 else all_blocks ?n)" if "i < ?n" for i
    using that by (simp add: initial_dom_def)
  have entry: "bit (?d ! entry_of g) k \<longleftrightarrow> k = entry_of g" for k
    using r(1,2) by (auto simp: at [OF r(2)] bit_simps)
  have other: "bit (?d ! i) k \<longleftrightarrow> k < ?n" if "i < ?n" "i \<noteq> entry_of g" for i k
    using that r(1) by (simp add: at bit_all_blocks)
  have "k = entry_of g" if "dominates g k (entry_of g)" for k
    using that path.entry [of g] unfolding dominates_def by fastforce
  moreover have "k < ?n" if "bit (dom_next g (all_blocks ?n) ?d i) k" "i < ?n" for i k
    using that r(1) by (auto simp: bit_dom_next bit_all_blocks)
  ultimately show ?thesis
    using entry other r(2) unfolding dom_inv_def by (auto simp: initial_dom_def)
qed

lemma dom_inv_update:
  assumes ready: "dom_ready g" and inv: "dom_inv g doms" and i: "i < sg_block_count g" "i \<noteq> entry_of g" "sb_reachable (sg_blocks g ! i)"
  shows "dom_inv g (doms[i := dom_next g (all_blocks (sg_block_count g)) doms i])"
proof -
  let ?n = "sg_block_count g" and ?F = "dom_next g (all_blocks (sg_block_count g))"
  let ?e = "doms[i := ?F doms i]"
  note r = dom_ready_simps [OF ready]
  note inv = dom_invD [OF inv]
  have len: "length doms = ?n" by (rule inv)
  have shrinks: "bit (?F doms j) k \<Longrightarrow> bit (doms ! j) k" if "j < ?n" "j \<noteq> entry_of g" "sb_reachable (sg_blocks g ! j)" for j k
    using inv(5) that by blast
  have smaller: "bit (?e ! j) k \<Longrightarrow> bit (doms ! j) k" if "j < ?n" for j k
    using that len shrinks [OF i, of k] by (cases "j = i") simp_all
  have mono: "bit (?F ?e j) k \<Longrightarrow> bit (?F doms j) k" if "j < ?n" for j k
  proof -
    have "j < 64" using that r(1) by simp
    then show "bit (?F ?e j) k \<Longrightarrow> bit (?F doms j) k"
      unfolding bit_dom_next [OF \<open>j < 64\<close>] using smaller r(5) [OF that] by blast
  qed
  have sound: "bit (?F doms i) k" if "dominates g k i" "k < ?n" for k
  proof (cases "k = i")
    case False
    have "bit (doms ! j) k" if "j \<in> preds g i" for j
      using inv(3) dominates_pred [OF \<open>dominates g k i\<close> False that i(1)] r(5) [OF i(1) that] \<open>k < ?n\<close> by blast
    then show ?thesis
      using bit_dom_next [of i g "all_blocks ?n" doms k] r(1) i(1) r(6) [OF i] \<open>k < ?n\<close> bit_all_blocks [OF r(1), of k] by simp
  qed (use bit_dom_next [of i g "all_blocks ?n" doms k] r(1) i(1) in simp)
  show ?thesis
    unfolding dom_inv_def
  proof (intro conjI allI impI)
    show "length ?e = ?n" using len by simp
    show "k < ?n" if "j < ?n" "bit (?e ! j) k" for j k
      using smaller that inv(2) by blast
    show "bit (?e ! j) k" if "j < ?n" "k < ?n" "dominates g k j" for j k
      using that inv(3) sound len by (cases "j = i") simp_all
    show "bit (?e ! entry_of g) k \<longleftrightarrow> k = entry_of g" for k
      using inv(4) i(2) by simp
    show "bit (?e ! j) k" if "j < ?n" "j \<noteq> entry_of g" "sb_reachable (sg_blocks g ! j)" "bit (?F ?e j) k" for j k
      using that mono [of j k] shrinks [of j k] len by (cases "j = i") simp_all
  qed
qed

text \<open>How much is left to remove.\<close>

definition dom_size :: "u64 list \<Rightarrow> nat" where
  "dom_size doms = sum_list (map (\<lambda>w. card {k. bit w k}) doms)"

lemma dom_size_update:
  assumes "i < length doms" "\<And>k. bit w k \<Longrightarrow> bit (doms ! i) k" "w \<noteq> doms ! i"
  shows "dom_size (doms[i := w]) < dom_size doms"
proof -
  have "finite {k. bit (doms ! i) k}"
    by (rule finite_subset [of _ "{..<64}"]) (auto dest: bit_imp_le_length)
  moreover have "{k. bit w k} \<subset> {k. bit (doms ! i) k}"
    using assms(2,3) by (auto simp: bit_eq_iff)
  ultimately have less: "card {k. bit w k} < card {k. bit (doms ! i) k}"
    by (simp add: psubset_card_mono)
  have "card {k. bit (doms ! i) k} \<le> dom_size doms"
    unfolding dom_size_def using assms(1) by (intro member_le_sum_list) auto
  with less assms(1) show ?thesis
    unfolding dom_size_def map_update by (subst sum_list_update) auto
qed

lemma dom_pass_keeps:
  assumes "dom_ready g" "dom_inv g doms" "i + n = sg_block_count g"
  shows "\<exists>e ch'. dom_pass n i g (all_blocks (sg_block_count g)) doms ch = Inr (e, ch') \<and> dom_inv g e \<and>
    (if ch' then ch \<or> dom_size e < dom_size doms else \<not> ch) \<and> dom_size e \<le> dom_size doms \<and>
    (\<not> ch' \<longrightarrow> e = doms \<and> (\<forall>j. i \<le> j \<and> j < sg_block_count g \<and> j \<noteq> entry_of g \<and> sb_reachable (sg_blocks g ! j) \<longrightarrow>
        dom_next g (all_blocks (sg_block_count g)) doms j = doms ! j))"
  using assms(2,3)
proof (induction n arbitrary: i doms ch)
  case (Suc n)
  let ?all = "all_blocks (sg_block_count g)" and ?b = "sg_blocks g ! i"
  note r = dom_ready_simps [OF assms(1)]
  have i: "i < sg_block_count g" "Suc i + n = sg_block_count g" using Suc.prems(2) by simp_all
  have len: "length doms = sg_block_count g" using dom_invD(1) [OF Suc.prems(1)] .
  show ?case
  proof (cases "i = entry_of g \<or> \<not> sb_reachable ?b")
    case True
    then have "dom_pass (Suc n) i g ?all doms ch = dom_pass n (Suc i) g ?all doms ch"
      using i by (simp add: rd_def bindc_def)
    moreover have "\<And>j. i \<le> j \<and> j \<noteq> entry_of g \<and> sb_reachable (sg_blocks g ! j) \<Longrightarrow> Suc i \<le> j"
      using True by (metis Suc_leI le_neq_implies_less)
    ultimately show ?thesis using Suc.IH [OF Suc.prems(1) i(2), of ch] by metis
  next
    case False
    then have blk: "i \<noteq> entry_of g" "sb_reachable ?b" by simp_all
    have "\<forall>q\<in>set (take (unat (sb_predecessor_count ?b)) (sb_predecessors ?b)). unat q < length doms"
      using r(5) [OF i(1)] len by (auto simp: preds_def)
    then have fold: "meet_loop (unat (sb_predecessor_count ?b)) 0 ?b doms ?all =
        Inr (fold (\<lambda>q m. m AND doms ! unat q) (take (unat (sb_predecessor_count ?b)) (sb_predecessors ?b)) ?all)"
      using meet_loop_fold [of 0 "unat (sb_predecessor_count ?b)" ?b doms ?all] r(4) [OF i(1)] by simp
    obtain m where m: "(if sb_predecessor_count ?b = 0 then Inr 0 else meet_loop (unat (sb_predecessor_count ?b)) 0 ?b doms ?all) = Inr m"
        "dom_next g ?all doms i = m OR push_bit i 1"
      by (cases "sb_predecessor_count ?b = 0") (use that fold in \<open>simp_all add: dom_next_def\<close>)
    have pass: "dom_pass (Suc n) i g ?all doms ch =
        (if dom_next g ?all doms i \<noteq> doms ! i then dom_pass n (Suc i) g ?all (doms[i := dom_next g ?all doms i]) True
         else dom_pass n (Suc i) g ?all doms ch)"
      using i blk by (simp add: rd_def m bindc_def Let_def del: push_bit_of_1)
    show ?thesis
    proof (cases "dom_next g ?all doms i = doms ! i")
      case True
      have "\<And>j. i \<le> j \<Longrightarrow> j = i \<or> Suc i \<le> j" by auto
      then show ?thesis using True pass Suc.IH [OF Suc.prems(1) i(2), of ch] by metis
    next
      case changed: False
      let ?e = "doms[i := dom_next g ?all doms i]"
      have inv: "dom_inv g ?e" by (rule dom_inv_update [OF assms(1) Suc.prems(1) i(1) blk])
      have less: "dom_size ?e < dom_size doms"
        using dom_invD(5) [OF Suc.prems(1) i(1) blk] i(1) changed len by (intro dom_size_update) simp_all
      from Suc.IH [OF inv i(2), of True] less changed show ?thesis
        unfolding pass by (elim exE conjE) (rule exI, rule exI, auto split: if_splits)
    qed
  qed
qed auto

lemma dom_loop_ends:
  assumes ready: "dom_ready g"
  shows "\<exists>doms. dom_loop g = Some (Inr (doms, False)) \<and> dom_inv g doms \<and>
    (\<forall>j < sg_block_count g. j \<noteq> entry_of g \<longrightarrow> sb_reachable (sg_blocks g ! j) \<longrightarrow>
       dom_next g (all_blocks (sg_block_count g)) doms j = doms ! j)"
proof -
  let ?all = "all_blocks (sg_block_count g)" and ?n = "sg_block_count g"
  let ?b = "\<lambda>s. case s of Inl _ \<Rightarrow> False | Inr (_, changed) \<Rightarrow> changed"
  let ?c = "\<lambda>s. bindc s (\<lambda>(doms, _). dom_pass ?n 0 g ?all doms False)"
  define P where "P = (\<lambda>s :: (u64 list \<times> bool) c. \<exists>doms ch. s = Inr (doms, ch) \<and> dom_inv g doms \<and>
     (\<not> ch \<longrightarrow> (\<forall>j. j < ?n \<and> j \<noteq> entry_of g \<and> sb_reachable (sg_blocks g ! j) \<longrightarrow> dom_next g ?all doms j = doms ! j)))"
  define f where "f = (\<lambda>s :: (u64 list \<times> bool) c. case s of Inl _ \<Rightarrow> 0 | Inr (doms, ch) \<Rightarrow> 2 * dom_size doms + (if ch then 1 else 0))"
  have step: "P (?c s) \<and> f (?c s) < f s" if "P s" "?b s" for s
  proof -
    from that obtain doms where s: "s = Inr (doms, True)" "dom_inv g doms" unfolding P_def by auto
    from dom_pass_keeps [OF ready s(2), of 0 ?n False] s(1) show ?thesis
      unfolding P_def f_def by (auto simp: bindc_def split: if_splits)
  qed
  have init: "P (Inr (initial_dom g ?all, True))"
    using dom_inv_initial [OF ready] by (auto simp: P_def)
  obtain t where t: "dom_loop g = Some t"
    using measure_while_option_Some [of P ?b ?c f, OF step init] unfolding dom_loop_def Let_def by blast
  have "P t" "\<not> ?b t"
    using t while_option_rule [of P ?b ?c, OF _ _ init] step while_option_stop [of ?b ?c] unfolding dom_loop_def Let_def by blast+
  with t show ?thesis unfolding P_def by auto
qed

lemma fixpoint_excludes:
  assumes ready: "dom_ready g" and inv: "dom_inv g doms"
    and fp: "\<forall>j < sg_block_count g. j \<noteq> entry_of g \<longrightarrow> sb_reachable (sg_blocks g ! j) \<longrightarrow>
       dom_next g (all_blocks (sg_block_count g)) doms j = doms ! j"
    and p: "path g p i" "k \<notin> set p"
  shows "\<not> bit (doms ! i) k \<and> sb_reachable (sg_blocks g ! i)"
  using p
proof (induction rule: path.induct)
  case entry
  then show ?case using dom_invD(4) [OF inv] dom_ready_simps(8) [OF ready] by simp
next
  case (edge p i j)
  then have IH: "\<not> bit (doms ! i) k" "sb_reachable (sg_blocks g ! i)" and "k \<noteq> j" by simp_all
  have reach: "sb_reachable (sg_blocks g ! j)"
    using dom_ready_simps(7) [OF ready edge.hyps(3,2) IH(2)] .
  have "\<not> bit (doms ! j) k"
  proof (cases "j = entry_of g")
    case True
    then show ?thesis using dom_invD(4) [OF inv] \<open>k \<noteq> j\<close> by simp
  next
    case False
    then have "dom_next g (all_blocks (sg_block_count g)) doms j = doms ! j" using fp edge.hyps(3) reach by simp
    then show ?thesis
      using bit_dom_next [of j g "all_blocks (sg_block_count g)" doms k] IH(1) edge.hyps \<open>k \<noteq> j\<close> dom_ready_simps(1) [OF ready] by auto
  qed
  with reach show ?case by simp
qed

lemma dom_loop_exact:
  assumes ready: "dom_ready g"
  shows "\<exists>doms. dom_loop g = Some (Inr (doms, False)) \<and> length doms = sg_block_count g \<and>
    (\<forall>k. bit (doms ! entry_of g) k \<longleftrightarrow> k = entry_of g) \<and>
    (\<forall>i < sg_block_count g. bit (doms ! i) (entry_of g)) \<and>
    (\<forall>i < sg_block_count g. \<forall>k < sg_block_count g. (\<exists>p. path g p i) \<longrightarrow> (bit (doms ! i) k \<longleftrightarrow> dominates g k i))"
proof -
  obtain doms where doms: "dom_loop g = Some (Inr (doms, False))" and inv: "dom_inv g doms"
    and fp: "\<forall>j < sg_block_count g. j \<noteq> entry_of g \<longrightarrow> sb_reachable (sg_blocks g ! j) \<longrightarrow>
       dom_next g (all_blocks (sg_block_count g)) doms j = doms ! j"
    using dom_loop_ends [OF ready] by blast
  have entry_dom: "dominates g (entry_of g) i" for i
    unfolding dominates_def
  proof (intro allI impI)
    show "entry_of g \<in> set p" if "path g p i" for p
      using that by (induction rule: path.induct) auto
  qed
  have "bit (doms ! i) k \<longleftrightarrow> dominates g k i" if "i < sg_block_count g" "k < sg_block_count g" for i k
    using dom_invD(3) [OF inv that] fixpoint_excludes [OF ready inv fp] unfolding dominates_def by blast
  moreover have "bit (doms ! i) (entry_of g)" if "i < sg_block_count g" for i
    using dom_invD(3) [OF inv that dom_ready_simps(2) [OF ready] entry_dom] .
  ultimately show ?thesis
    using doms dom_invD(1,4) [OF inv] by blast
qed

section \<open>Properties\<close>

lemma candidate_is_entry:
  assumes "e < n" "i < n" "i \<noteq> e" "\<forall>k. bit (doms ! e) k \<longleftrightarrow> k = e" "\<forall>i < n. bit (doms ! i) e"
  shows "dom_candidate n doms i = of_nat e"
proof -
  have own: "\<not> dominated_by_other n doms i e"
    using assms(3,4) by (auto simp: dominated_by_other_def list_ex_iff)
  have "dominated_by_other n doms i j" if "j < n" "j \<noteq> e" for j
    using assms that by (auto simp: dominated_by_other_def list_ex_iff intro!: bexI [of _ e])
  then have "List.find (\<lambda>j. j \<noteq> i \<and> bit (doms ! i) j \<and> \<not> dominated_by_other n doms i j) [0..<n] = Some e"
    unfolding find_Some_iff using assms own by (intro exI [of _ e]) auto
  then show ?thesis by (simp add: dom_candidate_def)
qed

text \<open>
  C13. The dominator sets are right: on every graph with at most 64 blocks whose edges are in range and
  whose reachability flags agree with its edges, the iteration ends without a fault, and the bit set of a
  block holds exactly the blocks that lie on every path from the entry to it.
\<close>

theorem dominator_sets_exact:
  assumes "dom_ready g"
  shows "\<exists>doms. dom_loop g = Some (Inr (doms, False)) \<and>
    (\<forall>i < sg_block_count g. \<forall>k < sg_block_count g. (\<exists>p. path g p i) \<longrightarrow> (bit (doms ! i) k \<longleftrightarrow> dominates g k i))"
  using dom_loop_exact [OF assms] by blast

text \<open>
  The immediate dominators are wrong. Whatever the graph, the analysis records the entry block as
  the immediate dominator of every other block: it picks the dominator that no other dominator dominates,
  which is the outermost one, and not the innermost.
\<close>

lemma immediate_dominator_is_entry:
  assumes "dom_ready g" "i < sg_block_count g" "i \<noteq> entry_of g"
  shows "\<exists>h. TurboJS_SSAComputeDominators True (Some g) = Some (Inr (TURBOJS_IR_OK, Some h)) \<and>
    sb_immediate_dominator (sg_blocks h ! i) = sg_entry_block g"
proof -
  obtain doms where doms: "dom_loop g = Some (Inr (doms, False))" "\<forall>k. bit (doms ! entry_of g) k \<longleftrightarrow> k = entry_of g"
      "\<forall>i < sg_block_count g. bit (doms ! i) (entry_of g)"
    using dom_loop_exact [OF assms(1)] by blast
  have "dom_candidate (sg_block_count g) doms i = sg_entry_block g"
    using candidate_is_entry [OF dom_ready_simps(2) [OF assms(1)] assms(2,3) doms(2,3)] by simp
  with assms doms(1) dom_ready_simps(1,3) [OF assms(1)] show ?thesis
    by (simp add: TurboJS_SSAComputeDominators_def bindc_def Let_def)
qed

definition plain_block :: "u32 \<Rightarrow> u32 list \<Rightarrow> u32 list \<Rightarrow> TurboJSSSABlock" where
  "plain_block i ps ss = \<lparr>sb_id = i, sb_first_value = 0, sb_value_count = 0, sb_first_instruction = 0, sb_instruction_count = 0,
     sb_predecessors = ps, sb_successors = ss, sb_predecessor_count = of_nat (length ps), sb_successor_count = of_nat (length ss),
     sb_immediate_dominator = TURBOJS_SSA_NO_BLOCK, sb_loop_header = TURBOJS_SSA_NO_BLOCK, sb_dominance_frontier_mask = 0,
     sb_loop_depth = 0, sb_reachable = True, sb_removed = False\<rparr>"

text \<open>A chain of three blocks: the block 1 lies on every path to the block 2.\<close>

definition block_chain :: TurboJSSSAGraph where
  "block_chain = \<lparr>sg_values = [], sg_blocks = [plain_block 0 [] [1], plain_block 1 [0] [2], plain_block 2 [1] []],
     sg_entry_block = 0, sg_deopt_exit_count = 0\<rparr>"

lemma block_chain_ready: "dom_ready block_chain"
  by (auto simp: dom_ready_def block_chain_def preds_def plain_block_def less_Suc_eq numeral_3_eq_3)

lemma block_chain_preds: "preds block_chain 0 = {}" "preds block_chain (Suc 0) = {0}" "preds block_chain 2 = {Suc 0}"
  by (simp_all add: block_chain_def preds_def plain_block_def)

lemma block_chain_dominates: "dominates block_chain (Suc 0) 2"
proof -
  have "path block_chain p i \<Longrightarrow> i = 2 \<Longrightarrow> Suc 0 \<in> set p" for p i
  proof (induction rule: path.induct)
    case (edge p i j)
    then have "i = Suc 0" using block_chain_preds(3) by simp
    then show ?case using path_in_range [OF edge.hyps(1)] by (simp add: block_chain_def)
  qed (simp add: block_chain_def)
  then show ?thesis by (simp add: dominates_def)
qed

theorem dominator_sets_exact_witness:
  "\<exists>doms. dom_loop block_chain = Some (Inr (doms, False)) \<and> bit (doms ! 2) (Suc 0)"
proof -
  have "path block_chain [2, 1, 0] 2"
    using path.edge [OF path.edge [OF path.entry [of block_chain]], of 1 2] block_chain_preds by (simp add: block_chain_def)
  then have reach: "\<exists>p. path block_chain p 2" by blast
  have count: "2 < sg_block_count block_chain" "Suc 0 < sg_block_count block_chain"
    by (simp_all add: block_chain_def)
  obtain doms where "dom_loop block_chain = Some (Inr (doms, False))"
      "\<forall>i < sg_block_count block_chain. \<forall>k < sg_block_count block_chain. (\<exists>p. path block_chain p i) \<longrightarrow>
         (bit (doms ! i) k \<longleftrightarrow> dominates block_chain k i)"
    using dominator_sets_exact [OF block_chain_ready] by (elim exE conjE) (rule that)
  then show ?thesis using count reach block_chain_dominates by blast
qed

end
