(* ===== verification/SSA_Build.thy ===== *)
theory SSA_Build
  imports SSA_Graph IR_Interp
begin

text \<open>
  Building the SSA graph of a function, \<^verbatim>\<open>src/jit/optimizing/ssa.c\<close>, and lowering a graph of one block back to
  IR, \<^verbatim>\<open>src/jit/optimizing/pipeline.c\<close>.

  Loops over arrays are folds in the fault monad; the work lists have a fixed size in the code, which is
  the fuel of their loops. Allocation failures are fields of \<open>ssa_alloc\<close>: a boolean for a single
  allocation, a function of the requested size for an array that grows.
\<close>

section \<open>Building blocks\<close>

record ssa_alloc =
  al_leader :: bool
  al_blocks :: "nat \<Rightarrow> bool"
  al_out :: bool
  al_values :: "nat \<Rightarrow> bool"
  al_dominators :: bool

fun foldc :: "('a \<Rightarrow> 's \<Rightarrow> 's c) \<Rightarrow> 'a list \<Rightarrow> 's \<Rightarrow> 's c" where
  "foldc f [] s = Inr s"
| "foldc f (x # xs) s = bindc (f x s) (foldc f xs)"

definition type_for :: "TurboJSIROpcode \<Rightarrow> TurboJSSSAType" where
  "type_for op = (if op = TURBOJS_IR_LESS_THAN_I64 then TURBOJS_SSA_TYPE_BOOLEAN else TURBOJS_SSA_TYPE_INT64)"

definition map_op :: "TurboJSIROpcode \<Rightarrow> TurboJSSSAOpcode" where
  "map_op op =
     (case op of
        TURBOJS_IR_ARGUMENT \<Rightarrow> TURBOJS_SSA_ARGUMENT
      | TURBOJS_IR_CONSTANT_I64 \<Rightarrow> TURBOJS_SSA_CONSTANT_I64
      | TURBOJS_IR_ADD_I64 \<Rightarrow> TURBOJS_SSA_ADD_I64
      | TURBOJS_IR_ADD_I32_CHECKED \<Rightarrow> TURBOJS_SSA_ADD_I64
      | TURBOJS_IR_SUB_I64 \<Rightarrow> TURBOJS_SSA_SUB_I64
      | TURBOJS_IR_SUB_I32_CHECKED \<Rightarrow> TURBOJS_SSA_SUB_I64
      | TURBOJS_IR_MUL_I64 \<Rightarrow> TURBOJS_SSA_MUL_I64
      | TURBOJS_IR_MUL_I32_CHECKED \<Rightarrow> TURBOJS_SSA_MUL_I64
      | TURBOJS_IR_LESS_THAN_I64 \<Rightarrow> TURBOJS_SSA_LESS_THAN_I64
      | TURBOJS_IR_JUMP \<Rightarrow> TURBOJS_SSA_JUMP
      | TURBOJS_IR_BRANCH_TRUE \<Rightarrow> TURBOJS_SSA_BRANCH_TRUE
      | TURBOJS_IR_BRANCH_FALSE \<Rightarrow> TURBOJS_SSA_BRANCH_FALSE
      | TURBOJS_IR_RETURN_I64 \<Rightarrow> TURBOJS_SSA_RETURN
      | _ \<Rightarrow> TURBOJS_SSA_NOP)"

definition update_block :: "TurboJSSSAGraph \<Rightarrow> nat \<Rightarrow> (TurboJSSSABlock \<Rightarrow> TurboJSSSABlock) \<Rightarrow> TurboJSSSAGraph" where
  "update_block g i h = g\<lparr>sg_blocks := (sg_blocks g)[i := h (sg_blocks g ! i)]\<rparr>"

definition block_add_successor :: "TurboJSSSAGraph \<Rightarrow> nat \<Rightarrow> u32 \<Rightarrow> (bool \<times> TurboJSSSAGraph) c" where
  "block_add_successor g from to =
     (if sg_block_count g \<le> from \<or> sg_block_count g \<le> unat to then Inr (False, g)
      else
        (let a = sg_blocks g ! from; b = sg_blocks g ! unat to
         in if to \<in> set (take (unat (sb_successor_count a)) (sb_successors a)) then Inr (True, g)
            else if TURBOJS_SSA_MAX_BLOCK_EDGES \<le> sb_successor_count a \<or> TURBOJS_SSA_MAX_BLOCK_EDGES \<le> sb_predecessor_count b
            then Inr (False, g)
            else bindc (wr (sb_successors a) (unat (sb_successor_count a)) to) (\<lambda>ss.
                 (let g1 = update_block g from (\<lambda>a. a\<lparr>sb_successors := ss, sb_successor_count := sb_successor_count a + 1\<rparr>)
                  in bindc (wr (sb_predecessors b) (unat (sb_predecessor_count b)) (of_nat from)) (\<lambda>ps.
                       Inr (True, update_block g1 (unat to) (\<lambda>b. b\<lparr>sb_predecessors := ps,
                                    sb_predecessor_count := sb_predecessor_count b + 1\<rparr>)))))))"

definition block_for_instruction :: "TurboJSSSAGraph \<Rightarrow> u32 \<Rightarrow> u32" where
  "block_for_instruction g insn =
     (case List.find (\<lambda>i. (let b = sg_blocks g ! i in sb_first_instruction b \<le> insn \<and> insn < sb_first_instruction b + sb_instruction_count b))
             [0..<sg_block_count g] of
        None \<Rightarrow> TURBOJS_SSA_NO_BLOCK
      | Some i \<Rightarrow> of_nat i)"

text \<open>The first instruction of a block is marked as its leader.\<close>

definition mark_leaders :: "TurboJSIRInstruction list \<Rightarrow> bool list" where
  "mark_leaders code =
     fold (\<lambda>i leader.
       (let ins = code ! i; opcode = ins_opcode ins; n = length code
        in if opcode = TURBOJS_IR_JUMP \<or> opcode = TURBOJS_IR_BRANCH_TRUE \<or> opcode = TURBOJS_IR_BRANCH_FALSE
           then (let l1 = (if unat (ins_target ins) < n then leader[unat (ins_target ins) := True] else leader)
                 in if i + 1 < n then l1[i + 1 := True] else l1)
           else if opcode = TURBOJS_IR_RETURN_I64 \<and> i + 1 < n then leader[i + 1 := True]
           else leader))
       [0..<length code] ((replicate (length code) False)[0 := True])"

definition new_block :: "u32 \<Rightarrow> u32 \<Rightarrow> u32 \<Rightarrow> TurboJSSSABlock" where
  "new_block i first_instruction first_value =
     \<lparr>sb_id = i, sb_first_value = first_value, sb_value_count = 0, sb_first_instruction = first_instruction, sb_instruction_count = 0,
      sb_predecessors = replicate 8 0, sb_successors = replicate 8 0, sb_predecessor_count = 0, sb_successor_count = 0,
      sb_immediate_dominator = TURBOJS_SSA_NO_BLOCK, sb_loop_header = TURBOJS_SSA_NO_BLOCK, sb_dominance_frontier_mask = 0,
      sb_loop_depth = 0, sb_reachable = False, sb_removed = False\<rparr>"

fun add_blocks :: "(nat \<Rightarrow> bool) \<Rightarrow> nat list \<Rightarrow> bool list \<Rightarrow> TurboJSSSAGraph \<Rightarrow> bool \<times> TurboJSSSAGraph" where
  "add_blocks ok [] leader g = (True, g)"
| "add_blocks ok (i # is) leader g =
     (if \<not> leader ! i then add_blocks ok is leader g
      else if \<not> ok (sg_block_count g + 1) then (False, g)
      else add_blocks ok is leader (g\<lparr>sg_blocks := sg_blocks g @
             [new_block (of_nat (sg_block_count g)) (of_nat i) (of_nat (sg_value_count g))]\<rparr>))"

definition set_instruction_counts :: "nat \<Rightarrow> TurboJSSSAGraph \<Rightarrow> TurboJSSSAGraph" where
  "set_instruction_counts n g =
     g\<lparr>sg_blocks := map (\<lambda>i. (sg_blocks g ! i)\<lparr>sb_instruction_count :=
         (if i + 1 < sg_block_count g then sb_first_instruction (sg_blocks g ! (i + 1)) else of_nat n) - sb_first_instruction (sg_blocks g ! i)\<rparr>)
       [0..<sg_block_count g]\<rparr>"

text \<open>The edges that leave the block \<open>i\<close>.\<close>

definition link_block :: "TurboJSIRInstruction list \<Rightarrow> TurboJSSSAGraph \<Rightarrow> nat \<Rightarrow> (bool \<times> TurboJSSSAGraph) c" where
  "link_block code g i =
     (let b = sg_blocks g ! i; last = sb_first_instruction b + sb_instruction_count b - 1
      in bindc (rd code (unat last)) (\<lambda>ins.
           (let opcode = ins_opcode ins; target = block_for_instruction g (ins_target ins)
            in if opcode = TURBOJS_IR_JUMP then
                 (if target = TURBOJS_SSA_NO_BLOCK then Inr (False, g) else block_add_successor g i target)
               else if opcode = TURBOJS_IR_BRANCH_TRUE \<or> opcode = TURBOJS_IR_BRANCH_FALSE then
                 (if target = TURBOJS_SSA_NO_BLOCK then Inr (False, g)
                  else bindc (block_add_successor g i target) (\<lambda>(ok, g).
                    if \<not> ok then Inr (False, g)
                    else if i + 1 < sg_block_count g then block_add_successor g i (of_nat (i + 1)) else Inr (True, g)))
               else if opcode \<noteq> TURBOJS_IR_RETURN_I64 \<and> i + 1 < sg_block_count g then block_add_successor g i (of_nat (i + 1))
               else Inr (True, g))))"

fun link_blocks :: "TurboJSIRInstruction list \<Rightarrow> nat list \<Rightarrow> TurboJSSSAGraph \<Rightarrow> (bool \<times> TurboJSSSAGraph) c" where
  "link_blocks code [] g = Inr (True, g)"
| "link_blocks code (i # is) g = bindc (link_block code g i) (\<lambda>(ok, g). if ok then link_blocks code is g else Inr (False, g))"

definition build_blocks :: "ssa_alloc \<Rightarrow> TurboJSIRFunction \<Rightarrow> TurboJSSSAGraph \<Rightarrow> (bool \<times> TurboJSSSAGraph) c" where
  "build_blocks A f g =
     (if irf_instruction_count f = 0 \<or> \<not> al_leader A then Inr (False, g)
      else
        (let code = irf_code f; leader = mark_leaders code
         in (case add_blocks (al_blocks A) [0..<length code] leader g of (ok, g1) \<Rightarrow>
               if \<not> ok then Inr (False, g1)
               else
                 (let g2 = set_instruction_counts (length code) g1;
                      g3 = update_block (g2\<lparr>sg_entry_block := 0\<rparr>) 0 (\<lambda>b. b\<lparr>sb_reachable := True\<rparr>)
                  in link_blocks code [0..<sg_block_count g3] g3))))"

section \<open>Values\<close>

definition emit_value ::
  "(nat \<Rightarrow> bool) \<Rightarrow> TurboJSSSAGraph \<Rightarrow> nat \<Rightarrow> TurboJSSSAOpcode \<Rightarrow> TurboJSSSAType \<Rightarrow> u32 \<Rightarrow> u32 \<Rightarrow> i64 \<Rightarrow> u32 \<Rightarrow> (u32 \<times> TurboJSSSAGraph) c" where
  "emit_value ok g block op ty left right imm src =
     (if \<not> ok (sg_value_count g + 1) then Inr (TURBOJS_SSA_NO_VALUE, g)
      else
        (let use = (\<lambda>i vs. if i = TURBOJS_SSA_NO_VALUE then Inr vs
               else bindc (rd vs (unat i)) (\<lambda>v. Inr (vs[unat i := v\<lparr>sv_use_count := sv_use_count v + 1\<rparr>])));
             v = \<lparr>sv_opcode = op, sv_type = ty, sv_id = of_nat (sg_value_count g), sv_block = of_nat block, sv_left = left, sv_right = right,
                  sv_immediate = imm, sv_use_count = 0, sv_source_instruction = src, sv_deopt_id = 0, sv_removed = False,
                  sv_has_deopt_edge = False, sv_property = null_property, sv_element = null_element\<rparr>
         in bindc (use left (sg_values g @ [v])) (\<lambda>vs.
            bindc (use right vs) (\<lambda>vs.
            bindc (rd (sg_blocks g) block) (\<lambda>_.
              Inr (of_nat (sg_value_count g), update_block (g\<lparr>sg_values := vs\<rparr>) block (\<lambda>b. b\<lparr>sb_value_count := sb_value_count b + 1\<rparr>)))))))"

text \<open>The uses of a value by another one; the use counts count them.\<close>

definition uses_of :: "u32 \<Rightarrow> TurboJSSSAValue \<Rightarrow> nat" where
  "uses_of k v = (if sv_removed v then 0 else of_bool (sv_left v = k) + of_bool (sv_right v = k))"

definition counted :: "TurboJSSSAValue list \<Rightarrow> bool" where
  "counted vs \<longleftrightarrow> (\<forall>k<length vs. sv_use_count (vs ! k) = of_nat (sum_list (map (uses_of (of_nat k)) vs)))"

definition TurboJS_SSAAddPhi ::
  "(nat \<Rightarrow> bool) \<Rightarrow> TurboJSSSAGraph ptr \<Rightarrow> u32 \<Rightarrow> u32 \<Rightarrow> u32 \<Rightarrow> TurboJSSSAType \<Rightarrow> u32 ptr \<Rightarrow> (TurboJSIRStatus \<times> TurboJSSSAGraph ptr \<times> u32 ptr) c" where
  "TurboJS_SSAAddPhi ok graph block left right ty out =
     (case graph of
        None \<Rightarrow> Inr (TURBOJS_IR_INVALID_ARGUMENT, None, out)
      | Some g \<Rightarrow>
          if sg_block_count g \<le> unat block \<or> sg_value_count g \<le> unat left \<or> sg_value_count g \<le> unat right
          then Inr (TURBOJS_IR_INVALID_ARGUMENT, graph, out)
          else bindc (emit_value ok g (unat block) TURBOJS_SSA_PHI ty left right 0 (sb_first_instruction (sg_blocks g ! unat block))) (\<lambda>(i, g).
                 if i = TURBOJS_SSA_NO_VALUE then Inr (TURBOJS_IR_OUT_OF_MEMORY, Some g, out)
                 else Inr (TURBOJS_IR_OK, Some g, map_option (\<lambda>_. i) out)))"

text \<open>The breadth-first search of \<^verbatim>\<open>mark_reachable\<close>; its queue has 1024 entries.\<close>

fun reach_loop :: "nat \<Rightarrow> nat \<Rightarrow> u32 list \<Rightarrow> TurboJSSSAGraph \<Rightarrow> TurboJSSSAGraph c" where
  "reach_loop 0 h queue g = Inr g"
| "reach_loop (Suc fuel) h queue g =
     (if length queue \<le> h then Inr g
      else bindc (rd (sg_blocks g) (unat (queue ! h))) (\<lambda>b.
           bindc (if unat (sb_successor_count b) \<le> length (sb_successors b) then Inr () else Inl Fault_bounds) (\<lambda>_.
           bindc (foldc (\<lambda>s (queue, g).
               bindc (rd (sg_blocks g) (unat s)) (\<lambda>t.
                 if sb_reachable t then Inr (queue, g)
                 else Inr (if length queue < 1024 then queue @ [s] else queue, update_block g (unat s) (\<lambda>t. t\<lparr>sb_reachable := True\<rparr>))))
             (take (unat (sb_successor_count b)) (sb_successors b)) (queue, g)) (\<lambda>(queue, g).
             reach_loop fuel (h + 1) queue g))))"

definition mark_reachable :: "TurboJSSSAGraph \<Rightarrow> TurboJSSSAGraph c" where
  "mark_reachable g =
     (if sg_blocks g = [] then Inr g
      else
        (let g1 = g\<lparr>sg_blocks := map (\<lambda>b. b\<lparr>sb_reachable := False\<rparr>) (sg_blocks g)\<rparr>
         in bindc (rd (sg_blocks g1) (unat (sg_entry_block g))) (\<lambda>_.
              reach_loop 1024 0 [sg_entry_block g] (update_block g1 (unat (sg_entry_block g)) (\<lambda>b. b\<lparr>sb_reachable := True\<rparr>)))))"

section \<open>Frontiers and loops\<close>

text \<open>The walk up the dominator tree from a predecessor of the block \<open>i\<close>.\<close>

definition frontier_walk :: "TurboJSSSAGraph \<Rightarrow> nat \<Rightarrow> u32 \<Rightarrow> u32 \<Rightarrow> TurboJSSSAGraph c option" where
  "frontier_walk g i stop runner =
     map_option (\<lambda>s. bindc s (\<lambda>(_, g). Inr g))
       (while_option (\<lambda>s. case s of Inl _ \<Rightarrow> False | Inr (runner, _) \<Rightarrow> runner \<noteq> TURBOJS_SSA_NO_BLOCK \<and> runner \<noteq> stop)
         (\<lambda>s. bindc s (\<lambda>(runner, g). bindc (rd (sg_blocks g) (unat runner)) (\<lambda>b.
            Inr (sb_immediate_dominator b,
                 update_block g (unat runner) (\<lambda>b. b\<lparr>sb_dominance_frontier_mask := sb_dominance_frontier_mask b OR push_bit i 1\<rparr>)))))
         (Inr (runner, g)))"

fun frontier_preds :: "nat \<Rightarrow> u32 \<Rightarrow> u32 list \<Rightarrow> TurboJSSSAGraph \<Rightarrow> TurboJSSSAGraph c option" where
  "frontier_preds i stop [] g = Some (Inr g)"
| "frontier_preds i stop (p # ps) g =
     (case frontier_walk g i stop p of
        None \<Rightarrow> None
      | Some (Inl e) \<Rightarrow> Some (Inl e)
      | Some (Inr g) \<Rightarrow> frontier_preds i stop ps g)"

fun frontier_blocks :: "nat list \<Rightarrow> TurboJSSSAGraph \<Rightarrow> TurboJSSSAGraph c option" where
  "frontier_blocks [] g = Some (Inr g)"
| "frontier_blocks (i # is) g =
     (let b = sg_blocks g ! i
      in if \<not> sb_reachable b \<or> sb_predecessor_count b < 2 then frontier_blocks is g
         else if length (sb_predecessors b) < unat (sb_predecessor_count b) then Some (Inl Fault_bounds)
         else (case frontier_preds i (sb_immediate_dominator b) (take (unat (sb_predecessor_count b)) (sb_predecessors b)) g of
                 None \<Rightarrow> None
               | Some (Inl e) \<Rightarrow> Some (Inl e)
               | Some (Inr g) \<Rightarrow> frontier_blocks is g))"

definition TurboJS_SSAComputeDominanceFrontiers :: "TurboJSSSAGraph ptr \<Rightarrow> (TurboJSIRStatus \<times> TurboJSSSAGraph ptr) c option" where
  "TurboJS_SSAComputeDominanceFrontiers graph =
     (case graph of
        None \<Rightarrow> Some (Inr (TURBOJS_IR_INVALID_ARGUMENT, None))
      | Some g \<Rightarrow>
          if sg_blocks g = [] \<or> 64 < sg_block_count g then Some (Inr (TURBOJS_IR_INVALID_ARGUMENT, graph))
          else map_option (\<lambda>r. bindc r (\<lambda>g. Inr (TURBOJS_IR_OK, Some g)))
                 (frontier_blocks [0..<sg_block_count g]
                   (g\<lparr>sg_blocks := map (\<lambda>b. b\<lparr>sb_dominance_frontier_mask := 0\<rparr>) (sg_blocks g)\<rparr>)))"

text \<open>The body of a natural loop, collected backwards from the edge; the work list has 64 entries.\<close>

fun loop_body :: "nat \<Rightarrow> nat \<Rightarrow> u32 list \<Rightarrow> bool list \<Rightarrow> u32 \<Rightarrow> TurboJSSSAGraph \<Rightarrow> TurboJSSSAGraph c" where
  "loop_body 0 cursor work seen header g = Inr g"
| "loop_body (Suc fuel) cursor work seen header g =
     (if length work \<le> cursor then Inr g
      else bindc (rd (sg_blocks g) (unat (work ! cursor))) (\<lambda>b.
           bindc (if unat (sb_predecessor_count b) \<le> length (sb_predecessors b) then Inr () else Inl Fault_bounds) (\<lambda>_.
           bindc (foldc (\<lambda>p (work, seen).
               bindc (rd seen (unat p)) (\<lambda>s.
                 if \<not> s \<and> length work < 64 then Inr (work @ [p], seen[unat p := True]) else Inr (work, seen)))
             (take (unat (sb_predecessor_count b)) (sb_predecessors b)) (work, seen)) (\<lambda>(work', seen').
             loop_body fuel (cursor + 1) work' seen' header
               (update_block g (unat (work ! cursor)) (\<lambda>b. b\<lparr>sb_loop_header := header, sb_loop_depth := sb_loop_depth b + 1\<rparr>))))))"

definition detect_edge :: "nat \<Rightarrow> nat \<Rightarrow> TurboJSSSAGraph \<Rightarrow> TurboJSSSAGraph c" where
  "detect_edge i j g =
     bindc (rd (sb_successors (sg_blocks g ! i)) j) (\<lambda>header.
       if i < unat header \<or> sg_block_count g \<le> unat header \<or> 64 < sg_block_count g then Inr g
       else bindc (loop_body 64 0 [of_nat i] ((replicate 64 False)[unat header := True, i := True]) header g) (\<lambda>g.
              Inr (update_block g (unat header) (\<lambda>b. b\<lparr>sb_loop_header := header, sb_loop_depth := sb_loop_depth b + 1\<rparr>))))"

definition TurboJS_SSADetectLoops :: "TurboJSSSAGraph ptr \<Rightarrow> (TurboJSIRStatus \<times> TurboJSSSAGraph ptr) c" where
  "TurboJS_SSADetectLoops graph =
     (case graph of
        None \<Rightarrow> Inr (TURBOJS_IR_INVALID_ARGUMENT, None)
      | Some g \<Rightarrow>
          bindc (foldc (\<lambda>i g. foldc (\<lambda>j g. detect_edge i j g) [0..<unat (sb_successor_count (sg_blocks g ! i))] g) [0..<sg_block_count g]
              (g\<lparr>sg_blocks := map (\<lambda>b. b\<lparr>sb_loop_depth := 0, sb_loop_header := TURBOJS_SSA_NO_BLOCK\<rparr>) (sg_blocks g)\<rparr>)) (\<lambda>g.
            Inr (TURBOJS_IR_OK, Some g)))"

section \<open>From IR to the graph\<close>

text \<open>
  What reaches the block \<open>bi\<close> in a register: the value its predecessors agree on, or a phi of the first two
  predecessors where they do not. The table \<^verbatim>\<open>out\<close> has a row of 64 registers per block.
\<close>

definition merge_predecessors :: "u32 list list \<Rightarrow> nat \<Rightarrow> u32 list \<Rightarrow> (u32 \<times> bool) c" where
  "merge_predecessors out ri ps =
     foldc (\<lambda>pred (merged, conflict).
       bindc (rd out (unat pred)) (\<lambda>row. bindc (rd row ri) (\<lambda>v.
         if v = TURBOJS_SSA_NO_VALUE then Inr (merged, conflict)
         else if merged = TURBOJS_SSA_NO_VALUE then Inr (v, conflict)
         else if merged \<noteq> v then Inr (merged, True)
         else Inr (merged, conflict)))) ps (TURBOJS_SSA_NO_VALUE, False)"

definition merge_register ::
  "ssa_alloc \<Rightarrow> u32 list list \<Rightarrow> nat \<Rightarrow> nat \<Rightarrow> u32 list \<times> TurboJSSSAGraph \<Rightarrow> (u32 list \<times> TurboJSSSAGraph) c" where
  "merge_register A out bi ri = (\<lambda>(reg, g).
     (let b = sg_blocks g ! bi; ps = take (unat (sb_predecessor_count b)) (sb_predecessors b)
      in bindc (merge_predecessors out ri ps) (\<lambda>(merged, conflict).
           if conflict \<and> 2 \<le> sb_predecessor_count b then
             bindc (rd out (unat (ps ! 0))) (\<lambda>row0. bindc (rd row0 ri) (\<lambda>a.
             bindc (rd out (unat (ps ! 1))) (\<lambda>row1. bindc (rd row1 ri) (\<lambda>d.
               if a \<noteq> TURBOJS_SSA_NO_VALUE \<and> d \<noteq> TURBOJS_SSA_NO_VALUE then
                 bindc (rd (sg_values g) (unat a)) (\<lambda>va.
                 bindc (emit_value (al_values A) g bi TURBOJS_SSA_PHI (sv_type va) a d 0 (sb_first_instruction b)) (\<lambda>(m, g).
                   Inr (reg[ri := m], g)))
               else Inr (reg[ri := merged], g)))))
           else Inr (reg[ri := merged], g))))"

definition read_register :: "u32 list \<Rightarrow> u16 \<Rightarrow> u32" where
  "read_register reg r = (if unat r < TURBOJS_IR_MAX_REGISTERS then reg ! unat r else TURBOJS_SSA_NO_VALUE)"

definition is_transfer :: "TurboJSSSAOpcode \<Rightarrow> bool" where
  "is_transfer op \<longleftrightarrow> op = TURBOJS_SSA_RETURN \<or> op = TURBOJS_SSA_JUMP \<or> op = TURBOJS_SSA_BRANCH_TRUE \<or> op = TURBOJS_SSA_BRANCH_FALSE"

text \<open>One instruction; \<open>Inl\<close> is the exit for a failed reservation, with the graph as it is then.\<close>

definition build_instruction ::
  "ssa_alloc \<Rightarrow> TurboJSIRInstruction list \<Rightarrow> nat \<Rightarrow> nat \<Rightarrow> u32 list \<times> TurboJSSSAGraph \<Rightarrow> (TurboJSSSAGraph + u32 list \<times> TurboJSSSAGraph) c" where
  "build_instruction A code bi ii = (\<lambda>(reg, g).
     bindc (rd code ii) (\<lambda>ins.
       (let op = map_op (ins_opcode ins)
        in if op = TURBOJS_SSA_NOP then Inr (Inr (reg, g))
           else
             (let none = op = TURBOJS_SSA_ARGUMENT \<or> op = TURBOJS_SSA_CONSTANT_I64 \<or> op = TURBOJS_SSA_JUMP;
                  one = op = TURBOJS_SSA_BRANCH_TRUE \<or> op = TURBOJS_SSA_BRANCH_FALSE \<or> op = TURBOJS_SSA_RETURN;
                  left = (if none then TURBOJS_SSA_NO_VALUE else read_register reg (ins_left ins));
                  right = (if none \<or> one then TURBOJS_SSA_NO_VALUE else read_register reg (ins_right ins));
                  imm = (if ins_opcode ins = TURBOJS_IR_JUMP \<or> ins_opcode ins = TURBOJS_IR_BRANCH_TRUE \<or> ins_opcode ins = TURBOJS_IR_BRANCH_FALSE
                         then ucast (block_for_instruction g (ins_target ins)) else ins_immediate ins)
              in bindc (emit_value (al_values A) g bi op (type_for (ins_opcode ins)) left right imm (of_nat ii)) (\<lambda>(i, g).
                   if i = TURBOJS_SSA_NO_VALUE then Inr (Inl g)
                   else if unat (ins_destination ins) < TURBOJS_IR_MAX_REGISTERS \<and> \<not> is_transfer op
                   then Inr (Inr (reg[unat (ins_destination ins) := i], g))
                   else Inr (Inr (reg, g)))))))"

fun build_instructions ::
  "ssa_alloc \<Rightarrow> TurboJSIRInstruction list \<Rightarrow> nat \<Rightarrow> nat list \<Rightarrow> u32 list \<times> TurboJSSSAGraph \<Rightarrow> (TurboJSSSAGraph + u32 list \<times> TurboJSSSAGraph) c" where
  "build_instructions A code bi [] s = Inr (Inr s)"
| "build_instructions A code bi (ii # iis) s =
     bindc (build_instruction A code bi ii s) (\<lambda>r. case r of Inl g \<Rightarrow> Inr (Inl g) | Inr s \<Rightarrow> build_instructions A code bi iis s)"

definition build_block ::
  "ssa_alloc \<Rightarrow> TurboJSIRInstruction list \<Rightarrow> nat \<Rightarrow> u32 list list \<times> TurboJSSSAGraph \<Rightarrow> (TurboJSSSAGraph + u32 list list \<times> TurboJSSSAGraph) c" where
  "build_block A code bi = (\<lambda>(out, g).
     bindc (foldc (\<lambda>ri. merge_register A out bi ri) [0..<TURBOJS_IR_MAX_REGISTERS] (replicate TURBOJS_IR_MAX_REGISTERS TURBOJS_SSA_NO_VALUE, g)) (\<lambda>(reg, g).
       (let g1 = update_block g bi (\<lambda>b. b\<lparr>sb_first_value := of_nat (sg_value_count g) - sb_value_count b\<rparr>);
            b = sg_blocks g1 ! bi
        in bindc (build_instructions A code bi [unat (sb_first_instruction b)..<unat (sb_first_instruction b + sb_instruction_count b)] (reg, g1)) (\<lambda>r.
             Inr (case r of Inl g \<Rightarrow> Inl g | Inr (reg, g) \<Rightarrow> Inr (out[bi := reg], g))))))"

fun build_values ::
  "ssa_alloc \<Rightarrow> TurboJSIRInstruction list \<Rightarrow> nat list \<Rightarrow> u32 list list \<times> TurboJSSSAGraph \<Rightarrow> (TurboJSSSAGraph + u32 list list \<times> TurboJSSSAGraph) c" where
  "build_values A code [] s = Inr (Inr s)"
| "build_values A code (bi # bis) s =
     bindc (build_block A code bi s) (\<lambda>r. case r of Inl g \<Rightarrow> Inr (Inl g) | Inr s \<Rightarrow> build_values A code bis s)"

text \<open>The analyses at the end; the statuses of the dominator analyses are not looked at.\<close>

definition finish_graph :: "ssa_alloc \<Rightarrow> TurboJSSSAGraph \<Rightarrow> TurboJSIRDiagnostic ptr \<Rightarrow> (TurboJSIRStatus \<times> TurboJSSSAGraph ptr \<times> TurboJSIRDiagnostic ptr) c option" where
  "finish_graph A g d =
     (case mark_reachable g of
        Inl e \<Rightarrow> Some (Inl e)
      | Inr g1 \<Rightarrow>
          (case TurboJS_SSAComputeDominators (al_dominators A) (Some g1) of
             None \<Rightarrow> None
           | Some (Inl e) \<Rightarrow> Some (Inl e)
           | Some (Inr (_, g2)) \<Rightarrow>
               (case TurboJS_SSAComputeDominanceFrontiers g2 of
                  None \<Rightarrow> None
                | Some (Inl e) \<Rightarrow> Some (Inl e)
                | Some (Inr (_, g3)) \<Rightarrow>
                    Some (bindc (TurboJS_SSADetectLoops g3) (\<lambda>(_, g4).
                      if TurboJS_SSAVerify g4 then Inr (TURBOJS_IR_OK, g4, d)
                      else Inr (TURBOJS_IR_INVALID_TARGET, g4,
                        snd (fail d TURBOJS_IR_INVALID_TARGET 0 ''invalid SSA control-flow graph'')))))))"

definition TurboJS_SSABuildFromIR ::
  "ssa_alloc \<Rightarrow> TurboJSIRFunction ptr \<Rightarrow> TurboJSSSAGraph ptr \<Rightarrow> TurboJSIRDiagnostic ptr
     \<Rightarrow> (TurboJSIRStatus \<times> TurboJSSSAGraph ptr \<times> TurboJSIRDiagnostic ptr) c option" where
  "TurboJS_SSABuildFromIR A function graph d =
     (case (function, graph) of
        (Some f, Some _) \<Rightarrow>
          (case build_blocks A f (the (TurboJS_SSAGraphInit (TurboJS_SSAGraphDestroy graph))) of
             Inl e \<Rightarrow> Some (Inl e)
           | Inr (ok, g) \<Rightarrow>
               if \<not> ok \<or> \<not> al_out A then Some (Inr (TURBOJS_IR_OUT_OF_MEMORY, Some g, d))
               else
                 (case build_values A (irf_code f) [0..<sg_block_count g]
                         (replicate (sg_block_count g) (replicate TURBOJS_IR_MAX_REGISTERS TURBOJS_SSA_NO_VALUE), g) of
                    Inl e \<Rightarrow> Some (Inl e)
                  | Inr (Inl g) \<Rightarrow> Some (Inr (TURBOJS_IR_OUT_OF_MEMORY, Some g, d))
                  | Inr (Inr (_, g)) \<Rightarrow> finish_graph A g d))
      | _ \<Rightarrow> Some (Inr (TURBOJS_IR_INVALID_ARGUMENT, graph, d)))"

section \<open>Lowering\<close>

text \<open>The exits of \<^verbatim>\<open>lower_graph\<close>: its two labels.\<close>

datatype lower_exit = Lower_oom | Lower_unsupported

definition mapped :: "u16 list \<Rightarrow> u32 \<Rightarrow> u16" where
  "mapped m i = (if unat i < TURBOJS_IR_MAX_REGISTERS then m ! unat i else TURBOJS_IR_NO_REGISTER)"

definition blank_instruction :: "u32 \<Rightarrow> TurboJSIRInstruction" where
  "blank_instruction offset = \<lparr>ins_opcode = TURBOJS_IR_NOP, ins_destination = TURBOJS_IR_NO_REGISTER, ins_left = TURBOJS_IR_NO_REGISTER,
     ins_right = TURBOJS_IR_NO_REGISTER, ins_immediate = 0, ins_target = 0, ins_bytecode_offset = offset\<rparr>"

text \<open>A value that gets a register: the register is allocated, then recorded under the id of the value.\<close>

definition lower_result ::
  "(nat \<Rightarrow> bool) \<Rightarrow> TurboJSSSAValue \<Rightarrow> TurboJSIRInstruction \<Rightarrow> u16 list \<times> TurboJSIRFunction \<Rightarrow> (lower_exit + u16 list \<times> TurboJSIRFunction) c" where
  "lower_result ok v ins = (\<lambda>(m, out).
     (case TurboJS_IRAllocateRegister (Some out) of (dst, f1) \<Rightarrow>
        if dst = TURBOJS_IR_NO_REGISTER then Inr (Inl Lower_oom)
        else bindc (wr m (unat (sv_id v)) dst) (\<lambda>m.
               (case TurboJS_IREmit (ok (irf_instruction_count out)) f1 (ins\<lparr>ins_destination := dst\<rparr>) of (st, f2) \<Rightarrow>
                  if st \<noteq> TURBOJS_IR_OK then Inr (Inl Lower_oom) else Inr (Inr (m, the f2))))))"

definition lower_value ::
  "(nat \<Rightarrow> bool) \<Rightarrow> TurboJSSSAValue \<Rightarrow> u16 list \<times> TurboJSIRFunction \<Rightarrow> (lower_exit + u16 list \<times> TurboJSIRFunction) c" where
  "lower_value ok v = (\<lambda>(m, out).
     (let ins = blank_instruction (sv_source_instruction v); l = mapped m (sv_left v); r = mapped m (sv_right v)
      in if sv_removed v \<or> sv_opcode v = TURBOJS_SSA_NOP \<or> sv_opcode v = TURBOJS_SSA_GUARD_INT32 then Inr (Inr (m, out))
         else (case sv_opcode v of
             TURBOJS_SSA_ARGUMENT \<Rightarrow>
               lower_result ok v (ins\<lparr>ins_opcode := TURBOJS_IR_ARGUMENT, ins_immediate := sv_immediate v\<rparr>) (m, out)
           | TURBOJS_SSA_CONSTANT_I64 \<Rightarrow>
               lower_result ok v (ins\<lparr>ins_opcode := TURBOJS_IR_CONSTANT_I64, ins_immediate := sv_immediate v\<rparr>) (m, out)
           | TURBOJS_SSA_ADD_I64 \<Rightarrow>
               if l = TURBOJS_IR_NO_REGISTER \<or> r = TURBOJS_IR_NO_REGISTER then Inr (Inl Lower_unsupported)
               else lower_result ok v (ins\<lparr>ins_opcode := TURBOJS_IR_ADD_I64, ins_left := l, ins_right := r\<rparr>) (m, out)
           | TURBOJS_SSA_SUB_I64 \<Rightarrow>
               if l = TURBOJS_IR_NO_REGISTER \<or> r = TURBOJS_IR_NO_REGISTER then Inr (Inl Lower_unsupported)
               else lower_result ok v (ins\<lparr>ins_opcode := TURBOJS_IR_SUB_I64, ins_left := l, ins_right := r\<rparr>) (m, out)
           | TURBOJS_SSA_MUL_I64 \<Rightarrow>
               if l = TURBOJS_IR_NO_REGISTER \<or> r = TURBOJS_IR_NO_REGISTER then Inr (Inl Lower_unsupported)
               else lower_result ok v (ins\<lparr>ins_opcode := TURBOJS_IR_MUL_I64, ins_left := l, ins_right := r\<rparr>) (m, out)
           | TURBOJS_SSA_LESS_THAN_I64 \<Rightarrow>
               if l = TURBOJS_IR_NO_REGISTER \<or> r = TURBOJS_IR_NO_REGISTER then Inr (Inl Lower_unsupported)
               else lower_result ok v (ins\<lparr>ins_opcode := TURBOJS_IR_LESS_THAN_I64, ins_left := l, ins_right := r\<rparr>) (m, out)
           | TURBOJS_SSA_RETURN \<Rightarrow>
               if l = TURBOJS_IR_NO_REGISTER then Inr (Inl Lower_unsupported)
               else (case TurboJS_IREmit (ok (irf_instruction_count out)) (Some out) (ins\<lparr>ins_opcode := TURBOJS_IR_RETURN_I64, ins_left := l\<rparr>) of (st, f) \<Rightarrow>
                      if st \<noteq> TURBOJS_IR_OK then Inr (Inl Lower_oom) else Inr (Inr (m, the f)))
           | _ \<Rightarrow> Inr (Inl Lower_unsupported))))"

text \<open>The loop over the values; an exit carries the index, for the diagnostic, and the function to destroy.\<close>

fun lower_values ::
  "(nat \<Rightarrow> bool) \<Rightarrow> nat \<Rightarrow> TurboJSSSAValue list \<Rightarrow> u16 list \<times> TurboJSIRFunction \<Rightarrow> (lower_exit \<times> nat + TurboJSIRFunction) c" where
  "lower_values ok i [] (m, out) = Inr (Inr out)"
| "lower_values ok i (v # vs) s =
     bindc (lower_value ok v s) (\<lambda>r. case r of Inl e \<Rightarrow> Inr (Inl (e, i)) | Inr s \<Rightarrow> lower_values ok (i + 1) vs s)"

definition lower_graph ::
  "(nat \<Rightarrow> bool) \<Rightarrow> jit_heap \<Rightarrow> u64 \<Rightarrow> TurboJSSSAGraph ptr \<Rightarrow> u16 \<Rightarrow> TurboJSIRFunction ptr \<Rightarrow> TurboJSIRDiagnostic ptr
     \<Rightarrow> (TurboJSIRStatus \<times> TurboJSIRFunction ptr \<times> TurboJSIRDiagnostic ptr \<times> u64) c" where
  "lower_graph ok H next_id graph argument_count out d =
     (case (graph, out) of
        (Some g, Some _) \<Rightarrow>
          if sg_block_count g \<noteq> 1
          then (case fail d TURBOJS_IR_UNSUPPORTED 0 ''optimizing native lowering currently requires one reachable block'' of (st, d) \<Rightarrow>
                  Inr (st, out, d, next_id))
          else
            (case TurboJS_IRFunctionInit next_id out argument_count of (f0, next_id) \<Rightarrow>
               bindc (lower_values ok 0 (sg_values g) (replicate TURBOJS_IR_MAX_REGISTERS TURBOJS_IR_NO_REGISTER, the f0)) (\<lambda>r.
                 case r of
                   Inl (Lower_oom, i) \<Rightarrow>
                     (case fail d TURBOJS_IR_OUT_OF_MEMORY i ''optimized lowering allocation failed'' of (st, d) \<Rightarrow> Inr (st, Some null_function, d, next_id))
                 | Inl (Lower_unsupported, i) \<Rightarrow>
                     (case fail d TURBOJS_IR_UNSUPPORTED i ''SSA operation requires future optimized CFG lowering'' of (st, d) \<Rightarrow>
                        Inr (st, Some null_function, d, next_id))
                 | Inr f \<Rightarrow> bindc (TurboJS_IRVerify H (Some f) d) (\<lambda>(st, d). Inr (st, Some f, d, next_id))))
      | _ \<Rightarrow> (case fail d TURBOJS_IR_UNSUPPORTED 0 ''optimizing native lowering currently requires one reachable block'' of (st, d) \<Rightarrow>
               Inr (st, out, d, next_id)))"

section \<open>Loops\<close>

lemma foldc_invariant:
  assumes "\<And>x s. x \<in> set xs \<Longrightarrow> P s \<Longrightarrow> \<exists>s'. f x s = Inr s' \<and> P s'" "P s"
  shows "\<exists>s'. foldc f xs s = Inr s' \<and> P s'"
  using assms
proof (induction xs arbitrary: s)
  case (Cons x xs)
  then obtain s1 where "f x s = Inr s1" "P s1" by (meson list.set_intros(1))
  then show ?case using Cons.IH [of s1] Cons.prems(1) by (auto simp: bindc_def)
qed simp

lemma foldc_skip: "(\<And>x. x \<in> set xs \<Longrightarrow> f x s = Inr s) \<Longrightarrow> foldc f xs s = Inr s"
  by (induction xs) (simp_all add: bindc_def)

section \<open>Graphs of one block\<close>

lemma unedged_registers:
  assumes "sb_predecessor_count (sg_blocks g ! bi) = 0" "length reg = n" "\<forall>r\<in>set reg. r = TURBOJS_SSA_NO_VALUE"
  shows "foldc (\<lambda>ri. merge_register A out bi ri) ris (reg, g) = Inr (reg, g)"
proof (induction ris)
  case (Cons ri ris)
  have "reg[ri := TURBOJS_SSA_NO_VALUE] = reg"
    using assms(3) by (cases "ri < length reg") (simp_all add: list_update_same_conv list_update_beyond)
  then show ?case
    using Cons assms(1) by (simp add: merge_register_def merge_predecessors_def bindc_def Let_def)
qed simp

text \<open>A block without edges: the analyses only mark it as the reachable entry.\<close>

definition lone_block :: "TurboJSSSABlock \<Rightarrow> bool" where
  "lone_block b \<longleftrightarrow> sb_id b = 0 \<and> sb_predecessor_count b = 0 \<and> sb_successor_count b = 0"

definition finished_block :: "TurboJSSSABlock \<Rightarrow> TurboJSSSABlock" where
  "finished_block b = b\<lparr>sb_reachable := True, sb_immediate_dominator := TURBOJS_SSA_NO_BLOCK, sb_dominance_frontier_mask := 0,
     sb_loop_depth := 0, sb_loop_header := TURBOJS_SSA_NO_BLOCK\<rparr>"

lemma finish_lone_graph:
  assumes g: "sg_blocks g = [b]" "lone_block b" "sg_entry_block g = 0" and A: "al_dominators A"
    and vals: "list_all (\<lambda>i. ssa_value_ok g i (sg_values g ! i)) [0..<sg_value_count g]"
  shows "finish_graph A g d = Some (Inr (TURBOJS_IR_OK, Some (g\<lparr>sg_blocks := [finished_block b]\<rparr>), d))"
proof -
  define g1 where "g1 = g\<lparr>sg_blocks := [b\<lparr>sb_reachable := True\<rparr>]\<rparr>"
  have g1: "sg_blocks g1 = [b\<lparr>sb_reachable := True\<rparr>]" "sg_entry_block g1 = 0" "sg_values g1 = sg_values g"
    using g(3) by (simp_all add: g1_def)
  have reach: "mark_reachable g = Inr g1"
    using g by (simp add: mark_reachable_def rd_def bindc_def Let_def update_block_def lone_block_def numeral_eq_Suc g1_def)
  have ready: "dom_ready g1"
    using g(2) by (simp add: dom_ready_def g1 preds_def lone_block_def)
  obtain doms where "dom_loop g1 = Some (Inr (doms, False))"
    using dom_loop_exact [OF ready] by blast
  then have dominators: "TurboJS_SSAComputeDominators True (Some g1) =
      Some (Inr (TURBOJS_IR_OK, Some (g1\<lparr>sg_blocks := [b\<lparr>sb_reachable := True, sb_immediate_dominator := TURBOJS_SSA_NO_BLOCK\<rparr>]\<rparr>)))"
    by (simp add: TurboJS_SSAComputeDominators_def g1 bindc_def Let_def)
  let ?g4 = "g\<lparr>sg_blocks := [finished_block b]\<rparr>"
  have "ssa_value_ok ?g4 i v \<longleftrightarrow> ssa_value_ok g i v" for i v
    using g(1) by (simp add: ssa_value_ok_def)
  then have verify: "TurboJS_SSAVerify (Some ?g4)"
    using g vals by (simp add: TurboJS_SSAVerify_def ssa_block_ok_def lone_block_def finished_block_def)
  have "finish_graph A g d = Some (bindc (TurboJS_SSADetectLoops (Some (g1\<lparr>sg_blocks := [b\<lparr>sb_reachable := True,
      sb_immediate_dominator := TURBOJS_SSA_NO_BLOCK, sb_dominance_frontier_mask := 0\<rparr>]\<rparr>))) (\<lambda>(_, g4).
        if TurboJS_SSAVerify g4 then Inr (TURBOJS_IR_OK, g4, d)
        else Inr (TURBOJS_IR_INVALID_TARGET, g4, snd (fail d TURBOJS_IR_INVALID_TARGET 0 ''invalid SSA control-flow graph''))))"
    using A g(2) by (simp add: finish_graph_def reach dominators TurboJS_SSAComputeDominanceFrontiers_def bindc_def lone_block_def)
  also have "\<dots> = Some (Inr (TURBOJS_IR_OK, Some ?g4, d))"
    using verify g(2) by (simp add: TurboJS_SSADetectLoops_def bindc_def lone_block_def finished_block_def g1_def)
  finally show ?thesis .
qed

end
