(* ===== verification/SSA_Opt.thy ===== *)
theory SSA_Opt
  imports SSA_Build Feedback
begin

text \<open>
  The optimizer of the SSA graphs, \<^verbatim>\<open>TurboJS_SSAOptimize\<close> of \<^verbatim>\<open>src/jit/optimizing/ssa.c\<close>, with all of its passes:
  type inference, folding of constants and branches, common subexpressions, scalar replacement of virtual
  objects, elimination and forwarding of property stores and loads, element loads, loop ranges, guards, unreachable
  blocks and dead values; and the specialization of arguments from feedback.

  A loop with an early exit is a \<open>scan\<close>. A walk along a chain of blocks or values is given as many steps as there are
  blocks or values: a longer walk has come back to where it was and never ends, which is the fault \<open>Fault_loop\<close>.
\<close>

section \<open>Loops\<close>

datatype 's loop = Go 's | Halt 's

fun scan :: "('a \<Rightarrow> 's \<Rightarrow> 's loop c) \<Rightarrow> 'a list \<Rightarrow> 's \<Rightarrow> 's c" where
  "scan f [] s = Inr s"
| "scan f (x # xs) s = bindc (f x s) (\<lambda>r. case r of Go s \<Rightarrow> scan f xs s | Halt s \<Rightarrow> Inr s)"

fun allc :: "('a \<Rightarrow> bool c) \<Rightarrow> 'a list \<Rightarrow> bool c" where
  "allc P [] = Inr True"
| "allc P (x # xs) = bindc (P x) (\<lambda>b. if b then allc P xs else Inr False)"

fun anyc :: "('a \<Rightarrow> bool c) \<Rightarrow> 'a list \<Rightarrow> bool c" where
  "anyc P [] = Inr False"
| "anyc P (x # xs) = bindc (P x) (\<lambda>b. if b then Inr True else anyc P xs)"

definition andc :: "bool c \<Rightarrow> bool c \<Rightarrow> bool c" where
  "andc a b = bindc a (\<lambda>x. if x then b else Inr False)"

section \<open>Types\<close>

definition merge_numeric_type :: "TurboJSSSAType \<Rightarrow> TurboJSSSAType \<Rightarrow> TurboJSSSAType" where
  "merge_numeric_type left right =
     (if left = TURBOJS_SSA_TYPE_UNKNOWN \<or> right = TURBOJS_SSA_TYPE_UNKNOWN then TURBOJS_SSA_TYPE_UNKNOWN
      else if left = TURBOJS_SSA_TYPE_FLOAT64 \<or> right = TURBOJS_SSA_TYPE_FLOAT64 then TURBOJS_SSA_TYPE_FLOAT64
      else if left = TURBOJS_SSA_TYPE_INT64 \<or> right = TURBOJS_SSA_TYPE_INT64 then TURBOJS_SSA_TYPE_INT64
      else if left = TURBOJS_SSA_TYPE_INT32 \<and> right = TURBOJS_SSA_TYPE_INT32 then TURBOJS_SSA_TYPE_INT32
      else TURBOJS_SSA_TYPE_UNKNOWN)"

definition compare_ops :: "TurboJSSSAOpcode set" where
  "compare_ops = {TURBOJS_SSA_LESS_THAN_I64, TURBOJS_SSA_LESS_EQUAL_I64, TURBOJS_SSA_GREATER_THAN_I64, TURBOJS_SSA_GREATER_EQUAL_I64,
     TURBOJS_SSA_EQUAL_I64}"

definition integer_ops :: "TurboJSSSAOpcode set" where
  "integer_ops = {TURBOJS_SSA_ADD_I64, TURBOJS_SSA_SUB_I64, TURBOJS_SSA_MUL_I64, TURBOJS_SSA_AND_I64, TURBOJS_SSA_OR_I64,
     TURBOJS_SSA_XOR_I64, TURBOJS_SSA_SHL_I64, TURBOJS_SSA_SAR_I64, TURBOJS_SSA_SHR_I64}"

definition inferred_type :: "TurboJSSSAValue list \<Rightarrow> TurboJSSSAValue \<Rightarrow> TurboJSSSAType" where
  "inferred_type vs v =
     (let op = sv_opcode v; known = unat (sv_left v) < length vs \<and> unat (sv_right v) < length vs;
          l = sv_type (vs ! unat (sv_left v)); r = sv_type (vs ! unat (sv_right v))
      in if op = TURBOJS_SSA_CONSTANT_I64 then
           (if INT32_MIN \<le> sint (sv_immediate v) \<and> sint (sv_immediate v) \<le> INT32_MAX then TURBOJS_SSA_TYPE_INT32 else TURBOJS_SSA_TYPE_INT64)
         else if op \<in> compare_ops \<or> op = TURBOJS_SSA_BRANCH_TRUE \<or> op = TURBOJS_SSA_BRANCH_FALSE then TURBOJS_SSA_TYPE_BOOLEAN
         else if op = TURBOJS_SSA_GUARD_INT32 then TURBOJS_SSA_TYPE_INT32
         else if op = TURBOJS_SSA_VIRTUAL_OBJECT \<or> op = TURBOJS_SSA_VIRTUAL_FIELD_STORE then TURBOJS_SSA_TYPE_REFERENCE
         else if op \<in> integer_ops then (if known then merge_numeric_type l r else sv_type v)
         else if op = TURBOJS_SSA_PHI then (if known then (if l = r then l else merge_numeric_type l r) else sv_type v)
         else sv_type v)"

definition infer_value :: "nat \<Rightarrow> TurboJSSSAValue list \<times> bool \<times> u32 \<Rightarrow> TurboJSSSAValue list \<times> bool \<times> u32" where
  "infer_value i = (\<lambda>(vs, changed, changes).
     (let v = vs ! i; inferred = inferred_type vs v
      in if sv_removed v then (vs, changed, changes)
         else if inferred \<noteq> TURBOJS_SSA_TYPE_UNKNOWN \<and> inferred \<noteq> sv_type v then (vs[i := v\<lparr>sv_type := inferred\<rparr>], True, changes + 1)
         else (vs, changed, changes)))"

definition infer_pass :: "TurboJSSSAValue list \<Rightarrow> u32 \<Rightarrow> TurboJSSSAValue list \<times> bool \<times> u32" where
  "infer_pass vs changes = fold infer_value [0..<length vs] (vs, False, changes)"

definition infer_loop :: "TurboJSSSAValue list \<Rightarrow> (TurboJSSSAValue list \<times> bool \<times> u32) option" where
  "infer_loop vs = while_option (\<lambda>(vs, changed, changes). changed) (\<lambda>(vs, changed, changes). infer_pass vs changes) (infer_pass vs 0)"

definition TurboJS_SSAInferTypes :: "TurboJSSSAGraph ptr \<Rightarrow> (u32 \<times> TurboJSSSAGraph ptr) c" where
  "TurboJS_SSAInferTypes graph =
     (case graph of
        None \<Rightarrow> Inr (0, None)
      | Some g \<Rightarrow>
          (case infer_loop (sg_values g) of
             None \<Rightarrow> Inl Fault_loop
           | Some (vs, _, changes) \<Rightarrow> Inr (changes, Some (g\<lparr>sg_values := vs\<rparr>))))"

section \<open>Expressions\<close>

definition cse_candidate :: "TurboJSSSAValue \<Rightarrow> bool" where
  "cse_candidate v \<longleftrightarrow> sv_opcode v \<in> insert TURBOJS_SSA_CONSTANT_I64 (integer_ops \<union> compare_ops)"

definition same_expression :: "TurboJSSSAValue \<Rightarrow> TurboJSSSAValue \<Rightarrow> bool" where
  "same_expression a b \<longleftrightarrow> sv_opcode a = sv_opcode b \<and> sv_type a = sv_type b \<and> sv_left a = sv_left b \<and> sv_right a = sv_right b \<and>
     sv_immediate a = sv_immediate b \<and> sv_block a = sv_block b"

text \<open>The values with every use of \<open>from\<close> turned into a use of \<open>to\<close>, and the number of uses that were turned.\<close>

definition redirect :: "u32 \<Rightarrow> u32 \<Rightarrow> TurboJSSSAValue \<Rightarrow> TurboJSSSAValue" where
  "redirect from to v =
     (if sv_removed v then v
      else v\<lparr>sv_left := (if sv_left v = from then to else sv_left v), sv_right := (if sv_right v = from then to else sv_right v)\<rparr>)"

definition replace_value_uses :: "TurboJSSSAGraph \<Rightarrow> u32 \<Rightarrow> u32 \<Rightarrow> TurboJSSSAGraph c" where
  "replace_value_uses g from to =
     (let vs = map (redirect from to) (sg_values g); replacements = of_nat (sum_list (map (uses_of from) (sg_values g)))
      in bindc (rd vs (unat to)) (\<lambda>t.
           (let vs = vs[unat to := t\<lparr>sv_use_count := sv_use_count t + replacements\<rparr>]
            in bindc (rd vs (unat from)) (\<lambda>f. Inr (g\<lparr>sg_values := vs[unat from := f\<lparr>sv_use_count := 0\<rparr>]\<rparr>)))))"

definition update_value :: "nat \<Rightarrow> (TurboJSSSAValue \<Rightarrow> TurboJSSSAValue) \<Rightarrow> TurboJSSSAGraph \<Rightarrow> TurboJSSSAGraph" where
  "update_value i h g = g\<lparr>sg_values := (sg_values g)[i := h (sg_values g ! i)]\<rparr>"

abbreviation remove_value :: "nat \<Rightarrow> TurboJSSSAGraph \<Rightarrow> TurboJSSSAGraph" where
  "remove_value i \<equiv> update_value i (\<lambda>v. v\<lparr>sv_removed := True\<rparr>)"

text \<open>The guarded decrement of the use changes of an operand.\<close>

definition drop_use :: "u32 \<Rightarrow> TurboJSSSAGraph \<Rightarrow> TurboJSSSAGraph" where
  "drop_use i g =
     (if unat i < sg_value_count g \<and> sv_use_count (sg_values g ! unat i) \<noteq> 0
      then update_value (unat i) (\<lambda>v. v\<lparr>sv_use_count := sv_use_count v - 1\<rparr>) g else g)"

text \<open>
  One value of \<^verbatim>\<open>eliminate_local_common_expressions\<close>: the first earlier value with the same expression replaces it. The
  pass for guards has the same shape.
\<close>

definition eliminate_with :: "(TurboJSSSAValue \<Rightarrow> bool) \<Rightarrow> (TurboJSSSAValue \<Rightarrow> TurboJSSSAValue \<Rightarrow> bool) \<Rightarrow> nat \<Rightarrow> u32 \<times> TurboJSSSAGraph \<Rightarrow> (u32 \<times> TurboJSSSAGraph) c" where
  "eliminate_with candidate same i = (\<lambda>(eliminated, g).
     (let v = sg_values g ! i
      in if sv_removed v \<or> \<not> candidate v then Inr (eliminated, g)
         else (case List.find (\<lambda>j. (let prior = sg_values g ! j in \<not> sv_removed prior \<and> candidate prior \<and> same prior v)) [0..<i] of
                 None \<Rightarrow> Inr (eliminated, g)
               | Some j \<Rightarrow> bindc (replace_value_uses g (of_nat i) (of_nat j)) (\<lambda>g. Inr (eliminated + 1, remove_value i g)))))"

definition eliminate_local_common_expressions :: "TurboJSSSAGraph \<Rightarrow> (u32 \<times> TurboJSSSAGraph) c" where
  "eliminate_local_common_expressions g = foldc (eliminate_with cse_candidate same_expression) [0..<sg_value_count g] (0, g)"

definition eliminate_redundant_guards :: "TurboJSSSAGraph \<Rightarrow> (u32 \<times> TurboJSSSAGraph) c" where
  "eliminate_redundant_guards g =
     foldc (eliminate_with (\<lambda>v. sv_opcode v = TURBOJS_SSA_GUARD_INT32) (\<lambda>prior v. sv_block prior = sv_block v \<and> sv_left prior = sv_left v))
       [0..<sg_value_count g] (0, g)"

section \<open>Property accesses\<close>

definition TURBOJS_PROPERTY_FEEDBACK_LOAD :: u16 where "TURBOJS_PROPERTY_FEEDBACK_LOAD = 1"
definition TURBOJS_PROPERTY_FEEDBACK_STORE :: u16 where "TURBOJS_PROPERTY_FEEDBACK_STORE = 2"
definition TURBOJS_PROPERTY_FEEDBACK_WRITABLE :: u16 where "TURBOJS_PROPERTY_FEEDBACK_WRITABLE = 4"
definition TURBOJS_PROPERTY_FEEDBACK_OWN_DATA :: u16 where "TURBOJS_PROPERTY_FEEDBACK_OWN_DATA = 8"

definition same_entry :: "'a list \<Rightarrow> 'a list \<Rightarrow> nat \<Rightarrow> bool c" where
  "same_entry xs ys i = bindc (rd xs i) (\<lambda>x. bindc (rd ys i) (\<lambda>y. Inr (x = y)))"

definition same_slot :: "TurboJSSSAProperty \<Rightarrow> TurboJSSSAProperty \<Rightarrow> nat \<Rightarrow> bool c" where
  "same_slot a b i = andc (same_entry (pv_shapes a) (pv_shapes b) i)
     (andc (same_entry (pv_indices a) (pv_indices b) i) (same_entry (pv_generations a) (pv_generations b) i))"

definition same_layout :: "TurboJSSSAProperty \<Rightarrow> TurboJSSSAProperty \<Rightarrow> (nat \<Rightarrow> bool c) \<Rightarrow> bool c" where
  "same_layout a b P =
     (if pv_case_count a \<noteq> pv_case_count b \<or> pv_metadata a \<noteq> pv_metadata b then Inr False
      else allc P [0..<unat (pv_case_count a)])"

definition same_property_cases :: "TurboJSSSAValue \<Rightarrow> TurboJSSSAValue \<Rightarrow> bool c" where
  "same_property_cases v w =
     (let a = sv_property v; b = sv_property w
      in same_layout a b (\<lambda>i. andc (same_slot a b i) (same_entry (pv_case_flags a) (pv_case_flags b) i)))"

definition same_property_slot_identity :: "TurboJSSSAValue \<Rightarrow> TurboJSSSAValue \<Rightarrow> bool c" where
  "same_property_slot_identity v w = (let a = sv_property v; b = sv_property w in same_layout a b (same_slot a b))"

definition same_property_location :: "TurboJSSSAValue \<Rightarrow> TurboJSSSAValue \<Rightarrow> bool c" where
  "same_property_location v w =
     (let a = sv_property v; b = sv_property w
      in same_layout a b (\<lambda>i. andc (same_slot a b i)
           (bindc (rd (pv_case_flags a) i) (\<lambda>x. bindc (rd (pv_case_flags b) i) (\<lambda>y.
              Inr (x AND TURBOJS_PROPERTY_FEEDBACK_WRITABLE \<noteq> 0 \<and> y AND TURBOJS_PROPERTY_FEEDBACK_LOAD \<noteq> 0))))))"

definition property_alias_class_known :: "TurboJSSSAValue \<Rightarrow> bool" where
  "property_alias_class_known v \<longleftrightarrow> pv_metadata (sv_property v) \<noteq> 0 \<and> pv_case_count (sv_property v) \<noteq> 0"

definition some_pair :: "TurboJSSSAProperty \<Rightarrow> TurboJSSSAProperty \<Rightarrow> (nat \<Rightarrow> nat \<Rightarrow> bool c) \<Rightarrow> bool c" where
  "some_pair a b P = anyc (\<lambda>i. anyc (P i) [0..<unat (pv_case_count b)]) [0..<unat (pv_case_count a)]"

text \<open>The search for a common slot ends in the same answer whether it finds one or not.\<close>

definition same_property_alias_class :: "TurboJSSSAValue \<Rightarrow> TurboJSSSAValue \<Rightarrow> bool c" where
  "same_property_alias_class v w =
     (let a = sv_property v; b = sv_property w
      in if \<not> property_alias_class_known v \<or> \<not> property_alias_class_known w \<or> pv_metadata a \<noteq> pv_metadata b then Inr False
         else bindc (some_pair a b (\<lambda>i j. bindc (rd (pv_shapes a) i) (\<lambda>s. bindc (rd (pv_shapes b) j) (\<lambda>t.
                if s \<noteq> t then Inr False
                else bindc (rd (pv_indices a) i) (\<lambda>x. bindc (rd (pv_indices b) j) (\<lambda>y. Inr (x = y))))))) (\<lambda>_. Inr True))"

definition property_store_may_alias :: "TurboJSSSAValue \<Rightarrow> TurboJSSSAValue \<Rightarrow> bool c" where
  "property_store_may_alias st ld =
     (let a = sv_property st; b = sv_property ld
      in if sv_opcode st \<noteq> TURBOJS_SSA_PROPERTY_STORE then Inr False
         else if property_alias_class_known st \<and> property_alias_class_known ld \<and> pv_metadata a \<noteq> pv_metadata b then Inr False
         else if sv_left st = sv_left ld then Inr True
         else if pv_case_count a = 0 \<or> pv_case_count b = 0 then Inr True
         else some_pair a b (\<lambda>i j. bindc (rd (pv_shapes a) i) (\<lambda>s. bindc (rd (pv_shapes b) j) (\<lambda>t. Inr (s = t)))))"

definition property_count_non_aliasing_stores :: "TurboJSSSAGraph \<Rightarrow> nat \<Rightarrow> nat \<Rightarrow> TurboJSSSAValue \<Rightarrow> u32 c" where
  "property_count_non_aliasing_stores g first upto_end ld =
     (if sg_value_count g \<le> first then Inr 0
      else foldc (\<lambda>i n. (let v = sg_values g ! i
             in if \<not> sv_removed v \<and> sv_opcode v = TURBOJS_SSA_PROPERTY_STORE \<and> property_alias_class_known v \<and> property_alias_class_known ld
                then bindc (property_store_may_alias v ld) (\<lambda>b. Inr (if b then n else n + 1)) else Inr n))
           [first..<min upto_end (sg_value_count g)] 0)"

text \<open>The walk up the immediate dominators.\<close>

fun dominates_walk :: "nat \<Rightarrow> TurboJSSSAGraph \<Rightarrow> u32 \<Rightarrow> u32 \<Rightarrow> bool c" where
  "dominates_walk 0 g dominator cursor = Inl Fault_loop"
| "dominates_walk (Suc n) g dominator cursor =
     (if cursor = TURBOJS_SSA_NO_BLOCK then Inr False
      else if cursor = dominator then Inr True
      else bindc (rd (sg_blocks g) (unat cursor)) (\<lambda>b. dominates_walk n g dominator (sb_immediate_dominator b)))"

definition block_dominates :: "TurboJSSSAGraph \<Rightarrow> u32 \<Rightarrow> u32 \<Rightarrow> bool c" where
  "block_dominates g dominator block =
     (if sg_block_count g \<le> unat dominator \<or> sg_block_count g \<le> unat block then Inr False
      else dominates_walk (sg_block_count g + 1) g dominator block)"

text \<open>Whether a store that may alias lies between two indices; \<open>li\<close> is the index of the load itself.\<close>

definition aliasing_store_between :: "TurboJSSSAGraph \<Rightarrow> nat \<Rightarrow> nat \<Rightarrow> nat \<Rightarrow> bool c" where
  "aliasing_store_between g li first upto_end =
     anyc (\<lambda>i. (let v = sg_values g ! i
        in if \<not> sv_removed v \<and> i \<noteq> li \<and> sv_opcode v = TURBOJS_SSA_PROPERTY_STORE then property_store_may_alias v (sg_values g ! li) else Inr False))
       [first..<upto_end]"

definition block_end :: "TurboJSSSAGraph \<Rightarrow> TurboJSSSABlock \<Rightarrow> nat" where
  "block_end g b = min (unat (sb_first_value b + sb_value_count b)) (sg_value_count g)"

fun unique_path_walk :: "nat \<Rightarrow> TurboJSSSAGraph \<Rightarrow> u32 \<Rightarrow> u32 \<Rightarrow> nat \<Rightarrow> u32 \<Rightarrow> bool c" where
  "unique_path_walk 0 g prior_block load_block li cursor = Inl Fault_loop"
| "unique_path_walk (Suc n) g prior_block load_block li cursor =
     (if cursor = prior_block then Inr True
      else if sg_block_count g \<le> unat cursor then Inr False
      else
        (let b = sg_blocks g ! unat cursor; upto_end = block_end g b
         in if sb_predecessor_count b \<noteq> 1 then Inr False
            else bindc (aliasing_store_between g li (unat (sb_first_value b))
                          (if cursor = load_block then min upto_end (unat (sv_id (sg_values g ! li))) else upto_end)) (\<lambda>found.
                   if found then Inr False
                   else bindc (rd (sb_predecessors b) 0) (unique_path_walk n g prior_block load_block li))))"

definition property_unique_path_clear :: "TurboJSSSAGraph \<Rightarrow> u32 \<Rightarrow> u32 \<Rightarrow> nat \<Rightarrow> bool c" where
  "property_unique_path_clear g prior_block load_block li = unique_path_walk (sg_block_count g + 1) g prior_block load_block li load_block"

definition property_block_prefix_clear :: "TurboJSSSAGraph \<Rightarrow> u32 \<Rightarrow> nat \<Rightarrow> u32 \<Rightarrow> bool c" where
  "property_block_prefix_clear g block li stop =
     (if sg_block_count g \<le> unat block then Inr False
      else (let b = sg_blocks g ! unat block
            in bindc (aliasing_store_between g li (unat (sb_first_value b)) (min (block_end g b) (unat stop))) (\<lambda>found. Inr (\<not> found))))"

text \<open>
  The search over all paths backwards, with the blocks on the current path and the answers known so far; the fuel bounds
  its depth, and a path has no block twice.
\<close>

fun all_paths :: "nat \<Rightarrow> TurboJSSSAGraph \<Rightarrow> u32 \<Rightarrow> nat \<Rightarrow> u32 \<Rightarrow> bool list \<times> bool option list \<Rightarrow> (bool \<times> bool list \<times> bool option list) c"
  and all_predecessors :: "nat \<Rightarrow> TurboJSSSAGraph \<Rightarrow> u32 \<Rightarrow> nat \<Rightarrow> u32 list \<Rightarrow> bool list \<times> bool option list \<Rightarrow> (bool \<times> bool list \<times> bool option list) c" where
  "all_paths 0 g prior_block li cursor s = Inl Fault_loop"
| "all_paths (Suc n) g prior_block li cursor (visiting, memo) =
     (if cursor = prior_block then Inr (True, visiting, memo)
      else if sg_block_count g \<le> unat cursor then Inr (False, visiting, memo)
      else
        (case memo ! unat cursor of
           Some b \<Rightarrow> Inr (b, visiting, memo)
         | None \<Rightarrow>
             if visiting ! unat cursor then Inr (False, visiting, memo)
             else
               (let b = sg_blocks g ! unat cursor; ld = sg_values g ! li; seen = visiting[unat cursor := True]
                in bindc (property_block_prefix_clear g cursor li (if cursor = sv_block ld then sv_id ld else TURBOJS_SSA_NO_VALUE)) (\<lambda>clear.
                     if \<not> clear \<or> sb_predecessor_count b = 0
                     then Inr (False, seen[unat cursor := False], memo[unat cursor := Some False])
                     else if length (sb_predecessors b) < unat (sb_predecessor_count b) then Inl Fault_bounds
                     else bindc (all_predecessors n g prior_block li (take (unat (sb_predecessor_count b)) (sb_predecessors b)) (seen, memo))
                            (\<lambda>(r, seen, memo). Inr (r, seen[unat cursor := False], memo[unat cursor := Some r]))))))"
| "all_predecessors n g prior_block li [] (visiting, memo) = Inr (True, visiting, memo)"
| "all_predecessors n g prior_block li (p # ps) s =
     bindc (all_paths n g prior_block li p s) (\<lambda>(r, s). if r then all_predecessors n g prior_block li ps s else Inr (False, s))"

definition property_all_paths_clear :: "bool \<Rightarrow> TurboJSSSAGraph \<Rightarrow> u32 \<Rightarrow> nat \<Rightarrow> bool c" where
  "property_all_paths_clear ok g prior_block li =
     (let ld = sg_values g ! li
      in if sg_block_count g \<le> unat prior_block \<or> sg_block_count g \<le> unat (sv_block ld) then Inr False
         else if \<not> ok then Inr False
         else bindc (all_paths (sg_block_count g + 1) g prior_block li (sv_block ld)
                       (replicate (sg_block_count g) False, replicate (sg_block_count g) None)) (\<lambda>(r, _). Inr r))"

definition property_loop_store_free :: "TurboJSSSAGraph \<Rightarrow> u32 \<Rightarrow> nat \<Rightarrow> bool c" where
  "property_loop_store_free g loop_header li =
     (if sg_block_count g \<le> unat loop_header then Inr False
      else allc (\<lambda>i. (let b = sg_blocks g ! i
             in if i \<noteq> unat loop_header \<and> sb_loop_header b \<noteq> loop_header then Inr True
                else bindc (aliasing_store_between g li (unat (sb_first_value b)) (block_end g b)) (\<lambda>found. Inr (\<not> found))))
           [0..<sg_block_count g])"

definition property_find_reaching_store :: "TurboJSSSAGraph \<Rightarrow> u32 \<Rightarrow> TurboJSSSAValue \<Rightarrow> u32 option c" where
  "property_find_reaching_store g block ld =
     (if sg_block_count g \<le> unat block then Inr None
      else
        (let b = sg_blocks g ! unat block
         in scan (\<lambda>i found.
              (let v = sg_values g ! i; here = sv_opcode v = TURBOJS_SSA_PHI \<and> pv_case_count (sv_property v) \<noteq> 0 \<and> pv_state_receiver (sv_property v) = sv_left ld
               in if sv_removed v then Inr (Go found)
                  else bindc (if here then same_property_slot_identity v ld else Inr False) (\<lambda>same.
                    if same then Inr (Halt (Some (sv_id v)))
                    else if sv_opcode v \<noteq> TURBOJS_SSA_PROPERTY_STORE then Inr (Go found)
                    else bindc (if sv_left v = sv_left ld \<and> sv_right v \<noteq> TURBOJS_SSA_NO_VALUE then same_property_location v ld else Inr False) (\<lambda>same.
                      if same then Inr (Halt (Some (sv_right v)))
                      else bindc (property_store_may_alias v ld) (\<lambda>alias. Inr (if alias then Halt None else Go found))))))
              (rev [unat (sb_first_value b)..<block_end g b]) None))"

section \<open>Property stores and loads\<close>

definition bump :: "u32 \<Rightarrow> TurboJSSSAGraph \<Rightarrow> TurboJSSSAGraph" where
  "bump i = update_value (unat i) (\<lambda>v. v\<lparr>sv_use_count := sv_use_count v + 1\<rparr>)"

text \<open>A load behind a join of two stores becomes a phi of the stored values.\<close>

definition store_phi :: "nat \<Rightarrow> u32 \<times> TurboJSSSAGraph \<Rightarrow> (u32 \<times> TurboJSSSAGraph) c" where
  "store_phi i = (\<lambda>(created, g).
     (let ld = sg_values g ! i; b = sg_blocks g ! unat (sv_block ld); skip = Inr (created, g)
      in if sv_removed ld \<or> sv_opcode ld \<noteq> TURBOJS_SSA_PROPERTY_LOAD \<or> sg_block_count g \<le> unat (sv_block ld) \<or> pv_case_count (sv_property ld) = 0
            \<or> sb_predecessor_count b \<noteq> 2 then skip
         else bindc (property_block_prefix_clear g (sv_block ld) i (sv_id ld)) (\<lambda>clear.
           if \<not> clear then skip
           else bindc (rd (sb_predecessors b) 0) (\<lambda>p. bindc (property_find_reaching_store g p ld) (\<lambda>left_value.
             case left_value of
               None \<Rightarrow> skip
             | Some lv \<Rightarrow> bindc (rd (sb_predecessors b) 1) (\<lambda>q. bindc (property_find_reaching_store g q ld) (\<lambda>right_value.
                 case right_value of
                   None \<Rightarrow> skip
                 | Some rv \<Rightarrow>
                     if sg_value_count g \<le> unat lv \<or> sg_value_count g \<le> unat rv then skip
                     else if lv = rv
                     then bindc (replace_value_uses g (sv_id ld) lv) (\<lambda>g. Inr (created + 1, remove_value i g))
                     else
                       (let lt = sv_type (sg_values g ! unat lv); rt = sv_type (sg_values g ! unat rv);
                            g1 = bump rv (bump lv (drop_use (sv_left ld) g))
                        in Inr (created + 1, update_value i (\<lambda>v. v\<lparr>sv_property := (sv_property v)\<lparr>pv_state_receiver := sv_left v\<rparr>,
                                  sv_opcode := TURBOJS_SSA_PHI, sv_type := (if lt = rt then lt else TURBOJS_SSA_TYPE_UNKNOWN),
                                  sv_left := lv, sv_right := rv\<rparr>) g1)))))))))"

definition create_property_store_phis :: "TurboJSSSAGraph \<Rightarrow> (u32 \<times> TurboJSSSAGraph) c" where
  "create_property_store_phis g = foldc store_phi [0..<sg_value_count g] (0, g)"

definition property_store_is_plain_writable :: "TurboJSSSAValue \<Rightarrow> bool c" where
  "property_store_is_plain_writable v =
     (let p = sv_property v
      in if sv_opcode v \<noteq> TURBOJS_SSA_PROPERTY_STORE \<or> pv_case_count p = 0 then Inr False
         else allc (\<lambda>i. bindc (rd (pv_case_flags p) i) (\<lambda>flags.
                Inr (flags AND TURBOJS_PROPERTY_FEEDBACK_OWN_DATA \<noteq> 0 \<and> flags AND TURBOJS_PROPERTY_FEEDBACK_WRITABLE \<noteq> 0 \<and>
                     flags AND TURBOJS_PROPERTY_FEEDBACK_STORE \<noteq> 0))) [0..<unat (pv_case_count p)])"

text \<open>Whether something between two stores to one slot may read the first or write elsewhere.\<close>

definition overwrite_blocked :: "TurboJSSSAGraph \<Rightarrow> nat \<Rightarrow> nat \<Rightarrow> bool c" where
  "overwrite_blocked g i j =
     (let st = sg_values g ! i
      in anyc (\<lambda>k. (let between = sg_values g ! k
           in if sv_removed between then Inr False
              else bindc (if sv_opcode between = TURBOJS_SSA_PROPERTY_LOAD then property_store_may_alias st between else Inr False) (\<lambda>b.
                if b then Inr True
                else if sv_opcode between = TURBOJS_SSA_PROPERTY_STORE
                then andc (property_store_may_alias between st) (bindc (same_property_location between st) (\<lambda>same. Inr (\<not> same)))
                else Inr False))) [i + 1..<j])"

definition overwriting_store :: "nat \<Rightarrow> nat \<Rightarrow> u32 \<times> TurboJSSSAGraph \<Rightarrow> (u32 \<times> TurboJSSSAGraph) loop c" where
  "overwriting_store i j = (\<lambda>(removed, g).
     (let st = sg_values g ! i; later = sg_values g ! j; skip = Inr (Go (removed, g)); break = Inr (Halt (removed, g))
      in if sv_removed later then skip
         else if sv_block later \<noteq> sv_block st then break
         else bindc (if sv_opcode later = TURBOJS_SSA_PROPERTY_LOAD then property_store_may_alias st later else Inr False) (\<lambda>read.
           if read then break
           else if sv_opcode later \<noteq> TURBOJS_SSA_PROPERTY_STORE then skip
           else bindc (if sv_left later = sv_left st then andc (same_property_slot_identity st later) (property_store_is_plain_writable later) else Inr False) (\<lambda>same.
             if same then bindc (overwrite_blocked g i j) (\<lambda>blocked.
               if blocked then break
               else Inr (Halt (removed + 1, remove_value i (drop_use (sv_right st) (drop_use (sv_left st) g)))))
             else bindc (property_store_may_alias later st) (\<lambda>alias. if alias then break else skip)))))"

definition eliminate_overwritten_property_stores :: "TurboJSSSAGraph \<Rightarrow> (u32 \<times> TurboJSSSAGraph) c" where
  "eliminate_overwritten_property_stores g =
     foldc (\<lambda>i s. (let st = sg_values (snd s) ! i
        in if sv_removed st \<or> sv_opcode st \<noteq> TURBOJS_SSA_PROPERTY_STORE then Inr s
           else bindc (property_store_is_plain_writable st) (\<lambda>plain.
                  if plain then scan (overwriting_store i) [i + 1..<sg_value_count g] s else Inr s)))
       [0..<sg_value_count g] (0, g)"

definition forwarding_store :: "nat \<Rightarrow> nat \<Rightarrow> u32 \<times> TurboJSSSAGraph \<Rightarrow> (u32 \<times> TurboJSSSAGraph) loop c" where
  "forwarding_store i j = (\<lambda>(forwarded, g).
     (let ld = sg_values g ! i; st = sg_values g ! j; skip = Inr (Go (forwarded, g)); break = Inr (Halt (forwarded, g))
      in if sv_removed st then skip
         else bindc (if sv_block st \<noteq> sv_block ld
                     then andc (block_dominates g (sv_block st) (sv_block ld)) (property_unique_path_clear g (sv_block st) (sv_block ld) i)
                     else Inr True) (\<lambda>reaches.
           if \<not> reaches \<or> sv_opcode st \<noteq> TURBOJS_SSA_PROPERTY_STORE then skip
           else bindc (if sv_left st \<noteq> sv_left ld \<or> sv_right st = TURBOJS_SSA_NO_VALUE then Inr False else same_property_location st ld) (\<lambda>same.
             if \<not> same then bindc (property_store_may_alias st ld) (\<lambda>alias. if alias then break else skip)
             else bindc (anyc (\<lambda>k. (let between = sg_values g ! k
                    in if sv_removed between \<or> sv_opcode between \<noteq> TURBOJS_SSA_PROPERTY_STORE then Inr False else property_store_may_alias between ld))
                  [j + 1..<i]) (\<lambda>blocked.
               if blocked then break
               else bindc (replace_value_uses g (of_nat i) (sv_right st)) (\<lambda>g. Inr (Halt (forwarded + 1, remove_value i g))))))))"

definition unresolved_load :: "TurboJSSSAValue \<Rightarrow> bool" where
  "unresolved_load v \<longleftrightarrow> \<not> sv_removed v \<and> sv_opcode v = TURBOJS_SSA_PROPERTY_LOAD \<and> pv_case_count (sv_property v) \<noteq> 0"

definition forward_property_stores_to_loads :: "TurboJSSSAGraph \<Rightarrow> (u32 \<times> TurboJSSSAGraph) c" where
  "forward_property_stores_to_loads g =
     foldc (\<lambda>i s. if \<not> unresolved_load (sg_values (snd s) ! i) then Inr s else scan (forwarding_store i) (rev [0..<i]) s) [0..<sg_value_count g] (0, g)"

text \<open>The counters of \<^verbatim>\<open>eliminate_redundant_property_loads\<close>.\<close>

record load_counts =
  lc_eliminated :: u32
  lc_reused :: u32
  lc_cross_block :: u32
  lc_unique_path :: u32
  lc_loop_body :: u32
  lc_join :: u32
  lc_versions :: u32
  lc_loop_invariant :: u32
  lc_phis :: u32
  lc_alias_classes :: u32
  lc_ignored_stores :: u32

definition no_loads :: load_counts where
  "no_loads = \<lparr>lc_eliminated = 0, lc_reused = 0, lc_cross_block = 0, lc_unique_path = 0, lc_loop_body = 0, lc_join = 0, lc_versions = 0,
     lc_loop_invariant = 0, lc_phis = 0, lc_alias_classes = 0, lc_ignored_stores = 0\<rparr>"

text \<open>The proof that a load of another block still sees the memory of a prior value, as the three flags of the code.\<close>

definition path_proof :: "bool \<Rightarrow> TurboJSSSAGraph \<Rightarrow> u32 \<Rightarrow> nat \<Rightarrow> u8 list option c" where
  "path_proof ok g prior_block i =
     (let ld = sg_values g ! i
      in bindc (rd (sg_blocks g) (unat (sv_block ld))) (\<lambda>b. (let header = sb_loop_header b
        in bindc (block_dominates g prior_block (sv_block ld)) (\<lambda>dominates.
          if \<not> dominates then Inr None
          else bindc (property_unique_path_clear g prior_block (sv_block ld) i) (\<lambda>unique.
            if unique then Inr (Some [1, 0, 0])
            else bindc (property_all_paths_clear ok g prior_block i) (\<lambda>join.
              if join then Inr (Some [0, 1, 0])
              else if header = TURBOJS_SSA_NO_BLOCK then Inr None
              else bindc (andc (block_dominates g prior_block header) (property_loop_store_free g header i)) (\<lambda>invariant.
                Inr (if invariant then Some [0, 0, 1] else None))))))))"

definition count_if :: "bool \<Rightarrow> u32 \<Rightarrow> u32" where
  "count_if b n = (if b then n + 1 else n)"

text \<open>The load \<open>i\<close> is replaced by the load \<open>j\<close>; the counters tell which proof was used.\<close>

definition reuse_load :: "nat \<Rightarrow> nat \<Rightarrow> load_counts \<times> TurboJSSSAGraph \<Rightarrow> (load_counts \<times> TurboJSSSAGraph) loop c" where
  "reuse_load i j = (\<lambda>(n, g).
     (let ld = sg_values g ! i; prior = sg_values g ! j; other = sv_block prior \<noteq> sv_block ld
      in bindc (same_property_alias_class prior ld) (\<lambda>class.
         bindc (property_count_non_aliasing_stores g (j + 1) i ld) (\<lambda>ignored.
         bindc (if other then mapc (rd (pv_reserved (sv_property ld))) [0, 1, 2] else Inr [0, 0, 0]) (\<lambda>flags.
         bindc (if other then rd (sg_blocks g) (unat (sv_block ld)) else Inr (new_block 0 0 0)) (\<lambda>b.
         bindc (if other then rd (sg_blocks g) (unat (sv_block prior)) else Inr (new_block 0 0 0)) (\<lambda>pb.
         bindc (replace_value_uses g (of_nat i) (of_nat j)) (\<lambda>g'.
           Inr (Halt (n\<lparr>
             lc_alias_classes := count_if class (lc_alias_classes n),
             lc_ignored_stores := lc_ignored_stores n + ignored,
             lc_phis := count_if (other \<and> flags ! 1 \<noteq> 0 \<and> 1 < sb_predecessor_count b) (lc_phis n),
             lc_eliminated := lc_eliminated n + 1,
             lc_reused := count_if (pv_feedback_generation (sv_property ld) \<noteq> 0 \<or> pv_feedback_generation (sv_property prior) \<noteq> 0) (lc_reused n),
             lc_cross_block := count_if other (lc_cross_block n),
             lc_versions := count_if other (lc_versions n),
             lc_unique_path := count_if (other \<and> flags ! 0 \<noteq> 0) (lc_unique_path n),
             lc_join := count_if (other \<and> flags ! 1 \<noteq> 0) (lc_join n),
             lc_loop_invariant := count_if (other \<and> flags ! 2 \<noteq> 0) (lc_loop_invariant n),
             lc_loop_body := count_if (other \<and> sb_loop_depth pb \<noteq> 0 \<and> (sb_loop_header b = sv_block prior \<or>
               sb_loop_header b \<noteq> TURBOJS_SSA_NO_BLOCK \<and> sb_loop_header b = sb_loop_header pb)) (lc_loop_body n)\<rparr>,
             remove_value i g'))))))))))"

definition redundant_load :: "(nat \<Rightarrow> nat \<Rightarrow> bool) \<Rightarrow> nat \<Rightarrow> nat \<Rightarrow> load_counts \<times> TurboJSSSAGraph \<Rightarrow> (load_counts \<times> TurboJSSSAGraph) loop c" where
  "redundant_load ok i j = (\<lambda>(n, g).
     (let prior = sg_values g ! j
      in if sv_removed prior then Inr (Go (n, g))
         else bindc (if sv_block prior \<noteq> sv_block (sg_values g ! i) then path_proof (ok i j) g (sv_block prior) i
                     else Inr (Some (pv_reserved (sv_property (sg_values g ! i))))) (\<lambda>flags.
           case flags of
             None \<Rightarrow> Inr (Go (n, g))
           | Some reserved \<Rightarrow>
               (let g = update_value i (\<lambda>v. v\<lparr>sv_property := (sv_property v)\<lparr>pv_reserved := reserved\<rparr>\<rparr>) g; ld = sg_values g ! i
                in bindc (if sv_opcode prior = TURBOJS_SSA_PROPERTY_STORE then property_store_may_alias prior ld else Inr False) (\<lambda>alias.
                  if alias then Inr (Halt (n, g))
                  else bindc (if sv_opcode prior \<noteq> TURBOJS_SSA_PROPERTY_LOAD \<or> sv_left prior \<noteq> sv_left ld then Inr False else same_property_cases prior ld) (\<lambda>same.
                    if \<not> same then Inr (Go (n, g))
                    else bindc (anyc (\<lambda>k. (let between = sg_values g ! k
                           in if sv_block between \<noteq> sv_block prior \<and> sv_block between \<noteq> sv_block ld then Inr False
                              else if \<not> sv_removed between \<and> sv_opcode between = TURBOJS_SSA_PROPERTY_STORE then property_store_may_alias between ld
                              else Inr False)) [j + 1..<i]) (\<lambda>blocked.
                      if blocked then Inr (Halt (n, g)) else reuse_load i j (n, g))))))))"

definition eliminate_redundant_property_loads :: "(nat \<Rightarrow> nat \<Rightarrow> bool) \<Rightarrow> TurboJSSSAGraph \<Rightarrow> (load_counts \<times> TurboJSSSAGraph) c" where
  "eliminate_redundant_property_loads ok g =
     foldc (\<lambda>i s. if \<not> unresolved_load (sg_values (snd s) ! i) then Inr s else scan (redundant_load ok i) (rev [0..<i]) s)
       [0..<sg_value_count g] (no_loads, g)"

section \<open>Elements\<close>

definition element_load :: "nat \<Rightarrow> nat \<Rightarrow> u32 \<times> TurboJSSSAGraph \<Rightarrow> (u32 \<times> TurboJSSSAGraph) loop c" where
  "element_load i j = (\<lambda>(eliminated, g).
     (let ld = sg_values g ! i; prior = sg_values g ! j; a = sv_element prior; b = sv_element ld
      in if sv_removed prior \<or> sv_opcode prior \<noteq> TURBOJS_SSA_ELEMENT_LOAD \<or> sv_block prior \<noteq> sv_block ld \<or> sv_left prior \<noteq> sv_left ld \<or>
            sv_right prior \<noteq> sv_right ld \<or> ev_kind a \<noteq> ev_kind b \<or> ev_generation a \<noteq> ev_generation b \<or> ev_flags a \<noteq> ev_flags b \<or>
            list_ex (\<lambda>k. (let between = sg_values g ! k
              in \<not> sv_removed between \<and> sv_opcode between = TURBOJS_SSA_ELEMENT_STORE \<and> sv_left between = sv_left ld)) [j + 1..<i]
         then Inr (Go (eliminated, g))
         else bindc (replace_value_uses g (of_nat i) (of_nat j)) (\<lambda>g. Inr (Halt (eliminated + 1, remove_value i g)))))"

definition eliminate_redundant_element_loads :: "TurboJSSSAGraph \<Rightarrow> (u32 \<times> TurboJSSSAGraph) c" where
  "eliminate_redundant_element_loads g =
     foldc (\<lambda>i s. (let ld = sg_values (snd s) ! i
        in if sv_removed ld \<or> sv_opcode ld \<noteq> TURBOJS_SSA_ELEMENT_LOAD then Inr s else scan (element_load i) [0..<i] s))
       [0..<sg_value_count g] (0, g)"

definition value_const_i64 :: "TurboJSSSAGraph \<Rightarrow> u32 \<Rightarrow> i64 \<Rightarrow> bool" where
  "value_const_i64 g i expected \<longleftrightarrow> unat i < sg_value_count g \<and>
     (let v = sg_values g ! unat i in \<not> sv_removed v \<and> sv_opcode v = TURBOJS_SSA_CONSTANT_I64 \<and> sv_immediate v = expected)"

text \<open>A loop counter from zero in steps of one, with the limit it is compared to.\<close>

definition canonical_unit_induction :: "TurboJSSSAGraph \<Rightarrow> u32 \<Rightarrow> u32 option" where
  "canonical_unit_induction g i =
     (let phi = sg_values g ! unat i; b = sg_blocks g ! unat (sv_block phi);
          back = (if value_const_i64 g (sv_left phi) 0 then sv_right phi else sv_left phi); upd = sg_values g ! unat back
      in if sg_value_count g \<le> unat i \<or> sv_removed phi \<or> sv_opcode phi \<noteq> TURBOJS_SSA_PHI \<or> sg_block_count g \<le> unat (sv_block phi) \<or>
            sb_loop_depth b = 0 \<or> \<not> value_const_i64 g (sv_left phi) 0 \<and> \<not> value_const_i64 g (sv_right phi) 0 \<or> sg_value_count g \<le> unat back \<or>
            sv_removed upd \<or> sv_opcode upd \<noteq> TURBOJS_SSA_ADD_I64 \<or>
            \<not> (sv_left upd = i \<and> value_const_i64 g (sv_right upd) 1 \<or> sv_right upd = i \<and> value_const_i64 g (sv_left upd) 1)
         then None
         else map_option sv_right (List.find (\<lambda>cmp. \<not> sv_removed cmp \<and> sv_opcode cmp = TURBOJS_SSA_LESS_THAN_I64 \<and>
                sv_block cmp = sv_block phi \<and> sv_left cmp = i) (sg_values g)))"

definition element_range :: "nat \<Rightarrow> (u32 \<times> u32 \<times> u32) \<times> TurboJSSSAGraph \<Rightarrow> (u32 \<times> u32 \<times> u32) \<times> TurboJSSSAGraph" where
  "element_range i = (\<lambda>((induction, proofs, canonical), g).
     (let v = sg_values g ! i; idx = sg_values g ! unat (sv_right v);
          known = sv_type idx = TURBOJS_SSA_TYPE_INT32 \<or> sv_opcode idx = TURBOJS_SSA_GUARD_INT32 \<or> sv_opcode idx = TURBOJS_SSA_PHI;
          looping = unat (sv_block v) < sg_block_count g \<and> 0 < sb_loop_depth (sg_blocks g ! unat (sv_block v));
          counts = (count_if known induction, count_if (known \<and> looping) proofs, canonical)
      in if sv_removed v \<or> sv_opcode v \<noteq> TURBOJS_SSA_ELEMENT_LOAD \<and> sv_opcode v \<noteq> TURBOJS_SSA_ELEMENT_STORE \<or> sg_value_count g \<le> unat (sv_right v)
         then ((induction, proofs, canonical), g)
         else (case canonical_unit_induction g (sv_right v) of
                 None \<Rightarrow> (counts, g)
               | Some limit \<Rightarrow>
                   if ev_length_value (sv_element v) \<noteq> TURBOJS_SSA_NO_VALUE \<and> ev_length_value (sv_element v) \<noteq> limit then (counts, g)
                   else ((fst counts, fst (snd counts), canonical + 1),
                         update_value i (\<lambda>v. v\<lparr>sv_element := (sv_element v)\<lparr>ev_length_value := limit, ev_range_min := 0, ev_range_max := INT32_MAX,
                           ev_induction_step := 1, ev_bounds_proven := True, ev_length_hoisted := True, ev_base_hoisted := True\<rparr>\<rparr>) g))))"

definition recognize_element_loop_ranges :: "TurboJSSSAGraph \<Rightarrow> (u32 \<times> u32 \<times> u32) \<times> TurboJSSSAGraph" where
  "recognize_element_loop_ranges g = fold element_range [0..<sg_value_count g] ((0, 0, 0), g)"

section \<open>Virtual objects\<close>

text \<open>The value last stored into the field of a virtual object, along its chain of states.\<close>

fun find_field :: "nat \<Rightarrow> TurboJSSSAGraph \<Rightarrow> u32 \<Rightarrow> u32 \<Rightarrow> u32 c" where
  "find_field 0 g field state = Inl Fault_loop"
| "find_field (Suc n) g field state =
     (let v = sg_values g ! unat state
      in if sg_value_count g \<le> unat state \<or> sv_removed v \<or> sv_opcode v \<noteq> TURBOJS_SSA_VIRTUAL_FIELD_STORE then Inr TURBOJS_SSA_NO_VALUE
         else if ucast (sv_immediate v) = field then Inr (sv_right v)
         else find_field n g field (sv_left v))"

fun touch_states :: "nat \<Rightarrow> TurboJSSSAGraph \<Rightarrow> u32 \<Rightarrow> bool list \<Rightarrow> bool list c" where
  "touch_states 0 g state touched = Inl Fault_loop"
| "touch_states (Suc n) g state touched =
     (let v = sg_values g ! unat state
      in if sg_value_count g \<le> unat state then Inr touched
         else if sv_opcode v = TURBOJS_SSA_VIRTUAL_FIELD_STORE then touch_states n g (sv_left v) (touched[unat state := True])
         else Inr (if sv_opcode v = TURBOJS_SSA_VIRTUAL_OBJECT then touched[unat state := True] else touched))"

definition scalarize_load :: "nat \<Rightarrow> u32 \<times> bool list \<times> TurboJSSSAGraph \<Rightarrow> (u32 \<times> bool list \<times> TurboJSSSAGraph) c" where
  "scalarize_load i = (\<lambda>(forwarded, touched, g).
     (let ld = sg_values g ! i
      in if sv_removed ld \<or> sv_opcode ld \<noteq> TURBOJS_SSA_PROPERTY_LOAD then Inr (forwarded, touched, g)
         else bindc (find_field (sg_value_count g + 1) g (ucast (sv_immediate ld)) (sv_left ld)) (\<lambda>replacement.
           if sg_value_count g \<le> unat replacement then Inr (forwarded, touched, g)
           else bindc (replace_value_uses g (of_nat i) replacement) (\<lambda>g.
             (let g = remove_value i g;
                  g = update_value (unat replacement) (\<lambda>v. v\<lparr>sv_use_count := (if sv_use_count v < 4294967295 then sv_use_count v + 1 else sv_use_count v)\<rparr>) g
              in bindc (touch_states (sg_value_count g + 1) g (sv_left (sg_values g ! i)) touched) (\<lambda>touched. Inr (forwarded + 1, touched, g)))))))"

text \<open>The number of forwarded loads and of virtual objects they came from.\<close>

definition scalarize_virtual_object_loads :: "bool \<Rightarrow> TurboJSSSAGraph \<Rightarrow> (u32 \<times> u32 \<times> TurboJSSSAGraph) c" where
  "scalarize_virtual_object_loads ok g =
     (if sg_values g = [] \<or> \<not> ok then Inr (0, 0, g)
      else bindc (foldc scalarize_load [0..<sg_value_count g] (0, replicate (sg_value_count g) False, g)) (\<lambda>(forwarded, touched, g).
             Inr (forwarded, of_nat (length (filter (\<lambda>i. touched ! i \<and> sv_opcode (sg_values g ! i) = TURBOJS_SSA_VIRTUAL_OBJECT) [0..<sg_value_count g])), g)))"

section \<open>Folding\<close>

definition is_const :: "TurboJSSSAValue \<Rightarrow> bool" where
  "is_const v \<longleftrightarrow> sv_opcode v = TURBOJS_SSA_CONSTANT_I64 \<and> \<not> sv_removed v"

definition checked64 :: "int \<Rightarrow> i64 option" where
  "checked64 x = (if in_int64 x then Some (word_of_int x) else None)"

definition fold_binary :: "TurboJSSSAOpcode \<Rightarrow> i64 \<Rightarrow> i64 \<Rightarrow> i64 option" where
  "fold_binary op left right =
     (let l = sint left; r = sint right; shift = unat (right AND 63)
      in if op = TURBOJS_SSA_LESS_THAN_I64 then Some (of_bool64 (l < r))
         else if op = TURBOJS_SSA_LESS_EQUAL_I64 then Some (of_bool64 (l \<le> r))
         else if op = TURBOJS_SSA_GREATER_THAN_I64 then Some (of_bool64 (l > r))
         else if op = TURBOJS_SSA_GREATER_EQUAL_I64 then Some (of_bool64 (l \<ge> r))
         else if op = TURBOJS_SSA_EQUAL_I64 then Some (of_bool64 (l = r))
         else if op = TURBOJS_SSA_ADD_I64 then checked64 (l + r)
         else if op = TURBOJS_SSA_SUB_I64 then checked64 (l - r)
         else if op = TURBOJS_SSA_AND_I64 then Some (left AND right)
         else if op = TURBOJS_SSA_OR_I64 then Some (left OR right)
         else if op = TURBOJS_SSA_XOR_I64 then Some (left XOR right)
         else if op = TURBOJS_SSA_SHL_I64 then Some (push_bit shift left)
         else if op = TURBOJS_SSA_SAR_I64 then Some (signed_drop_bit shift left)
         else if op = TURBOJS_SSA_SHR_I64 then Some (drop_bit shift left)
         else if op = TURBOJS_SSA_MUL_I64 then checked64 (l * r)
         else None)"

definition removable_value :: "TurboJSSSAValue \<Rightarrow> bool" where
  "removable_value v \<longleftrightarrow> sv_opcode v \<notin> {TURBOJS_SSA_RETURN, TURBOJS_SSA_ARGUMENT, TURBOJS_SSA_JUMP, TURBOJS_SSA_BRANCH_TRUE, TURBOJS_SSA_BRANCH_FALSE,
     TURBOJS_SSA_GUARD_INT32, TURBOJS_SSA_PROPERTY_STORE, TURBOJS_SSA_ELEMENT_STORE}"

definition fold_constant :: "nat \<Rightarrow> u32 \<times> TurboJSSSAGraph \<Rightarrow> u32 \<times> TurboJSSSAGraph" where
  "fold_constant i = (\<lambda>(folded, g).
     (let vs = sg_values g; v = vs ! i; n = sg_value_count g; l = vs ! unat (sv_left v); r = vs ! unat (sv_right v)
      in if sv_opcode v \<in> integer_ops \<union> compare_ops \<and> unat (sv_left v) < n \<and> unat (sv_right v) < n \<and> is_const l \<and> is_const r
         then (case fold_binary (sv_opcode v) (sv_immediate l) (sv_immediate r) of
                 None \<Rightarrow> (folded, g)
               | Some x \<Rightarrow> (folded + 1, update_value i (\<lambda>v. v\<lparr>sv_opcode := TURBOJS_SSA_CONSTANT_I64, sv_immediate := x,
                     sv_left := TURBOJS_SSA_NO_VALUE, sv_right := TURBOJS_SSA_NO_VALUE\<rparr>) (drop_use (sv_right v) (drop_use (sv_left v) g))))
         else (folded, g)))"

definition fold_branch :: "nat \<Rightarrow> u32 \<times> TurboJSSSAGraph \<Rightarrow> (u32 \<times> TurboJSSSAGraph) c" where
  "fold_branch i = (\<lambda>(folded, g).
     (let vs = sg_values g; v = vs ! i; l = vs ! unat (sv_left v); b = sg_blocks g ! unat (sv_block v)
      in if (sv_opcode v = TURBOJS_SSA_BRANCH_TRUE \<or> sv_opcode v = TURBOJS_SSA_BRANCH_FALSE) \<and> unat (sv_left v) < sg_value_count g \<and> is_const l \<and>
            unat (sv_block v) < sg_block_count g
         then bindc (if (sv_immediate l \<noteq> 0) = (sv_opcode v = TURBOJS_SSA_BRANCH_TRUE) then Inr (ucast (sv_immediate v))
                     else if 1 < sb_successor_count b then rd (sb_successors b) 1 else Inr TURBOJS_SSA_NO_BLOCK) (\<lambda>chosen.
                if sg_block_count g \<le> unat chosen then Inr (folded, g)
                else bindc (wr (sb_successors b) 0 chosen) (\<lambda>ss.
                  Inr (folded + 1, update_block (update_value i (\<lambda>v. v\<lparr>sv_opcode := TURBOJS_SSA_JUMP, sv_left := TURBOJS_SSA_NO_VALUE,
                        sv_right := TURBOJS_SSA_NO_VALUE, sv_immediate := ucast chosen\<rparr>) (drop_use (sv_left v) g))
                      (unat (sv_block v)) (\<lambda>b. b\<lparr>sb_successors := ss, sb_successor_count := 1\<rparr>))))
         else Inr (folded, g)))"

definition fold_value :: "nat \<Rightarrow> u32 \<times> u32 \<times> TurboJSSSAGraph \<Rightarrow> (u32 \<times> u32 \<times> TurboJSSSAGraph) c" where
  "fold_value i = (\<lambda>(constants, branches, g).
     if sv_removed (sg_values g ! i) then Inr (constants, branches, g)
     else (case fold_constant i (constants, g) of (constants, g) \<Rightarrow>
             bindc (fold_branch i (branches, g)) (\<lambda>(branches, g). Inr (constants, branches, g))))"

section \<open>Dead values\<close>

text \<open>An operand of a value that has just been removed; the work list has its last entry first.\<close>

definition release_input :: "nat \<Rightarrow> u32 \<Rightarrow> nat list \<times> TurboJSSSAGraph \<Rightarrow> (nat list \<times> TurboJSSSAGraph) c" where
  "release_input capacity input = (\<lambda>(work, g).
     if unat input < sg_value_count g \<and> sv_use_count (sg_values g ! unat input) \<noteq> 0 then
       (let g = drop_use input g; v = sg_values g ! unat input
        in if sv_use_count v = 0 \<and> \<not> sv_removed v \<and> removable_value v
           then (if length work < capacity then Inr (unat input # work, g) else Inl Fault_bounds)
           else Inr (work, g))
     else Inr (work, g))"

definition remove_dead :: "nat \<Rightarrow> u32 \<times> nat list \<times> TurboJSSSAGraph \<Rightarrow> (u32 \<times> nat list \<times> TurboJSSSAGraph) c" where
  "remove_dead capacity = (\<lambda>(removed, work, g).
     (case work of
        [] \<Rightarrow> Inr (removed, work, g)
      | i # work \<Rightarrow>
          (let v = sg_values g ! i
           in if sv_removed v \<or> sv_use_count v \<noteq> 0 \<or> \<not> removable_value v then Inr (removed, work, g)
              else bindc (release_input capacity (sv_left v) (work, remove_value i g)) (\<lambda>s.
                   bindc (release_input capacity (sv_right v) s) (\<lambda>(work, g). Inr (removed + 1, work, g))))))"

definition dead_values :: "TurboJSSSAGraph \<Rightarrow> nat list" where
  "dead_values g = rev (filter (\<lambda>i. (let v = sg_values g ! i in \<not> sv_removed v \<and> sv_use_count v = 0 \<and> removable_value v)) [0..<sg_value_count g])"

definition remove_loop :: "u32 \<times> nat list \<times> TurboJSSSAGraph \<Rightarrow> (u32 \<times> nat list \<times> TurboJSSSAGraph) c option" where
  "remove_loop s =
     (let capacity = sg_value_count (snd (snd s))
      in while_option (\<lambda>s. case s of Inl _ \<Rightarrow> False | Inr (_, work, _) \<Rightarrow> work \<noteq> []) (\<lambda>s. bindc s (remove_dead capacity)) (Inr s))"

definition remove_dead_values :: "bool \<Rightarrow> TurboJSSSAGraph \<Rightarrow> (u32 \<times> TurboJSSSAGraph) c" where
  "remove_dead_values ok g =
     (if \<not> ok \<or> sg_values g = [] then Inr (0, g)
      else (case remove_loop (0, dead_values g, g) of
              None \<Rightarrow> Inl Fault_loop
            | Some r \<Rightarrow> bindc r (\<lambda>(removed, _, g). Inr (removed, g))))"

definition remove_unreachable :: "TurboJSSSAGraph \<Rightarrow> u32 \<times> TurboJSSSAGraph" where
  "remove_unreachable g =
     (let dead = (\<lambda>b. \<not> sb_reachable b \<and> \<not> sb_removed b)
      in (of_nat (length (filter dead (sg_blocks g))), g\<lparr>sg_blocks := map (\<lambda>b. if dead b then b\<lparr>sb_removed := True\<rparr> else b) (sg_blocks g)\<rparr>))"

section \<open>The optimizer\<close>

text \<open>The counters of the passes; those of the redundant loads stay together.\<close>

record TurboJSSSAOptimizationStats =
  st_constants_folded :: u32
  st_values_removed :: u32
  st_branches_folded :: u32
  st_blocks_removed :: u32
  st_phis_inserted :: u32
  st_guards_inserted :: u32
  st_types_inferred :: u32
  st_expressions_eliminated :: u32
  st_guards_eliminated :: u32
  st_property_loads_eliminated :: u32
  st_property_store_forwardings :: u32
  st_property_store_phis :: u32
  st_property_dead_stores_eliminated :: u32
  st_virtual_objects_scalarized :: u32
  st_virtual_field_loads_forwarded :: u32
  st_property_loads :: load_counts
  st_element_bounds_checks_eliminated :: u32
  st_element_length_reuses :: u32
  st_element_induction_indexes_recognized :: u32
  st_element_loop_range_proofs :: u32
  st_element_canonical_inductions :: u32
  st_element_length_hoists :: u32
  st_element_base_pointer_hoists :: u32
  st_element_loop_bounds_checks_eliminated :: u32

definition no_stats :: TurboJSSSAOptimizationStats where
  "no_stats = \<lparr>st_constants_folded = 0, st_values_removed = 0, st_branches_folded = 0, st_blocks_removed = 0, st_phis_inserted = 0,
     st_guards_inserted = 0, st_types_inferred = 0, st_expressions_eliminated = 0, st_guards_eliminated = 0,
     st_property_loads_eliminated = 0, st_property_store_forwardings = 0, st_property_store_phis = 0,
     st_property_dead_stores_eliminated = 0, st_virtual_objects_scalarized = 0, st_virtual_field_loads_forwarded = 0,
     st_property_loads = no_loads, st_element_bounds_checks_eliminated = 0, st_element_length_reuses = 0,
     st_element_induction_indexes_recognized = 0, st_element_loop_range_proofs = 0, st_element_canonical_inductions = 0,
     st_element_length_hoists = 0, st_element_base_pointer_hoists = 0, st_element_loop_bounds_checks_eliminated = 0\<rparr>"

text \<open>The allocations of the passes.\<close>

record opt_alloc =
  oa_touched :: bool
  oa_paths :: "nat \<Rightarrow> nat \<Rightarrow> bool"
  oa_worklist :: bool

text \<open>The memory passes, between the common subexpressions and the removal of dead values.\<close>

definition memory_passes :: "opt_alloc \<Rightarrow> TurboJSSSAOptimizationStats \<Rightarrow> TurboJSSSAGraph \<Rightarrow> (TurboJSSSAOptimizationStats \<times> TurboJSSSAGraph) c" where
  "memory_passes A stats g =
     bindc (scalarize_virtual_object_loads (oa_touched A) g) (\<lambda>(forwarded, objects, g).
     bindc (eliminate_overwritten_property_stores g) (\<lambda>(dead_stores, g).
     bindc (create_property_store_phis g) (\<lambda>(phis, g).
     bindc (forward_property_stores_to_loads g) (\<lambda>(forwardings, g).
     bindc (eliminate_redundant_property_loads (oa_paths A) g) (\<lambda>(loads, g).
     bindc (eliminate_redundant_element_loads g) (\<lambda>(bounds, g).
       (case recognize_element_loop_ranges g of ((induction, proofs, canonical), g) \<Rightarrow>
          bindc (eliminate_redundant_guards g) (\<lambda>(guards, g).
            Inr (stats\<lparr>st_virtual_field_loads_forwarded := forwarded, st_virtual_objects_scalarized := objects,
                st_property_dead_stores_eliminated := dead_stores, st_property_store_phis := phis, st_property_store_forwardings := forwardings,
                st_property_loads_eliminated := lc_eliminated loads, st_property_loads := loads,
                st_element_bounds_checks_eliminated := bounds, st_element_length_reuses := bounds,
                st_element_induction_indexes_recognized := induction, st_element_loop_range_proofs := proofs,
                st_element_canonical_inductions := canonical, st_element_length_hoists := canonical, st_element_base_pointer_hoists := canonical,
                st_element_loop_bounds_checks_eliminated := canonical, st_guards_eliminated := guards,
                st_values_removed := st_values_removed stats + (st_expressions_eliminated stats + lc_eliminated loads + forwardings + phis +
                  dead_stores + forwarded + bounds + guards)\<rparr>, g)))))))))"

definition TurboJS_SSAOptimize :: "opt_alloc \<Rightarrow> TurboJSSSAGraph ptr \<Rightarrow> (TurboJSSSAOptimizationStats \<times> TurboJSSSAGraph ptr) c" where
  "TurboJS_SSAOptimize A graph =
     (case graph of
        None \<Rightarrow> Inr (no_stats, None)
      | Some g \<Rightarrow>
          bindc (TurboJS_SSAInferTypes (Some g)) (\<lambda>(inferred, g).
          bindc (foldc fold_value [0..<sg_value_count (the g)] (0, 0, the g)) (\<lambda>(constants, branches, g).
          bindc (TurboJS_SSAInferTypes (Some g)) (\<lambda>(inferred_again, g).
          bindc (eliminate_local_common_expressions (the g)) (\<lambda>(expressions, g).
          bindc (memory_passes A (no_stats\<lparr>st_types_inferred := inferred + inferred_again, st_constants_folded := constants,
                   st_branches_folded := branches, st_expressions_eliminated := expressions\<rparr>) g) (\<lambda>(stats, g).
          bindc (mark_reachable g) (\<lambda>g.
            (case remove_unreachable g of (blocks, g) \<Rightarrow>
               bindc (remove_dead_values (oa_worklist A) g) (\<lambda>(removed, g).
                 Inr (stats\<lparr>st_blocks_removed := blocks, st_values_removed := st_values_removed stats + removed\<rparr>, Some g))))))))))"

section \<open>Specialization from feedback\<close>

text \<open>
  The loop runs while the array grows: \<^verbatim>\<open>value_count\<close> is read in each round. Guards are appended and are not arguments, so
  every round beyond the initial values does nothing.
\<close>

definition specialize_argument ::
  "(nat \<Rightarrow> bool) \<Rightarrow> TurboJSFeedbackVector \<Rightarrow> nat \<Rightarrow> TurboJSIRStatus \<times> TurboJSSSAOptimizationStats ptr \<times> TurboJSSSAGraph
     \<Rightarrow> (TurboJSIRStatus \<times> TurboJSSSAOptimizationStats ptr \<times> TurboJSSSAGraph) loop c" where
  "specialize_argument ok feedback i = (\<lambda>(status, stats, g).
     (let v = sg_values g ! i; k = unat (sv_immediate v)
      in if sv_removed v \<or> sv_opcode v \<noteq> TURBOJS_SSA_ARGUMENT \<or> sint (sv_immediate v) < 0 \<or> unat (fv_argument_count feedback) \<le> k
         then Inr (Go (status, stats, g))
         else bindc (rd (fv_arguments feedback) k) (\<lambda>slot.
           if fs_observed_types slot \<noteq> TURBOJS_FEEDBACK_INT32 \<or> \<not> TurboJS_FeedbackSlotIsStable (Some slot) then Inr (Go (status, stats, g))
           else bindc (emit_value ok (update_value i (\<lambda>v. v\<lparr>sv_type := TURBOJS_SSA_TYPE_INT32\<rparr>) g) (unat (sv_block v)) TURBOJS_SSA_GUARD_INT32
                         TURBOJS_SSA_TYPE_INT32 (sv_id v) TURBOJS_SSA_NO_VALUE (of_nat k) (sv_source_instruction v)) (\<lambda>(guard, g).
             if guard = TURBOJS_SSA_NO_VALUE then Inr (Halt (TURBOJS_IR_OUT_OF_MEMORY, stats, g))
             else Inr (Go (status, map_option (\<lambda>st. st\<lparr>st_guards_inserted := st_guards_inserted st + 1\<rparr>) stats,
                       (update_value (unat guard) (\<lambda>v. v\<lparr>sv_has_deopt_edge := True, sv_deopt_id := sg_deopt_exit_count g\<rparr>) g)
                         \<lparr>sg_deopt_exit_count := sg_deopt_exit_count g + 1\<rparr>))))))"

definition TurboJS_SSASpecializeFromFeedback ::
  "(nat \<Rightarrow> bool) \<Rightarrow> TurboJSSSAGraph ptr \<Rightarrow> TurboJSFeedbackVector ptr \<Rightarrow> TurboJSSSAOptimizationStats ptr
     \<Rightarrow> (TurboJSIRStatus \<times> TurboJSSSAGraph ptr \<times> TurboJSSSAOptimizationStats ptr) c" where
  "TurboJS_SSASpecializeFromFeedback ok graph feedback stats =
     (case (graph, feedback) of
        (Some g, Some fv) \<Rightarrow>
          if sg_blocks g = [] then Inr (TURBOJS_IR_INVALID_ARGUMENT, graph, stats)
          else bindc (scan (specialize_argument ok fv) [0..<sg_value_count g] (TURBOJS_IR_OK, stats, g)) (\<lambda>(status, stats, g).
                 Inr (status, Some g, stats))
      | _ \<Rightarrow> Inr (TURBOJS_IR_INVALID_ARGUMENT, graph, stats))"

end
