(* ===== verification/SSA_Line.thy ===== *)
theory SSA_Line
  imports SSA_Build
begin

text \<open>
  The optimizing tier on straight-line code: the graph that \<^verbatim>\<open>TurboJS_SSABuildFromIR\<close> builds from it and the
  function that \<^verbatim>\<open>lower_graph\<close> makes of that graph, with the proof that the interpreter cannot tell the two
  functions apart; and what the translation does to the checked 32-bit operations.
\<close>

section \<open>Straight-line code\<close>

definition binary_ops :: "TurboJSIROpcode set" where
  "binary_ops = {TURBOJS_IR_ADD_I64, TURBOJS_IR_SUB_I64, TURBOJS_IR_MUL_I64, TURBOJS_IR_LESS_THAN_I64}"

definition line_ops :: "TurboJSIROpcode set" where
  "line_ops = binary_ops \<union> {TURBOJS_IR_ARGUMENT, TURBOJS_IR_CONSTANT_I64}"

definition operands :: "TurboJSIRInstruction \<Rightarrow> u16 list" where
  "operands ins = (if ins_opcode ins \<in> binary_ops then [ins_left ins, ins_right ins]
     else if ins_opcode ins = TURBOJS_IR_RETURN_I64 then [ins_left ins] else [])"

lemma return_not_line [simp]: "TURBOJS_IR_RETURN_I64 \<notin> line_ops" "TURBOJS_IR_RETURN_I64 \<notin> binary_ops"
  by (simp_all add: line_ops_def binary_ops_def)

text \<open>The instruction that defines each register before the instruction \<open>k\<close>.\<close>

fun def_table :: "TurboJSIRInstruction list \<Rightarrow> nat \<Rightarrow> u32 list" where
  "def_table code 0 = replicate TURBOJS_IR_MAX_REGISTERS TURBOJS_SSA_NO_VALUE"
| "def_table code (Suc k) =
     (if ins_opcode (code ! k) \<notin> line_ops then def_table code k
      else (def_table code k)[unat (ins_destination (code ! k)) := of_nat k])"

text \<open>
  Straight-line code: at most 64 operations and then a return, every register defined before it is read.
\<close>

definition line_code :: "TurboJSIRInstruction list \<Rightarrow> bool" where
  "line_code code \<longleftrightarrow> code \<noteq> [] \<and> length code \<le> 65 \<and> ins_opcode (last code) = TURBOJS_IR_RETURN_I64 \<and>
     (\<forall>ins\<in>set (butlast code). ins_opcode ins \<in> line_ops \<and> unat (ins_destination ins) < TURBOJS_IR_MAX_REGISTERS) \<and>
     list_all (\<lambda>k. list_all (\<lambda>r. read_register (def_table code k) r \<noteq> TURBOJS_SSA_NO_VALUE) (operands (code ! k))) [0..<length code]"

lemma line_code_op:
  assumes "line_code code" "k < length code"
  shows "if Suc k = length code then ins_opcode (code ! k) = TURBOJS_IR_RETURN_I64 else ins_opcode (code ! k) \<in> line_ops \<and> unat (ins_destination (code ! k)) < TURBOJS_IR_MAX_REGISTERS"
proof (cases "Suc k = length code")
  case True
  then have "last code = code ! k" using last_conv_nth [of code] assms(2) by (cases code) (auto simp flip: True)
  then show ?thesis using assms(1) True by (simp add: line_code_def)
next
  case False
  then have "code ! k \<in> set (butlast code)" using assms(2) by (auto simp: in_set_conv_nth nth_butlast intro!: exI [of _ k])
  then show ?thesis using assms(1) False by (simp add: line_code_def)
qed

lemma line_code_defined:
  assumes "line_code code" "k < length code" "r \<in> set (operands (code ! k))"
  shows "read_register (def_table code k) r \<noteq> TURBOJS_SSA_NO_VALUE"
  using assms by (auto simp: line_code_def list_all_iff)

lemma length_def_table [simp]: "length (def_table code k) = TURBOJS_IR_MAX_REGISTERS"
  by (induction k) simp_all

lemma small_id:
  assumes "k \<le> 65"
  shows "unat (of_nat k :: u32) = k" "(of_nat k :: u32) \<noteq> TURBOJS_SSA_NO_VALUE"
proof -
  show eq: "unat (of_nat k :: u32) = k" using assms by (simp add: unat_of_nat)
  have "unat (TURBOJS_SSA_NO_VALUE) = 4294967295" by simp
  then show "(of_nat k :: u32) \<noteq> TURBOJS_SSA_NO_VALUE" using eq assms by auto
qed

lemma def_table_bound:
  assumes "k \<le> 65" "r < TURBOJS_IR_MAX_REGISTERS" "def_table code k ! r \<noteq> TURBOJS_SSA_NO_VALUE"
  shows "unat (def_table code k ! r) < k"
  using assms
proof (induction k)
  case (Suc k)
  have "unat (of_nat k :: u32) = k"
    using Suc.prems(1) by (simp add: small_id)
  then show ?case
    using Suc by (cases "unat (ins_destination (code ! k)) = r") (auto split: if_splits)
qed simp

lemma read_register_bound:
  assumes "k \<le> 65" "read_register (def_table code k) r \<noteq> TURBOJS_SSA_NO_VALUE"
  shows "unat (read_register (def_table code k) r) < k" "unat r < TURBOJS_IR_MAX_REGISTERS"
  using assms def_table_bound [of k "unat r" code] by (auto simp: read_register_def split: if_splits)

section \<open>The graph\<close>

text \<open>The value of the instruction \<open>k\<close>, apart from its use count.\<close>

definition line_value :: "TurboJSIRInstruction list \<Rightarrow> nat \<Rightarrow> TurboJSSSAValue" where
  "line_value code k =
     (let ins = code ! k
      in \<lparr>sv_opcode = map_op (ins_opcode ins), sv_type = type_for (ins_opcode ins), sv_id = of_nat k, sv_block = 0,
          sv_left = (if operands ins = [] then TURBOJS_SSA_NO_VALUE else read_register (def_table code k) (ins_left ins)),
          sv_right = (if ins_opcode ins \<in> binary_ops then read_register (def_table code k) (ins_right ins) else TURBOJS_SSA_NO_VALUE),
          sv_immediate = ins_immediate ins, sv_use_count = 0, sv_source_instruction = of_nat k, sv_deopt_id = 0,
          sv_removed = False, sv_has_deopt_edge = False, sv_property = null_property, sv_element = null_element\<rparr>)"

definition unused :: "TurboJSSSAValue \<Rightarrow> TurboJSSSAValue" where
  "unused v = v\<lparr>sv_use_count := 0\<rparr>"

definition line_graph :: "TurboJSIRInstruction list \<Rightarrow> nat \<Rightarrow> TurboJSSSAGraph \<Rightarrow> bool" where
  "line_graph code k g \<longleftrightarrow> map unused (sg_values g) = map (line_value code) [0..<k] \<and> counted (sg_values g) \<and> sg_entry_block g = 0 \<and>
     (\<exists>b. sg_blocks g = [b] \<and> lone_block b \<and> sb_first_value b = 0 \<and> sb_value_count b = of_nat k)"

lemma map_unused_update: "i < length vs \<Longrightarrow> map unused (vs[i := (vs ! i)\<lparr>sv_use_count := n\<rparr>]) = map unused vs"
  by (rule nth_equalityI) (auto simp: nth_list_update unused_def)

text \<open>Counting one more use.\<close>

definition count_use :: "u32 \<Rightarrow> TurboJSSSAValue list \<Rightarrow> TurboJSSSAValue list" where
  "count_use i vs = (if i = TURBOJS_SSA_NO_VALUE then vs else vs[unat i := (vs ! unat i)\<lparr>sv_use_count := sv_use_count (vs ! unat i) + 1\<rparr>])"

lemma count_use_simps:
  assumes "i = TURBOJS_SSA_NO_VALUE \<or> unat i < length vs"
  shows "length (count_use i vs) = length vs" "map unused (count_use i vs) = map unused vs" "map (uses_of k) (count_use i vs) = map (uses_of k) vs"
    "j < length vs \<Longrightarrow> sv_use_count (count_use i vs ! j) = sv_use_count (vs ! j) + of_bool (i \<noteq> TURBOJS_SSA_NO_VALUE \<and> unat i = j)"
proof -
  have "uses_of k (v\<lparr>sv_use_count := n\<rparr>) = uses_of k v" for v n by (simp add: uses_of_def)
  then show "map (uses_of k) (count_use i vs) = map (uses_of k) vs"
    using assms by (auto simp: count_use_def map_update list_update_same_conv)
qed (use assms map_unused_update [of "unat i" vs] in \<open>auto simp: count_use_def nth_list_update\<close>)

lemma counted_snoc:
  assumes vs: "counted vs" "\<forall>v\<in>set vs. \<forall>x\<in>{sv_left v, sv_right v}. x = TURBOJS_SSA_NO_VALUE \<or> unat x < length vs"
    and v: "sv_use_count v = 0" "\<not> sv_removed v" and n: "length vs < 2 ^ 31"
    and ops: "sv_left v = TURBOJS_SSA_NO_VALUE \<or> unat (sv_left v) < length vs" "sv_right v = TURBOJS_SSA_NO_VALUE \<or> unat (sv_right v) < length vs"
  shows "counted (count_use (sv_right v) (count_use (sv_left v) (vs @ [v])))"
proof -
  let ?ws = "count_use (sv_left v) (vs @ [v])"
  have l: "sv_left v = TURBOJS_SSA_NO_VALUE \<or> unat (sv_left v) < length (vs @ [v])" using ops(1) by auto
  note left = count_use_simps [OF l]
  have r: "sv_right v = TURBOJS_SSA_NO_VALUE \<or> unat (sv_right v) < length ?ws" using ops(2) left(1) by auto
  note right = count_use_simps [OF r]
  have "sv_use_count (count_use (sv_right v) ?ws ! k) = of_nat (sum_list (map (uses_of (of_nat k)) (vs @ [v])))" if k: "k < length (vs @ [v])" for k
  proof -
    have id: "unat (of_nat k :: u32) = k" using k n by (simp add: unat_of_nat)
    have eq: "x \<noteq> TURBOJS_SSA_NO_VALUE \<and> unat x = k \<longleftrightarrow> x = of_nat k" for x :: u32
    proof
      assume "x = of_nat k"
      then show "x \<noteq> TURBOJS_SSA_NO_VALUE \<and> unat x = k" using id k n by auto
    qed auto
    have base: "sv_use_count ((vs @ [v]) ! k) = of_nat (sum_list (map (uses_of (of_nat k)) vs))"
    proof (cases "k < length vs")
      case True
      then show ?thesis using vs(1) by (simp add: counted_def nth_append)
    next
      case False
      then have k: "k = length vs" using that by simp
      have "uses_of (of_nat k) w = 0" if "w \<in> set vs" for w
        using vs(2) that id k n by (fastforce simp: uses_of_def)
      then have "sum_list (map (uses_of (of_nat (length vs))) vs) = 0" using k by simp
      then show ?thesis by (simp only: k nth_append_length v(1) semiring_1_class.of_nat_0)
    qed
    show ?thesis
      using right(4) [of k] left(1) left(4) [of k] k base eq [of "sv_left v"] eq [of "sv_right v"] v(2) by (simp add: uses_of_def)
  qed
  then show ?thesis using right(1,3) left(1,3) by (simp add: counted_def)
qed

lemma emit_value_lone:
  assumes g: "sg_blocks g = [b]" and ok: "ok (sg_value_count g + 1)" and n: "sg_value_count g < 2 ^ 31"
    and l: "left = TURBOJS_SSA_NO_VALUE \<or> unat left < sg_value_count g" and r: "right = TURBOJS_SSA_NO_VALUE \<or> unat right < sg_value_count g"
    and vs: "counted (sg_values g)" "\<forall>v\<in>set (sg_values g). \<forall>x\<in>{sv_left v, sv_right v}. x = TURBOJS_SSA_NO_VALUE \<or> unat x < sg_value_count g"
  shows "\<exists>vs. emit_value ok g 0 op ty left right imm src =
      Inr (of_nat (sg_value_count g), g\<lparr>sg_values := vs, sg_blocks := [b\<lparr>sb_value_count := sb_value_count b + 1\<rparr>]\<rparr>) \<and> counted vs \<and>
    map unused vs = map unused (sg_values g) @
      [\<lparr>sv_opcode = op, sv_type = ty, sv_id = of_nat (sg_value_count g), sv_block = 0, sv_left = left, sv_right = right,
        sv_immediate = imm, sv_use_count = 0, sv_source_instruction = src, sv_deopt_id = 0, sv_removed = False, sv_has_deopt_edge = False, sv_property = null_property, sv_element = null_element\<rparr>]"
proof -
  let ?v = "\<lparr>sv_opcode = op, sv_type = ty, sv_id = of_nat (sg_value_count g), sv_block = 0, sv_left = left, sv_right = right,
        sv_immediate = imm, sv_use_count = 0, sv_source_instruction = src, sv_deopt_id = 0, sv_removed = False, sv_has_deopt_edge = False, sv_property = null_property, sv_element = null_element\<rparr>"
  let ?ws = "count_use left (sg_values g @ [?v])"
  have used: "(if i = TURBOJS_SSA_NO_VALUE then Inr vs
     else bindc (rd vs (unat i)) (\<lambda>v :: TurboJSSSAValue. Inr (vs[unat i := v\<lparr>sv_use_count := sv_use_count v + 1\<rparr>]) :: TurboJSSSAValue list c)) = Inr (count_use i vs)"
    if "i = TURBOJS_SSA_NO_VALUE \<or> unat i < length vs" for i vs
    using that by (auto simp: count_use_def rd_def bindc_def)
  have l': "left = TURBOJS_SSA_NO_VALUE \<or> unat left < length (sg_values g @ [?v])" using l by auto
  have r': "right = TURBOJS_SSA_NO_VALUE \<or> unat right < length ?ws" using r count_use_simps(1) [OF l'] by auto
  have "emit_value ok g 0 op ty left right imm src =
      Inr (of_nat (sg_value_count g), g\<lparr>sg_values := count_use right ?ws, sg_blocks := [b\<lparr>sb_value_count := sb_value_count b + 1\<rparr>]\<rparr>)"
    using ok g used [OF l'] used [OF r'] by (simp add: emit_value_def Let_def update_block_def rd_def)
  moreover have "counted (count_use right ?ws)"
    using counted_snoc [OF vs, of ?v] n l r by simp
  moreover have "map unused (count_use right ?ws) = map unused (sg_values g) @ [?v]"
    using count_use_simps(2) [OF l'] count_use_simps(2) [OF r'] by (simp add: unused_def)
  ultimately show ?thesis by blast
qed

lemma line_code_known: "line_code code \<Longrightarrow> k < length code \<Longrightarrow> ins_opcode (code ! k) \<in> insert TURBOJS_IR_RETURN_I64 line_ops"
  using line_code_op [of code k] by (auto split: if_splits)

lemma line_op_translation:
  assumes "op \<in> insert TURBOJS_IR_RETURN_I64 line_ops"
  shows "map_op op \<noteq> TURBOJS_SSA_NOP" "map_op op \<noteq> TURBOJS_SSA_PHI" "map_op op \<noteq> TURBOJS_SSA_GUARD_INT32"
    "map_op op \<noteq> TURBOJS_SSA_JUMP" "map_op op \<noteq> TURBOJS_SSA_BRANCH_TRUE" "map_op op \<noteq> TURBOJS_SSA_BRANCH_FALSE"
    "op \<noteq> TURBOJS_IR_JUMP" "op \<noteq> TURBOJS_IR_BRANCH_TRUE" "op \<noteq> TURBOJS_IR_BRANCH_FALSE"
    "map_op op = TURBOJS_SSA_RETURN \<longleftrightarrow> op = TURBOJS_IR_RETURN_I64" "is_transfer (map_op op) \<longleftrightarrow> op \<notin> line_ops"
    "map_op op = TURBOJS_SSA_ARGUMENT \<or> map_op op = TURBOJS_SSA_CONSTANT_I64 \<longleftrightarrow> op \<notin> insert TURBOJS_IR_RETURN_I64 binary_ops"
  using assms by (auto simp: line_ops_def binary_ops_def map_op_def is_transfer_def)

lemma line_value_operands:
  assumes "line_code code" "k < length code"
  shows "sv_left (line_value code k) = TURBOJS_SSA_NO_VALUE \<or> unat (sv_left (line_value code k)) < k"
    "sv_right (line_value code k) = TURBOJS_SSA_NO_VALUE \<or> unat (sv_right (line_value code k)) < k"
proof -
  have k: "k \<le> 65" using assms by (simp add: line_code_def)
  show "sv_left (line_value code k) = TURBOJS_SSA_NO_VALUE \<or> unat (sv_left (line_value code k)) < k"
    "sv_right (line_value code k) = TURBOJS_SSA_NO_VALUE \<or> unat (sv_right (line_value code k)) < k"
    using read_register_bound(1) [OF k, of code] by (auto simp: line_value_def Let_def)
qed

lemma line_graph_closed:
  assumes code: "line_code code" "k \<le> length code" and g: "line_graph code k g"
  shows "\<forall>v\<in>set (sg_values g). \<forall>x\<in>{sv_left v, sv_right v}. x = TURBOJS_SSA_NO_VALUE \<or> unat x < k"
proof
  fix v assume "v \<in> set (sg_values g)"
  then have "unused v \<in> set (map unused (sg_values g))" by simp
  then have "unused v \<in> line_value code ` {0..<k}" using g by (simp add: line_graph_def del: set_map) simp
  then obtain j where j: "j < k" "unused v = line_value code j" by auto
  have "sv_left v = sv_left (line_value code j)" "sv_right v = sv_right (line_value code j)"
    using arg_cong [OF j(2), of sv_left] arg_cong [OF j(2), of sv_right] by (simp_all add: unused_def)
  then show "\<forall>x\<in>{sv_left v, sv_right v}. x = TURBOJS_SSA_NO_VALUE \<or> unat x < k"
    using line_value_operands [OF code(1), of j] j(1) code(2) by fastforce
qed

lemma build_line_instruction:
  assumes code: "line_code code" "k < length code" and g: "line_graph code k g" and ok: "\<forall>n. al_values A n"
  shows "\<exists>g'. build_instruction A code 0 k (def_table code k, g) = Inr (Inr (def_table code (Suc k), g')) \<and> line_graph code (Suc k) g'"
proof -
  obtain b where b: "sg_blocks g = [b]" "lone_block b" "sg_entry_block g = 0" "map unused (sg_values g) = map (line_value code) [0..<k]" "counted (sg_values g)"
      "sb_first_value b = 0" "sb_value_count b = of_nat k"
    using g by (auto simp: line_graph_def)
  have n: "sg_value_count g = k" using arg_cong [OF b(4), of length] by simp
  have k: "k < 65" using code by (simp add: line_code_def)
  then have id: "(of_nat k :: u32) \<noteq> TURBOJS_SSA_NO_VALUE"
    using small_id(2) [of k] by simp
  have closed: "\<forall>v\<in>set (sg_values g). \<forall>x\<in>{sv_left v, sv_right v}. x = TURBOJS_SSA_NO_VALUE \<or> unat x < sg_value_count g"
    using line_graph_closed [OF code(1) _ g] code(2) n by simp
  let ?v = "line_value code k"
  obtain vs where emit: "emit_value (al_values A) g 0 (sv_opcode ?v) (sv_type ?v) (sv_left ?v) (sv_right ?v) (sv_immediate ?v) (of_nat k) =
        Inr (of_nat k, g\<lparr>sg_values := vs, sg_blocks := [b\<lparr>sb_value_count := sb_value_count b + 1\<rparr>]\<rparr>)"
      "map unused vs = map unused (sg_values g) @ [?v]" "counted vs"
    using emit_value_lone [OF b(1), of "al_values A" "sv_left ?v" "sv_right ?v"] line_value_operands [OF code] ok n k b(5) closed
    by (force simp: line_value_def Let_def)
  let ?g = "g\<lparr>sg_values := vs, sg_blocks := [b\<lparr>sb_value_count := sb_value_count b + 1\<rparr>]\<rparr>"
  have "build_instruction A code 0 k (def_table code k, g) = Inr (Inr (def_table code (Suc k), ?g))"
  proof (cases "ins_opcode (code ! k) \<in> line_ops")
    case True
    then have "ins_opcode (code ! k) \<noteq> TURBOJS_IR_RETURN_I64" by auto
    with True show ?thesis
      using line_code_op [OF code] line_op_translation [OF line_code_known [OF code]] emit(1) id code(2)
      by (simp add: build_instruction_def rd_def bindc_def Let_def line_value_def operands_def split: if_splits)
  next
    case False
    then have "ins_opcode (code ! k) = TURBOJS_IR_RETURN_I64" using line_code_known [OF code] by simp
    with False show ?thesis
      using line_op_translation [OF line_code_known [OF code]] emit(1) id code(2)
      by (simp add: build_instruction_def rd_def bindc_def Let_def line_value_def operands_def split: if_splits)
  qed
  moreover have "line_graph code (Suc k) ?g"
    using b emit(2,3) by (auto simp: line_graph_def lone_block_def)
  ultimately show ?thesis by blast
qed

lemma build_line_instructions:
  assumes code: "line_code code" and ok: "\<forall>n. al_values A n"
  shows "m \<le> length code \<Longrightarrow> line_graph code k g \<Longrightarrow> k \<le> m \<Longrightarrow>
    \<exists>g'. build_instructions A code 0 [k..<m] (def_table code k, g) = Inr (Inr (def_table code m, g')) \<and> line_graph code m g'"
proof (induction "m - k" arbitrary: k g)
  case 0
  then show ?case by simp
next
  case (Suc n)
  then have "k < length code" by simp
  then obtain g' where g': "build_instruction A code 0 k (def_table code k, g) = Inr (Inr (def_table code (Suc k), g'))" "line_graph code (Suc k) g'"
    using build_line_instruction [OF code _ Suc.prems(2) ok] by blast
  have "[k..<m] = k # [Suc k..<m]" using Suc by (simp add: upt_conv_Cons)
  then show ?case
    using g' Suc.hyps(1) [of "Suc k" g'] Suc.prems Suc.hyps(2) by (simp add: bindc_def)
qed

lemma line_leaders:
  assumes "line_code code"
  shows "mark_leaders code = (replicate (length code) False)[0 := True]"
proof -
  have "fold (\<lambda>i leader.
       (let ins = code ! i; opcode = ins_opcode ins; n = length code
        in if opcode = TURBOJS_IR_JUMP \<or> opcode = TURBOJS_IR_BRANCH_TRUE \<or> opcode = TURBOJS_IR_BRANCH_FALSE
           then (let l1 = (if unat (ins_target ins) < n then leader[unat (ins_target ins) := True] else leader)
                 in if i + 1 < n then l1[i + 1 := True] else l1)
           else if opcode = TURBOJS_IR_RETURN_I64 \<and> i + 1 < n then leader[i + 1 := True]
           else leader)) [0..<length code] = id"
  proof (rule fold_id, rule ext)
    fix i leader assume "i \<in> set [0..<length code]"
    then have i: "i < length code" by simp
    show "(let ins = code ! i; opcode = ins_opcode ins; n = length code
        in if opcode = TURBOJS_IR_JUMP \<or> opcode = TURBOJS_IR_BRANCH_TRUE \<or> opcode = TURBOJS_IR_BRANCH_FALSE
           then (let l1 = (if unat (ins_target ins) < n then leader[unat (ins_target ins) := True] else leader)
                 in if i + 1 < n then l1[i + 1 := True] else l1)
           else if opcode = TURBOJS_IR_RETURN_I64 \<and> i + 1 < n then leader[i + 1 := True]
           else leader) = id leader"
      using line_code_op [OF assms i] i by (auto simp: Let_def line_ops_def binary_ops_def split: if_splits)
  qed
  then show ?thesis by (simp add: mark_leaders_def)
qed

lemma add_no_blocks: "\<forall>i\<in>set is. \<not> leader ! i \<Longrightarrow> add_blocks ok is leader g = (True, g)"
  by (induction "is") simp_all

lemma build_line_blocks:
  assumes code: "line_code (irf_code f)" and f: "irf_instruction_count f = length (irf_code f)"
    and A: "al_leader A" "al_blocks A 1" and g0: "sg_blocks g0 = []" "sg_values g0 = []"
  shows "\<exists>b. build_blocks A f g0 = Inr (True, g0\<lparr>sg_entry_block := 0, sg_blocks := [b]\<rparr>) \<and> lone_block b \<and>
    sb_first_instruction b = 0 \<and> sb_instruction_count b = of_nat (length (irf_code f)) \<and> sb_value_count b = 0"
proof -
  let ?code = "irf_code f"
  define n where "n = length ?code"
  have n: "0 < n" "n \<le> 65" using code by (simp_all add: line_code_def n_def)
  let ?l = "(replicate n False)[0 := True]"
  have up: "[0..<n] = 0 # [1..<n]" using n by (simp add: upt_conv_Cons)
  have "add_blocks (al_blocks A) [0..<n] ?l g0 = (True, g0\<lparr>sg_blocks := [new_block 0 0 0]\<rparr>)"
    unfolding up using n A(2) g0 by (simp add: add_no_blocks)
  moreover have "link_block ?code g 0 = Inr (True, g)"
    if "sg_blocks g = [b]" "sb_first_instruction b = 0" "sb_instruction_count b = of_nat n" for g b
  proof -
    have "unat (of_nat n - 1 :: u32) = n - 1"
      using n small_id(1) [of "n - 1"] by simp
    then show ?thesis
      using that line_code_op [OF code, of "n - 1"] n by (simp add: link_block_def rd_def bindc_def Let_def n_def)
  qed
  ultimately show ?thesis
    using code f A n g0 line_leaders [OF code]
    by (intro exI [of _ "(new_block 0 0 0)\<lparr>sb_instruction_count := of_nat n, sb_reachable := True\<rparr>"]) (simp add: build_blocks_def Let_def set_instruction_counts_def update_block_def new_block_def bindc_def lone_block_def flip: n_def)
qed

lemma build_line:
  assumes code: "line_code (irf_code f)" and f: "irf_instruction_count f = length (irf_code f)"
    and A: "al_leader A" "\<forall>n. al_blocks A n" "al_out A" "\<forall>n. al_values A n" "al_dominators A"
  shows "\<exists>g. TurboJS_SSABuildFromIR A (Some f) (Some g0) d = Some (Inr (TURBOJS_IR_OK, Some g, d)) \<and>
    line_graph (irf_code f) (length (irf_code f)) g"
proof -
  let ?code = "irf_code f"
  define i where "i = the (TurboJS_SSAGraphInit (TurboJS_SSAGraphDestroy (Some g0)))"
  have i: "sg_blocks i = []" "sg_values i = []"
    by (simp_all add: TurboJS_SSAGraphInit_def TurboJS_SSAGraphDestroy_def i_def)
  obtain b where b: "build_blocks A f i = Inr (True, i\<lparr>sg_entry_block := 0, sg_blocks := [b]\<rparr>)" "lone_block b"
      "sb_first_instruction b = 0" "sb_instruction_count b = of_nat (length ?code)" "sb_value_count b = 0"
    using build_line_blocks [OF code f A(1) spec [OF A(2)] i] by blast
  let ?g = "i\<lparr>sg_entry_block := 0, sg_blocks := [b]\<rparr>"
  let ?reg = "replicate TURBOJS_IR_MAX_REGISTERS TURBOJS_SSA_NO_VALUE"
  let ?b = "b\<lparr>sb_first_value := of_nat (sg_value_count ?g) - sb_value_count b\<rparr>"
  let ?g1 = "i\<lparr>sg_entry_block := 0, sg_blocks := [?b]\<rparr>"
  have len: "unat (of_nat (length ?code) :: u32) = length ?code"
    using code small_id(1) [of "length ?code"] by (simp add: line_code_def)
  have "line_graph ?code 0 ?g1"
    using i b(2,5) by (simp add: line_graph_def lone_block_def counted_def)
  then obtain g' where g': "build_instructions A ?code 0 [0..<length ?code] (def_table ?code 0, ?g1) = Inr (Inr (def_table ?code (length ?code), g'))"
      "line_graph ?code (length ?code) g'"
    using build_line_instructions [OF code A(4), of "length ?code" 0 ?g1] by blast
  have "foldc (\<lambda>ri. merge_register A [?reg] 0 ri) [0..<TURBOJS_IR_MAX_REGISTERS] (?reg, ?g) = Inr (?reg, ?g)"
    using unedged_registers [of ?g 0 ?reg] b(2) by (simp add: lone_block_def)
  then have "build_values A ?code [0] ([?reg], ?g) = Inr (Inr ([def_table ?code (length ?code)], g'))"
    using g'(1) b len by (simp add: build_block_def bindc_def Let_def update_block_def)
  then have step: "TurboJS_SSABuildFromIR A (Some f) (Some g0) d = finish_graph A g' d"
    using b(1) A(3) by (simp add: TurboJS_SSABuildFromIR_def flip: i_def)
  obtain b' where b': "sg_blocks g' = [b']" "lone_block b'" "sg_entry_block g' = 0" and first: "sb_first_value b' = 0" "sb_value_count b' = of_nat (length ?code)"
    and vals: "map unused (sg_values g') = map (line_value ?code) [0..<length ?code]"
    using g'(2) by (auto simp: line_graph_def)
  have "ssa_value_ok g' k (sg_values g' ! k)" if "k < length ?code" for k
  proof -
    have k: "k \<le> 65" using that code by (simp add: line_code_def)
    have "unused (sg_values g' ! k) = line_value ?code k"
      using that arg_cong [OF vals, of "\<lambda>xs. xs ! k"] arg_cong [OF vals, of length] by simp
    moreover have "ssa_value_ok g' k (unused v) \<longleftrightarrow> ssa_value_ok g' k v" for v
      by (simp add: ssa_value_ok_def unused_def)
    moreover have "ssa_value_ok g' k (line_value ?code k)"
      using line_value_operands [OF code that] b'(1) small_id(1) [OF k] line_op_translation(2,3) [OF line_code_known [OF code that]]
      by (simp add: ssa_value_ok_def line_value_def Let_def)
    ultimately show ?thesis by metis
  qed
  then have "finish_graph A g' d = Some (Inr (TURBOJS_IR_OK, Some (g'\<lparr>sg_blocks := [finished_block b']\<rparr>), d))"
    using finish_lone_graph [OF b' A(5)] arg_cong [OF vals, of length] by (simp add: list_all_iff)
  moreover have "line_graph ?code (length ?code) (g'\<lparr>sg_blocks := [finished_block b']\<rparr>)"
    using b' first vals g'(2) by (simp add: line_graph_def lone_block_def finished_block_def)
  ultimately show ?thesis using step by auto
qed

section \<open>The lowered function\<close>

text \<open>The instruction that lowering makes of the value \<open>k\<close>: its result is in the register \<open>k\<close>.\<close>

definition operand_register :: "TurboJSIRInstruction list \<Rightarrow> nat \<Rightarrow> u16 \<Rightarrow> u16" where
  "operand_register code k r = of_nat (unat (read_register (def_table code k) r))"

definition line_lowered :: "TurboJSIRInstruction list \<Rightarrow> nat \<Rightarrow> TurboJSIRInstruction" where
  "line_lowered code k =
     (let ins = code ! k; new = (blank_instruction (of_nat k))\<lparr>ins_opcode := ins_opcode ins\<rparr>
      in if ins_opcode ins \<in> binary_ops
         then new\<lparr>ins_destination := of_nat k, ins_left := operand_register code k (ins_left ins), ins_right := operand_register code k (ins_right ins)\<rparr>
         else if ins_opcode ins = TURBOJS_IR_RETURN_I64 then new\<lparr>ins_left := operand_register code k (ins_left ins)\<rparr>
         else new\<lparr>ins_destination := of_nat k, ins_immediate := ins_immediate ins\<rparr>)"

definition register_map :: "nat \<Rightarrow> u16 list" where
  "register_map k = map of_nat [0..<k] @ replicate (TURBOJS_IR_MAX_REGISTERS - k) TURBOJS_IR_NO_REGISTER"

definition line_function :: "TurboJSIRInstruction list \<Rightarrow> u16 \<Rightarrow> nat \<Rightarrow> TurboJSIRFunction \<Rightarrow> bool" where
  "line_function code args k f \<longleftrightarrow> storage_inv f \<and> irf_code f = map (line_lowered code) [0..<k] \<and>
     irf_register_count f = of_nat (min k (length code - 1)) \<and> irf_argument_count f = args"

lemma small_register:
  assumes "k \<le> 65"
  shows "unat (of_nat k :: u16) = k" "(of_nat k :: u16) \<noteq> TURBOJS_IR_NO_REGISTER"
proof -
  show eq: "unat (of_nat k :: u16) = k" using assms by (simp add: unat_of_nat)
  have "unat (TURBOJS_IR_NO_REGISTER) = 65535" by simp
  then show "(of_nat k :: u16) \<noteq> TURBOJS_IR_NO_REGISTER" using eq assms by auto
qed

lemma mapped_register:
  assumes "unat i < k" "k \<le> TURBOJS_IR_MAX_REGISTERS"
  shows "mapped (register_map k) i = of_nat (unat i)" "mapped (register_map k) i \<noteq> TURBOJS_IR_NO_REGISTER"
proof -
  show "mapped (register_map k) i = of_nat (unat i)"
    using assms by (simp add: mapped_def register_map_def nth_append)
  then show "mapped (register_map k) i \<noteq> TURBOJS_IR_NO_REGISTER"
    using assms small_register(2) [of "unat i"] by simp
qed

lemma register_map_update:
  assumes "k < TURBOJS_IR_MAX_REGISTERS"
  shows "(register_map k)[k := of_nat k] = register_map (Suc k)" "length (register_map k) = TURBOJS_IR_MAX_REGISTERS"
proof -
  have "replicate (TURBOJS_IR_MAX_REGISTERS - k) TURBOJS_IR_NO_REGISTER =
      TURBOJS_IR_NO_REGISTER # replicate (TURBOJS_IR_MAX_REGISTERS - Suc k) TURBOJS_IR_NO_REGISTER"
    using assms by (simp add: Suc_diff_Suc flip: replicate_Suc)
  then show "(register_map k)[k := of_nat k] = register_map (Suc k)" "length (register_map k) = TURBOJS_IR_MAX_REGISTERS"
    using assms by (simp_all add: register_map_def list_update_append)
qed

lemma emit_succeeds:
  assumes "storage_inv f" "ok"
  shows "\<exists>f'. TurboJS_IREmit ok (Some f) ins = (TURBOJS_IR_OK, Some f') \<and> storage_inv f' \<and> irf_code f' = irf_code f @ [ins] \<and>
    irf_register_count f' = irf_register_count f \<and> irf_argument_count f' = irf_argument_count f"
proof -
  obtain f' where f': "TurboJS_IREmit ok (Some f) ins = (TURBOJS_IR_OK, Some f')"
    using assms(2) by (simp add: TurboJS_IREmit_def Let_def)
  then show ?thesis
    using emit_storage [OF assms(1) f'] emit_code [OF assms(1) f'] emit_frame [OF f'] by auto
qed

lemma lower_result_succeeds:
  assumes out: "storage_inv out" "irf_register_count out = of_nat k" and k: "k < TURBOJS_IR_MAX_REGISTERS"
    and v: "unat (sv_id v) < length m" and ok: "\<forall>n. ok n"
  shows "\<exists>out'. lower_result ok v ins (m, out) = Inr (Inr (m[unat (sv_id v) := of_nat k], out')) \<and> storage_inv out' \<and>
    irf_code out' = irf_code out @ [ins\<lparr>ins_destination := of_nat k\<rparr>] \<and> irf_register_count out' = of_nat (Suc k) \<and>
    irf_argument_count out' = irf_argument_count out"
proof -
  let ?f = "(touch out)\<lparr>irf_register_count := irf_register_count out + 1\<rparr>"
  have reg: "TurboJS_IRAllocateRegister (Some out) = (of_nat k, Some ?f)"
    using out(2) k small_register(1) [of k] by (simp add: TurboJS_IRAllocateRegister_def)
  have f: "storage_inv ?f" "irf_code ?f = irf_code out" "irf_argument_count ?f = irf_argument_count out"
    using allocate_register_storage [OF out(1) reg] by (simp_all add: irf_code_def touch_def split: option.split)
  obtain f' where "TurboJS_IREmit (ok (irf_instruction_count out)) (Some ?f) (ins\<lparr>ins_destination := of_nat k\<rparr>) = (TURBOJS_IR_OK, Some f')"
      "storage_inv f'" "irf_code f' = irf_code ?f @ [ins\<lparr>ins_destination := of_nat k\<rparr>]" "irf_register_count f' = irf_register_count ?f"
      "irf_argument_count f' = irf_argument_count ?f"
    using emit_succeeds [OF f(1)] ok by blast
  then show ?thesis
    using reg f small_register(2) [of k] k v out(2) by (simp add: lower_result_def wr_def bindc_def)
qed

lemma lower_line_value:
  assumes code: "line_code code" "k < length code" and out: "line_function code args k out" and ok: "\<forall>n. ok n"
  shows "\<exists>out'. lower_value ok (line_value code k) (register_map k, out) =
      Inr (Inr (register_map (min (Suc k) (length code - 1)), out')) \<and> line_function code args (Suc k) out'"
proof -
  have k: "k \<le> 65" using code by (simp add: line_code_def)
  have st: "storage_inv out" using out by (simp add: line_function_def)
  let ?v = "line_value code k"
  note v = line_op_translation [OF line_code_known [OF code]]
  have operand: "mapped (register_map k) (read_register (def_table code k) r) = operand_register code k r"
      "operand_register code k r \<noteq> TURBOJS_IR_NO_REGISTER"
    if "r \<in> set (operands (code ! k))" for r
  proof -
    have "unat (read_register (def_table code k) r) < k" "k \<le> TURBOJS_IR_MAX_REGISTERS"
      using read_register_bound(1) [OF k line_code_defined [OF code that]] code by (simp_all add: line_code_def)
    from mapped_register [OF this] show "mapped (register_map k) (read_register (def_table code k) r) = operand_register code k r"
      "operand_register code k r \<noteq> TURBOJS_IR_NO_REGISTER" by (simp_all add: operand_register_def)
  qed
  show ?thesis
  proof (cases "Suc k = length code")
    case True
    then have op: "ins_opcode (code ! k) = TURBOJS_IR_RETURN_I64" and kk: "k = length code - 1" using line_code_op [OF code] by auto
    obtain f' where "TurboJS_IREmit (ok (irf_instruction_count out)) (Some out) (line_lowered code k) = (TURBOJS_IR_OK, Some f')"
        "storage_inv f'" "irf_code f' = irf_code out @ [line_lowered code k]" "irf_register_count f' = irf_register_count out"
        "irf_argument_count f' = irf_argument_count out"
      using emit_succeeds [OF st] ok by blast
    then show ?thesis
      using op kk out operand [of "ins_left (code ! k)"]
      by (simp add: lower_value_def Let_def line_value_def map_op_def operands_def line_lowered_def line_function_def bindc_def)
  next
    case False
    then have op: "ins_opcode (code ! k) \<in> line_ops" and kk: "Suc k \<le> length code - 1" "k < TURBOJS_IR_MAX_REGISTERS"
      using line_code_op [OF code] code by (auto simp: line_code_def)
    have reg: "irf_register_count out = of_nat k" "min (Suc k) (length code - 1) = Suc k"
      using out kk by (simp_all add: line_function_def min_def)
    have id: "unat (sv_id ?v) = k" using small_id(1) [OF k] by (simp add: line_value_def Let_def)
    let ?ins = "(line_lowered code k)\<lparr>ins_destination := TURBOJS_IR_NO_REGISTER\<rparr>"
    have "lower_value ok ?v (register_map k, out) = lower_result ok ?v ?ins (register_map k, out)"
    proof (cases "ins_opcode (code ! k) \<in> binary_ops")
      case True
      then show ?thesis
        using operand [of "ins_left (code ! k)"] operand [of "ins_right (code ! k)"]
        by (auto simp: lower_value_def Let_def line_value_def map_op_def operands_def line_lowered_def binary_ops_def blank_instruction_def)
    next
      case False
      then have "ins_opcode (code ! k) = TURBOJS_IR_ARGUMENT \<or> ins_opcode (code ! k) = TURBOJS_IR_CONSTANT_I64"
        using op by (auto simp: line_ops_def)
      then show ?thesis
        using False by (auto simp: lower_value_def Let_def line_value_def map_op_def operands_def line_lowered_def blank_instruction_def)
    qed
    moreover have "?ins\<lparr>ins_destination := of_nat k\<rparr> = line_lowered code k"
      using op by (auto simp: line_lowered_def Let_def blank_instruction_def)
    ultimately show ?thesis
      using lower_result_succeeds [OF st reg(1) kk(2) _ ok, of ?v "register_map k" ?ins] register_map_update [OF kk(2)] id kk(2) out reg(2)
      by (auto simp: line_function_def)
  qed
qed

lemma lower_line_values:
  assumes code: "line_code code" and ok: "\<forall>n. ok n"
  shows "k \<le> length code \<Longrightarrow> line_function code args k out \<Longrightarrow>
    \<exists>out'. lower_values ok k (map (line_value code) [k..<length code]) (register_map (min k (length code - 1)), out) = Inr (Inr out') \<and>
      line_function code args (length code) out'"
proof (induction "length code - k" arbitrary: k out)
  case 0
  then show ?case by auto
next
  case (Suc n)
  then have k: "k < length code" "min k (length code - 1) = k" by simp_all
  obtain out' where out': "lower_value ok (line_value code k) (register_map k, out) = Inr (Inr (register_map (min (Suc k) (length code - 1)), out'))"
      "line_function code args (Suc k) out'"
    using lower_line_value [OF code k(1) Suc.prems(2) ok] by blast
  have "[k..<length code] = k # [Suc k..<length code]" using k by (simp add: upt_conv_Cons)
  then show ?case
    using out' Suc.hyps(1) [of "Suc k" out'] Suc.hyps(2) k by (simp add: bindc_def)
qed

lemma unused_fields:
  "sv_opcode (unused v) = sv_opcode v" "sv_removed (unused v) = sv_removed v" "sv_left (unused v) = sv_left v" "sv_right (unused v) = sv_right v"
  "sv_immediate (unused v) = sv_immediate v" "sv_source_instruction (unused v) = sv_source_instruction v" "sv_id (unused v) = sv_id v"
  by (simp_all add: unused_def)

lemma lower_result_unused: "lower_result ok (unused v) ins = lower_result ok v ins"
  unfolding lower_result_def unused_fields ..

lemma lower_value_unused: "lower_value ok (unused v) = lower_value ok v"
  unfolding lower_value_def unused_fields lower_result_unused ..

lemma lower_values_unused: "lower_values ok i (map unused vs) s = lower_values ok i vs s"
  by (induction vs arbitrary: i s) (auto simp: lower_value_unused bindc_def split: sum.splits)

lemma lower_line_graph:
  assumes code: "line_code code" and g: "line_graph code (length code) g" and ok: "\<forall>n. ok n"
  shows "\<exists>out'. lower_graph ok H i (Some g) args (Some out) d = bindc (TurboJS_IRVerify H (Some out') d) (\<lambda>(st, d). Inr (st, Some out', d, i + 1)) \<and>
    line_function code args (length code) out'"
proof -
  let ?f = "null_function\<lparr>irf_argument_count := args, irf_instance_id := i, irf_revision := 1\<rparr>"
  have init: "TurboJS_IRFunctionInit i (Some out) args = (Some ?f, i + 1)"
    by (simp add: TurboJS_IRFunctionInit_def)
  have "line_function code args 0 ?f"
    using init_storage [of i out args] init_code [of i out args] by (simp add: init line_function_def null_function_def)
  then obtain out' where out': "lower_values ok 0 (map (line_value code) [0..<length code]) (register_map 0, ?f) = Inr (Inr out')"
      "line_function code args (length code) out'"
    using lower_line_values [OF code ok, of 0 args ?f] by auto
  have "lower_values ok 0 (sg_values g) (register_map 0, ?f) = Inr (Inr out')"
    using out'(1) g lower_values_unused [of ok 0 "sg_values g" "(register_map 0, ?f)"] by (simp add: line_graph_def)
  moreover have "sg_block_count g = 1" "register_map 0 = replicate TURBOJS_IR_MAX_REGISTERS TURBOJS_IR_NO_REGISTER"
    using g by (auto simp: line_graph_def register_map_def)
  ultimately show ?thesis
    using out'(2) by (auto simp: lower_graph_def init bindc_def)
qed

section \<open>Both functions behave alike\<close>

text \<open>
  Where a register of the source is defined, the register of its defining instruction holds the same value.
\<close>

definition line_sim :: "TurboJSIRInstruction list \<Rightarrow> exec_state \<Rightarrow> exec_state \<Rightarrow> bool" where
  "line_sim code s t \<longleftrightarrow> ex_pc t = ex_pc s \<and> ex_pc s \<le> length code \<and> ex_result t = ex_result s \<and>
     length (ex_registers s) = TURBOJS_IR_MAX_REGISTERS \<and> length (ex_registers t) = TURBOJS_IR_MAX_REGISTERS \<and>
     (\<forall>r<TURBOJS_IR_MAX_REGISTERS. def_table code (ex_pc s) ! r \<noteq> TURBOJS_SSA_NO_VALUE \<longrightarrow>
        ex_registers t ! unat (def_table code (ex_pc s) ! r) = ex_registers s ! r)"

fun flow_sim :: "TurboJSIRInstruction list \<Rightarrow> exec_flow c \<Rightarrow> exec_flow c \<Rightarrow> bool" where
  "flow_sim code (Inl e) (Inl e') \<longleftrightarrow> e = e'"
| "flow_sim code (Inr (Next s)) (Inr (Next t)) \<longleftrightarrow> line_sim code s t"
| "flow_sim code (Inr (Stop x)) (Inr (Stop y)) \<longleftrightarrow> x = y"
| "flow_sim code _ _ \<longleftrightarrow> False"

lemma sim_operand:
  assumes code: "line_code code" "ex_pc s < length code" and sim: "line_sim code s t" and r: "r \<in> set (operands (code ! ex_pc s))"
  shows "\<exists>v. get_register s r = Inr v \<and> get_register t (operand_register code (ex_pc s) r) = Inr v"
proof -
  let ?k = "ex_pc s" and ?d = "read_register (def_table code (ex_pc s)) r"
  have k: "?k \<le> 65" using code by (simp add: line_code_def)
  have d: "?d \<noteq> TURBOJS_SSA_NO_VALUE" by (rule line_code_defined [OF code r])
  note b = read_register_bound [OF k d]
  have "unat ?d < TURBOJS_IR_MAX_REGISTERS" using b(1) code by (simp add: line_code_def)
  moreover have "unat (operand_register code ?k r) = unat ?d"
    using b(1) k small_register(1) [of "unat ?d"] by (simp add: operand_register_def)
  ultimately show ?thesis
    using sim b(2) d by (auto simp: get_register_def rd_def line_sim_def read_register_def split: if_splits)
qed

lemma sim_write:
  assumes code: "line_code code" "ex_pc s < length code" "Suc (ex_pc s) \<noteq> length code" and sim: "line_sim code s t"
  shows "flow_sim code (set_register s (ins_destination (code ! ex_pc s)) v) (set_register t (of_nat (ex_pc s)) v)"
proof -
  let ?k = "ex_pc s" and ?r = "unat (ins_destination (code ! ex_pc s))"
  have k: "?k < TURBOJS_IR_MAX_REGISTERS" "unat (of_nat ?k :: u16) = ?k" "unat (of_nat ?k :: u32) = ?k"
    using code small_register(1) [of ?k] small_id(1) [of ?k] by (simp_all add: line_code_def)
  have r: "?r < TURBOJS_IR_MAX_REGISTERS" "ins_opcode (code ! ?k) \<in> line_ops"
    using line_code_op [OF code(1,2)] code(3) by simp_all
  have "(ex_registers t)[?k := v] ! unat (def_table code (Suc ?k) ! i) = (ex_registers s)[?r := v] ! i"
    if i: "i < TURBOJS_IR_MAX_REGISTERS" "def_table code (Suc ?k) ! i \<noteq> TURBOJS_SSA_NO_VALUE" for i
  proof (cases "i = ?r")
    case True
    then show ?thesis using sim r k by (simp add: line_sim_def)
  next
    case False
    then have d: "def_table code (Suc ?k) ! i = def_table code ?k ! i" using r by simp
    then have "unat (def_table code ?k ! i) < ?k" using def_table_bound [of ?k i code] i k by simp
    then show ?thesis using False sim d i by (simp add: line_sim_def)
  qed
  then show ?thesis
    using sim k r code(2) by (simp add: set_register_def wr_def bindc_def line_sim_def del: def_table.simps)
qed

lemma line_step:
  assumes code: "line_code code" "ex_pc s < length code" and sim: "line_sim code s t"
  shows "flow_sim code (exec_step E H f (code ! ex_pc s) s) (exec_step E H f' (line_lowered code (ex_pc s)) t)"
proof (cases "Suc (ex_pc s) = length code")
  case True
  then have op: "ins_opcode (code ! ex_pc s) = TURBOJS_IR_RETURN_I64" using line_code_op [OF code] by simp
  then show ?thesis
    using sim_operand [OF code sim, of "ins_left (code ! ex_pc s)"] sim
    by (auto simp: exec_step_def line_lowered_def Let_def operands_def bindc_def ret_def)
next
  case False
  let ?ins = "code ! ex_pc s"
  note upd = sim_write [OF code False sim]
  have op: "ins_opcode ?ins \<in> line_ops" using line_code_op [OF code] False by simp
  show ?thesis
  proof (cases "ins_opcode ?ins \<in> binary_ops")
    case True
    then have "ins_left ?ins \<in> set (operands ?ins)" "ins_right ?ins \<in> set (operands ?ins)" by (simp_all add: operands_def)
    then obtain l r where "get_register s (ins_left ?ins) = Inr l" "get_register t (operand_register code (ex_pc s) (ins_left ?ins)) = Inr l"
        "get_register s (ins_right ?ins) = Inr r" "get_register t (operand_register code (ex_pc s) (ins_right ?ins)) = Inr r"
      using sim_operand [OF code sim] by metis
    then show ?thesis
      using True upd
      by (auto simp: binary_ops_def exec_step_def line_lowered_def Let_def exec_i64_def exec_compare_def bindc_def chk64_def)
  next
    case False
    then have "ins_opcode ?ins = TURBOJS_IR_ARGUMENT \<or> ins_opcode ?ins = TURBOJS_IR_CONSTANT_I64" using op by (auto simp: line_ops_def)
    then show ?thesis
      using False upd sim by (auto simp: exec_step_def line_lowered_def Let_def ret_def line_sim_def)
  qed
qed

lemma line_loop:
  assumes code: "line_code code" "irf_code f = code" "irf_code f' = map (line_lowered code) [0..<length code]"
    and count: "irf_instruction_count f = length code" "irf_instruction_count f' = length code"
  shows "line_sim code s t \<Longrightarrow>
    limited_loop (in_code f') (exec_body E H f') (exec_end x) (exec_end y) n t = limited_loop (in_code f) (exec_body E H f) (exec_end x) (exec_end y) n s"
proof (induction n arbitrary: s t)
  case 0
  then show ?case by (simp add: in_code_def count line_sim_def exec_end_def)
next
  case (Suc n)
  show ?case
  proof (cases "ex_pc s < length code")
    case True
    have pc: "ex_pc t = ex_pc s" using Suc.prems by (simp add: line_sim_def)
    have body: "exec_body E H f s = exec_step E H f (code ! ex_pc s) s" "exec_body E H f' t = exec_step E H f' (line_lowered code (ex_pc s)) t"
      using True pc code by (simp_all add: exec_body_def rd_def bindc_def)
    have "flow_sim code (exec_body E H f s) (exec_body E H f' t)"
      unfolding body by (rule line_step [OF code(1) True Suc.prems])
    then show ?thesis
      using True pc Suc.IH by (cases "(code, exec_body E H f s, exec_body E H f' t)" rule: flow_sim.cases)
        (simp_all add: in_code_def count bindc_def)
  next
    case False
    then show ?thesis using Suc.prems by (simp add: in_code_def count line_sim_def exec_end_def)
  qed
qed

lemma line_prefix:
  assumes code: "line_code code" "irf_code f = code" "irf_code f' = map (line_lowered code) [0..<length code]"
    and count: "irf_instruction_count f = length code" "irf_instruction_count f' = length code"
  shows "line_sim code s t \<Longrightarrow> n + ex_pc s = length code \<Longrightarrow> execute_prefix n E H f' args t = execute_prefix n E H f args s"
proof (induction n arbitrary: s t)
  case 0
  then show ?case by (simp add: line_sim_def exec_end_def)
next
  case (Suc n)
  let ?ins = "code ! ex_pc s"
  have pc: "ex_pc s < length code" "ex_pc t = ex_pc s" using Suc.prems by (simp_all add: line_sim_def)
  show ?case
  proof (cases "ins_opcode ?ins = TURBOJS_IR_ARGUMENT")
    case True
    then have next_pc: "Suc (ex_pc s) \<noteq> length code" using line_code_op [OF code(1) pc(1)] by auto
    have low: "line_lowered code (ex_pc s) = (blank_instruction (of_nat (ex_pc s)))\<lparr>ins_opcode := TURBOJS_IR_ARGUMENT,
        ins_destination := of_nat (ex_pc s), ins_immediate := ins_immediate ?ins\<rparr>"
      using True by (simp add: line_lowered_def Let_def binary_ops_def)
    have upd: "flow_sim code (set_register s (ins_destination ?ins) v) (set_register t (of_nat (ex_pc s)) v)" for v
      by (rule sim_write [OF code(1) pc(1) next_pc Suc.prems(1)])
    have "bindc (wr (ex_registers t) (unat (of_nat (ex_pc s) :: u16)) v) (\<lambda>regs. execute_prefix n E H f' args (t\<lparr>ex_registers := regs, ex_pc := ex_pc t + 1\<rparr>)) =
        bindc (wr (ex_registers s) (unat (ins_destination ?ins)) v) (\<lambda>regs. execute_prefix n E H f args (s\<lparr>ex_registers := regs, ex_pc := ex_pc s + 1\<rparr>))" for v
      using upd [of v] Suc.IH Suc.prems(2) by (auto simp: set_register_def wr_def bindc_def split: if_splits)
    then show ?thesis
      using True low pc code by (simp add: rd_def bindc_def)
  next
    case False
    have "ins_opcode (line_lowered code (ex_pc s)) = ins_opcode ?ins" by (simp add: line_lowered_def Let_def)
    then show ?thesis
      using False pc code count line_loop [OF code count Suc.prems(1)] by (simp add: rd_def bindc_def execute_from_def step_limit_def)
  qed
qed

lemma wf_line_instruction:
  "ins_opcode ins \<in> binary_ops \<Longrightarrow> wf_instruction H f ins \<longleftrightarrow>
     ins_destination ins < irf_register_count f \<and> ins_left ins < irf_register_count f \<and> ins_right ins < irf_register_count f"
  "ins_opcode ins = TURBOJS_IR_RETURN_I64 \<Longrightarrow> wf_instruction H f ins \<longleftrightarrow> ins_left ins < irf_register_count f"
  "ins_opcode ins = TURBOJS_IR_CONSTANT_I64 \<Longrightarrow> wf_instruction H f ins \<longleftrightarrow> ins_destination ins < irf_register_count f"
  "ins_opcode ins = TURBOJS_IR_ARGUMENT \<Longrightarrow> wf_instruction H f ins \<longleftrightarrow> ins_destination ins < irf_register_count f \<and>
     0 \<le> sint (ins_immediate ins) \<and> unat (ins_immediate ins) < unat (irf_argument_count f)"
proof -
  assume "ins_opcode ins \<in> binary_ops"
  then consider "ins_opcode ins = TURBOJS_IR_ADD_I64" | "ins_opcode ins = TURBOJS_IR_SUB_I64" | "ins_opcode ins = TURBOJS_IR_MUL_I64"
    | "ins_opcode ins = TURBOJS_IR_LESS_THAN_I64" by (auto simp: binary_ops_def)
  then show "wf_instruction H f ins \<longleftrightarrow>
     ins_destination ins < irf_register_count f \<and> ins_left ins < irf_register_count f \<and> ins_right ins < irf_register_count f"
    by cases (simp_all add: wf_instruction_def enum_sets)
qed (simp_all add: wf_instruction_def enum_sets)

lemma line_well_formed:
  assumes code: "line_code (irf_code f)" and f: "wf_function H f" and f': "line_function (irf_code f) (irf_argument_count f) (length (irf_code f)) f'"
  shows "wf_function H f'" "sites_resolve H f'" "sites_resolve H f"
proof -
  let ?code = "irf_code f"
  have n: "?code \<noteq> []" "length ?code \<le> 65" using code by (simp_all add: line_code_def)
  have regs: "unat (irf_register_count f') = length ?code - 1"
  proof -
    have "irf_register_count f' = of_nat (length ?code - 1)" using f' by (simp add: line_function_def min_absorb2)
    then show ?thesis using n small_register(1) [of "length ?code - 1"] by simp
  qed
  have "wf_instruction H f' (line_lowered ?code k)" if k: "k < length ?code" for k
  proof -
    have k65: "k \<le> 65" using k n by simp
    have dest: "of_nat k < irf_register_count f'" if "Suc k \<noteq> length ?code"
      using that k regs small_register(1) [OF k65] by (simp add: word_less_nat_alt)
    have operand: "operand_register ?code k r < irf_register_count f'" if "r \<in> set (operands (?code ! k))" for r
    proof -
      have "unat (read_register (def_table ?code k) r) < k"
        using read_register_bound(1) [OF k65 line_code_defined [OF code k that]] .
      then show ?thesis
        using k65 k regs small_register(1) [of "unat (read_register (def_table ?code k) r)"] by (simp add: word_less_nat_alt operand_register_def)
    qed
    have wf: "wf_instruction H f (?code ! k)" using f k by (simp add: wf_function_def)
    have args: "irf_argument_count f' = irf_argument_count f" using f' by (simp add: line_function_def)
    consider "ins_opcode (?code ! k) \<in> binary_ops" "Suc k \<noteq> length ?code" | "ins_opcode (?code ! k) = TURBOJS_IR_RETURN_I64"
      | "ins_opcode (?code ! k) = TURBOJS_IR_CONSTANT_I64" "Suc k \<noteq> length ?code" | "ins_opcode (?code ! k) = TURBOJS_IR_ARGUMENT" "Suc k \<noteq> length ?code"
      using line_code_op [OF code k] by (auto simp: line_ops_def split: if_splits)
    then show ?thesis
    proof cases
      case 1
      then show ?thesis using dest operand by (simp add: wf_line_instruction line_lowered_def Let_def operands_def)
    next
      case 2
      then show ?thesis using operand by (simp add: wf_line_instruction line_lowered_def Let_def operands_def)
    next
      case 3
      then show ?thesis using dest by (simp add: wf_line_instruction line_lowered_def Let_def binary_ops_def)
    next
      case 4
      then show ?thesis using dest wf args by (simp add: wf_line_instruction line_lowered_def Let_def binary_ops_def)
    qed
  qed
  moreover have "ins_opcode (line_lowered ?code (length ?code - 1)) = TURBOJS_IR_RETURN_I64"
    using line_code_op [OF code, of "length ?code - 1"] n by (simp add: line_lowered_def Let_def)
  ultimately show "wf_function H f'"
    using f' n regs by (auto simp: wf_function_def line_function_def return_ops_def intro!: bexI [of _ "length ?code - 1"])
  have "ins_opcode (?code ! k) \<notin> native_call_ops" if "k < length ?code" for k
    using line_code_known [OF code that] by (auto simp: native_call_ops_def line_ops_def binary_ops_def)
  moreover have "ins_opcode (line_lowered ?code k) = ins_opcode (?code ! k)" for k by (simp add: line_lowered_def Let_def)
  ultimately show "sites_resolve H f'" "sites_resolve H f"
    using f' by (auto simp: sites_resolve_def site_resolves_def line_function_def in_set_conv_nth)
qed

lemma line_execute:
  assumes st: "storage_inv f" and wf: "wf_function H f" and code: "line_code (irf_code f)"
    and f': "line_function (irf_code f) (irf_argument_count f) (length (irf_code f)) f'"
  shows "TurboJS_IRExecute E H (Some f') args n result = TurboJS_IRExecute E H (Some f) args n result"
proof (cases result)
  case (Some cell)
  let ?code = "irf_code f"
  note wf' = line_well_formed [OF code wf f']
  have st': "storage_inv f'" "irf_code f' = map (line_lowered ?code) [0..<length ?code]" "irf_argument_count f' = irf_argument_count f"
    using f' by (simp_all add: line_function_def)
  have count: "irf_instruction_count f = length ?code" "irf_instruction_count f' = length ?code"
    using length_irf_code [OF st] length_irf_code [OF st'(1)] st'(2) by simp_all
  obtain d d' where "TurboJS_IRVerify H (Some f) (Some null_diagnostic) = Inr (TURBOJS_IR_OK, d)"
      "TurboJS_IRVerify H (Some f') (Some null_diagnostic) = Inr (TURBOJS_IR_OK, d')"
    using verify_ok_iff [OF st wf'(3)] verify_ok_iff [OF st'(1) wf'(2)] wf wf'(1) by metis
  moreover have "line_sim ?code (initial_state cell) (initial_state cell)"
    by (simp add: line_sim_def initial_state_def)
  then have "execute_prefix (length ?code) E H f' xs (initial_state cell) = execute_prefix (length ?code) E H f xs (initial_state cell)" for xs
    using line_prefix [OF code refl st'(2) count] by (simp add: initial_state_def)
  ultimately show ?thesis
    using Some st'(3) count by (simp add: TurboJS_IRExecute_def bindc_def)
qed (simp add: TurboJS_IRExecute_def)

lemma optimizing_line:
  assumes "storage_inv f" "wf_function H f" "line_code (irf_code f)"
    and "al_leader A" "\<forall>n. al_blocks A n" "al_out A" "\<forall>n. al_values A n" "al_dominators A" "\<forall>n. ok n"
  shows "\<exists>g f' d'. TurboJS_SSABuildFromIR A (Some f) (Some g0) d = Some (Inr (TURBOJS_IR_OK, Some g, d)) \<and>
    lower_graph ok H i (Some g) (irf_argument_count f) (Some out) d = Inr (TURBOJS_IR_OK, Some f', d', i + 1) \<and>
    (\<forall>E args n result. TurboJS_IRExecute E H (Some f') args n result = TurboJS_IRExecute E H (Some f) args n result)"
proof -
  let ?code = "irf_code f"
  have count: "irf_instruction_count f = length ?code" using length_irf_code [OF assms(1)] by simp
  obtain g where g: "TurboJS_SSABuildFromIR A (Some f) (Some g0) d = Some (Inr (TURBOJS_IR_OK, Some g, d))" "line_graph ?code (length ?code) g"
    using build_line [OF assms(3) count assms(4-8)] by blast
  obtain f' where f': "lower_graph ok H i (Some g) (irf_argument_count f) (Some out) d =
        bindc (TurboJS_IRVerify H (Some f') d) (\<lambda>(st, d). Inr (st, Some f', d, i + 1))"
      "line_function ?code (irf_argument_count f) (length ?code) f'"
    using lower_line_graph [OF assms(3) g(2) assms(9)] by blast
  have "storage_inv f'" using f'(2) by (simp add: line_function_def)
  then obtain d' where "TurboJS_IRVerify H (Some f') d = Inr (TURBOJS_IR_OK, d')"
    using verify_ok_iff line_well_formed [OF assms(3,2) f'(2)] by metis
  then show ?thesis
    using g(1) f'(1) line_execute [OF assms(1-3) f'(2)] by (auto simp: bindc_def)
qed

section \<open>Properties\<close>

text \<open>
  The optimizing tier preserves straight-line code. A verified function of 64-bit operations that ends in its only
  return, has at most 64 operations and defines every register before it reads it is translated to SSA and lowered
  back when memory suffices, with status OK, and the interpreter gives the same status, the same
  result and the same faults on both functions for any arguments.
\<close>

lemma optimizing_straight_line_correct:
  assumes "storage_inv f" "wf_function H f" "line_code (irf_code f)"
    and "al_leader A" "\<forall>n. al_blocks A n" "al_out A" "\<forall>n. al_values A n" "al_dominators A" "\<forall>n. ok n"
  shows "\<exists>g f' d'. TurboJS_SSABuildFromIR A (Some f) (Some g0) d = Some (Inr (TURBOJS_IR_OK, Some g, d)) \<and>
    lower_graph ok H i (Some g) (irf_argument_count f) (Some out) d = Inr (TURBOJS_IR_OK, Some f', d', i + 1) \<and>
    (\<forall>E args n result. TurboJS_IRExecute E H (Some f') args n result = TurboJS_IRExecute E H (Some f) args n result)"
  using assms by (rule optimizing_line)

definition enough_memory :: ssa_alloc where
  "enough_memory = \<lparr>al_leader = True, al_blocks = (\<lambda>_. True), al_out = True, al_values = (\<lambda>_. True), al_dominators = True\<rparr>"

definition empty_graph :: TurboJSSSAGraph where
  "empty_graph = \<lparr>sg_values = [], sg_blocks = [], sg_entry_block = 0, sg_deopt_exit_count = 0\<rparr>"

text \<open>\<open>argument + 1\<close>, with the addition as a parameter.\<close>

definition increment :: "TurboJSIROpcode \<Rightarrow> TurboJSIRFunction" where
  "increment op = null_function\<lparr>irf_instructions := Some
     [(blank_instruction 0)\<lparr>ins_opcode := TURBOJS_IR_ARGUMENT, ins_destination := 0\<rparr>,
      (blank_instruction 0)\<lparr>ins_opcode := TURBOJS_IR_CONSTANT_I64, ins_destination := 1, ins_immediate := 1\<rparr>,
      (blank_instruction 0)\<lparr>ins_opcode := op, ins_destination := 2, ins_left := 0, ins_right := 1\<rparr>,
      (blank_instruction 0)\<lparr>ins_opcode := TURBOJS_IR_RETURN_I64, ins_left := 2\<rparr>],
     irf_instruction_count := 4, irf_instruction_capacity := 16, irf_register_count := 3, irf_argument_count := 1\<rparr>"

lemma increment_code:
  "irf_code (increment op) =
     [(blank_instruction 0)\<lparr>ins_opcode := TURBOJS_IR_ARGUMENT, ins_destination := 0\<rparr>,
      (blank_instruction 0)\<lparr>ins_opcode := TURBOJS_IR_CONSTANT_I64, ins_destination := 1, ins_immediate := 1\<rparr>,
      (blank_instruction 0)\<lparr>ins_opcode := op, ins_destination := 2, ins_left := 0, ins_right := 1\<rparr>,
      (blank_instruction 0)\<lparr>ins_opcode := TURBOJS_IR_RETURN_I64, ins_left := 2\<rparr>]"
  by (simp add: increment_def irf_code_def null_function_def)

lemma increment_ok:
  assumes "op \<in> arithmetic_ops"
  shows "storage_inv (increment op)" "wf_function empty_heap (increment op)"
proof -
  show "storage_inv (increment op)" by (simp add: increment_def storage_inv_def null_function_def)
  have "irf_register_count (increment op) = 3" "irf_argument_count (increment op) = 1" by (simp_all add: increment_def)
  then show "wf_function empty_heap (increment op)"
    using assms by (auto simp: wf_function_def increment_code wf_instruction_def enum_sets blank_instruction_def)
qed

lemma def_table_numeral: "def_table code (numeral n) = def_table code (Suc (pred_numeral n))"
  by (simp add: numeral_eq_Suc)

lemma increment_line: "line_code (irf_code (increment TURBOJS_IR_ADD_I64))"
proof -
  have "[0..<4] = [0, 1, 2, 3]" by (simp add: upt_rec)
  then show ?thesis
    by (simp add: line_code_def increment_code line_ops_def binary_ops_def operands_def read_register_def blank_instruction_def def_table_numeral)
qed

lemma increment_optimized:
  "\<exists>g f' d'. TurboJS_SSABuildFromIR enough_memory (Some (increment TURBOJS_IR_ADD_I64)) (Some empty_graph) None =
      Some (Inr (TURBOJS_IR_OK, Some g, None)) \<and>
    lower_graph (\<lambda>_. True) empty_heap 1 (Some g) 1 (Some null_function) None = Inr (TURBOJS_IR_OK, Some f', d', 2) \<and>
    (\<forall>args. TurboJS_IRExecute example_env empty_heap (Some f') args 1 (Some 0) =
      TurboJS_IRExecute example_env empty_heap (Some (increment TURBOJS_IR_ADD_I64)) args 1 (Some 0))"
proof -
  have "irf_argument_count (increment TURBOJS_IR_ADD_I64) = 1" by (simp add: increment_def)
  then show ?thesis
    using optimizing_line [OF increment_ok [of TURBOJS_IR_ADD_I64] increment_line,
        where A = enough_memory and ok = "\<lambda>_. True" and ?g0.0 = empty_graph and d = None and i = 1 and out = null_function]
    by (fastforce simp: enough_memory_def arithmetic_ops_def)
qed

lemma increment_runs:
  "TurboJS_IRExecute example_env empty_heap (Some (increment TURBOJS_IR_ADD_I64)) (Some [2147483647]) 1 (Some 0) = Inr (TURBOJS_IR_OK, Some 2147483648)"
  "TurboJS_IRExecute example_env empty_heap (Some (increment TURBOJS_IR_ADD_I32_CHECKED)) (Some [2147483647]) 1 (Some 0) = Inr (TURBOJS_IR_BAILOUT, Some 0)"
proof -
  have v: "\<exists>d. TurboJS_IRVerify empty_heap (Some (increment op)) (Some null_diagnostic) = Inr (TURBOJS_IR_OK, d)"
    if "op \<in> {TURBOJS_IR_ADD_I64, TURBOJS_IR_ADD_I32_CHECKED}" for op
  proof -
    have "op \<in> arithmetic_ops" "op \<notin> native_call_ops" using that by (auto simp: arithmetic_ops_def native_call_ops_def)
    then have "sites_resolve empty_heap (increment op)"
      by (simp add: sites_resolve_def increment_code site_resolves_def native_call_ops_def)
    then show ?thesis
      using verify_ok_iff [OF increment_ok(1)] increment_ok(2) \<open>op \<in> arithmetic_ops\<close> by metis
  qed
  have f: "irf_instruction_count (increment op) = 4" "irf_argument_count (increment op) = 1" for op by (simp_all add: increment_def)
  have run: "TurboJS_IRExecute example_env empty_heap (Some (increment op)) (Some [2147483647]) 1 (Some 0) =
      bindc (execute_prefix 4 example_env empty_heap (increment op) [2147483647] (initial_state 0)) (\<lambda>(st, v). Inr (st, Some v))"
    if "op \<in> {TURBOJS_IR_ADD_I64, TURBOJS_IR_ADD_I32_CHECKED}" for op
  proof -
    obtain d where "TurboJS_IRVerify empty_heap (Some (increment op)) (Some null_diagnostic) = Inr (TURBOJS_IR_OK, d)"
      using v \<open>op \<in> {TURBOJS_IR_ADD_I64, TURBOJS_IR_ADD_I32_CHECKED}\<close> by blast
    then show ?thesis by (simp add: TurboJS_IRExecute_def f)
  qed
  define s1 where "s1 = (initial_state 0)\<lparr>ex_registers := (replicate 64 0)[0 := 2147483647], ex_pc := 1\<rparr>"
  define s2 where "s2 = (initial_state 0)\<lparr>ex_registers := (replicate 64 0)[0 := 2147483647, 1 := 1], ex_pc := 2\<rparr>"
  define s3 where "s3 = (initial_state 0)\<lparr>ex_registers := (replicate 64 0)[0 := 2147483647, 1 := 1, 2 := 2147483648], ex_pc := 3\<rparr>"
  note at = exec_body_def increment_code rd_def exec_step_def blank_instruction_def exec_ops wr_def initial_state_def
  have body1: "exec_body example_env empty_heap (increment op) s1 = Inr (Next s2)" for op
    by (simp add: at s1_def s2_def)
  have body2: "exec_body example_env empty_heap (increment TURBOJS_IR_ADD_I64) s2 = Inr (Next s3)"
    "exec_body example_env empty_heap (increment TURBOJS_IR_ADD_I32_CHECKED) s2 = Inr (Stop (TURBOJS_IR_BAILOUT, 0))"
    by (simp_all add: at s2_def s3_def exec_checked_i32_def Let_def chk64_def in_int64_def)
  have body3: "exec_body example_env empty_heap (increment op) s3 = Inr (Stop (TURBOJS_IR_OK, 2147483648))" for op
    by (simp add: at s3_def)
  have "execute_prefix 4 example_env empty_heap (increment op) [2147483647] (initial_state 0) = execute_from example_env empty_heap (increment op) s1" for op
  proof -
    have "execute_prefix (Suc 3) example_env empty_heap (increment op) [2147483647] (initial_state 0) =
        execute_prefix 3 example_env empty_heap (increment op) [2147483647] s1"
      unfolding execute_prefix.simps(2) by (simp add: increment_code rd_def wr_def blank_instruction_def s1_def initial_state_def)
    also have "\<dots> = execute_from example_env empty_heap (increment op) s1"
      by (rule execute_prefix_first) (simp_all add: increment_code s1_def blank_instruction_def)
    finally show ?thesis by simp
  qed
  moreover have "in_code (increment op) s1" "in_code (increment op) s2" "in_code (increment op) s3" for op
    by (simp_all add: in_code_def f s1_def s2_def s3_def)
  ultimately show
    "TurboJS_IRExecute example_env empty_heap (Some (increment TURBOJS_IR_ADD_I64)) (Some [2147483647]) 1 (Some 0) = Inr (TURBOJS_IR_OK, Some 2147483648)"
    "TurboJS_IRExecute example_env empty_heap (Some (increment TURBOJS_IR_ADD_I32_CHECKED)) (Some [2147483647]) 1 (Some 0) = Inr (TURBOJS_IR_BAILOUT, Some 0)"
    using body1 body2 body3 unfolding run [OF insertI1] run [OF insertI2 [OF insertI1]]
    by (simp_all add: execute_from_def step_limit_def f limited_loop_numeral)
qed

section \<open>Checked arithmetic\<close>

text \<open>The function with every checked 32-bit addition, subtraction and multiplication replaced by the plain 64-bit one.\<close>

definition uncheck :: "TurboJSIRInstruction \<Rightarrow> TurboJSIRInstruction" where
  "uncheck ins = ins\<lparr>ins_opcode :=
     (case ins_opcode ins of
        TURBOJS_IR_ADD_I32_CHECKED \<Rightarrow> TURBOJS_IR_ADD_I64
      | TURBOJS_IR_SUB_I32_CHECKED \<Rightarrow> TURBOJS_IR_SUB_I64
      | TURBOJS_IR_MUL_I32_CHECKED \<Rightarrow> TURBOJS_IR_MUL_I64
      | op \<Rightarrow> op)\<rparr>"

definition without_checks :: "TurboJSIRFunction \<Rightarrow> TurboJSIRFunction" where
  "without_checks f = f\<lparr>irf_instructions := map_option (map uncheck) (irf_instructions f)\<rparr>"

lemma uncheck_op:
  "map_op (ins_opcode (uncheck ins)) = map_op (ins_opcode ins)" "type_for (ins_opcode (uncheck ins)) = type_for (ins_opcode ins)"
  "ins_opcode (uncheck ins) = TURBOJS_IR_JUMP \<longleftrightarrow> ins_opcode ins = TURBOJS_IR_JUMP"
  "ins_opcode (uncheck ins) = TURBOJS_IR_BRANCH_TRUE \<longleftrightarrow> ins_opcode ins = TURBOJS_IR_BRANCH_TRUE"
  "ins_opcode (uncheck ins) = TURBOJS_IR_BRANCH_FALSE \<longleftrightarrow> ins_opcode ins = TURBOJS_IR_BRANCH_FALSE"
  "ins_opcode (uncheck ins) = TURBOJS_IR_RETURN_I64 \<longleftrightarrow> ins_opcode ins = TURBOJS_IR_RETURN_I64"
  by (cases "ins_opcode ins"; simp add: uncheck_def map_op_def type_for_def)+

lemma uncheck_fields:
  "ins_left (uncheck ins) = ins_left ins" "ins_right (uncheck ins) = ins_right ins" "ins_destination (uncheck ins) = ins_destination ins"
  "ins_target (uncheck ins) = ins_target ins" "ins_immediate (uncheck ins) = ins_immediate ins"
  by (simp_all add: uncheck_def)

lemma rd_map_uncheck: "bindc (rd (map uncheck code) i) k = bindc (rd code i) (\<lambda>ins. k (uncheck ins))"
  by (simp add: rd_def bindc_def)

lemma uncheck_leaders: "mark_leaders (map uncheck code) = mark_leaders code"
proof -
  have "map uncheck code ! i = uncheck (code ! i)" if "i \<in> set [0..<length code]" for i
    using that by simp
  then show ?thesis
    unfolding mark_leaders_def length_map by (intro fold_cong refl ext) (simp only: Let_def uncheck_op uncheck_fields)
qed

lemma uncheck_links: "link_blocks (map uncheck code) is g = link_blocks code is g"
proof (induction "is" arbitrary: g)
  case (Cons i "is")
  have "link_block (map uncheck code) g i = link_block code g i"
    unfolding link_block_def Let_def rd_map_uncheck uncheck_op uncheck_fields ..
  then show ?case unfolding link_blocks.simps Cons.IH by simp
qed simp

lemma uncheck_instructions: "build_instructions A (map uncheck code) bi iis s = build_instructions A code bi iis s"
proof (induction iis arbitrary: s)
  case (Cons ii iis)
  have "build_instruction A (map uncheck code) bi ii s = build_instruction A code bi ii s"
    unfolding build_instruction_def Let_def rd_map_uncheck uncheck_op uncheck_fields ..
  then show ?case unfolding build_instructions.simps Cons.IH by simp
qed simp

lemma uncheck_values: "build_values A (map uncheck code) bis s = build_values A code bis s"
proof (induction bis arbitrary: s)
  case (Cons bi bis)
  have "build_block A (map uncheck code) bi s = build_block A code bi s"
    unfolding build_block_def Let_def uncheck_instructions ..
  then show ?case unfolding build_values.simps Cons.IH by simp
qed simp

lemma without_checks_code: "irf_code (without_checks f) = map uncheck (irf_code f)" "irf_instruction_count (without_checks f) = irf_instruction_count f"
  by (simp_all add: without_checks_def irf_code_def take_map split: option.split)

lemma graph_forgets_checks: "TurboJS_SSABuildFromIR A (Some (without_checks f)) graph d = TurboJS_SSABuildFromIR A (Some f) graph d"
proof -
  have blocks: "build_blocks A (without_checks f) g = build_blocks A f g" for g
    unfolding build_blocks_def Let_def without_checks_code uncheck_leaders uncheck_links length_map ..
  show ?thesis
  proof (cases graph)
    case (Some g)
    show ?thesis
      unfolding TurboJS_SSABuildFromIR_def Some prod.case option.case blocks without_checks_code uncheck_values ..
  qed (simp add: TurboJS_SSABuildFromIR_def)
qed

text \<open>
  C37. The optimizing tier drops overflow checks. The graph of a function does not tell the checked 32-bit operations
  from the plain 64-bit ones, and so \<open>argument + 1\<close> with a checked addition is compiled to a function that
  answers 2147483648 where the interpreter bails out on the original.
\<close>

theorem checked_addition_miscompiled:
  "(\<forall>A f graph d. TurboJS_SSABuildFromIR A (Some (without_checks f)) graph d = TurboJS_SSABuildFromIR A (Some f) graph d) \<and>
   (\<exists>g f' d'. TurboJS_SSABuildFromIR enough_memory (Some (increment TURBOJS_IR_ADD_I32_CHECKED)) (Some empty_graph) None =
      Some (Inr (TURBOJS_IR_OK, Some g, None)) \<and>
    lower_graph (\<lambda>_. True) empty_heap 1 (Some g) 1 (Some null_function) None = Inr (TURBOJS_IR_OK, Some f', d', 2) \<and>
    TurboJS_IRExecute example_env empty_heap (Some (increment TURBOJS_IR_ADD_I32_CHECKED)) (Some [2147483647]) 1 (Some 0) = Inr (TURBOJS_IR_BAILOUT, Some 0) \<and>
    TurboJS_IRExecute example_env empty_heap (Some f') (Some [2147483647]) 1 (Some 0) = Inr (TURBOJS_IR_OK, Some 2147483648))"
proof (intro conjI allI graph_forgets_checks)
  let ?f = "increment TURBOJS_IR_ADD_I64" and ?c = "increment TURBOJS_IR_ADD_I32_CHECKED"
  have f: "without_checks ?c = ?f" by (simp add: without_checks_def increment_def uncheck_def blank_instruction_def null_function_def)
  obtain g f' d' where opt: "TurboJS_SSABuildFromIR enough_memory (Some ?f) (Some empty_graph) None = Some (Inr (TURBOJS_IR_OK, Some g, None))"
      "lower_graph (\<lambda>_. True) empty_heap 1 (Some g) 1 (Some null_function) None = Inr (TURBOJS_IR_OK, Some f', d', 2)"
      "TurboJS_IRExecute example_env empty_heap (Some f') (Some [2147483647]) 1 (Some 0) =
       TurboJS_IRExecute example_env empty_heap (Some ?f) (Some [2147483647]) 1 (Some 0)"
    using increment_optimized by blast
  show "\<exists>g f' d'. TurboJS_SSABuildFromIR enough_memory (Some ?c) (Some empty_graph) None =
      Some (Inr (TURBOJS_IR_OK, Some g, None)) \<and>
    lower_graph (\<lambda>_. True) empty_heap 1 (Some g) 1 (Some null_function) None = Inr (TURBOJS_IR_OK, Some f', d', 2) \<and>
    TurboJS_IRExecute example_env empty_heap (Some ?c) (Some [2147483647]) 1 (Some 0) = Inr (TURBOJS_IR_BAILOUT, Some 0) \<and>
    TurboJS_IRExecute example_env empty_heap (Some f') (Some [2147483647]) 1 (Some 0) = Inr (TURBOJS_IR_OK, Some 2147483648)"
    using opt graph_forgets_checks [of enough_memory ?c "Some empty_graph" None] f increment_runs by metis
qed

end
