(* ===== verification/SSA_Scalar.thy ===== *)
theory SSA_Scalar
  imports SSA_Opt SSA_Line
begin

text \<open>
  What straight-line SSA graphs mean, and the lowering of any of them: a function that returns exactly when the graph
  has a value and no operation of it overflows, and then returns that value.
\<close>

section \<open>Straight-line graphs\<close>

definition binary_ssa :: "TurboJSSSAOpcode set" where
  "binary_ssa = {TURBOJS_SSA_ADD_I64, TURBOJS_SSA_SUB_I64, TURBOJS_SSA_MUL_I64, TURBOJS_SSA_LESS_THAN_I64}"

definition leaf_ssa :: "TurboJSSSAOpcode set" where
  "leaf_ssa = {TURBOJS_SSA_ARGUMENT, TURBOJS_SSA_CONSTANT_I64}"

text \<open>
  The value \<open>i\<close> of a straight-line graph that returns at \<open>r\<close>, for a function of \<open>argc\<close> arguments: values before the
  return compute, guards may follow it, and operands come earlier.
\<close>

definition scalar_value :: "u16 \<Rightarrow> nat \<Rightarrow> nat \<Rightarrow> TurboJSSSAValue \<Rightarrow> bool" where
  "scalar_value argc r i v \<longleftrightarrow> unat (sv_id v) = i \<and> sv_block v = 0 \<and>
     (if i < r then sv_opcode v \<in> binary_ssa \<union> leaf_ssa else if i = r then sv_opcode v = TURBOJS_SSA_RETURN
      else sv_opcode v = TURBOJS_SSA_GUARD_INT32 \<and> sv_has_deopt_edge v) \<and>
     (if sv_opcode v \<in> leaf_ssa then sv_left v = TURBOJS_SSA_NO_VALUE else unat (sv_left v) < i \<and> unat (sv_left v) < r) \<and>
     (if sv_opcode v \<in> binary_ssa then unat (sv_right v) < i else sv_right v = TURBOJS_SSA_NO_VALUE) \<and>
     (sv_opcode v = TURBOJS_SSA_ARGUMENT \<longrightarrow> 0 \<le> sint (sv_immediate v) \<and> unat (sv_immediate v) < unat argc)"

text \<open>Values that are not removed use values that are not removed.\<close>

definition operands_live :: "TurboJSSSAValue list \<Rightarrow> TurboJSSSAValue \<Rightarrow> bool" where
  "operands_live vs v \<longleftrightarrow> (\<forall>k\<in>{sv_left v, sv_right v}. k \<noteq> TURBOJS_SSA_NO_VALUE \<longrightarrow> \<not> sv_removed (vs ! unat k))"

definition scalar_values :: "u16 \<Rightarrow> nat \<Rightarrow> TurboJSSSAValue list \<Rightarrow> bool" where
  "scalar_values argc r vs \<longleftrightarrow> r < length vs \<and> r \<le> TURBOJS_IR_MAX_REGISTERS \<and> length vs < 2 ^ 31 \<and> \<not> sv_removed (vs ! r) \<and>
     (\<forall>i<length vs. scalar_value argc r i (vs ! i)) \<and> (\<forall>v\<in>set vs. \<not> sv_removed v \<longrightarrow> operands_live vs v)"

section \<open>Meaning\<close>

definition value_at :: "i64 list \<Rightarrow> u32 \<Rightarrow> i64" where
  "value_at D k = (if unat k < length D then D ! unat k else 0)"

definition denote :: "i64 list \<Rightarrow> i64 list \<Rightarrow> TurboJSSSAValue \<Rightarrow> i64" where
  "denote args D v =
     (let l = value_at D (sv_left v); r = value_at D (sv_right v); op = sv_opcode v
      in if op = TURBOJS_SSA_ARGUMENT then (if unat (sv_immediate v) < length args then args ! unat (sv_immediate v) else 0)
         else if op = TURBOJS_SSA_CONSTANT_I64 then sv_immediate v
         else if op = TURBOJS_SSA_ADD_I64 then l + r
         else if op = TURBOJS_SSA_SUB_I64 then l - r
         else if op = TURBOJS_SSA_MUL_I64 then l * r
         else if op = TURBOJS_SSA_LESS_THAN_I64 then of_bool64 (sint l < sint r)
         else l)"

definition denotes :: "i64 list \<Rightarrow> TurboJSSSAValue list \<Rightarrow> i64 list" where
  "denotes args vs = foldl (\<lambda>D v. D @ [denote args D v]) [] vs"

text \<open>The operation of a value does not overflow.\<close>

definition fits :: "i64 list \<Rightarrow> TurboJSSSAValue \<Rightarrow> bool" where
  "fits D v \<longleftrightarrow>
     (let l = sint (value_at D (sv_left v)); r = sint (value_at D (sv_right v)); op = sv_opcode v
      in (op = TURBOJS_SSA_ADD_I64 \<longrightarrow> in_int64 (l + r)) \<and> (op = TURBOJS_SSA_SUB_I64 \<longrightarrow> in_int64 (l - r)) \<and>
         (op = TURBOJS_SSA_MUL_I64 \<longrightarrow> in_int64 (l * r)))"

lemma denotes_snoc: "denotes args (vs @ [v]) = denotes args vs @ [denote args (denotes args vs) v]"
  by (simp add: denotes_def)

lemma length_denotes [simp]: "length (denotes args vs) = length vs"
  by (induction vs rule: rev_induct) (simp_all add: denotes_snoc, simp add: denotes_def)

text \<open>The operands of a value come before it.\<close>

definition backward :: "nat \<Rightarrow> TurboJSSSAValue \<Rightarrow> bool" where
  "backward i v \<longleftrightarrow> (\<forall>k\<in>{sv_left v, sv_right v}. k = TURBOJS_SSA_NO_VALUE \<or> unat k < i)"

lemma denote_take:
  assumes "backward i v" "i \<le> length D" "length D < 2 ^ 32 - 1"
  shows "denote args (take i D) v = denote args D v"
proof -
  have "value_at (take i D) k = value_at D k" if "k = TURBOJS_SSA_NO_VALUE \<or> unat k < i" for k
    using that assms(2,3) by (auto simp: value_at_def)
  then show ?thesis using assms(1) by (simp add: denote_def backward_def)
qed

lemma denotes_nth:
  "i < length vs \<Longrightarrow> denotes args vs ! i = denote args (take i (denotes args vs)) (vs ! i)"
proof (induction vs rule: rev_induct)
  case (snoc v vs)
  then show ?case by (cases "i < length vs") (auto simp: denotes_snoc nth_append less_Suc_eq)
qed simp

text \<open>The meaning of the values is the only solution of their equations.\<close>

lemma denotes_unique:
  assumes "\<forall>i<length vs. backward i (vs ! i)" "length D = length vs" "length vs < 2 ^ 32 - 1" "\<forall>i<length vs. D ! i = denote args D (vs ! i)"
  shows "denotes args vs = D"
proof -
  have "take i (denotes args vs) = take i D" if "i \<le> length vs" for i
    using that
  proof (induction i)
    case (Suc i)
    then have i: "i < length vs" and eq: "take i (denotes args vs) = take i D" by simp_all
    have "denotes args vs ! i = D ! i"
      using denotes_nth [OF i] eq assms i denote_take [of i "vs ! i" D] by simp
    then show ?case using i eq assms(2) by (simp add: take_Suc_conv_app_nth)
  qed simp
  from this [of "length vs"] show ?thesis using assms(2) by simp
qed

lemma denotes_equation:
  assumes "\<forall>i<length vs. backward i (vs ! i)" "length vs < 2 ^ 32 - 1" "i < length vs"
  shows "denotes args vs ! i = denote args (denotes args vs) (vs ! i)"
  using denotes_nth [OF assms(3)] denote_take [of i "vs ! i" "denotes args vs"] assms by simp

lemma scalar_value_backward: "scalar_value argc r i v \<Longrightarrow> backward i v"
  by (cases "sv_opcode v \<in> leaf_ssa"; cases "sv_opcode v \<in> binary_ssa") (simp_all add: scalar_value_def backward_def)

lemma scalar_valuesD:
  assumes "scalar_values argc r vs" "i < length vs"
  shows "scalar_value argc r i (vs ! i)" "backward i (vs ! i)" "\<not> sv_removed (vs ! i) \<Longrightarrow> operands_live vs (vs ! i)"
  using assms scalar_value_backward by (auto simp: scalar_values_def)

lemma scalar_bounds: "scalar_values argc r vs \<Longrightarrow> r < length vs \<and> r \<le> TURBOJS_IR_MAX_REGISTERS \<and> length vs < 2 ^ 31 \<and> \<not> sv_removed (vs ! r)"
  by (simp add: scalar_values_def)

lemma scalar_equation:
  assumes "scalar_values argc r vs" "i < length vs"
  shows "denotes args vs ! i = denote args (denotes args vs) (vs ! i)"
  using denotes_equation [of vs i] scalar_valuesD(2) [OF assms(1)] scalar_bounds [OF assms(1)] assms(2) by simp

section \<open>The lowered code\<close>

definition emits :: "TurboJSSSAValue \<Rightarrow> bool" where
  "emits v \<longleftrightarrow> \<not> sv_removed v \<and> sv_opcode v \<noteq> TURBOJS_SSA_NOP \<and> sv_opcode v \<noteq> TURBOJS_SSA_GUARD_INT32"

definition emitted :: "TurboJSSSAValue list \<Rightarrow> nat \<Rightarrow> nat list" where
  "emitted vs k = filter (\<lambda>i. emits (vs ! i)) [0..<k]"

definition place :: "TurboJSSSAValue list \<Rightarrow> nat \<Rightarrow> nat" where
  "place vs i = length (emitted vs i)"

definition ir_op :: "TurboJSSSAOpcode \<Rightarrow> TurboJSIROpcode" where
  "ir_op op =
     (case op of
        TURBOJS_SSA_ARGUMENT \<Rightarrow> TURBOJS_IR_ARGUMENT
      | TURBOJS_SSA_CONSTANT_I64 \<Rightarrow> TURBOJS_IR_CONSTANT_I64
      | TURBOJS_SSA_ADD_I64 \<Rightarrow> TURBOJS_IR_ADD_I64
      | TURBOJS_SSA_SUB_I64 \<Rightarrow> TURBOJS_IR_SUB_I64
      | TURBOJS_SSA_MUL_I64 \<Rightarrow> TURBOJS_IR_MUL_I64
      | TURBOJS_SSA_LESS_THAN_I64 \<Rightarrow> TURBOJS_IR_LESS_THAN_I64
      | _ \<Rightarrow> TURBOJS_IR_RETURN_I64)"

definition register_of :: "TurboJSSSAValue list \<Rightarrow> u32 \<Rightarrow> u16" where
  "register_of vs k = of_nat (place vs (unat k))"

definition lowered :: "TurboJSSSAValue list \<Rightarrow> nat \<Rightarrow> TurboJSIRInstruction" where
  "lowered vs i =
     (let v = vs ! i; new = (blank_instruction (sv_source_instruction v))\<lparr>ins_opcode := ir_op (sv_opcode v)\<rparr>
      in if sv_opcode v \<in> leaf_ssa then new\<lparr>ins_destination := of_nat (place vs i), ins_immediate := sv_immediate v\<rparr>
         else if sv_opcode v \<in> binary_ssa
         then new\<lparr>ins_destination := of_nat (place vs i), ins_left := register_of vs (sv_left v), ins_right := register_of vs (sv_right v)\<rparr>
         else new\<lparr>ins_left := register_of vs (sv_left v)\<rparr>)"

lemma emitted_Suc: "emitted vs (Suc k) = emitted vs k @ (if emits (vs ! k) then [k] else [])"
  by (simp add: emitted_def)

lemma place_Suc: "place vs (Suc k) = place vs k + (if emits (vs ! k) then 1 else 0)"
  by (simp add: place_def emitted_Suc)

lemma place_le: "place vs k \<le> k"
  using length_filter_le [of "\<lambda>i. emits (vs ! i)" "[0..<k]"] by (simp add: place_def emitted_def)

lemma place_mono: "i \<le> k \<Longrightarrow> place vs i \<le> place vs k"
  by (induction k) (auto simp: place_Suc le_Suc_eq)

lemma place_less: "i < k \<Longrightarrow> emits (vs ! i) \<Longrightarrow> place vs i < place vs k"
  using place_mono [of "Suc i" k vs] by (simp add: place_Suc)

lemma emitted_nth: "i < k \<Longrightarrow> emits (vs ! i) \<Longrightarrow> emitted vs k ! place vs i = i"
proof (induction k)
  case (Suc k)
  then show ?case
    by (cases "i = k") (auto simp: emitted_Suc nth_append place_def less_Suc_eq dest: place_less [unfolded place_def, of i k vs])
qed simp

definition scalar_lowering :: "u16 \<Rightarrow> nat \<Rightarrow> TurboJSSSAValue list \<Rightarrow> nat \<Rightarrow> u16 list \<Rightarrow> TurboJSIRFunction \<Rightarrow> bool" where
  "scalar_lowering argc r vs k m f \<longleftrightarrow> storage_inv f \<and> irf_code f = map (lowered vs) (emitted vs k) \<and>
     irf_register_count f = of_nat (place vs (min k r)) \<and> irf_argument_count f = argc \<and> length m = TURBOJS_IR_MAX_REGISTERS \<and>
     (\<forall>j<min k r. emits (vs ! j) \<longrightarrow> m ! j = of_nat (place vs j))"

lemma scalar_emits:
  assumes "scalar_values argc r vs" "i < length vs"
  shows "emits (vs ! i) \<longleftrightarrow> \<not> sv_removed (vs ! i) \<and> i \<le> r"
  using scalar_valuesD(1) [OF assms]
  by (cases "i < r"; cases "i = r") (auto simp: scalar_value_def emits_def leaf_ssa_def binary_ssa_def)

lemma operand_placed:
  assumes vs: "scalar_values argc r vs" and i: "i < length vs" "\<not> sv_removed (vs ! i)" and k: "k \<in> {sv_left (vs ! i), sv_right (vs ! i)}" "k \<noteq> TURBOJS_SSA_NO_VALUE"
  shows "unat k < i" "unat k < r" "emits (vs ! unat k)" "unat (register_of vs k) = place vs (unat k)" "register_of vs k \<noteq> TURBOJS_IR_NO_REGISTER"
proof -
  show ki: "unat k < i" using scalar_valuesD(2) [OF vs i(1)] k by (auto simp: backward_def)
  show kr: "unat k < r"
    using scalar_valuesD(1) [OF vs i(1)] k ki by (auto simp: scalar_value_def leaf_ssa_def binary_ssa_def split: if_splits)
  show "emits (vs ! unat k)"
    using scalar_emits [OF vs, of "unat k"] scalar_valuesD(3) [OF vs i] k kr ki i(1) by (auto simp: operands_live_def)
  have "place vs (unat k) \<le> 65" using place_le [of vs "unat k"] kr scalar_bounds [OF vs] by simp
  then show "unat (register_of vs k) = place vs (unat k)" "register_of vs k \<noteq> TURBOJS_IR_NO_REGISTER"
    using small_register by (simp_all add: register_of_def)
qed

lemma scalar_kind:
  assumes "scalar_values argc r vs" "i < length vs"
  obtains (leaf) "i < r" "sv_opcode (vs ! i) \<in> leaf_ssa" | (binary) "i < r" "sv_opcode (vs ! i) \<in> binary_ssa" "sv_opcode (vs ! i) \<notin> leaf_ssa"
    | (return) "i = r" "sv_opcode (vs ! i) = TURBOJS_SSA_RETURN" | (guard) "r < i" "sv_opcode (vs ! i) = TURBOJS_SSA_GUARD_INT32"
  using scalar_valuesD(1) [OF assms] by (cases "i < r"; cases "i = r") (auto simp: scalar_value_def)

lemma mapped_operand:
  assumes vs: "scalar_values argc r vs" and i: "i < length vs" "\<not> sv_removed (vs ! i)" and k: "k \<in> {sv_left (vs ! i), sv_right (vs ! i)}" "k \<noteq> TURBOJS_SSA_NO_VALUE"
    and m: "length m = TURBOJS_IR_MAX_REGISTERS" "\<forall>j<min i r. emits (vs ! j) \<longrightarrow> m ! j = of_nat (place vs j)"
  shows "mapped m k = register_of vs k"
  using operand_placed [OF vs i k] m scalar_bounds [OF vs] by (auto simp: mapped_def register_of_def)

lemma lower_scalar_result:
  assumes vs: "scalar_values argc r vs" and k: "k < r" "\<not> sv_removed (vs ! k)" and low: "scalar_lowering argc r vs k m out" and ok: "\<forall>n. ok n"
  shows "lower_value ok (vs ! k) (m, out) = lower_result ok (vs ! k) ((lowered vs k)\<lparr>ins_destination := TURBOJS_IR_NO_REGISTER\<rparr>) (m, out)"
proof -
  have kl: "k < length vs" using k scalar_bounds [OF vs] by simp
  have m: "length m = TURBOJS_IR_MAX_REGISTERS" "\<forall>j<min k r. emits (vs ! j) \<longrightarrow> m ! j = of_nat (place vs j)"
    using low by (simp_all add: scalar_lowering_def)
  note v = scalar_valuesD(1) [OF vs kl]
  consider "sv_opcode (vs ! k) = TURBOJS_SSA_ARGUMENT" | "sv_opcode (vs ! k) = TURBOJS_SSA_CONSTANT_I64" | "sv_opcode (vs ! k) \<in> binary_ssa" "sv_opcode (vs ! k) \<notin> leaf_ssa"
    using v k by (auto simp: scalar_value_def leaf_ssa_def)
  then show ?thesis
  proof cases
    case 3
    then have n: "sv_left (vs ! k) \<noteq> TURBOJS_SSA_NO_VALUE" "sv_right (vs ! k) \<noteq> TURBOJS_SSA_NO_VALUE"
      using v kl scalar_bounds [OF vs] by (auto simp: scalar_value_def)
    have l: "mapped m (sv_left (vs ! k)) = register_of vs (sv_left (vs ! k))" "register_of vs (sv_left (vs ! k)) \<noteq> TURBOJS_IR_NO_REGISTER"
      using mapped_operand [OF vs kl k(2) _ n(1) m] operand_placed(5) [OF vs kl k(2) _ n(1)] by simp_all
    have r: "mapped m (sv_right (vs ! k)) = register_of vs (sv_right (vs ! k))" "register_of vs (sv_right (vs ! k)) \<noteq> TURBOJS_IR_NO_REGISTER"
      using mapped_operand [OF vs kl k(2) _ n(2) m] operand_placed(5) [OF vs kl k(2) _ n(2)] by simp_all
    show ?thesis
      using 3 k(2) l r by (auto simp: lower_value_def lowered_def Let_def binary_ssa_def ir_op_def blank_instruction_def)
  qed (use k in \<open>simp_all add: lower_value_def lowered_def Let_def leaf_ssa_def ir_op_def blank_instruction_def\<close>)
qed

lemma lower_scalar_value:
  assumes vs: "scalar_values argc r vs" and k: "k < length vs" and low: "scalar_lowering argc r vs k m out" and ok: "\<forall>n. ok n"
  shows "\<exists>m' out'. lower_value ok (vs ! k) (m, out) = Inr (Inr (m', out')) \<and> scalar_lowering argc r vs (Suc k) m' out'"
proof (cases "emits (vs ! k)")
  case False
  then have "lower_value ok (vs ! k) (m, out) = Inr (Inr (m, out))"
    by (auto simp: lower_value_def emits_def)
  moreover have "scalar_lowering argc r vs (Suc k) m out"
    using low False by (auto simp: scalar_lowering_def emitted_Suc place_Suc min_def less_Suc_eq le_Suc_eq not_le split: if_splits)
  ultimately show ?thesis by blast
next
  case True
  then have live: "\<not> sv_removed (vs ! k)" and kr: "k \<le> r" using scalar_emits [OF vs k] by simp_all
  have st: "storage_inv out" and m: "length m = TURBOJS_IR_MAX_REGISTERS" "\<forall>j<min k r. emits (vs ! j) \<longrightarrow> m ! j = of_nat (place vs j)"
    using low by (simp_all add: scalar_lowering_def)
  show ?thesis
  proof (cases "k = r")
    case True
    have op: "sv_opcode (vs ! k) = TURBOJS_SSA_RETURN" using scalar_valuesD(1) [OF vs k] True by (simp add: scalar_value_def)
    have n: "sv_left (vs ! k) \<noteq> TURBOJS_SSA_NO_VALUE"
      using scalar_valuesD(1) [OF vs k] True op scalar_bounds [OF vs] by (auto simp: scalar_value_def leaf_ssa_def)
    have l: "mapped m (sv_left (vs ! k)) = register_of vs (sv_left (vs ! k))" "register_of vs (sv_left (vs ! k)) \<noteq> TURBOJS_IR_NO_REGISTER"
      using mapped_operand [OF vs k live _ n m] operand_placed(5) [OF vs k live _ n] by simp_all
    obtain f' where f': "TurboJS_IREmit (ok (irf_instruction_count out)) (Some out) (lowered vs k) = (TURBOJS_IR_OK, Some f')"
        "storage_inv f'" "irf_code f' = irf_code out @ [lowered vs k]" "irf_register_count f' = irf_register_count out"
        "irf_argument_count f' = irf_argument_count out"
      using emit_succeeds [OF st] ok by blast
    have "lower_value ok (vs ! k) (m, out) = Inr (Inr (m, f'))"
      using op live l f'(1) by (simp add: lower_value_def lowered_def Let_def ir_op_def leaf_ssa_def binary_ssa_def)
    moreover have "scalar_lowering argc r vs (Suc k) m f'"
      using f' low \<open>emits (vs ! k)\<close> True by (simp add: scalar_lowering_def emitted_Suc)
    ultimately show ?thesis by blast
  next
    case False
    then have kr: "k < r" using kr by simp
    have p: "place vs k < TURBOJS_IR_MAX_REGISTERS" using place_le [of vs k] kr scalar_bounds [OF vs] by simp
    have id: "unat (sv_id (vs ! k)) = k" using scalar_valuesD(1) [OF vs k] by (simp add: scalar_value_def)
    have reg: "irf_register_count out = of_nat (place vs k)" using low kr by (simp add: scalar_lowering_def min_def)
    let ?ins = "(lowered vs k)\<lparr>ins_destination := TURBOJS_IR_NO_REGISTER\<rparr>"
    have ins: "?ins\<lparr>ins_destination := of_nat (place vs k)\<rparr> = lowered vs k"
      using scalar_valuesD(1) [OF vs k] kr by (auto simp: lowered_def Let_def scalar_value_def)
    obtain out' where out': "lower_result ok (vs ! k) ?ins (m, out) = Inr (Inr (m[k := of_nat (place vs k)], out'))"
        "storage_inv out'" "irf_code out' = irf_code out @ [lowered vs k]" "irf_register_count out' = of_nat (Suc (place vs k))"
        "irf_argument_count out' = irf_argument_count out"
      using lower_result_succeeds [OF st reg p _ ok, of "vs ! k" m ?ins] id m(1) kr scalar_bounds [OF vs] ins by auto
    moreover have "scalar_lowering argc r vs (Suc k) (m[k := of_nat (place vs k)]) out'"
      using out' low kr \<open>emits (vs ! k)\<close> scalar_bounds [OF vs]
      by (auto simp: scalar_lowering_def emitted_Suc place_Suc min_def nth_list_update less_Suc_eq)
    ultimately show ?thesis using lower_scalar_result [OF vs kr live low ok] by auto
  qed
qed

lemma lower_scalar_values:
  assumes vs: "scalar_values argc r vs" and ok: "\<forall>n. ok n"
  shows "k \<le> length vs \<Longrightarrow> scalar_lowering argc r vs k m out \<Longrightarrow>
    \<exists>m' out'. lower_values ok k (drop k vs) (m, out) = Inr (Inr out') \<and> scalar_lowering argc r vs (length vs) m' out'"
proof (induction "length vs - k" arbitrary: k m out)
  case 0
  then show ?case by auto
next
  case (Suc n)
  then have k: "k < length vs" by simp
  obtain m' out' where "lower_value ok (vs ! k) (m, out) = Inr (Inr (m', out'))" "scalar_lowering argc r vs (Suc k) m' out'"
    using lower_scalar_value [OF vs k Suc.prems(2) ok] by blast
  then show ?case
    using Suc.hyps(1) [of "Suc k" m' out'] Suc.hyps(2) k by (simp add: Cons_nth_drop_Suc [symmetric] bindc_def)
qed

definition scalar_function :: "u16 \<Rightarrow> nat \<Rightarrow> TurboJSSSAValue list \<Rightarrow> TurboJSIRFunction \<Rightarrow> bool" where
  "scalar_function argc r vs f \<longleftrightarrow> storage_inv f \<and> irf_code f = map (lowered vs) (emitted vs (length vs)) \<and>
     irf_register_count f = of_nat (place vs r) \<and> irf_argument_count f = argc"

lemma lower_scalar_graph:
  assumes vs: "scalar_values argc r (sg_values g)" "sg_block_count g = 1" and ok: "\<forall>n. ok n"
  shows "\<exists>f. lower_graph ok H i (Some g) argc (Some out) d = bindc (TurboJS_IRVerify H (Some f) d) (\<lambda>(st, d). Inr (st, Some f, d, i + 1)) \<and>
    scalar_function argc r (sg_values g) f"
proof -
  let ?f = "null_function\<lparr>irf_argument_count := argc, irf_instance_id := i, irf_revision := 1\<rparr>"
  let ?m = "replicate TURBOJS_IR_MAX_REGISTERS TURBOJS_IR_NO_REGISTER"
  have init: "TurboJS_IRFunctionInit i (Some out) argc = (Some ?f, i + 1)"
    by (simp add: TurboJS_IRFunctionInit_def)
  have "scalar_lowering argc r (sg_values g) 0 ?m ?f"
    using init_storage [of i out argc] init_code [of i out argc]
    by (simp add: init scalar_lowering_def null_function_def emitted_def place_def)
  then obtain m' f where f: "lower_values ok 0 (sg_values g) (?m, ?f) = Inr (Inr f)" "scalar_lowering argc r (sg_values g) (sg_value_count g) m' f"
    using lower_scalar_values [OF vs(1) ok, of 0 ?m ?f] by auto
  then have "scalar_function argc r (sg_values g) f"
    using scalar_bounds [OF vs(1)] by (simp add: scalar_function_def scalar_lowering_def min_def)
  then show ?thesis
    using f(1) vs(2) by (auto simp: lower_graph_def init bindc_def)
qed

section \<open>Running the lowered code\<close>

lemma place_end:
  assumes "scalar_values argc r vs"
  shows "r < k \<Longrightarrow> k \<le> length vs \<Longrightarrow> place vs k = place vs r + 1"
proof (induction k)
  case (Suc k)
  show ?case
  proof (cases "k = r")
    case True
    then show ?thesis using scalar_emits [OF assms, of r] scalar_bounds [OF assms] by (simp add: place_Suc)
  next
    case False
    then show ?thesis using Suc scalar_emits [OF assms, of k] by (simp add: place_Suc)
  qed
qed simp

lemma scalar_code:
  assumes vs: "scalar_values argc r vs" and f: "scalar_function argc r vs f"
  shows "length (irf_code f) = place vs r + 1" "irf_instruction_count f = place vs r + 1"
    "i < length vs \<Longrightarrow> emits (vs ! i) \<Longrightarrow> irf_code f ! place vs i = lowered vs i"
proof -
  have end_place: "length (emitted vs (length vs)) = place vs r + 1"
    using place_end [OF vs, of "length vs"] scalar_bounds [OF vs] by (simp add: place_def)
  then show "length (irf_code f) = place vs r + 1" "irf_instruction_count f = place vs r + 1"
    using f length_irf_code [of f] by (simp_all add: scalar_function_def)
  show "irf_code f ! place vs i = lowered vs i" if i: "i < length vs" "emits (vs ! i)"
    using f emitted_nth [OF i] place_less [OF i] by (simp add: scalar_function_def place_def)
qed

definition scalar_state :: "i64 list \<Rightarrow> TurboJSSSAValue list \<Rightarrow> nat \<Rightarrow> i64 \<Rightarrow> nat \<Rightarrow> exec_state \<Rightarrow> bool" where
  "scalar_state args vs r cell i s \<longleftrightarrow> ex_pc s = place vs i \<and> ex_result s = cell \<and> length (ex_registers s) = TURBOJS_IR_MAX_REGISTERS \<and>
     (\<forall>j<i. j < r \<longrightarrow> emits (vs ! j) \<longrightarrow> ex_registers s ! place vs j = denotes args vs ! j)"

lemma scalar_operand:
  assumes vs: "scalar_values argc r vs" and i: "i \<le> r" "\<not> sv_removed (vs ! i)" and s: "scalar_state args vs r cell i s"
    and k: "k \<in> {sv_left (vs ! i), sv_right (vs ! i)}" "k \<noteq> TURBOJS_SSA_NO_VALUE"
  shows "get_register s (register_of vs k) = Inr (value_at (denotes args vs) k)"
proof -
  have il: "i < length vs" using i scalar_bounds [OF vs] by simp
  note k = operand_placed [OF vs il i(2) k]
  have "place vs (unat k) < TURBOJS_IR_MAX_REGISTERS" using place_le [of vs "unat k"] k(2) scalar_bounds [OF vs] by simp
  then show ?thesis
    using s k il by (simp add: get_register_def rd_def scalar_state_def value_at_def)
qed

lemma scalar_write:
  assumes vs: "scalar_values argc r vs" and i: "i < r" "emits (vs ! i)" and s: "scalar_state args vs r cell i s"
  shows "\<exists>s'. set_register s (of_nat (place vs i)) (denotes args vs ! i) = Inr (Next s') \<and> scalar_state args vs r cell (Suc i) s'"
proof -
  have p: "place vs i < TURBOJS_IR_MAX_REGISTERS" "unat (of_nat (place vs i) :: u16) = place vs i"
    using place_le [of vs i] i scalar_bounds [OF vs] small_register(1) [of "place vs i"] by simp_all
  let ?s = "s\<lparr>ex_registers := (ex_registers s)[place vs i := denotes args vs ! i], ex_pc := ex_pc s + 1\<rparr>"
  have "set_register s (of_nat (place vs i)) (denotes args vs ! i) = Inr (Next ?s)"
    using s p by (simp add: set_register_def wr_def bindc_def scalar_state_def)
  moreover have "scalar_state args vs r cell (Suc i) ?s"
  proof -
    have "(ex_registers s)[place vs i := denotes args vs ! i] ! place vs j = denotes args vs ! j" if "j < Suc i" "j < r" "emits (vs ! j)" for j
    proof (cases "j = i")
      case True
      then show ?thesis using s p by (simp add: scalar_state_def)
    next
      case False
      then have "j < i" "place vs j < place vs i" using that place_less [of j i vs] by simp_all
      then show ?thesis using s that by (simp add: scalar_state_def)
    qed
    then show ?thesis using s i by (simp add: scalar_state_def place_Suc)
  qed
  ultimately show ?thesis by blast
qed

text \<open>One value before the return that is not an argument: the next state, or an overflow.\<close>

lemma scalar_step:
  assumes vs: "scalar_values argc r vs" and f: "scalar_function argc r vs f" and i: "i < r" "emits (vs ! i)" and s: "scalar_state args vs r cell i s"
    and op: "sv_opcode (vs ! i) \<noteq> TURBOJS_SSA_ARGUMENT"
  shows "if fits (denotes args vs) (vs ! i) then \<exists>s'. exec_body E H f s = Inr (Next s') \<and> scalar_state args vs r cell (Suc i) s'
     else \<exists>e. exec_body E H f s = Inl e"
proof -
  let ?v = "vs ! i" and ?D = "denotes args vs"
  have il: "i < length vs" and live: "\<not> sv_removed ?v" using i scalar_bounds [OF vs] scalar_emits [OF vs, of i] by simp_all
  have pc: "ex_pc s < length (irf_code f)"
    using s scalar_code(1) [OF vs f] place_less [OF i] by (simp add: scalar_state_def)
  have body: "exec_body E H f s = exec_step E H f (lowered vs i) s"
    using pc s scalar_code(3) [OF vs f il i(2)] by (simp add: exec_body_def rd_def bindc_def scalar_state_def)
  have D: "?D ! i = denote args ?D ?v" by (rule scalar_equation [OF vs il])
  note v = scalar_valuesD(1) [OF vs il]
  consider "sv_opcode ?v = TURBOJS_SSA_CONSTANT_I64" | "sv_opcode ?v \<in> binary_ssa"
    using v i op by (auto simp: scalar_value_def leaf_ssa_def)
  then show ?thesis
  proof cases
    case 1
    then show ?thesis
      using scalar_write [OF vs i s] D by (simp add: body exec_step_def lowered_def Let_def leaf_ssa_def ir_op_def denote_def fits_def)
  next
    case 2
    then have n: "sv_left ?v \<noteq> TURBOJS_SSA_NO_VALUE" "sv_right ?v \<noteq> TURBOJS_SSA_NO_VALUE"
      using v il scalar_bounds [OF vs] by (auto simp: scalar_value_def leaf_ssa_def binary_ssa_def)
    have g: "get_register s (register_of vs (sv_left ?v)) = Inr (value_at ?D (sv_left ?v))" "get_register s (register_of vs (sv_right ?v)) = Inr (value_at ?D (sv_right ?v))"
      using scalar_operand [OF vs _ live s] i n by simp_all
    show ?thesis
      using 2 scalar_write [OF vs i s] D g unfolding binary_ssa_def
      by (elim insertE emptyE) (simp_all add: body exec_step_def lowered_def Let_def leaf_ssa_def binary_ssa_def ir_op_def denote_def fits_def exec_i64_def exec_compare_def bindc_def chk64_def)
  qed
qed

lemma scalar_return:
  assumes vs: "scalar_values argc r vs" and f: "scalar_function argc r vs f" and s: "scalar_state args vs r cell r s"
  shows "exec_body E H f s = Inr (Stop (TURBOJS_IR_OK, denotes args vs ! r))"
proof -
  let ?v = "vs ! r" and ?D = "denotes args vs"
  have rl: "r < length vs" and live: "\<not> sv_removed ?v" using scalar_bounds [OF vs] by simp_all
  have e: "emits ?v" using scalar_emits [OF vs rl] live by simp
  have op: "sv_opcode ?v = TURBOJS_SSA_RETURN" and n: "sv_left ?v \<noteq> TURBOJS_SSA_NO_VALUE"
    using scalar_valuesD(1) [OF vs rl] scalar_bounds [OF vs] by (auto simp: scalar_value_def leaf_ssa_def)
  have "exec_body E H f s = exec_step E H f (lowered vs r) s"
    using s scalar_code(1) [OF vs f] scalar_code(3) [OF vs f rl e] by (simp add: exec_body_def rd_def bindc_def scalar_state_def)
  then show ?thesis
    using scalar_operand [OF vs _ live s _ n] op scalar_equation [OF vs rl, of args]
    by (simp add: exec_step_def lowered_def Let_def leaf_ssa_def binary_ssa_def ir_op_def bindc_def ret_def denote_def)
qed

text \<open>The values from \<open>i\<close> on run without an argument among them and without overflow.\<close>

definition tail_ok :: "i64 list \<Rightarrow> TurboJSSSAValue list \<Rightarrow> nat \<Rightarrow> nat \<Rightarrow> bool" where
  "tail_ok args vs r i \<longleftrightarrow> (\<forall>j. i \<le> j \<longrightarrow> j < r \<longrightarrow> emits (vs ! j) \<longrightarrow> sv_opcode (vs ! j) \<noteq> TURBOJS_SSA_ARGUMENT \<and> fits (denotes args vs) (vs ! j))"

lemma tail_ok_step: "i < r \<Longrightarrow> tail_ok args vs r i \<longleftrightarrow>
  (emits (vs ! i) \<longrightarrow> sv_opcode (vs ! i) \<noteq> TURBOJS_SSA_ARGUMENT \<and> fits (denotes args vs) (vs ! i)) \<and> tail_ok args vs r (Suc i)"
  unfolding tail_ok_def by (metis Suc_leD Suc_leI le_neq_implies_less order_refl)

lemma skipped_state: "\<not> emits (vs ! i) \<Longrightarrow> scalar_state args vs r cell i s \<Longrightarrow> scalar_state args vs r cell (Suc i) s"
  by (auto simp: scalar_state_def place_Suc less_Suc_eq)

lemma in_code_scalar:
  assumes "scalar_values argc r vs" "scalar_function argc r vs f" "i \<le> r" "scalar_state args vs r cell i s"
  shows "in_code f s"
  using scalar_code(2) [OF assms(1,2)] place_mono [OF assms(3), of vs] assms(4) by (simp add: in_code_def scalar_state_def)

lemma scalar_loop:
  assumes vs: "scalar_values argc r vs" and f: "scalar_function argc r vs f"
  shows "i \<le> r \<Longrightarrow> scalar_state args vs r cell i s \<Longrightarrow> r - i < n \<Longrightarrow>
    limited_loop (in_code f) (exec_body E H f) (exec_end x) (exec_end y) n s = Inr (TURBOJS_IR_OK, v) \<longleftrightarrow> tail_ok args vs r i \<and> v = denotes args vs ! r"
proof (induction "r - i" arbitrary: i s n)
  case 0
  then obtain m where "i = r" "n = Suc m" by (cases n) auto
  then show ?case
    using 0 scalar_return [OF vs f, of args cell s] in_code_scalar [OF vs f 0(2,3)] by (auto simp: bindc_def tail_ok_def)
next
  case (Suc d)
  then have i: "i < r" by simp
  show ?case
  proof (cases "emits (vs ! i)")
    case False
    then show ?thesis
      using Suc.hyps(1) [of "Suc i" s n] Suc.hyps(2) Suc.prems(3) i skipped_state [OF False Suc.prems(2)] tail_ok_step [OF i, of args vs] by simp
  next
    case True
    obtain m where n: "n = Suc m" "r - Suc i < m" using Suc.prems(3) i by (cases n) auto
    note go = in_code_scalar [OF vs f Suc.prems(1,2)]
    show ?thesis
    proof (cases "sv_opcode (vs ! i) = TURBOJS_SSA_ARGUMENT")
      case arg: True
      have il: "i < length vs" using i scalar_bounds [OF vs] by simp
      have "exec_body E H f s = exec_step E H f (lowered vs i) s"
        using Suc.prems(2) scalar_code(1) [OF vs f] scalar_code(3) [OF vs f il True] place_less [OF i True]
        by (simp add: exec_body_def rd_def bindc_def scalar_state_def)
      then have "exec_body E H f s = Inr (Stop (TURBOJS_IR_INVALID_ARGUMENT, ex_result s))"
        using arg by (simp add: exec_step_def lowered_def Let_def leaf_ssa_def ir_op_def ret_def)
      then show ?thesis using n go arg True i by (auto simp: bindc_def tail_ok_step)
    next
      case False
      from scalar_step [OF vs f i True Suc.prems(2) False, of E H] show ?thesis
        using Suc.hyps(1) [of "Suc i" _ m] Suc.hyps(2) n go i True False by (auto simp: bindc_def tail_ok_step split: if_splits)
    qed
  qed
qed

text \<open>Arguments first, each of them given, then the other values.\<close>

definition runs_ok :: "i64 list \<Rightarrow> TurboJSSSAValue list \<Rightarrow> nat \<Rightarrow> nat \<Rightarrow> bool" where
  "runs_ok args vs r i \<longleftrightarrow> (\<exists>k. i \<le> k \<and> k \<le> r \<and> tail_ok args vs r k \<and>
     (\<forall>j. i \<le> j \<longrightarrow> j < k \<longrightarrow> emits (vs ! j) \<longrightarrow> sv_opcode (vs ! j) = TURBOJS_SSA_ARGUMENT \<and> unat (sv_immediate (vs ! j)) < length args))"

lemma runs_ok_unfold:
  assumes "i < r"
  shows "runs_ok args vs r i \<longleftrightarrow> tail_ok args vs r i \<or>
    (emits (vs ! i) \<longrightarrow> sv_opcode (vs ! i) = TURBOJS_SSA_ARGUMENT \<and> unat (sv_immediate (vs ! i)) < length args) \<and> runs_ok args vs r (Suc i)"
    (is "_ \<longleftrightarrow> _ \<or> ?P i \<and> _")
proof
  assume "runs_ok args vs r i"
  then obtain k where k: "i \<le> k" "k \<le> r" "tail_ok args vs r k" "\<And>j. i \<le> j \<Longrightarrow> j < k \<Longrightarrow> ?P j" by (auto simp: runs_ok_def)
  show "tail_ok args vs r i \<or> ?P i \<and> runs_ok args vs r (Suc i)"
  proof (cases "k = i")
    case False
    then have "Suc i \<le> k" "?P i" using k(1) k(4) [of i] by simp_all
    then show ?thesis using k unfolding runs_ok_def by (metis Suc_leD)
  qed (use k in simp)
next
  assume "tail_ok args vs r i \<or> ?P i \<and> runs_ok args vs r (Suc i)"
  then show "runs_ok args vs r i"
  proof
    assume "tail_ok args vs r i"
    then show ?thesis using assms unfolding runs_ok_def by (intro exI [of _ i]) simp
  next
    assume P: "?P i \<and> runs_ok args vs r (Suc i)"
    then obtain k where k: "Suc i \<le> k" "k \<le> r" "tail_ok args vs r k" "\<And>j. Suc i \<le> j \<Longrightarrow> j < k \<Longrightarrow> ?P j" by (auto simp: runs_ok_def)
    have "?P j" if "i \<le> j" "j < k" for j using that P k(4) [of j] by (cases "j = i") simp_all
    then show ?thesis using k unfolding runs_ok_def by (intro exI [of _ k]) simp
  qed
qed

lemma tail_runs_ok: "i \<le> r \<Longrightarrow> tail_ok args vs r i \<Longrightarrow> runs_ok args vs r i"
  unfolding runs_ok_def by (intro exI [of _ i]) simp

lemma runs_ok_step:
  assumes "i < r"
  shows "\<not> emits (vs ! i) \<Longrightarrow> runs_ok args vs r i \<longleftrightarrow> runs_ok args vs r (Suc i)"
    "emits (vs ! i) \<Longrightarrow> sv_opcode (vs ! i) = TURBOJS_SSA_ARGUMENT \<Longrightarrow>
       runs_ok args vs r i \<longleftrightarrow> unat (sv_immediate (vs ! i)) < length args \<and> runs_ok args vs r (Suc i)"
    "emits (vs ! i) \<Longrightarrow> sv_opcode (vs ! i) \<noteq> TURBOJS_SSA_ARGUMENT \<Longrightarrow> runs_ok args vs r i \<longleftrightarrow> tail_ok args vs r i"
  using runs_ok_unfold [OF assms, of args vs] tail_ok_step [OF assms, of args vs] tail_runs_ok [of "Suc i" r args vs] assms by auto

lemma scalar_budget:
  assumes vs: "scalar_values argc r vs" and f: "scalar_function argc r vs f"
  shows "r < step_limit f"
proof -
  have "place vs r \<le> 64" "r \<le> 64" using place_le [of vs r] scalar_bounds [OF vs] by simp_all
  then show ?thesis using scalar_code(2) [OF vs f] by (simp add: step_limit_def)
qed

lemma scalar_prefix:
  assumes vs: "scalar_values argc r vs" and f: "scalar_function argc r vs f"
  shows "i \<le> r \<Longrightarrow> scalar_state args vs r cell i s \<Longrightarrow> n + place vs i = place vs r + 1 \<Longrightarrow>
    execute_prefix n E H f args s = Inr (TURBOJS_IR_OK, v) \<longleftrightarrow> runs_ok args vs r i \<and> v = denotes args vs ! r"
proof (induction "r - i" arbitrary: i s n)
  case 0
  then have i: "i = r" "n = Suc 0" by simp_all
  have rl: "r < length vs" "emits (vs ! r)" using scalar_bounds [OF vs] scalar_emits [OF vs, of r] by simp_all
  have op: "sv_opcode (vs ! r) = TURBOJS_SSA_RETURN" using scalar_valuesD(1) [OF vs rl(1)] by (simp add: scalar_value_def)
  have "execute_prefix n E H f args s = execute_from E H f s"
    using 0 i scalar_code(1) [OF vs f] scalar_code(3) [OF vs f rl] op
    by (intro execute_prefix_first) (simp_all add: scalar_state_def lowered_def Let_def leaf_ssa_def binary_ssa_def ir_op_def)
  moreover have t: "tail_ok args vs r r" by (simp add: tail_ok_def)
  moreover have "runs_ok args vs r r" using tail_runs_ok [OF order_refl t] .
  moreover have "0 < step_limit f" using scalar_budget [OF vs f] by simp
  ultimately show ?case
    using scalar_loop [OF vs f, of r args cell s "step_limit f"] 0 i by (simp add: execute_from_def)
next
  case (Suc d)
  then have i: "i < r" by simp
  have il: "i < length vs" using i scalar_bounds [OF vs] by simp
  show ?case
  proof (cases "emits (vs ! i)")
    case False
    then show ?thesis
      using Suc.hyps(1) [of "Suc i" s n] Suc.hyps(2) Suc.prems(3) i skipped_state [OF False Suc.prems(2)] runs_ok_step(1) [OF i False] by (simp add: place_Suc)
  next
    case True
    obtain m where n: "n = Suc m" "m + place vs (Suc i) = place vs r + 1"
      using Suc.prems(3) place_less [OF i True] True by (cases n) (auto simp: place_Suc)
    have ins: "ex_pc s < length (irf_code f)" "irf_code f ! ex_pc s = lowered vs i"
      using Suc.prems(2) scalar_code(1) [OF vs f] scalar_code(3) [OF vs f il True] place_less [OF i True] by (simp_all add: scalar_state_def)
    show ?thesis
    proof (cases "sv_opcode (vs ! i) = TURBOJS_SSA_ARGUMENT")
      case arg: True
      have low: "ins_opcode (lowered vs i) = TURBOJS_IR_ARGUMENT" "ins_immediate (lowered vs i) = sv_immediate (vs ! i)"
          "ins_destination (lowered vs i) = of_nat (place vs i)"
        using arg by (simp_all add: lowered_def Let_def leaf_ssa_def ir_op_def)
      show ?thesis
      proof (cases "unat (sv_immediate (vs ! i)) < length args")
        case given: True
        have D: "denotes args vs ! i = args ! unat (sv_immediate (vs ! i))"
          using scalar_equation [OF vs il, of args] arg given by (simp add: denote_def)
        obtain s' where s': "set_register s (of_nat (place vs i)) (denotes args vs ! i) = Inr (Next s')" "scalar_state args vs r cell (Suc i) s'"
          using scalar_write [OF vs i True Suc.prems(2)] by blast
        have "execute_prefix n E H f args s = execute_prefix m E H f args s'"
          using s'(1) ins low n given D by (auto simp: set_register_def rd_def wr_def bindc_def split: if_splits)
        then show ?thesis
          using Suc.hyps(1) [of "Suc i" s' m] Suc.hyps(2) s'(2) n(2) i runs_ok_step(2) [OF i True arg] given by simp
      next
        case False
        then show ?thesis
          using ins low n runs_ok_step(2) [OF i True arg] by (simp add: rd_def bindc_def)
      qed
    next
      case False
      have "ir_op (sv_opcode (vs ! i)) \<noteq> TURBOJS_IR_ARGUMENT" using False by (cases "sv_opcode (vs ! i)") (simp_all add: ir_op_def)
      then have "execute_prefix n E H f args s = execute_from E H f s"
        using ins n by (intro execute_prefix_first) (simp_all add: lowered_def Let_def)
      moreover have "r - i < step_limit f" using scalar_budget [OF vs f] by simp
      ultimately show ?thesis
        using scalar_loop [OF vs f Suc.prems(1,2), of "step_limit f"] runs_ok_step(3) [OF i True False] by (simp add: execute_from_def)
    qed
  qed
qed

lemma scalar_well_formed:
  assumes vs: "scalar_values argc r vs" and f: "scalar_function argc r vs f"
  shows "wf_function H f" "sites_resolve H f"
proof -
  have small: "place vs k \<le> 65" if "k \<le> r" for k using place_le [of vs k] that scalar_bounds [OF vs] by simp
  have reg: "unat (irf_register_count f) = place vs r" "irf_argument_count f = argc" and code: "irf_code f = map (lowered vs) (emitted vs (length vs))"
    using f small_register(1) [OF small [OF order_refl]] by (simp_all add: scalar_function_def)
  have "wf_instruction H f (lowered vs i) \<and> ins_opcode (lowered vs i) \<notin> native_call_ops" if i: "i < length vs" "emits (vs ! i)" for i
  proof -
    have live: "\<not> sv_removed (vs ! i)" and ir: "i \<le> r" using scalar_emits [OF vs i(1)] i(2) by simp_all
    note v = scalar_valuesD(1) [OF vs i(1)]
    have dest: "of_nat (place vs i) < irf_register_count f" if "i < r"
      using reg(1) place_less [OF that i(2)] small_register(1) [OF small [OF ir]] by (simp add: word_less_nat_alt)
    have operand: "register_of vs k < irf_register_count f" if k: "k \<in> {sv_left (vs ! i), sv_right (vs ! i)}" "k \<noteq> TURBOJS_SSA_NO_VALUE" for k
      using operand_placed [OF vs i(1) live k] reg(1) place_less [of "unat k" r vs] by (simp add: word_less_nat_alt)
    have nv: "unat k < i \<Longrightarrow> k \<noteq> TURBOJS_SSA_NO_VALUE" for k using i(1) scalar_bounds [OF vs] by auto
    from vs i(1) show ?thesis
    proof (cases rule: scalar_kind)
      case leaf
      then show ?thesis
        using v dest reg(2) by (auto simp: lowered_def Let_def leaf_ssa_def ir_op_def wf_line_instruction native_call_ops_def scalar_value_def)
    next
      case binary
      then have "ir_op (sv_opcode (vs ! i)) \<in> binary_ops" by (auto simp: binary_ssa_def ir_op_def binary_ops_def)
      moreover have "binary_ops \<inter> native_call_ops = {}" by (auto simp: binary_ops_def native_call_ops_def)
      moreover have "sv_left (vs ! i) \<noteq> TURBOJS_SSA_NO_VALUE" "sv_right (vs ! i) \<noteq> TURBOJS_SSA_NO_VALUE"
        using v binary nv by (auto simp: scalar_value_def)
      ultimately show ?thesis
        using binary dest operand by (auto simp: lowered_def Let_def wf_line_instruction)
    next
      case return
      then have "sv_left (vs ! i) \<noteq> TURBOJS_SSA_NO_VALUE" using v nv by (auto simp: scalar_value_def leaf_ssa_def)
      then show ?thesis
        using return operand by (simp add: lowered_def Let_def leaf_ssa_def binary_ssa_def ir_op_def wf_line_instruction native_call_ops_def)
    next
      case guard
      then show ?thesis using ir by simp
    qed
  qed
  then have all: "\<forall>ins\<in>set (irf_code f). wf_instruction H f ins \<and> ins_opcode ins \<notin> native_call_ops"
    by (auto simp: code emitted_def)
  have rl: "r < length vs" "emits (vs ! r)" using scalar_bounds [OF vs] scalar_emits [OF vs, of r] by simp_all
  have "sv_opcode (vs ! r) = TURBOJS_SSA_RETURN" using scalar_valuesD(1) [OF vs rl(1)] by (simp add: scalar_value_def)
  then have "ins_opcode (lowered vs r) \<in> return_ops" by (simp add: lowered_def Let_def leaf_ssa_def binary_ssa_def ir_op_def return_ops_def)
  moreover have "lowered vs r \<in> set (irf_code f)" using rl by (auto simp: code emitted_def)
  ultimately show "wf_function H f"
    using all reg(1) small [OF order_refl] place_le [of vs r] scalar_bounds [OF vs] by (auto simp: wf_function_def)
  show "sites_resolve H f" using all by (auto simp: sites_resolve_def site_resolves_def)
qed

lemma scalar_execute:
  assumes vs: "scalar_values argc r vs" and f: "scalar_function argc r vs f" and args: "\<not> (n \<noteq> 0 \<and> args = None)" "unat argc \<le> n"
  shows "TurboJS_IRExecute E H (Some f) args n (Some cell) = Inr (TURBOJS_IR_OK, Some v) \<longleftrightarrow>
    runs_ok (case args of None \<Rightarrow> [] | Some xs \<Rightarrow> xs) vs r 0 \<and> v = denotes (case args of None \<Rightarrow> [] | Some xs \<Rightarrow> xs) vs ! r"
proof -
  let ?xs = "case args of None \<Rightarrow> [] | Some xs \<Rightarrow> xs"
  have st: "storage_inv f" "irf_argument_count f = argc" using f by (simp_all add: scalar_function_def)
  obtain d where "TurboJS_IRVerify H (Some f) (Some null_diagnostic) = Inr (TURBOJS_IR_OK, d)"
    using verify_ok_iff [OF st(1) scalar_well_formed(2) [OF vs f]] scalar_well_formed(1) [OF vs f] by metis
  moreover have "scalar_state ?xs vs r cell 0 (initial_state cell)"
    by (simp add: scalar_state_def initial_state_def place_def emitted_def)
  from scalar_prefix [OF vs f _ this, of "irf_instruction_count f" E H v] have
    "execute_prefix (irf_instruction_count f) E H f ?xs (initial_state cell) = Inr (TURBOJS_IR_OK, v) \<longleftrightarrow> runs_ok ?xs vs r 0 \<and> v = denotes ?xs vs ! r"
    using scalar_code(2) [OF vs f] by (simp add: place_def emitted_def)
  ultimately show ?thesis
    using args st(2) by (auto simp: TurboJS_IRExecute_def bindc_def split: sum.splits)
qed

end
