(* ===== verification/SSA_Opt_Correct.thy ===== *)
theory SSA_Opt_Correct
  imports SSA_Scalar
begin

text \<open>
  The optimizer on straight-line graphs: type inference ends, and folding, elimination of common subexpressions and removal
  of dead values keep the meaning of every value and never make a run fail.
\<close>

section \<open>Type inference ends\<close>

definition retyped :: "TurboJSSSAValue list \<Rightarrow> TurboJSSSAValue list \<Rightarrow> bool" where
  "retyped vs ws \<longleftrightarrow> length ws = length vs \<and> (\<forall>i<length vs. ws ! i = (vs ! i)\<lparr>sv_type := sv_type (ws ! i)\<rparr>)"

text \<open>The first \<open>m\<close> values have the types that the inference gives them.\<close>

definition typed_upto :: "nat \<Rightarrow> TurboJSSSAValue list \<Rightarrow> bool" where
  "typed_upto m vs \<longleftrightarrow> (\<forall>j<m. sv_removed (vs ! j) \<or> inferred_type vs (vs ! j) = TURBOJS_SSA_TYPE_UNKNOWN \<or> inferred_type vs (vs ! j) = sv_type (vs ! j))"

lemma retyped_refl: "retyped vs vs"
  by (simp add: retyped_def)

lemma retyped_length: "retyped vs ws \<Longrightarrow> length ws = length vs"
  by (simp add: retyped_def)

lemma retyped_trans:
  assumes "retyped us vs" "retyped vs ws"
  shows "retyped us ws"
proof -
  have "ws ! i = (us ! i)\<lparr>sv_type := sv_type (ws ! i)\<rparr>" if "i < length us" for i
  proof -
    have "vs ! i = (us ! i)\<lparr>sv_type := sv_type (vs ! i)\<rparr>" "ws ! i = (vs ! i)\<lparr>sv_type := sv_type (ws ! i)\<rparr>"
      using assms that by (simp_all add: retyped_def)
    then have "(vs ! i)\<lparr>sv_type := sv_type (ws ! i)\<rparr> = (us ! i)\<lparr>sv_type := sv_type (ws ! i)\<rparr>" by (cases "us ! i"; cases "vs ! i") simp
    with \<open>ws ! i = (vs ! i)\<lparr>sv_type := sv_type (ws ! i)\<rparr>\<close> show ?thesis by (rule trans)
  qed
  then show ?thesis using assms by (simp add: retyped_def)
qed

lemma inferred_type_update:
  assumes "backward j v" "j \<le> m" "length vs < 2 ^ 31"
  shows "inferred_type (vs[m := w]) v = inferred_type vs v"
proof -
  have "(vs[m := w]) ! unat k = vs ! unat k" if "k \<in> {sv_left v, sv_right v}" "unat k < length vs" for k
    using that assms by (auto simp: backward_def)
  then show ?thesis by (simp add: inferred_type_def Let_def)
qed

lemma inferred_own_type: "inferred_type vs (v\<lparr>sv_type := inferred_type vs v\<rparr>) = inferred_type vs v"
  by (simp add: inferred_type_def Let_def)

lemma infer_value_step:
  assumes "infer_value m (vs, c, n) = (ws, c', n')" "m < length vs" "length vs < 2 ^ 31" "\<forall>i<length vs. backward i (vs ! i)" "typed_upto m vs"
  shows "retyped vs ws \<and> typed_upto (Suc m) ws"
proof -
  let ?v = "vs ! m" and ?t = "inferred_type vs (vs ! m)"
  show ?thesis
  proof (cases "\<not> sv_removed ?v \<and> ?t \<noteq> TURBOJS_SSA_TYPE_UNKNOWN \<and> ?t \<noteq> sv_type ?v")
    case True
    then have ws: "ws = vs[m := ?v\<lparr>sv_type := ?t\<rparr>]" using assms(1) by (simp add: infer_value_def Let_def)
    have old: "inferred_type ws (ws ! j) = inferred_type vs (vs ! j)" "ws ! j = vs ! j" if "j < m" for j
      using that assms inferred_type_update [of j "vs ! j" m vs] by (simp_all add: ws)
    have "inferred_type ws (?v\<lparr>sv_type := ?t\<rparr>) = inferred_type vs (?v\<lparr>sv_type := ?t\<rparr>)"
      unfolding ws using assms by (intro inferred_type_update [of m]) (simp_all add: backward_def)
    then have "inferred_type ws (ws ! m) = sv_type (ws ! m)"
      using assms(2) inferred_own_type [of vs ?v] by (simp add: ws)
    then show ?thesis
      using assms(2,5) old by (auto simp: typed_upto_def less_Suc_eq retyped_def ws nth_list_update)
  next
    case False
    then have "ws = vs" using assms(1) by (auto simp: infer_value_def Let_def split: if_splits)
    then show ?thesis using False assms(5) by (auto simp: typed_upto_def less_Suc_eq retyped_refl)
  qed
qed

lemma retyped_fields:
  assumes "retyped vs ws" "i < length vs"
  shows "sv_left (ws ! i) = sv_left (vs ! i)" "sv_right (ws ! i) = sv_right (vs ! i)" "sv_use_count (ws ! i) = sv_use_count (vs ! i)"
    "sv_opcode (ws ! i) = sv_opcode (vs ! i)" "sv_id (ws ! i) = sv_id (vs ! i)" "sv_block (ws ! i) = sv_block (vs ! i)"
    "sv_immediate (ws ! i) = sv_immediate (vs ! i)" "sv_removed (ws ! i) = sv_removed (vs ! i)" "sv_has_deopt_edge (ws ! i) = sv_has_deopt_edge (vs ! i)"
proof -
  have eq: "ws ! i = (vs ! i)\<lparr>sv_type := sv_type (ws ! i)\<rparr>" using assms by (simp add: retyped_def)
  show "sv_left (ws ! i) = sv_left (vs ! i)" "sv_right (ws ! i) = sv_right (vs ! i)" "sv_use_count (ws ! i) = sv_use_count (vs ! i)"
    "sv_opcode (ws ! i) = sv_opcode (vs ! i)" "sv_id (ws ! i) = sv_id (vs ! i)" "sv_block (ws ! i) = sv_block (vs ! i)"
    "sv_immediate (ws ! i) = sv_immediate (vs ! i)" "sv_removed (ws ! i) = sv_removed (vs ! i)" "sv_has_deopt_edge (ws ! i) = sv_has_deopt_edge (vs ! i)"
    by (subst eq, simp)+
qed

lemma retyped_backward: "retyped vs ws \<Longrightarrow> i < length vs \<Longrightarrow> backward i (ws ! i) = backward i (vs ! i)"
  by (simp add: backward_def retyped_fields)

lemma infer_pass_types:
  assumes "m \<le> length vs" "length vs < 2 ^ 31" "\<forall>i<length vs. backward i (vs ! i)" "fold infer_value [0..<m] (vs, c, n) = (ws, c', n')"
  shows "retyped vs ws \<and> typed_upto m ws"
  using assms
proof (induction m arbitrary: ws c' n')
  case 0
  then show ?case by (simp add: retyped_refl typed_upto_def)
next
  case (Suc m)
  obtain us c1 n1 where us: "fold infer_value [0..<m] (vs, c, n) = (us, c1, n1)" by (metis prod_cases3)
  have t: "retyped vs us" "typed_upto m us" using Suc.IH [OF _ _ _ us] Suc.prems by simp_all
  have len: "length us = length vs" using t(1) by (simp add: retyped_def)
  have "infer_value m (us, c1, n1) = (ws, c', n')" using Suc.prems(4) us by simp
  moreover have "\<forall>i<length us. backward i (us ! i)" using t(1) Suc.prems(3) len retyped_backward by simp
  ultimately have "retyped us ws \<and> typed_upto (Suc m) ws" using infer_value_step [of m us] Suc.prems len t(2) by simp
  then show ?case using t(1) retyped_trans by blast
qed

lemma infer_pass_stable:
  assumes "typed_upto (length vs) vs"
  shows "infer_pass vs n = (vs, False, n)"
proof -
  have "fold infer_value [0..<m] (vs, False, n) = (vs, False, n)" if "m \<le> length vs" for m
    using that
  proof (induction m)
    case (Suc m)
    have "sv_removed (vs ! m) \<or> inferred_type vs (vs ! m) = TURBOJS_SSA_TYPE_UNKNOWN \<or> inferred_type vs (vs ! m) = sv_type (vs ! m)"
      using assms Suc.prems by (simp add: typed_upto_def Suc_le_eq)
    then have "infer_value m (vs, False, n) = (vs, False, n)" by (auto simp: infer_value_def Let_def)
    then show ?case using Suc by simp
  qed simp
  then show ?thesis by (simp add: infer_pass_def)
qed

lemma infer_loop_ends:
  assumes "length vs < 2 ^ 31" "\<forall>i<length vs. backward i (vs ! i)"
  shows "\<exists>ws n. infer_loop vs = Some (ws, False, n) \<and> retyped vs ws \<and> typed_upto (length ws) ws"
proof -
  obtain ws c n where ws: "infer_pass vs 0 = (ws, c, n)" by (metis prod_cases3)
  have t: "retyped vs ws" "typed_upto (length ws) ws"
    using infer_pass_types [of "length vs" vs False 0 ws c n] ws assms retyped_length [of vs ws] by (simp_all add: infer_pass_def)
  let ?b = "\<lambda>(vs :: TurboJSSSAValue list, changed, changes :: u32). changed" and ?c = "\<lambda>(vs, changed :: bool, changes). infer_pass vs changes"
  have last: "while_option ?b ?c (ws, False, n) = Some (ws, False, n)" by (rule trans [OF while_option_unfold]) simp
  have "while_option ?b ?c (ws, True, n) = while_option ?b ?c (ws, False, n)"
    by (rule trans [OF while_option_unfold]) (simp add: infer_pass_stable [OF t(2)])
  then have "infer_loop vs = Some (ws, False, n)" using last by (cases c) (simp_all add: infer_loop_def ws)
  then show ?thesis using t by blast
qed

lemma infer_types_graph:
  assumes "sg_value_count g < 2 ^ 31" "\<forall>i. i < sg_value_count g \<longrightarrow> backward i (sg_values g ! i)"
  shows "\<exists>n ws. TurboJS_SSAInferTypes (Some g) = Inr (n, Some (g\<lparr>sg_values := ws\<rparr>)) \<and> retyped (sg_values g) ws \<and> typed_upto (length ws) ws"
  using infer_loop_ends [OF assms] by (auto simp: TurboJS_SSAInferTypes_def)

section \<open>What the passes keep\<close>

text \<open>The parts of a value that its meaning depends on.\<close>

definition core :: "TurboJSSSAValue \<Rightarrow> TurboJSSSAOpcode \<times> u32 \<times> u32 \<times> u32 \<times> u32 \<times> i64 \<times> bool \<times> bool" where
  "core v = (sv_opcode v, sv_id v, sv_block v, sv_left v, sv_right v, sv_immediate v, sv_removed v, sv_has_deopt_edge v)"

definition total_uses :: "TurboJSSSAValue list \<Rightarrow> nat \<Rightarrow> nat" where
  "total_uses vs k = sum_list (map (uses_of (of_nat k)) vs)"

text \<open>A straight-line graph whose use counts are not below the uses and have no room to overflow.\<close>

definition good :: "u16 \<Rightarrow> nat \<Rightarrow> TurboJSSSAValue list \<Rightarrow> bool" where
  "good argc r vs \<longleftrightarrow> scalar_values argc r vs \<and> (\<forall>k<length vs. total_uses vs k \<le> unat (sv_use_count (vs ! k))) \<and>
     sum_list (map (unat \<circ> sv_use_count) vs) \<le> 2 * length vs"

text \<open>
  The second graph computes the same values and does not run into more trouble.
\<close>

definition improves :: "nat \<Rightarrow> TurboJSSSAValue list \<Rightarrow> TurboJSSSAValue list \<Rightarrow> bool" where
  "improves r vs ws \<longleftrightarrow> length ws = length vs \<and> (\<forall>args. denotes args ws = denotes args vs) \<and>
     (\<forall>args. \<forall>i<r. emits (ws ! i) \<longrightarrow> emits (vs ! i) \<and> (sv_opcode (ws ! i) = TURBOJS_SSA_ARGUMENT \<longleftrightarrow> sv_opcode (vs ! i) = TURBOJS_SSA_ARGUMENT) \<and>
        (sv_opcode (vs ! i) = TURBOJS_SSA_ARGUMENT \<longrightarrow> sv_immediate (ws ! i) = sv_immediate (vs ! i)) \<and>
        (fits (denotes args vs) (vs ! i) \<longrightarrow> fits (denotes args vs) (ws ! i)))"

lemma improves_refl: "improves r vs vs"
  by (simp add: improves_def)

lemma improves_trans: "improves r us vs \<Longrightarrow> improves r vs ws \<Longrightarrow> improves r us ws"
  by (simp add: improves_def)

lemma improves_runs:
  assumes "improves r vs ws" "runs_ok args vs r 0"
  shows "runs_ok args ws r 0"
proof -
  obtain k where k: "k \<le> r" "tail_ok args vs r k" "\<And>j. j < k \<Longrightarrow> emits (vs ! j) \<Longrightarrow>
      sv_opcode (vs ! j) = TURBOJS_SSA_ARGUMENT \<and> unat (sv_immediate (vs ! j)) < length args"
    using assms(2) by (auto simp: runs_ok_def)
  have "tail_ok args ws r k" using assms(1) k(2) by (auto simp: tail_ok_def improves_def)
  moreover have "sv_opcode (ws ! j) = TURBOJS_SSA_ARGUMENT \<and> unat (sv_immediate (ws ! j)) < length args" if "j < k" "emits (ws ! j)" for j
    using that k(1) k(3) [of j] assms(1) by (auto simp: improves_def)
  ultimately show ?thesis using k(1) by (auto simp: runs_ok_def)
qed

lemma core_fields:
  assumes "core w = core v"
  shows "sv_opcode w = sv_opcode v" "sv_id w = sv_id v" "sv_block w = sv_block v" "sv_left w = sv_left v" "sv_right w = sv_right v"
    "sv_immediate w = sv_immediate v" "sv_removed w = sv_removed v" "sv_has_deopt_edge w = sv_has_deopt_edge v"
  using assms by (simp_all add: core_def)

lemma core_meaning:
  assumes "core w = core v"
  shows "scalar_value argc r i w = scalar_value argc r i v" "denote args D w = denote args D v" "fits D w = fits D v" "emits w = emits v"
    "uses_of k w = uses_of k v" "backward i w = backward i v"
  using core_fields [OF assms] by (simp_all add: scalar_value_def denote_def fits_def emits_def uses_of_def backward_def Let_def)

lemma core_map_nth: "map core ws = map core vs \<Longrightarrow> i < length vs \<Longrightarrow> core (ws ! i) = core (vs ! i)"
  by (metis length_map nth_map)

lemma core_length: "map core ws = map core vs \<Longrightarrow> length ws = length vs"
  by (metis length_map)

lemma core_scalar:
  assumes eq: "map core ws = map core vs" and vs: "scalar_values argc r vs"
  shows "scalar_values argc r ws"
proof -
  have len: "length ws = length vs" by (rule core_length [OF eq])
  note at = core_map_nth [OF eq]
  have "operands_live ws (ws ! i)" if i: "i < length ws" "\<not> sv_removed (ws ! i)" for i
  proof -
    have il: "i < length vs" using i len by simp
    have ops: "operands_live vs (vs ! i)" "backward i (vs ! i)"
      using scalar_valuesD(2,3) [OF vs il] i core_fields(7) [OF at [OF il]] by simp_all
    have "sv_removed (ws ! unat k) = sv_removed (vs ! unat k)" if "k \<in> {sv_left (vs ! i), sv_right (vs ! i)}" "k \<noteq> TURBOJS_SSA_NO_VALUE" for k
      using that ops(2) il core_fields(7) [OF at, of "unat k"] by (auto simp: backward_def)
    then show ?thesis
      using ops(1) core_fields(4,5) [OF at [OF il]] by (auto simp: operands_live_def)
  qed
  then have "\<forall>v\<in>set ws. \<not> sv_removed v \<longrightarrow> operands_live ws v" by (metis in_set_conv_nth)
  then show ?thesis
    using vs len core_meaning(1) [OF at] core_fields(7) [OF at, of r] by (simp add: scalar_values_def)
qed

lemma core_denotes:
  assumes "map core ws = map core vs"
  shows "denotes args ws = denotes args vs"
proof -
  have "foldl (\<lambda>D v. D @ [denote args D v]) D ws = foldl (\<lambda>D v. D @ [denote args D v]) D vs" for D
    using assms
  proof (induction vs arbitrary: ws D)
    case (Cons v vs)
    then obtain w us where "ws = w # us" "core w = core v" "map core us = map core vs" by (cases ws) auto
    then show ?case using Cons.IH [of us "D @ [denote args D v]"] core_meaning(2) [of w v args D] by simp
  qed simp
  then show ?thesis by (simp add: denotes_def)
qed

lemma core_improves:
  assumes "map core ws = map core vs" "scalar_values argc r vs"
  shows "improves r vs ws"
proof -
  have "emits (ws ! i) = emits (vs ! i) \<and> sv_opcode (ws ! i) = sv_opcode (vs ! i) \<and> sv_immediate (ws ! i) = sv_immediate (vs ! i) \<and> fits D (ws ! i) = fits D (vs ! i)"
    if "i < r" for i D
    using that scalar_bounds [OF assms(2)] core_map_nth [OF assms(1), of i] core_meaning(3,4) [of "ws ! i" "vs ! i"] core_fields(1,6) [of "ws ! i" "vs ! i"] by simp
  then show ?thesis
    unfolding improves_def using core_length [OF assms(1)] core_denotes [OF assms(1)] by (intro conjI allI impI) simp_all
qed

lemma core_total_uses: "map core ws = map core vs \<Longrightarrow> total_uses ws k = total_uses vs k"
proof -
  assume eq: "map core ws = map core vs"
  have "map (uses_of (of_nat k)) ws = map (uses_of (of_nat k)) vs"
    using core_length [OF eq] core_meaning(5) [OF core_map_nth [OF eq]] by (intro nth_equalityI) simp_all
  then show ?thesis by (simp add: total_uses_def)
qed

lemma retyped_core: "retyped vs ws \<Longrightarrow> map core ws = map core vs \<and> map sv_use_count ws = map sv_use_count vs"
proof -
  assume t: "retyped vs ws"
  have "core (ws ! i) = core (vs ! i) \<and> sv_use_count (ws ! i) = sv_use_count (vs ! i)" if "i < length vs" for i
    using retyped_fields [OF t that] by (simp add: core_def)
  then show ?thesis using t by (simp add: retyped_def list_eq_iff_nth_eq)
qed

lemma core_good:
  assumes eq: "map core ws = map core vs" "map sv_use_count ws = map sv_use_count vs" and vs: "good argc r vs"
  shows "good argc r ws"
proof -
  have len: "length ws = length vs" by (rule core_length [OF eq(1)])
  have "sv_use_count (ws ! k) = sv_use_count (vs ! k)" if "k < length vs" for k
    using that eq(2) len by (metis nth_map)
  moreover have "map (unat \<circ> sv_use_count) ws = map (unat \<circ> sv_use_count) vs"
    using eq(2) by (metis map_map)
  ultimately show ?thesis
    using vs len core_scalar [OF eq(1)] core_total_uses [OF eq(1)] by (simp add: good_def)
qed

lemma infer_good:
  assumes "good argc r (sg_values g)"
  shows "\<exists>n ws. TurboJS_SSAInferTypes (Some g) = Inr (n, Some (g\<lparr>sg_values := ws\<rparr>)) \<and> good argc r ws \<and> improves r (sg_values g) ws"
proof -
  have vs: "scalar_values argc r (sg_values g)" using assms by (simp add: good_def)
  obtain n ws where ws: "TurboJS_SSAInferTypes (Some g) = Inr (n, Some (g\<lparr>sg_values := ws\<rparr>))" "retyped (sg_values g) ws"
    using infer_types_graph [of g] scalar_bounds [OF vs] scalar_valuesD(2) [OF vs] by blast
  then show ?thesis
    using retyped_core [OF ws(2)] core_good [of ws "sg_values g"] core_improves [of ws "sg_values g"] assms vs by blast
qed

lemma improves_length: "improves r vs ws \<Longrightarrow> length ws = length vs"
  by (simp add: improves_def)

text \<open>Two graphs whose values satisfy the same equations.\<close>

lemma equal_denotes:
  assumes vs: "scalar_values argc r vs" and ws: "scalar_values argc r ws" "length ws = length vs"
    and eq: "\<And>i. i < length vs \<Longrightarrow> denote args (denotes args vs) (ws ! i) = denotes args vs ! i"
  shows "denotes args ws = denotes args vs"
  using denotes_unique [of ws "denotes args vs" args] scalar_valuesD(2) [OF ws(1)] scalar_bounds [OF vs] ws(2) eq by simp

section \<open>Use counts\<close>

lemma total_uses_update:
  assumes "i < length vs"
  shows "total_uses (vs[i := w]) k + uses_of (of_nat k) (vs ! i) = total_uses vs k + uses_of (of_nat k) w"
proof -
  have "sum_list ((map f vs)[i := f w]) + f (vs ! i) = sum_list (map f vs) + f w" for f :: "TurboJSSSAValue \<Rightarrow> nat"
    using sum_list_update [of i "map f vs" "f w"] elem_le_sum_list [of i "map f vs"] assms by simp
  then show ?thesis by (simp add: total_uses_def map_update)
qed

lemma uses_at: "uses_of (of_nat k) (vs ! i) \<le> total_uses vs k" if "i < length vs"
  using elem_le_sum_list [of i "map (uses_of (of_nat k)) vs"] that by (simp add: total_uses_def)

lemma unused_operands:
  assumes "total_uses vs k = 0" "i < length vs" "\<not> sv_removed (vs ! i)"
  shows "sv_left (vs ! i) \<noteq> of_nat k" "sv_right (vs ! i) \<noteq> of_nat k"
  using uses_at [OF assms(2), of k] assms by (auto simp: uses_of_def)

lemma operand_index: "k < 2 ^ 31 \<Longrightarrow> x = (of_nat k :: u32) \<longleftrightarrow> unat x = k"
  by (auto simp: unat_of_nat)

definition drop_at :: "u32 \<Rightarrow> TurboJSSSAValue list \<Rightarrow> TurboJSSSAValue list" where
  "drop_at k vs = (if unat k < length vs \<and> sv_use_count (vs ! unat k) \<noteq> 0
     then vs[unat k := (vs ! unat k)\<lparr>sv_use_count := sv_use_count (vs ! unat k) - 1\<rparr>] else vs)"

lemma drop_use_values: "drop_use k g = g\<lparr>sg_values := drop_at k (sg_values g)\<rparr>"
  by (simp add: drop_use_def drop_at_def update_value_def)

lemma drop_at_simps:
  shows "length (drop_at k vs) = length vs" "map core (drop_at k vs) = map core vs"
    "j < length vs \<Longrightarrow> unat (sv_use_count (drop_at k vs ! j)) = unat (sv_use_count (vs ! j)) - of_bool (unat k = j)"
proof -
  show "length (drop_at k vs) = length vs" by (simp add: drop_at_def)
  have "core (v\<lparr>sv_use_count := n\<rparr>) = core v" for v n by (simp add: core_def)
  then show "map core (drop_at k vs) = map core vs" by (simp add: drop_at_def map_update list_update_same_conv)
  have "unat (n - 1) = unat n - 1" if "n \<noteq> 0" for n :: u32 using that by (simp add: unat_sub unat_gt_0 Suc_le_eq word_le_nat_alt)
  then show "unat (sv_use_count (drop_at k vs ! j)) = unat (sv_use_count (vs ! j)) - of_bool (unat k = j)" if "j < length vs"
    using that by (auto simp: drop_at_def nth_list_update)
qed

text \<open>A value gives up its operands, and the use counts of the operands go down.\<close>

lemma retire_good:
  assumes vs: "good argc r vs" and i: "i < length vs" "\<not> sv_removed (vs ! i)"
    and ws: "scalar_values argc r ws" "map core ws = map core (vs[i := w])" and w: "\<And>k. k < length vs \<Longrightarrow> uses_of (of_nat k) w = 0"
    and count: "\<And>j. j < length vs \<Longrightarrow>
      unat (sv_use_count (ws ! j)) = unat (sv_use_count (vs ! j)) - of_bool (unat (sv_left (vs ! i)) = j) - of_bool (unat (sv_right (vs ! i)) = j)"
  shows "good argc r ws"
proof -
  have sv: "scalar_values argc r vs" and small: "length vs < 2 ^ 31" using vs scalar_bounds by (auto simp: good_def)
  have len: "length ws = length vs" using core_length [OF ws(2)] by simp
  have "total_uses ws k \<le> unat (sv_use_count (ws ! k))" if k: "k < length vs" for k
  proof -
    have "uses_of (of_nat k) (vs ! i) = of_bool (unat (sv_left (vs ! i)) = k) + of_bool (unat (sv_right (vs ! i)) = k)"
      using i(2) k small operand_index [of k] by (simp add: uses_of_def)
    moreover have "total_uses ws k + uses_of (of_nat k) (vs ! i) = total_uses vs k"
      using core_total_uses [OF ws(2)] total_uses_update [OF i(1), of w k] w [OF k] by simp
    moreover have "total_uses vs k \<le> unat (sv_use_count (vs ! k))" using vs k by (simp add: good_def)
    ultimately show ?thesis using count [OF k] by simp
  qed
  moreover have "sum_list (map (unat \<circ> sv_use_count) ws) \<le> sum_list (map (unat \<circ> sv_use_count) vs)"
    using len count by (intro sum_list_mono2) simp_all
  ultimately show ?thesis using vs ws(1) len by (simp add: good_def)
qed

section \<open>Folding\<close>

text \<open>The graph has become one that is as good and whose values are the same.\<close>

definition refined :: "u16 \<Rightarrow> nat \<Rightarrow> TurboJSSSAGraph \<Rightarrow> TurboJSSSAGraph \<Rightarrow> bool" where
  "refined argc r g0 g \<longleftrightarrow> good argc r (sg_values g) \<and> improves r (sg_values g0) (sg_values g) \<and> g = g0\<lparr>sg_values := sg_values g\<rparr>"

lemma refined_length: "refined argc r g0 g \<Longrightarrow> sg_value_count g = sg_value_count g0"
  using improves_length by (auto simp: refined_def)

lemma refinedI:
  assumes "refined argc r g0 g" "good argc r ws" "improves r (sg_values g) ws" "g' = g\<lparr>sg_values := ws\<rparr>"
  shows "refined argc r g0 g'"
proof -
  have "g = g0\<lparr>sg_values := sg_values g\<rparr>" using assms(1) by (simp add: refined_def)
  then have "g' = g0\<lparr>sg_values := ws\<rparr>" unfolding assms(4) by (cases g; cases g0) simp
  moreover have "sg_values g' = ws" by (simp add: assms(4))
  ultimately show ?thesis using assms(1-3) improves_trans by (auto simp: refined_def)
qed

definition as_constant :: "i64 \<Rightarrow> TurboJSSSAValue \<Rightarrow> TurboJSSSAValue" where
  "as_constant x v = v\<lparr>sv_opcode := TURBOJS_SSA_CONSTANT_I64, sv_immediate := x, sv_left := TURBOJS_SSA_NO_VALUE, sv_right := TURBOJS_SSA_NO_VALUE\<rparr>"

lemma fold_binary_denotes:
  assumes "sv_opcode v \<in> binary_ssa" "fold_binary (sv_opcode v) (value_at D (sv_left v)) (value_at D (sv_right v)) = Some x"
  shows "denote args D v = x"
  using assms by (auto simp: fold_binary_def denote_def binary_ssa_def checked64_def Let_def wi_hom_syms split: if_splits)

lemma constant_at:
  assumes vs: "scalar_values argc r vs" and k: "unat k < length vs" "is_const (vs ! unat k)"
  shows "value_at (denotes args vs) k = sv_immediate (vs ! unat k)"
  using scalar_equation [OF vs k(1), of args] k by (simp add: value_at_def denote_def is_const_def)

lemma constant_values:
  assumes vs: "scalar_values argc r vs" and i: "i < r" "sv_opcode (vs ! i) \<in> binary_ssa"
  shows "scalar_values argc r (vs[i := as_constant x (vs ! i)])"
proof -
  let ?w = "as_constant x (vs ! i)" and ?ws = "vs[i := as_constant x (vs ! i)]"
  have il: "i < length vs" using i scalar_bounds [OF vs] by simp
  have gone: "sv_removed (?ws ! k) = sv_removed (vs ! k)" for k
    using il by (cases "k = i") (simp_all add: as_constant_def)
  have "operands_live ?ws (?ws ! j)" if "j < length vs" "\<not> sv_removed (?ws ! j)" for j
  proof (cases "j = i")
    case True
    then show ?thesis using il by (simp add: operands_live_def as_constant_def)
  next
    case False
    then have "operands_live vs (vs ! j)" using scalar_valuesD(3) [OF vs that(1)] that by simp
    then show ?thesis using False gone by (simp add: operands_live_def)
  qed
  then have "\<forall>v\<in>set ?ws. \<not> sv_removed v \<longrightarrow> operands_live ?ws v" by (metis in_set_conv_nth length_list_update)
  moreover have "scalar_value argc r j (?ws ! j)" if "j < length vs" for j
    using scalar_valuesD(1) [OF vs that] i il by (cases "j = i") (auto simp: scalar_value_def as_constant_def leaf_ssa_def binary_ssa_def)
  ultimately show ?thesis using vs gone [of r] by (simp add: scalar_values_def)
qed

lemma constant_improves:
  assumes vs: "scalar_values argc r vs" and i: "i < r" "sv_opcode (vs ! i) \<in> binary_ssa"
    and x: "\<And>args. denote args (denotes args vs) (vs ! i) = x"
  shows "improves r vs (vs[i := as_constant x (vs ! i)])"
proof -
  let ?ws = "vs[i := as_constant x (vs ! i)]"
  have il: "i < length vs" using i scalar_bounds [OF vs] by simp
  have "denotes args ?ws = denotes args vs" for args
  proof (rule equal_denotes [OF vs constant_values [OF vs i]])
    fix j assume j: "j < length vs"
    have "denote args D (as_constant x (vs ! i)) = x" for D by (simp add: denote_def as_constant_def)
    then show "denote args (denotes args vs) (?ws ! j) = denotes args vs ! j"
      using scalar_equation [OF vs j, of args] x j by (cases "j = i") simp_all
  qed simp
  moreover have "sv_opcode (vs ! i) \<noteq> TURBOJS_SSA_ARGUMENT" "fits D (as_constant x (vs ! i))"
    "emits (as_constant x (vs ! i)) \<Longrightarrow> emits (vs ! i)" "sv_opcode (as_constant x (vs ! i)) \<noteq> TURBOJS_SSA_ARGUMENT" for D
    using i(2) by (auto simp: binary_ssa_def fits_def as_constant_def emits_def)
  ultimately show ?thesis using il by (auto simp: improves_def nth_list_update)
qed

lemma fold_constant_refined:
  assumes g: "refined argc r g0 g" and i: "i < sg_value_count g0" "\<not> sv_removed (sg_values g ! i)"
  shows "\<exists>n' g'. fold_constant i (n, g) = (n', g') \<and> refined argc r g0 g'"
proof -
  let ?vs = "sg_values g" and ?v = "sg_values g ! i"
  let ?l = "?vs ! unat (sv_left ?v)" and ?r = "?vs ! unat (sv_right ?v)"
  have good: "good argc r ?vs" and vs: "scalar_values argc r ?vs" and il: "i < sg_value_count g"
    using g i(1) improves_length by (auto simp: refined_def good_def)
  have same: ?thesis if "fold_constant i (n, g) = (n, g)" using that g by blast
  consider (skip) "\<not> (sv_opcode ?v \<in> integer_ops \<union> compare_ops \<and> unat (sv_left ?v) < sg_value_count g \<and> unat (sv_right ?v) < sg_value_count g \<and> is_const ?l \<and> is_const ?r)"
    | (none) "fold_binary (sv_opcode ?v) (sv_immediate ?l) (sv_immediate ?r) = None"
    | (folds) x where "sv_opcode ?v \<in> integer_ops \<union> compare_ops" "unat (sv_left ?v) < sg_value_count g" "unat (sv_right ?v) < sg_value_count g" "is_const ?l" "is_const ?r"
        "fold_binary (sv_opcode ?v) (sv_immediate ?l) (sv_immediate ?r) = Some x"
    by (cases "fold_binary (sv_opcode ?v) (sv_immediate ?l) (sv_immediate ?r)") blast+
  then show ?thesis
  proof cases
    case skip
    then show ?thesis by (intro same) (auto simp: fold_constant_def Let_def)
  next
    case none
    then show ?thesis by (intro same) (simp add: fold_constant_def Let_def)
  next
    case (folds x)
    from vs il have "i < r \<and> sv_opcode ?v \<in> binary_ssa"
      using folds(1) by (cases rule: scalar_kind) (auto simp: integer_ops_def compare_ops_def leaf_ssa_def)
    then have op: "i < r" "sv_opcode ?v \<in> binary_ssa" by simp_all
    have ops: "unat (sv_left ?v) \<noteq> i" "unat (sv_right ?v) \<noteq> i"
      using scalar_valuesD(2) [OF vs il] folds(2,3) scalar_bounds [OF vs] by (auto simp: backward_def)
    define us where "us = drop_at (sv_right ?v) (drop_at (sv_left ?v) ?vs)"
    have same_v: "us ! i = ?v" using ops il by (simp add: us_def drop_at_def)
    let ?ws = "us[i := as_constant x (us ! i)]"
    have cores: "map core us = map core ?vs" and len: "length us = length ?vs" by (simp_all add: us_def drop_at_simps)
    have "fold_constant i (n, g) = (n + 1, g\<lparr>sg_values := ?ws\<rparr>)"
      using folds by (simp add: fold_constant_def Let_def drop_use_values update_value_def us_def as_constant_def)
    moreover have "improves r ?vs us" "scalar_values argc r us" using core_improves [OF cores vs] core_scalar [OF cores vs] by simp_all
    moreover have "improves r us ?ws"
    proof (rule constant_improves [OF core_scalar [OF cores vs] op(1)])
      show "sv_opcode (us ! i) \<in> binary_ssa" using op same_v by simp
      show "denote args (denotes args us) (us ! i) = x" for args
        using fold_binary_denotes [OF op(2), of "denotes args ?vs" x] constant_at [OF vs folds(2,4)] constant_at [OF vs folds(3,5)] folds(6)
        by (simp add: core_denotes [OF cores] same_v)
    qed
    moreover have "good argc r ?ws"
    proof (rule retire_good [OF good il i(2)])
      show "scalar_values argc r ?ws" using constant_values [OF core_scalar [OF cores vs] op(1)] op(2) same_v by simp
      show "map core ?ws = map core (?vs[i := as_constant x ?v])" using cores same_v by (simp add: map_update)
      show "uses_of (of_nat k) (as_constant x ?v) = 0" if "k < length ?vs" for k
        using that scalar_bounds [OF vs] operand_index [of k] by (auto simp: uses_of_def as_constant_def)
      fix j assume j: "j < length ?vs"
      have "sv_use_count (?ws ! j) = sv_use_count (us ! j)" using j len by (cases "j = i") (simp_all add: as_constant_def)
      then show "unat (sv_use_count (?ws ! j)) = unat (sv_use_count (?vs ! j)) - of_bool (unat (sv_left ?v) = j) - of_bool (unat (sv_right ?v) = j)"
        using j by (simp add: us_def drop_at_simps)
    qed
    ultimately show ?thesis using refinedI [OF g] improves_trans by blast
  qed
qed

lemma fold_values_refined:
  assumes "good argc r (sg_values g0)"
  shows "\<exists>c b g. foldc fold_value [0..<sg_value_count g0] (0, 0, g0) = Inr (c, b, g) \<and> refined argc r g0 g"
proof -
  let ?P = "\<lambda>(c :: u32, b :: u32, g). refined argc r g0 g"
  have "\<exists>s'. fold_value i s = Inr s' \<and> ?P s'" if i: "i \<in> set [0..<sg_value_count g0]" and s: "?P s" for i s
  proof -
    obtain c b g where eq: "s = (c, b, g)" "refined argc r g0 g" using s by (cases s) auto
    show ?thesis
    proof (cases "sv_removed (sg_values g ! i)")
      case False
      obtain c' g' where g': "fold_constant i (c, g) = (c', g')" "refined argc r g0 g'"
        using fold_constant_refined [OF eq(2) _ False, of c] i by auto
      have "scalar_values argc r (sg_values g')" "i < sg_value_count g'"
        using g'(2) i improves_length by (auto simp: refined_def good_def)
      then have "fold_branch i (b, g') = Inr (b, g')"
        by (cases rule: scalar_kind) (auto simp: fold_branch_def Let_def leaf_ssa_def binary_ssa_def)
      then show ?thesis using g' False eq(1) by (simp add: fold_value_def bindc_def)
    qed (use eq in \<open>simp add: fold_value_def\<close>)
  qed
  moreover have "?P (0, 0, g0)" using assms by (simp add: refined_def improves_refl)
  ultimately obtain s where "foldc fold_value [0..<sg_value_count g0] (0, 0, g0) = Inr s" "?P s"
    using foldc_invariant [of "[0..<sg_value_count g0]" ?P fold_value "(0, 0, g0)"] by blast
  then show ?thesis by (cases s) auto
qed

section \<open>Equal values\<close>

lemma removed_meaning: "denote args D (v\<lparr>sv_removed := b\<rparr>) = denote args D v"
  by (simp add: denote_def Let_def)

lemma removed_scalar: "scalar_value argc r i (v\<lparr>sv_removed := b\<rparr>) = scalar_value argc r i v"
  by (simp add: scalar_value_def)

text \<open>The value \<open>i\<close> gives its uses to an equal earlier value \<open>j\<close> and is removed.\<close>

definition merged :: "nat \<Rightarrow> nat \<Rightarrow> TurboJSSSAValue list \<Rightarrow> TurboJSSSAValue list" where
  "merged i j vs =
     (let us = map (redirect (of_nat i) (of_nat j)) vs
      in us[j := (us ! j)\<lparr>sv_use_count := sv_use_count (us ! j) + of_nat (total_uses vs i)\<rparr>, i := (us ! i)\<lparr>sv_use_count := 0, sv_removed := True\<rparr>])"

lemma replace_merged:
  assumes "j < i" "i < sg_value_count g" "sg_value_count g < 2 ^ 31"
  shows "bindc (replace_value_uses g (of_nat i) (of_nat j)) (\<lambda>g. Inr (n, remove_value i g)) = Inr (n, g\<lparr>sg_values := merged i j (sg_values g)\<rparr>)"
proof -
  have "unat (of_nat i :: u32) = i" "unat (of_nat j :: u32) = j" using assms by (simp_all add: unat_of_nat)
  then show ?thesis
    using assms(1,2) by (simp add: replace_value_uses_def merged_def update_value_def rd_def bindc_def Let_def total_uses_def)
qed

lemma redirect_fields [simp]:
  "sv_opcode (redirect a b v) = sv_opcode v" "sv_id (redirect a b v) = sv_id v" "sv_block (redirect a b v) = sv_block v"
  "sv_immediate (redirect a b v) = sv_immediate v" "sv_removed (redirect a b v) = sv_removed v" "sv_use_count (redirect a b v) = sv_use_count v"
  "sv_has_deopt_edge (redirect a b v) = sv_has_deopt_edge v"
  by (simp_all add: redirect_def)

lemma redirect_uses: "a \<noteq> b \<Longrightarrow> uses_of k (redirect a b v) = (if k = a then 0 else if k = b then uses_of b v + uses_of a v else uses_of k v)"
  by (auto simp: uses_of_def redirect_def)

lemma redirect_total:
  assumes "i \<noteq> j" "i < 2 ^ 31" "j < 2 ^ 31" "k < 2 ^ 31"
  shows "total_uses (map (redirect (of_nat i) (of_nat j)) vs) k =
    (if k = i then 0 else if k = j then total_uses vs j + total_uses vs i else total_uses vs k)"
proof -
  have eq: "(of_nat a :: u32) = of_nat b \<longleftrightarrow> a = b" if "a < 2 ^ 31" "b < 2 ^ 31" for a b
    using that operand_index [of b "of_nat a"] by (simp add: unat_of_nat)
  have "uses_of (of_nat k) (redirect (of_nat i) (of_nat j) v) =
      (if k = i then 0 else if k = j then uses_of (of_nat j) v + uses_of (of_nat i) v else uses_of (of_nat k) v)" for v
    using redirect_uses [of "of_nat i" "of_nat j" "of_nat k" v] eq assms by simp
  then show ?thesis by (simp add: total_uses_def comp_def sum_list_addf)
qed

definition mergeable :: "u16 \<Rightarrow> nat \<Rightarrow> TurboJSSSAValue list \<Rightarrow> nat \<Rightarrow> nat \<Rightarrow> bool" where
  "mergeable argc r vs i j \<longleftrightarrow> good argc r vs \<and> j < i \<and> i < length vs \<and> \<not> sv_removed (vs ! i) \<and> \<not> sv_removed (vs ! j) \<and> i \<noteq> r \<and>
     (\<forall>args D. denote args D (vs ! i) = denote args D (vs ! j))"

lemma mergeableD:
  assumes "mergeable argc r vs i j"
  shows "good argc r vs" "j < i" "i < length vs" "\<not> sv_removed (vs ! i)" "\<not> sv_removed (vs ! j)" "i \<noteq> r" "denote args D (vs ! i) = denote args D (vs ! j)"
  using assms by (simp_all add: mergeable_def)

lemma mergeable_scalar:
  assumes m: "mergeable argc r vs i j"
  shows "scalar_values argc r vs"
  using mergeableD(1) [OF m] by (simp add: good_def)

lemma mergeable_small:
  assumes m: "mergeable argc r vs i j"
  shows "length vs < 2 ^ 31" "unat (of_nat i :: u32) = i" "unat (of_nat j :: u32) = j"
  using scalar_bounds [OF mergeable_scalar [OF m]] mergeableD(2,3) [OF m] by (simp_all add: unat_of_nat)

lemma length_merged [simp]: "length (merged i j vs) = length vs"
  by (simp add: merged_def Let_def)

lemma before_return:
  assumes m: "mergeable argc r vs i j" and k: "k < length vs" "x \<in> {sv_left (vs ! k), sv_right (vs ! k)}"
  shows "x = TURBOJS_SSA_NO_VALUE \<or> unat x < k \<and> unat x < r"
  using scalar_valuesD(1) [OF mergeable_scalar [OF m] k(1)] k(2) by (auto simp: scalar_value_def leaf_ssa_def binary_ssa_def split: if_splits)

text \<open>The values of the merged graph, apart from their use counts.\<close>

lemma merged_core:
  assumes m: "mergeable argc r vs i j" and "k < length vs"
  shows "core (merged i j vs ! k) = core ((redirect (of_nat i) (of_nat j) (vs ! k))\<lparr>sv_removed := sv_removed (vs ! k) \<or> k = i\<rparr>)"
proof -
  have "(redirect (of_nat i) (of_nat j) v)\<lparr>sv_removed := sv_removed v\<rparr> = redirect (of_nat i) (of_nat j) v" for v by (simp add: redirect_def)
  then show ?thesis using assms mergeableD(2,3) [OF m] by (auto simp: merged_def Let_def nth_list_update core_def)
qed

lemma merged_removed:
  assumes m: "mergeable argc r vs i j" and k: "k < length vs"
  shows "sv_removed (merged i j vs ! k) \<longleftrightarrow> sv_removed (vs ! k) \<or> k = i"
  using core_fields(7) [OF merged_core [OF m k]] by simp

lemma redirect_operand:
  assumes m: "mergeable argc r vs i j" and k: "k < length vs" "x \<in> {sv_left (vs ! k), sv_right (vs ! k)}"
  shows "(if x = of_nat i then of_nat j else x) = TURBOJS_SSA_NO_VALUE \<longleftrightarrow> x = TURBOJS_SSA_NO_VALUE"
    "x \<noteq> TURBOJS_SSA_NO_VALUE \<Longrightarrow> unat (if x = of_nat i then of_nat j else x) < k \<and> unat (if x = of_nat i then of_nat j else x) < r"
proof -
  note s = mergeable_small [OF m] mergeableD(2,3) [OF m]
  have "unat (of_nat j :: u32) \<noteq> unat TURBOJS_SSA_NO_VALUE" "unat (of_nat i :: u32) \<noteq> unat TURBOJS_SSA_NO_VALUE" using s by simp_all
  then show "(if x = of_nat i then of_nat j else x) = TURBOJS_SSA_NO_VALUE \<longleftrightarrow> x = TURBOJS_SSA_NO_VALUE" by metis
  show "unat (if x = of_nat i then of_nat j else x) < k \<and> unat (if x = of_nat i then of_nat j else x) < r" if "x \<noteq> TURBOJS_SSA_NO_VALUE"
    using before_return [OF m k] that s by (cases "x = of_nat i") simp_all
qed

lemma merged_value:
  assumes m: "mergeable argc r vs i j" and k: "k < length vs"
  shows "scalar_value argc r k (merged i j vs ! k)"
proof -
  let ?v = "vs ! k" and ?w = "redirect (of_nat i) (of_nat j) (vs ! k)"
  note v = scalar_valuesD(1) [OF mergeable_scalar [OF m] k]
  have l: "sv_left ?w = TURBOJS_SSA_NO_VALUE \<longleftrightarrow> sv_left ?v = TURBOJS_SSA_NO_VALUE" "sv_left ?v \<noteq> TURBOJS_SSA_NO_VALUE \<Longrightarrow> unat (sv_left ?w) < k \<and> unat (sv_left ?w) < r"
    and rt: "sv_right ?w = TURBOJS_SSA_NO_VALUE \<longleftrightarrow> sv_right ?v = TURBOJS_SSA_NO_VALUE" "sv_right ?v \<noteq> TURBOJS_SSA_NO_VALUE \<Longrightarrow> unat (sv_right ?w) < k"
    using redirect_operand [OF m k, of "sv_left ?v"] redirect_operand [OF m k, of "sv_right ?v"] before_return [OF m k, of "sv_left ?v"] before_return [OF m k, of "sv_right ?v"]
    by (simp_all add: redirect_def)
  have "unat x < k \<Longrightarrow> x \<noteq> TURBOJS_SSA_NO_VALUE" for x using k mergeable_small(1) [OF m] by auto
  then have "scalar_value argc r k ?w"
    using v l rt unfolding scalar_value_def redirect_fields
    by (cases "sv_opcode ?v \<in> leaf_ssa"; cases "sv_opcode ?v \<in> binary_ssa") simp_all
  then have "scalar_value argc r k (?w\<lparr>sv_removed := b\<rparr>)" for b by (simp only: removed_scalar)
  then show ?thesis using core_meaning(1) [OF merged_core [OF m k]] by simp
qed

lemma merged_live:
  assumes m: "mergeable argc r vs i j" and k: "k < length vs" "\<not> sv_removed (merged i j vs ! k)"
  shows "operands_live (merged i j vs) (merged i j vs ! k)"
proof -
  have kl: "\<not> sv_removed (vs ! k)" "k \<noteq> i" using k merged_removed [OF m] by simp_all
  have ops: "sv_left (merged i j vs ! k) = (if sv_left (vs ! k) = of_nat i then of_nat j else sv_left (vs ! k))"
    "sv_right (merged i j vs ! k) = (if sv_right (vs ! k) = of_nat i then of_nat j else sv_right (vs ! k))"
    using core_fields(4,5) [OF merged_core [OF m k(1)]] kl by (simp_all add: redirect_def)
  have "\<not> sv_removed (merged i j vs ! unat (if x = of_nat i then of_nat j else x))"
    if x: "x \<in> {sv_left (vs ! k), sv_right (vs ! k)}" "(if x = of_nat i then of_nat j else x) \<noteq> TURBOJS_SSA_NO_VALUE" for x
  proof (cases "x = of_nat i")
    case True
    then show ?thesis using merged_removed [OF m, of j] mergeable_small [OF m] mergeableD(4,5) [OF m] mergeableD(2,3) [OF m] by simp
  next
    case False
    then have "unat x \<noteq> i" "unat x < length vs" "\<not> sv_removed (vs ! unat x)"
      using x k(1) before_return [OF m k(1) x(1)] operand_index [of i x] mergeable_small [OF m] scalar_valuesD(3) [OF mergeable_scalar [OF m] k(1) kl(1)] mergeableD(2,3) [OF m]
      by (auto simp: operands_live_def)
    then show ?thesis using merged_removed [OF m, of "unat x"] False by simp
  qed
  then show ?thesis unfolding operands_live_def ops by blast
qed

lemma merged_scalar:
  assumes m: "mergeable argc r vs i j"
  shows "scalar_values argc r (merged i j vs)"
proof -
  have "\<forall>v\<in>set (merged i j vs). \<not> sv_removed v \<longrightarrow> operands_live (merged i j vs) v"
    using merged_live [OF m] by (metis in_set_conv_nth length_merged)
  then show ?thesis
    using merged_value [OF m] merged_removed [OF m, of r] scalar_bounds [OF mergeable_scalar [OF m]] mergeableD(6) [OF m] by (simp add: scalar_values_def)
qed

lemma redirect_value_at:
  assumes m: "mergeable argc r vs i j" and "k < length vs" "x \<in> {sv_left (vs ! k), sv_right (vs ! k)}"
  shows "value_at (denotes args vs) (if x = of_nat i then of_nat j else x) = value_at (denotes args vs) x"
  using scalar_equation [OF mergeable_scalar [OF m], of i args] scalar_equation [OF mergeable_scalar [OF m], of j args] mergeableD(7) [OF m] mergeable_small [OF m] mergeableD(2,3) [OF m] by (auto simp: value_at_def)

lemma merged_meaning:
  assumes m: "mergeable argc r vs i j" and k: "k < length vs"
  shows "denote args (denotes args vs) (merged i j vs ! k) = denotes args vs ! k"
    "fits (denotes args vs) (merged i j vs ! k) = fits (denotes args vs) (vs ! k)"
    "emits (merged i j vs ! k) \<Longrightarrow> emits (vs ! k)"
    "sv_opcode (merged i j vs ! k) = sv_opcode (vs ! k)" "sv_immediate (merged i j vs ! k) = sv_immediate (vs ! k)"
proof -
  let ?w = "redirect (of_nat i) (of_nat j) (vs ! k)"
  have at: "value_at (denotes args vs) (sv_left ?w) = value_at (denotes args vs) (sv_left (vs ! k))"
    "value_at (denotes args vs) (sv_right ?w) = value_at (denotes args vs) (sv_right (vs ! k))"
    using redirect_value_at [OF m k, of "sv_left (vs ! k)"] redirect_value_at [OF m k, of "sv_right (vs ! k)"] by (simp_all add: redirect_def)
  then have "denote args (denotes args vs) ?w = denote args (denotes args vs) (vs ! k)" by (simp only: denote_def redirect_fields)
  moreover have "denote args (denotes args vs) (?w\<lparr>sv_removed := b\<rparr>) = denote args (denotes args vs) ?w" for b by (rule removed_meaning)
  ultimately show "denote args (denotes args vs) (merged i j vs ! k) = denotes args vs ! k"
    using scalar_equation [OF mergeable_scalar [OF m] k, of args] core_meaning(2) [OF merged_core [OF m k]] by simp
  have "fits (denotes args vs) (?w\<lparr>sv_removed := b\<rparr>) = fits (denotes args vs) (vs ! k)" for b using at by (simp add: fits_def)
  then show "fits (denotes args vs) (merged i j vs ! k) = fits (denotes args vs) (vs ! k)" using core_meaning(3) [OF merged_core [OF m k]] by simp
  show "emits (merged i j vs ! k) \<Longrightarrow> emits (vs ! k)" using core_meaning(4) [OF merged_core [OF m k]] by (simp add: emits_def)
  show "sv_opcode (merged i j vs ! k) = sv_opcode (vs ! k)" "sv_immediate (merged i j vs ! k) = sv_immediate (vs ! k)"
    using core_fields(1,6) [OF merged_core [OF m k]] by simp_all
qed

lemma merged_improves:
  assumes m: "mergeable argc r vs i j"
  shows "improves r vs (merged i j vs)"
proof -
  have "denotes args (merged i j vs) = denotes args vs" for args
    using equal_denotes [OF mergeable_scalar [OF m] merged_scalar [OF m] length_merged] merged_meaning(1) [OF m] by blast
  then show ?thesis
    unfolding improves_def using merged_meaning(2-5) [OF m] merged_scalar [OF m] scalar_bounds [OF mergeable_scalar [OF m]] by (intro conjI allI impI) simp_all
qed

lemma moved_uses:
  assumes m: "mergeable argc r vs i j"
  shows "unat (sv_use_count (vs ! j) + of_nat (total_uses vs i)) = unat (sv_use_count (vs ! j)) + total_uses vs i" "total_uses vs i \<le> unat (sv_use_count (vs ! i))"
proof -
  show i: "total_uses vs i \<le> unat (sv_use_count (vs ! i))" using mergeableD(1) [OF m] mergeableD(2,3) [OF m] by (simp add: good_def)
  let ?xs = "map (unat \<circ> sv_use_count) vs"
  have "?xs ! i + ?xs ! j \<le> sum_list ?xs"
    using elem_le_sum_list [of j "?xs[i := 0]"] sum_list_update [of i ?xs 0] elem_le_sum_list [of i ?xs] mergeableD(2,3) [OF m] by simp
  then have "unat (sv_use_count (vs ! i)) + unat (sv_use_count (vs ! j)) \<le> 2 * length vs" using mergeableD(1) [OF m] mergeableD(2,3) [OF m] by (simp add: good_def)
  then have "unat (sv_use_count (vs ! j)) + total_uses vs i < 2 ^ 32" using i mergeable_small(1) [OF m] by simp
  then show "unat (sv_use_count (vs ! j) + of_nat (total_uses vs i)) = unat (sv_use_count (vs ! j)) + total_uses vs i"
    by (simp add: unat_word_ariths unat_of_nat)
qed

lemma merged_counts:
  assumes m: "mergeable argc r vs i j"
  shows "map (unat \<circ> sv_use_count) (merged i j vs) = (map (unat \<circ> sv_use_count) vs)[j := unat (sv_use_count (vs ! j)) + total_uses vs i, i := 0]"
  using mergeableD(2,3) [OF m] moved_uses(1) [OF m] by (simp add: merged_def Let_def map_update comp_def)

lemma merged_total:
  assumes m: "mergeable argc r vs i j" and k: "k < length vs"
  shows "total_uses (merged i j vs) k \<le> (if k = i then 0 else if k = j then total_uses vs j + total_uses vs i else total_uses vs k)"
proof -
  let ?us = "map (redirect (of_nat i) (of_nat j)) vs"
  have "map core (merged i j vs) = map core (?us[i := (?us ! i)\<lparr>sv_removed := True\<rparr>])"
    using merged_core [OF m] mergeableD(2,3) [OF m] by (intro nth_equalityI) (auto simp: nth_list_update core_def mergeableD(4,5) [OF m])
  then have "total_uses (merged i j vs) k = total_uses (?us[i := (?us ! i)\<lparr>sv_removed := True\<rparr>]) k" by (rule core_total_uses)
  also have "\<dots> \<le> total_uses ?us k"
    using total_uses_update [of i ?us "(?us ! i)\<lparr>sv_removed := True\<rparr>" k] mergeableD(2,3) [OF m] by (simp add: uses_of_def)
  also have "\<dots> = (if k = i then 0 else if k = j then total_uses vs j + total_uses vs i else total_uses vs k)"
    using redirect_total [of i j k vs] mergeableD(2,3) [OF m] k mergeable_small(1) [OF m] by simp
  finally show ?thesis .
qed

lemma merged_good:
  assumes m: "mergeable argc r vs i j"
  shows "good argc r (merged i j vs)"
proof -
  let ?xs = "map (unat \<circ> sv_use_count) vs"
  have "total_uses (merged i j vs) k \<le> unat (sv_use_count (merged i j vs ! k))" if k: "k < length vs" for k
  proof -
    have "unat (sv_use_count (merged i j vs ! k)) = map (unat \<circ> sv_use_count) (merged i j vs) ! k" using k by simp
    also have "\<dots> = (if k = i then 0 else if k = j then unat (sv_use_count (vs ! j)) + total_uses vs i else unat (sv_use_count (vs ! k)))"
      using merged_counts [OF m] k mergeableD(2,3) [OF m] by (simp add: nth_list_update)
    finally show ?thesis
      using merged_total [OF m k] mergeableD(1) [OF m] k mergeableD(2,3) [OF m] by (auto simp: good_def split: if_splits intro: order_trans)
  qed
  moreover have "sum_list (?xs[j := ?xs ! j + total_uses vs i, i := 0]) \<le> sum_list ?xs"
    using sum_list_update [of j ?xs "?xs ! j + total_uses vs i"] sum_list_update [of i "?xs[j := ?xs ! j + total_uses vs i]" 0]
      elem_le_sum_list [of j ?xs] moved_uses(2) [OF m] mergeableD(2,3) [OF m] by simp
  ultimately show ?thesis
    using mergeableD(1) [OF m] merged_scalar [OF m] merged_counts [OF m] mergeableD(2,3) [OF m] by (simp add: good_def)
qed

lemma mergeable_refined:
  assumes "refined argc r g0 g" "mergeable argc r (sg_values g) i j"
  shows "\<exists>g'. bindc (replace_value_uses g (of_nat i) (of_nat j)) (\<lambda>g. Inr (n, remove_value i g)) = Inr (n, g') \<and> refined argc r g0 g'"
  using replace_merged [of j i g n] mergeableD(2,3) [OF assms(2)] mergeable_small(1) [OF assms(2)]
    refinedI [OF assms(1) merged_good [OF assms(2)] merged_improves [OF assms(2)]] by blast

text \<open>Any pass that merges values which are equal by their expressions.\<close>

lemma eliminate_refined:
  assumes g: "refined argc r g0 g"
    and same: "\<And>v w. candidate v \<Longrightarrow> candidate w \<Longrightarrow> same v w \<Longrightarrow> sv_opcode v \<noteq> TURBOJS_SSA_RETURN \<and> sv_opcode w \<noteq> TURBOJS_SSA_RETURN \<and> (\<forall>args D. denote args D w = denote args D v)"
  shows "\<exists>n g'. foldc (eliminate_with candidate same) [0..<sg_value_count g] (0, g) = Inr (n, g') \<and> refined argc r g0 g'"
proof -
  let ?P = "\<lambda>(n :: u32, g). refined argc r g0 g"
  have len: "sg_value_count g' = sg_value_count g" if "refined argc r g0 g'" for g'
    using refined_length [OF that] refined_length [OF g] by simp
  have "\<exists>s'. eliminate_with candidate same i s = Inr s' \<and> ?P s'" if i: "i \<in> set [0..<sg_value_count g]" and s: "?P s" for i s
  proof -
    obtain n h where eq: "s = (n, h)" "refined argc r g0 h" using s by (cases s) auto
    let ?vs = "sg_values h" and ?Q = "\<lambda>j. let prior = sg_values h ! j in \<not> sv_removed prior \<and> candidate prior \<and> same prior (sg_values h ! i)"
    show ?thesis
    proof (cases "sv_removed (?vs ! i) \<or> \<not> candidate (?vs ! i) \<or> List.find ?Q [0..<i] = None")
      case True
      then show ?thesis using eq by (auto simp: eliminate_with_def Let_def)
    next
      case False
      then obtain j where j: "List.find ?Q [0..<i] = Some j" by auto
      then have Q: "?Q j" "j < i" by (auto simp: find_Some_iff)
      have good: "good argc r ?vs" and vs: "scalar_values argc r ?vs" using eq(2) by (simp_all add: refined_def good_def)
      have props: "sv_opcode (?vs ! i) \<noteq> TURBOJS_SSA_RETURN" "\<forall>args D. denote args D (?vs ! i) = denote args D (?vs ! j)"
        and live: "\<not> sv_removed (?vs ! i)" "\<not> sv_removed (?vs ! j)"
        using same [of "?vs ! j" "?vs ! i"] False Q(1) unfolding Let_def by blast+
      have il: "i < sg_value_count h" using i len [OF eq(2)] by simp
      then have "i \<noteq> r" using props(1) scalar_valuesD(1) [OF vs, of i] by (auto simp: scalar_value_def)
      then have "mergeable argc r ?vs i j"
        unfolding mergeable_def using props(2) live Q(2) good il by blast
      then obtain h' where "bindc (replace_value_uses h (of_nat i) (of_nat j)) (\<lambda>g. Inr (n + 1, remove_value i g)) = Inr (n + 1, h')" "refined argc r g0 h'"
        using mergeable_refined [OF eq(2), of i j "n + 1"] by auto
      then show ?thesis using False j eq(1) by (simp add: eliminate_with_def Let_def)
    qed
  qed
  moreover have "?P (0, g)" using g by simp
  ultimately obtain s where "foldc (eliminate_with candidate same) [0..<sg_value_count g] (0, g) = Inr s" "?P s"
    using foldc_invariant [of "[0..<sg_value_count g]" ?P] by blast
  then show ?thesis by (cases s) auto
qed

lemma same_expression_meaning: "same_expression v w \<Longrightarrow> denote args D w = denote args D v"
  by (simp add: same_expression_def denote_def Let_def)

lemma expressions_refined:
  assumes "refined argc r g0 g"
  shows "\<exists>n g'. eliminate_local_common_expressions g = Inr (n, g') \<and> refined argc r g0 g'"
  unfolding eliminate_local_common_expressions_def
  by (rule eliminate_refined [OF assms]) (auto simp: cse_candidate_def integer_ops_def compare_ops_def same_expression_meaning)

lemma guards_refined:
  assumes "refined argc r g0 g"
  shows "\<exists>n g'. eliminate_redundant_guards g = Inr (n, g') \<and> refined argc r g0 g'"
  unfolding eliminate_redundant_guards_def by (rule eliminate_refined [OF assms]) (simp add: denote_def Let_def)

section \<open>Memory\<close>

lemma scalar_op:
  assumes "scalar_values argc r vs" "i < length vs"
  shows "sv_opcode (vs ! i) \<in> {TURBOJS_SSA_RETURN, TURBOJS_SSA_GUARD_INT32} \<union> leaf_ssa \<union> binary_ssa"
  using assms by (cases rule: scalar_kind) simp_all

text \<open>A graph without property and element accesses passes unchanged through the passes for them.\<close>

lemma memory_passes_refined:
  assumes g: "refined argc r g0 g"
  shows "\<exists>stats' g'. memory_passes A stats g = Inr (stats', g') \<and> refined argc r g0 g'"
proof -
  have vs: "scalar_values argc r (sg_values g)" using g by (simp add: refined_def good_def)
  have ops: "sv_opcode (sg_values g ! i) \<notin> {TURBOJS_SSA_PROPERTY_LOAD, TURBOJS_SSA_PROPERTY_STORE, TURBOJS_SSA_ELEMENT_LOAD, TURBOJS_SSA_ELEMENT_STORE}"
    if "i < sg_value_count g" for i using scalar_op [OF vs that] by (auto simp: leaf_ssa_def binary_ssa_def)
  obtain n where scalarize: "scalarize_virtual_object_loads (oa_touched A) g = Inr (0, n, g)"
  proof -
    have "foldc scalarize_load [0..<sg_value_count g] (0, replicate (sg_value_count g) False, g) = Inr (0, replicate (sg_value_count g) False, g)"
      using ops by (intro foldc_skip) (auto simp: scalarize_load_def Let_def)
    then show ?thesis using that by (cases "sg_values g = [] \<or> \<not> oa_touched A") (auto simp: scalarize_virtual_object_loads_def bindc_def)
  qed
  have stores: "eliminate_overwritten_property_stores g = Inr (0, g)"
    unfolding eliminate_overwritten_property_stores_def using ops by (intro foldc_skip) (auto simp: Let_def)
  have phis: "create_property_store_phis g = Inr (0, g)"
    unfolding create_property_store_phis_def using ops by (intro foldc_skip) (auto simp: store_phi_def Let_def)
  have forward: "forward_property_stores_to_loads g = Inr (0, g)"
    unfolding forward_property_stores_to_loads_def using ops by (intro foldc_skip) (auto simp: unresolved_load_def)
  have loads: "eliminate_redundant_property_loads (oa_paths A) g = Inr (no_loads, g)"
    unfolding eliminate_redundant_property_loads_def using ops by (intro foldc_skip) (auto simp: unresolved_load_def)
  have elements: "eliminate_redundant_element_loads g = Inr (0, g)"
    unfolding eliminate_redundant_element_loads_def using ops by (intro foldc_skip) (auto simp: Let_def)
  have "fold element_range xs ((0, 0, 0), g) = ((0, 0, 0), g)" if "set xs \<subseteq> {..< sg_value_count g}" for xs
    using that by (induction xs) (use ops in \<open>auto simp: element_range_def Let_def\<close>)
  then have ranges: "recognize_element_loop_ranges g = ((0, 0, 0), g)" by (simp add: recognize_element_loop_ranges_def lessThan_atLeast0)
  obtain k g' where "eliminate_redundant_guards g = Inr (k, g')" "refined argc r g0 g'" using guards_refined [OF g] by blast
  then show ?thesis
    by (simp add: memory_passes_def bindc_def scalarize stores phis forward loads elements ranges)
qed

section \<open>Dead values\<close>

lemma remove_unused:
  assumes vs: "good argc r vs" and i: "i < length vs" "\<not> sv_removed (vs ! i)" "sv_use_count (vs ! i) = 0" "i \<noteq> r"
  shows "scalar_values argc r (vs[i := (vs ! i)\<lparr>sv_removed := True\<rparr>])" "improves r vs (vs[i := (vs ! i)\<lparr>sv_removed := True\<rparr>])"
proof -
  let ?w = "(vs ! i)\<lparr>sv_removed := True\<rparr>" and ?ws = "vs[i := (vs ! i)\<lparr>sv_removed := True\<rparr>]"
  have sv: "scalar_values argc r vs" and small: "length vs < 2 ^ 31" using vs scalar_bounds by (auto simp: good_def)
  have "total_uses vs i \<le> unat (sv_use_count (vs ! i))" using vs i(1) by (simp add: good_def)
  then have none: "total_uses vs i = 0" using i(3) by simp
  have "operands_live ?ws (?ws ! k)" if k: "k < length vs" "\<not> sv_removed (?ws ! k)" for k
  proof -
    have ki: "k \<noteq> i" using k i(1) by auto
    then have "operands_live vs (vs ! k)" "\<not> sv_removed (vs ! k)" using k scalar_valuesD(3) [OF sv k(1)] by simp_all
    moreover have "?ws ! unat x = vs ! unat x" if "x \<in> {sv_left (vs ! k), sv_right (vs ! k)}" for x
      using unused_operands [OF none k(1) \<open>\<not> sv_removed (vs ! k)\<close>] that operand_index [of i x] i(1) small by auto
    ultimately show ?thesis using ki by (simp add: operands_live_def)
  qed
  then have "\<forall>v\<in>set ?ws. \<not> sv_removed v \<longrightarrow> operands_live ?ws v" by (metis in_set_conv_nth length_list_update)
  moreover have "scalar_value argc r k (?ws ! k)" if "k < length vs" for k
    using scalar_valuesD(1) [OF sv that] that by (cases "k = i") (simp_all add: removed_scalar)
  ultimately show ws: "scalar_values argc r ?ws" using sv i(4) by (simp add: scalar_values_def)
  have "denotes args ?ws = denotes args vs" for args
  proof (rule equal_denotes [OF sv ws])
    fix k assume k: "k < length vs"
    show "denote args (denotes args vs) (?ws ! k) = denotes args vs ! k"
      using scalar_equation [OF sv k, of args] k by (cases "k = i") (simp_all add: removed_meaning)
  qed simp
  moreover have "\<not> emits ?w" by (simp add: emits_def)
  ultimately show "improves r vs ?ws" using i(1) by (auto simp: improves_def nth_list_update)
qed

text \<open>The values that wait for their removal: none of them is used any more.\<close>

definition waiting :: "TurboJSSSAValue list \<Rightarrow> nat list \<Rightarrow> bool" where
  "waiting vs work \<longleftrightarrow> distinct work \<and> (\<forall>i\<in>set work. i < length vs \<and> \<not> sv_removed (vs ! i) \<and> sv_use_count (vs ! i) = 0 \<and> removable_value (vs ! i))"

lemma waiting_length: "waiting vs work \<Longrightarrow> length work \<le> length vs"
  using card_mono [of "{..<length vs}" "set work"] by (auto simp: waiting_def subset_iff distinct_card)

lemma drop_at_fields:
  assumes "j < length vs"
  shows "sv_removed (drop_at k vs ! j) = sv_removed (vs ! j)" "removable_value (drop_at k vs ! j) = removable_value (vs ! j)"
    "unat k \<noteq> j \<Longrightarrow> drop_at k vs ! j = vs ! j" "sv_use_count (vs ! j) = 0 \<Longrightarrow> drop_at k vs ! j = vs ! j"
  using assms by (auto simp: drop_at_def nth_list_update removable_value_def)

lemma waiting_drop:
  assumes "waiting vs work"
  shows "waiting (drop_at k vs) work"
  using assms drop_at_fields(1,2) drop_at_fields(4) [of _ vs k] by (auto simp: waiting_def drop_at_simps(1))

text \<open>Releasing an operand lowers its use count and may queue it; there is room, since it was not in the queue.\<close>

lemma release_input_step:
  assumes w: "waiting (sg_values g) work"
  shows "\<exists>work'. release_input (sg_value_count g) k (work, g) = Inr (work', g\<lparr>sg_values := drop_at k (sg_values g)\<rparr>) \<and>
    waiting (drop_at k (sg_values g)) work' \<and> length work' \<le> Suc (length work)"
proof (cases "unat k < sg_value_count g \<and> sv_use_count (sg_values g ! unat k) \<noteq> 0")
  case False
  then have "drop_at k (sg_values g) = sg_values g" by (auto simp: drop_at_def)
  moreover have "release_input (sg_value_count g) k (work, g) = Inr (work, g)" using False by (auto simp: release_input_def)
  ultimately show ?thesis using w by simp
next
  case True
  let ?ws = "drop_at k (sg_values g)"
  have w': "waiting ?ws work" by (rule waiting_drop [OF w])
  show ?thesis
  proof (cases "sv_use_count (?ws ! unat k) = 0 \<and> \<not> sv_removed (?ws ! unat k) \<and> removable_value (?ws ! unat k)")
    case queue: True
    have "unat k \<notin> set work" using w True by (auto simp: waiting_def)
    then have "waiting ?ws (unat k # work)" using w' queue True by (simp add: waiting_def drop_at_simps(1))
    moreover from waiting_length [OF this] have "length work < sg_value_count g" by (simp add: drop_at_simps(1))
    ultimately show ?thesis using True queue by (auto simp: release_input_def drop_use_values Let_def)
  next
    case False
    then show ?thesis using True w' by (auto simp: release_input_def drop_use_values Let_def)
  qed
qed

definition live_count :: "TurboJSSSAValue list \<Rightarrow> nat" where
  "live_count vs = length (filter (\<lambda>v. \<not> sv_removed v) vs)"

lemma live_count_core: "map core ws = map core vs \<Longrightarrow> live_count ws = live_count vs"
proof -
  assume eq: "map core ws = map core vs"
  have "live_count us = length (filter (\<lambda>(_, _, _, _, _, _, b, _). \<not> b) (map core us))" for us
    by (simp add: live_count_def filter_map comp_def core_def)
  then show ?thesis using eq by metis
qed

lemma live_count_remove:
  assumes "i < length vs" "\<not> sv_removed (vs ! i)"
  shows "live_count vs = Suc (live_count (vs[i := (vs ! i)\<lparr>sv_removed := True\<rparr>]))"
proof -
  have split: "live_count (xs @ x # ys) = live_count xs + of_bool (\<not> sv_removed x) + live_count ys" for xs x ys
    by (simp add: live_count_def)
  show ?thesis
    using split [of "take i vs" "vs ! i" "drop (Suc i) vs"] split [of "take i vs" "(vs ! i)\<lparr>sv_removed := True\<rparr>" "drop (Suc i) vs"]
      id_take_nth_drop [OF assms(1)] assms by (simp add: upd_conv_take_nth_drop)
qed

text \<open>One round of the removal.\<close>

lemma remove_dead_step:
  assumes g: "refined argc r g0 g" and w: "waiting (sg_values g) (i # work)"
  shows "\<exists>n' work' g'. remove_dead (sg_value_count g) (n, i # work, g) = Inr (n', work', g') \<and> refined argc r g0 g' \<and> waiting (sg_values g') work' \<and>
    2 * live_count (sg_values g') + length work' < 2 * live_count (sg_values g) + length (i # work)"
proof -
  let ?vs = "sg_values g" and ?v = "sg_values g ! i" and ?w = "(sg_values g ! i)\<lparr>sv_removed := True\<rparr>"
  let ?us = "?vs[i := ?w]"
  have good: "good argc r ?vs" and sv: "scalar_values argc r ?vs" using g by (simp_all add: refined_def good_def)
  have i: "i < length ?vs" "\<not> sv_removed ?v" "sv_use_count ?v = 0" "removable_value ?v" using w by (simp_all add: waiting_def)
  have ir: "i \<noteq> r" using i(1,4) scalar_valuesD(1) [OF sv, of i] by (auto simp: removable_value_def scalar_value_def)
  note removed = remove_unused [OF good i(1-3) ir]
  have wu: "waiting ?us work" using w by (auto simp: waiting_def nth_list_update)
  obtain w1 where w1: "release_input (sg_value_count g) (sv_left ?v) (work, g\<lparr>sg_values := ?us\<rparr>) = Inr (w1, g\<lparr>sg_values := drop_at (sv_left ?v) ?us\<rparr>)"
      "waiting (drop_at (sv_left ?v) ?us) w1" "length w1 \<le> Suc (length work)"
    using release_input_step [of "g\<lparr>sg_values := ?us\<rparr>" work "sv_left ?v"] wu by auto
  let ?ws = "drop_at (sv_right ?v) (drop_at (sv_left ?v) ?us)"
  obtain w2 where w2: "release_input (sg_value_count g) (sv_right ?v) (w1, g\<lparr>sg_values := drop_at (sv_left ?v) ?us\<rparr>) = Inr (w2, g\<lparr>sg_values := ?ws\<rparr>)"
      "waiting ?ws w2" "length w2 \<le> Suc (length w1)"
    using release_input_step [of "g\<lparr>sg_values := drop_at (sv_left ?v) ?us\<rparr>" w1 "sv_right ?v"] w1(2) by (auto simp: drop_at_simps(1))
  have cores: "map core ?ws = map core ?us" by (simp add: drop_at_simps(2))
  have "good argc r ?ws"
  proof (rule retire_good [OF good i(1,2)])
    show "scalar_values argc r ?ws" by (rule core_scalar [OF cores removed(1)])
    show "map core ?ws = map core (?vs[i := ?w])" by (rule cores)
    show "uses_of (of_nat k) ?w = 0" for k by (simp add: uses_of_def)
    fix j assume j: "j < length ?vs"
    have "sv_use_count (?us ! j) = sv_use_count (?vs ! j)" using i(1) by (cases "j = i") simp_all
    then show "unat (sv_use_count (?ws ! j)) = unat (sv_use_count (?vs ! j)) - of_bool (unat (sv_left ?v) = j) - of_bool (unat (sv_right ?v) = j)"
      using j by (simp add: drop_at_simps)
  qed
  moreover have "improves r ?vs ?ws" using removed(2) core_improves [OF cores removed(1)] improves_trans by blast
  ultimately have "refined argc r g0 (g\<lparr>sg_values := ?ws\<rparr>)" using refinedI [OF g] by blast
  moreover have "live_count ?vs = Suc (live_count ?ws)" using live_count_remove [OF i(1,2)] live_count_core [OF cores] by simp
  moreover have "remove_dead (sg_value_count g) (n, i # work, g) = Inr (n + 1, w2, g\<lparr>sg_values := ?ws\<rparr>)"
    using i w1(1) w2(1) by (simp add: remove_dead_def Let_def update_value_def bindc_def)
  ultimately show ?thesis using w1(3) w2(2,3) by simp
qed

definition removal :: "u16 \<Rightarrow> nat \<Rightarrow> TurboJSSSAGraph \<Rightarrow> (u32 \<times> nat list \<times> TurboJSSSAGraph) c \<Rightarrow> bool" where
  "removal argc r g0 s \<longleftrightarrow> (case s of Inl _ \<Rightarrow> False | Inr (n, work, g) \<Rightarrow> refined argc r g0 g \<and> waiting (sg_values g) work)"

lemma remove_loop_ends:
  assumes g: "refined argc r g0 g" "waiting (sg_values g) work"
  shows "\<exists>n g'. remove_loop (n0, work, g) = Some (Inr (n, [], g')) \<and> refined argc r g0 g'"
proof -
  let ?b = "\<lambda>s :: (u32 \<times> nat list \<times> TurboJSSSAGraph) c. case s of Inl _ \<Rightarrow> False | Inr (_, work, _) \<Rightarrow> work \<noteq> []"
  let ?c = "\<lambda>s. bindc s (remove_dead (sg_value_count g))"
  let ?m = "\<lambda>s :: (u32 \<times> nat list \<times> TurboJSSSAGraph) c. case s of Inl _ \<Rightarrow> 0 | Inr (n, work, g) \<Rightarrow> 2 * live_count (sg_values g) + length work"
  have step: "removal argc r g0 (?c s) \<and> ?m (?c s) < ?m s" if s: "removal argc r g0 s" "?b s" for s
  proof -
    obtain n i work h where eq: "s = Inr (n, i # work, h)"
      using s(2) by (cases s) (auto simp: neq_Nil_conv)
    then have h: "refined argc r g0 h" "waiting (sg_values h) (i # work)" using s(1) by (simp_all add: removal_def)
    have "sg_value_count h = sg_value_count g" using refined_length [OF h(1)] refined_length [OF g(1)] by simp
    then show ?thesis using remove_dead_step [OF h, of n] eq by (auto simp: bindc_def removal_def)
  qed
  have start: "removal argc r g0 (Inr (n0, work, g))" using g by (simp add: removal_def)
  obtain t where t: "while_option ?b ?c (Inr (n0, work, g)) = Some t"
    using measure_while_option_Some [where P = "removal argc r g0" and b = ?b and c = ?c and f = ?m, OF step start] by blast
  have "removal argc r g0 t" by (rule while_option_rule [where P = "removal argc r g0", OF _ t start]) (use step in blast)
  moreover have "\<not> ?b t" by (rule while_option_stop [OF t])
  ultimately obtain n g' where "t = Inr (n, [], g')" "refined argc r g0 g'" by (cases t) (auto simp: removal_def)
  then show ?thesis using t by (simp add: remove_loop_def)
qed

lemma dead_values_waiting: "waiting (sg_values g) (dead_values g)"
  by (auto simp: waiting_def dead_values_def Let_def)

lemma remove_dead_refined:
  assumes "refined argc r g0 g"
  shows "\<exists>n g'. remove_dead_values ok g = Inr (n, g') \<and> refined argc r g0 g'"
proof (cases "\<not> ok \<or> sg_values g = []")
  case False
  then show ?thesis
    using remove_loop_ends [OF assms dead_values_waiting, of 0] by (auto simp: remove_dead_values_def bindc_def)
qed (use assms in \<open>auto simp: remove_dead_values_def\<close>)

section \<open>The whole optimizer\<close>

lemma refined_refl: "good argc r (sg_values g) \<Longrightarrow> refined argc r g g"
  by (simp add: refined_def improves_refl)

lemma refined_trans: "refined argc r g0 g1 \<Longrightarrow> refined argc r g1 g2 \<Longrightarrow> refined argc r g0 g2"
  using refinedI [of argc r g0 g1 "sg_values g2" g2] by (simp add: refined_def)

lemma infer_refined:
  assumes "refined argc r g0 g"
  shows "\<exists>n g'. TurboJS_SSAInferTypes (Some g) = Inr (n, Some g') \<and> refined argc r g0 g'"
proof -
  have "good argc r (sg_values g)" using assms by (simp add: refined_def)
  then obtain n ws where "TurboJS_SSAInferTypes (Some g) = Inr (n, Some (g\<lparr>sg_values := ws\<rparr>))" "good argc r ws" "improves r (sg_values g) ws"
    using infer_good by blast
  then show ?thesis using refinedI [OF assms] by blast
qed

lemma reach_lone:
  assumes "sg_blocks g = [b]" "lone_block b" "sg_entry_block g = 0"
  shows "mark_reachable g = Inr (g\<lparr>sg_blocks := [b\<lparr>sb_reachable := True\<rparr>]\<rparr>)"
  using assms by (simp add: mark_reachable_def rd_def bindc_def Let_def update_block_def lone_block_def numeral_eq_Suc)

lemma optimize_refined:
  assumes g: "good argc r (sg_values g)" and b: "sg_blocks g = [b]" "lone_block b" "sg_entry_block g = 0"
  shows "\<exists>stats g'. TurboJS_SSAOptimize A (Some g) = Inr (stats, Some g') \<and> refined argc r (g\<lparr>sg_blocks := [b\<lparr>sb_reachable := True\<rparr>]\<rparr>) g'"
proof -
  note g0 = refined_refl [OF g]
  obtain n1 g1 where g1: "TurboJS_SSAInferTypes (Some g) = Inr (n1, Some g1)" "refined argc r g g1" using infer_refined [OF g0] by blast
  have good1: "good argc r (sg_values g1)" using g1(2) by (simp add: refined_def)
  obtain c n g2 where g2: "foldc fold_value [0..<sg_value_count g1] (0, 0, g1) = Inr (c, n, g2)" "refined argc r g1 g2"
    using fold_values_refined [OF good1] by blast
  obtain n3 g3 where g3: "TurboJS_SSAInferTypes (Some g2) = Inr (n3, Some g3)" "refined argc r g g3"
    using infer_refined [OF refined_trans [OF g1(2) g2(2)]] by blast
  obtain n4 g4 where g4: "eliminate_local_common_expressions g3 = Inr (n4, g4)" "refined argc r g g4" using expressions_refined [OF g3(2)] by blast
  let ?stats = "no_stats\<lparr>st_types_inferred := n1 + n3, st_constants_folded := c, st_branches_folded := n, st_expressions_eliminated := n4\<rparr>"
  obtain s5 g5 where g5: "memory_passes A ?stats g4 = Inr (s5, g5)" "refined argc r g g5" using memory_passes_refined [OF g4(2)] by blast
  have eq5: "g5 = g\<lparr>sg_values := sg_values g5\<rparr>" "good argc r (sg_values g5)" "improves r (sg_values g) (sg_values g5)" using g5(2) by (simp_all add: refined_def)
  have blocks5: "sg_blocks g5 = [b]" "sg_entry_block g5 = 0" using arg_cong [OF eq5(1), of sg_blocks] arg_cong [OF eq5(1), of sg_entry_block] b by simp_all
  let ?g0 = "g\<lparr>sg_blocks := [b\<lparr>sb_reachable := True\<rparr>]\<rparr>" and ?g6 = "g5\<lparr>sg_blocks := [b\<lparr>sb_reachable := True\<rparr>]\<rparr>"
  have "?g6 = ?g0\<lparr>sg_values := sg_values g5\<rparr>" by (subst eq5(1)) simp
  then have g6: "refined argc r ?g0 ?g6" using eq5(2,3) by (simp add: refined_def)
  obtain n7 g7 where g7: "remove_dead_values (oa_worklist A) ?g6 = Inr (n7, g7)" "refined argc r ?g0 g7" using remove_dead_refined [OF g6] by blast
  have "remove_unreachable ?g6 = (0, ?g6)" by (simp add: remove_unreachable_def Let_def)
  then show ?thesis
    using g1(1) g2(1) g3(1) g4(1) g5(1) g7 reach_lone [OF blocks5(1) b(2) blocks5(2)] by (simp add: TurboJS_SSAOptimize_def bindc_def)
qed

lemma scalar_verifies:
  assumes vs: "scalar_values argc r (sg_values g)" and b: "sg_blocks g = [b]" "lone_block b" "sg_entry_block g = 0"
  shows "TurboJS_SSAVerify (Some g)"
proof -
  have "ssa_value_ok g i (sg_values g ! i)" if i: "i < sg_value_count g" for i
  proof -
    have "sv_opcode (sg_values g ! i) \<noteq> TURBOJS_SSA_PHI" using scalar_op [OF vs i] by (auto simp: leaf_ssa_def binary_ssa_def)
    moreover have "sv_left (sg_values g ! i) \<noteq> TURBOJS_SSA_NO_VALUE \<and> sv_has_deopt_edge (sg_values g ! i)" if "sv_opcode (sg_values g ! i) = TURBOJS_SSA_GUARD_INT32"
      using scalar_valuesD(1) [OF vs i] that i scalar_bounds [OF vs] by (auto simp: scalar_value_def leaf_ssa_def binary_ssa_def split: if_splits)
    moreover have "unat (sv_id (sg_values g ! i)) = i" "sv_block (sg_values g ! i) = 0" using scalar_valuesD(1) [OF vs i] by (simp_all add: scalar_value_def)
    ultimately show ?thesis using scalar_valuesD(2) [OF vs i] b(1) by (auto simp: ssa_value_ok_def backward_def)
  qed
  then show ?thesis using b by (simp add: TurboJS_SSAVerify_def ssa_block_ok_def lone_block_def list_all_iff)
qed

text \<open>Lowering and running an optimized graph.\<close>

lemma optimized_execute:
  assumes g: "scalar_values argc r (sg_values g)" "scalar_values argc r (sg_values h)" "improves r (sg_values g) (sg_values h)"
    and f: "scalar_function argc r (sg_values g) f" "scalar_function argc r (sg_values h) f'"
    and run: "TurboJS_IRExecute E H (Some f) args n (Some cell) = Inr (TURBOJS_IR_OK, Some v)"
  shows "TurboJS_IRExecute E' H (Some f') args n (Some cell') = Inr (TURBOJS_IR_OK, Some v)"
proof -
  have st: "irf_argument_count f = argc" using f(1) by (simp add: scalar_function_def)
  have args: "\<not> (n \<noteq> 0 \<and> args = None)" "unat argc \<le> n"
    using run st by (auto simp: TurboJS_IRExecute_def bindc_def split: sum.splits if_splits prod.splits)
  let ?xs = "case args of None \<Rightarrow> [] | Some xs \<Rightarrow> xs"
  have "runs_ok ?xs (sg_values g) r 0" "v = denotes ?xs (sg_values g) ! r" using scalar_execute [OF g(1) f(1) args, of E H cell v] run by simp_all
  moreover have "denotes ?xs (sg_values h) = denotes ?xs (sg_values g)" using g(3) by (simp add: improves_def)
  ultimately show ?thesis using scalar_execute [OF g(2) f(2) args, of E' H cell' v] improves_runs [OF g(3)] by simp
qed

section \<open>When type inference ends\<close>

text \<open>
  C38. Type inference ends on graphs without phis. For a verified graph with fewer than two to the 31 values, none of them a
  phi, it ends, changes nothing but types, and leaves every value that is not removed with the type that its operands give it, where they give one.
\<close>

theorem type_inference_ends:
  assumes verified: "TurboJS_SSAVerify (Some g)" and plain: "\<forall>v\<in>set (sg_values g). sv_opcode v \<noteq> TURBOJS_SSA_PHI" and small: "sg_value_count g < 2 ^ 31"
  shows "\<exists>n ws. TurboJS_SSAInferTypes (Some g) = Inr (n, Some (g\<lparr>sg_values := ws\<rparr>)) \<and> retyped (sg_values g) ws \<and> typed_upto (length ws) ws"
proof (rule infer_types_graph [OF small], intro allI impI)
  fix i assume i: "i < sg_value_count g"
  then have "ssa_value_ok g i (sg_values g ! i)" using verified by (simp add: TurboJS_SSAVerify_def list_all_iff)
  moreover have "sv_opcode (sg_values g ! i) \<noteq> TURBOJS_SSA_PHI" using plain i by simp
  ultimately show "backward i (sg_values g ! i)" by (auto simp: ssa_value_ok_def backward_def)
qed

definition typed_value :: "TurboJSSSAOpcode \<Rightarrow> TurboJSSSAType \<Rightarrow> u32 \<Rightarrow> u32 \<Rightarrow> TurboJSSSAValue" where
  "typed_value op t i operand = \<lparr>sv_opcode = op, sv_type = t, sv_id = i, sv_block = 0, sv_left = operand, sv_right = operand,
     sv_immediate = 0, sv_use_count = 0, sv_source_instruction = 0, sv_deopt_id = 0, sv_removed = False, sv_has_deopt_edge = False,
     sv_property = null_property, sv_element = null_element\<rparr>"

definition one_block :: "TurboJSSSAValue list \<Rightarrow> TurboJSSSAGraph" where
  "one_block vs = \<lparr>sg_values = vs, sg_blocks = [(new_block 0 0 0)\<lparr>sb_value_count := of_nat (length vs)\<rparr>], sg_entry_block = 0, sg_deopt_exit_count = 0\<rparr>"

theorem type_inference_ends_witness:
  "\<exists>n g. TurboJS_SSAInferTypes (Some (one_block [typed_value TURBOJS_SSA_CONSTANT_I64 TURBOJS_SSA_TYPE_UNKNOWN 0 TURBOJS_SSA_NO_VALUE,
     typed_value TURBOJS_SSA_ADD_I64 TURBOJS_SSA_TYPE_UNKNOWN 1 0])) = Inr (n, Some g)"
proof -
  let ?g = "one_block [typed_value TURBOJS_SSA_CONSTANT_I64 TURBOJS_SSA_TYPE_UNKNOWN 0 TURBOJS_SSA_NO_VALUE, typed_value TURBOJS_SSA_ADD_I64 TURBOJS_SSA_TYPE_UNKNOWN 1 0]"
  have "TurboJS_SSAVerify (Some ?g)"
    by (simp add: TurboJS_SSAVerify_def one_block_def ssa_block_ok_def ssa_value_ok_def typed_value_def new_block_def upt_rec)
  moreover have "\<forall>v\<in>set (sg_values ?g). sv_opcode v \<noteq> TURBOJS_SSA_PHI" "sg_value_count ?g < 2 ^ 31" by (simp_all add: one_block_def typed_value_def)
  ultimately show ?thesis using type_inference_ends [of ?g] by blast
qed

text \<open>
  Three phis in a ring, which a verified graph may have: their types move around it for ever.
\<close>

definition phi_ring :: "TurboJSSSAType \<Rightarrow> TurboJSSSAType \<Rightarrow> TurboJSSSAValue list" where
  "phi_ring s t = [typed_value TURBOJS_SSA_PHI s 0 1, typed_value TURBOJS_SSA_PHI t 1 2, typed_value TURBOJS_SSA_PHI s 2 0]"

lemma phi_ring_turns:
  assumes "s \<noteq> t" "s \<noteq> TURBOJS_SSA_TYPE_UNKNOWN" "t \<noteq> TURBOJS_SSA_TYPE_UNKNOWN"
  shows "infer_pass (phi_ring s t) n = (phi_ring t s, True, n + 3)"
  using assms by (simp add: infer_pass_def phi_ring_def upt_rec infer_value_def inferred_type_def Let_def typed_value_def compare_ops_def integer_ops_def)

theorem type_inference_diverges:
  "TurboJS_SSAVerify (Some (one_block (phi_ring TURBOJS_SSA_TYPE_INT64 TURBOJS_SSA_TYPE_INT32))) \<and>
   TurboJS_SSAInferTypes (Some (one_block (phi_ring TURBOJS_SSA_TYPE_INT64 TURBOJS_SSA_TYPE_INT32))) = Inl Fault_loop"
proof
  show "TurboJS_SSAVerify (Some (one_block (phi_ring TURBOJS_SSA_TYPE_INT64 TURBOJS_SSA_TYPE_INT32)))"
    by (simp add: TurboJS_SSAVerify_def one_block_def phi_ring_def ssa_block_ok_def ssa_value_ok_def typed_value_def new_block_def upt_rec)
  let ?I = "\<lambda>(vs, changed, n :: u32). changed \<and> vs \<in> {phi_ring TURBOJS_SSA_TYPE_INT64 TURBOJS_SSA_TYPE_INT32, phi_ring TURBOJS_SSA_TYPE_INT32 TURBOJS_SSA_TYPE_INT64}"
  have "infer_loop (phi_ring TURBOJS_SSA_TYPE_INT64 TURBOJS_SSA_TYPE_INT32) = None"
  proof (rule ccontr)
    assume "infer_loop (phi_ring TURBOJS_SSA_TYPE_INT64 TURBOJS_SSA_TYPE_INT32) \<noteq> None"
    then obtain r where r: "while_option (\<lambda>(vs, changed, changes). changed) (\<lambda>(vs, changed, changes). infer_pass vs changes)
        (infer_pass (phi_ring TURBOJS_SSA_TYPE_INT64 TURBOJS_SSA_TYPE_INT32) 0) = Some r" by (auto simp: infer_loop_def)
    have "?I r" by (rule while_option_rule [where P = ?I, OF _ r]) (auto simp: phi_ring_turns)
    then show False using while_option_stop [OF r] by auto
  qed
  then show "TurboJS_SSAInferTypes (Some (one_block (phi_ring TURBOJS_SSA_TYPE_INT64 TURBOJS_SSA_TYPE_INT32))) = Inl Fault_loop"
    by (simp add: TurboJS_SSAInferTypes_def one_block_def)
qed

section \<open>Element loads\<close>

text \<open>
  Two receivers, an index, a load from the first receiver, a store to the second one and the same load again. Both receivers may be
  one array, but the second load is replaced by the first.
\<close>

definition operation :: "TurboJSSSAOpcode \<Rightarrow> u32 \<Rightarrow> u32 \<Rightarrow> u32 \<Rightarrow> TurboJSSSAValue" where
  "operation op i left right = (typed_value op TURBOJS_SSA_TYPE_INT64 i left)\<lparr>sv_right := right\<rparr>"

definition aliased_elements :: TurboJSSSAGraph where
  "aliased_elements = one_block
     [operation TURBOJS_SSA_ARGUMENT 0 TURBOJS_SSA_NO_VALUE TURBOJS_SSA_NO_VALUE, operation TURBOJS_SSA_ARGUMENT 1 TURBOJS_SSA_NO_VALUE TURBOJS_SSA_NO_VALUE,
      operation TURBOJS_SSA_ARGUMENT 2 TURBOJS_SSA_NO_VALUE TURBOJS_SSA_NO_VALUE, operation TURBOJS_SSA_ELEMENT_LOAD 3 0 2,
      operation TURBOJS_SSA_ELEMENT_STORE 4 1 2, operation TURBOJS_SSA_ELEMENT_LOAD 5 0 2, operation TURBOJS_SSA_RETURN 6 5 TURBOJS_SSA_NO_VALUE]"

theorem element_load_reused_across_store:
  "TurboJS_SSAVerify (Some aliased_elements) \<and>
   (\<exists>g. eliminate_redundant_element_loads aliased_elements = Inr (1, g) \<and> sv_removed (sg_values g ! 5) \<and> sv_left (sg_values g ! 6) = 3 \<and> \<not> sv_removed (sg_values g ! 4))"
proof
  show "TurboJS_SSAVerify (Some aliased_elements)"
    by (simp add: TurboJS_SSAVerify_def aliased_elements_def operation_def one_block_def ssa_block_ok_def ssa_value_ok_def typed_value_def new_block_def upt_rec)
  show "\<exists>g. eliminate_redundant_element_loads aliased_elements = Inr (1, g) \<and> sv_removed (sg_values g ! 5) \<and> sv_left (sg_values g ! 6) = 3 \<and> \<not> sv_removed (sg_values g ! 4)"
    by (simp add: eliminate_redundant_element_loads_def element_load_def aliased_elements_def operation_def one_block_def typed_value_def new_block_def upt_rec
        replace_value_uses_def redirect_def update_value_def bindc_def Let_def rd_def)
qed

end
