(* ===== verification/Linear_Scan.thy ===== *)
theory Linear_Scan
  imports SSA_Opt Parallel_Moves
begin

text \<open>
  The register allocator of the optimizing tier, \<^verbatim>\<open>src/jit/optimizing/linear_scan.c\<close>: positions in reverse postorder, live
  intervals with their uses, the scan that gives each interval a register or a spill slot, and the fragments of split intervals.

  Pointers into the sorted array of intervals are indices of it. The two arrays that are sorted have keys that are
  distinct or cannot be told apart, so that the result of \<^verbatim>\<open>qsort\<close> is determined.
\<close>

section \<open>Data\<close>

record TurboJSLiveInterval =
  li_value_id :: u32
  li_start :: u32
  li_end :: u32
  li_first_use :: u32
  li_use_count :: u32
  li_loop_depth :: u16
  li_is_phi :: bool
  li_crosses_backedge :: bool
  li_register_class :: TurboJSRegisterClass
  li_physical_register :: u16
  li_spill_slot :: u16

record TurboJSLiveIntervalFragment =
  lf_value_id :: u32
  lf_start :: u32
  lf_end :: u32
  lf_physical_register :: u16
  lf_spill_slot :: u16

record TurboJSLinearScanResult =
  lr_intervals :: "TurboJSLiveInterval list"
  lr_fragments :: "TurboJSLiveIntervalFragment list"
  lr_use_positions :: "u32 list"
  lr_value_positions :: "u32 list"
  lr_block_start_positions :: "u32 list"
  lr_block_end_positions :: "u32 list"
  lr_integer_register_count :: u16
  lr_float_register_count :: u16
  lr_spill_slot_count :: u16
  lr_split_count :: u16
  lr_phi_coalesce_candidates :: u32
  lr_phi_coalesce_successes :: u32
  lr_phi_coalesce_rejected :: u32

definition null_result :: TurboJSLinearScanResult where
  "null_result = \<lparr>lr_intervals = [], lr_fragments = [], lr_use_positions = [], lr_value_positions = [], lr_block_start_positions = [],
     lr_block_end_positions = [], lr_integer_register_count = 0, lr_float_register_count = 0, lr_spill_slot_count = 0, lr_split_count = 0,
     lr_phi_coalesce_candidates = 0, lr_phi_coalesce_successes = 0, lr_phi_coalesce_rejected = 0\<rparr>"

record UseVec =
  uv_p :: "u32 list"
  uv_c :: nat

record SplitRec =
  sr_value_id :: u32
  sr_position :: u32
  sr_reg :: u16
  sr_spill :: u16

text \<open>
  The allocations: the tables, the use array of a value at a capacity, the flat array of uses, the splits at a capacity and the
  fragments.
\<close>

record scan_alloc =
  la_tables :: bool
  la_uses :: "nat \<Rightarrow> nat \<Rightarrow> bool"
  la_flat :: bool
  la_splits :: "nat \<Rightarrow> bool"
  la_fragments :: bool

text \<open>A computation that may run out of memory: \<open>Inl\<close> is what the result holds then.\<close>

type_synonym 'a attempt = "(TurboJSLinearScanResult + 'a) c"

definition bindo :: "'a attempt \<Rightarrow> ('a \<Rightarrow> 'b attempt) \<Rightarrow> 'b attempt" where
  "bindo m k = bindc m (\<lambda>r. case r of Inl res \<Rightarrow> Inr (Inl res) | Inr x \<Rightarrow> k x)"

definition got :: "'a \<Rightarrow> 'a attempt" where
  "got x = Inr (Inr x)"

definition liftc :: "'a c \<Rightarrow> 'a attempt" where
  "liftc m = bindc m got"

fun foldo :: "('a \<Rightarrow> 's \<Rightarrow> 's attempt) \<Rightarrow> 'a list \<Rightarrow> 's \<Rightarrow> 's attempt" where
  "foldo f [] s = got s"
| "foldo f (x # xs) s = bindo (f x s) (foldo f xs)"

section \<open>Uses and comparisons\<close>

definition push_use :: "(nat \<Rightarrow> bool) \<Rightarrow> UseVec \<Rightarrow> u32 \<Rightarrow> UseVec option" where
  "push_use ok v p =
     (let c = (if uv_c v \<noteq> 0 then uv_c v * 2 else 4)
      in if length (uv_p v) = uv_c v
         then (if ok c then Some \<lparr>uv_p = uv_p v @ [p], uv_c = c\<rparr> else None)
         else Some (v\<lparr>uv_p := uv_p v @ [p]\<rparr>))"

text \<open>\<^verbatim>\<open>interval_compare\<close> is not positive.\<close>

definition interval_le :: "TurboJSLiveInterval \<Rightarrow> TurboJSLiveInterval \<Rightarrow> bool" where
  "interval_le x y =
     (if li_start x \<noteq> li_start y then li_start x < li_start y
      else if li_is_phi x \<noteq> li_is_phi y then li_is_phi x
      else if li_loop_depth x \<noteq> li_loop_depth y then li_loop_depth x > li_loop_depth y
      else if li_end x \<noteq> li_end y then li_end x > li_end y
      else li_value_id x \<le> li_value_id y)"

fun insert_interval :: "TurboJSLiveInterval \<Rightarrow> TurboJSLiveInterval list \<Rightarrow> TurboJSLiveInterval list" where
  "insert_interval x [] = [x]"
| "insert_interval x (y # ys) = (if interval_le x y then x # y # ys else y # insert_interval x ys)"

definition sort_intervals :: "TurboJSLiveInterval list \<Rightarrow> TurboJSLiveInterval list" where
  "sort_intervals xs = foldr insert_interval xs []"

definition class_for :: "TurboJSSSAType \<Rightarrow> TurboJSRegisterClass" where
  "class_for t = (if t = TURBOJS_SSA_TYPE_FLOAT64 then TURBOJS_REGISTER_CLASS_FLOAT64 else TURBOJS_REGISTER_CLASS_INTEGER)"

text \<open>The depth-first search; each call that goes on marks a block, so its depth is at most the number of blocks and one.\<close>

fun dfs_rpo :: "nat \<Rightarrow> TurboJSSSAGraph \<Rightarrow> u32 \<Rightarrow> bool list \<times> u32 list \<Rightarrow> (bool list \<times> u32 list) c"
  and dfs_successors :: "nat \<Rightarrow> TurboJSSSAGraph \<Rightarrow> u32 list \<Rightarrow> bool list \<times> u32 list \<Rightarrow> (bool list \<times> u32 list) c" where
  "dfs_rpo 0 g b s = Inl Fault_loop"
| "dfs_rpo (Suc n) g b (seen, post) =
     (let x = sg_blocks g ! unat b
      in if sg_block_count g \<le> unat b \<or> seen ! unat b \<or> sb_removed x \<or> \<not> sb_reachable x then Inr (seen, post)
         else if length (sb_successors x) < unat (sb_successor_count x) then Inl Fault_bounds
         else bindc (dfs_successors n g (take (unat (sb_successor_count x)) (sb_successors x)) (seen[unat b := True], post))
                (\<lambda>(seen, post). Inr (seen, post @ [b])))"
| "dfs_successors n g [] s = Inr s"
| "dfs_successors n g (b # bs) s = bindc (dfs_rpo n g b s) (dfs_successors n g bs)"

text \<open>The walk up the dominators, with its own limit.\<close>

fun scan_dominates_walk :: "nat \<Rightarrow> TurboJSSSAGraph \<Rightarrow> u32 \<Rightarrow> u32 \<Rightarrow> bool" where
  "scan_dominates_walk 0 g d b = False"
| "scan_dominates_walk (Suc n) g d b =
     (if unat b < sg_block_count g \<and> b < TURBOJS_SSA_NO_BLOCK
      then (let b' = sb_immediate_dominator (sg_blocks g ! unat b) in b' = d \<or> scan_dominates_walk n g d b') else False)"

definition scan_block_dominates :: "TurboJSSSAGraph \<Rightarrow> u32 \<Rightarrow> u32 \<Rightarrow> bool" where
  "scan_block_dominates g d b \<longleftrightarrow> d = b \<or> scan_dominates_walk (sg_block_count g + 1) g d b"

fun next_use_loop :: "nat \<Rightarrow> u32 \<Rightarrow> u32 list \<Rightarrow> u32 \<Rightarrow> u32 c" where
  "next_use_loop 0 i uses pos = Inr 4294967295"
| "next_use_loop (Suc n) i uses pos = bindc (rd uses (unat i)) (\<lambda>u. if pos \<le> u then Inr u else next_use_loop n (i + 1) uses pos)"

definition next_use :: "TurboJSLiveInterval \<Rightarrow> u32 list \<Rightarrow> u32 \<Rightarrow> u32 c" where
  "next_use x uses pos = next_use_loop (unat (li_use_count x)) (li_first_use x) uses pos"

definition keep_score :: "TurboJSLiveInterval \<Rightarrow> u32 list \<Rightarrow> u32 \<Rightarrow> u64 c" where
  "keep_score x uses pos =
     bindc (next_use x uses pos) (\<lambda>n.
       (let distance = (if n = 4294967295 then 4294967295 else ucast (n - pos)) :: u64;
            bias = push_bit 34 (ucast (li_loop_depth x)) + (if li_is_phi x then push_bit 38 1 else 0) + (if li_crosses_backedge x then push_bit 40 1 else 0)
        in Inr (bias + push_bit 32 1 - (if 4294967295 < distance then 4294967295 else distance))))"

section \<open>Positions and intervals\<close>

definition place_value :: "TurboJSSSAGraph \<Rightarrow> nat \<Rightarrow> u32 \<times> u32 list \<Rightarrow> (u32 \<times> u32 list) c" where
  "place_value g j = (\<lambda>(pos, vpos).
     bindc (rd (sg_values g) j) (\<lambda>v. if sv_removed v then Inr (pos, vpos) else bindc (wr vpos j pos) (\<lambda>vpos. Inr (pos + 2, vpos))))"

definition place_block :: "TurboJSSSAGraph \<Rightarrow> u32 \<Rightarrow> u32 \<times> u32 list \<times> u32 list \<times> u32 list \<Rightarrow> (u32 \<times> u32 list \<times> u32 list \<times> u32 list) c" where
  "place_block g bi = (\<lambda>(pos, vpos, bstart, bend).
     bindc (rd (sg_blocks g) (unat bi)) (\<lambda>b.
     bindc (wr bstart (unat (sb_id b)) pos) (\<lambda>bstart.
     bindc (foldc (place_value g) [unat (sb_first_value b)..<unat (sb_first_value b + sb_value_count b)] (pos, vpos)) (\<lambda>(pos, vpos).
     bindc (wr bend (unat (sb_id b)) pos) (\<lambda>bend. Inr (pos + 2, vpos, bstart, bend))))))"

definition number_values :: "TurboJSSSAGraph \<Rightarrow> (u32 list \<times> u32 list \<times> u32 list) c" where
  "number_values g =
     bindc (dfs_rpo (sg_block_count g + 1) g (sg_entry_block g) (replicate (sg_block_count g) False, [])) (\<lambda>(seen, post).
     bindc (foldc (place_block g) (rev post)
             (2, replicate (sg_value_count g) 0, replicate (sg_block_count g) 0, replicate (sg_block_count g) 0)) (\<lambda>(pos, positions). Inr positions))"

definition new_interval :: "TurboJSSSAGraph \<Rightarrow> u32 list \<Rightarrow> nat \<Rightarrow> TurboJSLiveInterval" where
  "new_interval g vpos i =
     (let v = sg_values g ! i
      in \<lparr>li_value_id = of_nat i, li_start = vpos ! i, li_end = vpos ! i, li_first_use = 0, li_use_count = 0,
          li_loop_depth = (if unat (sv_block v) < sg_block_count g then sb_loop_depth (sg_blocks g ! unat (sv_block v)) else 0),
          li_is_phi = (sv_opcode v = TURBOJS_SSA_PHI), li_crosses_backedge = False, li_register_class = class_for (sv_type v),
          li_physical_register = - 1, li_spill_slot = - 1\<rparr>)"

definition add_use :: "scan_alloc \<Rightarrow> TurboJSSSAGraph \<Rightarrow> u32 \<Rightarrow> u32 \<Rightarrow> UseVec list \<times> TurboJSLiveInterval list \<Rightarrow> (UseVec list \<times> TurboJSLiveInterval list) attempt" where
  "add_use A g s p = (\<lambda>(uv, xs).
     if s \<noteq> TURBOJS_SSA_NO_VALUE \<and> unat s < sg_value_count g then
       (case push_use (la_uses A (unat s)) (uv ! unat s) p of
          None \<Rightarrow> Inr (Inl null_result)
        | Some v \<Rightarrow> got (uv[unat s := v],
            if li_end (xs ! unat s) < p then xs[unat s := (xs ! unat s)\<lparr>li_end := p\<rparr>] else xs))
     else got (uv, xs))"

text \<open>A phi uses its inputs at the ends of the predecessors, any other value at its own position.\<close>

definition add_uses :: "scan_alloc \<Rightarrow> TurboJSSSAGraph \<Rightarrow> u32 list \<Rightarrow> u32 list \<Rightarrow> nat \<Rightarrow> UseVec list \<times> TurboJSLiveInterval list \<Rightarrow> (UseVec list \<times> TurboJSLiveInterval list) attempt" where
  "add_uses A g vpos bend i s =
     (let v = sg_values g ! i; b = sg_blocks g ! unat (sv_block v); srcs = [sv_left v, sv_right v]
      in if sv_removed v then got s
         else if sv_opcode v = TURBOJS_SSA_PHI \<and> unat (sv_block v) < sg_block_count g
         then foldo (\<lambda>j s. bindo (liftc (rd (sb_predecessors b) j)) (\<lambda>p. bindo (liftc (rd bend (unat p))) (\<lambda>up. add_use A g (srcs ! j) up s)))
                [0..<min (unat (sb_predecessor_count b)) 2] s
         else foldo (\<lambda>j. add_use A g (srcs ! j) (vpos ! i)) [0..<2] s)"

definition prefer_phi :: "TurboJSSSAGraph \<Rightarrow> nat \<Rightarrow> u32 list \<times> u32 \<Rightarrow> u32 list \<times> u32" where
  "prefer_phi g i =
     (let phi = sg_values g ! i
      in if sv_removed phi \<or> sv_opcode phi \<noteq> TURBOJS_SSA_PHI then (\<lambda>s. s)
         else fold (\<lambda>u (pref, n). (let upd = sg_values g ! unat u
                in if u = TURBOJS_SSA_NO_VALUE \<or> sg_value_count g \<le> unat u \<or> sv_removed upd then (pref, n)
                   else if (sv_opcode upd = TURBOJS_SSA_ADD_I64 \<or> sv_opcode upd = TURBOJS_SSA_SUB_I64) \<and> (sv_left upd = sv_id phi \<or> sv_right upd = sv_id phi)
                   then (pref[unat u := sv_id phi], n + 1) else (pref, n)))
              [sv_left phi, sv_right phi])"

definition extend_interval :: "TurboJSSSABlock \<Rightarrow> u32 \<Rightarrow> u32 \<Rightarrow> TurboJSLiveInterval \<Rightarrow> TurboJSLiveInterval" where
  "extend_interval header hp lp x =
     (if li_start x \<le> hp \<and> hp \<le> li_end x
      then x\<lparr>li_end := max (li_end x) lp, li_crosses_backedge := True, li_loop_depth := max (li_loop_depth x) (sb_loop_depth header)\<rparr> else x)"

definition extend_edge :: "TurboJSSSAGraph \<Rightarrow> u32 list \<Rightarrow> u32 list \<Rightarrow> nat \<Rightarrow> nat \<Rightarrow> TurboJSLiveInterval list \<Rightarrow> TurboJSLiveInterval list c" where
  "extend_edge g bstart bend i j xs =
     bindc (rd (sb_successors (sg_blocks g ! i)) j) (\<lambda>h.
       if sg_block_count g \<le> unat h \<or> \<not> scan_block_dominates g h (of_nat i) then Inr xs
       else Inr (map (\<lambda>k. if sv_removed (sg_values g ! k) then xs ! k
                   else extend_interval (sg_blocks g ! unat h) (bstart ! unat h) (bend ! i) (xs ! k)) [0..<length xs]))"

definition extend_intervals :: "TurboJSSSAGraph \<Rightarrow> u32 list \<Rightarrow> u32 list \<Rightarrow> TurboJSLiveInterval list \<Rightarrow> TurboJSLiveInterval list c" where
  "extend_intervals g bstart bend xs =
     foldc (\<lambda>i. foldc (extend_edge g bstart bend i) [0..<unat (sb_successor_count (sg_blocks g ! i))]) [0..<sg_block_count g] xs"

text \<open>The use positions of all values in one array, sorted for each value.\<close>

definition flat_uses :: "UseVec list \<Rightarrow> u32 list" where
  "flat_uses uv = concat (map (\<lambda>v. sort (uv_p v)) uv)"

definition locate_uses :: "UseVec list \<Rightarrow> TurboJSLiveInterval list \<Rightarrow> TurboJSLiveInterval list" where
  "locate_uses uv xs =
     map (\<lambda>i. (xs ! i)\<lparr>li_first_use := of_nat (length (flat_uses (take i uv))), li_use_count := of_nat (length (uv_p (uv ! i)))\<rparr>) [0..<length xs]"

section \<open>The scan\<close>

record scan_state =
  ss_intervals :: "TurboJSLiveInterval list"
  ss_active :: "nat list"
  ss_spill :: u16
  ss_splits :: u16
  ss_splitv :: "SplitRec list"
  ss_splitc :: nat
  ss_successes :: u32
  ss_rejected :: u32

definition has_register :: "TurboJSLiveInterval \<Rightarrow> bool" where
  "has_register x \<longleftrightarrow> 0 \<le> sint (li_physical_register x)"

text \<open>Removing the entry \<open>j\<close>: the last entry takes its place.\<close>

definition drop_active :: "nat \<Rightarrow> nat list \<Rightarrow> nat list" where
  "drop_active j act = butlast (act[j := last act])"

function expire :: "TurboJSLiveInterval list \<Rightarrow> u32 \<Rightarrow> nat \<Rightarrow> nat list \<Rightarrow> nat list" where
  "expire xs start j act =
     (if j < length act
      then (if li_end (xs ! (act ! j)) < start then expire xs start j (drop_active j act) else expire xs start (j + 1) act)
      else act)"
  by auto
termination
  by (relation "measure (\<lambda>(xs, start, j, act). length act - j)") (auto simp: drop_active_def)

declare expire.simps [simp del]

definition mark_used :: "TurboJSLiveInterval list \<Rightarrow> TurboJSRegisterClass \<Rightarrow> nat list \<Rightarrow> bool list c" where
  "mark_used xs rc act =
     foldc (\<lambda>a used. (let x = xs ! a in if li_register_class x = rc \<and> has_register x then wr used (unat (li_physical_register x)) True else Inr used))
       act (replicate 64 False)"

fun first_free :: "nat \<Rightarrow> nat \<Rightarrow> bool list \<Rightarrow> nat option c" where
  "first_free 0 k used = Inr None"
| "first_free (Suc n) k used = bindc (rd used k) (\<lambda>b. if b then first_free n (k + 1) used else Inr (Some k))"

text \<open>The active interval with the lowest score, the first one of them.\<close>

definition find_victim :: "TurboJSLiveInterval list \<Rightarrow> u32 list \<Rightarrow> TurboJSLiveInterval \<Rightarrow> nat list \<Rightarrow> (nat \<times> u64) option c" where
  "find_victim xs uses cur act =
     foldc (\<lambda>a best. (let x = xs ! a
        in if li_register_class x \<noteq> li_register_class cur \<or> \<not> has_register x then Inr best
           else bindc (keep_score x uses (li_start cur)) (\<lambda>s.
                  Inr (case best of None \<Rightarrow> Some (a, s) | Some (v, score) \<Rightarrow> if s < score then Some (a, s) else best))))
       act None"

definition coalesce :: "u32 list \<Rightarrow> nat \<Rightarrow> scan_state \<Rightarrow> scan_state" where
  "coalesce preferred i s =
     (let xs = ss_intervals s; cur = xs ! i; p = preferred ! unat (li_value_id cur)
      in if p = TURBOJS_SSA_NO_VALUE then s
         else (case List.find (\<lambda>k. li_value_id (xs ! (ss_active s ! k)) = p) [0..<length (ss_active s)] of
                 None \<Rightarrow> s\<lparr>ss_rejected := ss_rejected s + 1\<rparr>
               | Some k \<Rightarrow>
                   (let phi = xs ! (ss_active s ! k)
                    in if li_register_class phi = li_register_class cur \<and> has_register phi \<and> li_end phi = li_start cur
                       then s\<lparr>ss_intervals := xs[i := cur\<lparr>li_physical_register := li_physical_register phi\<rparr>],
                              ss_active := drop_active k (ss_active s), ss_successes := ss_successes s + 1\<rparr>
                       else s\<lparr>ss_rejected := ss_rejected s + 1\<rparr>)))"

definition split_position :: "TurboJSSSAGraph \<Rightarrow> u32 list \<Rightarrow> TurboJSLiveInterval \<Rightarrow> TurboJSLiveInterval \<Rightarrow> u32" where
  "split_position g bstart cur victim =
     (let block = unat (sv_block (sg_values g ! unat (li_value_id cur)))
      in if block < sg_block_count g \<and> li_start victim < bstart ! block \<and> bstart ! block < li_end victim then bstart ! block else li_start cur)"

text \<open>No register is free: the interval that is worth the least keeps none.\<close>

definition spill_interval ::
  "scan_alloc \<Rightarrow> TurboJSSSAGraph \<Rightarrow> u32 list \<Rightarrow> u32 list \<Rightarrow> TurboJSLinearScanResult \<Rightarrow> nat \<Rightarrow> scan_state \<Rightarrow> scan_state attempt" where
  "spill_interval A g bstart uses res i s =
     (let xs = ss_intervals s; cur = xs ! i
      in bindo (liftc (keep_score cur uses (li_start cur))) (\<lambda>cur_score.
         bindo (liftc (find_victim xs uses cur (ss_active s))) (\<lambda>victim.
           case victim of
             Some (v, score) \<Rightarrow>
               if score < cur_score then
                 (let x = xs ! v; slot = ss_spill s; grown = (if ss_splitc s \<noteq> 0 then ss_splitc s * 2 else 8); full = length (ss_splitv s) = ss_splitc s
                  in if full \<and> \<not> la_splits A grown
                     then Inr (Inl (res\<lparr>lr_phi_coalesce_successes := ss_successes s, lr_phi_coalesce_rejected := ss_rejected s\<rparr>))
                     else got (s\<lparr>
                       ss_intervals := (xs[i := cur\<lparr>li_physical_register := li_physical_register x\<rparr>])[v := x\<lparr>li_physical_register := - 1, li_spill_slot := slot\<rparr>],
                       ss_spill := ss_spill s + 1, ss_splits := ss_splits s + 1,
                       ss_splitv := ss_splitv s @ [\<lparr>sr_value_id = li_value_id x, sr_position = split_position g bstart cur x, sr_reg = li_physical_register x, sr_spill = slot\<rparr>],
                       ss_splitc := (if full then grown else ss_splitc s)\<rparr>))
               else got (s\<lparr>ss_intervals := xs[i := cur\<lparr>li_spill_slot := ss_spill s\<rparr>], ss_spill := ss_spill s + 1\<rparr>)
           | None \<Rightarrow> got (s\<lparr>ss_intervals := xs[i := cur\<lparr>li_spill_slot := ss_spill s\<rparr>], ss_spill := ss_spill s + 1\<rparr>))))"

definition scan_limit :: "u16 \<Rightarrow> u16 \<Rightarrow> TurboJSLiveInterval \<Rightarrow> nat" where
  "scan_limit ints floats x = unat (if li_register_class x = TURBOJS_REGISTER_CLASS_FLOAT64 then floats else ints)"

definition take_register ::
  "scan_alloc \<Rightarrow> TurboJSSSAGraph \<Rightarrow> u16 \<Rightarrow> u16 \<Rightarrow> u32 list \<Rightarrow> u32 list \<Rightarrow> TurboJSLinearScanResult \<Rightarrow> bool list \<Rightarrow> nat \<Rightarrow> scan_state \<Rightarrow> scan_state attempt" where
  "take_register A g ints floats bstart uses res used i s =
     (let cur = ss_intervals s ! i
      in if has_register cur then got s
         else bindo (liftc (first_free (scan_limit ints floats cur) 0 used)) (\<lambda>free.
           case free of
             Some k \<Rightarrow> got (s\<lparr>ss_intervals := (ss_intervals s)[i := cur\<lparr>li_physical_register := of_nat k\<rparr>]\<rparr>)
           | None \<Rightarrow> spill_interval A g bstart uses res i s))"

definition scan_interval ::
  "scan_alloc \<Rightarrow> TurboJSSSAGraph \<Rightarrow> u16 \<Rightarrow> u16 \<Rightarrow> u32 list \<Rightarrow> u32 list \<Rightarrow> u32 list \<Rightarrow> TurboJSLinearScanResult \<Rightarrow> nat \<Rightarrow> scan_state \<Rightarrow> scan_state attempt" where
  "scan_interval A g ints floats preferred bstart uses res i s =
     (let cur = ss_intervals s ! i
      in if sg_value_count g \<le> unat (li_value_id cur) \<or> sv_removed (sg_values g ! unat (li_value_id cur)) then got s
         else
           (let act = expire (ss_intervals s) (li_start cur) 0 (ss_active s)
            in bindo (liftc (mark_used (ss_intervals s) (li_register_class cur) act)) (\<lambda>used.
               bindo (take_register A g ints floats bstart uses res used i (coalesce preferred i (s\<lparr>ss_active := act\<rparr>))) (\<lambda>s.
                 if length (ss_active s) < sg_value_count g then got (s\<lparr>ss_active := ss_active s @ [i]\<rparr>) else Inl Fault_bounds))))"

section \<open>Fragments\<close>

text \<open>Each split adds one fragment to those of the values, which the array has room for.\<close>

definition value_fragments :: "TurboJSSSAGraph \<Rightarrow> TurboJSLiveInterval list \<Rightarrow> SplitRec list \<Rightarrow> nat \<Rightarrow> TurboJSLiveIntervalFragment list" where
  "value_fragments g xs splitv i =
     (case List.find (\<lambda>x. unat (li_value_id x) = i) xs of
        None \<Rightarrow> []
      | Some x \<Rightarrow>
          if sv_removed (sg_values g ! i) then []
          else
            (let whole = [\<lparr>lf_value_id = of_nat i, lf_start = li_start x, lf_end = li_end x, lf_physical_register = li_physical_register x, lf_spill_slot = li_spill_slot x\<rparr>]
             in case List.find (\<lambda>r. unat (sr_value_id r) = i) splitv of
                  None \<Rightarrow> whole
                | Some r \<Rightarrow>
                    if li_start x < sr_position r
                    then [\<lparr>lf_value_id = of_nat i, lf_start = li_start x, lf_end = sr_position r - 1, lf_physical_register = sr_reg r, lf_spill_slot = - 1\<rparr>,
                          \<lparr>lf_value_id = of_nat i, lf_start = sr_position r, lf_end = li_end x, lf_physical_register = - 1, lf_spill_slot = sr_spill r\<rparr>]
                    else whole))"

section \<open>The allocator\<close>

definition live_intervals :: "scan_alloc \<Rightarrow> TurboJSSSAGraph \<Rightarrow> u32 list \<times> u32 list \<times> u32 list \<Rightarrow> (UseVec list \<times> TurboJSLiveInterval list) attempt" where
  "live_intervals A g = (\<lambda>(vpos, bstart, bend).
     bindo (foldo (add_uses A g vpos bend) [0..<sg_value_count g]
              (replicate (sg_value_count g) \<lparr>uv_p = [], uv_c = 0\<rparr>, map (new_interval g vpos) [0..<sg_value_count g])) (\<lambda>(uv, xs).
     bindo (liftc (extend_intervals g bstart bend xs)) (\<lambda>xs. got (uv, xs))))"

definition preferred_phis :: "TurboJSSSAGraph \<Rightarrow> u32 list \<times> u32" where
  "preferred_phis g = fold (prefer_phi g) [0..<sg_value_count g] (replicate (sg_value_count g) TURBOJS_SSA_NO_VALUE, 0)"

definition initial_scan :: "TurboJSLiveInterval list \<Rightarrow> scan_state" where
  "initial_scan xs = \<lparr>ss_intervals = xs, ss_active = [], ss_spill = 0, ss_splits = 0, ss_splitv = [], ss_splitc = 0, ss_successes = 0, ss_rejected = 0\<rparr>"

definition allocate :: "scan_alloc \<Rightarrow> TurboJSSSAGraph \<Rightarrow> u16 \<Rightarrow> u16 \<Rightarrow> TurboJSLinearScanResult attempt" where
  "allocate A g ints floats =
     bindo (liftc (number_values g)) (\<lambda>(vpos, bstart, bend).
     bindo (live_intervals A g (vpos, bstart, bend)) (\<lambda>(uv, xs).
       (let uses = flat_uses uv; res = null_result\<lparr>lr_phi_coalesce_candidates := snd (preferred_phis g)\<rparr>
        in if \<not> la_flat A then Inr (Inl res)
           else bindo (foldo (scan_interval A g ints floats (fst (preferred_phis g)) bstart uses res) [0..<sg_value_count g]
                         (initial_scan (sort_intervals (locate_uses uv xs)))) (\<lambda>s.
             (let res = res\<lparr>lr_phi_coalesce_successes := ss_successes s, lr_phi_coalesce_rejected := ss_rejected s\<rparr>
              in if \<not> la_fragments A then Inr (Inl res)
                 else got (res\<lparr>lr_intervals := ss_intervals s,
                   lr_fragments := concat (map (value_fragments g (ss_intervals s) (ss_splitv s)) [0..<sg_value_count g]),
                   lr_use_positions := uses, lr_value_positions := vpos, lr_block_start_positions := bstart, lr_block_end_positions := bend,
                   lr_integer_register_count := ints, lr_float_register_count := floats, lr_spill_slot_count := ss_spill s, lr_split_count := ss_splits s\<rparr>))))))"

definition TurboJS_LinearScanAllocate ::
  "scan_alloc \<Rightarrow> TurboJSSSAGraph ptr \<Rightarrow> u16 \<Rightarrow> u16 \<Rightarrow> TurboJSLinearScanResult ptr \<Rightarrow> (TurboJSIRStatus \<times> TurboJSLinearScanResult ptr) c" where
  "TurboJS_LinearScanAllocate A graph ints floats result =
     (case (graph, result) of
        (Some g, Some _) \<Rightarrow>
          if ints = 0 \<or> floats = 0 then Inr (TURBOJS_IR_INVALID_ARGUMENT, result)
          else if \<not> la_tables A then Inr (TURBOJS_IR_OUT_OF_MEMORY, Some null_result)
          else bindc (allocate A g ints floats) (\<lambda>r.
            case r of Inl res \<Rightarrow> Inr (TURBOJS_IR_OUT_OF_MEMORY, Some res) | Inr res \<Rightarrow> Inr (TURBOJS_IR_OK, Some res))
      | _ \<Rightarrow> Inr (TURBOJS_IR_INVALID_ARGUMENT, result))"

definition TurboJS_LinearScanResultDestroy :: "TurboJSLinearScanResult ptr \<Rightarrow> TurboJSLinearScanResult ptr" where
  "TurboJS_LinearScanResultDestroy result = map_option (\<lambda>_. null_result) result"

end
