(* ===== verification/Linear_Scan_Correct.thy ===== *)
theory Linear_Scan_Correct
  imports Linear_Scan
begin

text \<open>
  The register allocator always succeeds when memory does, gives no register to two values that are live at once, and its
  intervals reach every use.
\<close>

section \<open>Loops\<close>

lemma got_eq [simp]: "got x = got y \<longleftrightarrow> x = y"
  by (simp add: got_def)

lemma bindo_got [simp]: "bindo (got x) k = k x"
  by (simp add: bindo_def got_def bindc_def)

lemma bindo_liftc [simp]: "bindo (liftc (Inr x)) k = k x"
  by (simp add: bindo_def liftc_def got_def bindc_def)

lemma bindc_Inr [simp]: "bindc (Inr x) k = k x"
  by (simp add: bindc_def)

lemma foldo_upto:
  assumes "\<And>i s. i < n \<Longrightarrow> P i s \<Longrightarrow> \<exists>s'. f i s = got s' \<and> P (Suc i) s'"
  shows "k \<le> n \<Longrightarrow> P k s \<Longrightarrow> \<exists>s'. foldo f [k..<n] s = got s' \<and> P n s'"
proof (induction "n - k" arbitrary: k s)
  case (Suc d)
  have "k < n" using Suc.hyps(2) by simp
  then obtain s1 where "f k s = got s1" "P (Suc k) s1" using assms [of k s] Suc.prems(2) by auto
  moreover have "[k..<n] = k # [Suc k..<n]" using Suc by (simp add: upt_conv_Cons)
  ultimately show ?case using Suc.hyps(1) [of "Suc k" s1] Suc.hyps(2) by simp
qed auto

section \<open>The graphs that can be allocated\<close>

definition scan_block :: "TurboJSSSAGraph \<Rightarrow> TurboJSSSABlock \<Rightarrow> bool" where
  "scan_block g b \<longleftrightarrow> unat (sb_id b) < sg_block_count g \<and> unat (sb_successor_count b) \<le> length (sb_successors b) \<and>
     unat (sb_predecessor_count b) \<le> length (sb_predecessors b) \<and>
     (\<forall>p\<in>set (take (unat (sb_predecessor_count b)) (sb_predecessors b)). unat p < sg_block_count g) \<and>
     unat (sb_first_value b + sb_value_count b) \<le> sg_value_count g"

definition scan_ready :: "TurboJSSSAGraph \<Rightarrow> bool" where
  "scan_ready g \<longleftrightarrow> list_all (scan_block g) (sg_blocks g) \<and> sg_value_count g < 32768"

lemma scan_readyD:
  assumes "scan_ready g" "b < sg_block_count g"
  shows "scan_block g (sg_blocks g ! b)"
  using assms by (simp add: scan_ready_def list_all_length)

subsection \<open>The order of the blocks\<close>

definition unseen :: "bool list \<Rightarrow> nat" where
  "unseen seen = length (filter Not seen)"

lemma unseen_mark: "b < length seen \<Longrightarrow> \<not> seen ! b \<Longrightarrow> unseen seen = Suc (unseen (seen[b := True]))"
proof (induction seen arbitrary: b)
  case (Cons x seen)
  then show ?case by (cases b) (auto simp: unseen_def)
qed simp

text \<open>The search succeeds with enough depth, marks more blocks and lists blocks of the graph.\<close>

definition searched :: "TurboJSSSAGraph \<Rightarrow> bool list \<times> u32 list \<Rightarrow> (bool list \<times> u32 list) c \<Rightarrow> bool" where
  "searched g s r \<longleftrightarrow> (\<exists>seen post. r = Inr (seen, post) \<and> length seen = length (fst s) \<and> unseen seen \<le> unseen (fst s) \<and>
     (\<forall>b\<in>set post. b \<in> set (snd s) \<or> unat b < sg_block_count g))"

lemma searched_refl: "searched g s (Inr s)"
  by (cases s) (simp add: searched_def)

lemma dfs_succeeds:
  "scan_ready g \<Longrightarrow> length (fst s) = sg_block_count g \<Longrightarrow> unseen (fst s) < n \<Longrightarrow> searched g s (dfs_rpo n g b s)"
  "scan_ready g \<Longrightarrow> length (fst s) = sg_block_count g \<Longrightarrow> unseen (fst s) < n \<Longrightarrow> searched g s (dfs_successors n g bs s)"
proof (induction n g b s and n g bs s rule: dfs_rpo_dfs_successors.induct)
  case (2 n g b seen post)
  let ?x = "sg_blocks g ! unat b"
  show ?case
  proof (cases "sg_block_count g \<le> unat b \<or> seen ! unat b \<or> sb_removed ?x \<or> \<not> sb_reachable ?x")
    case True
    then show ?thesis by (simp add: searched_refl)
  next
    case False
    have edges: "unat (sb_successor_count ?x) \<le> length (sb_successors ?x)"
      using scan_readyD [OF 2(2), of "unat b"] False by (simp add: scan_block_def)
    have mark: "unseen seen = Suc (unseen (seen[unat b := True]))" using unseen_mark [of "unat b" seen] False 2(3) by simp
    have "searched g (seen[unat b := True], post) (dfs_successors n g (take (unat (sb_successor_count ?x)) (sb_successors ?x)) (seen[unat b := True], post))"
      using 2(1) [of ?x] False edges 2(2-4) mark by simp
    then show ?thesis using False edges mark by (auto simp: searched_def)
  qed
next
  case (4 n g b bs s)
  obtain seen post where first: "dfs_rpo n g b s = Inr (seen, post)" "length seen = length (fst s)" "unseen seen \<le> unseen (fst s)"
      "\<forall>b\<in>set post. b \<in> set (snd s) \<or> unat b < sg_block_count g"
    using 4(1) [OF 4(3-5)] by (auto simp: searched_def)
  have "searched g (seen, post) (dfs_successors n g bs (seen, post))" using 4(2) [of "(seen, post)"] 4(3-5) first by simp
  then show ?case using first by (fastforce simp: searched_def)
qed (simp_all add: searched_refl)

subsection \<open>Positions\<close>

definition positions :: "TurboJSSSAGraph \<Rightarrow> u32 list \<times> u32 list \<times> u32 list \<Rightarrow> bool" where
  "positions g = (\<lambda>(vpos, bstart, bend). length vpos = sg_value_count g \<and> length bstart = sg_block_count g \<and> length bend = sg_block_count g)"

lemma place_block_succeeds:
  assumes g: "scan_ready g" "unat b < sg_block_count g" and s: "positions g p"
  shows "\<exists>pos' p'. place_block g b (pos, p) = Inr (pos', p') \<and> positions g p'"
proof -
  obtain vpos bstart bend where p: "p = (vpos, bstart, bend)" by (cases p) auto
  let ?b = "sg_blocks g ! unat b"
  note ready = scan_readyD [OF g]
  have "\<exists>s'. foldc (place_value g) [unat (sb_first_value ?b)..<unat (sb_first_value ?b + sb_value_count ?b)] (pos, vpos) = Inr s' \<and>
      length (snd s') = sg_value_count g"
    using ready s p by (intro foldc_invariant) (auto simp: place_value_def rd_def wr_def scan_block_def positions_def)
  then obtain pos' vpos' where "foldc (place_value g) [unat (sb_first_value ?b)..<unat (sb_first_value ?b + sb_value_count ?b)] (pos, vpos) = Inr (pos', vpos')"
      "length vpos' = sg_value_count g" by auto
  then show ?thesis using ready s p g(2) by (auto simp: place_block_def rd_def wr_def scan_block_def positions_def)
qed

lemma number_values_succeeds:
  assumes g: "scan_ready g"
  shows "\<exists>p. number_values g = Inr p \<and> positions g p"
proof -
  let ?seen = "replicate (sg_block_count g) False"
  have "unseen ?seen < sg_block_count g + 1" by (simp add: unseen_def)
  then obtain seen post where dfs: "dfs_rpo (sg_block_count g + 1) g (sg_entry_block g) (?seen, []) = Inr (seen, post)"
      "\<forall>b\<in>set post. unat b < sg_block_count g"
    using dfs_succeeds(1) [OF g, of "(?seen, [])" "sg_block_count g + 1" "sg_entry_block g"] by (auto simp: searched_def)
  let ?s = "(2 :: u32, replicate (sg_value_count g) (0 :: u32), replicate (sg_block_count g) (0 :: u32), replicate (sg_block_count g) (0 :: u32))"
  have "\<exists>s'. foldc (place_block g) (rev post) ?s = Inr s' \<and> positions g (snd s')"
  proof (intro foldc_invariant)
    fix b and s :: "u32 \<times> u32 list \<times> u32 list \<times> u32 list" assume b: "b \<in> set (rev post)" and s: "positions g (snd s)"
    obtain pos p where "s = (pos, p)" by (cases s)
    then show "\<exists>s'. place_block g b s = Inr s' \<and> positions g (snd s')"
      using place_block_succeeds [OF g _, of b p pos] dfs(2) b s by auto
  qed (simp add: positions_def)
  then show ?thesis using dfs(1) by (auto simp: number_values_def)
qed


section \<open>Intervals\<close>

text \<open>
  The intervals of a graph while they are built: one for each value in order, with its uses, which lie before its end.
\<close>

definition uses_ok :: "TurboJSSSAGraph \<Rightarrow> u32 list \<Rightarrow> UseVec list \<times> TurboJSLiveInterval list \<Rightarrow> bool" where
  "uses_ok g vpos = (\<lambda>(uv, xs). length uv = sg_value_count g \<and> length xs = sg_value_count g \<and>
     (\<forall>k<length xs. li_value_id (xs ! k) = of_nat k \<and> li_start (xs ! k) = vpos ! k \<and> \<not> has_register (xs ! k) \<and>
        (\<forall>u\<in>set (uv_p (uv ! k)). u \<le> li_end (xs ! k))))"

definition use_count :: "UseVec list \<times> TurboJSLiveInterval list \<Rightarrow> nat" where
  "use_count s = sum_list (map (length \<circ> uv_p) (fst s))"

definition enough :: "scan_alloc \<Rightarrow> bool" where
  "enough A \<longleftrightarrow> la_tables A \<and> (\<forall>i n. la_uses A i n) \<and> la_flat A \<and> (\<forall>n. la_splits A n) \<and> la_fragments A"

text \<open>The uses that are recorded grow, and no interval shrinks.\<close>

definition grown :: "UseVec list \<times> TurboJSLiveInterval list \<Rightarrow> UseVec list \<times> TurboJSLiveInterval list \<Rightarrow> bool" where
  "grown s t \<longleftrightarrow> (\<forall>k<length (snd s). li_end (snd s ! k) \<le> li_end (snd t ! k) \<and> set (uv_p (fst s ! k)) \<subseteq> set (uv_p (fst t ! k)))"

lemma grown_trans: "length (snd s) = length (snd t) \<Longrightarrow> grown s t \<Longrightarrow> grown t u \<Longrightarrow> grown s u"
  by (fastforce simp: grown_def)

lemma push_use_enough:
  assumes "enough A"
  shows "\<exists>v'. push_use (la_uses A i) v p = Some v' \<and> uv_p v' = uv_p v @ [p]"
  using assms by (auto simp: push_use_def enough_def Let_def)

lemma add_use_succeeds:
  assumes A: "enough A" and s: "uses_ok g vpos s"
  shows "\<exists>t. add_use A g x p s = got t \<and> uses_ok g vpos t \<and> grown s t \<and> use_count t \<le> Suc (use_count s) \<and>
    (x \<noteq> TURBOJS_SSA_NO_VALUE \<longrightarrow> unat x < sg_value_count g \<longrightarrow> p \<in> set (uv_p (fst t ! unat x)))"
proof -
  obtain uv xs where eq: "s = (uv, xs)" by (cases s)
  show ?thesis
  proof (cases "x \<noteq> TURBOJS_SSA_NO_VALUE \<and> unat x < sg_value_count g")
    case False
    then have "add_use A g x p s = got s" using eq by (auto simp: add_use_def)
    then show ?thesis using s False by (intro exI [of _ s]) (auto simp: grown_def)
  next
    case True
    let ?k = "unat x"
    obtain v where v: "push_use (la_uses A ?k) (uv ! ?k) p = Some v" "uv_p v = uv_p (uv ! ?k) @ [p]"
      using push_use_enough [OF A] by blast
    let ?xs = "if li_end (xs ! ?k) < p then xs[?k := (xs ! ?k)\<lparr>li_end := p\<rparr>] else xs"
    let ?t = "(uv[?k := v], ?xs)"
    have step: "add_use A g x p s = got ?t" using True v(1) eq by (simp add: add_use_def)
    have len: "length uv = sg_value_count g" "length xs = sg_value_count g" using s eq by (simp_all add: uses_ok_def)
    have "uses_ok g vpos ?t"
    proof -
      have "li_value_id (?xs ! k) = li_value_id (xs ! k) \<and> li_start (?xs ! k) = li_start (xs ! k) \<and> has_register (?xs ! k) = has_register (xs ! k) \<and>
          li_end (xs ! k) \<le> li_end (?xs ! k)" if "k < length xs" for k
        using that by (cases "k = ?k") (auto simp: has_register_def)
      moreover have "p \<le> li_end (?xs ! ?k)" using True len by auto
      ultimately show ?thesis
        using s len True eq v(2) by (fastforce simp: uses_ok_def nth_list_update intro: order_trans)
    qed
    moreover have "grown s ?t" using eq len True v(2) by (auto simp: grown_def nth_list_update)
    moreover have "use_count ?t \<le> Suc (use_count s)"
      using len True v(2) eq elem_le_sum_list [of ?k "map (length \<circ> uv_p) uv"] by (simp add: use_count_def map_update sum_list_update)
    ultimately show ?thesis using step v(2) len True by (intro exI [of _ ?t]) simp
  qed
qed

text \<open>The uses that a value makes of its operands, with their positions.\<close>

definition uses_made :: "TurboJSSSAGraph \<Rightarrow> u32 list \<Rightarrow> u32 list \<Rightarrow> nat \<Rightarrow> (u32 \<times> u32) list" where
  "uses_made g vpos bend i =
     (let v = sg_values g ! i; b = sg_blocks g ! unat (sv_block v); srcs = [sv_left v, sv_right v]
      in if sv_removed v then []
         else if sv_opcode v = TURBOJS_SSA_PHI \<and> unat (sv_block v) < sg_block_count g
         then map (\<lambda>j. (srcs ! j, bend ! unat (sb_predecessors b ! j))) [0..<min (unat (sb_predecessor_count b)) 2]
         else map (\<lambda>j. (srcs ! j, vpos ! i)) [0..<2])"

definition recorded :: "TurboJSSSAGraph \<Rightarrow> UseVec list \<times> TurboJSLiveInterval list \<Rightarrow> u32 \<times> u32 \<Rightarrow> bool" where
  "recorded g t = (\<lambda>(x, p). x \<noteq> TURBOJS_SSA_NO_VALUE \<longrightarrow> unat x < sg_value_count g \<longrightarrow> p \<in> set (uv_p (fst t ! unat x)))"

lemma recorded_grown: "recorded g s u \<Longrightarrow> grown s t \<Longrightarrow> length (snd s) = sg_value_count g \<Longrightarrow> recorded g t u"
  by (cases u) (auto simp: recorded_def grown_def)

lemma add_uses_pairs:
  assumes "scan_ready g" "length bend = sg_block_count g"
  shows "add_uses A g vpos bend i s = foldo (\<lambda>j. add_use A g (fst (uses_made g vpos bend i ! j)) (snd (uses_made g vpos bend i ! j))) [0..<length (uses_made g vpos bend i)] s"
proof -
  have cong: "foldo f js s = foldo h js s" if "\<And>j s. j \<in> set js \<Longrightarrow> f j s = h j s" for js and f h :: "nat \<Rightarrow> UseVec list \<times> TurboJSLiveInterval list \<Rightarrow> (UseVec list \<times> TurboJSLiveInterval list) attempt" and s
    using that by (induction js arbitrary: s) (auto simp: bindo_def bindc_def split: sum.splits)
  let ?v = "sg_values g ! i" and ?b = "sg_blocks g ! unat (sv_block (sg_values g ! i))"
  let ?phi = "sv_opcode ?v = TURBOJS_SSA_PHI \<and> unat (sv_block ?v) < sg_block_count g"
  show ?thesis
  proof (cases "\<not> sv_removed ?v \<and> ?phi")
    case False
    then show ?thesis by (auto simp: add_uses_def uses_made_def Let_def intro!: cong)
  next
    case True
    have "rd (sb_predecessors ?b) j = Inr (sb_predecessors ?b ! j)" "rd bend (unat (sb_predecessors ?b ! j)) = Inr (bend ! unat (sb_predecessors ?b ! j))"
      if "j < min (unat (sb_predecessor_count ?b)) 2" for j
    proof -
      have b: "scan_block g ?b" using scan_readyD [OF assms(1), of "unat (sv_block ?v)"] True by simp
      have "take (unat (sb_predecessor_count ?b)) (sb_predecessors ?b) ! j \<in> set (take (unat (sb_predecessor_count ?b)) (sb_predecessors ?b))"
        using that b by (intro nth_mem) (simp add: scan_block_def)
      then have "unat (sb_predecessors ?b ! j) < sg_block_count g" "j < length (sb_predecessors ?b)" using that b by (auto simp: scan_block_def)
      then show "rd (sb_predecessors ?b) j = Inr (sb_predecessors ?b ! j)" "rd bend (unat (sb_predecessors ?b ! j)) = Inr (bend ! unat (sb_predecessors ?b ! j))"
        using assms(2) by (simp_all add: rd_def)
    qed
    then show ?thesis using True by (auto simp: add_uses_def uses_made_def Let_def intro!: cong)
  qed
qed

lemma add_uses_succeeds:
  assumes A: "enough A" and g: "scan_ready g" "length bend = sg_block_count g" and s: "uses_ok g vpos s"
  shows "\<exists>t. add_uses A g vpos bend i s = got t \<and> uses_ok g vpos t \<and> grown s t \<and> use_count t \<le> use_count s + 2 \<and> (\<forall>u\<in>set (uses_made g vpos bend i). recorded g t u)"
proof -
  let ?us = "uses_made g vpos bend i"
  let ?P = "\<lambda>j t. uses_ok g vpos t \<and> grown s t \<and> use_count t \<le> use_count s + j \<and> (\<forall>u\<in>set (take j ?us). recorded g t u)"
  have len: "length (snd t) = sg_value_count g" if "uses_ok g vpos t" for t using that by (cases t) (simp add: uses_ok_def)
  have step: "\<exists>t'. add_use A g (fst (?us ! j)) (snd (?us ! j)) t = got t' \<and> ?P (Suc j) t'" if j: "j < length ?us" and t: "?P j t" for j t
  proof -
    obtain t' where t': "add_use A g (fst (?us ! j)) (snd (?us ! j)) t = got t'" "uses_ok g vpos t'" "grown t t'" "use_count t' \<le> Suc (use_count t)"
        "recorded g t' (?us ! j)"
      using add_use_succeeds [OF A, of g vpos t "fst (?us ! j)" "snd (?us ! j)"] t by (auto simp: recorded_def split_def)
    have "\<forall>u\<in>set (take (Suc j) ?us). recorded g t' u"
      using t t'(3,5) j len recorded_grown [OF _ t'(3)] by (auto simp: take_Suc_conv_app_nth)
    moreover have "grown s t'" using grown_trans [of s t t'] t t'(3) len s by simp
    ultimately show ?thesis using t t'(1,2,4) by (intro exI [of _ t']) simp
  qed
  have start: "?P 0 s" using s by (auto simp: grown_def)
  have "\<exists>t. add_uses A g vpos bend i s = got t \<and> ?P (length ?us) t"
    unfolding add_uses_pairs [OF g] by (rule foldo_upto [where P = ?P, OF _ le0 start]) (rule step)
  then obtain t where "add_uses A g vpos bend i s = got t" "?P (length ?us) t" by blast
  moreover have "length ?us \<le> 2" by (simp add: uses_made_def Let_def)
  ultimately show ?thesis by (intro exI [of _ t]) auto
qed

lemma new_intervals: "sg_value_count g < 2 ^ 31 \<Longrightarrow> uses_ok g vpos (replicate (sg_value_count g) \<lparr>uv_p = [], uv_c = 0\<rparr>, map (new_interval g vpos) [0..<sg_value_count g])"
  by (auto simp: uses_ok_def new_interval_def Let_def has_register_def)

lemma all_uses_succeed:
  assumes A: "enough A" and g: "scan_ready g" and p: "positions g (vpos, bstart, bend)"
  shows "\<exists>t. foldo (add_uses A g vpos bend) [0..<sg_value_count g] (replicate (sg_value_count g) \<lparr>uv_p = [], uv_c = 0\<rparr>, map (new_interval g vpos) [0..<sg_value_count g]) = got t \<and>
    uses_ok g vpos t \<and> use_count t \<le> 2 * sg_value_count g \<and> (\<forall>i. i < sg_value_count g \<longrightarrow> (\<forall>u\<in>set (uses_made g vpos bend i). recorded g t u))"
proof -
  let ?P = "\<lambda>k t. uses_ok g vpos t \<and> use_count t \<le> 2 * k \<and> (\<forall>i<k. \<forall>u\<in>set (uses_made g vpos bend i). recorded g t u)"
  let ?s = "(replicate (sg_value_count g) \<lparr>uv_p = [], uv_c = 0\<rparr>, map (new_interval g vpos) [0..<sg_value_count g])"
  have bend: "length bend = sg_block_count g" using p by (simp add: positions_def)
  have step: "\<exists>t'. add_uses A g vpos bend k t = got t' \<and> ?P (Suc k) t'" if k: "k < sg_value_count g" and t: "?P k t" for k t
  proof -
    obtain t' where t': "add_uses A g vpos bend k t = got t'" "uses_ok g vpos t'" "grown t t'" "use_count t' \<le> use_count t + 2" "\<forall>u\<in>set (uses_made g vpos bend k). recorded g t' u"
      using add_uses_succeeds [OF A g bend] t by blast
    have "length (snd t) = sg_value_count g" using t by (cases t) (simp add: uses_ok_def)
    then have "\<forall>i<Suc k. \<forall>u\<in>set (uses_made g vpos bend i). recorded g t' u" using t t'(5) recorded_grown [OF _ t'(3)] by (auto simp: less_Suc_eq)
    then show ?thesis using t t'(1,2,4) by (intro exI [of _ t']) simp
  qed
  have start: "?P 0 ?s" using new_intervals [of g vpos] g by (simp add: scan_ready_def use_count_def comp_def sum_list_0)
  have "\<exists>t. foldo (add_uses A g vpos bend) [0..<sg_value_count g] ?s = got t \<and> ?P (sg_value_count g) t"
    by (rule foldo_upto [where P = ?P, OF _ le0 start]) (rule step)
  then show ?thesis by simp
qed

subsection \<open>Back edges, use positions and order\<close>

lemma extend_interval_simps [simp]:
  "li_value_id (extend_interval h hp lp x) = li_value_id x" "li_start (extend_interval h hp lp x) = li_start x"
  "has_register (extend_interval h hp lp x) = has_register x" "li_end x \<le> li_end (extend_interval h hp lp x)"
  by (simp_all add: extend_interval_def has_register_def)

lemma extend_succeeds:
  assumes g: "scan_ready g" and xs: "uses_ok g vpos (uv, xs)"
  shows "\<exists>ys. extend_intervals g bstart bend xs = Inr ys \<and> uses_ok g vpos (uv, ys)"
  unfolding extend_intervals_def
proof (rule foldc_invariant [where P = "\<lambda>ys. uses_ok g vpos (uv, ys)"])
  fix i ys assume i: "i \<in> set [0..<sg_block_count g]" and ys: "uses_ok g vpos (uv, ys)"
  have edges: "unat (sb_successor_count (sg_blocks g ! i)) \<le> length (sb_successors (sg_blocks g ! i))"
    using scan_readyD [OF g, of i] i by (simp add: scan_block_def)
  show "\<exists>zs. foldc (extend_edge g bstart bend i) [0..<unat (sb_successor_count (sg_blocks g ! i))] ys = Inr zs \<and> uses_ok g vpos (uv, zs)"
  proof (rule foldc_invariant [where P = "\<lambda>ys. uses_ok g vpos (uv, ys)"])
    fix j ys assume j: "j \<in> set [0..<unat (sb_successor_count (sg_blocks g ! i))]" and ys: "uses_ok g vpos (uv, ys)"
    let ?h = "sb_successors (sg_blocks g ! i) ! j"
    let ?zs = "map (\<lambda>k. if sv_removed (sg_values g ! k) then ys ! k
                   else extend_interval (sg_blocks g ! unat ?h) (bstart ! unat ?h) (bend ! i) (ys ! k)) [0..<length ys]"
    have "uses_ok g vpos (uv, ?zs)" using ys by (auto simp: uses_ok_def intro: order_trans [OF _ extend_interval_simps(4)])
    moreover have "extend_edge g bstart bend i j ys \<in> {Inr ys, Inr ?zs}" using j edges by (simp add: extend_edge_def rd_def)
    ultimately show "\<exists>zs. extend_edge g bstart bend i j ys = Inr zs \<and> uses_ok g vpos (uv, zs)" using ys by auto
  qed (fact ys)
qed (fact xs)

lemma length_flat_uses: "length (flat_uses uv) = sum_list (map (length \<circ> uv_p) uv)"
  by (induction uv) (simp_all add: flat_uses_def)

lemma flat_uses_take: "i < length uv \<Longrightarrow> length (flat_uses (take i uv)) + length (uv_p (uv ! i)) \<le> length (flat_uses uv)"
proof -
  assume i: "i < length uv"
  have "flat_uses uv = flat_uses (take i uv) @ sort (uv_p (uv ! i)) @ flat_uses (drop (Suc i) uv)"
    using id_take_nth_drop [OF i] by (metis (no_types, lifting) append_Cons append_Nil concat.simps(2) concat_append flat_uses_def list.simps(9) map_append)
  then have "length (flat_uses uv) = length (flat_uses (take i uv) @ sort (uv_p (uv ! i)) @ flat_uses (drop (Suc i) uv))" by (rule arg_cong)
  then show ?thesis by simp
qed

lemma mset_insert_interval: "mset (insert_interval x xs) = add_mset x (mset xs)"
  by (induction xs) simp_all

lemma mset_sort_intervals [simp]: "mset (sort_intervals xs) = mset xs"
  by (induction xs) (simp_all add: sort_intervals_def mset_insert_interval)

lemma length_sort_intervals [simp]: "length (sort_intervals xs) = length xs"
  using mset_eq_length [OF mset_sort_intervals] .

lemma interval_le_start: "interval_le x y \<Longrightarrow> li_start x \<le> li_start y"
  by (auto simp: interval_le_def split: if_splits)

lemma not_interval_le: "\<not> interval_le x y \<Longrightarrow> li_start y \<le> li_start x"
  by (auto simp: interval_le_def split: if_splits)

abbreviation starts_sorted :: "TurboJSLiveInterval list \<Rightarrow> bool" where
  "starts_sorted \<equiv> sorted_wrt (\<lambda>x y. li_start x \<le> li_start y)"

lemma insert_interval_sorted: "starts_sorted xs \<Longrightarrow> starts_sorted (insert_interval x xs)"
proof (induction xs)
  case (Cons y ys)
  have "set (insert_interval x ys) = insert x (set ys)" using arg_cong [OF mset_insert_interval, of set_mset x ys] by simp
  then show ?case
    using Cons interval_le_start [of x y] not_interval_le [of x y] by (auto intro: order_trans)
qed simp

lemma sort_intervals_sorted: "starts_sorted (sort_intervals xs)"
  by (induction xs) (simp_all add: sort_intervals_def insert_interval_sorted)

text \<open>The sorted intervals that the scan starts with.\<close>

definition prepared :: "TurboJSSSAGraph \<Rightarrow> u32 list \<Rightarrow> TurboJSLiveInterval list \<Rightarrow> bool" where
  "prepared g uses xs \<longleftrightarrow> length xs = sg_value_count g \<and> starts_sorted xs \<and> mset (map li_value_id xs) = mset (map of_nat [0..<sg_value_count g]) \<and>
     (\<forall>x\<in>set xs. \<not> has_register x \<and> unat (li_first_use x) + unat (li_use_count x) \<le> length uses)"

lemma locate_uses_prepared:
  assumes s: "uses_ok g vpos (uv, xs)" "use_count (uv, xs) \<le> 2 * sg_value_count g" and g: "scan_ready g"
  shows "prepared g (flat_uses uv) (sort_intervals (locate_uses uv xs))"
proof -
  let ?ys = "locate_uses uv xs"
  have len: "length uv = sg_value_count g" "length xs = sg_value_count g" using s(1) by (simp_all add: uses_ok_def)
  have total: "length (flat_uses uv) < 65536" using s(2) g by (simp add: length_flat_uses use_count_def scan_ready_def)
  have small: "unat (of_nat k :: u32) = k" if "k \<le> length (flat_uses uv)" for k using that total by (simp add: unat_of_nat)
  have "\<not> has_register x \<and> unat (li_first_use x) + unat (li_use_count x) \<le> length (flat_uses uv)" if "x \<in> set ?ys" for x
  proof -
    obtain i where i: "i < length xs" "x = (xs ! i)\<lparr>li_first_use := of_nat (length (flat_uses (take i uv))), li_use_count := of_nat (length (uv_p (uv ! i)))\<rparr>"
      using \<open>x \<in> set ?ys\<close> by (auto simp: locate_uses_def)
    have "\<not> has_register (xs ! i)" using s(1) i(1) by (simp add: uses_ok_def)
    then show ?thesis
      using i flat_uses_take [of i uv] len small [of "length (flat_uses (take i uv))"] small [of "length (uv_p (uv ! i))"] by (simp add: has_register_def)
  qed
  moreover have "map li_value_id ?ys = map of_nat [0..<sg_value_count g]"
    using s(1) len by (intro nth_equalityI) (auto simp: locate_uses_def uses_ok_def)
  then have ids: "mset (map li_value_id (sort_intervals ?ys)) = mset (map of_nat [0..<sg_value_count g])" by (metis mset_map mset_sort_intervals)
  moreover note ids
  moreover have "set (sort_intervals ?ys) = set ?ys" by (metis mset_sort_intervals set_mset_mset)
  moreover have "length (sort_intervals ?ys) = sg_value_count g" using len by (simp add: locate_uses_def)
  ultimately show ?thesis unfolding prepared_def using sort_intervals_sorted by blast
qed

section \<open>The scan\<close>

text \<open>The scan changes registers and slots only.\<close>

definition frame :: "TurboJSLiveInterval \<Rightarrow> u32 \<times> u32 \<times> u32 \<times> u32 \<times> u32 \<times> TurboJSRegisterClass" where
  "frame x = (li_value_id x, li_start x, li_end x, li_first_use x, li_use_count x, li_register_class x)"

definition live_interval :: "TurboJSSSAGraph \<Rightarrow> TurboJSLiveInterval \<Rightarrow> bool" where
  "live_interval g x \<longleftrightarrow> unat (li_value_id x) < sg_value_count g \<and> \<not> sv_removed (sg_values g ! unat (li_value_id x))"

definition same_register :: "TurboJSLiveInterval \<Rightarrow> TurboJSLiveInterval \<Rightarrow> bool" where
  "same_register x y \<longleftrightarrow> has_register x \<and> has_register y \<and> li_register_class x = li_register_class y \<and> li_physical_register x = li_physical_register y"

text \<open>What one interval has: a register below the limit, or a slot below the number of slots.\<close>

definition located :: "u16 \<Rightarrow> u16 \<Rightarrow> u16 \<Rightarrow> TurboJSLiveInterval \<Rightarrow> bool" where
  "located ints floats slots x \<longleftrightarrow> (if has_register x then unat (li_physical_register x) < scan_limit ints floats x else li_spill_slot x < slots)"

text \<open>
  What two intervals have, the second one no earlier than the first: a register in common only if the first one ends when the
  second one starts, and never a slot in common.
\<close>

definition apart :: "TurboJSLiveInterval \<Rightarrow> TurboJSLiveInterval \<Rightarrow> bool" where
  "apart x y \<longleftrightarrow> (same_register x y \<longrightarrow> li_end x \<le> li_start y) \<and> (\<not> has_register x \<longrightarrow> \<not> has_register y \<longrightarrow> li_spill_slot x \<noteq> li_spill_slot y)"

definition allocation_sound :: "TurboJSSSAGraph \<Rightarrow> u16 \<Rightarrow> u16 \<Rightarrow> u16 \<Rightarrow> nat \<Rightarrow> TurboJSLiveInterval list \<Rightarrow> bool" where
  "allocation_sound g ints floats slots n xs \<longleftrightarrow> (\<forall>a<n. live_interval g (xs ! a) \<longrightarrow> located ints floats slots (xs ! a)) \<and>
     (\<forall>b<n. \<forall>a<b. live_interval g (xs ! a) \<longrightarrow> live_interval g (xs ! b) \<longrightarrow> apart (xs ! a) (xs ! b))"

text \<open>The invariant before the interval \<open>i\<close>.\<close>

definition active_ok :: "TurboJSSSAGraph \<Rightarrow> u32 \<Rightarrow> nat \<Rightarrow> TurboJSLiveInterval list \<Rightarrow> nat list \<Rightarrow> bool" where
  "active_ok g start i xs act \<longleftrightarrow> distinct act \<and> (\<forall>a\<in>set act. a < i \<and> live_interval g (xs ! a)) \<and>
     (\<forall>a\<in>set act. \<forall>b\<in>set act. a \<noteq> b \<longrightarrow> \<not> same_register (xs ! a) (xs ! b)) \<and>
     (\<forall>a<i. live_interval g (xs ! a) \<longrightarrow> a \<notin> set act \<longrightarrow> has_register (xs ! a) \<longrightarrow> li_end (xs ! a) \<le> start)"

definition scan_inv :: "TurboJSSSAGraph \<Rightarrow> u16 \<Rightarrow> u16 \<Rightarrow> TurboJSLiveInterval list \<Rightarrow> nat \<Rightarrow> scan_state \<Rightarrow> bool" where
  "scan_inv g ints floats xs0 i s \<longleftrightarrow>
     (let xs = ss_intervals s
      in map frame xs = map frame xs0 \<and> unat (ss_spill s) \<le> i \<and> allocation_sound g ints floats (ss_spill s) i xs \<and>
         (\<forall>b<length xs. i \<le> b \<longrightarrow> \<not> has_register (xs ! b) \<and> active_ok g (li_start (xs ! b)) i xs (ss_active s)))"

lemma frame_fields:
  assumes "frame x = frame y"
  shows "li_value_id x = li_value_id y" "li_start x = li_start y" "li_end x = li_end y" "li_first_use x = li_first_use y" "li_use_count x = li_use_count y"
    "li_register_class x = li_register_class y"
  using assms by (simp_all add: frame_def)

lemma frame_nth: "map frame xs = map frame ys \<Longrightarrow> i < length ys \<Longrightarrow> frame (xs ! i) = frame (ys ! i)"
  by (metis length_map nth_map)

lemma frame_length: "map frame xs = map frame ys \<Longrightarrow> length xs = length ys"
  by (metis length_map)

lemma live_interval_frame: "frame x = frame y \<Longrightarrow> live_interval g x = live_interval g y"
  using frame_fields(1) [of x y] by (simp add: live_interval_def)

subsection \<open>Expired intervals\<close>

lemma drop_active_mset:
  assumes "j < length act"
  shows "mset (drop_active j act) = mset (remove1 (act ! j) act)"
proof -
  obtain ys z where act: "act = ys @ [z]" using assms by (cases act rule: rev_cases) auto
  show ?thesis
  proof (cases "j = length ys")
    case True
    then show ?thesis using act by (simp add: drop_active_def)
  next
    case False
    then have j: "j < length ys" using act assms by simp
    then have "drop_active j act = ys[j := z]" "act ! j = ys ! j" using act by (simp_all add: drop_active_def list_update_append nth_append)
    then show ?thesis using j act by (simp add: mset_update)
  qed
qed

lemma drop_active_props:
  assumes "j < length act" "distinct act"
  shows "distinct (drop_active j act)" "set (drop_active j act) = set act - {act ! j}"
  using drop_active_mset [OF assms(1)] assms(2) mset_eq_imp_distinct_iff [of "drop_active j act" "remove1 (act ! j) act"]
    mset_eq_setD [of "drop_active j act" "remove1 (act ! j) act"] by simp_all

lemma expire_props:
  "distinct act \<Longrightarrow> distinct (expire xs start j act) \<and> set (expire xs start j act) \<subseteq> set act \<and>
    (\<forall>a\<in>set act. a \<notin> set (expire xs start j act) \<longrightarrow> li_end (xs ! a) < start)"
proof (induction xs start j act rule: expire.induct)
  case (1 xs start j act)
  show ?case
  proof (cases "j < length act \<and> li_end (xs ! (act ! j)) < start")
    case True
    have "expire xs start j act = expire xs start j (drop_active j act)" using True by (subst expire.simps) simp
    then show ?thesis using 1(1) True drop_active_props [of j act] 1(3) by auto
  next
    case False
    then show ?thesis using 1(2,3) by (subst (1 2 3) expire.simps) auto
  qed
qed

lemma expire_active:
  assumes "active_ok g start i xs act"
  shows "active_ok g start i xs (expire xs start 0 act)"
proof -
  note e = expire_props [of act xs start 0]
  have d: "distinct act" using assms by (simp add: active_ok_def)
  have "li_end (xs ! a) \<le> start" if "a < i" "live_interval g (xs ! a)" "a \<notin> set (expire xs start 0 act)" "has_register (xs ! a)" for a
    using that assms e [OF d] by (cases "a \<in> set act") (auto simp: active_ok_def less_imp_le)
  moreover have "set (expire xs start 0 act) \<subseteq> set act" "distinct (expire xs start 0 act)" using e [OF d] by simp_all
  ultimately show ?thesis using assms unfolding active_ok_def by blast
qed

subsection \<open>One more interval\<close>

lemma sound_snoc:
  assumes s: "allocation_sound g ints floats slots i xs" "i < length xs" and y: "frame y = frame (xs ! i)" "located ints floats slots y"
    and apart: "\<And>a. a < i \<Longrightarrow> live_interval g (xs ! a) \<Longrightarrow> apart (xs ! a) y"
  shows "allocation_sound g ints floats slots (Suc i) (xs[i := y])"
  using s y(2) apart by (auto simp: allocation_sound_def less_Suc_eq)

lemma active_snoc:
  assumes act: "active_ok g start i xs act" "i < length xs" and y: "live_interval g y" "start \<le> start'"
    and other: "\<And>a. a \<in> set act \<Longrightarrow> \<not> same_register (xs ! a) y"
  shows "active_ok g start' (Suc i) (xs[i := y]) (act @ [i])"
proof -
  have bound: "a < i" if "a \<in> set act" for a using act(1) that by (simp add: active_ok_def)
  have "\<not> same_register (xs[i := y] ! a) (xs[i := y] ! b)" if "a \<in> set (act @ [i])" "b \<in> set (act @ [i])" "a \<noteq> b" for a b
  proof -
    have sym: "same_register p q = same_register q p" for p q by (auto simp: same_register_def)
    show ?thesis
      using that other [of a] other [of b] bound [of a] bound [of b] act sym [of y] by (auto simp: active_ok_def nth_list_update)
  qed
  moreover have "li_end (xs[i := y] ! a) \<le> start'" if "a < Suc i" "live_interval g (xs[i := y] ! a)" "a \<notin> set (act @ [i])" "has_register (xs[i := y] ! a)" for a
    using that act y(2) by (auto simp: active_ok_def less_Suc_eq)
  moreover have "distinct (act @ [i])" using act(1) bound by (auto simp: active_ok_def)
  moreover have "a < Suc i \<and> live_interval g (xs[i := y] ! a)" if "a \<in> set (act @ [i])" for a
    using that act bound [of a] y(1) by (auto simp: active_ok_def)
  ultimately show ?thesis unfolding active_ok_def by blast
qed

lemma located_apart:
  assumes act: "active_ok g (li_start y) i xs act" and y: "has_register y" and other: "\<And>a. a \<in> set act \<Longrightarrow> \<not> same_register (xs ! a) y"
  shows "a < i \<Longrightarrow> live_interval g (xs ! a) \<Longrightarrow> apart (xs ! a) y"
  using act y other [of a] by (auto simp: active_ok_def apart_def same_register_def)

lemma slot_apart:
  assumes s: "allocation_sound g ints floats slots i xs" and y: "\<not> has_register y" "slots \<le> li_spill_slot y"
  shows "a < i \<Longrightarrow> live_interval g (xs ! a) \<Longrightarrow> apart (xs ! a) y"
  using s y by (auto simp: allocation_sound_def apart_def same_register_def located_def)

lemma sound_more_slots:
  assumes "allocation_sound g ints floats slots i xs" "slots \<le> slots'"
  shows "allocation_sound g ints floats slots' i xs"
proof -
  have "located ints floats slots' x" if "located ints floats slots x" for x
    using that assms(2) by (auto simp: located_def split: if_splits)
  then show ?thesis using assms(1) by (auto simp: allocation_sound_def)
qed

text \<open>A victim loses its register to a new slot.\<close>

lemma evict_sound:
  assumes s: "allocation_sound g ints floats slots i xs" and v: "v < i" "i \<le> length xs" and slots: "slots < slots'"
  shows "allocation_sound g ints floats slots' i (xs[v := (xs ! v)\<lparr>li_physical_register := - 1, li_spill_slot := slots\<rparr>])"
proof -
  let ?y = "(xs ! v)\<lparr>li_physical_register := - 1, li_spill_slot := slots\<rparr>"
  have none: "\<not> has_register ?y" by (simp add: has_register_def)
  have live: "live_interval g ?y = live_interval g (xs ! v)" by (simp add: live_interval_def)
  have "located ints floats slots' ?y" using none slots by (simp add: located_def)
  moreover have "apart (xs ! a) ?y \<and> apart ?y (xs ! a)" if "a < i" "live_interval g (xs ! a)" for a
  proof -
    have "apart (xs ! a) ?y" using slot_apart [OF s none, of a] that by simp
    then show ?thesis using none by (auto simp: apart_def same_register_def)
  qed
  moreover have "located ints floats slots' (xs ! a)" if "a < i" "live_interval g (xs ! a)" for a
    using sound_more_slots [OF s less_imp_le [OF slots]] that by (simp add: allocation_sound_def)
  ultimately show ?thesis using s v live by (auto simp: allocation_sound_def nth_list_update)
qed

lemma evict_active:
  assumes act: "active_ok g start i xs act" and v: "v \<in> set act" "i \<le> length xs"
  shows "active_ok g start i (xs[v := (xs ! v)\<lparr>li_physical_register := - 1, li_spill_slot := slot\<rparr>]) act"
proof -
  let ?y = "(xs ! v)\<lparr>li_physical_register := - 1, li_spill_slot := slot\<rparr>"
  have vi: "v < length xs" using act v by (auto simp: active_ok_def)
  have "\<not> has_register ?y" by (simp add: has_register_def)
  moreover have "live_interval g ?y = live_interval g (xs ! v)" by (simp add: live_interval_def)
  ultimately show ?thesis using act vi v(1) by (auto simp: active_ok_def same_register_def nth_list_update)
qed

section \<open>Searches\<close>

lemma mark_used_succeeds:
  assumes "\<And>a. a \<in> set act \<Longrightarrow> has_register (xs ! a) \<Longrightarrow> unat (li_physical_register (xs ! a)) < 64"
  shows "\<exists>used. mark_used xs rc act = Inr used \<and> length used = 64 \<and>
    (\<forall>a\<in>set act. li_register_class (xs ! a) = rc \<longrightarrow> has_register (xs ! a) \<longrightarrow> used ! unat (li_physical_register (xs ! a)))"
proof -
  let ?f = "\<lambda>a used. (let x = xs ! a in if li_register_class x = rc \<and> has_register x then wr used (unat (li_physical_register x)) True else Inr used)"
  have "\<exists>used. foldc ?f act start = Inr used \<and> length used = 64 \<and> (\<forall>k<64. start ! k \<longrightarrow> used ! k) \<and>
      (\<forall>a\<in>set act. li_register_class (xs ! a) = rc \<longrightarrow> has_register (xs ! a) \<longrightarrow> used ! unat (li_physical_register (xs ! a)))" if "length start = 64" for start
    using that assms
  proof (induction act arbitrary: start)
    case (Cons a act)
    let ?r = "unat (li_physical_register (xs ! a))"
    show ?case
    proof (cases "li_register_class (xs ! a) = rc \<and> has_register (xs ! a)")
      case True
      then have r: "?r < 64" using Cons.prems(2) [of a] by simp
      obtain used where "foldc ?f act (start[?r := True]) = Inr used" "length used = 64" "\<forall>k<64. (start[?r := True]) ! k \<longrightarrow> used ! k"
          "\<forall>a\<in>set act. li_register_class (xs ! a) = rc \<longrightarrow> has_register (xs ! a) \<longrightarrow> used ! unat (li_physical_register (xs ! a))"
        using Cons.IH [of "start[?r := True]"] Cons.prems by auto
      then show ?thesis using True r Cons.prems(1) by (auto simp: Let_def wr_def nth_list_update)
    next
      case False
      then show ?thesis using Cons.IH [of start] Cons.prems by (auto simp: Let_def)
    qed
  qed simp
  from this [of "replicate 64 False"] show ?thesis unfolding mark_used_def by auto
qed

lemma first_free_succeeds:
  "k + n \<le> length used \<Longrightarrow> \<exists>r. first_free n k used = Inr r \<and> (\<forall>m. r = Some m \<longrightarrow> m < k + n \<and> \<not> used ! m)"
proof (induction n arbitrary: k)
  case (Suc n)
  show ?case
  proof (cases "used ! k")
    case True
    then show ?thesis using Suc.IH [of "k + 1"] Suc.prems by (auto simp: rd_def)
  next
    case False
    then show ?thesis using Suc.prems by (auto simp: rd_def)
  qed
qed simp

lemma next_use_succeeds:
  "length uses < 2 ^ 32 \<Longrightarrow> unat i + n \<le> length uses \<Longrightarrow> \<exists>u. next_use_loop n i uses pos = Inr u"
proof (induction n arbitrary: i)
  case (Suc n)
  have "unat (i + 1) = unat i + 1" using Suc.prems by (simp add: unat_word_ariths)
  then show ?case using Suc.IH [of "i + 1"] Suc.prems by (auto simp: rd_def)
qed simp

lemma keep_score_succeeds:
  assumes "length uses < 2 ^ 32" "unat (li_first_use x) + unat (li_use_count x) \<le> length uses"
  shows "\<exists>n. keep_score x uses pos = Inr n"
  using next_use_succeeds [OF assms, of pos] by (auto simp: keep_score_def next_use_def Let_def)

lemma find_victim_succeeds:
  assumes "length uses < 2 ^ 32" "\<And>a. a \<in> set act \<Longrightarrow> unat (li_first_use (xs ! a)) + unat (li_use_count (xs ! a)) \<le> length uses"
  shows "\<exists>r. find_victim xs uses cur act = Inr r \<and> (\<forall>v n. r = Some (v, n) \<longrightarrow> v \<in> set act \<and> li_register_class (xs ! v) = li_register_class cur \<and> has_register (xs ! v))"
  unfolding find_victim_def
proof (rule foldc_invariant)
  fix a and best :: "(nat \<times> u64) option"
  assume a: "a \<in> set act" and best: "\<forall>v n. best = Some (v, n) \<longrightarrow> v \<in> set act \<and> li_register_class (xs ! v) = li_register_class cur \<and> has_register (xs ! v)"
  obtain n where "keep_score (xs ! a) uses (li_start cur) = Inr n" using keep_score_succeeds [OF assms(1) assms(2) [OF a]] by blast
  then show "\<exists>best'. (let x = xs ! a in if li_register_class x \<noteq> li_register_class cur \<or> \<not> has_register x then Inr best
      else bindc (keep_score x uses (li_start cur)) (\<lambda>s. Inr (case best of None \<Rightarrow> Some (a, s) | Some (v, score) \<Rightarrow> if s < score then Some (a, s) else best))) = Inr best' \<and>
      (\<forall>v n. best' = Some (v, n) \<longrightarrow> v \<in> set act \<and> li_register_class (xs ! v) = li_register_class cur \<and> has_register (xs ! v))"
    using a best by (auto simp: Let_def split: option.splits)
qed simp

section \<open>One step of the scan\<close>

lemma scan_invD:
  assumes "scan_inv g ints floats xs0 i s" "i < length xs0"
  shows "map frame (ss_intervals s) = map frame xs0" "i < length (ss_intervals s)" "unat (ss_spill s) \<le> i"
    "allocation_sound g ints floats (ss_spill s) i (ss_intervals s)" "\<not> has_register (ss_intervals s ! i)"
    "active_ok g (li_start (ss_intervals s ! i)) i (ss_intervals s) (ss_active s)"
  using assms frame_length [of "ss_intervals s" xs0] by (auto simp: scan_inv_def Let_def)

text \<open>The invariant after the interval \<open>i\<close>, from what the scan made of it.\<close>

lemma scan_invI:
  assumes s: "scan_inv g ints floats xs0 i s" "i < length xs0" and sorted: "starts_sorted xs0"
    and t: "map frame xs = map frame xs0" "unat slots \<le> Suc i" "allocation_sound g ints floats slots (Suc i) xs"
    and rest: "\<And>b. Suc i \<le> b \<Longrightarrow> b < length xs \<Longrightarrow> xs ! b = ss_intervals s ! b"
    and act: "\<And>start. li_start (ss_intervals s ! i) \<le> start \<Longrightarrow> active_ok g start (Suc i) xs act"
    and eq: "ss_intervals s' = xs" "ss_spill s' = slots" "ss_active s' = act"
  shows "scan_inv g ints floats xs0 (Suc i) s'"
proof -
  note D = scan_invD [OF s]
  have len: "length xs = length xs0" "length (ss_intervals s) = length xs0" using frame_length [OF t(1)] frame_length [OF D(1)] by simp_all
  have "\<not> has_register (xs ! b) \<and> active_ok g (li_start (xs ! b)) (Suc i) xs act" if b: "b < length xs" "Suc i \<le> b" for b
  proof -
    have "\<not> has_register (ss_intervals s ! b)" using s(1) b len by (auto simp: scan_inv_def Let_def)
    moreover have "li_start (xs0 ! i) \<le> li_start (xs0 ! b)" using sorted b len by (simp add: sorted_wrt_iff_nth_less)
    ultimately show ?thesis
      using act [of "li_start (xs ! b)"] rest [OF b(2,1)] frame_fields(2) [OF frame_nth [OF D(1), of i]] frame_fields(2) [OF frame_nth [OF t(1), of b]] b len s(2)
      by simp
  qed
  then show ?thesis using t eq by (simp add: scan_inv_def)
qed

lemma frame_update: "i < length xs \<Longrightarrow> frame y = frame (xs ! i) \<Longrightarrow> map frame (xs[i := y]) = map frame xs"
  by (simp add: map_update list_update_same_conv)

text \<open>The interval gets a register that no active interval has.\<close>

lemma register_step:
  assumes s: "scan_inv g ints floats xs0 i s" "i < length xs0" and sorted: "starts_sorted xs0"
    and live: "live_interval g (ss_intervals s ! i)"
    and xs: "map frame xs = map frame xs0" "unat slots \<le> Suc i" "allocation_sound g ints floats slots i xs" "active_ok g (li_start (ss_intervals s ! i)) i xs act"
      "\<And>b. i \<le> b \<Longrightarrow> b < length xs \<Longrightarrow> xs ! b = ss_intervals s ! b"
    and y: "y = (ss_intervals s ! i)\<lparr>li_physical_register := r\<rparr>" "has_register y" "unat r < scan_limit ints floats (ss_intervals s ! i)"
    and other: "\<And>a. a \<in> set act \<Longrightarrow> \<not> same_register (xs ! a) y"
    and eq: "ss_intervals s' = xs[i := y]" "ss_spill s' = slots" "ss_active s' = act @ [i]"
  shows "scan_inv g ints floats xs0 (Suc i) s'"
proof -
  have il: "i < length xs" using s(2) frame_length [OF xs(1)] by simp
  have xi: "xs ! i = ss_intervals s ! i" using xs(5) il by simp
  have fy: "frame y = frame (xs ! i)" "li_start y = li_start (ss_intervals s ! i)" using y(1) xi by (simp_all add: frame_def)
  have "located ints floats slots y" using y by (simp add: located_def scan_limit_def)
  then have sound: "allocation_sound g ints floats slots (Suc i) (xs[i := y])"
    using located_apart [of g y i xs act, OF _ y(2) other] xs(4) fy(2) by (intro sound_snoc [OF xs(3) il fy(1)]) simp_all
  show ?thesis
  proof (rule scan_invI [OF s sorted _ xs(2) sound _ _ eq])
    show "map frame (xs[i := y]) = map frame xs0" using frame_update [OF il fy(1)] xs(1) by simp
    show "xs[i := y] ! b = ss_intervals s ! b" if "Suc i \<le> b" "b < length (xs[i := y])" for b using that xs(5) [of b] by simp
    show "active_ok g start (Suc i) (xs[i := y]) (act @ [i])" if "li_start (ss_intervals s ! i) \<le> start" for start
      using active_snoc [OF xs(4) il _ that other] live live_interval_frame [OF fy(1)] xi by simp
  qed
qed

text \<open>The interval gets a slot of its own.\<close>

lemma slot_step:
  assumes s: "scan_inv g ints floats xs0 i s" "i < length xs0" "length xs0 < 32768" and sorted: "starts_sorted xs0"
    and live: "live_interval g (ss_intervals s ! i)" and act: "active_ok g (li_start (ss_intervals s ! i)) i (ss_intervals s) act"
    and eq: "ss_intervals s' = (ss_intervals s)[i := (ss_intervals s ! i)\<lparr>li_spill_slot := ss_spill s\<rparr>]" "ss_spill s' = ss_spill s + 1" "ss_active s' = act @ [i]"
  shows "scan_inv g ints floats xs0 (Suc i) s'"
proof -
  note D = scan_invD [OF s(1,2)]
  let ?y = "(ss_intervals s ! i)\<lparr>li_spill_slot := ss_spill s\<rparr>"
  have spill: "unat (ss_spill s + 1) = Suc (unat (ss_spill s))" using D(3) s(2,3) by (simp add: unat_word_ariths)
  then have less: "ss_spill s < ss_spill s + 1" by (simp add: word_less_nat_alt)
  have none: "\<not> has_register ?y" using D(5) by (simp add: has_register_def)
  have fy: "frame ?y = frame (ss_intervals s ! i)" by (simp add: frame_def)
  have "located ints floats (ss_spill s + 1) ?y" using none less by (simp add: located_def)
  then have sound: "allocation_sound g ints floats (ss_spill s + 1) (Suc i) ((ss_intervals s)[i := ?y])"
    using slot_apart [OF D(4) none] by (intro sound_snoc [OF sound_more_slots [OF D(4) less_imp_le [OF less]] D(2) fy]) simp_all
  show ?thesis
  proof (rule scan_invI [OF s(1,2) sorted _ _ sound _ _ eq])
    show "map frame ((ss_intervals s)[i := ?y]) = map frame xs0" using frame_update [OF D(2) fy] D(1) by simp
    show "unat (ss_spill s + 1) \<le> Suc i" using spill D(3) by simp
    show "(ss_intervals s)[i := ?y] ! b = ss_intervals s ! b" if "Suc i \<le> b" for b using that by simp
    show "active_ok g start (Suc i) ((ss_intervals s)[i := ?y]) (act @ [i])" if "li_start (ss_intervals s ! i) \<le> start" for start
      using live none live_interval_frame [OF fy] by (intro active_snoc [OF act D(2) _ that]) (auto simp: same_register_def)
  qed
qed

lemma active_length: "active_ok g start i xs act \<Longrightarrow> length act \<le> i"
  using card_mono [of "{..<i}" "set act"] by (auto simp: active_ok_def subset_iff distinct_card)

lemma active_skip:
  assumes "active_ok g start i xs act" "\<not> live_interval g (xs ! i)" "start \<le> start'"
  shows "active_ok g start' (Suc i) xs act"
  using assms by (auto simp: active_ok_def less_Suc_eq)

lemma active_drop:
  assumes act: "active_ok g start i xs act" and k: "k < length act" "li_end (xs ! (act ! k)) \<le> start"
  shows "active_ok g start i xs (drop_active k act)"
proof -
  have "distinct act" using act by (simp add: active_ok_def)
  then have "distinct (drop_active k act)" "set (drop_active k act) = set act - {act ! k}" using drop_active_props [OF k(1)] by simp_all
  then show ?thesis using act k(2) by (auto simp: active_ok_def)
qed

lemma coalesce_cases:
  obtains (kept) "ss_intervals (coalesce pref i s) = ss_intervals s" "ss_active (coalesce pref i s) = ss_active s" "ss_spill (coalesce pref i s) = ss_spill s"
      "ss_splitv (coalesce pref i s) = ss_splitv s" "ss_splitc (coalesce pref i s) = ss_splitc s"
  | (merged) k where "k < length (ss_active s)" "li_register_class (ss_intervals s ! (ss_active s ! k)) = li_register_class (ss_intervals s ! i)"
      "has_register (ss_intervals s ! (ss_active s ! k))" "li_end (ss_intervals s ! (ss_active s ! k)) = li_start (ss_intervals s ! i)"
      "ss_intervals (coalesce pref i s) = (ss_intervals s)[i := (ss_intervals s ! i)\<lparr>li_physical_register := li_physical_register (ss_intervals s ! (ss_active s ! k))\<rparr>]"
      "ss_active (coalesce pref i s) = drop_active k (ss_active s)" "ss_spill (coalesce pref i s) = ss_spill s"
proof -
  let ?p = "pref ! unat (li_value_id (ss_intervals s ! i))"
  let ?found = "List.find (\<lambda>k. li_value_id (ss_intervals s ! (ss_active s ! k)) = ?p) [0..<length (ss_active s)]"
  consider (none) "?p = TURBOJS_SSA_NO_VALUE \<or> ?found = None" | (some) k where "?p \<noteq> TURBOJS_SSA_NO_VALUE" "?found = Some k" "k < length (ss_active s)"
  proof (cases ?found)
    case (Some k)
    then have "k < length (ss_active s)" by (auto simp: find_Some_iff)
    then show ?thesis using that Some by blast
  qed (use that in blast)
  then show ?thesis
  proof cases
    case none
    then show ?thesis by (intro kept) (auto simp: coalesce_def Let_def)
  next
    case (some k)
    let ?phi = "ss_intervals s ! (ss_active s ! k)"
    show ?thesis
    proof (cases "li_register_class ?phi = li_register_class (ss_intervals s ! i) \<and> has_register ?phi \<and> li_end ?phi = li_start (ss_intervals s ! i)")
      case True
      then show ?thesis using some by (intro merged [of k]) (simp_all add: coalesce_def Let_def)
    next
      case False
      then show ?thesis using some by (intro kept) (auto simp: coalesce_def Let_def)
    qed
  qed
qed

text \<open>What the whole scan relies on.\<close>

definition scan_setup :: "scan_alloc \<Rightarrow> TurboJSSSAGraph \<Rightarrow> u16 \<Rightarrow> u16 \<Rightarrow> u32 list \<Rightarrow> TurboJSLiveInterval list \<Rightarrow> bool" where
  "scan_setup A g ints floats uses xs0 \<longleftrightarrow> prepared g uses xs0 \<and> scan_ready g \<and> length uses < 2 ^ 32 \<and> ints \<le> 64 \<and> floats \<le> 64 \<and> enough A"

lemma scan_setupD:
  assumes "scan_setup A g ints floats uses xs0"
  shows "length xs0 = sg_value_count g" "length xs0 < 32768" "starts_sorted xs0" "length uses < 2 ^ 32" "enough A" "scan_limit ints floats x \<le> 64"
    "a < length xs0 \<Longrightarrow> unat (li_first_use (xs0 ! a)) + unat (li_use_count (xs0 ! a)) \<le> length uses"
proof -
  have "unat ints \<le> 64" "unat floats \<le> 64" using assms by (simp_all add: scan_setup_def word_le_nat_alt)
  then show "scan_limit ints floats x \<le> 64" by (simp add: scan_limit_def)
qed (use assms in \<open>auto simp: scan_setup_def prepared_def scan_ready_def\<close>)

lemma small_register_number: "k < 64 \<Longrightarrow> unat (of_nat k :: u16) = k \<and> 0 \<le> sint (of_nat k :: u16)"
proof -
  assume k: "k < 64"
  then have "unat (of_nat k :: u16) = k" by (simp add: unat_of_nat)
  moreover from this have "uint (of_nat k :: u16) = int k" by (simp add: uint_nat)
  ultimately show ?thesis using k by (simp add: sint_uint signed_take_bit_int_eq_self)
qed

lemma spill_step:
  assumes su: "scan_setup A g ints floats uses xs0" and s: "scan_inv g ints floats xs0 i s" "i < length xs0"
    and live: "live_interval g (ss_intervals s ! i)" and act: "active_ok g (li_start (ss_intervals s ! i)) i (ss_intervals s) act"
    and t: "ss_intervals t = ss_intervals s" "ss_active t = act" "ss_spill t = ss_spill s"
  shows "\<exists>t'. spill_interval A g bstart uses res i t = got t' \<and> ss_active t' = act \<and> scan_inv g ints floats xs0 (Suc i) (t'\<lparr>ss_active := act @ [i]\<rparr>)"
proof -
  note D = scan_invD [OF s] and S = scan_setupD [OF su]
  let ?xs = "ss_intervals s" and ?cur = "ss_intervals s ! i"
  have len: "length ?xs = length xs0" by (rule frame_length [OF D(1)])
  have uses: "unat (li_first_use (?xs ! a)) + unat (li_use_count (?xs ! a)) \<le> length uses" if "a < length ?xs" for a
    using S(7) [of a] frame_fields(4,5) [OF frame_nth [OF D(1), of a]] that len by simp
  have below: "a < i" if "a \<in> set act" for a using act that by (simp add: active_ok_def)
  obtain n where n: "keep_score ?cur uses (li_start ?cur) = Inr n" using keep_score_succeeds [OF S(4) uses [OF D(2)]] by blast
  obtain best where best: "find_victim ?xs uses ?cur act = Inr best"
      "\<And>v m. best = Some (v, m) \<Longrightarrow> v \<in> set act \<and> li_register_class (?xs ! v) = li_register_class ?cur \<and> has_register (?xs ! v)"
    using find_victim_succeeds [OF S(4), of act ?xs ?cur] uses below s(2) len by fastforce
  let ?own = "t\<lparr>ss_intervals := ?xs[i := ?cur\<lparr>li_spill_slot := ss_spill s\<rparr>], ss_spill := ss_spill s + 1\<rparr>"
  have "spill_interval A g bstart uses res i t = got ?own" if later: "\<forall>v m. best = Some (v, m) \<longrightarrow> \<not> m < n"
  proof (cases best)
    case (Some a)
    then obtain v m where "best = Some (v, m)" "\<not> m < n" using later by (cases a) auto
    then show ?thesis using n best(1) t by (simp add: spill_interval_def Let_def)
  qed (use n best(1) t in \<open>simp add: spill_interval_def Let_def\<close>)
  then consider (victim) v m where "best = Some (v, m)" "m < n" | (own) "spill_interval A g bstart uses res i t = got ?own" by blast
  then show ?thesis
  proof cases
    case own
    have "scan_inv g ints floats xs0 (Suc i) (?own\<lparr>ss_active := act @ [i]\<rparr>)" by (rule slot_step [OF s S(2,3) live act]) simp_all
    then show ?thesis using own t(2) by auto
  next
    case (victim v m)
    let ?x = "?xs ! v" and ?slot = "ss_spill s"
    let ?ys = "?xs[v := ?x\<lparr>li_physical_register := - 1, li_spill_slot := ?slot\<rparr>]"
    have v: "v \<in> set act" "li_register_class ?x = li_register_class ?cur" "has_register ?x" "v < i" using best(2) [OF victim(1)] below by simp_all
    have vl: "v < length ?xs" "live_interval g ?x" using v(1,4) D(2) act by (auto simp: active_ok_def)
    have spill: "unat (?slot + 1) = Suc (unat ?slot)" using D(3) s(2) S(2) by (simp add: unat_word_ariths)
    then have less: "?slot < ?slot + 1" by (simp add: word_less_nat_alt)
    let ?y = "?cur\<lparr>li_physical_register := li_physical_register ?x\<rparr>"
    let ?t = "t\<lparr>ss_intervals := (?xs[i := ?y])[v := ?x\<lparr>li_physical_register := - 1, li_spill_slot := ?slot\<rparr>],
       ss_spill := ?slot + 1, ss_splits := ss_splits t + 1,
       ss_splitv := ss_splitv t @ [\<lparr>sr_value_id = li_value_id ?x, sr_position = split_position g bstart ?cur ?x, sr_reg = li_physical_register ?x, sr_spill = ?slot\<rparr>],
       ss_splitc := (if length (ss_splitv t) = ss_splitc t then (if ss_splitc t \<noteq> 0 then ss_splitc t * 2 else 8) else ss_splitc t)\<rparr>"
    have "spill_interval A g bstart uses res i t = got ?t"
      using n best(1) victim t S(5) by (simp add: spill_interval_def Let_def enough_def)
    moreover have "scan_inv g ints floats xs0 (Suc i) (?t\<lparr>ss_active := act @ [i]\<rparr>)"
    proof (rule register_step [OF s S(3) live, where xs = ?ys and act = act and y = ?y])
      show "map frame ?ys = map frame xs0" using frame_update [OF vl(1), of "?x\<lparr>li_physical_register := - 1, li_spill_slot := ?slot\<rparr>"] D(1) by (simp add: frame_def)
      show "unat (?slot + 1) \<le> Suc i" using spill D(3) by simp
      show "allocation_sound g ints floats (?slot + 1) i ?ys" using evict_sound [OF D(4) v(4) _ less] D(2) by simp
      show "active_ok g (li_start ?cur) i ?ys act" using evict_active [OF act v(1)] D(2) by simp
      show "?ys ! b = ?xs ! b" if "i \<le> b" for b using that v(4) by simp
      show "has_register ?y" using v(3) by (simp add: has_register_def)
      have "located ints floats ?slot ?x" using D(4) v(4) vl(2) by (simp add: allocation_sound_def)
      then show "unat (li_physical_register ?x) < scan_limit ints floats ?cur" using v(2,3) by (simp add: located_def scan_limit_def)
      show "\<not> same_register (?ys ! a) ?y" if "a \<in> set act" for a
      proof (cases "a = v")
        case True
        then show ?thesis using vl(1) by (simp add: same_register_def has_register_def)
      next
        case False
        then have "\<not> same_register (?xs ! a) ?x" using act that v(1) by (auto simp: active_ok_def)
        then show ?thesis using False v(2,3) by (auto simp: same_register_def)
      qed
      show "ss_intervals (?t\<lparr>ss_active := act @ [i]\<rparr>) = ?ys[i := ?y]" using v(4) by (simp add: list_update_swap)
    qed simp_all
    ultimately show ?thesis using t(2) by auto
  qed
qed

lemma scan_interval_step:
  assumes su: "scan_setup A g ints floats uses xs0" and s: "scan_inv g ints floats xs0 i s" and i: "i < length xs0"
  shows "\<exists>s'. scan_interval A g ints floats pref bstart uses res i s = got s' \<and> scan_inv g ints floats xs0 (Suc i) s'"
proof -
  note D = scan_invD [OF s i] and S = scan_setupD [OF su]
  let ?xs = "ss_intervals s" and ?cur = "ss_intervals s ! i"
  show ?thesis
  proof (cases "live_interval g ?cur")
    case False
    have "allocation_sound g ints floats (ss_spill s) (Suc i) ?xs" using D(4) False by (auto simp: allocation_sound_def less_Suc_eq)
    then have "scan_inv g ints floats xs0 (Suc i) s"
      using D(1,3) active_skip [OF D(6) False] by (intro scan_invI [OF s i S(3)]) simp_all
    moreover have "scan_interval A g ints floats pref bstart uses res i s = got s" using False by (auto simp: scan_interval_def Let_def live_interval_def)
    ultimately show ?thesis by blast
  next
    case live: True
    let ?act = "expire ?xs (li_start ?cur) 0 (ss_active s)"
    let ?s1 = "s\<lparr>ss_active := ?act\<rparr>" and ?s2 = "coalesce pref i (s\<lparr>ss_active := expire (ss_intervals s) (li_start (ss_intervals s ! i)) 0 (ss_active s)\<rparr>)"
    have act: "active_ok g (li_start ?cur) i ?xs ?act" by (rule expire_active [OF D(6)])
    have reg: "unat (li_physical_register (?xs ! a)) < scan_limit ints floats (?xs ! a)" if "a \<in> set ?act" "has_register (?xs ! a)" for a
    proof -
      have "a < i" "live_interval g (?xs ! a)" using act that(1) by (simp_all add: active_ok_def)
      then have "located ints floats (ss_spill s) (?xs ! a)" using D(4) by (simp add: allocation_sound_def)
      then show ?thesis using that(2) by (simp add: located_def)
    qed
    obtain used where used: "mark_used ?xs (li_register_class ?cur) ?act = Inr used" "length used = 64"
        "\<forall>a\<in>set ?act. li_register_class (?xs ! a) = li_register_class ?cur \<longrightarrow> has_register (?xs ! a) \<longrightarrow> used ! unat (li_physical_register (?xs ! a))"
      using mark_used_succeeds [of ?act ?xs "li_register_class ?cur"] reg S(6) by (meson order_less_le_trans)
    have unfold: "scan_interval A g ints floats pref bstart uses res i s =
        bindo (take_register A g ints floats bstart uses res used i ?s2) (\<lambda>s. if length (ss_active s) < sg_value_count g then got (s\<lparr>ss_active := ss_active s @ [i]\<rparr>) else Inl Fault_bounds)"
      using live used(1) by (simp add: scan_interval_def Let_def live_interval_def)
    have fit: "length act' < sg_value_count g" if "active_ok g (li_start ?cur) i ?xs act'" for act' using active_length [OF that] i S(1) by simp
    show ?thesis
    proof (cases rule: coalesce_cases [of pref i ?s1])
      case (merged k)
      let ?phi = "?xs ! (?act ! k)"
      have phi: "?act ! k \<in> set ?act" using merged(1) by simp
      have act': "active_ok g (li_start ?cur) i ?xs (drop_active k ?act)" using active_drop [OF act, of k] merged(1,4) by simp
      have "distinct ?act" using act by (simp add: active_ok_def)
      then have set': "set (drop_active k ?act) = set ?act - {?act ! k}" using drop_active_props(2) [of k ?act] merged(1) by simp
      have "has_register (ss_intervals ?s2 ! i)" using merged(3,5) D(2) by (simp add: has_register_def)
      then have "scan_interval A g ints floats pref bstart uses res i s = got (?s2\<lparr>ss_active := ss_active ?s2 @ [i]\<rparr>)"
        unfolding unfold using merged(6) fit [OF act'] by (simp add: take_register_def Let_def)
      moreover have "scan_inv g ints floats xs0 (Suc i) (?s2\<lparr>ss_active := ss_active ?s2 @ [i]\<rparr>)"
      proof (rule register_step [OF s i S(3) live D(1) _ D(4) act' _ refl])
        show "unat (ss_spill s) \<le> Suc i" using D(3) by simp
        show "has_register (?cur\<lparr>li_physical_register := li_physical_register ?phi\<rparr>)" using merged(3) by (simp add: has_register_def)
        show "unat (li_physical_register ?phi) < scan_limit ints floats ?cur" using reg [OF phi] merged(2,3) by (simp add: scan_limit_def)
        show "\<not> same_register (?xs ! a) (?cur\<lparr>li_physical_register := li_physical_register ?phi\<rparr>)" if "a \<in> set (drop_active k ?act)" for a
        proof -
          have "\<not> same_register (?xs ! a) ?phi" using act that set' phi by (auto simp: active_ok_def)
          then show ?thesis using merged(2,3) by (auto simp: same_register_def)
        qed
      qed (use merged in simp_all)
      ultimately show ?thesis by blast
    next
      case kept
      have cur: "ss_intervals ?s2 ! i = ?cur" "\<not> has_register ?cur" using kept(1) D(5) by simp_all
      obtain free where free: "first_free (scan_limit ints floats ?cur) 0 used = Inr free" "\<forall>m. free = Some m \<longrightarrow> m < scan_limit ints floats ?cur \<and> \<not> used ! m"
        using first_free_succeeds [of 0 "scan_limit ints floats ?cur" used] S(6) used(2) by auto
      show ?thesis
      proof (cases free)
        case None
        obtain t' where t': "spill_interval A g bstart uses res i ?s2 = got t'" "ss_active t' = ?act" "scan_inv g ints floats xs0 (Suc i) (t'\<lparr>ss_active := ?act @ [i]\<rparr>)"
          using spill_step [OF su s i live act, of ?s2 bstart res] kept(1-3) by auto
        then show ?thesis unfolding unfold using cur free(1) None fit [OF act] by (simp add: take_register_def)
      next
        case (Some m)
        have m: "m < scan_limit ints floats ?cur" "\<not> used ! m" "m < 64" using free(2) Some S(6) [of ?cur] by auto
        let ?y = "?cur\<lparr>li_physical_register := of_nat m\<rparr>"
        let ?t = "?s2\<lparr>ss_intervals := ?xs[i := ?y], ss_active := ?act @ [i]\<rparr>"
        note num = small_register_number [OF m(3)]
        have "scan_interval A g ints floats pref bstart uses res i s = got ?t"
          unfolding unfold using cur free(1) Some fit [OF act] kept by (simp add: take_register_def Let_def)
        moreover have "scan_inv g ints floats xs0 (Suc i) ?t"
        proof (rule register_step [OF s i S(3) live D(1) _ D(4) act _ refl])
          show "unat (ss_spill s) \<le> Suc i" using D(3) by simp
          show "has_register ?y" using num by (simp add: has_register_def)
          show "unat (of_nat m :: u16) < scan_limit ints floats ?cur" using m(1) num by simp
          show "\<not> same_register (?xs ! a) ?y" if "a \<in> set ?act" for a
            using used(3) that m(2) num by (auto simp: same_register_def)
        qed (use kept in simp_all)
        ultimately show ?thesis by blast
      qed
    qed
  qed
qed

lemma scan_succeeds:
  assumes su: "scan_setup A g ints floats uses xs0"
  shows "\<exists>s. foldo (scan_interval A g ints floats pref bstart uses res) [0..<sg_value_count g] (initial_scan xs0) = got s \<and>
    map frame (ss_intervals s) = map frame xs0 \<and> allocation_sound g ints floats (ss_spill s) (sg_value_count g) (ss_intervals s)"
proof -
  note S = scan_setupD [OF su]
  let ?P = "scan_inv g ints floats xs0"
  have start: "?P 0 (initial_scan xs0)"
  proof -
    have "\<not> has_register (xs0 ! b)" if "b < length xs0" for b using su that by (simp add: scan_setup_def prepared_def)
    then show ?thesis by (simp add: scan_inv_def initial_scan_def allocation_sound_def active_ok_def)
  qed
  have "\<exists>s. foldo (scan_interval A g ints floats pref bstart uses res) [0..<sg_value_count g] (initial_scan xs0) = got s \<and> ?P (sg_value_count g) s"
    by (rule foldo_upto [where P = ?P, OF _ le0 start]) (use scan_interval_step [OF su] S(1) in simp)
  then show ?thesis by (auto simp: scan_inv_def Let_def)
qed

section \<open>The allocator\<close>

text \<open>An interval reaches a use of its value.\<close>

definition reaches :: "u32 list \<Rightarrow> TurboJSLiveInterval list \<Rightarrow> u32 \<times> u32 \<Rightarrow> bool" where
  "reaches vpos xs = (\<lambda>(x, p). \<exists>y\<in>set xs. li_value_id y = x \<and> li_start y = vpos ! unat x \<and> p \<le> li_end y)"

lemma reaches_frame:
  assumes "map frame xs = map frame ys" "reaches vpos ys u"
  shows "reaches vpos xs u"
proof -
  obtain y where y: "y \<in> set ys" "li_value_id y = fst u" "li_start y = vpos ! unat (fst u)" "snd u \<le> li_end y" using assms(2) by (auto simp: reaches_def split_def)
  have "frame y \<in> set (map frame xs)" using y(1) unfolding assms(1) by simp
  then obtain x where "x \<in> set xs" "frame x = frame y" by auto
  then show ?thesis using y frame_fields [of x y] by (auto simp: reaches_def split_def)
qed

lemma recorded_reaches:
  assumes s: "uses_ok g vpos (uv, xs)" and u: "recorded g (uv, xs) (x, p)" "x \<noteq> TURBOJS_SSA_NO_VALUE" "unat x < sg_value_count g"
  shows "reaches vpos (sort_intervals (locate_uses uv xs)) (x, p)"
proof -
  let ?y = "(xs ! unat x)\<lparr>li_first_use := of_nat (length (flat_uses (take (unat x) uv))), li_use_count := of_nat (length (uv_p (uv ! unat x)))\<rparr>"
  have "?y \<in> set (locate_uses uv xs)" using s u(3) by (auto simp: locate_uses_def uses_ok_def)
  then have "?y \<in> set (sort_intervals (locate_uses uv xs))" by (metis mset_sort_intervals set_mset_mset)
  moreover have "li_value_id ?y = x" "li_start ?y = vpos ! unat x" "p \<le> li_end ?y" using s u by (auto simp: uses_ok_def recorded_def)
  ultimately show ?thesis unfolding reaches_def prod.case by blast
qed

lemma allocate_succeeds:
  assumes g: "scan_ready g" and A: "enough A" and regs: "ints \<le> 64" "floats \<le> 64"
  shows "\<exists>res. allocate A g ints floats = got res \<and> length (lr_intervals res) = sg_value_count g \<and>
    allocation_sound g ints floats (lr_spill_slot_count res) (sg_value_count g) (lr_intervals res) \<and>
    (\<forall>i. i < sg_value_count g \<longrightarrow> (\<forall>(x, p)\<in>set (uses_made g (lr_value_positions res) (lr_block_end_positions res) i).
       x \<noteq> TURBOJS_SSA_NO_VALUE \<longrightarrow> unat x < sg_value_count g \<longrightarrow> reaches (lr_value_positions res) (lr_intervals res) (x, p)))"
proof -
  obtain vpos bstart bend where p: "number_values g = Inr (vpos, bstart, bend)" "positions g (vpos, bstart, bend)"
    using number_values_succeeds [OF g] by (metis prod_cases3)
  obtain uv xs where t: "foldo (add_uses A g vpos bend) [0..<sg_value_count g] (replicate (sg_value_count g) \<lparr>uv_p = [], uv_c = 0\<rparr>, map (new_interval g vpos) [0..<sg_value_count g]) = got (uv, xs)"
      "uses_ok g vpos (uv, xs)" "use_count (uv, xs) \<le> 2 * sg_value_count g" "\<forall>i. i < sg_value_count g \<longrightarrow> (\<forall>u\<in>set (uses_made g vpos bend i). recorded g (uv, xs) u)"
    using all_uses_succeed [OF A g p(2)] by (metis surj_pair)
  obtain ys where ys: "extend_intervals g bstart bend xs = Inr ys" "uses_ok g vpos (uv, ys)" using extend_succeeds [OF g t(2)] by blast
  let ?xs = "sort_intervals (locate_uses uv ys)" and ?uses = "flat_uses uv"
  have count: "use_count (uv, ys) \<le> 2 * sg_value_count g" using t(3) by (simp add: use_count_def)
  have su: "scan_setup A g ints floats ?uses ?xs"
    using locate_uses_prepared [OF ys(2) count g] g A regs count by (simp add: scan_setup_def length_flat_uses use_count_def scan_ready_def)
  let ?res = "null_result\<lparr>lr_phi_coalesce_candidates := snd (preferred_phis g)\<rparr>"
  obtain s where s: "foldo (scan_interval A g ints floats (fst (preferred_phis g)) bstart ?uses ?res) [0..<sg_value_count g] (initial_scan ?xs) = got s"
      "map frame (ss_intervals s) = map frame ?xs" "allocation_sound g ints floats (ss_spill s) (sg_value_count g) (ss_intervals s)"
    using scan_succeeds [OF su] by blast
  let ?r = "?res\<lparr>lr_phi_coalesce_successes := ss_successes s, lr_phi_coalesce_rejected := ss_rejected s, lr_intervals := ss_intervals s,
      lr_fragments := concat (map (value_fragments g (ss_intervals s) (ss_splitv s)) [0..<sg_value_count g]),
      lr_use_positions := ?uses, lr_value_positions := vpos, lr_block_start_positions := bstart, lr_block_end_positions := bend,
      lr_integer_register_count := ints, lr_float_register_count := floats, lr_spill_slot_count := ss_spill s, lr_split_count := ss_splits s\<rparr>"
  have "allocate A g ints floats = got ?r"
    using p(1) t(1) ys(1) s(1) A by (simp add: allocate_def live_intervals_def enough_def Let_def)
  moreover have "reaches vpos (ss_intervals s) (x, q)" if "i < sg_value_count g" "(x, q) \<in> set (uses_made g vpos bend i)" "x \<noteq> TURBOJS_SSA_NO_VALUE" "unat x < sg_value_count g" for i x q
  proof -
    have "recorded g (uv, ys) (x, q)" using t(4) that(1,2) by (auto simp: recorded_def)
    then show ?thesis using recorded_reaches [OF ys(2)] that(3,4) reaches_frame [OF s(2)] by blast
  qed
  moreover have "length (ss_intervals s) = sg_value_count g" using frame_length [OF s(2)] scan_setupD(1) [OF su] by simp
  ultimately show ?thesis using s(3) by (intro exI [of _ ?r]) auto
qed


text \<open>\<open>argument + argument\<close> in one block, with one register of each class.\<close>

definition scan_value :: "TurboJSSSAOpcode \<Rightarrow> u32 \<Rightarrow> u32 \<Rightarrow> TurboJSSSAValue" where
  "scan_value op i operand = \<lparr>sv_opcode = op, sv_type = TURBOJS_SSA_TYPE_INT64, sv_id = i, sv_block = 0, sv_left = operand, sv_right = operand,
     sv_immediate = 0, sv_use_count = 0, sv_source_instruction = 0, sv_deopt_id = 0, sv_removed = False, sv_has_deopt_edge = False,
     sv_property = null_property, sv_element = null_element\<rparr>"

definition scan_example :: TurboJSSSAGraph where
  "scan_example = \<lparr>sg_values = [scan_value TURBOJS_SSA_ARGUMENT 0 TURBOJS_SSA_NO_VALUE, scan_value TURBOJS_SSA_ADD_I64 1 0, scan_value TURBOJS_SSA_RETURN 2 1],
     sg_blocks = [(new_block 0 0 0)\<lparr>sb_value_count := 3\<rparr>], sg_entry_block = 0, sg_deopt_exit_count = 0\<rparr>"

definition scan_memory :: scan_alloc where
  "scan_memory = \<lparr>la_tables = True, la_uses = \<lambda>_ _. True, la_flat = True, la_splits = \<lambda>_. True, la_fragments = True\<rparr>"

lemma scan_example_ready: "scan_ready scan_example" "enough scan_memory"
  by (simp_all add: scan_ready_def scan_block_def scan_example_def new_block_def enough_def scan_memory_def)




end
