(* ===== verification/SSA_Pipeline.thy ===== *)
theory SSA_Pipeline
  imports SSA_Opt_Correct Linear_Scan_Correct Vault
begin

text \<open>
  Straight-line functions through the optimizing tier: the graph that is built, the guards that feedback adds, the optimizer and
  the lowering.
\<close>

section \<open>The graph that is built\<close>

lemma total_uses_le: "total_uses vs k \<le> 2 * length vs"
proof -
  have "sum_list (map (uses_of (of_nat k)) vs) \<le> sum_list (map (\<lambda>_. 2) vs)"
    by (intro sum_list_mono) (simp add: uses_of_def)
  then show ?thesis by (simp add: total_uses_def sum_list_triv mult.commute)
qed

text \<open>Every operand is counted at one value.\<close>

lemma uses_once: "n < 2 ^ 31 \<Longrightarrow> (\<Sum>k<n. uses_of (of_nat k) v) \<le> 2"
proof -
  assume n: "n < 2 ^ 31"
  have one: "(\<Sum>k<n. of_bool (x = (of_nat k :: u32)) :: nat) \<le> 1" for x
  proof -
    have "(\<Sum>k<n. of_bool (x = (of_nat k :: u32)) :: nat) = (\<Sum>k<n. if unat x = k then 1 else 0)"
      using n operand_index by (intro sum.cong) auto
    also have "\<dots> \<le> 1" by (simp add: sum.delta)
    finally show ?thesis .
  qed
  have "(\<Sum>k<n. uses_of (of_nat k) v) \<le> (\<Sum>k<n. of_bool (sv_left v = of_nat k)) + (\<Sum>k<n. of_bool (sv_right v = of_nat k))"
    unfolding sum.distrib [symmetric] by (intro sum_mono) (simp add: uses_of_def)
  then show ?thesis using one [of "sv_left v"] one [of "sv_right v"] by simp
qed

lemma total_uses_sum: "n < 2 ^ 31 \<Longrightarrow> (\<Sum>k<n. total_uses vs k) \<le> 2 * length vs"
proof (induction vs)
  case (Cons v vs)
  have "(\<Sum>k<n. total_uses (v # vs) k) = (\<Sum>k<n. uses_of (of_nat k) v) + (\<Sum>k<n. total_uses vs k)"
    by (simp add: total_uses_def sum.distrib)
  then show ?case using Cons uses_once [of n v] by simp
qed (simp add: total_uses_def)

lemma counted_good:
  assumes vs: "scalar_values argc r vs" "counted vs"
  shows "good argc r vs"
proof -
  have small: "length vs < 2 ^ 31" using scalar_bounds [OF vs(1)] by simp
  have count: "unat (sv_use_count (vs ! k)) = total_uses vs k" if "k < length vs" for k
  proof -
    have "total_uses vs k < 2 ^ 32" using total_uses_le [of vs k] small by simp
    then show ?thesis using vs(2) that by (simp add: counted_def total_uses_def unat_of_nat)
  qed
  have "sum_list (map (unat \<circ> sv_use_count) vs) = (\<Sum>k<length vs. total_uses vs k)"
    using count by (simp add: sum_list_sum_nth atLeast0LessThan)
  then show ?thesis using vs(1) count total_uses_sum [OF small] by (simp add: good_def)
qed

lemma line_scalar:
  assumes code: "line_code (irf_code f)" and f: "wf_function H f" and g: "line_graph (irf_code f) (length (irf_code f)) g"
  shows "scalar_values (irf_argument_count f) (length (irf_code f) - 1) (sg_values g)"
proof -
  let ?code = "irf_code f" and ?vs = "sg_values g"
  have n: "?code \<noteq> []" "length ?code \<le> 65" using code by (simp_all add: line_code_def)
  have map: "map unused ?vs = map (line_value ?code) [0..<length ?code]" using g by (simp add: line_graph_def)
  have len: "length ?vs = length ?code" using arg_cong [OF map, of length] by simp
  have at: "unused (?vs ! i) = line_value ?code i" if "i < length ?code" for i
    using that len arg_cong [OF map, of "\<lambda>xs. xs ! i"] by simp
  have cores: "core (?vs ! i) = core (line_value ?code i)" if "i < length ?code" for i
    using arg_cong [OF at [OF that], of core] by (simp add: core_def unused_def)
  have "scalar_value (irf_argument_count f) (length ?code - 1) i (line_value ?code i)" if i: "i < length ?code" for i
  proof -
    have i65: "i \<le> 65" using i n by simp
    have reads: "unat (read_register (def_table ?code i) x) < i" if "x \<in> set (operands (?code ! i))" for x
      by (rule read_register_bound(1) [OF i65 line_code_defined [OF code i that]])
    have wf: "wf_instruction H f (?code ! i)" using f i by (simp add: wf_function_def)
    consider (return) "Suc i = length ?code" "ins_opcode (?code ! i) = TURBOJS_IR_RETURN_I64"
      | (argument) "Suc i \<noteq> length ?code" "ins_opcode (?code ! i) = TURBOJS_IR_ARGUMENT" | (literal) "Suc i \<noteq> length ?code" "ins_opcode (?code ! i) = TURBOJS_IR_CONSTANT_I64"
      | (binary) "Suc i \<noteq> length ?code" "ins_opcode (?code ! i) \<in> binary_ops"
      using line_code_op [OF code i] by (auto simp: line_ops_def split: if_splits)
    then show ?thesis
    proof cases
      case return
      then show ?thesis
        using reads [of "ins_left (?code ! i)"] small_id(1) [OF i65] n
        by (auto simp: scalar_value_def line_value_def Let_def operands_def map_op_def leaf_ssa_def binary_ssa_def)
    next
      case argument
      then show ?thesis
        using wf_line_instruction(4) [of "?code ! i" H f] wf i small_id(1) [OF i65]
        by (auto simp: scalar_value_def line_value_def Let_def operands_def map_op_def leaf_ssa_def binary_ssa_def binary_ops_def)
    next
      case literal
      then show ?thesis
        using i small_id(1) [OF i65] by (auto simp: scalar_value_def line_value_def Let_def operands_def map_op_def leaf_ssa_def binary_ssa_def binary_ops_def)
    next
      case binary
      have "map_op (ins_opcode (?code ! i)) \<in> binary_ssa" "map_op (ins_opcode (?code ! i)) \<notin> leaf_ssa"
        using binary(2) by (auto simp: binary_ops_def map_op_def binary_ssa_def leaf_ssa_def)
      then show ?thesis
        using binary i small_id(1) [OF i65] reads [of "ins_left (?code ! i)"] reads [of "ins_right (?code ! i)"]
        by (auto simp: scalar_value_def line_value_def Let_def operands_def leaf_ssa_def)
    qed
  qed
  then have "\<forall>i<length ?vs. scalar_value (irf_argument_count f) (length ?code - 1) i (?vs ! i)" using len core_meaning(1) [OF cores] by simp
  moreover have "\<not> sv_removed (?vs ! i)" if "i < length ?code" for i using core_fields(7) [OF cores [OF that]] by (simp add: line_value_def Let_def)
  moreover have "operands_live ?vs v" if "v \<in> set ?vs" for v
  proof -
    have "\<forall>x\<in>{sv_left v, sv_right v}. x = TURBOJS_SSA_NO_VALUE \<or> unat x < length ?code" using line_graph_closed [OF code order_refl g] that by blast
    then show ?thesis using calculation(2) by (auto simp: operands_live_def)
  qed
  ultimately show ?thesis using len n by (simp add: scalar_values_def)
qed

section \<open>Guards from feedback\<close>

lemma scan_upto:
  assumes "\<And>i s. i < n \<Longrightarrow> P i s \<Longrightarrow> \<exists>s'. f i s = Inr (Go s') \<and> P (Suc i) s'"
  shows "k \<le> n \<Longrightarrow> P k s \<Longrightarrow> \<exists>s'. scan f [k..<n] s = Inr s' \<and> P n s'"
proof (induction "n - k" arbitrary: k s)
  case (Suc d)
  have "k < n" using Suc.hyps(2) by simp
  then obtain s1 where "f k s = Inr (Go s1)" "P (Suc k) s1" using assms [of k s] Suc.prems(2) by auto
  moreover have "[k..<n] = k # [Suc k..<n]" using Suc by (simp add: upt_conv_Cons)
  ultimately show ?case using Suc.hyps(1) [of "Suc k" s1] Suc.hyps(2) by (simp add: bindc_def)
qed auto

text \<open>A graph of one block with all values, whose use counts are exact.\<close>

definition lone_graph :: "u16 \<Rightarrow> nat \<Rightarrow> TurboJSSSAGraph \<Rightarrow> bool" where
  "lone_graph argc r g \<longleftrightarrow> scalar_values argc r (sg_values g) \<and> counted (sg_values g) \<and> sg_entry_block g = 0 \<and>
     (\<exists>b. sg_blocks g = [b] \<and> lone_block b \<and> sb_first_value b = 0 \<and> sb_value_count b = of_nat (sg_value_count g))"

text \<open>Guards at the end do not change what the graph computes.\<close>

definition prefixed :: "TurboJSSSAValue list \<Rightarrow> TurboJSSSAValue list \<Rightarrow> bool" where
  "prefixed vs ws \<longleftrightarrow> length vs \<le> length ws \<and> map core (take (length vs) ws) = map core vs"

lemma prefixed_nth:
  assumes "prefixed vs ws" "i < length vs"
  shows "core (ws ! i) = core (vs ! i)"
  using assms core_map_nth [of "take (length vs) ws" vs i] by (simp add: prefixed_def)

lemma denotes_take: "k \<le> length vs \<Longrightarrow> denotes args (take k vs) = take k (denotes args vs)"
proof (induction vs rule: rev_induct)
  case (snoc v vs)
  then show ?case by (cases "k = Suc (length vs)") (simp_all add: denotes_snoc)
qed (simp add: denotes_def)

lemma prefixed_denotes:
  assumes "prefixed vs ws"
  shows "denotes args vs = take (length vs) (denotes args ws)"
  using assms denotes_take [of "length vs" ws args] core_denotes [of "take (length vs) ws" vs args] by (simp add: prefixed_def)

lemma prefixed_fits:
  assumes p: "prefixed vs ws" and vs: "scalar_values argc r vs" "i < length vs" and ws: "length ws < 2 ^ 31"
  shows "fits (denotes args ws) (ws ! i) = fits (denotes args vs) (vs ! i)"
proof -
  have at: "value_at (denotes args ws) k = value_at (denotes args vs) k" if "k \<in> {sv_left (vs ! i), sv_right (vs ! i)}" for k
  proof -
    have "k = TURBOJS_SSA_NO_VALUE \<or> unat k < length vs" using scalar_valuesD(2) [OF vs] that vs(2) by (auto simp: backward_def)
    then show ?thesis using p ws prefixed_denotes [OF p, of args] scalar_bounds [OF vs(1)] by (auto simp: value_at_def prefixed_def)
  qed
  have "fits (denotes args ws) (ws ! i) = fits (denotes args ws) (vs ! i)" by (rule core_meaning(3) [OF prefixed_nth [OF p vs(2)]])
  then show ?thesis using at [of "sv_left (vs ! i)"] at [of "sv_right (vs ! i)"] by (simp add: fits_def)
qed

lemma prefixed_runs:
  assumes p: "prefixed vs ws" and vs: "scalar_values argc r vs" and ws: "length ws < 2 ^ 31"
  shows "runs_ok args ws r 0 = runs_ok args vs r 0" "denotes args ws ! r = denotes args vs ! r"
proof -
  have rl: "r < length vs" using scalar_bounds [OF vs] by simp
  have at: "emits (ws ! i) = emits (vs ! i)" "sv_opcode (ws ! i) = sv_opcode (vs ! i)" "sv_immediate (ws ! i) = sv_immediate (vs ! i)"
    "fits (denotes args ws) (ws ! i) = fits (denotes args vs) (vs ! i)" if "i < r" for i
  proof -
    have i: "i < length vs" using that rl by simp
    note c = prefixed_nth [OF p i]
    show "emits (ws ! i) = emits (vs ! i)" "sv_opcode (ws ! i) = sv_opcode (vs ! i)" "sv_immediate (ws ! i) = sv_immediate (vs ! i)"
      using core_meaning(4) [OF c] core_fields(1,6) [OF c] by simp_all
    show "fits (denotes args ws) (ws ! i) = fits (denotes args vs) (vs ! i)" by (rule prefixed_fits [OF p vs i ws])
  qed
  have tail: "tail_ok args ws r k = tail_ok args vs r k" for k
    unfolding tail_ok_def using at by (intro iff_allI imp_cong refl) simp_all
  have "(0 \<le> j \<longrightarrow> j < k \<longrightarrow> emits (ws ! j) \<longrightarrow> sv_opcode (ws ! j) = TURBOJS_SSA_ARGUMENT \<and> unat (sv_immediate (ws ! j)) < length args) =
      (0 \<le> j \<longrightarrow> j < k \<longrightarrow> emits (vs ! j) \<longrightarrow> sv_opcode (vs ! j) = TURBOJS_SSA_ARGUMENT \<and> unat (sv_immediate (vs ! j)) < length args)" if "k \<le> r" for j k
    using at [of j] that by (cases "j < k") simp_all
  then show "runs_ok args ws r 0 = runs_ok args vs r 0" unfolding runs_ok_def tail by blast
  show "denotes args ws ! r = denotes args vs ! r" using prefixed_denotes [OF p, of args] rl by simp
qed

lemma core_unused: "core (unused v) = core v"
  by (simp add: core_def unused_def)

lemma unused_cores: "map unused ws = map unused vs @ [w] \<Longrightarrow> map core ws = map core (vs @ [w])"
proof -
  assume "map unused ws = map unused vs @ [w]"
  then have "map core (map unused ws) = map core (map unused vs @ [w])" by simp
  then show ?thesis by (simp add: comp_def core_unused)
qed

lemma scalar_snoc:
  assumes vs: "scalar_values argc r vs" "Suc (length vs) < 2 ^ 31" and w: "scalar_value argc r (length vs) w" "operands_live vs w"
  shows "scalar_values argc r (vs @ [w])"
proof -
  have live: "operands_live (vs @ [w]) v" if "operands_live vs v" "backward (length vs) v" for v
    using that by (auto simp: operands_live_def backward_def nth_append)
  have "operands_live (vs @ [w]) v" if "v \<in> set (vs @ [w])" "\<not> sv_removed v" for v
  proof (cases "v \<in> set vs")
    case True
    then obtain i where i: "i < length vs" "v = vs ! i" by (auto simp: in_set_conv_nth)
    have "backward (length vs) v" using scalar_valuesD(2) [OF vs(1) i(1)] i by (auto simp: backward_def)
    then show ?thesis using live [of v] scalar_valuesD(3) [OF vs(1) i(1)] i that(2) by simp
  next
    case False
    then show ?thesis using live [OF w(2) scalar_value_backward [OF w(1)]] that(1) by simp
  qed
  moreover have "scalar_value argc r i ((vs @ [w]) ! i)" if "i < length (vs @ [w])" for i
    using that scalar_valuesD(1) [OF vs(1), of i] w(1) by (auto simp: nth_append less_Suc_eq)
  ultimately show ?thesis using vs by (auto simp: scalar_values_def nth_append)
qed

lemma counted_update:
  assumes "counted vs" "k < length vs" "sv_left w = sv_left (vs ! k)" "sv_right w = sv_right (vs ! k)" "sv_removed w = sv_removed (vs ! k)"
    "sv_use_count w = sv_use_count (vs ! k)"
  shows "counted (vs[k := w])"
proof -
  have "uses_of x w = uses_of x (vs ! k)" for x using assms by (simp add: uses_of_def)
  then have "map (uses_of x) (vs[k := w]) = map (uses_of x) vs" for x using assms(2) by (simp add: map_update list_update_same_conv)
  then show ?thesis using assms(1,2,6) by (auto simp: counted_def nth_list_update)
qed

text \<open>One guard: the graph stays well formed and its old values stay.\<close>

lemma guard_added:
  assumes g: "lone_graph argc r g" and i: "i < r" "\<not> sv_removed (sg_values g ! i)" and n: "Suc (sg_value_count g) < 2 ^ 31" and ok: "\<forall>n. ok n"
  shows "\<exists>h. emit_value ok (update_value i (\<lambda>v. v\<lparr>sv_type := t\<rparr>) g) 0 TURBOJS_SSA_GUARD_INT32 TURBOJS_SSA_TYPE_INT32 (of_nat i) TURBOJS_SSA_NO_VALUE k src = Inr (of_nat (sg_value_count g), h) \<and>
    lone_graph argc r (update_value (sg_value_count g) (\<lambda>v. v\<lparr>sv_has_deopt_edge := True, sv_deopt_id := d\<rparr>) h) \<and>
    prefixed (sg_values g) (sg_values (update_value (sg_value_count g) (\<lambda>v. v\<lparr>sv_has_deopt_edge := True, sv_deopt_id := d\<rparr>) h)) \<and> sg_value_count h = Suc (sg_value_count g)"
proof -
  obtain b where vs: "scalar_values argc r (sg_values g)" "counted (sg_values g)" and b: "sg_blocks g = [b]" "lone_block b" "sg_entry_block g = 0"
      "sb_first_value b = 0" "sb_value_count b = of_nat (sg_value_count g)"
    using g by (auto simp: lone_graph_def)
  let ?n = "sg_value_count g" and ?us = "(sg_values g)[i := (sg_values g ! i)\<lparr>sv_type := t\<rparr>]"
  let ?g1 = "update_value i (\<lambda>v. v\<lparr>sv_type := t\<rparr>) g"
  have il: "i < ?n" using i scalar_bounds [OF vs(1)] by simp
  have cores: "map core ?us = map core (sg_values g)" using il by (simp add: map_update list_update_same_conv core_def)
  have us: "scalar_values argc r ?us" "counted ?us" using core_scalar [OF cores vs(1)] counted_update [OF vs(2) il] by simp_all
  have ids: "unat (of_nat i :: u32) = i" "unat (of_nat ?n :: u32) = ?n" using n il by (simp_all add: unat_of_nat)
  have closed: "\<forall>v\<in>set ?us. \<forall>x\<in>{sv_left v, sv_right v}. x = TURBOJS_SSA_NO_VALUE \<or> unat x < ?n"
  proof
    fix v assume "v \<in> set ?us"
    then obtain j where "j < ?n" "v = ?us ! j" by (auto simp: in_set_conv_nth)
    then show "\<forall>x\<in>{sv_left v, sv_right v}. x = TURBOJS_SSA_NO_VALUE \<or> unat x < ?n"
      using scalar_valuesD(2) [OF us(1), of j] by (auto simp: backward_def)
  qed
  let ?w = "\<lparr>sv_opcode = TURBOJS_SSA_GUARD_INT32, sv_type = TURBOJS_SSA_TYPE_INT32, sv_id = of_nat ?n, sv_block = 0, sv_left = of_nat i, sv_right = TURBOJS_SSA_NO_VALUE,
     sv_immediate = k, sv_use_count = 0, sv_source_instruction = src, sv_deopt_id = 0, sv_removed = False, sv_has_deopt_edge = False,
     sv_property = null_property, sv_element = null_element\<rparr> :: TurboJSSSAValue"
  obtain ws where ws: "emit_value ok ?g1 0 TURBOJS_SSA_GUARD_INT32 TURBOJS_SSA_TYPE_INT32 (of_nat i) TURBOJS_SSA_NO_VALUE k src =
        Inr (of_nat ?n, ?g1\<lparr>sg_values := ws, sg_blocks := [b\<lparr>sb_value_count := sb_value_count b + 1\<rparr>]\<rparr>)" "counted ws" "map unused ws = map unused ?us @ [?w]"
    using emit_value_lone [of ?g1 b ok "of_nat i" TURBOJS_SSA_NO_VALUE TURBOJS_SSA_GUARD_INT32 TURBOJS_SSA_TYPE_INT32 k src] b(1) ok n us(2) closed ids il
    by (auto simp: update_value_def)
  let ?h = "?g1\<lparr>sg_values := ws, sg_blocks := [b\<lparr>sb_value_count := sb_value_count b + 1\<rparr>]\<rparr>"
  let ?h' = "update_value ?n (\<lambda>v. v\<lparr>sv_has_deopt_edge := True, sv_deopt_id := d\<rparr>) ?h"
  have len: "length ws = Suc ?n" using arg_cong [OF ws(3), of length] by simp
  have wcore: "map core ws = map core (?us @ [?w])" by (rule unused_cores [OF ws(3)])
  let ?w' = "?w\<lparr>sv_has_deopt_edge := True\<rparr>"
  have last: "core (ws ! ?n) = core ?w" using core_map_nth [OF wcore, of ?n] len by (simp add: nth_append)
  have hcore: "map core (sg_values ?h') = map core (?us @ [?w'])"
  proof -
    have "core ((ws ! ?n)\<lparr>sv_has_deopt_edge := True, sv_deopt_id := d\<rparr>) = core ?w'" using core_fields [OF last] by (simp add: core_def)
    then have "map core (sg_values ?h') = (map core ws)[?n := core ?w']" by (simp add: update_value_def map_update)
    also have "\<dots> = map core (?us @ [?w'])" unfolding wcore by (simp add: list_update_append)
    finally show ?thesis .
  qed
  have "scalar_value argc r ?n ?w'"
    using ids scalar_bounds [OF vs(1)] i(1) il by (simp add: scalar_value_def leaf_ssa_def binary_ssa_def)
  moreover have "operands_live ?us ?w'" using i(2) ids il by (simp add: operands_live_def)
  ultimately have "scalar_values argc r (sg_values ?h')"
    using scalar_snoc [OF us(1), of ?w'] n core_scalar [OF hcore] by simp
  moreover have "counted (sg_values ?h')" using counted_update [OF ws(2), of ?n] len by (simp add: update_value_def)
  ultimately have "lone_graph argc r ?h'" using b len by (simp add: lone_graph_def update_value_def lone_block_def)
  moreover have "prefixed (sg_values g) (sg_values ?h')"
  proof -
    have "map core (take ?n (sg_values ?h')) = take ?n (map core (?us @ [?w']))" unfolding hcore [symmetric] by (simp add: take_map)
    also have "\<dots> = map core (sg_values g)" using cores by simp
    finally show ?thesis using len by (simp add: prefixed_def update_value_def)
  qed
  ultimately show ?thesis using ws(1) len by (intro exI [of _ ?h]) simp
qed

lemma prefixed_trans: "prefixed us vs \<Longrightarrow> prefixed vs ws \<Longrightarrow> prefixed us ws"
proof -
  assume p: "prefixed us vs" "prefixed vs ws"
  have "map core (take (length us) ws) = take (length us) (map core (take (length vs) ws))" using p(1) by (simp add: take_map prefixed_def min_absorb2)
  also have "\<dots> = map core us" using p by (simp add: prefixed_def take_map)
  finally show ?thesis using p by (simp add: prefixed_def)
qed

lemma prefixed_refl: "prefixed vs vs"
  by (simp add: prefixed_def)

text \<open>The entries of the feedback vector that its count names exist.\<close>

definition feedback_complete :: "TurboJSFeedbackVector \<Rightarrow> bool" where
  "feedback_complete fv \<longleftrightarrow> unat (fv_argument_count fv) \<le> length (fv_arguments fv)"

lemma specialize_argument_step:
  assumes g: "lone_graph argc r g" and i: "i < sg_value_count g" and n: "Suc (sg_value_count g) < 2 ^ 31" and ok: "\<forall>n. ok n" and fv: "feedback_complete fv"
  shows "\<exists>stats' g'. specialize_argument ok fv i (TURBOJS_IR_OK, stats, g) = Inr (Go (TURBOJS_IR_OK, stats', g')) \<and> lone_graph argc r g' \<and>
    prefixed (sg_values g) (sg_values g') \<and> sg_value_count g' \<le> Suc (sg_value_count g)"
proof -
  let ?v = "sg_values g ! i" and ?k = "unat (sv_immediate (sg_values g ! i))"
  have vs: "scalar_values argc r (sg_values g)" using g by (simp add: lone_graph_def)
  have same: ?thesis if "specialize_argument ok fv i (TURBOJS_IR_OK, stats, g) = Inr (Go (TURBOJS_IR_OK, stats, g))"
    using that g by (intro exI [of _ stats] exI [of _ g]) (simp add: prefixed_refl)
  show ?thesis
  proof (cases "sv_removed ?v \<or> sv_opcode ?v \<noteq> TURBOJS_SSA_ARGUMENT \<or> sint (sv_immediate ?v) < 0 \<or> unat (fv_argument_count fv) \<le> ?k")
    case True
    then show ?thesis by (intro same) (auto simp: specialize_argument_def Let_def)
  next
    case False
    let ?slot = "fv_arguments fv ! ?k"
    have slot: "rd (fv_arguments fv) ?k = Inr ?slot" using False fv by (simp add: rd_def feedback_complete_def)
    show ?thesis
    proof (cases "fs_observed_types ?slot \<noteq> TURBOJS_FEEDBACK_INT32 \<or> \<not> TurboJS_FeedbackSlotIsStable (Some ?slot)")
      case True
      then show ?thesis using False slot by (intro same) (auto simp: specialize_argument_def Let_def bindc_def)
    next
      case stable: False
      from vs i have ir: "i < r" using False by (cases rule: scalar_kind) auto
      have v: "sv_block ?v = 0" "sv_id ?v = of_nat i"
        using scalar_valuesD(1) [OF vs i] operand_index [of i "sv_id ?v"] n i by (simp_all add: scalar_value_def)
      have nv: "(of_nat (sg_value_count g) :: u32) \<noteq> TURBOJS_SSA_NO_VALUE" "unat (of_nat (sg_value_count g) :: u32) = sg_value_count g"
        using n operand_index [of "sg_value_count g" TURBOJS_SSA_NO_VALUE] by (auto simp: unat_of_nat)
      obtain h where h: "emit_value ok (update_value i (\<lambda>v. v\<lparr>sv_type := TURBOJS_SSA_TYPE_INT32\<rparr>) g) 0 TURBOJS_SSA_GUARD_INT32 TURBOJS_SSA_TYPE_INT32 (of_nat i) TURBOJS_SSA_NO_VALUE
            (of_nat ?k) (sv_source_instruction ?v) = Inr (of_nat (sg_value_count g), h)"
          "\<And>d. lone_graph argc r (update_value (sg_value_count g) (\<lambda>v. v\<lparr>sv_has_deopt_edge := True, sv_deopt_id := d\<rparr>) h)"
          "\<And>d. prefixed (sg_values g) (sg_values (update_value (sg_value_count g) (\<lambda>v. v\<lparr>sv_has_deopt_edge := True, sv_deopt_id := d\<rparr>) h))" "sg_value_count h = Suc (sg_value_count g)"
        using guard_added [OF g ir _ n ok] False by (metis Inr_inject prod.inject)
      let ?g' = "(update_value (sg_value_count g) (\<lambda>v. v\<lparr>sv_has_deopt_edge := True, sv_deopt_id := sg_deopt_exit_count h\<rparr>) h)\<lparr>sg_deopt_exit_count := sg_deopt_exit_count h + 1\<rparr>"
      have "lone_graph argc r ?g'" using h(2) [of "sg_deopt_exit_count h"] by (simp add: lone_graph_def)
      moreover have "prefixed (sg_values g) (sg_values ?g')" using h(3) by simp
      moreover have "specialize_argument ok fv i (TURBOJS_IR_OK, stats, g) = Inr (Go (TURBOJS_IR_OK, map_option (\<lambda>st. st\<lparr>st_guards_inserted := st_guards_inserted st + 1\<rparr>) stats, ?g'))"
        using False slot stable v h(1) nv by (simp add: specialize_argument_def Let_def bindc_def)
      ultimately show ?thesis using h(4) by (intro exI conjI) (auto simp: update_value_def)
    qed
  qed
qed

lemma specialize_line:
  assumes g: "lone_graph argc r g" and n: "sg_value_count g \<le> 65" and ok: "\<forall>n. ok n" and fv: "feedback_complete fv"
  shows "\<exists>g' stats'. TurboJS_SSASpecializeFromFeedback ok (Some g) (Some fv) stats = Inr (TURBOJS_IR_OK, Some g', stats') \<and> lone_graph argc r g' \<and>
    prefixed (sg_values g) (sg_values g') \<and> sg_value_count g' \<le> 130"
proof -
  let ?P = "\<lambda>i (st, stats :: TurboJSSSAOptimizationStats ptr, h). st = TURBOJS_IR_OK \<and> lone_graph argc r h \<and> prefixed (sg_values g) (sg_values h) \<and> sg_value_count h \<le> sg_value_count g + i"
  have step: "\<exists>s'. specialize_argument ok fv i s = Inr (Go s') \<and> ?P (Suc i) s'" if i: "i < sg_value_count g" and s: "?P i s" for i s
  proof -
    obtain st h where eq: "s = (TURBOJS_IR_OK, st, h)" "lone_graph argc r h" "prefixed (sg_values g) (sg_values h)" "sg_value_count h \<le> sg_value_count g + i"
      using s by (cases s) auto
    have "i < sg_value_count h" "Suc (sg_value_count h) < 2 ^ 31" using eq(3,4) i n by (auto simp: prefixed_def)
    then obtain st' h' where "specialize_argument ok fv i s = Inr (Go (TURBOJS_IR_OK, st', h'))" "lone_graph argc r h'" "prefixed (sg_values h) (sg_values h')"
        "sg_value_count h' \<le> Suc (sg_value_count h)"
      using specialize_argument_step [OF eq(2) _ _ ok fv, of i st] eq(1) by auto
    then show ?thesis using prefixed_trans [OF eq(3)] eq(4) by auto
  qed
  have start: "?P 0 (TURBOJS_IR_OK, stats, g)" using g by (simp add: prefixed_refl)
  have "\<exists>s'. scan (specialize_argument ok fv) [0..<sg_value_count g] (TURBOJS_IR_OK, stats, g) = Inr s' \<and> ?P (sg_value_count g) s'"
    by (rule scan_upto [where P = ?P, OF _ le0 start]) (rule step)
  then obtain st' h where "scan (specialize_argument ok fv) [0..<sg_value_count g] (TURBOJS_IR_OK, stats, g) = Inr (TURBOJS_IR_OK, st', h)"
      "lone_graph argc r h" "prefixed (sg_values g) (sg_values h)" "sg_value_count h \<le> sg_value_count g + sg_value_count g" by auto
  moreover have "sg_blocks g \<noteq> []" using g by (auto simp: lone_graph_def)
  ultimately show ?thesis using n by (auto simp: TurboJS_SSASpecializeFromFeedback_def bindc_def)
qed

section \<open>The driver\<close>

text \<open>
  \<^verbatim>\<open>TurboJS_OptimizingCompile\<close>: build the graph, specialize and optimize it, allocate registers, lower it to IR and compile that.
  Native code generation is the function \<open>ve_baseline\<close> of the environment, as in the code cache; the native function gets the address
  \<open>oe_native\<close>.
\<close>

record TurboJSOptimizingStats =
  os_ssa :: TurboJSSSAOptimizationStats
  os_input_values :: u32
  os_output_values :: u32
  os_deopt_exits :: u32
  os_allocated_intervals :: u32
  os_spilled_intervals :: u32
  os_spill_slots :: u16
  os_reserved :: u16
  os_register_values :: u32
  os_fragment_count :: u32
  os_split_count :: u32
  os_phi_coalesce_candidates :: u32
  os_phi_coalesce_successes :: u32
  os_phi_coalesce_rejected :: u32
  os_frame_bytes :: nat
  os_native_code_bytes :: nat

definition no_optimizing_stats :: TurboJSOptimizingStats where
  "no_optimizing_stats = \<lparr>os_ssa = no_stats, os_input_values = 0, os_output_values = 0, os_deopt_exits = 0, os_allocated_intervals = 0,
     os_spilled_intervals = 0, os_spill_slots = 0, os_reserved = 0, os_register_values = 0, os_fragment_count = 0, os_split_count = 0,
     os_phi_coalesce_candidates = 0, os_phi_coalesce_successes = 0, os_phi_coalesce_rejected = 0, os_frame_bytes = 0, os_native_code_bytes = 0\<rparr>"

record TurboJSOptimizedFunction =
  of_native :: addr
  of_graph :: TurboJSSSAGraph
  of_allocation :: TurboJSLinearScanResult

text \<open>The outcomes of the allocations during one compilation, and the address of the native function.\<close>

record optimizing_env =
  oe_vault :: vault_env
  oe_object :: bool
  oe_build :: ssa_alloc
  oe_guards :: "nat \<Rightarrow> bool"
  oe_passes :: opt_alloc
  oe_scan :: scan_alloc
  oe_lower :: "nat \<Rightarrow> bool"
  oe_next_id :: u64
  oe_native :: addr

text \<open>Six of the counters of the optimizer are added to those of the specialization.\<close>

definition add_ssa_stats :: "TurboJSSSAOptimizationStats \<Rightarrow> TurboJSSSAOptimizationStats \<Rightarrow> TurboJSSSAOptimizationStats" where
  "add_ssa_stats s t = t\<lparr>st_constants_folded := st_constants_folded t + st_constants_folded s,
     st_values_removed := st_values_removed t + st_values_removed s, st_branches_folded := st_branches_folded t + st_branches_folded s,
     st_blocks_removed := st_blocks_removed t + st_blocks_removed s, st_phis_inserted := st_phis_inserted t + st_phis_inserted s,
     st_guards_inserted := st_guards_inserted t + st_guards_inserted s\<rparr>"

definition optimize_graph ::
  "optimizing_env \<Rightarrow> TurboJSSSAGraph \<Rightarrow> TurboJSFeedbackVector ptr \<Rightarrow> TurboJSOptimizingStats ptr
     \<Rightarrow> (TurboJSIRStatus \<times> TurboJSSSAGraph \<times> TurboJSOptimizingStats ptr) c" where
  "optimize_graph E g feedback stats =
     (let stats = map_option (\<lambda>_. no_optimizing_stats\<lparr>os_input_values := of_nat (sg_value_count g)\<rparr>) stats
      in bindc (case feedback of
                  None \<Rightarrow> Inr (TURBOJS_IR_OK, Some g, map_option os_ssa stats)
                | Some _ \<Rightarrow> TurboJS_SSASpecializeFromFeedback (oe_guards E) (Some g) feedback (map_option os_ssa stats)) (\<lambda>(st, g, ssa).
           (let stats = map_option (\<lambda>s. s\<lparr>os_ssa := the ssa\<rparr>) stats
            in if st \<noteq> TURBOJS_IR_OK then Inr (st, the g, stats)
               else bindc (TurboJS_SSAOptimize (oe_passes E) g) (\<lambda>(s, g).
                      Inr (TURBOJS_IR_OK, the g, map_option (\<lambda>t. t\<lparr>os_ssa := add_ssa_stats s (os_ssa t)\<rparr>) stats)))))"

definition allocation_stats :: "TurboJSLinearScanResult \<Rightarrow> TurboJSOptimizingStats \<Rightarrow> TurboJSOptimizingStats" where
  "allocation_stats a s = s\<lparr>os_allocated_intervals := of_nat (length (lr_intervals a)), os_spill_slots := lr_spill_slot_count a,
     os_spilled_intervals := os_spilled_intervals s + of_nat (length (filter (\<lambda>x. 0 \<le> sint (li_spill_slot x)) (lr_intervals a)))\<rparr>"

text \<open>Code generation for the lowered function, and the last counters.\<close>

definition install_native ::
  "optimizing_env \<Rightarrow> TurboJSSSAGraph \<Rightarrow> TurboJSLinearScanResult \<Rightarrow> TurboJSIRFunction \<Rightarrow> TurboJSOptimizingStats ptr \<Rightarrow> TurboJSIRDiagnostic ptr \<Rightarrow> vault_heap
     \<Rightarrow> TurboJSIRStatus \<times> TurboJSOptimizedFunction ptr \<times> TurboJSOptimizingStats ptr \<times> TurboJSIRDiagnostic ptr \<times> vault_heap" where
  "install_native E g a low stats d V =
     (case ve_baseline (oe_vault E) low (vh_jit V) d (vh_log V) of (st, native, d, log) \<Rightarrow>
        if st \<noteq> TURBOJS_IR_OK then (st, None, stats, d, V\<lparr>vh_log := log\<rparr>)
        else (TURBOJS_IR_OK, Some \<lparr>of_native = oe_native E, of_graph = g, of_allocation = a\<rparr>,
              map_option (\<lambda>s. s\<lparr>os_output_values := of_nat (sg_value_count g) - st_values_removed (os_ssa s), os_deopt_exits := sg_deopt_exit_count g,
                                os_native_code_bytes := TurboJS_NativeCodeSize (Some native)\<rparr>) stats,
              d, V\<lparr>vh_natives := (vh_natives V)(oe_native E \<mapsto> native), vh_log := log\<rparr>))"

definition compile_graph ::
  "optimizing_env \<Rightarrow> TurboJSSSAGraph \<Rightarrow> u16 \<Rightarrow> TurboJSOptimizingStats ptr \<Rightarrow> TurboJSIRDiagnostic ptr \<Rightarrow> vault_heap
     \<Rightarrow> (TurboJSIRStatus \<times> TurboJSOptimizedFunction ptr \<times> TurboJSOptimizingStats ptr \<times> TurboJSIRDiagnostic ptr \<times> vault_heap) c" where
  "compile_graph E g argument_count stats d V =
     (if \<not> TurboJS_SSAVerify (Some g)
      then (case fail d TURBOJS_IR_INVALID_OPCODE 0 ''optimized SSA verification failed'' of (st, d) \<Rightarrow> Inr (st, None, stats, d, V))
      else bindc (TurboJS_LinearScanAllocate (oe_scan E) (Some g) 6 8 (Some null_result)) (\<lambda>(st, a).
        if st \<noteq> TURBOJS_IR_OK then Inr (st, None, stats, d, V)
        else (let stats = map_option (allocation_stats (the a)) stats
              in bindc (lower_graph (oe_lower E) (vh_jit V) (oe_next_id E) (Some g) argument_count (Some null_function) d) (\<lambda>(st, low, d, _).
                   if st \<noteq> TURBOJS_IR_OK then Inr (st, None, stats, d, V)
                   else Inr (install_native E g (the a) (the low) stats d V)))))"

definition TurboJS_OptimizingCompile ::
  "optimizing_env \<Rightarrow> TurboJSIRFunction ptr \<Rightarrow> TurboJSFeedbackVector ptr \<Rightarrow> TurboJSOptimizedFunction ptr ptr \<Rightarrow> TurboJSOptimizingStats ptr \<Rightarrow> TurboJSIRDiagnostic ptr \<Rightarrow> vault_heap
     \<Rightarrow> (TurboJSIRStatus \<times> TurboJSOptimizedFunction ptr ptr \<times> TurboJSOptimizingStats ptr \<times> TurboJSIRDiagnostic ptr \<times> vault_heap) c option" where
  "TurboJS_OptimizingCompile E function feedback out_function stats d V =
     (case (function, out_function) of
        (Some f, Some _) \<Rightarrow>
          if \<not> oe_object E
          then (case fail d TURBOJS_IR_OUT_OF_MEMORY 0 ''optimized function allocation failed'' of (st, d) \<Rightarrow> Some (Inr (st, Some None, stats, d, V)))
          else
            (case TurboJS_SSABuildFromIR (oe_build E) function (TurboJS_SSAGraphInit (Some empty_graph)) d of
               None \<Rightarrow> None
             | Some r \<Rightarrow> Some (bindc r (\<lambda>(st, g, d).
                 if st \<noteq> TURBOJS_IR_OK then Inr (st, Some None, stats, d, V)
                 else bindc (optimize_graph E (the g) feedback stats) (\<lambda>(st, g, stats).
                   if st \<noteq> TURBOJS_IR_OK then Inr (st, Some None, stats, d, V)
                   else bindc (compile_graph E g (irf_argument_count f) stats d V) (\<lambda>(st, out, stats, d, V). Inr (st, Some out, stats, d, V))))))
      | _ \<Rightarrow> (case fail d TURBOJS_IR_INVALID_ARGUMENT 0 ''invalid optimizing compile arguments'' of (st, d) \<Rightarrow> Some (Inr (st, out_function, stats, d, V))))"

text \<open>\<open>run\<close> is what \<^verbatim>\<open>TurboJS_NativeInvoke\<close> returns for the code at an address.\<close>

definition TurboJS_OptimizedInvoke ::
  "(addr \<Rightarrow> i64 list ptr \<Rightarrow> nat \<Rightarrow> i64 ptr \<Rightarrow> TurboJSIRStatus \<times> i64 ptr) \<Rightarrow> TurboJSOptimizedFunction ptr \<Rightarrow> i64 list ptr \<Rightarrow> nat \<Rightarrow> i64 ptr \<Rightarrow> TurboJSIRStatus \<times> i64 ptr" where
  "TurboJS_OptimizedInvoke run f a n r =
     (case f of None \<Rightarrow> (TURBOJS_IR_INVALID_ARGUMENT, r) | Some o' \<Rightarrow> if of_native o' = 0 then (TURBOJS_IR_INVALID_ARGUMENT, r) else run (of_native o') a n r)"

definition TurboJS_OptimizedFunctionDestroy :: "TurboJSOptimizedFunction ptr \<Rightarrow> vault_heap \<Rightarrow> vault_heap c" where
  "TurboJS_OptimizedFunctionDestroy f V = (case f of None \<Rightarrow> Inr V | Some o' \<Rightarrow> TurboJS_NativeFunctionDestroy (of_native o') V)"

definition TurboJS_OptimizedCodeSize :: "TurboJSOptimizedFunction ptr \<Rightarrow> vault_heap \<Rightarrow> nat c" where
  "TurboJS_OptimizedCodeSize f V =
     (case f of None \<Rightarrow> Inr 0 | Some o' \<Rightarrow> if of_native o' = 0 then Inr 0 else bindc (deref (vh_natives V) (of_native o')) (\<lambda>n. Inr (TurboJS_NativeCodeSize (Some n))))"

definition TurboJS_OptimizedAllocation :: "TurboJSOptimizedFunction ptr \<Rightarrow> TurboJSLinearScanResult ptr" where
  "TurboJS_OptimizedAllocation f = map_option of_allocation f"

section \<open>Compiling straight-line functions\<close>

text \<open>Every allocation succeeds.\<close>

definition ample :: "optimizing_env \<Rightarrow> bool" where
  "ample E \<longleftrightarrow> oe_object E \<and> al_leader (oe_build E) \<and> (\<forall>n. al_blocks (oe_build E) n) \<and> al_out (oe_build E) \<and> (\<forall>n. al_values (oe_build E) n) \<and>
     al_dominators (oe_build E) \<and> (\<forall>n. oe_guards E n) \<and> enough (oe_scan E) \<and> (\<forall>n. oe_lower E n)"

lemma line_lone_graph:
  assumes "line_code (irf_code f)" "wf_function H f" "line_graph (irf_code f) (length (irf_code f)) g"
  shows "lone_graph (irf_argument_count f) (length (irf_code f) - 1) g \<and> sg_value_count g \<le> 65"
proof -
  have "map unused (sg_values g) = map (line_value (irf_code f)) [0..<length (irf_code f)]" using assms(3) by (simp add: line_graph_def)
  from arg_cong [OF this, of length] have "sg_value_count g = length (irf_code f)" by simp
  then show ?thesis using assms(1,3) line_scalar [OF assms] by (simp add: lone_graph_def line_graph_def line_code_def)
qed

lemma refined_good: "refined argc r g h \<Longrightarrow> good argc r (sg_values h)"
  unfolding refined_def by blast

lemma refined_improves: "refined argc r g h \<Longrightarrow> improves r (sg_values g) (sg_values h)"
  unfolding refined_def by blast

text \<open>
  Optimization keeps a graph of one block and does not change what it computes. The guards that feedback adds stand behind the values that
  are there.
\<close>

lemma optimize_line:
  assumes g: "lone_graph argc r g" "sg_value_count g \<le> 65" and E: "ample E" and fv: "pred_option feedback_complete feedback"
  shows "\<exists>h h0 stats'. optimize_graph E g feedback stats = Inr (TURBOJS_IR_OK, h, stats') \<and> lone_graph argc r h0 \<and> prefixed (sg_values g) (sg_values h0) \<and>
    sg_value_count h0 \<le> 130 \<and> scalar_values argc r (sg_values h) \<and> improves r (sg_values h0) (sg_values h) \<and> sg_entry_block h = 0 \<and>
    (\<exists>b. sg_blocks h = [b] \<and> lone_block b \<and> sb_first_value b = 0 \<and> sb_value_count b = of_nat (sg_value_count h))"
proof -
  let ?stats = "map_option (\<lambda>_. no_optimizing_stats\<lparr>os_input_values := of_nat (sg_value_count g)\<rparr>) stats"
  obtain h0 ssa where h0: "(case feedback of None \<Rightarrow> Inr (TURBOJS_IR_OK, Some g, map_option os_ssa ?stats)
        | Some _ \<Rightarrow> TurboJS_SSASpecializeFromFeedback (oe_guards E) (Some g) feedback (map_option os_ssa ?stats)) = Inr (TURBOJS_IR_OK, Some h0, ssa)"
      "lone_graph argc r h0" "prefixed (sg_values g) (sg_values h0)" "sg_value_count h0 \<le> 130"
  proof (cases feedback)
    case None
    then show ?thesis using that [of g "map_option os_ssa ?stats"] g by (simp add: prefixed_refl)
  next
    case (Some fv)
    then show ?thesis using specialize_line [OF g, of "oe_guards E" fv "map_option os_ssa ?stats"] E assms(4) that by (auto simp: ample_def)
  qed
  obtain b where vs: "scalar_values argc r (sg_values h0)" "counted (sg_values h0)" and b: "sg_entry_block h0 = 0" "sg_blocks h0 = [b]" "lone_block b"
      "sb_first_value b = 0" "sb_value_count b = of_nat (sg_value_count h0)"
    using h0(2) by (auto simp: lone_graph_def)
  obtain s h where h: "TurboJS_SSAOptimize (oe_passes E) (Some h0) = Inr (s, Some h)" "refined argc r (h0\<lparr>sg_blocks := [b\<lparr>sb_reachable := True\<rparr>]\<rparr>) h"
    using optimize_refined [OF counted_good [OF vs] b(2,3,1)] by blast
  have len: "sg_value_count h = sg_value_count h0" using refined_length [OF h(2)] by simp
  have eq: "h = (h0\<lparr>sg_blocks := [b\<lparr>sb_reachable := True\<rparr>]\<rparr>)\<lparr>sg_values := sg_values h\<rparr>" using h(2) unfolding refined_def by blast
  have "sg_blocks h = [b\<lparr>sb_reachable := True\<rparr>]" "sg_entry_block h = 0"
    using arg_cong [OF eq, of sg_blocks] arg_cong [OF eq, of sg_entry_block] b(1) by simp_all
  then have "\<exists>b. sg_blocks h = [b] \<and> lone_block b \<and> sb_first_value b = 0 \<and> sb_value_count b = of_nat (sg_value_count h)" "sg_entry_block h = 0"
    using b(3-5) len by (simp_all add: lone_block_def)
  moreover have "scalar_values argc r (sg_values h)" "improves r (sg_values h0) (sg_values h)"
    using refined_good [OF h(2)] refined_improves [OF h(2)] by (simp_all add: good_def)
  moreover have "\<exists>stats'. optimize_graph E g feedback stats = Inr (TURBOJS_IR_OK, h, stats')"
    unfolding optimize_graph_def Let_def h0(1) using h(1) by (simp add: bindc_def)
  ultimately show ?thesis using h0(2-4) by blast
qed

lemma compile_line:
  assumes h: "scalar_values argc r (sg_values h)" "sg_value_count h \<le> 130" "sg_entry_block h = 0"
      "sg_blocks h = [b]" "lone_block b" "sb_first_value b = 0" "sb_value_count b = of_nat (sg_value_count h)" and E: "ample E"
  shows "\<exists>a f' d' stats'. compile_graph E h argc stats d V = Inr (install_native E h a f' stats' d' V) \<and> scalar_function argc r (sg_values h) f' \<and>
    allocation_sound h 6 8 (lr_spill_slot_count a) (sg_value_count h) (lr_intervals a)"
proof -
  have ready: "scan_ready h" using h by (simp add: scan_ready_def scan_block_def lone_block_def unat_of_nat)
  have "enough (oe_scan E)" and low: "\<forall>n. oe_lower E n" using E by (simp_all add: ample_def)
  then obtain a where a: "allocate (oe_scan E) h 6 8 = got a" "allocation_sound h 6 8 (lr_spill_slot_count a) (sg_value_count h) (lr_intervals a)"
    using allocate_succeeds [OF ready, of "oe_scan E" 6 8] by auto
  have scan: "TurboJS_LinearScanAllocate (oe_scan E) (Some h) 6 8 (Some null_result) = Inr (TURBOJS_IR_OK, Some a)"
    using a(1) \<open>enough (oe_scan E)\<close> by (simp add: TurboJS_LinearScanAllocate_def enough_def got_def)
  obtain f' where f': "lower_graph (oe_lower E) (vh_jit V) (oe_next_id E) (Some h) argc (Some null_function) d =
      bindc (TurboJS_IRVerify (vh_jit V) (Some f') d) (\<lambda>(st, d). Inr (st, Some f', d, oe_next_id E + 1))" "scalar_function argc r (sg_values h) f'"
    using lower_scalar_graph [OF h(1), of "oe_lower E" "vh_jit V" "oe_next_id E" null_function d] h(4) low by auto
  have "storage_inv f'" using f'(2) by (simp add: scalar_function_def)
  then obtain d' where "TurboJS_IRVerify (vh_jit V) (Some f') d = Inr (TURBOJS_IR_OK, d')"
    using verify_ok_iff scalar_well_formed [OF h(1) f'(2)] by metis
  then have "compile_graph E h argc stats d V = Inr (install_native E h a f' (map_option (allocation_stats a) stats) d' V)"
    using scan f'(1) scalar_verifies [OF h(1,4,5,3)] by (simp add: compile_graph_def bindc_def Let_def)
  then show ?thesis using a(2) f'(2) by blast
qed

lemma execute_arguments:
  assumes "TurboJS_IRExecute J H (Some f) args n (Some cell) = Inr (TURBOJS_IR_OK, Some v)"
  shows "\<not> (n \<noteq> 0 \<and> args = None)" "unat (irf_argument_count f) \<le> n"
  using assms by (auto simp: TurboJS_IRExecute_def bindc_def split: sum.splits if_splits prod.splits)

text \<open>The function that was translated runs like the lowering of its graph.\<close>

lemma line_lowered:
  assumes f: "storage_inv f" "wf_function H f" "line_code (irf_code f)" and g: "line_graph (irf_code f) (length (irf_code f)) g"
  shows "\<exists>f0. scalar_function (irf_argument_count f) (length (irf_code f) - 1) (sg_values g) f0 \<and>
    (\<forall>E args n result. TurboJS_IRExecute E H (Some f0) args n result = TurboJS_IRExecute E H (Some f) args n result)"
proof -
  let ?argc = "irf_argument_count f" and ?r = "length (irf_code f) - 1"
  let ?low = "lower_graph (\<lambda>_. True) H 0 (Some g) ?argc (Some null_function) None"
  have vs: "scalar_values ?argc ?r (sg_values g)" by (rule line_scalar [OF f(3,2) g])
  have "sg_block_count g = 1" using g by (auto simp: line_graph_def)
  then obtain f0 where f0: "?low = bindc (TurboJS_IRVerify H (Some f0) None) (\<lambda>(st, d). Inr (st, Some f0, d, 0 + 1))" "scalar_function ?argc ?r (sg_values g) f0"
    using lower_scalar_graph [OF vs, of "\<lambda>_. True" H 0 null_function None] by blast
  obtain f1 where f1: "?low = bindc (TurboJS_IRVerify H (Some f1) None) (\<lambda>(st, d). Inr (st, Some f1, d, 0 + 1))" "line_function (irf_code f) ?argc (length (irf_code f)) f1"
    using lower_line_graph [OF f(3) g, of "\<lambda>_. True" H 0 ?argc null_function None] by blast
  have st: "storage_inv f0" "storage_inv f1" using f0(2) f1(2) by (simp_all add: scalar_function_def line_function_def)
  obtain d0 d1 where "TurboJS_IRVerify H (Some f0) None = Inr (TURBOJS_IR_OK, d0)" "TurboJS_IRVerify H (Some f1) None = Inr (TURBOJS_IR_OK, d1)"
    using st verify_ok_iff scalar_well_formed [OF vs f0(2)] line_well_formed [OF f(3,2) f1(2)] by metis
  then have "f0 = f1" using f0(1) f1(1) by (simp add: bindc_def)
  then show ?thesis using f0(2) line_execute [OF f f1(2)] by blast
qed

text \<open>The whole compilation, for the graph and the function that come out of it.\<close>

lemma compile_straight_line:
  assumes f: "storage_inv f" "wf_function (vh_jit V) f" "line_code (irf_code f)" and E: "ample E" and fv: "pred_option feedback_complete feedback"
  shows "\<exists>h a f' d' stats'. TurboJS_OptimizingCompile E (Some f) feedback (Some out) stats d V =
      Some (Inr (case install_native E h a f' stats' d' V of (st, x, stats, d, V) \<Rightarrow> (st, Some x, stats, d, V))) \<and>
    storage_inv f' \<and> wf_function (vh_jit V) f' \<and> allocation_sound h 6 8 (lr_spill_slot_count a) (sg_value_count h) (lr_intervals a) \<and>
    (\<forall>J K args n cell cell' v. TurboJS_IRExecute J (vh_jit V) (Some f) args n (Some cell) = Inr (TURBOJS_IR_OK, Some v) \<longrightarrow>
       TurboJS_IRExecute K (vh_jit V) (Some f') args n (Some cell') = Inr (TURBOJS_IR_OK, Some v))"
proof -
  let ?code = "irf_code f" and ?argc = "irf_argument_count f" and ?r = "length (irf_code f) - 1" and ?H = "vh_jit V"
  have count: "irf_instruction_count f = length ?code" using length_irf_code [OF f(1)] by simp
  obtain i where i: "TurboJS_SSAGraphInit (Some empty_graph) = Some i" by (simp add: TurboJS_SSAGraphInit_def)
  have A: "al_leader (oe_build E)" "\<forall>n. al_blocks (oe_build E) n" "al_out (oe_build E)" "\<forall>n. al_values (oe_build E) n" "al_dominators (oe_build E)"
    using E by (simp_all add: ample_def)
  obtain g where g: "TurboJS_SSABuildFromIR (oe_build E) (Some f) (Some i) d = Some (Inr (TURBOJS_IR_OK, Some g, d))" "line_graph ?code (length ?code) g"
    using build_line [OF f(3) count A] by blast
  have lone: "lone_graph ?argc ?r g" "sg_value_count g \<le> 65" using line_lone_graph [OF f(3,2) g(2)] by simp_all
  have vs: "scalar_values ?argc ?r (sg_values g)" by (rule line_scalar [OF f(3,2) g(2)])
  obtain h h0 stats1 b where h: "optimize_graph E g feedback stats = Inr (TURBOJS_IR_OK, h, stats1)" "lone_graph ?argc ?r h0" "prefixed (sg_values g) (sg_values h0)"
      "sg_value_count h0 \<le> 130" "scalar_values ?argc ?r (sg_values h)" "improves ?r (sg_values h0) (sg_values h)" "sg_entry_block h = 0"
      "sg_blocks h = [b]" "lone_block b" "sb_first_value b = 0" "sb_value_count b = of_nat (sg_value_count h)"
    using optimize_line [OF lone E fv] by metis
  have small: "sg_value_count h \<le> 130" using h(4) improves_length [OF h(6)] by simp
  obtain a f' d' stats' where c: "compile_graph E h ?argc stats1 d V = Inr (install_native E h a f' stats' d' V)" "scalar_function ?argc ?r (sg_values h) f'"
      "allocation_sound h 6 8 (lr_spill_slot_count a) (sg_value_count h) (lr_intervals a)"
    using compile_line [OF h(5) small h(7-11) E] by blast
  have "TurboJS_OptimizingCompile E (Some f) feedback (Some out) stats d V =
      Some (Inr (case install_native E h a f' stats' d' V of (st, x, stats, d, V) \<Rightarrow> (st, Some x, stats, d, V)))"
    using E g(1) h(1) c(1) i by (simp add: TurboJS_OptimizingCompile_def ample_def bindc_def split: prod.split)
  moreover have "storage_inv f'" "wf_function ?H f'" using c(2) scalar_well_formed(1) [OF h(5) c(2)] by (simp_all add: scalar_function_def)
  moreover have "TurboJS_IRExecute K ?H (Some f') args n (Some cell') = Inr (TURBOJS_IR_OK, Some v)"
    if run: "TurboJS_IRExecute J ?H (Some f) args n (Some cell) = Inr (TURBOJS_IR_OK, Some v)" for J K args n cell cell' v
  proof -
    let ?xs = "case args of None \<Rightarrow> [] | Some xs \<Rightarrow> xs"
    obtain f0 where f0: "scalar_function ?argc ?r (sg_values g) f0" "TurboJS_IRExecute J ?H (Some f0) args n (Some cell) = Inr (TURBOJS_IR_OK, Some v)"
      using line_lowered [OF f g(2)] run by metis
    have args: "\<not> (n \<noteq> 0 \<and> args = None)" "unat ?argc \<le> n" by (rule execute_arguments [OF run])+
    have "runs_ok ?xs (sg_values g) ?r 0" "v = denotes ?xs (sg_values g) ! ?r"
      using scalar_execute [OF vs f0(1) args, of J ?H cell v] f0(2) by simp_all
    moreover have "length (sg_values h0) < 2 ^ 31" using h(4) by simp
    ultimately have "runs_ok ?xs (sg_values h0) ?r 0" "v = denotes ?xs (sg_values h0) ! ?r" using prefixed_runs [OF h(3) vs, of ?xs] by simp_all
    moreover have "denotes ?xs (sg_values h) = denotes ?xs (sg_values h0)" using h(6) by (simp add: improves_def)
    ultimately show ?thesis using scalar_execute [OF h(5) c(2) args, of K ?H cell' v] improves_runs [OF h(6)] by simp
  qed
  ultimately show ?thesis using c(3) by blast
qed

section \<open>Every outcome of a compilation\<close>

text \<open>Code is generated only for a verified function, made from a verified graph of one block.\<close>

definition generated :: "optimizing_env \<Rightarrow> TurboJSOptimizedFunction \<Rightarrow> TurboJSNativeFunction \<Rightarrow> TurboJSIRDiagnostic ptr \<Rightarrow> vault_heap \<Rightarrow> vault_heap \<Rightarrow> bool" where
  "generated E x native d' V V' \<longleftrightarrow> of_native x = oe_native E \<and> TurboJS_SSAVerify (Some (of_graph x)) \<and> sg_block_count (of_graph x) = 1 \<and>
     V' = V\<lparr>vh_natives := (vh_natives V)(oe_native E \<mapsto> native), vh_log := vh_log V'\<rparr> \<and>
     (\<exists>low d0 d1. TurboJS_IRVerify (vh_jit V) (Some low) d0 = Inr (TURBOJS_IR_OK, d1) \<and>
        ve_baseline (oe_vault E) low (vh_jit V) d1 (vh_log V) = (TURBOJS_IR_OK, native, d', vh_log V'))"

lemma lower_graph_verified:
  assumes "lower_graph ok H i (Some g) argc (Some out) d = Inr (TURBOJS_IR_OK, x, d', j)"
  shows "sg_block_count g = 1 \<and> (\<exists>f. x = Some f \<and> TurboJS_IRVerify H (Some f) d = Inr (TURBOJS_IR_OK, d'))"
  using assms by (auto simp: lower_graph_def fail_def bindc_def split: if_splits sum.splits prod.splits lower_exit.splits)

lemma install_native_outcome:
  assumes "install_native E g a low stats d V = (st, x, stats', d', V')" "TurboJS_SSAVerify (Some g)" "sg_block_count g = 1"
    "TurboJS_IRVerify (vh_jit V) (Some low) d0 = Inr (TURBOJS_IR_OK, d)"
  shows "if st = TURBOJS_IR_OK then \<exists>y native. x = Some y \<and> generated E y native d' V V' else x = None \<and> vh_natives V' = vh_natives V"
  using assms by (fastforce simp: install_native_def generated_def split: prod.splits if_splits)

lemma compile_graph_outcome:
  assumes "compile_graph E g argc stats d V = Inr (st, x, stats', d', V')"
  shows "if st = TURBOJS_IR_OK then \<exists>y native. x = Some y \<and> generated E y native d' V V' else x = None \<and> vh_natives V' = vh_natives V"
proof (cases "\<exists>a stats1 low d1. install_native E g a low stats1 d1 V = (st, x, stats', d', V') \<and> TurboJS_SSAVerify (Some g) \<and> sg_block_count g = 1 \<and>
    TurboJS_IRVerify (vh_jit V) (Some low) d = Inr (TURBOJS_IR_OK, d1)")
  case True
  then show ?thesis using install_native_outcome by blast
next
  case False
  then have "st \<noteq> TURBOJS_IR_OK \<and> x = None \<and> V' = V"
    using assms by (auto simp: compile_graph_def fail_def bindc_def Let_def dest!: lower_graph_verified split: if_splits sum.splits prod.splits)
  then show ?thesis by simp
qed

section \<open>Properties of the optimizing tier\<close>

text \<open>
  C1. The optimizing compiler is correct on straight-line code. A verified function of 64-bit operations that ends in its only
  return, has at most 64 operations and defines every register before it reads it goes through the whole pipeline when memory
  suffices, with or without feedback: the graph is built, guarded, optimized and verified, registers are allocated soundly, and code is generated for a
  verified function on which the interpreter returns \<open>v\<close> with status OK whenever it does so on the original one. The optimizer folds constants
  and removes dead operations, so the new function may succeed where the old one stops at an overflow.
\<close>

theorem optimizing_compile_correct:
  assumes "storage_inv f" "wf_function (vh_jit V) f" "line_code (irf_code f)" "ample E" "pred_option feedback_complete feedback"
  shows "\<exists>h a f' d' stats'. TurboJS_OptimizingCompile E (Some f) feedback (Some out) stats d V =
      Some (Inr (case install_native E h a f' stats' d' V of (st, x, stats, d, V) \<Rightarrow> (st, Some x, stats, d, V))) \<and>
    storage_inv f' \<and> wf_function (vh_jit V) f' \<and> allocation_sound h 6 8 (lr_spill_slot_count a) (sg_value_count h) (lr_intervals a) \<and>
    (\<forall>J K args n cell cell' v. TurboJS_IRExecute J (vh_jit V) (Some f) args n (Some cell) = Inr (TURBOJS_IR_OK, Some v) \<longrightarrow>
       TurboJS_IRExecute K (vh_jit V) (Some f') args n (Some cell') = Inr (TURBOJS_IR_OK, Some v))"
  by (rule compile_straight_line [OF assms])

text \<open>A code generator that turns every function into 48 bytes of code.\<close>

definition small_native :: TurboJSNativeFunction where
  "small_native = \<lparr>nf_code_size = 48, nf_argument_count = 1, nf_result_kind = TURBOJS_VALUE_I64, nf_owned_clutch_sites = []\<rparr>"

definition optimizing_example :: optimizing_env where
  "optimizing_example = \<lparr>oe_vault = \<lparr>ve_jit = example_env, ve_baseline = \<lambda>_ _ d log. (TURBOJS_IR_OK, small_native, d, log)\<rparr>, oe_object = True,
     oe_build = enough_memory, oe_guards = \<lambda>_. True, oe_passes = \<lparr>oa_touched = True, oa_paths = \<lambda>_ _. True, oa_worklist = True\<rparr>,
     oe_scan = \<lparr>la_tables = True, la_uses = \<lambda>_ _. True, la_flat = True, la_splits = \<lambda>_. True, la_fragments = True\<rparr>, oe_lower = \<lambda>_. True,
     oe_next_id = 1, oe_native = 512\<rparr>"

definition optimizing_heap :: vault_heap where
  "optimizing_heap = \<lparr>vh_jit = empty_heap, vh_natives = Map.empty, vh_log = []\<rparr>"

text \<open>One argument, seen sixteen times, always a 32-bit integer.\<close>

definition int32_feedback :: TurboJSFeedbackVector where
  "int32_feedback = \<lparr>fv_arguments = [\<lparr>fs_observed_types = TURBOJS_FEEDBACK_INT32, fs_observations = 16, fs_transitions = 0\<rparr>], fv_result = null_slot,
     fv_argument_count = 1, fv_execution_count = 16, fv_bailout_count = 0, fv_exception_count = 0\<rparr>"

lemma optimizing_example_ample: "ample optimizing_example"
  by (simp add: ample_def optimizing_example_def enough_memory_def enough_def)

theorem optimizing_compile_correct_witness:
  "\<exists>h a f' d' stats'. TurboJS_OptimizingCompile optimizing_example (Some (increment TURBOJS_IR_ADD_I64)) (Some int32_feedback) (Some None) None None optimizing_heap =
      Some (Inr (case install_native optimizing_example h a f' stats' d' optimizing_heap of (st, x, stats, d, V) \<Rightarrow> (st, Some x, stats, d, V))) \<and>
    TurboJS_IRExecute example_env empty_heap (Some f') (Some [2147483647]) 1 (Some 0) = Inr (TURBOJS_IR_OK, Some 2147483648)"
proof -
  have H: "vh_jit optimizing_heap = empty_heap" by (simp add: optimizing_heap_def)
  have fv: "pred_option feedback_complete (Some int32_feedback)" by (simp add: feedback_complete_def int32_feedback_def)
  have f: "storage_inv (increment TURBOJS_IR_ADD_I64)" "wf_function (vh_jit optimizing_heap) (increment TURBOJS_IR_ADD_I64)"
    using increment_ok [of TURBOJS_IR_ADD_I64] by (simp_all add: H arithmetic_ops_def)
  show ?thesis
    using optimizing_compile_correct [OF f increment_line optimizing_example_ample fv, where out = None and stats = None and d = None] increment_runs(1)
    unfolding H by blast
qed

text \<open>
  C40. The optimizing compiler fails closed. When a compilation returns, there are two outcomes. With status OK the caller gets an optimized
  function whose graph is verified and has one block, its code was generated for a function that the verifier accepts, and
  destroying it frees the native code at its address. With any other status the caller gets the null pointer and no native function is left
  behind.
\<close>

theorem optimizing_compile_fails_closed:
  assumes run: "TurboJS_OptimizingCompile E (Some f) feedback (Some out) stats d V = Some (Inr (st, out', stats', d', V'))" and native: "oe_native E \<noteq> 0"
  shows "if st = TURBOJS_IR_OK
    then \<exists>x native. out' = Some (Some x) \<and> generated E x native d' V V' \<and>
      (\<exists>V''. TurboJS_OptimizedFunctionDestroy (Some x) V' = Inr V'' \<and> vh_natives V'' = (vh_natives V)(oe_native E := None))
    else out' = Some None \<and> vh_natives V' = vh_natives V"
proof (cases "\<exists>g stats1 d1 x. compile_graph E g (irf_argument_count f) stats1 d1 V = Inr (st, x, stats', d', V') \<and> out' = Some x")
  case True
  then obtain x where x: "out' = Some x" "if st = TURBOJS_IR_OK then \<exists>y native. x = Some y \<and> generated E y native d' V V' else x = None \<and> vh_natives V' = vh_natives V"
    using compile_graph_outcome by blast
  have freed: "\<exists>V''. TurboJS_OptimizedFunctionDestroy (Some y) V' = Inr V'' \<and> vh_natives V'' = (vh_natives V)(oe_native E := None)" if y: "generated E y n d' V V'" for y n
  proof -
    have V': "V' = V\<lparr>vh_natives := (vh_natives V)(oe_native E \<mapsto> n), vh_log := vh_log V'\<rparr>" using y by (simp add: generated_def)
    have "vh_natives V' = (vh_natives V)(oe_native E \<mapsto> n)" using arg_cong [OF V', of vh_natives] by simp
    then show ?thesis using y native by (simp add: TurboJS_OptimizedFunctionDestroy_def TurboJS_NativeFunctionDestroy_def generated_def deref_def bindc_def)
  qed
  show ?thesis using x freed by (auto split: if_splits)
next
  case False
  then have "st \<noteq> TURBOJS_IR_OK \<and> out' = Some None \<and> V' = V"
    using run by (auto simp: TurboJS_OptimizingCompile_def fail_def bindc_def split: if_splits option.splits sum.splits prod.splits)
  then show ?thesis by simp
qed

theorem optimizing_compile_fails_closed_witness:
  "\<exists>x native stats' d' V'. generated optimizing_example x native d' optimizing_heap V' \<and>
    (\<exists>V''. TurboJS_OptimizedFunctionDestroy (Some x) V' = Inr V'' \<and> vh_natives V'' = Map.empty(512 := None)) \<and>
    TurboJS_OptimizingCompile optimizing_example (Some (increment TURBOJS_IR_ADD_I64)) None (Some None) None None optimizing_heap =
      Some (Inr (TURBOJS_IR_OK, Some (Some x), stats', d', V'))"
proof -
  have H: "vh_jit optimizing_heap = empty_heap" "vh_natives optimizing_heap = Map.empty" by (simp_all add: optimizing_heap_def)
  have f: "storage_inv (increment TURBOJS_IR_ADD_I64)" "wf_function (vh_jit optimizing_heap) (increment TURBOJS_IR_ADD_I64)"
    using increment_ok [of TURBOJS_IR_ADD_I64] by (simp_all add: H arithmetic_ops_def)
  have native: "oe_native optimizing_example = 512" by (simp add: optimizing_example_def)
  obtain out' stats' d' V' where run: "TurboJS_OptimizingCompile optimizing_example (Some (increment TURBOJS_IR_ADD_I64)) None (Some None) None None optimizing_heap =
      Some (Inr (TURBOJS_IR_OK, out', stats', d', V'))"
    using compile_straight_line [OF f increment_line optimizing_example_ample, where feedback = None and out = None and stats = None and d = None]
    by (auto simp: install_native_def optimizing_example_def)
  show ?thesis using optimizing_compile_fails_closed [OF run] run unfolding native H by auto
qed

end
