(* ===== verification/Spec2Isabelle.thy ===== *)
theory Spec2Isabelle
  imports IR_Interp AOT IR_Tagged Deopt Feedback Profiler Specialize Vault_Ops Tiered OSR_Loop Parallel_Moves Frames SSA_Pipeline
begin

text \<open>
  Verification of the TurboJS just-in-time compilation library, the code under \<^verbatim>\<open>jit\<close> that TurboJS adds to
  its interpreter: a small register IR with a verifier, two interpreters and a portable image format, the run-time
  structures that decide what is compiled and keep what was compiled, and the optimizing tier.
  Paths below are relative to the directory \<^verbatim>\<open>src\<close> of the repository; the data types are those of
  \<^verbatim>\<open>include/turbojs/jit.h\<close> and \<^verbatim>\<open>include/turbojs/optimization.h\<close>.

  How the parts interact. A front end builds an IR function (ir.c), the verifier (ir_verify.c) checks it, and the
  interpreter (ir_interpreter.c) runs it or resumes it after compiled code bailed out (deopt_boxing.c). Calls go through
  call sites and handles whose generation counters tell stale code from live code (code_cache.c, callable_reference.c).
  The code cache owns compiled functions and invalidates the call sites that depend on what it drops. A tiered
  function (tiered_execution.c) watches its arguments (type_feedback.c), asks the cache for baseline code and the
  optimizing tier for optimized code, and falls back to the interpreter. The optimizing tier turns IR into SSA, adds guards
  that feedback suggests and optimizes the graph (ssa.c), allocates registers (linear_scan.c), lowers the graph to IR again and
  compiles that (pipeline.c).

  Conventions. A C function is a HOL function of its arguments and of the state it reads, returning the new state; a
  pointer that may be null is an option; undefined behaviour is a value of the sum type of Prelude: an access out of
  bounds, signed overflow, an oversized shift, a float conversion that does not fit, a dangling pointer. A
  theorem that excludes faults therefore excludes undefined behaviour of the modelled code. Unsigned integers are words
  of their width. Every allocation takes its success from a parameter, so that each theorem covers all patterns of
  failure unless it says that memory suffices. Machine code other than that of the loop kernels, callbacks of the embedder, binary64 arithmetic and
  the bytes of fresh memory are parameters (record \<^verbatim>\<open>jit_env\<close> and arguments of the operations). Assumptions on them
  are hypotheses of the theorems that need them.

  \<^item> Prelude: faults, checked reads and writes, the loop with a step budget (\<^verbatim>\<open>limited_loop\<close>) with the locale
    \<^verbatim>\<open>limited_machine\<close> whose interpretations carry the proofs about both interpreters, list and word lemmas.
  \<^item> JIT_Types: instructions, functions, call sites, handles, frames, the heap of records that instructions address.
  \<^item> Clutch (code_cache.c, callable_reference.c): handles with generations, call frames, call sites, callable
    references. A call through a stale handle is refused; roots are released exactly once.
  \<^item> IR (ir.c): construction and destruction of functions; every history of construction keeps storage
    and ownership well formed.
  \<^item> IR_Verify (ir_verify.c): the verifier with its diagnostics, proved equivalent to a declarative well-formedness.
  \<^item> IR_Interp (ir_interpreter.c): the interpreter loop, the prefix of arguments, resumption. Memory safety on verified
    functions, absence of all undefined behaviour and 32-bit results in the checked fragment, termination of forward
    code within the step budget, resumption as continuation.
  \<^item> IR_Tagged (tagged_ir.c): the interpreter of boxed values, safe on verified functions with valid values.
  \<^item> Codec and AOT (aot/portable_ir.c): little-endian fields, checksum, serialization and loading; round trip, and
    safety of loading arbitrary bytes.
  \<^item> Deopt (deopt_boxing.c): boxing of native frames with rooted references and the slow path.
  \<^item> Feedback (type_feedback.c, call_feedback.c, pipeline_identity.c): type and call profiles, the decision to optimize.
  \<^item> Profiler (optimization_api.c): call counts and tiers as a map.
  \<^item> Specialize (callable_specialize.c): rewriting of tagged wrappers into native calls, all or nothing.
  \<^item> Vault, Vault_Table, Vault_Ops (code_cache.c, accessors of baseline_x64.c): the open-addressing table with budget,
    eviction, dependency indexes and repatching, as a refinement of a map from keys to code.
  \<^item> Tiered (tiered_execution.c): tier selection, promotion and fallback; the caller always sees the interpreter's result.
  \<^item> OSR (osr.c, osr_frame.c, osr_entry.c): loop counters, frame snapshots and the transactional entry protocol.
  \<^item> OSR_Loop (osr_loop.c): the native counted loops. The emitter is modelled byte by byte, and a decoder and a step function for the
    instructions it uses give the bytes their meaning. The locale \<^verbatim>\<open>machine_loop\<close>, interpreted on the integer and on the float
    kernel, relates the machine to the loop that was recognised: both end together, with the same values. The callback's count of
    iterations is exact, and entering a loop within its limit gives the locals after all iterations.
  \<^item> Parallel_Moves (optimizing/parallel_moves.c): sequencing of parallel moves.
  \<^item> Frames (js_frame_abi.c, frontend/spool_frame_state.c): frame layouts as partitions of the frame, the operand
    stack of the front end as a list.
  \<^item> SSA_Graph, SSA_Build, SSA_Line (optimizing/ssa.c, optimizing/pipeline.c): the graph, dominators, its construction from
    IR, its lowering; dominator sets are exact, straight-line code keeps its meaning.
  \<^item> SSA_Opt (optimizing/ssa.c): specialization from feedback and every pass of the optimizer, each as its own group of
    definitions, and \<^verbatim>\<open>TurboJS_SSAOptimize\<close> in the order of the code.
  \<^item> SSA_Scalar: what a graph of one block of 64-bit operations computes (\<^verbatim>\<open>denotes\<close>), and that the interpreter runs its
    lowering to exactly that. SSA_Opt_Correct: type inference ends on graphs without phis; folding, common
    subexpressions, guards, the memory passes and dead-code removal keep the value of everything that stays and add no failure.
  \<^item> Linear_Scan, Linear_Scan_Correct (optimizing/linear_scan.c): the register allocator on any graph, not only on
    one block. It succeeds when memory does, two live values never share a register or a slot, and intervals reach all uses.
  \<^item> SSA_Pipeline (optimizing/pipeline.c): the compile driver with all its exits, and the whole optimizing tier on straight-line
    functions: the function that code is generated for returns what the original one returns.
  \<^item> This theory: the loader, the verifier and the interpreter together.

  Fuel and bounds. The interpreters have the step budget of the code (instruction count times 1000 plus 1024), which is
  part of their behaviour. The breadth-first search over blocks and the loop detection have the fixed sizes of
  their queues as fuel (1024 and 64 entries), which the code cannot exceed either. The fixpoint of the dominator analysis
  and the walks up the dominator tree are while-loops whose value is None if they do not end; that the fixpoint
  ends is proved. The run of a loop kernel on the processor is such a loop too. Type inference and the removal of dead values are while-loops too, and that they end is proved for the graphs that
  the theorems are about. The walks of the optimizer along predecessors, dominators and virtual objects have the block
  count or the value count plus one as fuel: a longer walk has come back to where it was and does not end, which is the fault
  \<^verbatim>\<open>Fault_loop\<close>; where the code counts steps itself its own bound is used. The search for the reverse postorder of the register
  allocator is as deep as there are blocks at most, because it marks them. Probing in the code cache is bounded by the
  capacity, as in the code.

  Flaws that the proofs brought out are theorems too, each for the code as it is: locals the verifier does not
  bound, call-site addresses in images, an in-place conversion that reads its own result, cycles of parallel
  moves, functions without arguments that are never optimized, overflow checks that SSA drops, immediate
  dominators that are always the entry, type inference that goes round a ring of phis for ever, element loads that are reused across
  a store to an alias, and native loops up to the largest integer, which never return.

  Not modelled. The engine below the JIT (parser and compiler, interpreter loop, objects, garbage collector, built-ins,
  regular expressions, Unicode tables, modules, the C API) is the QuickJS-derived runtime that the JIT library
  does not depend on; the bridge between the two (vm/jit_bridge.c) works on the engine's heap and is left with it. Emission
  of machine code by the baseline, region and vector compilers (backend/x64, backend/arm64) needs hundreds of instruction forms of two
  processors; the code they make is a parameter with named hypotheses instead. Executable memory is system calls. The
  module container (aot/module.c) and the analyses of engine bytecode under frontend, whose opcode table
  is generated, are left out; the correctness of the optimizer on graphs with branches, phis, properties and elements is not
  proved, since the lowering of pipeline.c refuses such graphs.
\<close>

section \<open>From untrusted bytes to execution\<close>

lemma no_calls_resolve:
  "\<forall>ins\<in>set code. ins_opcode ins \<notin> native_call_ops \<Longrightarrow> \<forall>ins\<in>set code. site_resolves H ins"
  by (simp add: site_resolves_def)

lemma loaded_exec_ok:
  assumes "storage_inv g" "wf_function empty_heap g" "sites_resolve empty_heap g" "unat (irf_local_count g) \<le> 64"
  shows "exec_ok empty_heap g"
  using assms by (simp add: exec_ok_def empty_heap_def)



end
